(* ===== verification/Prelude.thy ===== *)
theory Prelude
  imports Main "HOL-Library.Word"
begin

text \<open>
  Shared vocabulary of the development: Rust results as sums, the boolean chains of the
  source's validators (\<open>a || b()? || c\<close>), strings as UTF-8 byte sequences with their
  scalar values, 64-bit signed integers with saturating and checked arithmetic, and
  big-endian integer encodings with the length-prefixed field lists built from them.
  The collections \<open>result_simps\<close> and \<open>shape_simps\<close> carry most component proofs.
\<close>

unbundle bit_operations_syntax

named_theorems result_simps \<open>rewrite rules for results and validator chains\<close>
named_theorems failure_simps \<open>when a chain of results fails\<close>
named_theorems shape_simps \<open>unfolding of the validators of the wire types\<close>

type_synonym u8 = "8 word"
type_synonym u16 = "16 word"
type_synonym u32 = "32 word"
type_synonym bytes = "u8 list"
type_synonym i64 = int

section \<open>Results\<close>

text \<open>Rust's \<open>Result<A, E>\<close> is \<open>'e + 'a\<close>: \<open>Inl\<close> an error, \<open>Inr\<close> a value. The question
  mark operator is \<open>and_then\<close>.\<close>

definition and_then :: "'e + 'a \<Rightarrow> ('a \<Rightarrow> 'e + 'b) \<Rightarrow> 'e + 'b" where
  "and_then m f = (case m of Inl e \<Rightarrow> Inl e | Inr x \<Rightarrow> f x)"

definition ok_or :: "'a option \<Rightarrow> 'e \<Rightarrow> 'e + 'a" where
  "ok_or v e = (case v of None \<Rightarrow> Inl e | Some x \<Rightarrow> Inr x)"

definition map_err :: "('e \<Rightarrow> 'f) \<Rightarrow> 'e + 'a \<Rightarrow> 'f + 'a" where
  "map_err f m = (case m of Inl e \<Rightarrow> Inl (f e) | Inr x \<Rightarrow> Inr x)"

definition map_ok :: "('a \<Rightarrow> 'b) \<Rightarrow> 'e + 'a \<Rightarrow> 'e + 'b" where
  "map_ok f m = (case m of Inl e \<Rightarrow> Inl e | Inr x \<Rightarrow> Inr (f x))"

definition is_ok :: "'e + 'a \<Rightarrow> bool" where
  "is_ok m = (case m of Inl _ \<Rightarrow> False | Inr _ \<Rightarrow> True)"

abbreviation is_err :: "'e + 'a \<Rightarrow> bool" where
  "is_err m \<equiv> \<not> is_ok m"

definition is_some_and :: "('a \<Rightarrow> bool) \<Rightarrow> 'a option \<Rightarrow> bool" where
  "is_some_and p v = (case v of None \<Rightarrow> False | Some x \<Rightarrow> p x)"

text \<open>A chain \<open>c1 || c2? || c3\<close>: evaluated from the left, stopping at the first condition
  that is true or that fails.\<close>

fun any_r :: "('e + bool) list \<Rightarrow> 'e + bool" where
  "any_r [] = Inr False"
| "any_r (c # cs) = (case c of Inl e \<Rightarrow> Inl e | Inr b \<Rightarrow> if b then Inr True else any_r cs)"

definition reject_if :: "('e + bool) list \<Rightarrow> 'e \<Rightarrow> 'e + 'a \<Rightarrow> 'e + 'a" where
  "reject_if cs err k = (case any_r cs of Inl e \<Rightarrow> Inl e | Inr b \<Rightarrow> if b then Inl err else k)"

text \<open>A \<open>for\<close> loop whose body may return an error; the loop has no other effect.\<close>

fun for_each_r :: "('a \<Rightarrow> 'e + unit) \<Rightarrow> 'a list \<Rightarrow> 'e + unit" where
  "for_each_r f [] = Inr ()"
| "for_each_r f (x # xs) = and_then (f x) (\<lambda>_. for_each_r f xs)"

text \<open>\<open>iter().map(f).collect::<Result<Vec<_>, _>>()\<close>.\<close>

fun collect_r :: "('a \<Rightarrow> 'e + 'b) \<Rightarrow> 'a list \<Rightarrow> 'e + 'b list" where
  "collect_r f [] = Inr []"
| "collect_r f (x # xs) = and_then (f x) (\<lambda>y. map_ok (\<lambda>ys. y # ys) (collect_r f xs))"

lemma and_then_simps [simp]:
  "and_then (Inl e) f = Inl e"
  "and_then (Inr x) f = f x"
  by (simp_all add: and_then_def)

lemma and_then_Inr_iff [result_simps]:
  "and_then m f = Inr y \<longleftrightarrow> (\<exists>x. m = Inr x \<and> f x = Inr y)"
  by (cases m) auto

lemma ok_or_simps [simp]: "ok_or None e = Inl e" "ok_or (Some x) e = Inr x"
  by (simp_all add: ok_or_def)

lemma ok_or_Inr_iff [result_simps]: "ok_or v e = Inr x \<longleftrightarrow> v = Some x"
  by (cases v) auto

lemma map_err_simps [simp]: "map_err f (Inl e) = Inl (f e)" "map_err f (Inr x) = Inr x"
  by (simp_all add: map_err_def)

lemma map_err_Inr_iff [result_simps]: "map_err f m = Inr x \<longleftrightarrow> m = Inr x"
  by (cases m) auto

lemma map_ok_simps [simp]: "map_ok f (Inl e) = Inl e" "map_ok f (Inr x) = Inr (f x)"
  by (simp_all add: map_ok_def)

lemma map_ok_Inr_iff [result_simps]: "map_ok f m = Inr y \<longleftrightarrow> (\<exists>x. m = Inr x \<and> y = f x)"
  by (cases m) auto

lemma and_then_Inl_iff [failure_simps]:
  "and_then m f = Inl e \<longleftrightarrow> m = Inl e \<or> (\<exists>x. m = Inr x \<and> f x = Inl e)"
  by (cases m) auto

lemma ok_or_Inl_iff [failure_simps]: "ok_or v e = Inl e' \<longleftrightarrow> v = None \<and> e' = e"
  by (cases v) auto

lemma map_err_Inl_iff [failure_simps]: "map_err f m = Inl e \<longleftrightarrow> (\<exists>e'. m = Inl e' \<and> e = f e')"
  by (cases m) auto

lemma map_ok_Inl_iff [failure_simps]: "map_ok f m = Inl e \<longleftrightarrow> m = Inl e"
  by (cases m) auto

lemma is_ok_simps [simp]: "is_ok (Inl e) = False" "is_ok (Inr x) = True"
  by (simp_all add: is_ok_def)

lemma is_ok_iff [result_simps]: "is_ok m \<longleftrightarrow> (\<exists>x. m = Inr x)"
  by (cases m) auto

lemma is_some_and_simps [simp]:
  "is_some_and p None = False" "is_some_and p (Some x) = p x"
  by (simp_all add: is_some_and_def)

lemma any_r_False_iff [result_simps]: "any_r cs = Inr False \<longleftrightarrow> (\<forall>c \<in> set cs. c = Inr False)"
  by (induction cs) (auto split: sum.splits)

lemma reject_if_Inr_iff [result_simps]:
  "reject_if cs err k = Inr v \<longleftrightarrow> (\<forall>c \<in> set cs. c = Inr False) \<and> k = Inr v"
proof (cases "any_r cs")
  case (Inl e)
  then have "\<not> (\<forall>c \<in> set cs. c = Inr False)"
    using any_r_False_iff [of cs] by auto
  with Inl show ?thesis by (simp add: reject_if_def)
next
  case (Inr b)
  then show ?thesis
    using any_r_False_iff [of cs] by (cases b) (auto simp: reject_if_def)
qed

lemma reject_if_simps [simp]:
  "reject_if [] err k = k"
  "reject_if (Inl e # cs) err k = Inl e"
  "reject_if (Inr True # cs) err k = Inl err"
  "reject_if (Inr False # cs) err k = reject_if cs err k"
  by (simp_all add: reject_if_def)

lemma reject_if_Cons:
  "reject_if (Inr b # cs) err k = (if b then Inl err else reject_if cs err k)"
  by simp

lemma for_each_r_ok_iff [result_simps]:
  "for_each_r f xs = Inr u \<longleftrightarrow> (\<forall>x \<in> set xs. f x = Inr ())"
  by (induction xs) (auto simp: and_then_Inr_iff)

lemma collect_r_ok_iff [result_simps]:
  "collect_r f xs = Inr ys \<longleftrightarrow> list_all2 (\<lambda>x y. f x = Inr y) xs ys"
  by (induction xs arbitrary: ys)
    (auto simp: and_then_Inr_iff map_ok_Inr_iff list_all2_Cons1)

section \<open>Results with a state\<close>

text \<open>An operation that may fail and changes a state \<open>'w\<close> either way.\<close>

definition then_do :: "('w \<Rightarrow> ('e + 'a) \<times> 'w) \<Rightarrow> ('a \<Rightarrow> 'w \<Rightarrow> ('e + 'b) \<times> 'w) \<Rightarrow> 'w \<Rightarrow> ('e + 'b) \<times> 'w" where
  "then_do m f w = (case m w of (Inl e, w) \<Rightarrow> (Inl e, w) | (Inr x, w) \<Rightarrow> f x w)"

definition lift :: "'e + 'a \<Rightarrow> 'w \<Rightarrow> ('e + 'a) \<times> 'w" where
  "lift m w = (m, w)"

lemma then_do_assoc: "then_do (then_do m f) g = then_do m (\<lambda>x. then_do (f x) g)"
  by (rule ext) (simp add: then_do_def split: prod.split sum.split)

lemma then_do_E:
  assumes "then_do m f w = (r, w')"
  obtains (failed) e where "m w = (Inl e, w')" "r = Inl e"
  | (went_on) x w1 where "m w = (Inr x, w1)" "f x w1 = (r, w')"
  using assms by (auto simp: then_do_def split: prod.splits sum.splits)

lemma then_do_lift: "then_do (lift m) f w = (case m of Inl e \<Rightarrow> (Inl e, w) | Inr x \<Rightarrow> f x w)"
  by (simp add: then_do_def lift_def)

lemma lift_unchanged: "lift m w = (r, w') \<Longrightarrow> m = r \<and> w' = w"
  by (simp add: lift_def)

section \<open>Strings and characters\<close>

text \<open>
  A Rust \<open>str\<close> is a UTF-8 byte sequence, here a HOL \<open>string\<close> (a list of 8-bit \<open>char\<close>):
  \<open>len()\<close> is \<open>length\<close> and \<open>as_bytes()\<close> reads the bytes. \<open>chars_of\<close> is \<open>chars()\<close>, the
  scalar values of a well-formed sequence; \<open>utf8\<close> is its inverse, as \<open>String::push\<close>
  writes a character.
\<close>

definition as_bytes :: "string \<Rightarrow> bytes" where
  "as_bytes s = map of_char s"

definition utf8_len :: "nat \<Rightarrow> nat" where
  "utf8_len b = (if b < 0x80 then 1 else if b < 0xE0 then 2 else if b < 0xF0 then 3 else 4)"

definition utf8_lead :: "nat \<Rightarrow> nat" where
  "utf8_lead b = (if b < 0x80 then b else if b < 0xE0 then b mod 0x20
                  else if b < 0xF0 then b mod 0x10 else b mod 0x08)"

fun chars_of_bytes :: "nat list \<Rightarrow> nat list" where
  "chars_of_bytes [] = []"
| "chars_of_bytes (b # bs) =
     foldl (\<lambda>acc c. acc * 0x40 + c mod 0x40) (utf8_lead b) (take (utf8_len b - 1) bs)
     # chars_of_bytes (drop (utf8_len b - 1) bs)"

definition chars_of :: "string \<Rightarrow> nat list" where
  "chars_of s = chars_of_bytes (map of_char s)"

definition utf8_bytes :: "nat \<Rightarrow> nat list" where
  "utf8_bytes c =
     (if c < 0x80 then [c]
      else if c < 0x800 then [0xC0 + c div 0x40, 0x80 + c mod 0x40]
      else if c < 0x10000 then [0xE0 + c div 0x1000, 0x80 + c div 0x40 mod 0x40, 0x80 + c mod 0x40]
      else [0xF0 + c div 0x40000, 0x80 + c div 0x1000 mod 0x40, 0x80 + c div 0x40 mod 0x40,
            0x80 + c mod 0x40])"

definition utf8 :: "nat list \<Rightarrow> string" where
  "utf8 cs = map char_of (concat (map utf8_bytes cs))"

text \<open>\<open>char::is_control\<close>: the general category Cc.\<close>

definition is_control :: "nat \<Rightarrow> bool" where
  "is_control c \<longleftrightarrow> c < 0x20 \<or> (0x7F \<le> c \<and> c < 0xA0)"

definition contains_char :: "char \<Rightarrow> string \<Rightarrow> bool" where
  "contains_char c s \<longleftrightarrow> c \<in> set s"

definition is_ascii_alphanumeric :: "char \<Rightarrow> bool" where
  "is_ascii_alphanumeric c \<longleftrightarrow>
     (let n = (of_char c :: nat) in (48 \<le> n \<and> n \<le> 57) \<or> (65 \<le> n \<and> n \<le> 90) \<or> (97 \<le> n \<and> n \<le> 122))"

definition to_ascii_lower :: "char \<Rightarrow> char" where
  "to_ascii_lower c =
     (let n = (of_char c :: nat) in if 65 \<le> n \<and> n \<le> 90 then char_of (n + 32) else c)"

definition eq_ignore_ascii_case :: "string \<Rightarrow> string \<Rightarrow> bool" where
  "eq_ignore_ascii_case a b \<longleftrightarrow> map to_ascii_lower a = map to_ascii_lower b"

definition starts_with :: "string \<Rightarrow> string \<Rightarrow> bool" where
  "starts_with p s \<longleftrightarrow> take (length p) s = p"

text \<open>A Unicode scalar value fits in 21 bits.\<close>

definition scalar :: "nat \<Rightarrow> bool" where
  "scalar c \<longleftrightarrow> c < 0x110000"

lemma utf8_bytes_small: "scalar c \<Longrightarrow> b \<in> set (utf8_bytes c) \<Longrightarrow> b < 256"
proof -
  assume c: "scalar c" and b: "b \<in> set (utf8_bytes c)"
  have "c div 0x40 < 32" if "c < 0x800" using that by (simp add: less_mult_imp_div_less)
  moreover have "c div 0x1000 < 16" if "c < 0x10000" using that by (simp add: less_mult_imp_div_less)
  moreover have "c div 0x40000 < 5" using c by (simp add: scalar_def less_mult_imp_div_less)
  moreover have "\<And>n :: nat. n mod 0x40 < 0x40" by simp
  ultimately show "b < 256"
    using b unfolding utf8_bytes_def
    by (auto split: if_splits intro: less_trans [OF add_strict_left_mono])
qed

lemma utf8_digits:
  fixes c :: nat
  shows "c div 64 * 64 + c mod 64 = c"
    and "(c div 4096 * 64 + c div 64 mod 64) * 64 + c mod 64 = c"
    and "((c div 262144 * 64 + c div 4096 mod 64) * 64 + c div 64 mod 64) * 64 + c mod 64 = c"
proof -
  have d1: "c div 4096 = c div 64 div 64" by (simp add: div_mult2_eq [symmetric])
  have d2: "c div 262144 = c div 64 div 64 div 64" by (simp add: div_mult2_eq [symmetric])
  show "c div 64 * 64 + c mod 64 = c" by (rule div_mult_mod_eq)
  then show "(c div 4096 * 64 + c div 64 mod 64) * 64 + c mod 64 = c"
    by (simp only: d1 div_mult_mod_eq)
  then show "((c div 262144 * 64 + c div 4096 mod 64) * 64 + c div 64 mod 64) * 64 + c mod 64 = c"
    by (simp only: d1 d2 div_mult_mod_eq)
qed

lemma lead_mod:
  fixes q :: nat
  shows "q < 32 \<Longrightarrow> (192 + q) mod 32 = q" "q < 16 \<Longrightarrow> (224 + q) mod 16 = q"
    and "q < 8 \<Longrightarrow> (240 + q) mod 8 = q" "(128 + q) mod 64 = q mod 64"
proof -
  have "(192 + q) mod 32 = q mod 32" "(224 + q) mod 16 = q mod 16"
    "(240 + q) mod 8 = q mod 8" "(128 + q) mod 64 = q mod 64"
    using mod_mult_self1 [of q 6 32] mod_mult_self1 [of q 14 16]
      mod_mult_self1 [of q 30 8] mod_mult_self1 [of q 2 64] by (simp_all add: add.commute)
  then show "q < 32 \<Longrightarrow> (192 + q) mod 32 = q" "q < 16 \<Longrightarrow> (224 + q) mod 16 = q"
    "q < 8 \<Longrightarrow> (240 + q) mod 8 = q" "(128 + q) mod 64 = q mod 64" by simp_all
qed

lemma chars_of_bytes_utf8:
  assumes "scalar c"
  shows "chars_of_bytes (utf8_bytes c @ rest) = c # chars_of_bytes rest"
proof -
  consider "c < 0x80" | "0x80 \<le> c" "c < 0x800" | "0x800 \<le> c" "c < 0x10000"
    | "0x10000 \<le> c" "c < 0x110000"
    using assms unfolding scalar_def by linarith
  then show ?thesis
  proof cases
    case 1
    then show ?thesis by (simp add: utf8_bytes_def utf8_len_def utf8_lead_def)
  next
    case 2
    then have q: "c div 64 < 32" by (simp add: less_mult_imp_div_less)
    then show ?thesis using 2 utf8_digits(1) [of c]
      by (simp add: utf8_bytes_def utf8_len_def utf8_lead_def lead_mod)
  next
    case 3
    then have q: "c div 4096 < 16" by (simp add: less_mult_imp_div_less)
    then show ?thesis using 3 utf8_digits(2) [of c]
      by (simp add: utf8_bytes_def utf8_len_def utf8_lead_def lead_mod)
  next
    case 4
    then have q: "c div 262144 < 8" by (simp add: less_mult_imp_div_less)
    then show ?thesis using 4 utf8_digits(3) [of c]
      by (simp add: utf8_bytes_def utf8_len_def utf8_lead_def lead_mod)
  qed
qed

lemma chars_of_utf8:
  assumes "\<forall>c \<in> set cs. scalar c"
  shows "chars_of (utf8 cs) = cs"
proof -
  have "map of_char (map char_of (concat (map utf8_bytes cs)) :: string) = concat (map utf8_bytes cs)"
    using assms by (fastforce intro!: map_idI dest: utf8_bytes_small simp: comp_def)
  then have "chars_of (utf8 cs) = chars_of_bytes (concat (map utf8_bytes cs))"
    by (simp only: chars_of_def utf8_def)
  also have "\<dots> = cs"
    using assms by (induction cs) (simp_all add: chars_of_bytes_utf8)
  finally show ?thesis .
qed

text \<open>The invariant of a Rust \<open>str\<close>: it is the UTF-8 encoding of scalar values.\<close>

definition wf_str :: "string \<Rightarrow> bool" where
  "wf_str s \<longleftrightarrow> (\<forall>c \<in> set (chars_of s). scalar c) \<and> utf8 (chars_of s) = s"

text \<open>\<open>str::from_utf8\<close>: the bytes as text, unless they are not the encoding of scalar values.\<close>

definition from_utf8 :: "bytes \<Rightarrow> string option" where
  "from_utf8 bs =
     (let s = map (\<lambda>b. char_of (unat b)) bs
      in if wf_str s \<and> (\<forall>c \<in> set (chars_of s). \<not> (0xD800 \<le> c \<and> c < 0xE000)) then Some s else None)"

lemma chars_of_ascii: "list_all (\<lambda>c. of_char c < (128 :: nat)) s \<Longrightarrow> chars_of s = map of_char s"
  unfolding chars_of_def by (induction s) (simp_all add: utf8_len_def utf8_lead_def)

lemma utf8_ascii: "list_all (\<lambda>c. of_char c < (128 :: nat)) s \<Longrightarrow> utf8 (map of_char s) = s"
  by (induction s) (auto simp: utf8_def utf8_bytes_def)

lemma wf_ascii: "list_all (\<lambda>c. of_char c < (128 :: nat)) s \<Longrightarrow> wf_str s"
  by (auto simp: wf_str_def chars_of_ascii utf8_ascii list_all_iff scalar_def intro: less_trans)

lemma as_bytes_simps [simp]:
  "as_bytes [] = []" "as_bytes (c # s) = of_char c # as_bytes s"
  "as_bytes (s @ t) = as_bytes s @ as_bytes t" "length (as_bytes s) = length s"
  by (simp_all add: as_bytes_def)

lemma unat_of_char [simp]: "unat (of_char c :: u8) = of_char c"
proof -
  have "(of_char c :: nat) < 256" by simp
  moreover have "(of_char c :: u8) = of_nat (of_char c)" by (simp add: of_char_def)
  ultimately show ?thesis by (simp add: unat_of_nat)
qed

lemma of_char_u8_inject [simp]: "(of_char c :: u8) = of_char d \<longleftrightarrow> c = d"
  by (metis of_char_eq_iff unat_of_char)

lemma as_bytes_inject [simp]: "as_bytes s = as_bytes t \<longleftrightarrow> s = t"
  unfolding as_bytes_def by (rule inj_map_eq_map) (simp add: inj_def)

lemma from_utf8_ascii:
  assumes "list_all (\<lambda>c. of_char c < (128 :: nat)) s"
  shows "from_utf8 (as_bytes s) = Some s"
proof -
  have "map (\<lambda>b. char_of (unat b)) (as_bytes s) = s"
    unfolding as_bytes_def by (induction s) simp_all
  moreover have "\<forall>c \<in> set (chars_of s). \<not> (0xD800 \<le> c \<and> c < 0xE000)"
    using assms by (auto simp: chars_of_ascii list_all_iff)
  ultimately show ?thesis using wf_ascii [OF assms] by (simp add: from_utf8_def)
qed

section \<open>Integers\<close>

definition i64_min :: int where "i64_min = - (2 ^ 63)"
definition i64_max :: int where "i64_max = 2 ^ 63 - 1"

definition in_i64 :: "i64 \<Rightarrow> bool" where
  "in_i64 x \<longleftrightarrow> i64_min \<le> x \<and> x \<le> i64_max"

definition saturate_i64 :: "int \<Rightarrow> i64" where
  "saturate_i64 x = max i64_min (min i64_max x)"

definition saturating_add :: "i64 \<Rightarrow> i64 \<Rightarrow> i64" where
  "saturating_add a b = saturate_i64 (a + b)"

definition saturating_sub :: "i64 \<Rightarrow> i64 \<Rightarrow> i64" where
  "saturating_sub a b = saturate_i64 (a - b)"

definition checked_sub :: "i64 \<Rightarrow> i64 \<Rightarrow> i64 option" where
  "checked_sub a b = (if in_i64 (a - b) then Some (a - b) else None)"

lemma saturating_in_i64 [simp]: "in_i64 (saturating_add a b)" "in_i64 (saturating_sub a b)"
  by (simp_all add: in_i64_def saturating_add_def saturating_sub_def saturate_i64_def
      i64_min_def i64_max_def)

lemma saturating_add_exact: "in_i64 (a + b) \<Longrightarrow> saturating_add a b = a + b"
  by (simp add: in_i64_def saturating_add_def saturate_i64_def)

lemma saturating_sub_exact: "in_i64 (a - b) \<Longrightarrow> saturating_sub a b = a - b"
  by (simp add: in_i64_def saturating_sub_def saturate_i64_def)

section \<open>Big-endian encodings and length-prefixed fields\<close>

fun be_bytes :: "nat \<Rightarrow> nat \<Rightarrow> bytes" where
  "be_bytes 0 n = []"
| "be_bytes (Suc k) n = be_bytes k (n div 256) @ [of_nat (n mod 256)]"

definition from_be_bytes :: "bytes \<Rightarrow> nat" where
  "from_be_bytes bs = foldl (\<lambda>acc b. acc * 256 + unat b) 0 bs"

definition u64_be_bytes :: "nat \<Rightarrow> bytes" where "u64_be_bytes n = be_bytes 8 n"

lemma length_be_bytes [simp]: "length (be_bytes k n) = k"
  by (induction k arbitrary: n) auto

lemma length_u64_be_bytes [simp]: "length (u64_be_bytes n) = 8"
  by (simp add: u64_be_bytes_def)

lemma from_be_bytes_append [simp]:
  "from_be_bytes (bs @ [b]) = from_be_bytes bs * 256 + unat b"
  by (simp add: from_be_bytes_def)

lemma unat_of_mod256 [simp]: "unat (of_nat (n mod 256) :: u8) = n mod 256"
  by (simp add: unat_of_nat)

lemma from_be_be_bytes: "n < 256 ^ k \<Longrightarrow> from_be_bytes (be_bytes k n) = n"
proof (induction k arbitrary: n)
  case 0
  then show ?case by (simp add: from_be_bytes_def)
next
  case (Suc k)
  then have "n div 256 < 256 ^ k" by (simp add: less_mult_imp_div_less mult.commute)
  with Suc.IH have "from_be_bytes (be_bytes k (n div 256)) = n div 256" by blast
  then show ?case by (simp add: mult.commute del: of_nat_mod)
qed

lemma u64_be_bytes_inject:
  "m < 2 ^ 64 \<Longrightarrow> n < 2 ^ 64 \<Longrightarrow> u64_be_bytes m = u64_be_bytes n \<Longrightarrow> m = n"
proof -
  assume m: "m < 2 ^ 64" and n: "n < 2 ^ 64" and eq: "u64_be_bytes m = u64_be_bytes n"
  have p: "(256 :: nat) ^ 8 = 2 ^ 64" by simp
  have "m = from_be_bytes (u64_be_bytes m)" "n = from_be_bytes (u64_be_bytes n)"
    unfolding u64_be_bytes_def using m n by (simp_all only: from_be_be_bytes p)
  with eq show "m = n" by simp
qed

text \<open>The field framing of every transcript: each field preceded by its length as a \<open>u64\<close>.\<close>

definition framed :: "bytes list \<Rightarrow> bytes" where
  "framed fields = concat (map (\<lambda>f. u64_be_bytes (length f) @ f) fields)"

lemma framed_inject:
  assumes "\<forall>f \<in> set xs. length f < 2 ^ 64" "\<forall>f \<in> set ys. length f < 2 ^ 64"
    and "framed xs = framed ys"
  shows "xs = ys"
  using assms
proof (induction xs arbitrary: ys)
  case Nil
  then show ?case by (cases ys) (auto simp: framed_def dest: arg_cong [where f = length])
next
  case (Cons x xs)
  from Cons.prems(3) obtain y ys' where ys: "ys = y # ys'"
    by (cases ys) (auto simp: framed_def dest: arg_cong [where f = length])
  have eq: "u64_be_bytes (length x) @ (x @ framed xs) = u64_be_bytes (length y) @ (y @ framed ys')"
    using Cons.prems(3) by (simp add: framed_def ys)
  then have "u64_be_bytes (length x) = u64_be_bytes (length y)" and r: "x @ framed xs = y @ framed ys'"
    by (auto simp: append_eq_append_conv)
  then have "length x = length y"
    using Cons.prems(1,2) ys by (intro u64_be_bytes_inject) simp_all
  with r have "x = y" "framed xs = framed ys'" by auto
  with Cons ys show ?case by auto
qed

end
