(* ===== verification/Wire_Types.thy ===== *)
theory Wire_Types
  imports Prelude
begin

text \<open>
  The data types of the protocol crate: the error enum, the structs and enums of the
  command lane (\<open>v1.rs\<close>), of contextual authentication (\<open>auth_v1.rs\<close>), of tool approval
  (\<open>tool_v1.rs\<close>) and of the control channel (\<open>socket_v1.rs\<close>), with the value types of the
  JSON and CBOR crates that the source matches on. Field names carry a short prefix per
  struct because HOL record fields share one name space. \<open>u8\<close> and \<open>u32\<close> fields are words,
  \<open>i64\<close> timestamps are integers (their range is part of the theorems that need it).
\<close>

section \<open>Errors\<close>

datatype error =
    InvalidRequest string
  | BadVerdict string
  | Decode string
  | InvalidConfig string
  | BadChallenge
  | BadOrigin
  | BadRpId
  | MissingUserPresence
  | MissingUserVerification
  | Expired
  | InvalidSignature
  | MalformedAuthenticatorData
  | MalformedClientData
  | UnexpectedCredentialType

section \<open>Opaque values of the cryptographic crates\<close>

text \<open>Parsed keys and signatures are values of other crates: the model only passes them on.\<close>

datatype verifying_key = VerifyingKey bytes
datatype signature = Signature bytes
datatype static_secret = StaticSecret bytes

section \<open>CBOR and JSON values\<close>

text \<open>\<open>ciborium::Value\<close>, with floats as their bit patterns.\<close>

datatype cbor =
    CInteger int
  | CBytes bytes
  | CFloat "64 word"
  | CText string
  | CBool bool
  | CNull
  | CTag nat cbor
  | CArray "cbor list"
  | CMap "(cbor \<times> cbor) list"

text \<open>A JSON number as \<open>serde_json\<close> delivers it; a float by its bit pattern.\<close>

datatype json_number = NI64 int | NU64 nat | NF64 "64 word"

text \<open>\<open>serde_json::Value\<close>: an object is a \<open>BTreeMap\<close>, here its entries in key order.\<close>

datatype json =
    JNull
  | JBool bool
  | JNumber json_number
  | JString string
  | JArray "json list"
  | JObject "(string \<times> json) list"

text \<open>What the JSON deserializer hands to a visitor: an object is the sequence of its
  entries as written, duplicate keys included.\<close>

datatype json_events =
    ENull
  | EBool bool
  | ENumber json_number
  | EString string
  | ESeq "json_events list"
  | EMap "(string \<times> json_events) list"

section \<open>The command lane\<close>

record EnvEntryV1 =
  ev_name :: string
  ev_value :: string

record RequestV1 =
  rq_version :: u8
  rq_request_id :: string
  rq_nonce :: string
  rq_host :: string
  rq_user :: string
  rq_uid :: u32
  rq_runas_uid :: u32
  rq_cwd :: string
  rq_tty :: "string option"
  rq_command :: string
  rq_argv :: "string list"
  rq_pid_chain :: "string list"
  rq_env :: "EnvEntryV1 list"
  rq_session :: "string option"
  rq_issued_at :: i64
  rq_expires_at :: i64

record SealedDeviceBodyV1 =
  sb_device_fingerprint :: string
  sb_ephemeral_pub :: string
  sb_nonce :: string
  sb_ciphertext :: string

record RequestEnvelopeV1 =
  en_version :: u8
  en_request_id :: string
  en_host :: string
  en_user :: string
  en_issued_at :: i64
  en_expires_at :: i64
  en_sealed :: "SealedDeviceBodyV1 list"

datatype DeviceKindV1 = Webauthn | Software | SecureEnclave

record DevicePublicRecordV1 =
  dv_version :: u8
  dv_kind :: DeviceKindV1
  dv_fingerprint :: string
  dv_credential_id :: string
  dv_credential_public_key :: string
  dv_box_public_key :: string
  dv_label :: string
  dv_api_token_hash :: string
  dv_sign_count :: u32
  dv_active :: bool

record DeviceRegistryV1 =
  rg_version :: u8
  rg_devices :: "DevicePublicRecordV1 list"

record HookConfigV1 =
  cf_version :: u8
  cf_origin :: string
  cf_rp_id :: string
  cf_server_base_url :: string

record EnrollmentIntentV1 =
  in_version :: u8
  in_enrollment_id :: string
  in_secret_hash :: string
  in_expires_at :: i64
  in_reply_subject :: string

record NativeEnrollmentSubmissionV1 =
  ns_version :: u8
  ns_enrollment_id :: string
  ns_credential_public_key :: string
  ns_box_public_key :: string
  ns_api_token_hash :: string
  ns_label :: string
  ns_proof_signature :: string
  ns_transcript_hmac :: string

record WebauthnEnrollmentSubmissionV1 =
  ws_version :: u8
  ws_enrollment_id :: string
  ws_registration_client_data_json :: string
  ws_attestation_object :: string
  ws_proof_authenticator_data :: string
  ws_proof_client_data_json :: string
  ws_proof_signature :: string
  ws_credential_id :: string
  ws_box_public_key :: string
  ws_api_token_hash :: string
  ws_label :: string
  ws_transcript_hmac :: string

datatype EnrollmentSubmissionV1 =
    SubmitWebauthn WebauthnEnrollmentSubmissionV1
  | SubmitSoftware NativeEnrollmentSubmissionV1
  | SubmitSecureEnclave NativeEnrollmentSubmissionV1

record ActivationV1 =
  ac_version :: u8
  ac_enrollment_id :: string
  ac_device :: DevicePublicRecordV1

datatype EnrollmentStatusV1 = Pending | Active | StatusExpired | Rejected

record ApproveNativeV1 =
  an_version :: u8
  an_request_id :: string
  an_device_fingerprint :: string
  an_signature :: string

record ApproveV1 =
  ap_version :: u8
  ap_request_id :: string
  ap_device_fingerprint :: string
  ap_credential_id :: string
  ap_authenticator_data :: string
  ap_client_data_json :: string
  ap_signature :: string

record DenyV1 =
  dn_version :: u8
  dn_request_id :: string
  dn_device_fingerprint :: string
  dn_signature :: "string option"

datatype DecisionV1 = Approve ApproveV1 | ApproveNative ApproveNativeV1 | Deny DenyV1

section \<open>WebAuthn assertions\<close>

record AssertionOutcomeV1 =
  ao_observed_sign_count :: u32
  ao_counter_regressed :: bool

record ClientData =
  cd_type :: string
  cd_challenge :: string
  cd_origin :: string
  cd_cross_origin :: bool

section \<open>Contextual authentication\<close>

record TrustedAuthContextV1 =
  tc_host :: string
  tc_service :: string
  tc_pam_user :: string
  tc_pam_uid :: u32
  tc_invoking_uid :: u32
  tc_invoking_user :: "string option"
  tc_tty :: "string option"

datatype AuthInvocationV1 =
    Available string "string list" string
  | Truncated "string option" "string list" "string option" "u32 option"
  | Unavailable

record SubmittedAuthContextV1 =
  sc_session :: "string option"
  sc_agent_label :: "string option"
  sc_invocation :: AuthInvocationV1

record AuthRequestV1 =
  aq_message_type :: string
  aq_version :: u8
  aq_request_id :: string
  aq_nonce :: string
  aq_issued_at :: i64
  aq_expires_at :: i64
  aq_trusted :: TrustedAuthContextV1
  aq_submitted :: SubmittedAuthContextV1

record OpenedAuthRequestV1 =
  oa_request :: AuthRequestV1
  oa_raw :: bytes

record AuthEnvelopeV1 =
  ae_message_type :: string
  ae_version :: u8
  ae_request_id :: string
  ae_host :: string
  ae_issued_at :: i64
  ae_expires_at :: i64
  ae_sealed :: "SealedDeviceBodyV1 list"

record AuthApproveNativeV1 =
  aan_version :: u8
  aan_request_id :: string
  aan_device_fingerprint :: string
  aan_signature :: string

record AuthApproveWebauthnV1 =
  aaw_version :: u8
  aaw_request_id :: string
  aaw_device_fingerprint :: string
  aaw_credential_id :: string
  aaw_authenticator_data :: string
  aaw_client_data_json :: string
  aaw_signature :: string

datatype AuthDecisionV1 =
    AuthenticateNative AuthApproveNativeV1
  | AuthenticateWebauthn AuthApproveWebauthnV1

section \<open>Tool approval\<close>

datatype ToolHarnessV1 = Codex | Claude

record ToolAcknowledgementV1 =
  ta_message_type :: string
  ta_version :: u8
  ta_request_id :: string

record ToolDeliveryV1 =
  td_message_type :: string
  td_version :: u8
  td_request_id :: string

record ToolContextV1 =
  tx_session_id :: "string option"
  tx_turn_id :: "string option"
  tx_agent_id :: "string option"
  tx_agent_type :: "string option"
  tx_permission_mode :: "string option"

record ToolApprovalRequestV1 =
  tr_message_type :: string
  tr_version :: u8
  tr_request_id :: string
  tr_nonce :: string
  tr_harness :: ToolHarnessV1
  tr_event :: string
  tr_tool_name :: string
  tr_tool_input :: json
  tr_cwd :: string
  tr_native_event_json :: string
  tr_context :: ToolContextV1
  tr_description :: "string option"
  tr_issued_at :: i64
  tr_expires_at :: i64

record ToolSealedBodyV1 =
  tb_device_fingerprint :: string
  tb_ephemeral_pub :: string
  tb_nonce :: string
  tb_ciphertext :: string

record ToolApprovalEnvelopeV1 =
  te_message_type :: string
  te_version :: u8
  te_request_id :: string
  te_issued_at :: i64
  te_expires_at :: i64
  te_sealed :: "ToolSealedBodyV1 list"

datatype ToolDecisionActionV1 = ToolApprove | ToolDeny

record ToolApprovalWebauthnV1 =
  tw_version :: u8
  tw_request_id :: string
  tw_device_fingerprint :: string
  tw_credential_id :: string
  tw_authenticator_data :: string
  tw_client_data_json :: string
  tw_signature :: string

datatype ToolApprovalDecisionV1 =
    ToolDecisionApprove ToolApprovalWebauthnV1
  | ToolDecisionDeny ToolApprovalWebauthnV1

section \<open>Control messages\<close>

record DeliveryV1 =
  dl_message_type :: string
  dl_version :: u8
  dl_request_id :: string

record AliveV1 =
  al_message_type :: string
  al_version :: u8
  al_request_id :: string

datatype ControlMessageV1 =
    ControlAlive AliveV1
  | ControlDelivery DeliveryV1
  | ControlDecision DecisionV1
  | ControlAuthDecision AuthDecisionV1

datatype ControlMessageOutcome = Message ControlMessageV1 | UnknownKind string

record ControlMessageProbe =
  pb_message_type :: "string option"
  pb_action :: "json option"

end
