(* ===== verification/Crates.thy ===== *)
theory Crates
  imports Wire_Types
begin

text \<open>
  The functions of other crates that the program calls, as one record that every
  definition using them takes as an argument: base64, SHA-256, HMAC, P-256 ECDSA, X25519,
  ChaCha20-Poly1305, CBOR, and the JSON (de)serializers that the serde derives generate for
  the wire types. Nothing is assumed of them here. The predicates below name the documented
  behaviour that some theorems rely on.
\<close>

record crates =
  b64_encode :: "bytes \<Rightarrow> string"
  b64_decode :: "string \<Rightarrow> bytes option"
  sha256 :: "bytes \<Rightarrow> bytes"
  hmac_sha256 :: "bytes \<Rightarrow> bytes \<Rightarrow> bytes"
  vk_from_sec1_bytes :: "bytes \<Rightarrow> verifying_key option"
  sig_from_der :: "bytes \<Rightarrow> signature option"
  ecdsa_verify :: "verifying_key \<Rightarrow> bytes \<Rightarrow> signature \<Rightarrow> bool"
  x25519_public :: "static_secret \<Rightarrow> bytes"
  x25519_diffie_hellman :: "static_secret \<Rightarrow> bytes \<Rightarrow> bytes"
  aead_encrypt :: "bytes \<Rightarrow> bytes \<Rightarrow> bytes \<Rightarrow> bytes option"
  aead_decrypt :: "bytes \<Rightarrow> bytes \<Rightarrow> bytes \<Rightarrow> bytes option"
  cbor_from_reader :: "bytes \<Rightarrow> nat \<Rightarrow> (cbor \<times> nat) option"
  cbor_into_writer :: "cbor \<Rightarrow> bytes option"
  json_events_from_slice :: "bytes \<Rightarrow> string + json_events"
  to_vec_request :: "RequestV1 \<Rightarrow> string + bytes"
  from_slice_request :: "bytes \<Rightarrow> string + RequestV1"
  to_vec_envelope :: "RequestEnvelopeV1 \<Rightarrow> string + bytes"
  to_vec_auth_request :: "AuthRequestV1 \<Rightarrow> string + bytes"
  from_slice_auth_request :: "bytes \<Rightarrow> string + AuthRequestV1"
  to_vec_auth_envelope :: "AuthEnvelopeV1 \<Rightarrow> string + bytes"
  to_vec_tool_request :: "ToolApprovalRequestV1 \<Rightarrow> string + bytes"
  from_value_tool_request :: "json \<Rightarrow> string + ToolApprovalRequestV1"
  to_vec_tool_envelope :: "ToolApprovalEnvelopeV1 \<Rightarrow> string + bytes"
  client_data_from_slice :: "string \<Rightarrow> bytes \<Rightarrow> string + ClientData"
  client_data_from_value :: "string \<Rightarrow> json \<Rightarrow> string + ClientData"
  probe_from_slice :: "bytes \<Rightarrow> string + ControlMessageProbe"
  alive_from_slice :: "bytes \<Rightarrow> string + AliveV1"
  delivery_from_slice :: "bytes \<Rightarrow> string + DeliveryV1"
  decision_from_slice :: "bytes \<Rightarrow> string + DecisionV1"
  auth_decision_from_slice :: "bytes \<Rightarrow> string + AuthDecisionV1"
  webauthn_submission_from_value :: "json \<Rightarrow> string + WebauthnEnrollmentSubmissionV1"
  native_submission_from_value :: "json \<Rightarrow> string + NativeEnrollmentSubmissionV1"
  json_to_string :: "json \<Rightarrow> string"
  from_slice_envelope :: "bytes \<Rightarrow> string + RequestEnvelopeV1"
  tool_delivery_from_slice :: "bytes \<Rightarrow> string + ToolDeliveryV1"
  tool_ack_from_slice :: "bytes \<Rightarrow> string + ToolAcknowledgementV1"
  tool_decision_from_slice :: "bytes \<Rightarrow> string + ToolApprovalDecisionV1"

text \<open>
  The first argument of \<open>client_data_from_slice\<close> and \<open>client_data_from_value\<close> is the JSON key
  that the struct's serde attributes give its cross-origin flag; the other three keys are
  \<open>type\<close>, \<open>challenge\<close> and \<open>origin\<close> in every module.

  Documented behaviour, as named hypotheses:
\<close>

text \<open>Unpadded base64url decodes what it encoded and never writes a padding character.\<close>

definition b64_roundtrip :: "crates \<Rightarrow> bool" where
  "b64_roundtrip X \<longleftrightarrow>
     (\<forall>bs. b64_decode X (b64_encode X bs) = Some bs \<and> CHR ''='' \<notin> set (b64_encode X bs))"

text \<open>Digest sizes.\<close>

definition digest_sizes :: "crates \<Rightarrow> bool" where
  "digest_sizes X \<longleftrightarrow>
     (\<forall>m. length (sha256 X m) = 32) \<and> (\<forall>k m. length (hmac_sha256 X k m) = 32)"

text \<open>X25519 agreement is symmetric, and the AEAD opens what it sealed under the same key and
  nonce.\<close>

definition box_correct :: "crates \<Rightarrow> bool" where
  "box_correct X \<longleftrightarrow>
     (\<forall>a b. x25519_diffie_hellman X a (x25519_public X b)
          = x25519_diffie_hellman X b (x25519_public X a)) \<and>
     (\<forall>k n m c. aead_encrypt X k n m = Some c \<longrightarrow> aead_decrypt X k n c = Some m)"

text \<open>A struct serialized to JSON reads back as itself.\<close>

definition request_json_roundtrip :: "crates \<Rightarrow> bool" where
  "request_json_roundtrip X \<longleftrightarrow>
     (\<forall>r raw. to_vec_request X r = Inr raw \<longrightarrow> from_slice_request X raw = Inr r)"

text \<open>A hash with no collision on the inputs at hand; theorems about challenge binding say
  instead that a clash would be a collision.\<close>

definition sha256_collision :: "crates \<Rightarrow> bytes \<Rightarrow> bytes \<Rightarrow> bool" where
  "sha256_collision X a b \<longleftrightarrow> a \<noteq> b \<and> sha256 X a = sha256 X b"

definition hmac_collision :: "crates \<Rightarrow> bytes \<Rightarrow> bytes \<Rightarrow> bytes \<Rightarrow> bool" where
  "hmac_collision X k a b \<longleftrightarrow> a \<noteq> b \<and> hmac_sha256 X k a = hmac_sha256 X k b"

end
