(* ===== verification/Cose_Key.thy ===== *)
theory Cose_Key
  imports Crates
begin

text \<open>
  Bounded CBOR decoding and P-256 key parsing (\<open>protocol/src/webauthn_v1.rs\<close>,
  \<open>protocol/src/native_v1.rs\<close>). The value walk threads the \<open>item_count\<close> that the source
  mutates through a reference; failing is \<open>None\<close>. The theorems say exactly which values
  the walk accepts, and what a parsed key rests on.
\<close>

definition MAX_ATTESTATION_CBOR_BYTES :: nat where "MAX_ATTESTATION_CBOR_BYTES = 128 * 1024"
definition MAX_COSE_CBOR_BYTES :: nat where "MAX_COSE_CBOR_BYTES = 4 * 1024"
definition MAX_CBOR_DEPTH :: nat where "MAX_CBOR_DEPTH = 16"
definition MAX_CBOR_ITEMS :: nat where "MAX_CBOR_ITEMS = 256"

section \<open>Equality of values up to the order of map entries\<close>

text \<open>\<open>cbor_match_entry\<close> is the inner \<open>any\<close> of the map case: it scans the right entries for
  the first unmatched equal one and returns the updated \<open>matched\<close> vector.\<close>

function (sequential) cbor_values_equal :: "cbor \<Rightarrow> cbor \<Rightarrow> bool"
  and cbor_arrays_equal :: "cbor list \<Rightarrow> cbor list \<Rightarrow> bool"
  and cbor_maps_equal :: "(cbor \<times> cbor) list \<Rightarrow> (cbor \<times> cbor) list \<Rightarrow> bool list \<Rightarrow> bool"
  and cbor_match_entry ::
    "cbor \<Rightarrow> cbor \<Rightarrow> (cbor \<times> cbor) list \<Rightarrow> bool list \<Rightarrow> bool list option" where
  "cbor_values_equal left right =
     (case left of
        CInteger l \<Rightarrow> (case right of CInteger r \<Rightarrow> l = r | _ \<Rightarrow> False)
      | CBytes l \<Rightarrow> (case right of CBytes r \<Rightarrow> l = r | _ \<Rightarrow> False)
      | CText l \<Rightarrow> (case right of CText r \<Rightarrow> l = r | _ \<Rightarrow> False)
      | CFloat l \<Rightarrow> (case right of CFloat r \<Rightarrow> l = r | _ \<Rightarrow> False)
      | CBool l \<Rightarrow> (case right of CBool r \<Rightarrow> l = r | _ \<Rightarrow> False)
      | CNull \<Rightarrow> (case right of CNull \<Rightarrow> True | _ \<Rightarrow> False)
      | CTag lt l \<Rightarrow> (case right of CTag rt r \<Rightarrow> lt = rt \<and> cbor_values_equal l r | _ \<Rightarrow> False)
      | CArray l \<Rightarrow>
          (case right of CArray r \<Rightarrow> length l = length r \<and> cbor_arrays_equal l r | _ \<Rightarrow> False)
      | CMap l \<Rightarrow>
          (case right of
             CMap r \<Rightarrow> length l = length r \<and> cbor_maps_equal l r (replicate (length r) False)
           | _ \<Rightarrow> False))"
| "cbor_arrays_equal (l # ls) (r # rs) = (cbor_values_equal l r \<and> cbor_arrays_equal ls rs)"
| "cbor_arrays_equal _ _ = True"
| "cbor_maps_equal [] rs matched = True"
| "cbor_maps_equal ((lk, lv) # ls) rs matched =
     (case cbor_match_entry lk lv rs matched of
        None \<Rightarrow> False
      | Some matched' \<Rightarrow> cbor_maps_equal ls rs matched')"
| "cbor_match_entry lk lv ((rk, rv) # rs) (m # ms) =
     (if \<not> m \<and> cbor_values_equal lk rk \<and> cbor_values_equal lv rv then Some (True # ms)
      else map_option ((#) m) (cbor_match_entry lk lv rs ms))"
| "cbor_match_entry lk lv _ _ = None"
  by pat_completeness auto
termination
  by (relation "measures
      [\<lambda>a. case a of
          Inl (Inl (l, _)) \<Rightarrow> size l
        | Inl (Inr (l, _)) \<Rightarrow> size_list size l
        | Inr (Inl (l, _, _)) \<Rightarrow> size_list (size_prod size size) l
        | Inr (Inr (lk, lv, _, _)) \<Rightarrow> size lk + size lv,
       \<lambda>a. case a of
          Inl (Inl (_, r)) \<Rightarrow> size r
        | Inl (Inr (_, r)) \<Rightarrow> size_list size r
        | Inr (Inl (_, r, _)) \<Rightarrow> Suc (size_list (size_prod size size) r)
        | Inr (Inr (_, _, r, _)) \<Rightarrow> size_list (size_prod size size) r]")
    auto

declare cbor_values_equal.simps [simp del]

section \<open>The bounded value walk\<close>

text \<open>The counter: \<open>checked_add(1)\<close> on a 64-bit \<open>usize\<close>, then the item limit.\<close>

definition count_item :: "nat \<Rightarrow> nat option" where
  "count_item item_count =
     (if item_count + 1 > 2 ^ 64 - 1 then None
      else if item_count + 1 > MAX_CBOR_ITEMS then None
      else Some (item_count + 1))"

function validate_cbor_value :: "cbor \<Rightarrow> nat \<Rightarrow> nat \<Rightarrow> nat option"
  and validate_cbor_array :: "cbor list \<Rightarrow> nat \<Rightarrow> nat \<Rightarrow> nat option"
  and validate_cbor_entries ::
    "cbor list \<Rightarrow> (cbor \<times> cbor) list \<Rightarrow> nat \<Rightarrow> nat \<Rightarrow> nat option" where
  "validate_cbor_value v depth item_count =
     (if depth > MAX_CBOR_DEPTH then None
      else case count_item item_count of
          None \<Rightarrow> None
        | Some c \<Rightarrow> (case v of
              CTag _ w \<Rightarrow> validate_cbor_value w (depth + 1) c
            | CArray vs \<Rightarrow> validate_cbor_array vs (depth + 1) c
            | CMap es \<Rightarrow> validate_cbor_entries [] es (depth + 1) c
            | _ \<Rightarrow> Some c))"
| "validate_cbor_array [] depth item_count = Some item_count"
| "validate_cbor_array (v # vs) depth item_count =
     (case validate_cbor_value v depth item_count of
        None \<Rightarrow> None
      | Some c \<Rightarrow> validate_cbor_array vs depth c)"
| "validate_cbor_entries previous [] depth item_count = Some item_count"
| "validate_cbor_entries previous (e # es) depth item_count =
     (if \<exists>p \<in> set previous. cbor_values_equal p (fst e) then None
      else case validate_cbor_value (fst e) depth item_count of
          None \<Rightarrow> None
        | Some c \<Rightarrow> (case validate_cbor_value (snd e) depth c of
            None \<Rightarrow> None
          | Some c' \<Rightarrow> validate_cbor_entries (previous @ [fst e]) es depth c'))"
  by pat_completeness auto
termination
  by (relation "measure (\<lambda>a. case a of
          Inl (v, _, _) \<Rightarrow> size v
        | Inr (Inl (vs, _, _)) \<Rightarrow> size_list size vs
        | Inr (Inr (_, es, _, _)) \<Rightarrow> size_list (size_prod size size) es)")
    auto

declare validate_cbor_value.simps [simp del]

definition decode_cbor_value :: "crates \<Rightarrow> bytes \<Rightarrow> nat \<Rightarrow> cbor option" where
  "decode_cbor_value X bs max_bytes =
     (if bs = [] \<or> length bs > max_bytes then None
      else case cbor_from_reader X bs MAX_CBOR_DEPTH of
          None \<Rightarrow> None
        | Some (value, position) \<Rightarrow>
            if position \<noteq> length bs then None
            else case validate_cbor_value value 0 0 of
                None \<Rightarrow> None
              | Some _ \<Rightarrow> Some value)"

section \<open>Keys\<close>

definition sec1_p256_verifying_key :: "crates \<Rightarrow> bytes \<Rightarrow> error + verifying_key" where
  "sec1_p256_verifying_key X sec1 =
     (if length sec1 \<noteq> 65 \<or> sec1 ! 0 \<noteq> 4 then Inl InvalidSignature
      else ok_or (vk_from_sec1_bytes X sec1) InvalidSignature)"

definition native_credential_id :: "crates \<Rightarrow> bytes \<Rightarrow> bytes" where
  "native_credential_id X sec1 = sha256 X sec1"

record cose_fields =
  kty :: "int option"
  alg :: "int option"
  crv :: "int option"
  x_coord :: "bytes option"
  y_coord :: "bytes option"

definition cose_step :: "cose_fields \<Rightarrow> cbor \<times> cbor \<Rightarrow> cose_fields" where
  "cose_step f entry =
     (case entry of
        (CInteger label, CInteger value) \<Rightarrow>
          if label = 1 then f\<lparr>kty := Some value\<rparr>
          else if label = 3 then f\<lparr>alg := Some value\<rparr>
          else if label = -1 then f\<lparr>crv := Some value\<rparr>
          else f
      | (CInteger label, CBytes value) \<Rightarrow>
          if label = -2 then f\<lparr>x_coord := Some value\<rparr>
          else if label = -3 then f\<lparr>y_coord := Some value\<rparr>
          else f
      | _ \<Rightarrow> f)"

definition cose_p256_verifying_key :: "crates \<Rightarrow> bytes \<Rightarrow> error + verifying_key" where
  "cose_p256_verifying_key X cose_bytes =
     (case decode_cbor_value X cose_bytes MAX_COSE_CBOR_BYTES of
        Some (CMap entries) \<Rightarrow>
          let f = foldl cose_step
                \<lparr>kty = None, alg = None, crv = None, x_coord = None, y_coord = None\<rparr> entries
          in if kty f \<noteq> Some 2 \<or> alg f \<noteq> Some (-7) \<or> crv f \<noteq> Some 1 then Inl InvalidSignature
             else (case (x_coord f, y_coord f) of
                 (Some x, Some y) \<Rightarrow>
                   if length x \<noteq> 32 \<or> length y \<noteq> 32 then Inl InvalidSignature
                   else ok_or (vk_from_sec1_bytes X (4 # x @ y)) InvalidSignature
               | _ \<Rightarrow> Inl InvalidSignature)
      | _ \<Rightarrow> Inl InvalidSignature)"

section \<open>What the walk accepts\<close>

text \<open>The specification: number of nodes, nesting depth, and no map with two equal keys.\<close>

fun cbor_nodes :: "cbor \<Rightarrow> nat" where
  "cbor_nodes (CTag _ w) = Suc (cbor_nodes w)"
| "cbor_nodes (CArray vs) = Suc (sum_list (map cbor_nodes vs))"
| "cbor_nodes (CMap es) = Suc (sum_list (map (\<lambda>(k, v). cbor_nodes k + cbor_nodes v) es))"
| "cbor_nodes _ = 1"

fun cbor_depth_within :: "nat \<Rightarrow> cbor \<Rightarrow> bool" where
  "cbor_depth_within d (CTag _ w) = (0 < d \<and> cbor_depth_within (d - 1) w)"
| "cbor_depth_within d (CArray vs) = (\<forall>v \<in> set vs. 0 < d \<and> cbor_depth_within (d - 1) v)"
| "cbor_depth_within d (CMap es) =
     (\<forall>(k, v) \<in> set es. 0 < d \<and> cbor_depth_within (d - 1) k \<and> cbor_depth_within (d - 1) v)"
| "cbor_depth_within d _ = True"

fun keys_distinct :: "cbor list \<Rightarrow> cbor list \<Rightarrow> bool" where
  "keys_distinct previous [] = True"
| "keys_distinct previous (k # ks) =
     ((\<forall>p \<in> set previous. \<not> cbor_values_equal p k) \<and> keys_distinct (previous @ [k]) ks)"

fun cbor_no_duplicate_keys :: "cbor \<Rightarrow> bool" where
  "cbor_no_duplicate_keys (CTag _ w) = cbor_no_duplicate_keys w"
| "cbor_no_duplicate_keys (CArray vs) = (\<forall>v \<in> set vs. cbor_no_duplicate_keys v)"
| "cbor_no_duplicate_keys (CMap es) =
     (keys_distinct [] (map fst es) \<and>
      (\<forall>(k, v) \<in> set es. cbor_no_duplicate_keys k \<and> cbor_no_duplicate_keys v))"
| "cbor_no_duplicate_keys _ = True"

lemma cbor_nodes_pos: "0 < cbor_nodes v"
  by (cases v) auto

lemma count_item_eq: "count_item c = (if c < 256 then Some (c + 1) else None)"
  by (simp add: count_item_def MAX_CBOR_ITEMS_def)

definition walk_ok :: "nat \<Rightarrow> cbor \<Rightarrow> bool" where
  "walk_ok d v \<longleftrightarrow>
     d \<le> MAX_CBOR_DEPTH \<and> cbor_depth_within (MAX_CBOR_DEPTH - d) v \<and> cbor_no_duplicate_keys v"

lemma walk_ok_children:
  "walk_ok d (CTag t w) \<longleftrightarrow> d \<le> MAX_CBOR_DEPTH \<and> walk_ok (Suc d) w"
  "walk_ok d (CArray vs) \<longleftrightarrow> d \<le> MAX_CBOR_DEPTH \<and> (\<forall>v \<in> set vs. walk_ok (Suc d) v)"
  "walk_ok d (CMap es) \<longleftrightarrow> d \<le> MAX_CBOR_DEPTH \<and> keys_distinct [] (map fst es) \<and>
     (\<forall>e \<in> set es. walk_ok (Suc d) (fst e) \<and> walk_ok (Suc d) (snd e))"
  by (auto simp: walk_ok_def Suc_le_eq split: prod.splits)

lemma validate_cbor_exact:
  "validate_cbor_value v d c =
     (if walk_ok d v \<and> c + cbor_nodes v \<le> MAX_CBOR_ITEMS then Some (c + cbor_nodes v) else None)"
  "validate_cbor_array vs d c =
     (if (\<forall>v \<in> set vs. walk_ok d v) \<and>
         (vs = [] \<or> c + sum_list (map cbor_nodes vs) \<le> MAX_CBOR_ITEMS)
      then Some (c + sum_list (map cbor_nodes vs)) else None)"
  "validate_cbor_entries ps es d c =
     (if keys_distinct ps (map fst es) \<and>
         (\<forall>e \<in> set es. walk_ok d (fst e) \<and> walk_ok d (snd e)) \<and>
         (es = [] \<or> c + sum_list (map (\<lambda>(k, v). cbor_nodes k + cbor_nodes v) es) \<le> MAX_CBOR_ITEMS)
      then Some (c + sum_list (map (\<lambda>(k, v). cbor_nodes k + cbor_nodes v) es)) else None)"
proof (induction v d c and vs d c and ps es d c
    rule: validate_cbor_value_validate_cbor_array_validate_cbor_entries.induct)
  case (1 v depth item_count)
  show ?case
  proof (cases "depth \<le> MAX_CBOR_DEPTH \<and> item_count < 256")
    case True
    then have c: "count_item item_count = Some (item_count + 1)" by (simp add: count_item_eq)
    show ?thesis
    proof (cases v)
      case (CTag t w)
      with 1(1) True c show ?thesis
        by (subst validate_cbor_value.simps) (auto simp: walk_ok_children)
    next
      case (CArray vs)
      with 1(2) True c show ?thesis
        by (subst validate_cbor_value.simps) (auto simp: walk_ok_children MAX_CBOR_ITEMS_def)
    next
      case (CMap es)
      with 1(3) True c show ?thesis
        by (subst validate_cbor_value.simps) (auto simp: walk_ok_children MAX_CBOR_ITEMS_def)
    qed (use True c in \<open>auto simp: validate_cbor_value.simps walk_ok_def MAX_CBOR_ITEMS_def\<close>)
  next
    case False
    have "0 < cbor_nodes v" by (rule cbor_nodes_pos)
    with False show ?thesis
      by (subst validate_cbor_value.simps) (auto simp: walk_ok_def count_item_eq MAX_CBOR_ITEMS_def)
  qed
next
  case (3 v vs depth item_count)
  have "0 < cbor_nodes v" by (rule cbor_nodes_pos)
  with 3 show ?case by (auto split: option.splits if_splits)
next
  case (5 previous e es depth item_count)
  obtain k v where e: "e = (k, v)" by (cases e)
  have "0 < cbor_nodes k" "0 < cbor_nodes v" by (rule cbor_nodes_pos)+
  with 5 show ?case unfolding e by (auto split: option.splits if_splits)
qed auto

lemma decode_cbor_accepts:
  "decode_cbor_value X bs max_bytes = Some v \<longleftrightarrow>
     bs \<noteq> [] \<and> length bs \<le> max_bytes \<and>
     cbor_from_reader X bs MAX_CBOR_DEPTH = Some (v, length bs) \<and>
     cbor_nodes v \<le> MAX_CBOR_ITEMS \<and> cbor_depth_within MAX_CBOR_DEPTH v \<and>
     cbor_no_duplicate_keys v"
  by (auto simp: decode_cbor_value_def validate_cbor_exact walk_ok_def
      split: option.splits if_splits)

text \<open>a CBOR value is accepted exactly when the input is non-empty, within the byte bound
  and consumed completely by the decoder, and the value has at most 256 nodes, is nested at
  most 16 deep and holds no map with two equal keys at any depth.\<close>

theorem decode_cbor_value_iff:
  "decode_cbor_value X bs max_bytes = Some v \<longleftrightarrow>
     bs \<noteq> [] \<and> length bs \<le> max_bytes \<and>
     cbor_from_reader X bs MAX_CBOR_DEPTH = Some (v, length bs) \<and>
     cbor_nodes v \<le> MAX_CBOR_ITEMS \<and> cbor_depth_within MAX_CBOR_DEPTH v \<and>
     cbor_no_duplicate_keys v"
  by (rule decode_cbor_accepts)

section \<open>What a parsed key rests on\<close>

lemma cose_step_origin:
  "kty (cose_step f e) = Some a \<Longrightarrow> kty f = Some a \<or> e = (CInteger 1, CInteger a)"
  "alg (cose_step f e) = Some a \<Longrightarrow> alg f = Some a \<or> e = (CInteger 3, CInteger a)"
  "crv (cose_step f e) = Some a \<Longrightarrow> crv f = Some a \<or> e = (CInteger (-1), CInteger a)"
  "x_coord (cose_step f e) = Some b \<Longrightarrow> x_coord f = Some b \<or> e = (CInteger (-2), CBytes b)"
  "y_coord (cose_step f e) = Some b \<Longrightarrow> y_coord f = Some b \<or> e = (CInteger (-3), CBytes b)"
  by (auto simp: cose_step_def split: prod.splits cbor.splits if_splits)

lemma cose_fold_origin:
  "kty (foldl cose_step f es) = Some a \<Longrightarrow> kty f = Some a \<or> (CInteger 1, CInteger a) \<in> set es"
  "alg (foldl cose_step f es) = Some a \<Longrightarrow> alg f = Some a \<or> (CInteger 3, CInteger a) \<in> set es"
  "crv (foldl cose_step f es) = Some a \<Longrightarrow> crv f = Some a \<or> (CInteger (-1), CInteger a) \<in> set es"
  "x_coord (foldl cose_step f es) = Some b \<Longrightarrow>
     x_coord f = Some b \<or> (CInteger (-2), CBytes b) \<in> set es"
  "y_coord (foldl cose_step f es) = Some b \<Longrightarrow>
     y_coord f = Some b \<or> (CInteger (-3), CBytes b) \<in> set es"
  by (induction es arbitrary: f; auto dest: cose_step_origin)+

text \<open>An accepted COSE key is an ES256 key on P-256 whose coordinates are 32 bytes each: the
  five labelled entries are in the decoded map, and the key is the uncompressed point.\<close>

lemma cose_key_origin:
  assumes "cose_p256_verifying_key X bs = Inr key"
  obtains es x y where "decode_cbor_value X bs MAX_COSE_CBOR_BYTES = Some (CMap es)"
    and "(CInteger 1, CInteger 2) \<in> set es" "(CInteger 3, CInteger (-7)) \<in> set es"
    and "(CInteger (-1), CInteger 1) \<in> set es"
    and "(CInteger (-2), CBytes x) \<in> set es" "(CInteger (-3), CBytes y) \<in> set es"
    and "length x = 32" "length y = 32" "vk_from_sec1_bytes X (4 # x @ y) = Some key"
proof -
  from assms obtain es where d: "decode_cbor_value X bs MAX_COSE_CBOR_BYTES = Some (CMap es)"
    by (auto simp: cose_p256_verifying_key_def split: option.splits cbor.splits)
  define f where "f = foldl cose_step
    \<lparr>kty = None, alg = None, crv = None, x_coord = None, y_coord = None\<rparr> es"
  from assms d obtain x y where
    "kty f = Some 2" "alg f = Some (-7)" "crv f = Some 1" "x_coord f = Some x" "y_coord f = Some y"
    "length x = 32" "length y = 32" "vk_from_sec1_bytes X (4 # x @ y) = Some key"
    by (auto simp: cose_p256_verifying_key_def f_def [symmetric] Let_def ok_or_Inr_iff
        split: option.splits if_splits)
  with d that show ?thesis
    unfolding f_def by (auto dest!: cose_fold_origin)
qed

lemma sec1_key_iff:
  "sec1_p256_verifying_key X bs = Inr key \<longleftrightarrow>
     length bs = 65 \<and> bs ! 0 = 4 \<and> vk_from_sec1_bytes X bs = Some key"
  by (auto simp: sec1_p256_verifying_key_def ok_or_Inr_iff)

lemma cose_key_error: "cose_p256_verifying_key X bs = Inl e \<Longrightarrow> e = InvalidSignature"
  by (auto simp: cose_p256_verifying_key_def Let_def ok_or_def
      split: option.splits cbor.splits if_splits)

lemma cose_key_errors: "e \<noteq> InvalidSignature \<Longrightarrow> cose_p256_verifying_key X bs \<noteq> Inl e"
  using cose_key_error by blast

end
