(* ===== verification/Terminal.thy ===== *)
theory Terminal
  imports Prelude
begin

text \<open>
  Rendering untrusted text (\<open>protocol/src/terminal.rs\<close>). The escaping works on the scalar
  values of the string; the theorems say that nothing that can repaint or hide text
  survives it and that two different texts never render alike.
\<close>

definition INVISIBLE_RANGES :: "(nat \<times> nat) list" where
  "INVISIBLE_RANGES =
    [(0x00ad, 0x00ad), (0x0600, 0x0605), (0x061c, 0x061c), (0x06dd, 0x06dd), (0x070f, 0x070f),
     (0x0890, 0x0891), (0x08e2, 0x08e2), (0x180e, 0x180e), (0x200b, 0x200f), (0x202a, 0x202e),
     (0x2060, 0x2064), (0x2066, 0x206f), (0xfeff, 0xfeff), (0xfff9, 0xfffb), (0x110bd, 0x110bd),
     (0x110cd, 0x110cd), (0x13430, 0x1343f), (0x1bca0, 0x1bca3), (0x1d173, 0x1d17a),
     (0xe0001, 0xe0001), (0xe0020, 0xe007f)]"

definition is_invisible :: "nat \<Rightarrow> bool" where
  "is_invisible code \<longleftrightarrow> list_ex (\<lambda>(low, high). low \<le> code \<and> code \<le> high) INVISIBLE_RANGES"

text \<open>The format directive \<open>{:04x}\<close>: lower-case hexadecimal, at least four digits.\<close>

definition hex_digit :: "nat \<Rightarrow> nat" where
  "hex_digit d = (if d < 10 then 48 + d else 87 + d)"

fun hex_digits :: "nat \<Rightarrow> nat list" where
  "hex_digits n = (if n < 16 then [hex_digit n] else hex_digits (n div 16) @ [hex_digit (n mod 16)])"

declare hex_digits.simps [simp del]

definition hex4 :: "nat \<Rightarrow> nat list" where
  "hex4 n = replicate (4 - length (hex_digits n)) 48 @ hex_digits n"

definition escape_char :: "nat \<Rightarrow> nat list" where
  "escape_char c =
     (if c = 0x5C then [0x5C, 0x5C]
      else if is_control c \<or> is_invisible c then [0x5C, 0x75, 0x7B] @ hex4 c @ [0x7D]
      else [c])"

definition escape_for_terminal :: "string \<Rightarrow> string" where
  "escape_for_terminal value = utf8 (concat (map escape_char (chars_of value)))"

section \<open>Hexadecimal rendering\<close>

definition unhex_digit :: "nat \<Rightarrow> nat" where
  "unhex_digit c = (if c < 58 then c - 48 else c - 87)"

definition unhex :: "nat list \<Rightarrow> nat" where
  "unhex cs = foldl (\<lambda>acc c. acc * 16 + unhex_digit c) 0 cs"

lemma unhex_hex_digit: "d < 16 \<Longrightarrow> unhex_digit (hex_digit d) = d"
  by (simp add: unhex_digit_def hex_digit_def)

lemma unhex_hex_digits: "unhex (hex_digits n) = n"
proof (induction n rule: hex_digits.induct)
  case (1 n)
  show ?case
  proof (cases "n < 16")
    case True
    then show ?thesis by (simp add: hex_digits.simps [of n] unhex_def unhex_hex_digit)
  next
    case False
    with 1 show ?thesis by (simp add: hex_digits.simps [of n] unhex_def unhex_hex_digit)
  qed
qed

lemma unhex_zeros: "unhex (replicate k 48 @ cs) = unhex cs"
  by (induction k) (simp_all add: unhex_def unhex_digit_def)

lemma unhex_hex4: "unhex (hex4 n) = n"
  by (simp add: hex4_def unhex_zeros unhex_hex_digits)

lemma hex_digit_range: "d < 16 \<Longrightarrow> 48 \<le> hex_digit d \<and> hex_digit d < 0x7B"
  by (simp add: hex_digit_def)

lemma hex_digits_range: "c \<in> set (hex_digits n) \<Longrightarrow> 48 \<le> c \<and> c < 0x7B"
proof (induction n rule: hex_digits.induct)
  case (1 n)
  then show ?case
    by (auto simp: hex_digits.simps [of n] hex_digit_range split: if_splits)
qed

lemma hex4_range: "c \<in> set (hex4 n) \<Longrightarrow> 48 \<le> c \<and> c < 0x7B"
  by (auto simp: hex4_def dest: hex_digits_range)

section \<open>Escaped text\<close>

lemma printable_ascii: "32 \<le> c \<Longrightarrow> c < 127 \<Longrightarrow> \<not> is_control c \<and> \<not> is_invisible c"
  by (simp add: is_control_def is_invisible_def INVISIBLE_RANGES_def)

lemma escape_char_safe: "d \<in> set (escape_char c) \<Longrightarrow> \<not> is_control d \<and> \<not> is_invisible d"
  using hex4_range [of d c] printable_ascii [of d]
  by (auto simp: escape_char_def split: if_splits)

lemma escape_char_scalar: "scalar c \<Longrightarrow> d \<in> set (escape_char c) \<Longrightarrow> scalar d"
  using hex4_range [of d c] by (auto simp: escape_char_def scalar_def split: if_splits)

lemma hex4_terminated:
  assumes "hex4 c @ 0x7D # r = hex4 d @ 0x7D # r'"
  shows "c = d \<and> r = r'"
proof -
  have stop: "takeWhile (\<lambda>x. x \<noteq> 0x7D) (hex4 n @ 0x7D # t) = hex4 n" for n t
    using hex4_range [of _ n] by (subst takeWhile_append2) fastforce+
  have "hex4 c = hex4 d"
    using stop [of c r] stop [of d r'] assms by simp
  then have "c = d" using unhex_hex4 by metis
  with assms show ?thesis by simp
qed

lemma escape_char_prefix_free:
  assumes "escape_char c @ r = escape_char d @ r'"
  shows "c = d \<and> r = r'"
proof -
  have plain: "escape_char n = [n]" if "n \<noteq> 0x5C" "\<not> (is_control n \<or> is_invisible n)" for n
    using that by (simp add: escape_char_def)
  have code: "escape_char n = 0x5C # 0x75 # 0x7B # hex4 n @ [0x7D]"
    if "n \<noteq> 0x5C" "is_control n \<or> is_invisible n" for n
    using that by (simp add: escape_char_def)
  have bs: "escape_char 0x5C = [0x5C, 0x5C]" by (simp add: escape_char_def)
  show ?thesis
    using assms bs plain [of c] plain [of d] code [of c] code [of d] hex4_terminated [of c r d r']
    by (cases "c = 0x5C"; cases "d = 0x5C"; cases "is_control c \<or> is_invisible c";
        cases "is_control d \<or> is_invisible d") auto
qed

lemma escape_chars_inject:
  "concat (map escape_char cs) = concat (map escape_char ds) \<Longrightarrow> cs = ds"
proof (induction cs arbitrary: ds)
  case Nil
  then show ?case by (cases ds) (auto simp: escape_char_def split: if_splits)
next
  case (Cons c cs)
  obtain d ds' where ds: "ds = d # ds'"
    using Cons.prems by (cases ds) (auto simp: escape_char_def split: if_splits)
  have "c = d \<and> concat (map escape_char cs) = concat (map escape_char ds')"
    using Cons.prems ds by (intro escape_char_prefix_free) simp
  with Cons.IH ds show ?case by blast
qed

lemma chars_of_escape:
  assumes "wf_str s"
  shows "chars_of (escape_for_terminal s) = concat (map escape_char (chars_of s))"
  unfolding escape_for_terminal_def
  using assms by (intro chars_of_utf8) (auto simp: wf_str_def intro: escape_char_scalar)

text \<open>escaped text holds no control character and no invisible formatting character, and
  escaping is unambiguous: two well-formed strings with the same rendering are equal.\<close>

theorem escape_for_terminal_safe_and_injective:
  assumes "wf_str s" and "wf_str t"
  shows "(\<forall>c \<in> set (chars_of (escape_for_terminal s)). \<not> is_control c \<and> \<not> is_invisible c) \<and>
    (escape_for_terminal s = escape_for_terminal t \<longrightarrow> s = t)"
proof (intro conjI impI)
  show "\<forall>c \<in> set (chars_of (escape_for_terminal s)). \<not> is_control c \<and> \<not> is_invisible c"
    using chars_of_escape [OF assms(1)] by (auto dest: escape_char_safe)
next
  assume eq: "escape_for_terminal s = escape_for_terminal t"
  have "concat (map escape_char (chars_of s)) = chars_of (escape_for_terminal s)"
    by (rule chars_of_escape [OF assms(1), symmetric])
  also have "\<dots> = chars_of (escape_for_terminal t)" by (simp only: eq)
  also have "\<dots> = concat (map escape_char (chars_of t))" by (rule chars_of_escape [OF assms(2)])
  finally have chars: "chars_of s = chars_of t" by (rule escape_chars_inject)
  have "s = utf8 (chars_of s)" using assms(1) by (simp add: wf_str_def)
  also have "\<dots> = utf8 (chars_of t)" by (simp only: chars)
  also have "\<dots> = t" using assms(2) by (simp add: wf_str_def)
  finally show "s = t" .
qed

text \<open>A right-to-left override (three bytes in UTF-8) and an escape character.\<close>

theorem escape_for_terminal_witness:
  "escape_for_terminal [CHR ''m'', CHR 0xE2, CHR 0x80, CHR 0xAE] \<noteq> escape_for_terminal [CHR 0x1B]"
proof -
  have a: "wf_str [CHR ''m'', CHR 0xE2, CHR 0x80, CHR 0xAE]"
    by (simp add: wf_str_def chars_of_def utf8_def utf8_len_def utf8_lead_def utf8_bytes_def scalar_def
        char_of_def bit_0)
  have b: "wf_str [CHR 0x1B]"
    by (simp add: wf_str_def chars_of_def utf8_def utf8_len_def utf8_lead_def utf8_bytes_def scalar_def
        char_of_def bit_0)
  show ?thesis using escape_for_terminal_safe_and_injective [OF a b] by simp
qed

end
