(* ===== verification/Sample_Crates.thy ===== *)
theory Sample_Crates
  imports Crates
begin

text \<open>
  A small concrete instance of the external functions, on which the witnesses of the
  development evaluate. It satisfies the documented behaviour the theorems name: the text
  encoding writes two letters per byte, digests have 32 bytes, the key agreement is
  symmetric, the sealing box appends a 16-byte tag, a signature is valid for a message when
  it repeats it.
\<close>

definition letter :: "nat \<Rightarrow> char" where
  "letter n = char_of (65 + n)"

definition sample_encode :: "bytes \<Rightarrow> string" where
  "sample_encode bs = concat (map (\<lambda>b. [letter (unat b div 16), letter (unat b mod 16)]) bs)"

fun sample_decode :: "string \<Rightarrow> bytes option" where
  "sample_decode [] = Some []"
| "sample_decode [c] = None"
| "sample_decode (c # d # s) =
     map_option (\<lambda>bs. of_nat ((of_char c - 65) * 16 + (of_char d - 65)) # bs) (sample_decode s)"

definition sample_digest :: "bytes \<Rightarrow> bytes" where
  "sample_digest m = take 32 (rev m @ replicate 32 7)"

fun sample_public :: "static_secret \<Rightarrow> bytes" where
  "sample_public (StaticSecret s) = take 32 (s @ replicate 32 1)"

definition sample_dh :: "static_secret \<Rightarrow> bytes \<Rightarrow> bytes" where
  "sample_dh s p = map2 (\<lambda>a b. a + b + 1) (sample_public s) p"

definition sample_open :: "bytes \<Rightarrow> bytes option" where
  "sample_open c = (if length c < 16 then None else Some (take (length c - 16) c))"

definition sample_cose :: cbor where
  "sample_cose = CMap [(CInteger 1, CInteger 2), (CInteger 3, CInteger (-7)),
     (CInteger (-1), CInteger 1), (CInteger (-2), CBytes (replicate 32 2)),
     (CInteger (-3), CBytes (replicate 32 3))]"

definition sample :: crates where
  "sample = \<lparr>
     b64_encode = sample_encode,
     b64_decode = sample_decode,
     sha256 = sample_digest,
     hmac_sha256 = (\<lambda>k m. sample_digest (m @ k)),
     vk_from_sec1_bytes = (\<lambda>bs. Some (VerifyingKey bs)),
     sig_from_der = (\<lambda>bs. Some (Signature bs)),
     ecdsa_verify = (\<lambda>key m sig. sig = Signature m),
     x25519_public = sample_public,
     x25519_diffie_hellman = sample_dh,
     aead_encrypt = (\<lambda>k n m. Some (m @ replicate 16 0)),
     aead_decrypt = (\<lambda>k n c. sample_open c),
     cbor_from_reader = (\<lambda>bs limit. Some (sample_cose, length bs)),
     cbor_into_writer = (\<lambda>v. Some [1, 2, 3]),
     json_events_from_slice = (\<lambda>bs. Inl ''no value''),
     to_vec_request = (\<lambda>r. Inl ''no value''),
     from_slice_request = (\<lambda>bs. Inl ''no value''),
     to_vec_envelope = (\<lambda>e. Inr [1]),
     to_vec_auth_request = (\<lambda>r. Inl ''no value''),
     from_slice_auth_request = (\<lambda>bs. Inl ''no value''),
     to_vec_auth_envelope = (\<lambda>e. Inr [1]),
     to_vec_tool_request = (\<lambda>r. Inl ''no value''),
     from_value_tool_request = (\<lambda>v. Inl ''no value''),
     to_vec_tool_envelope = (\<lambda>e. Inr [1]),
     client_data_from_slice = (\<lambda>k bs. Inl ''no value''),
     client_data_from_value = (\<lambda>k v. Inl ''no value''),
     probe_from_slice = (\<lambda>bs. Inl ''no value''),
     alive_from_slice = (\<lambda>bs. Inl ''no value''),
     delivery_from_slice = (\<lambda>bs. Inl ''no value''),
     decision_from_slice = (\<lambda>bs. Inl ''no value''),
     auth_decision_from_slice = (\<lambda>bs. Inl ''no value''),
     webauthn_submission_from_value = (\<lambda>v. Inl ''no value''),
     native_submission_from_value = (\<lambda>v. Inl ''no value''),
     json_to_string = (\<lambda>v. ''value''),
     from_slice_envelope = (\<lambda>bs. Inl ''no value''),
     tool_delivery_from_slice = (\<lambda>bs. Inl ''no value''),
     tool_ack_from_slice = (\<lambda>bs. Inl ''no value''),
     tool_decision_from_slice = (\<lambda>bs. Inl ''no value'')\<rparr>"

lemma of_char_letter: "n < 16 \<Longrightarrow> of_char (letter n) = 65 + n"
  by (simp add: letter_def)

lemma sample_decode_encode: "sample_decode (sample_encode bs) = Some bs"
proof (induction bs)
  case Nil
  then show ?case by (simp add: sample_encode_def)
next
  case (Cons b bs)
  have lt: "unat b < 256" using unsigned_less [of b, where ?'a = nat] by simp
  have q: "unat b div 16 < 16" using lt by (simp add: less_mult_imp_div_less)
  have "of_nat (unat b div 16 * 16 + unat b mod 16) = b" by (simp only: div_mult_mod_eq) simp
  with Cons q show ?case
    by (simp add: sample_encode_def of_char_letter del: of_nat_add of_nat_mult)
qed

lemma letter_no_padding: "n < 16 \<Longrightarrow> letter n \<noteq> CHR ''=''"
proof
  assume "n < 16" and "letter n = CHR ''=''"
  then have "65 + n = of_char (CHR ''='')" using of_char_letter [of n] by simp
  then show False by simp
qed

lemma sample_encode_no_padding: "CHR ''='' \<notin> set (sample_encode bs)"
proof -
  have "letter (unat b div 16) \<noteq> CHR ''='' \<and> letter (unat b mod 16) \<noteq> CHR ''=''" for b :: u8
    using unsigned_less [of b, where ?'a = nat]
    by (simp add: letter_no_padding less_mult_imp_div_less)
  then show ?thesis by (fastforce simp: sample_encode_def)
qed

lemma sample_simps [simp]:
  "b64_encode sample = sample_encode" "b64_decode sample = sample_decode"
  "sha256 sample = sample_digest" "hmac_sha256 sample = (\<lambda>k m. sample_digest (m @ k))"
  "vk_from_sec1_bytes sample = (\<lambda>bs. Some (VerifyingKey bs))"
  "sig_from_der sample = (\<lambda>bs. Some (Signature bs))"
  "ecdsa_verify sample = (\<lambda>key m sig. sig = Signature m)"
  "x25519_public sample = sample_public" "x25519_diffie_hellman sample = sample_dh"
  "aead_encrypt sample = (\<lambda>k n m. Some (m @ replicate 16 0))"
  "aead_decrypt sample = (\<lambda>k n c. sample_open c)"
  "cbor_from_reader sample = (\<lambda>bs limit. Some (sample_cose, length bs))"
  "cbor_into_writer sample = (\<lambda>v. Some [1, 2, 3])"
  "to_vec_envelope sample = (\<lambda>e. Inr [1])" "to_vec_auth_envelope sample = (\<lambda>e. Inr [1])"
  "to_vec_tool_envelope sample = (\<lambda>e. Inr [1])"
  by (simp_all add: sample_def)

lemma sample_b64: "b64_roundtrip sample"
  by (simp add: b64_roundtrip_def sample_decode_encode sample_encode_no_padding)

lemma length_sample_digest [simp]: "length (sample_digest m) = 32"
  by (simp add: sample_digest_def)

lemma sample_digests: "digest_sizes sample"
  by (simp add: digest_sizes_def)

lemma length_sample_public [simp]: "length (sample_public s) = 32"
  by (cases s) simp

lemma sample_dh_sym: "sample_dh a (sample_public b) = sample_dh b (sample_public a)"
  unfolding sample_dh_def
  by (rule nth_equalityI) (simp_all add: add.commute)

lemma sample_box: "box_correct sample"
  by (simp add: box_correct_def sample_dh_sym sample_open_def)

end
