(* ===== verification/Wire_V1.thy ===== *)
theory Wire_V1
  imports Cose_Key Terminal Sample_Crates
begin

text \<open>
  The version-one wire protocol (\<open>protocol/src/v1.rs\<close>): validators of requests, envelopes,
  device records, configuration and submissions, timing policy, challenges, fingerprints,
  sealing and signed denials. Validators keep the order of the source's checks, so that the
  error of every input is the source's error. Randomness (the ephemeral secret and the
  nonce of \<open>seal_v1\<close>) is an argument.
\<close>

definition VERSION_V1 :: u8 where "VERSION_V1 = 1"
definition MAX_DEVICES :: nat where "MAX_DEVICES = 8"
definition MAX_REQUEST_BYTES :: nat where "MAX_REQUEST_BYTES = 256 * 1024"
definition MAX_ENVELOPE_BYTES :: nat where "MAX_ENVELOPE_BYTES = 3 * 1024 * 1024"
definition MAX_ENV_ENTRIES :: nat where "MAX_ENV_ENTRIES = 4096"
definition MAX_REQUEST_LIFETIME_SECS :: i64 where "MAX_REQUEST_LIFETIME_SECS = 90"
definition MAX_REQUEST_ISSUANCE_SKEW_SECS :: i64 where "MAX_REQUEST_ISSUANCE_SKEW_SECS = 30"
definition CHALLENGE_DOMAIN :: bytes where
  "CHALLENGE_DOMAIN = as_bytes ''oshioki/approve/v1'' @ [0]"
definition DENY_DOMAIN :: bytes where "DENY_DOMAIN = as_bytes ''oshioki/deny/v1'' @ [0]"
definition FINGERPRINT_DOMAIN :: bytes where
  "FINGERPRINT_DOMAIN = as_bytes ''oshioki/fingerprint/v1'' @ [0]"

lemmas wire_limits = VERSION_V1_def MAX_DEVICES_def MAX_REQUEST_BYTES_def MAX_ENVELOPE_BYTES_def
  MAX_ENV_ENTRIES_def MAX_REQUEST_LIFETIME_SECS_def MAX_REQUEST_ISSUANCE_SKEW_SECS_def

section \<open>Encodings and identifiers\<close>

definition encode_base64url :: "crates \<Rightarrow> bytes \<Rightarrow> string" where
  "encode_base64url X bs = b64_encode X bs"

definition decode_base64url :: "crates \<Rightarrow> string \<Rightarrow> error + bytes" where
  "decode_base64url X value =
     (if contains_char (CHR ''='') value then Inl (Decode ''padded base64url is forbidden'')
      else ok_or (b64_decode X value) (Decode ''invalid base64url''))"

definition decode_exact :: "crates \<Rightarrow> string \<Rightarrow> nat \<Rightarrow> error + bytes" where
  "decode_exact X value len =
     and_then (decode_base64url X value) (\<lambda>decoded.
       if length decoded = len then Inr decoded else Inl (Decode ''invalid byte length''))"

definition valid_id :: "string \<Rightarrow> bool" where
  "valid_id value \<longleftrightarrow>
     value \<noteq> [] \<and> length value \<le> 128 \<and>
     list_all (\<lambda>c. is_ascii_alphanumeric c \<or> c = CHR ''-'' \<or> c = CHR ''_'') value"

definition valid_fingerprint :: "crates \<Rightarrow> string \<Rightarrow> bool" where
  "valid_fingerprint X value =
     (case decode_base64url X value of Inl _ \<Rightarrow> False | Inr bs \<Rightarrow> length bs = 16)"

definition APPROVAL_ENV :: "string list" where
  "APPROVAL_ENV =
    [''BASH_ENV'', ''CLASSPATH'', ''DYLD_FALLBACK_LIBRARY_PATH'', ''DYLD_INSERT_LIBRARIES'',
     ''DYLD_LIBRARY_PATH'', ''EDITOR'', ''ENV'', ''GCONV_PATH'', ''HOSTALIASES'',
     ''JAVA_TOOL_OPTIONS'', ''JDK_JAVA_OPTIONS'', ''LD_AUDIT'', ''LD_CONFIG'', ''LD_LIBRARY_PATH'',
     ''LD_PRELOAD'', ''LD_PROFILE'', ''LOCPATH'', ''LUA_CPATH'', ''LUA_PATH'', ''MANPAGER'',
     ''NLSPATH'', ''NODE_OPTIONS'', ''NODE_PATH'', ''PAGER'', ''PATH'', ''PERL5LIB'', ''PERLLIB'',
     ''PYTHONHOME'', ''PYTHONPATH'', ''PYTHONSTARTUP'', ''RES_OPTIONS'', ''RUBYLIB'', ''RUBYOPT'',
     ''SHELLOPTS'', ''SSL_CERT_DIR'', ''SSL_CERT_FILE'', ''SYSTEMD_EDITOR'', ''SYSTEMD_PAGER'',
     ''VISUAL'', ''_JAVA_OPTIONS'']"

definition is_approval_env :: "string \<Rightarrow> bool" where
  "is_approval_env name = List.member APPROVAL_ENV name"

section \<open>Timing policy\<close>

definition validate_request_timing :: "i64 \<Rightarrow> i64 \<Rightarrow> i64 \<Rightarrow> error + unit" where
  "validate_request_timing issued_at expires_at now =
     (let oldest_issued_at = saturating_sub now MAX_REQUEST_ISSUANCE_SKEW_SECS;
          newest_issued_at = saturating_add now MAX_REQUEST_ISSUANCE_SKEW_SECS
      in if issued_at < oldest_issued_at \<or> issued_at > newest_issued_at
         then Inl (InvalidRequest ''request issuance time is outside clock skew'')
         else if expires_at \<le> now then Inl (InvalidRequest ''request has expired'')
         else and_then
           (ok_or (checked_sub expires_at issued_at) (InvalidRequest ''invalid request lifetime''))
           (\<lambda>lifetime. if lifetime > MAX_REQUEST_LIFETIME_SECS
              then Inl (InvalidRequest ''request lifetime exceeds maximum'') else Inr ()))"

section \<open>Requests\<close>

definition RequestV1_validate :: "crates \<Rightarrow> RequestV1 \<Rightarrow> error + unit" where
  "RequestV1_validate X r =
     reject_if [Inr (rq_version r \<noteq> VERSION_V1), Inr (\<not> valid_id (rq_request_id r))]
       (InvalidRequest ''unsupported version or request id'')
     (reject_if [map_ok (\<lambda>b. length b \<noteq> 16) (decode_base64url X (rq_nonce r)),
                 Inr (rq_expires_at r \<le> rq_issued_at r)]
       (InvalidRequest ''invalid nonce or expiry'')
     (reject_if
       [Inr (rq_host r = []), Inr (length (rq_host r) > 255),
        Inr (rq_user r = []), Inr (length (rq_user r) > 256),
        Inr (length (rq_cwd r) > 64 * 1024),
        Inr (rq_command r = []), Inr (length (rq_command r) > 64 * 1024),
        Inr (length (rq_argv r) > 4096), Inr (length (rq_pid_chain r) > 5),
        Inr (list_ex (\<lambda>entry. length entry > 512) (rq_pid_chain r)),
        Inr (length (rq_env r) > MAX_ENV_ENTRIES),
        Inr (list_ex (\<lambda>entry. length (ev_name entry) > 256 \<or> length (ev_value entry) > 32768)
          (rq_env r)),
        Inr (is_some_and (\<lambda>s. s = [] \<or> length (chars_of s) > 64) (rq_session r))]
       (InvalidRequest ''invalid request field size'')
     (reject_if [Inr (is_some_and (\<lambda>s. list_ex is_control (chars_of s)) (rq_session r))]
       (InvalidRequest ''session label contains control characters'')
       (Inr ()))))"

definition RequestV1_validate_at :: "crates \<Rightarrow> RequestV1 \<Rightarrow> i64 \<Rightarrow> error + unit" where
  "RequestV1_validate_at X r now =
     and_then (RequestV1_validate X r) (\<lambda>_.
       validate_request_timing (rq_issued_at r) (rq_expires_at r) now)"

definition RequestV1_raw_json :: "crates \<Rightarrow> RequestV1 \<Rightarrow> error + bytes" where
  "RequestV1_raw_json X r =
     and_then (RequestV1_validate X r) (\<lambda>_.
     and_then (map_err InvalidRequest (to_vec_request X r)) (\<lambda>raw.
       if length raw > MAX_REQUEST_BYTES then Inl (InvalidRequest ''request exceeds 256 KiB'')
       else Inr raw))"

definition sealed_body_rejected :: "crates \<Rightarrow> SealedDeviceBodyV1 \<Rightarrow> (error + bool) list" where
  "sealed_body_rejected X body =
     [Inr (\<not> valid_fingerprint X (sb_device_fingerprint body)),
      Inr (is_err (decode_exact X (sb_ephemeral_pub body) 32)),
      Inr (is_err (decode_exact X (sb_nonce body) 12)),
      map_ok (\<lambda>b. length b < 16) (decode_base64url X (sb_ciphertext body))]"

definition RequestEnvelopeV1_validate :: "crates \<Rightarrow> RequestEnvelopeV1 \<Rightarrow> error + unit" where
  "RequestEnvelopeV1_validate X e =
     reject_if
       [Inr (en_version e \<noteq> VERSION_V1), Inr (\<not> valid_id (en_request_id e)),
        Inr (en_host e = []), Inr (length (en_host e) > 255),
        Inr (en_user e = []), Inr (length (en_user e) > 256),
        Inr (en_sealed e = []), Inr (length (en_sealed e) > MAX_DEVICES),
        Inr (en_expires_at e \<le> en_issued_at e)]
       (InvalidRequest ''invalid request envelope'')
     (and_then
       (for_each_r (\<lambda>body. reject_if (sealed_body_rejected X body)
          (InvalidRequest ''invalid sealed body'') (Inr ())) (en_sealed e)) (\<lambda>_.
     and_then (map_err InvalidRequest (to_vec_envelope X e)) (\<lambda>bs.
       if length bs > MAX_ENVELOPE_BYTES then Inl (InvalidRequest ''envelope exceeds 3 MiB'')
       else Inr ())))"

definition RequestEnvelopeV1_validate_at :: "crates \<Rightarrow> RequestEnvelopeV1 \<Rightarrow> i64 \<Rightarrow> error + unit" where
  "RequestEnvelopeV1_validate_at X e now =
     and_then (RequestEnvelopeV1_validate X e) (\<lambda>_.
       validate_request_timing (en_issued_at e) (en_expires_at e) now)"

section \<open>Devices\<close>

fun DeviceKindV1_as_str :: "DeviceKindV1 \<Rightarrow> string" where
  "DeviceKindV1_as_str Webauthn = ''webauthn''"
| "DeviceKindV1_as_str Software = ''software''"
| "DeviceKindV1_as_str SecureEnclave = ''secure-enclave''"

definition device_fingerprint :: "crates \<Rightarrow> bytes \<Rightarrow> bytes \<Rightarrow> bytes \<Rightarrow> string" where
  "device_fingerprint X credential_id credential_public_key box_public_key =
     encode_base64url X (take 16 (sha256 X
       (FINGERPRINT_DOMAIN
        @ u64_be_bytes (length credential_id) @ credential_id
        @ u64_be_bytes (length credential_public_key) @ credential_public_key
        @ box_public_key)))"

definition device_key :: "crates \<Rightarrow> DevicePublicRecordV1 \<Rightarrow> bytes \<Rightarrow> error + verifying_key" where
  "device_key X d public_key =
     (case dv_kind d of
        Webauthn \<Rightarrow> cose_p256_verifying_key X public_key
      | Software \<Rightarrow> sec1_p256_verifying_key X public_key
      | SecureEnclave \<Rightarrow> sec1_p256_verifying_key X public_key)"

definition DevicePublicRecordV1_validate :: "crates \<Rightarrow> DevicePublicRecordV1 \<Rightarrow> error + unit" where
  "DevicePublicRecordV1_validate X d =
     reject_if
       [Inr (dv_version d \<noteq> VERSION_V1),
        Inr (\<not> valid_fingerprint X (dv_fingerprint d)),
        map_ok (\<lambda>b. b = []) (decode_base64url X (dv_credential_id d)),
        map_ok (\<lambda>b. b = []) (decode_base64url X (dv_credential_public_key d)),
        Inr (is_err (decode_exact X (dv_box_public_key d) 32)),
        Inr (is_err (decode_exact X (dv_api_token_hash d) 32)),
        Inr (dv_label d = []), Inr (length (dv_label d) > 128)]
       (InvalidRequest ''invalid device record'')
     (and_then (decode_base64url X (dv_credential_public_key d)) (\<lambda>public_key.
      and_then (device_key X d public_key) (\<lambda>_.
      and_then
        (if dv_kind d = Webauthn then Inr ()
         else reject_if
           [map_ok (\<lambda>b. b \<noteq> native_credential_id X public_key)
              (decode_base64url X (dv_credential_id d)),
            Inr (dv_sign_count d \<noteq> 0)]
           (InvalidRequest ''invalid native device record'') (Inr ())) (\<lambda>_.
      and_then (decode_base64url X (dv_credential_id d)) (\<lambda>credential_id.
      and_then (decode_base64url X (dv_credential_public_key d)) (\<lambda>credential_public_key.
      and_then (decode_exact X (dv_box_public_key d) 32) (\<lambda>box_public_key.
        if dv_fingerprint d
             \<noteq> device_fingerprint X credential_id credential_public_key box_public_key
        then Inl (InvalidRequest ''device fingerprint mismatch'')
        else Inr ())))))))"

text \<open>The registry loop: the two sets hold the fingerprints and credential ids seen so far.\<close>

fun registry_devices_ok ::
  "crates \<Rightarrow> string list \<Rightarrow> string list \<Rightarrow> DevicePublicRecordV1 list \<Rightarrow> error + unit" where
  "registry_devices_ok X seen credentials [] = Inr ()"
| "registry_devices_ok X seen credentials (d # ds) =
     and_then (DevicePublicRecordV1_validate X d) (\<lambda>_.
       if dv_fingerprint d \<in> set seen then Inl (InvalidRequest ''duplicate device fingerprint'')
       else if dv_credential_id d \<in> set credentials
       then Inl (InvalidRequest ''duplicate credential id'')
       else registry_devices_ok X (dv_fingerprint d # seen) (dv_credential_id d # credentials) ds)"

definition DeviceRegistryV1_validate :: "crates \<Rightarrow> DeviceRegistryV1 \<Rightarrow> error + unit" where
  "DeviceRegistryV1_validate X g =
     reject_if [Inr (rg_version g \<noteq> VERSION_V1), Inr (length (rg_devices g) > MAX_DEVICES)]
       (InvalidRequest ''invalid device registry'')
       (registry_devices_ok X [] [] (rg_devices g))"

definition HookConfigV1_validate :: "HookConfigV1 \<Rightarrow> error + unit" where
  "HookConfigV1_validate c =
     reject_if
       [Inr (cf_version c \<noteq> VERSION_V1), Inr (\<not> starts_with ''https://'' (cf_origin c)),
        Inr (cf_origin c \<noteq> [] \<and> last (cf_origin c) = CHR ''/''),
        Inr (cf_rp_id c = []), Inr (contains_char (CHR ''/'') (cf_rp_id c)),
        Inr (cf_server_base_url c \<noteq> cf_origin c)]
       (InvalidRequest ''invalid hook configuration'') (Inr ())"

section \<open>Enrollment shapes\<close>

definition EnrollmentIntentV1_validate :: "crates \<Rightarrow> EnrollmentIntentV1 \<Rightarrow> error + unit" where
  "EnrollmentIntentV1_validate X i =
     reject_if
       [Inr (in_version i \<noteq> VERSION_V1), Inr (\<not> valid_id (in_enrollment_id i)),
        Inr (is_err (decode_exact X (in_secret_hash i) 32)),
        Inr (in_reply_subject i \<noteq> ''oshioki.enrollment.submission.'' @ in_enrollment_id i)]
       (InvalidRequest ''invalid enrollment intent'') (Inr ())"

definition NativeEnrollmentSubmissionV1_validate_shape ::
  "crates \<Rightarrow> NativeEnrollmentSubmissionV1 \<Rightarrow> error + unit" where
  "NativeEnrollmentSubmissionV1_validate_shape X s =
     reject_if
       [Inr (ns_version s \<noteq> VERSION_V1), Inr (\<not> valid_id (ns_enrollment_id s)),
        Inr (is_err (decode_exact X (ns_credential_public_key s) 65)),
        Inr (is_err (decode_exact X (ns_box_public_key s) 32)),
        Inr (is_err (decode_exact X (ns_api_token_hash s) 32)),
        Inr (ns_label s = []), Inr (length (ns_label s) > 128),
        map_ok (\<lambda>b. \<not> (8 \<le> length b \<and> length b \<le> 256))
          (decode_base64url X (ns_proof_signature s)),
        Inr (is_err (decode_exact X (ns_transcript_hmac s) 32))]
       (InvalidRequest ''invalid native enrollment submission shape'') (Inr ())"

definition WebauthnEnrollmentSubmissionV1_validate_shape ::
  "crates \<Rightarrow> WebauthnEnrollmentSubmissionV1 \<Rightarrow> error + unit" where
  "WebauthnEnrollmentSubmissionV1_validate_shape X s =
     reject_if
       [Inr (ws_version s \<noteq> VERSION_V1), Inr (\<not> valid_id (ws_enrollment_id s)),
        map_ok (\<lambda>b. length b > 16 * 1024)
          (decode_base64url X (ws_registration_client_data_json s)),
        map_ok (\<lambda>b. length b > 128 * 1024) (decode_base64url X (ws_attestation_object s)),
        map_ok (\<lambda>b. length b > 1024) (decode_base64url X (ws_proof_authenticator_data s)),
        map_ok (\<lambda>b. length b > 16 * 1024) (decode_base64url X (ws_proof_client_data_json s)),
        map_ok (\<lambda>b. length b > 256) (decode_base64url X (ws_proof_signature s)),
        map_ok (\<lambda>b. b = []) (decode_base64url X (ws_credential_id s)),
        map_ok (\<lambda>b. length b > 1024) (decode_base64url X (ws_credential_id s)),
        Inr (is_err (decode_exact X (ws_box_public_key s) 32)),
        Inr (is_err (decode_exact X (ws_api_token_hash s) 32)),
        Inr (ws_label s = []), Inr (length (ws_label s) > 128),
        Inr (is_err (decode_exact X (ws_transcript_hmac s) 32))]
       (InvalidRequest ''invalid enrollment submission shape'') (Inr ())"

text \<open>\<open>serde_json::Value::get\<close> with a string key.\<close>

definition json_get :: "json \<Rightarrow> string \<Rightarrow> json option" where
  "json_get v k = (case v of JObject kvs \<Rightarrow> map_of kvs k | _ \<Rightarrow> None)"

definition EnrollmentSubmissionV1_deserialize ::
  "crates \<Rightarrow> json \<Rightarrow> string + EnrollmentSubmissionV1" where
  "EnrollmentSubmissionV1_deserialize X value =
     and_then
       (case json_get value ''kind'' of
          None \<Rightarrow> Inr Webauthn
        | Some JNull \<Rightarrow> Inr Webauthn
        | Some tag \<Rightarrow>
            if tag = JString (DeviceKindV1_as_str Webauthn) then Inr Webauthn
            else if tag = JString (DeviceKindV1_as_str Software) then Inr Software
            else if tag = JString (DeviceKindV1_as_str SecureEnclave) then Inr SecureEnclave
            else Inl (''unknown enrollment submission kind ''
              @ utf8 (take 64 (chars_of (escape_for_terminal (json_to_string X tag))))))
       (\<lambda>kind. case kind of
          Webauthn \<Rightarrow> map_ok SubmitWebauthn (webauthn_submission_from_value X value)
        | Software \<Rightarrow> map_ok SubmitSoftware (native_submission_from_value X value)
        | SecureEnclave \<Rightarrow> map_ok SubmitSecureEnclave (native_submission_from_value X value))"

fun EnrollmentSubmissionV1_enrollment_id :: "EnrollmentSubmissionV1 \<Rightarrow> string" where
  "EnrollmentSubmissionV1_enrollment_id (SubmitWebauthn s) = ws_enrollment_id s"
| "EnrollmentSubmissionV1_enrollment_id (SubmitSoftware s) = ns_enrollment_id s"
| "EnrollmentSubmissionV1_enrollment_id (SubmitSecureEnclave s) = ns_enrollment_id s"

fun EnrollmentSubmissionV1_kind :: "EnrollmentSubmissionV1 \<Rightarrow> DeviceKindV1" where
  "EnrollmentSubmissionV1_kind (SubmitWebauthn _) = Webauthn"
| "EnrollmentSubmissionV1_kind (SubmitSoftware _) = Software"
| "EnrollmentSubmissionV1_kind (SubmitSecureEnclave _) = SecureEnclave"

fun EnrollmentSubmissionV1_validate_shape ::
  "crates \<Rightarrow> EnrollmentSubmissionV1 \<Rightarrow> error + unit" where
  "EnrollmentSubmissionV1_validate_shape X (SubmitWebauthn s) =
     WebauthnEnrollmentSubmissionV1_validate_shape X s"
| "EnrollmentSubmissionV1_validate_shape X (SubmitSoftware s) =
     NativeEnrollmentSubmissionV1_validate_shape X s"
| "EnrollmentSubmissionV1_validate_shape X (SubmitSecureEnclave s) =
     NativeEnrollmentSubmissionV1_validate_shape X s"

section \<open>Decisions\<close>

definition ApproveNativeV1_validate_shape :: "crates \<Rightarrow> ApproveNativeV1 \<Rightarrow> error + unit" where
  "ApproveNativeV1_validate_shape X a =
     reject_if
       [Inr (an_version a \<noteq> VERSION_V1), Inr (\<not> valid_id (an_request_id a)),
        Inr (\<not> valid_fingerprint X (an_device_fingerprint a)),
        map_ok (\<lambda>b. \<not> (8 \<le> length b \<and> length b \<le> 256)) (decode_base64url X (an_signature a))]
       (BadVerdict ''invalid native approval shape'') (Inr ())"

definition ApproveV1_validate_shape :: "crates \<Rightarrow> ApproveV1 \<Rightarrow> error + unit" where
  "ApproveV1_validate_shape X a =
     and_then (decode_base64url X (ap_authenticator_data a)) (\<lambda>authenticator_data.
     and_then (decode_base64url X (ap_client_data_json a)) (\<lambda>client_data.
     and_then (decode_base64url X (ap_signature a)) (\<lambda>signature.
     reject_if
       [Inr (ap_version a \<noteq> VERSION_V1), Inr (\<not> valid_id (ap_request_id a)),
        Inr (\<not> valid_fingerprint X (ap_device_fingerprint a)),
        map_ok (\<lambda>b. b = []) (decode_base64url X (ap_credential_id a)),
        Inr (\<not> (37 \<le> length authenticator_data \<and> length authenticator_data \<le> 1024)),
        Inr (client_data = []), Inr (length client_data > 16 * 1024),
        Inr (\<not> (8 \<le> length signature \<and> length signature \<le> 256))]
       (BadVerdict ''invalid approval shape'') (Inr ()))))"

definition DenyV1_validate_shape :: "crates \<Rightarrow> DenyV1 \<Rightarrow> error + unit" where
  "DenyV1_validate_shape X n =
     reject_if
       [Inr (dn_version n \<noteq> VERSION_V1), Inr (\<not> valid_id (dn_request_id n)),
        Inr (\<not> valid_fingerprint X (dn_device_fingerprint n))]
       (BadVerdict ''invalid denial shape'')
     (case dn_signature n of
        None \<Rightarrow> Inr ()
      | Some signature \<Rightarrow>
          if signature = [] then Inl (BadVerdict ''empty denial signature'')
          else map_ok (\<lambda>_. ()) (decode_base64url X signature))"

definition approve_challenge :: "crates \<Rightarrow> bytes \<Rightarrow> bytes" where
  "approve_challenge X raw_request_json = sha256 X (CHALLENGE_DOMAIN @ raw_request_json)"

definition deny_challenge :: "crates \<Rightarrow> string \<Rightarrow> string \<Rightarrow> bytes" where
  "deny_challenge X request_id fingerprint =
     sha256 X (DENY_DOMAIN @ as_bytes request_id @ [0] @ as_bytes fingerprint)"

definition verify_deny_v1 :: "crates \<Rightarrow> DenyV1 \<Rightarrow> DevicePublicRecordV1 \<Rightarrow> error + unit" where
  "verify_deny_v1 X denial device =
     and_then (DevicePublicRecordV1_validate X device) (\<lambda>_.
     and_then (DenyV1_validate_shape X denial) (\<lambda>_.
     reject_if
       [Inr (dn_request_id denial = []),
        Inr (dn_device_fingerprint denial \<noteq> dv_fingerprint device)]
       (BadVerdict ''denial does not match pinned device'')
     (and_then (ok_or (dn_signature denial) (BadVerdict ''denial is unsigned'')) (\<lambda>signature.
      and_then (decode_base64url X (dv_credential_public_key device)) (\<lambda>public_key.
      and_then (device_key X device public_key) (\<lambda>key.
      and_then (decode_base64url X signature) (\<lambda>der.
      and_then (ok_or (sig_from_der X der) InvalidSignature) (\<lambda>sig.
        if ecdsa_verify X key
             (deny_challenge X (dn_request_id denial) (dn_device_fingerprint denial)) sig
        then Inr () else Inl InvalidSignature))))))))"

section \<open>Sealing\<close>

definition all_zero :: "bytes \<Rightarrow> bool" where
  "all_zero bs = list_all (\<lambda>b. b = 0) bs"

definition seal_v1_with_material ::
  "crates \<Rightarrow> bytes \<Rightarrow> DevicePublicRecordV1 \<Rightarrow> static_secret \<Rightarrow> bytes \<Rightarrow> error + SealedDeviceBodyV1"
where
  "seal_v1_with_material X raw_request_json device secret nonce =
     and_then (decode_exact X (dv_box_public_key device) 32) (\<lambda>peer.
     let public = x25519_public X secret;
         shared = x25519_diffie_hellman X secret peer
     in if all_zero shared then Inl (InvalidRequest ''all-zero X25519 shared secret'')
        else and_then
          (ok_or (aead_encrypt X shared nonce raw_request_json)
             (InvalidRequest ''seal encryption failed'')) (\<lambda>ciphertext.
          Inr \<lparr>sb_device_fingerprint = dv_fingerprint device,
               sb_ephemeral_pub = encode_base64url X public,
               sb_nonce = encode_base64url X nonce,
               sb_ciphertext = encode_base64url X ciphertext\<rparr>))"

definition seal_v1 ::
  "crates \<Rightarrow> bytes \<Rightarrow> DevicePublicRecordV1 \<Rightarrow> static_secret \<Rightarrow> bytes \<Rightarrow> error + SealedDeviceBodyV1"
where
  "seal_v1 X raw_request_json device secret nonce =
     (if length raw_request_json > MAX_REQUEST_BYTES
      then Inl (InvalidRequest ''request exceeds 256 KiB'')
      else and_then (DevicePublicRecordV1_validate X device) (\<lambda>_.
        seal_v1_with_material X raw_request_json device secret nonce))"

definition unseal_v1 :: "crates \<Rightarrow> SealedDeviceBodyV1 \<Rightarrow> static_secret \<Rightarrow> error + bytes" where
  "unseal_v1 X sealed box_secret =
     and_then (decode_exact X (sb_ephemeral_pub sealed) 32) (\<lambda>ephemeral.
     and_then (decode_exact X (sb_nonce sealed) 12) (\<lambda>nonce.
     and_then (decode_base64url X (sb_ciphertext sealed)) (\<lambda>ciphertext.
     let shared = x25519_diffie_hellman X box_secret ephemeral
     in if all_zero shared then Inl (InvalidRequest ''all-zero X25519 shared secret'')
        else and_then (ok_or (aead_decrypt X shared nonce ciphertext)
            (Decode ''sealed body does not open'')) (\<lambda>raw.
          if length raw > MAX_REQUEST_BYTES then Inl (InvalidRequest ''request exceeds 256 KiB'')
          else Inr raw))))"

section \<open>Facts shared by the components\<close>

lemma decode_base64url_encode [simp]:
  "b64_roundtrip X \<Longrightarrow> decode_base64url X (encode_base64url X bs) = Inr bs"
  by (simp add: b64_roundtrip_def decode_base64url_def encode_base64url_def contains_char_def)

lemma decode_exact_encode [simp]:
  "b64_roundtrip X \<Longrightarrow> length bs = n \<Longrightarrow> decode_exact X (encode_base64url X bs) n = Inr bs"
  by (simp add: decode_exact_def)

lemma encode_base64url_inject:
  "b64_roundtrip X \<Longrightarrow> encode_base64url X a = encode_base64url X b \<Longrightarrow> a = b"
  by (metis decode_base64url_encode sum.inject(2))

lemma decode_exact_Inr_iff [result_simps]:
  "decode_exact X v n = Inr bs \<longleftrightarrow> decode_base64url X v = Inr bs \<and> length bs = n"
  by (auto simp: decode_exact_def result_simps)

lemma valid_fingerprint_iff [result_simps]:
  "valid_fingerprint X v \<longleftrightarrow> (\<exists>bs. decode_base64url X v = Inr bs \<and> length bs = 16)"
  by (auto simp: valid_fingerprint_def split: sum.splits)

lemma valid_id_no_nul: "valid_id s \<Longrightarrow> 0 \<notin> set (as_bytes s)"
proof
  assume "valid_id s" and "0 \<in> set (as_bytes s)"
  then obtain c where c: "c \<in> set s" and z: "(of_char c :: u8) = 0"
    by (auto simp: as_bytes_def)
  have "of_char c = (0 :: nat)" using unat_of_char [of c] z by simp
  moreover have "is_ascii_alphanumeric c \<or> c = CHR ''-'' \<or> c = CHR ''_''"
    using \<open>valid_id s\<close> c by (auto simp: valid_id_def list_all_iff)
  ultimately show False by (auto simp: is_ascii_alphanumeric_def Let_def)
qed

section \<open>Timing\<close>

text \<open>over 64-bit timestamps the timing policy accepts exactly the requests issued within
  30 seconds of the receiver's clock, not yet expired, and valid for at most 90 seconds;
  neither saturation nor the checked subtraction changes the verdict.\<close>

theorem validate_request_timing_exact:
  assumes "in_i64 issued_at" "in_i64 expires_at" "in_i64 now"
  shows "validate_request_timing issued_at expires_at now = Inr () \<longleftrightarrow>
    now - 30 \<le> issued_at \<and> issued_at \<le> now + 30 \<and> now < expires_at \<and>
    expires_at - issued_at \<le> 90"
proof -
  have lo: "saturating_sub now 30 \<le> issued_at \<longleftrightarrow> now - 30 \<le> issued_at"
    using assms by (auto simp: saturating_sub_def saturate_i64_def in_i64_def)
  have hi: "issued_at \<le> saturating_add now 30 \<longleftrightarrow> issued_at \<le> now + 30"
    using assms by (auto simp: saturating_add_def saturate_i64_def in_i64_def)
  show ?thesis
    using lo hi assms
    by (auto simp: validate_request_timing_def Let_def wire_limits checked_sub_def
        result_simps in_i64_def i64_min_def i64_max_def not_less split: if_splits)
qed

theorem validate_request_timing_exact_witness:
  "validate_request_timing 1000 1090 1010 = Inr () \<and>
   validate_request_timing i64_max i64_max i64_min \<noteq> Inr ()"
  using validate_request_timing_exact [of 1000 1090 1010]
    validate_request_timing_exact [of i64_max i64_max i64_min]
  by (simp add: in_i64_def i64_min_def i64_max_def)

section \<open>Sealing\<close>

lemma seal_unseal:
  assumes "b64_roundtrip X" "box_correct X"
    and "seal_v1 X raw device secret nonce = Inr body"
    and "length nonce = 12" "length (x25519_public X secret) = 32"
    and "decode_base64url X (dv_box_public_key device) = Inr (x25519_public X box_secret)"
  shows "unseal_v1 X body box_secret = Inr raw \<and>
    sb_device_fingerprint body = dv_fingerprint device"
proof -
  define shared where "shared = x25519_diffie_hellman X secret (x25519_public X box_secret)"
  have sym: "x25519_diffie_hellman X box_secret (x25519_public X secret) = shared"
    using assms(2) by (simp add: box_correct_def shared_def)
  from assms(3,6) obtain ciphertext where
    len: "length raw \<le> MAX_REQUEST_BYTES" and nz: "\<not> all_zero shared"
    and enc: "aead_encrypt X shared nonce raw = Some ciphertext"
    and body: "body = \<lparr>sb_device_fingerprint = dv_fingerprint device,
        sb_ephemeral_pub = encode_base64url X (x25519_public X secret),
        sb_nonce = encode_base64url X nonce, sb_ciphertext = encode_base64url X ciphertext\<rparr>"
    by (auto simp: seal_v1_def seal_v1_with_material_def Let_def result_simps shared_def
        split: if_splits)
  have "aead_decrypt X shared nonce ciphertext = Some raw"
    using enc assms(2) by (auto simp: box_correct_def)
  with assms(1,4,5) len nz sym show ?thesis
    by (simp add: body unseal_v1_def Let_def)
qed

text \<open>what is sealed to a device opens with that device's box secret to exactly the sealed
  bytes, and the sealed body is addressed to the device.\<close>

theorem seal_unseal_roundtrip:
  assumes "b64_roundtrip X" "box_correct X"
    and "seal_v1 X raw device secret nonce = Inr body"
    and "length nonce = 12" "length (x25519_public X secret) = 32"
    and "decode_base64url X (dv_box_public_key device) = Inr (x25519_public X box_secret)"
  shows "unseal_v1 X body box_secret = Inr raw \<and>
    sb_device_fingerprint body = dv_fingerprint device"
  using assms by (rule seal_unseal)

section \<open>Registries\<close>

lemma registry_devices_ok_iff:
  "registry_devices_ok X seen credentials ds = Inr () \<longleftrightarrow>
     (\<forall>d \<in> set ds. DevicePublicRecordV1_validate X d = Inr ()) \<and>
     distinct (map dv_fingerprint ds) \<and> distinct (map dv_credential_id ds) \<and>
     set (map dv_fingerprint ds) \<inter> set seen = {} \<and>
     set (map dv_credential_id ds) \<inter> set credentials = {}"
  by (induction ds arbitrary: seen credentials) (auto simp: result_simps split: if_splits)

lemma registry_valid:
  assumes "DeviceRegistryV1_validate X g = Inr ()"
  shows "rg_version g = VERSION_V1" "length (rg_devices g) \<le> MAX_DEVICES"
    "d \<in> set (rg_devices g) \<Longrightarrow> DevicePublicRecordV1_validate X d = Inr ()"
    "distinct (map dv_fingerprint (rg_devices g))" "distinct (map dv_credential_id (rg_devices g))"
  using assms by (auto simp: DeviceRegistryV1_validate_def result_simps registry_devices_ok_iff)

text \<open>a registry validates exactly when it is version one, holds at most eight valid device
  records, and no two of them share a fingerprint or a credential id.\<close>

theorem DeviceRegistryV1_validate_iff:
  "DeviceRegistryV1_validate X g = Inr () \<longleftrightarrow>
     rg_version g = VERSION_V1 \<and> length (rg_devices g) \<le> MAX_DEVICES \<and>
     (\<forall>d \<in> set (rg_devices g). DevicePublicRecordV1_validate X d = Inr ()) \<and>
     distinct (map dv_fingerprint (rg_devices g)) \<and>
     distinct (map dv_credential_id (rg_devices g))"
  by (auto simp: DeviceRegistryV1_validate_def result_simps registry_devices_ok_iff)

section \<open>Device records\<close>

text \<open>What a validated record guarantees to its users: the decoded key material, its parsed
  key, and the fingerprint computed from it.\<close>

lemma device_validateE:
  assumes "DevicePublicRecordV1_validate X d = Inr ()"
  obtains cid pk box key where
    "decode_base64url X (dv_credential_id d) = Inr cid" "cid \<noteq> []"
    "decode_base64url X (dv_credential_public_key d) = Inr pk"
    "device_key X d pk = Inr key"
    "decode_base64url X (dv_box_public_key d) = Inr box" "length box = 32"
    "dv_fingerprint d = device_fingerprint X cid pk box"
    "dv_kind d \<noteq> Webauthn \<Longrightarrow> cid = native_credential_id X pk \<and> dv_sign_count d = 0"
proof -
  from assms obtain cid pk box key where
    f: "decode_base64url X (dv_credential_id d) = Inr cid" "cid \<noteq> []"
      "decode_base64url X (dv_credential_public_key d) = Inr pk" "device_key X d pk = Inr key"
      "decode_base64url X (dv_box_public_key d) = Inr box" "length box = 32"
      "dv_fingerprint d = device_fingerprint X cid pk box"
    and n: "dv_kind d \<noteq> Webauthn \<longrightarrow> cid = native_credential_id X pk \<and> dv_sign_count d = 0"
    by (auto simp: DevicePublicRecordV1_validate_def result_simps split: if_splits)
  from f n that show ?thesis by blast
qed

definition fingerprint_preimage :: "bytes \<Rightarrow> bytes \<Rightarrow> bytes \<Rightarrow> bytes" where
  "fingerprint_preimage cid pk box =
     FINGERPRINT_DOMAIN @ u64_be_bytes (length cid) @ cid @ u64_be_bytes (length pk) @ pk @ box"

lemma fingerprint_preimage_inject:
  assumes "fingerprint_preimage cid pk box = fingerprint_preimage cid' pk' box'"
    and "length cid < 2 ^ 64" "length cid' < 2 ^ 64" "length pk < 2 ^ 64" "length pk' < 2 ^ 64"
  shows "cid = cid' \<and> pk = pk' \<and> box = box'"
proof -
  from assms(1) have l: "u64_be_bytes (length cid) = u64_be_bytes (length cid')"
    and r: "cid @ u64_be_bytes (length pk) @ pk @ box
      = cid' @ u64_be_bytes (length pk') @ pk' @ box'"
    by (simp_all add: fingerprint_preimage_def)
  have "length cid = length cid'" using l assms(2,3) by (rule u64_be_bytes_inject [rotated 2])
  with r have "cid = cid'" and l2: "u64_be_bytes (length pk) = u64_be_bytes (length pk')"
    and r2: "pk @ box = pk' @ box'" by simp_all
  have "length pk = length pk'" using l2 assms(4,5) by (rule u64_be_bytes_inject [rotated 2])
  with r2 \<open>cid = cid'\<close> show ?thesis by simp
qed

text \<open>the fingerprint pins the whole device: two valid records with one fingerprint carry the
  same credential id, credential key and box key, unless the truncated digest collides on
  exactly their two preimages.\<close>

theorem device_fingerprint_pins_record:
  assumes "DevicePublicRecordV1_validate X d = Inr ()" "DevicePublicRecordV1_validate X d' = Inr ()"
    and "b64_roundtrip X" "dv_fingerprint d = dv_fingerprint d'"
    and "decode_base64url X (dv_credential_id d) = Inr c"
      "decode_base64url X (dv_credential_public_key d) = Inr p"
      "decode_base64url X (dv_box_public_key d) = Inr b"
    and "decode_base64url X (dv_credential_id d') = Inr c'"
      "decode_base64url X (dv_credential_public_key d') = Inr p'"
      "decode_base64url X (dv_box_public_key d') = Inr b'"
    and "length c < 2 ^ 64" "length c' < 2 ^ 64" "length p < 2 ^ 64" "length p' < 2 ^ 64"
    and "take 16 (sha256 X (fingerprint_preimage c p b))
          = take 16 (sha256 X (fingerprint_preimage c' p' b')) \<Longrightarrow>
         fingerprint_preimage c p b = fingerprint_preimage c' p' b'"
  shows "c = c' \<and> p = p' \<and> b = b'"
proof -
  have "dv_fingerprint d = device_fingerprint X c p b"
    using assms(1) by (rule device_validateE) (use assms(5,6,7) in auto)
  moreover have "dv_fingerprint d' = device_fingerprint X c' p' b'"
    using assms(2) by (rule device_validateE) (use assms(8,9,10) in auto)
  ultimately have "device_fingerprint X c p b = device_fingerprint X c' p' b'"
    using assms(4) by simp
  then have "take 16 (sha256 X (fingerprint_preimage c p b))
      = take 16 (sha256 X (fingerprint_preimage c' p' b'))"
    unfolding device_fingerprint_def fingerprint_preimage_def
    by (rule encode_base64url_inject [OF assms(3)])
  then have "fingerprint_preimage c p b = fingerprint_preimage c' p' b'" by (rule assms(15))
  then show ?thesis using assms(11-14) by (rule fingerprint_preimage_inject)
qed

section \<open>Denials\<close>

text \<open>a verified denial carries a signature by the pinned device's own key over the denial
  challenge of exactly this request id and this device; an unsigned denial never verifies.\<close>

theorem verify_deny_v1_sound:
  "verify_deny_v1 X denial device = Inr () \<Longrightarrow>
   DevicePublicRecordV1_validate X device = Inr () \<and>
   valid_id (dn_request_id denial) \<and> dn_device_fingerprint denial = dv_fingerprint device \<and>
   (\<exists>text der sig pk key. dn_signature denial = Some text \<and> decode_base64url X text = Inr der \<and>
      sig_from_der X der = Some sig \<and>
      decode_base64url X (dv_credential_public_key device) = Inr pk \<and>
      device_key X device pk = Inr key \<and>
      ecdsa_verify X key (deny_challenge X (dn_request_id denial) (dv_fingerprint device)) sig)"
  by (auto simp: verify_deny_v1_def DenyV1_validate_shape_def result_simps
      split: if_splits option.splits)

section \<open>A sample device\<close>

text \<open>A native device record that validates with the sample functions, used by the witnesses:
  its box secret is \<open>sample_box_secret\<close>.\<close>

definition sample_box_secret :: static_secret where
  "sample_box_secret = StaticSecret (replicate 32 5)"

definition sample_sec1 :: bytes where
  "sample_sec1 = 4 # replicate 64 9"

definition sample_native :: "DeviceKindV1 \<Rightarrow> DevicePublicRecordV1" where
  "sample_native k = \<lparr>
     dv_version = 1, dv_kind = k,
     dv_fingerprint = device_fingerprint sample (native_credential_id sample sample_sec1)
       sample_sec1 (sample_public sample_box_secret),
     dv_credential_id = sample_encode (native_credential_id sample sample_sec1),
     dv_credential_public_key = sample_encode sample_sec1,
     dv_box_public_key = sample_encode (sample_public sample_box_secret),
     dv_label = ''laptop'',
     dv_api_token_hash = sample_encode (replicate 32 6),
     dv_sign_count = 0, dv_active = True\<rparr>"

definition sample_webauthn :: DevicePublicRecordV1 where
  "sample_webauthn = \<lparr>
     dv_version = 1, dv_kind = Webauthn,
     dv_fingerprint = device_fingerprint sample [1] [2] (sample_public sample_box_secret),
     dv_credential_id = sample_encode [1],
     dv_credential_public_key = sample_encode [2],
     dv_box_public_key = sample_encode (sample_public sample_box_secret),
     dv_label = ''phone'',
     dv_api_token_hash = sample_encode (replicate 32 6),
     dv_sign_count = 4, dv_active = True\<rparr>"

lemma sample_decode_base64url [simp]:
  "decode_base64url sample (sample_encode bs) = Inr bs"
  using decode_base64url_encode [OF sample_b64] by (simp add: encode_base64url_def)

lemma sample_decode_exact [simp]:
  "length bs = n \<Longrightarrow> decode_exact sample (sample_encode bs) n = Inr bs"
  by (simp add: decode_exact_def)

lemma sample_decode_fingerprint [simp]:
  "decode_base64url sample (device_fingerprint sample c p b) =
     Inr (take 16 (sha256 sample (fingerprint_preimage c p b)))"
  by (simp add: device_fingerprint_def fingerprint_preimage_def encode_base64url_def)

lemma sample_valid_fingerprint [simp]: "valid_fingerprint sample (device_fingerprint sample c p b)"
  by (simp add: valid_fingerprint_def)

lemma length_sample_sec1 [simp]: "length sample_sec1 = 65" and sample_sec1_0 [simp]: "sample_sec1 ! 0 = 4"
  by (simp_all add: sample_sec1_def)

lemma length_native_credential_id [simp]: "length (native_credential_id sample bs) = 32"
  by (simp add: native_credential_id_def)

lemma sample_sec1_nonempty [simp]: "sample_sec1 \<noteq> []" "native_credential_id sample bs \<noteq> []"
  by (simp add: sample_sec1_def) (metis length_native_credential_id list.size(3) zero_neq_numeral)

lemma sample_native_valid:
  "k \<noteq> Webauthn \<Longrightarrow> DevicePublicRecordV1_validate sample (sample_native k) = Inr ()"
  by (cases k) (simp_all add: DevicePublicRecordV1_validate_def sample_native_def VERSION_V1_def
      device_key_def sec1_p256_verifying_key_def)

lemma sample_cose_decodes: "bs \<noteq> [] \<Longrightarrow> length bs \<le> n \<Longrightarrow> decode_cbor_value sample bs n = Some sample_cose"
  by (simp add: decode_cbor_accepts sample_cose_def MAX_CBOR_DEPTH_def MAX_CBOR_ITEMS_def
      cbor_values_equal.simps)

lemma sample_cose_key:
  "bs \<noteq> [] \<Longrightarrow> length bs \<le> 4096 \<Longrightarrow>
   cose_p256_verifying_key sample bs = Inr (VerifyingKey (4 # replicate 32 2 @ replicate 32 3))"
  unfolding cose_p256_verifying_key_def MAX_COSE_CBOR_BYTES_def
  by (simp add: sample_cose_decodes) (simp add: sample_cose_def cose_step_def)

lemma sample_webauthn_valid: "DevicePublicRecordV1_validate sample sample_webauthn = Inr ()"
  by (simp add: DevicePublicRecordV1_validate_def sample_webauthn_def VERSION_V1_def
      device_key_def sample_cose_key)

text \<open>Witnesses: sealing three bytes to the sample laptop, two records of one device that differ
  in their label, and a signed denial.\<close>

lemma sample_seal:
  "seal_v1 sample [1, 2, 3] (sample_native SecureEnclave) (StaticSecret (replicate 32 2))
     (replicate 12 0) =
   Inr \<lparr>sb_device_fingerprint = dv_fingerprint (sample_native SecureEnclave),
     sb_ephemeral_pub = sample_encode (replicate 32 2), sb_nonce = sample_encode (replicate 12 0),
     sb_ciphertext = sample_encode ([1, 2, 3] @ replicate 16 0)\<rparr>"
proof -
  have nz: "\<not> all_zero (sample_dh (StaticSecret (replicate 32 2)) (sample_public sample_box_secret))"
    by (simp add: sample_dh_def sample_box_secret_def all_zero_def list_all_iff)
  have v: "DevicePublicRecordV1_validate sample (sample_native SecureEnclave) = Inr ()"
    by (simp add: sample_native_valid)
  show ?thesis
    using nz unfolding seal_v1_def v seal_v1_with_material_def
    by (simp add: sample_native_def Let_def MAX_REQUEST_BYTES_def encode_base64url_def)
qed

theorem seal_unseal_roundtrip_witness:
  "\<exists>body. seal_v1 sample [1, 2, 3] (sample_native SecureEnclave) (StaticSecret (replicate 32 2))
      (replicate 12 0) = Inr body \<and> unseal_v1 sample body sample_box_secret = Inr [1, 2, 3]"
  using seal_unseal_roundtrip [OF sample_b64 sample_box sample_seal, of sample_box_secret] sample_seal
  by (simp add: sample_native_def)

theorem device_fingerprint_pins_record_witness:
  "dv_label ((sample_native SecureEnclave)\<lparr>dv_label := ''desk''\<rparr>) \<noteq> dv_label (sample_native SecureEnclave) \<and>
   decode_base64url sample (dv_credential_public_key ((sample_native SecureEnclave)\<lparr>dv_label := ''desk''\<rparr>))
     = decode_base64url sample (dv_credential_public_key (sample_native SecureEnclave))"
proof -
  let ?d = "sample_native SecureEnclave" and ?d' = "(sample_native SecureEnclave)\<lparr>dv_label := ''desk''\<rparr>"
  let ?c = "native_credential_id sample sample_sec1" and ?b = "sample_public sample_box_secret"
  have v: "DevicePublicRecordV1_validate sample ?d = Inr ()" by (simp add: sample_native_valid)
  have v': "DevicePublicRecordV1_validate sample ?d' = Inr ()"
    using v by (simp add: DevicePublicRecordV1_validate_def device_key_def sample_native_def VERSION_V1_def)
  have "?c = ?c \<and> sample_sec1 = sample_sec1 \<and> ?b = ?b"
    by (rule device_fingerprint_pins_record [OF v v' sample_b64]) (simp_all add: sample_native_def)
  then show ?thesis by (simp add: sample_native_def)
qed

theorem DeviceRegistryV1_validate_iff_witness:
  "DeviceRegistryV1_validate sample \<lparr>rg_version = 1, rg_devices = [sample_native SecureEnclave]\<rparr> = Inr () \<and>
   DeviceRegistryV1_validate sample \<lparr>rg_version = 1, rg_devices = [sample_native SecureEnclave, sample_native Software]\<rparr> \<noteq> Inr ()"
  by (simp add: DeviceRegistryV1_validate_iff sample_native_valid VERSION_V1_def MAX_DEVICES_def) (simp add: sample_native_def)

definition sample_denial :: DenyV1 where
  "sample_denial = \<lparr>dn_version = 1, dn_request_id = ''r1'',
     dn_device_fingerprint = dv_fingerprint (sample_native Software),
     dn_signature = Some (sample_encode
       (deny_challenge sample ''r1'' (dv_fingerprint (sample_native Software))))\<rparr>"

lemma sample_valid_id [simp]: "valid_id ''r1''"
  by (simp add: valid_id_def is_ascii_alphanumeric_def Let_def)

lemma sample_encode_nonempty [simp]: "sample_encode bs = [] \<longleftrightarrow> bs = []"
  by (cases bs) (simp_all add: sample_encode_def)

lemma length_deny_challenge: "length (deny_challenge sample i f) = 32"
  by (simp add: deny_challenge_def)

lemma sample_deny_challenge_nonempty: "deny_challenge sample i f \<noteq> []"
  using length_deny_challenge [of i f] by (metis list.size(3) zero_neq_numeral)

lemma sample_denial_verifies: "verify_deny_v1 sample sample_denial (sample_native Software) = Inr ()"
proof -
  have v: "DevicePublicRecordV1_validate sample (sample_native Software) = Inr ()"
    by (simp add: sample_native_valid)
  show ?thesis
    unfolding verify_deny_v1_def v
    by (simp add: sample_denial_def DenyV1_validate_shape_def VERSION_V1_def device_key_def
        sample_deny_challenge_nonempty sec1_p256_verifying_key_def sample_native_def)
qed

theorem verify_deny_v1_sound_witness:
  "dn_device_fingerprint sample_denial = dv_fingerprint (sample_native Software)"
  using verify_deny_v1_sound [OF sample_denial_verifies] by simp

text \<open>Instances of the external functions that agree on everything but JSON parsing give the same
  decoding, keys and device validity.\<close>

definition core_eq :: "crates \<Rightarrow> crates \<Rightarrow> bool" where
  "core_eq X Y \<longleftrightarrow> b64_encode X = b64_encode Y \<and> b64_decode X = b64_decode Y \<and>
     sha256 X = sha256 Y \<and> vk_from_sec1_bytes X = vk_from_sec1_bytes Y \<and>
     sig_from_der X = sig_from_der Y \<and> ecdsa_verify X = ecdsa_verify Y \<and>
     x25519_diffie_hellman X = x25519_diffie_hellman Y \<and> aead_decrypt X = aead_decrypt Y \<and>
     cbor_from_reader X = cbor_from_reader Y"

lemma core_eqD:
  assumes "core_eq X Y"
  shows "b64_encode X = b64_encode Y" "b64_decode X = b64_decode Y" "sha256 X = sha256 Y"
    "vk_from_sec1_bytes X = vk_from_sec1_bytes Y" "sig_from_der X = sig_from_der Y"
    "ecdsa_verify X = ecdsa_verify Y" "x25519_diffie_hellman X = x25519_diffie_hellman Y"
    "aead_decrypt X = aead_decrypt Y" "cbor_from_reader X = cbor_from_reader Y"
  using assms by (simp_all add: core_eq_def)

lemma core_eq_lift:
  assumes "core_eq X Y"
  shows "decode_base64url X = decode_base64url Y" "decode_exact X = decode_exact Y"
    "valid_fingerprint X = valid_fingerprint Y"
    "cose_p256_verifying_key X = cose_p256_verifying_key Y"
    "sec1_p256_verifying_key X = sec1_p256_verifying_key Y"
    "native_credential_id X = native_credential_id Y" "device_key X = device_key Y"
    "device_fingerprint X = device_fingerprint Y" "approve_challenge X = approve_challenge Y"
    "unseal_v1 X = unseal_v1 Y"
  unfolding fun_eq_iff decode_base64url_def decode_exact_def valid_fingerprint_def
    cose_p256_verifying_key_def decode_cbor_value_def sec1_p256_verifying_key_def
    native_credential_id_def device_key_def device_fingerprint_def encode_base64url_def
    approve_challenge_def unseal_v1_def core_eqD [OF assms]
  by simp_all

lemma core_eq_validate:
  assumes "core_eq X Y"
  shows "DevicePublicRecordV1_validate X = DevicePublicRecordV1_validate Y"
  unfolding fun_eq_iff DevicePublicRecordV1_validate_def core_eq_lift [OF assms] by simp

lemma core_eq_registry:
  assumes "core_eq X Y"
  shows "DeviceRegistryV1_validate X = DeviceRegistryV1_validate Y"
proof -
  have "registry_devices_ok X seen credentials ds = registry_devices_ok Y seen credentials ds" for seen credentials ds
    by (induction ds arbitrary: seen credentials) (simp_all add: core_eq_validate [OF assms])
  then show ?thesis by (simp add: fun_eq_iff DeviceRegistryV1_validate_def)
qed

end
