(* ===== verification/Webauthn_V1.thy ===== *)
theory Webauthn_V1
  imports Wire_V1
begin

text \<open>
  WebAuthn assertion verification for command approvals (\<open>protocol/src/webauthn_v1.rs\<close>).
  \<open>verify_assertion\<close> is the part of \<open>verify_approval_v1\<close> after the record checks; the
  authentication lane repeats the same code with its own challenge. The predicate
  \<open>assertion_proves\<close> is the contract all three WebAuthn lanes are measured against; the locale
  \<open>webauthn_lane\<close> derives from it that the user of the authenticator answered exactly the message of
  the lane, given what the authenticator signed.
\<close>

definition u32_be :: "bytes \<Rightarrow> u32" where
  "u32_be bs = of_nat (from_be_bytes bs)"

definition counter_outcome :: "u32 \<Rightarrow> u32 \<Rightarrow> AssertionOutcomeV1" where
  "counter_outcome observed pinned = \<lparr>
     ao_observed_sign_count = observed,
     ao_counter_regressed = (observed > 0 \<and> pinned > 0 \<and> observed \<le> pinned)\<rparr>"

definition verify_assertion ::
  "crates \<Rightarrow> string \<Rightarrow> string \<Rightarrow> string \<Rightarrow> bytes \<Rightarrow> DevicePublicRecordV1 \<Rightarrow> HookConfigV1
    \<Rightarrow> error + AssertionOutcomeV1" where
  "verify_assertion X authenticator_data_text client_data_text signature_text challenge device config =
     and_then (decode_base64url X client_data_text) (\<lambda>client_data_json.
     and_then (map_err (\<lambda>_. MalformedClientData)
        (client_data_from_slice X ''crossOrigin'' client_data_json)) (\<lambda>client_data.
     if cd_type client_data \<noteq> ''webauthn.get'' then Inl UnexpectedCredentialType
     else if cd_origin client_data \<noteq> cf_origin config \<or> cd_cross_origin client_data
     then Inl BadOrigin
     else if cd_challenge client_data \<noteq> b64_encode X challenge then Inl BadChallenge
     else and_then (decode_base64url X authenticator_data_text) (\<lambda>authenticator_data.
     if length authenticator_data < 37 then Inl MalformedAuthenticatorData
     else if take 32 authenticator_data \<noteq> sha256 X (as_bytes (cf_rp_id config)) then Inl BadRpId
     else let flags = authenticator_data ! 32 in
     if flags AND 0x01 = 0 then Inl MissingUserPresence
     else if flags AND 0x04 = 0 then Inl MissingUserVerification
     else and_then (decode_base64url X (dv_credential_public_key device)) (\<lambda>credential_public_key.
     and_then (cose_p256_verifying_key X credential_public_key) (\<lambda>verifying_key.
     and_then (decode_base64url X signature_text) (\<lambda>der.
     and_then (ok_or (sig_from_der X der) InvalidSignature) (\<lambda>sig.
     if \<not> ecdsa_verify X verifying_key (authenticator_data @ sha256 X client_data_json) sig
     then Inl InvalidSignature
     else Inr (counter_outcome (u32_be (take 4 (drop 33 authenticator_data)))
            (dv_sign_count device)))))))))"

definition verify_approval_v1 ::
  "crates \<Rightarrow> ApproveV1 \<Rightarrow> bytes \<Rightarrow> DevicePublicRecordV1 \<Rightarrow> HookConfigV1
    \<Rightarrow> error + AssertionOutcomeV1" where
  "verify_approval_v1 X approval raw_request_json device config =
     and_then (HookConfigV1_validate config) (\<lambda>_.
     and_then (DevicePublicRecordV1_validate X device) (\<lambda>_.
     reject_if
       [Inr (ap_version approval \<noteq> VERSION_V1), Inr (ap_request_id approval = []),
        Inr (dv_kind device \<noteq> Webauthn),
        Inr (ap_device_fingerprint approval \<noteq> dv_fingerprint device),
        Inr (ap_credential_id approval \<noteq> dv_credential_id device)]
       (BadVerdict ''approval record does not match pinned device'')
       (verify_assertion X (ap_authenticator_data approval) (ap_client_data_json approval)
          (ap_signature approval) (approve_challenge X raw_request_json) device config)))"

section \<open>What an assertion proves\<close>

text \<open>The device's own key signed authenticator data that names this relying party and asserts
  user presence and verification, over client data that the lane's parser reads as a
  same-origin assertion of this origin with exactly this challenge.\<close>

definition assertion_proves ::
  "crates \<Rightarrow> (bytes \<Rightarrow> 'e + ClientData) \<Rightarrow> string \<Rightarrow> string \<Rightarrow> string \<Rightarrow> bytes
    \<Rightarrow> DevicePublicRecordV1 \<Rightarrow> HookConfigV1 \<Rightarrow> bool" where
  "assertion_proves X parse ad_text cd_text sig_text challenge device config \<longleftrightarrow>
     (\<exists>cdj cd ad pk key der sig.
        decode_base64url X cd_text = Inr cdj \<and> parse cdj = Inr cd \<and>
        cd_type cd = ''webauthn.get'' \<and> cd_origin cd = cf_origin config \<and> \<not> cd_cross_origin cd \<and>
        cd_challenge cd = b64_encode X challenge \<and>
        decode_base64url X ad_text = Inr ad \<and>
        37 \<le> length ad \<and> take 32 ad = sha256 X (as_bytes (cf_rp_id config)) \<and>
        ad ! 32 AND 0x01 \<noteq> 0 \<and> ad ! 32 AND 0x04 \<noteq> 0 \<and>
        decode_base64url X (dv_credential_public_key device) = Inr pk \<and>
        cose_p256_verifying_key X pk = Inr key \<and>
        decode_base64url X sig_text = Inr der \<and> sig_from_der X der = Some sig \<and>
        ecdsa_verify X key (ad @ sha256 X cdj) sig)"

lemma verify_assertion_sound:
  assumes "verify_assertion X ad_text cd_text sig_text challenge device config = Inr outcome"
  shows "assertion_proves X (client_data_from_slice X ''crossOrigin'') ad_text cd_text sig_text
    challenge device config"
proof -
  from assms obtain cdj cd ad pk key der sig where
    "decode_base64url X cd_text = Inr cdj" "client_data_from_slice X ''crossOrigin'' cdj = Inr cd"
    "cd_type cd = ''webauthn.get''" "cd_origin cd = cf_origin config" "\<not> cd_cross_origin cd"
    "cd_challenge cd = b64_encode X challenge" "decode_base64url X ad_text = Inr ad"
    "37 \<le> length ad" "take 32 ad = sha256 X (as_bytes (cf_rp_id config))"
    "ad ! 32 AND 0x01 \<noteq> 0" "ad ! 32 AND 0x04 \<noteq> 0"
    "decode_base64url X (dv_credential_public_key device) = Inr pk"
    "cose_p256_verifying_key X pk = Inr key" "decode_base64url X sig_text = Inr der"
    "sig_from_der X der = Some sig" "ecdsa_verify X key (ad @ sha256 X cdj) sig"
    by (auto simp: verify_assertion_def result_simps Let_def not_less split: if_splits)
  then show ?thesis unfolding assertion_proves_def by blast
qed

text \<open>What an authenticator did: each entry of \<open>made\<close> is authenticator data, client data and the message
  whose digest the page asked it to answer. Its key verifies nothing else, and the client data it
  signed carries the challenge of that message.\<close>

type_synonym assertion_made = "bytes \<times> bytes \<times> bytes"

definition signs_only :: "crates \<Rightarrow> DevicePublicRecordV1 \<Rightarrow> assertion_made set \<Rightarrow> bool" where
  "signs_only X device made \<longleftrightarrow>
     (\<forall>pk key m sig. decode_base64url X (dv_credential_public_key device) = Inr pk \<longrightarrow>
        cose_p256_verifying_key X pk = Inr key \<longrightarrow> ecdsa_verify X key m sig \<longrightarrow>
        (\<exists>(ad, cdj, asked) \<in> made. m = ad @ sha256 X cdj))"

definition asked_honestly :: "crates \<Rightarrow> (bytes \<Rightarrow> 'e + ClientData) \<Rightarrow> assertion_made set \<Rightarrow> bool" where
  "asked_honestly X parse made \<longleftrightarrow>
     (\<forall>(ad, cdj, asked) \<in> made. \<forall>cd. parse cdj = Inr cd \<longrightarrow> cd_challenge cd = b64_encode X (sha256 X asked))"

text \<open>The authenticator checked the presence and the identity of its user for this relying party.\<close>

definition user_verified :: "crates \<Rightarrow> HookConfigV1 \<Rightarrow> bytes \<Rightarrow> bool" where
  "user_verified X config ad \<longleftrightarrow> take 32 ad = sha256 X (as_bytes (cf_rp_id config)) \<and>
     ad ! 32 AND 0x01 \<noteq> 0 \<and> ad ! 32 AND 0x04 \<noteq> 0"

text \<open>The user answered this message, up to a digest collision on it or on the client data presented.\<close>

definition user_answered ::
  "crates \<Rightarrow> HookConfigV1 \<Rightarrow> assertion_made set \<Rightarrow> string \<Rightarrow> bytes \<Rightarrow> bool" where
  "user_answered X config made cd_text message \<longleftrightarrow>
     (\<exists>(ad, cdj, asked) \<in> made. user_verified X config ad \<and>
        (asked = message \<or> sha256_collision X asked message \<or>
         (\<exists>shown. decode_base64url X cd_text = Inr shown \<and> sha256_collision X cdj shown)))"

text \<open>The interface of a WebAuthn lane: a verifier for decisions of some type, the projections it
  reads, the client-data parser it uses and the message whose digest it demands as challenge. The
  consequences are proved once and hold for every lane that meets the contract.\<close>

locale webauthn_lane =
  fixes X :: crates
    and parse :: "bytes \<Rightarrow> 'e + ClientData"
    and verify :: "'d \<Rightarrow> bytes \<Rightarrow> DevicePublicRecordV1 \<Rightarrow> HookConfigV1 \<Rightarrow> error + AssertionOutcomeV1"
    and message :: "'d \<Rightarrow> bytes \<Rightarrow> bytes"
    and ad_text cd_text sig_text :: "'d \<Rightarrow> string"
  assumes proves: "verify d raw device config = Inr out \<Longrightarrow>
      assertion_proves X parse (ad_text d) (cd_text d) (sig_text d) (sha256 X (message d raw)) device config"
begin

text \<open>Signed client data answers one challenge only.\<close>

lemma one_challenge:
  assumes "b64_roundtrip X"
    and "verify d raw device config = Inr out" "verify d' raw' device' config' = Inr out'"
    and "cd_text d = cd_text d'"
  shows "sha256 X (message d raw) = sha256 X (message d' raw')"
proof -
  have "b64_encode X (sha256 X (message d raw)) = b64_encode X (sha256 X (message d' raw'))"
    using proves [OF assms(2)] proves [OF assms(3)] assms(4) by (auto simp: assertion_proves_def)
  then show ?thesis
    using encode_base64url_inject [OF assms(1)] by (simp add: encode_base64url_def)
qed

text \<open>A decision that verifies was given by the user of the authenticator, for this very message.\<close>

lemma answered:
  assumes "verify d raw device config = Inr out" "signs_only X device made" "asked_honestly X parse made"
    and "b64_roundtrip X" "digest_sizes X"
  shows "user_answered X config made (cd_text d) (message d raw)"
proof -
  obtain shown cd ad pk key der sig where p: "decode_base64url X (cd_text d) = Inr shown" "parse shown = Inr cd"
      "cd_challenge cd = b64_encode X (sha256 X (message d raw))"
      "take 32 ad = sha256 X (as_bytes (cf_rp_id config))" "ad ! 32 AND 0x01 \<noteq> 0" "ad ! 32 AND 0x04 \<noteq> 0"
      "decode_base64url X (dv_credential_public_key device) = Inr pk" "cose_p256_verifying_key X pk = Inr key"
      "ecdsa_verify X key (ad @ sha256 X shown) sig"
    using proves [OF assms(1)] unfolding assertion_proves_def by blast
  then obtain ad' cdj asked where s: "(ad', cdj, asked) \<in> made" "ad @ sha256 X shown = ad' @ sha256 X cdj"
    using assms(2) unfolding signs_only_def by blast
  have "length (sha256 X shown) = length (sha256 X cdj)" using assms(5) by (simp add: digest_sizes_def)
  with s(2) have ad: "ad' = ad" and digest: "sha256 X cdj = sha256 X shown" by auto
  have "asked = message d raw \<or> sha256_collision X asked (message d raw)" if "cdj = shown"
  proof -
    have "b64_encode X (sha256 X asked) = b64_encode X (sha256 X (message d raw))"
      using assms(3) s(1) p(2,3) that unfolding asked_honestly_def by fastforce
    then have "sha256 X asked = sha256 X (message d raw)"
      using encode_base64url_inject [OF assms(4)] by (simp add: encode_base64url_def)
    then show ?thesis by (auto simp: sha256_collision_def)
  qed
  moreover have "user_verified X config ad'" using p(4-6) ad by (simp add: user_verified_def)
  ultimately show ?thesis
    using s(1) p(1) digest unfolding user_answered_def sha256_collision_def by fastforce
qed

end

lemma verify_approval_v1_facts:
  assumes "verify_approval_v1 X a raw device config = Inr out"
  shows "HookConfigV1_validate config = Inr ()" "DevicePublicRecordV1_validate X device = Inr ()"
    "ap_request_id a \<noteq> []" "dv_kind device = Webauthn"
    "ap_device_fingerprint a = dv_fingerprint device" "ap_credential_id a = dv_credential_id device"
    "verify_assertion X (ap_authenticator_data a) (ap_client_data_json a) (ap_signature a)
       (approve_challenge X raw) device config = Inr out"
  using assms by (auto simp: verify_approval_v1_def result_simps)

interpretation command_lane: webauthn_lane X "client_data_from_slice X ''crossOrigin''"
  "verify_approval_v1 X" "\<lambda>_ raw. CHALLENGE_DOMAIN @ raw" ap_authenticator_data ap_client_data_json ap_signature for X
  by unfold_locales (use verify_approval_v1_facts(7) verify_assertion_sound in \<open>fastforce simp: approve_challenge_def\<close>)

section \<open>A sample assertion\<close>

definition sample_config :: HookConfigV1 where
  "sample_config = \<lparr>cf_version = 1, cf_origin = ''https://a'', cf_rp_id = ''a'',
     cf_server_base_url = ''https://a''\<rparr>"

lemma sample_config_valid: "HookConfigV1_validate sample_config = Inr ()"
  by (simp add: HookConfigV1_validate_def sample_config_def VERSION_V1_def starts_with_def
      contains_char_def)

definition sample_client_data :: "bool \<Rightarrow> bytes \<Rightarrow> ClientData" where
  "sample_client_data cross challenge = \<lparr>cd_type = ''webauthn.get'',
     cd_challenge = sample_encode challenge, cd_origin = ''https://a'', cd_cross_origin = cross\<rparr>"

definition sample_auth_data :: bytes where
  "sample_auth_data = sample_digest (as_bytes ''a'') @ [5, 0, 0, 0, 9]"

text \<open>The client-data bytes are the challenge itself; the signature repeats the signed message.\<close>

definition sample_with_client_data :: "crates \<Rightarrow> bool \<Rightarrow> crates" where
  "sample_with_client_data X cross = X\<lparr>client_data_from_slice := \<lambda>k bs. Inr (sample_client_data cross bs)\<rparr>"

lemma sample_with_client_data_simps [simp]:
  "b64_encode (sample_with_client_data X c) = b64_encode X"
  "b64_decode (sample_with_client_data X c) = b64_decode X"
  "sha256 (sample_with_client_data X c) = sha256 X"
  "vk_from_sec1_bytes (sample_with_client_data X c) = vk_from_sec1_bytes X"
  "sig_from_der (sample_with_client_data X c) = sig_from_der X"
  "ecdsa_verify (sample_with_client_data X c) = ecdsa_verify X"
  "cbor_from_reader (sample_with_client_data X c) = cbor_from_reader X"
  "client_data_from_slice (sample_with_client_data X c) = (\<lambda>k bs. Inr (sample_client_data c bs))"
  by (simp_all add: sample_with_client_data_def)

lemma sample_with_client_data_core: "core_eq (sample_with_client_data X c) X"
  by (simp add: core_eq_def sample_with_client_data_def)

lemmas sample_with_client_data_lift [simp] =
  core_eq_lift [OF sample_with_client_data_core] core_eq_validate [OF sample_with_client_data_core]

definition sample_approval :: ApproveV1 where
  "sample_approval = \<lparr>ap_version = 1, ap_request_id = ''r1'',
     ap_device_fingerprint = dv_fingerprint sample_webauthn,
     ap_credential_id = dv_credential_id sample_webauthn,
     ap_authenticator_data = sample_encode sample_auth_data,
     ap_client_data_json = sample_encode (approve_challenge sample [1, 2]),
     ap_signature = sample_encode
       (sample_auth_data @ sample_digest (approve_challenge sample [1, 2]))\<rparr>"

lemma length_sample_auth_data: "length sample_auth_data = 37"
  by (simp add: sample_auth_data_def)

lemma sample_auth_data_parts:
  "take 32 sample_auth_data = sample_digest (as_bytes ''a'')" "sample_auth_data ! 32 = 5"
  by (simp_all add: sample_auth_data_def nth_append)

lemma sample_assertion:
  "verify_assertion (sample_with_client_data sample False) (sample_encode sample_auth_data)
     (sample_encode ch) (sample_encode (sample_auth_data @ sample_digest ch)) ch
     sample_webauthn sample_config = Inr (counter_outcome (u32_be (take 4 (drop 33 sample_auth_data))) 4)"
  unfolding verify_assertion_def
  by (simp add: sample_client_data_def sample_config_def length_sample_auth_data
      sample_auth_data_parts sample_webauthn_def sample_cose_key Let_def)

lemma sample_approval_verifies:
  "verify_approval_v1 (sample_with_client_data sample False) sample_approval [1, 2] sample_webauthn
     sample_config = Inr (counter_outcome (u32_be (take 4 (drop 33 sample_auth_data))) 4)"
  unfolding verify_approval_v1_def
  by (simp add: sample_config_valid sample_webauthn_valid sample_approval_def VERSION_V1_def
      sample_assertion) (simp add: sample_webauthn_def)

end
