(* ===== verification/Enrollment_V1.thy ===== *)
theory Enrollment_V1
  imports Webauthn_V1
begin

text \<open>
  Enrollment transcripts and native approvals (\<open>protocol/src/enrollment_v1.rs\<close>,
  \<open>protocol/src/native_v1.rs\<close>). The transcript MAC frames every field with its length, so the
  authenticated message determines the fields; the theorems say what a verified
  enrollment pins and that a transcript of one assurance kind is not one of another.
\<close>

definition REGISTRATION_DOMAIN :: bytes where
  "REGISTRATION_DOMAIN = as_bytes ''oshioki/enroll/registration/v1'' @ [0]"
definition PROOF_DOMAIN :: bytes where
  "PROOF_DOMAIN = as_bytes ''oshioki/enroll/proof/v1'' @ [0]"
definition TRANSCRIPT_DOMAIN :: bytes where
  "TRANSCRIPT_DOMAIN = as_bytes ''oshioki/enroll/transcript/v1'' @ [0]"
definition NATIVE_PROOF_DOMAIN :: bytes where
  "NATIVE_PROOF_DOMAIN = as_bytes ''oshioki/enroll/native-proof/v1'' @ [0]"

text \<open>\<open>transcript_mac\<close> keys an HMAC with the HMAC of the domain and feeds it the framed fields;
  its tag is what \<open>finalize\<close> returns and \<open>verify_slice\<close> compares with.\<close>

definition transcript_mac :: "crates \<Rightarrow> bytes \<Rightarrow> bytes \<Rightarrow> bytes list \<Rightarrow> bytes" where
  "transcript_mac X secret domain flds =
     hmac_sha256 X (hmac_sha256 X secret domain) (framed flds)"

definition enrollment_hmac :: "crates \<Rightarrow> bytes \<Rightarrow> bytes \<Rightarrow> bytes list \<Rightarrow> bytes" where
  "enrollment_hmac X secret domain flds = transcript_mac X secret domain flds"

section \<open>Native devices\<close>

definition verify_native_approval_v1 ::
  "crates \<Rightarrow> ApproveNativeV1 \<Rightarrow> bytes \<Rightarrow> DevicePublicRecordV1 \<Rightarrow> error + unit" where
  "verify_native_approval_v1 X approval raw_request_json device =
     and_then (DevicePublicRecordV1_validate X device) (\<lambda>_.
     and_then (ApproveNativeV1_validate_shape X approval) (\<lambda>_.
     if \<not> (dv_kind device = Software \<or> dv_kind device = SecureEnclave) \<or>
        an_device_fingerprint approval \<noteq> dv_fingerprint device
     then Inl (BadVerdict ''native approval does not match pinned device'')
     else and_then (decode_base64url X (dv_credential_public_key device)) (\<lambda>public_key.
     and_then (sec1_p256_verifying_key X public_key) (\<lambda>key.
     and_then (decode_base64url X (an_signature approval)) (\<lambda>der.
     and_then (ok_or (sig_from_der X der) InvalidSignature) (\<lambda>sig.
     if ecdsa_verify X key (approve_challenge X raw_request_json) sig then Inr ()
     else Inl InvalidSignature))))))"

definition native_enrollment_proof ::
  "crates \<Rightarrow> bytes \<Rightarrow> bytes \<Rightarrow> bytes \<Rightarrow> bytes \<Rightarrow> string \<Rightarrow> bytes" where
  "native_enrollment_proof X secret credential_public_key box_public_key api_token_hash label =
     enrollment_hmac X secret NATIVE_PROOF_DOMAIN
       [native_credential_id X credential_public_key, credential_public_key, box_public_key,
        api_token_hash, as_bytes label]"

definition native_transcript_fields ::
  "crates \<Rightarrow> NativeEnrollmentSubmissionV1 \<Rightarrow> DeviceKindV1 \<Rightarrow> error + bytes list" where
  "native_transcript_fields X s kind =
     and_then (decode_base64url X (ns_credential_public_key s)) (\<lambda>credential_public_key.
     and_then (decode_base64url X (ns_box_public_key s)) (\<lambda>box_public_key.
     and_then (decode_base64url X (ns_api_token_hash s)) (\<lambda>api_token_hash.
     and_then (decode_base64url X (ns_proof_signature s)) (\<lambda>proof_signature.
       Inr [as_bytes (ns_enrollment_id s), as_bytes (DeviceKindV1_as_str kind),
            credential_public_key, box_public_key, api_token_hash,
            as_bytes (ns_label s), proof_signature]))))"

definition native_transcript_hmac_for_kind ::
  "crates \<Rightarrow> bytes \<Rightarrow> NativeEnrollmentSubmissionV1 \<Rightarrow> DeviceKindV1 \<Rightarrow> error + bytes" where
  "native_transcript_hmac_for_kind X secret s kind =
     (if \<not> (kind = Software \<or> kind = SecureEnclave)
      then Inl (InvalidRequest ''native enrollment needs a native device kind'')
      else and_then (native_transcript_fields X s kind) (\<lambda>flds.
        Inr (enrollment_hmac X secret TRANSCRIPT_DOMAIN flds)))"

definition native_transcript_hmac ::
  "crates \<Rightarrow> bytes \<Rightarrow> NativeEnrollmentSubmissionV1 \<Rightarrow> error + bytes" where
  "native_transcript_hmac X secret s = native_transcript_hmac_for_kind X secret s SecureEnclave"

definition verify_native_enrollment_for_kind ::
  "crates \<Rightarrow> NativeEnrollmentSubmissionV1 \<Rightarrow> bytes \<Rightarrow> DeviceKindV1 \<Rightarrow> error + DevicePublicRecordV1"
where
  "verify_native_enrollment_for_kind X s secret kind =
     and_then (NativeEnrollmentSubmissionV1_validate_shape X s) (\<lambda>_.
     and_then (decode_base64url X (ns_credential_public_key s)) (\<lambda>credential_public_key.
     and_then (decode_base64url X (ns_box_public_key s)) (\<lambda>box_public_key.
     and_then (decode_base64url X (ns_api_token_hash s)) (\<lambda>api_token_hash.
     and_then (decode_base64url X (ns_proof_signature s)) (\<lambda>proof_signature.
     and_then (decode_base64url X (ns_transcript_hmac s)) (\<lambda>supplied_hmac.
     and_then (native_transcript_fields X s kind) (\<lambda>flds.
     if transcript_mac X secret TRANSCRIPT_DOMAIN flds \<noteq> supplied_hmac
     then Inl (BadVerdict ''transcript HMAC mismatch'')
     else and_then (sec1_p256_verifying_key X credential_public_key) (\<lambda>key.
     let proof = native_enrollment_proof X secret credential_public_key box_public_key
                   api_token_hash (ns_label s)
     in and_then (ok_or (sig_from_der X proof_signature) InvalidSignature) (\<lambda>sig.
     if \<not> ecdsa_verify X key proof sig then Inl InvalidSignature
     else let credential_id = native_credential_id X credential_public_key;
              device = \<lparr>dv_version = VERSION_V1, dv_kind = kind,
                dv_fingerprint = device_fingerprint X credential_id credential_public_key box_public_key,
                dv_credential_id = encode_base64url X credential_id,
                dv_credential_public_key = ns_credential_public_key s,
                dv_box_public_key = ns_box_public_key s,
                dv_label = ns_label s,
                dv_api_token_hash = ns_api_token_hash s,
                dv_sign_count = 0, dv_active = True\<rparr>
     in and_then (DevicePublicRecordV1_validate X device) (\<lambda>_. Inr device))))))))))"

definition verify_native_enrollment_v1 ::
  "crates \<Rightarrow> NativeEnrollmentSubmissionV1 \<Rightarrow> bytes \<Rightarrow> error + DevicePublicRecordV1" where
  "verify_native_enrollment_v1 X s secret = verify_native_enrollment_for_kind X s secret SecureEnclave"

definition verify_software_native_enrollment_v1 ::
  "crates \<Rightarrow> NativeEnrollmentSubmissionV1 \<Rightarrow> bytes \<Rightarrow> error + DevicePublicRecordV1" where
  "verify_software_native_enrollment_v1 X s secret =
     verify_native_enrollment_for_kind X s secret Software"

section \<open>Browser enrollment\<close>

text \<open>The loop over the attestation map keeps the last text entry \<open>fmt\<close> and the last byte entry
  \<open>authData\<close>.\<close>

definition attestation_step :: "string option \<times> bytes option \<Rightarrow> cbor \<times> cbor \<Rightarrow> string option \<times> bytes option"
where
  "attestation_step acc entry =
     (case entry of
        (CText key, CText value) \<Rightarrow> if key = ''fmt'' then (Some value, snd acc) else acc
      | (CText key, CBytes value) \<Rightarrow> if key = ''authData'' then (fst acc, Some value) else acc
      | _ \<Rightarrow> acc)"

definition parse_attestation :: "crates \<Rightarrow> bytes \<Rightarrow> string \<Rightarrow> error + bytes \<times> bytes \<times> u32" where
  "parse_attestation X attestation_object rp_id =
     (case decode_cbor_value X attestation_object MAX_ATTESTATION_CBOR_BYTES of
        Some (CMap entries) \<Rightarrow>
          let found = foldl attestation_step (None, None) entries in
          if fst found \<noteq> Some ''none'' then Inl (BadVerdict ''attestation format must be none'')
          else and_then (ok_or (snd found) MalformedAuthenticatorData) (\<lambda>auth_data.
          if length auth_data < 55 \<or> take 32 auth_data \<noteq> sha256 X (as_bytes rp_id) then Inl BadRpId
          else let flags = auth_data ! 32 in
          if flags AND 0x01 = 0 then Inl MissingUserPresence
          else if flags AND 0x04 = 0 then Inl MissingUserVerification
          else if flags AND 0x40 = 0 then Inl MalformedAuthenticatorData
          else let count = u32_be (take 4 (drop 33 auth_data));
                   credential_len = from_be_bytes (take 2 (drop 53 auth_data));
                   credential_end = 55 + credential_len
          in if credential_end \<ge> length auth_data then Inl MalformedAuthenticatorData
          else let credential_id = take credential_len (drop 55 auth_data) in
          and_then (ok_or (decode_cbor_value X (drop credential_end auth_data) MAX_COSE_CBOR_BYTES)
             MalformedAuthenticatorData) (\<lambda>cose_value.
          and_then (ok_or (cbor_into_writer X cose_value) MalformedAuthenticatorData) (\<lambda>cose.
          and_then (cose_p256_verifying_key X cose) (\<lambda>_. Inr (credential_id, cose, count)))))
      | _ \<Rightarrow> Inl MalformedAuthenticatorData)"

definition verify_assertion_data ::
  "crates \<Rightarrow> bytes \<Rightarrow> bytes \<Rightarrow> bytes \<Rightarrow> string \<Rightarrow> verifying_key \<Rightarrow> error + u32" where
  "verify_assertion_data X authenticator_data client_data_json der rp_id key =
     (if length authenticator_data < 37 \<or>
         take 32 authenticator_data \<noteq> sha256 X (as_bytes rp_id) then Inl BadRpId
      else let flags = authenticator_data ! 32 in
      if flags AND 0x01 = 0 then Inl MissingUserPresence
      else if flags AND 0x04 = 0 then Inl MissingUserVerification
      else and_then (ok_or (sig_from_der X der) InvalidSignature) (\<lambda>sig.
      if \<not> ecdsa_verify X key (authenticator_data @ sha256 X client_data_json) sig
      then Inl InvalidSignature
      else Inr (u32_be (take 4 (drop 33 authenticator_data)))))"

definition verify_enrollment_v1 ::
  "crates \<Rightarrow> WebauthnEnrollmentSubmissionV1 \<Rightarrow> bytes \<Rightarrow> HookConfigV1 \<Rightarrow> error + DevicePublicRecordV1"
where
  "verify_enrollment_v1 X s secret config =
     and_then (HookConfigV1_validate config) (\<lambda>_.
     and_then (WebauthnEnrollmentSubmissionV1_validate_shape X s) (\<lambda>_.
     and_then (decode_base64url X (ws_registration_client_data_json s)) (\<lambda>registration_client_data.
     and_then (decode_base64url X (ws_attestation_object s)) (\<lambda>attestation_object.
     and_then (decode_base64url X (ws_proof_authenticator_data s)) (\<lambda>proof_authenticator_data.
     and_then (decode_base64url X (ws_proof_client_data_json s)) (\<lambda>proof_client_data.
     and_then (decode_base64url X (ws_proof_signature s)) (\<lambda>proof_signature.
     and_then (decode_base64url X (ws_credential_id s)) (\<lambda>submitted_credential_id.
     and_then (decode_base64url X (ws_box_public_key s)) (\<lambda>box_public_key.
     and_then (decode_base64url X (ws_api_token_hash s)) (\<lambda>api_token_hash.
     and_then (decode_base64url X (ws_transcript_hmac s)) (\<lambda>supplied_hmac.
     if length secret \<noteq> 32 \<or> length box_public_key \<noteq> 32 \<or> length api_token_hash \<noteq> 32
     then Inl (InvalidRequest ''invalid enrollment field length'')
     else if transcript_mac X secret TRANSCRIPT_DOMAIN
         [as_bytes (ws_enrollment_id s), registration_client_data, attestation_object,
          proof_authenticator_data, proof_client_data, proof_signature, submitted_credential_id,
          box_public_key, api_token_hash, as_bytes (ws_label s)] \<noteq> supplied_hmac
     then Inl (BadVerdict ''transcript HMAC mismatch'')
     else and_then (map_err (\<lambda>_. MalformedClientData)
        (client_data_from_slice X ''crossOrigin'' registration_client_data)) (\<lambda>registration.
     if cd_type registration \<noteq> ''webauthn.create'' \<or> cd_origin registration \<noteq> cf_origin config \<or>
        cd_cross_origin registration \<or>
        cd_challenge registration \<noteq> b64_encode X (enrollment_hmac X secret REGISTRATION_DOMAIN [])
     then Inl BadChallenge
     else and_then (parse_attestation X attestation_object (cf_rp_id config))
       (\<lambda>(credential_id, cose_key, registration_count).
     if credential_id \<noteq> submitted_credential_id
     then Inl (BadVerdict ''registration credential id mismatch'')
     else and_then (cose_p256_verifying_key X cose_key) (\<lambda>key.
     and_then (map_err (\<lambda>_. MalformedClientData)
        (client_data_from_slice X ''crossOrigin'' proof_client_data)) (\<lambda>proof.
     let expected_proof = enrollment_hmac X secret PROOF_DOMAIN
           [credential_id, box_public_key, api_token_hash, as_bytes (ws_label s)]
     in if cd_type proof \<noteq> ''webauthn.get'' \<or> cd_origin proof \<noteq> cf_origin config \<or>
           cd_cross_origin proof \<or> cd_challenge proof \<noteq> b64_encode X expected_proof
     then Inl BadChallenge
     else and_then (verify_assertion_data X proof_authenticator_data proof_client_data
        proof_signature (cf_rp_id config) key) (\<lambda>proof_count.
     let device = \<lparr>dv_version = VERSION_V1, dv_kind = Webauthn,
           dv_fingerprint = device_fingerprint X credential_id cose_key box_public_key,
           dv_credential_id = encode_base64url X credential_id,
           dv_credential_public_key = encode_base64url X cose_key,
           dv_box_public_key = encode_base64url X box_public_key,
           dv_label = ws_label s,
           dv_api_token_hash = encode_base64url X api_token_hash,
           dv_sign_count = max proof_count registration_count, dv_active = True\<rparr>
     in and_then (DevicePublicRecordV1_validate X device) (\<lambda>_. Inr device)))))))))))))))))"

section \<open>Native approvals\<close>

text \<open>a native approval verifies exactly when the pinned record is valid and native, the
  approval is well formed and names it, and its signature verifies under the pinned key
  over the approval challenge of the retained bytes.\<close>

theorem verify_native_approval_v1_iff:
  "verify_native_approval_v1 X approval raw device = Inr () \<longleftrightarrow>
     DevicePublicRecordV1_validate X device = Inr () \<and> dv_kind device \<noteq> Webauthn \<and>
     ApproveNativeV1_validate_shape X approval = Inr () \<and>
     an_device_fingerprint approval = dv_fingerprint device \<and>
     (\<exists>pk der sig. decode_base64url X (dv_credential_public_key device) = Inr pk \<and>
        decode_base64url X (an_signature approval) = Inr der \<and> sig_from_der X der = Some sig \<and>
        (\<exists>key. sec1_p256_verifying_key X pk = Inr key \<and>
           ecdsa_verify X key (approve_challenge X raw) sig))"
  by (cases "dv_kind device") (auto simp: verify_native_approval_v1_def result_simps split: if_splits)

section \<open>Transcripts\<close>

lemma kind_str_inject: "DeviceKindV1_as_str a = DeviceKindV1_as_str b \<Longrightarrow> a = b"
  by (cases a; cases b) simp_all

definition native_transcript_message ::
  "crates \<Rightarrow> NativeEnrollmentSubmissionV1 \<Rightarrow> DeviceKindV1 \<Rightarrow> error + bytes" where
  "native_transcript_message X s kind = map_ok framed (native_transcript_fields X s kind)"

text \<open>the native transcript tag authenticates the assurance kind together with the
  enrollment id, label and every decoded field: two submissions whose tags agree have the
  same kind, id, label, keys, token hash and proof, unless the MAC collides on exactly
  their two framed messages.\<close>

theorem native_transcript_binds:
  assumes "native_transcript_hmac_for_kind X secret s kind = Inr tag"
    and "native_transcript_hmac_for_kind X secret s' kind' = Inr tag"
    and "native_transcript_message X s kind = Inr m" "native_transcript_message X s' kind' = Inr m'"
    and "\<not> hmac_collision X (hmac_sha256 X secret TRANSCRIPT_DOMAIN) m m'"
    and "native_transcript_fields X s kind = Inr fs" "\<forall>f \<in> set fs. length f < 2 ^ 64"
    and "native_transcript_fields X s' kind' = Inr fs'" "\<forall>f \<in> set fs'. length f < 2 ^ 64"
  shows "kind = kind' \<and> ns_enrollment_id s = ns_enrollment_id s' \<and> ns_label s = ns_label s' \<and>
    fs = fs'"
proof -
  have "hmac_sha256 X (hmac_sha256 X secret TRANSCRIPT_DOMAIN) m
      = hmac_sha256 X (hmac_sha256 X secret TRANSCRIPT_DOMAIN) m'"
    using assms(1-4,6,8)
    by (auto simp: native_transcript_hmac_for_kind_def native_transcript_message_def
        enrollment_hmac_def transcript_mac_def split: if_splits)
  with assms(5) have "m = m'" by (auto simp: hmac_collision_def)
  then have "framed fs = framed fs'"
    using assms(3,4,6,8) by (simp add: native_transcript_message_def)
  with assms(7,9) have eq: "fs = fs'" by (intro framed_inject)
  with assms(6,8) show ?thesis
    by (auto simp: native_transcript_fields_def result_simps dest: kind_str_inject)
qed

section \<open>Verified native enrollment\<close>

text \<open>a verified native enrollment returns a valid, active record of exactly the requested
  assurance kind, carrying the submission's keys, label and token hash; the submission's
  tag is the transcript tag for that kind under the enrollment secret, and the enrolled key
  itself signed the enrollment proof.\<close>

theorem verify_native_enrollment_sound:
  "verify_native_enrollment_for_kind X s secret kind = Inr device \<Longrightarrow>
   DevicePublicRecordV1_validate X device = Inr () \<and> dv_kind device = kind \<and> dv_active device \<and>
   dv_sign_count device = 0 \<and> dv_credential_public_key device = ns_credential_public_key s \<and>
   dv_box_public_key device = ns_box_public_key s \<and> dv_label device = ns_label s \<and>
   dv_api_token_hash device = ns_api_token_hash s \<and>
   (\<exists>pk box token flds tag der sig key.
      decode_base64url X (ns_credential_public_key s) = Inr pk \<and> length pk = 65 \<and>
      decode_base64url X (ns_box_public_key s) = Inr box \<and>
      decode_base64url X (ns_api_token_hash s) = Inr token \<and>
      native_transcript_fields X s kind = Inr flds \<and>
      decode_base64url X (ns_transcript_hmac s) = Inr tag \<and>
      tag = enrollment_hmac X secret TRANSCRIPT_DOMAIN flds \<and>
      decode_base64url X (ns_proof_signature s) = Inr der \<and> sig_from_der X der = Some sig \<and>
      sec1_p256_verifying_key X pk = Inr key \<and>
      ecdsa_verify X key (native_enrollment_proof X secret pk box token (ns_label s)) sig)"
  by (auto simp: verify_native_enrollment_for_kind_def enrollment_hmac_def Let_def result_simps
      NativeEnrollmentSubmissionV1_validate_shape_def split: if_splits)

text \<open>a verified browser enrollment returns a valid, active WebAuthn record whose box key and
  token hash are the submitted ones, whose fingerprint covers the attested credential, and
  whose signature counter is the larger of the two counters seen. The transcript tag
  authenticated every submitted field, and the attested key signed a proof challenge
  derived from the enrollment secret, the credential, the box key, the token and the label.\<close>

theorem verify_enrollment_v1_sound:
  "verify_enrollment_v1 X s secret config = Inr device \<Longrightarrow>
   DevicePublicRecordV1_validate X device = Inr () \<and> dv_kind device = Webauthn \<and>
   dv_active device \<and> dv_label device = ws_label s \<and> length secret = 32 \<and>
   (\<exists>reg att cid cose rc pc pad pcd psig key box token tag proof.
      decode_base64url X (ws_registration_client_data_json s) = Inr reg \<and>
      decode_base64url X (ws_attestation_object s) = Inr att \<and>
      decode_base64url X (ws_proof_authenticator_data s) = Inr pad \<and>
      decode_base64url X (ws_proof_client_data_json s) = Inr pcd \<and>
      decode_base64url X (ws_proof_signature s) = Inr psig \<and>
      decode_base64url X (ws_credential_id s) = Inr cid \<and>
      decode_base64url X (ws_box_public_key s) = Inr box \<and>
      decode_base64url X (ws_api_token_hash s) = Inr token \<and>
      decode_base64url X (ws_transcript_hmac s) = Inr tag \<and>
      tag = transcript_mac X secret TRANSCRIPT_DOMAIN
        [as_bytes (ws_enrollment_id s), reg, att, pad, pcd, psig, cid, box, token,
         as_bytes (ws_label s)] \<and>
      parse_attestation X att (cf_rp_id config) = Inr (cid, cose, rc) \<and>
      cose_p256_verifying_key X cose = Inr key \<and>
      client_data_from_slice X ''crossOrigin'' pcd = Inr proof \<and>
      cd_challenge proof = b64_encode X (enrollment_hmac X secret PROOF_DOMAIN
        [cid, box, token, as_bytes (ws_label s)]) \<and>
      verify_assertion_data X pad pcd psig (cf_rp_id config) key = Inr pc \<and>
      dv_fingerprint device = device_fingerprint X cid cose box \<and>
      dv_sign_count device = max pc rc)"
  by (auto simp: verify_enrollment_v1_def Let_def result_simps split: if_splits prod.splits)

section \<open>Sample enrollments\<close>

definition sample_secret :: bytes where "sample_secret = replicate 32 8"

definition sample_proof :: bytes where
  "sample_proof = native_enrollment_proof sample sample_secret sample_sec1
     (sample_public sample_box_secret) (replicate 32 6) ''laptop''"

definition sample_flds :: "DeviceKindV1 \<Rightarrow> bytes list" where
  "sample_flds k = [as_bytes ''r1'', as_bytes (DeviceKindV1_as_str k), sample_sec1,
     sample_public sample_box_secret, replicate 32 6, as_bytes ''laptop'', sample_proof]"

definition sample_submission :: "DeviceKindV1 \<Rightarrow> NativeEnrollmentSubmissionV1" where
  "sample_submission k = \<lparr>ns_version = 1, ns_enrollment_id = ''r1'',
     ns_credential_public_key = sample_encode sample_sec1,
     ns_box_public_key = sample_encode (sample_public sample_box_secret),
     ns_api_token_hash = sample_encode (replicate 32 6), ns_label = ''laptop'',
     ns_proof_signature = sample_encode sample_proof,
     ns_transcript_hmac = sample_encode
       (transcript_mac sample sample_secret TRANSCRIPT_DOMAIN (sample_flds k))\<rparr>"

lemma length_sample_proof [simp]: "length sample_proof = 32"
  by (simp add: sample_proof_def native_enrollment_proof_def enrollment_hmac_def transcript_mac_def)

lemma length_sample_mac [simp]: "length (transcript_mac sample k d f) = 32"
  by (simp add: transcript_mac_def)

lemma sample_flds_eq: "native_transcript_fields sample (sample_submission j) k = Inr (sample_flds k)"
  by (simp add: native_transcript_fields_def sample_submission_def sample_flds_def)

lemma sample_enrollment:
  assumes "k \<noteq> Webauthn"
  shows "verify_native_enrollment_for_kind sample (sample_submission k) sample_secret k
    = Inr (sample_native k)"
proof -
  have shape: "NativeEnrollmentSubmissionV1_validate_shape sample (sample_submission k) = Inr ()"
    by (simp add: NativeEnrollmentSubmissionV1_validate_shape_def sample_submission_def VERSION_V1_def)
  have valid: "DevicePublicRecordV1_validate sample \<lparr>dv_version = 1, dv_kind = k,
      dv_fingerprint = device_fingerprint sample (native_credential_id sample sample_sec1) sample_sec1
        (sample_public sample_box_secret),
      dv_credential_id = sample_encode (native_credential_id sample sample_sec1),
      dv_credential_public_key = sample_encode sample_sec1,
      dv_box_public_key = sample_encode (sample_public sample_box_secret), dv_label = ''laptop'',
      dv_api_token_hash = sample_encode (replicate 32 6), dv_sign_count = 0, dv_active = True\<rparr> = Inr ()"
    using sample_native_valid [OF assms] by (simp add: sample_native_def)
  show ?thesis
    unfolding verify_native_enrollment_for_kind_def shape sample_flds_eq
    by (simp add: sample_submission_def sec1_p256_verifying_key_def Let_def VERSION_V1_def valid
        encode_base64url_def sample_proof_def [symmetric] sample_native_def)
qed

theorem verify_native_enrollment_sound_witness:
  "dv_kind (sample_native Software) = Software \<and>
   DevicePublicRecordV1_validate sample (sample_native Software) = Inr ()"
  using verify_native_enrollment_sound [OF sample_enrollment [of Software]] by simp

theorem native_transcript_binds_witness:
  "native_transcript_hmac_for_kind sample sample_secret (sample_submission Software) Software
     = native_transcript_hmac_for_kind sample sample_secret (sample_submission SecureEnclave) Software \<and>
   sample_flds Software = sample_flds Software"
proof -
  let ?tag = "enrollment_hmac sample sample_secret TRANSCRIPT_DOMAIN (sample_flds Software)"
  have t: "native_transcript_hmac_for_kind sample sample_secret (sample_submission j) Software = Inr ?tag" for j
    by (simp add: native_transcript_hmac_for_kind_def sample_flds_eq)
  have m: "native_transcript_message sample (sample_submission j) Software
      = Inr (framed (sample_flds Software))" for j
    by (simp add: native_transcript_message_def sample_flds_eq)
  have l: "\<forall>f \<in> set (sample_flds Software). length f < 2 ^ 64" by (simp add: sample_flds_def)
  have c: "\<not> hmac_collision sample (hmac_sha256 sample sample_secret TRANSCRIPT_DOMAIN)
      (framed (sample_flds Software)) (framed (sample_flds Software))"
    by (simp add: hmac_collision_def)
  show ?thesis
    using t native_transcript_binds [OF t t m m c sample_flds_eq l sample_flds_eq l] by simp
qed

text \<open>A browser enrollment: the attestation object is any long input, client data is a type byte
  followed by the challenge.\<close>

definition sample_attested :: bytes where
  "sample_attested = sample_digest (as_bytes ''a'') @ [0x45, 0, 0, 0, 3] @ replicate 16 0
     @ [0, 1, 1] @ [9, 9]"

definition sample_browser :: crates where
  "sample_browser = sample\<lparr>
     cbor_from_reader := \<lambda>bs limit. Some
       (if length bs > 100 then CMap [(CText ''fmt'', CText ''none''), (CText ''authData'', CBytes sample_attested)]
        else sample_cose, length bs),
     client_data_from_slice := \<lambda>k bs. Inr \<lparr>
       cd_type = (if hd bs = 0 then ''webauthn.create'' else ''webauthn.get''),
       cd_challenge = sample_encode (tl bs), cd_origin = ''https://a'', cd_cross_origin = False\<rparr>\<rparr>"

lemma sample_browser_simps [simp]:
  "b64_encode sample_browser = sample_encode" "b64_decode sample_browser = sample_decode"
  "sha256 sample_browser = sample_digest" "hmac_sha256 sample_browser = (\<lambda>k m. sample_digest (m @ k))"
  "vk_from_sec1_bytes sample_browser = (\<lambda>bs. Some (VerifyingKey bs))"
  "sig_from_der sample_browser = (\<lambda>bs. Some (Signature bs))"
  "ecdsa_verify sample_browser = (\<lambda>key m sig. sig = Signature m)"
  "cbor_into_writer sample_browser = (\<lambda>v. Some [1, 2, 3])"
  by (simp_all add: sample_browser_def)

lemma sample_browser_decode [simp]:
  "decode_base64url sample_browser (sample_encode bs) = Inr bs"
  by (simp add: decode_base64url_def contains_char_def sample_decode_encode sample_encode_no_padding)

lemma sample_browser_decode_exact [simp]:
  "length bs = n \<Longrightarrow> decode_exact sample_browser (sample_encode bs) n = Inr bs"
  by (simp add: decode_exact_def)

lemma sample_browser_cbor:
  "bs \<noteq> [] \<Longrightarrow> length bs \<le> 100 \<Longrightarrow> decode_cbor_value sample_browser bs 4096 = Some sample_cose"
  "100 < length bs \<Longrightarrow> length bs \<le> 131072 \<Longrightarrow> decode_cbor_value sample_browser bs 131072
     = Some (CMap [(CText ''fmt'', CText ''none''), (CText ''authData'', CBytes sample_attested)])"
  by (auto simp: decode_cbor_accepts sample_browser_def sample_cose_def MAX_CBOR_DEPTH_def
      MAX_CBOR_ITEMS_def cbor_values_equal.simps)

lemma sample_browser_key:
  "cose_p256_verifying_key sample_browser [1, 2, 3]
     = Inr (VerifyingKey (4 # replicate 32 2 @ replicate 32 3))"
  unfolding cose_p256_verifying_key_def MAX_COSE_CBOR_BYTES_def
  by (simp add: sample_browser_cbor) (simp add: sample_cose_def cose_step_def)

lemma sample_attested_parts:
  "length sample_attested = 58" "take 32 sample_attested = sample_digest (as_bytes ''a'')"
  "sample_attested ! 32 = 0x45" "take 4 (drop 33 sample_attested) = [0, 0, 0, 3]"
  "take 2 (drop 53 sample_attested) = [0, 1]" "take (Suc 0) (drop 55 sample_attested) = [1]"
  "drop 56 sample_attested = [9, 9]"
  by (simp_all add: sample_attested_def nth_append)

lemma sample_parse_attestation:
  "parse_attestation sample_browser (replicate 101 0) ''a'' = Inr ([1], [1, 2, 3], 3)"
  unfolding parse_attestation_def MAX_ATTESTATION_CBOR_BYTES_def MAX_COSE_CBOR_BYTES_def
  by (simp add: sample_browser_cbor attestation_step_def sample_attested_parts Let_def u32_be_def
      from_be_bytes_def sample_browser_key)

definition sample_proof_challenge :: bytes where
  "sample_proof_challenge = enrollment_hmac sample_browser sample_secret PROOF_DOMAIN
     [[1], sample_public sample_box_secret, replicate 32 6, as_bytes ''phone'']"

definition sample_registration_challenge :: bytes where
  "sample_registration_challenge = enrollment_hmac sample_browser sample_secret REGISTRATION_DOMAIN []"

definition sample_browser_submission :: WebauthnEnrollmentSubmissionV1 where
  "sample_browser_submission = \<lparr>ws_version = 1, ws_enrollment_id = ''r1'',
     ws_registration_client_data_json = sample_encode (0 # sample_registration_challenge),
     ws_attestation_object = sample_encode (replicate 101 0),
     ws_proof_authenticator_data = sample_encode sample_auth_data,
     ws_proof_client_data_json = sample_encode (1 # sample_proof_challenge),
     ws_proof_signature = sample_encode (sample_auth_data @ sample_digest (1 # sample_proof_challenge)),
     ws_credential_id = sample_encode [1],
     ws_box_public_key = sample_encode (sample_public sample_box_secret),
     ws_api_token_hash = sample_encode (replicate 32 6), ws_label = ''phone'',
     ws_transcript_hmac = sample_encode (transcript_mac sample_browser sample_secret TRANSCRIPT_DOMAIN
       [as_bytes ''r1'', 0 # sample_registration_challenge, replicate 101 0, sample_auth_data,
        1 # sample_proof_challenge, sample_auth_data @ sample_digest (1 # sample_proof_challenge), [1],
        sample_public sample_box_secret, replicate 32 6, as_bytes ''phone''])\<rparr>"

definition sample_browser_device :: DevicePublicRecordV1 where
  "sample_browser_device = \<lparr>dv_version = 1, dv_kind = Webauthn,
     dv_fingerprint = device_fingerprint sample_browser [1] [1, 2, 3] (sample_public sample_box_secret),
     dv_credential_id = sample_encode [1], dv_credential_public_key = sample_encode [1, 2, 3],
     dv_box_public_key = sample_encode (sample_public sample_box_secret), dv_label = ''phone'',
     dv_api_token_hash = sample_encode (replicate 32 6), dv_sign_count = 9, dv_active = True\<rparr>"

lemma sample_browser_fingerprint [simp]:
  "valid_fingerprint sample_browser (device_fingerprint sample_browser c p b)"
  by (simp add: valid_fingerprint_def device_fingerprint_def encode_base64url_def)

lemma sample_browser_device_valid:
  "DevicePublicRecordV1_validate sample_browser sample_browser_device = Inr ()"
  by (simp add: DevicePublicRecordV1_validate_def sample_browser_device_def VERSION_V1_def
      device_key_def sample_browser_key)

lemma sample_challenge_lengths [simp]:
  "length sample_proof_challenge = 32" "length sample_registration_challenge = 32"
  "length (transcript_mac sample_browser k d f) = 32"
  by (simp_all add: sample_proof_challenge_def sample_registration_challenge_def enrollment_hmac_def
      transcript_mac_def)

lemma sample_browser_shape:
  "WebauthnEnrollmentSubmissionV1_validate_shape sample_browser sample_browser_submission = Inr ()"
  by (simp add: WebauthnEnrollmentSubmissionV1_validate_shape_def sample_browser_submission_def
      VERSION_V1_def length_sample_auth_data)

lemma sample_browser_proof:
  "verify_assertion_data sample_browser sample_auth_data cd (sample_auth_data @ sample_digest cd) ''a'' key
     = Inr 9"
  by (simp add: verify_assertion_data_def length_sample_auth_data sample_auth_data_parts Let_def)
    (simp add: sample_auth_data_def u32_be_def from_be_bytes_def)

lemma sample_browser_enrollment:
  "verify_enrollment_v1 sample_browser sample_browser_submission sample_secret sample_config
     = Inr sample_browser_device"
proof -
  have cd: "client_data_from_slice sample_browser k bs = Inr \<lparr>
       cd_type = (if hd bs = 0 then ''webauthn.create'' else ''webauthn.get''),
       cd_challenge = sample_encode (tl bs), cd_origin = ''https://a'', cd_cross_origin = False\<rparr>" for k bs
    by (simp add: sample_browser_def)
  have cfg: "cf_origin sample_config = ''https://a''" "cf_rp_id sample_config = ''a''"
    by (simp_all add: sample_config_def)
  have len: "length sample_secret = 32" by (simp add: sample_secret_def)
  show ?thesis
    unfolding verify_enrollment_v1_def sample_config_valid sample_browser_shape
    using sample_browser_device_valid
    by (simp add: sample_browser_submission_def cd cfg len sample_parse_attestation sample_browser_key
        sample_registration_challenge_def [symmetric] sample_proof_challenge_def [symmetric]
        sample_browser_proof Let_def encode_base64url_def VERSION_V1_def sample_browser_device_def max_def)
      (simp add: sample_proof_challenge_def)
qed

theorem verify_enrollment_v1_sound_witness:
  "dv_kind sample_browser_device = Webauthn \<and>
   DevicePublicRecordV1_validate sample_browser sample_browser_device = Inr ()"
  using verify_enrollment_v1_sound [OF sample_browser_enrollment] by blast

end
