(* ===== verification/Auth_V1.thy ===== *)
theory Auth_V1
  imports Enrollment_V1
begin

text \<open>
  Contextual sudo authentication (\<open>protocol/src/auth_v1.rs\<close>): validators of the trusted and
  submitted context, the request and its envelope, opening an envelope for one device, and
  the two verifiers. The WebAuthn verifier repeats the assertion checks of the command lane
  with the authentication challenge.
\<close>

definition AUTH_WIRE_VERSION :: u8 where "AUTH_WIRE_VERSION = 2"
definition AUTH_ENVELOPE_TYPE :: string where "AUTH_ENVELOPE_TYPE = ''sudo_authentication''"
definition AUTH_REQUEST_TYPE :: string where "AUTH_REQUEST_TYPE = ''sudo_authentication_request''"
definition AUTH_NATIVE_DECISION_TYPE :: string where
  "AUTH_NATIVE_DECISION_TYPE = ''sudo_authentication_native''"
definition AUTH_WEBAUTHN_DECISION_TYPE :: string where
  "AUTH_WEBAUTHN_DECISION_TYPE = ''sudo_authentication_webauthn''"
definition AUTH_CHALLENGE_DOMAIN :: bytes where
  "AUTH_CHALLENGE_DOMAIN = as_bytes ''oshioki/authenticate/sudo/v1'' @ [0]"
definition MAX_SERVICE_BYTES :: nat where "MAX_SERVICE_BYTES = 128"
definition MAX_USER_BYTES :: nat where "MAX_USER_BYTES = 256"
definition MAX_TTY_BYTES :: nat where "MAX_TTY_BYTES = 4096"
definition MAX_LABEL_BYTES :: nat where "MAX_LABEL_BYTES = 256"
definition MAX_SESSION_BYTES :: nat where "MAX_SESSION_BYTES = 256"
definition MAX_INVOCATION_STRING_BYTES :: nat where "MAX_INVOCATION_STRING_BYTES = 64 * 1024"
definition MAX_INVOCATION_ARGS :: nat where "MAX_INVOCATION_ARGS = 4096"

definition any_control :: "string \<Rightarrow> bool" where
  "any_control s = list_ex is_control (chars_of s)"

section \<open>Context\<close>

definition TrustedAuthContextV1_validate :: "TrustedAuthContextV1 \<Rightarrow> error + unit" where
  "TrustedAuthContextV1_validate c =
     reject_if
       [Inr (tc_host c = []), Inr (length (tc_host c) > 255),
        Inr (tc_service c = []), Inr (length (tc_service c) > MAX_SERVICE_BYTES),
        Inr (tc_pam_user c = []), Inr (length (tc_pam_user c) > MAX_USER_BYTES),
        Inr (is_some_and (\<lambda>v. v = [] \<or> length v > MAX_USER_BYTES) (tc_invoking_user c)),
        Inr (is_some_and (\<lambda>v. v = [] \<or> length v > MAX_TTY_BYTES) (tc_tty c))]
       (InvalidRequest ''invalid trusted authentication context'')
     (reject_if
       [Inr (any_control (tc_host c)), Inr (any_control (tc_service c)),
        Inr (any_control (tc_pam_user c)),
        Inr (is_some_and any_control (tc_invoking_user c)),
        Inr (is_some_and any_control (tc_tty c))]
       (InvalidRequest ''trusted authentication context contains control characters'')
       (Inr ()))"

definition validate_invocation_strings :: "string \<Rightarrow> string \<Rightarrow> string list \<Rightarrow> error + unit" where
  "validate_invocation_strings command cwd argv =
     reject_if
       [Inr (length command > MAX_INVOCATION_STRING_BYTES),
        Inr (length cwd > MAX_INVOCATION_STRING_BYTES),
        Inr (length argv > MAX_INVOCATION_ARGS),
        Inr (list_ex (\<lambda>arg. length arg > MAX_INVOCATION_STRING_BYTES) argv),
        Inr (contains_char (CHR 0x00) command), Inr (contains_char (CHR 0x00) cwd),
        Inr (list_ex (contains_char (CHR 0x00)) argv)]
       (InvalidRequest ''invocation exceeds bounds or contains NUL'') (Inr ())"

fun AuthInvocationV1_validate :: "AuthInvocationV1 \<Rightarrow> error + unit" where
  "AuthInvocationV1_validate (Available command argv cwd) =
     (if command = [] \<or> cwd = []
      then Inl (InvalidRequest ''available invocation needs command and cwd'')
      else validate_invocation_strings command cwd argv)"
| "AuthInvocationV1_validate (Truncated command argv cwd omitted_args) =
     (if is_some_and (\<lambda>count. count = 0) omitted_args
      then Inl (InvalidRequest ''truncated invocation omitted no arguments'')
      else if is_some_and (\<lambda>v. v = []) command \<or> is_some_and (\<lambda>v. v = []) cwd
      then Inl (InvalidRequest ''truncated invocation contains an empty optional field'')
      else validate_invocation_strings (case command of None \<Rightarrow> [] | Some v \<Rightarrow> v)
        (case cwd of None \<Rightarrow> [] | Some v \<Rightarrow> v) argv)"
| "AuthInvocationV1_validate Unavailable = Inr ()"

definition SubmittedAuthContextV1_validate :: "SubmittedAuthContextV1 \<Rightarrow> error + unit" where
  "SubmittedAuthContextV1_validate c =
     reject_if
       [Inr (is_some_and (\<lambda>v. v = [] \<or> length v > MAX_SESSION_BYTES) (sc_session c)),
        Inr (is_some_and (\<lambda>v. v = [] \<or> length v > MAX_LABEL_BYTES) (sc_agent_label c)),
        Inr (is_some_and any_control (sc_session c)),
        Inr (is_some_and any_control (sc_agent_label c))]
       (InvalidRequest ''invalid submitted authentication context'')
       (AuthInvocationV1_validate (sc_invocation c))"

section \<open>Requests and envelopes\<close>

definition AuthRequestV1_validate :: "crates \<Rightarrow> AuthRequestV1 \<Rightarrow> error + unit" where
  "AuthRequestV1_validate X r =
     reject_if
       [Inr (aq_message_type r \<noteq> AUTH_REQUEST_TYPE), Inr (aq_version r \<noteq> AUTH_WIRE_VERSION),
        Inr (\<not> valid_id (aq_request_id r)), Inr (is_err (decode_exact X (aq_nonce r) 16)),
        Inr (aq_expires_at r \<le> aq_issued_at r)]
       (InvalidRequest ''invalid authentication request header'')
     (and_then (TrustedAuthContextV1_validate (aq_trusted r)) (\<lambda>_.
       SubmittedAuthContextV1_validate (aq_submitted r)))"

definition AuthRequestV1_validate_at :: "crates \<Rightarrow> AuthRequestV1 \<Rightarrow> i64 \<Rightarrow> error + unit" where
  "AuthRequestV1_validate_at X r now =
     and_then (AuthRequestV1_validate X r) (\<lambda>_.
       validate_request_timing (aq_issued_at r) (aq_expires_at r) now)"

definition AuthRequestV1_raw_json :: "crates \<Rightarrow> AuthRequestV1 \<Rightarrow> error + bytes" where
  "AuthRequestV1_raw_json X r =
     and_then (AuthRequestV1_validate X r) (\<lambda>_.
     and_then (map_err InvalidRequest (to_vec_auth_request X r)) (\<lambda>raw.
       if length raw > MAX_REQUEST_BYTES
       then Inl (InvalidRequest ''authentication request exceeds 256 KiB'') else Inr raw))"

text \<open>The loop over sealed bodies also refuses a fingerprint it has seen before.\<close>

fun auth_bodies_ok :: "crates \<Rightarrow> string list \<Rightarrow> SealedDeviceBodyV1 list \<Rightarrow> error + unit" where
  "auth_bodies_ok X fingerprints [] = Inr ()"
| "auth_bodies_ok X fingerprints (body # bodies) =
     reject_if
       [Inr (\<not> valid_fingerprint X (sb_device_fingerprint body)),
        Inr (sb_device_fingerprint body \<in> set fingerprints),
        Inr (is_err (decode_exact X (sb_ephemeral_pub body) 32)),
        Inr (is_err (decode_exact X (sb_nonce body) 12)),
        map_ok (\<lambda>b. length b < 16) (decode_base64url X (sb_ciphertext body))]
       (InvalidRequest ''invalid authentication sealed body'')
       (auth_bodies_ok X (sb_device_fingerprint body # fingerprints) bodies)"

definition AuthEnvelopeV1_validate :: "crates \<Rightarrow> AuthEnvelopeV1 \<Rightarrow> error + unit" where
  "AuthEnvelopeV1_validate X e =
     reject_if
       [Inr (ae_message_type e \<noteq> AUTH_ENVELOPE_TYPE), Inr (ae_version e \<noteq> AUTH_WIRE_VERSION),
        Inr (\<not> valid_id (ae_request_id e)), Inr (ae_host e = []), Inr (length (ae_host e) > 255),
        Inr (any_control (ae_host e)), Inr (ae_sealed e = []),
        Inr (length (ae_sealed e) > MAX_DEVICES), Inr (ae_expires_at e \<le> ae_issued_at e)]
       (InvalidRequest ''invalid authentication envelope'')
     (and_then (auth_bodies_ok X [] (ae_sealed e)) (\<lambda>_.
      and_then (map_err InvalidRequest (to_vec_auth_envelope X e)) (\<lambda>bs.
        if length bs > MAX_ENVELOPE_BYTES
        then Inl (InvalidRequest ''authentication envelope exceeds 3 MiB'') else Inr ())))"

definition AuthEnvelopeV1_validate_at :: "crates \<Rightarrow> AuthEnvelopeV1 \<Rightarrow> i64 \<Rightarrow> error + unit" where
  "AuthEnvelopeV1_validate_at X e now =
     and_then (AuthEnvelopeV1_validate X e) (\<lambda>_.
       validate_request_timing (ae_issued_at e) (ae_expires_at e) now)"

definition parse_auth_request_at :: "crates \<Rightarrow> bytes \<Rightarrow> i64 \<Rightarrow> error + AuthRequestV1" where
  "parse_auth_request_at X raw now =
     (if length raw > MAX_REQUEST_BYTES
      then Inl (InvalidRequest ''authentication request exceeds 256 KiB'')
      else and_then (map_err (\<lambda>e. InvalidRequest (''decode authentication request: '' @ e))
          (from_slice_auth_request X raw)) (\<lambda>request.
        and_then (AuthRequestV1_validate_at X request now) (\<lambda>_. Inr request)))"

definition AuthEnvelopeV1_open_for_device ::
  "crates \<Rightarrow> AuthEnvelopeV1 \<Rightarrow> string \<Rightarrow> static_secret \<Rightarrow> i64 \<Rightarrow> error + OpenedAuthRequestV1 option"
where
  "AuthEnvelopeV1_open_for_device X e fingerprint box_secret now =
     and_then (AuthEnvelopeV1_validate_at X e now) (\<lambda>_.
     case find (\<lambda>body. sb_device_fingerprint body = fingerprint) (ae_sealed e) of
       None \<Rightarrow> Inr None
     | Some sealed \<Rightarrow>
         and_then (unseal_v1 X sealed box_secret) (\<lambda>raw.
         and_then (parse_auth_request_at X raw now) (\<lambda>request.
         if aq_request_id request \<noteq> ae_request_id e \<or> tc_host (aq_trusted request) \<noteq> ae_host e \<or>
            aq_issued_at request \<noteq> ae_issued_at e \<or> aq_expires_at request \<noteq> ae_expires_at e
         then Inl (InvalidRequest ''sealed authentication request does not match its envelope'')
         else Inr (Some \<lparr>oa_request = request, oa_raw = raw\<rparr>))))"

section \<open>Decisions\<close>

definition AuthApproveNativeV1_validate_shape :: "crates \<Rightarrow> AuthApproveNativeV1 \<Rightarrow> error + unit" where
  "AuthApproveNativeV1_validate_shape X a =
     reject_if
       [Inr (aan_version a \<noteq> AUTH_WIRE_VERSION), Inr (\<not> valid_id (aan_request_id a)),
        Inr (\<not> valid_fingerprint X (aan_device_fingerprint a)),
        map_ok (\<lambda>b. \<not> (8 \<le> length b \<and> length b \<le> 256)) (decode_base64url X (aan_signature a))]
       (BadVerdict ''invalid native authentication approval shape'') (Inr ())"

definition AuthApproveWebauthnV1_validate_shape ::
  "crates \<Rightarrow> AuthApproveWebauthnV1 \<Rightarrow> error + unit" where
  "AuthApproveWebauthnV1_validate_shape X a =
     and_then (decode_base64url X (aaw_authenticator_data a)) (\<lambda>authenticator_data.
     and_then (decode_base64url X (aaw_client_data_json a)) (\<lambda>client_data.
     and_then (decode_base64url X (aaw_signature a)) (\<lambda>signature.
     reject_if
       [Inr (aaw_version a \<noteq> AUTH_WIRE_VERSION), Inr (\<not> valid_id (aaw_request_id a)),
        Inr (\<not> valid_fingerprint X (aaw_device_fingerprint a)),
        map_ok (\<lambda>b. b = []) (decode_base64url X (aaw_credential_id a)),
        Inr (\<not> (37 \<le> length authenticator_data \<and> length authenticator_data \<le> 1024)),
        Inr (client_data = []), Inr (length client_data > 16 * 1024),
        Inr (\<not> (8 \<le> length signature \<and> length signature \<le> 256))]
       (BadVerdict ''invalid WebAuthn authentication approval shape'') (Inr ()))))"

fun AuthDecisionV1_validate_shape :: "crates \<Rightarrow> AuthDecisionV1 \<Rightarrow> error + unit" where
  "AuthDecisionV1_validate_shape X (AuthenticateNative a) = AuthApproveNativeV1_validate_shape X a"
| "AuthDecisionV1_validate_shape X (AuthenticateWebauthn a) = AuthApproveWebauthnV1_validate_shape X a"

definition auth_challenge :: "crates \<Rightarrow> bytes \<Rightarrow> bytes" where
  "auth_challenge X raw_auth_request_json = sha256 X (AUTH_CHALLENGE_DOMAIN @ raw_auth_request_json)"

definition verify_native_authentication_v1 ::
  "crates \<Rightarrow> AuthApproveNativeV1 \<Rightarrow> bytes \<Rightarrow> DevicePublicRecordV1 \<Rightarrow> i64 \<Rightarrow> error + unit" where
  "verify_native_authentication_v1 X approval raw device now =
     and_then (parse_auth_request_at X raw now) (\<lambda>request.
     and_then (AuthApproveNativeV1_validate_shape X approval) (\<lambda>_.
     and_then (DevicePublicRecordV1_validate X device) (\<lambda>_.
     if dv_kind device \<noteq> SecureEnclave \<or> aan_device_fingerprint approval \<noteq> dv_fingerprint device \<or>
        aan_request_id approval \<noteq> aq_request_id request
     then Inl (BadVerdict
       ''native authentication does not match a Secure Enclave device or request'')
     else and_then (decode_base64url X (dv_credential_public_key device)) (\<lambda>public_key.
     and_then (sec1_p256_verifying_key X public_key) (\<lambda>key.
     and_then (decode_base64url X (aan_signature approval)) (\<lambda>der.
     and_then (ok_or (sig_from_der X der) InvalidSignature) (\<lambda>sig.
     if ecdsa_verify X key (auth_challenge X raw) sig then Inr () else Inl InvalidSignature)))))))"

definition verify_webauthn_authentication_v1 ::
  "crates \<Rightarrow> AuthApproveWebauthnV1 \<Rightarrow> bytes \<Rightarrow> DevicePublicRecordV1 \<Rightarrow> HookConfigV1 \<Rightarrow> i64
    \<Rightarrow> error + AssertionOutcomeV1" where
  "verify_webauthn_authentication_v1 X approval raw device config now =
     and_then (parse_auth_request_at X raw now) (\<lambda>request.
     and_then (HookConfigV1_validate config) (\<lambda>_.
     and_then (AuthApproveWebauthnV1_validate_shape X approval) (\<lambda>_.
     and_then (DevicePublicRecordV1_validate X device) (\<lambda>_.
     if dv_kind device \<noteq> Webauthn \<or> aaw_device_fingerprint approval \<noteq> dv_fingerprint device \<or>
        aaw_credential_id approval \<noteq> dv_credential_id device \<or>
        aaw_request_id approval \<noteq> aq_request_id request
     then Inl (BadVerdict
       ''WebAuthn authentication does not match a pinned hardware device or request'')
     else verify_assertion X (aaw_authenticator_data approval) (aaw_client_data_json approval)
       (aaw_signature approval) (auth_challenge X raw) device config))))"

definition is_hardware_auth_device :: "DevicePublicRecordV1 \<Rightarrow> bool" where
  "is_hardware_auth_device device \<longleftrightarrow> dv_kind device = Webauthn \<or> dv_kind device = SecureEnclave"

definition hardware_auth_recipients :: "DeviceRegistryV1 \<Rightarrow> DevicePublicRecordV1 list" where
  "hardware_auth_recipients registry =
     filter (\<lambda>device. dv_active device \<and> is_hardware_auth_device device) (rg_devices registry)"

section \<open>The WebAuthn lane\<close>

lemma verify_webauthn_authentication_facts:
  assumes "verify_webauthn_authentication_v1 X a raw device config now = Inr out"
  shows "HookConfigV1_validate config = Inr ()" "DevicePublicRecordV1_validate X device = Inr ()"
    "\<exists>request. parse_auth_request_at X raw now = Inr request \<and> aaw_request_id a = aq_request_id request"
    "dv_kind device = Webauthn" "aaw_device_fingerprint a = dv_fingerprint device"
    "aaw_credential_id a = dv_credential_id device"
    "verify_assertion X (aaw_authenticator_data a) (aaw_client_data_json a) (aaw_signature a)
       (auth_challenge X raw) device config = Inr out"
  using assms by (auto simp: verify_webauthn_authentication_v1_def result_simps split: if_splits)

interpretation authentication_lane: webauthn_lane X "client_data_from_slice X ''crossOrigin''"
  "\<lambda>a raw device config. verify_webauthn_authentication_v1 X a raw device config now"
  "\<lambda>_ raw. AUTH_CHALLENGE_DOMAIN @ raw" aaw_authenticator_data aaw_client_data_json aaw_signature for X now
  by unfold_locales (use verify_webauthn_authentication_facts(7) verify_assertion_sound in \<open>fastforce simp: auth_challenge_def\<close>)

text \<open>What parsing establishes about the request a decision answers.\<close>

lemma parse_auth_request_at_iff:
  "parse_auth_request_at X raw now = Inr r \<longleftrightarrow>
     length raw \<le> MAX_REQUEST_BYTES \<and> from_slice_auth_request X raw = Inr r \<and>
     AuthRequestV1_validate X r = Inr () \<and>
     validate_request_timing (aq_issued_at r) (aq_expires_at r) now = Inr ()"
  by (auto simp: parse_auth_request_at_def AuthRequestV1_validate_at_def result_simps split: if_splits)

text \<open>no software key authenticates sudo. A native authentication verifies only for a valid
  Secure Enclave record, a WebAuthn authentication only for a valid WebAuthn record, each
  naming the device and the id of the live request parsed from exactly the signed bytes,
  with the device's signature over the authentication challenge of those bytes.\<close>

theorem authentication_needs_hardware:
  "(verify_native_authentication_v1 X native raw device now = Inr () \<longrightarrow>
     dv_kind device = SecureEnclave \<and> is_hardware_auth_device device \<and>
     DevicePublicRecordV1_validate X device = Inr () \<and>
     aan_device_fingerprint native = dv_fingerprint device \<and>
     (\<exists>request. parse_auth_request_at X raw now = Inr request \<and>
        aan_request_id native = aq_request_id request) \<and>
     (\<exists>pk key der sig. decode_base64url X (dv_credential_public_key device) = Inr pk \<and>
        sec1_p256_verifying_key X pk = Inr key \<and> decode_base64url X (aan_signature native) = Inr der \<and>
        sig_from_der X der = Some sig \<and> ecdsa_verify X key (auth_challenge X raw) sig)) \<and>
   (verify_webauthn_authentication_v1 X web raw device config now = Inr outcome \<longrightarrow>
     dv_kind device = Webauthn \<and> is_hardware_auth_device device \<and>
     DevicePublicRecordV1_validate X device = Inr () \<and>
     aaw_device_fingerprint web = dv_fingerprint device \<and>
     (\<exists>request. parse_auth_request_at X raw now = Inr request \<and>
        aaw_request_id web = aq_request_id request) \<and>
     assertion_proves X (client_data_from_slice X ''crossOrigin'') (aaw_authenticator_data web)
       (aaw_client_data_json web) (aaw_signature web) (auth_challenge X raw) device config)"
proof (intro conjI impI)
  assume "verify_native_authentication_v1 X native raw device now = Inr ()"
  then show "dv_kind device = SecureEnclave" "is_hardware_auth_device device"
    "DevicePublicRecordV1_validate X device = Inr ()"
    "aan_device_fingerprint native = dv_fingerprint device"
    "\<exists>request. parse_auth_request_at X raw now = Inr request \<and>
        aan_request_id native = aq_request_id request"
    "\<exists>pk key der sig. decode_base64url X (dv_credential_public_key device) = Inr pk \<and>
        sec1_p256_verifying_key X pk = Inr key \<and> decode_base64url X (aan_signature native) = Inr der \<and>
        sig_from_der X der = Some sig \<and> ecdsa_verify X key (auth_challenge X raw) sig"
    by (auto simp: verify_native_authentication_v1_def is_hardware_auth_device_def result_simps
        split: if_splits)
next
  assume v: "verify_webauthn_authentication_v1 X web raw device config now = Inr outcome"
  show "dv_kind device = Webauthn" "is_hardware_auth_device device"
    "DevicePublicRecordV1_validate X device = Inr ()"
    "aaw_device_fingerprint web = dv_fingerprint device"
    "\<exists>request. parse_auth_request_at X raw now = Inr request \<and>
        aaw_request_id web = aq_request_id request"
    "assertion_proves X (client_data_from_slice X ''crossOrigin'') (aaw_authenticator_data web)
       (aaw_client_data_json web) (aaw_signature web) (auth_challenge X raw) device config"
    using verify_webauthn_authentication_facts [OF v] verify_assertion_sound
    by (auto simp: is_hardware_auth_device_def)
qed

section \<open>Opening an envelope\<close>

lemma auth_bodies_ok_distinct:
  "auth_bodies_ok X seen bodies = Inr () \<Longrightarrow>
     distinct (map sb_device_fingerprint bodies) \<and>
     set (map sb_device_fingerprint bodies) \<inter> set seen = {}"
  by (induction bodies arbitrary: seen) (fastforce simp: result_simps)+

text \<open>opening an authentication envelope for a device returns a request only if the envelope
  is valid and live, holds exactly one body for that device, that body opens with the device's
  secret to the returned bytes, and the request parsed from them is valid, live and agrees
  with the envelope on id, host and both timestamps.\<close>

theorem open_for_device_sound:
  assumes "AuthEnvelopeV1_open_for_device X e fp box_secret now = Inr (Some opened)"
  shows "AuthEnvelopeV1_validate_at X e now = Inr () \<and>
    (\<exists>!body. body \<in> set (ae_sealed e) \<and> sb_device_fingerprint body = fp) \<and>
    (\<exists>body \<in> set (ae_sealed e). sb_device_fingerprint body = fp \<and>
       unseal_v1 X body box_secret = Inr (oa_raw opened)) \<and>
    parse_auth_request_at X (oa_raw opened) now = Inr (oa_request opened) \<and>
    aq_request_id (oa_request opened) = ae_request_id e \<and>
    tc_host (aq_trusted (oa_request opened)) = ae_host e \<and>
    aq_issued_at (oa_request opened) = ae_issued_at e \<and>
    aq_expires_at (oa_request opened) = ae_expires_at e"
proof -
  from assms obtain body where v: "AuthEnvelopeV1_validate_at X e now = Inr ()"
    and f: "find (\<lambda>b. sb_device_fingerprint b = fp) (ae_sealed e) = Some body"
    and u: "unseal_v1 X body box_secret = Inr (oa_raw opened)"
    and p: "parse_auth_request_at X (oa_raw opened) now = Inr (oa_request opened)"
    and m: "aq_request_id (oa_request opened) = ae_request_id e"
      "tc_host (aq_trusted (oa_request opened)) = ae_host e"
      "aq_issued_at (oa_request opened) = ae_issued_at e"
      "aq_expires_at (oa_request opened) = ae_expires_at e"
    by (auto simp: AuthEnvelopeV1_open_for_device_def result_simps split: option.splits if_splits)
  from f have b: "body \<in> set (ae_sealed e)" "sb_device_fingerprint body = fp"
    by (auto simp: find_Some_iff)
  from v have "distinct (map sb_device_fingerprint (ae_sealed e))"
    using auth_bodies_ok_distinct [of X "[]"]
    by (auto simp: AuthEnvelopeV1_validate_at_def AuthEnvelopeV1_validate_def result_simps)
  with b have "\<exists>!body. body \<in> set (ae_sealed e) \<and> sb_device_fingerprint body = fp"
    by (auto simp: distinct_map dest: inj_onD)
  with v b u p m show ?thesis by blast
qed

section \<open>A sample authentication\<close>

definition sample_auth_request :: AuthRequestV1 where
  "sample_auth_request = \<lparr>aq_message_type = AUTH_REQUEST_TYPE, aq_version = 2,
     aq_request_id = ''r1'', aq_nonce = sample_encode (replicate 16 0),
     aq_issued_at = 1000, aq_expires_at = 1090,
     aq_trusted = \<lparr>tc_host = ''h'', tc_service = ''sudo'', tc_pam_user = ''u'', tc_pam_uid = 1,
       tc_invoking_uid = 1, tc_invoking_user = None, tc_tty = None\<rparr>,
     aq_submitted = \<lparr>sc_session = None, sc_agent_label = None, sc_invocation = Unavailable\<rparr>\<rparr>"

definition sample_authentication :: AuthApproveNativeV1 where
  "sample_authentication = \<lparr>aan_version = 2, aan_request_id = ''r1'',
     aan_device_fingerprint = dv_fingerprint (sample_native SecureEnclave),
     aan_signature = sample_encode (auth_challenge sample [7])\<rparr>"

text \<open>The byte 1 acknowledges \<open>r1\<close>; every other message is the sample authentication.\<close>

definition sample_auth :: crates where
  "sample_auth = sample\<lparr>from_slice_auth_request := \<lambda>_. Inr sample_auth_request,
     to_vec_auth_request := \<lambda>_. Inr [7],
     probe_from_slice := \<lambda>bs. Inr \<lparr>pb_message_type =
       Some (if bs = [1] then ''alive'' else AUTH_NATIVE_DECISION_TYPE), pb_action = None\<rparr>,
     alive_from_slice := \<lambda>_. Inr \<lparr>al_message_type = ''alive'', al_version = 1, al_request_id = ''r1''\<rparr>,
     auth_decision_from_slice := \<lambda>_. Inr (AuthenticateNative sample_authentication)\<rparr>"

lemma sample_auth_core: "core_eq sample_auth sample"
  by (simp add: core_eq_def sample_auth_def)

lemma sample_auth_simps [simp]:
  "from_slice_auth_request sample_auth bs = Inr sample_auth_request"
  "sha256 sample_auth = sample_digest" "sig_from_der sample_auth = (\<lambda>bs. Some (Signature bs))"
  "ecdsa_verify sample_auth = (\<lambda>key m sig. sig = Signature m)"
  "to_vec_auth_envelope sample_auth = (\<lambda>e. Inr [1])"
  by (simp_all add: sample_auth_def)

lemmas sample_auth_lift [simp] =
  core_eq_lift [OF sample_auth_core] core_eq_validate [OF sample_auth_core]

lemma sample_timing: "now \<in> {1000, 1010} \<Longrightarrow> validate_request_timing 1000 1090 now = Inr ()"
  by (auto simp: validate_request_timing_def Let_def wire_limits saturating_add_def saturating_sub_def
      saturate_i64_def checked_sub_def in_i64_def i64_min_def i64_max_def)

lemma sample_no_control: "\<not> any_control ''h''" "\<not> any_control ''u''" "\<not> any_control ''sudo''"
  by (simp_all add: any_control_def chars_of_def utf8_len_def utf8_lead_def is_control_def)

lemma sample_auth_parses:
  "length raw \<le> 262144 \<Longrightarrow> now \<in> {1000, 1010} \<Longrightarrow> parse_auth_request_at sample_auth raw now = Inr sample_auth_request"
  by (simp add: parse_auth_request_at_iff AuthRequestV1_validate_def sample_auth_request_def
      AUTH_WIRE_VERSION_def TrustedAuthContextV1_validate_def SubmittedAuthContextV1_validate_def
      MAX_SERVICE_BYTES_def MAX_USER_BYTES_def MAX_REQUEST_BYTES_def sample_no_control sample_timing)

lemma sample_auth_challenge [simp]: "auth_challenge sample_auth = auth_challenge sample"
  by (simp add: fun_eq_iff auth_challenge_def)

lemma length_sample_auth_challenge [simp]: "length (auth_challenge sample raw) = 32"
  by (simp add: auth_challenge_def)

lemma sample_authentication_verifies:
  assumes "now \<in> {1000, 1010}"
  shows "verify_native_authentication_v1 sample_auth sample_authentication [7] (sample_native SecureEnclave) now = Inr ()"
proof -
  have p: "parse_auth_request_at sample_auth [7] now = Inr sample_auth_request"
    using assms by (intro sample_auth_parses) simp_all
  have v: "DevicePublicRecordV1_validate sample (sample_native SecureEnclave) = Inr ()"
    by (simp add: sample_native_valid)
  have s: "AuthApproveNativeV1_validate_shape sample_auth sample_authentication = Inr ()"
    by (simp add: AuthApproveNativeV1_validate_shape_def sample_authentication_def AUTH_WIRE_VERSION_def)
      (simp add: sample_native_def)
  show ?thesis
    unfolding verify_native_authentication_v1_def p s
    by (simp add: v) (simp add: sample_authentication_def sample_native_def sample_auth_request_def
        sec1_p256_verifying_key_def)
qed

theorem authentication_needs_hardware_witness:
  "is_hardware_auth_device (sample_native SecureEnclave) \<and>
   verify_native_authentication_v1 sample_auth sample_authentication [7] (sample_native Software) 1010 \<noteq> Inr ()"
  using authentication_needs_hardware [of sample_auth sample_authentication "[7]"
      "sample_native SecureEnclave" 1010]
    authentication_needs_hardware [of sample_auth sample_authentication "[7]"
      "sample_native Software" 1010] sample_authentication_verifies [of 1010]
  by (auto simp: sample_native_def)

definition sample_auth_envelope :: AuthEnvelopeV1 where
  "sample_auth_envelope = \<lparr>ae_message_type = AUTH_ENVELOPE_TYPE, ae_version = 2,
     ae_request_id = ''r1'', ae_host = ''h'', ae_issued_at = 1000, ae_expires_at = 1090,
     ae_sealed = [\<lparr>sb_device_fingerprint = dv_fingerprint (sample_native SecureEnclave),
       sb_ephemeral_pub = sample_encode (replicate 32 2), sb_nonce = sample_encode (replicate 12 0),
       sb_ciphertext = sample_encode ([1, 2, 3] @ replicate 16 0)\<rparr>]\<rparr>"

lemma sample_auth_envelope_valid: "AuthEnvelopeV1_validate_at sample_auth sample_auth_envelope 1010 = Inr ()"
  by (simp add: AuthEnvelopeV1_validate_at_def AuthEnvelopeV1_validate_def sample_auth_envelope_def
      AUTH_WIRE_VERSION_def sample_no_control MAX_DEVICES_def MAX_ENVELOPE_BYTES_def sample_timing)
    (simp add: sample_native_def)

lemma sample_auth_opens:
  "AuthEnvelopeV1_open_for_device sample_auth sample_auth_envelope
     (dv_fingerprint (sample_native SecureEnclave)) sample_box_secret 1010
   = Inr (Some \<lparr>oa_request = sample_auth_request, oa_raw = [1, 2, 3]\<rparr>)"
proof -
  have "unseal_v1 sample \<lparr>sb_device_fingerprint = dv_fingerprint (sample_native SecureEnclave),
     sb_ephemeral_pub = sample_encode (replicate 32 2), sb_nonce = sample_encode (replicate 12 0),
     sb_ciphertext = sample_encode ([1, 2, 3] @ replicate 16 0)\<rparr> sample_box_secret = Inr [1, 2, 3]"
    using seal_unseal [OF sample_b64 sample_box sample_seal, of sample_box_secret]
    by (simp add: sample_native_def)
  then show ?thesis
    unfolding AuthEnvelopeV1_open_for_device_def sample_auth_envelope_valid
    by (simp add: sample_auth_envelope_def sample_auth_parses) (simp add: sample_auth_request_def)
qed

theorem open_for_device_sound_witness:
  "parse_auth_request_at sample_auth [1, 2, 3] 1010 = Inr sample_auth_request"
  using open_for_device_sound [OF sample_auth_opens] by simp

end
