(* ===== verification/Socket_V1.thy ===== *)
theory Socket_V1
  imports Auth_V1
begin

text \<open>
  The local agent socket (\<open>protocol/src/socket_v1.rs\<close>): receipts, the dispatch of control
  messages by kind, and length-delimited frames, with the two readers of frames
  (\<open>read_frame\<close> of \<open>hook/src/main.rs\<close> and of \<open>agent/src/main.rs\<close>). A stream is the list of
  the non-empty pieces the kernel hands out before end of file; input/output errors other than
  end of file are outside the model.
\<close>

section \<open>Receipts\<close>

definition DeliveryV1_for_request :: "string \<Rightarrow> DeliveryV1" where
  "DeliveryV1_for_request request_id =
     \<lparr>dl_message_type = ''delivery'', dl_version = VERSION_V1, dl_request_id = request_id\<rparr>"

definition DeliveryV1_validate :: "DeliveryV1 \<Rightarrow> string \<Rightarrow> error + unit" where
  "DeliveryV1_validate d request_id =
     (if dl_message_type d \<noteq> ''delivery'' \<or> dl_version d \<noteq> VERSION_V1 \<or> dl_request_id d \<noteq> request_id
      then Inl (BadVerdict ''invalid delivery receipt'') else Inr ())"

definition AliveV1_for_request :: "string \<Rightarrow> AliveV1" where
  "AliveV1_for_request request_id =
     \<lparr>al_message_type = ''alive'', al_version = VERSION_V1, al_request_id = request_id\<rparr>"

definition AliveV1_validate :: "AliveV1 \<Rightarrow> string \<Rightarrow> error + unit" where
  "AliveV1_validate a request_id =
     (if al_message_type a \<noteq> ''alive'' \<or> al_version a \<noteq> VERSION_V1 \<or> al_request_id a \<noteq> request_id
      then Inl (BadVerdict ''invalid alive acknowledgement'') else Inr ())"

section \<open>Control messages\<close>

definition decode_control_message :: "crates \<Rightarrow> bytes \<Rightarrow> error + ControlMessageOutcome" where
  "decode_control_message X bs =
     and_then (map_err (\<lambda>e. Decode (''undecodable control message: '' @ e)) (probe_from_slice X bs)) (\<lambda>probe.
     case pb_message_type probe of
       Some kind \<Rightarrow>
         if kind = ''alive'' then
           map_err (\<lambda>e. Decode (''undecodable alive message: '' @ e))
             (map_ok (\<lambda>alive. Message (ControlAlive alive)) (alive_from_slice X bs))
         else if kind = ''delivery'' then
           map_err (\<lambda>e. Decode (''undecodable delivery message: '' @ e))
             (map_ok (\<lambda>delivery. Message (ControlDelivery delivery)) (delivery_from_slice X bs))
         else if kind = AUTH_NATIVE_DECISION_TYPE \<or> kind = AUTH_WEBAUTHN_DECISION_TYPE then
           map_err (\<lambda>e. Decode (''undecodable authentication decision: '' @ e))
             (map_ok (\<lambda>decision. Message (ControlAuthDecision decision)) (auth_decision_from_slice X bs))
         else Inr (UnknownKind kind)
     | None \<Rightarrow>
         if pb_action probe \<noteq> None then
           map_err (\<lambda>e. Decode (''undecodable decision message: '' @ e))
             (map_ok (\<lambda>decision. Message (ControlDecision decision)) (decision_from_slice X bs))
         else Inl (Decode ''control message carries neither a type nor an action field''))"

section \<open>Frames\<close>

definition FRAME_LEN_BYTES :: nat where "FRAME_LEN_BYTES = 4"

definition MAX_FRAME_BYTES :: nat where "MAX_FRAME_BYTES = MAX_ENVELOPE_BYTES"

text \<open>The messages print the sizes; the model keeps their fixed part. A \<open>usize\<close> has 64 bits, so
  it holds every \<open>u32\<close>.\<close>

definition encode_frame :: "bytes \<Rightarrow> error + bytes" where
  "encode_frame payload =
     (if length payload > MAX_FRAME_BYTES
      then Inl (InvalidRequest ''frame is larger than the byte cap'')
      else if length payload \<ge> 2 ^ 32
      then Inl (InvalidRequest ''frame length does not fit u32'')
      else Inr (be_bytes FRAME_LEN_BYTES (length payload) @ payload))"

definition decode_frame_len :: "bytes \<Rightarrow> error + nat" where
  "decode_frame_len prefix =
     (let len = unat (u32_be prefix) in
      if len > MAX_FRAME_BYTES then Inl (InvalidRequest ''frame claims more than the byte cap'')
      else Inr len)"

section \<open>Readers\<close>

text \<open>One \<open>read\<close> into a buffer of \<open>n > 0\<close> bytes: what is left of the current piece, at most \<open>n\<close>
  bytes; no bytes at end of file. \<open>read_exact\<close> repeats it until the buffer is full and fails
  with \<open>UnexpectedEof\<close> (\<open>None\<close>) at end of file.\<close>

fun read_some :: "nat \<Rightarrow> bytes list \<Rightarrow> bytes \<times> bytes list" where
  "read_some n [] = ([], [])"
| "read_some n (c # cs) = (take n c, if length c \<le> n then cs else drop n c # cs)"

lemma read_some_shrinks:
  "fst (read_some n cs) \<noteq> [] \<Longrightarrow> 0 < n"
  by (cases cs) auto

function read_exact :: "nat \<Rightarrow> bytes list \<Rightarrow> (bytes \<times> bytes list) option" where
  "read_exact n cs =
     (if n = 0 then Some ([], cs)
      else let (got, cs') = read_some n cs in
        if got = [] then None
        else map_option (\<lambda>(after, rest). (got @ after, rest)) (read_exact (n - length got) cs'))"
  by pat_completeness auto
termination by (relation "measure fst") auto

declare read_exact.simps [simp del]

text \<open>The agent's reader: \<open>None\<close> at end of file, wherever it comes.\<close>

definition agent_read_frame :: "bytes list \<Rightarrow> error + (bytes \<times> bytes list) option" where
  "agent_read_frame cs =
     (case read_exact FRAME_LEN_BYTES cs of
        None \<Rightarrow> Inr None
      | Some (prefix, cs') \<Rightarrow> and_then (decode_frame_len prefix) (\<lambda>len. Inr (read_exact len cs')))"

datatype Frame = Payload bytes | Eof | Truncated

text \<open>The hook's reader fills the prefix in its own loop, to tell a clean hangup from a cut-off
  frame.\<close>

datatype prefix_read = PrefixRead bytes "bytes list" | PrefixEof | PrefixTruncated

function hook_read_prefix :: "bytes \<Rightarrow> bytes list \<Rightarrow> prefix_read" where
  "hook_read_prefix filled cs =
     (if length filled < FRAME_LEN_BYTES then
        (let (got, cs') = read_some (FRAME_LEN_BYTES - length filled) cs in
         if got = [] then (if filled = [] then PrefixEof else PrefixTruncated)
         else hook_read_prefix (filled @ got) cs')
      else PrefixRead filled cs)"
  by pat_completeness auto
termination
  by (relation "measure (\<lambda>(filled, cs). FRAME_LEN_BYTES - length filled)")
    (auto simp: length_greater_0_conv [symmetric] simp del: length_greater_0_conv)

declare hook_read_prefix.simps [simp del]

definition hook_read_frame :: "bytes list \<Rightarrow> error + Frame \<times> bytes list" where
  "hook_read_frame cs =
     (case hook_read_prefix [] cs of
        PrefixEof \<Rightarrow> Inr (Eof, [])
      | PrefixTruncated \<Rightarrow> Inr (Truncated, [])
      | PrefixRead prefix cs' \<Rightarrow>
          and_then (decode_frame_len prefix) (\<lambda>len.
            case read_exact len cs' of
              None \<Rightarrow> Inr (Truncated, [])
            | Some (payload, rest) \<Rightarrow> Inr (Payload payload, rest)))"

section \<open>How the stream is cut does not matter\<close>

declare concat_eq_Nil_conv [simp del]

lemma read_some_stream:
  assumes "[] \<notin> set cs" "0 < n" "read_some n cs = (got, cs')"
  shows "concat cs = got @ concat cs'" "[] \<notin> set cs'" "length got \<le> n" "got = [] \<longleftrightarrow> concat cs = []"
  using assms by (cases cs; auto split: if_splits)+

lemma read_exact_enough:
  assumes "[] \<notin> set cs" "n \<le> length (concat cs)"
  shows "\<exists>rest. read_exact n cs = Some (take n (concat cs), rest) \<and> concat rest = drop n (concat cs) \<and>
    [] \<notin> set rest"
  using assms
proof (induction n cs rule: read_exact.induct)
  case (1 n cs)
  show ?case
  proof (cases "n = 0")
    case True
    with "1.prems" show ?thesis by (simp add: read_exact.simps)
  next
    case False
    obtain got cs' where r: "read_some n cs = (got, cs')" by fastforce
    note s = read_some_stream [OF "1.prems"(1) _ r]
    from False "1.prems"(2) have "concat cs \<noteq> []" by (metis list.size(3) le_zero_eq)
    with False s(4) have g: "got \<noteq> []" by blast
    from False "1.prems" s have "[] \<notin> set cs'" "n - length got \<le> length (concat cs')" by auto
    from "1.IH" [OF False r [symmetric] refl g this] obtain rest where
      "read_exact (n - length got) cs' = Some (take (n - length got) (concat cs'), rest)"
      "concat rest = drop (n - length got) (concat cs')" "[] \<notin> set rest" by blast
    moreover from False s have "concat cs = got @ concat cs'" "length got \<le> n" by simp_all
    ultimately show ?thesis using False r g by (simp add: read_exact.simps [of n cs])
  qed
qed

lemma read_exact_short:
  assumes "[] \<notin> set cs" "length (concat cs) < n"
  shows "read_exact n cs = None"
  using assms
proof (induction n cs rule: read_exact.induct)
  case (1 n cs)
  obtain got cs' where r: "read_some n cs = (got, cs')" by fastforce
  from "1.prems"(2) have n: "n \<noteq> 0" by simp
  note s = read_some_stream [OF "1.prems"(1) _ r]
  show ?case
  proof (cases "got = []")
    case True
    with n r show ?thesis by (simp add: read_exact.simps [of n cs])
  next
    case False
    with "1.IH" [OF n r [symmetric] refl False] s n "1.prems" have "read_exact (n - length got) cs' = None"
      by simp
    with n r show ?thesis by (simp add: read_exact.simps [of n cs])
  qed
qed

lemma hook_read_prefix_stream:
  assumes "[] \<notin> set cs" "length filled \<le> 4"
  shows "if 4 \<le> length filled + length (concat cs)
    then \<exists>rest. hook_read_prefix filled cs = PrefixRead (take 4 (filled @ concat cs)) rest \<and>
      concat rest = drop (4 - length filled) (concat cs) \<and> [] \<notin> set rest
    else hook_read_prefix filled cs = (if filled @ concat cs = [] then PrefixEof else PrefixTruncated)"
  using assms
proof (induction filled cs rule: hook_read_prefix.induct)
  case (1 filled cs)
  show ?case
  proof (cases "length filled < 4")
    case False
    with "1.prems" show ?thesis by (auto simp: hook_read_prefix.simps [of filled] FRAME_LEN_BYTES_def)
  next
    case True
    then have l: "length filled < FRAME_LEN_BYTES" by (simp add: FRAME_LEN_BYTES_def)
    obtain got cs' where r: "read_some (FRAME_LEN_BYTES - length filled) cs = (got, cs')" by fastforce
    note s = read_some_stream [OF "1.prems"(1) _ r]
    have e: "concat cs = got @ concat cs'" "[] \<notin> set cs'" "got = [] \<longleftrightarrow> concat cs = []"
      and g: "length got \<le> 4 - length filled"
      using s l by (simp_all add: FRAME_LEN_BYTES_def)
    show ?thesis
    proof (cases "got = []")
      case True
      with e l r show ?thesis by (simp add: hook_read_prefix.simps [of filled] FRAME_LEN_BYTES_def)
    next
      case False
      have "hook_read_prefix filled cs = hook_read_prefix (filled @ got) cs'"
        using l r False by (simp add: hook_read_prefix.simps [of filled])
      moreover from g True have "length (filled @ got) \<le> 4" by simp
      ultimately show ?thesis
        using "1.IH" [OF l r [symmetric] refl False e(2)] by (auto simp: e(1) add.assoc split: if_splits)
    qed
  qed
qed

lemma decode_frame_len_prefix:
  "n \<le> MAX_FRAME_BYTES \<Longrightarrow> decode_frame_len (be_bytes 4 n) = Inr n"
  by (simp add: decode_frame_len_def u32_be_def from_be_be_bytes MAX_FRAME_BYTES_def
      MAX_ENVELOPE_BYTES_def unat_of_nat)

text \<open>the hook's reader is a function of the bytes before end of file, however the kernel cuts
  them: a clean end, a truncated prefix, a refused length, a truncated payload, or exactly the
  announced payload with the rest of the stream kept.\<close>

theorem hook_read_frame_exact:
  assumes "[] \<notin> set cs"
  shows "(concat cs = [] \<longrightarrow> hook_read_frame cs = Inr (Eof, [])) \<and>
    (0 < length (concat cs) \<and> length (concat cs) < 4 \<longrightarrow> hook_read_frame cs = Inr (Truncated, [])) \<and>
    (\<forall>e. 4 \<le> length (concat cs) \<and> decode_frame_len (take 4 (concat cs)) = Inl e
       \<longrightarrow> hook_read_frame cs = Inl e) \<and>
    (\<forall>len. 4 \<le> length (concat cs) \<and> decode_frame_len (take 4 (concat cs)) = Inr len \<longrightarrow>
       len \<le> MAX_FRAME_BYTES \<and>
       (if length (concat cs) < 4 + len then hook_read_frame cs = Inr (Truncated, [])
        else \<exists>rest. hook_read_frame cs = Inr (Payload (take len (drop 4 (concat cs))), rest) \<and>
          concat rest = drop (4 + len) (concat cs)))"
proof -
  note p = hook_read_prefix_stream [OF assms, of "[]", simplified]
  have bound: "len \<le> MAX_FRAME_BYTES" if "decode_frame_len q = Inr len" for q len
    using that by (auto simp: decode_frame_len_def Let_def split: if_splits)
  have whole: "if length (concat cs) < 4 + len then hook_read_frame cs = Inr (Truncated, [])
      else \<exists>rest. hook_read_frame cs = Inr (Payload (take len (drop 4 (concat cs))), rest) \<and>
        concat rest = drop (4 + len) (concat cs)"
    if l: "4 \<le> length (concat cs)" and d: "decode_frame_len (take 4 (concat cs)) = Inr len" for len
  proof -
    from p l obtain cs' where h: "hook_read_prefix [] cs = PrefixRead (take 4 (concat cs)) cs'"
      and c: "concat cs' = drop 4 (concat cs)" "[] \<notin> set cs'" by auto
    show ?thesis
    proof (cases "length (concat cs) < 4 + len")
      case True
      then have "length (concat cs') < len" unfolding c(1) using l by simp
      with read_exact_short [OF c(2)] d h True show ?thesis by (simp add: hook_read_frame_def)
    next
      case False
      then have "len \<le> length (concat cs')" unfolding c(1) by simp
      from read_exact_enough [OF c(2) this] d h c(1) False show ?thesis
        by (auto simp: hook_read_frame_def add.commute)
    qed
  qed
  show ?thesis
    using p bound whole by (auto simp: hook_read_frame_def)
qed

text \<open>What a client of the socket relies on: a reader that returns each payload written by
  \<open>encode_frame\<close>, whatever the cut, and leaves the rest. Several frames then arrive in order.\<close>

fun read_frames :: "(bytes list \<Rightarrow> error + (bytes \<times> bytes list) option) \<Rightarrow> nat \<Rightarrow> bytes list
    \<Rightarrow> error + (bytes list \<times> bytes list) option" where
  "read_frames read_one 0 cs = Inr (Some ([], cs))"
| "read_frames read_one (Suc n) cs = and_then (read_one cs) (\<lambda>r. case r of
      None \<Rightarrow> Inr None
    | Some (payload, cs') \<Rightarrow>
        map_ok (map_option (\<lambda>(ps, rest). (payload # ps, rest))) (read_frames read_one n cs'))"

locale frame_reader =
  fixes read_one :: "bytes list \<Rightarrow> error + (bytes \<times> bytes list) option"
  assumes whole_frame: "encode_frame p = Inr f \<Longrightarrow> concat cs = f @ after \<Longrightarrow> [] \<notin> set cs \<Longrightarrow>
    \<exists>rest. read_one cs = Inr (Some (p, rest)) \<and> concat rest = after \<and> [] \<notin> set rest"
begin

lemma frames_in_order:
  assumes "list_all2 (\<lambda>p f. encode_frame p = Inr f) ps fs" "concat cs = concat fs @ after" "[] \<notin> set cs"
  shows "\<exists>rest. read_frames read_one (length ps) cs = Inr (Some (ps, rest)) \<and> concat rest = after"
  using assms
proof (induction ps fs arbitrary: cs rule: list_all2_induct)
  case Nil
  then show ?case by simp
next
  case (Cons p ps f fs)
  from Cons.prems(1) have "concat cs = f @ (concat fs @ after)" by simp
  with whole_frame [OF Cons.hyps(1) _ Cons.prems(2)] obtain cs' where
    r: "read_one cs = Inr (Some (p, cs'))" "concat cs' = concat fs @ after" "[] \<notin> set cs'" by blast
  from Cons.IH [OF r(2,3)] r(1) show ?case by auto
qed

end

lemma encode_frame_parts:
  assumes "encode_frame p = Inr f"
  shows "f = be_bytes 4 (length p) @ p" "length p \<le> MAX_FRAME_BYTES"
  using assms by (auto simp: encode_frame_def FRAME_LEN_BYTES_def split: if_splits)

lemma agent_reads_frame:
  assumes "encode_frame p = Inr f" "concat cs = f @ after" "[] \<notin> set cs"
  shows "\<exists>rest. agent_read_frame cs = Inr (Some (p, rest)) \<and> concat rest = after \<and> [] \<notin> set rest"
proof -
  note f = encode_frame_parts [OF assms(1)]
  have l: "4 \<le> length (concat cs)" by (simp add: assms(2) f(1))
  from read_exact_enough [OF assms(3) l] obtain cs' where
    h: "read_exact 4 cs = Some (be_bytes 4 (length p), cs')" and c: "concat cs' = p @ after" "[] \<notin> set cs'"
    by (auto simp: assms(2) f(1))
  from read_exact_enough [OF c(2), of "length p"] h c(1) f(2) show ?thesis
    by (auto simp: agent_read_frame_def FRAME_LEN_BYTES_def decode_frame_len_prefix)
qed

definition hook_reader :: "bytes list \<Rightarrow> error + (bytes \<times> bytes list) option" where
  "hook_reader cs = map_ok (\<lambda>(frame, rest).
     case frame of Payload p \<Rightarrow> Some (p, rest) | _ \<Rightarrow> None) (hook_read_frame cs)"

lemma hook_reads_frame:
  assumes "encode_frame p = Inr f" "concat cs = f @ after" "[] \<notin> set cs"
  shows "\<exists>rest. hook_reader cs = Inr (Some (p, rest)) \<and> concat rest = after \<and> [] \<notin> set rest"
proof -
  note f = encode_frame_parts [OF assms(1)]
  from hook_read_prefix_stream [OF assms(3), of "[]"] obtain cs' where
    h: "hook_read_prefix [] cs = PrefixRead (be_bytes 4 (length p)) cs'"
    and c: "concat cs' = p @ after" "[] \<notin> set cs'"
    by (auto simp: assms(2) f(1))
  from read_exact_enough [OF c(2), of "length p"] h c(1) f(2) show ?thesis
    by (auto simp: hook_reader_def hook_read_frame_def decode_frame_len_prefix)
qed

interpretation agent_frames: frame_reader agent_read_frame
  by unfold_locales (rule agent_reads_frame)

interpretation hook_frames: frame_reader hook_reader
  by unfold_locales (rule hook_reads_frame)

text \<open>frames round trip. Any sequence of payloads within the cap, written frame after frame and
  cut into pieces at will, is read back by the hook and by the agent as the same sequence, and
  what follows the frames is left on the stream.\<close>

theorem frames_roundtrip:
  assumes "list_all2 (\<lambda>p f. encode_frame p = Inr f) ps fs" "concat cs = concat fs @ after" "[] \<notin> set cs"
  shows "(\<exists>rest. read_frames hook_reader (length ps) cs = Inr (Some (ps, rest)) \<and> concat rest = after) \<and>
    (\<exists>rest. read_frames agent_read_frame (length ps) cs = Inr (Some (ps, rest)) \<and> concat rest = after)"
  using hook_frames.frames_in_order [OF assms] agent_frames.frames_in_order [OF assms] by blast

theorem frames_roundtrip_witness:
  "\<exists>rest. read_frames hook_reader 2 [[0, 0], [0, 2, 7], [8, 0, 0, 0, 0], [9]] = Inr (Some ([[7, 8], []], rest)) \<and>
     concat rest = [9]"
proof -
  have m: "MAX_FRAME_BYTES = 3145728" by (simp add: MAX_FRAME_BYTES_def MAX_ENVELOPE_BYTES_def)
  have "be_bytes 4 (Suc (Suc 0)) = [0, 0, 0, 2]" "be_bytes 4 0 = [0, 0, 0, 0]" by code_simp+
  then have "list_all2 (\<lambda>p f. encode_frame p = Inr f) [[7, 8], []] [[0, 0, 0, 2, 7, 8], [0, 0, 0, 0]]"
    by (simp add: encode_frame_def m FRAME_LEN_BYTES_def)
  from frames_roundtrip [OF this, of "[[0, 0], [0, 2, 7], [8, 0, 0, 0, 0], [9]]" "[9]"]
  show ?thesis by (simp add: numeral_2_eq_2)
qed

theorem hook_read_frame_exact_witness:
  "hook_read_frame [[0], [0, 0]] = Inr (Truncated, []) \<and> hook_read_frame [] = Inr (Eof, [])"
  using hook_read_frame_exact [of "[[0], [0, 0]]"] hook_read_frame_exact [of "[]"] by simp

section \<open>Dispatch by kind\<close>

text \<open>the kind decides the decoder. A message with a \<open>type\<close> never becomes a command decision,
  a message without one is never a receipt or an authentication decision, an unknown kind is
  reported under its name and never as an error, and every error is a decode fault.\<close>

theorem decode_control_message_by_kind:
  "(\<forall>d. decode_control_message X bs = Inr (Message (ControlDecision d)) \<longrightarrow>
      (\<exists>p. probe_from_slice X bs = Inr p \<and> pb_message_type p = None \<and> pb_action p \<noteq> None)) \<and>
   (\<forall>d. decode_control_message X bs = Inr (Message (ControlAuthDecision d)) \<longrightarrow>
      (\<exists>p. probe_from_slice X bs = Inr p \<and>
         (pb_message_type p = Some AUTH_NATIVE_DECISION_TYPE \<or>
          pb_message_type p = Some AUTH_WEBAUTHN_DECISION_TYPE))) \<and>
   (\<forall>k. decode_control_message X bs = Inr (UnknownKind k) \<longleftrightarrow>
      (\<exists>p. probe_from_slice X bs = Inr p \<and> pb_message_type p = Some k \<and>
         k \<notin> {''alive'', ''delivery'', AUTH_NATIVE_DECISION_TYPE, AUTH_WEBAUTHN_DECISION_TYPE})) \<and>
   (\<forall>e. decode_control_message X bs = Inl e \<longrightarrow> (\<exists>t. e = Decode t))"
proof (cases "probe_from_slice X bs")
  case (Inl e)
  then show ?thesis by (simp add: decode_control_message_def)
next
  case (Inr p)
  note [simp] = decode_control_message_def Inr
  show ?thesis
  proof (cases "pb_message_type p")
    case None
    then show ?thesis by (cases "decision_from_slice X bs") auto
  next
    case (Some k)
    consider "k = ''alive''" | "k = ''delivery''" | "k \<noteq> ''alive''" "k \<noteq> ''delivery''" by blast
    then show ?thesis
    proof cases
      case 1
      with Some show ?thesis by (cases "alive_from_slice X bs") auto
    next
      case 2
      with Some show ?thesis by (cases "delivery_from_slice X bs") auto
    next
      case 3
      with Some show ?thesis by (cases "auth_decision_from_slice X bs") auto
    qed
  qed
qed

definition sample_socket :: crates where
  "sample_socket = sample\<lparr>probe_from_slice := \<lambda>_. Inr \<lparr>pb_message_type = Some ''later'', pb_action = None\<rparr>\<rparr>"

theorem decode_control_message_by_kind_witness:
  "decode_control_message sample_socket [] = Inr (UnknownKind ''later'')"
  using decode_control_message_by_kind [of sample_socket "[]"]
  by (simp add: sample_socket_def AUTH_NATIVE_DECISION_TYPE_def AUTH_WEBAUTHN_DECISION_TYPE_def)

end
