(* ===== verification/Std_Text.thy ===== *)
theory Std_Text
  imports Prelude
begin

text \<open>
  Text operations of the standard library that several components use: \<open>str::trim\<close>, \<open>split_once\<close>,
  \<open>lines\<close>, \<open>split_whitespace\<close>, decimal printing of unsigned integers and \<open>str::parse\<close> back.
\<close>

section \<open>Whitespace and splitting\<close>

text \<open>\<open>char::is_whitespace\<close> and \<open>str::trim\<close> work on scalar values.\<close>

definition is_whitespace :: "nat \<Rightarrow> bool" where
  "is_whitespace c \<longleftrightarrow> (9 \<le> c \<and> c \<le> 13) \<or> c \<in> {0x20, 0x85, 0xA0, 0x1680, 0x2028, 0x2029, 0x202F, 0x205F, 0x3000}
     \<or> (0x2000 \<le> c \<and> c \<le> 0x200A)"

definition trim :: "nat list \<Rightarrow> nat list" where
  "trim cs = rev (dropWhile is_whitespace (rev (dropWhile is_whitespace cs)))"

definition trim_str :: "string \<Rightarrow> string" where
  "trim_str s = utf8 (trim (chars_of s))"

fun split_once :: "string \<Rightarrow> string \<Rightarrow> (string \<times> string) option" where
  "split_once pat s =
     (if take (length pat) s = pat then Some ([], drop (length pat) s)
      else case s of [] \<Rightarrow> None | c # r \<Rightarrow> map_option (\<lambda>(a, b). (c # a, b)) (split_once pat r))"

declare split_once.simps [simp del]

definition str_contains :: "string \<Rightarrow> string \<Rightarrow> bool" where
  "str_contains pat s \<longleftrightarrow> split_once pat s \<noteq> None"

fun join :: "string \<Rightarrow> string list \<Rightarrow> string" where
  "join sep [] = []"
| "join sep [s] = s"
| "join sep (s # t # ts) = s @ sep @ join sep (t # ts)"

fun find_map :: "('a \<Rightarrow> 'b option) \<Rightarrow> 'a list \<Rightarrow> 'b option" where
  "find_map f [] = None"
| "find_map f (x # xs) = (case f x of None \<Rightarrow> find_map f xs | Some y \<Rightarrow> Some y)"

definition strip_prefix :: "string \<Rightarrow> string \<Rightarrow> string option" where
  "strip_prefix p s = (if starts_with p s then Some (drop (length p) s) else None)"

text \<open>\<open>lines\<close>: a line ends with a newline, which takes a carriage return before it along; a rest
  without a newline is a line of its own.\<close>

lemma dropWhile_shorter: "dropWhile P xs = y # rest \<Longrightarrow> length rest < length xs"
  using length_dropWhile_le [of P xs] by simp

function split_lines :: "'a \<Rightarrow> 'a \<Rightarrow> 'a list \<Rightarrow> 'a list list" where
  "split_lines nl cr xs =
     (if xs = [] then []
      else let line = takeWhile (\<lambda>c. c \<noteq> nl) xs
           in case dropWhile (\<lambda>c. c \<noteq> nl) xs of
             [] \<Rightarrow> [line]
           | _ # rest \<Rightarrow> (if line \<noteq> [] \<and> last line = cr then butlast line else line) # split_lines nl cr rest)"
  by pat_completeness auto
termination
  by (relation "measure (\<lambda>(nl, cr, xs). length xs)") (auto dest: dropWhile_shorter)

declare split_lines.simps [simp del]

text \<open>\<open>split_whitespace\<close>: the runs of characters that are not whitespace.\<close>

function split_whitespace :: "nat list \<Rightarrow> nat list list" where
  "split_whitespace cs =
     (case dropWhile is_whitespace cs of
        [] \<Rightarrow> []
      | c # rest \<Rightarrow> (c # takeWhile (\<lambda>c. \<not> is_whitespace c) rest)
          # split_whitespace (dropWhile (\<lambda>c. \<not> is_whitespace c) rest))"
  by pat_completeness auto
termination
  by (relation "measure length") (auto dest!: dropWhile_shorter intro: le_less_trans [OF length_dropWhile_le])

declare split_whitespace.simps [simp del]

section \<open>Decimal numbers\<close>

fun dec_digits :: "nat \<Rightarrow> nat list" where
  "dec_digits n = (if n < 10 then [48 + n] else dec_digits (n div 10) @ [48 + n mod 10])"

declare dec_digits.simps [simp del]

definition decimal :: "nat \<Rightarrow> string" where "decimal n = map char_of (dec_digits n)"

definition is_digit :: "char \<Rightarrow> bool" where
  "is_digit c \<longleftrightarrow> 48 \<le> (of_char c :: nat) \<and> of_char c \<le> (57 :: nat)"

definition digits_value :: "string \<Rightarrow> nat" where
  "digits_value s = foldl (\<lambda>acc c. acc * 10 + (of_char c - 48)) 0 s"

text \<open>\<open>str::parse\<close> of an unsigned type with the largest value \<open>limit\<close>: one plus sign may lead.\<close>

definition parse_unsigned :: "nat \<Rightarrow> string \<Rightarrow> nat option" where
  "parse_unsigned limit s =
     (let ds = (case s of c # r \<Rightarrow> if c = CHR ''+'' then r else s | [] \<Rightarrow> [])
      in if ds \<noteq> [] \<and> list_all is_digit ds \<and> digits_value ds \<le> limit then Some (digits_value ds) else None)"

section \<open>Laws\<close>

lemma split_once_char: "split_once [c] s = Some (a, b) \<Longrightarrow> s = a @ c # b"
proof (induction s arbitrary: a)
  case Nil
  then show ?case by (simp add: split_once.simps)
next
  case (Cons d s)
  then show ?case by (subst (asm) split_once.simps) (auto split: if_splits)
qed

lemma split_once_first [simp]: "c \<notin> set a \<Longrightarrow> split_once [c] (a @ c # b) = Some (a, b)"
  by (induction a) (auto simp: split_once.simps [of "[c]" "_ # _"])

lemma split_once_None_iff: "split_once [c] s = None \<longleftrightarrow> c \<notin> set s"
proof (induction s)
  case (Cons d s)
  then show ?case by (subst split_once.simps) auto
qed (simp add: split_once.simps)

lemma split_once_key: "split_once [c] s = Some (a, b) \<Longrightarrow> c \<notin> set a"
proof (induction s arbitrary: a)
  case Nil
  then show ?case by (simp add: split_once.simps)
next
  case (Cons d s)
  then show ?case by (subst (asm) split_once.simps) (auto split: if_splits)
qed

lemma find_map_Some: "find_map f xs = Some y \<Longrightarrow> \<exists>x \<in> set xs. f x = Some y"
  by (induction xs) (auto split: option.splits)

lemma find_map_append [simp]:
  "find_map f (xs @ ys) = (case find_map f xs of None \<Rightarrow> find_map f ys | Some y \<Rightarrow> Some y)"
  by (induction xs) (auto split: option.split)

lemma find_map_None_iff: "find_map f xs = None \<longleftrightarrow> (\<forall>x \<in> set xs. f x = None)"
  by (induction xs) (auto split: option.split)

lemma strip_prefix_Some_iff [simp]: "strip_prefix p s = Some r \<longleftrightarrow> s = p @ r"
  by (auto simp: strip_prefix_def starts_with_def) (metis append_take_drop_id)

lemma strip_prefix_append [simp]: "strip_prefix p (p @ s) = Some s"
  by simp

text \<open>Lines that hold neither delimiter come back from their concatenation.\<close>

lemma split_lines_step:
  assumes "nl \<notin> set line" "line = [] \<or> last line \<noteq> cr"
  shows "split_lines nl cr (line @ nl # rest) = line # split_lines nl cr rest"
proof -
  have tw: "takeWhile (\<lambda>c. c \<noteq> nl) (line @ nl # rest) = line"
    "dropWhile (\<lambda>c. c \<noteq> nl) (line @ nl # rest) = nl # rest"
    using assms(1) by (induction line) auto
  then show ?thesis using assms(2) by (auto simp: split_lines.simps [of nl cr "line @ nl # rest"])
qed

lemma split_lines_concat:
  assumes "\<forall>line \<in> set lines. nl \<notin> set line \<and> cr \<notin> set line"
  shows "split_lines nl cr (concat (map (\<lambda>line. line @ [nl]) lines)) = lines"
  using assms
proof (induction lines)
  case (Cons line lines)
  then have "line = [] \<or> last line \<noteq> cr" by (cases line) (auto dest: last_in_set)
  with Cons show ?case by (simp add: split_lines_step)
qed (simp add: split_lines.simps)

lemma dec_digits_range: "d \<in> set (dec_digits n) \<Longrightarrow> 48 \<le> d \<and> d \<le> 57"
proof (induction n rule: dec_digits.induct)
  case (1 n)
  show ?case
  proof (cases "n < 10")
    case True
    with 1(2) show ?thesis by (simp add: dec_digits.simps [of n])
  next
    case False
    then have "d \<in> set (dec_digits (n div 10)) \<or> d = 48 + n mod 10"
      using 1(2) by (auto simp: dec_digits.simps [of n])
    then show ?thesis using 1(1) [OF False] by auto
  qed
qed

lemma dec_digits_nonempty [simp]: "dec_digits n \<noteq> []"
  by (subst dec_digits.simps) simp

lemma decimal_nonempty [simp]: "decimal n \<noteq> []"
  by (simp add: decimal_def)

lemma decimal_is_digit: "list_all is_digit (decimal n)"
  using dec_digits_range [of _ n] by (fastforce simp: decimal_def list_all_iff is_digit_def)

lemma digits_value_snoc [simp]: "digits_value (s @ [c]) = digits_value s * 10 + (of_char c - 48)"
  by (simp add: digits_value_def)

lemma digits_value_decimal [simp]: "digits_value (decimal n) = n"
proof (induction n rule: dec_digits.induct)
  case (1 n)
  show ?case
  proof (cases "n < 10")
    case True
    then show ?thesis by (simp add: decimal_def dec_digits.simps [of n] digits_value_def)
  next
    case False
    then have "decimal n = decimal (n div 10) @ [char_of (48 + n mod 10)]" by (simp add: decimal_def dec_digits.simps [of n])
    then show ?thesis using 1 [OF False] by simp
  qed
qed

lemma parse_decimal [simp]: "n \<le> limit \<Longrightarrow> parse_unsigned limit (decimal n) = Some n"
proof -
  assume "n \<le> limit"
  obtain c r where d: "decimal n = c # r" by (cases "decimal n") auto
  have "is_digit c" using decimal_is_digit [of n] d by simp
  then have "c \<noteq> CHR ''+''" by (auto simp: is_digit_def)
  then show ?thesis using decimal_is_digit [of n] d \<open>n \<le> limit\<close> digits_value_decimal [of n] by (simp add: parse_unsigned_def)
qed

lemma decimal_inject [simp]: "decimal m = decimal n \<longleftrightarrow> m = n"
  by (metis digits_value_decimal)

section \<open>Well-formed text\<close>

lemma utf8_append: "utf8 (as @ bs) = utf8 as @ utf8 bs"
  by (simp add: utf8_def)

lemma wf_utf8 [intro]: "(\<And>c. c \<in> set cs \<Longrightarrow> scalar c) \<Longrightarrow> wf_str (utf8 cs)"
  using chars_of_utf8 [of cs] by (simp add: wf_str_def)

lemma wf_str_obtain:
  assumes "wf_str s"
  obtains cs where "s = utf8 cs" and "\<And>c. c \<in> set cs \<Longrightarrow> scalar c"
  using assms unfolding wf_str_def by metis

lemma wf_append:
  assumes "wf_str a" and "wf_str b"
  shows "wf_str (a @ b)" and "chars_of (a @ b) = chars_of a @ chars_of b"
proof -
  obtain as where a: "a = utf8 as" "\<And>c. c \<in> set as \<Longrightarrow> scalar c" using assms(1) wf_str_obtain by blast
  obtain bs where b: "b = utf8 bs" "\<And>c. c \<in> set bs \<Longrightarrow> scalar c" using assms(2) wf_str_obtain by blast
  have ab: "\<And>c. c \<in> set (as @ bs) \<Longrightarrow> scalar c" using a(2) b(2) by auto
  show "wf_str (a @ b)" using wf_utf8 [of "as @ bs", OF ab] a(1) b(1) by (simp add: utf8_append)
  show "chars_of (a @ b) = chars_of a @ chars_of b"
    using chars_of_utf8 [of "as @ bs"] chars_of_utf8 [of as] chars_of_utf8 [of bs] ab a b
    by (metis utf8_append)
qed

lemma wf_nil [simp]: "wf_str []" by (rule wf_ascii) simp

lemma wf_join [intro]: "list_all wf_str ss \<Longrightarrow> wf_str sep \<Longrightarrow> wf_str (join sep ss)"
  by (induction sep ss rule: join.induct) (auto intro: wf_append)

lemma utf8_bytes_split:
  assumes "scalar c"
  shows "(c < 128 \<and> utf8_bytes c = [c]) \<or> (128 \<le> c \<and> (\<forall>b \<in> set (utf8_bytes c). 128 \<le> b))"
  using assms by (auto simp: utf8_bytes_def scalar_def)

text \<open>An ASCII character in a string is a character of its own, so cutting there keeps both halves well formed.\<close>

lemma wf_cut:
  assumes "wf_str (a @ sep # b)" and "of_char sep < (128 :: nat)"
  shows "wf_str a \<and> wf_str b"
proof -
  have "\<forall>a. utf8 cs = a @ sep # b \<longrightarrow> (\<forall>c \<in> set cs. scalar c) \<longrightarrow> wf_str a \<and> wf_str b" for cs
  proof (induction cs)
    case Nil
    then show ?case by (simp add: utf8_def)
  next
    case (Cons c cs)
    show ?case
    proof (intro allI impI)
      fix a assume eq: "utf8 (c # cs) = a @ sep # b" and sc: "\<forall>c \<in> set (c # cs). scalar c"
      have split: "utf8 (c # cs) = utf8 [c] @ utf8 cs" by (simp add: utf8_def)
      have wc: "wf_str (utf8 [c])" and wcs: "wf_str (utf8 cs)"
        using wf_utf8 [of "[c]"] wf_utf8 [of cs] sc by auto
      from eq split consider
          (inside) us where "utf8 [c] = a @ sep # us" "b = us @ utf8 cs"
        | (after) us where "a = utf8 [c] @ us" "utf8 cs = us @ sep # b"
        by (auto simp: append_eq_append_conv2 append_eq_Cons_conv)
      then show "wf_str a \<and> wf_str b"
      proof cases
        case inside
        have "of_char sep \<in> set (utf8_bytes c)"
        proof -
          have "map of_char (utf8 [c]) = utf8_bytes c"
            using utf8_bytes_small [of c] sc by (auto simp: utf8_def intro!: map_idI)
          with inside(1) show ?thesis by (metis in_set_conv_decomp list.simps(9) map_append)
        qed
        with utf8_bytes_split [of c] sc assms(2) have "c < 128" "utf8_bytes c = [c]" by auto
        with inside have "a = [] \<and> us = []" by (auto simp: utf8_def append_eq_Cons_conv Cons_eq_append_conv)
        with inside wcs show ?thesis by simp
      next
        case after
        with Cons sc wc show ?thesis by (auto intro: wf_append)
      qed
    qed
  qed
  with assms(1) show ?thesis by (metis wf_str_def)
qed

text \<open>A Rust \<open>str\<close> also holds no surrogates; this is what \<open>str::from_utf8\<close> gives.\<close>

definition str_ok :: "string \<Rightarrow> bool" where
  "str_ok s \<longleftrightarrow> wf_str s \<and> (\<forall>c \<in> set (chars_of s). \<not> (0xD800 \<le> c \<and> c < 0xE000))"

lemma from_utf8_Some_iff: "from_utf8 bs = Some s \<longleftrightarrow> bs = as_bytes s \<and> str_ok s"
proof -
  have to_chars: "map (\<lambda>b. char_of (unat b)) (as_bytes t) = t" for t
    unfolding as_bytes_def by (induction t) simp_all
  have to_bytes: "as_bytes (map (\<lambda>b. char_of (unat b)) bs) = bs" for bs
  proof -
    have "(of_char (char_of (unat b)) :: u8) = b" for b :: u8
    proof -
      have "unat b < 2 ^ 8" using unsigned_less [of b] by simp
      then have "unat (of_char (char_of (unat b)) :: u8) = unat b" by (simp add: take_bit_eq_mod)
      then show ?thesis by (simp only: unsigned_word_eqI)
    qed
    then show ?thesis unfolding as_bytes_def by (simp add: comp_def)
  qed
  show ?thesis
    using to_chars [of s] to_bytes [of bs] by (auto simp: from_utf8_def Let_def str_ok_def split: if_splits)
qed

lemma str_ok_append [intro]: "str_ok a \<Longrightarrow> str_ok b \<Longrightarrow> str_ok (a @ b)"
  by (auto simp: str_ok_def wf_append)

lemma str_ok_ascii: "list_all (\<lambda>c. of_char c < (128 :: nat)) s \<Longrightarrow> str_ok s"
  by (auto simp: str_ok_def wf_ascii chars_of_ascii list_all_iff)

lemma str_ok_cut:
  assumes "str_ok (a @ sep # b)" and "of_char sep < (128 :: nat)"
  shows "str_ok a \<and> str_ok b"
proof -
  have w: "wf_str a" "wf_str b" using assms(1) wf_cut [OF _ assms(2), of a b] by (simp_all add: str_ok_def)
  have sep: "wf_str [sep]" using assms(2) by (intro wf_ascii) simp
  have "chars_of (a @ [sep] @ b) = chars_of a @ chars_of [sep] @ chars_of b"
    using wf_append [OF w(1) wf_append(1) [OF sep w(2)]] wf_append [OF sep w(2)] by simp
  with assms(1) w show ?thesis by (auto simp: str_ok_def)
qed

end
