(* ===== verification/Nats_Policy.thy ===== *)
theory Nats_Policy
  imports Wire_V1 Std_Text
begin

text \<open>
  The policy for NATS server URLs (\<open>protocol/src/nats_policy.rs\<close>): credentials and control
  messages leave the machine only over TLS, or in plaintext when the operator opted out. The
  parser of IP literals is the one of the standard library (\<open>core::net\<close>), which the source
  calls through \<open>str::parse::<IpAddr>\<close>; strings are bytes, and every character these
  functions look for is ASCII.
\<close>

section \<open>The opt-out\<close>

text \<open>Lower-casing is written for the
  ASCII letters: the other scalar values whose lower case contains an ASCII letter give \<open>i\<close> or
  \<open>k\<close>, which none of the three words contains.\<close>

definition lower_scalar :: "nat \<Rightarrow> nat" where
  "lower_scalar c = (if 65 \<le> c \<and> c \<le> 90 then c + 32 else c)"

definition allow_plaintext_nats :: "string option \<Rightarrow> bool" where
  "allow_plaintext_nats value =
     is_some_and (\<lambda>v. map lower_scalar (trim (chars_of v))
        \<in> {chars_of ''1'', chars_of ''true'', chars_of ''yes''}) value"

section \<open>IP literals\<close>

definition to_digit :: "nat \<Rightarrow> char \<Rightarrow> nat option" where
  "to_digit radix c = (let n = of_char c; d =
      (if 48 \<le> n \<and> n \<le> 57 then n - 48
       else if 97 \<le> n \<and> n \<le> 122 then n - 87
       else if 65 \<le> n \<and> n \<le> 90 then n - 55 else 36) in
     if d < radix then Some d else None)"

definition read_number :: "nat \<Rightarrow> nat \<Rightarrow> bool \<Rightarrow> nat \<Rightarrow> string \<Rightarrow> (nat \<times> string) option" where
  "read_number radix max_digits allow_zero_prefix bound s =
     (let digits = takeWhile (\<lambda>c. to_digit radix c \<noteq> None) s;
          value = foldl (\<lambda>acc c. acc * radix + the (to_digit radix c)) 0 digits
      in if digits = [] \<or> length digits > max_digits \<or> value > bound \<or>
           (\<not> allow_zero_prefix \<and> hd digits = CHR ''0'' \<and> length digits > 1) then None
         else Some (value, drop (length digits) s))"

definition read_given_char :: "char \<Rightarrow> string \<Rightarrow> string option" where
  "read_given_char c s = (case s of [] \<Rightarrow> None | d # r \<Rightarrow> if c = d then Some r else None)"

definition read_separator ::
  "char \<Rightarrow> nat \<Rightarrow> (string \<Rightarrow> ('a \<times> string) option) \<Rightarrow> string \<Rightarrow> ('a \<times> string) option" where
  "read_separator sep index inner s =
     (if index > 0 then Option.bind (read_given_char sep s) inner else inner s)"

fun read_octets :: "nat \<Rightarrow> nat \<Rightarrow> string \<Rightarrow> (nat list \<times> string) option" where
  "read_octets 0 i s = Some ([], s)"
| "read_octets (Suc k) i s =
     Option.bind (read_separator (CHR ''.'') i (read_number 10 3 False 255) s) (\<lambda>(octet, r).
       map_option (\<lambda>(os, r'). (octet # os, r')) (read_octets k (Suc i) r))"

definition read_ipv4_addr :: "string \<Rightarrow> (nat list \<times> string) option" where
  "read_ipv4_addr s = read_octets 4 0 s"

text \<open>Up to \<open>limit\<close> groups; the flag says that an embedded IPv4 address ended the run.\<close>

fun read_groups :: "nat \<Rightarrow> nat \<Rightarrow> string \<Rightarrow> nat list \<times> bool \<times> string" where
  "read_groups limit 0 s = ([], False, s)"
| "read_groups limit (Suc k) s =
     (let i = limit - Suc k in
      case (if i < limit - 1 then read_separator (CHR '':'') i read_ipv4_addr s else None) of
        Some (os, r) \<Rightarrow> ([os ! 0 * 256 + os ! 1, os ! 2 * 256 + os ! 3], True, r)
      | None \<Rightarrow> (case read_separator (CHR '':'') i (read_number 16 4 True 65535) s of
          None \<Rightarrow> ([], False, s)
        | Some (g, r) \<Rightarrow> (let (gs, v4, r') = read_groups limit k r in (g # gs, v4, r'))))"

definition read_ipv6_addr :: "string \<Rightarrow> (nat list \<times> string) option" where
  "read_ipv6_addr s =
     (let (head, head_ipv4, r) = read_groups 8 8 s in
      if length head = 8 then Some (head, r)
      else if head_ipv4 then None
      else Option.bind (read_given_char (CHR '':'') r) (\<lambda>r1.
        Option.bind (read_given_char (CHR '':'') r1) (\<lambda>r2.
          let limit = 8 - (length head + 1); (tail, _, r3) = read_groups limit limit r2
          in Some (head @ replicate (8 - length head - length tail) 0 @ tail, r3))))"

datatype IpAddr = V4 "nat list" | V6 "nat list"

definition parse_ip_addr :: "string \<Rightarrow> IpAddr option" where
  "parse_ip_addr s =
     (case (case read_ipv4_addr s of
        Some (a, r) \<Rightarrow> Some (V4 a, r)
      | None \<Rightarrow> map_option (\<lambda>(a, r). (V6 a, r)) (read_ipv6_addr s)) of
        Some (ip, []) \<Rightarrow> Some ip
      | _ \<Rightarrow> None)"

fun is_loopback :: "IpAddr \<Rightarrow> bool" where
  "is_loopback (V4 octets) \<longleftrightarrow> octets ! 0 = 127"
| "is_loopback (V6 groups) \<longleftrightarrow> groups = [0, 0, 0, 0, 0, 0, 0, 1]"

section \<open>URLs\<close>

definition is_loopback_host :: "string \<Rightarrow> bool" where
  "is_loopback_host host \<longleftrightarrow> host = [] \<or> eq_ignore_ascii_case host ''localhost'' \<or>
     is_some_and is_loopback (parse_ip_addr host)"

definition split_first :: "char set \<Rightarrow> string \<Rightarrow> string" where
  "split_first seps s = takeWhile (\<lambda>c. c \<notin> seps) s"

definition rsplit_first :: "char \<Rightarrow> string \<Rightarrow> string" where
  "rsplit_first sep s = rev (takeWhile (\<lambda>c. c \<noteq> sep) (rev s))"

text \<open>The first piece of a split always exists, so the \<open>?\<close> in the source never returns.\<close>

definition nats_url_host :: "string \<Rightarrow> string option" where
  "nats_url_host after_scheme =
     (let authority = split_first {CHR ''/'', CHR ''?'', CHR ''#''} after_scheme;
          host_port = rsplit_first (CHR ''@'') authority
      in case read_given_char (CHR ''['') host_port of
           Some bracketed \<Rightarrow> Some (split_first {CHR '']''} bracketed)
         | None \<Rightarrow> Some (split_first {CHR '':''} host_port))"

definition check_nats_url :: "string \<Rightarrow> bool \<Rightarrow> error + unit" where
  "check_nats_url url allow_plaintext =
     and_then (ok_or (split_once ''://'' url)
        (InvalidConfig ''NATS URL has no scheme (want nats:// or tls://)'')) (\<lambda>(scheme, rest).
     if eq_ignore_ascii_case scheme ''tls'' then Inr ()
     else if \<not> eq_ignore_ascii_case scheme ''nats''
     then Inl (InvalidConfig ''unsupported NATS URL scheme (want nats:// or tls://)'')
     else and_then (ok_or (nats_url_host rest) (InvalidConfig ''NATS URL has no host'')) (\<lambda>host.
       if is_loopback_host host \<or> allow_plaintext then Inr ()
       else Inl (InvalidConfig ''refusing plaintext nats:// to non-loopback host'')))"

definition nats_url_is_tls :: "string \<Rightarrow> bool" where
  "nats_url_is_tls url =
     is_some_and (\<lambda>(scheme, _). eq_ignore_ascii_case scheme ''tls'') (split_once ''://'' url)"

section \<open>What an accepted URL is\<close>

lemma read_number_rest: "read_number radix m z b s = Some (v, r) \<Longrightarrow> set r \<subseteq> set s"
  by (auto simp: read_number_def Let_def split: if_splits dest: in_set_dropD)

lemma read_separator_rest:
  "read_separator sep i (read_number radix m z b) s = Some (v, r) \<Longrightarrow> set r \<subseteq> set s"
  by (auto simp: read_separator_def read_given_char_def split: if_splits list.splits bind_splits
      dest!: read_number_rest)

lemma read_groups_no_colon:
  assumes "CHR '':'' \<notin> set s" "k < limit"
  shows "read_groups limit k s = ([], False, s)"
  using assms by (cases k)
    (auto simp: read_separator_def read_given_char_def Let_def split: list.splits)

lemma read_groups_first:
  "read_groups 8 8 s = (case read_ipv4_addr s of
      Some (os, r) \<Rightarrow> ([os ! 0 * 256 + os ! 1, os ! 2 * 256 + os ! 3], True, r)
    | None \<Rightarrow> (case read_number 16 4 True 65535 s of
        None \<Rightarrow> ([], False, s)
      | Some (g, r) \<Rightarrow> (let (gs, v4, r') = read_groups 8 7 r in (g # gs, v4, r'))))"
  using read_groups.simps(2) [of 8 7 s] unfolding read_separator_def by (simp add: Let_def)

lemma read_ipv6_addr_needs_colon:
  assumes "CHR '':'' \<notin> set s"
  shows "read_ipv6_addr s = None"
proof -
  obtain head v4 r where h: "read_groups 8 8 s = (head, v4, r)" by (metis prod_cases3)
  have g: "read_groups 8 7 r' = ([], False, r')" if "read_number 16 4 True 65535 s = Some (v, r')" for v r'
    using read_number_rest [OF that] assms by (intro read_groups_no_colon) auto
  have "v4 \<and> length head = 2 \<or> \<not> v4 \<and> length head \<le> 1 \<and> set r \<subseteq> set s"
    using h read_number_rest [of 16 4 True 65535 s] g unfolding read_groups_first
    by (fastforce split: option.splits prod.splits)
  moreover have "read_given_char (CHR '':'') r = None" if "set r \<subseteq> set s"
    using that assms by (auto simp: read_given_char_def split: list.splits)
  ultimately show ?thesis using h by (auto simp: read_ipv6_addr_def)
qed

lemma to_digit_10: "to_digit 10 c = Some d \<longleftrightarrow> of_char c = 48 + d \<and> d < 10"
  by (auto simp: to_digit_def Let_def split: if_splits)

lemma char_of_digit: "of_char c = (n :: nat) \<Longrightarrow> c = char_of n"
  by auto

lemma digits_127:
  assumes "\<forall>c \<in> set ds. to_digit 10 c \<noteq> None" "length ds \<le> 3"
    and "foldl (\<lambda>acc c. acc * 10 + the (to_digit 10 c)) 0 ds = 127"
  shows "ds = ''127''"
proof -
  from assms(2) consider "ds = []" | c where "ds = [c]" | c d where "ds = [c, d]" | c d e where "ds = [c, d, e]"
    by (cases ds; cases "tl ds"; cases "tl (tl ds)"; cases "tl (tl (tl ds))") auto
  then show ?thesis
  proof cases
    case (4 c d e)
    with assms(1) obtain x y z where d: "to_digit 10 c = Some x" "to_digit 10 d = Some y" "to_digit 10 e = Some z"
      by auto
    then have b: "x < 10" "y < 10" "z < 10" and o: "of_char c = 48 + x" "of_char d = 48 + y" "of_char e = 48 + z"
      by (auto simp: to_digit_10)
    have "x * 100 + y * 10 + z = 127" using assms(3) 4 d by simp
    moreover from this b have "x = 1" by linarith
    moreover from calculation b have "y = 2" by linarith
    ultimately have "x = 1" "y = 2" "z = 7" by simp_all
    with o have "c = char_of (49 :: nat)" "d = char_of (50 :: nat)" "e = char_of (55 :: nat)"
      by (auto dest: char_of_digit)
    with 4 show ?thesis by (simp add: char_of_def bit_0)
  next
    case (2 c)
    with assms(1) obtain x where d: "to_digit 10 c = Some x" by auto
    with assms(3) 2 show ?thesis using to_digit_10 [of c x] by simp
  next
    case (3 c d)
    with assms(1) obtain x y where d: "to_digit 10 c = Some x" "to_digit 10 d = Some y" by auto
    then have "x < 10" "y < 10" by (auto simp: to_digit_10)
    moreover have "x * 10 + y = 127" using assms(3) 3 d by simp
    ultimately show ?thesis by linarith
  qed (use assms in simp)
qed

lemma read_ipv4_first:
  assumes "read_ipv4_addr s = Some (os, r)"
  obtains q r1 where "read_number 10 3 False 255 s = Some (q, r1)" "os ! 0 = q" "\<exists>r2. r1 = CHR ''.'' # r2"
proof -
  have "(4 :: nat) = Suc 3" by simp
  then have "read_octets 4 0 s = read_octets (Suc 3) 0 s" by metis
  with assms obtain q r1 os1 where n: "read_number 10 3 False 255 s = Some (q, r1)" "os = q # os1"
    and o: "read_octets 3 1 r1 = Some (os1, r)"
    unfolding read_ipv4_addr_def read_octets.simps read_separator_def
    by (auto simp: bind_eq_Some_conv)
  from o have "\<exists>r2. r1 = CHR ''.'' # r2"
    using read_octets.simps(2) [of 2 1 r1]
    by (auto simp: read_separator_def read_given_char_def bind_eq_Some_conv split: list.splits if_splits)
  with n that show thesis by simp
qed

lemma loopback_v4_prefix:
  assumes "read_ipv4_addr s = Some (os, r)" "os ! 0 = 127"
  shows "starts_with ''127.'' s"
proof -
  obtain q r1 where n: "read_number 10 3 False 255 s = Some (127, r1)" and r: "\<exists>r2. r1 = CHR ''.'' # r2"
    using read_ipv4_first [OF assms(1)] assms(2) by metis
  let ?ds = "takeWhile (\<lambda>c. to_digit 10 c \<noteq> None) s"
  from n have d: "length ?ds \<le> 3" "foldl (\<lambda>acc c. acc * 10 + the (to_digit 10 c)) 0 ?ds = 127"
    "r1 = drop (length ?ds) s"
    by (auto simp: read_number_def Let_def split: if_splits)
  have ds: "?ds = ''127''" by (rule digits_127) (use d in \<open>auto dest: set_takeWhileD\<close>)
  with d(3) have "s = ''127'' @ r1" by (metis append_take_drop_id takeWhile_eq_take)
  with r show ?thesis by (auto simp: starts_with_def)
qed

lemma is_loopback_host_shape:
  assumes "is_loopback_host host" "CHR '':'' \<notin> set host"
  shows "host = [] \<or> eq_ignore_ascii_case host ''localhost'' \<or> starts_with ''127.'' host"
  using assms read_ipv6_addr_needs_colon [OF assms(2)]
  by (auto simp: is_loopback_host_def parse_ip_addr_def is_some_and_def intro: loopback_v4_prefix
      split: option.splits list.splits prod.splits)

lemma split_once_scheme:
  assumes "CHR '':'' \<notin> set scheme"
  shows "split_once ''://'' (scheme @ ''://'' @ rest) = Some (scheme, rest)"
  using assms by (induction scheme) (auto simp: split_once.simps)

lemma nats_not_tls: "eq_ignore_ascii_case s ''nats'' \<Longrightarrow> \<not> eq_ignore_ascii_case s ''tls''"
  by (auto simp: eq_ignore_ascii_case_def to_ascii_lower_def dest!: arg_cong [where f = length])

lemma split_first_append:
  "set a \<inter> seps = {} \<Longrightarrow> b = [] \<or> hd b \<in> seps \<Longrightarrow> split_first seps (a @ b) = a"
  by (cases b) (auto simp: split_first_def takeWhile_append2 disjoint_iff)

lemma rsplit_first_append: "CHR ''@'' \<notin> set a \<Longrightarrow> rsplit_first (CHR ''@'') (u @ CHR ''@'' # a) = a"
  by (induction a rule: rev_induct) (auto simp: rsplit_first_def)

lemma nats_url_host_of_authority:
  assumes "set user \<inter> {CHR ''/'', CHR ''?'', CHR ''#''} = {}"
    and "set host \<inter> {CHR ''/'', CHR ''?'', CHR ''#'', CHR ''@'', CHR '':'', CHR ''[''} = {}"
    and "set port \<inter> {CHR ''/'', CHR ''?'', CHR ''#'', CHR ''@''} = {}"
    and "path = [] \<or> hd path \<in> {CHR ''/'', CHR ''?'', CHR ''#''}"
  shows "nats_url_host (user @ ''@'' @ host @ '':'' @ port @ path) = Some host"
proof -
  have "split_first {CHR ''/'', CHR ''?'', CHR ''#''} ((user @ ''@'' @ host @ '':'' @ port) @ path)
    = user @ ''@'' @ host @ '':'' @ port"
    using assms by (intro split_first_append) auto
  moreover have "rsplit_first (CHR ''@'') (user @ CHR ''@'' # (host @ '':'' @ port)) = host @ '':'' @ port"
    using assms by (intro rsplit_first_append) auto
  moreover have "read_given_char (CHR ''['') (host @ '':'' @ port) = None"
    using assms(2) by (cases host) (auto simp: read_given_char_def)
  moreover have "split_first {CHR '':''} (host @ '':'' @ port) = host"
    using assms(2) by (intro split_first_append) auto
  ultimately show ?thesis by (simp add: nats_url_host_def)
qed

text \<open>plaintext credentials stay on this machine. For \<open>nats://user@host:port/path\<close> in any letter
  case of the scheme and with anything before the last \<open>@\<close>, the policy without the opt-out
  accepts only an empty host, \<open>localhost\<close> or an address in \<open>127.0.0.0/8\<close>, and what stands in the
  user information never counts as the host.\<close>

theorem plaintext_stays_local:
  assumes "eq_ignore_ascii_case scheme ''nats''"
    and "set user \<inter> {CHR ''/'', CHR ''?'', CHR ''#''} = {}"
    and "set host \<inter> {CHR ''/'', CHR ''?'', CHR ''#'', CHR ''@'', CHR '':'', CHR ''[''} = {}"
    and "set port \<inter> {CHR ''/'', CHR ''?'', CHR ''#'', CHR ''@''} = {}"
    and "path = [] \<or> hd path \<in> {CHR ''/'', CHR ''?'', CHR ''#''}"
    and "check_nats_url (scheme @ ''://'' @ user @ ''@'' @ host @ '':'' @ port @ path) False = Inr ()"
  shows "host = [] \<or> eq_ignore_ascii_case host ''localhost'' \<or> starts_with ''127.'' host"
proof -
  have "CHR '':'' \<notin> set scheme"
  proof
    assume "CHR '':'' \<in> set scheme"
    then have "to_ascii_lower (CHR '':'') \<in> set (map to_ascii_lower scheme)" by simp
    with assms(1) have "to_ascii_lower (CHR '':'') \<in> set (map to_ascii_lower ''nats'')"
      by (simp add: eq_ignore_ascii_case_def del: set_map)
    then show False by (simp add: to_ascii_lower_def)
  qed
  then have "is_loopback_host host"
    using assms(1,6) nats_url_host_of_authority [OF assms(2-5)] nats_not_tls [OF assms(1)]
      split_once_scheme [of scheme "user @ ''@'' @ host @ '':'' @ port @ path"]
    unfolding check_nats_url_def by (simp split: if_splits)
  with assms(3) show ?thesis by (intro is_loopback_host_shape) auto
qed


theorem plaintext_stays_local_witness:
  "check_nats_url ''NATS://localhost@10.0.0.1:4222'' False \<noteq> Inr () \<and>
   check_nats_url ''nats://u@127.0.0.1:4222/'' False = Inr ()"
proof -
  have "check_nats_url ''NATS://localhost@10.0.0.1:4222'' False \<noteq> Inr ()"
  proof
    assume "check_nats_url ''NATS://localhost@10.0.0.1:4222'' False = Inr ()"
    then have "(''10.0.0.1'' :: string) = [] \<or> eq_ignore_ascii_case ''10.0.0.1'' ''localhost'' \<or> starts_with ''127.'' ''10.0.0.1''"
      using plaintext_stays_local [of "''NATS''" "''localhost''" "''10.0.0.1''" "''4222''" "[]"]
      by (simp add: eq_ignore_ascii_case_def to_ascii_lower_def char_of_def bit_0)
    then show False by (simp add: eq_ignore_ascii_case_def starts_with_def)
  qed
  moreover have "check_nats_url ''nats://u@127.0.0.1:4222/'' False = Inr ()" by code_simp
  ultimately show ?thesis by blast
qed

end
