(* ===== verification/Tool_V1.thy ===== *)
theory Tool_V1
  imports Auth_V1
begin

text \<open>
  Browser approval of tool permission prompts (\<open>protocol/src/tool_v1.rs\<close>): strict JSON
  values without duplicate keys, the request with its retained native event, the envelope,
  sealing for several recipients, and the decision verifier, which reads client data
  through the strict parser and its own \<open>ClientData\<close> struct.
\<close>

definition TOOL_WIRE_VERSION :: u8 where "TOOL_WIRE_VERSION = 3"
definition TOOL_ENVELOPE_TYPE :: string where "TOOL_ENVELOPE_TYPE = ''tool_approval''"
definition TOOL_REQUEST_TYPE :: string where "TOOL_REQUEST_TYPE = ''tool_approval_request''"
definition TOOL_ACK_TYPE :: string where "TOOL_ACK_TYPE = ''tool_approval_ack''"
definition TOOL_DELIVERY_TYPE :: string where "TOOL_DELIVERY_TYPE = ''tool_approval_delivery''"
definition TOOL_APPROVE_DOMAIN :: bytes where
  "TOOL_APPROVE_DOMAIN = as_bytes ''oshioki/tool-approval/approve/v1'' @ [0]"
definition TOOL_DENY_DOMAIN :: bytes where
  "TOOL_DENY_DOMAIN = as_bytes ''oshioki/tool-approval/deny/v1'' @ [0]"
definition MAX_TOOL_NAME_BYTES :: nat where "MAX_TOOL_NAME_BYTES = 256"
definition MAX_CONTEXT_BYTES :: nat where "MAX_CONTEXT_BYTES = 4096"

section \<open>Receipts\<close>

definition ToolAcknowledgementV1_for_request :: "string \<Rightarrow> ToolAcknowledgementV1" where
  "ToolAcknowledgementV1_for_request request_id =
     \<lparr>ta_message_type = TOOL_ACK_TYPE, ta_version = TOOL_WIRE_VERSION, ta_request_id = request_id\<rparr>"

definition ToolAcknowledgementV1_validate :: "ToolAcknowledgementV1 \<Rightarrow> string \<Rightarrow> error + unit" where
  "ToolAcknowledgementV1_validate a request_id =
     (if ta_message_type a \<noteq> TOOL_ACK_TYPE \<or> ta_version a \<noteq> TOOL_WIRE_VERSION \<or>
         ta_request_id a \<noteq> request_id \<or> \<not> valid_id request_id
      then Inl (BadVerdict ''tool acknowledgement does not match request'') else Inr ())"

definition ToolDeliveryV1_for_request :: "string \<Rightarrow> ToolDeliveryV1" where
  "ToolDeliveryV1_for_request request_id =
     \<lparr>td_message_type = TOOL_DELIVERY_TYPE, td_version = TOOL_WIRE_VERSION, td_request_id = request_id\<rparr>"

definition ToolDeliveryV1_validate :: "ToolDeliveryV1 \<Rightarrow> string \<Rightarrow> error + unit" where
  "ToolDeliveryV1_validate a request_id =
     (if td_message_type a \<noteq> TOOL_DELIVERY_TYPE \<or> td_version a \<noteq> TOOL_WIRE_VERSION \<or>
         td_request_id a \<noteq> request_id \<or> \<not> valid_id request_id
      then Inl (BadVerdict ''tool delivery does not match request'') else Inr ())"

fun ToolHarnessV1_as_str :: "ToolHarnessV1 \<Rightarrow> string" where
  "ToolHarnessV1_as_str Codex = ''codex''"
| "ToolHarnessV1_as_str Claude = ''claude''"

section \<open>Strict JSON values\<close>

text \<open>The visitor over what the deserializer delivers. An object is inserted key by key into a
  sorted map (\<open>serde_json::Map\<close> is a \<open>BTreeMap\<close>); a key seen before fails the whole value. A
  float that is not finite is no JSON number.\<close>

fun string_less :: "string \<Rightarrow> string \<Rightarrow> bool" where
  "string_less [] [] = False"
| "string_less [] (d # ds) = True"
| "string_less (c # cs) [] = False"
| "string_less (c # cs) (d # ds) =
     (if (of_char c :: nat) < of_char d then True
      else if c = d then string_less cs ds else False)"

fun map_insert :: "string \<Rightarrow> json \<Rightarrow> (string \<times> json) list \<Rightarrow> (string \<times> json) list" where
  "map_insert k v [] = [(k, v)]"
| "map_insert k v ((k', v') # kvs) =
     (if k = k' then (k, v) # kvs
      else if string_less k k' then (k, v) # (k', v') # kvs
      else (k', v') # map_insert k v kvs)"

definition f64_is_finite :: "64 word \<Rightarrow> bool" where
  "f64_is_finite bits \<longleftrightarrow> drop_bit 52 (take_bit 63 bits) \<noteq> 0x7FF"

fun strict_value :: "json_events \<Rightarrow> string + json"
  and strict_seq :: "json_events list \<Rightarrow> string + json list"
  and strict_map :: "string list \<Rightarrow> (string \<times> json) list \<Rightarrow> (string \<times> json_events) list
    \<Rightarrow> string + (string \<times> json) list" where
  "strict_value ENull = Inr JNull"
| "strict_value (EBool b) = Inr (JBool b)"
| "strict_value (ENumber n) =
     (case n of
        NF64 bits \<Rightarrow> if f64_is_finite bits then Inr (JNumber n) else Inl ''invalid JSON number''
      | _ \<Rightarrow> Inr (JNumber n))"
| "strict_value (EString s) = Inr (JString s)"
| "strict_value (ESeq es) = map_ok JArray (strict_seq es)"
| "strict_value (EMap es) = map_ok JObject (strict_map [] [] es)"
| "strict_seq [] = Inr []"
| "strict_seq (e # es) = and_then (strict_value e) (\<lambda>v. map_ok ((#) v) (strict_seq es))"
| "strict_map seen acc [] = Inr acc"
| "strict_map seen acc ((k, e) # es) =
     (if k \<in> set seen then Inl ''duplicate JSON object key''
      else and_then (strict_value e) (\<lambda>v. strict_map (k # seen) (map_insert k v acc) es))"

text \<open>\<open>json_events_from_slice\<close> stands for running the deserializer to the end of the input: it
  fails on trailing characters, as the call of \<open>end()\<close> does.\<close>

definition strict_json_value :: "crates \<Rightarrow> bytes \<Rightarrow> error + json" where
  "strict_json_value X raw =
     map_err (\<lambda>e. InvalidRequest (''decode tool JSON: '' @ e))
       (and_then (json_events_from_slice X raw) strict_value)"

definition json_as_str :: "json option \<Rightarrow> string option" where
  "json_as_str v = (case v of Some (JString s) \<Rightarrow> Some s | _ \<Rightarrow> None)"

definition context_matches :: "json \<Rightarrow> string \<Rightarrow> string option \<Rightarrow> bool" where
  "context_matches event key expected =
     (case (json_get event key, expected) of
        (None, None) \<Rightarrow> True
      | (Some JNull, None) \<Rightarrow> True
      | (Some (JString actual), Some e) \<Rightarrow> actual = e
      | _ \<Rightarrow> False)"

section \<open>Requests\<close>

definition ToolContextV1_validate :: "ToolContextV1 \<Rightarrow> error + unit" where
  "ToolContextV1_validate c =
     for_each_r (\<lambda>value.
       if is_some_and (\<lambda>v. v = [] \<or> length v > MAX_CONTEXT_BYTES \<or> any_control v) value
       then Inl (InvalidRequest ''invalid tool context field'') else Inr ())
     [tx_session_id c, tx_turn_id c, tx_agent_id c, tx_agent_type c, tx_permission_mode c]"

definition native_event_matches :: "ToolApprovalRequestV1 \<Rightarrow> json \<Rightarrow> bool" where
  "native_event_matches r native_event \<longleftrightarrow>
     json_as_str (json_get native_event ''hook_event_name'') = Some (tr_event r) \<and>
     json_as_str (json_get native_event ''tool_name'') = Some (tr_tool_name r) \<and>
     json_get native_event ''tool_input'' = Some (tr_tool_input r) \<and>
     json_as_str (json_get native_event ''cwd'') = Some (tr_cwd r) \<and>
     context_matches native_event ''session_id'' (tx_session_id (tr_context r)) \<and>
     context_matches native_event ''turn_id'' (tx_turn_id (tr_context r)) \<and>
     context_matches native_event ''agent_id'' (tx_agent_id (tr_context r)) \<and>
     context_matches native_event ''agent_type'' (tx_agent_type (tr_context r)) \<and>
     context_matches native_event ''permission_mode'' (tx_permission_mode (tr_context r))"

definition ToolApprovalRequestV1_validate :: "crates \<Rightarrow> ToolApprovalRequestV1 \<Rightarrow> error + unit" where
  "ToolApprovalRequestV1_validate X r =
     reject_if
       [Inr (tr_message_type r \<noteq> TOOL_REQUEST_TYPE), Inr (tr_version r \<noteq> TOOL_WIRE_VERSION),
        Inr (\<not> valid_id (tr_request_id r)),
        map_ok (\<lambda>b. length b \<noteq> 16) (decode_base64url X (tr_nonce r)),
        Inr (tr_event r \<noteq> ''PermissionRequest''),
        Inr (tr_tool_name r = []), Inr (length (tr_tool_name r) > MAX_TOOL_NAME_BYTES),
        Inr (tr_cwd r = []), Inr (length (tr_cwd r) > MAX_CONTEXT_BYTES),
        Inr (tr_native_event_json r = []), Inr (length (tr_native_event_json r) > MAX_REQUEST_BYTES),
        Inr (is_some_and (\<lambda>v. length v > MAX_CONTEXT_BYTES \<or> any_control v) (tr_description r)),
        Inr (tr_tool_input r = JNull)]
       (InvalidRequest ''invalid tool approval request'')
     (and_then (ToolContextV1_validate (tr_context r)) (\<lambda>_.
      and_then (strict_json_value X (as_bytes (tr_native_event_json r))) (\<lambda>native_event.
      case native_event of
        JObject _ \<Rightarrow>
          if \<not> native_event_matches r native_event
          then Inl (InvalidRequest ''tool approval fields do not match the retained native event'')
          else Inr ()
      | _ \<Rightarrow> Inl (InvalidRequest ''native tool event must be a JSON object''))))"

definition ToolApprovalRequestV1_validate_at ::
  "crates \<Rightarrow> ToolApprovalRequestV1 \<Rightarrow> i64 \<Rightarrow> error + unit" where
  "ToolApprovalRequestV1_validate_at X r now =
     and_then (ToolApprovalRequestV1_validate X r) (\<lambda>_.
       validate_request_timing (tr_issued_at r) (tr_expires_at r) now)"

definition validate_tool_decision_timing :: "i64 \<Rightarrow> i64 \<Rightarrow> i64 \<Rightarrow> error + unit" where
  "validate_tool_decision_timing issued_at expires_at now =
     (if issued_at > saturating_add now MAX_REQUEST_ISSUANCE_SKEW_SECS
      then Inl (InvalidRequest ''request issuance time is outside clock skew'')
      else if expires_at \<le> now then Inl (InvalidRequest ''request has expired'')
      else and_then
        (ok_or (checked_sub expires_at issued_at) (InvalidRequest ''invalid request lifetime''))
        (\<lambda>lifetime. if lifetime \<le> 0 \<or> lifetime > MAX_REQUEST_LIFETIME_SECS
           then Inl (InvalidRequest ''request lifetime is outside the allowed range'') else Inr ()))"

definition parse_tool_request_at :: "crates \<Rightarrow> bytes \<Rightarrow> i64 \<Rightarrow> error + ToolApprovalRequestV1" where
  "parse_tool_request_at X raw now =
     (if length raw > MAX_REQUEST_BYTES then Inl (InvalidRequest ''tool request exceeds 256 KiB'')
      else and_then (strict_json_value X raw) (\<lambda>value.
      and_then (map_err (\<lambda>e. InvalidRequest (''decode tool request: '' @ e))
        (from_value_tool_request X value)) (\<lambda>request.
      and_then (ToolApprovalRequestV1_validate X request) (\<lambda>_.
      and_then (validate_tool_decision_timing (tr_issued_at request) (tr_expires_at request) now)
        (\<lambda>_. Inr request)))))"

section \<open>Envelopes\<close>

definition ToolApprovalEnvelopeV1_validate_at ::
  "crates \<Rightarrow> ToolApprovalEnvelopeV1 \<Rightarrow> i64 \<Rightarrow> error + unit" where
  "ToolApprovalEnvelopeV1_validate_at X e now =
     reject_if
       [Inr (te_message_type e \<noteq> TOOL_ENVELOPE_TYPE), Inr (te_version e \<noteq> TOOL_WIRE_VERSION),
        Inr (\<not> valid_id (te_request_id e)), Inr (te_sealed e = []),
        Inr (length (te_sealed e) > MAX_DEVICES)]
       (InvalidRequest ''invalid tool approval envelope'')
     (and_then (for_each_r (\<lambda>body. reject_if
         [Inr (\<not> valid_fingerprint X (tb_device_fingerprint body)),
          Inr (is_err (decode_exact X (tb_ephemeral_pub body) 32)),
          Inr (is_err (decode_exact X (tb_nonce body) 12)),
          map_ok (\<lambda>b. length b < 16) (decode_base64url X (tb_ciphertext body))]
         (InvalidRequest ''invalid tool sealed body'') (Inr ())) (te_sealed e)) (\<lambda>_.
      and_then (map_err InvalidRequest (to_vec_tool_envelope X e)) (\<lambda>bs.
        if length bs > MAX_ENVELOPE_BYTES then Inl (InvalidRequest ''tool envelope exceeds 3 MiB'')
        else validate_request_timing (te_issued_at e) (te_expires_at e) now)))"

text \<open>Each recipient's ephemeral secret and nonce are drawn inside \<open>seal_v1\<close>; here they come
  paired with the device.\<close>

definition seal_tool_request_v1 ::
  "crates \<Rightarrow> ToolApprovalRequestV1 \<Rightarrow> (DevicePublicRecordV1 \<times> static_secret \<times> bytes) list
    \<Rightarrow> error + bytes \<times> ToolApprovalEnvelopeV1" where
  "seal_tool_request_v1 X request devices =
     and_then (ToolApprovalRequestV1_validate X request) (\<lambda>_.
     if devices = [] \<or> length devices > MAX_DEVICES
     then Inl (InvalidRequest ''invalid tool recipient count'')
     else if list_ex (\<lambda>(device, _). dv_kind device \<noteq> Webauthn \<or> \<not> dv_active device) devices
     then Inl (InvalidRequest ''tool approval recipients must be active WebAuthn devices'')
     else and_then (map_err InvalidRequest (to_vec_tool_request X request)) (\<lambda>raw.
     if length raw > MAX_REQUEST_BYTES then Inl (InvalidRequest ''tool request exceeds 256 KiB'')
     else and_then (collect_r (\<lambda>(device, secret, nonce).
        map_ok (\<lambda>body. \<lparr>tb_device_fingerprint = sb_device_fingerprint body,
            tb_ephemeral_pub = sb_ephemeral_pub body, tb_nonce = sb_nonce body,
            tb_ciphertext = sb_ciphertext body\<rparr>) (seal_v1 X raw device secret nonce)) devices) (\<lambda>sealed.
     let envelope = \<lparr>te_message_type = TOOL_ENVELOPE_TYPE, te_version = TOOL_WIRE_VERSION,
           te_request_id = tr_request_id request, te_issued_at = tr_issued_at request,
           te_expires_at = tr_expires_at request, te_sealed = sealed\<rparr>
     in and_then (map_err InvalidRequest (to_vec_tool_envelope X envelope)) (\<lambda>bs.
        if length bs > MAX_ENVELOPE_BYTES then Inl (InvalidRequest ''tool envelope exceeds 3 MiB'')
        else Inr (raw, envelope)))))"

definition unseal_tool_body_v1 :: "crates \<Rightarrow> ToolSealedBodyV1 \<Rightarrow> static_secret \<Rightarrow> error + bytes" where
  "unseal_tool_body_v1 X body box_secret =
     unseal_v1 X \<lparr>sb_device_fingerprint = tb_device_fingerprint body,
       sb_ephemeral_pub = tb_ephemeral_pub body, sb_nonce = tb_nonce body,
       sb_ciphertext = tb_ciphertext body\<rparr> box_secret"

section \<open>Decisions\<close>

definition ToolApprovalWebauthnV1_validate_shape ::
  "crates \<Rightarrow> ToolApprovalWebauthnV1 \<Rightarrow> error + unit" where
  "ToolApprovalWebauthnV1_validate_shape X a =
     and_then (decode_base64url X (tw_authenticator_data a)) (\<lambda>auth_data.
     and_then (decode_base64url X (tw_client_data_json a)) (\<lambda>client_data.
     and_then (decode_base64url X (tw_signature a)) (\<lambda>signature.
     reject_if
       [Inr (tw_version a \<noteq> TOOL_WIRE_VERSION), Inr (\<not> valid_id (tw_request_id a)),
        Inr (\<not> valid_fingerprint X (tw_device_fingerprint a)),
        map_ok (\<lambda>b. b = []) (decode_base64url X (tw_credential_id a)),
        Inr (\<not> (37 \<le> length auth_data \<and> length auth_data \<le> 1024)),
        Inr (client_data = []), Inr (length client_data > 16 * 1024),
        Inr (\<not> (8 \<le> length signature \<and> length signature \<le> 256))]
       (BadVerdict ''invalid tool WebAuthn decision shape'') (Inr ()))))"

fun ToolApprovalDecisionV1_assertion :: "ToolApprovalDecisionV1 \<Rightarrow> ToolApprovalWebauthnV1" where
  "ToolApprovalDecisionV1_assertion (ToolDecisionApprove a) = a"
| "ToolApprovalDecisionV1_assertion (ToolDecisionDeny a) = a"

fun ToolApprovalDecisionV1_action :: "ToolApprovalDecisionV1 \<Rightarrow> ToolDecisionActionV1" where
  "ToolApprovalDecisionV1_action (ToolDecisionApprove a) = ToolApprove"
| "ToolApprovalDecisionV1_action (ToolDecisionDeny a) = ToolDeny"

definition tool_approval_challenge :: "crates \<Rightarrow> ToolDecisionActionV1 \<Rightarrow> bytes \<Rightarrow> bytes" where
  "tool_approval_challenge X action raw_request_json =
     sha256 X ((case action of ToolApprove \<Rightarrow> TOOL_APPROVE_DOMAIN | ToolDeny \<Rightarrow> TOOL_DENY_DOMAIN)
       @ raw_request_json)"

text \<open>The struct \<open>ClientData\<close> of this module has no \<open>rename\<close> on its cross-origin field, so serde
  reads it from the key \<open>cross_origin\<close>.\<close>

definition tool_client_data :: "crates \<Rightarrow> bytes \<Rightarrow> error + ClientData" where
  "tool_client_data X client_data_json =
     and_then (strict_json_value X client_data_json) (\<lambda>value.
       map_err (\<lambda>_. MalformedClientData) (client_data_from_value X ''cross_origin'' value))"

definition verify_webauthn_for_challenge ::
  "crates \<Rightarrow> string \<Rightarrow> string \<Rightarrow> string \<Rightarrow> bytes \<Rightarrow> DevicePublicRecordV1 \<Rightarrow> HookConfigV1
    \<Rightarrow> error + AssertionOutcomeV1" where
  "verify_webauthn_for_challenge X authenticator_data_text client_data_text signature_text
      expected_challenge device config =
     and_then (HookConfigV1_validate config) (\<lambda>_.
     and_then (decode_base64url X client_data_text) (\<lambda>client_data_json.
     and_then (tool_client_data X client_data_json) (\<lambda>client_data.
     if cd_type client_data \<noteq> ''webauthn.get'' then Inl UnexpectedCredentialType
     else if cd_origin client_data \<noteq> cf_origin config \<or> cd_cross_origin client_data
     then Inl BadOrigin
     else if cd_challenge client_data \<noteq> b64_encode X expected_challenge then Inl BadChallenge
     else and_then (decode_base64url X authenticator_data_text) (\<lambda>auth_data.
     if length auth_data < 37 then Inl MalformedAuthenticatorData
     else if take 32 auth_data \<noteq> sha256 X (as_bytes (cf_rp_id config)) then Inl BadRpId
     else if auth_data ! 32 AND 0x01 = 0 then Inl MissingUserPresence
     else if auth_data ! 32 AND 0x04 = 0 then Inl MissingUserVerification
     else and_then (decode_base64url X (dv_credential_public_key device)) (\<lambda>credential_key.
     and_then (cose_p256_verifying_key X credential_key) (\<lambda>verifying_key.
     and_then (decode_base64url X signature_text) (\<lambda>der.
     and_then (ok_or (sig_from_der X der) InvalidSignature) (\<lambda>sig.
     if \<not> ecdsa_verify X verifying_key (auth_data @ sha256 X client_data_json) sig
     then Inl InvalidSignature
     else Inr (counter_outcome (u32_be (take 4 (drop 33 auth_data))) (dv_sign_count device))))))))))"

definition verify_tool_decision_v1 ::
  "crates \<Rightarrow> ToolApprovalDecisionV1 \<Rightarrow> bytes \<Rightarrow> DevicePublicRecordV1 \<Rightarrow> HookConfigV1 \<Rightarrow> i64
    \<Rightarrow> error + AssertionOutcomeV1" where
  "verify_tool_decision_v1 X decision raw device config now =
     and_then (parse_tool_request_at X raw now) (\<lambda>request.
     and_then (ToolApprovalWebauthnV1_validate_shape X (ToolApprovalDecisionV1_assertion decision)) (\<lambda>_.
     and_then (DevicePublicRecordV1_validate X device) (\<lambda>_.
     let assertion = ToolApprovalDecisionV1_assertion decision in
     if dv_kind device \<noteq> Webauthn \<or> tw_device_fingerprint assertion \<noteq> dv_fingerprint device \<or>
        tw_credential_id assertion \<noteq> dv_credential_id device \<or>
        tw_request_id assertion \<noteq> tr_request_id request
     then Inl (BadVerdict ''tool decision does not match request or pinned WebAuthn device'')
     else verify_webauthn_for_challenge X (tw_authenticator_data assertion)
       (tw_client_data_json assertion) (tw_signature assertion)
       (tool_approval_challenge X (ToolApprovalDecisionV1_action decision) raw) device config)))"

section \<open>Strict values hold no duplicate keys\<close>

fun events_distinct :: "json_events \<Rightarrow> bool" where
  "events_distinct (ESeq es) = (\<forall>e \<in> set es. events_distinct e)"
| "events_distinct (EMap es) =
     (distinct (map fst es) \<and> (\<forall>(k, e) \<in> set es. events_distinct e))"
| "events_distinct _ = True"

lemma strict_value_distinct:
  "strict_value e = Inr v \<Longrightarrow> events_distinct e"
  "strict_seq es = Inr vs \<Longrightarrow> \<forall>e \<in> set es. events_distinct e"
  "strict_map seen acc kes = Inr kvs \<Longrightarrow>
     distinct (map fst kes) \<and> set (map fst kes) \<inter> set seen = {} \<and>
     (\<forall>(k, e) \<in> set kes. events_distinct e)"
proof (induction e and es and seen acc kes arbitrary: v and vs and kvs
    rule: strict_value_strict_seq_strict_map.induct)
  case (10 seen acc k e es)
  from "10.prems" obtain v where k: "k \<notin> set seen" and v: "strict_value e = Inr v"
    and r: "strict_map (k # seen) (map_insert k v acc) es = Inr kvs"
    by (auto simp: result_simps split: if_splits)
  with "10.IH" show ?case by fastforce
qed (auto simp: result_simps split: if_splits)

lemma map_insert_map_of:
  "map_of (map_insert k v kvs) = (map_of kvs)(k \<mapsto> v)"
  by (induction kvs) (auto simp: fun_eq_iff)

lemma strict_map_lookup:
  assumes "strict_map seen acc es = Inr kvs" "k \<notin> set (map fst es)"
  shows "map_of kvs k = map_of acc k"
  using assms
proof (induction es arbitrary: seen acc)
  case Nil
  then show ?case by simp
next
  case (Cons p es)
  obtain k' e where p: "p = (k', e)" by (cases p)
  from Cons.prems(1) p obtain v where r: "strict_map (k' # seen) (map_insert k' v acc) es = Inr kvs"
    by (auto simp: result_simps split: if_splits)
  from Cons.IH [OF r] Cons.prems(2) p show ?case by (simp add: map_insert_map_of)
qed

lemma strict_map_entry:
  assumes "strict_map seen acc es = Inr kvs" "(k, e) \<in> set es"
  shows "\<exists>v. strict_value e = Inr v \<and> map_of kvs k = Some v"
  using assms
proof (induction es arbitrary: seen acc)
  case Nil
  then show ?case by simp
next
  case (Cons p es)
  obtain k' e' where p: "p = (k', e')" by (cases p)
  from Cons.prems(1) p obtain v where v: "strict_value e' = Inr v"
    and r: "strict_map (k' # seen) (map_insert k' v acc) es = Inr kvs"
    by (auto simp: result_simps split: if_splits)
  show ?case
  proof (cases "(k, e) \<in> set es")
    case True
    with Cons.IH [OF r] show ?thesis by blast
  next
    case False
    with Cons.prems(2) p have eq: "k = k'" "e = e'" by auto
    have "k' \<notin> set (map fst es)" using strict_value_distinct(3) [OF r] by auto
    then have "map_of kvs k = Some v"
      using strict_map_lookup [OF r] eq by (simp add: map_insert_map_of)
    with v eq show ?thesis by blast
  qed
qed

text \<open>the strict parser returns a value only for input without a repeated object key at any
  depth, and then the value of every top-level key is the one entry written under it: what a
  reviewer is shown is what the document says.\<close>

theorem strict_json_value_no_duplicates:
  assumes "strict_json_value X raw = Inr v"
  shows "\<exists>events. json_events_from_slice X raw = Inr events \<and> events_distinct events \<and>
    (\<forall>es k e. events = EMap es \<and> (k, e) \<in> set es \<longrightarrow>
       (\<exists>w. strict_value e = Inr w \<and> json_get v k = Some w))"
proof -
  from assms obtain events where p: "json_events_from_slice X raw = Inr events"
    and s: "strict_value events = Inr v"
    by (auto simp: strict_json_value_def result_simps)
  have "\<exists>w. strict_value e = Inr w \<and> json_get v k = Some w"
    if m: "events = EMap es" "(k, e) \<in> set es" for es k e
  proof -
    from s m obtain kvs where "strict_map [] [] es = Inr kvs" and v: "v = JObject kvs"
      by (auto simp: result_simps)
    from strict_map_entry [OF this(1) m(2)] show ?thesis by (auto simp: v json_get_def)
  qed
  with p s strict_value_distinct(1) [OF s] show ?thesis by blast
qed

section \<open>The WebAuthn lane\<close>

lemma verify_webauthn_for_challenge_sound:
  assumes "verify_webauthn_for_challenge X ad_text cd_text sig_text challenge device config = Inr outcome"
  shows "HookConfigV1_validate config = Inr () \<and>
    assertion_proves X (tool_client_data X) ad_text cd_text sig_text challenge device config"
proof -
  from assms obtain cdj cd ad pk key der sig where c: "HookConfigV1_validate config = Inr ()" and
    "decode_base64url X cd_text = Inr cdj" "tool_client_data X cdj = Inr cd"
    "cd_type cd = ''webauthn.get''" "cd_origin cd = cf_origin config" "\<not> cd_cross_origin cd"
    "cd_challenge cd = b64_encode X challenge" "decode_base64url X ad_text = Inr ad"
    "37 \<le> length ad" "take 32 ad = sha256 X (as_bytes (cf_rp_id config))"
    "ad ! 32 AND 0x01 \<noteq> 0" "ad ! 32 AND 0x04 \<noteq> 0"
    "decode_base64url X (dv_credential_public_key device) = Inr pk"
    "cose_p256_verifying_key X pk = Inr key" "decode_base64url X sig_text = Inr der"
    "sig_from_der X der = Some sig" "ecdsa_verify X key (ad @ sha256 X cdj) sig"
    by (auto simp: verify_webauthn_for_challenge_def result_simps not_less split: if_splits)
  then show ?thesis unfolding assertion_proves_def by blast
qed

lemma verify_tool_decision_facts:
  assumes "verify_tool_decision_v1 X d raw device config now = Inr out"
  shows "\<exists>request. parse_tool_request_at X raw now = Inr request \<and>
      tw_request_id (ToolApprovalDecisionV1_assertion d) = tr_request_id request"
    "DevicePublicRecordV1_validate X device = Inr ()" "dv_kind device = Webauthn"
    "tw_device_fingerprint (ToolApprovalDecisionV1_assertion d) = dv_fingerprint device"
    "tw_credential_id (ToolApprovalDecisionV1_assertion d) = dv_credential_id device"
    "verify_webauthn_for_challenge X
       (tw_authenticator_data (ToolApprovalDecisionV1_assertion d))
       (tw_client_data_json (ToolApprovalDecisionV1_assertion d))
       (tw_signature (ToolApprovalDecisionV1_assertion d))
       (tool_approval_challenge X (ToolApprovalDecisionV1_action d) raw) device config = Inr out"
  using assms by (auto simp: verify_tool_decision_v1_def Let_def result_simps split: if_splits)

interpretation tool_lane: webauthn_lane X "tool_client_data X"
  "\<lambda>d raw device config. verify_tool_decision_v1 X d raw device config now"
  "\<lambda>d raw. (case ToolApprovalDecisionV1_action d of ToolApprove \<Rightarrow> TOOL_APPROVE_DOMAIN | ToolDeny \<Rightarrow> TOOL_DENY_DOMAIN) @ raw"
  "\<lambda>d. tw_authenticator_data (ToolApprovalDecisionV1_assertion d)"
  "\<lambda>d. tw_client_data_json (ToolApprovalDecisionV1_assertion d)"
  "\<lambda>d. tw_signature (ToolApprovalDecisionV1_assertion d)" for X now
  by unfold_locales (use verify_tool_decision_facts(6) verify_webauthn_for_challenge_sound in \<open>fastforce simp: tool_approval_challenge_def\<close>)

text \<open>a tool decision verifies only for a request that parses from exactly the retained bytes,
  is live now and carries the decision's request id; the decision names the pinned WebAuthn
  device by fingerprint and credential, and that device signed the challenge of this action
  (approve or deny have different domains) over those bytes.\<close>

theorem verify_tool_decision_v1_sound:
  assumes "verify_tool_decision_v1 X d raw device config now = Inr outcome"
  shows "(\<exists>request. parse_tool_request_at X raw now = Inr request \<and>
      now < tr_expires_at request \<and>
      tr_request_id request = tw_request_id (ToolApprovalDecisionV1_assertion d)) \<and>
    DevicePublicRecordV1_validate X device = Inr () \<and> dv_kind device = Webauthn \<and>
    tw_device_fingerprint (ToolApprovalDecisionV1_assertion d) = dv_fingerprint device \<and>
    tw_credential_id (ToolApprovalDecisionV1_assertion d) = dv_credential_id device \<and>
    assertion_proves X (tool_client_data X)
      (tw_authenticator_data (ToolApprovalDecisionV1_assertion d))
      (tw_client_data_json (ToolApprovalDecisionV1_assertion d))
      (tw_signature (ToolApprovalDecisionV1_assertion d))
      (tool_approval_challenge X (ToolApprovalDecisionV1_action d) raw) device config"
proof -
  obtain request where p: "parse_tool_request_at X raw now = Inr request"
    and i: "tw_request_id (ToolApprovalDecisionV1_assertion d) = tr_request_id request"
    using verify_tool_decision_facts(1) [OF assms] by blast
  from p have "now < tr_expires_at request"
    by (auto simp: parse_tool_request_at_def validate_tool_decision_timing_def result_simps not_le
        split: if_splits)
  with p i verify_tool_decision_facts(2-5) [OF assms] verify_webauthn_for_challenge_sound [OF verify_tool_decision_facts(6) [OF assms]]
  show ?thesis by auto
qed

section \<open>The cross-origin flag\<close>

text \<open>What serde documents of a field with \<open>default\<close> when it reads a struct from a map: the field comes from its key, and an
  absent key gives the default.\<close>

definition cross_origin_read_from_key :: "crates \<Rightarrow> bool" where
  "cross_origin_read_from_key X \<longleftrightarrow>
     (\<forall>key members cd. client_data_from_value X key (JObject members) = Inr cd \<longrightarrow>
        cd_cross_origin cd = (json_get (JObject members) key = Some (JBool True)))"

text \<open>C40: the tool lane does not reject a cross-origin assertion. Browsers write the flag under
  \<open>crossOrigin\<close>; this module reads \<open>cross_origin\<close>, so whenever the client data is a JSON object without
  that key, of the configured origin, type and challenge, it never fails with \<open>BadOrigin\<close>, whatever
  \<open>crossOrigin\<close> says.\<close>

theorem tool_lane_ignores_crossOrigin:
  assumes "cross_origin_read_from_key X"
    and "decode_base64url X cd_text = Inr cdj" "strict_json_value X cdj = Inr (JObject members)"
    and "json_get (JObject members) ''cross_origin'' = None"
    and "tool_client_data X cdj = Inr cd" "cd_origin cd = cf_origin config"
    and "HookConfigV1_validate config = Inr ()" "cd_type cd = ''webauthn.get''"
    and "cd_challenge cd = b64_encode X challenge"
  shows "\<not> cd_cross_origin cd \<and>
    verify_webauthn_for_challenge X ad_text cd_text sig_text challenge device config \<noteq> Inl BadOrigin"
proof -
  have c: "\<not> cd_cross_origin cd"
    using assms(1,3,4,5)
    by (auto simp: cross_origin_read_from_key_def tool_client_data_def result_simps)
  have "decode_base64url X t \<noteq> Inl BadOrigin" for t
    by (auto simp: decode_base64url_def ok_or_def split: option.splits if_splits)
  moreover have "cose_p256_verifying_key X k \<noteq> Inl BadOrigin" for k
    by (rule cose_key_errors) simp
  ultimately show ?thesis using assms c
    by (auto simp: verify_webauthn_for_challenge_def and_then_def ok_or_def
        split: sum.splits option.splits)
qed

section \<open>Sealing for several recipients\<close>

lemma collect_r_nth:
  "collect_r f xs = Inr ys \<Longrightarrow> length ys = length xs \<and> (\<forall>i < length xs. f (xs ! i) = Inr (ys ! i))"
  by (simp add: collect_r_ok_iff list_all2_conv_all_nth)

text \<open>a sealed tool request has one body per recipient, in order and under the recipient's
  fingerprint, and every recipient opens its own body to the one byte string that the
  challenges hash; the envelope repeats the id and times of the request.\<close>

theorem seal_tool_request_opens:
  assumes "b64_roundtrip X" "box_correct X"
    and "seal_tool_request_v1 X request devices = Inr (raw, envelope)"
    and "i < length devices" "devices ! i = (device, secret, nonce)"
    and "length nonce = 12" "length (x25519_public X secret) = 32"
    and "decode_base64url X (dv_box_public_key device) = Inr (x25519_public X box_secret)"
  shows "length (te_sealed envelope) = length devices \<and> to_vec_tool_request X request = Inr raw \<and>
    tb_device_fingerprint (te_sealed envelope ! i) = dv_fingerprint device \<and>
    unseal_tool_body_v1 X (te_sealed envelope ! i) box_secret = Inr raw \<and>
    te_request_id envelope = tr_request_id request \<and> te_issued_at envelope = tr_issued_at request \<and>
    te_expires_at envelope = tr_expires_at request \<and> dv_kind device = Webauthn \<and> dv_active device"
proof -
  from assms(3) obtain sealed where r: "to_vec_tool_request X request = Inr raw"
    and w: "\<forall>p \<in> set devices. dv_kind (fst p) = Webauthn \<and> dv_active (fst p)"
    and c: "collect_r (\<lambda>(device, secret, nonce).
        map_ok (\<lambda>body. \<lparr>tb_device_fingerprint = sb_device_fingerprint body,
            tb_ephemeral_pub = sb_ephemeral_pub body, tb_nonce = sb_nonce body,
            tb_ciphertext = sb_ciphertext body\<rparr>) (seal_v1 X raw device secret nonce)) devices = Inr sealed"
    and e: "te_sealed envelope = sealed" "te_request_id envelope = tr_request_id request"
      "te_issued_at envelope = tr_issued_at request" "te_expires_at envelope = tr_expires_at request"
    by (auto simp: seal_tool_request_v1_def Let_def result_simps list_ex_iff case_prod_beta
        simp del: collect_r_ok_iff split: if_splits)
  from collect_r_nth [OF c] have l: "length sealed = length devices" by simp
  from collect_r_nth [OF c, THEN conjunct2, rule_format, OF assms(4)] assms(5) obtain body where
    s: "seal_v1 X raw device secret nonce = Inr body"
    and b: "sealed ! i = \<lparr>tb_device_fingerprint = sb_device_fingerprint body,
      tb_ephemeral_pub = sb_ephemeral_pub body, tb_nonce = sb_nonce body, tb_ciphertext = sb_ciphertext body\<rparr>"
    by (auto simp: result_simps)
  have "(device, secret, nonce) \<in> set devices" using assms(4,5) by (metis nth_mem)
  with w have "dv_kind device = Webauthn \<and> dv_active device" by fastforce
  with seal_unseal [OF assms(1,2) s assms(6-8)] r e l b show ?thesis
    by (simp add: unseal_tool_body_v1_def unseal_v1_def)
qed

section \<open>A sample tool approval\<close>

text \<open>One JSON object serves as the native event, as the request and as the client data; it carries
  the browser's \<open>crossOrigin\<close> flag.\<close>

definition sample_event :: json_events where
  "sample_event = EMap [(''hook_event_name'', EString ''PermissionRequest''), (''tool_name'', EString ''Bash''),
     (''tool_input'', EBool True), (''cwd'', EString ''w''), (''crossOrigin'', EBool True)]"

definition sample_tool_request :: ToolApprovalRequestV1 where
  "sample_tool_request = \<lparr>tr_message_type = TOOL_REQUEST_TYPE, tr_version = 3, tr_request_id = ''r1'',
     tr_nonce = sample_encode (replicate 16 0), tr_harness = Claude, tr_event = ''PermissionRequest'',
     tr_tool_name = ''Bash'', tr_tool_input = JBool True, tr_cwd = ''w'', tr_native_event_json = ''e'',
     tr_context = \<lparr>tx_session_id = None, tx_turn_id = None, tx_agent_id = None, tx_agent_type = None,
       tx_permission_mode = None\<rparr>,
     tr_description = None, tr_issued_at = 1000, tr_expires_at = 1090\<rparr>"

definition sample_tool_cd :: ClientData where
  "sample_tool_cd = \<lparr>cd_type = ''webauthn.get'',
     cd_challenge = sample_encode (tool_approval_challenge sample ToolApprove [8]),
     cd_origin = ''https://a'', cd_cross_origin = False\<rparr>"

definition sample_tool :: crates where
  "sample_tool = sample\<lparr>json_events_from_slice := \<lambda>_. Inr sample_event,
     from_value_tool_request := \<lambda>_. Inr sample_tool_request,
     to_vec_tool_request := \<lambda>_. Inr [8],
     client_data_from_value := \<lambda>k v. Inr (sample_tool_cd
       \<lparr>cd_cross_origin := (json_get v k = Some (JBool True))\<rparr>)\<rparr>"

lemma sample_tool_core: "core_eq sample_tool sample"
  by (simp add: core_eq_def sample_tool_def)

lemma sample_tool_simps [simp]:
  "json_events_from_slice sample_tool bs = Inr sample_event"
  "from_value_tool_request sample_tool v = Inr sample_tool_request"
  "to_vec_tool_request sample_tool r = Inr [8]"
  "client_data_from_value sample_tool k v =
     Inr (sample_tool_cd\<lparr>cd_cross_origin := (json_get v k = Some (JBool True))\<rparr>)"
  "b64_encode sample_tool = sample_encode" "sha256 sample_tool = sample_digest"
  "sig_from_der sample_tool = (\<lambda>bs. Some (Signature bs))"
  "ecdsa_verify sample_tool = (\<lambda>key m sig. sig = Signature m)"
  "to_vec_tool_envelope sample_tool = (\<lambda>e. Inr [1])"
  by (simp_all add: sample_tool_def)

lemmas sample_tool_lift [simp] =
  core_eq_lift [OF sample_tool_core] core_eq_validate [OF sample_tool_core]

definition sample_members :: "(string \<times> json) list" where
  "sample_members = [(''crossOrigin'', JBool True), (''cwd'', JString ''w''),
     (''hook_event_name'', JString ''PermissionRequest''), (''tool_input'', JBool True),
     (''tool_name'', JString ''Bash'')]"

abbreviation sample_object :: json where "sample_object \<equiv> JObject sample_members"

lemma sample_strict: "strict_json_value sample_tool bs = Inr sample_object"
  by (simp add: strict_json_value_def sample_event_def sample_members_def)

theorem strict_json_value_no_duplicates_witness:
  "events_distinct sample_event \<and> json_get sample_object ''tool_input'' = Some (JBool True)"
  using strict_json_value_no_duplicates [OF sample_strict [of "[8]"]] by (auto simp: sample_event_def)

lemma sample_tool_parses: "parse_tool_request_at sample_tool [8] 1010 = Inr sample_tool_request"
proof -
  have "ToolApprovalRequestV1_validate sample_tool sample_tool_request = Inr ()"
    by (simp add: ToolApprovalRequestV1_validate_def sample_strict)
      (simp add: sample_tool_request_def TOOL_WIRE_VERSION_def MAX_TOOL_NAME_BYTES_def
        MAX_CONTEXT_BYTES_def MAX_REQUEST_BYTES_def ToolContextV1_validate_def sample_members_def
        native_event_matches_def json_as_str_def json_get_def context_matches_def)
  moreover have "validate_tool_decision_timing 1000 1090 1010 = Inr ()"
    by (simp add: validate_tool_decision_timing_def wire_limits saturating_add_def saturate_i64_def
        checked_sub_def in_i64_def i64_min_def i64_max_def)
  ultimately show ?thesis
    by (simp add: parse_tool_request_at_def MAX_REQUEST_BYTES_def sample_strict)
      (simp add: sample_tool_request_def)
qed

definition sample_tool_decision :: ToolApprovalDecisionV1 where
  "sample_tool_decision = ToolDecisionApprove \<lparr>tw_version = 3, tw_request_id = ''r1'',
     tw_device_fingerprint = dv_fingerprint sample_webauthn,
     tw_credential_id = dv_credential_id sample_webauthn,
     tw_authenticator_data = sample_encode sample_auth_data,
     tw_client_data_json = sample_encode [3],
     tw_signature = sample_encode (sample_auth_data @ sample_digest [3])\<rparr>"

lemma sample_tool_challenge:
  "tool_approval_challenge sample_tool a raw = tool_approval_challenge sample a raw"
  by (simp add: tool_approval_challenge_def)

lemma sample_tool_client_data: "tool_client_data sample_tool bs = Inr sample_tool_cd"
  by (simp add: tool_client_data_def sample_strict)
    (simp add: sample_members_def json_get_def sample_tool_cd_def)

lemma sample_tool_verifies:
  "verify_tool_decision_v1 sample_tool sample_tool_decision [8] sample_webauthn sample_config 1010
   = Inr (counter_outcome (u32_be (take 4 (drop 33 sample_auth_data))) 4)"
proof -
  have w: "verify_webauthn_for_challenge sample_tool (sample_encode sample_auth_data) (sample_encode [3])
      (sample_encode (sample_auth_data @ sample_digest [3]))
      (tool_approval_challenge sample_tool ToolApprove [8]) sample_webauthn sample_config
    = Inr (counter_outcome (u32_be (take 4 (drop 33 sample_auth_data))) 4)"
    unfolding verify_webauthn_for_challenge_def
    by (simp add: sample_config_valid sample_tool_client_data sample_tool_challenge)
      (simp add: sample_tool_cd_def sample_config_def length_sample_auth_data
        sample_auth_data_parts sample_webauthn_def sample_cose_key)
  show ?thesis
    unfolding verify_tool_decision_v1_def sample_tool_parses
    by (simp add: sample_tool_decision_def Let_def w sample_webauthn_valid)
      (simp add: ToolApprovalWebauthnV1_validate_shape_def
        sample_tool_request_def sample_webauthn_def length_sample_auth_data TOOL_WIRE_VERSION_def)
qed

theorem verify_tool_decision_v1_sound_witness:
  "assertion_proves sample_tool (tool_client_data sample_tool) (sample_encode sample_auth_data)
     (sample_encode [3]) (sample_encode (sample_auth_data @ sample_digest [3]))
     (tool_approval_challenge sample_tool ToolApprove [8]) sample_webauthn sample_config"
  using verify_tool_decision_v1_sound [OF sample_tool_verifies] by (simp add: sample_tool_decision_def)

text \<open>The object of the sample says \<open>crossOrigin: true\<close>, and the decision above verifies.\<close>

theorem tool_lane_ignores_crossOrigin_witness:
  "json_get sample_object ''crossOrigin'' = Some (JBool True) \<and>
   verify_webauthn_for_challenge sample_tool (sample_encode sample_auth_data) (sample_encode [3])
     (sample_encode (sample_auth_data @ sample_digest [3]))
     (tool_approval_challenge sample_tool ToolApprove [8]) sample_webauthn sample_config \<noteq> Inl BadOrigin"
  using tool_lane_ignores_crossOrigin [of sample_tool "sample_encode [3]" "[3]" sample_members
      sample_tool_cd sample_config "tool_approval_challenge sample_tool ToolApprove [8]"
      "sample_encode sample_auth_data" "sample_encode (sample_auth_data @ sample_digest [3])" sample_webauthn]
  by (simp add: cross_origin_read_from_key_def sample_strict sample_tool_client_data sample_config_valid
      sample_tool_challenge)
    (simp add: sample_members_def json_get_def sample_tool_cd_def sample_config_def)

lemma sample_tool_laws: "b64_roundtrip sample_tool" "box_correct sample_tool"
  using sample_b64 sample_box by (simp_all add: b64_roundtrip_def box_correct_def sample_tool_def)

definition sample_tool_body :: ToolSealedBodyV1 where
  "sample_tool_body = \<lparr>tb_device_fingerprint = dv_fingerprint sample_webauthn,
     tb_ephemeral_pub = sample_encode (replicate 32 2), tb_nonce = sample_encode (replicate 12 0),
     tb_ciphertext = sample_encode (8 # replicate 16 0)\<rparr>"

lemma sample_tool_seals:
  "seal_tool_request_v1 sample_tool sample_tool_request
     [(sample_webauthn, StaticSecret (replicate 32 2), replicate 12 0)] =
   Inr ([8], \<lparr>te_message_type = TOOL_ENVELOPE_TYPE, te_version = TOOL_WIRE_VERSION, te_request_id = ''r1'',
     te_issued_at = 1000, te_expires_at = 1090, te_sealed = [sample_tool_body]\<rparr>)"
proof -
  have v: "ToolApprovalRequestV1_validate sample_tool sample_tool_request = Inr ()"
    using sample_tool_parses by (auto simp: parse_tool_request_at_def result_simps split: if_splits)
  have nz: "\<not> all_zero (sample_dh (StaticSecret (replicate 32 2)) (sample_public sample_box_secret))"
    by (simp add: sample_dh_def sample_box_secret_def all_zero_def list_all_iff)
  have b: "seal_v1_with_material sample_tool [8] sample_webauthn (StaticSecret (replicate 32 2)) (replicate 12 0)
    = Inr \<lparr>sb_device_fingerprint = dv_fingerprint sample_webauthn,
     sb_ephemeral_pub = sample_encode (replicate 32 2), sb_nonce = sample_encode (replicate 12 0),
     sb_ciphertext = sample_encode (8 # replicate 16 0)\<rparr>"
    using nz by (simp add: seal_v1_with_material_def sample_webauthn_def Let_def encode_base64url_def
        sample_tool_def [THEN arg_cong, of x25519_public] sample_tool_def [THEN arg_cong, of x25519_diffie_hellman]
        sample_tool_def [THEN arg_cong, of aead_encrypt])
  have s: "seal_v1 sample_tool [8] sample_webauthn (StaticSecret (replicate 32 2)) (replicate 12 0)
    = Inr \<lparr>sb_device_fingerprint = dv_fingerprint sample_webauthn,
     sb_ephemeral_pub = sample_encode (replicate 32 2), sb_nonce = sample_encode (replicate 12 0),
     sb_ciphertext = sample_encode (8 # replicate 16 0)\<rparr>"
    by (simp add: seal_v1_def MAX_REQUEST_BYTES_def sample_webauthn_valid b)
  have d: "dv_kind sample_webauthn = Webauthn" "dv_active sample_webauthn"
    by (simp_all add: sample_webauthn_def)
  show ?thesis
    unfolding seal_tool_request_v1_def v
    by (simp add: MAX_DEVICES_def MAX_REQUEST_BYTES_def MAX_ENVELOPE_BYTES_def s d Let_def)
      (simp add: sample_tool_request_def sample_tool_body_def)
qed

theorem seal_tool_request_opens_witness:
  "unseal_tool_body_v1 sample_tool sample_tool_body sample_box_secret = Inr [8]"
  using seal_tool_request_opens [OF sample_tool_laws sample_tool_seals, of 0, OF _ _ _ _,
      of sample_webauthn "StaticSecret (replicate 32 2)" "replicate 12 0" sample_box_secret]
  by (simp add: sample_tool_def [THEN arg_cong, of x25519_public])
    (simp add: sample_webauthn_def)

end
