(* ===== verification/Transport_Nats.thy ===== *)
theory Transport_Nats
  imports Socket_V1 Nats_Policy Tool_V1 "HOL-Library.Multiset" "HOL-Library.List_Lexorder" "HOL-Library.Char_ord"
begin

text \<open>
  The NATS transport (\<open>transport/src/lib.rs\<close>, \<open>transport/src/nats.rs\<close>): recognizing receipts
  and decisions, subject coverage and the repair of the durable stream and consumer, the
  connection options, and the request/verdict round trip of the two hook lanes and of the tool
  lane. The network is an argument: how long the setup took, which messages arrive when
  (milliseconds since the start of the call), when a subscription closes. Messages are read in
  the order of the list; a message that is already there is read even when the deadline has
  passed, since the timer is polled after the subscription.
\<close>

datatype HookProgress =
    TransportFailed string
  | DaemonNotResponding string
  | RequestDelivered
  | WaitingForApproval
  | ProtocolFailed string

datatype HookTransportFailure =
    Transport string
  | Daemon string
  | Expired string
  | Protocol string

definition DAEMON_ACK_TIMEOUT :: nat where "DAEMON_ACK_TIMEOUT = 3000"

section \<open>Recognizing messages\<close>

datatype ReceiptPosition = AlivePosition | DeliveryPosition

definition receipt_matches :: "crates \<Rightarrow> bytes \<Rightarrow> string \<Rightarrow> ReceiptPosition \<Rightarrow> bool" where
  "receipt_matches X bs request_id position =
     (case (decode_control_message X bs, position) of
        (Inr (Message (ControlAlive alive)), AlivePosition) \<Rightarrow> is_ok (AliveV1_validate alive request_id)
      | (Inr (Message (ControlDelivery delivery)), DeliveryPosition) \<Rightarrow>
          is_ok (DeliveryV1_validate delivery request_id)
      | _ \<Rightarrow> False)"

fun DecisionV1_request_id :: "DecisionV1 \<Rightarrow> string" where
  "DecisionV1_request_id (Approve a) = ap_request_id a"
| "DecisionV1_request_id (ApproveNative a) = an_request_id a"
| "DecisionV1_request_id (Deny d) = dn_request_id d"

fun AuthDecisionV1_request_id :: "AuthDecisionV1 \<Rightarrow> string" where
  "AuthDecisionV1_request_id (AuthenticateNative a) = aan_request_id a"
| "AuthDecisionV1_request_id (AuthenticateWebauthn a) = aaw_request_id a"

definition command_decision_for :: "crates \<Rightarrow> bytes \<Rightarrow> string \<Rightarrow> DecisionV1 option" where
  "command_decision_for X bs request_id =
     (case decode_control_message X bs of
        Inr (Message (ControlDecision decision)) \<Rightarrow>
          if DecisionV1_request_id decision = request_id then Some decision else None
      | _ \<Rightarrow> None)"

definition auth_decision_for :: "crates \<Rightarrow> bytes \<Rightarrow> string \<Rightarrow> AuthDecisionV1 option" where
  "auth_decision_for X bs request_id =
     (case decode_control_message X bs of
        Inr (Message (ControlAuthDecision decision)) \<Rightarrow>
          if AuthDecisionV1_request_id decision = request_id then Some decision else None
      | _ \<Rightarrow> None)"

section \<open>Subjects\<close>

definition TOOL_APPROVAL_SUBJECT :: string where "TOOL_APPROVAL_SUBJECT = ''oshioki.tool.request''"

definition REQUEST_CONSUMER_FILTERS :: "string list" where
  "REQUEST_CONSUMER_FILTERS = [''oshioki.request.>'', ''oshioki.auth.>'', TOOL_APPROVAL_SUBJECT]"

fun split_dots :: "string \<Rightarrow> string list" where
  "split_dots [] = [[]]"
| "split_dots (c # s) =
     (if c = CHR ''.'' then [] # split_dots s else (c # hd (split_dots s)) # tl (split_dots s))"

definition split_subject :: "string \<Rightarrow> string list" where
  "split_subject subject = (if subject = [] then [] else split_dots subject)"

fun token_covers :: "string list \<Rightarrow> string list \<Rightarrow> bool" where
  "token_covers [] required = (required = [])"
| "token_covers (have # rest_have) [] = False"
| "token_covers (have # rest_have) (need # rest_need) =
     (if have = ''>'' then True
      else if have = ''*'' then need \<noteq> ''>'' \<and> token_covers rest_have rest_need
      else if need = ''*'' \<or> need = ''>'' then False
      else have = need \<and> token_covers rest_have rest_need)"

definition subject_covers :: "string \<Rightarrow> string \<Rightarrow> bool" where
  "subject_covers existing required = token_covers (split_subject existing) (split_subject required)"

definition subjects_cover :: "string list \<Rightarrow> string list \<Rightarrow> bool" where
  "subjects_cover existing required =
     list_all (\<lambda>need. list_ex (\<lambda>have. subject_covers have need) existing) required"

definition merge_subjects :: "string list \<Rightarrow> string list \<Rightarrow> string list" where
  "merge_subjects existing required =
     foldl (\<lambda>subjects need. if \<not> list_ex (\<lambda>have. subject_covers have need) subjects
              then subjects @ [need] else subjects) existing required"

definition consumer_filter_list :: "string \<Rightarrow> string list \<Rightarrow> string list" where
  "consumer_filter_list filter_subject filter_subjects =
     (if filter_subjects \<noteq> [] then filter_subjects
      else if filter_subject \<noteq> [] then [filter_subject] else [])"

definition filters_match :: "string list \<Rightarrow> string list \<Rightarrow> bool" where
  "filters_match active required \<longleftrightarrow> sort active = sort required"

section \<open>Repairing the stream and the consumer\<close>

text \<open>\<open>update\<close> is what the broker answers to the widened subject list: an error, or the subjects of
  the stream when it is opened again.\<close>

definition ensure_request_stream ::
  "string + string list \<Rightarrow> (string list \<Rightarrow> string + string list) \<Rightarrow> string + string list" where
  "ensure_request_stream get_stream update =
     and_then get_stream (\<lambda>current.
     if subjects_cover current REQUEST_CONSUMER_FILTERS then Inr current
     else and_then (update (merge_subjects current REQUEST_CONSUMER_FILTERS)) (\<lambda>reopened.
       if \<not> subjects_cover reopened REQUEST_CONSUMER_FILTERS
       then Inl ''OSHIOKI stream subjects still missing the authentication lane after update''
       else Inr reopened))"

definition CONSUMER_DRAIN_TIMEOUT :: nat where "CONSUMER_DRAIN_TIMEOUT = 5000"

text \<open>\<open>info t\<close> is the answer of the broker at time \<open>t\<close>: pending and unacknowledged messages.\<close>

function drain_consumer :: "(nat \<Rightarrow> string + nat \<times> nat) \<Rightarrow> nat \<Rightarrow> nat \<Rightarrow> string + nat \<times> nat" where
  "drain_consumer info deadline now =
     and_then (info now) (\<lambda>(pending, ack_pending).
       if pending = 0 \<and> ack_pending = 0 then Inr (0, 0)
       else if now \<ge> deadline then Inr (pending, ack_pending)
       else drain_consumer info deadline (now + 50))"
  by pat_completeness auto
termination by (relation "measure (\<lambda>(_, deadline, now). deadline - now)") auto

declare drain_consumer.simps [simp del]

record consumer_config =
  cc_filter_subject :: string
  cc_filter_subjects :: "string list"

definition active_filters :: "consumer_config \<Rightarrow> string list" where
  "active_filters c = consumer_filter_list (cc_filter_subject c) (cc_filter_subjects c)"

definition pull_consumer_config :: consumer_config where
  "pull_consumer_config = \<lparr>cc_filter_subject = [], cc_filter_subjects = REQUEST_CONSUMER_FILTERS\<rparr>"

definition ensure_request_consumer ::
  "string + consumer_config \<Rightarrow> (nat \<Rightarrow> string + nat \<times> nat) \<Rightarrow> nat \<Rightarrow> string + unit
    \<Rightarrow> (consumer_config \<Rightarrow> string + consumer_config) \<Rightarrow> string + consumer_config" where
  "ensure_request_consumer get_or_create info now delete create =
     and_then get_or_create (\<lambda>consumer.
     if filters_match (active_filters consumer) REQUEST_CONSUMER_FILTERS then Inr consumer
     else and_then (drain_consumer info (now + CONSUMER_DRAIN_TIMEOUT) now) (\<lambda>_.
     and_then delete (\<lambda>_.
     and_then (create pull_consumer_config) (\<lambda>recreated.
     if \<not> filters_match (active_filters recreated) REQUEST_CONSUMER_FILTERS
     then Inl ''durable consumer filters differ after recreate'' else Inr recreated))))"

section \<open>Connection options\<close>

fun str_lines :: "string \<Rightarrow> string list" where
  "str_lines [] = []"
| "str_lines (c # s) =
     (if c = CHR 0x0A then [] # str_lines s
      else case str_lines s of [] \<Rightarrow> [[c]] | l # ls \<Rightarrow> (c # l) # ls)"

definition strip_cr :: "string \<Rightarrow> string" where
  "strip_cr l = (if l \<noteq> [] \<and> last l = CHR 0x0D then butlast l else l)"

definition read_env_lines :: "string \<Rightarrow> (string \<times> string) list" where
  "read_env_lines content =
     List.map_filter (split_once ''='')
       (filter (\<lambda>line. line \<noteq> [] \<and> \<not> starts_with ''#'' line)
         (map (trim_str \<circ> strip_cr) (str_lines content)))"

text \<open>A later line of the same key replaces an earlier one.\<close>

definition read_env_file :: "string \<Rightarrow> string \<Rightarrow> string option" where
  "read_env_file content = map_of (rev (read_env_lines content))"

record connect_options =
  co_url :: string
  co_credentials :: "(string \<times> string) option"
  co_require_tls :: bool

definition ALLOW_PLAINTEXT_NATS_ENV :: string where
  "ALLOW_PLAINTEXT_NATS_ENV = ''OSHIOKI_ALLOW_PLAINTEXT_NATS''"

definition non_empty :: "string option \<Rightarrow> string option" where
  "non_empty v = (case v of Some s \<Rightarrow> if s = [] then None else Some s | None \<Rightarrow> None)"

text \<open>\<open>from_config_dir\<close> reads \<open>config.env\<close>, \<open>from_env\<close> the process environment; both then build the
  same options.\<close>

definition connect_options_from :: "(string \<Rightarrow> string option) \<Rightarrow> string + connect_options" where
  "connect_options_from env =
     and_then (ok_or (env ''NATS_URL'') ''NATS_URL not set'') (\<lambda>url.
     and_then (map_err (\<lambda>_. ''invalid NATS_URL'')
        (check_nats_url url (allow_plaintext_nats (env ALLOW_PLAINTEXT_NATS_ENV)))) (\<lambda>_.
     case (non_empty (env ''NATS_USER''), non_empty (env ''NATS_PASS'')) of
       (Some user, Some pass) \<Rightarrow> Inr \<lparr>co_url = url, co_credentials = Some (user, pass),
         co_require_tls = nats_url_is_tls url\<rparr>
     | (None, None) \<Rightarrow> Inr \<lparr>co_url = url, co_credentials = None, co_require_tls = nats_url_is_tls url\<rparr>
     | _ \<Rightarrow> Inl ''set NATS_USER and NATS_PASS together or neither''))"

definition from_config_dir :: "string + string \<Rightarrow> string + connect_options" where
  "from_config_dir config_env = and_then config_env (\<lambda>content. connect_options_from (read_env_file content))"

definition from_env :: "(string \<Rightarrow> string option) \<Rightarrow> string + connect_options" where
  "from_env env = connect_options_from env"

section \<open>The round trip of the hook lanes\<close>

text \<open>How setting up the subscriptions and publishing ended: at a time within the bound, with an error
  (and the transport failure in its chain, if any), or not in time.\<close>

datatype setup_outcome =
    SetupDone nat
  | SetupFailed "HookTransportFailure option" string
  | SetupTimeout

datatype receipt_event =
    Acknowledgement bytes
  | DeliveryReceipt bytes
  | AcknowledgementsClosed
  | DeliveriesClosed

datatype receipt_wait =
    GotReceipt ReceiptPosition nat "(nat \<times> receipt_event) list"
  | ReceiptClosed string
  | ReceiptTimeout

text \<open>Without a browser recipient there is no subscription to deliveries, so their events are not seen.\<close>

fun wait_receipt ::
  "crates \<Rightarrow> string \<Rightarrow> bool \<Rightarrow> nat \<Rightarrow> nat \<Rightarrow> (nat \<times> receipt_event) list \<Rightarrow> receipt_wait" where
  "wait_receipt X request_id browser deadline now [] = ReceiptTimeout"
| "wait_receipt X request_id browser deadline now ((t, ev) # evs) =
     (if t > max now deadline then ReceiptTimeout
      else case ev of
        Acknowledgement bs \<Rightarrow>
          if receipt_matches X bs request_id AlivePosition then GotReceipt AlivePosition (max now t) evs
          else wait_receipt X request_id browser deadline (max now t) evs
      | DeliveryReceipt bs \<Rightarrow>
          if browser \<and> receipt_matches X bs request_id DeliveryPosition
          then GotReceipt DeliveryPosition (max now t) evs
          else wait_receipt X request_id browser deadline (max now t) evs
      | AcknowledgementsClosed \<Rightarrow> ReceiptClosed ''daemon acknowledgement stream closed''
      | DeliveriesClosed \<Rightarrow>
          if browser then ReceiptClosed ''server delivery receipt stream closed''
          else wait_receipt X request_id browser deadline (max now t) evs)"

record VerdictWait =
  vw_messages :: "(nat \<times> bytes option) list"
  vw_request_id :: string
  vw_deadline :: nat
  vw_finished :: bool

datatype 'a verdict_read = VerdictRead 'a nat "(nat \<times> bytes option) list" | VerdictsClosed | VerdictTimeout

fun read_verdict :: "(bytes \<Rightarrow> string \<Rightarrow> 'a option) \<Rightarrow> string \<Rightarrow> nat \<Rightarrow> nat \<Rightarrow> (nat \<times> bytes option) list
    \<Rightarrow> 'a verdict_read" where
  "read_verdict accept request_id deadline now [] = VerdictTimeout"
| "read_verdict accept request_id deadline now ((t, m) # ms) =
     (if t > max now deadline then VerdictTimeout
      else case m of
        None \<Rightarrow> VerdictsClosed
      | Some payload \<Rightarrow> (case accept payload request_id of
          Some decision \<Rightarrow> VerdictRead decision (max now t) ms
        | None \<Rightarrow> read_verdict accept request_id deadline (max now t) ms))"

definition next_verdict ::
  "(bytes \<Rightarrow> string \<Rightarrow> 'a option) \<Rightarrow> nat \<Rightarrow> VerdictWait \<Rightarrow> ((HookTransportFailure + 'a) \<times> nat \<times> VerdictWait) option"
where
  "next_verdict accept now wait =
     (if vw_finished wait then None
      else case read_verdict accept (vw_request_id wait) (vw_deadline wait) now (vw_messages wait) of
        VerdictsClosed \<Rightarrow> Some (Inl (Daemon ''decision stream closed''), now, wait\<lparr>vw_finished := True\<rparr>)
      | VerdictTimeout \<Rightarrow>
          Some (Inl (Expired ''sudo decision deadline exceeded while waiting for decision''),
            max now (vw_deadline wait), wait\<lparr>vw_finished := True\<rparr>)
      | VerdictRead decision now' ms \<Rightarrow> Some (Inr decision, now', wait\<lparr>vw_messages := ms\<rparr>))"

definition request_verdicts ::
  "crates \<Rightarrow> string \<Rightarrow> nat \<Rightarrow> bool \<Rightarrow> setup_outcome \<Rightarrow> (nat \<times> receipt_event) list
    \<Rightarrow> (nat \<times> bytes option) list \<Rightarrow> HookProgress list \<times> (HookTransportFailure + nat \<times> VerdictWait)" where
  "request_verdicts X request_id timeout browser setup receipts verdicts =
     (case setup of
        SetupFailed typed detail \<Rightarrow>
          ([case typed of Some (Daemon _) \<Rightarrow> DaemonNotResponding detail | _ \<Rightarrow> TransportFailed detail],
           Inl (case typed of
              Some (Transport d) \<Rightarrow> Transport d | Some (Daemon d) \<Rightarrow> Daemon d | _ \<Rightarrow> Transport detail))
      | SetupTimeout \<Rightarrow>
          ([TransportFailed ''sudo transport deadline exceeded''], Inl (Transport ''sudo transport deadline exceeded''))
      | SetupDone elapsed \<Rightarrow>
     let receipt_wait = min (timeout - elapsed) DAEMON_ACK_TIMEOUT in
     if receipt_wait = 0 then
       ([DaemonNotResponding ''sudo decision deadline exceeded''], Inl (Daemon ''sudo decision deadline exceeded''))
     else
     let verdict_wait = (\<lambda>progress now.
           if timeout \<le> now then (progress, Inl (Expired ''sudo decision deadline exceeded''))
           else (progress, Inr (now, \<lparr>vw_messages = verdicts, vw_request_id = request_id,
                  vw_deadline = timeout, vw_finished = False\<rparr>)))
     in case wait_receipt X request_id browser (elapsed + receipt_wait) elapsed receipts of
       ReceiptClosed detail \<Rightarrow> ([DaemonNotResponding detail], Inl (Daemon detail))
     | ReceiptTimeout \<Rightarrow>
         ([DaemonNotResponding ''receipt timeout''], Inl (Daemon ''receipt timeout''))
     | GotReceipt AlivePosition now _ \<Rightarrow> verdict_wait [WaitingForApproval] now
     | GotReceipt DeliveryPosition now rest \<Rightarrow>
         if timeout - now = 0 then ([RequestDelivered], Inl (Expired ''sudo decision deadline exceeded''))
         else (case wait_receipt X request_id False timeout now rest of
             GotReceipt _ now' _ \<Rightarrow> verdict_wait [RequestDelivered, WaitingForApproval] now'
           | ReceiptClosed detail \<Rightarrow> ([RequestDelivered], Inl (Expired detail))
           | ReceiptTimeout \<Rightarrow> ([RequestDelivered], Inl (Expired ''sudo decision deadline exceeded''))))"

text \<open>The items a consumer that takes no time of its own reads off the stream.\<close>

function decision_items :: "(bytes \<Rightarrow> string \<Rightarrow> 'a option) \<Rightarrow> nat \<Rightarrow> VerdictWait \<Rightarrow> (HookTransportFailure + 'a) list"
where
  "decision_items accept now wait =
     (case next_verdict accept now wait of
        None \<Rightarrow> []
      | Some (item, now', wait') \<Rightarrow> item # decision_items accept now' wait')"
  by pat_completeness auto
termination
proof (relation "measure (\<lambda>(accept, now, wait). if vw_finished wait then 0 else Suc (length (vw_messages wait)))")
  fix accept :: "bytes \<Rightarrow> string \<Rightarrow> 'a option" and now wait and x :: "(HookTransportFailure + 'a) \<times> nat \<times> VerdictWait"
    and item r now' wait'
  have shorter: "length ms' < length ms" if "read_verdict accept i d n ms = VerdictRead x n' ms'" for i d n ms x n' ms'
    using that by (induction accept i d n ms rule: read_verdict.induct) (auto split: if_splits option.splits)
  assume "next_verdict accept now wait = Some x" "(item, r) = x" "(now', wait') = r"
  then show "((accept, now', wait'), accept, now, wait) \<in> measure (\<lambda>(accept, now, wait).
      if vw_finished wait then 0 else Suc (length (vw_messages wait)))"
    by (auto simp: next_verdict_def dest: shorter split: if_splits verdict_read.splits)
qed simp

declare decision_items.simps [simp del]

section \<open>The round trip of the tool lane\<close>

text \<open>The first message of each of the three reply subjects, with its arrival time: \<open>None\<close> if the
  subscription closes instead. Each wait starts when the one before it has ended; one deadline
  bounds them all.\<close>

definition first_message :: "nat \<Rightarrow> nat \<Rightarrow> (nat \<times> bytes option) option \<Rightarrow> string \<Rightarrow> (string + bytes \<times> nat) option" where
  "first_message timeout now m closed = (case m of
     None \<Rightarrow> None
   | Some (t, r) \<Rightarrow> if t > max now timeout then None
       else Some (case r of None \<Rightarrow> Inl closed | Some bs \<Rightarrow> Inr (bs, max now t)))"

definition tool_step :: "(string + 'a) option \<Rightarrow> HookProgress list \<Rightarrow>
    ('a \<Rightarrow> HookProgress list \<times> (HookTransportFailure + 'b)) \<Rightarrow> HookProgress list \<times> (HookTransportFailure + 'b)" where
  "tool_step r progress k = (case r of
     None \<Rightarrow> (progress @ [DaemonNotResponding ''tool approval deadline exceeded''],
       Inl (Expired ''tool approval deadline exceeded''))
   | Some (Inl detail) \<Rightarrow> (progress @ [ProtocolFailed detail], Inl (Protocol detail))
   | Some (Inr x) \<Rightarrow> k x)"

definition request_tool_approval ::
  "crates \<Rightarrow> string \<Rightarrow> nat \<Rightarrow> (string + nat) option \<Rightarrow> (nat \<times> bytes option) option \<Rightarrow> (nat \<times> bytes option) option
    \<Rightarrow> (nat \<times> bytes option) option \<Rightarrow> HookProgress list \<times> (HookTransportFailure + ToolApprovalDecisionV1)" where
  "request_tool_approval X request_id timeout published delivery acknowledgement verdict =
     tool_step published [] (\<lambda>now.
     tool_step (first_message timeout now delivery ''tool approval delivery stream closed'') [] (\<lambda>(bs, now).
     tool_step (Some (and_then (map_err (\<lambda>_. ''decode tool approval delivery'') (tool_delivery_from_slice X bs)) (\<lambda>d.
        map_err (\<lambda>_. ''tool approval delivery did not match request'') (ToolDeliveryV1_validate d request_id)))) [] (\<lambda>_.
     tool_step (first_message timeout now acknowledgement ''tool browser acknowledgement stream closed'')
        [RequestDelivered] (\<lambda>(bs, now).
     tool_step (Some (and_then (map_err (\<lambda>_. ''decode tool browser acknowledgement'') (tool_ack_from_slice X bs)) (\<lambda>a.
        map_err (\<lambda>_. ''tool browser acknowledgement did not match request'')
          (ToolAcknowledgementV1_validate a request_id)))) [RequestDelivered] (\<lambda>_.
     tool_step (first_message timeout now verdict ''tool decision stream closed'')
        [RequestDelivered, WaitingForApproval] (\<lambda>(bs, now).
     tool_step (Some (and_then (map_err (\<lambda>_. ''decode tool approval decision'') (tool_decision_from_slice X bs)) (\<lambda>d.
        if tw_request_id (ToolApprovalDecisionV1_assertion d) \<noteq> request_id
        then Inl ''tool approval decision did not match request''
        else map_ok (\<lambda>_. d) (map_err (\<lambda>_. ''validate tool approval decision'')
          (ToolApprovalWebauthnV1_validate_shape X (ToolApprovalDecisionV1_assertion d))))))
        [RequestDelivered, WaitingForApproval] (\<lambda>d.
     ([RequestDelivered, WaitingForApproval], Inr d))))))))"

section \<open>Subject coverage\<close>

text \<open>How NATS matches a pattern against the tokens of a published subject.\<close>

fun subject_matches :: "string list \<Rightarrow> string list \<Rightarrow> bool" where
  "subject_matches [] ss = (ss = [])"
| "subject_matches (p # ps) [] = False"
| "subject_matches (p # ps) (s # ss) =
     (if p = ''>'' then True else if p = ''*'' then subject_matches ps ss else p = s \<and> subject_matches ps ss)"

definition literal_subject :: "string list \<Rightarrow> bool" where
  "literal_subject ss \<longleftrightarrow> ''*'' \<notin> set ss \<and> ''>'' \<notin> set ss"

definition pattern_ok :: "string list \<Rightarrow> bool" where
  "pattern_ok ps \<longleftrightarrow> ''>'' \<notin> set (butlast ps)"

lemma token_covers_sound:
  "token_covers e r \<Longrightarrow> subject_matches r ss \<Longrightarrow> subject_matches e ss"
proof (induction e r arbitrary: ss rule: token_covers.induct)
  case (3 h rest_have need rest_need)
  then show ?case by (cases ss) (auto split: if_splits)
qed auto

text \<open>Instances of a pattern with a token \<open>t\<close> for \<open>*\<close> and one or two of them for \<open>>\<close>.\<close>

fun instance_of :: "string \<Rightarrow> nat \<Rightarrow> string list \<Rightarrow> string list" where
  "instance_of t n [] = []"
| "instance_of t n (p # ps) =
     (if p = ''>'' then replicate n t else (if p = ''*'' then t else p) # instance_of t n ps)"

lemma instance_matches:
  "0 < n \<Longrightarrow> pattern_ok r \<Longrightarrow> subject_matches r (instance_of t n r)"
  by (induction r) (auto simp: pattern_ok_def gr0_conv_Suc split: if_splits)

lemma instance_literal:
  "t \<noteq> ''*'' \<Longrightarrow> t \<noteq> ''>'' \<Longrightarrow> literal_subject (instance_of t n r)"
  by (induction r) (auto simp: literal_subject_def)

lemma token_covers_complete:
  assumes "pattern_ok r" "t \<notin> set e" "t \<noteq> ''*''" "t \<noteq> ''>''"
    and "subject_matches e (instance_of t 1 r)" "subject_matches e (instance_of t 2 r)"
  shows "token_covers e r"
  using assms
proof (induction e r rule: token_covers.induct)
  case (1 required)
  then show ?case by (cases required) (auto split: if_splits)
next
  case (3 h rest_have need rest_need)
  have ok: "pattern_ok rest_need" "need = ''>'' \<Longrightarrow> rest_need = []"
    using "3.prems"(1) by (auto simp: pattern_ok_def split: if_splits)
  consider "h = ''>''" | "h \<noteq> ''>''" "need = ''>''" | "h \<noteq> ''>''" "need \<noteq> ''>''" by blast
  then show ?case
  proof cases
    case 1
    then show ?thesis by simp
  next
    case 2
    with ok(2) "3.prems"(2-6) show ?thesis
      by (cases rest_have) (simp_all add: numeral_2_eq_2 split: if_splits)
  next
    case 3
    have h: "h = ''*'' \<or> h = need \<and> need \<noteq> ''*''"
      and m: "subject_matches rest_have (instance_of t 1 rest_need)" "subject_matches rest_have (instance_of t 2 rest_need)"
      using 3 "3.prems"(2-6) by (simp_all split: if_splits)
    have "token_covers rest_have rest_need"
      using h
    proof
      assume "h = ''*''"
      with 3 ok(1) m "3.prems"(2-4) show ?thesis by (intro "3.IH"(1)) simp_all
    next
      assume "h = need \<and> need \<noteq> ''*''"
      with 3 ok(1) m "3.prems"(2-4) show ?thesis by (intro "3.IH"(2)) simp_all
    qed
    with h 3 show ?thesis by auto
  qed
qed simp

text \<open>subject coverage is exact. One pattern covers another, for patterns with \<open>>\<close> only at the end,
  if and only if every publishable subject the second matches is matched by the first: the server
  neither widens a stream that already captures both lanes nor leaves a lane uncaptured.\<close>

theorem subject_covers_exact:
  assumes "pattern_ok (split_subject existing)" "pattern_ok (split_subject required)"
  shows "subject_covers existing required \<longleftrightarrow>
    (\<forall>subject. literal_subject subject \<longrightarrow> subject_matches (split_subject required) subject
       \<longrightarrow> subject_matches (split_subject existing) subject)"
proof
  assume "subject_covers existing required"
  then show "\<forall>subject. literal_subject subject \<longrightarrow> subject_matches (split_subject required) subject
       \<longrightarrow> subject_matches (split_subject existing) subject"
    using token_covers_sound by (auto simp: subject_covers_def)
next
  assume all: "\<forall>subject. literal_subject subject \<longrightarrow> subject_matches (split_subject required) subject
       \<longrightarrow> subject_matches (split_subject existing) subject"
  have "infinite (UNIV :: string set)" by (simp add: infinite_UNIV_listI)
  then obtain t where t: "t \<notin> set (split_subject existing) \<union> {''*'', ''>''}"
    by (metis ex_new_if_finite finite_UnI finite_set finite.emptyI finite.insertI)
  then show "subject_covers existing required"
    unfolding subject_covers_def
    using all assms(2) instance_matches instance_literal
    by (intro token_covers_complete [of _ t]) auto
qed

theorem subject_covers_exact_witness:
  "subject_covers ''a.>'' ''a.*'' \<and> subject_matches (split_subject ''a.*'') [''a'', ''b''] \<and>
   subject_matches (split_subject ''a.>'') [''a'', ''b'']"
proof -
  have s: "split_subject ''a.>'' = [''a'', ''>'']" "split_subject ''a.*'' = [''a'', ''*'']"
    by (simp_all add: split_subject_def)
  have "pattern_ok (split_subject ''a.>'')" "pattern_ok (split_subject ''a.*'')" "subject_covers ''a.>'' ''a.*''"
    unfolding subject_covers_def s by (simp_all add: pattern_ok_def)
  moreover have "literal_subject [''a'', ''b'']" "subject_matches (split_subject ''a.*'') [''a'', ''b'']"
    by (simp_all add: literal_subject_def s)
  ultimately show ?thesis using subject_covers_exact [of "''a.>''" "''a.*''"] by blast
qed

lemma token_covers_refl: "token_covers r r"
  by (induction r) auto

lemma merge_covers:
  "subjects_cover (foldl (\<lambda>subjects need. if \<not> list_ex (\<lambda>have. subject_covers have need) subjects
     then subjects @ [need] else subjects) existing required) required \<and>
   set existing \<subseteq> set (foldl (\<lambda>subjects need. if \<not> list_ex (\<lambda>have. subject_covers have need) subjects
     then subjects @ [need] else subjects) existing required)"
proof (induction required arbitrary: existing)
  case Nil
  then show ?case by (simp add: subjects_cover_def)
next
  case (Cons need required)
  let ?next = "if \<not> list_ex (\<lambda>have. subject_covers have need) existing then existing @ [need] else existing"
  have "list_ex (\<lambda>have. subject_covers have need) ?next"
    by (auto simp: list_ex_iff subject_covers_def token_covers_refl)
  with Cons.IH [of ?next] show ?case
    by (auto simp: subjects_cover_def list_ex_iff split: if_splits)
qed

text \<open>the repaired stream carries every lane. Whatever the broker answers, a stream the server goes
  on with covers all required filters, widening drops no subject it had, and the consumer it uses
  has exactly the required filters up to order.\<close>

theorem request_source_complete:
  "(\<forall>subjects. ensure_request_stream get_stream update = Inr subjects
      \<longrightarrow> subjects_cover subjects REQUEST_CONSUMER_FILTERS) \<and>
   subjects_cover (merge_subjects current REQUEST_CONSUMER_FILTERS) REQUEST_CONSUMER_FILTERS \<and>
   set current \<subseteq> set (merge_subjects current REQUEST_CONSUMER_FILTERS) \<and>
   (\<forall>consumer. ensure_request_consumer get_or_create info now delete create = Inr consumer
      \<longrightarrow> mset (active_filters consumer) = mset REQUEST_CONSUMER_FILTERS)"
proof -
  have f: "filters_match a r \<Longrightarrow> mset a = mset r" for a r
    unfolding filters_match_def by (metis mset_sort)
  show ?thesis
    using merge_covers [where existing = current and required = REQUEST_CONSUMER_FILTERS]
    by (auto simp: ensure_request_stream_def ensure_request_consumer_def merge_subjects_def result_simps
        split: if_splits intro: f)
qed

theorem request_source_complete_witness:
  "\<exists>subjects. ensure_request_stream (Inr []) Inr = Inr subjects \<and> subjects_cover subjects REQUEST_CONSUMER_FILTERS"
proof -
  have "subjects_cover (merge_subjects [] REQUEST_CONSUMER_FILTERS) REQUEST_CONSUMER_FILTERS"
    using request_source_complete by blast
  then have "ensure_request_stream (Inr []) Inr = Inr (merge_subjects [] REQUEST_CONSUMER_FILTERS)"
    by (simp add: ensure_request_stream_def) (simp add: subjects_cover_def REQUEST_CONSUMER_FILTERS_def)
  with request_source_complete show ?thesis by blast
qed

section \<open>Waiting\<close>

text \<open>Messages on the reply subjects that are not a receipt of this request, whoever sent them.\<close>

definition junk_receipt :: "crates \<Rightarrow> string \<Rightarrow> nat \<times> receipt_event \<Rightarrow> bool" where
  "junk_receipt X request_id tev = (case snd tev of
     Acknowledgement bs \<Rightarrow> \<not> receipt_matches X bs request_id AlivePosition
   | DeliveryReceipt bs \<Rightarrow> \<not> receipt_matches X bs request_id DeliveryPosition
   | _ \<Rightarrow> False)"

definition junk_verdict :: "(bytes \<Rightarrow> string \<Rightarrow> 'a option) \<Rightarrow> string \<Rightarrow> nat \<times> bytes option \<Rightarrow> bool" where
  "junk_verdict accept request_id tm = (case snd tm of Some bs \<Rightarrow> accept bs request_id = None | None \<Rightarrow> False)"

fun map_rest :: "((nat \<times> receipt_event) list \<Rightarrow> (nat \<times> receipt_event) list) \<Rightarrow> receipt_wait \<Rightarrow> receipt_wait" where
  "map_rest f (GotReceipt p t rest) = GotReceipt p t (f rest)"
| "map_rest f (ReceiptClosed d) = ReceiptClosed d"
| "map_rest f ReceiptTimeout = ReceiptTimeout"

lemma wait_receipt_late:
  "\<forall>(t, ev) \<in> set evs. max now deadline < t \<Longrightarrow> wait_receipt X i b deadline now evs = ReceiptTimeout"
  by (cases evs) auto

lemma wait_receipt_time:
  assumes "\<forall>(t, ev) \<in> set evs. u \<le> t" "now \<le> u" "u \<le> max now deadline"
  shows "wait_receipt X i b deadline u evs = wait_receipt X i b deadline now evs"
  using assms
proof (induction evs arbitrary: now u)
  case (Cons tev evs)
  obtain t ev where e: "tev = (t, ev)" by (cases tev)
  from Cons.prems e have m: "max u t = max now t" "max u deadline = max now deadline" by auto
  show ?case unfolding e wait_receipt.simps m ..
qed simp

lemma wait_receipt_skips_junk:
  assumes "sorted (map fst evs)"
  shows "wait_receipt X i b deadline now (filter (\<lambda>e. \<not> junk_receipt X i e) evs)
    = map_rest (filter (\<lambda>e. \<not> junk_receipt X i e)) (wait_receipt X i b deadline now evs)"
  using assms
proof (induction evs arbitrary: now)
  case (Cons tev evs)
  obtain t ev where e: "tev = (t, ev)" by (cases tev)
  let ?f = "filter (\<lambda>e. \<not> junk_receipt X i e)"
  from Cons.prems e have s: "sorted (map fst evs)" and le: "\<forall>(t', ev') \<in> set evs. t \<le> t'" by auto
  show ?case
  proof (cases "max now deadline < t")
    case True
    with le have "\<forall>(t', ev') \<in> set (?f (tev # evs)). max now deadline < t'"
      by (auto simp: e max_def split: if_splits)
    from wait_receipt_late [OF this] True show ?thesis by (simp add: e)
  next
    case False
    have IH: "wait_receipt X i b deadline (max now t) (?f evs) = map_rest ?f (wait_receipt X i b deadline (max now t) evs)"
      by (rule Cons.IH [OF s])
    have skip: "wait_receipt X i b deadline (max now t) (?f evs) = wait_receipt X i b deadline now (?f evs)"
    proof (cases "now \<le> t")
      case True
      with False le show ?thesis by (intro wait_receipt_time) auto
    qed (simp add: max_def)
    show ?thesis
      using False IH skip by (cases ev) (auto simp: e junk_receipt_def)
  qed
qed simp

text \<open>The stream of candidates in closed form: the decisions accepted among the messages that arrive in
  time and before the subscription closes, in arrival order, and then one failure.\<close>

definition in_time :: "nat \<Rightarrow> nat \<times> bytes option \<Rightarrow> bool" where
  "in_time deadline tm \<longleftrightarrow> fst tm \<le> deadline \<and> snd tm \<noteq> None"

definition candidates :: "(bytes \<Rightarrow> string \<Rightarrow> 'a option) \<Rightarrow> string \<Rightarrow> nat \<Rightarrow> (nat \<times> bytes option) list \<Rightarrow> 'a list"
where
  "candidates accept request_id deadline ms =
     List.map_filter (\<lambda>tm. accept (the (snd tm)) request_id) (takeWhile (in_time deadline) ms)"

definition final_failure :: "nat \<Rightarrow> (nat \<times> bytes option) list \<Rightarrow> HookTransportFailure" where
  "final_failure deadline ms = (case dropWhile (in_time deadline) ms of
     (t, None) # _ \<Rightarrow> if t \<le> deadline then Daemon ''decision stream closed''
       else Expired ''sudo decision deadline exceeded while waiting for decision''
   | _ \<Rightarrow> Expired ''sudo decision deadline exceeded while waiting for decision'')"

lemma decision_items_closed_form:
  assumes "now \<le> deadline"
  shows "decision_items accept now \<lparr>vw_messages = ms, vw_request_id = i, vw_deadline = deadline, vw_finished = False\<rparr>
    = map Inr (candidates accept i deadline ms) @ [Inl (final_failure deadline ms)]"
  using assms
proof (induction ms arbitrary: now)
  case Nil
  then show ?case
    by (simp add: decision_items.simps [of _ now] decision_items.simps next_verdict_def candidates_def
        final_failure_def List.map_filter_simps)
next
  case (Cons tm ms)
  obtain t m where e: "tm = (t, m)" by (cases tm)
  let ?w = "\<lambda>ms. \<lparr>vw_messages = ms, vw_request_id = i, vw_deadline = deadline, vw_finished = False\<rparr>"
  have stop: "decision_items accept now (?w (tm # ms)) = [Inl f]"
    if "next_verdict accept now (?w (tm # ms)) = Some (Inl f, now', w)" "vw_finished w" for f now' w
    using that by (simp add: decision_items.simps [of _ now] decision_items.simps [of _ now'] next_verdict_def)
  show ?case
  proof (cases "in_time deadline tm")
    case False
    then have "candidates accept i deadline (tm # ms) = []" by (simp add: candidates_def List.map_filter_simps)
    moreover from False Cons.prems have "\<exists>now' w. next_verdict accept now (?w (tm # ms))
        = Some (Inl (final_failure deadline (tm # ms)), now', w) \<and> vw_finished w"
      by (cases m) (auto simp: next_verdict_def e in_time_def final_failure_def not_le)
    ultimately show ?thesis using stop by auto
  next
    case True
    then obtain bs where m: "m = Some bs" and t: "t \<le> deadline" by (auto simp: in_time_def e)
    have f: "final_failure deadline (tm # ms) = final_failure deadline ms" using True by (simp add: final_failure_def)
    have now': "max now t \<le> deadline" using t Cons.prems by simp
    note IH = Cons.IH [OF now']
    show ?thesis
    proof (cases "accept bs i")
      case None
      have r: "read_verdict accept i deadline now (tm # ms) = read_verdict accept i deadline (max now t) ms"
        using None t Cons.prems by (simp add: e m)
      have "decision_items accept now (?w (tm # ms)) = decision_items accept (max now t) (?w ms)"
        using now' Cons.prems unfolding decision_items.simps [of _ now] decision_items.simps [of _ "max now t"]
          next_verdict_def
        by (cases "read_verdict accept i deadline (max now t) ms")
          (simp_all add: r, simp_all add: decision_items.simps next_verdict_def)
      with IH f True None show ?thesis by (simp add: candidates_def List.map_filter_simps e m)
    next
      case (Some d)
      then have "next_verdict accept now (?w (tm # ms)) = Some (Inr d, max now t, ?w ms)"
        using t Cons.prems by (auto simp: next_verdict_def e m)
      with IH f True show ?thesis
        by (simp add: decision_items.simps [of _ now] candidates_def List.map_filter_simps e m Some)
    qed
  qed
qed

definition round_trip ::
  "crates \<Rightarrow> (bytes \<Rightarrow> string \<Rightarrow> 'a option) \<Rightarrow> string \<Rightarrow> nat \<Rightarrow> bool \<Rightarrow> setup_outcome
    \<Rightarrow> (nat \<times> receipt_event) list \<Rightarrow> (nat \<times> bytes option) list
    \<Rightarrow> HookProgress list \<times> (HookTransportFailure + (HookTransportFailure + 'a) list)" where
  "round_trip X accept request_id timeout browser setup receipts verdicts =
     (let (progress, r) = request_verdicts X request_id timeout browser setup receipts verdicts
      in (progress, map_ok (\<lambda>(now, wait). decision_items accept now wait) r))"

definition request_decision where
  "request_decision X = round_trip X (command_decision_for X)"

definition request_authentication where
  "request_authentication X = round_trip X (auth_decision_for X)"

lemma wait_receipt_got:
  assumes "wait_receipt X i b deadline now evs = GotReceipt p now' rest"
  shows "now \<le> now' \<and> now' \<le> max now deadline \<and> set rest \<subseteq> set evs \<and> (\<not> b \<longrightarrow> p = AlivePosition) \<and>
    (sorted (map fst evs) \<longrightarrow> sorted (map fst rest)) \<and>
    (p = AlivePosition \<longrightarrow> (\<exists>t bs. (t, Acknowledgement bs) \<in> set evs \<and> t \<le> max now deadline \<and>
       receipt_matches X bs i AlivePosition))"
  using assms
proof (induction evs arbitrary: now)
  case (Cons tev evs)
  obtain t ev where e: "tev = (t, ev)" by (cases tev)
  from Cons.prems e have t: "t \<le> max now deadline" by (auto split: if_splits)
  show ?case
  proof (cases "wait_receipt X i b deadline (max now t) evs = GotReceipt p now' rest")
    case True
    from Cons.IH [OF True] t show ?thesis by (fastforce simp: e max_def split: if_splits)
  next
    case False
    with Cons.prems t show ?thesis by (cases ev) (auto simp: e split: if_splits)
  qed
qed simp

text \<open>The result of a round trip, written out.\<close>

lemma request_verdicts_ok:
  assumes "request_verdicts X i timeout b setup receipts verdicts = (progress, Inr (now, wait))"
  shows "now < timeout \<and> wait = \<lparr>vw_messages = verdicts, vw_request_id = i, vw_deadline = timeout, vw_finished = False\<rparr> \<and>
    progress \<in> {[WaitingForApproval], [RequestDelivered, WaitingForApproval]} \<and>
    (\<exists>t bs. (t, Acknowledgement bs) \<in> set receipts \<and> t \<le> timeout \<and> receipt_matches X bs i AlivePosition)"
proof -
  from assms obtain elapsed where s: "setup = SetupDone elapsed" and w: "min (timeout - elapsed) DAEMON_ACK_TIMEOUT \<noteq> 0"
    by (auto simp: request_verdicts_def Let_def split: setup_outcome.splits if_splits)
  let ?d = "elapsed + min (timeout - elapsed) DAEMON_ACK_TIMEOUT"
  from w have d: "elapsed < timeout" "?d \<le> timeout" by (auto simp: min_def split: if_splits)
  from assms s w obtain p now1 rest where g: "wait_receipt X i b ?d elapsed receipts = GotReceipt p now1 rest"
    by (auto simp: request_verdicts_def Let_def split: receipt_wait.splits)
  note f = wait_receipt_got [OF g]
  show ?thesis
  proof (cases p)
    case AlivePosition
    with assms s w g f d show ?thesis
      by (auto simp: request_verdicts_def Let_def max_def not_le split: if_splits)
        (meson le_trans)+
  next
    case DeliveryPosition
    with assms s w g obtain p' now2 rest' where g2: "wait_receipt X i False timeout now1 rest = GotReceipt p' now2 rest'"
      by (auto simp: request_verdicts_def Let_def split: receipt_wait.splits if_splits)
    note f2 = wait_receipt_got [OF g2]
    from f d have "max now1 timeout = timeout" by auto
    with assms s w g g2 f f2 DeliveryPosition show ?thesis
      by (auto simp: request_verdicts_def Let_def not_le split: if_splits)
  qed
qed

text \<open>what a round trip delivers. Only after a liveness acknowledgement of this very request arrived
  in time does the hook get a stream; the stream holds exactly the decisions recognized for this
  request among the messages that arrived before the deadline, in arrival order, and ends with
  one failure. No failure of the two sudo lanes is a protocol failure.\<close>

theorem round_trip_delivers:
  "(\<forall>progress items. round_trip X accept request_id timeout browser setup receipts verdicts = (progress, Inr items) \<longrightarrow>
      items = map Inr (candidates accept request_id timeout verdicts) @ [Inl (final_failure timeout verdicts)] \<and>
      last progress = WaitingForApproval \<and>
      (\<exists>t bs. (t, Acknowledgement bs) \<in> set receipts \<and> t \<le> timeout \<and>
         receipt_matches X bs request_id AlivePosition)) \<and>
   (\<forall>progress f. round_trip X accept request_id timeout browser setup receipts verdicts = (progress, Inl f)
      \<longrightarrow> (\<forall>d. f \<noteq> Protocol d)) \<and>
   (\<forall>d. final_failure timeout verdicts \<noteq> Protocol d \<and> final_failure timeout verdicts \<noteq> Transport d)"
proof (intro conjI allI impI)
  fix progress items
  assume "round_trip X accept request_id timeout browser setup receipts verdicts = (progress, Inr items)"
  then obtain now wait where r: "request_verdicts X request_id timeout browser setup receipts verdicts = (progress, Inr (now, wait))"
    and i: "items = decision_items accept now wait"
    by (auto simp: round_trip_def result_simps split: prod.splits)
  note ok = request_verdicts_ok [OF r]
  then show "items = map Inr (candidates accept request_id timeout verdicts) @ [Inl (final_failure timeout verdicts)]"
    by (simp add: i decision_items_closed_form)
  from ok show "last progress = WaitingForApproval" by auto
  from ok show "\<exists>t bs. (t, Acknowledgement bs) \<in> set receipts \<and> t \<le> timeout \<and> receipt_matches X bs request_id AlivePosition"
    by blast
next
  fix progress f d
  assume "round_trip X accept request_id timeout browser setup receipts verdicts = (progress, Inl f)"
  then have "snd (request_verdicts X request_id timeout browser setup receipts verdicts) = Inl f"
    by (auto simp: round_trip_def map_ok_def split: prod.splits sum.splits)
  then show "f \<noteq> Protocol d"
    by (auto simp: request_verdicts_def Let_def split: setup_outcome.splits option.splits
        HookTransportFailure.splits receipt_wait.splits ReceiptPosition.splits if_splits)
qed (auto simp: final_failure_def split: list.splits prod.splits option.splits)

lemma candidates_skip_junk:
  assumes "sorted (map fst ms)"
  shows "candidates accept i deadline (filter (\<lambda>m. \<not> junk_verdict accept i m) ms) = candidates accept i deadline ms \<and>
    final_failure deadline (filter (\<lambda>m. \<not> junk_verdict accept i m) ms) = final_failure deadline ms"
  using assms
proof (induction ms)
  case (Cons tm ms)
  obtain t m where e: "tm = (t, m)" by (cases tm)
  from Cons.prems have s: "sorted (map fst ms)" and le: "\<forall>tm' \<in> set ms. t \<le> fst tm'" by (auto simp: e)
  show ?case
  proof (cases "deadline < t")
    case True
    with le have all: "\<forall>tm' \<in> set (tm # ms). deadline < fst tm'" by (auto simp: e dest: order.strict_trans2)
    then have late: "\<forall>tm' \<in> set (filter (\<lambda>m. \<not> junk_verdict accept i m) (tm # ms)). deadline < fst tm'"
      by simp
    have "candidates accept i deadline xs = [] \<and>
        final_failure deadline xs = Expired ''sudo decision deadline exceeded while waiting for decision''"
      if "\<forall>tm' \<in> set xs. deadline < fst tm'" for xs
      using that by (cases xs) (auto simp: candidates_def final_failure_def in_time_def List.map_filter_simps
          split: option.splits)
    from this [OF late] this [OF all] show ?thesis by simp
  next
    case False
    with Cons.IH [OF s] show ?thesis
      by (cases m) (auto simp: e junk_verdict_def candidates_def final_failure_def in_time_def List.map_filter_simps)
  qed
qed simp

text \<open>no one can end a wait by publishing noise. Messages on the reply subjects that are not a
  receipt or a decision of this request change nothing: progress, outcome and the stream of
  candidates are those of the run without them.\<close>

theorem noise_changes_nothing:
  assumes "sorted (map fst receipts)" "sorted (map fst verdicts)"
  shows "round_trip X accept request_id timeout browser setup
      (filter (\<lambda>e. \<not> junk_receipt X request_id e) receipts) (filter (\<lambda>m. \<not> junk_verdict accept request_id m) verdicts)
    = round_trip X accept request_id timeout browser setup receipts verdicts"
proof -
  let ?f = "filter (\<lambda>e. \<not> junk_receipt X request_id e)" and ?g = "filter (\<lambda>m. \<not> junk_verdict accept request_id m)"
  have w: "wait_receipt X request_id b d now (?f evs) = map_rest ?f (wait_receipt X request_id b d now evs)"
    if "sorted (map fst evs)" for b d now evs
    using that by (rule wait_receipt_skips_junk)
  have rest: "sorted (map fst rest)" if "wait_receipt X request_id b d now receipts = GotReceipt p n rest" for b d now p n rest
    using wait_receipt_got [OF that] assms(1) by blast
  have items: "decision_items accept now \<lparr>vw_messages = ?g verdicts, vw_request_id = request_id, vw_deadline = timeout, vw_finished = False\<rparr>
      = decision_items accept now \<lparr>vw_messages = verdicts, vw_request_id = request_id, vw_deadline = timeout, vw_finished = False\<rparr>"
    if "now \<le> timeout" for now
    using that candidates_skip_junk [OF assms(2)] by (simp add: decision_items_closed_form)
  show ?thesis
  proof (cases "setup")
    case (SetupDone elapsed)
    let ?d = "elapsed + min (timeout - elapsed) DAEMON_ACK_TIMEOUT"
    show ?thesis
    proof (cases "wait_receipt X request_id browser ?d elapsed receipts")
      case (GotReceipt p now rest')
      note r = w [OF rest [OF GotReceipt]] w [OF assms(1)]
      show ?thesis
        unfolding round_trip_def request_verdicts_def SetupDone
        by (cases p; cases "wait_receipt X request_id False timeout now rest'")
          (auto simp: Let_def GotReceipt r items not_le)
    qed (auto simp: round_trip_def request_verdicts_def SetupDone Let_def w [OF assms(1)] min_def)
  qed (simp_all add: round_trip_def request_verdicts_def)
qed

section \<open>A sample round trip\<close>

text \<open>Every one-byte message is an acknowledgement of \<open>r1\<close>, every other one undecodable.\<close>

definition sample_nats :: crates where
  "sample_nats = sample\<lparr>
     probe_from_slice := \<lambda>bs. if length bs = 1 then Inr \<lparr>pb_message_type = Some ''alive'', pb_action = None\<rparr>
       else Inl ''noise'',
     alive_from_slice := \<lambda>_. Inr \<lparr>al_message_type = ''alive'', al_version = 1, al_request_id = ''r1''\<rparr>\<rparr>"

lemma sample_nats_receipt:
  "receipt_matches sample_nats [1] ''r1'' AlivePosition" "\<not> receipt_matches sample_nats [] ''r1'' AlivePosition"
  by (simp_all add: receipt_matches_def decode_control_message_def sample_nats_def AliveV1_validate_def VERSION_V1_def)

lemma sample_round_trip:
  "round_trip sample_nats (\<lambda>bs _. if bs = [] then None else Some bs) ''r1'' 9000 False (SetupDone 5)
     [(10, Acknowledgement []), (20, Acknowledgement [1])] [(30, Some []), (40, Some [7])]
   = ([WaitingForApproval], Inr [Inr [7],
       Inl (Expired ''sudo decision deadline exceeded while waiting for decision'')])"
proof -
  have "request_verdicts sample_nats ''r1'' 9000 False (SetupDone 5)
     [(10, Acknowledgement []), (20, Acknowledgement [1])] [(30, Some []), (40, Some [7])]
   = ([WaitingForApproval], Inr (20, \<lparr>vw_messages = [(30, Some []), (40, Some [7])], vw_request_id = ''r1'',
       vw_deadline = 9000, vw_finished = False\<rparr>))"
    by (simp add: request_verdicts_def DAEMON_ACK_TIMEOUT_def Let_def sample_nats_receipt)
  then show ?thesis
    by (simp add: round_trip_def decision_items_closed_form candidates_def final_failure_def in_time_def
        List.map_filter_simps)
qed

theorem round_trip_delivers_witness:
  "\<exists>t bs. (t, Acknowledgement bs) \<in> set [(10 :: nat, Acknowledgement []), (20, Acknowledgement [1])] \<and> t \<le> 9000 \<and>
     receipt_matches sample_nats bs ''r1'' AlivePosition"
  using round_trip_delivers [of sample_nats "\<lambda>bs _. if bs = [] then None else Some bs" "''r1''" 9000 False "SetupDone 5"
      "[(10, Acknowledgement []), (20, Acknowledgement [1])]" "[(30, Some []), (40, Some [7])]"] sample_round_trip
  by blast

theorem noise_changes_nothing_witness:
  "round_trip sample_nats (\<lambda>bs _. if bs = [] then None else Some bs) ''r1'' 9000 False (SetupDone 5)
     [(20, Acknowledgement [1])] [(40, Some [7])]
   = ([WaitingForApproval], Inr [Inr [7],
       Inl (Expired ''sudo decision deadline exceeded while waiting for decision'')])"
  using noise_changes_nothing [of "[(10, Acknowledgement []), (20, Acknowledgement [1])]" "[(30, Some []), (40, Some [7])]"
      sample_nats "\<lambda>bs _. if bs = [] then None else Some bs" "''r1''" 9000 False "SetupDone 5"]
  by (simp add: sample_round_trip junk_receipt_def junk_verdict_def sample_nats_receipt)

end
