(* ===== verification/Hook_Registry.thy ===== *)
theory Hook_Registry
  imports Wire_V1
begin

text \<open>
  The hook's local device registry (\<open>hook/src/registry.rs\<close>, \<open>revoke_with\<close> of
  \<open>hook/src/main.rs\<close>): load and write under a lock, pinning, the final authorization gate, and
  revocation in two transactions around the remote call. The file is a value; what the
  operating system decides (who holds the lock, whether a write, its rename and its directory
  sync succeed, the clock) is an argument. A failed write may or may not have renamed the file.
\<close>

record LocalRegistry =
  lr_registry :: DeviceRegistryV1
  lr_revocation_epoch :: nat

datatype fault = Busy string | Fault string | ProtocolFault error

datatype registry_file = Absent | Unreadable string | Stored LocalRegistry

datatype lock_result = Locked | LockBusy | LockFault string

datatype disk_result = DiskOk | FailedBeforeRename | FailedAfterRename

definition acquire :: "string \<Rightarrow> lock_result \<Rightarrow> fault + unit" where
  "acquire name l = (case l of
     Locked \<Rightarrow> Inr () | LockBusy \<Rightarrow> Inl (Busy name) | LockFault e \<Rightarrow> Inl (Fault e))"

text \<open>Times in milliseconds; \<open>attempt t\<close> is what the lock call made at time \<open>t\<close> finds.\<close>

definition DECISION_LOCK_BUDGET :: nat where "DECISION_LOCK_BUDGET = 2000"
definition DECISION_LOCK_RETRY :: nat where "DECISION_LOCK_RETRY = 25"

function acquire_until :: "(nat \<Rightarrow> lock_result) \<Rightarrow> nat \<Rightarrow> nat \<Rightarrow> (fault + unit) \<times> nat" where
  "acquire_until attempt give_up now =
     (case acquire ''.devices.lock'' (attempt now) of
        Inl (Busy name) \<Rightarrow>
          if now < give_up then acquire_until attempt give_up (now + DECISION_LOCK_RETRY)
          else (Inl (Busy name), now)
      | r \<Rightarrow> (r, now))"
  by pat_completeness auto
termination
  by (relation "measure (\<lambda>(_, give_up, now). give_up - now)") (auto simp: DECISION_LOCK_RETRY_def)

declare acquire_until.simps [simp del]

definition acquire_for_decision :: "(nat \<Rightarrow> lock_result) \<Rightarrow> nat \<Rightarrow> (fault + unit) \<times> nat" where
  "acquire_for_decision attempt now = acquire_until attempt (now + DECISION_LOCK_BUDGET) now"

definition Transaction_load :: "crates \<Rightarrow> registry_file \<Rightarrow> fault + LocalRegistry" where
  "Transaction_load X file = (case file of
     Absent \<Rightarrow> Inr \<lparr>lr_registry = \<lparr>rg_version = VERSION_V1, rg_devices = []\<rparr>, lr_revocation_epoch = 0\<rparr>
   | Unreadable e \<Rightarrow> Inl (Fault e)
   | Stored state \<Rightarrow>
       and_then (map_err ProtocolFault (DeviceRegistryV1_validate X (lr_registry state))) (\<lambda>_. Inr state))"

definition atomic_write_json :: "disk_result \<Rightarrow> LocalRegistry \<Rightarrow> registry_file \<Rightarrow> (fault + unit) \<times> registry_file"
where
  "atomic_write_json disk state file = (case disk of
     DiskOk \<Rightarrow> (Inr (), Stored state)
   | FailedBeforeRename \<Rightarrow> (Inl (Fault ''atomic state write failed before rename''), file)
   | FailedAfterRename \<Rightarrow>
       (Inl (Fault ''atomic state write failed after rename; durability unconfirmed''), Stored state))"

definition Transaction_write ::
  "crates \<Rightarrow> disk_result \<Rightarrow> LocalRegistry \<Rightarrow> registry_file \<Rightarrow> (fault + unit) \<times> registry_file" where
  "Transaction_write X disk state file =
     (case DeviceRegistryV1_validate X (lr_registry state) of
        Inl e \<Rightarrow> (Inl (ProtocolFault e), file)
      | Inr _ \<Rightarrow> atomic_write_json disk state file)"

definition snapshot :: "crates \<Rightarrow> lock_result \<Rightarrow> registry_file \<Rightarrow> fault + LocalRegistry" where
  "snapshot X l file = and_then (acquire ''.devices.lock'' l) (\<lambda>_. Transaction_load X file)"

definition decision_snapshot ::
  "crates \<Rightarrow> (nat \<Rightarrow> lock_result) \<Rightarrow> nat \<Rightarrow> registry_file \<Rightarrow> fault + LocalRegistry" where
  "decision_snapshot X attempt now file =
     and_then (fst (acquire_for_decision attempt now)) (\<lambda>_. Transaction_load X file)"

definition same_credential :: "DevicePublicRecordV1 \<Rightarrow> DevicePublicRecordV1 \<Rightarrow> bool" where
  "same_credential a b \<longleftrightarrow> dv_version a = dv_version b \<and> dv_kind a = dv_kind b \<and>
     dv_fingerprint a = dv_fingerprint b \<and> dv_credential_id a = dv_credential_id b \<and>
     dv_credential_public_key a = dv_credential_public_key b \<and>
     dv_box_public_key a = dv_box_public_key b"

definition same_identity :: "DevicePublicRecordV1 \<Rightarrow> DevicePublicRecordV1 \<Rightarrow> bool" where
  "same_identity a b \<longleftrightarrow> same_credential a b \<and> dv_api_token_hash a = dv_api_token_hash b"

definition set_devices :: "LocalRegistry \<Rightarrow> DevicePublicRecordV1 list \<Rightarrow> LocalRegistry" where
  "set_devices state ds = state\<lparr>lr_registry := (lr_registry state)\<lparr>rg_devices := ds\<rparr>\<rparr>"

abbreviation devices_of :: "LocalRegistry \<Rightarrow> DevicePublicRecordV1 list" where
  "devices_of state \<equiv> rg_devices (lr_registry state)"

section \<open>Pinning\<close>

definition pin ::
  "crates \<Rightarrow> lock_result \<Rightarrow> disk_result \<Rightarrow> DevicePublicRecordV1 \<Rightarrow> registry_file
    \<Rightarrow> (fault + unit) \<times> registry_file" where
  "pin X l disk device file =
     (case DevicePublicRecordV1_validate X device of
        Inl e \<Rightarrow> (Inl (ProtocolFault e), file)
      | Inr _ \<Rightarrow>
     if \<not> dv_active device then (Inl (Fault ''cannot pin an inactive device''), file)
     else case snapshot X l file of
        Inl e \<Rightarrow> (Inl e, file)
      | Inr state \<Rightarrow>
     if list_ex (\<lambda>stored. dv_credential_id stored = dv_credential_id device \<and>
          dv_fingerprint stored \<noteq> dv_fingerprint device) (devices_of state)
     then (Inl (Fault ''credential id is already enrolled under another record''), file)
     else
       let stored = find (\<lambda>stored. dv_fingerprint stored = dv_fingerprint device) (devices_of state) in
       if is_some_and (\<lambda>s. \<not> dv_active s) stored
       then (Inl (Fault ''device revocation is pending; retry revoke before enrolling or pinning''), file)
       else
         let device' = (case stored of
               Some s \<Rightarrow> if same_credential s device
                 then device\<lparr>dv_sign_count := max (dv_sign_count device) (dv_sign_count s)\<rparr> else device
             | None \<Rightarrow> device)
         in Transaction_write X disk (set_devices state
              (filter (\<lambda>s. dv_fingerprint s \<noteq> dv_fingerprint device') (devices_of state) @ [device'])) file)"

section \<open>The final authorization gate\<close>

datatype GateError = Host fault | Denied string

fun update_first :: "('a \<Rightarrow> bool) \<Rightarrow> ('a \<Rightarrow> 'a) \<Rightarrow> 'a list \<Rightarrow> 'a list" where
  "update_first P f [] = []"
| "update_first P f (x # xs) = (if P x then f x # xs else x # update_first P f xs)"

text \<open>The warning about a regressed counter only logs.\<close>

definition authorize_in ::
  "crates \<Rightarrow> disk_result \<Rightarrow> DevicePublicRecordV1 \<Rightarrow> nat \<Rightarrow> i64 \<Rightarrow> u32 option \<Rightarrow> bool \<Rightarrow> i64
    \<Rightarrow> registry_file \<Rightarrow> (GateError + unit) \<times> registry_file" where
  "authorize_in X disk device epoch expires_at observed warning_only clock file =
     (case Transaction_load X file of
        Inl e \<Rightarrow> (Inl (Host e), file)
      | Inr state \<Rightarrow>
     if epoch \<noteq> lr_revocation_epoch state
     then (Inl (Denied ''request predates local device revocation''), file)
     else case find (\<lambda>stored. dv_active stored \<and> same_identity stored device) (devices_of state) of
        None \<Rightarrow> (Inl (Denied ''request credential is revoked, missing, or replaced''), file)
      | Some stored \<Rightarrow>
     if expires_at \<le> clock then (Inl (Denied ''request expired at final authorization''), file)
     else case observed of
        None \<Rightarrow> (Inr (), file)
      | Some count \<Rightarrow>
          if count > dv_sign_count stored then
            (case Transaction_write X disk (set_devices state
                (update_first (\<lambda>s. dv_active s \<and> same_identity s device)
                   (\<lambda>s. s\<lparr>dv_sign_count := count\<rparr>) (devices_of state))) file of
               (Inl e, file') \<Rightarrow> (if \<not> warning_only then Inl (Host e) else Inr (), file')
             | (Inr _, file') \<Rightarrow> (Inr (), file'))
          else (Inr (), file))"

definition authorize ::
  "crates \<Rightarrow> (nat \<Rightarrow> lock_result) \<Rightarrow> nat \<Rightarrow> disk_result \<Rightarrow> DevicePublicRecordV1 \<Rightarrow> nat \<Rightarrow> i64
    \<Rightarrow> u32 option \<Rightarrow> bool \<Rightarrow> i64 \<Rightarrow> registry_file \<Rightarrow> (GateError + unit) \<times> registry_file" where
  "authorize X attempt start disk device epoch expires_at observed warning_only clock file =
     (case fst (acquire_for_decision attempt start) of
        Inl e \<Rightarrow> (Inl (Host e), file)
      | Inr _ \<Rightarrow> authorize_in X disk device epoch expires_at observed warning_only clock file)"

section \<open>Revocation\<close>

definition u64_max :: nat where "u64_max = 2 ^ 64 - 1"

text \<open>The first transaction: the device is marked inactive and, if it was active, the epoch moves.
  \<open>None\<close> means that no such device is stored.\<close>

definition revoke_disable ::
  "crates \<Rightarrow> lock_result \<Rightarrow> disk_result \<Rightarrow> string \<Rightarrow> registry_file
    \<Rightarrow> (fault + (DevicePublicRecordV1 \<times> nat) option) \<times> registry_file" where
  "revoke_disable X l disk fingerprint file =
     (case snapshot X l file of
        Inl e \<Rightarrow> (Inl e, file)
      | Inr state \<Rightarrow>
     (case find (\<lambda>d. dv_fingerprint d = fingerprint) (devices_of state) of
        None \<Rightarrow> (Inr None, file)
      | Some device \<Rightarrow>
          let tombstone = device\<lparr>dv_active := False\<rparr>;
              disabled = set_devices state (update_first (\<lambda>d. dv_fingerprint d = fingerprint)
                (\<lambda>d. d\<lparr>dv_active := False\<rparr>) (devices_of state))
          in if dv_active device \<and> lr_revocation_epoch state \<ge> u64_max
             then (Inl (Fault ''local revocation epoch exhausted''), file)
             else
               let epoch = (if dv_active device then lr_revocation_epoch state + 1
                            else lr_revocation_epoch state)
               in (case Transaction_write X disk (disabled\<lparr>lr_revocation_epoch := epoch\<rparr>) file of
                     (Inl e, file') \<Rightarrow> (Inl e, file')
                   | (Inr _, file') \<Rightarrow> (Inr (Some (tombstone, epoch)), file'))))"

text \<open>The second transaction, after the server confirmed: the tombstone is removed.\<close>

definition revoke_cleanup ::
  "crates \<Rightarrow> lock_result \<Rightarrow> disk_result \<Rightarrow> string \<Rightarrow> (DevicePublicRecordV1 \<times> nat) option \<Rightarrow> registry_file
    \<Rightarrow> (fault + unit) \<times> registry_file" where
  "revoke_cleanup X l disk fingerprint pending file =
     (case snapshot X l file of
        Inl e \<Rightarrow> (Inl e, file)
      | Inr state \<Rightarrow>
     (case pending of
        Some (device, epoch) \<Rightarrow>
          if lr_revocation_epoch state \<noteq> epoch \<or>
             \<not> list_ex (\<lambda>stored. stored = device \<and> \<not> dv_active stored) (devices_of state)
          then (Inl (Fault ''pending revocation identity changed before cleanup''), file)
          else Transaction_write X disk (set_devices state
                 (filter (\<lambda>stored. dv_fingerprint stored \<noteq> fingerprint) (devices_of state))) file
      | None \<Rightarrow>
          if list_ex (\<lambda>stored. dv_fingerprint stored = fingerprint) (devices_of state)
          then (Inl (Fault ''device appeared during absent revocation retry''), file)
          else if disk \<noteq> DiskOk then (Inl (Fault ''directory fsync failed''), file)
          else (Inr (), file)))"

record RevokeFailure =
  rf_phase :: string
  rf_detail :: fault
  rf_readback :: string

definition revoke_failure ::
  "crates \<Rightarrow> lock_result \<Rightarrow> registry_file \<Rightarrow> string \<Rightarrow> string \<Rightarrow> fault \<Rightarrow> RevokeFailure" where
  "revoke_failure X l file fingerprint phase detail = \<lparr>rf_phase = phase, rf_detail = detail,
     rf_readback = (case snapshot X l file of
        Inl _ \<Rightarrow> ''local readback unavailable''
      | Inr state \<Rightarrow> (case find (\<lambda>d. dv_fingerprint d = fingerprint) (devices_of state) of
           Some d \<Rightarrow> if dv_active d then ''local readback: device active'' else ''local readback: device inactive''
         | None \<Rightarrow> ''local readback: device absent''))\<rparr>"

text \<open>The environment of one revocation: the locks and disks of the two transactions, what other
  processes do to the file in between, the remote answer, and the lock of a readback.\<close>

record revoke_env =
  re_lifecycle :: lock_result
  re_lock1 :: lock_result
  re_disk1 :: disk_result
  re_remote :: "fault + unit"
  re_between :: "registry_file \<Rightarrow> registry_file"
  re_lock2 :: lock_result
  re_disk2 :: disk_result
  re_readback :: lock_result

datatype revoke_error = BadFingerprint | LifecycleFault fault | RevokeFailed RevokeFailure

definition revoke_with ::
  "crates \<Rightarrow> revoke_env \<Rightarrow> string \<Rightarrow> registry_file \<Rightarrow> (revoke_error + unit) \<times> registry_file" where
  "revoke_with X env fingerprint file =
     (if (case decode_base64url X fingerprint of Inl _ \<Rightarrow> True | Inr bs \<Rightarrow> length bs \<noteq> 16)
      then (Inl BadFingerprint, file)
      else case acquire ''.devices-lifecycle.lock'' (re_lifecycle env) of
        Inl e \<Rightarrow> (Inl (LifecycleFault e), file)
      | Inr _ \<Rightarrow>
     (case revoke_disable X (re_lock1 env) (re_disk1 env) fingerprint file of
        (Inl e, file1) \<Rightarrow> (Inl (RevokeFailed (revoke_failure X (re_readback env) file1 fingerprint
          ''local disable not durably confirmed; remote revoke was not attempted'' e)), file1)
      | (Inr pending, file1) \<Rightarrow>
     (let file2 = re_between env file1 in
      case re_remote env of
        Inl e \<Rightarrow> (Inl (RevokeFailed (revoke_failure X (re_readback env) file2 fingerprint
          (if pending \<noteq> None then ''local device disabled; remote revoke pending''
           else ''local device absent; remote revoke pending'') e)), file2)
      | Inr _ \<Rightarrow>
     (case revoke_cleanup X (re_lock2 env) (re_disk2 env) fingerprint pending file2 of
        (Inl e, file3) \<Rightarrow> (Inl (RevokeFailed (revoke_failure X (re_readback env) file3 fingerprint
          ''remote revoke confirmed; local cleanup not durably confirmed'' e)), file3)
      | (Inr _, file3) \<Rightarrow> (Inr (), file3)))))"

section \<open>Transactions and the file\<close>

lemma acquire_simps [simp]:
  "acquire n Locked = Inr ()" "acquire n LockBusy = Inl (Busy n)" "acquire n (LockFault e) = Inl (Fault e)"
  by (simp_all add: acquire_def)

lemma load_stored [simp]:
  "Transaction_load X (Stored s) = Inr s' \<longleftrightarrow> s' = s \<and> DeviceRegistryV1_validate X (lr_registry s) = Inr ()"
  by (auto simp: Transaction_load_def result_simps)

lemma load_valid:
  "Transaction_load X file = Inr state \<Longrightarrow> DeviceRegistryV1_validate X (lr_registry state) = Inr ()"
  by (auto simp: Transaction_load_def result_simps DeviceRegistryV1_validate_def split: registry_file.splits)

lemma one_device:
  assumes "Transaction_load X file = Inr state"
    and "x \<in> set (devices_of state)" "y \<in> set (devices_of state)" "dv_fingerprint x = dv_fingerprint y"
  shows "x = y"
  using registry_valid(4) [OF load_valid [OF assms(1)]] assms(2-4) by (metis distinct_map inj_onD)

lemma snapshot_load: "snapshot X l file = Inr state \<Longrightarrow> Transaction_load X file = Inr state"
  by (auto simp: snapshot_def result_simps)

lemma write_file:
  assumes "Transaction_write X disk state file = (r, file')"
  shows "file' = file \<or> file' = Stored state \<and> DeviceRegistryV1_validate X (lr_registry state) = Inr ()"
    and "r = Inr () \<Longrightarrow> file' = Stored state \<and> DeviceRegistryV1_validate X (lr_registry state) = Inr ()"
  using assms
  by (auto simp: Transaction_write_def atomic_write_json_def split: sum.splits disk_result.splits)

lemma set_devices_simps [simp]:
  "devices_of (set_devices s ds) = ds" "lr_revocation_epoch (set_devices s ds) = lr_revocation_epoch s"
  by (simp_all add: set_devices_def)

lemma find_SomeD: "find P xs = Some x \<Longrightarrow> x \<in> set xs \<and> P x"
  by (auto simp: find_Some_iff)

lemma update_first_same:
  "(\<And>x. P x \<Longrightarrow> g (f x) = g x) \<Longrightarrow> map g (update_first P f xs) = map g xs"
  by (induction xs) auto

lemma set_update_first:
  "y \<in> set (update_first P f xs) \<Longrightarrow> y \<in> set xs \<or> (\<exists>x \<in> set xs. P x \<and> y = f x)"
  by (induction xs) (auto split: if_splits)

lemma update_first_distinct:
  assumes "distinct (map key xs)" "\<And>x. key (f x) = key x" "\<And>x. P x \<longleftrightarrow> key x = k"
    and "y \<in> set (update_first P f xs)" "key y = k"
  shows "\<exists>x \<in> set xs. y = f x"
  using assms(1,4,5) by (induction xs) (auto simp: assms(2,3) image_iff split: if_splits)

section \<open>The registry as a state machine\<close>

text \<open>The transactions of all processes, in any order. Each holds the registry lock, so a transaction
  is one step.\<close>

inductive registry_step :: "crates \<Rightarrow> registry_file \<Rightarrow> registry_file \<Rightarrow> bool" for X where
  step_pin: "pin X l disk device file = (r, file') \<Longrightarrow> registry_step X file file'"
| step_disable: "revoke_disable X l disk fingerprint file = (r, file') \<Longrightarrow> registry_step X file file'"
| step_cleanup: "revoke_cleanup X l disk fingerprint pending file = (r, file') \<Longrightarrow> registry_step X file file'"
| step_authorize: "authorize_in X disk device epoch expires_at observed warning_only clock file = (r, file')
    \<Longrightarrow> registry_step X file file'"

definition file_epoch :: "registry_file \<Rightarrow> nat" where
  "file_epoch file = (case file of Stored s \<Rightarrow> lr_revocation_epoch s | _ \<Rightarrow> 0)"

lemma file_epoch_stored [simp]: "file_epoch (Stored s) = lr_revocation_epoch s"
  by (simp add: file_epoch_def)

lemma file_epoch_load: "Transaction_load X file = Inr s \<Longrightarrow> file_epoch file = lr_revocation_epoch s"
  by (auto simp: Transaction_load_def file_epoch_def result_simps split: registry_file.splits)

text \<open>What each transaction writes, if it writes.\<close>

lemma pin_writes:
  assumes "pin X l disk device file = (r, file')"
  obtains "file' = file" "r \<noteq> Inr ()"
  | s device' where "Transaction_load X file = Inr s"
      "\<forall>x \<in> set (devices_of s). dv_fingerprint x = dv_fingerprint device \<longrightarrow> dv_active x"
      "same_identity device' device" "dv_active device'" "dv_label device' = dv_label device"
      "\<forall>x \<in> set (devices_of s). same_credential x device \<longrightarrow> dv_sign_count x \<le> dv_sign_count device'"
      "Transaction_write X disk (set_devices s (filter (\<lambda>x. dv_fingerprint x \<noteq> dv_fingerprint device)
         (devices_of s) @ [device'])) file = (r, file')"
proof -
  consider "file' = file" "r \<noteq> Inr ()"
    | s stored where "Transaction_load X file = Inr s" "dv_active device"
      "stored = find (\<lambda>x. dv_fingerprint x = dv_fingerprint device) (devices_of s)"
      "\<not> is_some_and (\<lambda>x. \<not> dv_active x) stored"
      "Transaction_write X disk (set_devices s (filter (\<lambda>x. dv_fingerprint x \<noteq> dv_fingerprint device)
         (devices_of s) @ [case stored of
               Some x \<Rightarrow> if same_credential x device
                 then device\<lparr>dv_sign_count := max (dv_sign_count device) (dv_sign_count x)\<rparr> else device
             | None \<Rightarrow> device])) file = (r, file')"
    using assms unfolding pin_def
    by (auto simp: Let_def dest!: snapshot_load split: sum.splits if_splits option.splits)
  then show thesis
  proof cases
    case 1
    then show thesis by (rule that(1))
  next
    case (2 s stored)
    have d: "distinct (map dv_fingerprint (devices_of s))"
      using registry_valid(4) [OF load_valid [OF 2(1)]] .
    have all: "\<forall>x \<in> set (devices_of s). dv_fingerprint x = dv_fingerprint device \<longrightarrow> stored = Some x"
    proof (intro ballI impI)
      fix x assume x: "x \<in> set (devices_of s)" "dv_fingerprint x = dv_fingerprint device"
      then obtain y where y: "stored = Some y" "y \<in> set (devices_of s)" "dv_fingerprint y = dv_fingerprint device"
        using 2(3) by (cases stored) (auto simp: find_None_iff dest: find_SomeD sym)
      with x d show "stored = Some x" by (metis (full_types) distinct_map inj_onD)
    qed
    show thesis
    proof (rule that(2) [OF 2(1) _ _ _ _ _ 2(5)])
      show "\<forall>x \<in> set (devices_of s). dv_fingerprint x = dv_fingerprint device \<longrightarrow> dv_active x"
        using all 2(4) by (auto simp: is_some_and_def)
      show "\<forall>x \<in> set (devices_of s). same_credential x device \<longrightarrow> dv_sign_count x \<le>
        dv_sign_count (case stored of Some x \<Rightarrow> if same_credential x device
                 then device\<lparr>dv_sign_count := max (dv_sign_count device) (dv_sign_count x)\<rparr> else device
             | None \<Rightarrow> device)"
        using all by (auto simp: same_credential_def)
    qed (use 2(2) in \<open>auto simp: same_identity_def same_credential_def split: option.splits\<close>)
  qed
qed

lemma disable_writes:
  assumes "revoke_disable X l disk fingerprint file = (r, file')"
  obtains "file' = file" "\<forall>p. r \<noteq> Inr (Some p)"
  | s d epoch w where "Transaction_load X file = Inr s" "d \<in> set (devices_of s)" "dv_fingerprint d = fingerprint"
      "epoch = (if dv_active d then lr_revocation_epoch s + 1 else lr_revocation_epoch s)"
      "Transaction_write X disk ((set_devices s (update_first (\<lambda>d. dv_fingerprint d = fingerprint)
         (\<lambda>d. d\<lparr>dv_active := False\<rparr>) (devices_of s)))\<lparr>lr_revocation_epoch := epoch\<rparr>) file = (w, file')"
      "r = map_ok (\<lambda>_. Some (d\<lparr>dv_active := False\<rparr>, epoch)) w"
  using assms unfolding revoke_disable_def
  by (auto simp: Let_def dest!: snapshot_load find_SomeD split: sum.splits if_splits option.splits prod.splits)

lemma cleanup_writes:
  assumes "revoke_cleanup X l disk fingerprint pending file = (r, file')"
  obtains "file' = file"
      "r = Inr () \<Longrightarrow> \<exists>s. Transaction_load X file = Inr s \<and> (\<forall>d \<in> set (devices_of s). dv_fingerprint d \<noteq> fingerprint)"
  | s where "Transaction_load X file = Inr s"
      "Transaction_write X disk (set_devices s (filter (\<lambda>d. dv_fingerprint d \<noteq> fingerprint) (devices_of s))) file
         = (r, file')"
  using assms unfolding revoke_cleanup_def
  by (auto simp: list_ex_iff dest!: snapshot_load split: sum.splits if_splits option.splits prod.splits)

lemma authorize_writes:
  assumes "authorize_in X disk device epoch expires_at observed warning_only clock file = (r, file')"
  obtains "file' = file"
  | s count w where "Transaction_load X file = Inr s"
      "\<forall>x \<in> set (devices_of s). dv_active x \<and> same_identity x device \<longrightarrow> dv_sign_count x \<le> count"
      "Transaction_write X disk (set_devices s (update_first (\<lambda>x. dv_active x \<and> same_identity x device)
         (\<lambda>x. x\<lparr>dv_sign_count := count\<rparr>) (devices_of s))) file = (w, file')"
proof -
  consider "file' = file" | s stored count w where "Transaction_load X file = Inr s"
      "find (\<lambda>x. dv_active x \<and> same_identity x device) (devices_of s) = Some stored" "dv_sign_count stored < count"
      "Transaction_write X disk (set_devices s (update_first (\<lambda>x. dv_active x \<and> same_identity x device)
         (\<lambda>x. x\<lparr>dv_sign_count := count\<rparr>) (devices_of s))) file = (w, file')"
    using assms unfolding authorize_in_def
    by (auto split: sum.splits if_splits option.splits prod.splits)
  then show thesis
  proof cases
    case 1
    then show thesis by (rule that(1))
  next
    case (2 s stored count w)
    have "x = stored" if "x \<in> set (devices_of s)" "dv_active x \<and> same_identity x device" for x
      using that find_SomeD [OF 2(2)]
      by (intro one_device [OF 2(1)]) (auto simp: same_identity_def same_credential_def)
    with 2(3) have "\<forall>x \<in> set (devices_of s). dv_active x \<and> same_identity x device \<longrightarrow> dv_sign_count x \<le> count"
      by force
    then show thesis by (rule that(2) [OF 2(1) _ 2(4)])
  qed
qed

lemma step_epoch_mono:
  assumes "registry_step X file file'"
  shows "file_epoch file \<le> file_epoch file'"
  using assms
proof cases
  case (step_pin l disk device r)
  then show ?thesis
    by (rule pin_writes) (auto dest!: write_file(1) simp: file_epoch_load)
next
  case (step_disable l disk fingerprint r)
  then show ?thesis
    by (rule disable_writes) (auto dest!: write_file(1) simp: file_epoch_load)
next
  case (step_cleanup l disk fingerprint pending r)
  then show ?thesis
    by (rule cleanup_writes) (auto dest!: write_file(1) simp: file_epoch_load)
next
  case (step_authorize disk device epoch expires_at observed warning_only clock r)
  then show ?thesis
    by (rule authorize_writes) (auto dest!: write_file(1) simp: file_epoch_load)
qed

lemma steps_epoch_mono:
  "(registry_step X)\<^sup>*\<^sup>* file file' \<Longrightarrow> file_epoch file \<le> file_epoch file'"
  by (induction rule: rtranclp_induct) (auto dest: step_epoch_mono)

lemma disable_moves_epoch:
  assumes "revoke_disable X l disk fingerprint file = (Inr (Some (tombstone, e)), file')"
    and "Transaction_load X file = Inr s" "d \<in> set (devices_of s)" "dv_fingerprint d = fingerprint" "dv_active d"
  shows "file_epoch file < file_epoch file'"
  using assms(1)
proof (rule disable_writes)
  fix s' d' epoch w
  assume l: "Transaction_load X file = Inr s'" and d': "d' \<in> set (devices_of s')" "dv_fingerprint d' = fingerprint"
    and e: "epoch = (if dv_active d' then lr_revocation_epoch s' + 1 else lr_revocation_epoch s')"
    and w: "Transaction_write X disk ((set_devices s' (update_first (\<lambda>d. dv_fingerprint d = fingerprint)
         (\<lambda>d. d\<lparr>dv_active := False\<rparr>) (devices_of s')))\<lparr>lr_revocation_epoch := epoch\<rparr>) file = (w, file')"
    and r: "Inr (Some (tombstone, e)) = map_ok (\<lambda>_. Some (d'\<lparr>dv_active := False\<rparr>, epoch)) w"
  from l assms(2) have "s' = s" by simp
  moreover have "d' = d"
    using d' assms(3,4) \<open>s' = s\<close> by (intro one_device [OF assms(2)]) auto
  moreover from r have "w = Inr ()" by (cases w) auto
  ultimately show ?thesis
    using write_file(2) [OF w] e l assms(5) by (auto simp: file_epoch_load)
qed simp

text \<open>C7: revocation fences every request that was open when it committed. After a snapshot, any
  transactions, a committed disabling of any active device, and any further transactions
  (including removing the record and pinning the very same key again), the final gate never
  authorizes a request of that snapshot, on whatever device it was approved.\<close>

theorem revoked_snapshot_never_authorizes:
  assumes "Transaction_load X file0 = Inr s0" "(registry_step X)\<^sup>*\<^sup>* file0 file1"
    and "Transaction_load X file1 = Inr s1" "d \<in> set (devices_of s1)" "dv_active d"
    and "revoke_disable X l disk (dv_fingerprint d) file1 = (Inr (Some p), file2)"
    and "(registry_step X)\<^sup>*\<^sup>* file2 file3"
  shows "fst (authorize_in X disk' device (lr_revocation_epoch s0) expires_at observed warning_only clock file3)
    \<noteq> Inr ()"
proof -
  obtain tombstone e where p: "p = (tombstone, e)" by (cases p)
  have "file_epoch file0 \<le> file_epoch file1" by (rule steps_epoch_mono [OF assms(2)])
  also have "\<dots> < file_epoch file2"
    by (rule disable_moves_epoch [OF assms(6) [unfolded p] assms(3,4) refl assms(5)])
  also have "\<dots> \<le> file_epoch file3" by (rule steps_epoch_mono [OF assms(7)])
  finally have "lr_revocation_epoch s0 < file_epoch file3" by (simp add: file_epoch_load [OF assms(1)])
  then show ?thesis
    using file_epoch_load [of X file3] by (auto simp: authorize_in_def split: sum.splits)
qed

text \<open>the gate. It says yes only for an unexpired request of the current epoch whose device is
  stored, active and unchanged in every identifying field; the registry it leaves differs at most
  in the signature counter of that device, raised to the observed value.\<close>

theorem authorize_in_sound:
  assumes "authorize_in X disk device epoch expires_at observed warning_only clock file = (Inr (), file')"
  shows "\<exists>s stored. Transaction_load X file = Inr s \<and> lr_revocation_epoch s = epoch \<and> clock < expires_at \<and>
    stored \<in> set (devices_of s) \<and> dv_active stored \<and> same_identity stored device \<and>
    (file' = file \<or> (\<exists>count. observed = Some count \<and> dv_sign_count stored < count \<and>
       file' = Stored (set_devices s (map (\<lambda>x. if x = stored then x\<lparr>dv_sign_count := count\<rparr> else x) (devices_of s)))))"
proof -
  let ?P = "\<lambda>x. dv_active x \<and> same_identity x device"
  from assms obtain s stored where l: "Transaction_load X file = Inr s" and e: "lr_revocation_epoch s = epoch"
    and f: "find ?P (devices_of s) = Some stored" and c: "clock < expires_at"
    and w: "file' = file \<or> (\<exists>count r. observed = Some count \<and> dv_sign_count stored < count \<and>
      Transaction_write X disk (set_devices s (update_first ?P (\<lambda>x. x\<lparr>dv_sign_count := count\<rparr>) (devices_of s)))
        file = (r, file'))"
    unfolding authorize_in_def
    by (auto split: sum.splits if_splits option.splits prod.splits)
  note st = find_SomeD [OF f]
  have P: "?P x \<longleftrightarrow> x = stored" if "x \<in> set (devices_of s)" for x
    using that st by (auto intro!: one_device [OF l] simp: same_identity_def same_credential_def)
  have d: "distinct (devices_of s)"
    using registry_valid(4) [OF load_valid [OF l]] by (simp add: distinct_map)
  have "update_first ?P g xs = map (\<lambda>x. if x = stored then g x else x) xs"
    if "set xs \<subseteq> set (devices_of s)" "distinct xs" for xs g
    using that
  proof (induction xs)
    case (Cons x xs)
    then show ?case using P [of x] by (auto intro!: map_idI [symmetric])
  qed simp
  from this [OF subset_refl d] w have "file' = file \<or> (\<exists>count. observed = Some count \<and> dv_sign_count stored < count \<and>
       file' = Stored (set_devices s (map (\<lambda>x. if x = stored then x\<lparr>dv_sign_count := count\<rparr> else x) (devices_of s))))"
    by (auto dest: write_file(1))
  with l e c st show ?thesis by blast
qed

text \<open>what pinning commits. On success the registry is valid and holds the device exactly once,
  active, under all its identifying fields; every other record and the epoch are as before; the
  stored record it replaced, if any, was active and its counter is not lowered.\<close>

theorem pin_sound:
  assumes "pin X l disk device file = (Inr (), file')"
  shows "\<exists>s s' d'. Transaction_load X file = Inr s \<and> file' = Stored s' \<and>
    DeviceRegistryV1_validate X (lr_registry s') = Inr () \<and> lr_revocation_epoch s' = lr_revocation_epoch s \<and>
    d' \<in> set (devices_of s') \<and> dv_active d' \<and> same_identity d' device \<and>
    {x \<in> set (devices_of s'). dv_fingerprint x \<noteq> dv_fingerprint device}
      = {x \<in> set (devices_of s). dv_fingerprint x \<noteq> dv_fingerprint device} \<and>
    {x \<in> set (devices_of s'). dv_fingerprint x = dv_fingerprint device} = {d'} \<and>
    (\<forall>x \<in> set (devices_of s). dv_fingerprint x = dv_fingerprint device \<longrightarrow> dv_active x) \<and>
    (\<forall>x \<in> set (devices_of s). same_credential x device \<longrightarrow> dv_sign_count x \<le> dv_sign_count d')"
  using assms
proof (rule pin_writes)
  fix s device'
  assume a: "Transaction_load X file = Inr s"
      "\<forall>x \<in> set (devices_of s). dv_fingerprint x = dv_fingerprint device \<longrightarrow> dv_active x"
      "same_identity device' device" "dv_active device'"
      "\<forall>x \<in> set (devices_of s). same_credential x device \<longrightarrow> dv_sign_count x \<le> dv_sign_count device'"
    and w: "Transaction_write X disk (set_devices s (filter (\<lambda>x. dv_fingerprint x \<noteq> dv_fingerprint device)
         (devices_of s) @ [device'])) file = (Inr (), file')"
  have "dv_fingerprint device' = dv_fingerprint device"
    using a(3) by (simp add: same_identity_def same_credential_def)
  with a write_file(2) [OF w] show ?thesis
    by (intro exI [of _ s] exI [of _ "set_devices s (filter (\<lambda>x. dv_fingerprint x \<noteq> dv_fingerprint device)
         (devices_of s) @ [device'])"] exI [of _ device']) auto
qed simp

section \<open>Tombstones\<close>

definition disabled_in :: "string \<Rightarrow> registry_file \<Rightarrow> bool" where
  "disabled_in fingerprint file = (case file of
     Stored s \<Rightarrow> (\<forall>d \<in> set (devices_of s). dv_fingerprint d = fingerprint \<longrightarrow> \<not> dv_active d)
   | _ \<Rightarrow> True)"

definition tombstone_in :: "string \<Rightarrow> registry_file \<Rightarrow> bool" where
  "tombstone_in fingerprint file = (case file of
     Stored s \<Rightarrow> (\<exists>d \<in> set (devices_of s). dv_fingerprint d = fingerprint \<and> \<not> dv_active d)
   | _ \<Rightarrow> False)"

lemma disable_disables:
  assumes "revoke_disable X l disk fingerprint file = (Inr (Some p), file')"
  shows "disabled_in fingerprint file' \<and> tombstone_in fingerprint file'"
  using assms
proof (rule disable_writes)
  fix s d epoch w
  assume l: "Transaction_load X file = Inr s" and d: "d \<in> set (devices_of s)" "dv_fingerprint d = fingerprint"
    and w: "Transaction_write X disk ((set_devices s (update_first (\<lambda>d. dv_fingerprint d = fingerprint)
         (\<lambda>d. d\<lparr>dv_active := False\<rparr>) (devices_of s)))\<lparr>lr_revocation_epoch := epoch\<rparr>) file = (w, file')"
    and r: "Inr (Some p) = map_ok (\<lambda>_. Some (d\<lparr>dv_active := False\<rparr>, epoch)) w"
  let ?u = "update_first (\<lambda>d. dv_fingerprint d = fingerprint) (\<lambda>d. d\<lparr>dv_active := False\<rparr>) (devices_of s)"
  from r have "w = Inr ()" by (cases w) auto
  with write_file(2) [OF w] have f: "file' = Stored ((set_devices s ?u)\<lparr>lr_revocation_epoch := epoch\<rparr>)" by simp
  have "\<not> dv_active y" if y: "y \<in> set ?u" "dv_fingerprint y = fingerprint" for y
    using update_first_distinct [OF registry_valid(4) [OF load_valid [OF l]] _ _ y(1) y(2)] by auto
  moreover have "map dv_fingerprint ?u = map dv_fingerprint (devices_of s)" by (rule update_first_same) simp
  then have "fingerprint \<in> set (map dv_fingerprint ?u)" using d by auto
  ultimately show ?thesis unfolding f disabled_in_def tombstone_in_def by auto
qed simp

lemma tombstone_step:
  assumes "registry_step X file file'" "tombstone_in fingerprint file" "file' \<noteq> file"
  shows "disabled_in fingerprint file'"
proof -
  have dis: "disabled_in fingerprint file'"
    if "Transaction_load X file = Inr s" "Transaction_write X disk s' file = (w, file')"
      "\<forall>y \<in> set (devices_of s'). dv_fingerprint y = fingerprint \<longrightarrow> \<not> dv_active y" for s s' disk w
    using that write_file(1) [OF that(2)] assms(3) by (auto simp: disabled_in_def)
  have old: "\<not> dv_active y" if "Transaction_load X file = Inr s" "y \<in> set (devices_of s)"
    "dv_fingerprint y = fingerprint" for s y
  proof -
    from assms(2) that(1) obtain d where "d \<in> set (devices_of s)" "dv_fingerprint d = fingerprint" "\<not> dv_active d"
      by (auto simp: tombstone_in_def split: registry_file.splits)
    with one_device [OF that(1,2) this(1)] that(3) show ?thesis by simp
  qed
  from assms(1) show ?thesis
  proof cases
    case (step_pin l disk device r)
    then show ?thesis
    proof (rule pin_writes)
      fix s device'
      assume a: "Transaction_load X file = Inr s"
        "\<forall>x \<in> set (devices_of s). dv_fingerprint x = dv_fingerprint device \<longrightarrow> dv_active x"
        "same_identity device' device"
        and w: "Transaction_write X disk (set_devices s (filter (\<lambda>x. dv_fingerprint x \<noteq> dv_fingerprint device)
         (devices_of s) @ [device'])) file = (r, file')"
      from assms(2) a(1) obtain x where "x \<in> set (devices_of s)" "dv_fingerprint x = fingerprint"
        by (auto simp: tombstone_in_def split: registry_file.splits)
      with a old [OF a(1)] have "dv_fingerprint device' \<noteq> fingerprint"
        by (auto simp: same_identity_def same_credential_def)
      with old [OF a(1)] show ?thesis by (intro dis [OF a(1) w]) auto
    qed (use assms(3) in simp)
  next
    case (step_disable l disk fp r)
    then show ?thesis
    proof (rule disable_writes)
      fix s d epoch w
      assume a: "Transaction_load X file = Inr s"
        and w: "Transaction_write X disk ((set_devices s (update_first (\<lambda>d. dv_fingerprint d = fp)
         (\<lambda>d. d\<lparr>dv_active := False\<rparr>) (devices_of s)))\<lparr>lr_revocation_epoch := epoch\<rparr>) file = (w, file')"
      show ?thesis by (rule dis [OF a w]) (auto dest!: set_update_first old [OF a])
    qed (use assms(3) in simp)
  next
    case (step_cleanup l disk fp pending r)
    then show ?thesis
    proof (rule cleanup_writes)
      fix s
      assume a: "Transaction_load X file = Inr s"
        and w: "Transaction_write X disk (set_devices s (filter (\<lambda>d. dv_fingerprint d \<noteq> fp) (devices_of s))) file
         = (r, file')"
      show ?thesis by (rule dis [OF a w]) (auto dest: old [OF a])
    qed (use assms(3) in simp)
  next
    case (step_authorize disk device epoch expires_at observed warning_only clock r)
    then show ?thesis
    proof (rule authorize_writes)
      fix s count w
      assume a: "Transaction_load X file = Inr s"
        and w: "Transaction_write X disk (set_devices s (update_first (\<lambda>x. dv_active x \<and> same_identity x device)
         (\<lambda>x. x\<lparr>dv_sign_count := count\<rparr>) (devices_of s))) file = (w, file')"
      show ?thesis by (rule dis [OF a w]) (auto dest!: set_update_first old [OF a])
    qed (use assms(3) in simp)
  qed
qed

text \<open>C8: a pending revocation holds. A committed disabling leaves the device inactive at once, before
  the server is asked, and no transaction of any process makes a device with a tombstone active
  again; pinning in particular refuses it.\<close>

theorem revocation_holds:
  "(revoke_disable X l disk fingerprint file = (Inr (Some p), file')
      \<longrightarrow> disabled_in fingerprint file' \<and> tombstone_in fingerprint file') \<and>
   (tombstone_in fingerprint file1 \<and> registry_step X file1 file2
      \<longrightarrow> file2 = file1 \<or> disabled_in fingerprint file2)"
  using disable_disables tombstone_step by blast

text \<open>a revocation that reports success has removed the device: the remote revoke was confirmed
  and the committed registry has no record under the fingerprint.\<close>

theorem revoke_with_success:
  assumes "revoke_with X env fingerprint file = (Inr (), file')"
  shows "re_remote env = Inr () \<and>
    (\<exists>s. Transaction_load X file' = Inr s \<and> (\<forall>d \<in> set (devices_of s). dv_fingerprint d \<noteq> fingerprint))"
proof -
  from assms obtain pending file1 where r: "re_remote env = Inr ()"
    and c: "revoke_cleanup X (re_lock2 env) (re_disk2 env) fingerprint pending (re_between env file1) = (Inr (), file')"
    unfolding revoke_with_def Let_def by (auto split: if_splits sum.splits prod.splits)
  from c have "\<exists>s. Transaction_load X file' = Inr s \<and> (\<forall>d \<in> set (devices_of s). dv_fingerprint d \<noteq> fingerprint)"
    by (rule cleanup_writes) (auto dest!: write_file(2))
  with r show ?thesis by blast
qed

section \<open>Waiting for the lock\<close>

text \<open>waiting for the registry is bounded and retries contention only. The wait ends at most one
  retry after the budget; it ends with \<open>Busy\<close> only if the lock was busy at the budget's end, and
  otherwise with what the lock call found at that moment, every earlier call having found it busy.\<close>

theorem acquire_for_decision_bounded:
  "snd (acquire_for_decision attempt now) < now + DECISION_LOCK_BUDGET + DECISION_LOCK_RETRY \<and>
   fst (acquire_for_decision attempt now)
     = acquire ''.devices.lock'' (attempt (snd (acquire_for_decision attempt now))) \<and>
   (fst (acquire_for_decision attempt now) = Inl (Busy ''.devices.lock'')
      \<longrightarrow> now + DECISION_LOCK_BUDGET \<le> snd (acquire_for_decision attempt now))"
proof -
  have "t \<le> give_up + DECISION_LOCK_RETRY - 1 \<Longrightarrow>
     snd (acquire_until attempt give_up t) < give_up + DECISION_LOCK_RETRY \<and>
     fst (acquire_until attempt give_up t) = acquire ''.devices.lock'' (attempt (snd (acquire_until attempt give_up t))) \<and>
     (fst (acquire_until attempt give_up t) = Inl (Busy ''.devices.lock'') \<longrightarrow> give_up \<le> snd (acquire_until attempt give_up t))"
    for t give_up
  proof (induction attempt give_up t rule: acquire_until.induct)
    case (1 attempt give_up now)
    show ?case
    proof (cases "attempt now")
      case LockBusy
      then show ?thesis
        using 1 by (cases "now < give_up") (auto simp: acquire_until.simps [of attempt give_up now] DECISION_LOCK_RETRY_def)
    qed (use "1.prems" in \<open>auto simp: acquire_until.simps [of attempt give_up now] DECISION_LOCK_RETRY_def\<close>)
  qed
  from this [of now "now + DECISION_LOCK_BUDGET"] show ?thesis
    by (simp add: acquire_for_decision_def DECISION_LOCK_RETRY_def)
qed

section \<open>A sample registry\<close>

definition sample_state :: "bool \<Rightarrow> nat \<Rightarrow> LocalRegistry" where
  "sample_state b e = \<lparr>lr_registry = \<lparr>rg_version = 1,
     rg_devices = [(sample_native SecureEnclave)\<lparr>dv_active := b\<rparr>]\<rparr>, lr_revocation_epoch = e\<rparr>"

lemma validate_ignores_active:
  "DevicePublicRecordV1_validate X (d\<lparr>dv_active := b\<rparr>) = DevicePublicRecordV1_validate X d"
  unfolding DevicePublicRecordV1_validate_def device_key_def
  by (cases d) (simp only: DevicePublicRecordV1.update_convs DevicePublicRecordV1.select_convs)

lemma sample_device_valid:
  "DevicePublicRecordV1_validate sample ((sample_native SecureEnclave)\<lparr>dv_active := b\<rparr>) = Inr ()"
  using sample_native_valid [of SecureEnclave] by (simp add: validate_ignores_active)

lemma sample_state_valid: "DeviceRegistryV1_validate sample (lr_registry (sample_state b e)) = Inr ()"
  by (simp add: sample_state_def DeviceRegistryV1_validate_def sample_device_valid VERSION_V1_def MAX_DEVICES_def)

lemma sample_load [simp]: "Transaction_load sample (Stored (sample_state b e)) = Inr (sample_state b e)"
  by (simp add: sample_state_valid)

lemma sample_snapshot [simp]: "snapshot sample Locked (Stored (sample_state b e)) = Inr (sample_state b e)"
  by (simp add: snapshot_def)

lemma sample_write [simp]:
  "Transaction_write sample DiskOk (sample_state b e) file = (Inr (), Stored (sample_state b e))"
  by (simp add: Transaction_write_def atomic_write_json_def sample_state_valid)

abbreviation sample_fp :: string where "sample_fp \<equiv> dv_fingerprint (sample_native SecureEnclave)"

lemma sample_active: "(sample_native SecureEnclave)\<lparr>dv_active := True\<rparr> = sample_native SecureEnclave"
  by (simp add: sample_native_def)

lemma sample_devices [simp]: "devices_of (sample_state b e) = [(sample_native SecureEnclave)\<lparr>dv_active := b\<rparr>]"
  "lr_revocation_epoch (sample_state b e) = e"
  by (simp_all add: sample_state_def)

lemma sample_set_devices: "(set_devices (sample_state b e) [(sample_native SecureEnclave)\<lparr>dv_active := b'\<rparr>])
    \<lparr>lr_revocation_epoch := e'\<rparr> = sample_state b' e'"
  by (simp add: set_devices_def sample_state_def)

lemma sample_disable:
  "revoke_disable sample Locked DiskOk sample_fp (Stored (sample_state True 0))
   = (Inr (Some ((sample_native SecureEnclave)\<lparr>dv_active := False\<rparr>, 1)), Stored (sample_state False 1))"
  by (simp add: revoke_disable_def Let_def u64_max_def sample_set_devices)

definition sample_empty :: LocalRegistry where
  "sample_empty = \<lparr>lr_registry = \<lparr>rg_version = 1, rg_devices = []\<rparr>, lr_revocation_epoch = 1\<rparr>"

lemma sample_empty_valid: "DeviceRegistryV1_validate sample (lr_registry sample_empty) = Inr ()"
  by (simp add: sample_empty_def DeviceRegistryV1_validate_def VERSION_V1_def MAX_DEVICES_def)

lemma sample_cleanup:
  "revoke_cleanup sample Locked DiskOk sample_fp (Some ((sample_native SecureEnclave)\<lparr>dv_active := False\<rparr>, 1))
     (Stored (sample_state False 1)) = (Inr (), Stored sample_empty)"
proof -
  have "set_devices (sample_state False 1) [] = sample_empty"
    by (simp add: set_devices_def sample_state_def sample_empty_def)
  then show ?thesis
    by (simp add: revoke_cleanup_def Transaction_write_def atomic_write_json_def sample_empty_valid)
qed

lemma sample_pin:
  "pin sample Locked DiskOk (sample_native SecureEnclave) (Stored sample_empty)
   = (Inr (), Stored (sample_state True 1))"
proof -
  have s: "snapshot sample Locked (Stored sample_empty) = Inr sample_empty"
    by (simp add: snapshot_def sample_empty_valid)
  have "set_devices sample_empty [sample_native SecureEnclave] = sample_state True 1"
    by (simp add: set_devices_def sample_state_def sample_empty_def sample_active)
  then show ?thesis
    using sample_native_valid [of SecureEnclave] unfolding pin_def s
    by (simp add: Let_def) (simp add: sample_native_def sample_empty_def)
qed

text \<open>The same key is pinned again after its revocation; the old snapshot stays fenced off.\<close>

theorem revoked_snapshot_never_authorizes_witness:
  "fst (authorize_in sample DiskOk (sample_native SecureEnclave) 0 100 None False 10 (Stored (sample_state True 1)))
     \<noteq> Inr () \<and>
   fst (authorize_in sample DiskOk (sample_native SecureEnclave) 0 100 None False 10 (Stored (sample_state True 0)))
     = Inr ()"
proof -
  have "registry_step sample (Stored (sample_state False 1)) (Stored sample_empty)"
    "registry_step sample (Stored sample_empty) (Stored (sample_state True 1))"
    using step_cleanup [OF sample_cleanup] step_pin [OF sample_pin] by blast+
  then have "(registry_step sample)\<^sup>*\<^sup>* (Stored (sample_state False 1)) (Stored (sample_state True 1))" by auto
  then have "fst (authorize_in sample DiskOk (sample_native SecureEnclave)
      (lr_revocation_epoch (sample_state True 0)) 100 None False 10 (Stored (sample_state True 1))) \<noteq> Inr ()"
    using sample_disable
    by (intro revoked_snapshot_never_authorizes [of sample "Stored (sample_state True 0)" _
          "Stored (sample_state True 0)" "sample_state True 0" "(sample_native SecureEnclave)\<lparr>dv_active := True\<rparr>"])
      (simp_all add: sample_state_valid)
  then show ?thesis
    by (simp add: authorize_in_def same_identity_def same_credential_def)
qed

lemma sample_authorize:
  "authorize_in sample DiskOk (sample_native SecureEnclave) 0 100 None False 10 (Stored (sample_state True 0))
   = (Inr (), Stored (sample_state True 0))"
  by (simp add: authorize_in_def same_identity_def same_credential_def)

theorem authorize_in_sound_witness:
  "\<exists>stored \<in> set (devices_of (sample_state True 0)). dv_active stored \<and> same_identity stored (sample_native SecureEnclave)"
  using authorize_in_sound [OF sample_authorize] by auto

theorem pin_sound_witness:
  "\<exists>d' \<in> set (devices_of (sample_state True 1)). dv_active d' \<and> same_identity d' (sample_native SecureEnclave)"
  using pin_sound [OF sample_pin] by auto

theorem revocation_holds_witness:
  "disabled_in sample_fp (Stored (sample_state False 1)) \<and> tombstone_in sample_fp (Stored (sample_state False 1))"
  using revocation_holds [of sample Locked DiskOk sample_fp "Stored (sample_state True 0)"] sample_disable by blast

definition sample_revoke :: revoke_env where
  "sample_revoke = \<lparr>re_lifecycle = Locked, re_lock1 = Locked, re_disk1 = DiskOk, re_remote = Inr (),
     re_between = id, re_lock2 = Locked, re_disk2 = DiskOk, re_readback = Locked\<rparr>"

lemma sample_revokes: "revoke_with sample sample_revoke sample_fp (Stored (sample_state True 0)) = (Inr (), Stored sample_empty)"
proof -
  have "(case decode_base64url sample sample_fp of Inl _ \<Rightarrow> True | Inr bs \<Rightarrow> length bs \<noteq> 16) = False"
    by (simp add: sample_native_def device_fingerprint_def encode_base64url_def)
  then show ?thesis
    using sample_disable sample_cleanup unfolding revoke_with_def by (simp add: sample_revoke_def Let_def)
qed

theorem revoke_with_success_witness:
  "\<exists>s. Transaction_load sample (Stored sample_empty) = Inr s \<and> sample_fp \<notin> dv_fingerprint ` set (devices_of s)"
  using revoke_with_success [OF sample_revokes] by fastforce

theorem acquire_for_decision_bounded_witness:
  "2000 \<le> snd (acquire_for_decision (\<lambda>_. LockBusy) 0) \<and> snd (acquire_for_decision (\<lambda>_. LockBusy) 0) < 2025"
  using acquire_for_decision_bounded [of "\<lambda>_. LockBusy" 0]
  by (simp add: DECISION_LOCK_BUDGET_def DECISION_LOCK_RETRY_def)

end
