(* ===== verification/Hook_Decision.thy ===== *)
theory Hook_Decision
  imports Transport_Nats Enrollment_V1 Hook_Registry
begin

text \<open>
  What the hook does with a decision (\<open>hook/src/main.rs\<close>): the classes of errors and their exit
  codes, \<open>apply_decision\<close> and \<open>apply_auth_decision\<close> with the final authorization gate, and the
  rule that the first valid decision wins. The world outside is a record: the clock, the hook
  configuration file, the verdict the server has recorded, the registry lock and the disk.
\<close>

section \<open>Errors\<close>

text \<open>An \<open>anyhow\<close> error by what its chain contains; any other error is a refusal.\<close>

datatype hook_error =
    InvalidDecision string
  | ApprovalUnavailable string
  | TransportFailure HookTransportFailure
  | Refusal string

definition CHECK_RC_DENIED :: int where "CHECK_RC_DENIED = 1"
definition CHECK_RC_UNAVAILABLE :: int where "CHECK_RC_UNAVAILABLE = 2"

definition is_invalid_decision :: "hook_error \<Rightarrow> bool" where
  "is_invalid_decision e = (case e of InvalidDecision _ \<Rightarrow> True | _ \<Rightarrow> False)"

definition check_error_exit_code :: "hook_error \<Rightarrow> int" where
  "check_error_exit_code e = (case e of
     ApprovalUnavailable _ \<Rightarrow> CHECK_RC_UNAVAILABLE
   | TransportFailure _ \<Rightarrow> CHECK_RC_UNAVAILABLE
   | InvalidDecision _ \<Rightarrow> CHECK_RC_UNAVAILABLE
   | Refusal _ \<Rightarrow> CHECK_RC_DENIED)"

definition invalid_because :: "string \<Rightarrow> error \<Rightarrow> hook_error" where
  "invalid_because context e = InvalidDecision context"

section \<open>The outside world\<close>

record hook_env =
  he_now :: i64
  he_gate_clock :: i64
  he_config :: "string + HookConfigV1"
  he_recorded :: "string \<Rightarrow> DecisionV1 option"
  he_attempt :: "nat \<Rightarrow> lock_result"
  he_start :: nat
  he_disk :: disk_result

definition load_hook_config_from :: "hook_env \<Rightarrow> string + HookConfigV1" where
  "load_hook_config_from env =
     and_then (he_config env) (\<lambda>config.
       and_then (map_err (\<lambda>_. ''invalid hook config'') (HookConfigV1_validate config)) (\<lambda>_. Inr config))"

definition denial_confirmed_by :: "DecisionV1 \<Rightarrow> DenyV1 \<Rightarrow> bool" where
  "denial_confirmed_by recorded denial = (case recorded of
     Deny r \<Rightarrow> dn_request_id r = dn_request_id denial \<and>
       dn_device_fingerprint r = dn_device_fingerprint denial
   | _ \<Rightarrow> False)"

definition server_confirms_denial :: "hook_env \<Rightarrow> DenyV1 \<Rightarrow> bool" where
  "server_confirms_denial env denial =
     is_some_and (\<lambda>recorded. denial_confirmed_by recorded denial) (he_recorded env (dn_request_id denial))"

definition final_authorization ::
  "crates \<Rightarrow> hook_env \<Rightarrow> DevicePublicRecordV1 \<Rightarrow> nat \<Rightarrow> i64 \<Rightarrow> u32 option \<Rightarrow> bool \<Rightarrow> registry_file
    \<Rightarrow> (hook_error + unit) \<times> registry_file" where
  "final_authorization X env device epoch expires_at observed authentication file =
     (case authorize X (he_attempt env) (he_start env) (he_disk env) device epoch expires_at observed
         authentication (he_gate_clock env) file of
        (Inl (Denied reason), file') \<Rightarrow> (Inl (Refusal reason), file')
      | (Inl (Host e), file') \<Rightarrow> (Inl (ApprovalUnavailable ''check the current device registry''), file')
      | (Inr _, file') \<Rightarrow> (Inr (), file'))"

text \<open>A step that may fail before the registry is touched.\<close>

definition guarded ::
  "registry_file \<Rightarrow> hook_error + 'a \<Rightarrow> ('a \<Rightarrow> (hook_error + unit) \<times> registry_file)
    \<Rightarrow> (hook_error + unit) \<times> registry_file" where
  "guarded file r k = (case r of Inl e \<Rightarrow> (Inl e, file) | Inr x \<Rightarrow> k x)"

section \<open>Command decisions\<close>

datatype DecisionLane = SocketLane | NatsLane

definition apply_decision ::
  "crates \<Rightarrow> hook_env \<Rightarrow> DecisionV1 \<Rightarrow> DecisionLane \<Rightarrow> RequestV1 \<Rightarrow> bytes \<Rightarrow> DevicePublicRecordV1 list \<Rightarrow> nat
    \<Rightarrow> registry_file \<Rightarrow> (hook_error + unit) \<times> registry_file" where
  "apply_decision X env decision lane request raw_request active snapshot_epoch file =
     (case decision of
        Deny denial \<Rightarrow>
          guarded file (map_err (invalid_because ''validate deny decision'') (DenyV1_validate_shape X denial)) (\<lambda>_.
          if dn_version denial \<noteq> VERSION_V1 \<or> dn_request_id denial \<noteq> rq_request_id request
          then (Inl (InvalidDecision ''malformed deny decision''), file)
          else guarded file (ok_or (find (\<lambda>d. dv_fingerprint d = dn_device_fingerprint denial) active)
             (InvalidDecision ''deny from unpinned device'')) (\<lambda>device.
          guarded file
            (if dn_signature denial \<noteq> None
             then map_err (invalid_because ''deny verification failed'') (verify_deny_v1 X denial device)
             else if lane \<noteq> NatsLane
             then Inl (InvalidDecision ''unsigned denial on the local socket; only the server relays unsigned denials'')
             else if dv_kind device \<noteq> Webauthn
             then Inl (InvalidDecision ''unsigned denial names a native device, which always signs'')
             else and_then (map_err (\<lambda>_. InvalidDecision ''cannot confirm an unsigned denial without hook.json'')
                 (load_hook_config_from env)) (\<lambda>_.
               if \<not> server_confirms_denial env denial
               then Inl (InvalidDecision ''denial is not server-confirmed'') else Inr ())) (\<lambda>_.
          if rq_expires_at request \<le> he_now env
          then (Inl (Refusal ''request expired before its verdict was applied''), file)
          else (Inl (Refusal ''request explicitly denied''), file))))
      | Approve approval \<Rightarrow>
          guarded file (map_err (invalid_because ''validate approval decision'') (ApproveV1_validate_shape X approval)) (\<lambda>_.
          if ap_request_id approval \<noteq> rq_request_id request
          then (Inl (InvalidDecision ''approval request id mismatch''), file)
          else guarded file (ok_or (find (\<lambda>d. dv_kind d = Webauthn \<and>
                dv_fingerprint d = ap_device_fingerprint approval \<and> dv_credential_id d = ap_credential_id approval) active)
             (InvalidDecision ''approval does not name one exact pinned credential'')) (\<lambda>device.
          guarded file (map_err (\<lambda>_. ApprovalUnavailable ''read the hook configuration'')
             (load_hook_config_from env)) (\<lambda>config.
          guarded file (map_err (invalid_because ''approval verification failed'')
             (verify_approval_v1 X approval raw_request device config)) (\<lambda>outcome.
          if rq_expires_at request \<le> he_now env
          then (Inl (Refusal ''request expired before its verdict was applied''), file)
          else final_authorization X env device snapshot_epoch (rq_expires_at request)
                 (Some (ao_observed_sign_count outcome)) False file))))
      | ApproveNative approval \<Rightarrow>
          guarded file (map_err (invalid_because ''validate native approval decision'')
             (ApproveNativeV1_validate_shape X approval)) (\<lambda>_.
          if an_request_id approval \<noteq> rq_request_id request
          then (Inl (InvalidDecision ''approval request id mismatch''), file)
          else guarded file (ok_or (find (\<lambda>d. (dv_kind d = Software \<or> dv_kind d = SecureEnclave) \<and>
                dv_fingerprint d = an_device_fingerprint approval) active)
             (InvalidDecision ''native approval does not name one pinned native device'')) (\<lambda>device.
          guarded file (map_err (invalid_because ''native approval verification failed'')
             (verify_native_approval_v1 X approval raw_request device)) (\<lambda>_.
          if rq_expires_at request \<le> he_now env
          then (Inl (Refusal ''request expired before its verdict was applied''), file)
          else final_authorization X env device snapshot_epoch (rq_expires_at request) None False file))))"

section \<open>Authentication decisions\<close>

definition apply_auth_decision ::
  "crates \<Rightarrow> hook_env \<Rightarrow> AuthDecisionV1 \<Rightarrow> AuthRequestV1 \<Rightarrow> bytes \<Rightarrow> DevicePublicRecordV1 list \<Rightarrow> nat
    \<Rightarrow> registry_file \<Rightarrow> (hook_error + unit) \<times> registry_file" where
  "apply_auth_decision X env decision request raw_request recipients snapshot_epoch file =
     (let verified_at = aq_issued_at request in
      case decision of
        AuthenticateNative approval \<Rightarrow>
          guarded file (map_err (invalid_because ''validate native authentication decision'')
             (AuthApproveNativeV1_validate_shape X approval)) (\<lambda>_.
          if aan_request_id approval \<noteq> aq_request_id request
          then (Inl (InvalidDecision ''authentication request id mismatch''), file)
          else guarded file (ok_or (find (\<lambda>d. dv_kind d = SecureEnclave \<and>
                dv_fingerprint d = aan_device_fingerprint approval) recipients)
             (InvalidDecision ''native authentication does not name one pinned Secure Enclave device'')) (\<lambda>device.
          guarded file (map_err (invalid_because ''native authentication verification failed'')
             (verify_native_authentication_v1 X approval raw_request device verified_at)) (\<lambda>_.
          if aq_expires_at request \<le> he_now env
          then (Inl (Refusal ''authentication request expired before its decision was applied''), file)
          else final_authorization X env device snapshot_epoch (aq_expires_at request) None True file)))
      | AuthenticateWebauthn approval \<Rightarrow>
          guarded file (map_err (invalid_because ''validate WebAuthn authentication decision'')
             (AuthApproveWebauthnV1_validate_shape X approval)) (\<lambda>_.
          if aaw_request_id approval \<noteq> aq_request_id request
          then (Inl (InvalidDecision ''authentication request id mismatch''), file)
          else guarded file (ok_or (find (\<lambda>d. dv_kind d = Webauthn \<and>
                dv_fingerprint d = aaw_device_fingerprint approval \<and> dv_credential_id d = aaw_credential_id approval) recipients)
             (InvalidDecision ''WebAuthn authentication does not name one exact pinned credential'')) (\<lambda>device.
          guarded file (map_err (\<lambda>_. ApprovalUnavailable ''read the hook configuration'')
             (load_hook_config_from env)) (\<lambda>config.
          guarded file (map_err (invalid_because ''WebAuthn authentication verification failed'')
             (verify_webauthn_authentication_v1 X approval raw_request device config verified_at)) (\<lambda>outcome.
          if aq_expires_at request \<le> he_now env
          then (Inl (Refusal ''authentication request expired before its decision was applied''), file)
          else final_authorization X env device snapshot_epoch (aq_expires_at request)
                 (Some (ao_observed_sign_count outcome)) True file)))))"

section \<open>The first valid decision wins\<close>

text \<open>The candidates are counted, and the check of each has its own number: it takes place at its own
  time, in the environment of that time. It yields no result when the deadline passes while it runs.\<close>

fun first_valid_decision ::
  "(nat \<Rightarrow> 'd \<Rightarrow> registry_file \<Rightarrow> (hook_error + unit) option \<times> registry_file) \<Rightarrow> nat
    \<Rightarrow> (HookTransportFailure + 'd) list \<Rightarrow> registry_file \<Rightarrow> (hook_error + unit) \<times> registry_file" where
  "first_valid_decision check n [] file =
     (Inl (ApprovalUnavailable ''the decision wait ended without a valid decision''), file)"
| "first_valid_decision check n (Inl f # items) file = (Inl (TransportFailure f), file)"
| "first_valid_decision check n (Inr decision # items) file =
     (case check n decision file of
        (None, file') \<Rightarrow>
          (Inl (ApprovalUnavailable ''the decision deadline passed while a decision was being checked''), file')
      | (Some (Inl (InvalidDecision _)), file') \<Rightarrow> first_valid_decision check (Suc n) items file'
      | (Some r, file') \<Rightarrow> (r, file'))"

text \<open>\<open>timeout_at\<close> around the check of candidate \<open>n\<close>: whether the deadline passed before it was done. A check that is
  dropped has not touched the registry, since the gate never waits once it holds the lock.\<close>

definition timed_check :: "(nat \<Rightarrow> bool) \<Rightarrow> (nat \<Rightarrow> 'd \<Rightarrow> registry_file \<Rightarrow> (hook_error + unit) \<times> registry_file)
    \<Rightarrow> nat \<Rightarrow> 'd \<Rightarrow> registry_file \<Rightarrow> (hook_error + unit) option \<times> registry_file" where
  "timed_check late check n d file =
     (if late n then (None, file) else case check n d file of (r, file') \<Rightarrow> (Some r, file'))"

definition socket_decision_outcome :: "hook_error + unit \<Rightarrow> hook_error + unit" where
  "socket_decision_outcome r = (case r of
     Inl e \<Rightarrow> Inl (if is_invalid_decision e
        then ApprovalUnavailable ''the local agent sent a decision this host cannot authenticate'' else e)
   | Inr _ \<Rightarrow> Inr ())"

definition decode_socket_command_decision :: "crates \<Rightarrow> bytes \<Rightarrow> hook_error + DecisionV1" where
  "decode_socket_command_decision X bs =
     (case decode_control_message X bs of
        Inr (Message (ControlDecision decision)) \<Rightarrow> Inr decision
      | Inr (Message _) \<Rightarrow>
          Inl (ApprovalUnavailable ''expected a socket decision but got a different control message'')
      | Inr (UnknownKind kind) \<Rightarrow>
          Inl (ApprovalUnavailable ''socket agent sent an unrecognized control message kind'')
      | Inl e \<Rightarrow> Inl (ApprovalUnavailable ''decode socket decision''))"

definition decode_socket_auth_decision :: "crates \<Rightarrow> bytes \<Rightarrow> hook_error + AuthDecisionV1" where
  "decode_socket_auth_decision X bs =
     (case decode_control_message X bs of
        Inr (Message (ControlAuthDecision decision)) \<Rightarrow> Inr decision
      | Inr (Message _) \<Rightarrow>
          Inl (ApprovalUnavailable ''expected a socket authentication decision but got a different control message'')
      | Inr (UnknownKind kind) \<Rightarrow>
          Inl (ApprovalUnavailable ''socket agent sent an unrecognized control message kind'')
      | Inl e \<Rightarrow> Inl (ApprovalUnavailable ''decode socket authentication decision''))"

section \<open>What an accepted decision means\<close>

lemma guarded_iff [result_simps]:
  "guarded file r k = (Inr (), file') \<longleftrightarrow> (\<exists>x. r = Inr x \<and> k x = (Inr (), file'))"
  by (auto simp: guarded_def split: sum.splits)

lemma guarded_refusal:
  "guarded file r k = (Inl (Refusal s), file') \<longleftrightarrow>
     r = Inl (Refusal s) \<and> file' = file \<or> (\<exists>x. r = Inr x \<and> k x = (Inl (Refusal s), file'))"
  by (auto simp: guarded_def split: sum.splits)

text \<open>The gate said yes: the request is of the current epoch and unexpired, and the device is stored,
  active and unchanged.\<close>

definition gate_passed :: "crates \<Rightarrow> hook_env \<Rightarrow> DevicePublicRecordV1 \<Rightarrow> nat \<Rightarrow> i64 \<Rightarrow> registry_file \<Rightarrow> bool" where
  "gate_passed X env device epoch expires_at file \<longleftrightarrow>
     (\<exists>s stored. Transaction_load X file = Inr s \<and> lr_revocation_epoch s = epoch \<and>
        he_gate_clock env < expires_at \<and> stored \<in> set (devices_of s) \<and> dv_active stored \<and> same_identity stored device)"

lemma final_authorization_passed:
  assumes "final_authorization X env device epoch expires_at observed authentication file = (Inr (), file')"
  shows "gate_passed X env device epoch expires_at file"
proof -
  from assms obtain file'' where
    "authorize_in X (he_disk env) device epoch expires_at observed authentication (he_gate_clock env) file = (Inr (), file'')"
    unfolding final_authorization_def authorize_def
    by (auto split: prod.splits sum.splits GateError.splits)
  then show ?thesis
    unfolding gate_passed_def authorize_in_def
    by (auto split: sum.splits if_splits option.splits prod.splits dest!: find_SomeD)
qed

text \<open>The gate said no: a revocation since the snapshot, no active device with this identity, or expiry.\<close>

definition gate_denied :: "crates \<Rightarrow> hook_env \<Rightarrow> DevicePublicRecordV1 \<Rightarrow> nat \<Rightarrow> i64 \<Rightarrow> registry_file \<Rightarrow> bool" where
  "gate_denied X env device epoch expires_at file \<longleftrightarrow>
     (\<exists>s. Transaction_load X file = Inr s \<and> (lr_revocation_epoch s \<noteq> epoch \<or>
        \<not> (\<exists>stored \<in> set (devices_of s). dv_active stored \<and> same_identity stored device) \<or> expires_at \<le> he_gate_clock env))"

lemma final_authorization_denied:
  assumes "final_authorization X env device epoch expires_at observed authentication file = (Inl (Refusal r), file')"
  shows "gate_denied X env device epoch expires_at file"
proof -
  from assms obtain reason file'' where
    "authorize_in X (he_disk env) device epoch expires_at observed authentication (he_gate_clock env) file = (Inl (Denied reason), file'')"
    unfolding final_authorization_def authorize_def
    by (auto split: prod.splits sum.splits GateError.splits)
  then show ?thesis
    unfolding gate_denied_def authorize_in_def
    by (auto simp: find_None_iff split: sum.splits if_splits option.splits prod.splits)
qed

text \<open>The proof a decision of the command lane carries for a request's bytes.\<close>

definition approval_proved ::
  "crates \<Rightarrow> hook_env \<Rightarrow> DecisionV1 \<Rightarrow> RequestV1 \<Rightarrow> bytes \<Rightarrow> DevicePublicRecordV1 \<Rightarrow> bool" where
  "approval_proved X env decision request raw device = (case decision of
     Approve a \<Rightarrow> ap_request_id a = rq_request_id request \<and>
       (\<exists>config outcome. load_hook_config_from env = Inr config \<and> verify_approval_v1 X a raw device config = Inr outcome)
   | ApproveNative a \<Rightarrow> an_request_id a = rq_request_id request \<and> verify_native_approval_v1 X a raw device = Inr ()
   | Deny _ \<Rightarrow> False)"

definition auth_proved ::
  "crates \<Rightarrow> hook_env \<Rightarrow> AuthDecisionV1 \<Rightarrow> AuthRequestV1 \<Rightarrow> bytes \<Rightarrow> DevicePublicRecordV1 \<Rightarrow> bool" where
  "auth_proved X env decision request raw device = (case decision of
     AuthenticateNative a \<Rightarrow> aan_request_id a = aq_request_id request \<and>
       verify_native_authentication_v1 X a raw device (aq_issued_at request) = Inr ()
   | AuthenticateWebauthn a \<Rightarrow> aaw_request_id a = aq_request_id request \<and>
       (\<exists>config outcome. load_hook_config_from env = Inr config \<and>
          verify_webauthn_authentication_v1 X a raw device config (aq_issued_at request) = Inr outcome))"

text \<open>A denial the hook may act on: signed by the named device, or unsigned for a browser device, over
  NATS, and found in the server's record.\<close>

definition denial_proved :: "crates \<Rightarrow> hook_env \<Rightarrow> DecisionV1 \<Rightarrow> DecisionLane \<Rightarrow> RequestV1 \<Rightarrow> DevicePublicRecordV1 \<Rightarrow> bool"
where
  "denial_proved X env decision lane request device = (case decision of
     Deny d \<Rightarrow> dn_request_id d = rq_request_id request \<and> dn_device_fingerprint d = dv_fingerprint device \<and>
       (dn_signature d \<noteq> None \<and> verify_deny_v1 X d device = Inr () \<or>
        dn_signature d = None \<and> lane = NatsLane \<and> dv_kind device = Webauthn \<and> server_confirms_denial env d)
   | _ \<Rightarrow> False)"

lemma apply_decision_accepts:
  assumes "apply_decision X env decision lane request raw active epoch file = (Inr (), file')"
  shows "\<exists>device \<in> set active. approval_proved X env decision request raw device \<and>
    he_now env < rq_expires_at request \<and> gate_passed X env device epoch (rq_expires_at request) file"
  using assms
  by (auto simp: apply_decision_def result_simps approval_proved_def not_le
      split: DecisionV1.splits if_splits dest!: final_authorization_passed find_SomeD)

lemma apply_auth_decision_accepts:
  assumes "apply_auth_decision X env decision request raw recipients epoch file = (Inr (), file')"
  shows "\<exists>device \<in> set recipients. auth_proved X env decision request raw device \<and>
    he_now env < aq_expires_at request \<and> gate_passed X env device epoch (aq_expires_at request) file"
  using assms
  by (auto simp: apply_auth_decision_def result_simps auth_proved_def not_le Let_def
      split: AuthDecisionV1.splits if_splits dest!: final_authorization_passed find_SomeD)

lemma final_authorization_not_invalid:
  "final_authorization X env device epoch expires_at observed authentication file \<noteq> (Inl (InvalidDecision e), file')"
  by (auto simp: final_authorization_def split: prod.splits sum.splits GateError.splits)

lemma guarded_invalid:
  "guarded file r k = (Inl (InvalidDecision e), file') \<longleftrightarrow>
     r = Inl (InvalidDecision e) \<and> file' = file \<or> (\<exists>x. r = Inr x \<and> k x = (Inl (InvalidDecision e), file'))"
  by (auto simp: guarded_def split: sum.splits)

lemma apply_decision_invalid_keeps:
  "apply_decision X env decision lane request raw active epoch file = (Inl (InvalidDecision e), file') \<Longrightarrow> file' = file"
  by (auto simp: apply_decision_def guarded_invalid final_authorization_not_invalid
      split: DecisionV1.splits if_splits)

lemma apply_auth_decision_invalid_keeps:
  "apply_auth_decision X env decision request raw recipients epoch file = (Inl (InvalidDecision e), file') \<Longrightarrow> file' = file"
  by (auto simp: apply_auth_decision_def guarded_invalid final_authorization_not_invalid Let_def
      split: AuthDecisionV1.splits if_splits)

text \<open>The interface of a lane: a check of one decision that accepts only what some recipient proved and
  that leaves the registry alone when it calls a decision invalid. The candidates of a stream are
  then judged by the first that is not invalid.\<close>

lemma timed_check_eq:
  "\<not> late n \<Longrightarrow> check n d file = (r, file') \<Longrightarrow> timed_check late check n d file = (Some r, file')"
  "late n \<Longrightarrow> timed_check late check n d file = (None, file)"
  by (simp_all add: timed_check_def)

locale decision_lane =
  fixes check :: "nat \<Rightarrow> 'd \<Rightarrow> registry_file \<Rightarrow> (hook_error + unit) \<times> registry_file"
    and proved :: "nat \<Rightarrow> 'd \<Rightarrow> registry_file \<Rightarrow> bool"
  assumes accepts: "check n d file = (Inr (), file') \<Longrightarrow> proved n d file"
    and invalid_keeps: "check n d file = (Inl (InvalidDecision e), file') \<Longrightarrow> file' = file"
begin

text \<open>The candidates before the one that decided were invalid, each at its own check.\<close>

definition skipped :: "nat \<Rightarrow> 'd list \<Rightarrow> registry_file \<Rightarrow> bool" where
  "skipped n before file \<longleftrightarrow> (\<forall>i < length before. \<exists>e. check (n + i) (before ! i) file = (Inl (InvalidDecision e), file))"

lemma skipped_Cons:
  "check n d file = (Inl (InvalidDecision e), file) \<Longrightarrow> skipped (Suc n) before file \<Longrightarrow> skipped n (d # before) file"
  unfolding skipped_def by (auto simp: less_Suc_eq_0_disj)

lemma decided_by:
  assumes "first_valid_decision (timed_check late check) n items file = (r, file')" "r = Inr () \<or> r = Inl (Refusal s)"
  shows "\<exists>before d after. items = map Inr before @ Inr d # after \<and> skipped n before file \<and>
    check (n + length before) d file = (r, file')"
  using assms
proof (induction items arbitrary: n)
  case (Cons item items)
  then obtain d where i: "item = Inr d" by (cases item) auto
  have nl: "\<not> late n" using Cons.prems i by (auto simp: timed_check_eq(2))
  obtain r1 file1 where c: "check n d file = (r1, file1)" by fastforce
  show ?case
  proof (cases "\<exists>e. r1 = Inl (InvalidDecision e)")
    case True
    with invalid_keeps c have f: "file1 = file" by blast
    with Cons.prems i c True nl have "first_valid_decision (timed_check late check) (Suc n) items file = (r, file')"
      by (auto simp: timed_check_eq(1))
    from Cons.IH [OF this Cons.prems(2)] obtain before d' after where b: "items = map Inr before @ Inr d' # after"
      "skipped (Suc n) before file" "check (Suc n + length before) d' file = (r, file')" by blast
    with i c True f skipped_Cons show ?thesis
      by (intro exI [of _ "d # before"] exI [of _ d'] exI [of _ after]) auto
  next
    case False
    with Cons.prems i c nl have "r1 = r \<and> file1 = file'"
      by (auto simp: timed_check_eq(1) split: sum.splits hook_error.splits)
    with i c show ?thesis
      by (intro exI [of _ "[]"] exI [of _ d] exI [of _ items]) (auto simp: skipped_def)
  qed
qed auto

lemma winner:
  assumes "first_valid_decision (timed_check late check) n items file = (Inr (), file')"
  shows "\<exists>before d after. items = map Inr before @ Inr d # after \<and> skipped n before file \<and> proved (n + length before) d file"
  using decided_by [OF assms] accepts by blast

lemma refused_by:
  assumes "first_valid_decision (timed_check late check) n items file = (Inl (Refusal s), file')"
  shows "\<exists>m d. Inr d \<in> set items \<and> check m d file = (Inl (Refusal s), file')"
proof -
  obtain before d after where "items = map Inr before @ Inr d # after" "check (n + length before) d file = (Inl (Refusal s), file')"
    using decided_by [OF assms] by blast
  then show ?thesis by (intro exI [of _ "n + length before"] exI [of _ d]) auto
qed

lemma invalid_skipped:
  assumes "\<forall>i < length before. \<not> late (n + i)" "skipped n before file"
  shows "first_valid_decision (timed_check late check) n (map Inr before @ items) file
    = first_valid_decision (timed_check late check) (n + length before) items file"
  using assms
proof (induction before arbitrary: n)
  case (Cons b before)
  from Cons.prems(2) obtain e where e: "check n b file = (Inl (InvalidDecision e), file)" by (fastforce simp: skipped_def)
  have "\<not> late (Suc n + i) \<and> (\<exists>e. check (Suc n + i) (before ! i) file = (Inl (InvalidDecision e), file))" if "i < length before" for i
    using Cons.prems [unfolded skipped_def, rule_format, of "Suc i"] that Cons.prems(1) [rule_format, of "Suc i"] by auto
  then have "skipped (Suc n) before file" "\<forall>i < length before. \<not> late (Suc n + i)" by (simp_all add: skipped_def)
  with Cons.IH [of "Suc n"] e Cons.prems(1) [rule_format, of 0] show ?case by (simp add: timed_check_eq(1))
qed simp

end

interpretation command_decisions: decision_lane
  "\<lambda>n d. apply_decision X (env n) d lane request raw active epoch"
  "\<lambda>n d file. \<exists>device \<in> set active. approval_proved X (env n) d request raw device \<and>
    he_now (env n) < rq_expires_at request \<and> gate_passed X (env n) device epoch (rq_expires_at request) file"
  for X env lane request raw active epoch
  by unfold_locales (blast dest: apply_decision_accepts, rule apply_decision_invalid_keeps)

interpretation auth_decisions: decision_lane
  "\<lambda>n d. apply_auth_decision X (env n) d request raw recipients epoch"
  "\<lambda>n d file. \<exists>device \<in> set recipients. auth_proved X (env n) d request raw device \<and>
    he_now (env n) < aq_expires_at request \<and> gate_passed X (env n) device epoch (aq_expires_at request) file"
  for X env request raw recipients epoch
  by unfold_locales (blast dest: apply_auth_decision_accepts, rule apply_auth_decision_invalid_keeps)

section \<open>Forgeries neither approve nor deny\<close>

text \<open>A decision that proves nothing is invalid, or the host could not check it.\<close>

lemma apply_decision_unproved:
  assumes "\<forall>device \<in> set active. \<not> approval_proved X env d request raw device \<and> \<not> denial_proved X env d lane request device"
  shows "\<exists>e. apply_decision X env d lane request raw active epoch file = (Inl e, file) \<and>
    (is_invalid_decision e \<or> e = ApprovalUnavailable ''read the hook configuration'' \<and> is_err (load_hook_config_from env))"
proof (cases d)
  case (Approve a)
  have n: "\<forall>device \<in> set active. ap_request_id a = rq_request_id request \<longrightarrow>
      (\<forall>config. load_hook_config_from env = Inr config \<longrightarrow> (\<forall>outcome. verify_approval_v1 X a raw device config \<noteq> Inr outcome))"
    using assms by (auto simp: approval_proved_def Approve)
  show ?thesis
    unfolding apply_decision_def Approve DecisionV1.case guarded_def map_err_def invalid_because_def ok_or_def
    by (cases "load_hook_config_from env")
      (use n in \<open>auto simp: is_invalid_decision_def split: sum.splits option.splits dest!: find_SomeD\<close>)
next
  case (ApproveNative a)
  have "\<forall>device \<in> set active. an_request_id a = rq_request_id request \<longrightarrow> verify_native_approval_v1 X a raw device \<noteq> Inr ()"
    using assms by (auto simp: approval_proved_def ApproveNative)
  then show ?thesis
    unfolding apply_decision_def ApproveNative DecisionV1.case guarded_def map_err_def invalid_because_def ok_or_def
    by (auto simp: is_invalid_decision_def split: sum.splits option.splits dest!: find_SomeD)
next
  case (Deny n)
  let ?auth = "\<lambda>device. if dn_signature n \<noteq> None
             then map_err (invalid_because ''deny verification failed'') (verify_deny_v1 X n device)
             else if lane \<noteq> NatsLane
             then Inl (InvalidDecision ''unsigned denial on the local socket; only the server relays unsigned denials'')
             else if dv_kind device \<noteq> Webauthn
             then Inl (InvalidDecision ''unsigned denial names a native device, which always signs'')
             else and_then (map_err (\<lambda>_. InvalidDecision ''cannot confirm an unsigned denial without hook.json'')
                 (load_hook_config_from env)) (\<lambda>_.
               if \<not> server_confirms_denial env n
               then Inl (InvalidDecision ''denial is not server-confirmed'') else Inr ())"
  have a: "\<exists>s. ?auth device = Inl (InvalidDecision s)"
    if "device \<in> set active" "dn_request_id n = rq_request_id request" "dv_fingerprint device = dn_device_fingerprint n"
    for device
    using assms that
    by (cases "verify_deny_v1 X n device"; cases "load_hook_config_from env")
      (auto simp: denial_proved_def Deny invalid_because_def)
  show ?thesis
  proof (cases "find (\<lambda>d. dv_fingerprint d = dn_device_fingerprint n) active")
    case None
    then show ?thesis
      unfolding apply_decision_def Deny DecisionV1.case guarded_def
      by (cases "DenyV1_validate_shape X n") (auto simp: is_invalid_decision_def invalid_because_def)
  next
    case (Some device)
    with find_SomeD [OF Some] a [of device] show ?thesis
      unfolding apply_decision_def Deny DecisionV1.case guarded_def
      by (cases "DenyV1_validate_shape X n"; cases "dn_request_id n = rq_request_id request")
        (auto simp: is_invalid_decision_def invalid_because_def)
  qed
qed

text \<open>So a refusal needs a proof as well.\<close>

lemma map_err_not_refusal [simp]:
  "map_err (invalid_because c) r \<noteq> Inl (Refusal s)" "map_err (\<lambda>_. ApprovalUnavailable c) r' \<noteq> Inl (Refusal s)"
  by (cases r; simp add: invalid_because_def) (cases r'; simp)

lemma ok_or_invalid_not_refusal [simp]: "ok_or v (InvalidDecision c) \<noteq> Inl (Refusal s)"
  by (cases v) (simp_all add: ok_or_def)

text \<open>An approval that was proved and still refused: it came after the expiry, or the gate said no.\<close>

definition approval_failed ::
  "crates \<Rightarrow> hook_env \<Rightarrow> DecisionV1 \<Rightarrow> RequestV1 \<Rightarrow> bytes \<Rightarrow> nat \<Rightarrow> DevicePublicRecordV1 \<Rightarrow> registry_file \<Rightarrow> bool" where
  "approval_failed X env decision request raw epoch device file \<longleftrightarrow> approval_proved X env decision request raw device \<and>
     (rq_expires_at request \<le> he_now env \<or> gate_denied X env device epoch (rq_expires_at request) file)"

lemma apply_decision_refused:
  assumes "apply_decision X env d lane request raw active epoch file = (Inl (Refusal s), file')"
  shows "\<exists>device \<in> set active. denial_proved X env d lane request device \<or> approval_failed X env d request raw epoch device file"
proof (cases d)
  case (Deny n)
  then have "\<not> approval_proved X env d request raw device" for device by (simp add: approval_proved_def)
  then show ?thesis
    using assms apply_decision_unproved [of active X env d request raw lane epoch "file"] by (auto simp: is_invalid_decision_def)
qed (use assms in \<open>auto simp: apply_decision_def guarded_refusal result_simps approval_failed_def approval_proved_def
    split: if_split_asm dest!: find_SomeD final_authorization_denied\<close>)

lemma apply_auth_decision_refused:
  assumes "apply_auth_decision X env d request raw recipients epoch file = (Inl (Refusal s), file')"
  shows "\<exists>device \<in> set recipients. auth_proved X env d request raw device \<and>
    (aq_expires_at request \<le> he_now env \<or> gate_denied X env device epoch (aq_expires_at request) file)"
  using assms
  by (auto simp: apply_auth_decision_def guarded_refusal result_simps auth_proved_def Let_def
      split: AuthDecisionV1.splits if_split_asm dest!: find_SomeD final_authorization_denied)

text \<open>Whether the host can judge the candidate: only a WebAuthn approval needs the hook configuration.\<close>

definition can_judge :: "hook_env \<Rightarrow> DecisionV1 \<Rightarrow> bool" where
  "can_judge env d \<longleftrightarrow> is_ok (load_hook_config_from env) \<or> (case d of Approve _ \<Rightarrow> False | _ \<Rightarrow> True)"

lemma apply_decision_forged:
  assumes "can_judge env d"
    and "\<forall>device \<in> set active. \<not> approval_proved X env d request raw device \<and> \<not> denial_proved X env d lane request device"
  shows "\<exists>e. apply_decision X env d lane request raw active epoch file = (Inl (InvalidDecision e), file)"
proof -
  obtain e where e: "apply_decision X env d lane request raw active epoch file = (Inl e, file)"
    and "is_invalid_decision e \<or> e = ApprovalUnavailable ''read the hook configuration'' \<and> is_err (load_hook_config_from env)"
    using apply_decision_unproved [OF assms(2), of epoch "file"] by blast
  moreover have "e \<noteq> ApprovalUnavailable ''read the hook configuration''" if "\<forall>a. d \<noteq> Approve a"
    using e that unfolding apply_decision_def guarded_def
    by (auto simp: map_err_def ok_or_def invalid_because_def final_authorization_def and_then_def
        split: DecisionV1.splits sum.splits if_splits option.splits prod.splits GateError.splits)
  ultimately have "is_invalid_decision e" using assms(1) by (cases d) (auto simp: can_judge_def)
  then show ?thesis using e by (cases e) (auto simp: is_invalid_decision_def)
qed

text \<open>C6: forged decisions change nothing. Let the stream start with candidates that prove neither an approval nor a denial by
  a pinned recipient, in any number, each judged before the deadline on a host that can judge it (a WebAuthn approval needs a
  readable hook configuration). All of them are skipped, the registry is untouched, and the outcome is that of the rest of the
  stream, each of its candidates judged at its own time.\<close>

theorem forgeries_change_nothing:
  assumes "\<forall>i < length forged. \<not> late i \<and> can_judge (env i) (forged ! i) \<and> (\<forall>device \<in> set active.
      \<not> approval_proved X (env i) (forged ! i) request raw device \<and> \<not> denial_proved X (env i) (forged ! i) NatsLane request device)"
  shows "first_valid_decision (timed_check late (\<lambda>n d. apply_decision X (env n) d NatsLane request raw active epoch)) 0
      (map Inr forged @ items) file
    = first_valid_decision (timed_check late (\<lambda>n d. apply_decision X (env n) d NatsLane request raw active epoch)) (length forged)
      items file"
  using command_decisions.invalid_skipped [of forged late 0 X env NatsLane request raw active epoch "file" items] assms
    apply_decision_forged
  by (auto simp: command_decisions.skipped_def)

text \<open>Without a readable hook configuration one such candidate is enough: an approval that has the right shape and names the
  request and a pinned WebAuthn credential ends the wait as a host fault, whatever its signature.\<close>

theorem unjudged_approval_ends_wait:
  assumes "is_err (load_hook_config_from (env 0))" "\<not> late 0" "ApproveV1_validate_shape X a = Inr ()"
    and "ap_request_id a = rq_request_id request"
    and "\<exists>d \<in> set active. dv_kind d = Webauthn \<and> dv_fingerprint d = ap_device_fingerprint a \<and> dv_credential_id d = ap_credential_id a"
  shows "first_valid_decision (timed_check late (\<lambda>n d. apply_decision X (env n) d NatsLane request raw active epoch)) 0
      (Inr (Approve a) # items) file = (Inl (ApprovalUnavailable ''read the hook configuration''), file)"
proof -
  obtain device where "find (\<lambda>d. dv_kind d = Webauthn \<and> dv_fingerprint d = ap_device_fingerprint a \<and>
      dv_credential_id d = ap_credential_id a) active = Some device"
    using assms(5) by (cases "find (\<lambda>d. dv_kind d = Webauthn \<and> dv_fingerprint d = ap_device_fingerprint a \<and>
      dv_credential_id d = ap_credential_id a) active") (auto simp: find_None_iff)
  moreover obtain e where "load_hook_config_from (env 0) = Inl e" using assms(1) by (cases "load_hook_config_from (env 0)") auto
  ultimately show ?thesis
    using assms(2-4) by (simp add: timed_check_def apply_decision_def guarded_def map_err_def ok_or_def)
qed

text \<open>nobody is denied on unauthenticated input. The exit code \<open>denied\<close> comes out of applying a
  decision only if a pinned recipient proved a denial, or proved an approval that was then too
  late or refused at the gate; on the socket lane the rest is unavailable as well.\<close>

theorem denied_only_with_proof:
  assumes "apply_decision X env d lane request raw active epoch file = (Inl e, file')"
    and "check_error_exit_code e = CHECK_RC_DENIED \<or>
      socket_decision_outcome (Inl e) = Inl e' \<and> check_error_exit_code e' = CHECK_RC_DENIED"
  shows "\<exists>device \<in> set active. denial_proved X env d lane request device \<or> approval_failed X env d request raw epoch device file"
proof -
  obtain s where "e = Refusal s"
    using assms(2) by (cases e) (auto simp: check_error_exit_code_def socket_decision_outcome_def is_invalid_decision_def
        CHECK_RC_DENIED_def CHECK_RC_UNAVAILABLE_def)
  then show ?thesis using apply_decision_refused assms(1) by blast
qed

section \<open>A sample decision\<close>

definition sample_request :: RequestV1 where
  "sample_request = \<lparr>rq_version = 1, rq_request_id = ''r1'', rq_nonce = sample_encode (replicate 16 0),
     rq_host = ''h'', rq_user = ''u'', rq_uid = 1, rq_runas_uid = 0, rq_cwd = ''/'', rq_tty = None,
     rq_command = ''c'', rq_argv = [''c''], rq_pid_chain = [], rq_env = [], rq_session = None,
     rq_issued_at = 1000, rq_expires_at = 1090\<rparr>"

definition sample_hook :: hook_env where
  "sample_hook = \<lparr>he_now = 1010, he_gate_clock = 1010, he_config = Inr sample_config, he_recorded = (\<lambda>_. None),
     he_attempt = (\<lambda>_. Locked), he_start = 0, he_disk = DiskOk\<rparr>"

definition sample_native_approval :: ApproveNativeV1 where
  "sample_native_approval = \<lparr>an_version = 1, an_request_id = ''r1'', an_device_fingerprint = sample_fp,
     an_signature = sample_encode (approve_challenge sample [1, 2])\<rparr>"

lemma sample_native_shape: "ApproveNativeV1_validate_shape sample sample_native_approval = Inr ()"
  by (simp add: ApproveNativeV1_validate_shape_def sample_native_approval_def VERSION_V1_def)
    (simp add: sample_native_def approve_challenge_def)

lemma sample_native_verifies:
  "verify_native_approval_v1 sample sample_native_approval [1, 2] (sample_native SecureEnclave) = Inr ()"
  unfolding verify_native_approval_v1_def sample_native_shape
  using sample_native_valid [of SecureEnclave]
  by (simp add: sample_native_approval_def) (simp add: sample_native_def sec1_p256_verifying_key_def)

lemma sample_gate:
  "final_authorization sample sample_hook (sample_native SecureEnclave) 0 1090 None False (Stored (sample_state True 0))
   = (Inr (), Stored (sample_state True 0))"
proof -
  have "acquire_for_decision (\<lambda>_. Locked) 0 = (Inr (), 0)"
    by (simp add: acquire_for_decision_def acquire_until.simps)
  then show ?thesis
    by (simp add: final_authorization_def authorize_def sample_hook_def authorize_in_def same_identity_def
        same_credential_def)
qed

lemma sample_applies:
  "apply_decision sample sample_hook (ApproveNative sample_native_approval) NatsLane sample_request [1, 2]
     [sample_native SecureEnclave] 0 (Stored (sample_state True 0)) = (Inr (), Stored (sample_state True 0))"
proof -
  have "find (\<lambda>d. (dv_kind d = Software \<or> dv_kind d = SecureEnclave) \<and>
      dv_fingerprint d = an_device_fingerprint sample_native_approval) [sample_native SecureEnclave]
    = Some (sample_native SecureEnclave)"
    by (simp add: sample_native_approval_def) (simp add: sample_native_def)
  moreover have "an_request_id sample_native_approval = rq_request_id sample_request" "rq_expires_at sample_request = 1090"
    "he_now sample_hook = 1010"
    by (simp_all add: sample_native_approval_def sample_request_def sample_hook_def)
  ultimately show ?thesis
    unfolding apply_decision_def DecisionV1.case guarded_def sample_native_shape
    by (simp add: sample_native_verifies sample_gate)
qed

definition sample_forgery :: DecisionV1 where
  "sample_forgery = Deny \<lparr>dn_version = 1, dn_request_id = ''r1'', dn_device_fingerprint = sample_fp, dn_signature = None\<rparr>"

lemma sample_forgery_proves_nothing:
  "\<not> approval_proved sample sample_hook sample_forgery sample_request raw device \<and>
   \<not> denial_proved sample sample_hook sample_forgery NatsLane sample_request device"
  by (simp add: sample_forgery_def approval_proved_def denial_proved_def server_confirms_denial_def sample_hook_def)

lemma sample_stream:
  "first_valid_decision (timed_check (\<lambda>_. False) (\<lambda>n d. apply_decision sample sample_hook d NatsLane sample_request [1, 2]
     [sample_native SecureEnclave] 0)) n [Inr (ApproveNative sample_native_approval)] (Stored (sample_state True 0))
   = (Inr (), Stored (sample_state True 0))"
  by (simp add: timed_check_def sample_applies)

theorem forgeries_change_nothing_witness:
  "first_valid_decision (timed_check (\<lambda>_. False) (\<lambda>n d. apply_decision sample sample_hook d NatsLane sample_request [1, 2]
     [sample_native SecureEnclave] 0)) 0 (map Inr [sample_forgery, sample_forgery] @ [Inr (ApproveNative sample_native_approval)])
     (Stored (sample_state True 0)) = (Inr (), Stored (sample_state True 0))"
proof -
  have "\<forall>i < length [sample_forgery, sample_forgery]. \<not> False \<and> can_judge sample_hook ([sample_forgery, sample_forgery] ! i) \<and>
     (\<forall>device \<in> set [sample_native SecureEnclave].
       \<not> approval_proved sample sample_hook ([sample_forgery, sample_forgery] ! i) sample_request [1, 2] device \<and>
       \<not> denial_proved sample sample_hook ([sample_forgery, sample_forgery] ! i) NatsLane sample_request device)"
    using sample_forgery_proves_nothing by (simp add: less_Suc_eq can_judge_def) (simp add: sample_forgery_def)
  from forgeries_change_nothing [OF this] show ?thesis by (simp only: sample_stream)
qed

theorem unjudged_approval_ends_wait_witness:
  "first_valid_decision (timed_check (\<lambda>_. False) (\<lambda>n d. apply_decision sample (sample_hook\<lparr>he_config := Inl ''no file''\<rparr>) d NatsLane
     sample_request raw [sample_webauthn] 0)) 0 [Inr (Approve sample_approval)] file
   = (Inl (ApprovalUnavailable ''read the hook configuration''), file)"
proof (rule unjudged_approval_ends_wait)
  have "sample_digest m \<noteq> []" for m by (auto simp flip: length_0_conv)
  then show "ApproveV1_validate_shape sample sample_approval = Inr ()"
    by (simp add: sample_approval_def ApproveV1_validate_shape_def VERSION_V1_def length_sample_auth_data)
      (simp add: sample_webauthn_def approve_challenge_def)
  show "ap_request_id sample_approval = rq_request_id sample_request" by (simp add: sample_approval_def sample_request_def)
  show "\<exists>d \<in> set [sample_webauthn]. dv_kind d = Webauthn \<and> dv_fingerprint d = ap_device_fingerprint sample_approval \<and>
      dv_credential_id d = ap_credential_id sample_approval"
    by (simp add: sample_approval_def) (simp add: sample_webauthn_def)
qed (simp_all add: load_hook_config_from_def)

text \<open>A signed denial by the sample device.\<close>

lemma sample_denied:
  "apply_decision sample sample_hook (Deny sample_denial) SocketLane sample_request [1, 2]
     [sample_native Software] 0 file = (Inl (Refusal ''request explicitly denied''), file)"
proof -
  have "DenyV1_validate_shape sample sample_denial = Inr ()"
    using sample_denial_verifies by (auto simp: verify_deny_v1_def result_simps)
  moreover have "dn_signature sample_denial \<noteq> None" "dn_version sample_denial = VERSION_V1"
    "dn_request_id sample_denial = rq_request_id sample_request" "rq_expires_at sample_request = 1090"
    "dn_device_fingerprint sample_denial = dv_fingerprint (sample_native Software)" "he_now sample_hook = 1010"
    by (simp_all add: sample_denial_def sample_request_def sample_hook_def VERSION_V1_def)
  ultimately show ?thesis
    unfolding apply_decision_def DecisionV1.case guarded_def by (simp add: sample_denial_verifies)
qed

theorem denied_only_with_proof_witness:
  "denial_proved sample sample_hook (Deny sample_denial) SocketLane sample_request (sample_native Software)"
  using denied_only_with_proof [OF sample_denied, of undefined]
  by (simp add: check_error_exit_code_def CHECK_RC_DENIED_def approval_failed_def approval_proved_def)

lemma sample_auth_applies:
  "apply_auth_decision sample_auth sample_hook (AuthenticateNative sample_authentication) sample_auth_request [7]
     [sample_native SecureEnclave] 0 (Stored (sample_state True 0)) = (Inr (), Stored (sample_state True 0))"
proof -
  have "find (\<lambda>d. dv_kind d = SecureEnclave \<and> dv_fingerprint d = aan_device_fingerprint sample_authentication)
      [sample_native SecureEnclave] = Some (sample_native SecureEnclave)"
    by (simp add: sample_authentication_def) (simp add: sample_native_def)
  moreover have "AuthApproveNativeV1_validate_shape sample_auth sample_authentication = Inr ()"
    using sample_authentication_verifies [of 1010] by (auto simp: verify_native_authentication_v1_def result_simps)
  moreover have "aan_request_id sample_authentication = aq_request_id sample_auth_request" "aq_expires_at sample_auth_request = 1090"
    "aq_issued_at sample_auth_request = 1000" "he_now sample_hook = 1010"
    by (simp_all add: sample_authentication_def sample_auth_request_def sample_hook_def)
  moreover have "final_authorization sample_auth sample_hook (sample_native SecureEnclave) 0 1090 None True (Stored (sample_state True 0))
    = (Inr (), Stored (sample_state True 0))"
  proof -
    have l: "Transaction_load sample_auth (Stored (sample_state True 0)) = Inr (sample_state True 0)"
      using sample_state_valid by (simp add: core_eq_registry [OF sample_auth_core])
    have "acquire_for_decision (\<lambda>_. Locked) 0 = (Inr (), 0)"
      by (simp add: acquire_for_decision_def acquire_until.simps)
    then show ?thesis
      unfolding final_authorization_def authorize_def authorize_in_def
      by (simp add: l sample_hook_def same_identity_def same_credential_def del: load_stored)
  qed
  ultimately show ?thesis
    unfolding apply_auth_decision_def AuthDecisionV1.case guarded_def Let_def
    by (simp add: sample_authentication_verifies)
qed

end
