(* ===== verification/Hook_Request.thy ===== *)
theory Hook_Request
  imports Hook_Decision
begin

text \<open>
  One sudo invocation in the hook (\<open>hook/src/main.rs\<close>): sealing the request for the active
  devices, the exchange with the local agent socket, the fallback to NATS, and the composition
  \<open>execute_request_at\<close> and \<open>execute_auth_request_at\<close> that the sudo verbs run. The socket and
  the broker are arguments: whether connecting and writing work, the frames with the times at
  which they are complete, the broker's replies.
\<close>

section \<open>Configuration\<close>

record Transports =
  tp_socket :: "string option"
  tp_nats_url :: "string option"

definition transports_from :: "string + string \<Rightarrow> string + Transports" where
  "transports_from config_env = and_then config_env (\<lambda>content.
     let env = read_env_file content;
         transports = \<lparr>tp_socket = non_empty (env ''OSHIOKI_AGENT_SOCKET''), tp_nats_url = non_empty (env ''NATS_URL'')\<rparr>
     in if tp_socket transports = None \<and> tp_nats_url transports = None
        then Inl ''no approval transports configured'' else Inr transports)"

definition agent_socket_from :: "string + string \<Rightarrow> string + string option" where
  "agent_socket_from config_env =
     map_ok (\<lambda>content. non_empty (read_env_file content ''OSHIOKI_AGENT_SOCKET'')) config_env"

definition nats_display_url :: "string \<Rightarrow> string" where
  "nats_display_url url = (case split_once ''://'' url of
     None \<Rightarrow> ''<invalid NATS URL>''
   | Some (scheme, rest) \<Rightarrow>
       scheme @ ''://'' @ split_first {CHR ''/'', CHR ''?'', CHR ''#''} (rsplit_first (CHR ''@'') rest))"

section \<open>Sealing\<close>

text \<open>Each recipient's ephemeral secret and nonce, drawn at random in the source, come with the device.\<close>

definition seal_request ::
  "crates \<Rightarrow> RequestV1 \<Rightarrow> bytes \<Rightarrow> (DevicePublicRecordV1 \<times> static_secret \<times> bytes) list \<Rightarrow> error + RequestEnvelopeV1" where
  "seal_request X request raw devices =
     (if length devices > MAX_DEVICES then Inl (InvalidRequest ''more than eight active devices'')
      else and_then (collect_r (\<lambda>(device, secret, nonce). seal_v1 X raw device secret nonce) devices) (\<lambda>sealed.
        let envelope = \<lparr>en_version = VERSION_V1, en_request_id = rq_request_id request, en_host = rq_host request,
              en_user = rq_user request, en_issued_at = rq_issued_at request, en_expires_at = rq_expires_at request,
              en_sealed = sealed\<rparr>
        in and_then (RequestEnvelopeV1_validate X envelope) (\<lambda>_. Inr envelope)))"

definition seal_auth_request ::
  "crates \<Rightarrow> AuthRequestV1 \<Rightarrow> bytes \<Rightarrow> (DevicePublicRecordV1 \<times> static_secret \<times> bytes) list \<Rightarrow> error + AuthEnvelopeV1" where
  "seal_auth_request X request raw devices =
     (if length devices > MAX_DEVICES then Inl (InvalidRequest ''more than eight authentication recipients'')
      else and_then (collect_r (\<lambda>(device, secret, nonce). seal_v1 X raw device secret nonce) devices) (\<lambda>sealed.
        let envelope = \<lparr>ae_message_type = AUTH_ENVELOPE_TYPE, ae_version = AUTH_WIRE_VERSION,
              ae_request_id = aq_request_id request, ae_host = tc_host (aq_trusted request),
              ae_issued_at = aq_issued_at request, ae_expires_at = aq_expires_at request, ae_sealed = sealed\<rparr>
        in and_then (AuthEnvelopeV1_validate X envelope) (\<lambda>_. Inr envelope)))"

section \<open>The local agent socket\<close>

datatype SocketSilence = NoAgent string | NoAck string

datatype SocketOutcome = Verdict bytes | Unconfigured | Silent SocketSilence | Dropped string

definition AGENT_SOCKET_CONNECT_TIMEOUT :: nat where "AGENT_SOCKET_CONNECT_TIMEOUT = 2000"

text \<open>How a read of one frame ended: a frame, an input/output error, or a refused length prefix.\<close>

datatype frame_read = FrameRead Frame | ReadFailed string | BadLength error

text \<open>One attempt at the socket. \<open>sk_connected\<close> and \<open>sk_written\<close> are the times at which connecting and
  writing the request ended, with their error if they failed or ran into their bound;
  \<open>sk_frames\<close> are the reads that follow with the times at which they complete.\<close>

record socket_run =
  sk_start :: nat
  sk_connected :: "string + nat"
  sk_written :: "string + nat"
  sk_frames :: "(nat \<times> frame_read) list"

fun wait_ack :: "crates \<Rightarrow> string \<Rightarrow> nat \<Rightarrow> nat \<Rightarrow> (nat \<times> frame_read) list
    \<Rightarrow> SocketSilence + nat \<times> (nat \<times> frame_read) list" where
  "wait_ack X request_id ack_deadline now [] = Inl (NoAck ''daemon acknowledgement timed out'')"
| "wait_ack X request_id ack_deadline now ((t, r) # frames) =
     (if ack_deadline \<le> now \<or> ack_deadline < t then Inl (NoAck ''daemon acknowledgement timed out'')
      else case r of
        FrameRead (Payload bs) \<Rightarrow>
          (case decode_control_message X bs of
             Inr (Message (ControlAlive alive)) \<Rightarrow>
               (case AliveV1_validate alive request_id of
                  Inr _ \<Rightarrow> Inr (max now t, frames)
                | Inl _ \<Rightarrow> Inl (NoAck ''invalid socket daemon acknowledgement''))
           | Inr (Message _) \<Rightarrow>
               Inl (NoAck ''expected a socket daemon acknowledgement but got a different control message'')
           | Inr (UnknownKind _) \<Rightarrow> wait_ack X request_id ack_deadline (max now t) frames
           | Inl _ \<Rightarrow> Inl (NoAck ''decode socket daemon acknowledgement''))
      | FrameRead _ \<Rightarrow> Inl (NoAck ''agent closed before acknowledging'')
      | ReadFailed e \<Rightarrow> Inl (NoAck e)
      | BadLength _ \<Rightarrow> Inl (NoAck ''bad frame length''))"

fun wait_socket_verdict :: "crates \<Rightarrow> nat \<Rightarrow> nat \<Rightarrow> (nat \<times> frame_read) list \<Rightarrow> hook_error + SocketOutcome" where
  "wait_socket_verdict X deadline now [] =
     Inl (ApprovalUnavailable ''sudo decision deadline exceeded waiting for the local agent'')"
| "wait_socket_verdict X deadline now ((t, r) # frames) =
     (if deadline \<le> now \<or> deadline < t
      then Inl (ApprovalUnavailable ''sudo decision deadline exceeded waiting for the local agent'')
      else case r of
        FrameRead (Payload bs) \<Rightarrow>
          (case decode_control_message X bs of
             Inr (Message (ControlDecision _)) \<Rightarrow> Inr (Verdict bs)
           | Inr (Message (ControlAuthDecision _)) \<Rightarrow> Inr (Verdict bs)
           | Inr _ \<Rightarrow> wait_socket_verdict X deadline (max now t) frames
           | Inl _ \<Rightarrow> Inl (ApprovalUnavailable ''agent sent an undecodable decision frame after acknowledging''))
      | FrameRead Eof \<Rightarrow> Inr (Dropped ''agent closed after acknowledging without a verdict'')
      | FrameRead Truncated \<Rightarrow> Inr (Dropped ''agent sent a truncated decision frame after acknowledging'')
      | ReadFailed e \<Rightarrow> Inr (Dropped e)
      | BadLength _ \<Rightarrow> Inr (Dropped ''agent sent a malformed decision frame after acknowledging''))"

definition try_agent_socket ::
  "crates \<Rightarrow> string + string \<Rightarrow> string \<Rightarrow> bytes \<Rightarrow> nat \<Rightarrow> socket_run \<Rightarrow> HookProgress list \<times> (hook_error + SocketOutcome)" where
  "try_agent_socket X config_env request_id payload deadline run =
     (case agent_socket_from config_env of
        Inl _ \<Rightarrow> ([], Inl (ApprovalUnavailable ''read the transport configuration''))
      | Inr None \<Rightarrow> ([], Inr Unconfigured)
      | Inr (Some path) \<Rightarrow>
     if min (deadline - sk_start run) AGENT_SOCKET_CONNECT_TIMEOUT = 0
     then ([], Inr (Silent (NoAgent ''request deadline expired before connect'')))
     else case sk_connected run of
        Inl e \<Rightarrow> ([], Inr (Silent (NoAgent e)))
      | Inr connected \<Rightarrow>
     (case encode_frame payload of
        Inl e \<Rightarrow> ([], Inl (Refusal ''frame too large''))
      | Inr frame \<Rightarrow>
     if min (deadline - connected) DAEMON_ACK_TIMEOUT = 0
     then ([], Inr (Silent (NoAgent ''request deadline expired before write'')))
     else case sk_written run of
        Inl e \<Rightarrow> ([], Inr (Silent (NoAgent e)))
      | Inr written \<Rightarrow>
     (case wait_ack X request_id (min deadline (written + DAEMON_ACK_TIMEOUT)) written (sk_frames run) of
        Inl silence \<Rightarrow> ([], Inr (Silent silence))
      | Inr (now, frames) \<Rightarrow> ([WaitingForApproval], wait_socket_verdict X deadline now frames))))"

section \<open>The NATS fallback\<close>

text \<open>The broker as one attempt sees it: connecting ends at a time or fails (a timeout included), and
  then the round trip of \<open>request_verdicts\<close>, on a clock that starts when it is called.\<close>

record nats_run =
  nr_start :: nat
  nr_connected :: "string + nat"
  nr_setup :: setup_outcome
  nr_receipts :: "(nat \<times> receipt_event) list"
  nr_verdicts :: "(nat \<times> bytes option) list"

definition nats_fallback ::
  "crates \<Rightarrow> (bytes \<Rightarrow> string \<Rightarrow> 'a option) \<Rightarrow> string \<Rightarrow> nat \<Rightarrow> bool \<Rightarrow> nats_run
    \<Rightarrow> HookProgress list \<times> (hook_error + (HookTransportFailure + 'a) list)" where
  "nats_fallback X accept request_id deadline has_browser_recipient run =
     (if deadline - nr_start run = 0
      then ([], Inl (ApprovalUnavailable ''sudo decision deadline exceeded before the NATS fallback ran''))
      else case nr_connected run of
        Inl e \<Rightarrow> ([], Inl (ApprovalUnavailable ''NATS fallback failed: connect''))
      | Inr connected \<Rightarrow>
     if deadline - connected = 0
     then ([], Inl (ApprovalUnavailable ''sudo decision deadline exceeded before the NATS verdict wait''))
     else let (progress, r) = round_trip X accept request_id (deadline - connected) has_browser_recipient
                (nr_setup run) (nr_receipts run) (nr_verdicts run)
          in (progress, map_err TransportFailure r))"

section \<open>One sudo invocation\<close>

text \<open>The host around one invocation: the configuration file, the registry lock at the snapshot, the
  time at which the wait for a device starts, the sealing material per recipient, the two transports, what other processes do to the registry
  between the snapshot and the one decision that reaches the gate, the PAM liveness watch, and the environments in which
  decisions are checked: \<open>hr_env run n\<close> for the candidate number \<open>n\<close> of the NATS stream, each with its own clock readings, and
  \<open>hr_env run 0\<close> for the one decision of the socket.\<close>

record host_run =
  hr_config_env :: "string + string"
  hr_attempt :: "nat \<Rightarrow> lock_result"
  hr_start :: nat
  hr_sent :: nat
  hr_material :: "DevicePublicRecordV1 \<Rightarrow> static_secret \<times> bytes"
  hr_socket :: socket_run
  hr_nats :: nats_run
  hr_between :: "registry_file \<Rightarrow> registry_file"
  hr_liveness :: "bool option"
  hr_env :: "nat \<Rightarrow> hook_env"

definition material_for ::
  "host_run \<Rightarrow> DevicePublicRecordV1 list \<Rightarrow> (DevicePublicRecordV1 \<times> static_secret \<times> bytes) list" where
  "material_for run devices = map (\<lambda>d. (d, hr_material run d)) devices"

definition host_fault :: "string \<Rightarrow> 'e + 'a \<Rightarrow> hook_error + 'a" where
  "host_fault context r = map_err (\<lambda>_. ApprovalUnavailable context) r"

definition execute_request_at ::
  "crates \<Rightarrow> host_run \<Rightarrow> (nat \<Rightarrow> bool) \<Rightarrow> RequestV1 \<Rightarrow> nat \<Rightarrow> registry_file
    \<Rightarrow> (hook_error + unit) \<times> registry_file" where
  "execute_request_at X run late request timeout file =
     guarded file (host_fault ''read the transport configuration'' (transports_from (hr_config_env run))) (\<lambda>transports.
     guarded file (host_fault ''serialize the approval request'' (RequestV1_raw_json X request)) (\<lambda>raw_request.
     guarded file (host_fault ''read the device registry'' (decision_snapshot X (hr_attempt run) (hr_start run) file)) (\<lambda>snapshot.
     let active = filter dv_active (devices_of snapshot) in
     if active = [] then (Inl (ApprovalUnavailable ''no active approval devices are enrolled on this host''), file)
     else
     let has_browser_recipient = list_ex (\<lambda>d. dv_kind d = Webauthn) active in
     guarded file (host_fault ''seal the approval envelope''
        (and_then (map_err (\<lambda>_. ()) (seal_request X request raw_request (material_for run active))) (\<lambda>envelope.
           map_err (\<lambda>_. ()) (to_vec_envelope X envelope)))) (\<lambda>payload.
     if length payload > MAX_ENVELOPE_BYTES then (Inl (Refusal ''request envelope exceeds 3 MiB''), file)
     else
     let deadline = hr_sent run + timeout;
         file' = hr_between run file;
         nats = (case tp_nats_url transports of
            Some url \<Rightarrow>
              guarded file' (snd (nats_fallback X (command_decision_for X) (rq_request_id request) deadline
                  has_browser_recipient (hr_nats run))) (\<lambda>decisions.
              first_valid_decision (timed_check late (\<lambda>n d. apply_decision X (hr_env run n) d NatsLane request raw_request
                  active (lr_revocation_epoch snapshot))) 0 decisions file')
          | None \<Rightarrow> (Inl (ApprovalUnavailable ''no NATS fallback configured''), file'))
     in guarded file' (snd (try_agent_socket X (hr_config_env run) (rq_request_id request) payload deadline (hr_socket run)))
       (\<lambda>outcome. case outcome of
          Verdict bs \<Rightarrow>
            guarded file' (decode_socket_command_decision X bs) (\<lambda>decision.
            let (r, file'') = apply_decision X (hr_env run 0) decision SocketLane request raw_request active
                  (lr_revocation_epoch snapshot) file'
            in (socket_decision_outcome r, file''))
        | Unconfigured \<Rightarrow> nats
        | Silent _ \<Rightarrow> nats
        | Dropped e \<Rightarrow> (Inl (ApprovalUnavailable e), file'))))))"

text \<open>The authentication lane: hardware recipients only, its own envelope and decision type, and the
  watch on the PAM caller.\<close>

datatype 'a PendingDecision = PendingSocket 'a | PendingNats "(HookTransportFailure + 'a) list"

definition await_auth_decision ::
  "crates \<Rightarrow> host_run \<Rightarrow> AuthRequestV1 \<Rightarrow> bytes \<Rightarrow> nat \<Rightarrow> string option \<Rightarrow> bool \<Rightarrow> hook_error + AuthDecisionV1 PendingDecision"
where
  "await_auth_decision X run request payload deadline nats_url has_browser_recipient =
     and_then (snd (try_agent_socket X (hr_config_env run) (aq_request_id request) payload deadline (hr_socket run)))
     (\<lambda>outcome. case outcome of
        Verdict bs \<Rightarrow> map_ok PendingSocket (decode_socket_auth_decision X bs)
      | Dropped e \<Rightarrow> Inl (ApprovalUnavailable e)
      | _ \<Rightarrow> (case nats_url of
          None \<Rightarrow> Inl (ApprovalUnavailable ''no NATS fallback is configured'')
        | Some url \<Rightarrow> map_ok PendingNats (snd (nats_fallback X (auth_decision_for X) (aq_request_id request) deadline
              has_browser_recipient (hr_nats run)))))"

text \<open>\<open>with_liveness\<close> races the wait against the watch on the PAM caller. \<open>None\<close> is a call without a descriptor;
  \<open>Some gone\<close> says which branch the unbiased \<open>select!\<close> took, which may be either one when both are ready. Taking the branch of the
  watch drops the wait where it is suspended. The registry is then untouched: the gate is the only writer, and from the moment it
  holds the lock it runs to the answer of the whole wait without suspending.\<close>

definition with_liveness ::
  "bool option \<Rightarrow> (registry_file \<Rightarrow> (hook_error + unit) \<times> registry_file) \<Rightarrow> registry_file \<Rightarrow> (hook_error + unit) \<times> registry_file" where
  "with_liveness liveness work file = (case liveness of
     None \<Rightarrow> work file
   | Some gone \<Rightarrow>
       if gone then (Inl (ApprovalUnavailable ''the PAM caller released its liveness descriptor before a device answered''), file)
       else work file)"

definition execute_auth_request_at ::
  "crates \<Rightarrow> host_run \<Rightarrow> (nat \<Rightarrow> bool) \<Rightarrow> AuthRequestV1 \<Rightarrow> nat \<Rightarrow> registry_file
    \<Rightarrow> (hook_error + unit) \<times> registry_file" where
  "execute_auth_request_at X run late request timeout file =
     guarded file (host_fault ''read the transport configuration'' (transports_from (hr_config_env run))) (\<lambda>transports.
     guarded file (host_fault ''serialize the authentication request'' (AuthRequestV1_raw_json X request)) (\<lambda>raw_request.
     guarded file (host_fault ''read the device registry'' (decision_snapshot X (hr_attempt run) (hr_start run) file)) (\<lambda>snapshot.
     let recipients = hardware_auth_recipients (lr_registry snapshot) in
     if recipients = []
     then (Inl (ApprovalUnavailable ''no active hardware authentication device is enrolled on this host''), file)
     else
     let has_browser_recipient = list_ex (\<lambda>d. dv_kind d = Webauthn) recipients in
     guarded file (host_fault ''seal the authentication envelope''
        (and_then (map_err (\<lambda>_. ()) (seal_auth_request X request raw_request (material_for run recipients))) (\<lambda>envelope.
           map_err (\<lambda>_. ()) (to_vec_auth_envelope X envelope)))) (\<lambda>payload.
     let deadline = hr_sent run + timeout;
         file' = hr_between run file;
         check = (\<lambda>n d. apply_auth_decision X (hr_env run n) d request raw_request recipients (lr_revocation_epoch snapshot))
     in with_liveness (hr_liveness run) (\<lambda>file'.
          guarded file' (await_auth_decision X run request payload deadline (tp_nats_url transports) has_browser_recipient)
          (\<lambda>pending. case pending of
             PendingSocket decision \<Rightarrow>
               (let (r, file'') = check 0 decision file' in (socket_decision_outcome r, file''))
           | PendingNats decisions \<Rightarrow> first_valid_decision (timed_check late check) 0 decisions file')) file'))))"

section \<open>What a successful invocation means\<close>

lemma socket_outcome_ok [simp]: "socket_decision_outcome r = Inr () \<longleftrightarrow> r = Inr ()"
  by (cases r) (auto simp: socket_decision_outcome_def)

lemma socket_outcome_pair [simp]:
  "(case p of (r, f) \<Rightarrow> (socket_decision_outcome r, f)) = (Inr (), file') \<longleftrightarrow> p = (Inr (), file')"
  by (cases p) simp

lemma host_fault_Inr [simp]: "host_fault c r = Inr x \<longleftrightarrow> r = Inr x"
  by (simp add: host_fault_def map_err_Inr_iff)

lemma pending_iff:
  "(case pending of PendingSocket d \<Rightarrow> f d | PendingNats ds \<Rightarrow> g ds) = r \<longleftrightarrow>
     (\<exists>d. pending = PendingSocket d \<and> f d = r) \<or> (\<exists>ds. pending = PendingNats ds \<and> g ds = r)"
  by (cases pending) auto

lemma outcome_iff:
  "(case oc of Verdict bs \<Rightarrow> f bs | Unconfigured \<Rightarrow> u | Silent s \<Rightarrow> g s | Dropped e \<Rightarrow> h e) = r \<longleftrightarrow>
     (\<exists>bs. oc = Verdict bs \<and> f bs = r) \<or> oc = Unconfigured \<and> u = r \<or> (\<exists>s. oc = Silent s \<and> g s = r)
     \<or> (\<exists>e. oc = Dropped e \<and> h e = r)"
  by (cases oc) auto

lemma option_iff:
  "(case v of None \<Rightarrow> n | Some x \<Rightarrow> f x) = r \<longleftrightarrow> v = None \<and> n = r \<or> (\<exists>x. v = Some x \<and> f x = r)"
  by (cases v) auto

lemma with_liveness_iff [simp]:
  "with_liveness liveness work file = (Inr (), file') \<longleftrightarrow> liveness \<noteq> Some True \<and> work file = (Inr (), file')"
  "with_liveness liveness work file = (Inl (Refusal s), file') \<longleftrightarrow> liveness \<noteq> Some True \<and> work file = (Inl (Refusal s), file')"
  by (auto simp: with_liveness_def split: option.splits)

text \<open>What an accepted command rests on.\<close>

lemma execute_request_needs_proof:
  assumes "execute_request_at X run late request timeout file = (Inr (), file')"
  shows "\<exists>raw snapshot device decision n.
    RequestV1_raw_json X request = Inr raw \<and> Transaction_load X file = Inr snapshot \<and>
    device \<in> set (devices_of snapshot) \<and> dv_active device \<and>
    approval_proved X (hr_env run n) decision request raw device \<and>
    he_now (hr_env run n) < rq_expires_at request \<and>
    gate_passed X (hr_env run n) device (lr_revocation_epoch snapshot) (rq_expires_at request) (hr_between run file)"
proof -
  from assms obtain raw snapshot where r: "RequestV1_raw_json X request = Inr raw"
    and s: "decision_snapshot X (hr_attempt run) (hr_start run) file = Inr snapshot"
    and d: "(\<exists>items. first_valid_decision (timed_check late (\<lambda>n d. apply_decision X (hr_env run n) d NatsLane request raw
          (filter dv_active (devices_of snapshot)) (lr_revocation_epoch snapshot))) 0 items (hr_between run file) = (Inr (), file'))
      \<or> (\<exists>decision. apply_decision X (hr_env run 0) decision SocketLane request raw
          (filter dv_active (devices_of snapshot)) (lr_revocation_epoch snapshot) (hr_between run file) = (Inr (), file'))"
    unfolding execute_request_at_def Let_def
    by (auto simp: result_simps outcome_iff option_iff split: if_split_asm)
  have l: "Transaction_load X file = Inr snapshot" using s by (auto simp: decision_snapshot_def result_simps)
  have "\<exists>decision n. \<exists>device \<in> set (filter dv_active (devices_of snapshot)). approval_proved X (hr_env run n) decision request raw device \<and>
    he_now (hr_env run n) < rq_expires_at request \<and>
    gate_passed X (hr_env run n) device (lr_revocation_epoch snapshot) (rq_expires_at request) (hr_between run file)"
    using d
  proof (elim disjE exE)
    fix items
    assume "first_valid_decision (timed_check late (\<lambda>n d. apply_decision X (hr_env run n) d NatsLane request raw
      (filter dv_active (devices_of snapshot)) (lr_revocation_epoch snapshot))) 0 items (hr_between run file) = (Inr (), file')"
    from command_decisions.winner [OF this] show ?thesis by blast
  qed (drule apply_decision_accepts, blast)
  with r l show ?thesis by auto
qed

text \<open>C3: sudo runs a command only if all of this holds. The request's exact bytes were sealed for the
  devices active in the snapshot; one of these devices proved an approval of those bytes and this
  request id, over the socket or over NATS; the request had not expired when the decision was
  applied; and under the registry lock the device was still active with the same credential, with
  no revocation since the snapshot, whatever other processes did to the registry meanwhile.\<close>

theorem execute_request_safe:
  assumes "execute_request_at X run late request timeout file = (Inr (), file')"
  shows "\<exists>raw snapshot device decision n.
    RequestV1_raw_json X request = Inr raw \<and> Transaction_load X file = Inr snapshot \<and>
    device \<in> set (devices_of snapshot) \<and> dv_active device \<and>
    approval_proved X (hr_env run n) decision request raw device \<and>
    he_now (hr_env run n) < rq_expires_at request \<and>
    gate_passed X (hr_env run n) device (lr_revocation_epoch snapshot) (rq_expires_at request) (hr_between run file)"
  using assms by (rule execute_request_needs_proof)

text \<open>C4: PAM authentication succeeds only through hardware. An active Secure Enclave or WebAuthn device
  of the snapshot proved an authentication of the exact request bytes, unexpired and still
  enrolled at the gate, and the PAM caller was still there.\<close>

theorem execute_auth_request_safe:
  assumes "execute_auth_request_at X run late request timeout file = (Inr (), file')"
  shows "hr_liveness run \<noteq> Some True \<and> (\<exists>raw snapshot device decision n.
    AuthRequestV1_raw_json X request = Inr raw \<and> Transaction_load X file = Inr snapshot \<and>
    device \<in> set (devices_of snapshot) \<and> is_hardware_auth_device device \<and>
    auth_proved X (hr_env run n) decision request raw device \<and>
    he_now (hr_env run n) < aq_expires_at request \<and>
    gate_passed X (hr_env run n) device (lr_revocation_epoch snapshot) (aq_expires_at request) (hr_between run file))"
proof -
  from assms obtain raw snapshot where r: "AuthRequestV1_raw_json X request = Inr raw" and c: "hr_liveness run \<noteq> Some True"
    and s: "decision_snapshot X (hr_attempt run) (hr_start run) file = Inr snapshot"
    and d: "(\<exists>items. first_valid_decision (timed_check late (\<lambda>n d. apply_auth_decision X (hr_env run n) d request raw
          (hardware_auth_recipients (lr_registry snapshot)) (lr_revocation_epoch snapshot))) 0 items (hr_between run file) = (Inr (), file'))
      \<or> (\<exists>decision. apply_auth_decision X (hr_env run 0) decision request raw
          (hardware_auth_recipients (lr_registry snapshot)) (lr_revocation_epoch snapshot) (hr_between run file) = (Inr (), file'))"
    unfolding execute_auth_request_at_def Let_def
    by (auto simp: result_simps pending_iff split: if_split_asm)
  have l: "Transaction_load X file = Inr snapshot" using s by (auto simp: decision_snapshot_def result_simps)
  have "\<exists>decision n. \<exists>device \<in> set (hardware_auth_recipients (lr_registry snapshot)). auth_proved X (hr_env run n) decision request raw device \<and>
    he_now (hr_env run n) < aq_expires_at request \<and>
    gate_passed X (hr_env run n) device (lr_revocation_epoch snapshot) (aq_expires_at request) (hr_between run file)"
    using d
  proof (elim disjE exE)
    fix items
    assume "first_valid_decision (timed_check late (\<lambda>n d. apply_auth_decision X (hr_env run n) d request raw
      (hardware_auth_recipients (lr_registry snapshot)) (lr_revocation_epoch snapshot))) 0 items (hr_between run file) = (Inr (), file')"
    from auth_decisions.winner [OF this] show ?thesis by blast
  qed (drule apply_auth_decision_accepts, blast)
  with r l c show ?thesis by (auto simp: hardware_auth_recipients_def)
qed

section \<open>What a denial means\<close>

lemma host_fault_not_refusal [simp]: "host_fault c r \<noteq> Inl (Refusal s)"
  by (cases r) (simp_all add: host_fault_def)

lemma socket_outcome_refusal [simp]:
  "(case p of (r, f) \<Rightarrow> (socket_decision_outcome r, f)) = (Inl (Refusal s), file') \<longleftrightarrow> p = (Inl (Refusal s), file')"
  by (cases p) (auto simp: socket_decision_outcome_def is_invalid_decision_def split: sum.splits if_splits)

text \<open>No transport ever refuses by itself: the socket only for a frame over the limit, which a sealed
  envelope never is.\<close>

lemma wait_socket_verdict_not_refusal: "wait_socket_verdict X deadline now frames \<noteq> Inl (Refusal s)"
  by (induction X deadline now frames rule: wait_socket_verdict.induct)
    (auto split: if_splits frame_read.splits Frame.splits sum.splits ControlMessageOutcome.splits ControlMessageV1.splits)

lemma try_agent_socket_not_refusal:
  assumes "length payload \<le> MAX_ENVELOPE_BYTES"
  shows "snd (try_agent_socket X config_env i payload deadline run) \<noteq> Inl (Refusal s)"
  using assms wait_socket_verdict_not_refusal
  by (auto simp: try_agent_socket_def encode_frame_def MAX_FRAME_BYTES_def MAX_ENVELOPE_BYTES_def
      split: sum.splits option.splits if_splits prod.splits)

lemma nats_fallback_not_refusal: "snd (nats_fallback X accept i deadline b run) \<noteq> Inl (Refusal s)"
  by (auto simp: nats_fallback_def map_err_def Let_def split: sum.splits prod.splits)

lemma decode_socket_not_refusal:
  "decode_socket_command_decision X bs \<noteq> Inl (Refusal s)" "decode_socket_auth_decision X bs \<noteq> Inl (Refusal s)"
  by (auto simp: decode_socket_command_decision_def decode_socket_auth_decision_def
      split: sum.splits ControlMessageOutcome.splits ControlMessageV1.splits)

lemma sealed_payload_fits:
  "seal_request X request raw devices = Inr envelope \<Longrightarrow> to_vec_envelope X envelope = Inr payload \<Longrightarrow>
   length payload \<le> MAX_ENVELOPE_BYTES"
  by (auto simp: seal_request_def RequestEnvelopeV1_validate_def Let_def result_simps split: if_splits)

lemma sealed_auth_payload_fits:
  "seal_auth_request X request raw devices = Inr envelope \<Longrightarrow> to_vec_auth_envelope X envelope = Inr payload \<Longrightarrow>
   length payload \<le> MAX_ENVELOPE_BYTES"
  by (auto simp: seal_auth_request_def AuthEnvelopeV1_validate_def Let_def result_simps split: if_splits)

lemma denied_is_refusal: "check_error_exit_code e = CHECK_RC_DENIED \<longleftrightarrow> (\<exists>s. e = Refusal s)"
  by (cases e) (simp_all add: check_error_exit_code_def CHECK_RC_DENIED_def CHECK_RC_UNAVAILABLE_def)


text \<open>the same for authentication, where only a proved authentication that came too late or met a
  revocation is denied.\<close>

theorem execute_auth_request_denies_on_evidence:
  assumes "execute_auth_request_at X run late request timeout file = (Inl e, file')"
    and "check_error_exit_code e = CHECK_RC_DENIED"
  shows "\<exists>raw snapshot device decision n.
    AuthRequestV1_raw_json X request = Inr raw \<and> Transaction_load X file = Inr snapshot \<and>
    device \<in> set (devices_of snapshot) \<and> is_hardware_auth_device device \<and>
    auth_proved X (hr_env run n) decision request raw device \<and> (aq_expires_at request \<le> he_now (hr_env run n) \<or>
      gate_denied X (hr_env run n) device (lr_revocation_epoch snapshot) (aq_expires_at request) (hr_between run file))"
proof -
  from assms(2) obtain s where e: "e = Refusal s" by (auto simp: denied_is_refusal)
  have a: "await_auth_decision X run request payload deadline url b \<noteq> Inl (Refusal s)"
    if "length payload \<le> MAX_ENVELOPE_BYTES" for payload deadline url b
    using try_agent_socket_not_refusal [OF that] decode_socket_not_refusal(2)
    by (auto simp: await_auth_decision_def and_then_def map_ok_def nats_fallback_not_refusal
        split: sum.splits SocketOutcome.splits option.splits)
  from assms(1) obtain raw snapshot where r: "AuthRequestV1_raw_json X request = Inr raw"
    and s: "decision_snapshot X (hr_attempt run) (hr_start run) file = Inr snapshot"
    and d: "(\<exists>items. first_valid_decision (timed_check late (\<lambda>n d. apply_auth_decision X (hr_env run n) d request raw
          (hardware_auth_recipients (lr_registry snapshot)) (lr_revocation_epoch snapshot))) 0 items (hr_between run file) = (Inl (Refusal s), file'))
      \<or> (\<exists>decision. apply_auth_decision X (hr_env run 0) decision request raw
          (hardware_auth_recipients (lr_registry snapshot)) (lr_revocation_epoch snapshot) (hr_between run file) = (Inl (Refusal s), file'))"
    unfolding execute_auth_request_at_def Let_def e
    by (auto simp: guarded_refusal result_simps pending_iff a [OF sealed_auth_payload_fits] split: if_split_asm)
  have l: "Transaction_load X file = Inr snapshot" using s by (auto simp: decision_snapshot_def result_simps)
  have "\<exists>decision n. \<exists>device \<in> set (hardware_auth_recipients (lr_registry snapshot)). auth_proved X (hr_env run n) decision request raw device \<and>
      (aq_expires_at request \<le> he_now (hr_env run n) \<or>
       gate_denied X (hr_env run n) device (lr_revocation_epoch snapshot) (aq_expires_at request) (hr_between run file))"
    using d by (elim disjE exE) (blast dest: auth_decisions.refused_by apply_auth_decision_refused)+
  with r l show ?thesis by (auto simp: hardware_auth_recipients_def)
qed

section \<open>A sample invocation\<close>

text \<open>The agent at the socket acknowledges with the byte 1 and then sends one other message.\<close>

definition sample_run :: "hook_env \<Rightarrow> host_run" where
  "sample_run env = \<lparr>hr_config_env = Inr ''OSHIOKI_AGENT_SOCKET=/s'', hr_attempt = \<lambda>_. Locked, hr_start = 0, hr_sent = 0,
     hr_material = \<lambda>_. (StaticSecret (replicate 32 2), replicate 12 0),
     hr_socket = \<lparr>sk_start = 0, sk_connected = Inr 1, sk_written = Inr 2,
       sk_frames = [(3, FrameRead (Payload [1])), (4, FrameRead (Payload [2]))]\<rparr>,
     hr_nats = \<lparr>nr_start = 0, nr_connected = Inl ''down'', nr_setup = SetupTimeout, nr_receipts = [], nr_verdicts = []\<rparr>,
     hr_between = \<lambda>f. f, hr_liveness = Some False, hr_env = \<lambda>_. env\<rparr>"

text \<open>A configuration line of printable ASCII is read as written.\<close>

definition plain :: "char \<Rightarrow> bool" where
  "plain c \<longleftrightarrow> 32 < (of_char c :: nat) \<and> (of_char c :: nat) < 127"

lemma chars_of_plain: "list_all plain s \<Longrightarrow> chars_of s = map of_char s"
  unfolding chars_of_def by (induction s) (simp_all add: plain_def utf8_len_def utf8_lead_def)

lemma utf8_plain: "list_all plain s \<Longrightarrow> utf8 (map of_char s) = s"
  unfolding utf8_def by (induction s) (simp_all add: plain_def utf8_bytes_def)

lemma trim_plain:
  assumes "list_all plain s"
  shows "trim_str s = s"
proof -
  have n: "\<not> is_whitespace (of_char c)" if "c \<in> set s" for c
    using assms that by (auto simp: plain_def is_whitespace_def list_all_iff)
  have d: "dropWhile is_whitespace (map of_char t) = map of_char t" if "set t \<subseteq> set s" for t
    using n that by (cases t) auto
  from d [of s] d [of "rev s"] have "trim (map of_char s) = map of_char s"
    by (simp add: trim_def rev_map)
  with assms show ?thesis by (simp add: trim_str_def chars_of_plain utf8_plain)
qed

lemma lines_plain: "list_all plain s \<Longrightarrow> s \<noteq> [] \<Longrightarrow> str_lines s = [s]"
proof (induction s)
  case (Cons c s)
  have "c \<noteq> CHR 0x0A" using Cons.prems by (auto simp: plain_def)
  with Cons show ?case by (cases s) auto
qed simp

lemma split_once_eq: "CHR ''='' \<notin> set key \<Longrightarrow> split_once ''='' (key @ CHR ''='' # v) = Some (key, v)"
  by (induction key) (auto simp: split_once.simps)

lemma read_env_line:
  assumes "list_all plain key" "list_all plain v" "CHR ''='' \<notin> set key" "key \<noteq> []" "hd key \<noteq> CHR ''#''"
  shows "read_env_file (key @ CHR ''='' # v) = [key \<mapsto> v]"
proof -
  let ?s = "key @ CHR ''='' # v"
  have p: "list_all plain ?s" using assms(1,2) by (simp add: plain_def)
  then have "plain (last ?s)" by (auto simp: list_all_iff)
  then have "last ?s \<noteq> CHR 0x0D" by (auto simp: plain_def)
  then have "strip_cr ?s = ?s" by (simp add: strip_cr_def)
  moreover have "\<not> starts_with ''#'' ?s" using assms(4,5) by (cases key) (simp_all add: starts_with_def)
  ultimately show ?thesis
    using p assms by (simp add: read_env_file_def read_env_lines_def lines_plain trim_plain split_once_eq
      List.map_filter_simps)
qed

lemma sample_transports:
  "transports_from (Inr ''OSHIOKI_AGENT_SOCKET=/s'') = Inr \<lparr>tp_socket = Some ''/s'', tp_nats_url = None\<rparr>"
  "agent_socket_from (Inr ''OSHIOKI_AGENT_SOCKET=/s'') = Inr (Some ''/s'')"
proof -
  have e: "read_env_file ''OSHIOKI_AGENT_SOCKET=/s'' = [''OSHIOKI_AGENT_SOCKET'' \<mapsto> ''/s'']"
    using read_env_line [of "''OSHIOKI_AGENT_SOCKET''" "''/s''"] by (simp add: plain_def)
  show "transports_from (Inr ''OSHIOKI_AGENT_SOCKET=/s'') = Inr \<lparr>tp_socket = Some ''/s'', tp_nats_url = None\<rparr>"
    "agent_socket_from (Inr ''OSHIOKI_AGENT_SOCKET=/s'') = Inr (Some ''/s'')"
    by (simp_all add: transports_from_def agent_socket_from_def e non_empty_def)
qed

text \<open>The command lane: every request serializes to the two bytes the sample device signs.\<close>

definition sample_host :: "DecisionV1 \<Rightarrow> crates" where
  "sample_host d = sample\<lparr>to_vec_request := \<lambda>_. Inr [1, 2],
     probe_from_slice := \<lambda>bs. Inr (if bs = [1] then \<lparr>pb_message_type = Some ''alive'', pb_action = None\<rparr>
       else \<lparr>pb_message_type = None, pb_action = Some (JString ''approve'')\<rparr>),
     alive_from_slice := \<lambda>_. Inr \<lparr>al_message_type = ''alive'', al_version = 1, al_request_id = ''r1''\<rparr>,
     decision_from_slice := \<lambda>_. Inr d\<rparr>"

lemma sample_host_core: "core_eq (sample_host d) sample"
  by (simp add: core_eq_def sample_host_def)

lemmas sample_host_lift [simp] =
  core_eq_lift [OF sample_host_core] core_eq_validate [OF sample_host_core] core_eq_registry [OF sample_host_core]

lemma sample_host_simps [simp]:
  "b64_encode (sample_host d) = sample_encode" "x25519_public (sample_host d) = sample_public"
  "x25519_diffie_hellman (sample_host d) = sample_dh" "aead_encrypt (sample_host d) = (\<lambda>k n m. Some (m @ replicate 16 0))"
  "to_vec_request (sample_host d) = (\<lambda>_. Inr [1, 2])" "to_vec_envelope (sample_host d) = (\<lambda>e. Inr [1])"
  "sig_from_der (sample_host d) = (\<lambda>bs. Some (Signature bs))" "ecdsa_verify (sample_host d) = (\<lambda>key m sig. sig = Signature m)"
  by (simp_all add: sample_host_def)

lemma sample_host_messages [simp]:
  "decode_control_message (sample_host d) [1] = Inr (Message (ControlAlive
     \<lparr>al_message_type = ''alive'', al_version = 1, al_request_id = ''r1''\<rparr>))"
  "decode_control_message (sample_host d) [2] = Inr (Message (ControlDecision d))"
  by (simp_all add: decode_control_message_def sample_host_def)

lemma sample_raw_json: "RequestV1_raw_json (sample_host d) sample_request = Inr [1, 2]"
  by (simp add: RequestV1_raw_json_def RequestV1_validate_def sample_request_def VERSION_V1_def MAX_ENV_ENTRIES_def
      MAX_REQUEST_BYTES_def)

lemma sample_load_eq:
  assumes "core_eq X sample"
  shows "Transaction_load X (Stored (sample_state b e)) = Inr (sample_state b e)"
  using sample_state_valid by (simp add: core_eq_registry [OF assms])

lemma sample_decision_snapshot:
  assumes "core_eq X sample"
  shows "decision_snapshot X (\<lambda>_. Locked) 0 (Stored (sample_state b e)) = Inr (sample_state b e)"
proof -
  have "acquire_for_decision (\<lambda>_. Locked) 0 = (Inr (), 0)"
    by (simp add: acquire_for_decision_def acquire_until.simps)
  then show ?thesis unfolding decision_snapshot_def sample_load_eq [OF assms] by simp
qed

lemma sample_sealing:
  assumes "core_eq X sample" "x25519_public X = sample_public" "aead_encrypt X = (\<lambda>k n m. Some (m @ replicate 16 0))"
    "length raw \<le> 4"
  shows "seal_v1 X raw (sample_native SecureEnclave) (StaticSecret (replicate 32 2)) (replicate 12 0) =
   Inr \<lparr>sb_device_fingerprint = dv_fingerprint (sample_native SecureEnclave),
     sb_ephemeral_pub = sample_encode (replicate 32 2), sb_nonce = sample_encode (replicate 12 0),
     sb_ciphertext = sample_encode (raw @ replicate 16 0)\<rparr>"
proof -
  have nz: "\<not> all_zero (sample_dh (StaticSecret (replicate 32 2)) (sample_public sample_box_secret))"
    by (simp add: sample_dh_def sample_box_secret_def all_zero_def list_all_iff)
  have v: "DevicePublicRecordV1_validate X (sample_native SecureEnclave) = Inr ()"
    by (simp add: core_eq_validate [OF assms(1)] sample_native_valid)
  show ?thesis
    using nz assms(4) unfolding seal_v1_def v seal_v1_with_material_def
    by (simp add: sample_native_def Let_def MAX_REQUEST_BYTES_def encode_base64url_def assms(2,3)
        core_eqD [OF assms(1)] core_eq_lift [OF assms(1)])
qed

lemma sample_host_verifies:
  "ApproveNativeV1_validate_shape (sample_host d) a = ApproveNativeV1_validate_shape sample a"
  "verify_native_approval_v1 (sample_host d) a raw device = verify_native_approval_v1 sample a raw device"
  "DenyV1_validate_shape (sample_host d) n = DenyV1_validate_shape sample n"
  "verify_deny_v1 (sample_host d) n device = verify_deny_v1 sample n device"
proof -
  have c: "deny_challenge (sample_host d) = deny_challenge sample"
    by (simp add: fun_eq_iff deny_challenge_def core_eqD [OF sample_host_core])
  show a: "ApproveNativeV1_validate_shape (sample_host d) a = ApproveNativeV1_validate_shape sample a"
    by (simp add: ApproveNativeV1_validate_shape_def)
  show n: "DenyV1_validate_shape (sample_host d) n = DenyV1_validate_shape sample n"
    unfolding DenyV1_validate_shape_def sample_host_lift ..
  show "verify_native_approval_v1 (sample_host d) a raw device = verify_native_approval_v1 sample a raw device"
    by (simp add: verify_native_approval_v1_def a)
  show "verify_deny_v1 (sample_host d) n device = verify_deny_v1 sample n device"
    by (simp add: verify_deny_v1_def n c)
qed

lemma sample_host_gate:
  "final_authorization (sample_host d) sample_hook (sample_native SecureEnclave) 0 1090 None False (Stored (sample_state True 0))
   = (Inr (), Stored (sample_state True 0))"
proof -
  have "acquire_for_decision (\<lambda>_. Locked) 0 = (Inr (), 0)"
    by (simp add: acquire_for_decision_def acquire_until.simps)
  then show ?thesis
    unfolding final_authorization_def authorize_def authorize_in_def
    by (simp add: sample_load_eq [OF sample_host_core] sample_hook_def same_identity_def same_credential_def del: load_stored)
qed

lemma sample_host_approves:
  "apply_decision (sample_host d) sample_hook (ApproveNative sample_native_approval) SocketLane sample_request [1, 2]
     [sample_native SecureEnclave] 0 (Stored (sample_state True 0)) = (Inr (), Stored (sample_state True 0))"
proof -
  have "find (\<lambda>d. (dv_kind d = Software \<or> dv_kind d = SecureEnclave) \<and>
      dv_fingerprint d = an_device_fingerprint sample_native_approval) [sample_native SecureEnclave]
    = Some (sample_native SecureEnclave)"
    by (simp add: sample_native_approval_def) (simp add: sample_native_def)
  moreover have "an_request_id sample_native_approval = rq_request_id sample_request" "rq_expires_at sample_request = 1090"
    "he_now sample_hook = 1010"
    by (simp_all add: sample_native_approval_def sample_request_def sample_hook_def)
  ultimately show ?thesis
    unfolding apply_decision_def DecisionV1.case guarded_def
    by (simp add: sample_host_verifies sample_native_shape sample_native_verifies sample_host_gate)
qed

lemma sample_host_denies:
  "apply_decision (sample_host d) sample_hook (Deny sample_denial) SocketLane sample_request [1, 2]
     [sample_native SecureEnclave] 0 file = (Inl (Refusal ''request explicitly denied''), file)"
proof -
  have f: "dv_fingerprint (sample_native SecureEnclave) = dv_fingerprint (sample_native Software)"
    by (simp add: sample_native_def)
  have v: "verify_deny_v1 sample sample_denial (sample_native SecureEnclave) = Inr ()"
    unfolding verify_deny_v1_def
    by (simp add: sample_native_valid sample_denial_def DenyV1_validate_shape_def VERSION_V1_def device_key_def
        sample_deny_challenge_nonempty f) (simp add: sample_native_def sec1_p256_verifying_key_def)
  then have "DenyV1_validate_shape sample sample_denial = Inr ()" by (auto simp: verify_deny_v1_def result_simps)
  moreover have "dn_signature sample_denial \<noteq> None" "dn_version sample_denial = VERSION_V1"
    "dn_request_id sample_denial = rq_request_id sample_request" "rq_expires_at sample_request = 1090"
    "dn_device_fingerprint sample_denial = dv_fingerprint (sample_native SecureEnclave)" "he_now sample_hook = 1010"
    by (simp_all add: sample_denial_def sample_request_def sample_hook_def VERSION_V1_def f)
  ultimately show ?thesis
    unfolding apply_decision_def DecisionV1.case guarded_def by (simp add: sample_host_verifies v)
qed

lemma sample_seal_request:
  "\<exists>envelope. seal_request (sample_host d) sample_request [1, 2]
     [(sample_native SecureEnclave, StaticSecret (replicate 32 2), replicate 12 0)] = Inr envelope"
  by (simp add: seal_request_def MAX_DEVICES_def sample_sealing [OF sample_host_core] RequestEnvelopeV1_validate_def
      sealed_body_rejected_def sample_request_def VERSION_V1_def MAX_ENVELOPE_BYTES_def)
    (simp add: sample_native_def)

lemma sample_socket:
  "snd (try_agent_socket (sample_host d) (Inr ''OSHIOKI_AGENT_SOCKET=/s'') ''r1'' [1] 90000
     (hr_socket (sample_run env))) = Inr (Verdict [2])"
  by (simp add: try_agent_socket_def sample_transports sample_run_def encode_frame_def MAX_FRAME_BYTES_def MAX_ENVELOPE_BYTES_def
      AGENT_SOCKET_CONNECT_TIMEOUT_def DAEMON_ACK_TIMEOUT_def AliveV1_validate_def VERSION_V1_def)

lemma sample_execution:
  assumes "apply_decision (sample_host d) sample_hook d SocketLane sample_request [1, 2]
     [sample_native SecureEnclave] 0 (Stored (sample_state True 0)) = (r, f)"
  shows "execute_request_at (sample_host d) (sample_run sample_hook) late sample_request 90000 (Stored (sample_state True 0))
    = (socket_decision_outcome r, f)"
proof -
  have i: "rq_request_id sample_request = ''r1''" by (simp add: sample_request_def)
  have k: "(sample_native SecureEnclave)\<lparr>dv_active := True\<rparr> = sample_native SecureEnclave" "dv_active (sample_native SecureEnclave)"
    by (simp_all add: sample_native_def)
  have ep: "lr_revocation_epoch (sample_state True 0) = 0" by (simp add: sample_state_def)
  from sample_seal_request [of d] obtain envelope where e: "seal_request (sample_host d) sample_request [1, 2]
     [(sample_native SecureEnclave, StaticSecret (replicate 32 2), replicate 12 0)] = Inr envelope" by blast
  have u: "decode_socket_command_decision (sample_host d) [2] = Inr d"
    by (simp add: decode_socket_command_decision_def)
  have run: "hr_config_env (sample_run sample_hook) = Inr ''OSHIOKI_AGENT_SOCKET=/s''"
    "hr_attempt (sample_run sample_hook) = (\<lambda>_. Locked)" "hr_start (sample_run sample_hook) = 0"
    "hr_sent (sample_run sample_hook) = 0" "hr_between (sample_run sample_hook) = (\<lambda>f. f)"
    "hr_material (sample_run sample_hook) = (\<lambda>_. (StaticSecret (replicate 32 2), replicate 12 0))"
    "hr_env (sample_run sample_hook) = (\<lambda>_. sample_hook)"
    by (simp_all add: sample_run_def)
  show ?thesis
    unfolding execute_request_at_def run i sample_transports sample_raw_json sample_decision_snapshot [OF sample_host_core]
    by (simp add: guarded_def host_fault_def Let_def k e material_for_def run sample_socket u assms ep MAX_ENVELOPE_BYTES_def)
qed

lemma sample_run_env: "hr_env (sample_run env) n = env" "hr_between (sample_run env) f = f"
  by (simp_all add: sample_run_def)

theorem execute_request_safe_witness:
  "\<exists>device decision. dv_active device \<and>
     approval_proved (sample_host (ApproveNative sample_native_approval)) sample_hook decision sample_request [1, 2] device"
proof -
  have "execute_request_at (sample_host (ApproveNative sample_native_approval)) (sample_run sample_hook) (\<lambda>_. False)
      sample_request 90000 (Stored (sample_state True 0)) = (Inr (), Stored (sample_state True 0))"
    by (simp add: sample_execution [OF sample_host_approves])
  from execute_request_safe [OF this] show ?thesis
    unfolding sample_raw_json sample_run_env by (elim exE conjE, simp only: sum.inject) blast
qed


text \<open>The authentication lane, on the same run.\<close>

lemma sample_auth_messages [simp]:
  "decode_control_message sample_auth [1] = Inr (Message (ControlAlive
     \<lparr>al_message_type = ''alive'', al_version = 1, al_request_id = ''r1''\<rparr>))"
  "decode_control_message sample_auth [2] = Inr (Message (ControlAuthDecision (AuthenticateNative sample_authentication)))"
  by (simp_all add: decode_control_message_def sample_auth_def AUTH_NATIVE_DECISION_TYPE_def)

lemma sample_auth_raw_json: "AuthRequestV1_raw_json sample_auth sample_auth_request = Inr [7]"
proof -
  have "AuthRequestV1_validate sample_auth sample_auth_request = Inr ()"
    using sample_auth_parses [of "[]" 1000] by (auto simp: parse_auth_request_at_iff)
  moreover have "to_vec_auth_request sample_auth = (\<lambda>_. Inr [7])" by (simp add: sample_auth_def)
  ultimately show ?thesis by (simp add: AuthRequestV1_raw_json_def MAX_REQUEST_BYTES_def)
qed

lemma sample_auth_material:
  "x25519_public sample_auth = sample_public" "aead_encrypt sample_auth = (\<lambda>k n m. Some (m @ replicate 16 0))"
  by (simp_all add: sample_auth_def)

lemma sample_seal_auth_request:
  "\<exists>envelope. seal_auth_request sample_auth sample_auth_request [7]
     [(sample_native SecureEnclave, StaticSecret (replicate 32 2), replicate 12 0)] = Inr envelope"
  by (simp add: seal_auth_request_def MAX_DEVICES_def sample_sealing [OF sample_auth_core sample_auth_material]
      AuthEnvelopeV1_validate_def sample_auth_request_def AUTH_WIRE_VERSION_def MAX_ENVELOPE_BYTES_def sample_no_control)
    (simp add: sample_native_def)

lemma sample_auth_socket:
  "snd (try_agent_socket sample_auth (Inr ''OSHIOKI_AGENT_SOCKET=/s'') ''r1'' [1] 90000
     (hr_socket (sample_run env))) = Inr (Verdict [2])"
  by (simp add: try_agent_socket_def sample_transports sample_run_def encode_frame_def MAX_FRAME_BYTES_def MAX_ENVELOPE_BYTES_def
      AGENT_SOCKET_CONNECT_TIMEOUT_def DAEMON_ACK_TIMEOUT_def AliveV1_validate_def VERSION_V1_def)

lemma sample_auth_execution:
  assumes "apply_auth_decision sample_auth env (AuthenticateNative sample_authentication) sample_auth_request [7]
     [sample_native SecureEnclave] 0 (Stored (sample_state True 0)) = (r, f)"
  shows "execute_auth_request_at sample_auth (sample_run env) late sample_auth_request 90000 (Stored (sample_state True 0))
    = (socket_decision_outcome r, f)"
proof -
  have i: "aq_request_id sample_auth_request = ''r1''" by (simp add: sample_auth_request_def)
  have k: "hardware_auth_recipients (lr_registry (sample_state True 0)) = [sample_native SecureEnclave]"
    by (simp add: sample_state_def hardware_auth_recipients_def sample_native_def is_hardware_auth_device_def)
  have ep: "lr_revocation_epoch (sample_state True 0) = 0" by (simp add: sample_state_def)
  from sample_seal_auth_request obtain envelope where e: "seal_auth_request sample_auth sample_auth_request [7]
     [(sample_native SecureEnclave, StaticSecret (replicate 32 2), replicate 12 0)] = Inr envelope" by blast
  have run: "hr_config_env (sample_run env) = Inr ''OSHIOKI_AGENT_SOCKET=/s''"
    "hr_attempt (sample_run env) = (\<lambda>_. Locked)" "hr_start (sample_run env) = 0"
    "hr_sent (sample_run env) = 0" "hr_between (sample_run env) = (\<lambda>f. f)" "hr_liveness (sample_run env) = Some False"
    "hr_material (sample_run env) = (\<lambda>_. (StaticSecret (replicate 32 2), replicate 12 0))"
    by (simp_all add: sample_run_def)
  have w: "await_auth_decision sample_auth (sample_run env) sample_auth_request [1] 90000 u b
    = Inr (PendingSocket (AuthenticateNative sample_authentication))" for u b
    by (simp add: await_auth_decision_def run i sample_auth_socket decode_socket_auth_decision_def)
  show ?thesis
    unfolding execute_auth_request_at_def run sample_transports sample_auth_raw_json sample_decision_snapshot [OF sample_auth_core]
    by (simp add: guarded_def host_fault_def Let_def k e material_for_def run w assms ep sample_run_env with_liveness_def)
qed

theorem execute_auth_request_safe_witness:
  "\<exists>device decision. is_hardware_auth_device device \<and>
     auth_proved sample_auth sample_hook decision sample_auth_request [7] device"
proof -
  have "execute_auth_request_at sample_auth (sample_run sample_hook) (\<lambda>_. False)
      sample_auth_request 90000 (Stored (sample_state True 0)) = (Inr (), Stored (sample_state True 0))"
    by (simp add: sample_auth_execution [OF sample_auth_applies])
  from execute_auth_request_safe [OF this] show ?thesis
    unfolding sample_auth_raw_json sample_run_env by (elim exE conjE, simp only: sum.inject) blast
qed

text \<open>A proved authentication that arrives after the request has expired.\<close>

lemma sample_auth_too_late:
  "apply_auth_decision sample_auth (sample_hook\<lparr>he_now := 1090\<rparr>) (AuthenticateNative sample_authentication) sample_auth_request [7]
     [sample_native SecureEnclave] 0 f = (Inl (Refusal ''authentication request expired before its decision was applied''), f)"
proof -
  have "find (\<lambda>d. dv_kind d = SecureEnclave \<and> dv_fingerprint d = aan_device_fingerprint sample_authentication)
      [sample_native SecureEnclave] = Some (sample_native SecureEnclave)"
    by (simp add: sample_authentication_def) (simp add: sample_native_def)
  moreover have "AuthApproveNativeV1_validate_shape sample_auth sample_authentication = Inr ()"
    using sample_authentication_verifies [of 1010] by (auto simp: verify_native_authentication_v1_def result_simps)
  moreover have "aan_request_id sample_authentication = aq_request_id sample_auth_request" "aq_expires_at sample_auth_request = 1090"
    "aq_issued_at sample_auth_request = 1000"
    by (simp_all add: sample_authentication_def sample_auth_request_def)
  ultimately show ?thesis
    unfolding apply_auth_decision_def AuthDecisionV1.case guarded_def Let_def
    by (simp add: sample_authentication_verifies)
qed

theorem execute_auth_request_denies_on_evidence_witness:
  "\<exists>device decision. is_hardware_auth_device device \<and>
     auth_proved sample_auth (sample_hook\<lparr>he_now := 1090\<rparr>) decision sample_auth_request [7] device"
proof -
  let ?e = "Refusal ''authentication request expired before its decision was applied''"
  have x: "execute_auth_request_at sample_auth (sample_run (sample_hook\<lparr>he_now := 1090\<rparr>)) (\<lambda>_. False)
      sample_auth_request 90000 (Stored (sample_state True 0)) = (Inl ?e, Stored (sample_state True 0))"
    by (simp add: sample_auth_execution [OF sample_auth_too_late] socket_decision_outcome_def is_invalid_decision_def)
  have "check_error_exit_code ?e = CHECK_RC_DENIED" by (simp add: denied_is_refusal)
  from execute_auth_request_denies_on_evidence [OF x this] show ?thesis
    unfolding sample_auth_raw_json sample_run_env by (elim exE conjE, simp only: sum.inject) blast
qed

end
