(* ===== verification/Challenges.thy ===== *)
theory Challenges
  imports Enrollment_V1 Auth_V1 Tool_V1
begin

text \<open>
  The browser-relay challenge of the protocol crate's root (\<open>protocol/src/lib.rs\<close>), and the separation
  of what device keys sign. A native key signs approvals, denials, authentications, browser
  ceremonies and the proof of its enrollment: two requests never share a message, up to a digest
  collision on exactly their two preimages. A WebAuthn key signs assertions on three lanes, and a
  decision that verifies on a lane was given by its user for the message of that lane.
\<close>

definition BROWSER_RELAY_CHALLENGE_DOMAIN :: bytes where
  "BROWSER_RELAY_CHALLENGE_DOMAIN = as_bytes ''oshioki/browser-ceremony-approval/v1'' @ [0]"

definition BROWSER_RELAY_SIGNATURE_DOMAIN :: bytes where
  "BROWSER_RELAY_SIGNATURE_DOMAIN = as_bytes ''oshioki/agent/browser-ceremony-approval/v1'' @ [0]"

definition browser_relay_message :: "string \<Rightarrow> string \<Rightarrow> nat \<Rightarrow> string \<Rightarrow> string \<Rightarrow> bytes" where
  "browser_relay_message lane attempt expires nonce account =
     BROWSER_RELAY_CHALLENGE_DOMAIN
     @ framed [as_bytes lane, as_bytes attempt, as_bytes nonce, as_bytes account]
     @ u64_be_bytes expires"

definition browser_relay_challenge ::
  "crates \<Rightarrow> string \<Rightarrow> string \<Rightarrow> nat \<Rightarrow> string \<Rightarrow> string \<Rightarrow> bytes" where
  "browser_relay_challenge X lane attempt expires nonce account =
     sha256 X (browser_relay_message lane attempt expires nonce account)"

definition browser_relay_signature_payload :: "bytes \<Rightarrow> bytes" where
  "browser_relay_signature_payload challenge = BROWSER_RELAY_SIGNATURE_DOMAIN @ challenge"

section \<open>Binding of the browser ceremony\<close>

lemma browser_relay_message_inject:
  assumes "browser_relay_message lane attempt expires nonce account
      = browser_relay_message lane' attempt' expires' nonce' account'"
    and "\<forall>s \<in> {lane, attempt, nonce, account, lane', attempt', nonce', account'}. length s < 2 ^ 64"
    and "expires < 2 ^ 64" "expires' < 2 ^ 64"
  shows "lane = lane' \<and> attempt = attempt' \<and> expires = expires' \<and> nonce = nonce' \<and> account = account'"
proof -
  let ?f = "framed [as_bytes lane, as_bytes attempt, as_bytes nonce, as_bytes account]"
  let ?f' = "framed [as_bytes lane', as_bytes attempt', as_bytes nonce', as_bytes account']"
  have eq: "?f @ u64_be_bytes expires = ?f' @ u64_be_bytes expires'"
    using assms(1) by (simp add: browser_relay_message_def)
  then have "?f = ?f'" and e: "u64_be_bytes expires = u64_be_bytes expires'"
    by (simp_all add: append_eq_append_conv)
  then have "[as_bytes lane, as_bytes attempt, as_bytes nonce, as_bytes account]
      = [as_bytes lane', as_bytes attempt', as_bytes nonce', as_bytes account']"
    using assms(2) by (intro framed_inject) simp_all
  moreover have "expires = expires'" using e assms(3,4) by (intro u64_be_bytes_inject)
  ultimately show ?thesis by simp
qed

text \<open>a browser-ceremony challenge is bound to its lane, attempt, expiry, receiver nonce and Google
  account: two ceremonies with the same challenge agree on all five, unless the digest collides on
  exactly their two messages.\<close>

theorem browser_relay_challenge_binds:
  assumes "browser_relay_challenge X lane attempt expires nonce account
      = browser_relay_challenge X lane' attempt' expires' nonce' account'"
    and "\<not> sha256_collision X (browser_relay_message lane attempt expires nonce account)
      (browser_relay_message lane' attempt' expires' nonce' account')"
    and "\<forall>s \<in> {lane, attempt, nonce, account, lane', attempt', nonce', account'}. length s < 2 ^ 64"
    and "expires < 2 ^ 64" "expires' < 2 ^ 64"
  shows "lane = lane' \<and> attempt = attempt' \<and> expires = expires' \<and> nonce = nonce' \<and> account = account'"
  using assms
  by (intro browser_relay_message_inject)
    (auto simp: browser_relay_challenge_def sha256_collision_def)

theorem browser_relay_challenge_binds_witness:
  "browser_relay_challenge sample ''lane'' ''a'' 5 ''n'' ''me'' = browser_relay_challenge sample ''lane'' ''a'' 5 ''n'' ''me''
   \<and> (5 :: nat) = 5"
  using browser_relay_challenge_binds [of sample "''lane''" "''a''" 5 "''n''" "''me''" "''lane''" "''a''" 5 "''n''" "''me''"]
  by (simp add: sha256_collision_def)

section \<open>Native keys\<close>

text \<open>What a native device key is asked to sign: the five messages the agent hands to its signer.\<close>

datatype signed_request =
    SignApproval bytes
  | SignDenial string string
  | SignAuthentication bytes
  | SignCeremony string string nat string string
  | SignEnrollment bytes bytes bytes bytes string

fun signed_message :: "crates \<Rightarrow> signed_request \<Rightarrow> bytes" where
  "signed_message X (SignApproval raw) = approve_challenge X raw"
| "signed_message X (SignDenial i f) = deny_challenge X i f"
| "signed_message X (SignAuthentication raw) = auth_challenge X raw"
| "signed_message X (SignCeremony l a e n c) = browser_relay_signature_payload (browser_relay_challenge X l a e n c)"
| "signed_message X (SignEnrollment secret public box token label) = native_enrollment_proof X secret public box token label"

text \<open>Every message is a digest, of bytes or of bytes under a key; only the ceremony puts a prefix before it.\<close>

datatype preimage = Sha bytes | Mac bytes bytes

fun digest_of :: "crates \<Rightarrow> preimage \<Rightarrow> bytes" where
  "digest_of X (Sha m) = sha256 X m"
| "digest_of X (Mac k m) = hmac_sha256 X k m"

definition digest_collision :: "crates \<Rightarrow> preimage \<Rightarrow> preimage \<Rightarrow> bool" where
  "digest_collision X p q \<longleftrightarrow> p \<noteq> q \<and> digest_of X p = digest_of X q"

fun preimage_of :: "crates \<Rightarrow> signed_request \<Rightarrow> preimage" where
  "preimage_of X (SignApproval raw) = Sha (CHALLENGE_DOMAIN @ raw)"
| "preimage_of X (SignDenial i f) = Sha (DENY_DOMAIN @ as_bytes i @ [0] @ as_bytes f)"
| "preimage_of X (SignAuthentication raw) = Sha (AUTH_CHALLENGE_DOMAIN @ raw)"
| "preimage_of X (SignCeremony l a e n c) = Sha (browser_relay_message l a e n c)"
| "preimage_of X (SignEnrollment secret public box token label) = Mac (hmac_sha256 X secret NATIVE_PROOF_DOMAIN)
     (framed [native_credential_id X public, public, box, token, as_bytes label])"

fun signature_prefix :: "signed_request \<Rightarrow> bytes" where
  "signature_prefix (SignCeremony l a e n c) = BROWSER_RELAY_SIGNATURE_DOMAIN"
| "signature_prefix (SignApproval raw) = []"
| "signature_prefix (SignDenial i f) = []"
| "signature_prefix (SignAuthentication raw) = []"
| "signature_prefix (SignEnrollment secret public box token label) = []"

lemma signed_message_eq: "signed_message X r = signature_prefix r @ digest_of X (preimage_of X r)"
  by (cases r)
    (simp_all add: approve_challenge_def deny_challenge_def auth_challenge_def browser_relay_challenge_def
      browser_relay_signature_payload_def native_enrollment_proof_def enrollment_hmac_def transcript_mac_def)

lemma digest_length: "digest_sizes X \<Longrightarrow> length (digest_of X p) = 32"
  by (cases p) (simp_all add: digest_sizes_def)

text \<open>Sizes the program can hold; a fingerprint is base64url text and has no NUL.\<close>

fun signable :: "signed_request \<Rightarrow> bool" where
  "signable (SignDenial i f) \<longleftrightarrow> CHR 0x00 \<notin> set f"
| "signable (SignCeremony l a e n c) \<longleftrightarrow> (\<forall>s \<in> {l, a, n, c}. length s < 2 ^ 64) \<and> e < 2 ^ 64"
| "signable (SignEnrollment secret public box token label) \<longleftrightarrow>
     (\<forall>b \<in> {public, box, token}. length b < 2 ^ 64) \<and> length label < 2 ^ 64"
| "signable (SignApproval raw) \<longleftrightarrow> True"
| "signable (SignAuthentication raw) \<longleftrightarrow> True"

text \<open>The same request; two enrollment proofs agree on everything but the secret, which is only the key of the MAC.\<close>

fun same_request :: "signed_request \<Rightarrow> signed_request \<Rightarrow> bool" where
  "same_request (SignEnrollment secret public box token label) (SignEnrollment secret' public' box' token' label') \<longleftrightarrow>
     public = public' \<and> box = box' \<and> token = token' \<and> label = label'"
| "same_request r r' \<longleftrightarrow> r = r'"

lemma nul_of_char: "(of_char c :: u8) = 0 \<longleftrightarrow> c = CHR 0x00"
proof -
  have "(0 :: u8) = of_char (CHR 0x00)" by simp
  then show ?thesis by (metis of_char_u8_inject)
qed

lemma nul_terminated:
  assumes "CHR 0x00 \<notin> set s" "CHR 0x00 \<notin> set t" "as_bytes s @ [0] @ a = as_bytes t @ [0] @ b"
  shows "s = t \<and> a = b"
  using assms by (induction s arbitrary: t) (case_tac t; auto simp: nul_of_char)+

lemma first_mark: "f @ x # a = g @ x # b \<Longrightarrow> x \<notin> set f \<Longrightarrow> x \<notin> set g \<Longrightarrow> f = g \<and> a = b"
  by (induction f arbitrary: g) (case_tac g; auto)+

lemma last_nul:
  assumes "a @ [x] @ f = b @ [x] @ g" "x \<notin> set f" "x \<notin> set g"
  shows "a = b \<and> f = g"
  using first_mark [of "rev f" x "rev a" "rev g" "rev b"] arg_cong [OF assms(1), of rev] assms(2,3) by simp

lemma denials_inject:
  assumes "CHR 0x00 \<notin> set f" "CHR 0x00 \<notin> set g" "as_bytes i @ [0] @ as_bytes f = as_bytes j @ [0] @ as_bytes g"
  shows "i = j \<and> f = g"
proof -
  have "(0 :: u8) \<notin> set (as_bytes s)" if "CHR 0x00 \<notin> set s" for s using that by (auto simp: as_bytes_def nul_of_char)
  from last_nul [OF assms(3) this [OF assms(1)] this [OF assms(2)]] show ?thesis by (simp add: as_bytes_inject)
qed

text \<open>The domain of a hashed message is the text before its first NUL.\<close>

fun lane_name :: "signed_request \<Rightarrow> string" where
  "lane_name (SignApproval raw) = ''oshioki/approve/v1''"
| "lane_name (SignDenial i f) = ''oshioki/deny/v1''"
| "lane_name (SignAuthentication raw) = ''oshioki/authenticate/sudo/v1''"
| "lane_name (SignCeremony l a e n c) = ''oshioki/browser-ceremony-approval/v1''"
| "lane_name (SignEnrollment secret public box token label) = ''oshioki/enroll/native-proof/v1''"

lemma hashed_lane:
  assumes "preimage_of X r = Sha m"
  shows "\<exists>rest. m = as_bytes (lane_name r) @ [0] @ rest \<and> CHR 0x00 \<notin> set (lane_name r)"
  using assms
  by (cases r) (auto simp: CHALLENGE_DOMAIN_def DENY_DOMAIN_def AUTH_CHALLENGE_DOMAIN_def browser_relay_message_def
      BROWSER_RELAY_CHALLENGE_DOMAIN_def)

lemma same_preimage:
  assumes "preimage_of X r = preimage_of X r'" "signable r" "signable r'" "digest_sizes X"
  shows "same_request r r'"
proof (cases "preimage_of X r")
  case (Mac k m)
  then obtain s p b t l s' p' b' t' l' where r: "r = SignEnrollment s p b t l" "r' = SignEnrollment s' p' b' t' l'"
    using assms(1) by (cases r; cases r') simp_all
  have "length (native_credential_id X q) < 2 ^ 64" for q using assms(4) by (simp add: native_credential_id_def digest_sizes_def)
  then have "[native_credential_id X p, p, b, t, as_bytes l] = [native_credential_id X p', p', b', t', as_bytes l']"
    using assms(1-3) r by (intro framed_inject) simp_all
  then show ?thesis by (simp add: r as_bytes_inject)
next
  case (Sha m)
  obtain rest where m: "m = as_bytes (lane_name r) @ [0] @ rest" "CHR 0x00 \<notin> set (lane_name r)" using hashed_lane [OF Sha] by blast
  obtain rest' where m': "m = as_bytes (lane_name r') @ [0] @ rest'" "CHR 0x00 \<notin> set (lane_name r')"
    using hashed_lane [of X r' m] Sha assms(1) by auto
  have name: "lane_name r = lane_name r'" using nul_terminated [OF m(2) m'(2)] m(1) m'(1) by metis
  show ?thesis
  proof (cases r)
    case (SignCeremony l a e n c)
    with name Sha assms(1) obtain l' a' e' n' c' where r': "r' = SignCeremony l' a' e' n' c'" by (cases r') simp_all
    then show ?thesis using SignCeremony assms(1-3) browser_relay_message_inject [of l a e n c l' a' e' n' c'] by simp
  next
    case (SignDenial i f)
    with name Sha assms(1) obtain i' f' where "r' = SignDenial i' f'" by (cases r') simp_all
    then show ?thesis using SignDenial assms(1-3) denials_inject [of f f' i i'] by simp
  qed (use name Sha assms(1) in \<open>cases r'; simp\<close>)+
qed

text \<open>C31: a native signature means one request. If two of the messages an agent hands to its key (an approval, a denial, a sudo
  authentication, a browser ceremony, the proof of its enrollment) are equal, they are the same request: same lane and same
  request bytes, same request id and device for denials, same ceremony, same enrolled keys. This is up to a digest collision on
  exactly the two preimages; fingerprints have no NUL and lengths and times fit 64 bits.\<close>

theorem native_signature_means_one_request:
  assumes "digest_sizes X" "signable r" "signable r'" "signed_message X r = signed_message X r'"
    and "\<not> digest_collision X (preimage_of X r) (preimage_of X r')"
  shows "same_request r r'"
proof -
  have "length (signature_prefix r) = length (signature_prefix r')"
    using arg_cong [OF assms(4), of length] by (simp add: signed_message_eq digest_length [OF assms(1)])
  with assms(4) have "digest_of X (preimage_of X r) = digest_of X (preimage_of X r')" by (simp add: signed_message_eq)
  with assms(5) have "preimage_of X r = preimage_of X r'" by (auto simp: digest_collision_def)
  then show ?thesis using assms(2,3) by (rule same_preimage [OF _ _ _ assms(1)])
qed

theorem native_signature_means_one_request_witness:
  "signable (SignDenial ''r1'' ''f'') \<and> same_request (SignDenial ''r1'' ''f'') (SignDenial ''r1'' ''f'') \<and>
   \<not> same_request (SignDenial ''r1'' ''f'') (SignDenial ''r2'' ''f'')"
  using native_signature_means_one_request [OF sample_digests, of "SignDenial ''r1'' ''f''" "SignDenial ''r1'' ''f''"]
  by (simp add: digest_collision_def)

section \<open>WebAuthn keys\<close>

text \<open>C30: a WebAuthn decision was given by its user. Given what the authenticator of the device signed (its key verifies nothing
  else, and the client data it signed carries the challenge it was asked for), a command approval, a sudo authentication or a tool
  decision verifies only if the authenticator, with user presence and user verification for the configured relying party, answered
  exactly the message of that lane: the lane's domain followed by the retained request bytes, so an answer given on one lane or for
  one request never counts on another. This is up to a digest collision on that message or on the client data presented.\<close>

theorem webauthn_decision_was_given:
  assumes "b64_roundtrip X" "digest_sizes X" "signs_only X device made"
    and "asked_honestly X (client_data_from_slice X ''crossOrigin'') made" "asked_honestly X (tool_client_data X) made"
  shows "(verify_approval_v1 X a raw device config = Inr out \<longrightarrow>
      user_answered X config made (ap_client_data_json a) (CHALLENGE_DOMAIN @ raw)) \<and>
    (verify_webauthn_authentication_v1 X w raw device config now = Inr out \<longrightarrow>
      user_answered X config made (aaw_client_data_json w) (AUTH_CHALLENGE_DOMAIN @ raw)) \<and>
    (verify_tool_decision_v1 X d raw device config now = Inr out \<longrightarrow>
      user_answered X config made (tw_client_data_json (ToolApprovalDecisionV1_assertion d))
        ((case ToolApprovalDecisionV1_action d of ToolApprove \<Rightarrow> TOOL_APPROVE_DOMAIN | ToolDeny \<Rightarrow> TOOL_DENY_DOMAIN) @ raw))"
  using command_lane.answered [OF _ assms(3,4,1,2)] authentication_lane.answered [OF _ assms(3,4,1,2)]
    tool_lane.answered [OF _ assms(3,5,1,2)]
  by blast

text \<open>An authenticator that signed one assertion, for the request \<open>[1, 2]\<close>.\<close>

definition sample_signed :: "assertion_made set" where
  "sample_signed = {(sample_auth_data, approve_challenge sample [1, 2], CHALLENGE_DOMAIN @ [1, 2])}"

definition sample_authenticator :: crates where
  "sample_authenticator = (sample_with_client_data sample False)\<lparr>ecdsa_verify :=
     \<lambda>key m sig. sig = Signature m \<and> m = sample_auth_data @ sample_digest (approve_challenge sample [1, 2])\<rparr>"

lemma sample_authenticator_simps [simp]:
  "b64_encode sample_authenticator = sample_encode" "b64_decode sample_authenticator = sample_decode"
  "sha256 sample_authenticator = sample_digest" "sig_from_der sample_authenticator = (\<lambda>bs. Some (Signature bs))"
  "client_data_from_slice sample_authenticator = (\<lambda>k bs. Inr (sample_client_data False bs))"
  "json_events_from_slice sample_authenticator bs = Inl ''no value''"
  "ecdsa_verify sample_authenticator key m sig \<longleftrightarrow>
     sig = Signature m \<and> m = sample_auth_data @ sample_digest (approve_challenge sample [1, 2])"
  by (simp_all add: sample_authenticator_def sample_with_client_data_def sample_def)

lemma sample_authenticator_same:
  "b64_encode sample_authenticator = b64_encode sample" "b64_decode sample_authenticator = b64_decode sample"
  "sha256 sample_authenticator = sha256 sample" "hmac_sha256 sample_authenticator = hmac_sha256 sample"
  "vk_from_sec1_bytes sample_authenticator = vk_from_sec1_bytes sample"
  "cbor_from_reader sample_authenticator = cbor_from_reader sample"
  by (simp_all add: sample_authenticator_def sample_with_client_data_def)

lemma sample_authenticator_lift [simp]:
  "decode_base64url sample_authenticator = decode_base64url sample" "decode_exact sample_authenticator = decode_exact sample"
  "valid_fingerprint sample_authenticator = valid_fingerprint sample"
  "cose_p256_verifying_key sample_authenticator = cose_p256_verifying_key sample"
  "sec1_p256_verifying_key sample_authenticator = sec1_p256_verifying_key sample"
  "native_credential_id sample_authenticator = native_credential_id sample" "device_key sample_authenticator = device_key sample"
  "device_fingerprint sample_authenticator = device_fingerprint sample"
  "approve_challenge sample_authenticator = approve_challenge sample"
  unfolding fun_eq_iff decode_base64url_def decode_exact_def valid_fingerprint_def cose_p256_verifying_key_def
    decode_cbor_value_def sec1_p256_verifying_key_def native_credential_id_def device_key_def device_fingerprint_def
    encode_base64url_def approve_challenge_def sample_authenticator_same
  by simp_all

lemma sample_authenticator_validate [simp]:
  "DevicePublicRecordV1_validate sample_authenticator = DevicePublicRecordV1_validate sample"
  unfolding fun_eq_iff DevicePublicRecordV1_validate_def sample_authenticator_lift by simp

lemma sample_authenticator_verifies:
  "\<exists>out. verify_approval_v1 sample_authenticator sample_approval [1, 2] sample_webauthn sample_config = Inr out"
  unfolding verify_approval_v1_def verify_assertion_def
  by (simp add: sample_config_valid sample_webauthn_valid sample_approval_def VERSION_V1_def sample_client_data_def
      length_sample_auth_data sample_auth_data_parts sample_cose_key Let_def)
    (simp add: sample_webauthn_def sample_config_def sample_cose_key)

theorem webauthn_decision_was_given_witness:
  "user_answered sample_authenticator sample_config sample_signed (ap_client_data_json sample_approval) (CHALLENGE_DOMAIN @ [1, 2])"
proof -
  have "b64_roundtrip sample_authenticator" "digest_sizes sample_authenticator"
    using sample_b64 sample_digests by (simp_all add: b64_roundtrip_def digest_sizes_def) (simp add: sample_authenticator_def sample_with_client_data_def)
  moreover have "signs_only sample_authenticator sample_webauthn sample_signed"
    by (auto simp: signs_only_def sample_signed_def)
  moreover have "asked_honestly sample_authenticator (client_data_from_slice sample_authenticator ''crossOrigin'') sample_signed"
    "asked_honestly sample_authenticator (tool_client_data sample_authenticator) sample_signed"
    by (simp_all add: asked_honestly_def sample_signed_def sample_client_data_def approve_challenge_def tool_client_data_def
        strict_json_value_def)
  ultimately show ?thesis using webauthn_decision_was_given sample_authenticator_verifies by blast
qed

end
