(* ===== verification/Agent_Identity.thy ===== *)
theory Agent_Identity
  imports Hook_Request Challenges
begin

text \<open>
  The agent's device identity (\<open>agent/src/lib.rs\<close>): its signer, box secret and token hash, opening
  of sealed requests, the decisions it signs, and the enrollment submission. A signer is the record of
  the two methods of the trait. The theorems close the loop with the hook: what an identity signs for
  a request it opened is accepted by the host that pinned it, and its enrollment yields its record.
\<close>

section \<open>Signers and the identity\<close>

record Signer =
  sg_public_key_sec1 :: bytes
  sg_sign_der :: "bytes \<Rightarrow> string \<Rightarrow> string + bytes"

datatype SignerKind = SoftwareKey | Enclave

datatype SigningFileV1 = SoftwareFile string | EnclaveFile string

fun SigningFileV1_kind :: "SigningFileV1 \<Rightarrow> SignerKind" where
  "SigningFileV1_kind (SoftwareFile key) = SoftwareKey"
| "SigningFileV1_kind (EnclaveFile blob) = Enclave"

record Identity =
  id_signer :: Signer
  id_signing :: SigningFileV1
  id_box_secret :: static_secret
  id_box_secret_ref :: "string option"
  id_api_token_hash :: bytes

record OpenedRequest =
  or_request :: RequestV1
  or_raw :: bytes

definition ENROLL_REASON :: string where "ENROLL_REASON = ''enroll this device with a host''"

definition signer_kind :: "Identity \<Rightarrow> SignerKind" where
  "signer_kind i = SigningFileV1_kind (id_signing i)"

definition device_kind :: "Identity \<Rightarrow> DeviceKindV1" where
  "device_kind i = (case signer_kind i of SoftwareKey \<Rightarrow> Software | Enclave \<Rightarrow> SecureEnclave)"

definition public_key_sec1 :: "Identity \<Rightarrow> bytes" where
  "public_key_sec1 i = sg_public_key_sec1 (id_signer i)"

definition box_public_key :: "crates \<Rightarrow> Identity \<Rightarrow> bytes" where
  "box_public_key X i = x25519_public X (id_box_secret i)"

definition credential_id :: "crates \<Rightarrow> Identity \<Rightarrow> bytes" where
  "credential_id X i = native_credential_id X (public_key_sec1 i)"

definition fingerprint :: "crates \<Rightarrow> Identity \<Rightarrow> string" where
  "fingerprint X i = device_fingerprint X (credential_id X i) (public_key_sec1 i) (box_public_key X i)"

definition device_record :: "crates \<Rightarrow> Identity \<Rightarrow> string \<Rightarrow> DevicePublicRecordV1" where
  "device_record X i label = \<lparr>
     dv_version = VERSION_V1, dv_kind = device_kind i, dv_fingerprint = fingerprint X i,
     dv_credential_id = encode_base64url X (credential_id X i),
     dv_credential_public_key = encode_base64url X (public_key_sec1 i),
     dv_box_public_key = encode_base64url X (box_public_key X i),
     dv_label = label, dv_api_token_hash = encode_base64url X (id_api_token_hash i),
     dv_sign_count = 0, dv_active = True\<rparr>"

section \<open>Enrollment\<close>

definition enrollment_submission ::
  "crates \<Rightarrow> Identity \<Rightarrow> string \<Rightarrow> bytes \<Rightarrow> string \<Rightarrow> string + NativeEnrollmentSubmissionV1" where
  "enrollment_submission X i enrollment_id secret label =
     (let public = public_key_sec1 i;
          box_public = box_public_key X i;
          proof = native_enrollment_proof X secret public box_public (id_api_token_hash i) label
      in and_then (sg_sign_der (id_signer i) proof ENROLL_REASON) (\<lambda>signature.
         let submission = \<lparr>
               ns_version = VERSION_V1, ns_enrollment_id = enrollment_id,
               ns_credential_public_key = encode_base64url X public,
               ns_box_public_key = encode_base64url X box_public,
               ns_api_token_hash = encode_base64url X (id_api_token_hash i),
               ns_label = label, ns_proof_signature = encode_base64url X signature,
               ns_transcript_hmac = []\<rparr>
         in and_then (map_err (\<lambda>_. ''transcript'')
              (native_transcript_hmac_for_kind X secret submission (device_kind i))) (\<lambda>tag.
            let submission = submission\<lparr>ns_transcript_hmac := encode_base64url X tag\<rparr>
            in and_then (map_err (\<lambda>_. ''submission shape'')
                 (NativeEnrollmentSubmissionV1_validate_shape X submission)) (\<lambda>_. Inr submission))))"

fun rsplit_once :: "string \<Rightarrow> string \<Rightarrow> (string \<times> string) option" where
  "rsplit_once pat [] = (if pat = [] then Some ([], []) else None)"
| "rsplit_once pat (c # s) =
     (case rsplit_once pat s of
        Some (a, b) \<Rightarrow> Some (c # a, b)
      | None \<Rightarrow> if starts_with pat (c # s) then Some ([], drop (length pat) (c # s)) else None)"

definition trim_end_matches :: "char \<Rightarrow> string \<Rightarrow> string" where
  "trim_end_matches c s = rev (dropWhile (\<lambda>d. d = c) (rev s))"

definition exact_32 :: "crates \<Rightarrow> string \<Rightarrow> string + bytes" where
  "exact_32 X value =
     and_then (map_err (\<lambda>_. ''base64url'') (decode_base64url X value)) (\<lambda>bs.
       if length bs = 32 then Inr bs else Inl ''expected 32 bytes'')"

definition parse_enrollment_url :: "crates \<Rightarrow> string \<Rightarrow> string + string \<times> bytes" where
  "parse_enrollment_url X url =
     and_then (ok_or (rsplit_once ''#'' url) ''enrollment URL has no secret fragment'') (\<lambda>(path, fragment).
     and_then (ok_or (rsplit_once ''/enroll/'' path) ''enrollment URL has no /enroll/<id> path'') (\<lambda>(_, enrollment_id).
     let enrollment_id = trim_end_matches (CHR ''/'') enrollment_id
     in if enrollment_id = [] then Inl ''enrollment URL has an empty id''
        else map_ok (\<lambda>secret. (enrollment_id, secret)) (exact_32 X fragment)))"

section \<open>Requests and decisions\<close>

definition open_request_at ::
  "crates \<Rightarrow> Identity \<Rightarrow> RequestEnvelopeV1 \<Rightarrow> i64 \<Rightarrow> string + OpenedRequest option" where
  "open_request_at X i envelope now =
     and_then (map_err (\<lambda>_. ''envelope'') (RequestEnvelopeV1_validate_at X envelope now)) (\<lambda>_.
     case find (\<lambda>body. sb_device_fingerprint body = fingerprint X i) (en_sealed envelope) of
       None \<Rightarrow> Inr None
     | Some sealed \<Rightarrow>
         and_then (map_err (\<lambda>_. ''open sealed body'') (unseal_v1 X sealed (id_box_secret i))) (\<lambda>raw.
         and_then (map_err (\<lambda>_. ''decode request'') (from_slice_request X raw)) (\<lambda>request.
         and_then (map_err (\<lambda>_. ''request'') (RequestV1_validate_at X request now)) (\<lambda>_.
         if rq_request_id request \<noteq> en_request_id envelope \<or> rq_host request \<noteq> en_host envelope \<or>
            rq_user request \<noteq> en_user envelope \<or> rq_issued_at request \<noteq> en_issued_at envelope \<or>
            rq_expires_at request \<noteq> en_expires_at envelope
         then Inl ''sealed request does not match its envelope''
         else Inr (Some \<lparr>or_request = request, or_raw = raw\<rparr>)))))"

definition approve :: "crates \<Rightarrow> Identity \<Rightarrow> OpenedRequest \<Rightarrow> string \<Rightarrow> string + DecisionV1" where
  "approve X i opened reason =
     and_then (sg_sign_der (id_signer i) (approve_challenge X (or_raw opened)) reason) (\<lambda>signature.
       Inr (ApproveNative \<lparr>an_version = VERSION_V1, an_request_id = rq_request_id (or_request opened),
         an_device_fingerprint = fingerprint X i, an_signature = encode_base64url X signature\<rparr>))"

definition deny :: "crates \<Rightarrow> Identity \<Rightarrow> OpenedRequest \<Rightarrow> string \<Rightarrow> string + DecisionV1" where
  "deny X i opened reason =
     (let challenge = deny_challenge X (rq_request_id (or_request opened)) (fingerprint X i)
      in and_then (sg_sign_der (id_signer i) challenge reason) (\<lambda>signature.
       Inr (Deny \<lparr>dn_version = VERSION_V1, dn_request_id = rq_request_id (or_request opened),
         dn_device_fingerprint = fingerprint X i, dn_signature = Some (encode_base64url X signature)\<rparr>)))"

definition open_auth_request_at ::
  "crates \<Rightarrow> Identity \<Rightarrow> AuthEnvelopeV1 \<Rightarrow> i64 \<Rightarrow> string + OpenedAuthRequestV1 option" where
  "open_auth_request_at X i envelope now =
     (if device_kind i \<noteq> SecureEnclave
      then Inl ''a software identity cannot answer a sudo authentication request''
      else map_err (\<lambda>_. ''open sealed authentication body'')
        (AuthEnvelopeV1_open_for_device X envelope (fingerprint X i) (id_box_secret i) now))"

definition authenticate :: "crates \<Rightarrow> Identity \<Rightarrow> OpenedAuthRequestV1 \<Rightarrow> string \<Rightarrow> string + AuthDecisionV1" where
  "authenticate X i opened reason =
     (if device_kind i \<noteq> SecureEnclave
      then Inl ''a software identity cannot answer a sudo authentication request''
      else and_then (sg_sign_der (id_signer i) (auth_challenge X (oa_raw opened)) reason) (\<lambda>signature.
        Inr (AuthenticateNative \<lparr>aan_version = AUTH_WIRE_VERSION,
          aan_request_id = aq_request_id (oa_request opened),
          aan_device_fingerprint = fingerprint X i, aan_signature = encode_base64url X signature\<rparr>)))"

definition sign_browser_relay :: "Identity \<Rightarrow> bytes \<Rightarrow> string \<Rightarrow> string + bytes" where
  "sign_browser_relay i challenge reason =
     (if device_kind i \<noteq> SecureEnclave
      then Inl ''a software identity cannot approve a browser relay ceremony''
      else sg_sign_der (id_signer i) (browser_relay_signature_payload challenge) reason)"

section \<open>What the host makes of it\<close>

text \<open>Documented behaviour of the signature scheme, for one signer: its public key parses, and what it
  returns is a DER signature that verifies under that key.\<close>

definition signer_correct :: "crates \<Rightarrow> Signer \<Rightarrow> bool" where
  "signer_correct X sg \<longleftrightarrow>
     (\<exists>key. sec1_p256_verifying_key X (sg_public_key_sec1 sg) = Inr key \<and>
        (\<forall>m reason der. sg_sign_der sg m reason = Inr der \<longrightarrow>
           8 \<le> length der \<and> length der \<le> 256 \<and>
           (\<exists>sig. sig_from_der X der = Some sig \<and> ecdsa_verify X key m sig)))"

text \<open>The box key and the token hash are 32-byte arrays in the source.\<close>

definition identity_ok :: "crates \<Rightarrow> Identity \<Rightarrow> bool" where
  "identity_ok X i \<longleftrightarrow> signer_correct X (id_signer i) \<and> length (box_public_key X i) = 32 \<and>
     length (id_api_token_hash i) = 32"

lemma device_kind_native: "device_kind i \<noteq> Webauthn"
  by (simp add: device_kind_def split: SignerKind.split)

lemma signerE:
  assumes "signer_correct X sg" "sg_sign_der sg m reason = Inr der"
  obtains key sig where "sec1_p256_verifying_key X (sg_public_key_sec1 sg) = Inr key"
    "8 \<le> length der" "length der \<le> 256" "sig_from_der X der = Some sig" "ecdsa_verify X key m sig"
  using assms unfolding signer_correct_def by blast

lemma fingerprint_decodes:
  assumes "b64_roundtrip X" "digest_sizes X"
  shows "valid_fingerprint X (fingerprint X i)"
  using assms by (simp add: valid_fingerprint_def fingerprint_def device_fingerprint_def digest_sizes_def)

lemma device_record_valid:
  assumes "b64_roundtrip X" "digest_sizes X" "identity_ok X i" "label \<noteq> []" "length label \<le> 128"
  shows "DevicePublicRecordV1_validate X (device_record X i label) = Inr ()"
proof -
  have c: "credential_id X i \<noteq> []"
    using assms(2) by (auto simp: credential_id_def native_credential_id_def digest_sizes_def dest: arg_cong [where f = length])
  from assms(3) obtain key where k: "sec1_p256_verifying_key X (public_key_sec1 i) = Inr key"
    by (auto simp: identity_ok_def signer_correct_def public_key_sec1_def)
  then have p: "public_key_sec1 i \<noteq> []" by (auto simp: sec1_p256_verifying_key_def split: if_splits)
  show ?thesis
    using assms fingerprint_decodes [OF assms(1,2), of i] c k p device_kind_native [of i]
    by (cases "device_kind i")
      (simp_all add: DevicePublicRecordV1_validate_def device_record_def identity_ok_def device_key_def
        fingerprint_def credential_id_def)
qed

text \<open>What a host that pinned this identity knows of it.\<close>

lemma pinned_facts:
  assumes "b64_roundtrip X" "same_identity d (device_record X i label)"
  shows "dv_fingerprint d = fingerprint X i" "dv_kind d = device_kind i"
    "decode_base64url X (dv_credential_public_key d) = Inr (public_key_sec1 i)"
    "decode_base64url X (dv_box_public_key d) = Inr (x25519_public X (id_box_secret i))"
  using assms by (simp_all add: same_identity_def same_credential_def device_record_def box_public_key_def)

lemma find_pinned:
  "distinct (map dv_fingerprint ds) \<Longrightarrow> d \<in> set ds \<Longrightarrow> Q d \<Longrightarrow> dv_fingerprint d = f \<Longrightarrow>
   find (\<lambda>e. Q e \<and> dv_fingerprint e = f) ds = Some d"
  by (induction ds) (auto simp: image_iff)

lemma find_pinned_fingerprint:
  "distinct (map dv_fingerprint ds) \<Longrightarrow> d \<in> set ds \<Longrightarrow> dv_fingerprint d = f \<Longrightarrow>
   find (\<lambda>e. dv_fingerprint e = f) ds = Some d"
  using find_pinned [of ds d "\<lambda>_. True" f] by simp

lemma find_sealed:
  assumes "list_all2 P ts bs" "\<And>t b. P t b \<Longrightarrow> g b = f t" "distinct (map f ts)" "t \<in> set ts"
  shows "\<exists>b. find (\<lambda>b. g b = f t) bs = Some b \<and> P t b"
  using assms
proof (induction rule: list_all2_induct)
  case Nil
  then show ?case by simp
next
  case (Cons x xs y ys)
  show ?case
  proof (cases "t = x")
    case True
    with Cons show ?thesis by auto
  next
    case False
    with Cons.prems have "t \<in> set xs" "f t \<noteq> f x" by (auto simp: image_iff)
    with Cons show ?thesis by simp
  qed
qed

text \<open>Every device of a sealed envelope finds its own body in it and opens it to the sealed bytes.\<close>

lemma sealed_body_opens:
  assumes "b64_roundtrip X" "box_correct X"
    and "collect_r (\<lambda>(device, secret, nonce). seal_v1 X raw device secret nonce) (map (\<lambda>d. (d, material d)) devices) = Inr bodies"
    and "\<forall>d \<in> set devices. length (snd (material d)) = 12 \<and> length (x25519_public X (fst (material d))) = 32"
    and "distinct (map dv_fingerprint devices)" "d \<in> set devices" "same_identity d (device_record X i label)"
  obtains body where "find (\<lambda>body. sb_device_fingerprint body = fingerprint X i) bodies = Some body"
    "unseal_v1 X body (id_box_secret i) = Inr raw" "DevicePublicRecordV1_validate X d = Inr ()"
proof -
  let ?P = "\<lambda>d body. seal_v1 X raw d (fst (material d)) (snd (material d)) = Inr body"
  have all: "list_all2 ?P devices bodies"
    using assms(3) by (simp add: collect_r_ok_iff list_all2_map1 case_prod_beta)
  have fp: "?P d body \<Longrightarrow> sb_device_fingerprint body = dv_fingerprint d" for d body
    by (auto simp: seal_v1_def seal_v1_with_material_def Let_def result_simps split: if_splits)
  from find_sealed [of ?P devices bodies sb_device_fingerprint dv_fingerprint d, OF all fp assms(5,6)]
  obtain body where body: "find (\<lambda>body. sb_device_fingerprint body = dv_fingerprint d) bodies = Some body"
    and sealed: "?P d body" by blast
  have "unseal_v1 X body (id_box_secret i) = Inr raw"
    using seal_unseal [OF assms(1,2) sealed] assms(4,6) pinned_facts(4) [OF assms(1,7)] by blast
  moreover have "DevicePublicRecordV1_validate X d = Inr ()"
    using sealed by (auto simp: seal_v1_def result_simps split: if_splits)
  ultimately show ?thesis
    using body pinned_facts(1) [OF assms(1,7)] by (intro that) simp_all
qed

lemma open_sealed_request:
  assumes "b64_roundtrip X" "box_correct X" "request_json_roundtrip X"
    and "RequestV1_raw_json X request = Inr raw"
    and "seal_request X request raw (map (\<lambda>d. (d, material d)) devices) = Inr envelope"
    and "\<forall>d \<in> set devices. length (snd (material d)) = 12 \<and> length (x25519_public X (fst (material d))) = 32"
    and "distinct (map dv_fingerprint devices)" "d \<in> set devices" "same_identity d (device_record X i label)"
    and "validate_request_timing (rq_issued_at request) (rq_expires_at request) now = Inr ()"
  shows "open_request_at X i envelope now = Inr (Some \<lparr>or_request = request, or_raw = raw\<rparr>)"
    and "DevicePublicRecordV1_validate X d = Inr ()"
proof -
  from assms(5) obtain bodies where
    c: "collect_r (\<lambda>(device, secret, nonce). seal_v1 X raw device secret nonce) (map (\<lambda>d. (d, material d)) devices) = Inr bodies"
    and e: "envelope = \<lparr>en_version = VERSION_V1, en_request_id = rq_request_id request, en_host = rq_host request,
              en_user = rq_user request, en_issued_at = rq_issued_at request, en_expires_at = rq_expires_at request,
              en_sealed = bodies\<rparr>" and v: "RequestEnvelopeV1_validate X envelope = Inr ()"
    by (auto simp: seal_request_def result_simps Let_def split: if_splits)
  obtain body where b: "find (\<lambda>body. sb_device_fingerprint body = fingerprint X i) bodies = Some body"
    "unseal_v1 X body (id_box_secret i) = Inr raw" and d: "DevicePublicRecordV1_validate X d = Inr ()"
    using sealed_body_opens [OF assms(1,2) c assms(6-9)] by blast
  from assms(4) have r: "RequestV1_validate X request = Inr ()" "to_vec_request X request = Inr raw"
    by (auto simp: RequestV1_raw_json_def result_simps split: if_splits)
  with assms(3) have "from_slice_request X raw = Inr request" by (auto simp: request_json_roundtrip_def)
  with b r v assms(10) show "open_request_at X i envelope now = Inr (Some \<lparr>or_request = request, or_raw = raw\<rparr>)"
    by (simp add: open_request_at_def RequestEnvelopeV1_validate_at_def RequestV1_validate_at_def e)
  show "DevicePublicRecordV1_validate X d = Inr ()" by (rule d)
qed

text \<open>The registry gate lets a native decision pass when its lock is free, the device is stored and active,
  and nothing was revoked or expired.\<close>

lemma final_authorization_native:
  assumes "fst (acquire_for_decision (he_attempt env) (he_start env)) = Inr ()"
    and "Transaction_load X file = Inr s" "lr_revocation_epoch s = epoch" "he_gate_clock env < expires_at"
    and "d \<in> set (devices_of s)" "dv_active d"
  shows "final_authorization X env d epoch expires_at None w file = (Inr (), file)"
proof -
  have "find (\<lambda>stored. dv_active stored \<and> same_identity stored d) (devices_of s) \<noteq> None"
    using assms(5,6) by (auto simp: find_None_iff same_identity_def same_credential_def)
  then show ?thesis using assms(1-4) by (auto simp: final_authorization_def authorize_def authorize_in_def)
qed

lemma approval_verifies:
  assumes "b64_roundtrip X" "digest_sizes X" "identity_ok X i" "same_identity d (device_record X i label)"
    and "DevicePublicRecordV1_validate X d = Inr ()" "valid_id (rq_request_id (or_request opened))"
    and "sg_sign_der (id_signer i) (approve_challenge X (or_raw opened)) reason = Inr der"
  shows "\<exists>a. approve X i opened reason = Inr (ApproveNative a) \<and> an_request_id a = rq_request_id (or_request opened) \<and>
    an_device_fingerprint a = dv_fingerprint d \<and> ApproveNativeV1_validate_shape X a = Inr () \<and>
    verify_native_approval_v1 X a (or_raw opened) d = Inr ()"
proof -
  let ?a = "\<lparr>an_version = VERSION_V1, an_request_id = rq_request_id (or_request opened),
      an_device_fingerprint = fingerprint X i, an_signature = encode_base64url X der\<rparr>"
  from assms(3,7) obtain key sig where k: "sec1_p256_verifying_key X (public_key_sec1 i) = Inr key"
    "8 \<le> length der" "length der \<le> 256" "sig_from_der X der = Some sig"
    "ecdsa_verify X key (approve_challenge X (or_raw opened)) sig"
    unfolding identity_ok_def public_key_sec1_def by (elim conjE signerE)
  have shape: "ApproveNativeV1_validate_shape X ?a = Inr ()"
    using assms(1,6) k fingerprint_decodes [OF assms(1,2), of i]
    by (simp add: ApproveNativeV1_validate_shape_def)
  have "verify_native_approval_v1 X ?a (or_raw opened) d = Inr ()"
    using assms(1,5) pinned_facts [OF assms(1,4)] shape k device_kind_native [of i]
    by (cases "device_kind i") (simp_all add: verify_native_approval_v1_def)
  with shape assms(7) pinned_facts(1) [OF assms(1,4)] show ?thesis by (simp add: approve_def)
qed

text \<open>C29: the approval loop closes. When the hook seals a request for its active devices and an identity it
  pinned receives the envelope while the request is live, the agent opens it to exactly the hook's
  request and bytes, and once its key signs, the decision it builds is accepted by the hook and the
  command proceeds, provided the gate finds its lock, an unexpired request, no revocation since, and
  the device still active.\<close>

theorem agent_approval_accepted:
  assumes "b64_roundtrip X" "digest_sizes X" "box_correct X" "request_json_roundtrip X" "identity_ok X i"
    and "RequestV1_raw_json X request = Inr raw"
    and "seal_request X request raw (map (\<lambda>d. (d, material d)) active) = Inr envelope"
    and "\<forall>d \<in> set active. length (snd (material d)) = 12 \<and> length (x25519_public X (fst (material d))) = 32"
    and "distinct (map dv_fingerprint active)" "d \<in> set active" "same_identity d (device_record X i label)" "dv_active d"
    and "validate_request_timing (rq_issued_at request) (rq_expires_at request) now = Inr ()"
    and "sg_sign_der (id_signer i) (approve_challenge X raw) reason = Inr der"
    and "he_now env < rq_expires_at request" "he_gate_clock env < rq_expires_at request"
    and "fst (acquire_for_decision (he_attempt env) (he_start env)) = Inr ()"
    and "Transaction_load X file = Inr s" "lr_revocation_epoch s = epoch" "d \<in> set (devices_of s)"
  shows "\<exists>opened decision. open_request_at X i envelope now = Inr (Some opened) \<and> or_request opened = request \<and>
    or_raw opened = raw \<and> approve X i opened reason = Inr decision \<and>
    apply_decision X env decision lane request raw active epoch file = (Inr (), file)"
proof -
  let ?o = "\<lparr>or_request = request, or_raw = raw\<rparr>"
  note o = open_sealed_request [OF assms(1,3,4,6-11,13)]
  have "valid_id (rq_request_id request)"
    using assms(6) by (auto simp: RequestV1_raw_json_def RequestV1_validate_def result_simps)
  then obtain a where a: "approve X i ?o reason = Inr (ApproveNative a)" "an_request_id a = rq_request_id request"
    "an_device_fingerprint a = dv_fingerprint d" "ApproveNativeV1_validate_shape X a = Inr ()"
    "verify_native_approval_v1 X a raw d = Inr ()"
    using approval_verifies [OF assms(1,2,5,11) o(2), of ?o reason der] assms(14) by auto
  have "dv_kind d = Software \<or> dv_kind d = SecureEnclave"
    using pinned_facts(2) [OF assms(1,11)] device_kind_native [of i] by (cases "dv_kind d") auto
  then have "find (\<lambda>d. (dv_kind d = Software \<or> dv_kind d = SecureEnclave) \<and>
      dv_fingerprint d = an_device_fingerprint a) active = Some d"
    by (rule find_pinned [OF assms(9,10)]) (simp add: a)
  with a assms(15) final_authorization_native [OF assms(17-19,16,20,12)]
  have "apply_decision X env (ApproveNative a) lane request raw active epoch file = (Inr (), file)"
    by (simp add: apply_decision_def guarded_def)
  with o a show ?thesis by auto
qed

text \<open>Base64 text of some bytes is not empty.\<close>

definition b64_nonempty :: "crates \<Rightarrow> bool" where
  "b64_nonempty X \<longleftrightarrow> (\<forall>bs. bs \<noteq> [] \<longrightarrow> b64_encode X bs \<noteq> [])"

lemma denial_verifies:
  assumes "b64_roundtrip X" "b64_nonempty X" "digest_sizes X" "identity_ok X i" "same_identity d (device_record X i label)"
    and "DevicePublicRecordV1_validate X d = Inr ()" "valid_id (rq_request_id (or_request opened))"
    and "sg_sign_der (id_signer i) (deny_challenge X (rq_request_id (or_request opened)) (fingerprint X i)) reason = Inr der"
  shows "\<exists>n. deny X i opened reason = Inr (Deny n) \<and> dn_version n = VERSION_V1 \<and>
    dn_request_id n = rq_request_id (or_request opened) \<and> dn_signature n \<noteq> None \<and>
    dn_device_fingerprint n = dv_fingerprint d \<and> DenyV1_validate_shape X n = Inr () \<and> verify_deny_v1 X n d = Inr ()"
proof -
  let ?n = "\<lparr>dn_version = VERSION_V1, dn_request_id = rq_request_id (or_request opened),
      dn_device_fingerprint = fingerprint X i, dn_signature = Some (encode_base64url X der)\<rparr>"
  from assms(4,8) obtain key sig where k: "sec1_p256_verifying_key X (public_key_sec1 i) = Inr key"
    "8 \<le> length der" "sig_from_der X der = Some sig"
    "ecdsa_verify X key (deny_challenge X (rq_request_id (or_request opened)) (fingerprint X i)) sig"
    unfolding identity_ok_def public_key_sec1_def by (elim conjE signerE)
  have "der \<noteq> []" using k(2) by auto
  then have "encode_base64url X der \<noteq> []"
    using assms(2) by (simp add: b64_nonempty_def encode_base64url_def)
  then have shape: "DenyV1_validate_shape X ?n = Inr ()"
    using assms(1,7) fingerprint_decodes [OF assms(1,3), of i] by (simp add: DenyV1_validate_shape_def)
  have "rq_request_id (or_request opened) \<noteq> []" using assms(7) by (simp add: valid_id_def)
  then have "verify_deny_v1 X ?n d = Inr ()"
    using assms(1,6) pinned_facts [OF assms(1,5)] shape k device_kind_native [of i]
    by (cases "device_kind i") (simp_all add: verify_deny_v1_def device_key_def)
  with shape assms(8) pinned_facts(1) [OF assms(1,5)] show ?thesis by (simp add: deny_def)
qed

text \<open>a denial takes effect. What an agent signs when its user refuses a request it opened ends the
  invocation as explicitly denied, on either lane, without touching the registry.\<close>

theorem agent_denial_takes_effect:
  assumes "b64_roundtrip X" "b64_nonempty X" "digest_sizes X" "box_correct X" "request_json_roundtrip X" "identity_ok X i"
    and "RequestV1_raw_json X request = Inr raw"
    and "seal_request X request raw (map (\<lambda>d. (d, material d)) active) = Inr envelope"
    and "\<forall>d \<in> set active. length (snd (material d)) = 12 \<and> length (x25519_public X (fst (material d))) = 32"
    and "distinct (map dv_fingerprint active)" "d \<in> set active" "same_identity d (device_record X i label)"
    and "validate_request_timing (rq_issued_at request) (rq_expires_at request) now = Inr ()"
    and "sg_sign_der (id_signer i) (deny_challenge X (rq_request_id request) (fingerprint X i)) reason = Inr der"
    and "he_now env < rq_expires_at request"
  shows "\<exists>opened decision. open_request_at X i envelope now = Inr (Some opened) \<and>
    deny X i opened reason = Inr decision \<and>
    apply_decision X env decision lane request raw active epoch file
      = (Inl (Refusal ''request explicitly denied''), file)"
proof -
  let ?o = "\<lparr>or_request = request, or_raw = raw\<rparr>"
  note o = open_sealed_request [OF assms(1,4,5,7-13)]
  have "valid_id (rq_request_id request)"
    using assms(7) by (auto simp: RequestV1_raw_json_def RequestV1_validate_def result_simps)
  then obtain n where n: "deny X i ?o reason = Inr (Deny n)" "dn_version n = VERSION_V1"
    "dn_request_id n = rq_request_id request" "dn_signature n \<noteq> None" "dn_device_fingerprint n = dv_fingerprint d"
    "DenyV1_validate_shape X n = Inr ()" "verify_deny_v1 X n d = Inr ()"
    using denial_verifies [OF assms(1-3,6,12) o(2), of ?o reason der] assms(14) by auto
  have "find (\<lambda>d. dv_fingerprint d = dn_device_fingerprint n) active = Some d"
    by (rule find_pinned_fingerprint [OF assms(10,11)]) (simp add: n)
  with n assms(15) have "apply_decision X env (Deny n) lane request raw active epoch file
      = (Inl (Refusal ''request explicitly denied''), file)"
    by (simp add: apply_decision_def guarded_def)
  with o n show ?thesis by auto
qed

section \<open>Sudo authentication\<close>

text \<open>An authentication request serialized to JSON reads back as itself.\<close>

definition auth_json_roundtrip :: "crates \<Rightarrow> bool" where
  "auth_json_roundtrip X \<longleftrightarrow>
     (\<forall>r raw. to_vec_auth_request X r = Inr raw \<longrightarrow> from_slice_auth_request X raw = Inr r)"

lemma auth_raw_parses:
  assumes "auth_json_roundtrip X" "AuthRequestV1_raw_json X request = Inr raw"
    and "validate_request_timing (aq_issued_at request) (aq_expires_at request) now = Inr ()"
  shows "parse_auth_request_at X raw now = Inr request"
  using assms by (auto simp: parse_auth_request_at_iff AuthRequestV1_raw_json_def auth_json_roundtrip_def result_simps
      split: if_splits)

lemma open_sealed_auth_request:
  assumes "b64_roundtrip X" "box_correct X" "auth_json_roundtrip X" "device_kind i = SecureEnclave"
    and "AuthRequestV1_raw_json X request = Inr raw"
    and "seal_auth_request X request raw (map (\<lambda>d. (d, material d)) devices) = Inr envelope"
    and "\<forall>d \<in> set devices. length (snd (material d)) = 12 \<and> length (x25519_public X (fst (material d))) = 32"
    and "distinct (map dv_fingerprint devices)" "d \<in> set devices" "same_identity d (device_record X i label)"
    and "validate_request_timing (aq_issued_at request) (aq_expires_at request) now = Inr ()"
  shows "open_auth_request_at X i envelope now = Inr (Some \<lparr>oa_request = request, oa_raw = raw\<rparr>)"
    and "DevicePublicRecordV1_validate X d = Inr ()"
proof -
  from assms(6) obtain bodies where
    c: "collect_r (\<lambda>(device, secret, nonce). seal_v1 X raw device secret nonce) (map (\<lambda>d. (d, material d)) devices) = Inr bodies"
    and e: "envelope = \<lparr>ae_message_type = AUTH_ENVELOPE_TYPE, ae_version = AUTH_WIRE_VERSION,
              ae_request_id = aq_request_id request, ae_host = tc_host (aq_trusted request),
              ae_issued_at = aq_issued_at request, ae_expires_at = aq_expires_at request, ae_sealed = bodies\<rparr>"
    and v: "AuthEnvelopeV1_validate X envelope = Inr ()"
    by (auto simp: seal_auth_request_def result_simps Let_def split: if_splits)
  obtain body where b: "find (\<lambda>body. sb_device_fingerprint body = fingerprint X i) bodies = Some body"
    "unseal_v1 X body (id_box_secret i) = Inr raw" and d: "DevicePublicRecordV1_validate X d = Inr ()"
    using sealed_body_opens [OF assms(1,2) c assms(7-10)] by blast
  from b v assms(4,11) auth_raw_parses [OF assms(3,5,11)]
  show "open_auth_request_at X i envelope now = Inr (Some \<lparr>oa_request = request, oa_raw = raw\<rparr>)"
    by (simp add: open_auth_request_at_def AuthEnvelopeV1_open_for_device_def AuthEnvelopeV1_validate_at_def e)
  show "DevicePublicRecordV1_validate X d = Inr ()" by (rule d)
qed

lemma authentication_verifies:
  assumes "b64_roundtrip X" "digest_sizes X" "identity_ok X i" "same_identity d (device_record X i label)"
    and "device_kind i = SecureEnclave" "DevicePublicRecordV1_validate X d = Inr ()"
    and "parse_auth_request_at X (oa_raw opened) now = Inr (oa_request opened)"
    and "sg_sign_der (id_signer i) (auth_challenge X (oa_raw opened)) reason = Inr der"
  shows "\<exists>a. authenticate X i opened reason = Inr (AuthenticateNative a) \<and>
    aan_request_id a = aq_request_id (oa_request opened) \<and> aan_device_fingerprint a = dv_fingerprint d \<and>
    AuthApproveNativeV1_validate_shape X a = Inr () \<and>
    verify_native_authentication_v1 X a (oa_raw opened) d now = Inr ()"
proof -
  let ?a = "\<lparr>aan_version = AUTH_WIRE_VERSION, aan_request_id = aq_request_id (oa_request opened),
      aan_device_fingerprint = fingerprint X i, aan_signature = encode_base64url X der\<rparr>"
  from assms(3,8) obtain key sig where k: "sec1_p256_verifying_key X (public_key_sec1 i) = Inr key"
    "8 \<le> length der" "length der \<le> 256" "sig_from_der X der = Some sig"
    "ecdsa_verify X key (auth_challenge X (oa_raw opened)) sig"
    unfolding identity_ok_def public_key_sec1_def by (elim conjE signerE)
  have "valid_id (aq_request_id (oa_request opened))"
    using assms(7) by (auto simp: parse_auth_request_at_iff AuthRequestV1_validate_def result_simps)
  then have shape: "AuthApproveNativeV1_validate_shape X ?a = Inr ()"
    using assms(1) k fingerprint_decodes [OF assms(1,2), of i] by (simp add: AuthApproveNativeV1_validate_shape_def)
  have "verify_native_authentication_v1 X ?a (oa_raw opened) d now = Inr ()"
    using assms(1,5,6,7) pinned_facts [OF assms(1,4)] shape k by (simp add: verify_native_authentication_v1_def)
  with shape assms(5,8) pinned_facts(1) [OF assms(1,4)] show ?thesis by (simp add: authenticate_def)
qed

text \<open>a Secure Enclave identity authenticates sudo on the host that pinned it: it opens the sealed
  authentication request and the decision it signs passes the hook; a software identity neither opens
  nor answers one, whatever it holds.\<close>

theorem agent_authentication_accepted:
  assumes "b64_roundtrip X" "digest_sizes X" "box_correct X" "auth_json_roundtrip X" "identity_ok X i"
    and "AuthRequestV1_raw_json X request = Inr raw"
    and "seal_auth_request X request raw (map (\<lambda>d. (d, material d)) recipients) = Inr envelope"
    and "\<forall>d \<in> set recipients. length (snd (material d)) = 12 \<and> length (x25519_public X (fst (material d))) = 32"
    and "distinct (map dv_fingerprint recipients)" "d \<in> set recipients"
    and "same_identity d (device_record X i label)" "dv_active d"
    and "validate_request_timing (aq_issued_at request) (aq_expires_at request) now = Inr ()"
    and "validate_request_timing (aq_issued_at request) (aq_expires_at request) (aq_issued_at request) = Inr ()"
    and "sg_sign_der (id_signer i) (auth_challenge X raw) reason = Inr der"
    and "he_now env < aq_expires_at request" "he_gate_clock env < aq_expires_at request"
    and "fst (acquire_for_decision (he_attempt env) (he_start env)) = Inr ()"
    and "Transaction_load X file = Inr s" "lr_revocation_epoch s = epoch" "d \<in> set (devices_of s)"
  shows "if device_kind i = SecureEnclave
    then \<exists>opened decision. open_auth_request_at X i envelope now = Inr (Some opened) \<and>
      authenticate X i opened reason = Inr decision \<and>
      apply_auth_decision X env decision request raw recipients epoch file = (Inr (), file)
    else is_err (open_auth_request_at X i envelope now) \<and> (\<forall>opened. is_err (authenticate X i opened reason))"
proof (cases "device_kind i = SecureEnclave")
  case True
  let ?o = "\<lparr>oa_request = request, oa_raw = raw\<rparr>"
  note o = open_sealed_auth_request [OF assms(1,3,4) True assms(6-11,13)]
  obtain a where a: "authenticate X i ?o reason = Inr (AuthenticateNative a)"
    "aan_request_id a = aq_request_id request" "aan_device_fingerprint a = dv_fingerprint d"
    "AuthApproveNativeV1_validate_shape X a = Inr ()"
    "verify_native_authentication_v1 X a raw d (aq_issued_at request) = Inr ()"
    using authentication_verifies [OF assms(1,2,5,11) True o(2), of ?o "aq_issued_at request" reason der]
      auth_raw_parses [OF assms(4,6,14)] assms(15) by auto
  have "find (\<lambda>d. dv_kind d = SecureEnclave \<and> dv_fingerprint d = aan_device_fingerprint a) recipients = Some d"
    by (rule find_pinned [OF assms(9,10)]) (simp_all add: a pinned_facts(2) [OF assms(1,11)] True)
  with a assms(16) final_authorization_native [OF assms(18-20,17,21,12)]
  have "apply_auth_decision X env (AuthenticateNative a) request raw recipients epoch file = (Inr (), file)"
    by (simp add: apply_auth_decision_def guarded_def)
  with o a True show ?thesis by auto
next
  case False
  then show ?thesis by (simp add: open_auth_request_at_def authenticate_def)
qed

section \<open>Enrollment\<close>

text \<open>enrollment closes the loop. The submission an identity builds verifies at the host under the
  same secret for the identity's own assurance kind, and pins exactly the record the identity announces.\<close>

theorem enrollment_submission_pins_record:
  assumes "b64_roundtrip X" "digest_sizes X" "identity_ok X i"
    and "enrollment_submission X i enrollment_id secret label = Inr submission"
  shows "verify_native_enrollment_for_kind X submission secret (device_kind i) = Inr (device_record X i label)"
proof -
  let ?proof = "native_enrollment_proof X secret (public_key_sec1 i) (box_public_key X i) (id_api_token_hash i) label"
  from assms(4) obtain der tag where der: "sg_sign_der (id_signer i) ?proof ENROLL_REASON = Inr der"
    and tag: "native_transcript_hmac_for_kind X secret (submission\<lparr>ns_transcript_hmac := []\<rparr>) (device_kind i) = Inr tag"
    and sub: "submission = \<lparr>
               ns_version = VERSION_V1, ns_enrollment_id = enrollment_id,
               ns_credential_public_key = encode_base64url X (public_key_sec1 i),
               ns_box_public_key = encode_base64url X (box_public_key X i),
               ns_api_token_hash = encode_base64url X (id_api_token_hash i),
               ns_label = label, ns_proof_signature = encode_base64url X der,
               ns_transcript_hmac = encode_base64url X tag\<rparr>"
    and shape: "NativeEnrollmentSubmissionV1_validate_shape X submission = Inr ()"
    by (auto simp: enrollment_submission_def Let_def result_simps)
  from assms(3) der obtain key sig where k: "sec1_p256_verifying_key X (public_key_sec1 i) = Inr key"
    "sig_from_der X der = Some sig" "ecdsa_verify X key ?proof sig"
    unfolding identity_ok_def public_key_sec1_def by (elim conjE signerE)
  have l: "label \<noteq> []" "length label \<le> 128"
    using shape by (auto simp: sub NativeEnrollmentSubmissionV1_validate_shape_def result_simps)
  have f: "\<exists>flds. native_transcript_fields X submission (device_kind i) = Inr flds \<and>
      tag = transcript_mac X secret TRANSCRIPT_DOMAIN flds"
    using tag assms(1) by (auto simp: sub native_transcript_hmac_for_kind_def native_transcript_fields_def
        enrollment_hmac_def split: if_splits)
  have rec: "\<lparr>dv_version = VERSION_V1, dv_kind = device_kind i,
      dv_fingerprint = device_fingerprint X (native_credential_id X (public_key_sec1 i)) (public_key_sec1 i) (box_public_key X i),
      dv_credential_id = encode_base64url X (native_credential_id X (public_key_sec1 i)),
      dv_credential_public_key = encode_base64url X (public_key_sec1 i),
      dv_box_public_key = encode_base64url X (box_public_key X i), dv_label = label,
      dv_api_token_hash = encode_base64url X (id_api_token_hash i), dv_sign_count = 0, dv_active = True\<rparr>
    = device_record X i label"
    by (simp add: device_record_def fingerprint_def credential_id_def)
  from f obtain flds where "native_transcript_fields X submission (device_kind i) = Inr flds"
    "tag = transcript_mac X secret TRANSCRIPT_DOMAIN flds" by blast
  with k shape assms(1) device_record_valid [OF assms(1-3) l] show ?thesis
    unfolding verify_native_enrollment_for_kind_def by (simp add: sub Let_def rec)
qed

lemma starts_with_subset: "starts_with p s \<Longrightarrow> set p \<subseteq> set s"
  unfolding starts_with_def by (metis set_take_subset)

lemma rsplit_once_last:
  assumes "c \<notin> set b"
  shows "rsplit_once [c] (a @ c # b) = Some (a, b)"
proof -
  have n: "rsplit_once [c] b = None" using assms by (induction b) (auto simp: starts_with_def)
  show ?thesis by (induction a) (simp_all add: n starts_with_def)
qed

lemma rsplit_once_none:
  assumes "c \<notin> set s" "c \<in> set pat"
  shows "rsplit_once pat s = None"
  using assms
proof (induction s)
  case Nil
  then show ?case by auto
next
  case (Cons x s)
  moreover have "\<not> starts_with pat (x # s)" using Cons.prems by (auto dest!: starts_with_subset)
  ultimately show ?case by simp
qed

lemma rsplit_once_enroll:
  assumes "CHR ''/'' \<notin> set b"
  shows "rsplit_once ''/enroll/'' (a @ ''/enroll/'' @ b) = Some (a, b)"
proof -
  have n: "rsplit_once ''/enroll/'' b = None" by (rule rsplit_once_none [OF assms]) simp
  have "\<not> starts_with ''enroll/'' b" using assms by (auto dest: starts_with_subset)
  then have m: "rsplit_once ''/enroll/'' (''/enroll/'' @ b) = Some ([], b)"
    by (simp add: n starts_with_def)
  show ?thesis by (induction a) (use m in \<open>simp_all\<close>)
qed

text \<open>the enrollment link the hook prints, the server's base URL followed by the enrollment id and the
  secret, is read back by the agent to exactly that id and secret.\<close>

theorem enrollment_url_roundtrip:
  assumes "b64_roundtrip X" "valid_id enrollment_id" "length secret = 32" "CHR ''#'' \<notin> set (encode_base64url X secret)"
  shows "parse_enrollment_url X (base @ ''/enroll/'' @ enrollment_id @ ''#'' @ encode_base64url X secret)
    = Inr (enrollment_id, secret)"
proof -
  have ok: "c \<in> set enrollment_id \<Longrightarrow> c \<noteq> CHR ''/''" for c
    using assms(2) by (auto simp: valid_id_def list_all_iff is_ascii_alphanumeric_def Let_def)
  then have t: "trim_end_matches (CHR ''/'') enrollment_id = enrollment_id"
    unfolding trim_end_matches_def by (metis (mono_tags) dropWhile_eq_self_iff hd_in_set rev_rev_ident set_rev)
  have "rsplit_once ''#'' ((base @ ''/enroll/'' @ enrollment_id) @ CHR ''#'' # encode_base64url X secret)
      = Some (base @ ''/enroll/'' @ enrollment_id, encode_base64url X secret)"
    by (rule rsplit_once_last [OF assms(4)])
  moreover have "rsplit_once ''/enroll/'' (base @ ''/enroll/'' @ enrollment_id) = Some (base, enrollment_id)"
    using ok by (intro rsplit_once_enroll) blast
  moreover have "enrollment_id \<noteq> []" using assms(2) by (simp add: valid_id_def)
  ultimately show ?thesis
    using assms(1,3) t by (simp add: parse_enrollment_url_def exact_32_def)
qed

section \<open>A sample agent\<close>

definition sample_signer :: Signer where
  "sample_signer = \<lparr>sg_public_key_sec1 = sample_sec1,
     sg_sign_der = (\<lambda>m reason. if 8 \<le> length m \<and> length m \<le> 256 then Inr m else Inl ''length'')\<rparr>"

definition sample_identity :: "SigningFileV1 \<Rightarrow> Identity" where
  "sample_identity signing = \<lparr>id_signer = sample_signer, id_signing = signing, id_box_secret = sample_box_secret,
     id_box_secret_ref = None, id_api_token_hash = replicate 32 6\<rparr>"

definition sample_agent :: crates where
  "sample_agent = sample\<lparr>
     to_vec_request := \<lambda>r. if r = sample_request then Inr [1, 2] else Inl ''no value'',
     from_slice_request := \<lambda>_. Inr sample_request,
     to_vec_auth_request := \<lambda>r. if r = sample_auth_request then Inr [7] else Inl ''no value'',
     from_slice_auth_request := \<lambda>_. Inr sample_auth_request\<rparr>"

abbreviation sample_material :: "DevicePublicRecordV1 \<Rightarrow> static_secret \<times> bytes" where
  "sample_material d \<equiv> (StaticSecret (replicate 32 2), replicate 12 0)"

abbreviation sample_enclave :: Identity where
  "sample_enclave \<equiv> sample_identity (EnclaveFile ''blob'')"

lemma sample_agent_core: "core_eq sample_agent sample"
  by (simp add: core_eq_def sample_agent_def)

lemmas sample_agent_lift [simp] =
  core_eq_lift [OF sample_agent_core] core_eq_validate [OF sample_agent_core] core_eq_registry [OF sample_agent_core]

lemma sample_agent_laws:
  "b64_roundtrip sample_agent" "b64_nonempty sample_agent" "digest_sizes sample_agent" "box_correct sample_agent"
  "request_json_roundtrip sample_agent" "auth_json_roundtrip sample_agent"
  using sample_b64 sample_digests sample_box
  by (auto simp: sample_agent_def b64_roundtrip_def b64_nonempty_def digest_sizes_def box_correct_def
      request_json_roundtrip_def auth_json_roundtrip_def split: if_splits)

lemma sample_agent_material:
  "x25519_public sample_agent = sample_public" "aead_encrypt sample_agent = (\<lambda>k n m. Some (m @ replicate 16 0))"
  "to_vec_envelope sample_agent = (\<lambda>e. Inr [1])" "to_vec_auth_envelope sample_agent = (\<lambda>e. Inr [1])"
  by (simp_all add: sample_agent_def)

lemma sample_signer_correct: "core_eq X sample \<Longrightarrow> signer_correct X sample_signer"
  by (auto simp: signer_correct_def sample_signer_def core_eq_lift sec1_p256_verifying_key_def core_eqD)

lemma sample_identity_ok: "identity_ok sample_agent (sample_identity signing)"
  by (simp add: identity_ok_def sample_identity_def sample_signer_correct [OF sample_agent_core] box_public_key_def
      sample_agent_material)

lemma sample_record:
  "device_record sample_agent (sample_identity (EnclaveFile b)) ''laptop'' = sample_native SecureEnclave"
  by (simp add: device_record_def sample_identity_def sample_native_def VERSION_V1_def device_kind_def signer_kind_def
      fingerprint_def credential_id_def public_key_sec1_def box_public_key_def sample_signer_def sample_agent_material
      encode_base64url_def core_eqD [OF sample_agent_core])

lemma sample_same_identity:
  "same_identity (sample_native SecureEnclave) (device_record sample_agent (sample_identity (EnclaveFile b)) ''laptop'')"
  by (simp add: sample_record same_identity_def same_credential_def)

lemma sample_agent_raw: "RequestV1_raw_json sample_agent sample_request = Inr [1, 2]"
proof -
  have "RequestV1_validate sample_agent sample_request = Inr ()"
    by (simp add: RequestV1_validate_def sample_request_def VERSION_V1_def MAX_ENV_ENTRIES_def)
  then show ?thesis by (simp add: RequestV1_raw_json_def) (simp add: sample_agent_def MAX_REQUEST_BYTES_def)
qed

lemma sample_agent_auth_raw: "AuthRequestV1_raw_json sample_agent sample_auth_request = Inr [7]"
proof -
  have "AuthRequestV1_validate sample_agent sample_auth_request = AuthRequestV1_validate sample_auth sample_auth_request"
    unfolding AuthRequestV1_validate_def sample_agent_lift sample_auth_lift ..
  also have "\<dots> = Inr ()" using sample_auth_parses [of "[]" 1000] by (auto simp: parse_auth_request_at_iff)
  finally show ?thesis by (simp add: AuthRequestV1_raw_json_def) (simp add: sample_agent_def MAX_REQUEST_BYTES_def)
qed

lemmas sample_agent_sealing = sample_sealing [OF sample_agent_core sample_agent_material(1,2)]

lemma sample_agent_seals:
  "\<exists>envelope. seal_request sample_agent sample_request [1, 2] (map (\<lambda>d. (d, sample_material d)) [sample_native SecureEnclave]) = Inr envelope"
  by (simp add: seal_request_def MAX_DEVICES_def sample_agent_sealing RequestEnvelopeV1_validate_def
      sealed_body_rejected_def sample_request_def VERSION_V1_def MAX_ENVELOPE_BYTES_def sample_agent_material)
    (simp add: sample_native_def)

lemma sample_agent_auth_seals:
  "\<exists>envelope. seal_auth_request sample_agent sample_auth_request [7] (map (\<lambda>d. (d, sample_material d)) [sample_native SecureEnclave]) = Inr envelope"
  by (simp add: seal_auth_request_def MAX_DEVICES_def sample_agent_sealing AuthEnvelopeV1_validate_def
      sample_auth_request_def AUTH_WIRE_VERSION_def MAX_ENVELOPE_BYTES_def sample_no_control sample_agent_material)
    (simp add: sample_native_def)

lemma sample_signs: "length m = 32 \<Longrightarrow> sg_sign_der (id_signer (sample_identity signing)) m reason = Inr m"
  by (simp add: sample_identity_def sample_signer_def)

lemma sample_agent_challenges:
  "length (approve_challenge sample_agent raw) = 32" "length (deny_challenge sample_agent a b) = 32"
  "length (auth_challenge sample_agent raw) = 32"
  using sample_agent_laws(3) by (simp_all add: digest_sizes_def approve_challenge_def deny_challenge_def auth_challenge_def
      del: sample_agent_lift)

lemma sample_agent_host:
  "distinct (map dv_fingerprint [sample_native SecureEnclave])" "dv_active (sample_native SecureEnclave)"
  "fst (acquire_for_decision (he_attempt sample_hook) (he_start sample_hook)) = Inr ()"
  "Transaction_load sample_agent (Stored (sample_state True 0)) = Inr (sample_state True 0)"
  "lr_revocation_epoch (sample_state True 0) = 0" "sample_native SecureEnclave \<in> set (devices_of (sample_state True 0))"
  "he_now sample_hook < 1090" "he_gate_clock sample_hook < 1090"
  "\<forall>d \<in> set [sample_native SecureEnclave]. length (snd (sample_material d)) = 12 \<and>
     length (x25519_public sample_agent (fst (sample_material d))) = 32"
proof -
  show "Transaction_load sample_agent (Stored (sample_state True 0)) = Inr (sample_state True 0)"
    by (rule sample_load_eq [OF sample_agent_core])
  show "sample_native SecureEnclave \<in> set (devices_of (sample_state True 0))"
    by (simp add: sample_state_def) (simp add: sample_native_def)
qed (simp_all add: sample_native_def sample_hook_def acquire_for_decision_def acquire_until.simps sample_state_def sample_agent_material)

theorem agent_approval_accepted_witness:
  "\<exists>envelope opened decision. open_request_at sample_agent sample_enclave envelope 1010 = Inr (Some opened) \<and>
     approve sample_agent sample_enclave opened ''run c'' = Inr decision \<and>
     apply_decision sample_agent sample_hook decision SocketLane sample_request [1, 2] [sample_native SecureEnclave] 0
       (Stored (sample_state True 0)) = (Inr (), Stored (sample_state True 0))"
proof -
  obtain envelope where e: "seal_request sample_agent sample_request [1, 2] (map (\<lambda>d. (d, sample_material d)) [sample_native SecureEnclave]) = Inr envelope"
    using sample_agent_seals by blast
  have t: "rq_expires_at sample_request = 1090" "validate_request_timing (rq_issued_at sample_request) (rq_expires_at sample_request) 1010 = Inr ()"
    by (simp_all add: sample_request_def sample_timing)
  have sg: "sg_sign_der (id_signer sample_enclave) (approve_challenge sample_agent [1, 2]) ''run c'' = Inr (approve_challenge sample_agent [1, 2])"
    by (rule sample_signs [OF sample_agent_challenges(1)])
  show ?thesis
    using agent_approval_accepted [OF sample_agent_laws(1,3,4,5) sample_identity_ok sample_agent_raw e sample_agent_host(9,1) _
        sample_same_identity sample_agent_host(2) t(2) sg _ _ sample_agent_host(3-6)]
      sample_agent_host(7,8) by (fastforce simp: t(1))
qed

theorem agent_denial_takes_effect_witness:
  "\<exists>envelope opened decision. open_request_at sample_agent sample_enclave envelope 1010 = Inr (Some opened) \<and>
     deny sample_agent sample_enclave opened ''no'' = Inr decision \<and>
     apply_decision sample_agent sample_hook decision NatsLane sample_request [1, 2] [sample_native SecureEnclave] 0 Absent
       = (Inl (Refusal ''request explicitly denied''), Absent)"
proof -
  obtain envelope where e: "seal_request sample_agent sample_request [1, 2] (map (\<lambda>d. (d, sample_material d)) [sample_native SecureEnclave]) = Inr envelope"
    using sample_agent_seals by blast
  have t: "rq_expires_at sample_request = 1090" "validate_request_timing (rq_issued_at sample_request) (rq_expires_at sample_request) 1010 = Inr ()"
    by (simp_all add: sample_request_def sample_timing)
  have sg: "sg_sign_der (id_signer sample_enclave) (deny_challenge sample_agent (rq_request_id sample_request) (fingerprint sample_agent sample_enclave)) ''no''
      = Inr (deny_challenge sample_agent (rq_request_id sample_request) (fingerprint sample_agent sample_enclave))"
    by (rule sample_signs [OF sample_agent_challenges(2)])
  show ?thesis
    using agent_denial_takes_effect [OF sample_agent_laws(1-5) sample_identity_ok sample_agent_raw e sample_agent_host(9,1) _
        sample_same_identity t(2) sg, of sample_hook]
      sample_agent_host(7) by (fastforce simp: t(1))
qed

theorem agent_authentication_accepted_witness:
  "\<exists>envelope opened decision. open_auth_request_at sample_agent sample_enclave envelope 1010 = Inr (Some opened) \<and>
     authenticate sample_agent sample_enclave opened ''sudo'' = Inr decision \<and>
     apply_auth_decision sample_agent sample_hook decision sample_auth_request [7] [sample_native SecureEnclave] 0
       (Stored (sample_state True 0)) = (Inr (), Stored (sample_state True 0))"
proof -
  obtain envelope where e: "seal_auth_request sample_agent sample_auth_request [7] (map (\<lambda>d. (d, sample_material d)) [sample_native SecureEnclave]) = Inr envelope"
    using sample_agent_auth_seals by blast
  have t: "aq_expires_at sample_auth_request = 1090"
    "validate_request_timing (aq_issued_at sample_auth_request) (aq_expires_at sample_auth_request) 1010 = Inr ()"
    "validate_request_timing (aq_issued_at sample_auth_request) (aq_expires_at sample_auth_request) (aq_issued_at sample_auth_request) = Inr ()"
    by (simp_all add: sample_auth_request_def sample_timing)
  have k: "device_kind sample_enclave = SecureEnclave"
    by (simp add: device_kind_def signer_kind_def sample_identity_def)
  have sg: "sg_sign_der (id_signer sample_enclave) (auth_challenge sample_agent [7]) ''sudo'' = Inr (auth_challenge sample_agent [7])"
    by (rule sample_signs [OF sample_agent_challenges(3)])
  show ?thesis
    using agent_authentication_accepted [OF sample_agent_laws(1,3,4,6) sample_identity_ok sample_agent_auth_raw e sample_agent_host(9,1) _
        sample_same_identity sample_agent_host(2) t(2,3) sg _ _ sample_agent_host(3-6)]
      sample_agent_host(7,8) by (fastforce simp: t(1) k)
qed

lemma sample_agent_tag:
  "length (native_enrollment_proof sample_agent a b c e f) = 32" "length (enrollment_hmac sample_agent a b fs) = 32"
  using sample_agent_laws(3)
  by (simp_all add: native_enrollment_proof_def enrollment_hmac_def transcript_mac_def digest_sizes_def del: sample_agent_lift)

lemma sample_submits:
  "\<exists>submission. enrollment_submission sample_agent sample_enclave ''r1'' sample_secret ''laptop'' = Inr submission"
proof -
  have k: "device_kind sample_enclave = SecureEnclave"
    by (simp add: device_kind_def signer_kind_def sample_identity_def)
  have l: "length (public_key_sec1 sample_enclave) = 65" "length (box_public_key sample_agent sample_enclave) = 32"
    "length (id_api_token_hash sample_enclave) = 32"
    by (simp_all add: public_key_sec1_def box_public_key_def sample_identity_def sample_signer_def sample_agent_material)
  note d = decode_base64url_encode [OF sample_agent_laws(1)] decode_exact_encode [OF sample_agent_laws(1)]
  show ?thesis
    unfolding enrollment_submission_def Let_def sample_signs [OF sample_agent_tag(1)] native_transcript_hmac_for_kind_def
      native_transcript_fields_def NativeEnrollmentSubmissionV1_validate_shape_def
    by (simp add: d l k sample_agent_tag VERSION_V1_def del: sample_agent_lift)
qed

theorem enrollment_submission_pins_record_witness:
  "\<exists>submission. verify_native_enrollment_for_kind sample_agent submission sample_secret (device_kind sample_enclave)
     = Inr (device_record sample_agent sample_enclave ''laptop'')"
  using sample_submits enrollment_submission_pins_record [OF sample_agent_laws(1,3) sample_identity_ok] by blast

theorem enrollment_url_roundtrip_witness:
  "parse_enrollment_url sample (''https://h'' @ ''/enroll/'' @ ''r1'' @ ''#'' @ encode_base64url sample (replicate 32 1))
     = Inr (''r1'', replicate 32 1)"
proof -
  have "CHR ''#'' \<noteq> letter n" if "n < 16" for n
    using of_char_letter [OF that] by (auto dest: arg_cong [where f = "of_char :: char \<Rightarrow> nat"])
  from this [of 0] this [of 1] have "CHR ''#'' \<notin> set (encode_base64url sample (replicate 32 1))"
    by (auto simp: encode_base64url_def sample_encode_def)
  then show ?thesis by (intro enrollment_url_roundtrip) (simp_all add: sample_b64)
qed

end
