(* ===== verification/Agent_Store.thy ===== *)
theory Agent_Store
  imports Agent_Identity
begin

text \<open>
  The identity file of the agent and its secret stores (\<open>agent/src/lib.rs\<close>,
  \<open>agent/src/secret_store.rs\<close>). P-256 keys, the Secure Enclave, the JSON form of the file and the login
  keychain are arguments. Files are a map from paths to contents; every file operation may fail, a write
  after any number of bytes, so a theorem over all plans of failure covers crashes too. The locale
  \<open>secret_store\<close> is the contract of the trait; the facts on migration and on saving rest on it.
\<close>

record IdentityFileV1 =
  if_version :: u8
  if_signing :: SigningFileV1
  if_box_secret :: "string option"
  if_box_secret_ref :: "string option"
  if_api_token_hash :: string

text \<open>What the library calls outside the repository: key construction, the enclave, JSON.\<close>

record agent_crates =
  ax_key_from_slice :: "bytes \<Rightarrow> Signer option"
  ax_enclave_create :: "string + Signer \<times> bytes"
  ax_enclave_from_blob :: "bytes \<Rightarrow> string + Signer"
  ax_to_vec_pretty :: "IdentityFileV1 \<Rightarrow> string + bytes"
  ax_from_slice :: "bytes \<Rightarrow> string + IdentityFileV1"
  ax_macos :: bool

section \<open>Secret stores\<close>

text \<open>The trait: an implementation is the record of its three methods on its state.\<close>

record 's SecretStore =
  ss_put :: "string \<Rightarrow> bytes \<Rightarrow> 's \<Rightarrow> (string + unit) \<times> 's"
  ss_get :: "string \<Rightarrow> 's \<Rightarrow> string + bytes option"
  ss_remove :: "string \<Rightarrow> 's \<Rightarrow> (string + unit) \<times> 's"

record MemoryStore =
  ms_inner :: "string \<rightharpoonup> bytes"
  ms_poisoned :: bool

definition memory_store :: "MemoryStore SecretStore" where
  "memory_store = \<lparr>
     ss_put = (\<lambda>account secret s. if ms_poisoned s then (Inl ''memory store lock poisoned'', s)
        else (Inr (), s\<lparr>ms_inner := (ms_inner s)(account \<mapsto> secret)\<rparr>)),
     ss_get = (\<lambda>account s. if ms_poisoned s then Inl ''memory store lock poisoned''
        else Inr (ms_inner s account)),
     ss_remove = (\<lambda>account s. if ms_poisoned s then (Inl ''memory store lock poisoned'', s)
        else (Inr (), s\<lparr>ms_inner := (ms_inner s)(account := None)\<rparr>))\<rparr>"

text \<open>The login keychain: the three calls of the platform's framework are arguments; an error is its
  status code.\<close>

record 'k keychain =
  kc_set :: "string \<Rightarrow> string \<Rightarrow> bytes \<Rightarrow> 'k \<Rightarrow> (int + unit) \<times> 'k"
  kc_get :: "string \<Rightarrow> string \<Rightarrow> 'k \<Rightarrow> int + bytes"
  kc_delete :: "string \<Rightarrow> string \<Rightarrow> 'k \<Rightarrow> (int + unit) \<times> 'k"

definition KEYCHAIN_SERVICE :: string where "KEYCHAIN_SERVICE = ''dev.oshioki.agent''"
definition ERR_SEC_ITEM_NOT_FOUND :: int where "ERR_SEC_ITEM_NOT_FOUND = -25300"

definition keychain_put :: "'k keychain \<Rightarrow> string \<Rightarrow> bytes \<Rightarrow> 'k \<Rightarrow> (string + unit) \<times> 'k" where
  "keychain_put K account secret k =
     (let (r, k') = kc_set K KEYCHAIN_SERVICE account secret k
      in (map_err (\<lambda>_. ''store secret in the login keychain'') r, k'))"

definition keychain_get :: "'k keychain \<Rightarrow> string \<Rightarrow> 'k \<Rightarrow> string + bytes option" where
  "keychain_get K account k =
     (case kc_get K KEYCHAIN_SERVICE account k of
        Inr bs \<Rightarrow> if length bs \<noteq> 32 then Inl ''keychain entry is not a 32-byte secret'' else Inr (Some bs)
      | Inl code \<Rightarrow> if code = ERR_SEC_ITEM_NOT_FOUND then Inr None
          else Inl ''read secret from the login keychain'')"

definition keychain_remove :: "'k keychain \<Rightarrow> string \<Rightarrow> 'k \<Rightarrow> (string + unit) \<times> 'k" where
  "keychain_remove K account k =
     (case kc_delete K KEYCHAIN_SERVICE account k of
        (Inr _, k') \<Rightarrow> (Inr (), k')
      | (Inl code, k') \<Rightarrow> if code = ERR_SEC_ITEM_NOT_FOUND then (Inr (), k')
          else (Inl ''remove secret from the login keychain'', k'))"

definition keychain_store :: "'k keychain \<Rightarrow> 'k SecretStore" where
  "keychain_store K = \<lparr>ss_put = keychain_put K, ss_get = keychain_get K, ss_remove = keychain_remove K\<rparr>"

section \<open>The identity file\<close>

record path =
  pt_parent :: "string list"
  pt_file_name :: "string option"

type_synonym files = "path \<rightharpoonup> bytes"

definition file_stem :: "string \<Rightarrow> string" where
  "file_stem name = (case rsplit_once ''.'' name of
     None \<Rightarrow> name | Some (before, _) \<Rightarrow> if before = [] then name else before)"

definition with_extension :: "path \<Rightarrow> string \<Rightarrow> path" where
  "with_extension path ext = (case pt_file_name path of
     None \<Rightarrow> path | Some name \<Rightarrow> path\<lparr>pt_file_name := Some (file_stem name @ ''.'' @ ext)\<rparr>)"

definition identity_prev_path :: "path \<Rightarrow> path" where
  "identity_prev_path path =
     path\<lparr>pt_file_name := Some ((case pt_file_name path of None \<Rightarrow> ''agent.json'' | Some name \<Rightarrow> name) @ ''.prev'')\<rparr>"

text \<open>Which of the file operations of one rewrite succeed; a failing write leaves some of its bytes.\<close>

record write_plan =
  wp_mkdir :: bool
  wp_open :: bool
  wp_write :: "nat option"
  wp_sync :: bool
  wp_rename :: bool

definition write_staged :: "write_plan \<Rightarrow> path \<Rightarrow> path \<Rightarrow> bytes \<Rightarrow> files \<Rightarrow> (string + unit) \<times> files" where
  "write_staged plan staging target body fs =
     (if \<not> wp_open plan then (Inl ''stage'', fs)
      else case wp_write plan of
        Some n \<Rightarrow> (Inl ''write'', fs(staging \<mapsto> take n body))
      | None \<Rightarrow>
          if \<not> wp_sync plan then (Inl ''flush'', fs(staging \<mapsto> body))
          else if \<not> wp_rename plan then (Inl ''replace'', fs(staging \<mapsto> body))
          else (Inr (), (fs(staging := None))(target \<mapsto> body)))"

definition prev_staging :: "path \<Rightarrow> path" where
  "prev_staging path = (let prev = identity_prev_path path
     in prev\<lparr>pt_file_name := map_option (\<lambda>name. name @ ''.tmp'') (pt_file_name prev)\<rparr>)"

definition persist_identity_prev :: "write_plan \<Rightarrow> path \<Rightarrow> bytes \<Rightarrow> files \<Rightarrow> (string + unit) \<times> files" where
  "persist_identity_prev plan path original fs =
     (let prev = identity_prev_path path
      in if fs prev \<noteq> None then (Inr (), fs)
         else if \<not> wp_mkdir plan then (Inl ''create directory'', fs)
         else write_staged plan (prev_staging path) prev original fs)"

definition write_identity_file ::
  "agent_crates \<Rightarrow> write_plan \<Rightarrow> path \<Rightarrow> IdentityFileV1 \<Rightarrow> bool \<Rightarrow> files \<Rightarrow> (string + unit) \<times> files" where
  "write_identity_file A plan path identity create_new fs =
     (if \<not> wp_mkdir plan then (Inl ''create directory'', fs)
      else case ax_to_vec_pretty A identity of
        Inl e \<Rightarrow> (Inl e, fs)
      | Inr text \<Rightarrow>
          let body = text @ [10]
          in if create_new then
               if fs path \<noteq> None \<or> \<not> wp_open plan then (Inl ''create'', fs)
               else (case wp_write plan of
                  Some n \<Rightarrow> (Inl ''write'', fs(path \<mapsto> take n body))
                | None \<Rightarrow> (Inr (), fs(path \<mapsto> body)))
             else write_staged plan (with_extension path ''tmp'') path body fs)"

definition enclave_signer :: "agent_crates \<Rightarrow> bytes \<Rightarrow> string + Signer" where
  "enclave_signer A blob =
     (if ax_macos A then map_err (\<lambda>_. ''reattach this Mac's Secure Enclave key'') (ax_enclave_from_blob A blob)
      else Inl ''this identity holds a Secure Enclave key, which only the Mac that made it can use'')"

fun signer_from_file :: "crates \<Rightarrow> agent_crates \<Rightarrow> SigningFileV1 \<Rightarrow> string + Signer" where
  "signer_from_file X A (SoftwareFile text) =
     and_then (exact_32 X text) (\<lambda>key. ok_or (ax_key_from_slice A key) ''invalid signing scalar'')"
| "signer_from_file X A (EnclaveFile blob) =
     and_then (map_err (\<lambda>_. ''enclave key blob'') (decode_base64url X blob)) (enclave_signer A)"

text \<open>The signer of browser ceremonies reads the signing part of the file only.\<close>

definition BrowserRelaySigner_load :: "crates \<Rightarrow> agent_crates \<Rightarrow> path \<Rightarrow> files \<Rightarrow> string + Signer" where
  "BrowserRelaySigner_load X A path fs =
     (case fs path of
        None \<Rightarrow> Inl ''read''
      | Some original \<Rightarrow>
     and_then (map_err (\<lambda>_. ''decode identity file'') (ax_from_slice A original)) (\<lambda>identity.
     if if_version identity \<noteq> VERSION_V1 then Inl ''unsupported identity file version''
     else case if_signing identity of
        SoftwareFile _ \<Rightarrow> Inl ''browser relay approval requires a Secure Enclave identity''
      | EnclaveFile _ \<Rightarrow> signer_from_file X A (if_signing identity)))"

definition new_secret_ref :: "crates \<Rightarrow> bytes \<Rightarrow> string" where
  "new_secret_ref X random = encode_base64url X random"

fun secret_bytes :: "static_secret \<Rightarrow> bytes" where
  "secret_bytes (StaticSecret bs) = bs"

definition identity_of ::
  "crates \<Rightarrow> agent_crates \<Rightarrow> SigningFileV1 \<Rightarrow> bytes \<Rightarrow> string option \<Rightarrow> string \<Rightarrow> string + Identity" where
  "identity_of X A signing secret secret_ref token =
     and_then (signer_from_file X A signing) (\<lambda>signer.
     and_then (exact_32 X token) (\<lambda>api_token_hash.
       Inr \<lparr>id_signer = signer, id_signing = signing, id_box_secret = StaticSecret secret,
         id_box_secret_ref = secret_ref, id_api_token_hash = api_token_hash\<rparr>))"

text \<open>The legacy branch of \<open>load_with\<close>: keep the original, put the secret into the store, rewrite the
  file without it, and read the secret back.\<close>

definition migrate ::
  "crates \<Rightarrow> agent_crates \<Rightarrow> 's SecretStore \<Rightarrow> write_plan \<Rightarrow> write_plan \<Rightarrow> path \<Rightarrow> bytes \<Rightarrow> bytes \<Rightarrow> IdentityFileV1
    \<Rightarrow> string \<Rightarrow> files \<Rightarrow> 's \<Rightarrow> (string + bytes \<times> string option) \<times> files \<times> 's" where
  "migrate X A S prev_plan plan path random original identity secret fs s =
     (case persist_identity_prev prev_plan path original fs of
        (Inl e, fs1) \<Rightarrow> (Inl e, fs1, s)
      | (Inr _, fs1) \<Rightarrow>
     case exact_32 X secret of
        Inl e \<Rightarrow> (Inl e, fs1, s)
      | Inr bytes \<Rightarrow>
     let reference = new_secret_ref X random in
     case ss_put S reference bytes s of
        (Inl e, s1) \<Rightarrow> (Inl ''move the box secret into the secret store'', fs1, s1)
      | (Inr _, s1) \<Rightarrow>
     case write_identity_file A plan path
         \<lparr>if_version = VERSION_V1, if_signing = if_signing identity, if_box_secret = None,
          if_box_secret_ref = Some reference, if_api_token_hash = if_api_token_hash identity\<rparr> False fs1 of
        (Inl e, fs2) \<Rightarrow> (Inl e, fs2, s1)
      | (Inr _, fs2) \<Rightarrow>
     case ss_get S reference s1 of
        Inl e \<Rightarrow> (Inl ''verify the box secret'', fs2, s1)
      | Inr None \<Rightarrow> (Inl ''the secret store holds nothing after migration'', fs2, s1)
      | Inr (Some stored) \<Rightarrow>
          if stored \<noteq> bytes then (Inl ''the secret store returned a different box secret'', fs2, s1)
          else (Inr (bytes, Some reference), fs2, s1))"

definition load_with ::
  "crates \<Rightarrow> agent_crates \<Rightarrow> 's SecretStore \<Rightarrow> write_plan \<Rightarrow> write_plan \<Rightarrow> path \<Rightarrow> bytes \<Rightarrow> files \<Rightarrow> 's
    \<Rightarrow> (string + Identity) \<times> files \<times> 's" where
  "load_with X A S prev_plan plan path random fs s =
     (case fs path of
        None \<Rightarrow> (Inl ''read'', fs, s)
      | Some original \<Rightarrow>
     case ax_from_slice A original of
        Inl e \<Rightarrow> (Inl ''decode identity file'', fs, s)
      | Inr identity \<Rightarrow>
     if if_version identity \<noteq> VERSION_V1 then (Inl ''unsupported identity file version'', fs, s)
     else
     let (r, fs', s') = (case (if_box_secret identity, if_box_secret_ref identity) of
          (Some _, Some _) \<Rightarrow>
            (Inl ''identity file carries both an embedded secret and a keychain reference'', fs, s)
        | (Some secret, None) \<Rightarrow> migrate X A S prev_plan plan path random original identity secret fs s
        | (None, Some reference) \<Rightarrow>
            ((case ss_get S reference s of
               Inl e \<Rightarrow> Inl ''read the box secret''
             | Inr None \<Rightarrow> Inl ''the secret store holds nothing''
             | Inr (Some bytes) \<Rightarrow> Inr (bytes, Some reference)), fs, s)
        | (None, None) \<Rightarrow> (Inl ''identity file has no box secret and no keychain reference'', fs, s))
     in (and_then r (\<lambda>(secret, secret_ref).
           identity_of X A (if_signing identity) secret secret_ref (if_api_token_hash identity)), fs', s'))"

definition load_embedded :: "crates \<Rightarrow> agent_crates \<Rightarrow> path \<Rightarrow> files \<Rightarrow> string + Identity" where
  "load_embedded X A path fs =
     (case fs path of
        None \<Rightarrow> Inl ''read''
      | Some original \<Rightarrow>
     and_then (map_err (\<lambda>_. ''decode identity file'') (ax_from_slice A original)) (\<lambda>identity.
     if if_version identity \<noteq> VERSION_V1 then Inl ''unsupported identity file version''
     else if if_box_secret_ref identity \<noteq> None
     then Inl ''identity file points at a keychain this platform has no store for''
     else case if_box_secret identity of
        None \<Rightarrow> Inl ''identity file has no box secret''
      | Some secret \<Rightarrow>
     and_then (signer_from_file X A (if_signing identity)) (\<lambda>signer.
     and_then (exact_32 X secret) (\<lambda>bytes.
     and_then (exact_32 X (if_api_token_hash identity)) (\<lambda>token.
       Inr \<lparr>id_signer = signer, id_signing = if_signing identity, id_box_secret = StaticSecret bytes,
         id_box_secret_ref = None, id_api_token_hash = token\<rparr>)))))"

definition save_new_with ::
  "crates \<Rightarrow> agent_crates \<Rightarrow> 's SecretStore \<Rightarrow> write_plan \<Rightarrow> path \<Rightarrow> bytes \<Rightarrow> Identity \<Rightarrow> files \<Rightarrow> 's
    \<Rightarrow> (string + unit) \<times> files \<times> 's" where
  "save_new_with X A S plan path random i fs s =
     (let reference = new_secret_ref X random in
      case ss_put S reference (secret_bytes (id_box_secret i)) s of
        (Inl e, s1) \<Rightarrow> (Inl ''store the box secret'', fs, s1)
      | (Inr _, s1) \<Rightarrow>
      case write_identity_file A plan path
          \<lparr>if_version = VERSION_V1, if_signing = id_signing i, if_box_secret = None,
           if_box_secret_ref = Some reference,
           if_api_token_hash = encode_base64url X (id_api_token_hash i)\<rparr> True fs of
        (Inr _, fs1) \<Rightarrow> (Inr (), fs1, s1)
      | (Inl e, fs1) \<Rightarrow>
          (case ss_remove S reference s1 of
             (Inr _, s2) \<Rightarrow> (Inl ''identity file write failed; stored box secret was rolled back'', fs1, s2)
           | (Inl _, s2) \<Rightarrow> (Inl ''identity file failed and removing the box secret also failed'', fs1, s2)))"

definition save_embedded ::
  "crates \<Rightarrow> agent_crates \<Rightarrow> write_plan \<Rightarrow> path \<Rightarrow> Identity \<Rightarrow> files \<Rightarrow> (string + unit) \<times> files" where
  "save_embedded X A plan path i fs =
     write_identity_file A plan path
       \<lparr>if_version = VERSION_V1, if_signing = id_signing i,
        if_box_secret = Some (encode_base64url X (secret_bytes (id_box_secret i))),
        if_box_secret_ref = None,
        if_api_token_hash = encode_base64url X (id_api_token_hash i)\<rparr> True fs"

text \<open>Key generation: the generated software key comes with its scalar; token and box secret are drawn
  at random.\<close>

definition new_enclave_signer :: "crates \<Rightarrow> agent_crates \<Rightarrow> string + Signer \<times> SigningFileV1" where
  "new_enclave_signer X A =
     (if \<not> ax_macos A then Inl ''a Secure Enclave key needs macOS; pair with --signer software instead''
      else and_then (map_err (\<lambda>_. ''create a Secure Enclave key'') (ax_enclave_create A)) (\<lambda>(signer, blob).
        Inr (signer, EnclaveFile (encode_base64url X blob))))"

fun new_signer :: "crates \<Rightarrow> agent_crates \<Rightarrow> Signer \<times> bytes \<Rightarrow> SignerKind \<Rightarrow> string + Signer \<times> SigningFileV1" where
  "new_signer X A (signer, key) SoftwareKey = Inr (signer, SoftwareFile (encode_base64url X key))"
| "new_signer X A generated Enclave = new_enclave_signer X A"

definition generate_to_with ::
  "crates \<Rightarrow> agent_crates \<Rightarrow> 's SecretStore \<Rightarrow> write_plan \<Rightarrow> path \<Rightarrow> bytes \<Rightarrow> Signer \<times> bytes \<Rightarrow> bytes \<Rightarrow> bytes
    \<Rightarrow> SignerKind \<Rightarrow> files \<Rightarrow> 's \<Rightarrow> (string + Identity) \<times> files \<times> 's" where
  "generate_to_with X A S plan path random generated token box kind fs s =
     (case new_signer X A generated kind of
        Inl e \<Rightarrow> (Inl e, fs, s)
      | Inr (signer, signing) \<Rightarrow>
     let i = \<lparr>id_signer = signer, id_signing = signing, id_box_secret = StaticSecret box,
           id_box_secret_ref = None, id_api_token_hash = sha256 X token\<rparr>;
         (r, fs', s') = save_new_with X A S plan path random i fs s
     in (and_then r (\<lambda>_. Inr i), fs', s'))"

definition generate_embedded ::
  "crates \<Rightarrow> agent_crates \<Rightarrow> write_plan \<Rightarrow> path \<Rightarrow> Signer \<times> bytes \<Rightarrow> bytes \<Rightarrow> bytes
    \<Rightarrow> SignerKind \<Rightarrow> files \<Rightarrow> (string + Identity) \<times> files" where
  "generate_embedded X A plan path generated token box kind fs =
     (case new_signer X A generated kind of
        Inl e \<Rightarrow> (Inl e, fs)
      | Inr (signer, signing) \<Rightarrow>
     let i = \<lparr>id_signer = signer, id_signing = signing, id_box_secret = StaticSecret box,
           id_box_secret_ref = None, id_api_token_hash = sha256 X token\<rparr>;
         (r, fs') = save_embedded X A plan path i fs
     in (and_then r (\<lambda>_. Inr i), fs'))"

section \<open>The contract of a store\<close>

locale secret_store =
  fixes S :: "'s SecretStore"
  assumes put_get: "\<And>a b s s'. length b = 32 \<Longrightarrow> ss_put S a b s = (Inr (), s') \<Longrightarrow> ss_get S a s' = Inr (Some b)"
    and put_frame: "\<And>a a' b r s s'. ss_put S a b s = (r, s') \<Longrightarrow> a' \<noteq> a \<Longrightarrow> ss_get S a' s' = ss_get S a' s"
    and remove_get: "\<And>a s s'. ss_remove S a s = (Inr (), s') \<Longrightarrow> ss_get S a s' = Inr None"
    and remove_frame: "\<And>a a' r s s'. ss_remove S a s = (r, s') \<Longrightarrow> a' \<noteq> a \<Longrightarrow> ss_get S a' s' = ss_get S a' s"

interpretation memory: secret_store memory_store
  by unfold_locales (auto simp: memory_store_def split: if_splits)

text \<open>Documented behaviour of the platform's keychain: a stored item is read back, a failed call changes
  nothing, a deleted item is not found, and an item is not affected by calls for another account.\<close>

definition keychain_lawful :: "'k keychain \<Rightarrow> bool" where
  "keychain_lawful K \<longleftrightarrow>
     (\<forall>v a b k k'. kc_set K v a b k = (Inr (), k') \<longrightarrow> kc_get K v a k' = Inr b) \<and>
     (\<forall>v a b k a'. a' \<noteq> a \<longrightarrow> kc_get K v a' (snd (kc_set K v a b k)) = kc_get K v a' k) \<and>
     (\<forall>v a k k'. kc_delete K v a k = (Inr (), k') \<longrightarrow> kc_get K v a k' = Inl ERR_SEC_ITEM_NOT_FOUND) \<and>
     (\<forall>v a k k'. kc_delete K v a k = (Inl ERR_SEC_ITEM_NOT_FOUND, k') \<longrightarrow> kc_get K v a k' = Inl ERR_SEC_ITEM_NOT_FOUND) \<and>
     (\<forall>v a k a'. a' \<noteq> a \<longrightarrow> kc_get K v a' (snd (kc_delete K v a k)) = kc_get K v a' k)"

lemma keychain_store_contract: "keychain_lawful K \<Longrightarrow> secret_store (keychain_store K)"
proof
  assume K: "keychain_lawful K"
  note defs = keychain_store_def keychain_put_def keychain_get_def keychain_remove_def
  show "ss_get (keychain_store K) a s' = Inr (Some b)"
    if "length b = 32" "ss_put (keychain_store K) a b s = (Inr (), s')" for a b s s'
    using K that by (auto simp: keychain_lawful_def defs map_err_def split: prod.splits sum.splits)
  show "ss_get (keychain_store K) a' s' = ss_get (keychain_store K) a' s"
    if "ss_put (keychain_store K) a b s = (r, s')" "a' \<noteq> a" for a a' b r s s'
  proof -
    have "s' = snd (kc_set K KEYCHAIN_SERVICE a b s)" using that(1) by (auto simp: defs split: prod.splits)
    then have "kc_get K KEYCHAIN_SERVICE a' s' = kc_get K KEYCHAIN_SERVICE a' s"
      using K that(2) by (simp add: keychain_lawful_def)
    then show ?thesis by (simp add: defs)
  qed
  show "ss_get (keychain_store K) a s' = Inr None"
    if "ss_remove (keychain_store K) a s = (Inr (), s')" for a s s'
    using K that by (auto simp: keychain_lawful_def defs split: prod.splits sum.splits if_splits)
  show "ss_get (keychain_store K) a' s' = ss_get (keychain_store K) a' s"
    if "ss_remove (keychain_store K) a s = (r, s')" "a' \<noteq> a" for a a' r s s'
  proof -
    have "s' = snd (kc_delete K KEYCHAIN_SERVICE a s)"
      using that(1) by (auto simp: defs split: prod.splits sum.splits if_splits)
    then have "kc_get K KEYCHAIN_SERVICE a' s' = kc_get K KEYCHAIN_SERVICE a' s"
      using K that(2) by (simp add: keychain_lawful_def)
    then show ?thesis by (simp add: defs)
  qed
qed

section \<open>Files\<close>

lemma rsplit_once_Some: "rsplit_once pat s = Some (a, b) \<Longrightarrow> s = a @ pat @ b"
proof (induction s arbitrary: a)
  case Nil
  then show ?case by (simp split: if_splits)
next
  case (Cons c s)
  show ?case
  proof (cases "rsplit_once pat s")
    case None
    with Cons.prems have "starts_with pat (c # s)" "a = []" "b = drop (length pat) (c # s)"
      by (auto split: if_splits)
    then show ?thesis unfolding starts_with_def by (metis append_Nil append_take_drop_id)
  next
    case (Some p)
    with Cons show ?thesis by (cases p) auto
  qed
qed

lemma file_stem_length: "length (file_stem name) \<le> length name"
  by (auto simp: file_stem_def split: option.splits dest: rsplit_once_Some)

lemma prev_path_distinct:
  "identity_prev_path path \<noteq> path" "prev_staging path \<noteq> path" "prev_staging path \<noteq> identity_prev_path path"
  by (cases path; auto simp: identity_prev_path_def prev_staging_def Let_def split: option.splits)+

lemma staging_not_prev: "with_extension path ''tmp'' \<noteq> identity_prev_path path"
proof (cases "pt_file_name path")
  case None
  then show ?thesis by (cases path) (auto simp: with_extension_def identity_prev_path_def)
next
  case (Some name)
  have "last (file_stem name @ ''.tmp'') \<noteq> last (name @ ''.prev'')" by simp
  then show ?thesis
    using Some by (cases path) (auto simp: with_extension_def identity_prev_path_def simp del: last_appendR)
qed

lemma write_staged_result:
  assumes "write_staged plan staging target body fs = (r, fs')" "p \<noteq> staging"
  shows "fs' p = (if r = Inr () \<and> p = target then Some body else fs p)"
  using assms by (auto simp: write_staged_def split: if_splits option.splits)

lemma persist_prev_result:
  assumes "persist_identity_prev plan path original fs = (r, fs')"
  shows "fs' path = fs path"
    and "fs' (identity_prev_path path) = (if fs (identity_prev_path path) = None \<and> r = Inr () then Some original
       else fs (identity_prev_path path))"
    and "r = Inr () \<Longrightarrow> fs' (identity_prev_path path) \<noteq> None"
  using assms write_staged_result [of plan "prev_staging path" "identity_prev_path path" original fs r fs' path]
    write_staged_result [of plan "prev_staging path" "identity_prev_path path" original fs r fs' "identity_prev_path path"]
    prev_path_distinct [of path]
  by (auto simp: persist_identity_prev_def Let_def split: if_splits)

text \<open>A replacing write leaves the old file or the new one, never part of one.\<close>

lemma replace_result:
  assumes "write_identity_file A plan path identity False fs = (r, fs')" "with_extension path ''tmp'' \<noteq> path"
  shows "r = Inr () \<Longrightarrow> \<exists>text. ax_to_vec_pretty A identity = Inr text \<and> fs' path = Some (text @ [10])"
    and "r \<noteq> Inr () \<Longrightarrow> fs' path = fs path"
    and "fs' (identity_prev_path path) = fs (identity_prev_path path)"
proof -
  note w = write_staged_result [of plan "with_extension path ''tmp''" path _ fs r fs' path]
    write_staged_result [of plan "with_extension path ''tmp''" path _ fs r fs' "identity_prev_path path"]
  show "r = Inr () \<Longrightarrow> \<exists>text. ax_to_vec_pretty A identity = Inr text \<and> fs' path = Some (text @ [10])"
    "r \<noteq> Inr () \<Longrightarrow> fs' path = fs path"
    "fs' (identity_prev_path path) = fs (identity_prev_path path)"
    using assms w prev_path_distinct(1) [of path] staging_not_prev [of path]
    by (auto simp: write_identity_file_def Let_def split: if_splits sum.splits)
qed

section \<open>Migration and saving\<close>

text \<open>JSON: a serialized identity file, with its trailing newline, reads back as itself.\<close>

definition identity_json_roundtrip :: "agent_crates \<Rightarrow> bool" where
  "identity_json_roundtrip A \<longleftrightarrow>
     (\<forall>f text. ax_to_vec_pretty A f = Inr text \<longrightarrow> ax_from_slice A (text @ [10]) = Inr f)"

definition stripped :: "IdentityFileV1 \<Rightarrow> string \<Rightarrow> IdentityFileV1" where
  "stripped identity reference = \<lparr>if_version = VERSION_V1, if_signing = if_signing identity, if_box_secret = None,
     if_box_secret_ref = Some reference, if_api_token_hash = if_api_token_hash identity\<rparr>"

text \<open>The file names a secret the store can produce.\<close>

definition secret_moved ::
  "agent_crates \<Rightarrow> 's SecretStore \<Rightarrow> path \<Rightarrow> IdentityFileV1 \<Rightarrow> string \<Rightarrow> bytes \<Rightarrow> files \<Rightarrow> 's \<Rightarrow> bool" where
  "secret_moved A S path identity reference secret fs s \<longleftrightarrow>
     (\<exists>body. fs path = Some body \<and> ax_from_slice A body = Inr (stripped identity reference)) \<and>
     ss_get S reference s = Inr (Some secret) \<and> fs (identity_prev_path path) \<noteq> None"

lemma exact_32_length: "exact_32 X v = Inr bs \<Longrightarrow> length bs = 32"
  by (auto simp: exact_32_def result_simps split: if_splits)

lemma exact_32_encode [simp]: "b64_roundtrip X \<Longrightarrow> length bs = 32 \<Longrightarrow> exact_32 X (encode_base64url X bs) = Inr bs"
  by (simp add: exact_32_def)

context secret_store
begin

lemma migrate_result:
  assumes "identity_json_roundtrip A" "with_extension path ''tmp'' \<noteq> path" "fs path = Some original"
    and "exact_32 X secret = Inr bs"
    and "migrate X A S prev_plan plan path random original identity secret fs s = (r, fs', s')"
  shows "(fs' path = Some original \<and> is_err r \<or>
      secret_moved A S path identity (new_secret_ref X random) bs fs' s' \<and> r = Inr (bs, Some (new_secret_ref X random))) \<and>
    (fs (identity_prev_path path) \<noteq> None \<longrightarrow> fs' (identity_prev_path path) = fs (identity_prev_path path)) \<and>
    (fs (identity_prev_path path) = None \<longrightarrow> fs' (identity_prev_path path) \<in> {None, Some original})"
proof -
  let ?prev = "identity_prev_path path" and ?ref = "new_secret_ref X random"
  obtain r1 fs1 where p: "persist_identity_prev prev_plan path original fs = (r1, fs1)" by fastforce
  note P = persist_prev_result [OF p]
  obtain r2 s1 where u: "ss_put S ?ref bs s = (r2, s1)" by fastforce
  obtain r3 fs2 where w: "write_identity_file A plan path (stripped identity ?ref) False fs1 = (r3, fs2)" by fastforce
  note W = replace_result [OF w assms(2)]
  note m = assms(5) [unfolded migrate_def p assms(4) Let_def sum.case prod.case u stripped_def [symmetric] w]
  show ?thesis
  proof (cases r1)
    case (Inl e)
    then show ?thesis using m P assms(3) by (auto split: if_splits)
  next
    case r1: (Inr _)
    show ?thesis
    proof (cases r2)
      case (Inl e)
      then show ?thesis using m P assms(3) r1 by (auto split: if_splits)
    next
      case r2: (Inr _)
      have g: "ss_get S ?ref s1 = Inr (Some bs)"
        using put_get [OF exact_32_length [OF assms(4)]] u r2 by simp
      show ?thesis
      proof (cases r3)
        case (Inl e)
        then show ?thesis using m P W assms(3) r1 r2 by (auto split: if_splits)
      next
        case r3: (Inr _)
        have "r = Inr (bs, Some ?ref)" "fs' = fs2" "s' = s1" using m r1 r2 r3 g by auto
        moreover have "secret_moved A S path identity ?ref bs fs2 s1"
          using W r3 g P r1 assms(1) unfolding secret_moved_def identity_json_roundtrip_def by force
        ultimately show ?thesis using W P r1 by (auto split: if_splits)
      qed
    qed
  qed
qed

lemma save_load:
  assumes "b64_roundtrip X" "identity_json_roundtrip A"
    and "length (secret_bytes (id_box_secret i)) = 32" "length (id_api_token_hash i) = 32"
    and "signer_from_file X A (id_signing i) = Inr (id_signer i)"
    and "save_new_with X A S plan path random i fs s = (Inr (), fs', s')"
  shows "load_with X A S prev_plan plan' path random' fs' s'
    = (Inr (i\<lparr>id_box_secret_ref := Some (new_secret_ref X random)\<rparr>), fs', s')"
proof -
  let ?ref = "new_secret_ref X random"
  let ?file = "\<lparr>if_version = VERSION_V1, if_signing = id_signing i, if_box_secret = None,
           if_box_secret_ref = Some ?ref, if_api_token_hash = encode_base64url X (id_api_token_hash i)\<rparr>"
  from assms(6) obtain s1 where u: "ss_put S ?ref (secret_bytes (id_box_secret i)) s = (Inr (), s1)"
    and w: "write_identity_file A plan path ?file True fs = (Inr (), fs')" and s: "s' = s1"
    by (auto simp: save_new_with_def Let_def split: prod.splits sum.splits)
  then obtain js where t: "ax_to_vec_pretty A ?file = Inr js" "fs' path = Some (js @ [10])"
    by (auto simp: write_identity_file_def Let_def split: if_splits sum.splits option.splits)
  have g: "ss_get S ?ref s' = Inr (Some (secret_bytes (id_box_secret i)))" using put_get [OF assms(3) u] s by simp
  have f: "ax_from_slice A (js @ [10]) = Inr ?file" using assms(2) t(1) by (simp add: identity_json_roundtrip_def)
  have "StaticSecret (secret_bytes (id_box_secret i)) = id_box_secret i" by (cases "id_box_secret i") simp
  with assms(1,4,5) show ?thesis by (simp add: load_with_def t f g identity_of_def)
qed

text \<open>A failed save never replaces a file, leaves every other account alone, and, if the store let it,
  takes its own secret back.\<close>

lemma save_failure:
  assumes "save_new_with X A S plan path random i fs s = (Inl e, fs', s')"
  shows "fs path = Some old \<Longrightarrow> fs' = fs"
    and "a \<noteq> new_secret_ref X random \<Longrightarrow> ss_get S a s' = ss_get S a s"
    and "e = ''identity file write failed; stored box secret was rolled back'' \<Longrightarrow> ss_get S (new_secret_ref X random) s' = Inr None"
proof -
  show "fs path = Some old \<Longrightarrow> fs' = fs"
    using assms by (auto simp: save_new_with_def write_identity_file_def Let_def
        split: prod.splits sum.splits if_splits option.splits)
  show "a \<noteq> new_secret_ref X random \<Longrightarrow> ss_get S a s' = ss_get S a s"
    using assms put_frame remove_frame
    by (fastforce simp: save_new_with_def Let_def split: prod.splits sum.splits)
  show "e = ''identity file write failed; stored box secret was rolled back'' \<Longrightarrow> ss_get S (new_secret_ref X random) s' = Inr None"
    using assms remove_get by (auto simp: save_new_with_def Let_def split: prod.splits sum.splits)
qed

end

text \<open>migrating a legacy identity file never loses the box secret, whatever fails and wherever the
  agent stops: afterwards either the file still holds its original bytes with the secret inline, or it
  names a keychain account under which the keychain returns exactly that secret and the backup exists.
  A backup that was there is not touched, and a new one is the original file. A successful load returns
  the identity with that secret.\<close>

theorem migration_keeps_secret:
  assumes "keychain_lawful K" "identity_json_roundtrip A" "with_extension path ''tmp'' \<noteq> path"
    and "fs path = Some original" "ax_from_slice A original = Inr identity"
    and "if_box_secret identity = Some secret" "exact_32 X secret = Inr bs"
    and "load_with X A (keychain_store K) prev_plan plan path random fs s = (r, fs', s')"
  shows "(fs' path = Some original \<or>
      secret_moved A (keychain_store K) path identity (new_secret_ref X random) bs fs' s') \<and>
    (fs (identity_prev_path path) \<noteq> None \<longrightarrow> fs' (identity_prev_path path) = fs (identity_prev_path path)) \<and>
    (fs (identity_prev_path path) = None \<longrightarrow> fs' (identity_prev_path path) \<in> {None, Some original}) \<and>
    (\<forall>i. r = Inr i \<longrightarrow> id_box_secret i = StaticSecret bs \<and> id_box_secret_ref i = Some (new_secret_ref X random))"
proof (cases "if_version identity = VERSION_V1 \<and> if_box_secret_ref identity = None")
  case True
  obtain m fs1 s1 where m: "migrate X A (keychain_store K) prev_plan plan path random original identity secret fs s = (m, fs1, s1)"
    using prod_cases3 by blast
  have l: "r = and_then m (\<lambda>(secret, secret_ref). identity_of X A (if_signing identity) secret secret_ref (if_api_token_hash identity))"
    "fs' = fs1" "s' = s1"
    using assms(4-6,8) True m by (simp_all add: load_with_def)
  note M = secret_store.migrate_result [OF keychain_store_contract [OF assms(1)] assms(2,3,4,7) m]
  have "id_box_secret i = StaticSecret bs \<and> id_box_secret_ref i = Some (new_secret_ref X random)" if "r = Inr i" for i
    using M that l(1) by (auto simp: result_simps identity_of_def)
  with M l show ?thesis by blast
next
  case False
  then have "r = Inl (if if_version identity \<noteq> VERSION_V1 then ''unsupported identity file version''
      else ''identity file carries both an embedded secret and a keychain reference'') \<and> fs' = fs \<and> s' = s"
    using assms(4-6,8) by (auto simp: load_with_def split: option.splits if_splits)
  with assms(4) show ?thesis by (cases "fs (identity_prev_path path)") auto
qed

text \<open>an identity that was saved is the identity that is loaded, with the box secret in the keychain
  on macOS and inline elsewhere; loading it changes neither the files nor the keychain.\<close>

theorem saved_identity_loads:
  assumes "b64_roundtrip X" "identity_json_roundtrip A" "keychain_lawful K"
    and "length (secret_bytes (id_box_secret i)) = 32" "length (id_api_token_hash i) = 32"
    and "signer_from_file X A (id_signing i) = Inr (id_signer i)"
  shows "(save_new_with X A (keychain_store K) plan path random i fs s = (Inr (), fs', s') \<longrightarrow>
      load_with X A (keychain_store K) prev_plan plan' path random' fs' s'
        = (Inr (i\<lparr>id_box_secret_ref := Some (new_secret_ref X random)\<rparr>), fs', s')) \<and>
    (save_embedded X A plan path i fs = (Inr (), fs'') \<longrightarrow>
      load_embedded X A path fs'' = Inr (i\<lparr>id_box_secret_ref := None\<rparr>))"
proof (intro conjI impI)
  assume "save_new_with X A (keychain_store K) plan path random i fs s = (Inr (), fs', s')"
  then show "load_with X A (keychain_store K) prev_plan plan' path random' fs' s'
      = (Inr (i\<lparr>id_box_secret_ref := Some (new_secret_ref X random)\<rparr>), fs', s')"
    by (rule secret_store.save_load [OF keychain_store_contract [OF assms(3)] assms(1,2,4-6)])
next
  let ?file = "\<lparr>if_version = VERSION_V1, if_signing = id_signing i,
        if_box_secret = Some (encode_base64url X (secret_bytes (id_box_secret i))), if_box_secret_ref = None,
        if_api_token_hash = encode_base64url X (id_api_token_hash i)\<rparr>"
  assume "save_embedded X A plan path i fs = (Inr (), fs'')"
  then obtain js where t: "ax_to_vec_pretty A ?file = Inr js" "fs'' path = Some (js @ [10])"
    by (auto simp: save_embedded_def write_identity_file_def Let_def split: if_splits sum.splits option.splits)
  have f: "ax_from_slice A (js @ [10]) = Inr ?file" using assms(2) t(1) by (simp add: identity_json_roundtrip_def)
  have "StaticSecret (secret_bytes (id_box_secret i)) = id_box_secret i" by (cases "id_box_secret i") simp
  with assms(1,4-6) show "load_embedded X A path fs'' = Inr (i\<lparr>id_box_secret_ref := None\<rparr>)"
    by (simp add: load_embedded_def t f)
qed

section \<open>A sample keychain\<close>

definition sample_keychain :: "(string \<times> string \<rightharpoonup> bytes) keychain" where
  "sample_keychain = \<lparr>kc_set = (\<lambda>v a b k. (Inr (), k((v, a) \<mapsto> b))),
     kc_get = (\<lambda>v a k. case k (v, a) of None \<Rightarrow> Inl ERR_SEC_ITEM_NOT_FOUND | Some b \<Rightarrow> Inr b),
     kc_delete = (\<lambda>v a k. if k (v, a) = None then (Inl ERR_SEC_ITEM_NOT_FOUND, k) else (Inr (), k((v, a) := None)))\<rparr>"

lemma sample_keychain_lawful: "keychain_lawful sample_keychain"
  by (auto simp: keychain_lawful_def sample_keychain_def split: option.splits)

definition sample_path :: path where
  "sample_path = \<lparr>pt_parent = [''state''], pt_file_name = Some ''agent.json''\<rparr>"

definition sample_legacy :: IdentityFileV1 where
  "sample_legacy = \<lparr>if_version = 1, if_signing = EnclaveFile ''AA'',
     if_box_secret = Some (sample_encode (replicate 32 5)), if_box_secret_ref = None,
     if_api_token_hash = sample_encode (replicate 32 6)\<rparr>"

definition sample_reference :: string where "sample_reference = new_secret_ref sample (replicate 16 0)"

definition sample_file_crates :: agent_crates where
  "sample_file_crates = \<lparr>ax_key_from_slice = (\<lambda>_. None), ax_enclave_create = Inl ''none'',
     ax_enclave_from_blob = (\<lambda>_. Inr sample_signer),
     ax_to_vec_pretty = (\<lambda>f. if f = stripped sample_legacy sample_reference then Inr [8] else Inl ''none''),
     ax_from_slice = (\<lambda>bs. if bs = [8, 10] then Inr (stripped sample_legacy sample_reference) else Inr sample_legacy),
     ax_macos = True\<rparr>"

definition sample_plan :: write_plan where
  "sample_plan = \<lparr>wp_mkdir = True, wp_open = True, wp_write = None, wp_sync = True, wp_rename = True\<rparr>"

lemma sample_staging: "with_extension sample_path ''tmp'' \<noteq> sample_path"
  by (simp add: with_extension_def sample_path_def file_stem_def starts_with_def)

lemma sample_file_json: "identity_json_roundtrip sample_file_crates"
  by (simp add: identity_json_roundtrip_def sample_file_crates_def)

theorem migration_keeps_secret_witness:
  "\<exists>r fs' s'. load_with sample sample_file_crates (keychain_store sample_keychain) sample_plan sample_plan sample_path
     (replicate 16 0) [sample_path \<mapsto> [1]] Map.empty = (r, fs', s') \<and>
   (fs' sample_path = Some [1] \<or>
    secret_moved sample_file_crates (keychain_store sample_keychain) sample_path sample_legacy
      (new_secret_ref sample (replicate 16 0)) (replicate 32 5) fs' s')"
proof -
  obtain r fs' s' where l: "load_with sample sample_file_crates (keychain_store sample_keychain) sample_plan sample_plan sample_path
     (replicate 16 0) [sample_path \<mapsto> [1]] Map.empty = (r, fs', s')" using prod_cases3 by blast
  have "exact_32 sample (sample_encode (replicate 32 5)) = Inr (replicate 32 5)" by (simp add: exact_32_def)
  with migration_keeps_secret [OF sample_keychain_lawful sample_file_json sample_staging _ _ _ _ l, of "[1]" sample_legacy]
  show ?thesis using l by (fastforce simp: sample_file_crates_def sample_legacy_def)
qed

definition sample_saved :: Identity where
  "sample_saved = sample_identity (EnclaveFile ''AA'')"

lemma sample_saved_signer: "signer_from_file sample sample_file_crates (id_signing sample_saved) = Inr (id_signer sample_saved)"
  by (simp add: sample_saved_def sample_identity_def decode_base64url_def contains_char_def enclave_signer_def
      sample_file_crates_def)

lemma sample_saves:
  "\<exists>fs' s'. save_new_with sample sample_file_crates (keychain_store sample_keychain) sample_plan sample_path (replicate 16 0)
     sample_saved Map.empty Map.empty = (Inr (), fs', s')"
proof -
  have f: "\<lparr>if_version = VERSION_V1, if_signing = id_signing sample_saved, if_box_secret = None,
      if_box_secret_ref = Some (new_secret_ref sample (replicate 16 0)),
      if_api_token_hash = encode_base64url sample (id_api_token_hash sample_saved)\<rparr> = stripped sample_legacy sample_reference"
    by (simp add: stripped_def sample_legacy_def sample_saved_def sample_identity_def sample_reference_def VERSION_V1_def
        encode_base64url_def)
  have t: "ax_to_vec_pretty sample_file_crates (stripped sample_legacy sample_reference) = Inr [8]"
    by (simp add: sample_file_crates_def)
  show ?thesis
    unfolding save_new_with_def Let_def write_identity_file_def f t
    by (simp add: keychain_store_def keychain_put_def sample_keychain_def sample_plan_def)
qed

theorem saved_identity_loads_witness:
  "\<exists>fs' s'. load_with sample sample_file_crates (keychain_store sample_keychain) sample_plan sample_plan sample_path
     (replicate 16 0) fs' s'
     = (Inr (sample_saved\<lparr>id_box_secret_ref := Some (new_secret_ref sample (replicate 16 0))\<rparr>), fs', s')"
proof -
  obtain fs' s' where "save_new_with sample sample_file_crates (keychain_store sample_keychain) sample_plan sample_path (replicate 16 0)
     sample_saved Map.empty Map.empty = (Inr (), fs', s')" using sample_saves by blast
  moreover have "length (secret_bytes (id_box_secret sample_saved)) = 32" "length (id_api_token_hash sample_saved) = 32"
    by (simp_all add: sample_saved_def sample_identity_def sample_box_secret_def)
  ultimately show ?thesis
    using saved_identity_loads [OF sample_b64 sample_file_json sample_keychain_lawful _ _ sample_saved_signer] by blast
qed

end
