(* ===== verification/Agent_Admission.thy ===== *)
theory Agent_Admission
  imports Auth_V1
begin

text \<open>
  Admission of requests in the agent (\<open>agent/src/main.rs\<close>): eight work permits shared by both transports
  and one claim per request id, so that a request delivered over the socket and again over NATS raises
  one prompt and gets one answer. A watch channel is its value and whether its sender lives; a claim
  names its channel by number. Times are milliseconds of the monotonic clock. \<open>agent_step\<close> is the step
  relation of all deliveries, owners and waiters in any interleaving, with a log of what happened; the
  claim itself refines an abstract state per request id.
\<close>

section \<open>State\<close>

definition MAX_IN_FLIGHT_REQUESTS :: nat where "MAX_IN_FLIGHT_REQUESTS = 8"
definition MAX_SEEN_REQUEST_IDS :: nat where "MAX_SEEN_REQUEST_IDS = 1024"
definition SEEN_REQUEST_RETENTION :: nat where
  "SEEN_REQUEST_RETENTION = nat (MAX_REQUEST_LIFETIME_SECS + MAX_REQUEST_ISSUANCE_SKEW_SECS) * 1000"

datatype RequestOutcome =
    CommandOutcome DecisionV1
  | AuthenticationOutcome AuthDecisionV1
  | Unanswered

record channel =
  ch_value :: "RequestOutcome option"
  ch_sender :: bool

record SeenRequest =
  sn_seen_at :: nat
  sn_payload_hash :: bytes
  sn_channel :: nat
  sn_attached :: bool

text \<open>The claims are the entries of the hash map in its iteration order; no fact depends on that order.\<close>

record RequestAdmission =
  ad_permits :: nat
  ad_poisoned :: bool
  ad_claims :: "(string \<times> SeenRequest) list"
  ad_channels :: "nat \<Rightarrow> channel"
  ad_next :: nat

datatype Claim = Owner nat | Attach nat | Duplicate

datatype Relay = Answer RequestOutcome | Abandoned | ExpiredRelay

section \<open>Operations\<close>

definition RequestAdmission_new :: RequestAdmission where
  "RequestAdmission_new = \<lparr>ad_permits = MAX_IN_FLIGHT_REQUESTS, ad_poisoned = False, ad_claims = [],
     ad_channels = (\<lambda>_. \<lparr>ch_value = None, ch_sender = False\<rparr>), ad_next = 0\<rparr>"

definition reserve :: "RequestAdmission \<Rightarrow> RequestAdmission option" where
  "reserve a = (if ad_permits a = 0 then None else Some (a\<lparr>ad_permits := ad_permits a - 1\<rparr>))"

definition release :: "RequestAdmission \<Rightarrow> RequestAdmission" where
  "release a = a\<lparr>ad_permits := ad_permits a + 1\<rparr>"

definition retained :: "nat \<Rightarrow> (string \<times> SeenRequest) list \<Rightarrow> (string \<times> SeenRequest) list" where
  "retained now claimed = filter (\<lambda>(_, seen). now - sn_seen_at seen < SEEN_REQUEST_RETENTION) claimed"

definition oldest :: "(string \<times> SeenRequest) list \<Rightarrow> string option" where
  "oldest claimed = (case claimed of [] \<Rightarrow> None
     | e # es \<Rightarrow> Some (fst (foldl (\<lambda>m e. if sn_seen_at (snd e) < sn_seen_at (snd m) then e else m) e es)))"

definition removed :: "string \<Rightarrow> (string \<times> SeenRequest) list \<Rightarrow> (string \<times> SeenRequest) list" where
  "removed k claimed = filter (\<lambda>(k', _). k' \<noteq> k) claimed"

definition make_room :: "string \<Rightarrow> (string \<times> SeenRequest) list \<Rightarrow> (string \<times> SeenRequest) list" where
  "make_room k claimed =
     (if length claimed \<ge> MAX_SEEN_REQUEST_IDS \<and> map_of claimed k = None
      then (case oldest claimed of None \<Rightarrow> claimed | Some k' \<Rightarrow> removed k' claimed)
      else claimed)"

text \<open>The last part of \<open>claim\<close>: a fresh channel for a new owner, who keeps the permit.\<close>

definition take_claim ::
  "string \<Rightarrow> bytes \<Rightarrow> nat \<Rightarrow> (string \<times> SeenRequest) list \<Rightarrow> RequestAdmission \<Rightarrow> Claim \<times> RequestAdmission" where
  "take_claim k h now claimed a =
     (let c = ad_next a;
          seen = \<lparr>sn_seen_at = now, sn_payload_hash = h, sn_channel = c, sn_attached = False\<rparr>
      in (Owner c, a\<lparr>ad_claims := (k, seen) # removed k (make_room k claimed),
            ad_channels := (ad_channels a)(c := \<lparr>ch_value = None, ch_sender = True\<rparr>), ad_next := c + 1\<rparr>))"

definition claim :: "string \<Rightarrow> bytes \<Rightarrow> nat \<Rightarrow> RequestAdmission \<Rightarrow> Claim \<times> RequestAdmission" where
  "claim k h now a =
     (if ad_poisoned a then (Duplicate, release a)
      else
      let claimed = retained now (ad_claims a); a = a\<lparr>ad_claims := claimed\<rparr> in
      case map_of claimed k of
        None \<Rightarrow> take_claim k h now claimed a
      | Some seen \<Rightarrow>
          let c = ad_channels a (sn_channel seen) in
          if sn_payload_hash seen \<noteq> h then (Duplicate, release a)
          else if ch_value c \<noteq> None then (Duplicate, release a)
          else if ch_sender c then
            if sn_attached seen then (Duplicate, release a)
            else (Attach (sn_channel seen),
                  a\<lparr>ad_claims := map (\<lambda>(k', s). (k', if k' = k then s\<lparr>sn_attached := True\<rparr> else s)) claimed\<rparr>)
          else take_claim k h now claimed a)"

definition answered :: "nat \<Rightarrow> RequestOutcome \<Rightarrow> RequestAdmission \<Rightarrow> RequestAdmission" where
  "answered c outcome a = a\<lparr>ad_channels := (ad_channels a)(c := (ad_channels a c)\<lparr>ch_value := Some outcome\<rparr>)\<rparr>"

text \<open>The owner's lease goes out of scope: its permit returns and its sender is gone.\<close>

definition drop_lease :: "nat \<Rightarrow> RequestAdmission \<Rightarrow> RequestAdmission" where
  "drop_lease c a =
     release (a\<lparr>ad_channels := (ad_channels a)(c := (ad_channels a c)\<lparr>ch_sender := False\<rparr>)\<rparr>)"

text \<open>What a waiter learns when it looks: nothing yet, unless the owner answered or is gone, or the deadline
  has passed. A wait that begins after the deadline does not look at all.\<close>

definition wait_relay :: "bool \<Rightarrow> channel \<Rightarrow> bool \<Rightarrow> Relay option" where
  "wait_relay late c expired =
     (if late then Some ExpiredRelay
      else case ch_value c of
        Some outcome \<Rightarrow> Some (Answer outcome)
      | None \<Rightarrow> if \<not> ch_sender c then Some Abandoned else if expired then Some ExpiredRelay else None)"

definition reclaim :: "string \<Rightarrow> bytes \<Rightarrow> nat \<Rightarrow> RequestAdmission \<Rightarrow> Claim \<times> RequestAdmission" where
  "reclaim k h now a = claim k h now a"

definition auth_dedupe_key :: "string \<Rightarrow> string" where
  "auth_dedupe_key request_id = ''auth:'' @ request_id"

definition payload_hash :: "crates \<Rightarrow> bytes \<Rightarrow> bytes" where
  "payload_hash X raw = sha256 X raw"

text \<open>What a waiter of each lane delivers of the owner's outcome.\<close>

fun command_answer :: "RequestOutcome \<Rightarrow> DecisionV1 option" where
  "command_answer (CommandOutcome decision) = Some decision"
| "command_answer (AuthenticationOutcome _) = None"
| "command_answer Unanswered = None"

fun authentication_answer :: "RequestOutcome \<Rightarrow> AuthDecisionV1 option" where
  "authentication_answer (AuthenticationOutcome decision) = Some decision"
| "authentication_answer (CommandOutcome _) = None"
| "authentication_answer Unanswered = None"

definition command_outcome :: "DecisionV1 option \<Rightarrow> RequestOutcome" where
  "command_outcome decision = (case decision of None \<Rightarrow> Unanswered | Some d \<Rightarrow> CommandOutcome d)"

definition authentication_outcome :: "AuthDecisionV1 option \<Rightarrow> RequestOutcome" where
  "authentication_outcome decision = (case decision of None \<Rightarrow> Unanswered | Some d \<Rightarrow> AuthenticationOutcome d)"

section \<open>Claims refine one state per request id\<close>

text \<open>The abstract state of a request id: nobody holds it; an owner works on the body with this hash, with
  or without a second delivery waiting; its owner is gone without an answer; or it is answered.\<close>

datatype claim_state = Free | Held bytes bool | Lost bytes | Done bytes RequestOutcome

datatype claim_kind = BecomesOwner | Attaches | Refused

fun spec_claim :: "claim_state \<Rightarrow> bytes \<Rightarrow> claim_kind \<times> claim_state" where
  "spec_claim Free h = (BecomesOwner, Held h False)"
| "spec_claim (Held h0 attached) h =
     (if h \<noteq> h0 \<or> attached then (Refused, Held h0 attached) else (Attaches, Held h0 True))"
| "spec_claim (Lost h0) h = (if h \<noteq> h0 then (Refused, Lost h0) else (BecomesOwner, Held h False))"
| "spec_claim (Done h0 outcome) h = (Refused, Done h0 outcome)"

fun kind_of :: "Claim \<Rightarrow> claim_kind" where
  "kind_of (Owner c) = BecomesOwner"
| "kind_of (Attach c) = Attaches"
| "kind_of Duplicate = Refused"

definition status_of :: "SeenRequest \<Rightarrow> channel \<Rightarrow> claim_state" where
  "status_of seen c = (case ch_value c of
     Some outcome \<Rightarrow> Done (sn_payload_hash seen) outcome
   | None \<Rightarrow> if ch_sender c then Held (sn_payload_hash seen) (sn_attached seen) else Lost (sn_payload_hash seen))"

definition claim_status :: "RequestAdmission \<Rightarrow> string \<Rightarrow> claim_state" where
  "claim_status a k = (case map_of (ad_claims a) k of
     None \<Rightarrow> Free | Some seen \<Rightarrow> status_of seen (ad_channels a (sn_channel seen)))"

text \<open>What the table keeps at all times: one entry per id, each with a channel of its own among those
  created so far, and a bounded number of them.\<close>

definition claims_ok :: "RequestAdmission \<Rightarrow> bool" where
  "claims_ok a \<longleftrightarrow> distinct (map fst (ad_claims a)) \<and> length (ad_claims a) \<le> MAX_SEEN_REQUEST_IDS \<and>
     distinct (map (sn_channel \<circ> snd) (ad_claims a)) \<and>
     (\<forall>e \<in> set (ad_claims a). sn_channel (snd e) < ad_next a)"

lemma map_of_filter_keys:
  assumes "distinct (map fst claims)"
  shows "map_of (filter keep claims) rid =
    (case map_of claims rid of Some seen \<Rightarrow> (if \<not> keep (rid, seen) then None else Some seen) | None \<Rightarrow> None)"
  using assms by (induction claims) (auto split: option.splits dest: map_of_SomeD simp: image_iff)

lemma map_of_removed [simp]: "map_of (removed k' xs) k = (if k = k' then None else map_of xs k)"
  by (induction xs) (auto simp: removed_def)

lemma removed_subset: "set (removed k xs) \<subseteq> set xs" and fst_removed: "k \<notin> fst ` set (removed k xs)"
  by (auto simp: removed_def)

lemma length_removed: "length (removed k xs) \<le> length xs"
  unfolding removed_def by (rule length_filter_le)

lemma distinct_filter_map: "distinct (map f xs) \<Longrightarrow> distinct (map f (filter P xs))"
  by (induction xs) auto

lemma distinct_removed: "distinct (map f xs) \<Longrightarrow> distinct (map f (removed k xs))"
  unfolding removed_def by (rule distinct_filter_map)

lemma foldl_min_in:
  "foldl (\<lambda>m e. if sn_seen_at (snd e) < sn_seen_at (snd m) then e else m) e es \<in> set (e # es) \<and>
   (\<forall>x \<in> set (e # es). sn_seen_at (snd (foldl (\<lambda>m e. if sn_seen_at (snd e) < sn_seen_at (snd m) then e else m) e es)) \<le> sn_seen_at (snd x))"
proof (induction es arbitrary: e)
  case Nil
  then show ?case by simp
next
  case (Cons f es)
  show ?case using Cons [of e] Cons [of f] by (auto simp: not_less intro: order_trans)
qed

lemma oldest_Some:
  assumes "oldest xs = Some k"
  shows "\<exists>seen. (k, seen) \<in> set xs \<and> (\<forall>x \<in> set xs. sn_seen_at seen \<le> sn_seen_at (snd x))"
proof (cases xs)
  case Nil
  with assms show ?thesis by (simp add: oldest_def)
next
  case (Cons e es)
  let ?m = "foldl (\<lambda>m e. if sn_seen_at (snd e) < sn_seen_at (snd m) then e else m) e es"
  have "k = fst ?m" using assms Cons by (simp add: oldest_def)
  then have e: "(k, snd ?m) = ?m" by simp
  have "?m \<in> set xs" "\<forall>x \<in> set xs. sn_seen_at (snd ?m) \<le> sn_seen_at (snd x)"
    using foldl_min_in [of e es] unfolding Cons by simp_all
  then show ?thesis by (intro exI [of _ "snd ?m"] conjI) (simp_all only: e)
qed

lemma make_room_facts:
  shows "set (make_room k xs) \<subseteq> set xs"
    and "distinct (map f xs) \<Longrightarrow> distinct (map f (make_room k xs))"
    and "map_of (make_room k xs) k = map_of xs k"
    and "k' \<noteq> k \<Longrightarrow> map_of (make_room k xs) k' \<noteq> map_of xs k' \<Longrightarrow>
      map_of (make_room k xs) k' = None \<and> length xs \<ge> MAX_SEEN_REQUEST_IDS \<and> map_of xs k = None \<and> oldest xs = Some k'"
  using removed_subset by (auto simp: make_room_def distinct_removed split: option.splits if_splits)

lemma make_room_length:
  assumes "length xs \<le> MAX_SEEN_REQUEST_IDS"
  shows "length (removed k (make_room k xs)) < MAX_SEEN_REQUEST_IDS"
proof (cases "length xs \<ge> MAX_SEEN_REQUEST_IDS \<and> map_of xs k = None")
  case True
  then have "xs \<noteq> []" by (auto simp: MAX_SEEN_REQUEST_IDS_def)
  then obtain k' where o: "oldest xs = Some k'" by (cases xs) (auto simp: oldest_def)
  then obtain seen where "(k', seen) \<in> set xs" using oldest_Some by blast
  then have "length (removed k' xs) < length xs"
    unfolding removed_def by (intro length_filter_less) auto
  moreover have "length (removed k (removed k' xs)) \<le> length (removed k' xs)" by (rule length_removed)
  ultimately show ?thesis using True o assms by (simp add: make_room_def)
next
  case False
  show ?thesis
  proof (cases "map_of xs k")
    case None
    with False assms have "length xs < MAX_SEEN_REQUEST_IDS" by simp
    moreover have "length (removed k xs) \<le> length xs" by (rule length_removed)
    ultimately show ?thesis using False None by (simp add: make_room_def)
  next
    case (Some seen)
    then have "(k, seen) \<in> set xs" by (rule map_of_SomeD)
    then have "length (removed k xs) < length xs"
      unfolding removed_def by (intro length_filter_less) auto
    with assms Some show ?thesis by (simp add: make_room_def)
  qed
qed

text \<open>The table after dropping what is too old.\<close>

definition purged :: "nat \<Rightarrow> RequestAdmission \<Rightarrow> RequestAdmission" where
  "purged now a = a\<lparr>ad_claims := retained now (ad_claims a)\<rparr>"

lemma purged_ok: "claims_ok a \<Longrightarrow> claims_ok (purged now a)"
  by (auto simp: claims_ok_def purged_def retained_def distinct_filter_map intro: le_trans [OF length_filter_le])

lemma purged_status:
  assumes "claims_ok a"
  shows "claim_status (purged now a) k = (case map_of (ad_claims a) k of None \<Rightarrow> Free
    | Some seen \<Rightarrow> if now - sn_seen_at seen < SEEN_REQUEST_RETENTION then claim_status a k else Free)"
  using assms by (auto simp: claims_ok_def claim_status_def purged_def retained_def map_of_filter_keys split: option.splits)

lemma take_claim_facts:
  assumes "claims_ok a" "take_claim k h now (ad_claims a) a = (c, a')"
  shows "claims_ok a'" "c = Owner (ad_next a)" "claim_status a' k = Held h False"
    "ad_permits a' = ad_permits a" "ad_poisoned a' = ad_poisoned a" "ad_next a' = ad_next a + 1"
    "ad_channels a' = (ad_channels a)(ad_next a := \<lparr>ch_value = None, ch_sender = True\<rparr>)"
    "map_of (ad_claims a') k = Some \<lparr>sn_seen_at = now, sn_payload_hash = h, sn_channel = ad_next a, sn_attached = False\<rparr>"
    "k' \<noteq> k \<Longrightarrow> map_of (ad_claims a') k' = map_of (make_room k (ad_claims a)) k'"
proof -
  let ?seen = "\<lparr>sn_seen_at = now, sn_payload_hash = h, sn_channel = ad_next a, sn_attached = False\<rparr>"
  let ?rest = "removed k (make_room k (ad_claims a))"
  have a': "a' = a\<lparr>ad_claims := (k, ?seen) # ?rest,
      ad_channels := (ad_channels a)(ad_next a := \<lparr>ch_value = None, ch_sender = True\<rparr>), ad_next := ad_next a + 1\<rparr>"
    and c: "c = Owner (ad_next a)"
    using assms(2) by (auto simp: take_claim_def Let_def)
  have sub: "set ?rest \<subseteq> set (ad_claims a)" using removed_subset make_room_facts(1) by blast
  have len: "Suc (length ?rest) \<le> MAX_SEEN_REQUEST_IDS"
    using make_room_length [of "ad_claims a" k] assms(1) by (simp add: claims_ok_def)
  have d: "distinct (map fst ?rest)" "distinct (map (sn_channel \<circ> snd) ?rest)"
    using assms(1) make_room_facts(2) by (auto simp: claims_ok_def intro!: distinct_removed)
  have n: "\<forall>e \<in> set ?rest. sn_channel (snd e) < ad_next a" using sub assms(1) by (auto simp: claims_ok_def)
  show "claims_ok a'"
    using len d n fst_removed [of k "make_room k (ad_claims a)"] by (auto simp: claims_ok_def a' image_iff)
  show "claim_status a' k = Held h False" by (simp add: claim_status_def status_of_def a')
  show "c = Owner (ad_next a)" "ad_permits a' = ad_permits a" "ad_poisoned a' = ad_poisoned a" "ad_next a' = ad_next a + 1"
    "ad_channels a' = (ad_channels a)(ad_next a := \<lparr>ch_value = None, ch_sender = True\<rparr>)"
    "map_of (ad_claims a') k = Some ?seen"
    "k' \<noteq> k \<Longrightarrow> map_of (ad_claims a') k' = map_of (make_room k (ad_claims a)) k'"
    by (simp_all add: a' c)
qed

lemma claim_cases [consumes 1, case_names poisoned refused attached owner]:
  assumes "claim k h now a = (c, a')"
  obtains (poisoned) "ad_poisoned a" "c = Duplicate" "a' = release a"
  | (refused) seen where "\<not> ad_poisoned a" "map_of (ad_claims (purged now a)) k = Some seen" "c = Duplicate"
      "a' = release (purged now a)"
      "sn_payload_hash seen \<noteq> h \<or> ch_value (ad_channels a (sn_channel seen)) \<noteq> None \<or>
       ch_sender (ad_channels a (sn_channel seen)) \<and> sn_attached seen"
  | (attached) seen where "\<not> ad_poisoned a" "map_of (ad_claims (purged now a)) k = Some seen"
      "c = Attach (sn_channel seen)" "sn_payload_hash seen = h" "ch_value (ad_channels a (sn_channel seen)) = None"
      "ch_sender (ad_channels a (sn_channel seen))" "\<not> sn_attached seen"
      "a' = (purged now a)\<lparr>ad_claims :=
         map (\<lambda>(k', s). (k', if k' = k then s\<lparr>sn_attached := True\<rparr> else s)) (ad_claims (purged now a))\<rparr>"
  | (owner) "\<not> ad_poisoned a" "take_claim k h now (ad_claims (purged now a)) (purged now a) = (c, a')"
      "case map_of (ad_claims (purged now a)) k of None \<Rightarrow> True
       | Some seen \<Rightarrow> sn_payload_hash seen = h \<and> ch_value (ad_channels a (sn_channel seen)) = None \<and>
           \<not> ch_sender (ad_channels a (sn_channel seen))"
proof (cases "ad_poisoned a")
  case True
  with assms show ?thesis by (intro poisoned) (auto simp: claim_def)
next
  case False
  show ?thesis
  proof (cases "map_of (ad_claims (purged now a)) k")
    case None
    with False assms show ?thesis by (intro owner) (auto simp: claim_def purged_def Let_def)
  next
    case (Some seen)
    let ?c = "ad_channels a (sn_channel seen)"
    have r: "map_of (retained now (ad_claims a)) k = Some seen" using Some by (simp add: purged_def)
    consider "sn_payload_hash seen \<noteq> h \<or> ch_value ?c \<noteq> None \<or> ch_sender ?c \<and> sn_attached seen"
      | "sn_payload_hash seen = h" "ch_value ?c = None" "ch_sender ?c" "\<not> sn_attached seen"
      | "sn_payload_hash seen = h" "ch_value ?c = None" "\<not> ch_sender ?c" by blast
    then show ?thesis
    proof cases
      case 1
      with False assms r Some show ?thesis by (intro refused) (auto simp: claim_def Let_def purged_def split: if_splits)
    next
      case 2
      with False assms r Some show ?thesis by (intro attached) (auto simp: claim_def Let_def purged_def)
    next
      case 3
      with False assms r Some show ?thesis by (intro owner) (auto simp: claim_def Let_def purged_def)
    qed
  qed
qed

lemma map_of_attach: "map_of (map (\<lambda>(k', s). (k', if k' = k then f s else s)) xs) k' =
   (if k' = k then map_option f (map_of xs k') else map_of xs k')"
  by (induction xs) auto

lemma attach_claims_ok:
  assumes "claims_ok a"
  shows "claims_ok (a\<lparr>ad_claims := map (\<lambda>(k', s). (k', if k' = k then s\<lparr>sn_attached := True\<rparr> else s)) (ad_claims a)\<rparr>)"
proof -
  let ?f = "\<lambda>(k', s). (k', if k' = k then s\<lparr>sn_attached := True\<rparr> else s)"
  have m: "map fst (map ?f xs) = map fst xs" "map (sn_channel \<circ> snd) (map ?f xs) = map (sn_channel \<circ> snd) xs" for xs
    by (induction xs) auto
  have "\<forall>e \<in> set (map ?f (ad_claims a)). sn_channel (snd e) < ad_next a"
    using assms by (auto simp: claims_ok_def)
  with assms show ?thesis by (simp add: claims_ok_def m del: map_map set_map)
qed

lemma claim_keeps_ok:
  assumes "claims_ok a" "claim k h now a = (c, a')"
  shows "claims_ok a'"
  using assms(2)
proof (cases rule: claim_cases)
  case owner
  then show ?thesis using take_claim_facts(1) [OF purged_ok [OF assms(1)]] by blast
qed (use assms(1) purged_ok [OF assms(1), of now] attach_claims_ok [OF purged_ok [OF assms(1), of now], of k]
  in \<open>auto simp: release_def claims_ok_def\<close>)

text \<open>C14: a claim does what the abstract machine of its request id does: the first delivery of a body
  becomes the owner, one further delivery of the same body waits for the owner, every other delivery is
  refused, a body whose owner vanished unanswered can be claimed again by the same body only, and an
  answered id stays answered. No other id changes, except that entries past the retention time are
  forgotten, and that a new id in a full table displaces the oldest entry.\<close>

theorem claim_refines:
  assumes "claims_ok a" "\<not> ad_poisoned a" "claim k h now a = (c, a')"
  shows "(kind_of c, claim_status a' k) = spec_claim (claim_status (purged now a) k) h \<and>
    (\<forall>k'. k' \<noteq> k \<longrightarrow> claim_status a' k' = claim_status (purged now a) k' \<or>
       claim_status a' k' = Free \<and> claim_status (purged now a) k = Free \<and>
       length (ad_claims (purged now a)) = MAX_SEEN_REQUEST_IDS \<and> oldest (ad_claims (purged now a)) = Some k')"
  using assms(3)
proof (cases rule: claim_cases)
  case poisoned
  with assms(2) show ?thesis by simp
next
  case (refused seen)
  have "claim_status (release (purged now a)) k' = claim_status (purged now a) k'" for k'
    by (auto simp: claim_status_def release_def split: option.splits)
  with refused show ?thesis
    by (auto simp: claim_status_def status_of_def purged_def split: option.splits)
next
  case (attached seen)
  then show ?thesis
    by (auto simp: claim_status_def status_of_def purged_def map_of_attach split: option.splits)
next
  case owner
  let ?p = "purged now a"
  note p = purged_ok [OF assms(1), of now]
  note f = take_claim_facts [OF p owner(2)]
  have s: "claim_status ?p k = Free \<or> claim_status ?p k = Lost h"
    using owner(3) by (auto simp: claim_status_def status_of_def purged_def split: option.splits)
  have o: "claim_status a' k' = claim_status ?p k' \<or>
      claim_status a' k' = Free \<and> claim_status ?p k = Free \<and>
      length (ad_claims ?p) = MAX_SEEN_REQUEST_IDS \<and> oldest (ad_claims ?p) = Some k'" if k': "k' \<noteq> k" for k'
  proof (cases "map_of (make_room k (ad_claims ?p)) k' = map_of (ad_claims ?p) k'")
    case True
    have "sn_channel seen \<noteq> ad_next ?p" if "map_of (ad_claims ?p) k' = Some seen" for seen
      using p that by (auto simp: claims_ok_def dest!: map_of_SomeD)
    then show ?thesis using f(7) f(9) [OF k'] True by (auto simp: claim_status_def split: option.splits)
  next
    case False
    from make_room_facts(4) [OF k' this] f(9) [OF k'] p show ?thesis
      by (auto simp: claim_status_def claims_ok_def)
  qed
  from s f(2,3) o show ?thesis by (auto simp: purged_def)
qed

section \<open>All deliveries together\<close>

datatype agent_lane = CommandLane | AuthenticationLane

datatype phase = Owns nat | Waits nat

record task =
  tk_lane :: agent_lane
  tk_key :: string
  tk_hash :: bytes
  tk_phase :: phase

text \<open>What is logged, newest first: a delivery became the owner of an id (and will raise its one prompt), an
  owner recorded its answer, an owner is gone, a waiter delivered an answer, and an id was forgotten.\<close>

datatype event =
    Owned string nat
  | Recorded string nat RequestOutcome
  | Dropped nat
  | Relayed string nat RequestOutcome
  | Forgot string

record system =
  sy_admission :: RequestAdmission
  sy_tasks :: "task list"
  sy_now :: nat
  sy_log :: "event list"

definition lane_key :: "agent_lane \<Rightarrow> string \<Rightarrow> string" where
  "lane_key lane request_id =
     (case lane of CommandLane \<Rightarrow> request_id | AuthenticationLane \<Rightarrow> auth_dedupe_key request_id)"

definition lane_outcome :: "agent_lane \<Rightarrow> DecisionV1 option \<Rightarrow> AuthDecisionV1 option \<Rightarrow> RequestOutcome" where
  "lane_outcome lane d e =
     (case lane of CommandLane \<Rightarrow> command_outcome d | AuthenticationLane \<Rightarrow> authentication_outcome e)"

text \<open>The ids a claim drops from the table, for their age or to make room.\<close>

definition forgotten :: "nat \<Rightarrow> RequestAdmission \<Rightarrow> RequestAdmission \<Rightarrow> string list" where
  "forgotten now a a' = filter (\<lambda>k. map_of (ad_claims a') k = None \<or>
     \<not> ad_poisoned a \<and> map_of (retained now (ad_claims a)) k = None) (map fst (ad_claims a))"

text \<open>The task a claim leads to: an owner, a waiter, or none.\<close>

definition entered :: "agent_lane \<Rightarrow> string \<Rightarrow> bytes \<Rightarrow> Claim \<Rightarrow> task list \<Rightarrow> task list" where
  "entered lane k h c tasks = (case c of
     Owner n \<Rightarrow> \<lparr>tk_lane = lane, tk_key = k, tk_hash = h, tk_phase = Owns n\<rparr> # tasks
   | Attach n \<Rightarrow> \<lparr>tk_lane = lane, tk_key = k, tk_hash = h, tk_phase = Waits n\<rparr> # tasks
   | Duplicate \<Rightarrow> tasks)"

definition claim_log :: "string \<Rightarrow> Claim \<Rightarrow> string list \<Rightarrow> event list \<Rightarrow> event list" where
  "claim_log k c ks log = (case c of Owner n \<Rightarrow> [Owned k n] | _ \<Rightarrow> []) @ map Forgot ks @ log"

definition enter :: "agent_lane \<Rightarrow> string \<Rightarrow> bytes \<Rightarrow> Claim \<Rightarrow> RequestAdmission \<Rightarrow> task list \<Rightarrow> system \<Rightarrow> system" where
  "enter lane k h c a' tasks s = s\<lparr>sy_admission := a', sy_tasks := entered lane k h c tasks,
     sy_log := claim_log k c (forgotten (sy_now s) (sy_admission s) a') (sy_log s)\<rparr>"

inductive agent_step :: "system \<Rightarrow> system \<Rightarrow> bool" where
  tick: "sy_now s \<le> t \<Longrightarrow> agent_step s (s\<lparr>sy_now := t\<rparr>)"
| poison: "agent_step s (s\<lparr>sy_admission := (sy_admission s)\<lparr>ad_poisoned := True\<rparr>\<rparr>)"
| overload: "reserve (sy_admission s) = None \<Longrightarrow> agent_step s s"
| admit: "reserve (sy_admission s) = Some a \<Longrightarrow> valid_id request_id \<Longrightarrow>
    claim (lane_key lane request_id) h (sy_now s) a = (c, a') \<Longrightarrow>
    agent_step s (enter lane (lane_key lane request_id) h c a' (sy_tasks s) s)"
| decided: "sy_tasks s = xs @ t # ys \<Longrightarrow> tk_phase t = Owns n \<Longrightarrow> outcome = lane_outcome (tk_lane t) d e \<Longrightarrow>
    agent_step s (s\<lparr>sy_admission := drop_lease n (answered n outcome (sy_admission s)), sy_tasks := xs @ ys,
      sy_log := Dropped n # Recorded (tk_key t) n outcome # sy_log s\<rparr>)"
| died: "sy_tasks s = xs @ t # ys \<Longrightarrow> tk_phase t = Owns n \<Longrightarrow>
    agent_step s (s\<lparr>sy_admission := drop_lease n (sy_admission s), sy_tasks := xs @ ys,
      sy_log := Dropped n # sy_log s\<rparr>)"
| relayed: "sy_tasks s = xs @ t # ys \<Longrightarrow> tk_phase t = Waits n \<Longrightarrow>
    wait_relay late (ad_channels (sy_admission s) n) expired = Some (Answer outcome) \<Longrightarrow>
    agent_step s (s\<lparr>sy_admission := release (sy_admission s), sy_tasks := xs @ ys,
      sy_log := Relayed (tk_key t) n outcome # sy_log s\<rparr>)"
| gave_up: "sy_tasks s = xs @ t # ys \<Longrightarrow> tk_phase t = Waits n \<Longrightarrow>
    agent_step s (s\<lparr>sy_admission := release (sy_admission s), sy_tasks := xs @ ys\<rparr>)"
| taken_over: "sy_tasks s = xs @ t # ys \<Longrightarrow> tk_phase t = Waits n \<Longrightarrow>
    wait_relay late (ad_channels (sy_admission s) n) expired = Some Abandoned \<Longrightarrow>
    reclaim (tk_key t) (tk_hash t) (sy_now s) (sy_admission s) = (c, a') \<Longrightarrow>
    agent_step s (enter (tk_lane t) (tk_key t) (tk_hash t) c a' (xs @ ys) s)"

inductive agent_reachable :: "system \<Rightarrow> bool" where
  start: "agent_reachable \<lparr>sy_admission = RequestAdmission_new, sy_tasks = [], sy_now = t, sy_log = []\<rparr>"
| step: "agent_reachable s \<Longrightarrow> agent_step s s' \<Longrightarrow> agent_reachable s'"

text \<open>What the log says of an id since it was last forgotten: the channel of its last owner and the answer
  recorded there.\<close>

fun remembered :: "string \<Rightarrow> event list \<Rightarrow> (nat \<times> RequestOutcome option) option" where
  "remembered k [] = None"
| "remembered k (e # log) = (case e of
     Owned k' n \<Rightarrow> if k' = k then Some (n, None) else remembered k log
   | Recorded k' n outcome \<Rightarrow> map_option (\<lambda>(n', v). if n' = n then (n', Some outcome) else (n', v)) (remembered k log)
   | Forgot k' \<Rightarrow> if k' = k then None else remembered k log
   | Dropped n \<Rightarrow> remembered k log
   | Relayed k' n outcome \<Rightarrow> remembered k log)"

text \<open>An acceptable log: nobody becomes the owner of an id that is remembered as answered, nor while its last
  owner lives; each channel carries at most one answer, recorded for the id it was opened for; and a
  waiter delivers nothing but a recorded answer of its own id.\<close>

fun log_ok :: "event list \<Rightarrow> bool" where
  "log_ok [] = True"
| "log_ok (e # log) = (log_ok log \<and> (case e of
     Owned k n \<Rightarrow> (case remembered k log of None \<Rightarrow> True | Some (n', v) \<Rightarrow> v = None \<and> Dropped n' \<in> set log)
   | Recorded k n outcome \<Rightarrow> Owned k n \<in> set log \<and> (\<forall>k' o'. Recorded k' n o' \<notin> set log)
   | Relayed k n outcome \<Rightarrow> Recorded k n outcome \<in> set log
   | _ \<Rightarrow> True))"

fun owner_channel :: "task \<Rightarrow> nat option" where
  "owner_channel t = (case tk_phase t of Owns n \<Rightarrow> Some n | Waits n \<Rightarrow> None)"

definition owners :: "task list \<Rightarrow> nat list" where
  "owners tasks = List.map_filter owner_channel tasks"

fun task_channel :: "task \<Rightarrow> nat" where
  "task_channel t = (case tk_phase t of Owns n \<Rightarrow> n | Waits n \<Rightarrow> n)"

text \<open>The invariant that ties table, channels, tasks and log together.\<close>

definition channels_ok :: "RequestAdmission \<Rightarrow> task list \<Rightarrow> event list \<Rightarrow> bool" where
  "channels_ok a tasks log \<longleftrightarrow>
     distinct (owners tasks) \<and>
     (\<forall>n. ch_sender (ad_channels a n) \<longleftrightarrow> n \<in> set (owners tasks)) \<and>
     (\<forall>n \<in> set (owners tasks). ch_value (ad_channels a n) = None \<and> n < ad_next a) \<and>
     (\<forall>n < ad_next a. n \<notin> set (owners tasks) \<longrightarrow> Dropped n \<in> set log) \<and>
     (\<forall>t \<in> set tasks. Owned (tk_key t) (task_channel t) \<in> set log) \<and>
     (\<forall>k k' n. Owned k n \<in> set log \<longrightarrow> Owned k' n \<in> set log \<longrightarrow> k = k') \<and>
     (\<forall>k n. Owned k n \<in> set log \<longrightarrow> n < ad_next a) \<and>
     (\<forall>n outcome. ch_value (ad_channels a n) = Some outcome \<longleftrightarrow> (\<exists>k. Recorded k n outcome \<in> set log)) \<and>
     (\<forall>k n outcome. Recorded k n outcome \<in> set log \<longrightarrow> Owned k n \<in> set log)"

definition table_ok :: "RequestAdmission \<Rightarrow> event list \<Rightarrow> bool" where
  "table_ok a log \<longleftrightarrow> (\<forall>k. remembered k log =
     map_option (\<lambda>seen. (sn_channel seen, ch_value (ad_channels a (sn_channel seen)))) (map_of (ad_claims a) k))"

definition tasks_ok :: "task list \<Rightarrow> event list \<Rightarrow> bool" where
  "tasks_ok tasks log \<longleftrightarrow>
     (\<forall>t \<in> set tasks. \<exists>r. valid_id r \<and> tk_key t = lane_key (tk_lane t) r) \<and>
     (\<forall>k n outcome. Recorded k n outcome \<in> set log \<longrightarrow>
        (\<exists>lane r d e. valid_id r \<and> k = lane_key lane r \<and> outcome = lane_outcome lane d e))"

definition system_ok :: "system \<Rightarrow> bool" where
  "system_ok s \<longleftrightarrow> claims_ok (sy_admission s) \<and>
     ad_permits (sy_admission s) + length (sy_tasks s) = MAX_IN_FLIGHT_REQUESTS \<and>
     channels_ok (sy_admission s) (sy_tasks s) (sy_log s) \<and> table_ok (sy_admission s) (sy_log s) \<and>
     tasks_ok (sy_tasks s) (sy_log s) \<and> log_ok (sy_log s)"

lemma owners_simps [simp]:
  "owners [] = []" "owners (xs @ ys) = owners xs @ owners ys"
  "owners (t # ts) = (case tk_phase t of Owns n \<Rightarrow> n # owners ts | Waits n \<Rightarrow> owners ts)"
  by (auto simp: owners_def List.map_filter_def split: phase.splits)

lemma remembered_forgets:
  "remembered k (map Forgot ks @ log) = (if k \<in> set ks then None else remembered k log)"
  by (induction ks) auto

lemma log_ok_forgets [simp]: "log_ok (map Forgot ks @ log) \<longleftrightarrow> log_ok log"
  by (induction ks) auto

lemma remembered_owned: "remembered k log = Some (n, v) \<Longrightarrow> Owned k n \<in> set log"
  by (induction k log arbitrary: n v rule: remembered.induct) (auto split: event.splits if_splits)

lemma in_forgotten:
  "k \<in> set (forgotten now a a') \<longleftrightarrow> map_of (ad_claims a) k \<noteq> None \<and>
     (map_of (ad_claims a') k = None \<or> \<not> ad_poisoned a \<and> map_of (retained now (ad_claims a)) k = None)"
  by (auto simp: forgotten_def map_of_eq_None_iff)

lemma retained_Some: "map_of (retained now xs) k = Some v \<Longrightarrow> distinct (map fst xs) \<Longrightarrow> map_of xs k = Some v"
  by (auto simp: retained_def map_of_filter_keys split: option.splits if_splits)

text \<open>A table that only lost entries agrees with a log that says so.\<close>

lemma table_ok_forgets:
  assumes "table_ok a log" "ad_channels a' = ad_channels a"
    and "\<And>k seen'. map_of (ad_claims a') k = Some seen' \<Longrightarrow> \<exists>seen. map_of (ad_claims a) k = Some seen \<and>
      sn_channel seen = sn_channel seen' \<and> (ad_poisoned a \<or> map_of (retained now (ad_claims a)) k \<noteq> None)"
  shows "table_ok a' (map Forgot (forgotten now a a') @ log)"
  unfolding table_ok_def
proof
  fix k
  have t: "remembered k log = map_option (\<lambda>seen. (sn_channel seen, ch_value (ad_channels a (sn_channel seen)))) (map_of (ad_claims a) k)"
    using assms(1) by (simp add: table_ok_def)
  show "remembered k (map Forgot (forgotten now a a') @ log) =
    map_option (\<lambda>seen. (sn_channel seen, ch_value (ad_channels a' (sn_channel seen)))) (map_of (ad_claims a') k)"
  proof (cases "map_of (ad_claims a') k")
    case None
    then show ?thesis using t by (auto simp: remembered_forgets in_forgotten)
  next
    case (Some seen')
    then show ?thesis using assms(3) [OF Some] t assms(2) by (auto simp: remembered_forgets in_forgotten)
  qed
qed

lemma channels_ok_forgets:
  "channels_ok a tasks log \<Longrightarrow> ad_channels a' = ad_channels a \<Longrightarrow> ad_next a' = ad_next a \<Longrightarrow>
   channels_ok a' tasks (map Forgot ks @ log)"
  unfolding channels_ok_def by (simp add: image_iff)

lemma channels_ok_waiter:
  "channels_ok a tasks log \<Longrightarrow> Owned k n \<in> set log \<Longrightarrow>
   channels_ok a (\<lparr>tk_lane = l, tk_key = k, tk_hash = h, tk_phase = Waits n\<rparr> # tasks) log"
  unfolding channels_ok_def by simp

lemma channels_ok_owner:
  assumes "channels_ok a tasks log" "n = ad_next a"
    and "ad_channels a' = (ad_channels a)(n := \<lparr>ch_value = None, ch_sender = True\<rparr>)" "ad_next a' = n + 1"
  shows "channels_ok a' (\<lparr>tk_lane = l, tk_key = k, tk_hash = h, tk_phase = Owns n\<rparr> # tasks) (Owned k n # map Forgot ks @ log)"
proof -
  have "n \<notin> set (owners tasks)" "\<And>k. Owned k n \<notin> set log" "\<And>k outcome. Recorded k n outcome \<notin> set log"
    using assms(1,2) unfolding channels_ok_def by blast+
  then show ?thesis
    using assms unfolding channels_ok_def by (auto simp: less_Suc_eq image_iff; blast)
qed

text \<open>A new owner: every other entry was there before and keeps its channel, the table agrees with the log,
  and the log allows it.\<close>

lemma take_claim_old:
  assumes "claims_ok a" "take_claim k h now (ad_claims (purged now a)) (purged now a) = (c, a')"
    and "k' \<noteq> k" "map_of (ad_claims a') k' = Some seen"
  shows "map_of (ad_claims a) k' = Some seen" "map_of (retained now (ad_claims a)) k' \<noteq> None" "sn_channel seen < ad_next a"
proof -
  have d: "distinct (map fst (ad_claims a))" using assms(1) by (simp add: claims_ok_def)
  note T = take_claim_facts [OF purged_ok [OF assms(1)] assms(2)]
  have "map_of (make_room k (retained now (ad_claims a))) k' = Some seen"
    using T(9) [OF assms(3)] assms(4) by (simp add: purged_def)
  then have r: "map_of (retained now (ad_claims a)) k' = Some seen"
    using make_room_facts(4) [OF assms(3), of "retained now (ad_claims a)"] by fastforce
  then show "map_of (retained now (ad_claims a)) k' \<noteq> None" by simp
  show m: "map_of (ad_claims a) k' = Some seen" by (rule retained_Some [OF r d])
  show "sn_channel seen < ad_next a" using assms(1) map_of_SomeD [OF m] by (auto simp: claims_ok_def)
qed

lemma take_claim_table:
  assumes "claims_ok a" "table_ok a log" "\<not> ad_poisoned a"
    and "take_claim k h now (ad_claims (purged now a)) (purged now a) = (c, a')"
  shows "table_ok a' (Owned k (ad_next a) # map Forgot (forgotten now a a') @ log)"
  unfolding table_ok_def
proof
  fix k'
  let ?v = "\<lambda>a seen. (sn_channel seen, ch_value (ad_channels a (sn_channel seen)))"
  note T = take_claim_facts [OF purged_ok [OF assms(1)] assms(4)]
  have n: "ad_next (purged now a) = ad_next a" "ad_channels (purged now a) = ad_channels a" by (simp_all add: purged_def)
  have t: "remembered k' log = map_option (?v a) (map_of (ad_claims a) k')" using assms(2) by (simp add: table_ok_def)
  show "remembered k' (Owned k (ad_next a) # map Forgot (forgotten now a a') @ log) = map_option (?v a') (map_of (ad_claims a') k')"
  proof (cases "k' = k")
    case True
    then show ?thesis using T(7,8) by (simp add: n)
  next
    case False
    show ?thesis
    proof (cases "map_of (ad_claims a') k'")
      case None
      then show ?thesis using t False by (auto simp: remembered_forgets in_forgotten)
    next
      case (Some seen)
      note o = take_claim_old [OF assms(1,4) False Some]
      have "ad_channels a' (sn_channel seen) = ad_channels a (sn_channel seen)" using o(3) by (simp add: T(7) n)
      then show ?thesis using o(1,2) t False Some by (simp add: remembered_forgets in_forgotten)
    qed
  qed
qed

lemma take_claim_log:
  assumes "claims_ok a" "channels_ok a tasks log" "table_ok a log" "log_ok log" "\<not> ad_poisoned a"
    and "take_claim k h now (ad_claims (purged now a)) (purged now a) = (c, a')"
    and "case map_of (ad_claims (purged now a)) k of None \<Rightarrow> True
       | Some seen \<Rightarrow> sn_payload_hash seen = h \<and> ch_value (ad_channels a (sn_channel seen)) = None \<and>
           \<not> ch_sender (ad_channels a (sn_channel seen))"
  shows "log_ok (Owned k (ad_next a) # map Forgot (forgotten now a a') @ log)"
proof (cases "remembered k (map Forgot (forgotten now a a') @ log)")
  case None
  then show ?thesis using assms(4) by simp
next
  case (Some r)
  have d: "distinct (map fst (ad_claims a))" using assms(1) by (simp add: claims_ok_def)
  note T = take_claim_facts [OF purged_ok [OF assms(1)] assms(6)]
  from Some have "k \<notin> set (forgotten now a a')" and r: "remembered k log = Some r"
    by (auto simp: remembered_forgets split: if_splits)
  with T(8) assms(5) have "map_of (ad_claims a) k = None \<or> map_of (retained now (ad_claims a)) k \<noteq> None"
    by (auto simp: in_forgotten)
  with r assms(3) obtain seen where s: "map_of (retained now (ad_claims a)) k = Some seen"
    unfolding table_ok_def by fastforce
  note s' = retained_Some [OF s d]
  have v: "ch_value (ad_channels a (sn_channel seen)) = None" "\<not> ch_sender (ad_channels a (sn_channel seen))"
    using assms(7) s by (simp_all add: purged_def)
  have "r = (sn_channel seen, None)" using r s' v assms(3) by (simp add: table_ok_def)
  moreover have "sn_channel seen < ad_next a" using assms(1) map_of_SomeD [OF s'] by (auto simp: claims_ok_def)
  then have "Dropped (sn_channel seen) \<in> set log"
    using assms(2) v(2) unfolding channels_ok_def by blast
  ultimately show ?thesis using Some assms(4) by simp
qed

text \<open>One claim keeps the invariant, whoever makes it.\<close>

lemma claim_step:
  assumes "claims_ok a" "channels_ok a tasks log" "table_ok a log" "log_ok log"
    and "claim k h now a = (c, a')" "a0 = a\<lparr>ad_permits := p\<rparr>"
    and "tasks' = entered l k h c tasks" "log' = claim_log k c (forgotten now a0 a') log"
  shows "channels_ok a' tasks' log' \<and> table_ok a' log' \<and> log_ok log' \<and>
    ad_permits a' + length tasks' = ad_permits a + length tasks + 1"
proof -
  have f: "forgotten now a0 b = forgotten now a b" for b by (simp add: forgotten_def assms(6))
  have d: "distinct (map fst (ad_claims a))" using assms(1) by (simp add: claims_ok_def)
  note keep = channels_ok_forgets [OF assms(2)] table_ok_forgets [OF assms(3)]
  show ?thesis
    using assms(5)
  proof (cases rule: claim_cases)
    case poisoned
    have "table_ok a' (map Forgot (forgotten now a a') @ log)"
      by (rule keep(2)) (auto simp: poisoned release_def)
    with poisoned keep(1) [of a'] assms(4) show ?thesis by (simp add: assms(7,8) entered_def claim_log_def f release_def)
  next
    case (refused seen)
    have "table_ok a' (map Forgot (forgotten now a a') @ log)"
    proof (rule keep(2))
      fix k' seen' assume "map_of (ad_claims a') k' = Some seen'"
      then have r: "map_of (retained now (ad_claims a)) k' = Some seen'" by (simp add: refused release_def purged_def)
      then show "\<exists>seen. map_of (ad_claims a) k' = Some seen \<and> sn_channel seen = sn_channel seen' \<and>
          (ad_poisoned a \<or> map_of (retained now (ad_claims a)) k' \<noteq> None)"
        using retained_Some [OF r d] by blast
    qed (simp add: refused release_def purged_def)
    with refused keep(1) [of a'] assms(4) show ?thesis by (simp add: assms(7,8) entered_def claim_log_def f release_def purged_def)
  next
    case (attached seen)
    have r: "map_of (retained now (ad_claims a)) k = Some seen" using attached(2) by (simp add: purged_def)
    have t: "table_ok a' (map Forgot (forgotten now a a') @ log)"
    proof (rule keep(2))
      fix k' seen' assume "map_of (ad_claims a') k' = Some seen'"
      then obtain z where z: "map_of (retained now (ad_claims a)) k' = Some z" "sn_channel z = sn_channel seen'"
        by (auto simp: attached(8) purged_def map_of_attach split: if_splits)
      then show "\<exists>seen. map_of (ad_claims a) k' = Some seen \<and> sn_channel seen = sn_channel seen' \<and>
          (ad_poisoned a \<or> map_of (retained now (ad_claims a)) k' \<noteq> None)"
        using retained_Some [OF z(1) d] by blast
    qed (simp add: attached purged_def)
    have "map_of (ad_claims a) k = Some seen" using retained_Some [OF r d] .
    then have "Owned k (sn_channel seen) \<in> set log"
      using assms(3) unfolding table_ok_def by (intro remembered_owned) simp
    then have "channels_ok a' tasks' log'"
      using channels_ok_waiter [OF keep(1) [of a' "forgotten now a a'"], of k "sn_channel seen" l h] attached
      by (simp add: assms(7,8) entered_def claim_log_def f purged_def)
    with t attached assms(4) show ?thesis by (simp add: assms(7,8) entered_def claim_log_def f purged_def)
  next
    case owner
    note T = take_claim_facts [OF purged_ok [OF assms(1)] owner(2)]
    have n: "ad_next (purged now a) = ad_next a" "ad_channels (purged now a) = ad_channels a"
      "ad_permits (purged now a) = ad_permits a" by (simp_all add: purged_def)
    have "channels_ok a' tasks' log'"
      using channels_ok_owner [OF assms(2) refl, of a' l k h "forgotten now a a'"] T(2,6,7)
      by (simp add: assms(7,8) entered_def claim_log_def f n)
    with take_claim_table [OF assms(1,3) owner(1,2)] take_claim_log [OF assms(1-4) owner] T(2,4)
    show ?thesis by (simp add: assms(7,8) entered_def claim_log_def f n)
  qed
qed

lemma tasks_ok_enter:
  assumes "tasks_ok tasks log" "valid_id r"
  shows "tasks_ok (entered l (lane_key l r) h c tasks) (claim_log (lane_key l r) c ks log)"
  using assms unfolding tasks_ok_def by (cases c) (auto simp: image_iff entered_def claim_log_def)

lemma tasks_ok_subset:
  "tasks_ok (xs @ t # ys) log \<Longrightarrow> tasks_ok (xs @ ys) log"
  by (simp add: tasks_ok_def)

lemma channels_ok_cong:
  "channels_ok a tasks log \<Longrightarrow> ad_channels a' = ad_channels a \<Longrightarrow> ad_next a' = ad_next a \<Longrightarrow> channels_ok a' tasks log"
  by (simp add: channels_ok_def)

lemma table_ok_cong:
  "table_ok a log \<Longrightarrow> ad_channels a' = ad_channels a \<Longrightarrow> ad_claims a' = ad_claims a \<Longrightarrow> table_ok a' log"
  by (simp add: table_ok_def)

lemma claims_ok_cong: "claims_ok a \<Longrightarrow> ad_claims a' = ad_claims a \<Longrightarrow> ad_next a' = ad_next a \<Longrightarrow> claims_ok a'"
  by (simp add: claims_ok_def)

lemma release_ok [simp]:
  "channels_ok (release a) tasks log = channels_ok a tasks log" "table_ok (release a) log = table_ok a log"
  by (simp_all add: channels_ok_def table_ok_def release_def)

lemma channels_ok_leave:
  assumes "channels_ok a (xs @ t # ys) log" "tk_phase t = Waits n"
  shows "channels_ok a (xs @ ys) log"
  using assms by (auto simp: channels_ok_def)

lemma channel_update [simp]: "(c :: channel)\<lparr>ch_value := v, ch_sender := b\<rparr> = \<lparr>ch_value = v, ch_sender = b\<rparr>"
  by (cases c) simp

lemma relayed_ok [simp]:
  "channels_ok a tasks (Relayed k n v # log) = channels_ok a tasks log" "table_ok a (Relayed k n v # log) = table_ok a log"
  "tasks_ok tasks (Relayed k n v # log) = tasks_ok tasks log"
  by (simp_all add: channels_ok_def table_ok_def tasks_ok_def)

lemma table_ok_record:
  assumes "table_ok a log" "ad_channels a' = (ad_channels a)(n := \<lparr>ch_value = Some v, ch_sender = b\<rparr>)" "ad_claims a' = ad_claims a"
  shows "table_ok a' (Dropped n # Recorded k n v # log)"
  unfolding table_ok_def
proof
  fix k'
  show "remembered k' (Dropped n # Recorded k n v # log) =
    map_option (\<lambda>seen. (sn_channel seen, ch_value (ad_channels a' (sn_channel seen)))) (map_of (ad_claims a') k')"
    using assms by (cases "map_of (ad_claims a) k'") (simp_all add: table_ok_def)
qed

lemma channels_ok_recorded:
  assumes "channels_ok a tasks log" "t \<in> set tasks" "task_channel t = n" "ch_value (ad_channels a n) = Some outcome"
  shows "Recorded (tk_key t) n outcome \<in> set log"
proof -
  from assms(1,4) obtain k where k: "Recorded k n outcome \<in> set log" unfolding channels_ok_def by blast
  then have "Owned k n \<in> set log" using assms(1) unfolding channels_ok_def by blast
  moreover have "Owned (tk_key t) n \<in> set log" using assms(1-3) unfolding channels_ok_def by blast
  ultimately have "k = tk_key t" using assms(1) unfolding channels_ok_def by blast
  with k show ?thesis by simp
qed

lemma channels_ok_unrecorded:
  assumes "channels_ok a (xs @ t # ys) log" "tk_phase t = Owns n"
  shows "Owned (tk_key t) n \<in> set log" "ch_value (ad_channels a n) = None" "Recorded k n outcome \<notin> set log"
proof -
  show "Owned (tk_key t) n \<in> set log" and o: "ch_value (ad_channels a n) = None"
    using assms by (auto simp: channels_ok_def)
  moreover have "ch_value (ad_channels a n) = Some outcome \<longleftrightarrow> (\<exists>k. Recorded k n outcome \<in> set log)"
    using assms(1) by (simp add: channels_ok_def)
  ultimately show "Recorded k n outcome \<notin> set log" by auto
qed

lemma channels_ok_drop:
  assumes "channels_ok a (xs @ t # ys) log" "tk_phase t = Owns n"
    and "ad_channels a' = (ad_channels a)(n := \<lparr>ch_value = v, ch_sender = False\<rparr>)" "ad_next a' = ad_next a"
    and "es = (case v of None \<Rightarrow> [] | Some outcome \<Rightarrow> [Recorded (tk_key t) n outcome])"
  shows "channels_ok a' (xs @ ys) (Dropped n # es @ log)"
proof -
  note o = channels_ok_unrecorded [OF assms(1,2)]
  with assms show ?thesis
    by (cases v) (auto simp: channels_ok_def)
qed

lemma enter_keeps:
  assumes "claims_ok a" "channels_ok a tasks (sy_log s)" "table_ok a (sy_log s)" "log_ok (sy_log s)" "tasks_ok tasks (sy_log s)"
    and "claim k h (sy_now s) a = (c, a')" "sy_admission s = a\<lparr>ad_permits := p\<rparr>" "valid_id r" "k = lane_key l r"
    and "ad_permits a + length tasks + 1 = MAX_IN_FLIGHT_REQUESTS"
  shows "system_ok (enter l k h c a' tasks s)"
  using claim_step [OF assms(1-4,6,7) refl refl, of l] claim_keeps_ok [OF assms(1,6)]
    tasks_ok_enter [OF assms(5,8), of l h c] assms(9,10)
  by (simp add: system_ok_def enter_def)

text \<open>A task that leaves the system after its event \<open>es\<close>.\<close>

lemma leave_keeps:
  assumes "system_ok s" "sy_tasks s = xs @ t # ys"
    and "channels_ok a' (xs @ ys) (es @ sy_log s)" "table_ok a' (es @ sy_log s)" "log_ok (es @ sy_log s)"
    and "tasks_ok (xs @ ys) (es @ sy_log s)"
    and "ad_permits a' = ad_permits (sy_admission s) + 1" "ad_claims a' = ad_claims (sy_admission s)" "ad_next a' = ad_next (sy_admission s)"
  shows "system_ok (s\<lparr>sy_admission := a', sy_tasks := xs @ ys, sy_log := es @ sy_log s\<rparr>)"
  using assms claims_ok_cong [of "sy_admission s" a'] by (simp add: system_ok_def)

lemma agent_step_keeps:
  assumes "agent_step s s'" "system_ok s"
  shows "system_ok s'"
  using assms(1)
proof (cases rule: agent_step.cases)
  case (tick t)
  with assms(2) show ?thesis by (simp add: system_ok_def)
next
  case poison
  with assms(2) show ?thesis
    by (auto simp: system_ok_def intro: channels_ok_cong table_ok_cong claims_ok_cong)
next
  case overload
  with assms(2) show ?thesis by simp
next
  case (admit a r l h c a')
  have a: "a = (sy_admission s)\<lparr>ad_permits := ad_permits (sy_admission s) - 1\<rparr>" "ad_permits (sy_admission s) \<noteq> 0"
    using admit(2) by (auto simp: reserve_def split: if_splits)
  have o: "claims_ok a" "channels_ok a (sy_tasks s) (sy_log s)" "table_ok a (sy_log s)" "log_ok (sy_log s)"
    "tasks_ok (sy_tasks s) (sy_log s)" "ad_permits a + length (sy_tasks s) + 1 = MAX_IN_FLIGHT_REQUESTS"
    using assms(2) a(2) unfolding system_ok_def a(1) by (auto intro: channels_ok_cong table_ok_cong claims_ok_cong)
  have "sy_admission s = a\<lparr>ad_permits := ad_permits (sy_admission s)\<rparr>" by (simp add: a)
  from enter_keeps [OF o(1-5) admit(4) this admit(3) refl o(6)] show ?thesis by (simp add: admit(1))
next
  case (taken_over xs t ys n late expired c a')
  have o: "claims_ok (sy_admission s)" "channels_ok (sy_admission s) (xs @ ys) (sy_log s)" "table_ok (sy_admission s) (sy_log s)"
    "log_ok (sy_log s)" "tasks_ok (xs @ ys) (sy_log s)" "ad_permits (sy_admission s) + length (xs @ ys) + 1 = MAX_IN_FLIGHT_REQUESTS"
    using assms(2) channels_ok_leave [OF _ taken_over(3)] tasks_ok_subset unfolding system_ok_def taken_over(2) by auto
  obtain r where r: "valid_id r" "tk_key t = lane_key (tk_lane t) r"
    using assms(2) by (auto simp: system_ok_def tasks_ok_def taken_over(2))
  have c: "claim (tk_key t) (tk_hash t) (sy_now s) (sy_admission s) = (c, a')" using taken_over(5) by (simp add: reclaim_def)
  have e: "sy_admission s = (sy_admission s)\<lparr>ad_permits := ad_permits (sy_admission s)\<rparr>" by simp
  from enter_keeps [OF o(1-5) c e r o(6)] show ?thesis by (simp add: taken_over(1))
next
  case (gave_up xs t ys n)
  have "channels_ok (release (sy_admission s)) (xs @ ys) ([] @ sy_log s)" "table_ok (release (sy_admission s)) ([] @ sy_log s)"
    "tasks_ok (xs @ ys) ([] @ sy_log s)" "log_ok ([] @ sy_log s)"
    using assms(2) channels_ok_leave [OF _ gave_up(3)] tasks_ok_subset
    unfolding system_ok_def gave_up(2) by auto
  from leave_keeps [OF assms(2) gave_up(2) this(1,2,4,3)] show ?thesis by (simp add: gave_up(1) release_def)
next
  case (relayed xs t ys n late expired outcome)
  have "ch_value (ad_channels (sy_admission s) n) = Some outcome"
    using relayed(4) by (auto simp: wait_relay_def split: option.splits if_splits)
  then have "Recorded (tk_key t) n outcome \<in> set (sy_log s)"
    using assms(2) relayed(2,3) by (intro channels_ok_recorded [of "sy_admission s" "sy_tasks s"]) (simp_all add: system_ok_def)
  then have "channels_ok (release (sy_admission s)) (xs @ ys) ([Relayed (tk_key t) n outcome] @ sy_log s)"
    "table_ok (release (sy_admission s)) ([Relayed (tk_key t) n outcome] @ sy_log s)"
    "tasks_ok (xs @ ys) ([Relayed (tk_key t) n outcome] @ sy_log s)" "log_ok ([Relayed (tk_key t) n outcome] @ sy_log s)"
    using assms(2) channels_ok_leave [OF _ relayed(3)] tasks_ok_subset [of xs t ys "sy_log s"]
    unfolding system_ok_def relayed(2) by simp_all
  from leave_keeps [OF assms(2) relayed(2) this(1,2,4,3)] show ?thesis by (simp add: relayed(1) release_def)
next
  case (died xs t ys n)
  have "ad_channels (drop_lease n (sy_admission s)) = (ad_channels (sy_admission s))(n := \<lparr>ch_value = None, ch_sender = False\<rparr>)"
    using assms(2) died(2,3) by (auto simp: system_ok_def channels_ok_def drop_lease_def release_def)
  then have c: "channels_ok (drop_lease n (sy_admission s)) (xs @ ys) (Dropped n # [] @ sy_log s)"
    using assms(2) died(2) unfolding system_ok_def
    by (intro channels_ok_drop [where v = None, OF _ died(3)]) (auto simp: drop_lease_def release_def)
  have "table_ok (drop_lease n (sy_admission s)) ([Dropped n] @ sy_log s)"
    using assms(2) by (auto simp: system_ok_def table_ok_def drop_lease_def release_def intro!: map_option_cong)
  moreover have "tasks_ok (xs @ ys) ([Dropped n] @ sy_log s)" "log_ok ([Dropped n] @ sy_log s)"
    using assms(2) by (auto simp: system_ok_def tasks_ok_def died(2))
  ultimately show ?thesis
    using leave_keeps [OF assms(2) died(2), of "drop_lease n (sy_admission s)" "[Dropped n]"] c
    by (simp add: died(1) drop_lease_def release_def)
next
  case (decided xs t ys n outcome d e)
  let ?a = "drop_lease n (answered n outcome (sy_admission s))"
  let ?es = "[Dropped n, Recorded (tk_key t) n outcome]"
  have ch: "ad_channels ?a = (ad_channels (sy_admission s))(n := \<lparr>ch_value = Some outcome, ch_sender = False\<rparr>)"
    by (simp add: drop_lease_def release_def answered_def)
  then have "channels_ok ?a (xs @ ys) (Dropped n # [Recorded (tk_key t) n outcome] @ sy_log s)"
    using assms(2) decided(2) unfolding system_ok_def
    by (intro channels_ok_drop [where v = "Some outcome", OF _ decided(3)]) (auto simp: drop_lease_def release_def answered_def)
  moreover have "table_ok ?a (?es @ sy_log s)"
    using table_ok_record [OF _ ch] assms(2) by (simp add: system_ok_def drop_lease_def release_def answered_def)
  moreover have "tasks_ok (xs @ ys) (?es @ sy_log s)"
    using assms(2) decided(4) by (fastforce simp: system_ok_def tasks_ok_def decided(2))
  moreover have "log_ok (?es @ sy_log s)"
    using channels_ok_unrecorded [OF _ decided(3)] assms(2) by (auto simp: system_ok_def decided(2))
  ultimately show ?thesis
    using leave_keeps [OF assms(2) decided(2), of ?a ?es]
    by (simp add: decided(1) drop_lease_def release_def answered_def)
qed

lemma agent_reachable_ok: "agent_reachable s \<Longrightarrow> system_ok s"
proof (induction rule: agent_reachable.induct)
  case (start t)
  show ?case
    by (simp add: system_ok_def claims_ok_def channels_ok_def table_ok_def tasks_ok_def RequestAdmission_new_def)
next
  case (step s s')
  then show ?case by (blast intro: agent_step_keeps)
qed

lemma log_ok_suffix: "log_ok (later @ earlier) \<Longrightarrow> log_ok earlier"
  by (induction later) auto

text \<open>C10: one prompt and one answer per request, for every interleaving of deliveries over both transports,
  owners and waiters: a delivery becomes the owner of a request id only if the table knows nothing of
  the id, or knows that its last owner is gone and never answered; an owner records at most one answer
  on its channel; and a waiting delivery hands on exactly the answer its own request's owner recorded.\<close>

theorem one_answer_per_request:
  assumes "agent_reachable s" "sy_log s = later @ e # earlier"
  shows "case e of
      Owned k n \<Rightarrow> (case remembered k earlier of
          None \<Rightarrow> True | Some (n', answer) \<Rightarrow> answer = None \<and> Dropped n' \<in> set earlier)
    | Recorded k n outcome \<Rightarrow> Owned k n \<in> set earlier \<and> (\<forall>k' o'. Recorded k' n o' \<notin> set earlier)
    | Relayed k n outcome \<Rightarrow> Recorded k n outcome \<in> set earlier
    | Dropped n \<Rightarrow> True
    | Forgot k \<Rightarrow> True"
  using log_ok_suffix [of later "e # earlier"] agent_reachable_ok [OF assms(1)] assms(2)
  by (auto simp: system_ok_def split: event.splits)

text \<open>work and memory of the agent are bounded: owners and waiters together never exceed the eight
  permits, each holds exactly one of them, the table holds at most 1024 ids, each once, and no two ids
  share a channel.\<close>

theorem admission_bounded:
  assumes "agent_reachable s"
  shows "ad_permits (sy_admission s) + length (sy_tasks s) = MAX_IN_FLIGHT_REQUESTS \<and>
    length (sy_tasks s) \<le> 8 \<and> length (ad_claims (sy_admission s)) \<le> 1024 \<and>
    distinct (map fst (ad_claims (sy_admission s))) \<and> distinct (map (sn_channel \<circ> snd) (ad_claims (sy_admission s)))"
  using agent_reachable_ok [OF assms]
  by (auto simp: system_ok_def claims_ok_def MAX_IN_FLIGHT_REQUESTS_def MAX_SEEN_REQUEST_IDS_def)

lemma auth_key_not_id: "\<not> valid_id (auth_dedupe_key r)"
  by (simp add: valid_id_def auth_dedupe_key_def is_ascii_alphanumeric_def Let_def)

lemma lane_of_key:
  "valid_id r \<Longrightarrow> lane_key lane r = lane_key lane' r' \<Longrightarrow> valid_id r' \<Longrightarrow> lane = lane' \<and> r = r'"
  using auth_key_not_id [of r] auth_key_not_id [of r'] unfolding lane_key_def
  by (auto simp: auth_dedupe_key_def split: agent_lane.splits)

text \<open>answers stay in their lane. An answer handed on for a command request is a command decision or
  nothing, one handed on for an authentication request is an authentication or nothing; the two lanes
  never share a claim, whatever ids their requests carry.\<close>

theorem answers_stay_in_lane:
  assumes "agent_reachable s" "Relayed k n outcome \<in> set (sy_log s)" "valid_id request_id"
  shows "(k = request_id \<longrightarrow> authentication_answer outcome = None) \<and>
    (k = auth_dedupe_key request_id \<longrightarrow> command_answer outcome = None) \<and>
    lane_key CommandLane request_id \<noteq> lane_key AuthenticationLane r'"
proof -
  obtain later earlier where "sy_log s = later @ Relayed k n outcome # earlier"
    using assms(2) by (auto simp: in_set_conv_decomp)
  with log_ok_suffix [of later "Relayed k n outcome # earlier"] agent_reachable_ok [OF assms(1)]
  have "Recorded k n outcome \<in> set (sy_log s)" by (auto simp: system_ok_def)
  then obtain lane r d e where r: "valid_id r" "k = lane_key lane r" "outcome = lane_outcome lane d e"
    using agent_reachable_ok [OF assms(1)] unfolding system_ok_def tasks_ok_def by blast
  have l: "k = lane_key lane' request_id \<Longrightarrow> lane = lane'" for lane'
    using lane_of_key [OF r(1) _ assms(3), of lane lane'] r(2) by simp
  have "authentication_answer outcome = None" if "k = request_id"
    using l [of CommandLane] that r(3) by (simp add: lane_key_def lane_outcome_def command_outcome_def split: option.splits)
  moreover have "command_answer outcome = None" if "k = auth_dedupe_key request_id"
    using l [of AuthenticationLane] that r(3)
    by (simp add: lane_key_def lane_outcome_def authentication_outcome_def split: option.splits)
  moreover have "lane_key CommandLane request_id \<noteq> lane_key AuthenticationLane r'"
    using auth_key_not_id [of r'] assms(3) by (auto simp: lane_key_def)
  ultimately show ?thesis by blast
qed

section \<open>A sample run\<close>

text \<open>A command arrives over the socket, a second delivery of the same body attaches, the owner answers, the
  waiter hands the answer on.\<close>

definition sample_system :: system where
  "sample_system = \<lparr>sy_admission = RequestAdmission_new, sy_tasks = [], sy_now = 5, sy_log = []\<rparr>"

definition sample_claims :: "bool \<Rightarrow> (string \<times> SeenRequest) list" where
  "sample_claims b = [(''r1'', \<lparr>sn_seen_at = 5, sn_payload_hash = [1], sn_channel = 0, sn_attached = b\<rparr>)]"

definition sample_admitted :: "nat \<Rightarrow> bool \<Rightarrow> channel \<Rightarrow> RequestAdmission" where
  "sample_admitted p b c = \<lparr>ad_permits = p, ad_poisoned = False, ad_claims = sample_claims b,
     ad_channels = (\<lambda>_. \<lparr>ch_value = None, ch_sender = False\<rparr>)(0 := c), ad_next = 1\<rparr>"

definition sample_task :: "phase \<Rightarrow> task" where
  "sample_task p = \<lparr>tk_lane = CommandLane, tk_key = ''r1'', tk_hash = [1], tk_phase = p\<rparr>"

lemma retention: "SEEN_REQUEST_RETENTION = 120000"
  by (simp add: SEEN_REQUEST_RETENTION_def wire_limits)

lemma sample_first_claim:
  "claim ''r1'' [1] 5 (RequestAdmission_new\<lparr>ad_permits := 7\<rparr>)
   = (Owner 0, sample_admitted 7 False \<lparr>ch_value = None, ch_sender = True\<rparr>)"
  by (simp add: claim_def RequestAdmission_new_def retained_def take_claim_def Let_def make_room_def removed_def
      MAX_SEEN_REQUEST_IDS_def sample_admitted_def sample_claims_def)

lemma sample_second_claim:
  "claim ''r1'' [1] 5 (sample_admitted 6 False \<lparr>ch_value = None, ch_sender = True\<rparr>)
   = (Attach 0, sample_admitted 6 True \<lparr>ch_value = None, ch_sender = True\<rparr>)"
  by (simp add: claim_def retained_def retention Let_def sample_admitted_def sample_claims_def)

lemma sample_run_reachable:
  "agent_reachable \<lparr>sy_admission = release (drop_lease 0 (answered 0 Unanswered
       (sample_admitted 6 True \<lparr>ch_value = None, ch_sender = True\<rparr>))),
     sy_tasks = [], sy_now = 5, sy_log = [Relayed ''r1'' 0 Unanswered, Dropped 0, Recorded ''r1'' 0 Unanswered, Owned ''r1'' 0]\<rparr>"
proof -
  let ?open = "\<lparr>ch_value = None, ch_sender = True\<rparr>"
  let ?s1 = "\<lparr>sy_admission = sample_admitted 7 False ?open, sy_tasks = [sample_task (Owns 0)], sy_now = 5, sy_log = [Owned ''r1'' 0]\<rparr>"
  let ?s2 = "\<lparr>sy_admission = sample_admitted 6 True ?open, sy_tasks = [sample_task (Waits 0), sample_task (Owns 0)],
    sy_now = 5, sy_log = [Owned ''r1'' 0]\<rparr>"
  let ?a3 = "drop_lease 0 (answered 0 Unanswered (sample_admitted 6 True ?open))"
  let ?s3 = "\<lparr>sy_admission = ?a3, sy_tasks = [sample_task (Waits 0)], sy_now = 5,
    sy_log = [Dropped 0, Recorded ''r1'' 0 Unanswered, Owned ''r1'' 0]\<rparr>"
  have "agent_reachable sample_system" unfolding sample_system_def by (rule agent_reachable.start)
  moreover have "agent_step sample_system ?s1"
    using agent_step.admit [of sample_system "RequestAdmission_new\<lparr>ad_permits := 7\<rparr>" "''r1''" CommandLane "[1]" "Owner 0"
        "sample_admitted 7 False ?open"]
    by (simp add: sample_system_def reserve_def lane_key_def sample_first_claim enter_def entered_def claim_log_def
        forgotten_def sample_task_def RequestAdmission_new_def MAX_IN_FLIGHT_REQUESTS_def
        sample_first_claim [unfolded RequestAdmission_new_def MAX_IN_FLIGHT_REQUESTS_def, simplified])
  moreover have "agent_step ?s1 ?s2"
    using agent_step.admit [of ?s1 "sample_admitted 6 False ?open" "''r1''" CommandLane "[1]" "Attach 0" "sample_admitted 6 True ?open"]
    by (simp add: reserve_def lane_key_def sample_second_claim enter_def entered_def claim_log_def sample_task_def)
      (simp add: forgotten_def sample_admitted_def sample_claims_def retained_def retention)
  moreover have "agent_step ?s2 ?s3"
    using agent_step.decided [of ?s2 "[sample_task (Waits 0)]" "sample_task (Owns 0)" "[]" 0 Unanswered None None]
    by (simp add: sample_task_def lane_outcome_def command_outcome_def)
  moreover have "wait_relay False (ad_channels ?a3 0) False = Some (Answer Unanswered)"
    by (simp add: wait_relay_def drop_lease_def release_def answered_def)
  then have "agent_step ?s3 \<lparr>sy_admission = release ?a3, sy_tasks = [], sy_now = 5,
      sy_log = [Relayed ''r1'' 0 Unanswered, Dropped 0, Recorded ''r1'' 0 Unanswered, Owned ''r1'' 0]\<rparr>"
    using agent_step.relayed [of ?s3 "[]" "sample_task (Waits 0)" "[]" 0 False False Unanswered]
    by (simp add: sample_task_def)
  ultimately show ?thesis by (blast intro: agent_reachable.step)
qed

theorem claim_refines_witness:
  "kind_of (fst (claim ''r1'' [2] 5 (sample_admitted 6 False \<lparr>ch_value = None, ch_sender = True\<rparr>))) = Refused"
proof -
  let ?a = "sample_admitted 6 False \<lparr>ch_value = None, ch_sender = True\<rparr>"
  obtain c a' where c: "claim ''r1'' [2] 5 ?a = (c, a')" by fastforce
  have "claims_ok ?a" "\<not> ad_poisoned ?a"
    by (simp_all add: claims_ok_def sample_admitted_def sample_claims_def MAX_SEEN_REQUEST_IDS_def)
  from claim_refines [OF this c]
  have "(kind_of c, claim_status a' ''r1'') = spec_claim (claim_status (purged 5 ?a) ''r1'') [2]" by blast
  moreover have "claim_status (purged 5 ?a) ''r1'' = Held [1] False"
    by (simp add: claim_status_def purged_def sample_admitted_def sample_claims_def retained_def retention status_of_def)
  ultimately show ?thesis using c by simp
qed

theorem one_answer_per_request_witness:
  "Recorded ''r1'' 0 Unanswered \<in> set [Dropped 0, Recorded ''r1'' 0 Unanswered, Owned ''r1'' 0]"
  using one_answer_per_request [OF sample_run_reachable, of "[]" "Relayed ''r1'' 0 Unanswered"
      "[Dropped 0, Recorded ''r1'' 0 Unanswered, Owned ''r1'' 0]"] by simp

theorem admission_bounded_witness:
  "ad_permits (release (drop_lease 0 (answered 0 Unanswered
     (sample_admitted 6 True \<lparr>ch_value = None, ch_sender = True\<rparr>)))) = 8"
  using admission_bounded [OF sample_run_reachable] by (simp add: MAX_IN_FLIGHT_REQUESTS_def)

theorem answers_stay_in_lane_witness:
  "authentication_answer Unanswered = None \<and> lane_key CommandLane ''r1'' \<noteq> lane_key AuthenticationLane ''r1''"
  using answers_stay_in_lane [OF sample_run_reachable, of "''r1''" 0 Unanswered "''r1''" "''r1''"] by simp

end
