(* ===== verification/Agent_Prompt.thy ===== *)
theory Agent_Prompt
  imports Agent_Identity Terminal
begin

text \<open>
  What the agent shows and what it makes of the answer (\<open>agent/src/main.rs\<close>, \<open>agent/src/touchid.rs\<close>):
  quoting of arguments, the reason on the Touch ID sheet, the terminal prompts with their answers, the
  Touch ID prompt with its screen lock and deadline, and both deciders. Text operations work on scalar
  values, as the source's do. A read of the terminal, the state of the screen and the signing thread
  are arguments with their times; times are nanoseconds.
\<close>

section \<open>Text\<close>

definition char_is_alphanumeric :: "nat \<Rightarrow> bool" where
  "char_is_alphanumeric c \<longleftrightarrow> (48 \<le> c \<and> c \<le> 57) \<or> (65 \<le> c \<and> c \<le> 90) \<or> (97 \<le> c \<and> c \<le> 122)"

text \<open>The characters of \<open>@%+=:,./-_\<close>.\<close>

definition plain_char :: "nat \<Rightarrow> bool" where
  "plain_char c \<longleftrightarrow> char_is_alphanumeric c \<or>
     c \<in> {0x40, 0x25, 0x2B, 0x3D, 0x3A, 0x2C, 0x2E, 0x2F, 0x2D, 0x5F}"

definition quote_char :: "nat \<Rightarrow> nat list" where
  "quote_char c = (if c = 0x27 then [0x27, 0x5C, 0x27, 0x27] else [c])"

definition quote_argument :: "string \<Rightarrow> string" where
  "quote_argument argument =
     (if argument \<noteq> [] \<and> list_all plain_char (chars_of argument) then argument
      else utf8 (0x27 # concat (map quote_char (chars_of argument)) @ [0x27]))"

definition quote_argv :: "string list \<Rightarrow> string" where
  "quote_argv argv = join '' '' (map quote_argument argv)"

definition runas_label :: "u32 \<Rightarrow> string" where
  "runas_label runas_uid = (if runas_uid = 0 then ''root (uid 0)'' else ''uid '' @ decimal (unat runas_uid))"

definition MAX_APPROVAL_REASON_CHARS :: nat where "MAX_APPROVAL_REASON_CHARS = 160"

definition chars_count :: "string \<Rightarrow> nat" where "chars_count s = length (chars_of s)"

definition truncate_chars :: "string \<Rightarrow> nat \<Rightarrow> string" where
  "truncate_chars value max_chars =
     (if chars_count value \<le> max_chars then value
      else if max_chars = 0 then []
      else utf8 (take (max_chars - 1) (chars_of value) @ [0x2026]))"

definition is_interesting_session_process :: "string \<Rightarrow> bool" where
  "is_interesting_session_process comm \<longleftrightarrow>
     comm \<notin> {''sudo'', ''sh'', ''bash'', ''zsh'', ''dash'', ''fish'', ''login'', ''sshd'', ''systemd'', ''launchd'', ''init''}"

definition session_name_for :: "RequestV1 \<Rightarrow> string option" where
  "session_name_for request =
     (case (case rq_session request of Some s \<Rightarrow> if s \<noteq> [] then Some s else None | None \<Rightarrow> None) of
        Some session \<Rightarrow> Some (escape_for_terminal session)
      | None \<Rightarrow>
     case find (\<lambda>entry. ev_name entry = ''OSHIOKI_SESSION'' \<and> ev_value entry \<noteq> []) (rev (rq_env request)) of
        Some entry \<Rightarrow> Some (escape_for_terminal (ev_value entry))
      | None \<Rightarrow>
     case find_map (\<lambda>entry. case split_once '':'' entry of None \<Rightarrow> None
           | Some (pid, comm) \<Rightarrow> if is_interesting_session_process comm then Some (pid, comm) else None)
           (rq_pid_chain request) of
        Some (pid, comm) \<Rightarrow> Some (escape_for_terminal (comm @ ''['' @ pid @ '']''))
      | None \<Rightarrow>
     case rq_tty request of
        Some tty \<Rightarrow> (let basename = rsplit_first (CHR ''/'') tty
            in if basename \<noteq> [] then Some (escape_for_terminal basename) else None)
      | None \<Rightarrow> None)"

definition approval_reason_for_raw :: "RequestV1 \<Rightarrow> string" where
  "approval_reason_for_raw request =
     (let target = escape_for_terminal (rq_user request) @ ''@'' @ escape_for_terminal (rq_host request);
          argv = quote_argv (rq_argv request);
          wants_sudo_prefix = (case rq_argv request of [] \<Rightarrow> True | first # _ \<Rightarrow> first \<noteq> ''sudo'');
          command = (if argv = [] then escape_for_terminal (rq_command request)
             else if wants_sudo_prefix then ''sudo '' @ escape_for_terminal argv
             else escape_for_terminal argv);
          session = session_name_for request;
          target_only_room = MAX_APPROVAL_REASON_CHARS - (chars_count target + 1);
          without_session = target @ '' '' @ truncate_chars command target_only_room
      in if target_only_room = 0 then truncate_chars target MAX_APPROVAL_REASON_CHARS
         else case session of
           None \<Rightarrow> without_session
         | Some name \<Rightarrow>
             let prefix = name @ '': '';
                 fixed_len = chars_count prefix + chars_count target + 1
             in if fixed_len + chars_count command \<le> MAX_APPROVAL_REASON_CHARS
                then prefix @ target @ '' '' @ command
                else without_session)"

definition invoking_user_label :: "AuthRequestV1 \<Rightarrow> string" where
  "invoking_user_label request =
     (case tc_invoking_user (aq_trusted request) of
        Some name \<Rightarrow> name @ '', uid '' @ decimal (unat (tc_invoking_uid (aq_trusted request)))
      | None \<Rightarrow> ''uid '' @ decimal (unat (tc_invoking_uid (aq_trusted request))))"

fun invocation_label :: "AuthInvocationV1 \<Rightarrow> string" where
  "invocation_label (AuthInvocationV1.Available command argv cwd) =
     (let rendered = quote_argv argv in if rendered = [] then command else rendered)"
| "invocation_label (AuthInvocationV1.Truncated command argv cwd omitted_args) =
     (let rendered = quote_argv argv;
          shown = (if rendered = [] then (case command of None \<Rightarrow> ''(none)'' | Some c \<Rightarrow> c) else rendered)
      in case omitted_args of
           Some n \<Rightarrow> ''truncated: '' @ shown @ '' (+'' @ decimal (unat n) @ '' more arguments)''
         | None \<Rightarrow> ''truncated: '' @ shown)"
| "invocation_label AuthInvocationV1.Unavailable = ''unavailable''"

definition authentication_reason :: "AuthRequestV1 \<Rightarrow> string" where
  "authentication_reason request =
     (let trusted = aq_trusted request;
          head = ''authenticate sudo: '' @ escape_for_terminal (tc_pam_user trusted) @ ''@''
                 @ escape_for_terminal (tc_host trusted);
          room = MAX_APPROVAL_REASON_CHARS - (chars_count head + 1)
      in if room = 0 then truncate_chars head MAX_APPROVAL_REASON_CHARS
         else head @ '' '' @ truncate_chars
           (escape_for_terminal (invocation_label (sc_invocation (aq_submitted request)))) room)"

definition newline :: string where "newline = [CHR 0x0A]"

definition authentication_summary :: "AuthRequestV1 \<Rightarrow> string" where
  "authentication_summary request =
     (let trusted = aq_trusted request in
      ''Authenticate sudo on '' @ escape_for_terminal (tc_host trusted)
      @ '' for '' @ escape_for_terminal (tc_pam_user trusted)
      @ '' (invoked by '' @ escape_for_terminal (invoking_user_label request)
      @ '', '' @ escape_for_terminal (tc_service trusted)
      @ '', tty '' @ escape_for_terminal (case tc_tty trusted of None \<Rightarrow> ''unknown'' | Some tty \<Rightarrow> tty)
      @ '')'' @ newline @ ''  invocation: ''
      @ escape_for_terminal (invocation_label (sc_invocation (aq_submitted request))) @ newline)"

definition format_env :: "RequestV1 \<Rightarrow> string" where
  "format_env request =
     concat (map (\<lambda>(index, entry). ''  env['' @ decimal index @ ''] '' @ escape_for_terminal (ev_name entry)
        @ ''='' @ escape_for_terminal (ev_value entry) @ newline) (enumerate 0 (rq_env request)))"

definition command_summary :: "RequestV1 \<Rightarrow> string" where
  "command_summary request =
     ''sudo on '' @ escape_for_terminal (rq_host request) @ '': '' @ escape_for_terminal (rq_user request)
     @ '' (uid '' @ decimal (unat (rq_uid request)) @ '') wants to run as '' @ runas_label (rq_runas_uid request)
     @ '': '' @ escape_for_terminal (rq_command request) @ '' '' @ escape_for_terminal (quote_argv (rq_argv request))
     @ newline @ ''  cwd: '' @ escape_for_terminal (rq_cwd request)
     @ newline @ ''  callers: '' @ escape_for_terminal (join '' <- '' (rq_pid_chain request))
     @ newline @ format_env request"

definition prompt_output :: "string \<Rightarrow> string \<Rightarrow> bool \<Rightarrow> string" where
  "prompt_output request_id summary stdout_is_terminal =
     (if stdout_is_terminal then summary @ ''Approve? [y/N] ''
      else ''request '' @ escape_for_terminal request_id
        @ '' needs an answer, but stdout is not a terminal: no request details are shown here'' @ newline
        @ ''Approve? [y/N] '')"

definition authentication_prompt_output :: "string \<Rightarrow> string \<Rightarrow> bool \<Rightarrow> string" where
  "authentication_prompt_output request_id summary stdout_is_terminal =
     (if stdout_is_terminal then summary @ ''[Enter to authenticate, anything else / timeout to skip] ''
      else ''authentication request '' @ escape_for_terminal request_id
        @ '' needs an answer, but stdout is not a terminal: no request details are shown here'' @ newline
        @ ''[Enter to authenticate, anything else / timeout to skip] '')"

section \<open>Deadlines and prompts\<close>

text \<open>Timestamps outside the years of the calendar type have no deadline at all.\<close>

definition in_calendar :: "i64 \<Rightarrow> bool" where
  "in_calendar t \<longleftrightarrow> -377705116800 \<le> t \<and> t \<le> 253402300799"

definition remaining_until :: "i64 \<Rightarrow> int \<Rightarrow> nat option" where
  "remaining_until expires_at now =
     (if \<not> in_calendar expires_at then None
      else let remaining = expires_at * 1000000000 - now
           in if remaining > 0 then Some (nat remaining) else None)"

text \<open>The terminal. One reader thread feeds the lines of the input into a channel of eight slots; while the channel is full it waits with
  the next line in hand. When the turn of a prompt comes, \<open>pt_channel\<close> is what the channel holds and \<open>pt_backlog\<close> what was typed by
  then but is not in the channel: the line in the hand of the thread and those it has not read. The prompt empties the channel before
  it is shown; \<open>pt_moves\<close> says how many lines the thread puts into the freed slots after each that is taken out. What comes next is a
  line of the backlog that is still there, \<open>pt_handover\<close> after the prompt is shown, or else the first thing typed since, a line or the
  end of the input, with its time. The timer runs for the time that remained and fires \<open>pt_late\<close> after that; a line that is there before
  it fires wins. Times after the turn are on the monotonic clock, the turn itself and the expiry on the wall clock.\<close>

datatype terminal_read = Line string | Closed

record prompt_run =
  pt_turn :: int
  pt_channel :: "string list"
  pt_backlog :: "string list"
  pt_moves :: "nat list"
  pt_handover :: nat
  pt_next :: "(nat \<times> terminal_read) option"
  pt_late :: nat

definition CHANNEL_SLOTS :: nat where "CHANNEL_SLOTS = 8"

definition trimmed :: "string \<Rightarrow> nat list" where "trimmed answer = trim (chars_of answer)"

text \<open>\<open>while lines.try_recv().is_ok() {}\<close>: the channel and the backlog after it.\<close>

function drain_lines :: "nat list \<Rightarrow> string list \<Rightarrow> string list \<Rightarrow> string list \<times> string list" where
  "drain_lines moves [] backlog = ([], backlog)"
| "drain_lines moves (line # channel) backlog =
     (let n = min (case moves of [] \<Rightarrow> 0 | k # _ \<Rightarrow> k) (CHANNEL_SLOTS - length channel)
      in drain_lines (tl moves) (channel @ take n backlog) (drop n backlog))"
  by pat_completeness auto

termination
  by (relation "measure (\<lambda>(moves, channel, backlog). length channel + length backlog)") auto

definition prompter_wait :: "i64 \<Rightarrow> prompt_run \<Rightarrow> string + string option" where
  "prompter_wait expires_at run =
     (case remaining_until expires_at (pt_turn run) of
        None \<Rightarrow> Inr None
      | Some remaining \<Rightarrow>
          (case (case snd (drain_lines (pt_moves run) (pt_channel run) (pt_backlog run)) of
                   [] \<Rightarrow> pt_next run
                 | line # _ \<Rightarrow> Some (pt_handover run, Line line)) of
             Some (t, event) \<Rightarrow>
               if t \<le> remaining + pt_late run
               then (case event of Line answer \<Rightarrow> Inr (Some answer) | Closed \<Rightarrow> Inl ''stdin closed'')
               else Inr None
           | None \<Rightarrow> Inr None))"

definition ask :: "i64 \<Rightarrow> prompt_run \<Rightarrow> string + bool option" where
  "ask expires_at run =
     map_ok (map_option (\<lambda>answer. map lower_scalar (trimmed answer) = [0x79])) (prompter_wait expires_at run)"

definition ask_authentication :: "i64 \<Rightarrow> prompt_run \<Rightarrow> string + unit option" where
  "ask_authentication expires_at run =
     and_then (prompter_wait expires_at run) (\<lambda>r. Inr (case r of
        None \<Rightarrow> None | Some answer \<Rightarrow> if trimmed answer = [] then Some () else None))"

section \<open>The Touch ID sheet\<close>

text \<open>The canceller of the enclave key: the number of the attempt, whether its sheet is up, and whether it
  was cancelled before.\<close>

record CancelState =
  cs_attempt :: "64 word"
  cs_context :: bool
  cs_cancelled :: bool

definition canceller_begin :: "CancelState \<Rightarrow> CancelState \<times> 64 word" where
  "canceller_begin s = (s\<lparr>cs_attempt := cs_attempt s + 1, cs_context := False, cs_cancelled := False\<rparr>,
     cs_attempt s + 1)"

text \<open>Each operation also says whether the sheet on screen is invalidated.\<close>

definition canceller_cancel :: "64 word \<Rightarrow> CancelState \<Rightarrow> CancelState \<times> bool" where
  "canceller_cancel attempt s =
     (if cs_attempt s \<noteq> attempt then (s, False) else (s\<lparr>cs_cancelled := True\<rparr>, cs_context s))"

definition canceller_arm :: "CancelState \<Rightarrow> CancelState \<times> bool" where
  "canceller_arm s = (s\<lparr>cs_context := True\<rparr>, cs_cancelled s)"

definition canceller_disarm :: "CancelState \<Rightarrow> CancelState" where
  "canceller_disarm s = s\<lparr>cs_context := False\<rparr>"

datatype AttemptError = Canceled | Failed string

datatype 'a Outcome = Approved 'a | Denied | Expired

definition LOCK_POLL :: nat where "LOCK_POLL = 1000000000"

text \<open>A sleep of a second ends at that time or later: \<open>late\<close> is by how much, at every instant it starts.\<close>

function wait_unlocked :: "(int \<Rightarrow> bool) \<Rightarrow> (int \<Rightarrow> nat) \<Rightarrow> i64 \<Rightarrow> int \<Rightarrow> (int \<times> nat) option" where
  "wait_unlocked locked late expires_at now =
     (case remaining_until expires_at now of
        None \<Rightarrow> None
      | Some remaining \<Rightarrow>
          if \<not> locked now then Some (now, remaining)
          else wait_unlocked locked late expires_at (now + int (min LOCK_POLL remaining) + int (late now)))"
  by pat_completeness auto

termination
proof (relation "measure (\<lambda>(locked, late, expires_at, now). nat (expires_at * 1000000000 - now))")
  fix locked :: "int \<Rightarrow> bool" and late :: "int \<Rightarrow> nat" and expires_at :: i64 and now :: int and remaining
  assume "remaining_until expires_at now = Some remaining"
  then have "remaining > 0" and "expires_at * 1000000000 - now > 0"
    by (auto simp: remaining_until_def Let_def split: if_splits)
  then show "((locked, late, expires_at, now + int (min LOCK_POLL remaining) + int (late now)),
      (locked, late, expires_at, now)) \<in> measure (\<lambda>(locked, late, expires_at, now). nat (expires_at * 1000000000 - now))"
    by (auto simp: LOCK_POLL_def)
qed simp

declare wait_unlocked.simps [simp del]

text \<open>A prompt as it happens: when its turn comes, the screen, and how long the signing takes from the moment the sheet is raised until
  the flag of the deadline is read (\<open>None\<close> if the thread panics). The deadline is a task of its own: it sleeps for the time that
  remained on the wall clock, measured on the monotonic clock, and sets the flag \<open>tp_flag_late\<close> after that. A signature that is there
  before the flag is set counts, even if it came after the expiry.\<close>

record TouchIdPrompt =
  tp_turn :: int
  tp_locked :: "int \<Rightarrow> bool"
  tp_late :: "int \<Rightarrow> nat"
  tp_takes :: "int \<Rightarrow> nat option"
  tp_flag_late :: nat

definition touch_id_ask :: "TouchIdPrompt \<Rightarrow> i64 \<Rightarrow> AttemptError + 'a \<Rightarrow> string + 'a Outcome" where
  "touch_id_ask p expires_at sign_result =
     (case wait_unlocked (tp_locked p) (tp_late p) expires_at (tp_turn p) of
        None \<Rightarrow> Inr Outcome.Expired
      | Some (raised, remaining) \<Rightarrow>
     case tp_takes p raised of
        None \<Rightarrow> Inl ''the Touch ID prompt thread panicked''
      | Some elapsed \<Rightarrow>
          if remaining + tp_flag_late p \<le> elapsed then Inr Outcome.Expired
          else (case sign_result of
             Inr value \<Rightarrow> Inr (Outcome.Approved value)
           | Inl Canceled \<Rightarrow> Inr Outcome.Denied
           | Inl (Failed e) \<Rightarrow> Inl e))"

section \<open>Deciding\<close>

text \<open>The text a dismissed sheet is reported with; the source tells it by its type.\<close>

definition SIGN_CANCELED :: string where "SIGN_CANCELED = ''the Touch ID sheet was dismissed''"

definition classify :: "string \<Rightarrow> AttemptError" where
  "classify e = (if e = SIGN_CANCELED then Canceled else Failed e)"

definition mac_decide ::
  "crates \<Rightarrow> TouchIdPrompt \<Rightarrow> Identity \<Rightarrow> OpenedRequest \<Rightarrow> string + DecisionV1 option" where
  "mac_decide X prompt i opened =
     (let request = or_request opened;
          reason = approval_reason_for_raw request;
          sign = map_err classify (approve X i opened reason)
      in case touch_id_ask prompt (rq_expires_at request) sign of
           Inr (Outcome.Approved decision) \<Rightarrow> Inr (Some decision)
         | Inr Outcome.Denied \<Rightarrow> Inr None
         | Inr Outcome.Expired \<Rightarrow> Inr None
         | Inl e \<Rightarrow> Inr None)"

definition mac_authenticate ::
  "crates \<Rightarrow> TouchIdPrompt \<Rightarrow> Identity \<Rightarrow> OpenedAuthRequestV1 \<Rightarrow> string + AuthDecisionV1 option" where
  "mac_authenticate X prompt i opened =
     (let request = oa_request opened;
          reason = authentication_reason request;
          sign = map_err classify (authenticate X i opened reason)
      in case touch_id_ask prompt (aq_expires_at request) sign of
           Inr (Outcome.Approved decision) \<Rightarrow> Inr (Some decision)
         | Inr Outcome.Denied \<Rightarrow> Inr None
         | Inr Outcome.Expired \<Rightarrow> Inr None
         | Inl e \<Rightarrow> Inr None)"

datatype Decider = Auto bool | Prompt prompt_run | TouchId TouchIdPrompt

definition seconds :: "int \<Rightarrow> i64" where "seconds now = now div 1000000000"

definition decide ::
  "crates \<Rightarrow> Identity \<Rightarrow> Decider \<Rightarrow> int \<Rightarrow> OpenedRequest \<Rightarrow> string + DecisionV1 option" where
  "decide X i decider now opened =
     (let request = or_request opened;
          answer = (\<lambda>yes. map_ok Some (let reason = approval_reason_for_raw request
             in if yes then approve X i opened reason else deny X i opened reason))
      in if rq_expires_at request \<le> seconds now then Inl ''request already expired''
         else case decider of
           TouchId prompt \<Rightarrow> mac_decide X prompt i opened
         | Auto yes \<Rightarrow> answer yes
         | Prompt run \<Rightarrow> and_then (ask (rq_expires_at request) run) (\<lambda>r.
             case r of None \<Rightarrow> Inr None | Some yes \<Rightarrow> answer yes))"

definition identity_may_authenticate :: "Identity \<Rightarrow> bool" where
  "identity_may_authenticate i \<longleftrightarrow> device_kind i = SecureEnclave"

definition decide_authentication ::
  "crates \<Rightarrow> Identity \<Rightarrow> Decider \<Rightarrow> int \<Rightarrow> OpenedAuthRequestV1 \<Rightarrow> string + AuthDecisionV1 option" where
  "decide_authentication X i decider now opened =
     (let request = oa_request opened
      in if aq_expires_at request \<le> seconds now then Inl ''authentication request already expired''
         else case decider of
           TouchId prompt \<Rightarrow> mac_authenticate X prompt i opened
         | Auto _ \<Rightarrow> Inr None
         | Prompt run \<Rightarrow> and_then (ask_authentication (aq_expires_at request) run) (\<lambda>r.
             case r of None \<Rightarrow> Inr None
             | Some _ \<Rightarrow> map_ok Some (authenticate X i opened (authentication_reason request))))"

section \<open>Well-formed text\<close>

lemma chars_count_append: "wf_str a \<Longrightarrow> wf_str b \<Longrightarrow> chars_count (a @ b) = chars_count a + chars_count b"
  by (simp add: chars_count_def wf_append)

lemma chars_count_ascii: "list_all (\<lambda>c. of_char c < (128 :: nat)) s \<Longrightarrow> chars_count s = length s"
  by (simp add: chars_count_def chars_of_ascii)

lemma wf_escape [intro]: "wf_str s \<Longrightarrow> wf_str (escape_for_terminal s)"
  unfolding escape_for_terminal_def by (intro wf_utf8) (auto simp: wf_str_def intro: escape_char_scalar)



section \<open>Quoting\<close>

text \<open>Reference: how a POSIX shell reads words with single quotes and backslashes.\<close>

fun sh_words :: "bool \<Rightarrow> nat list option \<Rightarrow> nat list \<Rightarrow> nat list list option" where
  "sh_words True cur [] = None"
| "sh_words True cur (c # cs) =
     (if c = 0x27 then sh_words False cur cs else sh_words True (map_option (\<lambda>w. w @ [c]) cur) cs)"
| "sh_words False cur [] = Some (case cur of None \<Rightarrow> [] | Some w \<Rightarrow> [w])"
| "sh_words False cur (c # cs) =
     (if c = 0x20 then map_option (\<lambda>ws. (case cur of None \<Rightarrow> ws | Some w \<Rightarrow> w # ws)) (sh_words False None cs)
      else if c = 0x27 then sh_words True (Some (case cur of None \<Rightarrow> [] | Some w \<Rightarrow> w)) cs
      else if c = 0x5C then (case cs of [] \<Rightarrow> None
        | d # ds \<Rightarrow> sh_words False (Some ((case cur of None \<Rightarrow> [] | Some w \<Rightarrow> w) @ [d])) ds)
      else sh_words False (Some ((case cur of None \<Rightarrow> [] | Some w \<Rightarrow> w) @ [c])) cs)"

lemma sh_words_plain:
  "list_all plain_char cs \<Longrightarrow> sh_words False (Some w) (cs @ rest) = sh_words False (Some (w @ cs)) rest"
  by (induction cs arbitrary: w) (auto simp: plain_char_def char_is_alphanumeric_def)

lemma sh_words_quoted:
  "sh_words True (Some w) (concat (map quote_char cs) @ 0x27 # rest) = sh_words False (Some (w @ cs)) rest"
  by (induction cs arbitrary: w) (auto simp: quote_char_def)

lemma quote_char_scalar: "scalar c \<Longrightarrow> d \<in> set (quote_char c) \<Longrightarrow> scalar d"
  by (auto simp: quote_char_def scalar_def split: if_splits)

lemma quote_argument_chars:
  assumes "wf_str a"
  shows "wf_str (quote_argument a)"
    and "sh_words False None (chars_of (quote_argument a) @ rest) = sh_words False (Some (chars_of a)) rest"
proof -
  let ?q = "0x27 # concat (map quote_char (chars_of a)) @ [0x27]"
  have s: "\<And>c. c \<in> set ?q \<Longrightarrow> scalar c"
    using assms quote_char_scalar by (auto simp: wf_str_def) (auto simp: scalar_def)
  show "wf_str (quote_argument a)"
    using assms wf_utf8 [of ?q, OF s] by (auto simp only: quote_argument_def split: if_split)
  show "sh_words False None (chars_of (quote_argument a) @ rest) = sh_words False (Some (chars_of a)) rest"
  proof (cases "a \<noteq> [] \<and> list_all plain_char (chars_of a)")
    case True
    have "chars_of a \<noteq> []" using True assms by (auto simp: wf_str_def utf8_def)
    then obtain c cs where c: "chars_of a = c # cs" by (cases "chars_of a") auto
    with True have p: "plain_char c" "list_all plain_char cs" by auto
    then have "sh_words False None (c # cs @ rest) = sh_words False (Some [c]) (cs @ rest)"
      by (auto simp: plain_char_def char_is_alphanumeric_def)
    also have "\<dots> = sh_words False (Some (c # cs)) rest" using sh_words_plain [OF p(2), of "[c]"] by simp
    finally show ?thesis using True c by (simp add: quote_argument_def)
  next
    case False
    then have "quote_argument a = utf8 ?q" by (auto simp: quote_argument_def)
    then have "chars_of (quote_argument a) = ?q" using chars_of_utf8 [of ?q] s by simp
    then show ?thesis using sh_words_quoted [of "[]"] by simp
  qed
qed

lemma wf_quote_argv: "list_all wf_str argv \<Longrightarrow> wf_str (quote_argv argv)"
  unfolding quote_argv_def by (rule wf_join) (auto simp: list_all_iff quote_argument_chars wf_ascii)

lemma sh_words_quote_argv:
  "list_all wf_str argv \<Longrightarrow> sh_words False None (chars_of (quote_argv argv)) = Some (map chars_of argv)"
proof (induction argv rule: induct_list012)
  case 1
  then show ?case by (simp add: quote_argv_def chars_of_def)
next
  case (2 a)
  then show ?case using quote_argument_chars(2) [of a "[]"] by (simp add: quote_argv_def)
next
  case (3 a b argv)
  have sp: "wf_str '' ''" "chars_of '' '' = [0x20]" by (simp_all add: wf_ascii chars_of_ascii)
  have tl: "wf_str (quote_argv (b # argv))" and hd: "wf_str (quote_argument a)"
    using 3 wf_quote_argv [of "b # argv"] quote_argument_chars(1) [of a] by auto
  have "chars_of (quote_argv (a # b # argv)) = chars_of (quote_argument a) @ 0x20 # chars_of (quote_argv (b # argv))"
    using wf_append(2) [OF hd wf_append(1) [OF sp(1) tl]] wf_append(2) [OF sp(1) tl] sp(2)
    by (simp add: quote_argv_def)
  then show ?case using 3 quote_argument_chars(2) [of a] by simp
qed

section \<open>Reasons on the sheet\<close>

lemma wf_rsplit_first: "wf_str s \<Longrightarrow> of_char sep < (128 :: nat) \<Longrightarrow> wf_str (rsplit_first sep s)"
proof -
  assume w: "wf_str s" and sep: "of_char sep < (128 :: nat)"
  show ?thesis
  proof (cases "sep \<in> set s")
    case False
    then have "takeWhile (\<lambda>c. c \<noteq> sep) (rev s) = rev s" by (auto simp: takeWhile_eq_all_conv)
    with w show ?thesis by (simp only: rsplit_first_def rev_rev_ident)
  next
    case True
    then obtain a b where s: "s = a @ sep # b" "sep \<notin> set b" by (meson split_list_last)
    then have "takeWhile (\<lambda>c. c \<noteq> sep) (rev b @ sep # rev a) = rev b" by (subst takeWhile_append2) auto
    with s have "rsplit_first sep s = b" by (simp add: rsplit_first_def)
    with w s sep show ?thesis using wf_cut [of a sep b] by simp
  qed
qed

definition wf_request :: "RequestV1 \<Rightarrow> bool" where
  "wf_request r \<longleftrightarrow> wf_str (rq_user r) \<and> wf_str (rq_host r) \<and> wf_str (rq_command r) \<and> list_all wf_str (rq_argv r)
     \<and> list_all wf_str (rq_pid_chain r) \<and> list_all (\<lambda>e. wf_str (ev_value e)) (rq_env r)
     \<and> pred_option wf_str (rq_session r) \<and> pred_option wf_str (rq_tty r)"

lemma find_Some_in: "find P xs = Some x \<Longrightarrow> x \<in> set xs"
  by (induction xs) (auto split: if_splits)

lemma wf_process: "wf_str entry \<Longrightarrow> split_once '':'' entry = Some (pid, comm) \<Longrightarrow> wf_str (comm @ ''['' @ pid @ '']'')"
proof -
  assume w: "wf_str entry" and s: "split_once '':'' entry = Some (pid, comm)"
  have "wf_str pid \<and> wf_str comm" using wf_cut [of pid "CHR '':''" comm] w split_once_char [OF s] by simp
  moreover have "wf_str ''[''" "wf_str '']''" by (simp_all add: wf_ascii)
  ultimately show ?thesis by (intro wf_append(1)) auto
qed

lemma wf_session_name:
  assumes "wf_request r" and "session_name_for r = Some name"
  shows "wf_str name"
proof -
  have env: "wf_str (ev_value e)"
    if "find (\<lambda>entry. ev_name entry = ''OSHIOKI_SESSION'' \<and> ev_value entry \<noteq> []) (rev (rq_env r)) = Some e" for e
    using find_Some_in [OF that] assms(1) by (simp add: wf_request_def list_all_iff)
  have chain: "wf_str (comm @ ''['' @ pid @ '']'')"
    if "find_map (\<lambda>entry. case split_once '':'' entry of None \<Rightarrow> None
           | Some (pid, comm) \<Rightarrow> if is_interesting_session_process comm then Some (pid, comm) else None)
           (rq_pid_chain r) = Some (pid, comm)" for pid comm
  proof -
    note found = that
    obtain entry where e: "entry \<in> set (rq_pid_chain r)" "(case split_once '':'' entry of None \<Rightarrow> None
        | Some (pid, comm) \<Rightarrow> if is_interesting_session_process comm then Some (pid, comm) else None) = Some (pid, comm)"
      using find_map_Some [OF found] by blast
    then have "split_once '':'' entry = Some (pid, comm)"
      by (cases "split_once '':'' entry") (auto split: if_splits)
    with e(1) assms(1) show ?thesis by (auto simp: wf_request_def list_all_iff intro: wf_process [of entry, simplified])
  qed
  show ?thesis
    using assms env chain unfolding session_name_for_def
    by (auto simp: wf_request_def Let_def split: option.splits if_splits intro!: wf_escape wf_rsplit_first)
qed

lemma truncate_chars_count:
  assumes "wf_str s"
  shows "wf_str (truncate_chars s n) \<and> chars_count (truncate_chars s n) \<le> n"
proof -
  let ?t = "take (n - 1) (chars_of s) @ [0x2026]"
  have t: "\<forall>c \<in> set ?t. scalar c" using assms by (auto simp: wf_str_def scalar_def dest: in_set_takeD)
  then have "wf_str (utf8 ?t)" "chars_count (utf8 ?t) = length ?t"
    using wf_utf8 [of ?t] chars_of_utf8 [of ?t] by (auto simp: chars_count_def)
  with assms show ?thesis by (auto simp: truncate_chars_def chars_count_def) (simp add: chars_of_def)
qed

definition reason_target :: "RequestV1 \<Rightarrow> string" where
  "reason_target r = escape_for_terminal (rq_user r) @ ''@'' @ escape_for_terminal (rq_host r)"

definition reason_command :: "RequestV1 \<Rightarrow> string" where
  "reason_command r =
     (let argv = escape_for_terminal (quote_argv (rq_argv r))
      in if quote_argv (rq_argv r) = [] then escape_for_terminal (rq_command r)
         else if (case rq_argv r of [] \<Rightarrow> True | first # _ \<Rightarrow> first \<noteq> ''sudo'') then ''sudo '' @ argv else argv)"

lemma wf_reason_parts:
  assumes "wf_request r"
  shows "wf_str (reason_target r)" and "wf_str (reason_command r)"
proof -
  have a: "wf_str ''@''" "wf_str ''sudo ''" by (simp_all add: wf_ascii)
  show "wf_str (reason_target r)"
    using assms a unfolding reason_target_def wf_request_def by (intro wf_append(1)) auto
  have c: "wf_str (escape_for_terminal (quote_argv (rq_argv r)))" "wf_str (escape_for_terminal (rq_command r))"
    using assms wf_quote_argv by (auto simp: wf_request_def)
  with wf_append(1) [OF a(2) c(1)] show "wf_str (reason_command r)"
    by (simp add: reason_command_def Let_def)
qed

lemma approval_reason_cases:
  "approval_reason_for_raw r = truncate_chars (reason_target r) 160 \<and> 159 \<le> chars_count (reason_target r)
   \<or> (chars_count (reason_target r) < 159 \<and> approval_reason_for_raw r =
        reason_target r @ '' '' @ truncate_chars (reason_command r) (159 - chars_count (reason_target r)))
   \<or> (\<exists>name. session_name_for r = Some name \<and> chars_count (reason_target r) < 159 \<and>
        approval_reason_for_raw r = (name @ '': '') @ reason_target r @ '' '' @ reason_command r \<and>
        chars_count (name @ '': '') + chars_count (reason_target r) + 1 + chars_count (reason_command r) \<le> 160)"
proof -
  have target: "escape_for_terminal (rq_user r) @ ''@'' @ escape_for_terminal (rq_host r) = reason_target r"
    by (simp add: reason_target_def)
  have command: "(if quote_argv (rq_argv r) = [] then escape_for_terminal (rq_command r)
      else if (case rq_argv r of [] \<Rightarrow> True | first # _ \<Rightarrow> first \<noteq> ''sudo'')
      then ''sudo '' @ escape_for_terminal (quote_argv (rq_argv r))
      else escape_for_terminal (quote_argv (rq_argv r))) = reason_command r"
    by (simp add: reason_command_def Let_def)
  show ?thesis
    unfolding approval_reason_for_raw_def Let_def target command MAX_APPROVAL_REASON_CHARS_def
    by (cases "session_name_for r") auto
qed

lemma spaced_count:
  assumes "wf_str a" and "wf_str b"
  shows "wf_str (a @ '' '' @ b)" and "chars_count (a @ '' '' @ b) = chars_count a + 1 + chars_count b"
proof -
  have s: "wf_str '' ''" "chars_count '' '' = 1" by (simp_all add: wf_ascii chars_count_ascii)
  have sb: "wf_str ('' '' @ b)" by (rule wf_append(1) [OF s(1) assms(2)])
  show "wf_str (a @ '' '' @ b)" by (rule wf_append(1) [OF assms(1) sb])
  show "chars_count (a @ '' '' @ b) = chars_count a + 1 + chars_count b"
    by (simp only: chars_count_append [OF assms(1) sb] chars_count_append [OF s(1) assms(2)] s(2) add.assoc)
qed

text \<open>the reason shown on the sheet never exceeds 160 characters, and whenever the account and the host fit it names
  both in full, followed by the command or its beginning; the session is shown only beside the whole command.\<close>

theorem approval_reason_shows_target:
  assumes "wf_request r"
  shows "chars_count (approval_reason_for_raw r) \<le> MAX_APPROVAL_REASON_CHARS \<and>
    (chars_count (reason_target r) + 1 < MAX_APPROVAL_REASON_CHARS \<longrightarrow>
      approval_reason_for_raw r = reason_target r @ '' '' @
        truncate_chars (reason_command r) (MAX_APPROVAL_REASON_CHARS - (chars_count (reason_target r) + 1))
      \<or> (\<exists>name. session_name_for r = Some name \<and>
          approval_reason_for_raw r = name @ '': '' @ reason_target r @ '' '' @ reason_command r))"
proof -
  note parts = wf_reason_parts [OF assms]
  have cut: "wf_str (truncate_chars (reason_command r) n)" "chars_count (truncate_chars (reason_command r) n) \<le> n" for n
    using truncate_chars_count [OF parts(2)] by blast+
  have named: "chars_count ((name @ '': '') @ reason_target r @ '' '' @ reason_command r)
      = chars_count (name @ '': '') + chars_count (reason_target r) + 1 + chars_count (reason_command r)"
    if "session_name_for r = Some name" for name
  proof -
    have "wf_str (name @ '': '')"
      using wf_session_name [OF assms that] by (intro wf_append(1)) (auto simp: wf_ascii)
    then show ?thesis
      using spaced_count [OF parts] chars_count_append [of "name @ '': ''" "reason_target r @ '' '' @ reason_command r"]
      by simp
  qed
  have "chars_count (approval_reason_for_raw r) \<le> MAX_APPROVAL_REASON_CHARS"
    using approval_reason_cases [of r] truncate_chars_count [OF parts(1), of 160] named
      spaced_count(2) [OF parts(1) cut(1)] cut(2) [of "159 - chars_count (reason_target r)"]
    by (auto simp: MAX_APPROVAL_REASON_CHARS_def simp del: append_assoc)
  with approval_reason_cases [of r] show ?thesis by (auto simp: MAX_APPROVAL_REASON_CHARS_def)
qed

text \<open>a command line shown by the agent reads back, word by word, as the arguments of the request: quoting hides
  no boundary between arguments, and two different argument lists never look alike.\<close>

theorem quote_argv_roundtrip:
  assumes "list_all wf_str argv" and "list_all wf_str argv'"
  shows "sh_words False None (chars_of (quote_argv argv)) = Some (map chars_of argv) \<and>
    (quote_argv argv = quote_argv argv' \<longrightarrow> argv = argv')"
proof -
  note words = sh_words_quote_argv [OF assms(1)] sh_words_quote_argv [OF assms(2)]
  have inj: "map chars_of argv = map chars_of argv' \<Longrightarrow> argv = argv'"
    using assms by (metis (mono_tags, lifting) list.map_comp list.map_ident_strong list_all_iff o_apply wf_str_def)
  show ?thesis using words inj by auto
qed

theorem quote_argv_roundtrip_witness:
  "quote_argv [''a b''] \<noteq> quote_argv [''a'', ''b'']"
proof -
  have "list_all wf_str [''a b'']" "list_all wf_str [''a'', ''b'']" by (simp_all add: wf_ascii)
  from quote_argv_roundtrip [OF this] show ?thesis by simp
qed

lemma sample_wf_request: "wf_request sample_request"
  by (simp add: wf_request_def sample_request_def wf_ascii)

theorem approval_reason_shows_target_witness:
  "chars_count (approval_reason_for_raw sample_request) \<le> MAX_APPROVAL_REASON_CHARS"
  using approval_reason_shows_target [OF sample_wf_request] by blast

section \<open>Answers and their deadline\<close>

lemma remaining_until_iff:
  "remaining_until e now = Some r \<longleftrightarrow> in_calendar e \<and> now < e * 1000000000 \<and> r = nat (e * 1000000000 - now)"
  by (auto simp: remaining_until_def Let_def)

text \<open>The channel is empty after the drain, and what is left was in the backlog all along.\<close>

lemma drain_lines_left:
  "\<exists>n. drain_lines moves channel backlog = ([], drop n backlog)"
proof (induction moves channel backlog rule: drain_lines.induct)
  case (2 moves line channel backlog)
  then show ?case by (auto simp: Let_def)
qed (auto intro: exI [of _ 0])

definition in_time :: "prompt_run \<Rightarrow> i64 \<Rightarrow> nat \<Rightarrow> bool" where
  "in_time run e t \<longleftrightarrow> pt_turn run < e * 1000000000 \<and> pt_turn run + int t \<le> e * 1000000000 + int (pt_late run)"

lemma prompter_wait_Some:
  assumes "prompter_wait e run = Inr (Some a)"
  shows "(\<exists>t. pt_next run = Some (t, Line a) \<and> in_time run e t) \<or> a \<in> set (pt_backlog run) \<and> in_time run e (pt_handover run)"
proof -
  obtain n where n: "drain_lines (pt_moves run) (pt_channel run) (pt_backlog run) = ([], drop n (pt_backlog run))"
    using drain_lines_left by blast
  obtain remaining where r: "remaining_until e (pt_turn run) = Some remaining"
    using assms by (cases "remaining_until e (pt_turn run)") (auto simp: prompter_wait_def)
  then have t: "in_time run e t" if "t \<le> remaining + pt_late run" for t
    using that by (auto simp: remaining_until_iff in_time_def)
  show ?thesis
  proof (cases "drop n (pt_backlog run)")
    case Nil
    then show ?thesis using assms r n t
      by (auto simp: prompter_wait_def split: option.splits terminal_read.splits if_splits)
  next
    case (Cons line rest)
    then have "line \<in> set (pt_backlog run)" by (metis in_set_dropD list.set_intros(1))
    then show ?thesis using assms r n t Cons by (auto simp: prompter_wait_def split: if_splits)
  qed
qed

lemma wait_unlocked_Some:
  "wait_unlocked locked late e now = Some (t, r) \<Longrightarrow> now \<le> t \<and> \<not> locked t \<and> remaining_until e t = Some r"
proof (induction locked late e now rule: wait_unlocked.induct)
  case (1 locked late e now)
  show ?case
  proof (cases "remaining_until e now")
    case None
    with 1(2) show ?thesis by (simp add: wait_unlocked.simps [of _ _ _ now])
  next
    case (Some remaining)
    with 1 show ?thesis
      by (cases "locked now") (force simp: wait_unlocked.simps [of _ _ _ now])+
  qed
qed

text \<open>The sheet was raised for a live request on an unlocked screen, after the turn of the prompt came, and was touched before the flag of
  the deadline was set.\<close>

definition sheet_touched :: "TouchIdPrompt \<Rightarrow> i64 \<Rightarrow> bool" where
  "sheet_touched p e \<longleftrightarrow> (\<exists>raised remaining elapsed.
     wait_unlocked (tp_locked p) (tp_late p) e (tp_turn p) = Some (raised, remaining) \<and>
     tp_turn p \<le> raised \<and> \<not> tp_locked p raised \<and> raised < e * 1000000000 \<and> int remaining = e * 1000000000 - raised \<and>
     tp_takes p raised = Some elapsed \<and> elapsed < remaining + tp_flag_late p)"

lemma touch_id_ask_Approved:
  assumes "touch_id_ask p e r = Inr (Outcome.Approved v)"
  shows "r = Inr v \<and> sheet_touched p e"
proof -
  obtain raised remaining where w: "wait_unlocked (tp_locked p) (tp_late p) e (tp_turn p) = Some (raised, remaining)"
    using assms by (auto simp: touch_id_ask_def split: option.splits)
  with assms obtain elapsed where t: "tp_takes p raised = Some elapsed"
    by (auto simp: touch_id_ask_def split: option.splits)
  from assms w t have "r = Inr v" "elapsed < remaining + tp_flag_late p"
    by (auto simp: touch_id_ask_def not_le split: if_splits sum.splits AttemptError.splits)
  with wait_unlocked_Some [OF w] w t show ?thesis by (auto simp: sheet_touched_def remaining_until_iff)
qed

text \<open>A line is the approval iff it is \<open>y\<close> but for case and surrounding space.\<close>

definition typed_yes :: "string \<Rightarrow> bool" where
  "typed_yes answer \<longleftrightarrow> map lower_scalar (trimmed answer) = [0x79]"

text \<open>The answer came in before the timer fired: typed after the prompt was shown, or left over from what had been typed before without
  having reached the channel.\<close>

definition typed_in_time :: "Decider \<Rightarrow> i64 \<Rightarrow> string \<Rightarrow> bool" where
  "typed_in_time d e answer \<longleftrightarrow> (\<exists>run t. d = Prompt run \<and> pt_next run = Some (t, Line answer) \<and> in_time run e t)"

definition typed_ahead :: "Decider \<Rightarrow> i64 \<Rightarrow> string \<Rightarrow> bool" where
  "typed_ahead d e answer \<longleftrightarrow> (\<exists>run. d = Prompt run \<and> answer \<in> set (pt_backlog run) \<and> in_time run e (pt_handover run))"

definition answered_by :: "Decider \<Rightarrow> i64 \<Rightarrow> string \<Rightarrow> bool" where
  "answered_by d e answer \<longleftrightarrow> typed_in_time d e answer \<or> typed_ahead d e answer"

lemma prompter_wait_answered: "prompter_wait e run = Inr (Some a) \<Longrightarrow> answered_by (Prompt run) e a"
  using prompter_wait_Some by (auto simp: answered_by_def typed_in_time_def typed_ahead_def)

definition touched_in_time :: "Decider \<Rightarrow> i64 \<Rightarrow> bool" where
  "touched_in_time d e \<longleftrightarrow> (\<exists>p. d = TouchId p \<and> sheet_touched p e)"

lemma mac_decide_Some:
  assumes "mac_decide X p i opened = Inr (Some v)"
  shows "approve X i opened (approval_reason_for_raw (or_request opened)) = Inr v \<and>
    touched_in_time (TouchId p) (rq_expires_at (or_request opened))"
proof -
  from assms have "touch_id_ask p (rq_expires_at (or_request opened))
      (map_err classify (approve X i opened (approval_reason_for_raw (or_request opened)))) = Inr (Outcome.Approved v)"
    by (auto simp: mac_decide_def Let_def split: sum.splits Outcome.splits)
  from touch_id_ask_Approved [OF this] show ?thesis
    by (auto simp: touched_in_time_def map_err_def split: sum.splits)
qed

lemma mac_authenticate_Some:
  assumes "mac_authenticate X p i opened = Inr (Some v)"
  shows "authenticate X i opened (authentication_reason (oa_request opened)) = Inr v \<and>
    touched_in_time (TouchId p) (aq_expires_at (oa_request opened))"
proof -
  from assms have "touch_id_ask p (aq_expires_at (oa_request opened))
      (map_err classify (authenticate X i opened (authentication_reason (oa_request opened)))) = Inr (Outcome.Approved v)"
    by (auto simp: mac_authenticate_def Let_def split: sum.splits Outcome.splits)
  from touch_id_ask_Approved [OF this] show ?thesis
    by (auto simp: touched_in_time_def map_err_def split: sum.splits)
qed

lemma ask_Some: "ask e run = Inr (Some yes) \<Longrightarrow> \<exists>a. prompter_wait e run = Inr (Some a) \<and> yes = typed_yes a"
  by (auto simp: ask_def map_ok_Inr_iff typed_yes_def eq_commute [of "Some _"])

lemma ask_authentication_Some:
  assumes "ask_authentication e run = Inr (Some ())"
  shows "\<exists>a. prompter_wait e run = Inr (Some a) \<and> trimmed a = []"
proof -
  obtain r where r: "prompter_wait e run = Inr r"
    "(case r of None \<Rightarrow> None | Some answer \<Rightarrow> if trimmed answer = [] then Some () else None) = Some ()"
    using assms unfolding ask_authentication_def and_then_Inr_iff by blast
  then show ?thesis by (cases r) (auto split: if_splits)
qed

lemma decide_Prompt:
  assumes "seconds now < rq_expires_at (or_request opened)"
  shows "decide X i (Prompt run) now opened =
    and_then (ask (rq_expires_at (or_request opened)) run) (\<lambda>r. case r of None \<Rightarrow> Inr None
      | Some yes \<Rightarrow> map_ok Some (if yes then approve X i opened (approval_reason_for_raw (or_request opened))
          else deny X i opened (approval_reason_for_raw (or_request opened))))"
  using assms by (simp add: decide_def Let_def)

lemma decide_authentication_Prompt:
  assumes "seconds now < aq_expires_at (oa_request opened)"
  shows "decide_authentication X i (Prompt run) now opened =
    and_then (ask_authentication (aq_expires_at (oa_request opened)) run) (\<lambda>r. case r of None \<Rightarrow> Inr None
      | Some _ \<Rightarrow> map_ok Some (authenticate X i opened (authentication_reason (oa_request opened))))"
  using assms by (simp add: decide_authentication_def Let_def)

text \<open>C11: the agent signs a verdict only for an answer. An approval needs the line \<open>y\<close> at the terminal, a sheet touched on an unlocked
  screen, or the test switch; a denial needs another line or the switch. Each must come in before its timer fires, and no prompt is
  shown and no sheet raised for an expired request. A line that waited in the channel when the turn of the prompt came never answers:
  the answer was typed after the prompt was shown, or it was typed before without having reached the channel. Silence, an answer after
  the timer, a dismissed sheet and an expired request sign nothing.\<close>

theorem verdict_needs_answer:
  assumes "decide X i d now opened = Inr (Some v)"
  shows "seconds now < rq_expires_at (or_request opened) \<and>
    (approve X i opened (approval_reason_for_raw (or_request opened)) = Inr v \<and>
       (d = Auto True \<or> (\<exists>a. answered_by d (rq_expires_at (or_request opened)) a \<and> typed_yes a)
        \<or> touched_in_time d (rq_expires_at (or_request opened)))
     \<or> deny X i opened (approval_reason_for_raw (or_request opened)) = Inr v \<and>
       (d = Auto False \<or> (\<exists>a. answered_by d (rq_expires_at (or_request opened)) a \<and> \<not> typed_yes a)))"
proof (cases d)
  case (Auto b)
  with assms show ?thesis
    by (cases b) (auto simp: decide_def Let_def map_ok_Inr_iff not_le split: if_splits)
next
  case (Prompt run)
  with assms have live: "seconds now < rq_expires_at (or_request opened)"
    by (auto simp: decide_def Let_def not_le split: if_splits)
  obtain r where r: "ask (rq_expires_at (or_request opened)) run = Inr r"
    "(case r of None \<Rightarrow> Inr None | Some yes \<Rightarrow> map_ok Some
       (if yes then approve X i opened (approval_reason_for_raw (or_request opened))
        else deny X i opened (approval_reason_for_raw (or_request opened)))) = Inr (Some v)"
    using assms unfolding Prompt decide_Prompt [OF live] and_then_Inr_iff by blast
  then obtain yes where y: "ask (rq_expires_at (or_request opened)) run = Inr (Some yes)"
    "(if yes then approve X i opened (approval_reason_for_raw (or_request opened))
      else deny X i opened (approval_reason_for_raw (or_request opened))) = Inr v"
    by (cases r) (simp_all add: map_ok_Inr_iff)
  then obtain a where a: "prompter_wait (rq_expires_at (or_request opened)) run = Inr (Some a)" "yes = typed_yes a"
    using ask_Some by blast
  with Prompt have "answered_by d (rq_expires_at (or_request opened)) a" by (simp add: prompter_wait_answered)
  with live y(2) a(2) show ?thesis by (auto split: if_splits)
next
  case (TouchId p)
  with assms have "seconds now < rq_expires_at (or_request opened)" "mac_decide X p i opened = Inr (Some v)"
    by (auto simp: decide_def Let_def not_le split: if_splits)
  with TouchId mac_decide_Some show ?thesis by blast
qed

text \<open>a sudo authentication is answered only by a device with a Secure Enclave key, by an empty line typed or a sheet touched
  before the request expires; the test switch never answers it, either way.\<close>

theorem authentication_needs_answer:
  assumes "decide_authentication X i d now opened = Inr (Some v)"
  shows "seconds now < aq_expires_at (oa_request opened) \<and> identity_may_authenticate i \<and>
    authenticate X i opened (authentication_reason (oa_request opened)) = Inr v \<and>
    ((\<exists>a. answered_by d (aq_expires_at (oa_request opened)) a \<and> trimmed a = [])
     \<or> touched_in_time d (aq_expires_at (oa_request opened)))"
proof -
  have live: "seconds now < aq_expires_at (oa_request opened)"
    using assms by (auto simp: decide_authentication_def Let_def not_le split: if_splits)
  have kind: "authenticate X i opened reason = Inr v \<Longrightarrow> identity_may_authenticate i" for reason
    by (auto simp: authenticate_def identity_may_authenticate_def split: if_splits)
  show ?thesis
  proof (cases d)
    case (Auto b)
    with assms live show ?thesis by (simp add: decide_authentication_def Let_def)
  next
    case (Prompt run)
    obtain r where r: "ask_authentication (aq_expires_at (oa_request opened)) run = Inr r"
      "(case r of None \<Rightarrow> Inr None | Some _ \<Rightarrow>
         map_ok Some (authenticate X i opened (authentication_reason (oa_request opened)))) = Inr (Some v)"
      using assms unfolding Prompt decide_authentication_Prompt [OF live] and_then_Inr_iff by blast
    from r(2) have u: "r = Some ()" by (cases r) simp_all
    from r(2) have v: "authenticate X i opened (authentication_reason (oa_request opened)) = Inr v"
      by (simp add: u map_ok_Inr_iff)
    from r(1) obtain a where "prompter_wait (aq_expires_at (oa_request opened)) run = Inr (Some a)" "trimmed a = []"
      using ask_authentication_Some unfolding u by blast
    with Prompt live v kind show ?thesis using prompter_wait_answered by blast
  next
    case (TouchId p)
    with assms live have "mac_authenticate X p i opened = Inr (Some v)"
      by (auto simp: decide_authentication_def Let_def)
    with TouchId live mac_authenticate_Some kind show ?thesis by blast
  qed
qed

text \<open>a screen that unlocks in time gets its sheet: if it stays unlocked from some instant on and sleeps are late by at
  most \<open>d\<close>, the sheet is raised at most one poll and \<open>d\<close> after that instant, provided the request is alive then.\<close>

theorem unlocked_screen_gets_sheet:
  assumes "in_calendar e" and "\<And>t. u \<le> t \<Longrightarrow> \<not> locked t" and "\<And>t. late t \<le> d" and "now \<le> u"
    and "u + int LOCK_POLL + int d < e * 1000000000"
  shows "\<exists>t r. wait_unlocked locked late e now = Some (t, r) \<and> t \<le> u + int LOCK_POLL + int d"
  using assms
proof (induction locked late e now rule: wait_unlocked.induct)
  case (1 locked late e now)
  have r: "remaining_until e now = Some (nat (e * 1000000000 - now))"
    using 1(2,5,6) by (auto simp: remaining_until_iff)
  show ?case
  proof (cases "locked now")
    case False
    with r 1(5) show ?thesis by (simp add: wait_unlocked.simps [of _ _ _ now])
  next
    case True
    let ?next = "now + int (min LOCK_POLL (nat (e * 1000000000 - now))) + int (late now)"
    have step: "wait_unlocked locked late e now = wait_unlocked locked late e ?next"
      using True r by (simp add: wait_unlocked.simps [of _ _ _ now])
    have l: "int (late now) \<le> int d" using 1(4) by simp
    show ?thesis
    proof (cases "?next \<le> u")
      case True
      with 1(1) [OF r] \<open>locked now\<close> 1(2-4,6) show ?thesis unfolding step by blast
    next
      case False
      then have "\<not> locked ?next" using 1(3) by simp
      moreover have b: "?next \<le> u + int LOCK_POLL + int d" using 1(5) l by linarith
      moreover have "remaining_until e ?next = Some (nat (e * 1000000000 - ?next))"
        using 1(2,6) b by (auto simp: remaining_until_iff)
      ultimately show ?thesis unfolding step by (simp add: wait_unlocked.simps [of _ _ _ ?next])
    qed
  qed
qed

text \<open>A terminal on which \<open>Y\<close> is typed two seconds after the prompt; a sheet raised a second after the screen unlocks.\<close>

definition sample_prompt :: prompt_run where
  "sample_prompt = \<lparr>pt_turn = 1010000000000, pt_channel = [''n'', ''n''], pt_backlog = [], pt_moves = [], pt_handover = 0,
     pt_next = Some (2000000000, Line ''Y''), pt_late = 0\<rparr>"

lemma sample_typed: "ask 1090 sample_prompt = Inr (Some True)"
  by (simp add: sample_prompt_def ask_def prompter_wait_def remaining_until_def in_calendar_def trimmed_def chars_of_ascii lower_scalar_def
      trim_def is_whitespace_def map_ok_def)

theorem verdict_needs_answer_witness:
  "\<exists>v. decide sample_agent sample_enclave (Prompt sample_prompt) 1010000000000
      \<lparr>or_request = sample_request, or_raw = [1, 2]\<rparr> = Inr (Some v) \<and>
    approve sample_agent sample_enclave \<lparr>or_request = sample_request, or_raw = [1, 2]\<rparr> (approval_reason_for_raw sample_request) = Inr v"
proof -
  let ?o = "\<lparr>or_request = sample_request, or_raw = [1, 2]\<rparr>" and ?d = "Prompt sample_prompt"
  have e: "rq_expires_at sample_request = 1090" by (simp add: sample_request_def)
  obtain v where v: "approve sample_agent sample_enclave ?o (approval_reason_for_raw sample_request) = Inr v"
    using sample_signs [OF sample_agent_challenges(1)] by (fastforce simp: approve_def)
  have d: "decide sample_agent sample_enclave ?d 1010000000000 ?o = Inr (Some v)"
    by (subst decide_Prompt) (simp_all add: e seconds_def sample_typed v and_then_def map_ok_def)
  from verdict_needs_answer [OF d] v d show ?thesis by blast
qed

text \<open>A line typed before the prompt can still answer it: when eight lines fill the channel and the reader thread holds the ninth, the ninth
  is handed over after the channel was emptied, if the thread runs only then.\<close>

theorem ninth_line_answers:
  assumes "length channel = CHANNEL_SLOTS" "in_calendar e" "turn < e * 1000000000"
  shows "prompter_wait e \<lparr>pt_turn = turn, pt_channel = channel, pt_backlog = [line], pt_moves = [], pt_handover = 0,
     pt_next = fresh, pt_late = late\<rparr> = Inr (Some line)"
proof -
  have "drain_lines [] channel [line] = ([], [line])" for channel by (induction channel) auto
  then show ?thesis using assms(2,3) by (simp add: prompter_wait_def remaining_until_def)
qed

theorem ninth_line_answers_witness:
  "ask 1090 \<lparr>pt_turn = 1010000000000, pt_channel = replicate 8 ''n'', pt_backlog = [''Y''], pt_moves = [], pt_handover = 0,
     pt_next = None, pt_late = 0\<rparr> = Inr (Some True)"
proof -
  have "prompter_wait 1090 \<lparr>pt_turn = 1010000000000, pt_channel = replicate 8 ''n'', pt_backlog = [''Y''], pt_moves = [], pt_handover = 0,
     pt_next = None, pt_late = 0\<rparr> = Inr (Some ''Y'')"
    by (rule ninth_line_answers) (simp_all add: CHANNEL_SLOTS_def in_calendar_def)
  then show ?thesis by (simp add: ask_def trimmed_def chars_of_ascii lower_scalar_def trim_def is_whitespace_def map_ok_def)
qed

definition sample_sheet :: TouchIdPrompt where
  "sample_sheet = \<lparr>tp_turn = 1010000000000, tp_locked = (\<lambda>t. t < 1010500000000), tp_late = (\<lambda>_. 0), tp_takes = (\<lambda>_. Some 3000000000), tp_flag_late = 0\<rparr>"

lemma sample_sheet_raised:
  "wait_unlocked (tp_locked sample_sheet) (tp_late sample_sheet) 1090 (tp_turn sample_sheet) = Some (1011000000000, 79000000000)"
  by (simp add: wait_unlocked.simps [of _ _ _ 1010000000000] wait_unlocked.simps [of _ _ _ 1011000000000]
      sample_sheet_def remaining_until_def in_calendar_def LOCK_POLL_def)

theorem authentication_needs_answer_witness:
  "\<exists>v. decide_authentication sample_agent sample_enclave (TouchId sample_sheet) 1010000000000
      \<lparr>oa_request = sample_auth_request, oa_raw = [7]\<rparr> = Inr (Some v) \<and>
    identity_may_authenticate sample_enclave \<and> touched_in_time (TouchId sample_sheet) 1090"
proof -
  let ?o = "\<lparr>oa_request = sample_auth_request, oa_raw = [7]\<rparr>"
  have e: "aq_expires_at sample_auth_request = 1090" by (simp add: sample_auth_request_def)
  have k: "device_kind sample_enclave = SecureEnclave"
    by (simp add: device_kind_def signer_kind_def sample_identity_def)
  obtain v where v: "authenticate sample_agent sample_enclave ?o (authentication_reason sample_auth_request) = Inr v"
    using sample_signs [OF sample_agent_challenges(3)] k by (fastforce simp: authenticate_def)
  have "touch_id_ask sample_sheet 1090 (Inr v) = Inr (Outcome.Approved v)"
    by (simp add: touch_id_ask_def sample_sheet_raised) (simp add: sample_sheet_def)
  then have d: "decide_authentication sample_agent sample_enclave (TouchId sample_sheet) 1010000000000 ?o = Inr (Some v)"
    by (simp add: decide_authentication_def mac_authenticate_def Let_def e v seconds_def map_err_def)
  have "\<not> answered_by (TouchId sample_sheet) n a" for n a by (simp add: answered_by_def typed_in_time_def typed_ahead_def)
  with authentication_needs_answer [OF d] d e show ?thesis by auto
qed

theorem unlocked_screen_gets_sheet_witness:
  "\<exists>t r. wait_unlocked (tp_locked sample_sheet) (tp_late sample_sheet) 1090 (tp_turn sample_sheet) = Some (t, r) \<and> t \<le> 1011500000000"
proof -
  have "in_calendar 1090" "tp_turn sample_sheet \<le> 1010500000000"
    "\<And>t. 1010500000000 \<le> t \<Longrightarrow> \<not> tp_locked sample_sheet t" "\<And>t. tp_late sample_sheet t \<le> 0"
    by (simp_all add: in_calendar_def sample_sheet_def)
  with unlocked_screen_gets_sheet [of 1090 1010500000000 "tp_locked sample_sheet" "tp_late sample_sheet" 0 "tp_turn sample_sheet"]
  show ?thesis by (simp add: LOCK_POLL_def)
qed

section \<open>Late cancellations\<close>

datatype canceller_call = CallCancel "64 word" | CallArm | CallDisarm

fun canceller_run :: "canceller_call list \<Rightarrow> CancelState \<Rightarrow> CancelState \<times> bool" where
  "canceller_run [] s = (s, False)"
| "canceller_run (CallCancel n # cs) s =
     (let (s, a) = canceller_cancel n s; (s, b) = canceller_run cs s in (s, a \<or> b))"
| "canceller_run (CallArm # cs) s =
     (let (s, a) = canceller_arm s; (s, b) = canceller_run cs s in (s, a \<or> b))"
| "canceller_run (CallDisarm # cs) s = canceller_run cs (canceller_disarm s)"

lemma no_own_cancel:
  "\<not> cs_cancelled s \<Longrightarrow> cs_attempt s = n \<Longrightarrow> CallCancel n \<notin> set cs \<Longrightarrow> \<not> snd (canceller_run cs s)"
  by (induction cs s rule: canceller_run.induct)
    (auto simp: canceller_cancel_def canceller_arm_def canceller_disarm_def split: prod.splits)

text \<open>Whatever timers of earlier attempts still fire, a sheet is invalidated only by its own attempt's cancellation.\<close>

lemma stale_cancellations_harmless:
  assumes "canceller_begin s = (s', n)" and "CallCancel n \<notin> set cs"
  shows "\<not> snd (canceller_run cs s')"
  by (rule no_own_cancel [OF _ _ assms(2)]) (use assms(1) in \<open>auto simp: canceller_begin_def\<close>)

end
