(* ===== verification/Server_Tables.thy ===== *)
theory Server_Tables
  imports Tool_V1 Socket_V1 Nats_Policy
begin

text \<open>
  The tables of the server's SQLite store (\<open>server/src/db.rs\<close>): one record per row type, a database as the
  lists of its rows in insertion order, and the statements on the push queue that several operations share.
  The command, authentication and tool lanes have tables of their own with the same columns, so requests
  and sealed bodies are functions of the lane; a column a lane does not have is \<open>None\<close>. An operation
  returns \<open>Inl\<close> when its transaction is rolled back, so a failed operation leaves the database as it was;
  faults of the disk are not modelled. JSON forms and URL parsing are arguments.
\<close>

section \<open>Rows\<close>

datatype lane = RequestRows | AuthRows | ToolRows

record device_row =
  de_fingerprint :: string
  de_credential_id :: string
  de_api_token_hash :: bytes
  de_public_record_json :: string
  de_active :: bool
  de_updated_at :: i64

record enrollment_row =
  er_id :: string
  er_secret_hash :: bytes
  er_status :: string
  er_expires_at :: i64
  er_reply_subject :: string
  er_submission_hash :: "bytes option"
  er_submission_json :: "bytes option"
  er_fingerprint :: "string option"
  er_updated_at :: i64

record request_row =
  rr_id :: string
  rr_envelope_hash :: bytes
  rr_envelope_json :: bytes
  rr_host :: "string option"
  rr_user :: "string option"
  rr_issued_at :: i64
  rr_expires_at :: i64
  rr_state :: string
  rr_decision_hash :: "bytes option"
  rr_created_at :: i64
  rr_resolved_at :: "i64 option"

record body_row =
  br_request_id :: string
  br_fingerprint :: string
  br_body_json :: bytes

record tombstone_row =
  ts_kind :: string
  ts_object_id :: string
  ts_payload_hash :: bytes
  ts_expires_at :: i64

record outbox_row =
  ob_id :: int
  ob_kind :: string
  ob_dedupe_key :: string
  ob_subject :: string
  ob_payload :: bytes
  ob_created_at :: i64
  ob_sent_at :: "i64 option"
  ob_attempts :: int
  ob_expires_at :: "i64 option"

record endpoint_row =
  pe_id :: string
  pe_endpoint :: string
  pe_p256dh :: bytes
  pe_auth :: bytes
  pe_expiration_at :: "i64 option"
  pe_installation_token_hash :: "bytes option"
  pe_created_at :: i64
  pe_updated_at :: i64
  pe_disabled_at :: "i64 option"
  pe_last_error :: "string option"

record subscription_row =
  su_id :: string
  su_endpoint_id :: string
  su_device_fingerprint :: string
  su_created_at :: i64
  su_updated_at :: i64
  su_disabled_at :: "i64 option"

record push_row =
  po_id :: int
  po_request_kind :: lane
  po_request_id :: string
  po_endpoint_id :: string
  po_payload :: bytes
  po_created_at :: i64
  po_available_at :: i64
  po_attempts :: int
  po_sent_at :: "i64 option"
  po_abandoned_at :: "i64 option"
  po_claim_token :: "string option"
  po_claimed_until :: "i64 option"
  po_last_error :: "string option"

record db =
  db_devices :: "device_row list"
  db_enrollments :: "enrollment_row list"
  db_requests :: "lane \<Rightarrow> request_row list"
  db_bodies :: "lane \<Rightarrow> body_row list"
  db_tombstones :: "tombstone_row list"
  db_outbox :: "outbox_row list"
  db_endpoints :: "endpoint_row list"
  db_subscriptions :: "subscription_row list"
  db_push_outbox :: "push_row list"

text \<open>The schema creates every table empty.\<close>

definition empty_db :: db where
  "empty_db = \<lparr>db_devices = [], db_enrollments = [], db_requests = (\<lambda>_. []), db_bodies = (\<lambda>_. []),
     db_tombstones = [], db_outbox = [], db_endpoints = [], db_subscriptions = [], db_push_outbox = []\<rparr>"

record parsed_url =
  ur_scheme :: string
  ur_username :: string
  ur_password :: "string option"
  ur_fragment :: "string option"
  ur_host_str :: "string option"
  ur_host_is_ip :: bool
  ur_port :: "nat option"

text \<open>What the store calls outside the repository: JSON, the URL parser, P-256 points.\<close>

record server_crates =
  sx_json_kind :: "string \<Rightarrow> string option"
  sx_device_to_string :: "DevicePublicRecordV1 \<Rightarrow> string + string"
  sx_device_from_str :: "string \<Rightarrow> string + DevicePublicRecordV1"
  sx_submission_to_vec :: "EnrollmentSubmissionV1 \<Rightarrow> string + bytes"
  sx_submission_from_slice :: "bytes \<Rightarrow> string + EnrollmentSubmissionV1"
  sx_body_to_vec :: "SealedDeviceBodyV1 \<Rightarrow> string + bytes"
  sx_tool_body_to_vec :: "ToolSealedBodyV1 \<Rightarrow> string + bytes"
  sx_decision_to_vec :: "DecisionV1 \<Rightarrow> string + bytes"
  sx_auth_decision_to_vec :: "AuthDecisionV1 \<Rightarrow> string + bytes"
  sx_tool_decision_to_vec :: "ToolApprovalDecisionV1 \<Rightarrow> string + bytes"
  sx_delivery_to_vec :: "DeliveryV1 \<Rightarrow> string + bytes"
  sx_tool_delivery_to_vec :: "ToolDeliveryV1 \<Rightarrow> string + bytes"
  sx_push_payload :: "lane \<Rightarrow> string \<Rightarrow> string + bytes"
  sx_url_parse :: "string \<Rightarrow> parsed_url option"
  sx_p256_point :: "bytes \<Rightarrow> bool"

definition SERVER_REQUEST_RETENTION_SECS :: i64 where "SERVER_REQUEST_RETENTION_SECS = 5 * 60"
definition PUSH_MAX_ENDPOINT_BYTES :: nat where "PUSH_MAX_ENDPOINT_BYTES = 2048"
definition PUSH_AUTH_BYTES :: nat where "PUSH_AUTH_BYTES = 16"
definition PUSH_P256DH_BYTES :: nat where "PUSH_P256DH_BYTES = 65"
definition PUSH_MAX_ATTEMPTS :: int where "PUSH_MAX_ATTEMPTS = 5"
definition PUSH_LEASE_SECS :: i64 where "PUSH_LEASE_SECS = 30"
definition PUSH_DISABLED_RETENTION_SECS :: i64 where "PUSH_DISABLED_RETENTION_SECS = 30 * 24 * 60 * 60"

section \<open>Statements\<close>

text \<open>A new \<open>INTEGER PRIMARY KEY\<close> is one more than the largest in the table.\<close>

definition next_rowid :: "int list \<Rightarrow> int" where
  "next_rowid ids = (if ids = [] then 1 else Max (set ids) + 1)"

definition update_where :: "('r \<Rightarrow> bool) \<Rightarrow> ('r \<Rightarrow> 'r) \<Rightarrow> 'r list \<Rightarrow> 'r list" where
  "update_where p f rows = map (\<lambda>r. if p r then f r else r) rows"

definition changed :: "('r \<Rightarrow> bool) \<Rightarrow> 'r list \<Rightarrow> nat" where
  "changed p rows = length (filter p rows)"

text \<open>\<open>UNIQUE(kind, dedupe_key)\<close>: a plain insert of a key that is there fails.\<close>

definition outbox_has :: "string \<Rightarrow> string \<Rightarrow> db \<Rightarrow> bool" where
  "outbox_has kind key d \<longleftrightarrow> (\<exists>x \<in> set (db_outbox d). ob_kind x = kind \<and> ob_dedupe_key x = key)"

definition outbox_append :: "string \<Rightarrow> string \<Rightarrow> string \<Rightarrow> bytes \<Rightarrow> i64 \<Rightarrow> i64 option \<Rightarrow> db \<Rightarrow> db" where
  "outbox_append kind key subject payload created expires d =
     d\<lparr>db_outbox := db_outbox d @ [\<lparr>ob_id = next_rowid (map ob_id (db_outbox d)), ob_kind = kind, ob_dedupe_key = key,
        ob_subject = subject, ob_payload = payload, ob_created_at = created, ob_sent_at = None, ob_attempts = 0,
        ob_expires_at = expires\<rparr>]\<rparr>"

definition outbox_insert :: "string \<Rightarrow> string \<Rightarrow> string \<Rightarrow> bytes \<Rightarrow> i64 \<Rightarrow> i64 option \<Rightarrow> db \<Rightarrow> string + db" where
  "outbox_insert kind key subject payload created expires d =
     (if outbox_has kind key d then Inl ''UNIQUE constraint failed: outbox.kind, outbox.dedupe_key''
      else Inr (outbox_append kind key subject payload created expires d))"

text \<open>\<open>COALESCE(json_extract(public_record_json, '$.kind'), 'webauthn')\<close>.\<close>

definition stored_kind :: "server_crates \<Rightarrow> device_row \<Rightarrow> string" where
  "stored_kind S d = (case sx_json_kind S (de_public_record_json d) of None \<Rightarrow> ''webauthn'' | Some k \<Rightarrow> k)"

definition live_endpoint :: "i64 \<Rightarrow> endpoint_row \<Rightarrow> bool" where
  "live_endpoint now e \<longleftrightarrow> pe_disabled_at e = None \<and>
     (case pe_expiration_at e of None \<Rightarrow> True | Some t \<Rightarrow> t > now)"

definition has_body :: "db \<Rightarrow> lane \<Rightarrow> string \<Rightarrow> string \<Rightarrow> bool" where
  "has_body d lane request_id fingerprint \<longleftrightarrow>
     (\<exists>b \<in> set (db_bodies d lane). br_request_id b = request_id \<and> br_fingerprint b = fingerprint)"

definition PUSH_ELIGIBLE :: "db \<Rightarrow> i64 \<Rightarrow> lane \<Rightarrow> string \<Rightarrow> string \<Rightarrow> bool" where
  "PUSH_ELIGIBLE d now lane request_id endpoint_id \<longleftrightarrow>
     (\<exists>e \<in> set (db_endpoints d). \<exists>s \<in> set (db_subscriptions d). \<exists>v \<in> set (db_devices d).
        su_endpoint_id s = pe_id e \<and> de_fingerprint v = su_device_fingerprint s \<and>
        pe_id e = endpoint_id \<and> live_endpoint now e \<and> su_disabled_at s = None \<and> de_active v \<and>
        has_body d lane request_id (de_fingerprint v))"

text \<open>\<open>INSERT OR IGNORE\<close> under \<open>UNIQUE(request_kind, request_id, endpoint_id)\<close>.\<close>

definition push_insert :: "lane \<Rightarrow> string \<Rightarrow> bytes \<Rightarrow> i64 \<Rightarrow> string \<Rightarrow> push_row list \<Rightarrow> push_row list" where
  "push_insert lane request_id payload now endpoint_id rows =
     (if \<exists>p \<in> set rows. po_request_kind p = lane \<and> po_request_id p = request_id \<and> po_endpoint_id p = endpoint_id
      then rows
      else rows @ [\<lparr>po_id = next_rowid (map po_id rows), po_request_kind = lane, po_request_id = request_id,
        po_endpoint_id = endpoint_id, po_payload = payload, po_created_at = now, po_available_at = now,
        po_attempts = 0, po_sent_at = None, po_abandoned_at = None, po_claim_token = None,
        po_claimed_until = None, po_last_error = None\<rparr>])"

definition enqueue_push :: "lane \<Rightarrow> string \<Rightarrow> bytes \<Rightarrow> i64 \<Rightarrow> db \<Rightarrow> db" where
  "enqueue_push lane request_id payload now d =
     d\<lparr>db_push_outbox := fold (\<lambda>e rows. if PUSH_ELIGIBLE d now lane request_id (pe_id e)
        then push_insert lane request_id payload now (pe_id e) rows else rows) (db_endpoints d) (db_push_outbox d)\<rparr>"

definition request_open :: "db \<Rightarrow> lane \<Rightarrow> string \<Rightarrow> i64 \<Rightarrow> bool" where
  "request_open d lane request_id now \<longleftrightarrow>
     (\<exists>r \<in> set (db_requests d lane). rr_id r = request_id \<and> rr_state r = ''pending'' \<and> rr_expires_at r > now)"

definition unclaimed :: "i64 \<Rightarrow> push_row \<Rightarrow> bool" where
  "unclaimed now p \<longleftrightarrow> (case po_claimed_until p of None \<Rightarrow> True | Some t \<Rightarrow> t \<le> now)"

definition unfinished :: "push_row \<Rightarrow> bool" where
  "unfinished p \<longleftrightarrow> po_sent_at p = None \<and> po_abandoned_at p = None"

definition abandon_ineligible_pushes :: "i64 \<Rightarrow> db \<Rightarrow> db" where
  "abandon_ineligible_pushes now d =
     (let exhausted = update_where (\<lambda>p. unfinished p \<and> po_attempts p \<ge> PUSH_MAX_ATTEMPTS \<and> unclaimed now p)
            (\<lambda>p. p\<lparr>po_abandoned_at := Some now, po_claim_token := None, po_claimed_until := None,
                    po_last_error := Some ''attempt_limit''\<rparr>) (db_push_outbox d)
      in d\<lparr>db_push_outbox := update_where (\<lambda>p. unfinished p \<and>
            (\<not> request_open d (po_request_kind p) (po_request_id p) now
             \<or> \<not> PUSH_ELIGIBLE d now (po_request_kind p) (po_request_id p) (po_endpoint_id p)))
            (\<lambda>p. p\<lparr>po_abandoned_at := Some now, po_claim_token := None, po_claimed_until := None\<rparr>) exhausted\<rparr>)"

definition browser_of_token :: "server_crates \<Rightarrow> db \<Rightarrow> bytes \<Rightarrow> device_row option" where
  "browser_of_token S d token_hash =
     find (\<lambda>v. de_api_token_hash v = token_hash \<and> de_active v \<and> stored_kind S v = ''webauthn'') (db_devices d)"

end
