(* ===== verification/Server_Requests.thy ===== *)
theory Server_Requests
  imports Server_Tables
begin

text \<open>
  Requests, decisions and the outbox of the server's store (\<open>server/src/db.rs\<close>): ingestion of command,
  authentication and tool envelopes, the sealed body a token may read, the first decision that resolves a
  request, the retained verdicts, the outbox lanes and cleanup. \<open>clock\<close> is SQLite's own \<open>unixepoch()\<close>.
\<close>

datatype InsertResult = Inserted | Identical | Conflict

datatype RequestLifecycle = LifecyclePending | LifecycleGone

record SealedRequest =
  sq_body_json :: bytes
  sq_expires_at :: i64

record OutboxItem =
  oi_id :: int
  oi_subject :: string
  oi_payload :: bytes

section \<open>Ingestion\<close>

definition stored_request :: "db \<Rightarrow> lane \<Rightarrow> string \<Rightarrow> request_row option" where
  "stored_request d lane request_id = find (\<lambda>r. rr_id r = request_id) (db_requests d lane)"

definition insert_request :: "lane \<Rightarrow> request_row \<Rightarrow> db \<Rightarrow> db" where
  "insert_request lane row d = d\<lparr>db_requests := (db_requests d)(lane := db_requests d lane @ [row])\<rparr>"

text \<open>The loop over the sealed bodies; a second body for one device breaks the primary key.\<close>

fun insert_bodies :: "lane \<Rightarrow> string \<Rightarrow> (string \<times> (string + bytes)) list \<Rightarrow> db \<Rightarrow> string + db" where
  "insert_bodies lane request_id [] d = Inr d"
| "insert_bodies lane request_id ((fingerprint, body) # bodies) d =
     and_then body (\<lambda>json.
       if has_body d lane request_id fingerprint then Inl ''UNIQUE constraint failed: sealed bodies''
       else insert_bodies lane request_id bodies (d\<lparr>db_bodies := (db_bodies d)(lane := db_bodies d lane @
         [\<lparr>br_request_id = request_id, br_fingerprint = fingerprint, br_body_json = json\<rparr>])\<rparr>))"

definition record_conflict :: "string \<Rightarrow> string \<Rightarrow> bytes \<Rightarrow> i64 \<Rightarrow> db \<Rightarrow> db" where
  "record_conflict kind request_id hash expires d =
     (if \<exists>t \<in> set (db_tombstones d). ts_kind t = kind \<and> ts_object_id t = request_id \<and> ts_payload_hash t = hash then d
      else d\<lparr>db_tombstones := db_tombstones d @ [\<lparr>ts_kind = kind, ts_object_id = request_id, ts_payload_hash = hash,
        ts_expires_at = expires\<rparr>]\<rparr>)"

definition conflict_expiry :: "i64 \<Rightarrow> i64 \<Rightarrow> i64" where
  "conflict_expiry expires_at now = min expires_at (saturating_add now SERVER_REQUEST_RETENTION_SECS)"

text \<open>Recipients that are enrolled, active browsers, one for each joined row.\<close>

definition active_browsers :: "server_crates \<Rightarrow> db \<Rightarrow> lane \<Rightarrow> string \<Rightarrow> (body_row \<times> device_row) list" where
  "active_browsers S d lane request_id =
     filter (\<lambda>(b, v). br_request_id b = request_id \<and> de_fingerprint v = br_fingerprint b \<and> de_active v
        \<and> stored_kind S v = ''webauthn'') (List.product (db_bodies d lane) (db_devices d))"

text \<open>The delivery receipt of the command and authentication lanes, when an enrolled browser is among the recipients.\<close>

definition queue_receipt ::
  "server_crates \<Rightarrow> lane \<Rightarrow> string \<Rightarrow> string \<Rightarrow> i64 \<Rightarrow> i64 \<Rightarrow> db \<Rightarrow> string + InsertResult \<times> db" where
  "queue_receipt S lane key request_id expires_at clock d =
     (if active_browsers S d lane request_id \<noteq> []
      then and_then (sx_delivery_to_vec S (DeliveryV1_for_request request_id)) (\<lambda>delivery.
        map_ok (Pair Inserted) (outbox_insert ''delivery'' key (''oshioki.delivery.'' @ request_id)
          delivery clock (Some expires_at) d))
      else Inr (Inserted, d))"

definition ingest_request ::
  "crates \<Rightarrow> server_crates \<Rightarrow> bytes \<Rightarrow> RequestEnvelopeV1 \<Rightarrow> i64 \<Rightarrow> i64 \<Rightarrow> db \<Rightarrow> string + InsertResult \<times> db" where
  "ingest_request X S raw envelope now clock d =
     (if length raw > MAX_ENVELOPE_BYTES then Inl ''oversized request envelope''
      else and_then (map_err (\<lambda>_. ''validate envelope'') (RequestEnvelopeV1_validate_at X envelope now)) (\<lambda>_.
        let hash = sha256 X raw; request_id = en_request_id envelope
        in case stored_request d RequestRows request_id of
             Some old \<Rightarrow>
               if rr_envelope_hash old = hash then Inr (Identical, d)
               else Inr (Conflict, record_conflict ''request_conflict'' request_id hash
                 (conflict_expiry (en_expires_at envelope) now) d)
           | None \<Rightarrow>
               and_then (insert_bodies RequestRows request_id
                 (map (\<lambda>b. (sb_device_fingerprint b, sx_body_to_vec S b)) (en_sealed envelope))
                 (insert_request RequestRows \<lparr>rr_id = request_id, rr_envelope_hash = hash, rr_envelope_json = raw,
                    rr_host = Some (en_host envelope), rr_user = Some (en_user envelope),
                    rr_issued_at = en_issued_at envelope, rr_expires_at = en_expires_at envelope,
                    rr_state = ''pending'', rr_decision_hash = None, rr_created_at = now, rr_resolved_at = None\<rparr> d))
               (\<lambda>d. and_then (sx_push_payload S RequestRows request_id) (\<lambda>payload.
                 queue_receipt S RequestRows request_id request_id (en_expires_at envelope) clock
                   (enqueue_push RequestRows request_id payload now d)))))"

definition ingest_auth_request ::
  "crates \<Rightarrow> server_crates \<Rightarrow> bytes \<Rightarrow> AuthEnvelopeV1 \<Rightarrow> i64 \<Rightarrow> i64 \<Rightarrow> db \<Rightarrow> string + InsertResult \<times> db" where
  "ingest_auth_request X S raw envelope now clock d =
     (if length raw > MAX_ENVELOPE_BYTES then Inl ''oversized authentication envelope''
      else and_then (map_err (\<lambda>_. ''validate authentication envelope'') (AuthEnvelopeV1_validate_at X envelope now)) (\<lambda>_.
        let hash = sha256 X raw; request_id = ae_request_id envelope
        in case stored_request d AuthRows request_id of
             Some old \<Rightarrow>
               if rr_envelope_hash old = hash then Inr (Identical, d)
               else Inr (Conflict, record_conflict ''auth_request_conflict'' request_id hash
                 (conflict_expiry (ae_expires_at envelope) now) d)
           | None \<Rightarrow>
               and_then (insert_bodies AuthRows request_id
                 (map (\<lambda>b. (sb_device_fingerprint b, sx_body_to_vec S b)) (ae_sealed envelope))
                 (insert_request AuthRows \<lparr>rr_id = request_id, rr_envelope_hash = hash, rr_envelope_json = raw,
                    rr_host = Some (ae_host envelope), rr_user = None,
                    rr_issued_at = ae_issued_at envelope, rr_expires_at = ae_expires_at envelope,
                    rr_state = ''pending'', rr_decision_hash = None, rr_created_at = now, rr_resolved_at = None\<rparr> d))
               (\<lambda>d. and_then (sx_push_payload S AuthRows request_id) (\<lambda>payload.
                 queue_receipt S AuthRows (''auth:'' @ request_id) request_id (ae_expires_at envelope) clock
                   (enqueue_push AuthRows request_id payload now d)))))"

definition ingest_tool_request ::
  "crates \<Rightarrow> server_crates \<Rightarrow> bytes \<Rightarrow> ToolApprovalEnvelopeV1 \<Rightarrow> i64 \<Rightarrow> db \<Rightarrow> string + InsertResult \<times> db" where
  "ingest_tool_request X S raw envelope now d =
     (if length raw > MAX_ENVELOPE_BYTES then Inl ''oversized tool approval envelope''
      else and_then (map_err (\<lambda>_. ''validate tool approval envelope'') (ToolApprovalEnvelopeV1_validate_at X envelope now)) (\<lambda>_.
        let hash = sha256 X raw; request_id = te_request_id envelope
        in case stored_request d ToolRows request_id of
             Some old \<Rightarrow>
               if rr_envelope_hash old = hash then Inr (Identical, d)
               else Inr (Conflict, record_conflict ''tool_request_conflict'' request_id hash
                 (conflict_expiry (te_expires_at envelope) now) d)
           | None \<Rightarrow>
               and_then (insert_bodies ToolRows request_id
                 (map (\<lambda>b. (tb_device_fingerprint b, sx_tool_body_to_vec S b)) (te_sealed envelope))
                 (insert_request ToolRows \<lparr>rr_id = request_id, rr_envelope_hash = hash, rr_envelope_json = raw,
                    rr_host = None, rr_user = None,
                    rr_issued_at = te_issued_at envelope, rr_expires_at = te_expires_at envelope,
                    rr_state = ''pending'', rr_decision_hash = None, rr_created_at = now, rr_resolved_at = None\<rparr> d))
               (\<lambda>d. if length (active_browsers S d ToolRows request_id) \<noteq> length (te_sealed envelope)
                 then Inl ''tool approval recipients must all be active WebAuthn devices''
                 else and_then (sx_push_payload S ToolRows request_id) (\<lambda>payload.
                   and_then (sx_tool_delivery_to_vec S (ToolDeliveryV1_for_request request_id)) (\<lambda>delivery.
                     map_ok (Pair Inserted) (outbox_insert ''tool_delivery'' request_id (''oshioki.tool.delivery.'' @ request_id)
                       delivery now (Some (te_expires_at envelope)) (enqueue_push ToolRows request_id payload now d)))))))"

section \<open>Reading a sealed body\<close>

definition sealed_row ::
  "db \<Rightarrow> lane \<Rightarrow> (device_row \<Rightarrow> bool) \<Rightarrow> string \<Rightarrow> i64 \<Rightarrow> SealedRequest option" where
  "sealed_row d lane ok request_id now =
     (case filter (\<lambda>(r, b, v). rr_id r = request_id \<and> rr_state r = ''pending'' \<and> rr_expires_at r > now
          \<and> br_request_id b = rr_id r \<and> de_fingerprint v = br_fingerprint b \<and> de_active v \<and> ok v)
        (List.product (db_requests d lane) (List.product (db_bodies d lane) (db_devices d))) of
        [] \<Rightarrow> None
      | (r, b, v) # _ \<Rightarrow> Some \<lparr>sq_body_json = br_body_json b, sq_expires_at = rr_expires_at r\<rparr>)"

definition sealed_request_for_token :: "crates \<Rightarrow> string \<Rightarrow> bytes \<Rightarrow> i64 \<Rightarrow> db \<Rightarrow> SealedRequest option" where
  "sealed_request_for_token X request_id token now d =
     sealed_row d RequestRows (\<lambda>v. de_api_token_hash v = sha256 X token) request_id now"

definition sealed_auth_request_for_token :: "crates \<Rightarrow> string \<Rightarrow> bytes \<Rightarrow> i64 \<Rightarrow> db \<Rightarrow> SealedRequest option" where
  "sealed_auth_request_for_token X request_id token now d =
     sealed_row d AuthRows (\<lambda>v. de_api_token_hash v = sha256 X token) request_id now"

definition sealed_tool_request_for_token ::
  "crates \<Rightarrow> server_crates \<Rightarrow> string \<Rightarrow> bytes \<Rightarrow> i64 \<Rightarrow> db \<Rightarrow> SealedRequest option" where
  "sealed_tool_request_for_token X S request_id token now d =
     sealed_row d ToolRows (\<lambda>v. stored_kind S v = ''webauthn'' \<and> de_api_token_hash v = sha256 X token) request_id now"

section \<open>Decisions\<close>

definition owns :: "db \<Rightarrow> lane \<Rightarrow> (device_row \<Rightarrow> bool) \<Rightarrow> string \<Rightarrow> string \<Rightarrow> bool" where
  "owns d lane ok request_id fingerprint \<longleftrightarrow>
     (\<exists>b \<in> set (db_bodies d lane). \<exists>v \<in> set (db_devices d). de_fingerprint v = br_fingerprint b \<and>
        br_request_id b = request_id \<and> br_fingerprint b = fingerprint \<and> de_active v \<and> ok v)"

definition resolve_request :: "lane \<Rightarrow> string \<Rightarrow> bytes \<Rightarrow> i64 \<Rightarrow> db \<Rightarrow> db" where
  "resolve_request lane request_id hash at d =
     d\<lparr>db_requests := (db_requests d)(lane := update_where (\<lambda>r. rr_id r = request_id \<and> rr_state r = ''pending'')
        (\<lambda>r. r\<lparr>rr_state := ''resolved'', rr_decision_hash := Some hash, rr_resolved_at := Some at\<rparr>) (db_requests d lane))\<rparr>"

definition repeated_decision :: "request_row \<Rightarrow> bytes \<Rightarrow> InsertResult" where
  "repeated_decision r hash = (if rr_decision_hash r = Some hash then Identical else Conflict)"

definition queue_decision ::
  "crates \<Rightarrow> server_crates \<Rightarrow> string \<Rightarrow> string \<Rightarrow> DecisionV1 \<Rightarrow> i64 \<Rightarrow> i64 \<Rightarrow> db \<Rightarrow> string + InsertResult \<times> db" where
  "queue_decision X S request_id fingerprint decision now clock d =
     and_then (sx_decision_to_vec S decision) (\<lambda>raw.
       let hash = sha256 X raw
       in case stored_request d RequestRows request_id of
            None \<Rightarrow> Inl ''unknown request''
          | Some r \<Rightarrow>
              if rr_expires_at r \<le> now then Inl ''expired request''
              else if \<not> owns d RequestRows (\<lambda>_. True) request_id fingerprint then Inl ''device does not own request''
              else if rr_state r \<noteq> ''pending'' then Inr (repeated_decision r hash, d)
              else map_ok (Pair Inserted) (outbox_insert ''decision'' request_id (''oshioki.verdict.'' @ request_id) raw clock None
                (resolve_request RequestRows request_id hash clock d)))"

definition queue_auth_decision ::
  "crates \<Rightarrow> server_crates \<Rightarrow> string \<Rightarrow> string \<Rightarrow> AuthDecisionV1 \<Rightarrow> i64 \<Rightarrow> i64 \<Rightarrow> db \<Rightarrow> string + InsertResult \<times> db" where
  "queue_auth_decision X S request_id fingerprint decision now clock d =
     and_then (sx_auth_decision_to_vec S decision) (\<lambda>raw.
       let hash = sha256 X raw
       in case stored_request d AuthRows request_id of
            None \<Rightarrow> Inl ''unknown authentication request''
          | Some r \<Rightarrow>
              if rr_expires_at r \<le> now then Inl ''expired authentication request''
              else if \<not> owns d AuthRows (\<lambda>v. stored_kind S v \<in> {''webauthn'', ''secure-enclave''}) request_id fingerprint
              then Inl ''device does not own authentication request''
              else if rr_state r \<noteq> ''pending'' then Inr (repeated_decision r hash, d)
              else map_ok (Pair Inserted) (outbox_insert ''auth_decision'' request_id (''oshioki.verdict.'' @ request_id) raw clock None
                (resolve_request AuthRows request_id hash clock d)))"

definition queue_tool_decision ::
  "crates \<Rightarrow> server_crates \<Rightarrow> string \<Rightarrow> string \<Rightarrow> ToolApprovalDecisionV1 \<Rightarrow> i64 \<Rightarrow> db \<Rightarrow> string + InsertResult \<times> db" where
  "queue_tool_decision X S request_id fingerprint decision now d =
     and_then (map_err (\<lambda>_. ''validate tool decision'')
         (ToolApprovalWebauthnV1_validate_shape X (ToolApprovalDecisionV1_assertion decision))) (\<lambda>_.
       if tw_request_id (ToolApprovalDecisionV1_assertion decision) \<noteq> request_id then Inl ''tool decision request id mismatch''
       else and_then (sx_tool_decision_to_vec S decision) (\<lambda>raw.
         let hash = sha256 X raw
         in case stored_request d ToolRows request_id of
              None \<Rightarrow> Inl ''unknown tool approval request''
            | Some r \<Rightarrow>
                if rr_expires_at r \<le> now then Inl ''expired tool approval request''
                else if \<not> owns d ToolRows (\<lambda>v. stored_kind S v = ''webauthn'') request_id fingerprint
                then Inl ''device does not own tool approval request''
                else if rr_state r \<noteq> ''pending'' then Inr (repeated_decision r hash, d)
                else map_ok (Pair Inserted) (outbox_insert ''tool_decision'' request_id (''oshioki.tool.verdict.'' @ request_id) raw now None
                  (resolve_request ToolRows request_id hash now d))))"

section \<open>Retained verdicts and lifecycles\<close>

definition retained_payload :: "string \<Rightarrow> string \<Rightarrow> db \<Rightarrow> bytes option" where
  "retained_payload kind request_id d =
     (case rev (sort_key ob_id (filter (\<lambda>x. ob_kind x = kind \<and> ob_dedupe_key x = request_id) (db_outbox d))) of
        [] \<Rightarrow> None | x # _ \<Rightarrow> Some (ob_payload x))"

definition recorded_verdict :: "string \<Rightarrow> db \<Rightarrow> bytes option" where
  "recorded_verdict request_id d = retained_payload ''decision'' request_id d"

definition recorded_auth_verdict :: "string \<Rightarrow> db \<Rightarrow> bytes option" where
  "recorded_auth_verdict request_id d = retained_payload ''auth_decision'' request_id d"

definition lifecycle_of :: "lane \<Rightarrow> string \<Rightarrow> i64 \<Rightarrow> db \<Rightarrow> RequestLifecycle option" where
  "lifecycle_of lane request_id now d =
     map_option (\<lambda>r. if rr_state r = ''pending'' \<and> rr_expires_at r > now then LifecyclePending else LifecycleGone)
       (stored_request d lane request_id)"

definition request_lifecycle :: "string \<Rightarrow> i64 \<Rightarrow> db \<Rightarrow> RequestLifecycle option" where
  "request_lifecycle = lifecycle_of RequestRows"

definition auth_request_lifecycle :: "string \<Rightarrow> i64 \<Rightarrow> db \<Rightarrow> RequestLifecycle option" where
  "auth_request_lifecycle = lifecycle_of AuthRows"

definition tool_request_lifecycle :: "string \<Rightarrow> i64 \<Rightarrow> db \<Rightarrow> RequestLifecycle option" where
  "tool_request_lifecycle = lifecycle_of ToolRows"

section \<open>The outbox\<close>

definition queue_notification :: "string \<Rightarrow> string \<Rightarrow> bytes \<Rightarrow> i64 \<Rightarrow> db \<Rightarrow> db" where
  "queue_notification request_id endpoint payload clock d =
     (if outbox_has ''ntfy'' request_id d then d
      else outbox_append ''ntfy'' request_id endpoint payload clock None d)"

definition pending_outbox_where :: "(outbox_row \<Rightarrow> bool) \<Rightarrow> nat \<Rightarrow> db \<Rightarrow> OutboxItem list" where
  "pending_outbox_where condition limit d =
     map (\<lambda>x. \<lparr>oi_id = ob_id x, oi_subject = ob_subject x, oi_payload = ob_payload x\<rparr>)
       (take limit (sort_key ob_id (filter (\<lambda>x. ob_sent_at x = None \<and> condition x) (db_outbox d))))"

definition pending_verdicts :: "nat \<Rightarrow> db \<Rightarrow> OutboxItem list" where
  "pending_verdicts limit d = pending_outbox_where (\<lambda>x. ob_kind x \<noteq> ''ntfy'') limit d"

definition pending_notifications :: "nat \<Rightarrow> db \<Rightarrow> OutboxItem list" where
  "pending_notifications limit d = pending_outbox_where (\<lambda>x. ob_kind x = ''ntfy'') limit d"

definition stale_delivery :: "i64 \<Rightarrow> outbox_row \<Rightarrow> bool" where
  "stale_delivery now x \<longleftrightarrow> ob_kind x \<in> {''delivery'', ''tool_delivery''} \<and> ob_sent_at x = None \<and>
     (case ob_expires_at x of None \<Rightarrow> False | Some t \<Rightarrow> t \<le> now)"

definition expire_stale_deliveries :: "i64 \<Rightarrow> db \<Rightarrow> nat \<times> db" where
  "expire_stale_deliveries now d =
     (changed (stale_delivery now) (db_outbox d), d\<lparr>db_outbox := filter (\<lambda>x. \<not> stale_delivery now x) (db_outbox d)\<rparr>)"

definition mark_outbox_sent :: "int \<Rightarrow> i64 \<Rightarrow> db \<Rightarrow> db" where
  "mark_outbox_sent i clock d =
     d\<lparr>db_outbox := update_where (\<lambda>x. ob_id x = i)
        (\<lambda>x. x\<lparr>ob_sent_at := Some clock, ob_attempts := ob_attempts x + 1\<rparr>) (db_outbox d)\<rparr>"

section \<open>Cleanup\<close>

definition older :: "i64 option \<Rightarrow> i64 \<Rightarrow> bool" where
  "older t bound \<longleftrightarrow> (case t of None \<Rightarrow> False | Some t \<Rightarrow> t < bound)"

text \<open>Deleting a request deletes its sealed bodies.\<close>

definition drop_requests :: "i64 \<Rightarrow> db \<Rightarrow> db" where
  "drop_requests bound d =
     d\<lparr>db_requests := (\<lambda>lane. filter (\<lambda>r. \<not> rr_created_at r < bound) (db_requests d lane)),
       db_bodies := (\<lambda>lane. filter (\<lambda>b. \<not> (\<exists>r \<in> set (db_requests d lane). rr_id r = br_request_id b \<and> rr_created_at r < bound))
         (db_bodies d lane))\<rparr>"

definition finished_at :: "push_row \<Rightarrow> i64 option" where
  "finished_at p = (case po_sent_at p of Some t \<Rightarrow> Some t | None \<Rightarrow> po_abandoned_at p)"

text \<open>The first statement takes the store's lock for itself; it is an operation of its own as well. The others run under one
  lock, so no other operation of the server comes between them.\<close>

definition cleanup :: "i64 \<Rightarrow> db \<Rightarrow> db" where
  "cleanup now d =
     (let d = snd (expire_stale_deliveries now d);
          d = d\<lparr>db_enrollments := update_where (\<lambda>e. er_status e = ''pending'' \<and> er_expires_at e \<le> now)
            (\<lambda>e. e\<lparr>er_status := ''expired''\<rparr>) (db_enrollments d)\<rparr>;
          d = drop_requests (saturating_sub now SERVER_REQUEST_RETENTION_SECS) d;
          d = d\<lparr>db_tombstones := filter (\<lambda>t. \<not> ts_expires_at t < now) (db_tombstones d)\<rparr>;
          d = d\<lparr>db_outbox := filter (\<lambda>x. \<not> older (ob_sent_at x) (now - 86400)) (db_outbox d)\<rparr>;
          d = d\<lparr>db_push_outbox := filter (\<lambda>p. \<not> older (finished_at p) (now - SERVER_REQUEST_RETENTION_SECS)) (db_push_outbox d)\<rparr>
      in d\<lparr>db_subscriptions := filter (\<lambda>s. \<not> (older (su_disabled_at s) (now - PUSH_DISABLED_RETENTION_SECS) \<and>
            (\<exists>e \<in> set (db_endpoints d). pe_id e = su_endpoint_id s \<and> pe_installation_token_hash e = None)))
            (db_subscriptions d)\<rparr>)"

end
