(* ===== verification/Server_Push.thy ===== *)
theory Server_Push
  imports Server_Requests
begin

text \<open>
  Web push in the server's store (\<open>server/src/db.rs\<close>): the policy on endpoints, memberships with the
  capability of an installation, and the queue whose rows a worker claims under a lease. Random
  identifiers are arguments.
\<close>

section \<open>Registration\<close>

definition validate_push_endpoint :: "server_crates \<Rightarrow> string \<Rightarrow> string + unit" where
  "validate_push_endpoint S endpoint =
     (if endpoint = [] \<or> length endpoint > PUSH_MAX_ENDPOINT_BYTES \<or> list_ex is_control (chars_of endpoint)
      then Inl ''invalid push endpoint''
      else and_then (ok_or (sx_url_parse S endpoint) ''parse push endpoint'') (\<lambda>url.
        if ur_scheme url \<noteq> ''https'' \<or> ur_username url \<noteq> [] \<or> ur_password url \<noteq> None \<or> ur_fragment url \<noteq> None
        then Inl ''invalid push endpoint policy''
        else case ur_host_str url of
          None \<Rightarrow> Inl ''push endpoint has no host''
        | Some host \<Rightarrow>
            if ur_host_is_ip url \<or> parse_ip_addr host \<noteq> None \<or> ur_port url = Some 0
            then Inl ''push endpoint host is not allowed'' else Inr ()))"

definition token_char :: "char \<Rightarrow> bool" where
  "token_char c \<longleftrightarrow> (let n = (of_char c :: nat) in
     (48 \<le> n \<and> n \<le> 57) \<or> (65 \<le> n \<and> n \<le> 90) \<or> (97 \<le> n \<and> n \<le> 122) \<or> c = CHR ''-'' \<or> c = CHR ''_'')"

definition installation_token_hash :: "crates \<Rightarrow> string \<Rightarrow> string + bytes" where
  "installation_token_hash X token =
     (if length token \<noteq> 43 \<or> \<not> list_all token_char token then Inl ''invalid installation token''
      else and_then (map_err (\<lambda>_. ''invalid installation token'') (decode_base64url X token)) (\<lambda>bs.
        if length bs \<noteq> 32 \<or> encode_base64url X bs \<noteq> token then Inl ''invalid installation token''
        else Inr (sha256 X bs)))"

definition active_member :: "db \<Rightarrow> string \<Rightarrow> string \<Rightarrow> bool" where
  "active_member d endpoint_id fingerprint \<longleftrightarrow>
     (\<exists>s \<in> set (db_subscriptions d). \<exists>v \<in> set (db_devices d). de_fingerprint v = su_device_fingerprint s \<and>
        su_endpoint_id s = endpoint_id \<and> su_device_fingerprint s = fingerprint \<and> su_disabled_at s = None \<and> de_active v)"

definition endpoint_owned :: "db \<Rightarrow> string \<Rightarrow> bool" where
  "endpoint_owned d endpoint_id \<longleftrightarrow>
     (\<exists>s \<in> set (db_subscriptions d). \<exists>v \<in> set (db_devices d). de_fingerprint v = su_device_fingerprint s \<and>
        su_endpoint_id s = endpoint_id \<and> su_disabled_at s = None \<and> de_active v \<and>
        (\<exists>e \<in> set (db_endpoints d). pe_id e = su_endpoint_id s \<and> pe_disabled_at e = None))"

text \<open>Who may take over a stored endpoint: the holder of its installation token, or an old client that refreshes what it has.\<close>

definition check_capability ::
  "db \<Rightarrow> endpoint_row \<Rightarrow> string \<Rightarrow> bytes \<Rightarrow> bytes \<Rightarrow> bytes option \<Rightarrow> i64 \<Rightarrow> string + db" where
  "check_capability d e fingerprint p256dh auth supplied_hash now =
     (let conflict = Inl ''push endpoint capability conflict; replace browser subscription'';
          member = active_member d (pe_id e) fingerprint
      in case pe_installation_token_hash e of
           Some stored_hash \<Rightarrow>
             (case supplied_hash of
                Some hash \<Rightarrow> if hash = stored_hash then Inr d else conflict
              | None \<Rightarrow>
                  if member \<and> pe_p256dh e = p256dh \<and> pe_auth e = auth
                  then if pe_disabled_at e = None then Inr d else conflict
                  else conflict)
         | None \<Rightarrow>
             if member then Inr d
             else if endpoint_owned d (pe_id e) then Inl ''push endpoint belongs to another active device''
             else Inr (d\<lparr>db_subscriptions := update_where (\<lambda>s. su_endpoint_id s = pe_id e)
               (\<lambda>s. s\<lparr>su_disabled_at := (case su_disabled_at s of None \<Rightarrow> Some now | Some t \<Rightarrow> Some t), su_updated_at := now\<rparr>)
               (db_subscriptions d)\<rparr>))"

definition refresh_endpoint ::
  "string \<Rightarrow> bytes \<Rightarrow> bytes \<Rightarrow> i64 option \<Rightarrow> bytes option \<Rightarrow> i64 \<Rightarrow> db \<Rightarrow> db" where
  "refresh_endpoint endpoint_id p256dh auth expiration_at supplied_hash now d =
     d\<lparr>db_endpoints := update_where (\<lambda>e. pe_id e = endpoint_id)
        (\<lambda>e. e\<lparr>pe_p256dh := p256dh, pe_auth := auth, pe_expiration_at := expiration_at,
           pe_installation_token_hash := (case pe_installation_token_hash e of None \<Rightarrow> supplied_hash | Some h \<Rightarrow> Some h),
           pe_updated_at := now, pe_disabled_at := None, pe_last_error := None\<rparr>) (db_endpoints d)\<rparr>"

definition store_endpoint ::
  "string \<Rightarrow> string \<Rightarrow> string \<Rightarrow> bytes \<Rightarrow> bytes \<Rightarrow> i64 option \<Rightarrow> bytes option \<Rightarrow> i64 \<Rightarrow> db \<Rightarrow> string + string \<times> db" where
  "store_endpoint fresh fingerprint endpoint p256dh auth expiration_at supplied_hash now d =
     (case find (\<lambda>e. pe_endpoint e = endpoint) (db_endpoints d) of
        Some e \<Rightarrow>
          and_then (check_capability d e fingerprint p256dh auth supplied_hash now) (\<lambda>d.
            Inr (pe_id e, refresh_endpoint (pe_id e) p256dh auth expiration_at supplied_hash now d))
      | None \<Rightarrow>
          if \<exists>e \<in> set (db_endpoints d). pe_id e = fresh then Inl ''UNIQUE constraint failed: push_endpoints.id''
          else Inr (fresh, d\<lparr>db_endpoints := db_endpoints d @ [\<lparr>pe_id = fresh, pe_endpoint = endpoint, pe_p256dh = p256dh,
            pe_auth = auth, pe_expiration_at = expiration_at, pe_installation_token_hash = supplied_hash,
            pe_created_at = now, pe_updated_at = now, pe_disabled_at = None, pe_last_error = None\<rparr>]\<rparr>))"

definition store_subscription :: "string \<Rightarrow> string \<Rightarrow> string \<Rightarrow> i64 \<Rightarrow> db \<Rightarrow> string + string \<times> db" where
  "store_subscription candidate endpoint_id fingerprint now d =
     (case find (\<lambda>s. su_endpoint_id s = endpoint_id \<and> su_device_fingerprint s = fingerprint) (db_subscriptions d) of
        Some s \<Rightarrow> Inr (su_id s, d\<lparr>db_subscriptions :=
          update_where (\<lambda>s. su_endpoint_id s = endpoint_id \<and> su_device_fingerprint s = fingerprint)
            (\<lambda>s. s\<lparr>su_updated_at := now, su_disabled_at := None\<rparr>) (db_subscriptions d)\<rparr>)
      | None \<Rightarrow>
          if \<exists>s \<in> set (db_subscriptions d). su_id s = candidate then Inl ''UNIQUE constraint failed: push_subscriptions.id''
          else Inr (candidate, d\<lparr>db_subscriptions := db_subscriptions d @ [\<lparr>su_id = candidate, su_endpoint_id = endpoint_id,
            su_device_fingerprint = fingerprint, su_created_at = now, su_updated_at = now, su_disabled_at = None\<rparr>]\<rparr>))"

definition register_push_membership ::
  "crates \<Rightarrow> server_crates \<Rightarrow> bytes \<Rightarrow> string \<Rightarrow> bytes \<Rightarrow> bytes \<Rightarrow> i64 option \<Rightarrow> string option \<Rightarrow> i64
    \<Rightarrow> string \<Rightarrow> string \<Rightarrow> db \<Rightarrow> string + string \<times> db" where
  "register_push_membership X S token endpoint p256dh auth expiration_at installation_token now fresh candidate d =
     and_then (ok_or (browser_of_token S d (sha256 X token)) ''active WebAuthn device not found'') (\<lambda>v.
     and_then (validate_push_endpoint S endpoint) (\<lambda>_.
       if length p256dh \<noteq> PUSH_P256DH_BYTES \<or> take 1 p256dh \<noteq> [4] \<or> \<not> sx_p256_point S p256dh
       then Inl ''invalid p256dh key''
       else if length auth \<noteq> PUSH_AUTH_BYTES then Inl ''invalid auth secret''
       else if (case expiration_at of None \<Rightarrow> False | Some t \<Rightarrow> t \<le> now) then Inl ''expired subscription''
       else and_then (case installation_token of None \<Rightarrow> Inr None
              | Some t \<Rightarrow> map_ok Some (installation_token_hash X t)) (\<lambda>supplied_hash.
         and_then (store_endpoint fresh (de_fingerprint v) endpoint p256dh auth expiration_at supplied_hash now d)
           (\<lambda>(endpoint_id, d).
         and_then (store_subscription candidate endpoint_id (de_fingerprint v) now d) (\<lambda>(subscription_id, d).
           Inr (subscription_id, abandon_ineligible_pushes now d))))))"

definition push_status :: "crates \<Rightarrow> server_crates \<Rightarrow> bytes \<Rightarrow> i64 \<Rightarrow> db \<Rightarrow> string + nat" where
  "push_status X S token clock d =
     and_then (ok_or (browser_of_token S d (sha256 X token)) ''active WebAuthn device not found'') (\<lambda>v.
       Inr (length (filter (\<lambda>(s, e). pe_id e = su_endpoint_id s \<and> su_device_fingerprint s = de_fingerprint v
          \<and> su_disabled_at s = None \<and> live_endpoint clock e)
          (List.product (db_subscriptions d) (db_endpoints d)))))"

definition delete_push_subscription :: "crates \<Rightarrow> server_crates \<Rightarrow> bytes \<Rightarrow> string \<Rightarrow> i64 \<Rightarrow> db \<Rightarrow> string + bool \<times> db" where
  "delete_push_subscription X S token subscription_id now d =
     (if browser_of_token S d (sha256 X token) = None then Inl ''active WebAuthn device not found''
      else let mine = (\<lambda>s. su_id s = subscription_id \<and> su_disabled_at s = None \<and>
                (\<exists>v \<in> set (db_devices d). de_fingerprint v = su_device_fingerprint s \<and>
                   de_api_token_hash v = sha256 X token \<and> de_active v));
               n = changed mine (db_subscriptions d);
               d' = d\<lparr>db_subscriptions := update_where mine (\<lambda>s. s\<lparr>su_disabled_at := Some now, su_updated_at := now\<rparr>)
                 (db_subscriptions d)\<rparr>
           in Inr (n = 1, if n \<noteq> 0 then abandon_ineligible_pushes now d' else d'))"

section \<open>The queue\<close>

record PushItem =
  pi_id :: int
  pi_endpoint_id :: string
  pi_endpoint :: string
  pi_p256dh :: bytes
  pi_auth :: bytes
  pi_payload :: bytes
  pi_request_kind :: lane
  pi_request_id :: string
  pi_expires_at :: i64
  pi_claim_token :: string
  pi_attempts :: int

definition claimable :: "db \<Rightarrow> i64 \<Rightarrow> push_row \<Rightarrow> bool" where
  "claimable d now p \<longleftrightarrow> unfinished p \<and> po_available_at p \<le> now \<and> unclaimed now p \<and> po_attempts p < PUSH_MAX_ATTEMPTS \<and>
     PUSH_ELIGIBLE d now (po_request_kind p) (po_request_id p) (po_endpoint_id p) \<and>
     request_open d (po_request_kind p) (po_request_id p) now"

text \<open>The row of a claim: the queue row joined with its endpoint and its request.\<close>

definition claim_rows :: "db \<Rightarrow> i64 \<Rightarrow> (push_row \<times> endpoint_row \<times> request_row) list" where
  "claim_rows d now =
     filter (\<lambda>(p, e, r). pe_id e = po_endpoint_id p \<and> rr_id r = po_request_id p)
       (concat (map (\<lambda>p. map (Pair p) (List.product (db_endpoints d) (db_requests d (po_request_kind p))))
         (sort_key po_id (filter (claimable d now) (db_push_outbox d)))))"

definition claim_push :: "i64 \<Rightarrow> i64 \<Rightarrow> string \<Rightarrow> db \<Rightarrow> PushItem option \<times> db" where
  "claim_push now lease_secs claim_token d =
     (case claim_rows d now of
        [] \<Rightarrow> (None, abandon_ineligible_pushes now d)
      | (p, e, r) # _ \<Rightarrow>
          let free = (\<lambda>q. po_id q = po_id p \<and> unfinished q \<and> unclaimed now q);
              d' = d\<lparr>db_push_outbox := update_where free (\<lambda>q. q\<lparr>po_claim_token := Some claim_token,
                po_claimed_until := Some (saturating_add now lease_secs), po_attempts := po_attempts q + 1\<rparr>) (db_push_outbox d)\<rparr>
          in if changed free (db_push_outbox d) \<noteq> 1 then (None, d')
             else (Some \<lparr>pi_id = po_id p, pi_endpoint_id = po_endpoint_id p, pi_endpoint = pe_endpoint e,
               pi_p256dh = pe_p256dh e, pi_auth = pe_auth e, pi_payload = po_payload p,
               pi_request_kind = po_request_kind p, pi_request_id = po_request_id p, pi_expires_at = rr_expires_at r,
               pi_claim_token = claim_token, pi_attempts = po_attempts p + 1\<rparr>, d'))"

definition held :: "int \<Rightarrow> string \<Rightarrow> push_row \<Rightarrow> bool" where
  "held i claim_token p \<longleftrightarrow> po_id p = i \<and> po_claim_token p = Some claim_token \<and> unfinished p"

definition mark_push_sent :: "int \<Rightarrow> string \<Rightarrow> i64 \<Rightarrow> db \<Rightarrow> bool \<times> db" where
  "mark_push_sent i claim_token now d =
     (changed (held i claim_token) (db_push_outbox d) = 1,
      d\<lparr>db_push_outbox := update_where (held i claim_token)
        (\<lambda>p. p\<lparr>po_sent_at := Some now, po_claim_token := None, po_claimed_until := None\<rparr>) (db_push_outbox d)\<rparr>)"

definition abandon_push :: "int \<Rightarrow> string \<Rightarrow> i64 \<Rightarrow> string \<Rightarrow> db \<Rightarrow> bool \<times> db" where
  "abandon_push i claim_token now error d =
     (changed (held i claim_token) (db_push_outbox d) = 1,
      d\<lparr>db_push_outbox := update_where (held i claim_token)
        (\<lambda>p. p\<lparr>po_abandoned_at := Some now, po_claim_token := None, po_claimed_until := None,
                po_last_error := Some error\<rparr>) (db_push_outbox d)\<rparr>)"

definition retry_delay :: "int \<Rightarrow> i64" where
  "retry_delay attempts = 2 ^ nat (max 0 (min 4 (attempts - 1)))"

definition retry_push :: "int \<Rightarrow> string \<Rightarrow> i64 \<Rightarrow> string \<Rightarrow> db \<Rightarrow> bool \<times> db" where
  "retry_push i claim_token now error d =
     (case find (held i claim_token) (db_push_outbox d) of
        None \<Rightarrow> (False, d)
      | Some p \<Rightarrow>
          if po_attempts p \<ge> PUSH_MAX_ATTEMPTS then abandon_push i claim_token now error d
          else (changed (held i claim_token) (db_push_outbox d) = 1,
            d\<lparr>db_push_outbox := update_where (held i claim_token)
              (\<lambda>q. q\<lparr>po_available_at := saturating_add now (retry_delay (po_attempts p)), po_claim_token := None,
                     po_claimed_until := None, po_last_error := Some error\<rparr>) (db_push_outbox d)\<rparr>))"

definition disable_push_for_claim :: "int \<Rightarrow> string \<Rightarrow> string \<Rightarrow> i64 \<Rightarrow> string \<Rightarrow> db \<Rightarrow> bool \<times> db" where
  "disable_push_for_claim i endpoint_id claim_token now error d =
     (if \<exists>p \<in> set (db_push_outbox d). held i claim_token p \<and> po_endpoint_id p = endpoint_id
      then (True, d\<lparr>db_endpoints := update_where (\<lambda>e. pe_id e = endpoint_id)
           (\<lambda>e. e\<lparr>pe_disabled_at := Some now, pe_updated_at := now, pe_last_error := Some error\<rparr>) (db_endpoints d),
         db_push_outbox := update_where (\<lambda>p. po_endpoint_id p = endpoint_id \<and> unfinished p)
           (\<lambda>p. p\<lparr>po_abandoned_at := Some now, po_claim_token := None, po_claimed_until := None,
                  po_last_error := Some error\<rparr>) (db_push_outbox d)\<rparr>)
      else (False, d))"

end
