(* ===== verification/Server_Enrollment.thy ===== *)
theory Server_Enrollment
  imports Server_Requests
begin

text \<open>
  Enrollments and devices in the server's store (\<open>server/src/db.rs\<close>): the intent a host creates, the
  submission a device posts, and the activation that pins the submitted device. Re-enrolling a device
  refreshes its public record and never its credential or token.
\<close>

definition stored_enrollment :: "db \<Rightarrow> string \<Rightarrow> enrollment_row option" where
  "stored_enrollment d enrollment_id = find (\<lambda>e. er_id e = enrollment_id) (db_enrollments d)"

definition create_enrollment :: "string \<Rightarrow> bytes \<Rightarrow> i64 \<Rightarrow> string \<Rightarrow> i64 \<Rightarrow> db \<Rightarrow> InsertResult \<times> db" where
  "create_enrollment enrollment_id secret_hash expires_at reply_subject clock d =
     (case stored_enrollment d enrollment_id of
        Some e \<Rightarrow>
          if er_secret_hash e = secret_hash \<and> er_expires_at e = expires_at
          then (Identical, d\<lparr>
            db_enrollments := update_where (\<lambda>e. er_id e = enrollment_id)
              (\<lambda>e. e\<lparr>er_reply_subject := reply_subject, er_updated_at := clock\<rparr>) (db_enrollments d),
            db_outbox := update_where (\<lambda>x. ob_kind x = ''enrollment_submission'' \<and> ob_dedupe_key x = enrollment_id)
              (\<lambda>x. x\<lparr>ob_subject := reply_subject, ob_sent_at := None\<rparr>) (db_outbox d)\<rparr>)
          else (Conflict, d)
      | None \<Rightarrow> (Inserted, d\<lparr>db_enrollments := db_enrollments d @ [\<lparr>er_id = enrollment_id, er_secret_hash = secret_hash,
          er_status = ''pending'', er_expires_at = expires_at, er_reply_subject = reply_subject,
          er_submission_hash = None, er_submission_json = None, er_fingerprint = None, er_updated_at = clock\<rparr>]\<rparr>))"

definition submit_enrollment ::
  "crates \<Rightarrow> server_crates \<Rightarrow> string \<Rightarrow> EnrollmentSubmissionV1 \<Rightarrow> i64 \<Rightarrow> i64 \<Rightarrow> db \<Rightarrow> string + InsertResult \<times> db" where
  "submit_enrollment X S enrollment_id submission now clock d =
     and_then (sx_submission_to_vec S submission) (\<lambda>raw.
       let hash = sha256 X raw
       in case stored_enrollment d enrollment_id of
            None \<Rightarrow> Inl ''unknown enrollment''
          | Some e \<Rightarrow>
              if er_expires_at e \<le> now \<or> er_status e = ''expired'' then Inl ''expired enrollment''
              else case er_submission_hash e of
                Some old_hash \<Rightarrow> Inr (if old_hash = hash then Identical else Conflict, d)
              | None \<Rightarrow>
                  if er_status e \<noteq> ''pending'' then Inr (Conflict, d)
                  else map_ok (Pair Inserted) (outbox_insert ''enrollment_submission'' enrollment_id (er_reply_subject e) raw clock None
                    (d\<lparr>db_enrollments := update_where (\<lambda>e. er_id e = enrollment_id)
                       (\<lambda>e. e\<lparr>er_submission_hash := Some hash, er_submission_json := Some raw, er_updated_at := clock\<rparr>)
                       (db_enrollments d)\<rparr>)))"

text \<open>What a submission pins of its device: kind, credential id, credential key of a native one, box key, token hash, label.\<close>

definition submission_binds_device :: "crates \<Rightarrow> EnrollmentSubmissionV1 \<Rightarrow> DevicePublicRecordV1 \<Rightarrow> string + bool" where
  "submission_binds_device X submission device =
     (if dv_kind device \<noteq> EnrollmentSubmissionV1_kind submission then Inr False
      else let native = (\<lambda>s. and_then (map_err (\<lambda>_. ''decode submitted credential key'')
                 (decode_base64url X (ns_credential_public_key s))) (\<lambda>public_key.
               Inr (encode_base64url X (native_credential_id X public_key), Some (ns_credential_public_key s),
                 ns_box_public_key s, ns_api_token_hash s, ns_label s)))
           in and_then (case submission of
                SubmitWebauthn s \<Rightarrow> Inr (ws_credential_id s, None, ws_box_public_key s, ws_api_token_hash s, ws_label s)
              | SubmitSoftware s \<Rightarrow> native s
              | SubmitSecureEnclave s \<Rightarrow> native s)
             (\<lambda>(credential_id, credential_public_key, box_public_key, api_token_hash, label).
               Inr ((case credential_public_key of None \<Rightarrow> True | Some expected \<Rightarrow> dv_credential_public_key device = expected) \<and>
                 dv_credential_id device = credential_id \<and> dv_box_public_key device = box_public_key \<and>
                 dv_api_token_hash device = api_token_hash \<and> dv_label device = label)))"

text \<open>The upsert on the fingerprint, then the comparison of what is stored. A new row must not reuse a credential or token.\<close>

definition upsert_device :: "DevicePublicRecordV1 \<Rightarrow> bytes \<Rightarrow> string \<Rightarrow> i64 \<Rightarrow> db \<Rightarrow> string + db" where
  "upsert_device device api_token_hash public_json clock d =
     (case find (\<lambda>v. de_fingerprint v = dv_fingerprint device) (db_devices d) of
        Some v \<Rightarrow>
          if de_credential_id v \<noteq> dv_credential_id device \<or> de_api_token_hash v \<noteq> api_token_hash
          then Inl ''activation names a different record for an enrolled device''
          else Inr (d\<lparr>db_devices := update_where (\<lambda>v. de_fingerprint v = dv_fingerprint device)
            (\<lambda>v. v\<lparr>de_public_record_json := public_json, de_active := True, de_updated_at := clock\<rparr>) (db_devices d)\<rparr>)
      | None \<Rightarrow>
          if \<exists>v \<in> set (db_devices d). de_credential_id v = dv_credential_id device \<or> de_api_token_hash v = api_token_hash
          then Inl ''UNIQUE constraint failed: devices''
          else Inr (d\<lparr>db_devices := db_devices d @ [\<lparr>de_fingerprint = dv_fingerprint device,
            de_credential_id = dv_credential_id device, de_api_token_hash = api_token_hash,
            de_public_record_json = public_json, de_active = True, de_updated_at = clock\<rparr>]\<rparr>))"

definition activate_enrollment ::
  "crates \<Rightarrow> server_crates \<Rightarrow> string \<Rightarrow> DevicePublicRecordV1 \<Rightarrow> i64 \<Rightarrow> i64 \<Rightarrow> db \<Rightarrow> string + db" where
  "activate_enrollment X S enrollment_id device now clock d =
     and_then (map_err (\<lambda>_. ''validate activated device'') (DevicePublicRecordV1_validate X device)) (\<lambda>_.
       case stored_enrollment d enrollment_id of
         None \<Rightarrow> Inl ''unknown enrollment''
       | Some e \<Rightarrow>
           if er_status e \<noteq> ''pending'' then Inl ''enrollment is not pending''
           else if er_expires_at e \<le> now then Inl ''enrollment expired''
           else and_then (ok_or (er_submission_json e) ''enrollment has no submission'') (\<lambda>raw.
             and_then (map_err (\<lambda>_. ''decode stored submission'') (sx_submission_from_slice S raw)) (\<lambda>submission.
             and_then (submission_binds_device X submission device) (\<lambda>binds.
               if \<not> binds then Inl ''activation does not match the stored submission''
               else and_then (map_err (\<lambda>_. ''decode'') (decode_base64url X (dv_api_token_hash device))) (\<lambda>api_token_hash.
                 and_then (sx_device_to_string S device) (\<lambda>public_json.
                 and_then (upsert_device device api_token_hash public_json clock d) (\<lambda>d.
                   Inr (d\<lparr>db_enrollments := update_where (\<lambda>e. er_id e = enrollment_id \<and> er_status e = ''pending'')
                     (\<lambda>e. e\<lparr>er_status := ''active'', er_fingerprint := Some (dv_fingerprint device), er_updated_at := clock\<rparr>)
                     (db_enrollments d)\<rparr>))))))))"

record EnrollmentView =
  vw_status :: EnrollmentStatusV1
  vw_fingerprint :: "string option"

definition enrollment_status :: "string \<Rightarrow> i64 \<Rightarrow> db \<Rightarrow> EnrollmentView option" where
  "enrollment_status enrollment_id now d =
     map_option (\<lambda>e. \<lparr>vw_status =
         (if er_expires_at e \<le> now \<and> er_status e = ''pending'' then StatusExpired
          else if er_status e = ''active'' then Active
          else if er_status e = ''rejected'' then Rejected
          else if er_status e = ''expired'' then StatusExpired
          else Pending), vw_fingerprint = er_fingerprint e\<rparr>) (stored_enrollment d enrollment_id)"

definition active_device :: "server_crates \<Rightarrow> string \<Rightarrow> db \<Rightarrow> string + DevicePublicRecordV1 option" where
  "active_device S fingerprint d =
     (case find (\<lambda>v. de_fingerprint v = fingerprint \<and> de_active v) (db_devices d) of
        None \<Rightarrow> Inr None
      | Some v \<Rightarrow> map_ok Some (map_err (\<lambda>_. ''decode stored device'') (sx_device_from_str S (de_public_record_json v))))"

definition set_device_active :: "string \<Rightarrow> bool \<Rightarrow> i64 \<Rightarrow> i64 \<Rightarrow> db \<Rightarrow> bool \<times> db" where
  "set_device_active fingerprint active now clock d =
     (let n = changed (\<lambda>v. de_fingerprint v = fingerprint) (db_devices d);
          d = d\<lparr>db_devices := update_where (\<lambda>v. de_fingerprint v = fingerprint)
            (\<lambda>v. v\<lparr>de_active := active, de_updated_at := clock\<rparr>) (db_devices d)\<rparr>;
          d = (if \<not> active \<and> n \<noteq> 0
            then abandon_ineligible_pushes now (d\<lparr>db_subscriptions :=
              update_where (\<lambda>s. su_device_fingerprint s = fingerprint \<and> su_disabled_at s = None)
                (\<lambda>s. s\<lparr>su_disabled_at := Some clock, su_updated_at := clock\<rparr>) (db_subscriptions d)\<rparr>)
            else d)
      in (n = 1, d))"

end
