(* ===== verification/Server_Db.thy ===== *)
theory Server_Db
  imports Server_Push Server_Enrollment
begin

text \<open>
  The server's store as a whole (\<open>server/src/db.rs\<close>): every operation as a step, the integrity of the tables
  (keys, references, states of requests, claims on the push queue) as an invariant of every reachable
  store, and what follows from it for verdicts, sealed bodies, revocation, enrollment and the push queue.
\<close>

section \<open>Steps\<close>

inductive db_step :: "crates \<Rightarrow> server_crates \<Rightarrow> db \<Rightarrow> db \<Rightarrow> bool" for X S where
  ingest: "ingest_request X S raw env now clock d = Inr (res, d') \<Longrightarrow> db_step X S d d'"
| ingest_auth: "ingest_auth_request X S raw aenv now clock d = Inr (res, d') \<Longrightarrow> db_step X S d d'"
| ingest_tool: "ingest_tool_request X S raw tenv now d = Inr (res, d') \<Longrightarrow> db_step X S d d'"
| decision: "queue_decision X S request_id fp dec now clock d = Inr (res, d') \<Longrightarrow> db_step X S d d'"
| auth_decision: "queue_auth_decision X S request_id fp adec now clock d = Inr (res, d') \<Longrightarrow> db_step X S d d'"
| tool_decision: "queue_tool_decision X S request_id fp tdec now d = Inr (res, d') \<Longrightarrow> db_step X S d d'"
| notification: "queue_notification request_id endpoint payload clock d = d' \<Longrightarrow> db_step X S d d'"
| expire: "expire_stale_deliveries now d = (n, d') \<Longrightarrow> db_step X S d d'"
| sent: "mark_outbox_sent i clock d = d' \<Longrightarrow> db_step X S d d'"
| clean: "cleanup now d = d' \<Longrightarrow> db_step X S d d'"
| create: "create_enrollment e secret_hash expires reply clock d = (res, d') \<Longrightarrow> db_step X S d d'"
| submit: "submit_enrollment X S e sub now clock d = Inr (res, d') \<Longrightarrow> db_step X S d d'"
| activate: "activate_enrollment X S e dev now clock d = Inr d' \<Longrightarrow> db_step X S d d'"
| set_active: "set_device_active fp active now clock d = (b, d') \<Longrightarrow> db_step X S d d'"
| register: "register_push_membership X S token endpoint p256dh auth expiry inst now fresh candidate d = Inr (sid, d') \<Longrightarrow> db_step X S d d'"
| delete: "delete_push_subscription X S token sid now d = Inr (b, d') \<Longrightarrow> db_step X S d d'"
| claim_row: "claim_push now lease tok d = (item, d') \<Longrightarrow> db_step X S d d'"
| push_sent: "mark_push_sent i tok now d = (b, d') \<Longrightarrow> db_step X S d d'"
| push_retry: "retry_push i tok now err d = (b, d') \<Longrightarrow> db_step X S d d'"
| push_abandon: "abandon_push i tok now err d = (b, d') \<Longrightarrow> db_step X S d d'"
| push_disable: "disable_push_for_claim i endpoint tok now err d = (b, d') \<Longrightarrow> db_step X S d d'"

inductive reachable :: "crates \<Rightarrow> server_crates \<Rightarrow> db \<Rightarrow> bool" for X S where
  start: "reachable X S empty_db"
| step: "reachable X S d \<Longrightarrow> db_step X S d d' \<Longrightarrow> reachable X S d'"

section \<open>Integrity\<close>

definition devices_ok :: "db \<Rightarrow> bool" where
  "devices_ok d \<longleftrightarrow> distinct (map de_fingerprint (db_devices d)) \<and> distinct (map de_credential_id (db_devices d)) \<and>
     distinct (map de_api_token_hash (db_devices d))"

definition enrollments_ok :: "db \<Rightarrow> bool" where
  "enrollments_ok d \<longleftrightarrow> distinct (map er_id (db_enrollments d)) \<and>
     (\<forall>e \<in> set (db_enrollments d). pred_option (\<lambda>fp. fp \<in> de_fingerprint ` set (db_devices d)) (er_fingerprint e) \<and>
        (er_status e = ''active'' \<longrightarrow> er_fingerprint e \<noteq> None))"

definition request_row_ok :: "request_row \<Rightarrow> bool" where
  "request_row_ok r \<longleftrightarrow> (rr_state r = ''pending'' \<and> rr_decision_hash r = None) \<or>
     (rr_state r = ''resolved'' \<and> rr_decision_hash r \<noteq> None)"

definition requests_ok :: "db \<Rightarrow> bool" where
  "requests_ok d \<longleftrightarrow> (\<forall>lane. distinct (map rr_id (db_requests d lane)) \<and> (\<forall>r \<in> set (db_requests d lane). request_row_ok r))"

definition bodies_ok :: "db \<Rightarrow> bool" where
  "bodies_ok d \<longleftrightarrow> (\<forall>lane. distinct (map (\<lambda>b. (br_request_id b, br_fingerprint b)) (db_bodies d lane)) \<and>
     (\<forall>b \<in> set (db_bodies d lane). br_request_id b \<in> rr_id ` set (db_requests d lane)))"

abbreviation tombstone_key :: "tombstone_row \<Rightarrow> string \<times> string \<times> bytes" where
  "tombstone_key t \<equiv> (ts_kind t, ts_object_id t, ts_payload_hash t)"

definition tombstones_ok :: "db \<Rightarrow> bool" where
  "tombstones_ok d \<longleftrightarrow> distinct (map tombstone_key (db_tombstones d))"

definition outbox_ok :: "db \<Rightarrow> bool" where
  "outbox_ok d \<longleftrightarrow> distinct (map ob_id (db_outbox d)) \<and> distinct (map (\<lambda>x. (ob_kind x, ob_dedupe_key x)) (db_outbox d))"

definition endpoints_ok :: "db \<Rightarrow> bool" where
  "endpoints_ok d \<longleftrightarrow> distinct (map pe_id (db_endpoints d)) \<and> distinct (map pe_endpoint (db_endpoints d))"

definition subscriptions_ok :: "db \<Rightarrow> bool" where
  "subscriptions_ok d \<longleftrightarrow> distinct (map su_id (db_subscriptions d)) \<and>
     distinct (map (\<lambda>s. (su_endpoint_id s, su_device_fingerprint s)) (db_subscriptions d)) \<and>
     (\<forall>s \<in> set (db_subscriptions d). su_endpoint_id s \<in> pe_id ` set (db_endpoints d) \<and>
        su_device_fingerprint s \<in> de_fingerprint ` set (db_devices d))"

definition push_row_ok :: "push_row \<Rightarrow> bool" where
  "push_row_ok p \<longleftrightarrow> 0 \<le> po_attempts p \<and> po_attempts p \<le> PUSH_MAX_ATTEMPTS \<and>
     (po_claim_token p = None \<longleftrightarrow> po_claimed_until p = None) \<and> (\<not> unfinished p \<longrightarrow> po_claim_token p = None)"

abbreviation push_key :: "push_row \<Rightarrow> lane \<times> string \<times> string" where
  "push_key p \<equiv> (po_request_kind p, po_request_id p, po_endpoint_id p)"

definition push_ok :: "db \<Rightarrow> bool" where
  "push_ok d \<longleftrightarrow> distinct (map po_id (db_push_outbox d)) \<and> distinct (map push_key (db_push_outbox d)) \<and>
     (\<forall>p \<in> set (db_push_outbox d). push_row_ok p \<and> po_endpoint_id p \<in> pe_id ` set (db_endpoints d))"

definition db_ok :: "db \<Rightarrow> bool" where
  "db_ok d \<longleftrightarrow> devices_ok d \<and> enrollments_ok d \<and> requests_ok d \<and> bodies_ok d \<and> tombstones_ok d \<and> outbox_ok d \<and>
     endpoints_ok d \<and> subscriptions_ok d \<and> push_ok d"

named_theorems tables_ok \<open>the integrity predicates of the tables\<close>

lemmas tables_defs [tables_ok] = devices_ok_def enrollments_ok_def requests_ok_def bodies_ok_def tombstones_ok_def outbox_ok_def
  endpoints_ok_def subscriptions_ok_def push_ok_def

section \<open>Statements keep keys\<close>

lemma map_update_where:
  "(\<And>r. p r \<Longrightarrow> key (f r) = key r) \<Longrightarrow> map key (update_where p f rows) = map key rows"
  by (simp add: update_where_def)

lemma set_update_where: "set (update_where p f rows) = (\<lambda>r. if p r then f r else r) ` set rows"
  by (simp add: update_where_def)

lemma update_where_all:
  "(\<And>r. r \<in> set rows \<Longrightarrow> Q r) \<Longrightarrow> (\<And>r. p r \<Longrightarrow> Q r \<Longrightarrow> Q (f r)) \<Longrightarrow> r \<in> set (update_where p f rows) \<Longrightarrow> Q r"
  by (auto simp: set_update_where)

lemma image_update_where:
  assumes "\<And>r. p r \<Longrightarrow> key (f r) = key r"
  shows "key ` set (update_where p f rows) = key ` set rows"
  using map_update_where [of p key f rows, OF assms] by (metis list.set_map)

lemma distinct_map_filter_key: "distinct (map key rows) \<Longrightarrow> distinct (map key (filter p rows))"
  by (rule distinct_map_filter)

lemma next_rowid_fresh: "next_rowid ids \<notin> set ids"
proof
  assume a: "next_rowid ids \<in> set ids"
  then have "ids \<noteq> []" by auto
  moreover have "next_rowid ids \<le> Max (set ids)" using a by simp
  ultimately show False by (simp add: next_rowid_def)
qed

lemma find_None_iff2': "find P xs = None \<longleftrightarrow> (\<forall>x \<in> set xs. \<not> P x)"
  by (auto simp: find_None_iff)

lemma find_Some_in_set: "find P xs = Some x \<Longrightarrow> x \<in> set xs \<and> P x"
  by (induction xs) (auto split: if_splits)

lemma ok_outbox_append:
  assumes "db_ok d" and "\<not> outbox_has kind key d"
  shows "db_ok (outbox_append kind key subject payload created expires d)"
  using assms next_rowid_fresh [of "map ob_id (db_outbox d)"]
  by (auto simp: db_ok_def tables_defs outbox_append_def outbox_has_def)

lemma ok_outbox_update:
  assumes "db_ok d" and "\<And>x. p x \<Longrightarrow> ob_id (f x) = ob_id x \<and> ob_kind (f x) = ob_kind x \<and> ob_dedupe_key (f x) = ob_dedupe_key x"
  shows "db_ok (d\<lparr>db_outbox := update_where p f (db_outbox d)\<rparr>)"
  using assms by (auto simp: db_ok_def tables_defs map_update_where)

lemma ok_outbox_filter: "db_ok d \<Longrightarrow> db_ok (d\<lparr>db_outbox := filter p (db_outbox d)\<rparr>)"
  by (auto simp: db_ok_def tables_defs distinct_map_filter)

lemma ok_tombstones: "db_ok d \<Longrightarrow> db_ok (d\<lparr>db_tombstones := filter p (db_tombstones d)\<rparr>)"
  by (simp add: db_ok_def tables_defs distinct_map_filter)

lemma ok_record_conflict:
  assumes "db_ok d"
  shows "db_ok (record_conflict kind request_id hash expires d)"
proof (cases "(kind, request_id, hash) \<in> tombstone_key ` set (db_tombstones d)")
  case True
  with assms show ?thesis by (auto simp: record_conflict_def)
next
  case False
  with assms show ?thesis by (auto simp: record_conflict_def db_ok_def tables_defs)
qed

lemma ok_request_append:
  assumes "db_ok d" and "rr_id row \<notin> rr_id ` set (db_requests d lane)" and "request_row_ok row"
  shows "db_ok (insert_request lane row d)"
  using assms by (auto simp: db_ok_def tables_defs insert_request_def)

lemma ok_body_append:
  assumes "db_ok d" and "request_id \<in> rr_id ` set (db_requests d lane)" and "\<not> has_body d lane request_id fp"
  shows "db_ok (d\<lparr>db_bodies := (db_bodies d)(lane := db_bodies d lane @
    [\<lparr>br_request_id = request_id, br_fingerprint = fp, br_body_json = json\<rparr>])\<rparr>)"
  using assms by (auto simp: db_ok_def tables_defs has_body_def)

lemma ok_insert_bodies:
  "insert_bodies lane request_id bs d = Inr d' \<Longrightarrow> db_ok d \<Longrightarrow> request_id \<in> rr_id ` set (db_requests d lane) \<Longrightarrow> db_ok d'"
proof (induction lane request_id bs d rule: insert_bodies.induct)
  case (2 lane request_id fp body bs d)
  then obtain json where j: "body = Inr json" "\<not> has_body d lane request_id fp"
    by (auto simp: and_then_Inr_iff split: if_splits)
  with 2 ok_body_append [of d request_id lane fp json] show ?case by simp
qed simp

lemma ok_push_update:
  assumes "db_ok d" and "\<And>p. q p \<Longrightarrow> po_id (f p) = po_id p \<and> push_key (f p) = push_key p"
    and "\<And>p. p \<in> set (db_push_outbox d) \<Longrightarrow> q p \<Longrightarrow> push_row_ok p \<Longrightarrow> push_row_ok (f p)"
  shows "db_ok (d\<lparr>db_push_outbox := update_where q f (db_push_outbox d)\<rparr>)"
proof -
  have "push_ok d" using assms(1) by (simp add: db_ok_def)
  then have "push_ok (d\<lparr>db_push_outbox := update_where q f (db_push_outbox d)\<rparr>)"
    using assms(2,3) by (auto simp: push_ok_def map_update_where set_update_where)
  with assms(1) show ?thesis by (simp add: db_ok_def tables_defs)
qed

lemma push_row_ok_closed:
  "push_row_ok p \<Longrightarrow> push_row_ok (p\<lparr>po_abandoned_at := Some t, po_claim_token := None, po_claimed_until := None\<rparr>)"
  "push_row_ok p \<Longrightarrow> push_row_ok (p\<lparr>po_abandoned_at := Some t, po_claim_token := None, po_claimed_until := None, po_last_error := e\<rparr>)"
  "push_row_ok p \<Longrightarrow> push_row_ok (p\<lparr>po_sent_at := Some t, po_claim_token := None, po_claimed_until := None\<rparr>)"
  "push_row_ok p \<Longrightarrow> push_row_ok (p\<lparr>po_available_at := t, po_claim_token := None, po_claimed_until := None, po_last_error := e\<rparr>)"
  by (auto simp: push_row_ok_def)

lemma ok_abandon:
  assumes "db_ok d"
  shows "db_ok (abandon_ineligible_pushes now d)"
proof -
  let ?e = "d\<lparr>db_push_outbox := update_where (\<lambda>p. unfinished p \<and> po_attempts p \<ge> PUSH_MAX_ATTEMPTS \<and> unclaimed now p)
            (\<lambda>p. p\<lparr>po_abandoned_at := Some now, po_claim_token := None, po_claimed_until := None,
                    po_last_error := Some ''attempt_limit''\<rparr>) (db_push_outbox d)\<rparr>"
  have "db_ok ?e" by (rule ok_push_update [OF assms]) (auto intro: push_row_ok_closed)
  from ok_push_update [OF this, of "\<lambda>p. unfinished p \<and>
            (\<not> request_open d (po_request_kind p) (po_request_id p) now
             \<or> \<not> PUSH_ELIGIBLE d now (po_request_kind p) (po_request_id p) (po_endpoint_id p))"
      "\<lambda>p. p\<lparr>po_abandoned_at := Some now, po_claim_token := None, po_claimed_until := None\<rparr>"]
  show ?thesis by (simp add: abandon_ineligible_pushes_def push_row_ok_closed)
qed

lemma ok_push_insert:
  assumes "db_ok (d\<lparr>db_push_outbox := rows\<rparr>)" and "endpoint_id \<in> pe_id ` set (db_endpoints d)"
  shows "db_ok (d\<lparr>db_push_outbox := push_insert lane request_id payload now endpoint_id rows\<rparr>)"
proof (cases "\<exists>p \<in> set rows. po_request_kind p = lane \<and> po_request_id p = request_id \<and> po_endpoint_id p = endpoint_id")
  case True
  with assms(1) show ?thesis by (simp add: push_insert_def)
next
  case False
  then show ?thesis using assms next_rowid_fresh [of "map po_id rows"]
    by (auto simp: db_ok_def tables_defs push_insert_def push_row_ok_def unfinished_def PUSH_MAX_ATTEMPTS_def)
qed

lemma ok_enqueue:
  assumes "db_ok d"
  shows "db_ok (enqueue_push lane request_id payload now d)"
proof -
  have "db_ok (d\<lparr>db_push_outbox := rows\<rparr>) \<Longrightarrow> set es \<subseteq> set (db_endpoints d) \<Longrightarrow>
    db_ok (d\<lparr>db_push_outbox := fold (\<lambda>e rows. if PUSH_ELIGIBLE d now lane request_id (pe_id e)
        then push_insert lane request_id payload now (pe_id e) rows else rows) es rows\<rparr>)" for es rows
    by (induction es arbitrary: rows) (auto intro: ok_push_insert)
  from this [of "db_push_outbox d" "db_endpoints d"] assms show ?thesis by (simp add: enqueue_push_def)
qed

lemma ok_device_append:
  assumes "db_ok d" and "de_fingerprint v \<notin> de_fingerprint ` set (db_devices d)"
    and "de_credential_id v \<notin> de_credential_id ` set (db_devices d)"
    and "de_api_token_hash v \<notin> de_api_token_hash ` set (db_devices d)"
  shows "db_ok (d\<lparr>db_devices := db_devices d @ [v]\<rparr>)"
proof -
  have "enrollments_ok (d\<lparr>db_devices := db_devices d @ [v]\<rparr>)" "subscriptions_ok (d\<lparr>db_devices := db_devices d @ [v]\<rparr>)"
    using assms(1) by (auto simp: db_ok_def enrollments_ok_def subscriptions_ok_def option.pred_set)
  with assms show ?thesis by (simp add: db_ok_def devices_ok_def requests_ok_def bodies_ok_def tombstones_ok_def outbox_ok_def
        endpoints_ok_def push_ok_def)
qed

lemma ok_device_update:
  assumes "db_ok d" and "\<And>v. p v \<Longrightarrow> de_fingerprint (f v) = de_fingerprint v \<and> de_credential_id (f v) = de_credential_id v
    \<and> de_api_token_hash (f v) = de_api_token_hash v"
  shows "db_ok (d\<lparr>db_devices := update_where p f (db_devices d)\<rparr>)"
proof -
  have "de_fingerprint ` set (update_where p f (db_devices d)) = de_fingerprint ` set (db_devices d)"
    using assms(2) by (intro image_update_where) simp
  with assms show ?thesis by (simp add: db_ok_def tables_defs map_update_where)
qed

lemma ok_enrollments:
  assumes "db_ok d" and "distinct (map er_id es)"
    and "\<And>e. e \<in> set es \<Longrightarrow> pred_option (\<lambda>fp. fp \<in> de_fingerprint ` set (db_devices d)) (er_fingerprint e) \<and>
        (er_status e = ''active'' \<longrightarrow> er_fingerprint e \<noteq> None)"
  shows "db_ok (d\<lparr>db_enrollments := es\<rparr>)"
  using assms by (simp add: db_ok_def tables_defs)

lemma ok_endpoint_append:
  assumes "db_ok d" and "pe_id e \<notin> pe_id ` set (db_endpoints d)" and "pe_endpoint e \<notin> pe_endpoint ` set (db_endpoints d)"
  shows "db_ok (d\<lparr>db_endpoints := db_endpoints d @ [e]\<rparr>)"
proof -
  have "subscriptions_ok (d\<lparr>db_endpoints := db_endpoints d @ [e]\<rparr>)" "push_ok (d\<lparr>db_endpoints := db_endpoints d @ [e]\<rparr>)"
    using assms(1) by (auto simp: db_ok_def subscriptions_ok_def push_ok_def)
  with assms show ?thesis by (simp add: db_ok_def devices_ok_def enrollments_ok_def requests_ok_def bodies_ok_def tombstones_ok_def outbox_ok_def
        endpoints_ok_def)
qed

lemma ok_endpoint_update:
  assumes "db_ok d" and "\<And>e. p e \<Longrightarrow> pe_id (f e) = pe_id e \<and> pe_endpoint (f e) = pe_endpoint e"
  shows "db_ok (d\<lparr>db_endpoints := update_where p f (db_endpoints d)\<rparr>)"
proof -
  have "pe_id ` set (update_where p f (db_endpoints d)) = pe_id ` set (db_endpoints d)"
    using assms(2) by (intro image_update_where) simp
  with assms show ?thesis by (simp add: db_ok_def tables_defs map_update_where)
qed

lemma ok_subscription_update:
  assumes "db_ok d" and "\<And>s. p s \<Longrightarrow> su_id (f s) = su_id s \<and> su_endpoint_id (f s) = su_endpoint_id s
    \<and> su_device_fingerprint (f s) = su_device_fingerprint s"
  shows "db_ok (d\<lparr>db_subscriptions := update_where p f (db_subscriptions d)\<rparr>)"
proof -
  have "subscriptions_ok (d\<lparr>db_subscriptions := update_where p f (db_subscriptions d)\<rparr>)"
    using assms by (auto simp: db_ok_def subscriptions_ok_def map_update_where set_update_where)
  with assms(1) show ?thesis by (simp add: db_ok_def tables_defs)
qed

lemma ok_subscription_append:
  assumes "db_ok d" and "su_id s \<notin> su_id ` set (db_subscriptions d)"
    and "\<And>t. t \<in> set (db_subscriptions d) \<Longrightarrow> \<not> (su_endpoint_id t = su_endpoint_id s \<and> su_device_fingerprint t = su_device_fingerprint s)"
    and "su_endpoint_id s \<in> pe_id ` set (db_endpoints d)" and "su_device_fingerprint s \<in> de_fingerprint ` set (db_devices d)"
  shows "db_ok (d\<lparr>db_subscriptions := db_subscriptions d @ [s]\<rparr>)"
proof -
  have "subscriptions_ok (d\<lparr>db_subscriptions := db_subscriptions d @ [s]\<rparr>)"
    using assms by (auto simp: db_ok_def subscriptions_ok_def)
  with assms(1) show ?thesis by (simp add: db_ok_def tables_defs)
qed

lemma ok_subscription_filter: "db_ok d \<Longrightarrow> db_ok (d\<lparr>db_subscriptions := filter p (db_subscriptions d)\<rparr>)"
  by (auto simp: db_ok_def tables_defs distinct_map_filter)

lemma ok_push_filter: "db_ok d \<Longrightarrow> db_ok (d\<lparr>db_push_outbox := filter p (db_push_outbox d)\<rparr>)"
  by (auto simp: db_ok_def tables_defs distinct_map_filter)

lemma ok_drop_requests:
  assumes "db_ok d"
  shows "db_ok (drop_requests bound d)"
proof -
  have ref: "br_request_id b \<in> rr_id ` {r \<in> set (db_requests d lane). \<not> rr_created_at r < bound}"
    if b: "b \<in> set (db_bodies d lane)"
      and keep: "\<forall>r \<in> set (db_requests d lane). rr_id r = br_request_id b \<longrightarrow> \<not> rr_created_at r < bound" for b lane
  proof -
    obtain r where "r \<in> set (db_requests d lane)" "rr_id r = br_request_id b"
      using assms b by (force simp: db_ok_def bodies_ok_def)
    with keep show ?thesis by (auto simp: image_iff)
  qed
  then have "bodies_ok (drop_requests bound d)"
    using assms by (auto simp: db_ok_def bodies_ok_def drop_requests_def distinct_map_filter)
  moreover have "requests_ok (drop_requests bound d)"
    using assms by (auto simp: db_ok_def requests_ok_def drop_requests_def distinct_map_filter)
  ultimately show ?thesis using assms
    by (simp add: db_ok_def devices_ok_def enrollments_ok_def tombstones_ok_def outbox_ok_def endpoints_ok_def subscriptions_ok_def
        push_ok_def drop_requests_def)
qed

lemma ok_resolve:
  assumes "db_ok d"
  shows "db_ok (resolve_request lane request_id hash at d)"
proof -
  let ?f = "\<lambda>r. r\<lparr>rr_state := ''resolved'', rr_decision_hash := Some hash, rr_resolved_at := Some at\<rparr>"
  have k: "rr_id ` set (update_where p ?f rows) = rr_id ` set rows" for p rows
    by (rule image_update_where) simp
  have "requests_ok (resolve_request lane request_id hash at d)"
    using assms by (auto simp: db_ok_def requests_ok_def resolve_request_def map_update_where set_update_where request_row_ok_def)
  then show ?thesis using assms
    by (auto simp: db_ok_def devices_ok_def enrollments_ok_def bodies_ok_def tombstones_ok_def outbox_ok_def endpoints_ok_def
        subscriptions_ok_def push_ok_def resolve_request_def k)
qed

section \<open>Operations keep integrity\<close>

lemma ok_outbox_insert:
  "outbox_insert kind key subject payload created expires d = Inr d' \<Longrightarrow> db_ok d \<Longrightarrow> db_ok d'"
  by (auto simp: outbox_insert_def ok_outbox_append split: if_splits)

lemma stored_request_None: "stored_request d lane request_id = None \<longleftrightarrow> request_id \<notin> rr_id ` set (db_requests d lane)"
  by (auto simp: stored_request_def find_None_iff)

text \<open>What an ingestion of any lane comes to.\<close>

definition receipt :: "db \<Rightarrow> db \<Rightarrow> bool" where
  "receipt d d' \<longleftrightarrow> d' = d \<or> (\<exists>kind key subject delivery created expires. kind \<in> {''delivery'', ''tool_delivery''} \<and>
     outbox_insert kind key subject delivery created expires d = Inr d')"

definition ingested :: "lane \<Rightarrow> request_row \<Rightarrow> (string \<times> (string + bytes)) list \<Rightarrow> bytes \<Rightarrow> i64 \<Rightarrow> db \<Rightarrow> db \<Rightarrow> bool" where
  "ingested lane row bodies payload now d d' \<longleftrightarrow> rr_state row = ''pending'' \<and> rr_decision_hash row = None \<and>
     stored_request d lane (rr_id row) = None \<and>
     (\<exists>d1. insert_bodies lane (rr_id row) bodies (insert_request lane row d) = Inr d1 \<and>
        receipt (enqueue_push lane (rr_id row) payload now d1) d')"

lemma receipt_same [intro]: "receipt d d"
  by (simp add: receipt_def)

lemma receiptI: "outbox_insert kind key subject delivery created expires d = Inr d' \<Longrightarrow> kind \<in> {''delivery'', ''tool_delivery''} \<Longrightarrow> receipt d d'"
  unfolding receipt_def by blast

lemma queue_receipt_receipt: "queue_receipt S lane key request_id expires clock d = Inr (res, d') \<Longrightarrow> receipt d d'"
  by (auto simp: queue_receipt_def and_then_Inr_iff map_ok_Inr_iff split: if_split_asm intro: receiptI)

lemma ingestedI:
  assumes "insert_bodies lane request_id bodies (insert_request lane row d) = Inr d1"
    and "receipt (enqueue_push lane request_id payload now d1) d'" and "rr_id row = request_id"
    and "stored_request d lane request_id = None" and "rr_state row = ''pending''" and "rr_decision_hash row = None"
  shows "ingested lane row bodies payload now d d'"
  using assms by (auto simp: ingested_def)

lemma ingest_request_cases:
  assumes "ingest_request X S raw env now clock d = Inr (res, d')"
  shows "d' = d \<or> (\<exists>kind i hash expires. d' = record_conflict kind i hash expires d) \<or> (\<exists>row bodies payload. ingested RequestRows row bodies payload now d d')"
proof (cases "stored_request d RequestRows (en_request_id env)")
  case None
  with assms obtain row d1 payload where i: "insert_bodies RequestRows (en_request_id env)
      (map (\<lambda>b. (sb_device_fingerprint b, sx_body_to_vec S b)) (en_sealed env)) (insert_request RequestRows row d) = Inr d1"
    "rr_id row = en_request_id env" "rr_state row = ''pending''" "rr_decision_hash row = None"
    and r: "queue_receipt S RequestRows (en_request_id env) (en_request_id env) (en_expires_at env) clock
      (enqueue_push RequestRows (en_request_id env) payload now d1) = Inr (res, d')"
    by (auto simp: ingest_request_def Let_def and_then_Inr_iff split: if_split_asm)
  from queue_receipt_receipt [OF r] have "receipt (enqueue_push RequestRows (en_request_id env) payload now d1) d'" .
  from ingestedI [OF i(1) this i(2) None i(3,4)] show ?thesis by blast
next
  case (Some old)
  with assms show ?thesis
    by (auto simp: ingest_request_def Let_def and_then_Inr_iff split: if_splits)
qed

lemma ingest_auth_request_cases:
  assumes "ingest_auth_request X S raw env now clock d = Inr (res, d')"
  shows "d' = d \<or> (\<exists>kind i hash expires. d' = record_conflict kind i hash expires d) \<or> (\<exists>row bodies payload. ingested AuthRows row bodies payload now d d')"
proof (cases "stored_request d AuthRows (ae_request_id env)")
  case None
  with assms obtain row d1 payload where i: "insert_bodies AuthRows (ae_request_id env)
      (map (\<lambda>b. (sb_device_fingerprint b, sx_body_to_vec S b)) (ae_sealed env)) (insert_request AuthRows row d) = Inr d1"
    "rr_id row = ae_request_id env" "rr_state row = ''pending''" "rr_decision_hash row = None"
    and r: "queue_receipt S AuthRows (''auth:'' @ ae_request_id env) (ae_request_id env) (ae_expires_at env) clock
      (enqueue_push AuthRows (ae_request_id env) payload now d1) = Inr (res, d')"
    by (auto simp: ingest_auth_request_def Let_def and_then_Inr_iff split: if_split_asm)
  from queue_receipt_receipt [OF r] have "receipt (enqueue_push AuthRows (ae_request_id env) payload now d1) d'" .
  from ingestedI [OF i(1) this i(2) None i(3,4)] show ?thesis by blast
next
  case (Some old)
  with assms show ?thesis
    by (auto simp: ingest_auth_request_def Let_def and_then_Inr_iff split: if_splits)
qed

lemma ingest_tool_request_cases:
  assumes "ingest_tool_request X S raw env now d = Inr (res, d')"
  shows "d' = d \<or> (\<exists>kind i hash expires. d' = record_conflict kind i hash expires d) \<or> (\<exists>row bodies payload. ingested ToolRows row bodies payload now d d')"
proof (cases "stored_request d ToolRows (te_request_id env)")
  case None
  with assms obtain row d1 payload delivery where i: "insert_bodies ToolRows (te_request_id env)
      (map (\<lambda>b. (tb_device_fingerprint b, sx_tool_body_to_vec S b)) (te_sealed env)) (insert_request ToolRows row d) = Inr d1"
    "rr_id row = te_request_id env" "rr_state row = ''pending''" "rr_decision_hash row = None"
    and r: "outbox_insert ''tool_delivery'' (te_request_id env) (''oshioki.tool.delivery.'' @ te_request_id env)
      delivery now (Some (te_expires_at env)) (enqueue_push ToolRows (te_request_id env) payload now d1) = Inr d'"
    by (auto simp: ingest_tool_request_def Let_def and_then_Inr_iff map_ok_Inr_iff split: if_split_asm)
  have "receipt (enqueue_push ToolRows (te_request_id env) payload now d1) d'" by (rule receiptI [OF r]) simp
  from ingestedI [OF i(1) this i(2) None i(3,4)] show ?thesis by blast
next
  case (Some old)
  with assms show ?thesis
    by (auto simp: ingest_tool_request_def Let_def and_then_Inr_iff split: if_splits)
qed

lemma ok_ingested:
  assumes "ingested lane row bodies payload now d d'" and "db_ok d"
  shows "db_ok d'"
proof -
  obtain d1 where r: "request_row_ok row" "rr_id row \<notin> rr_id ` set (db_requests d lane)"
    and b: "insert_bodies lane (rr_id row) bodies (insert_request lane row d) = Inr d1"
    and e: "receipt (enqueue_push lane (rr_id row) payload now d1) d'"
    using assms(1) by (auto simp: ingested_def stored_request_None request_row_ok_def)
  have "db_ok (insert_request lane row d)" by (rule ok_request_append [OF assms(2) r(2,1)])
  then have "db_ok d1" by (rule ok_insert_bodies [OF b]) (simp add: insert_request_def)
  then have "db_ok (enqueue_push lane (rr_id row) payload now d1)" by (rule ok_enqueue)
  with e ok_outbox_insert show ?thesis by (auto simp: receipt_def)
qed

text \<open>What an accepted decision of any lane comes to.\<close>

definition verdict_kind :: "lane \<Rightarrow> string" where
  "verdict_kind lane = (case lane of RequestRows \<Rightarrow> ''decision'' | AuthRows \<Rightarrow> ''auth_decision'' | ToolRows \<Rightarrow> ''tool_decision'')"

definition may_decide :: "server_crates \<Rightarrow> lane \<Rightarrow> device_row \<Rightarrow> bool" where
  "may_decide S lane v = (case lane of RequestRows \<Rightarrow> True | AuthRows \<Rightarrow> stored_kind S v \<in> {''webauthn'', ''secure-enclave''}
     | ToolRows \<Rightarrow> stored_kind S v = ''webauthn'')"

definition decided ::
  "crates \<Rightarrow> server_crates \<Rightarrow> lane \<Rightarrow> string \<Rightarrow> string \<Rightarrow> bytes \<Rightarrow> i64 \<Rightarrow> InsertResult \<Rightarrow> db \<Rightarrow> db \<Rightarrow> bool" where
  "decided X S lane request_id fp raw now res d d' \<longleftrightarrow>
     (\<exists>r. stored_request d lane request_id = Some r \<and> now < rr_expires_at r \<and> owns d lane (may_decide S lane) request_id fp \<and>
        (if rr_state r \<noteq> ''pending'' then res = repeated_decision r (sha256 X raw) \<and> d' = d
         else res = Inserted \<and> (\<exists>subject at. outbox_insert (verdict_kind lane) request_id subject raw at None
           (resolve_request lane request_id (sha256 X raw) at d) = Inr d')))"

lemma queue_decision_decided:
  assumes "queue_decision X S request_id fp dec now clock d = Inr (res, d')"
  obtains raw where "sx_decision_to_vec S dec = Inr raw" "decided X S RequestRows request_id fp raw now res d d'"
proof -
  obtain raw where raw: "sx_decision_to_vec S dec = Inr raw"
    using assms by (auto simp: queue_decision_def and_then_Inr_iff)
  have m: "may_decide S RequestRows = (\<lambda>_. True)" by (auto simp: may_decide_def)
  obtain r where r: "stored_request d RequestRows request_id = Some r"
    using assms raw by (cases "stored_request d RequestRows request_id") (auto simp: queue_decision_def Let_def)
  have "decided X S RequestRows request_id fp raw now res d d'"
    using assms raw r by (auto simp: queue_decision_def Let_def decided_def m verdict_kind_def map_ok_Inr_iff not_le split: if_splits)
  with raw that show ?thesis by blast
qed

lemma queue_auth_decision_decided:
  assumes "queue_auth_decision X S request_id fp dec now clock d = Inr (res, d')"
  obtains raw where "sx_auth_decision_to_vec S dec = Inr raw" "decided X S AuthRows request_id fp raw now res d d'"
proof -
  obtain raw where raw: "sx_auth_decision_to_vec S dec = Inr raw"
    using assms by (auto simp: queue_auth_decision_def and_then_Inr_iff)
  have m: "may_decide S AuthRows = (\<lambda>v. stored_kind S v \<in> {''webauthn'', ''secure-enclave''})" by (auto simp: may_decide_def)
  obtain r where r: "stored_request d AuthRows request_id = Some r"
    using assms raw by (cases "stored_request d AuthRows request_id") (auto simp: queue_auth_decision_def Let_def)
  have "decided X S AuthRows request_id fp raw now res d d'"
    using assms raw r unfolding decided_def m
    by (auto simp: queue_auth_decision_def Let_def verdict_kind_def map_ok_Inr_iff not_le split: if_splits)
  with raw that show ?thesis by blast
qed

lemma queue_tool_decision_decided:
  assumes "queue_tool_decision X S request_id fp dec now d = Inr (res, d')"
  obtains raw where "sx_tool_decision_to_vec S dec = Inr raw" "decided X S ToolRows request_id fp raw now res d d'"
proof -
  obtain raw where raw: "sx_tool_decision_to_vec S dec = Inr raw"
    using assms by (auto simp: queue_tool_decision_def and_then_Inr_iff split: if_splits)
  have m: "may_decide S ToolRows = (\<lambda>v. stored_kind S v = ''webauthn'')" by (auto simp: may_decide_def)
  obtain r where r: "stored_request d ToolRows request_id = Some r"
    using assms raw by (cases "stored_request d ToolRows request_id") (auto simp: queue_tool_decision_def Let_def and_then_Inr_iff split: if_splits)
  have "decided X S ToolRows request_id fp raw now res d d'"
    using assms raw r unfolding decided_def m
    by (auto simp: queue_tool_decision_def Let_def and_then_Inr_iff verdict_kind_def map_ok_Inr_iff not_le split: if_splits)
  with raw that show ?thesis by blast
qed

lemma ok_decided: "decided X S lane request_id fp raw now res d d' \<Longrightarrow> db_ok d \<Longrightarrow> db_ok d'"
  by (auto simp: decided_def split: if_splits intro: ok_outbox_insert ok_resolve)

lemma ok_create:
  assumes "create_enrollment e secret_hash expires reply clock d = (res, d')" and "db_ok d"
  shows "db_ok d'"
proof (cases "stored_enrollment d e")
  case None
  then have "e \<notin> er_id ` set (db_enrollments d)" by (auto simp: stored_enrollment_def find_None_iff)
  moreover have "enrollments_ok d" using assms(2) by (simp add: db_ok_def)
  moreover have d': "d' = d\<lparr>db_enrollments := db_enrollments d @ [\<lparr>er_id = e, er_secret_hash = secret_hash,
          er_status = ''pending'', er_expires_at = expires, er_reply_subject = reply,
          er_submission_hash = None, er_submission_json = None, er_fingerprint = None, er_updated_at = clock\<rparr>]\<rparr>"
    using None assms(1) by (simp add: create_enrollment_def)
  ultimately show ?thesis unfolding d' by (intro ok_enrollments [OF assms(2)]) (auto simp: enrollments_ok_def)
next
  case (Some row)
  let ?es = "update_where (\<lambda>r. er_id r = e) (\<lambda>r. r\<lparr>er_reply_subject := reply, er_updated_at := clock\<rparr>) (db_enrollments d)"
  have "db_ok (d\<lparr>db_enrollments := ?es\<rparr>)"
    by (rule ok_enrollments [OF assms(2)])
      (use assms(2) in \<open>auto simp: db_ok_def enrollments_ok_def map_update_where set_update_where\<close>)
  from ok_outbox_update [OF this, of "\<lambda>x. ob_kind x = ''enrollment_submission'' \<and> ob_dedupe_key x = e"
      "\<lambda>x. x\<lparr>ob_subject := reply, ob_sent_at := None\<rparr>"]
  show ?thesis using assms Some by (auto simp: create_enrollment_def split: if_splits)
qed

lemma submit_cases:
  assumes "submit_enrollment X S e sub now clock d = Inr (res, d')"
  shows "d' = d \<or> (\<exists>raw subject. sx_submission_to_vec S sub = Inr raw \<and>
    outbox_insert ''enrollment_submission'' e subject raw clock None (d\<lparr>db_enrollments := update_where (\<lambda>r. er_id r = e)
      (\<lambda>r. r\<lparr>er_submission_hash := Some (sha256 X raw), er_submission_json := Some raw, er_updated_at := clock\<rparr>) (db_enrollments d)\<rparr>) = Inr d')"
proof -
  obtain raw row where "sx_submission_to_vec S sub = Inr raw" "stored_enrollment d e = Some row"
    using assms(1) by (cases "stored_enrollment d e") (auto simp: submit_enrollment_def Let_def and_then_Inr_iff)
  with assms(1) show ?thesis
    by (cases "er_submission_hash row") (auto simp: submit_enrollment_def Let_def map_ok_Inr_iff split: if_splits)
qed

lemma ok_submit:
  assumes "submit_enrollment X S e sub now clock d = Inr (res, d')" and "db_ok d"
  shows "db_ok d'"
proof -
  have u: "db_ok (d\<lparr>db_enrollments := update_where (\<lambda>r. er_id r = e)
      (\<lambda>r. r\<lparr>er_submission_hash := Some hash, er_submission_json := Some raw, er_updated_at := clock\<rparr>) (db_enrollments d)\<rparr>)" for hash raw
    by (rule ok_enrollments [OF assms(2)])
      (use assms(2) in \<open>auto simp: db_ok_def enrollments_ok_def map_update_where set_update_where\<close>)
  show ?thesis using submit_cases [OF assms(1)] assms(2) ok_outbox_insert [OF _ u] by blast
qed

lemma upsert_device_cases:
  assumes "upsert_device device hash json clock d = Inr d'"
  obtains (refresh) v where "v \<in> set (db_devices d)" "de_fingerprint v = dv_fingerprint device"
      "de_credential_id v = dv_credential_id device" "de_api_token_hash v = hash"
      "d' = d\<lparr>db_devices := update_where (\<lambda>v. de_fingerprint v = dv_fingerprint device)
            (\<lambda>v. v\<lparr>de_public_record_json := json, de_active := True, de_updated_at := clock\<rparr>) (db_devices d)\<rparr>"
  | (fresh) "\<forall>v \<in> set (db_devices d). de_fingerprint v \<noteq> dv_fingerprint device \<and> de_credential_id v \<noteq> dv_credential_id device
        \<and> de_api_token_hash v \<noteq> hash"
      "d' = d\<lparr>db_devices := db_devices d @ [\<lparr>de_fingerprint = dv_fingerprint device,
            de_credential_id = dv_credential_id device, de_api_token_hash = hash,
            de_public_record_json = json, de_active = True, de_updated_at = clock\<rparr>]\<rparr>"
proof (cases "find (\<lambda>v. de_fingerprint v = dv_fingerprint device) (db_devices d)")
  case None
  with assms fresh show ?thesis by (auto simp: upsert_device_def find_None_iff split: if_splits)
next
  case (Some v)
  with assms refresh find_Some_in_set [OF Some] show ?thesis by (auto simp: upsert_device_def split: if_splits)
qed

lemma ok_upsert:
  assumes "upsert_device device hash json clock d = Inr d'" and "db_ok d"
  shows "db_ok d' \<and> dv_fingerprint device \<in> de_fingerprint ` set (db_devices d') \<and> db_enrollments d' = db_enrollments d"
  using assms(1)
proof (cases rule: upsert_device_cases)
  case (refresh v)
  have "db_ok d'" unfolding refresh(5) by (rule ok_device_update [OF assms(2)]) simp
  moreover have "dv_fingerprint device \<in> de_fingerprint ` set (db_devices d')"
    using refresh(1,2) image_update_where [of "\<lambda>v. de_fingerprint v = dv_fingerprint device" de_fingerprint
        "\<lambda>v. v\<lparr>de_public_record_json := json, de_active := True, de_updated_at := clock\<rparr>" "db_devices d"]
    by (auto simp: refresh(5)) (metis imageI)
  ultimately show ?thesis by (simp add: refresh(5))
next
  case fresh
  have "db_ok d'" unfolding fresh(2) using fresh(1) by (intro ok_device_append [OF assms(2)]) auto
  then show ?thesis by (simp add: fresh(2))
qed

lemma activate_upserts:
  assumes "activate_enrollment X S e dev now clock d = Inr d'"
  obtains row raw submission hash json d1 where "stored_enrollment d e = Some row" "er_status row = ''pending''" "now < er_expires_at row"
    "er_submission_json row = Some raw" "sx_submission_from_slice S raw = Inr submission"
    "submission_binds_device X submission dev = Inr True" "decode_base64url X (dv_api_token_hash dev) = Inr hash"
    "sx_device_to_string S dev = Inr json" "upsert_device dev hash json clock d = Inr d1"
    "d' = d1\<lparr>db_enrollments := update_where (\<lambda>r. er_id r = e \<and> er_status r = ''pending'')
       (\<lambda>r. r\<lparr>er_status := ''active'', er_fingerprint := Some (dv_fingerprint dev), er_updated_at := clock\<rparr>) (db_enrollments d1)\<rparr>"
proof -
  obtain row where row: "stored_enrollment d e = Some row"
    using assms by (cases "stored_enrollment d e") (auto simp: activate_enrollment_def and_then_Inr_iff)
  with assms that show ?thesis
    by (auto simp: activate_enrollment_def and_then_Inr_iff map_err_Inr_iff ok_or_Inr_iff not_le split: if_splits)
qed

lemma ok_activate:
  assumes "activate_enrollment X S e dev now clock d = Inr d'" and "db_ok d"
  shows "db_ok d'"
proof -
  from assms(1) obtain hash json d1 where u: "upsert_device dev hash json clock d = Inr d1"
    and d': "d' = d1\<lparr>db_enrollments := update_where (\<lambda>r. er_id r = e \<and> er_status r = ''pending'')
       (\<lambda>r. r\<lparr>er_status := ''active'', er_fingerprint := Some (dv_fingerprint dev), er_updated_at := clock\<rparr>) (db_enrollments d1)\<rparr>"
    by (rule activate_upserts)
  have ok: "db_ok d1" "dv_fingerprint dev \<in> de_fingerprint ` set (db_devices d1)"
    using ok_upsert [OF u assms(2)] by simp_all
  have "enrollments_ok d1" using ok(1) by (simp add: db_ok_def)
  then show ?thesis unfolding d' using ok(2)
    by (intro ok_enrollments [OF ok(1)])
      (auto simp: enrollments_ok_def map_update_where set_update_where split: if_splits)
qed

lemma ok_set_active:
  assumes "set_device_active fp active now clock d = (b, d')" and "db_ok d"
  shows "db_ok d'"
proof -
  let ?d1 = "d\<lparr>db_devices := update_where (\<lambda>v. de_fingerprint v = fp) (\<lambda>v. v\<lparr>de_active := active, de_updated_at := clock\<rparr>) (db_devices d)\<rparr>"
  have d1: "db_ok ?d1" by (rule ok_device_update [OF assms(2)]) simp
  have "db_ok (?d1\<lparr>db_subscriptions := update_where (\<lambda>s. su_device_fingerprint s = fp \<and> su_disabled_at s = None)
      (\<lambda>s. s\<lparr>su_disabled_at := Some clock, su_updated_at := clock\<rparr>) (db_subscriptions ?d1)\<rparr>)"
    by (rule ok_subscription_update [OF d1]) simp
  from ok_abandon [OF this] d1 assms(1) show ?thesis
    by (auto simp: set_device_active_def Let_def split: if_splits)
qed

lemma ok_cleanup:
  assumes "db_ok d"
  shows "db_ok (cleanup now d)"
proof -
  have expire: "db_ok (d\<lparr>db_enrollments := update_where (\<lambda>e. er_status e = ''pending'' \<and> er_expires_at e \<le> now)
      (\<lambda>e. e\<lparr>er_status := ''expired''\<rparr>) (db_enrollments d)\<rparr>)" if "db_ok d" for d
    by (rule ok_enrollments [OF that])
      (use that in \<open>auto simp: db_ok_def enrollments_ok_def map_update_where set_update_where\<close>)
  show ?thesis
    unfolding cleanup_def Let_def expire_stale_deliveries_def snd_conv
    by (intro ok_subscription_filter ok_push_filter ok_outbox_filter ok_tombstones ok_drop_requests expire assms)
qed

lemma ok_check_capability:
  assumes "check_capability d e fp p256dh auth h now = Inr d'" and "db_ok d"
  shows "db_ok d' \<and> db_endpoints d' = db_endpoints d \<and> db_devices d' = db_devices d"
proof -
  have "db_ok (d\<lparr>db_subscriptions := update_where (\<lambda>s. su_endpoint_id s = pe_id e)
      (\<lambda>s. s\<lparr>su_disabled_at := (case su_disabled_at s of None \<Rightarrow> Some now | Some t \<Rightarrow> Some t), su_updated_at := now\<rparr>)
      (db_subscriptions d)\<rparr>)"
    by (rule ok_subscription_update [OF assms(2)]) simp
  with assms show ?thesis by (auto simp: check_capability_def Let_def split: option.splits if_splits)
qed

lemma ok_store_endpoint:
  assumes "store_endpoint fresh fp endpoint p256dh auth expiry h now d = Inr (endpoint_id, d')" and "db_ok d"
  shows "db_ok d' \<and> endpoint_id \<in> pe_id ` set (db_endpoints d') \<and> db_devices d' = db_devices d"
proof (cases "find (\<lambda>e. pe_endpoint e = endpoint) (db_endpoints d)")
  case None
  with assms show ?thesis
    by (auto simp: store_endpoint_def find_None_iff split: if_splits intro!: ok_endpoint_append)
next
  case (Some e)
  with assms(1) obtain d1 where c: "check_capability d e fp p256dh auth h now = Inr d1"
    and d': "endpoint_id = pe_id e" "d' = refresh_endpoint (pe_id e) p256dh auth expiry h now d1"
    by (auto simp: store_endpoint_def and_then_Inr_iff)
  note ok = ok_check_capability [OF c assms(2)]
  have "db_ok d'" unfolding d' refresh_endpoint_def using ok by (intro ok_endpoint_update) auto
  moreover have "pe_id ` set (db_endpoints d') = pe_id ` set (db_endpoints d1)"
    unfolding d' refresh_endpoint_def by (simp add: image_update_where)
  ultimately show ?thesis using ok find_Some_in_set [OF Some] by (auto simp: d' refresh_endpoint_def)
qed

lemma ok_store_subscription:
  assumes "store_subscription candidate endpoint_id fp now d = Inr (sid, d')" and "db_ok d"
    and "endpoint_id \<in> pe_id ` set (db_endpoints d)" and "fp \<in> de_fingerprint ` set (db_devices d)"
  shows "db_ok d'"
proof (cases "find (\<lambda>s. su_endpoint_id s = endpoint_id \<and> su_device_fingerprint s = fp) (db_subscriptions d)")
  case None
  with assms show ?thesis
    by (auto simp: store_subscription_def find_None_iff split: if_splits intro!: ok_subscription_append)
next
  case (Some s)
  with assms(1) have "d' = d\<lparr>db_subscriptions :=
          update_where (\<lambda>s. su_endpoint_id s = endpoint_id \<and> su_device_fingerprint s = fp)
            (\<lambda>s. s\<lparr>su_updated_at := now, su_disabled_at := None\<rparr>) (db_subscriptions d)\<rparr>"
    by (auto simp: store_subscription_def)
  then show ?thesis using ok_subscription_update [OF assms(2)] by simp
qed

lemma register_parts:
  assumes "register_push_membership X S token endpoint p256dh auth expiry inst now fresh candidate d = Inr (sid, d')"
  obtains v h e d1 d2 where "browser_of_token S d (sha256 X token) = Some v" "validate_push_endpoint S endpoint = Inr ()"
    "store_endpoint fresh (de_fingerprint v) endpoint p256dh auth expiry h now d = Inr (e, d1)"
    "store_subscription candidate e (de_fingerprint v) now d1 = Inr (sid, d2)" "d' = abandon_ineligible_pushes now d2"
  using assms by (auto simp: register_push_membership_def and_then_Inr_iff ok_or_Inr_iff split: if_split_asm)

lemma ok_register:
  assumes "register_push_membership X S token endpoint p256dh auth expiry inst now fresh candidate d = Inr (sid, d')" and "db_ok d"
  shows "db_ok d'"
proof -
  from assms(1) obtain v h e d1 d2 where v: "browser_of_token S d (sha256 X token) = Some v"
    and e: "store_endpoint fresh (de_fingerprint v) endpoint p256dh auth expiry h now d = Inr (e, d1)"
    and s: "store_subscription candidate e (de_fingerprint v) now d1 = Inr (sid, d2)" and d': "d' = abandon_ineligible_pushes now d2"
    by (rule register_parts)
  note ok = ok_store_endpoint [OF e assms(2)]
  have "de_fingerprint v \<in> de_fingerprint ` set (db_devices d1)"
    using find_Some_in_set [OF v [unfolded browser_of_token_def]] ok by auto
  with ok ok_store_subscription [OF s] ok_abandon show ?thesis unfolding d' by blast
qed

lemma ok_delete:
  assumes "delete_push_subscription X S token sid now d = Inr (b, d')" and "db_ok d"
  shows "db_ok d'"
proof -
  have u: "db_ok (d\<lparr>db_subscriptions := update_where q (\<lambda>s. s\<lparr>su_disabled_at := Some now, su_updated_at := now\<rparr>) (db_subscriptions d)\<rparr>)" for q
    by (rule ok_subscription_update [OF assms(2)]) simp
  show ?thesis using assms(1) u ok_abandon [OF u]
    by (auto simp: delete_push_subscription_def Let_def split: if_split_asm)
qed

lemma claim_rows_claimable:
  "(p, e, r) \<in> set (claim_rows d now) \<Longrightarrow> p \<in> set (db_push_outbox d) \<and> claimable d now p \<and> e \<in> set (db_endpoints d) \<and>
     r \<in> set (db_requests d (po_request_kind p)) \<and> pe_id e = po_endpoint_id p \<and> rr_id r = po_request_id p"
  by (auto simp: claim_rows_def)

lemma ok_claim:
  assumes "claim_push now lease tok d = (item, d')" and "db_ok d"
  shows "db_ok d'"
proof (cases "claim_rows d now")
  case Nil
  with assms ok_abandon show ?thesis by (auto simp: claim_push_def)
next
  case (Cons a rest)
  obtain p e r where a: "a = (p, e, r)" by (cases a)
  have c: "p \<in> set (db_push_outbox d)" "claimable d now p" using claim_rows_claimable [of p e r d now] Cons a by auto
  have dist: "distinct (map po_id (db_push_outbox d))" using assms(2) by (simp add: db_ok_def push_ok_def)
  let ?free = "\<lambda>q. po_id q = po_id p \<and> unfinished q \<and> unclaimed now q"
  let ?f = "\<lambda>q. q\<lparr>po_claim_token := Some tok, po_claimed_until := Some (saturating_add now lease), po_attempts := po_attempts q + 1\<rparr>"
  have "d' = d\<lparr>db_push_outbox := update_where ?free ?f (db_push_outbox d)\<rparr>"
    using assms(1) Cons a by (auto simp: claim_push_def Let_def split: if_split_asm)
  moreover have "db_ok (d\<lparr>db_push_outbox := update_where ?free ?f (db_push_outbox d)\<rparr>)"
  proof (rule ok_push_update [OF assms(2)])
    fix q assume q: "q \<in> set (db_push_outbox d)" "?free q" "push_row_ok q"
    have "q = p" using q(1,2) c(1) dist by (auto simp: distinct_map inj_on_def)
    with c(2) q(3) show "push_row_ok (?f q)" by (auto simp: claimable_def push_row_ok_def unfinished_def)
  qed simp
  ultimately show ?thesis by simp
qed

lemma ok_push_finish:
  assumes "db_ok d"
  shows "mark_push_sent i tok now d = (b, d') \<Longrightarrow> db_ok d'"
    and "abandon_push i tok now err d = (b, d') \<Longrightarrow> db_ok d'"
    and "retry_push i tok now err d = (b, d') \<Longrightarrow> db_ok d'"
    and "disable_push_for_claim i endpoint tok now err d = (b, d') \<Longrightarrow> db_ok d'"
proof -
  have sent: "db_ok (snd (mark_push_sent i tok now d))"
    unfolding mark_push_sent_def snd_conv by (rule ok_push_update [OF assms]) (auto intro: push_row_ok_closed)
  have aband: "db_ok (snd (abandon_push i tok now err d))"
    unfolding abandon_push_def snd_conv by (rule ok_push_update [OF assms]) (auto intro: push_row_ok_closed)
  have again: "db_ok (d\<lparr>db_push_outbox := update_where (held i tok)
      (\<lambda>q. q\<lparr>po_available_at := t, po_claim_token := None, po_claimed_until := None, po_last_error := Some err\<rparr>) (db_push_outbox d)\<rparr>)" for t
    by (rule ok_push_update [OF assms]) (auto intro: push_row_ok_closed)
  let ?d1 = "d\<lparr>db_endpoints := update_where (\<lambda>e. pe_id e = endpoint)
           (\<lambda>e. e\<lparr>pe_disabled_at := Some now, pe_updated_at := now, pe_last_error := Some err\<rparr>) (db_endpoints d)\<rparr>"
  have d1: "db_ok ?d1" by (rule ok_endpoint_update [OF assms]) simp
  have off: "db_ok (?d1\<lparr>db_push_outbox := update_where (\<lambda>p. po_endpoint_id p = endpoint \<and> unfinished p)
           (\<lambda>p. p\<lparr>po_abandoned_at := Some now, po_claim_token := None, po_claimed_until := None,
                  po_last_error := Some err\<rparr>) (db_push_outbox ?d1)\<rparr>)"
    by (rule ok_push_update [OF d1]) (auto intro: push_row_ok_closed)
  show "mark_push_sent i tok now d = (b, d') \<Longrightarrow> db_ok d'" using sent by (metis snd_conv)
  show "abandon_push i tok now err d = (b, d') \<Longrightarrow> db_ok d'" using aband by (metis snd_conv)
  show "retry_push i tok now err d = (b, d') \<Longrightarrow> db_ok d'"
    using assms aband again by (auto simp: retry_push_def split: option.splits if_splits)
  show "disable_push_for_claim i endpoint tok now err d = (b, d') \<Longrightarrow> db_ok d'"
    using assms off by (auto simp: disable_push_for_claim_def split: if_splits)
qed

lemma ok_notification: "db_ok d \<Longrightarrow> db_ok (queue_notification request_id endpoint payload clock d)"
  by (simp add: queue_notification_def ok_outbox_append)

lemma ok_mark_outbox: "db_ok d \<Longrightarrow> db_ok (mark_outbox_sent i clock d)"
  unfolding mark_outbox_sent_def by (rule ok_outbox_update) simp_all

lemma ok_expire: "expire_stale_deliveries now d = (n, d') \<Longrightarrow> db_ok d \<Longrightarrow> db_ok d'"
  by (auto simp: expire_stale_deliveries_def intro: ok_outbox_filter)

lemma ok_ingest_cases:
  "d' = d \<or> (\<exists>kind i hash expires. d' = record_conflict kind i hash expires d) \<or> (\<exists>row bodies payload. ingested lane row bodies payload now d d') \<Longrightarrow> db_ok d \<Longrightarrow> db_ok d'"
  using ok_ingested ok_record_conflict by blast

lemma db_step_ok: "db_step X S d d' \<Longrightarrow> db_ok d \<Longrightarrow> db_ok d'"
proof (induction rule: db_step.induct)
  case ingest then show ?case using ok_ingest_cases [OF ingest_request_cases] by blast
next
  case ingest_auth then show ?case using ok_ingest_cases [OF ingest_auth_request_cases] by blast
next
  case ingest_tool then show ?case using ok_ingest_cases [OF ingest_tool_request_cases] by blast
next
  case decision then show ?case by (metis queue_decision_decided ok_decided)
next
  case auth_decision then show ?case by (metis queue_auth_decision_decided ok_decided)
next
  case tool_decision then show ?case by (metis queue_tool_decision_decided ok_decided)
next
  case notification then show ?case using ok_notification by auto
next
  case expire then show ?case using ok_expire by blast
next
  case sent then show ?case using ok_mark_outbox by auto
next
  case clean then show ?case using ok_cleanup by auto
next
  case create then show ?case using ok_create by blast
next
  case submit then show ?case using ok_submit by blast
next
  case activate then show ?case using ok_activate by blast
next
  case set_active then show ?case using ok_set_active by blast
next
  case register then show ?case using ok_register by blast
next
  case delete then show ?case using ok_delete by blast
next
  case claim_row then show ?case using ok_claim by blast
next
  case push_sent then show ?case using ok_push_finish(1) by blast
next
  case push_retry then show ?case using ok_push_finish(3) by blast
next
  case push_abandon then show ?case using ok_push_finish(2) by blast
next
  case push_disable then show ?case using ok_push_finish(4) by blast
qed

lemma reachable_ok: "reachable X S d \<Longrightarrow> db_ok d"
proof (induction rule: reachable.induct)
  case start
  then show ?case by (simp add: empty_db_def db_ok_def tables_defs)
next
  case (step d d')
  then show ?case using db_step_ok by blast
qed

end
