(* ===== verification/Server_Guarantees.thy ===== *)
theory Server_Guarantees
  imports Server_Db
begin

text \<open>
  What the server's store guarantees in every reachable state (\<open>server/src/db.rs\<close>): final verdicts with an owner,
  sealed bodies for their addressee only, revocation, activation, decisions as a write-once register, and
  leases on the push queue; then a store in use, on which the guarantees are evaluated.
\<close>

text \<open>C9: in every store the server can reach, keys are unique in every table, every sealed body belongs to a stored request,
  every subscription and push row to a stored device and endpoint, a request carries a decision hash exactly when it is resolved,
  and a push row is attempted at most five times and is claimed only while it is unfinished.\<close>

theorem reachable_db_ok:
  assumes "reachable X S d"
  shows "db_ok d"
  using assms by (rule reachable_ok)

section \<open>Verdicts\<close>

definition same_message :: "outbox_row \<Rightarrow> outbox_row \<Rightarrow> bool" where
  "same_message x y \<longleftrightarrow> ob_kind x = ob_kind y \<and> ob_dedupe_key x = ob_dedupe_key y \<and> ob_payload x = ob_payload y"

definition verdict_kinds :: "string set" where
  "verdict_kinds = {''decision'', ''auth_decision'', ''tool_decision''}"

lemma verdict_kind_in: "verdict_kind lane \<in> verdict_kinds"
  by (cases lane) (simp_all add: verdict_kind_def verdict_kinds_def)

lemma verdict_kind_inject: "verdict_kind a = verdict_kind b \<longleftrightarrow> a = b"
  by (cases a; cases b) (simp_all add: verdict_kind_def)

text \<open>How a step can change the outbox.\<close>

inductive outbox_change :: "crates \<Rightarrow> server_crates \<Rightarrow> db \<Rightarrow> db \<Rightarrow> bool" for X S d d' where
  unchanged: "db_outbox d' = db_outbox d \<Longrightarrow> outbox_change X S d d'"
| updated: "db_outbox d' = update_where p f (db_outbox d) \<Longrightarrow> (\<And>x. p x \<Longrightarrow> same_message x (f x)) \<Longrightarrow> outbox_change X S d d'"
| dropped: "db_outbox d' = filter q (db_outbox d) \<Longrightarrow>
    (\<And>x. x \<in> set (db_outbox d) \<Longrightarrow> \<not> q x \<Longrightarrow> stale_delivery now x \<or> (d' = cleanup now d \<and> older (ob_sent_at x) (now - 86400))) \<Longrightarrow>
    outbox_change X S d d'"
| added: "db_outbox d' = db_outbox d @ [x] \<Longrightarrow> ob_kind x \<notin> verdict_kinds \<Longrightarrow> \<not> outbox_has (ob_kind x) (ob_dedupe_key x) d \<Longrightarrow>
    outbox_change X S d d'"
| judged: "db_outbox d' = db_outbox d @ [x] \<Longrightarrow> ob_kind x = verdict_kind lane \<Longrightarrow> \<not> outbox_has (ob_kind x) (ob_dedupe_key x) d \<Longrightarrow>
    decided X S lane (ob_dedupe_key x) fp (ob_payload x) now Inserted d d' \<Longrightarrow> outbox_change X S d d'"

lemma outbox_insert_row:
  assumes "outbox_insert kind key subject payload created expires d = Inr d'"
  obtains x where "db_outbox d' = db_outbox d @ [x]" "ob_kind x = kind" "ob_dedupe_key x = key" "ob_payload x = payload"
    "\<not> outbox_has kind key d"
  using assms by (auto simp: outbox_insert_def outbox_append_def split: if_splits)

lemma insert_bodies_frame:
  "insert_bodies lane request_id bs d = Inr d' \<Longrightarrow> db_outbox d' = db_outbox d \<and> db_requests d' = db_requests d \<and> db_devices d' = db_devices d"
proof (induction lane request_id bs d rule: insert_bodies.induct)
  case (2 lane request_id fp body bs d)
  then show ?case by (auto simp: and_then_Inr_iff split: if_splits)
qed simp

lemma outbox_has_cong: "db_outbox d' = db_outbox d \<Longrightarrow> outbox_has kind key d' = outbox_has kind key d"
  by (simp add: outbox_has_def)

lemma ingested_outbox:
  assumes "ingested lane row bodies payload now d d'"
  shows "outbox_change X S d d'"
proof -
  obtain d1 where b: "insert_bodies lane (rr_id row) bodies (insert_request lane row d) = Inr d1"
    and r: "receipt (enqueue_push lane (rr_id row) payload now d1) d'"
    using assms by (auto simp: ingested_def)
  have same: "db_outbox (enqueue_push lane (rr_id row) payload now d1) = db_outbox d"
    using insert_bodies_frame [OF b] by (simp add: enqueue_push_def insert_request_def)
  from r consider "d' = enqueue_push lane (rr_id row) payload now d1"
    | kind key subject delivery created expires where "kind \<in> {''delivery'', ''tool_delivery''}"
      "outbox_insert kind key subject delivery created expires (enqueue_push lane (rr_id row) payload now d1) = Inr d'"
    unfolding receipt_def by blast
  then show ?thesis
  proof cases
    case 1
    with same show ?thesis by (intro unchanged) simp
  next
    case 2
    from 2(2) obtain x where x: "db_outbox d' = db_outbox d @ [x]" "ob_kind x = kind" "ob_dedupe_key x = key" "\<not> outbox_has kind key d"
      using same outbox_has_cong [OF same] by (metis outbox_insert_row)
    with 2(1) show ?thesis by (intro added [OF x(1)]) (auto simp: verdict_kinds_def)
  qed
qed

lemma decided_outbox:
  assumes "decided X S lane request_id fp raw now res d d'"
  shows "outbox_change X S d d'"
proof -
  obtain r where r: "stored_request d lane request_id = Some r"
    "if rr_state r \<noteq> ''pending'' then res = repeated_decision r (sha256 X raw) \<and> d' = d
       else res = Inserted \<and> (\<exists>subject at. outbox_insert (verdict_kind lane) request_id subject raw at None
           (resolve_request lane request_id (sha256 X raw) at d) = Inr d')"
    using assms by (auto simp: decided_def)
  show ?thesis
  proof (cases "rr_state r = ''pending''")
    case False
    with r(2) show ?thesis by (intro unchanged) simp
  next
    case True
    with r(2) obtain subject at where i: "res = Inserted"
      "outbox_insert (verdict_kind lane) request_id subject raw at None (resolve_request lane request_id (sha256 X raw) at d) = Inr d'"
      by auto
    have same: "db_outbox (resolve_request lane request_id (sha256 X raw) at d) = db_outbox d" by (simp add: resolve_request_def)
    from i(2) obtain x where x: "db_outbox d' = db_outbox d @ [x]" "ob_kind x = verdict_kind lane" "ob_dedupe_key x = request_id"
      "ob_payload x = raw" "\<not> outbox_has (verdict_kind lane) request_id d"
      using same outbox_has_cong [OF same] by (metis outbox_insert_row)
    with i(1) assms show ?thesis by (intro judged [OF x(1,2)]) auto
  qed
qed

lemma abandon_frame [simp]: "db_outbox (abandon_ineligible_pushes now d) = db_outbox d"
  "db_requests (abandon_ineligible_pushes now d) = db_requests d" "db_devices (abandon_ineligible_pushes now d) = db_devices d"
  "db_bodies (abandon_ineligible_pushes now d) = db_bodies d" "db_subscriptions (abandon_ineligible_pushes now d) = db_subscriptions d"
  "db_endpoints (abandon_ineligible_pushes now d) = db_endpoints d" "db_enrollments (abandon_ineligible_pushes now d) = db_enrollments d"
  by (simp_all add: abandon_ineligible_pushes_def Let_def)

lemma activate_outbox: "activate_enrollment X S e dev now clock d = Inr d' \<Longrightarrow> db_outbox d' = db_outbox d"
  by (auto elim!: activate_upserts upsert_device_cases)

lemma submit_outbox:
  assumes "submit_enrollment X S e sub now clock d = Inr (res, d')"
  shows "outbox_change X S d d'"
proof -
  have enrolled: "db_outbox (d\<lparr>db_enrollments := es\<rparr>) = db_outbox d" for es by simp
  have "outbox_change X S d d'"
    if i: "outbox_insert ''enrollment_submission'' e subject raw clock None (d\<lparr>db_enrollments := es\<rparr>) = Inr d'" for subject raw es
  proof -
    obtain x where x: "db_outbox d' = db_outbox d @ [x]" "ob_kind x = ''enrollment_submission''" "ob_dedupe_key x = e"
      "\<not> outbox_has ''enrollment_submission'' e d"
      using outbox_insert_row [OF i] outbox_has_cong [OF enrolled] enrolled by metis
    then show ?thesis by (intro added [OF x(1)]) (auto simp: verdict_kinds_def)
  qed
  with submit_cases [OF assms] show ?thesis by (auto intro: unchanged)
qed

lemma create_outbox:
  assumes "create_enrollment e secret_hash expires reply clock d = (res, d')"
  shows "outbox_change X S d d'"
proof (cases "\<exists>row. stored_enrollment d e = Some row \<and> er_secret_hash row = secret_hash \<and> er_expires_at row = expires")
  case True
  with assms have "db_outbox d' = update_where (\<lambda>x. ob_kind x = ''enrollment_submission'' \<and> ob_dedupe_key x = e)
      (\<lambda>x. x\<lparr>ob_subject := reply, ob_sent_at := None\<rparr>) (db_outbox d)"
    by (auto simp: create_enrollment_def)
  then show ?thesis by (rule updated) (simp add: same_message_def)
next
  case False
  with assms show ?thesis
    by (intro unchanged) (cases "stored_enrollment d e"; auto simp: create_enrollment_def split: if_splits)
qed

lemma notification_outbox: "outbox_change X S d (queue_notification request_id endpoint payload clock d)"
proof (cases "outbox_has ''ntfy'' request_id d")
  case True
  then show ?thesis by (intro unchanged) (simp add: queue_notification_def)
next
  case False
  then show ?thesis by (intro added) (auto simp: queue_notification_def outbox_append_def verdict_kinds_def)
qed

lemma cleanup_outbox: "outbox_change X S d (cleanup now d)"
proof (rule dropped)
  show "db_outbox (cleanup now d) = filter (\<lambda>x. \<not> stale_delivery now x \<and> \<not> older (ob_sent_at x) (now - 86400)) (db_outbox d)"
    by (simp add: cleanup_def Let_def expire_stale_deliveries_def drop_requests_def)
qed auto

lemma push_outbox_frame:
  "register_push_membership X S token endpoint p256dh auth expiry inst now fresh candidate d = Inr (sid, d') \<Longrightarrow> db_outbox d' = db_outbox d"
  "delete_push_subscription X S token sid now d = Inr (b, d') \<Longrightarrow> db_outbox d' = db_outbox d"
  "claim_push now lease tok d = (item, d') \<Longrightarrow> db_outbox d' = db_outbox d"
  "mark_push_sent i tok now d = (b, d') \<Longrightarrow> db_outbox d' = db_outbox d"
  "abandon_push i tok now err d = (b, d') \<Longrightarrow> db_outbox d' = db_outbox d"
  "retry_push i tok now err d = (b, d') \<Longrightarrow> db_outbox d' = db_outbox d"
  "disable_push_for_claim i endpoint tok now err d = (b, d') \<Longrightarrow> db_outbox d' = db_outbox d"
  "set_device_active fp active now clock d = (b, d') \<Longrightarrow> db_outbox d' = db_outbox d"
proof -
  assume r: "register_push_membership X S token endpoint p256dh auth expiry inst now fresh candidate d = Inr (sid, d')"
  from r obtain v h e d1 d2 where v: "browser_of_token S d (sha256 X token) = Some v"
    and ok: "validate_push_endpoint S endpoint = Inr ()" and e: "store_endpoint fresh (de_fingerprint v) endpoint p256dh auth expiry h now d = Inr (e, d1)"
    and s: "store_subscription candidate e (de_fingerprint v) now d1 = Inr (sid, d2)" and d': "d' = abandon_ineligible_pushes now d2"
    by (rule register_parts)
  have "db_outbox d1 = db_outbox d"
    using e by (auto simp: store_endpoint_def check_capability_def refresh_endpoint_def and_then_Inr_iff Let_def split: option.splits if_splits)
  moreover have "db_outbox d2 = db_outbox d1"
    using s by (auto simp: store_subscription_def split: option.splits if_splits)
  ultimately show "db_outbox d' = db_outbox d" by (simp add: d')
next
  show "delete_push_subscription X S token sid now d = Inr (b, d') \<Longrightarrow> db_outbox d' = db_outbox d"
    by (auto simp: delete_push_subscription_def Let_def split: if_splits)
  show "claim_push now lease tok d = (item, d') \<Longrightarrow> db_outbox d' = db_outbox d"
    by (auto simp: claim_push_def Let_def split: list.splits if_splits)
  show "retry_push i tok now err d = (b, d') \<Longrightarrow> db_outbox d' = db_outbox d"
    by (auto simp: retry_push_def abandon_push_def split: option.splits if_splits)
qed (auto simp: mark_push_sent_def abandon_push_def disable_push_for_claim_def set_device_active_def Let_def split: if_splits)

lemma record_conflict_outbox: "db_outbox (record_conflict kind i hash expires d) = db_outbox d"
  by (simp add: record_conflict_def)

lemma step_outbox: "db_step X S d d' \<Longrightarrow> outbox_change X S d d'"
proof (induction rule: db_step.induct)
  case ingest then show ?case using ingest_request_cases ingested_outbox by (metis unchanged record_conflict_outbox)
next
  case ingest_auth then show ?case using ingest_auth_request_cases ingested_outbox by (metis unchanged record_conflict_outbox)
next
  case ingest_tool then show ?case using ingest_tool_request_cases ingested_outbox by (metis unchanged record_conflict_outbox)
next
  case decision then show ?case by (metis queue_decision_decided decided_outbox)
next
  case auth_decision then show ?case by (metis queue_auth_decision_decided decided_outbox)
next
  case tool_decision then show ?case by (metis queue_tool_decision_decided decided_outbox)
next
  case notification then show ?case using notification_outbox by auto
next
  case (expire now d n d') then show ?case by (intro dropped [of _ "\<lambda>x. \<not> stale_delivery now x"]) (auto simp: expire_stale_deliveries_def)
next
  case (sent i clock d d') then show ?case
    by (intro updated [of _ "\<lambda>x. ob_id x = i" "\<lambda>x. x\<lparr>ob_sent_at := Some clock, ob_attempts := ob_attempts x + 1\<rparr>"])
      (auto simp: mark_outbox_sent_def same_message_def)
next
  case clean then show ?case using cleanup_outbox by auto
next
  case create then show ?case by (rule create_outbox)
next
  case submit then show ?case by (rule submit_outbox)
next
  case activate then show ?case by (intro unchanged activate_outbox)
next
  case set_active then show ?case by (intro unchanged push_outbox_frame(8))
next
  case register then show ?case by (intro unchanged push_outbox_frame(1))
next
  case delete then show ?case by (intro unchanged push_outbox_frame(2))
next
  case claim_row then show ?case by (intro unchanged push_outbox_frame(3))
next
  case push_sent then show ?case by (intro unchanged push_outbox_frame(4))
next
  case push_retry then show ?case by (intro unchanged push_outbox_frame(6))
next
  case push_abandon then show ?case by (intro unchanged push_outbox_frame(5))
next
  case push_disable then show ?case by (intro unchanged push_outbox_frame(7))
qed

lemma retained_payload_iff:
  assumes "outbox_ok d"
  shows "retained_payload kind key d = Some p \<longleftrightarrow>
    (\<exists>x \<in> set (db_outbox d). ob_kind x = kind \<and> ob_dedupe_key x = key \<and> ob_payload x = p)"
proof -
  let ?ys = "filter (\<lambda>x. ob_kind x = kind \<and> ob_dedupe_key x = key) (db_outbox d)"
  have dist: "distinct (map (\<lambda>x. (ob_kind x, ob_dedupe_key x)) ?ys)"
    using assms by (auto simp: outbox_ok_def distinct_map_filter)
  have all: "\<forall>x \<in> set ?ys. (ob_kind x, ob_dedupe_key x) = (kind, key)" by auto
  have len: "\<forall>ys. distinct (map (\<lambda>x. (ob_kind x, ob_dedupe_key x)) ys) \<longrightarrow>
      (\<forall>x \<in> set ys. (ob_kind x, ob_dedupe_key x) = (kind, key)) \<longrightarrow> ys = [] \<or> (\<exists>x. ys = [x])"
    by (intro allI, rename_tac ys, case_tac ys; case_tac "tl ys") auto
  have set: "set ?ys = {x \<in> set (db_outbox d). ob_kind x = kind \<and> ob_dedupe_key x = key}" by auto
  consider "?ys = []" | x where "?ys = [x]" using len dist all by blast
  then show ?thesis
  proof cases
    case 1
    then have "\<not> (\<exists>x \<in> set (db_outbox d). ob_kind x = kind \<and> ob_dedupe_key x = key)"
      by (simp add: filter_empty_conv)
    with 1 show ?thesis by (auto simp: retained_payload_def)
  next
    case 2
    then have "{x \<in> set (db_outbox d). ob_kind x = kind \<and> ob_dedupe_key x = key} = {x}" using set by simp
    with 2 show ?thesis by (auto simp: retained_payload_def)
  qed
qed

lemma outbox_unique:
  assumes "outbox_ok d" "x \<in> set (db_outbox d)" "y \<in> set (db_outbox d)" "ob_kind x = ob_kind y" "ob_dedupe_key x = ob_dedupe_key y"
  shows "x = y"
  using assms by (auto simp: outbox_ok_def distinct_map inj_on_def)

lemma outbox_origin:
  assumes "outbox_change X S d d'" and "y \<in> set (db_outbox d')"
  shows "(\<exists>x \<in> set (db_outbox d). same_message x y) \<or> \<not> outbox_has (ob_kind y) (ob_dedupe_key y) d \<and>
    (\<forall>lane. ob_kind y = verdict_kind lane \<longrightarrow> (\<exists>fp now. decided X S lane (ob_dedupe_key y) fp (ob_payload y) now Inserted d d'))"
  using assms
proof (cases rule: outbox_change.cases)
  case (updated p f)
  with assms(2) show ?thesis by (auto simp: set_update_where same_message_def split: if_splits)
next
  case (added x)
  with assms(2) verdict_kind_in show ?thesis by (auto simp: same_message_def)
next
  case (judged x lane fp now)
  with assms(2) show ?thesis by (auto simp: same_message_def verdict_kind_inject)
qed (use assms(2) in \<open>auto simp: same_message_def\<close>)

lemma outbox_fate:
  assumes "outbox_change X S d d'" and "x \<in> set (db_outbox d)" and "ob_kind x \<in> verdict_kinds"
  shows "(\<exists>y \<in> set (db_outbox d'). same_message x y) \<or> (\<exists>now. d' = cleanup now d \<and> older (ob_sent_at x) (now - 86400))"
  using assms
proof (cases rule: outbox_change.cases)
  case (updated p f)
  then have "(if p x then f x else x) \<in> set (db_outbox d')" using assms(2) by (simp only: set_update_where) blast
  moreover have "same_message x (if p x then f x else x)" using updated(2) by (simp add: same_message_def)
  ultimately show ?thesis by blast
next
  case (dropped q now)
  have live: "\<not> stale_delivery now x" using assms(3) by (auto simp: stale_delivery_def verdict_kinds_def)
  show ?thesis
  proof (cases "q x")
    case True
    with dropped(1) assms(2) show ?thesis by (auto simp: same_message_def)
  next
    case False
    with dropped(2) [OF assms(2)] live show ?thesis by blast
  qed
qed (use assms(2) in \<open>auto simp: same_message_def\<close>)

lemma find_update_where:
  assumes "\<And>r. p r \<Longrightarrow> key (f r) = key r"
  shows "find (\<lambda>r. key r = k) (update_where p f rows) = map_option (\<lambda>r. if p r then f r else r) (find (\<lambda>r. key r = k) rows)"
  using assms by (induction rows) (auto simp: update_where_def)

lemma stored_request_resolve:
  assumes "stored_request d lane request_id = Some r" and "rr_state r = ''pending''"
  shows "stored_request (resolve_request lane request_id hash at d) lane request_id
    = Some (r\<lparr>rr_state := ''resolved'', rr_decision_hash := Some hash, rr_resolved_at := Some at\<rparr>)"
  using assms find_Some_in_set [OF assms(1) [unfolded stored_request_def]]
  by (simp add: stored_request_def resolve_request_def find_update_where)

text \<open>C12: a recorded verdict is written once: from any reachable store, whatever the next operation, a verdict on record for a
  request of some lane stays as it is; only the daily cleanup removes it, and only after it was sent a day before.\<close>

theorem recorded_verdict_is_final:
  assumes "reachable X S d" and "db_step X S d d'" and "retained_payload (verdict_kind lane) request_id d = Some p"
  shows "retained_payload (verdict_kind lane) request_id d' = Some p \<or>
    (retained_payload (verdict_kind lane) request_id d' = None \<and> (\<exists>now x. d' = cleanup now d \<and> x \<in> set (db_outbox d) \<and>
       ob_kind x = verdict_kind lane \<and> ob_dedupe_key x = request_id \<and> older (ob_sent_at x) (now - 86400)))"
proof -
  have ok: "outbox_ok d" "outbox_ok d'"
    using reachable_ok [OF assms(1)] db_step_ok [OF assms(2)] by (auto simp: db_ok_def)
  note change = step_outbox [OF assms(2)]
  obtain x where x: "x \<in> set (db_outbox d)" "ob_kind x = verdict_kind lane" "ob_dedupe_key x = request_id" "ob_payload x = p"
    using assms(3) by (auto simp: retained_payload_iff [OF ok(1)])
  have "q = p" if "retained_payload (verdict_kind lane) request_id d' = Some q" for q
  proof -
    note found = that
    obtain y where y: "y \<in> set (db_outbox d')" "ob_kind y = verdict_kind lane" "ob_dedupe_key y = request_id" "ob_payload y = q"
      using found by (auto simp: retained_payload_iff [OF ok(2)])
    have "outbox_has (ob_kind y) (ob_dedupe_key y) d" using x y by (auto simp: outbox_has_def)
    with outbox_origin [OF change y(1)] obtain z where "z \<in> set (db_outbox d)" "same_message z y" by blast
    with outbox_unique [OF ok(1) x(1), of z] x y show ?thesis by (auto simp: same_message_def)
  qed
  moreover have "retained_payload (verdict_kind lane) request_id d' \<noteq> None \<or> (\<exists>now. d' = cleanup now d \<and> older (ob_sent_at x) (now - 86400))"
    using outbox_fate [OF change x(1)] x verdict_kind_in [of lane] retained_payload_iff [OF ok(2), of "verdict_kind lane" request_id p]
    by (auto simp: same_message_def)
  ultimately show ?thesis using x by (cases "retained_payload (verdict_kind lane) request_id d'") auto
qed

text \<open>a verdict appears on record only by the decision of a device that is active, of a kind allowed on that lane, and to which a
  body of that very request was sealed, while the request was pending; the request is then resolved with the hash of that verdict.\<close>

theorem recorded_verdict_has_owner:
  assumes "reachable X S d" and "db_step X S d d'"
    and "retained_payload (verdict_kind lane) request_id d = None" and "retained_payload (verdict_kind lane) request_id d' = Some p"
  shows "\<exists>fp r r' now. owns d lane (may_decide S lane) request_id fp \<and> stored_request d lane request_id = Some r \<and>
    rr_state r = ''pending'' \<and> now < rr_expires_at r \<and>
    stored_request d' lane request_id = Some r' \<and> rr_state r' = ''resolved'' \<and> rr_decision_hash r' = Some (sha256 X p)"
proof -
  have ok: "outbox_ok d" "outbox_ok d'"
    using reachable_ok [OF assms(1)] db_step_ok [OF assms(2)] by (auto simp: db_ok_def)
  obtain y where y: "y \<in> set (db_outbox d')" "ob_kind y = verdict_kind lane" "ob_dedupe_key y = request_id" "ob_payload y = p"
    using assms(4) by (auto simp: retained_payload_iff [OF ok(2)])
  have "\<not> (\<exists>x \<in> set (db_outbox d). same_message x y)"
    using assms(3) retained_payload_iff [OF ok(1), of "verdict_kind lane" request_id p] y by (auto simp: same_message_def)
  with outbox_origin [OF step_outbox [OF assms(2)] y(1)] y obtain fp now where
    dec: "decided X S lane request_id fp p now Inserted d d'" by blast
  then obtain r where r: "stored_request d lane request_id = Some r" "now < rr_expires_at r" "owns d lane (may_decide S lane) request_id fp"
    and c: "if rr_state r \<noteq> ''pending'' then Inserted = repeated_decision r (sha256 X p) \<and> d' = d
      else (\<exists>subject at. outbox_insert (verdict_kind lane) request_id subject p at None (resolve_request lane request_id (sha256 X p) at d) = Inr d')"
    by (auto simp: decided_def)
  have pending: "rr_state r = ''pending''"
    using c by (auto simp: repeated_decision_def split: if_splits)
  with c obtain subject at where i: "outbox_insert (verdict_kind lane) request_id subject p at None (resolve_request lane request_id (sha256 X p) at d) = Inr d'"
    by auto
  have "db_requests d' = db_requests (resolve_request lane request_id (sha256 X p) at d)"
    using i by (auto simp: outbox_insert_def outbox_append_def split: if_splits)
  then have "stored_request d' lane request_id
      = Some (r\<lparr>rr_state := ''resolved'', rr_decision_hash := Some (sha256 X p), rr_resolved_at := Some at\<rparr>)"
    using stored_request_resolve [OF r(1) pending] by (simp add: stored_request_def)
  with r pending show ?thesis by auto
qed

section \<open>Sealed bodies and revocation\<close>

lemma sealed_row_Some:
  assumes "sealed_row d lane ok request_id now = Some s"
  shows "\<exists>r b v. r \<in> set (db_requests d lane) \<and> b \<in> set (db_bodies d lane) \<and> v \<in> set (db_devices d) \<and> rr_id r = request_id \<and>
    rr_state r = ''pending'' \<and> now < rr_expires_at r \<and> br_request_id b = request_id \<and> br_fingerprint b = de_fingerprint v \<and>
    de_active v \<and> ok v \<and> s = \<lparr>sq_body_json = br_body_json b, sq_expires_at = rr_expires_at r\<rparr>"
proof -
  let ?P = "\<lambda>(r, b, v). rr_id r = request_id \<and> rr_state r = ''pending'' \<and> rr_expires_at r > now
          \<and> br_request_id b = rr_id r \<and> de_fingerprint v = br_fingerprint b \<and> de_active v \<and> ok v"
  let ?rows = "List.product (db_requests d lane) (List.product (db_bodies d lane) (db_devices d))"
  obtain r b v rest where f: "filter ?P ?rows = (r, b, v) # rest" and s: "s = \<lparr>sq_body_json = br_body_json b, sq_expires_at = rr_expires_at r\<rparr>"
    using assms unfolding sealed_row_def by (cases "filter ?P ?rows") auto
  have "(r, b, v) \<in> set (filter ?P ?rows)" by (simp only: f list.set_intros(1))
  then have facts: "r \<in> set (db_requests d lane)" "b \<in> set (db_bodies d lane)" "v \<in> set (db_devices d)" "rr_id r = request_id"
    "rr_state r = ''pending''" "now < rr_expires_at r" "br_request_id b = request_id" "br_fingerprint b = de_fingerprint v"
    "de_active v" "ok v" by auto
  show ?thesis using facts s by blast
qed

lemma sealed_row_None:
  assumes "\<And>v. v \<in> set (db_devices d) \<Longrightarrow> ok v \<Longrightarrow> \<not> de_active v"
  shows "sealed_row d lane ok request_id now = None"
proof (rule ccontr)
  assume "sealed_row d lane ok request_id now \<noteq> None"
  then obtain s where "sealed_row d lane ok request_id now = Some s" by blast
  from sealed_row_Some [OF this] assms show False by blast
qed

text \<open>the API hands out a sealed body only to its addressee: the body returned for a token is the one stored for the device, the only one
  with that token, under that very request while it is pending and unexpired, and the device is active.\<close>

theorem sealed_body_for_its_device:
  assumes "reachable X S d" and "sealed_request_for_token X request_id token now d = Some s
    \<or> sealed_auth_request_for_token X request_id token now d = Some s \<or> sealed_tool_request_for_token X S request_id token now d = Some s"
  shows "\<exists>v \<in> set (db_devices d). de_active v \<and> de_api_token_hash v = sha256 X token \<and>
    (\<forall>v' \<in> set (db_devices d). de_api_token_hash v' = sha256 X token \<longrightarrow> v' = v) \<and>
    (\<exists>lane r b. r \<in> set (db_requests d lane) \<and> rr_id r = request_id \<and> rr_state r = ''pending'' \<and> now < rr_expires_at r \<and>
       b \<in> set (db_bodies d lane) \<and> br_request_id b = request_id \<and> br_fingerprint b = de_fingerprint v \<and> sq_body_json s = br_body_json b)"
proof -
  obtain lane ok where ok: "sealed_row d lane ok request_id now = Some s" and tok: "\<And>v. ok v \<Longrightarrow> de_api_token_hash v = sha256 X token"
    using assms(2) unfolding sealed_request_for_token_def sealed_auth_request_for_token_def sealed_tool_request_for_token_def by blast
  obtain r b v where x: "r \<in> set (db_requests d lane)" "b \<in> set (db_bodies d lane)" "v \<in> set (db_devices d)" "rr_id r = request_id"
    "rr_state r = ''pending''" "now < rr_expires_at r" "br_request_id b = request_id" "br_fingerprint b = de_fingerprint v"
    "de_active v" "ok v" "s = \<lparr>sq_body_json = br_body_json b, sq_expires_at = rr_expires_at r\<rparr>"
    using sealed_row_Some [OF ok] by blast
  have "distinct (map de_api_token_hash (db_devices d))"
    using reachable_ok [OF assms(1)] by (simp add: db_ok_def devices_ok_def)
  then have uniq: "v' = v" if "v' \<in> set (db_devices d)" "de_api_token_hash v' = sha256 X token" for v'
    using that x(3) tok [OF x(10)] by (auto simp: distinct_map inj_on_def)
  have "sq_body_json s = br_body_json b" using x(11) by simp
  with x uniq tok [OF x(10)] show ?thesis by blast
qed

lemma revoked_rows:
  assumes "set_device_active fp False now clock d = (b, d')"
  shows "\<And>v. v \<in> set (db_devices d') \<Longrightarrow> de_fingerprint v = fp \<Longrightarrow> \<not> de_active v"
    and "map (\<lambda>v. (de_fingerprint v, de_api_token_hash v)) (db_devices d') = map (\<lambda>v. (de_fingerprint v, de_api_token_hash v)) (db_devices d)"
    and "map de_api_token_hash (db_devices d') = map de_api_token_hash (db_devices d)"
proof -
  have dev: "db_devices d' = update_where (\<lambda>v. de_fingerprint v = fp) (\<lambda>v. v\<lparr>de_active := False, de_updated_at := clock\<rparr>) (db_devices d)"
    using assms by (auto simp: set_device_active_def Let_def split: if_splits)
  show "\<not> de_active v" if v: "v \<in> set (db_devices d')" "de_fingerprint v = fp" for v
  proof -
    obtain w where w: "v = (if de_fingerprint w = fp then w\<lparr>de_active := False, de_updated_at := clock\<rparr> else w)"
      using v(1) unfolding dev set_update_where by blast
    with v(2) show ?thesis by (cases "de_fingerprint w = fp") simp_all
  qed
  show "map de_api_token_hash (db_devices d') = map de_api_token_hash (db_devices d)"
    by (simp add: dev map_update_where)
  show "map (\<lambda>v. (de_fingerprint v, de_api_token_hash v)) (db_devices d') = map (\<lambda>v. (de_fingerprint v, de_api_token_hash v)) (db_devices d)"
    by (simp add: dev map_update_where)
qed

lemma token_owner_inactive:
  assumes "db_ok d" and "set_device_active fp False now clock d = (b, d')" and "v \<in> set (db_devices d)" and "de_fingerprint v = fp"
    and "u \<in> set (db_devices d')" and "de_api_token_hash u = de_api_token_hash v"
  shows "\<not> de_active u"
proof -
  have "set (map (\<lambda>v. (de_fingerprint v, de_api_token_hash v)) (db_devices d')) = set (map (\<lambda>v. (de_fingerprint v, de_api_token_hash v)) (db_devices d))"
    by (rule arg_cong [OF revoked_rows(2) [OF assms(2)]])
  moreover have "(fp, de_api_token_hash v) \<in> set (map (\<lambda>v. (de_fingerprint v, de_api_token_hash v)) (db_devices d))"
    using assms(3,4) by (auto simp: image_iff)
  ultimately have "(fp, de_api_token_hash v) \<in> set (map (\<lambda>v. (de_fingerprint v, de_api_token_hash v)) (db_devices d'))" by (simp only:)
  then obtain w where w: "w \<in> set (db_devices d')" "de_fingerprint w = fp" "de_api_token_hash w = de_api_token_hash v" by auto
  have "distinct (map de_api_token_hash (db_devices d'))"
    using assms(1) revoked_rows(3) [OF assms(2)] by (simp add: db_ok_def devices_ok_def)
  then have "u = w" using assms(5,6) w by (auto simp: distinct_map inj_on_def)
  with revoked_rows(1) [OF assms(2)] w show ?thesis by blast
qed

text \<open>What a worker gets from a claim, and what is in the store for it.\<close>

lemma claimed_push_rows:
  assumes "claim_push now lease tok d = (Some item, d')"
  obtains p e r where "p \<in> set (db_push_outbox d)" "claimable d now p" "e \<in> set (db_endpoints d)" "pe_id e = po_endpoint_id p"
    "r \<in> set (db_requests d (po_request_kind p))" "rr_id r = po_request_id p"
    "pi_id item = po_id p" "pi_endpoint_id item = po_endpoint_id p" "pi_endpoint item = pe_endpoint e" "pi_payload item = po_payload p"
    "pi_request_kind item = po_request_kind p" "pi_request_id item = po_request_id p" "pi_expires_at item = rr_expires_at r"
    "pi_claim_token item = tok" "pi_attempts item = po_attempts p + 1"
proof -
  obtain p e r rest where rows: "claim_rows d now = (p, e, r) # rest" using assms by (auto simp: claim_push_def split: list.splits)
  have c: "p \<in> set (db_push_outbox d)" "claimable d now p" "e \<in> set (db_endpoints d)" "pe_id e = po_endpoint_id p"
    using claim_rows_claimable [of p e r d now] rows by auto
  have "(p, e, r) \<in> set (claim_rows d now)" by (simp add: rows)
  then have r: "r \<in> set (db_requests d (po_request_kind p))" "rr_id r = po_request_id p" by (auto simp: claim_rows_def)
  show ?thesis
    by (rule that [OF c r]) (use assms rows in \<open>auto simp: claim_push_def Let_def split: if_splits\<close>)
qed

lemma queue_needs_owner:
  assumes "\<forall>lane ok. \<not> owns d lane ok r fp"
  shows "is_err (queue_decision X S r fp dec now clock d)" and "is_err (queue_auth_decision X S r fp adec now clock d)"
    and "is_err (queue_tool_decision X S r fp tdec now d)"
  using assms
  by (auto simp: queue_decision_def queue_auth_decision_def queue_tool_decision_def and_then_def map_err_def Let_def
      split: sum.splits option.splits)

text \<open>C32: revocation takes effect at once on every path of the store. After a device is deactivated its token reads no sealed body on any
  lane, every attempt to queue a decision in its name fails on every lane, its token registers no push endpoint, and a push handed to a
  worker from then on goes to an endpoint to which another device, active and with a sealed body of that request, is subscribed.\<close>

theorem revoked_device_is_cut_off:
  assumes "reachable X S d" and "v \<in> set (db_devices d)" and "de_api_token_hash v = sha256 X token"
    and "set_device_active (de_fingerprint v) False now clock d = (b, d')"
  shows "sealed_request_for_token X r token t d' = None \<and> sealed_auth_request_for_token X r token t d' = None \<and>
    sealed_tool_request_for_token X S r token t d' = None \<and>
    is_err (queue_decision X S r (de_fingerprint v) dec t c d') \<and> is_err (queue_auth_decision X S r (de_fingerprint v) adec t c d') \<and>
    is_err (queue_tool_decision X S r (de_fingerprint v) tdec t d') \<and>
    is_err (register_push_membership X S token endpoint p256dh auth expiry inst t fresh candidate d') \<and>
    (\<forall>item d''. claim_push t lease tok d' = (Some item, d'') \<longrightarrow>
       (\<exists>u \<in> set (db_devices d'). \<exists>s \<in> set (db_subscriptions d'). de_fingerprint u \<noteq> de_fingerprint v \<and> de_active u \<and>
          has_body d' (pi_request_kind item) (pi_request_id item) (de_fingerprint u) \<and>
          su_device_fingerprint s = de_fingerprint u \<and> su_endpoint_id s = pi_endpoint_id item \<and> su_disabled_at s = None))"
proof -
  note cut = token_owner_inactive [OF reachable_ok [OF assms(1)] assms(4,2) refl]
  note inactive = revoked_rows(1) [OF assms(4)]
  have none: "sealed_row d' lane ok r t = None" if "\<And>u. ok u \<Longrightarrow> de_api_token_hash u = sha256 X token" for lane ok
    using that cut assms(3) by (intro sealed_row_None) auto
  have sealed: "sealed_request_for_token X r token t d' = None" "sealed_auth_request_for_token X r token t d' = None"
    "sealed_tool_request_for_token X S r token t d' = None"
    unfolding sealed_request_for_token_def sealed_auth_request_for_token_def sealed_tool_request_for_token_def
    by (rule none, simp)+
  have "browser_of_token S d' (sha256 X token) = None"
    using cut assms(3) by (auto simp: browser_of_token_def find_None_iff)
  then have register: "is_err (register_push_membership X S token endpoint p256dh auth expiry inst t fresh candidate d')"
    by (simp add: register_push_membership_def ok_or_def and_then_def)
  have "\<forall>lane ok. \<not> owns d' lane ok r (de_fingerprint v)" using inactive by (auto simp: owns_def)
  note queue = queue_needs_owner [OF this]
  have claim: "\<exists>u \<in> set (db_devices d'). \<exists>s \<in> set (db_subscriptions d'). de_fingerprint u \<noteq> de_fingerprint v \<and> de_active u \<and>
      has_body d' (pi_request_kind item) (pi_request_id item) (de_fingerprint u) \<and>
      su_device_fingerprint s = de_fingerprint u \<and> su_endpoint_id s = pi_endpoint_id item \<and> su_disabled_at s = None"
    if "claim_push t lease tok d' = (Some item, d'')" for item d''
    using that
  proof (cases rule: claimed_push_rows)
    case (1 p e r)
    then have "PUSH_ELIGIBLE d' t (pi_request_kind item) (pi_request_id item) (pi_endpoint_id item)" by (simp add: claimable_def)
    with inactive show ?thesis by (fastforce simp: PUSH_ELIGIBLE_def)
  qed
  show ?thesis using sealed register queue claim by blast
qed

section \<open>Activation\<close>

definition device_json_roundtrip :: "server_crates \<Rightarrow> bool" where
  "device_json_roundtrip S \<longleftrightarrow> (\<forall>dev json. sx_device_to_string S dev = Inr json \<longrightarrow> sx_device_from_str S json = Inr dev)"

lemma find_fingerprint:
  assumes "distinct (map de_fingerprint vs)" and "v \<in> set vs" and "de_active v" and "de_fingerprint v = fp"
  shows "find (\<lambda>v. de_fingerprint v = fp \<and> de_active v) vs = Some v"
  using assms by (induction vs) auto

lemma upsert_device_row:
  assumes "upsert_device dev hash json clock d = Inr d1"
  shows "\<exists>v \<in> set (db_devices d1). de_fingerprint v = dv_fingerprint dev \<and> de_credential_id v = dv_credential_id dev \<and>
      de_api_token_hash v = hash \<and> de_active v \<and> de_public_record_json v = json"
    and "\<forall>u \<in> set (db_devices d). \<exists>u' \<in> set (db_devices d1). de_fingerprint u' = de_fingerprint u \<and> de_credential_id u' = de_credential_id u \<and>
      de_api_token_hash u' = de_api_token_hash u \<and> (de_fingerprint u \<noteq> dv_fingerprint dev \<longrightarrow> u' = u)"
proof -
  let ?f = "\<lambda>v. v\<lparr>de_public_record_json := json, de_active := True, de_updated_at := clock\<rparr>"
  have up: "(if de_fingerprint u = dv_fingerprint dev then ?f u else u) \<in> set (update_where (\<lambda>v. de_fingerprint v = dv_fingerprint dev) ?f vs)"
    if "u \<in> set vs" for u vs using that by (simp only: set_update_where) blast
  show "\<exists>v \<in> set (db_devices d1). de_fingerprint v = dv_fingerprint dev \<and> de_credential_id v = dv_credential_id dev \<and>
      de_api_token_hash v = hash \<and> de_active v \<and> de_public_record_json v = json"
    using assms
  proof (cases rule: upsert_device_cases)
    case (refresh v)
    with up [OF refresh(1)] show ?thesis by (intro bexI [of _ "?f v"]) auto
  qed auto
  show "\<forall>u \<in> set (db_devices d). \<exists>u' \<in> set (db_devices d1). de_fingerprint u' = de_fingerprint u \<and> de_credential_id u' = de_credential_id u \<and>
      de_api_token_hash u' = de_api_token_hash u \<and> (de_fingerprint u \<noteq> dv_fingerprint dev \<longrightarrow> u' = u)"
    using assms
  proof (cases rule: upsert_device_cases)
    case (refresh v)
    show ?thesis
    proof
      fix u assume u: "u \<in> set (db_devices d)"
      show "\<exists>u' \<in> set (db_devices d1). de_fingerprint u' = de_fingerprint u \<and> de_credential_id u' = de_credential_id u \<and>
        de_api_token_hash u' = de_api_token_hash u \<and> (de_fingerprint u \<noteq> dv_fingerprint dev \<longrightarrow> u' = u)"
        using up [OF u] by (intro bexI [of _ "if de_fingerprint u = dv_fingerprint dev then ?f u else u"]) (auto simp: refresh(5))
    qed
  qed auto
qed

text \<open>activation pins exactly the device its enrollment submitted: only a pending, unexpired enrollment with a stored submission
  that binds that record activates, the record is then served, no stored device ever changes its credential or token, and the
  enrollment cannot be activated again.\<close>

theorem activation_pins_submission:
  assumes "reachable X S d" and "activate_enrollment X S e dev now clock d = Inr d'" and "device_json_roundtrip S"
  shows "(\<exists>row raw submission. stored_enrollment d e = Some row \<and> er_status row = ''pending'' \<and> now < er_expires_at row \<and>
       er_submission_json row = Some raw \<and> sx_submission_from_slice S raw = Inr submission \<and>
       submission_binds_device X submission dev = Inr True) \<and>
    active_device S (dv_fingerprint dev) d' = Inr (Some dev) \<and>
    (\<forall>u \<in> set (db_devices d). \<exists>u' \<in> set (db_devices d'). de_fingerprint u' = de_fingerprint u \<and>
       de_credential_id u' = de_credential_id u \<and> de_api_token_hash u' = de_api_token_hash u) \<and>
    enrollment_status e now d' = Some \<lparr>vw_status = Active, vw_fingerprint = Some (dv_fingerprint dev)\<rparr> \<and>
    (\<forall>dev' now' clock'. is_err (activate_enrollment X S e dev' now' clock' d'))"
proof -
  from assms(2) obtain row raw submission hash json d1 where a: "stored_enrollment d e = Some row" "er_status row = ''pending''"
    "now < er_expires_at row" "er_submission_json row = Some raw" "sx_submission_from_slice S raw = Inr submission"
    "submission_binds_device X submission dev = Inr True" "decode_base64url X (dv_api_token_hash dev) = Inr hash"
    "sx_device_to_string S dev = Inr json"
    and up: "upsert_device dev hash json clock d = Inr d1"
    and d': "d' = d1\<lparr>db_enrollments := update_where (\<lambda>r. er_id r = e \<and> er_status r = ''pending'')
       (\<lambda>r. r\<lparr>er_status := ''active'', er_fingerprint := Some (dv_fingerprint dev), er_updated_at := clock\<rparr>) (db_enrollments d1)\<rparr>"
    by (rule activate_upserts)
  have ok: "db_ok d1" "db_enrollments d1 = db_enrollments d" using ok_upsert [OF up reachable_ok [OF assms(1)]] by simp_all
  obtain v where v: "v \<in> set (db_devices d1)" "de_fingerprint v = dv_fingerprint dev" "de_active v" "de_public_record_json v = json"
    using upsert_device_row(1) [OF up] by blast
  have "find (\<lambda>v. de_fingerprint v = dv_fingerprint dev \<and> de_active v) (db_devices d1) = Some v"
    using ok(1) v by (intro find_fingerprint) (auto simp: db_ok_def devices_ok_def)
  then have active: "active_device S (dv_fingerprint dev) d' = Inr (Some dev)"
    using assms(3) a(8) v(4) by (simp add: active_device_def d' device_json_roundtrip_def)
  have row: "stored_enrollment d' e
      = Some (row\<lparr>er_status := ''active'', er_fingerprint := Some (dv_fingerprint dev), er_updated_at := clock\<rparr>)"
    using a(1,2) find_Some_in_set [OF a(1) [unfolded stored_enrollment_def]] by (simp add: stored_enrollment_def d' ok(2) find_update_where)
  have "enrollment_status e now d' = Some \<lparr>vw_status = Active, vw_fingerprint = Some (dv_fingerprint dev)\<rparr>"
    by (simp add: enrollment_status_def row)
  moreover have "is_err (activate_enrollment X S e dev' now' clock' d')" for dev' now' clock'
    using row by (auto simp: is_ok_iff elim!: activate_upserts)
  moreover have "\<forall>u \<in> set (db_devices d). \<exists>u' \<in> set (db_devices d'). de_fingerprint u' = de_fingerprint u \<and>
       de_credential_id u' = de_credential_id u \<and> de_api_token_hash u' = de_api_token_hash u"
    using upsert_device_row(2) [OF up] by (fastforce simp: d')
  ultimately show ?thesis using a active by blast
qed

section \<open>Decisions as a write-once register\<close>

datatype slot = NoRequest | Undecided | Decided bytes

definition slot_of :: "db \<Rightarrow> lane \<Rightarrow> string \<Rightarrow> slot" where
  "slot_of d lane request_id = (case stored_request d lane request_id of None \<Rightarrow> NoRequest
     | Some r \<Rightarrow> (case rr_decision_hash r of None \<Rightarrow> Undecided | Some h \<Rightarrow> Decided h))"

fun spec_queue :: "slot \<Rightarrow> bytes \<Rightarrow> (InsertResult \<times> slot) option" where
  "spec_queue NoRequest h = None"
| "spec_queue Undecided h = Some (Inserted, Decided h)"
| "spec_queue (Decided h0) h = Some (if h = h0 then Identical else Conflict, Decided h0)"

lemma slot_resolve_other:
  "(lane', request_id') \<noteq> (lane, request_id) \<Longrightarrow>
    slot_of (resolve_request lane request_id hash at d) lane' request_id' = slot_of d lane' request_id'"
proof (cases "lane' = lane")
  case True
  assume "(lane', request_id') \<noteq> (lane, request_id)"
  with True have ne: "request_id' \<noteq> request_id" by simp
  have "stored_request (resolve_request lane request_id hash at d) lane request_id' = stored_request d lane request_id'"
  proof (cases "find (\<lambda>r. rr_id r = request_id') (db_requests d lane)")
    case None
    then show ?thesis by (simp add: stored_request_def resolve_request_def find_update_where)
  next
    case (Some r)
    then have "rr_id r \<noteq> request_id" using find_Some_in_set [OF Some] ne by simp
    with Some show ?thesis by (simp add: stored_request_def resolve_request_def find_update_where)
  qed
  with True show ?thesis by (simp add: slot_of_def)
qed (simp add: slot_of_def stored_request_def resolve_request_def)

lemma decided_refines:
  assumes "db_ok d" and "decided X S lane request_id fp raw now res d d'"
  shows "spec_queue (slot_of d lane request_id) (sha256 X raw) = Some (res, slot_of d' lane request_id) \<and>
    (\<forall>lane' request_id'. (lane', request_id') \<noteq> (lane, request_id) \<longrightarrow> slot_of d' lane' request_id' = slot_of d lane' request_id')"
proof -
  from assms(2) obtain r where r: "stored_request d lane request_id = Some r"
    and c: "if rr_state r \<noteq> ''pending'' then res = repeated_decision r (sha256 X raw) \<and> d' = d
      else res = Inserted \<and> (\<exists>subject at. outbox_insert (verdict_kind lane) request_id subject raw at None
           (resolve_request lane request_id (sha256 X raw) at d) = Inr d')"
    by (auto simp: decided_def)
  have row: "request_row_ok r"
    using assms(1) find_Some_in_set [OF r [unfolded stored_request_def]] by (auto simp: db_ok_def requests_ok_def)
  show ?thesis
  proof (cases "rr_state r = ''pending''")
    case False
    then obtain h where "rr_decision_hash r = Some h" using row by (auto simp: request_row_ok_def)
    with False c r show ?thesis by (auto simp: slot_of_def repeated_decision_def)
  next
    case True
    with c obtain subject at where i: "res = Inserted" "outbox_insert (verdict_kind lane) request_id subject raw at None
           (resolve_request lane request_id (sha256 X raw) at d) = Inr d'" by auto
    have "db_requests d' = db_requests (resolve_request lane request_id (sha256 X raw) at d)"
      using i(2) by (auto simp: outbox_insert_def outbox_append_def split: if_splits)
    then have same: "slot_of d' l q = slot_of (resolve_request lane request_id (sha256 X raw) at d) l q" for l q
      by (simp add: slot_of_def stored_request_def)
    have "slot_of d lane request_id = Undecided" using r True row by (auto simp: slot_of_def request_row_ok_def)
    moreover have "slot_of d' lane request_id = Decided (sha256 X raw)"
      unfolding same using stored_request_resolve [OF r True] by (simp add: slot_of_def)
    ultimately show ?thesis using i(1) same slot_resolve_other by simp
  qed
qed

text \<open>C13: on each lane the accepted decisions of a request refine a write-once register holding the hash of a decision: the first
  decision fills it, the same one again is reported identical, another is a conflict and changes nothing, and no other request of
  any lane is affected.\<close>

theorem decisions_refine_register:
  assumes "reachable X S d"
  shows "(queue_decision X S q fp dec now clock d = Inr (res, d') \<longrightarrow> (\<exists>raw. sx_decision_to_vec S dec = Inr raw \<and>
      spec_queue (slot_of d RequestRows q) (sha256 X raw) = Some (res, slot_of d' RequestRows q) \<and>
      (\<forall>l q'. (l, q') \<noteq> (RequestRows, q) \<longrightarrow> slot_of d' l q' = slot_of d l q'))) \<and>
    (queue_auth_decision X S q fp adec now clock d = Inr (res, d') \<longrightarrow> (\<exists>raw. sx_auth_decision_to_vec S adec = Inr raw \<and>
      spec_queue (slot_of d AuthRows q) (sha256 X raw) = Some (res, slot_of d' AuthRows q) \<and>
      (\<forall>l q'. (l, q') \<noteq> (AuthRows, q) \<longrightarrow> slot_of d' l q' = slot_of d l q'))) \<and>
    (queue_tool_decision X S q fp tdec now d = Inr (res, d') \<longrightarrow> (\<exists>raw. sx_tool_decision_to_vec S tdec = Inr raw \<and>
      spec_queue (slot_of d ToolRows q) (sha256 X raw) = Some (res, slot_of d' ToolRows q) \<and>
      (\<forall>l q'. (l, q') \<noteq> (ToolRows, q) \<longrightarrow> slot_of d' l q' = slot_of d l q')))"
proof -
  note refines = decided_refines [OF reachable_ok [OF assms]]
  show ?thesis
    by (intro conjI impI)
      (metis queue_decision_decided refines, metis queue_auth_decision_decided refines, metis queue_tool_decision_decided refines)
qed

section \<open>Claims on the push queue\<close>

text \<open>a push is handed to a worker only while it can still matter: its request is pending and unexpired, the endpoint is live and belongs to
  a subscribed, active device with a sealed body of that request, it was tried at most four times before, and until the lease ends
  no other claim returns the same row.\<close>

theorem claimed_push_is_live:
  assumes "reachable X S d" and "claim_push now lease tok d = (Some item, d')"
  shows "request_open d (pi_request_kind item) (pi_request_id item) now \<and>
    PUSH_ELIGIBLE d now (pi_request_kind item) (pi_request_id item) (pi_endpoint_id item) \<and> pi_attempts item \<le> PUSH_MAX_ATTEMPTS \<and>
    (\<forall>t lease' tok' item' d''. t < saturating_add now lease \<longrightarrow> claim_push t lease' tok' d' = (Some item', d'') \<longrightarrow> pi_id item' \<noteq> pi_id item)"
proof -
  obtain p e r rest where rows: "claim_rows d now = (p, e, r) # rest" using assms(2) by (auto simp: claim_push_def split: list.splits)
  have c: "p \<in> set (db_push_outbox d)" "claimable d now p" using claim_rows_claimable [of p e r d now] rows by auto
  let ?free = "\<lambda>q. po_id q = po_id p \<and> unfinished q \<and> unclaimed now q"
  let ?f = "\<lambda>q. q\<lparr>po_claim_token := Some tok, po_claimed_until := Some (saturating_add now lease), po_attempts := po_attempts q + 1\<rparr>"
  have i: "pi_id item = po_id p" "pi_request_kind item = po_request_kind p" "pi_request_id item = po_request_id p"
    "pi_endpoint_id item = po_endpoint_id p" "pi_attempts item = po_attempts p + 1"
    and d': "db_push_outbox d' = update_where ?free ?f (db_push_outbox d)"
    using assms(2) rows by (auto simp: claim_push_def Let_def split: if_splits)
  have dist: "distinct (map po_id (db_push_outbox d))"
    using reachable_ok [OF assms(1)] by (simp add: db_ok_def push_ok_def)
  have leased: "q = ?f p" if "q \<in> set (db_push_outbox d')" "po_id q = po_id p" for q
  proof -
    note q = that
    obtain q0 where q0: "q0 \<in> set (db_push_outbox d)" "q = (if ?free q0 then ?f q0 else q0)"
      using q(1) unfolding d' set_update_where by blast
    then have "po_id q0 = po_id p" using q(2) by (auto split: if_splits)
    then have "q0 = p" using q0(1) c(1) dist by (auto simp: distinct_map inj_on_def)
    with q0(2) c(2) show ?thesis by (simp add: claimable_def)
  qed
  have "pi_id item' \<noteq> pi_id item"
    if t: "t < saturating_add now lease" "claim_push t lease' tok' d' = (Some item', d'')" for t lease' tok' item' d''
  proof
    assume same: "pi_id item' = pi_id item"
    obtain p' e' r' rest' where rows': "claim_rows d' t = (p', e', r') # rest'" using t(2) by (auto simp: claim_push_def split: list.splits)
    have c': "p' \<in> set (db_push_outbox d')" "claimable d' t p'" using claim_rows_claimable [of p' e' r' d' t] rows' by auto
    have "pi_id item' = po_id p'" using t(2) rows' by (auto simp: claim_push_def Let_def split: if_splits)
    with same i(1) leased [OF c'(1)] have "p' = ?f p" by simp
    with c'(2) t(1) show False by (auto simp: claimable_def unclaimed_def)
  qed
  with c(2) i show ?thesis by (auto simp: claimable_def)
qed

section \<open>A store in use\<close>

text \<open>One device enrolls, subscribes its browser, is asked to authenticate, and answers.\<close>

definition sample_server :: server_crates where
  "sample_server = \<lparr>sx_json_kind = (\<lambda>_. None), sx_device_to_string = (\<lambda>v. if v = sample_native SecureEnclave then Inr ''d'' else Inl ''no value''),
     sx_device_from_str = (\<lambda>_. Inr (sample_native SecureEnclave)), sx_submission_to_vec = (\<lambda>_. Inr [1]),
     sx_submission_from_slice = (\<lambda>_. Inr (SubmitSecureEnclave (sample_submission SecureEnclave))),
     sx_body_to_vec = (\<lambda>b. if [b] = ae_sealed sample_auth_envelope then Inr [2] else Inl ''no value''),
     sx_tool_body_to_vec = (\<lambda>_. Inl ''no value''), sx_decision_to_vec = (\<lambda>_. Inr [3]),
     sx_auth_decision_to_vec = (\<lambda>_. Inr [3]), sx_tool_decision_to_vec = (\<lambda>_. Inr [3]), sx_delivery_to_vec = (\<lambda>_. Inr [4]),
     sx_tool_delivery_to_vec = (\<lambda>_. Inr [4]), sx_push_payload = (\<lambda>_ _. Inr [5]),
     sx_url_parse = (\<lambda>_. Some \<lparr>ur_scheme = ''https'', ur_username = [], ur_password = None, ur_fragment = None,
       ur_host_str = Some ''p'', ur_host_is_ip = False, ur_port = None\<rparr>),
     sx_p256_point = (\<lambda>_. True)\<rparr>"

abbreviation sample_member :: string where "sample_member \<equiv> dv_fingerprint (sample_native SecureEnclave)"

definition sample_row :: device_row where
  "sample_row = \<lparr>de_fingerprint = sample_member, de_credential_id = dv_credential_id (sample_native SecureEnclave),
     de_api_token_hash = replicate 32 6, de_public_record_json = ''d'', de_active = True, de_updated_at = 1002\<rparr>"

definition sample_enrollment :: "string \<Rightarrow> bytes option \<Rightarrow> string option \<Rightarrow> i64 \<Rightarrow> enrollment_row" where
  "sample_enrollment status submission fp t = \<lparr>er_id = ''r1'', er_secret_hash = [9], er_status = status, er_expires_at = 2000,
     er_reply_subject = ''reply'', er_submission_hash = map_option sample_digest submission, er_submission_json = submission,
     er_fingerprint = fp, er_updated_at = t\<rparr>"

definition sample_submitted :: db where
  "sample_submitted = outbox_append ''enrollment_submission'' ''r1'' ''reply'' [1] 1001 None
     (empty_db\<lparr>db_enrollments := [sample_enrollment ''pending'' (Some [1]) None 1001]\<rparr>)"

definition sample_enrolled :: db where
  "sample_enrolled = sample_submitted\<lparr>db_devices := [sample_row],
     db_enrollments := [sample_enrollment ''active'' (Some [1]) (Some sample_member) 1002]\<rparr>"

definition sample_subscribed :: db where
  "sample_subscribed = sample_enrolled\<lparr>
     db_endpoints := [\<lparr>pe_id = ''pe'', pe_endpoint = ''p'', pe_p256dh = sample_sec1, pe_auth = replicate 16 1, pe_expiration_at = None,
       pe_installation_token_hash = None, pe_created_at = 1003, pe_updated_at = 1003, pe_disabled_at = None, pe_last_error = None\<rparr>],
     db_subscriptions := [\<lparr>su_id = ''ps'', su_endpoint_id = ''pe'', su_device_fingerprint = sample_member, su_created_at = 1003,
       su_updated_at = 1003, su_disabled_at = None\<rparr>]\<rparr>"

lemma sample_server_simps [simp]:
  "sx_json_kind sample_server s = None" "sx_device_to_string sample_server (sample_native SecureEnclave) = Inr ''d''"
  "sx_device_from_str sample_server s = Inr (sample_native SecureEnclave)" "sx_submission_to_vec sample_server u = Inr [1]"
  "sx_submission_from_slice sample_server bs = Inr (SubmitSecureEnclave (sample_submission SecureEnclave))"
  "sx_body_to_vec sample_server b = (if [b] = ae_sealed sample_auth_envelope then Inr [2] else Inl ''no value'')" "sx_auth_decision_to_vec sample_server a = Inr [3]"
  "sx_delivery_to_vec sample_server l = Inr [4]" "sx_push_payload sample_server lane q = Inr [5]" "sx_p256_point sample_server bs = True"
  by (simp_all add: sample_server_def)

lemma sample_submission_stored:
  "create_enrollment ''r1'' [9] 2000 ''reply'' 1000 empty_db
     = (Inserted, empty_db\<lparr>db_enrollments := [sample_enrollment ''pending'' None None 1000]\<rparr>)"
  "submit_enrollment sample_auth sample_server ''r1'' u 1001 1001 (empty_db\<lparr>db_enrollments := [sample_enrollment ''pending'' None None 1000]\<rparr>)
     = Inr (Inserted, sample_submitted)"
  by (simp_all add: create_enrollment_def stored_enrollment_def empty_db_def sample_enrollment_def submit_enrollment_def Let_def
      outbox_insert_def outbox_has_def outbox_append_def update_where_def sample_submitted_def)

lemma sample_token [simp]: "sample_digest (replicate 32 6) = replicate 32 6"
  by (simp add: sample_digest_def)

lemma sample_binds:
  "submission_binds_device sample_auth (SubmitSecureEnclave (sample_submission SecureEnclave)) (sample_native SecureEnclave) = Inr True"
  by (simp add: submission_binds_device_def sample_submission_def sample_native_def encode_base64url_def Let_def
      core_eqD [OF sample_auth_core] native_credential_id_def)

lemma sample_activates:
  "activate_enrollment sample_auth sample_server ''r1'' (sample_native SecureEnclave) 1002 1002 sample_submitted = Inr sample_enrolled"
proof -
  have v: "DevicePublicRecordV1_validate sample_auth (sample_native SecureEnclave) = Inr ()" by (simp add: sample_native_valid)
  have t: "decode_base64url sample_auth (dv_api_token_hash (sample_native SecureEnclave)) = Inr (replicate 32 6)"
    by (simp add: sample_native_def)
  have e: "stored_enrollment sample_submitted ''r1'' = Some (sample_enrollment ''pending'' (Some [1]) None 1001)"
    by (simp add: stored_enrollment_def sample_submitted_def outbox_append_def sample_enrollment_def)
  have u: "upsert_device (sample_native SecureEnclave) (replicate 32 6) ''d'' 1002 sample_submitted
      = Inr (sample_submitted\<lparr>db_devices := [sample_row]\<rparr>)"
    by (simp add: upsert_device_def sample_submitted_def outbox_append_def empty_db_def sample_row_def)
  show ?thesis
    unfolding activate_enrollment_def v e t
    by (simp add: sample_enrollment_def sample_binds u)
      (simp add: sample_enrolled_def sample_submitted_def outbox_append_def update_where_def sample_enrollment_def)
qed

lemma sample_enrolled_reachable: "reachable sample_auth sample_server sample_enrolled"
proof -
  have "reachable sample_auth sample_server (empty_db\<lparr>db_enrollments := [sample_enrollment ''pending'' None None 1000]\<rparr>)"
    by (rule reachable.step [OF reachable.start db_step.create [OF sample_submission_stored(1)]])
  then have "reachable sample_auth sample_server sample_submitted"
    by (rule reachable.step [OF _ db_step.submit [OF sample_submission_stored(2)]])
  then show ?thesis by (rule reachable.step [OF _ db_step.activate [OF sample_activates]])
qed

lemma sample_submitted_reachable: "reachable sample_auth sample_server sample_submitted"
  by (rule reachable.step [OF reachable.step [OF reachable.start db_step.create [OF sample_submission_stored(1)]] db_step.submit [OF sample_submission_stored(2)]])

lemma sample_registers:
  "register_push_membership sample_auth sample_server (replicate 32 6) ''p'' sample_sec1 (replicate 16 1) None None 1003 ''pe'' ''ps'' sample_enrolled
     = Inr (''ps'', sample_subscribed)"
proof -
  have b: "browser_of_token sample_server sample_enrolled (sha256 sample_auth (replicate 32 6)) = Some sample_row"
    by (simp add: browser_of_token_def sample_enrolled_def sample_row_def stored_kind_def)
  have "read_octets (Suc 3) 0 ''p'' = None" "read_groups 8 (Suc 7) ''p'' = ([], False, ''p'')"
    unfolding read_octets.simps(2) read_groups.simps(2)
    by (simp_all add: read_separator_def read_number_def to_digit_def read_ipv4_addr_def read_octets.simps(2) [of 3, simplified])
  then have ip: "parse_ip_addr ''p'' = None"
    by (simp add: parse_ip_addr_def read_ipv4_addr_def read_ipv6_addr_def read_given_char_def)
  have u: "validate_push_endpoint sample_server ''p'' = Inr ()"
    by (simp add: validate_push_endpoint_def PUSH_MAX_ENDPOINT_BYTES_def chars_of_def utf8_len_def utf8_lead_def is_control_def
        sample_server_def ip)
  have k: "take (Suc 0) sample_sec1 = [4]" by (simp add: sample_sec1_def)
  show ?thesis
    unfolding register_push_membership_def b u
    by (simp add: k PUSH_P256DH_BYTES_def PUSH_AUTH_BYTES_def)
      (simp add: store_endpoint_def store_subscription_def sample_enrolled_def sample_submitted_def outbox_append_def empty_db_def
        abandon_ineligible_pushes_def update_where_def Let_def sample_subscribed_def sample_row_def)
qed

lemma sample_subscribed_reachable: "reachable sample_auth sample_server sample_subscribed"
  by (rule reachable.step [OF sample_enrolled_reachable db_step.register [OF sample_registers]])

definition sample_pending :: "string \<Rightarrow> bytes option \<Rightarrow> i64 option \<Rightarrow> request_row" where
  "sample_pending state hash at = \<lparr>rr_id = ''r1'', rr_envelope_hash = sample_digest [8], rr_envelope_json = [8], rr_host = Some ''h'', rr_user = None,
     rr_issued_at = 1000, rr_expires_at = 1090, rr_state = state, rr_decision_hash = hash, rr_created_at = 1010, rr_resolved_at = at\<rparr>"

definition sample_push :: push_row where
  "sample_push = \<lparr>po_id = 1, po_request_kind = AuthRows, po_request_id = ''r1'', po_endpoint_id = ''pe'', po_payload = [5],
     po_created_at = 1010, po_available_at = 1010, po_attempts = 0, po_sent_at = None, po_abandoned_at = None, po_claim_token = None,
     po_claimed_until = None, po_last_error = None\<rparr>"

definition sample_asked :: db where
  "sample_asked = outbox_append ''delivery'' ''auth:r1'' ''oshioki.delivery.r1'' [4] 1010 (Some 1090) (sample_subscribed\<lparr>
     db_requests := (\<lambda>_. [])(AuthRows := [sample_pending ''pending'' None None]),
     db_bodies := (\<lambda>_. [])(AuthRows := [\<lparr>br_request_id = ''r1'', br_fingerprint = sample_member, br_body_json = [2]\<rparr>]),
     db_push_outbox := [sample_push]\<rparr>)"

lemma sample_asks: "ingest_auth_request sample_auth sample_server [8] sample_auth_envelope 1010 1010 sample_subscribed = Inr (Inserted, sample_asked)"
proof -
  let ?d1 = "sample_subscribed\<lparr>db_requests := (\<lambda>_. [])(AuthRows := [sample_pending ''pending'' None None]),
     db_bodies := (\<lambda>_. [])(AuthRows := [\<lparr>br_request_id = ''r1'', br_fingerprint = sample_member, br_body_json = [2]\<rparr>])\<rparr>"
  have s: "stored_request sample_subscribed AuthRows ''r1'' = None"
    by (simp add: stored_request_def sample_subscribed_def sample_enrolled_def sample_submitted_def outbox_append_def empty_db_def)
  have b: "insert_bodies AuthRows ''r1'' [(sample_member, Inr [2])] (insert_request AuthRows (sample_pending ''pending'' None None) sample_subscribed) = Inr ?d1"
    by (simp add: insert_request_def has_body_def sample_subscribed_def sample_enrolled_def sample_submitted_def outbox_append_def empty_db_def
        fun_upd_def)
  have q: "enqueue_push AuthRows ''r1'' [5] 1010 ?d1 = ?d1\<lparr>db_push_outbox := [sample_push]\<rparr>"
    by (simp add: enqueue_push_def PUSH_ELIGIBLE_def has_body_def live_endpoint_def push_insert_def sample_subscribed_def sample_enrolled_def
        sample_submitted_def outbox_append_def empty_db_def sample_push_def sample_row_def next_rowid_def)
  have r: "queue_receipt sample_server AuthRows ''auth:r1'' ''r1'' 1090 1010 (?d1\<lparr>db_push_outbox := [sample_push]\<rparr>) = Inr (Inserted, sample_asked)"
    by (simp add: queue_receipt_def active_browsers_def sample_subscribed_def sample_enrolled_def sample_submitted_def outbox_append_def empty_db_def
        sample_row_def stored_kind_def outbox_insert_def outbox_has_def sample_asked_def)
  show ?thesis
    using s b q r sample_auth_envelope_valid
    by (simp add: ingest_auth_request_def MAX_ENVELOPE_BYTES_def sample_auth_envelope_def sample_pending_def)
qed

lemma sample_asked_reachable: "reachable sample_auth sample_server sample_asked"
  by (rule reachable.step [OF sample_subscribed_reachable db_step.ingest_auth [OF sample_asks]])

definition sample_answered :: db where
  "sample_answered = outbox_append ''auth_decision'' ''r1'' ''oshioki.verdict.r1'' [3] 1020 None (sample_asked\<lparr>
     db_requests := (\<lambda>_. [])(AuthRows := [sample_pending ''resolved'' (Some (sample_digest [3])) (Some 1020)])\<rparr>)"

lemma sample_answers:
  "queue_auth_decision sample_auth sample_server ''r1'' sample_member adec 1020 1020 sample_asked = Inr (Inserted, sample_answered)"
proof -
  have s: "stored_request sample_asked AuthRows ''r1'' = Some (sample_pending ''pending'' None None)"
    by (simp add: stored_request_def sample_asked_def outbox_append_def sample_pending_def)
  have w: "owns sample_asked AuthRows (\<lambda>v. stored_kind sample_server v \<in> {''webauthn'', ''secure-enclave''}) ''r1'' sample_member"
    by (simp add: owns_def sample_asked_def outbox_append_def sample_subscribed_def sample_enrolled_def sample_row_def stored_kind_def)
  have i: "outbox_insert ''auth_decision'' ''r1'' ''oshioki.verdict.r1'' [3] 1020 None
      (resolve_request AuthRows ''r1'' (sample_digest [3]) 1020 sample_asked) = Inr sample_answered"
    by (simp add: outbox_insert_def outbox_has_def resolve_request_def sample_answered_def sample_asked_def outbox_append_def sample_subscribed_def
        sample_enrolled_def sample_submitted_def empty_db_def update_where_def sample_pending_def)
  show ?thesis
    using w i by (simp add: queue_auth_decision_def s) (simp add: sample_pending_def)
qed

lemma sample_answered_reachable: "reachable sample_auth sample_server sample_answered"
  by (rule reachable.step [OF sample_asked_reachable db_step.auth_decision [OF sample_answers]])

lemma sample_recorded: "retained_payload (verdict_kind AuthRows) ''r1'' sample_answered = Some [3]"
  by (simp add: retained_payload_iff [OF _] reachable_ok [OF sample_answered_reachable, unfolded db_ok_def] verdict_kind_def)
    (simp add: sample_answered_def outbox_append_def)

lemma sample_unrecorded: "retained_payload (verdict_kind AuthRows) ''r1'' sample_asked = None"
  by (simp add: retained_payload_def sample_asked_def outbox_append_def sample_subscribed_def sample_enrolled_def sample_submitted_def
      empty_db_def verdict_kind_def)

theorem reachable_db_ok_witness: "db_ok sample_answered \<and> db_outbox sample_answered \<noteq> []"
  using reachable_db_ok [OF sample_answered_reachable] by (simp add: sample_answered_def outbox_append_def)

theorem recorded_verdict_is_final_witness:
  "retained_payload (verdict_kind AuthRows) ''r1'' (mark_outbox_sent 3 1030 sample_answered) = Some [3]"
proof -
  have st: "db_step sample_auth sample_server sample_answered (mark_outbox_sent 3 1030 sample_answered)" by (rule db_step.sent [OF refl])
  have "\<not> older (ob_sent_at x) t" if "x \<in> set (db_outbox sample_answered)" for x t
    using that by (auto simp: older_def sample_answered_def sample_asked_def outbox_append_def sample_subscribed_def sample_enrolled_def
        sample_submitted_def empty_db_def)
  with recorded_verdict_is_final [OF sample_answered_reachable st sample_recorded] show ?thesis by blast
qed

theorem recorded_verdict_has_owner_witness:
  "\<exists>fp. owns sample_asked AuthRows (may_decide sample_server AuthRows) ''r1'' fp"
  using recorded_verdict_has_owner [OF sample_asked_reachable db_step.auth_decision [OF sample_answers] sample_unrecorded sample_recorded] by blast

lemma sample_sealed:
  "sealed_auth_request_for_token sample_auth ''r1'' (replicate 32 6) 1020 sample_asked = Some \<lparr>sq_body_json = [2], sq_expires_at = 1090\<rparr>"
  by (simp add: sealed_auth_request_for_token_def sealed_row_def sample_asked_def outbox_append_def sample_pending_def sample_subscribed_def
      sample_enrolled_def sample_row_def)

theorem sealed_body_for_its_device_witness:
  "\<exists>v \<in> set (db_devices sample_asked). de_active v \<and> de_api_token_hash v = sha256 sample_auth (replicate 32 6)"
  using sealed_body_for_its_device [OF sample_asked_reachable disjI2 [OF disjI1 [OF sample_sealed]]] by blast

theorem revoked_device_is_cut_off_witness:
  "sealed_auth_request_for_token sample_auth ''r1'' (replicate 32 6) 1020 (snd (set_device_active sample_member False 1015 1015 sample_asked)) = None \<and>
   is_err (queue_auth_decision sample_auth sample_server ''r1'' sample_member (AuthenticateNative sample_authentication) 1020 1020
     (snd (set_device_active sample_member False 1015 1015 sample_asked)))"
proof -
  have v: "sample_row \<in> set (db_devices sample_asked)" "de_api_token_hash sample_row = sha256 sample_auth (replicate 32 6)"
    "set_device_active (de_fingerprint sample_row) False 1015 1015 sample_asked
      = (fst (set_device_active sample_member False 1015 1015 sample_asked), snd (set_device_active sample_member False 1015 1015 sample_asked))"
    by (simp_all add: sample_asked_def outbox_append_def sample_subscribed_def sample_enrolled_def sample_row_def)
  have "de_fingerprint sample_row = sample_member" by (simp add: sample_row_def)
  then show ?thesis using revoked_device_is_cut_off [OF sample_asked_reachable v, of "''r1''" 1020] by metis
qed

lemma sample_server_json: "device_json_roundtrip sample_server"
  by (simp add: device_json_roundtrip_def sample_server_def)

theorem activation_pins_submission_witness:
  "active_device sample_server sample_member sample_enrolled = Inr (Some (sample_native SecureEnclave)) \<and>
   is_err (activate_enrollment sample_auth sample_server ''r1'' (sample_native SecureEnclave) 1003 1003 sample_enrolled)"
  using activation_pins_submission [OF sample_submitted_reachable sample_activates sample_server_json] by blast

theorem decisions_refine_register_witness:
  "spec_queue (slot_of sample_asked AuthRows ''r1'') (sha256 sample_auth [3]) = Some (Inserted, slot_of sample_answered AuthRows ''r1'')"
proof -
  have "queue_auth_decision sample_auth sample_server ''r1'' sample_member (AuthenticateNative sample_authentication) 1020 1020 sample_asked
      = Inr (Inserted, sample_answered)"
    by (rule sample_answers)
  with decisions_refine_register [OF sample_asked_reachable, of "''r1''" sample_member _ 1020 1020 Inserted sample_answered
      "AuthenticateNative sample_authentication"]
  show ?thesis by auto
qed

lemma sample_claims_push:
  "\<exists>item d'. claim_push 1011 30 ''t'' sample_asked = (Some item, d') \<and> pi_request_id item = ''r1'' \<and> pi_endpoint_id item = ''pe'' \<and>
     pi_request_kind item = AuthRows"
proof -
  have o: "request_open sample_asked AuthRows ''r1'' 1011"
    by (simp add: request_open_def sample_asked_def outbox_append_def sample_pending_def)
  have e: "PUSH_ELIGIBLE sample_asked 1011 AuthRows ''r1'' ''pe''"
    by (simp add: PUSH_ELIGIBLE_def has_body_def live_endpoint_def sample_asked_def outbox_append_def sample_subscribed_def sample_enrolled_def
        sample_row_def)
  have q: "db_push_outbox sample_asked = [sample_push]" by (simp add: sample_asked_def outbox_append_def)
  have c: "claimable sample_asked 1011 sample_push"
    by (simp add: claimable_def sample_push_def unfinished_def unclaimed_def PUSH_MAX_ATTEMPTS_def o e)
  obtain ep where ep: "db_endpoints sample_asked = [ep]" "pe_id ep = ''pe''"
    by (simp add: sample_asked_def outbox_append_def sample_subscribed_def)
  have r: "db_requests sample_asked AuthRows = [sample_pending ''pending'' None None]" by (simp add: sample_asked_def outbox_append_def)
  have p: "po_request_kind sample_push = AuthRows" "po_endpoint_id sample_push = ''pe''" "po_request_id sample_push = ''r1''"
    "unfinished sample_push" "unclaimed 1011 sample_push"
    by (simp_all add: sample_push_def unfinished_def unclaimed_def)
  have "claim_rows sample_asked 1011 = [(sample_push, ep, sample_pending ''pending'' None None)]"
    using c ep r p by (simp add: claim_rows_def q) (simp add: sample_pending_def)
  then show ?thesis using p by (simp add: claim_push_def Let_def changed_def q)
qed

theorem claimed_push_is_live_witness: "request_open sample_asked AuthRows ''r1'' 1011 \<and> PUSH_ELIGIBLE sample_asked 1011 AuthRows ''r1'' ''pe''"
  using sample_claims_push claimed_push_is_live [OF sample_asked_reachable, of 1011 30 "''t''"] by metis

end
