(* ===== verification/Server_Http.thy ===== *)
theory Server_Http
  imports Server_Guarantees
begin

text \<open>
  The HTTP API of the server (\<open>server/src/main.rs\<close>): the bearer token, the checks in front of each lane, and
  one function per handler of the router's table. A handler makes several calls to the store, and other
  tasks of the server use the store between them: each call sees the clock, what the others did to the
  store before it, the random identifiers drawn for it and the answer of the broker, together one \<open>turn\<close>.
  A store operation that cannot fail in the model of the store has no internal-error branch here. JSON
  forms and the text of a header value are arguments.
\<close>

type_synonym StatusCode = nat

abbreviation ACCEPTED :: StatusCode where "ACCEPTED \<equiv> 202"
abbreviation NO_CONTENT :: StatusCode where "NO_CONTENT \<equiv> 204"
abbreviation BAD_REQUEST :: StatusCode where "BAD_REQUEST \<equiv> 400"
abbreviation UNAUTHORIZED :: StatusCode where "UNAUTHORIZED \<equiv> 401"
abbreviation NOT_FOUND :: StatusCode where "NOT_FOUND \<equiv> 404"
abbreviation CONFLICT :: StatusCode where "CONFLICT \<equiv> 409"
abbreviation GONE :: StatusCode where "GONE \<equiv> 410"
abbreviation INTERNAL_SERVER_ERROR :: StatusCode where "INTERNAL_SERVER_ERROR \<equiv> 500"
abbreviation SERVICE_UNAVAILABLE :: StatusCode where "SERVICE_UNAVAILABLE \<equiv> 503"

definition MAX_PUSH_P256DH_B64 :: nat where "MAX_PUSH_P256DH_B64 = 128"
definition MAX_PUSH_AUTH_B64 :: nat where "MAX_PUSH_AUTH_B64 = 64"

section \<open>The server and its turns\<close>

record turn =
  tn_now :: i64
  tn_clock :: i64
  tn_others :: "db \<Rightarrow> db"
  tn_fresh :: string
  tn_candidate :: string
  tn_sent :: bool

text \<open>What leaves the server: a message for the broker, a post to the notification service, a Web Push request to a pinned address.\<close>

datatype outbound =
    Nats string bytes
  | Ntfy string bytes
  | WebPush string IpAddr nat

record server =
  sv_db :: db
  sv_turns :: "nat \<Rightarrow> turn"
  sv_turn :: nat
  sv_published :: "outbound list"
  sv_consumer_last_ok :: i64
  sv_outbox_last_ok :: i64
  sv_push_worker_last_ok :: i64

record VapidConfig =
  vc_private_key :: bytes
  vc_public_key :: string
  vc_subject :: string

record AppState =
  as_origin :: string
  as_rp_id :: string
  as_ntfy_url :: "string option"
  as_vapid :: VapidConfig

record http_crates =
  hx_header_to_str :: "bytes \<Rightarrow> string option"
  hx_body_from_slice :: "bytes \<Rightarrow> string + SealedDeviceBodyV1"
  hx_tool_body_from_slice :: "bytes \<Rightarrow> string + ToolSealedBodyV1"
  hx_alive_to_vec :: "AliveV1 \<Rightarrow> string + bytes"
  hx_tool_ack_to_vec :: "ToolAcknowledgementV1 \<Rightarrow> string + bytes"

text \<open>One call to the store; a transaction that fails leaves the store to the next call.\<close>

definition store :: "(turn \<Rightarrow> db \<Rightarrow> 'a \<times> db) \<Rightarrow> server \<Rightarrow> ('e + 'a) \<times> server" where
  "store f w =
     (let t = sv_turns w (sv_turn w); (a, d) = f t (tn_others t (sv_db w))
      in (Inr a, w\<lparr>sv_db := d, sv_turn := sv_turn w + 1\<rparr>))"

definition query :: "(turn \<Rightarrow> db \<Rightarrow> 'a) \<Rightarrow> server \<Rightarrow> ('e + 'a) \<times> server" where
  "query f = store (\<lambda>t d. (f t d, d))"

definition transact :: "(turn \<Rightarrow> db \<Rightarrow> string + 'a \<times> db) \<Rightarrow> server \<Rightarrow> ('e + (string + 'a)) \<times> server" where
  "transact f = store (\<lambda>t d. case f t d of Inl e \<Rightarrow> (Inl e, d) | Inr (a, d) \<Rightarrow> (Inr a, d))"

text \<open>A reading of the clock, and a message handed to the broker. The broker may fail after it took the message.\<close>

definition read_clock :: "server \<Rightarrow> ('e + i64) \<times> server" where
  "read_clock = query (\<lambda>t _. tn_now t)"

definition nats_publish :: "'e \<Rightarrow> string \<Rightarrow> bytes \<Rightarrow> server \<Rightarrow> ('e + unit) \<times> server" where
  "nats_publish e subject payload w =
     (let t = sv_turns w (sv_turn w)
      in (if tn_sent t then Inr () else Inl e,
          w\<lparr>sv_turn := sv_turn w + 1, sv_published := sv_published w @ [Nats subject payload]\<rparr>))"

section \<open>Tokens and lifecycles\<close>

definition bearer_token :: "http_crates \<Rightarrow> (string \<Rightarrow> bytes option) \<Rightarrow> StatusCode + string" where
  "bearer_token H headers =
     (case Option.bind (Option.bind (headers ''authorization'') (hx_header_to_str H)) (strip_prefix ''Bearer '') of
        Some value \<Rightarrow> if length value \<ge> 32 then Inr value else Inl UNAUTHORIZED
      | None \<Rightarrow> Inl UNAUTHORIZED)"

fun lifecycle_status :: "RequestLifecycle option \<Rightarrow> StatusCode + unit" where
  "lifecycle_status (Some LifecyclePending) = Inr ()"
| "lifecycle_status (Some LifecycleGone) = Inl GONE"
| "lifecycle_status None = Inl NOT_FOUND"

definition require_pending :: "string \<Rightarrow> server \<Rightarrow> (StatusCode + unit) \<times> server" where
  "require_pending request_id =
     then_do (query (\<lambda>t. request_lifecycle request_id (tn_now t))) (\<lambda>l. lift (lifecycle_status l))"

definition require_pending_tool :: "string \<Rightarrow> server \<Rightarrow> (StatusCode + unit) \<times> server" where
  "require_pending_tool request_id =
     then_do (query (\<lambda>t. tool_request_lifecycle request_id (tn_now t))) (\<lambda>l. lift (lifecycle_status l))"

definition require_pending_auth :: "string \<Rightarrow> server \<Rightarrow> (StatusCode + unit) \<times> server" where
  "require_pending_auth request_id =
     then_do (query (\<lambda>t. auth_request_lifecycle request_id (tn_now t))) (\<lambda>l. lift (lifecycle_status l))"

text \<open>The sealed body a token may read on each lane.\<close>

definition sealed_for :: "crates \<Rightarrow> string \<Rightarrow> string \<Rightarrow> server \<Rightarrow> (StatusCode + SealedRequest) \<times> server" where
  "sealed_for X request_id token =
     then_do (query (\<lambda>t. sealed_request_for_token X request_id (as_bytes token) (tn_now t)))
       (\<lambda>request. lift (ok_or request UNAUTHORIZED))"

definition sealed_auth_for :: "crates \<Rightarrow> string \<Rightarrow> string \<Rightarrow> server \<Rightarrow> (StatusCode + SealedRequest) \<times> server" where
  "sealed_auth_for X request_id token =
     then_do (query (\<lambda>t. sealed_auth_request_for_token X request_id (as_bytes token) (tn_now t)))
       (\<lambda>request. lift (ok_or request UNAUTHORIZED))"

definition sealed_tool_for :: "crates \<Rightarrow> server_crates \<Rightarrow> string \<Rightarrow> string \<Rightarrow> server \<Rightarrow> (StatusCode + SealedRequest) \<times> server" where
  "sealed_tool_for X S request_id token =
     then_do (query (\<lambda>t. sealed_tool_request_for_token X S request_id (as_bytes token) (tn_now t)))
       (\<lambda>request. lift (ok_or request UNAUTHORIZED))"

definition internal :: "string + 'a \<Rightarrow> StatusCode + 'a" where
  "internal = map_err (\<lambda>_. INTERNAL_SERVER_ERROR)"

definition authorize_request ::
  "crates \<Rightarrow> http_crates \<Rightarrow> string \<Rightarrow> (string \<Rightarrow> bytes option) \<Rightarrow> string \<Rightarrow> server \<Rightarrow> (StatusCode + unit) \<times> server" where
  "authorize_request X H request_id headers fingerprint =
     then_do (require_pending request_id) (\<lambda>_.
     then_do (lift (bearer_token H headers)) (\<lambda>token.
     then_do (sealed_for X request_id token) (\<lambda>request.
     then_do (lift (internal (hx_body_from_slice H (sq_body_json request)))) (\<lambda>sealed.
     lift (if sb_device_fingerprint sealed \<noteq> fingerprint then Inl UNAUTHORIZED else Inr ())))))"

definition authorize_auth_request ::
  "crates \<Rightarrow> http_crates \<Rightarrow> string \<Rightarrow> (string \<Rightarrow> bytes option) \<Rightarrow> string \<Rightarrow> server \<Rightarrow> (StatusCode + unit) \<times> server" where
  "authorize_auth_request X H request_id headers fingerprint =
     then_do (require_pending_auth request_id) (\<lambda>_.
     then_do (lift (bearer_token H headers)) (\<lambda>token.
     then_do (sealed_auth_for X request_id token) (\<lambda>request.
     then_do (lift (internal (hx_body_from_slice H (sq_body_json request)))) (\<lambda>sealed.
     lift (if sb_device_fingerprint sealed \<noteq> fingerprint then Inl UNAUTHORIZED else Inr ())))))"

section \<open>Reading a request\<close>

definition get_request ::
  "crates \<Rightarrow> http_crates \<Rightarrow> string \<Rightarrow> (string \<Rightarrow> bytes option) \<Rightarrow> server \<Rightarrow> (StatusCode + SealedDeviceBodyV1 \<times> i64) \<times> server" where
  "get_request X H request_id headers =
     then_do (require_pending request_id) (\<lambda>_.
     then_do (lift (bearer_token H headers)) (\<lambda>token.
     then_do (sealed_for X request_id token) (\<lambda>request.
     then_do (lift (internal (hx_body_from_slice H (sq_body_json request)))) (\<lambda>sealed.
     lift (Inr (sealed, sq_expires_at request))))))"

definition get_auth_request ::
  "crates \<Rightarrow> http_crates \<Rightarrow> string \<Rightarrow> (string \<Rightarrow> bytes option) \<Rightarrow> server \<Rightarrow> (StatusCode + SealedDeviceBodyV1 \<times> i64) \<times> server" where
  "get_auth_request X H request_id headers =
     then_do (require_pending_auth request_id) (\<lambda>_.
     then_do (lift (bearer_token H headers)) (\<lambda>token.
     then_do (sealed_auth_for X request_id token) (\<lambda>request.
     then_do (lift (internal (hx_body_from_slice H (sq_body_json request)))) (\<lambda>sealed.
     lift (Inr (sealed, sq_expires_at request))))))"

definition get_tool_request ::
  "crates \<Rightarrow> server_crates \<Rightarrow> http_crates \<Rightarrow> string \<Rightarrow> (string \<Rightarrow> bytes option) \<Rightarrow> server
    \<Rightarrow> (StatusCode + ToolSealedBodyV1 \<times> i64) \<times> server" where
  "get_tool_request X S H request_id headers =
     then_do (require_pending_tool request_id) (\<lambda>_.
     then_do (lift (bearer_token H headers)) (\<lambda>token.
     then_do (sealed_tool_for X S request_id token) (\<lambda>request.
     then_do (lift (internal (hx_tool_body_from_slice H (sq_body_json request)))) (\<lambda>sealed.
     lift (Inr (sealed, sq_expires_at request))))))"

section \<open>Acknowledging a request\<close>

definition acknowledge_request ::
  "crates \<Rightarrow> http_crates \<Rightarrow> string \<Rightarrow> (string \<Rightarrow> bytes option) \<Rightarrow> AliveV1 \<Rightarrow> server \<Rightarrow> (StatusCode + StatusCode) \<times> server" where
  "acknowledge_request X H request_id headers acknowledgement =
     then_do (lift (map_err (\<lambda>_. CONFLICT) (AliveV1_validate acknowledgement request_id))) (\<lambda>_.
     then_do (require_pending request_id) (\<lambda>_.
     then_do (lift (bearer_token H headers)) (\<lambda>token.
     then_do (sealed_for X request_id token) (\<lambda>_.
     then_do (lift (internal (hx_alive_to_vec H acknowledgement))) (\<lambda>payload.
     then_do (nats_publish SERVICE_UNAVAILABLE (''oshioki.ack.'' @ request_id) payload) (\<lambda>_.
     lift (Inr ACCEPTED)))))))"

definition acknowledge_auth_request ::
  "crates \<Rightarrow> http_crates \<Rightarrow> string \<Rightarrow> (string \<Rightarrow> bytes option) \<Rightarrow> AliveV1 \<Rightarrow> server \<Rightarrow> (StatusCode + StatusCode) \<times> server" where
  "acknowledge_auth_request X H request_id headers acknowledgement =
     then_do (lift (map_err (\<lambda>_. CONFLICT) (AliveV1_validate acknowledgement request_id))) (\<lambda>_.
     then_do (require_pending_auth request_id) (\<lambda>_.
     then_do (lift (bearer_token H headers)) (\<lambda>token.
     then_do (sealed_auth_for X request_id token) (\<lambda>_.
     then_do (lift (internal (hx_alive_to_vec H acknowledgement))) (\<lambda>payload.
     then_do (nats_publish SERVICE_UNAVAILABLE (''oshioki.ack.'' @ request_id) payload) (\<lambda>_.
     lift (Inr ACCEPTED)))))))"

definition acknowledge_tool_request ::
  "crates \<Rightarrow> server_crates \<Rightarrow> http_crates \<Rightarrow> string \<Rightarrow> (string \<Rightarrow> bytes option) \<Rightarrow> ToolAcknowledgementV1 \<Rightarrow> server
    \<Rightarrow> (StatusCode + StatusCode) \<times> server" where
  "acknowledge_tool_request X S H request_id headers acknowledgement =
     then_do (lift (map_err (\<lambda>_. CONFLICT) (ToolAcknowledgementV1_validate acknowledgement request_id))) (\<lambda>_.
     then_do (require_pending_tool request_id) (\<lambda>_.
     then_do (lift (bearer_token H headers)) (\<lambda>token.
     then_do (sealed_tool_for X S request_id token) (\<lambda>_.
     then_do (lift (internal (hx_tool_ack_to_vec H acknowledgement))) (\<lambda>payload.
     then_do (nats_publish SERVICE_UNAVAILABLE (''oshioki.tool.ack.'' @ request_id) payload) (\<lambda>_.
     lift (Inr ACCEPTED)))))))"

section \<open>Deciding a request\<close>

text \<open>The status of a queued decision, the same on the three lanes: the store's message decides it.\<close>

fun decision_status :: "string + InsertResult \<Rightarrow> StatusCode + StatusCode" where
  "decision_status (Inr Conflict) = Inl GONE"
| "decision_status (Inr _) = Inr ACCEPTED"
| "decision_status (Inl e) =
     (if str_contains ''expired'' e then Inl GONE
      else if str_contains ''unknown'' e then Inl NOT_FOUND
      else Inl CONFLICT)"

definition api_queue_decision ::
  "crates \<Rightarrow> server_crates \<Rightarrow> string \<Rightarrow> string \<Rightarrow> DecisionV1 \<Rightarrow> server \<Rightarrow> (StatusCode + StatusCode) \<times> server" where
  "api_queue_decision X S request_id fingerprint decision =
     then_do (transact (\<lambda>t. queue_decision X S request_id fingerprint decision (tn_now t) (tn_clock t)))
       (\<lambda>result. lift (decision_status result))"

definition approve_request ::
  "crates \<Rightarrow> server_crates \<Rightarrow> http_crates \<Rightarrow> string \<Rightarrow> (string \<Rightarrow> bytes option) \<Rightarrow> ApproveV1 \<Rightarrow> server
    \<Rightarrow> (StatusCode + StatusCode) \<times> server" where
  "approve_request X S H request_id headers approval =
     then_do (lift (map_err (\<lambda>_. CONFLICT) (ApproveV1_validate_shape X approval))) (\<lambda>_.
     then_do (authorize_request X H request_id headers (ap_device_fingerprint approval)) (\<lambda>_.
     if ap_request_id approval \<noteq> request_id then lift (Inl CONFLICT)
     else api_queue_decision X S request_id (ap_device_fingerprint approval) (Approve approval)))"

definition deny_request ::
  "crates \<Rightarrow> server_crates \<Rightarrow> http_crates \<Rightarrow> string \<Rightarrow> (string \<Rightarrow> bytes option) \<Rightarrow> DenyV1 \<Rightarrow> server
    \<Rightarrow> (StatusCode + StatusCode) \<times> server" where
  "deny_request X S H request_id headers denial =
     then_do (lift (map_err (\<lambda>_. CONFLICT) (DenyV1_validate_shape X denial))) (\<lambda>_.
     then_do (authorize_request X H request_id headers (dn_device_fingerprint denial)) (\<lambda>_.
     if dn_request_id denial \<noteq> request_id then lift (Inl CONFLICT)
     else api_queue_decision X S request_id (dn_device_fingerprint denial) (Deny denial)))"

definition authenticate_webauthn ::
  "crates \<Rightarrow> server_crates \<Rightarrow> http_crates \<Rightarrow> string \<Rightarrow> (string \<Rightarrow> bytes option) \<Rightarrow> AuthApproveWebauthnV1 \<Rightarrow> server
    \<Rightarrow> (StatusCode + StatusCode) \<times> server" where
  "authenticate_webauthn X S H request_id headers approval =
     then_do (lift (map_err (\<lambda>_. CONFLICT) (AuthApproveWebauthnV1_validate_shape X approval))) (\<lambda>_.
     then_do (authorize_auth_request X H request_id headers (aaw_device_fingerprint approval)) (\<lambda>_.
     if aaw_request_id approval \<noteq> request_id then lift (Inl CONFLICT)
     else then_do (transact (\<lambda>t. queue_auth_decision X S request_id (aaw_device_fingerprint approval)
            (AuthenticateWebauthn approval) (tn_now t) (tn_clock t)))
          (\<lambda>result. lift (decision_status result))))"

record ToolDecisionSubmission =
  tds_request_json :: string
  tds_decision :: ToolApprovalDecisionV1

definition submit_tool_decision ::
  "crates \<Rightarrow> server_crates \<Rightarrow> http_crates \<Rightarrow> AppState \<Rightarrow> string \<Rightarrow> (string \<Rightarrow> bytes option) \<Rightarrow> ToolDecisionSubmission \<Rightarrow> server
    \<Rightarrow> (StatusCode + StatusCode) \<times> server" where
  "submit_tool_decision X S H app request_id headers submission =
     (let decision = tds_decision submission; assertion = ToolApprovalDecisionV1_assertion decision in
     then_do (lift (map_err (\<lambda>_. CONFLICT) (ToolApprovalWebauthnV1_validate_shape X assertion))) (\<lambda>_.
     if tw_request_id assertion \<noteq> request_id then lift (Inl CONFLICT) else
     then_do (require_pending_tool request_id) (\<lambda>_.
     then_do (lift (bearer_token H headers)) (\<lambda>token.
     then_do (sealed_tool_for X S request_id token) (\<lambda>request.
     then_do (lift (internal (hx_tool_body_from_slice H (sq_body_json request)))) (\<lambda>sealed.
     if tb_device_fingerprint sealed \<noteq> tw_device_fingerprint assertion then lift (Inl UNAUTHORIZED) else
     then_do (query (\<lambda>t. active_device S (tb_device_fingerprint sealed))) (\<lambda>stored.
     then_do (lift (and_then (internal stored) (\<lambda>device. ok_or device UNAUTHORIZED))) (\<lambda>device.
     then_do read_clock (\<lambda>now.
     then_do (lift (map_err (\<lambda>_. CONFLICT) (verify_tool_decision_v1 X decision (as_bytes (tds_request_json submission)) device
        \<lparr>cf_version = 1, cf_origin = as_origin app, cf_rp_id = as_rp_id app, cf_server_base_url = as_origin app\<rparr> now))) (\<lambda>_.
     then_do (transact (\<lambda>t. queue_tool_decision X S request_id (tb_device_fingerprint sealed) decision (tn_now t)))
       (\<lambda>result. lift (decision_status result))))))))))))"

section \<open>Verdicts, enrollment, devices, health\<close>

definition api_recorded_verdict :: "string \<Rightarrow> server \<Rightarrow> (StatusCode + bytes) \<times> server" where
  "api_recorded_verdict request_id =
     then_do (query (\<lambda>_. recorded_verdict request_id)) (\<lambda>payload. lift (ok_or payload NOT_FOUND))"

definition api_recorded_auth_verdict :: "string \<Rightarrow> server \<Rightarrow> (StatusCode + bytes) \<times> server" where
  "api_recorded_auth_verdict request_id =
     then_do (query (\<lambda>_. recorded_auth_verdict request_id)) (\<lambda>payload. lift (ok_or payload NOT_FOUND))"

fun submission_status :: "string + InsertResult \<Rightarrow> StatusCode + StatusCode" where
  "submission_status (Inr Conflict) = Inl CONFLICT"
| "submission_status (Inr _) = Inr ACCEPTED"
| "submission_status (Inl e) =
     (if str_contains ''expired'' e then Inl GONE
      else if str_contains ''unknown'' e then Inl NOT_FOUND
      else Inl INTERNAL_SERVER_ERROR)"

definition api_submit_enrollment ::
  "crates \<Rightarrow> server_crates \<Rightarrow> string \<Rightarrow> EnrollmentSubmissionV1 \<Rightarrow> server \<Rightarrow> (StatusCode + StatusCode) \<times> server" where
  "api_submit_enrollment X S enrollment_id submission =
     (if EnrollmentSubmissionV1_enrollment_id submission \<noteq> enrollment_id \<or>
         \<not> (case submission of SubmitWebauthn _ \<Rightarrow> True | _ \<Rightarrow> False)
      then lift (Inl CONFLICT)
      else then_do (lift (map_err (\<lambda>_. CONFLICT) (EnrollmentSubmissionV1_validate_shape X submission))) (\<lambda>_.
        then_do (transact (\<lambda>t. submit_enrollment X S enrollment_id submission (tn_now t) (tn_clock t)))
          (\<lambda>result. lift (submission_status result))))"

definition api_enrollment_status :: "string \<Rightarrow> server \<Rightarrow> (StatusCode + EnrollmentView) \<times> server" where
  "api_enrollment_status enrollment_id =
     then_do (query (\<lambda>t. enrollment_status enrollment_id (tn_now t))) (\<lambda>view. lift (ok_or view NOT_FOUND))"

definition get_device :: "server_crates \<Rightarrow> string \<Rightarrow> server \<Rightarrow> (StatusCode + DevicePublicRecordV1) \<times> server" where
  "get_device S fingerprint =
     then_do (query (\<lambda>_. active_device S fingerprint)) (\<lambda>stored.
       lift (and_then (internal stored) (\<lambda>device. ok_or device NOT_FOUND)))"

record health_view =
  hv_consumer_age :: i64
  hv_outbox_age :: i64
  hv_push_worker_age :: i64
  hv_public_key_available :: bool
  hv_worker_running :: bool

definition health :: "AppState \<Rightarrow> server \<Rightarrow> (StatusCode + health_view) \<times> server" where
  "health app =
     then_do read_clock (\<lambda>current w.
       let consumer_age = current - sv_consumer_last_ok w;
           outbox_age = current - sv_outbox_last_ok w;
           push_worker_age = current - sv_push_worker_last_ok w
       in (if consumer_age > 30 \<or> outbox_age > 30 then Inl SERVICE_UNAVAILABLE
           else Inr \<lparr>hv_consumer_age = consumer_age, hv_outbox_age = outbox_age, hv_push_worker_age = push_worker_age,
             hv_public_key_available = (vc_public_key (as_vapid app) \<noteq> []), hv_worker_running = (push_worker_age \<le> 30)\<rparr>, w))"

section \<open>Push subscriptions\<close>

record PushSubscriptionKeys =
  pk_p256dh :: string
  pk_auth :: string

record PushSubscriptionRequest =
  ps_installation_token :: "string option"
  ps_version :: u8
  ps_endpoint :: string
  ps_expiration_time :: "i64 option"
  ps_keys :: PushSubscriptionKeys

definition api_push_status ::
  "crates \<Rightarrow> server_crates \<Rightarrow> http_crates \<Rightarrow> (string \<Rightarrow> bytes option) \<Rightarrow> server \<Rightarrow> (StatusCode + nat) \<times> server" where
  "api_push_status X S H headers =
     then_do (lift (bearer_token H headers)) (\<lambda>token.
     then_do (query (\<lambda>t. push_status X S (as_bytes token) (tn_clock t))) (\<lambda>status.
     lift (map_err (\<lambda>e. if str_contains ''not found'' e then UNAUTHORIZED else INTERNAL_SERVER_ERROR) status)))"

definition registration_status :: "string \<Rightarrow> StatusCode" where
  "registration_status message =
     (if str_contains ''active WebAuthn'' message then UNAUTHORIZED
      else if str_contains ''another active'' message \<or> str_contains ''capability conflict'' message then CONFLICT
      else BAD_REQUEST)"

definition register_push_subscription ::
  "crates \<Rightarrow> server_crates \<Rightarrow> http_crates \<Rightarrow> (string \<Rightarrow> bytes option) \<Rightarrow> PushSubscriptionRequest \<Rightarrow> server
    \<Rightarrow> (StatusCode + string) \<times> server" where
  "register_push_subscription X S H headers input =
     (if ps_version input \<noteq> 1 then lift (Inl BAD_REQUEST)
      else if length (ps_endpoint input) > PUSH_MAX_ENDPOINT_BYTES \<or> length (pk_p256dh (ps_keys input)) > MAX_PUSH_P256DH_B64 \<or>
        length (pk_auth (ps_keys input)) > MAX_PUSH_AUTH_B64 then lift (Inl BAD_REQUEST)
      else then_do (lift (bearer_token H headers)) (\<lambda>token.
        then_do (lift (map_err (\<lambda>_. BAD_REQUEST) (decode_base64url X (pk_p256dh (ps_keys input))))) (\<lambda>p256dh.
        then_do (lift (map_err (\<lambda>_. BAD_REQUEST) (decode_base64url X (pk_auth (ps_keys input))))) (\<lambda>auth.
        let expiration_time = map_option (\<lambda>value. if value > 100000000000 then value div 1000 else value) (ps_expiration_time input) in
        then_do (transact (\<lambda>t. register_push_membership X S (as_bytes token) (ps_endpoint input) p256dh auth expiration_time
            (ps_installation_token input) (tn_now t) (tn_fresh t) (tn_candidate t)))
          (\<lambda>result. lift (map_err registration_status result))))))"

definition api_delete_push_subscription ::
  "crates \<Rightarrow> server_crates \<Rightarrow> http_crates \<Rightarrow> string \<Rightarrow> (string \<Rightarrow> bytes option) \<Rightarrow> server \<Rightarrow> (StatusCode + StatusCode) \<times> server" where
  "api_delete_push_subscription X S H subscription_id headers =
     then_do (lift (bearer_token H headers)) (\<lambda>token.
     then_do (transact (\<lambda>t. delete_push_subscription X S (as_bytes token) subscription_id (tn_now t))) (\<lambda>result.
     then_do (lift (map_err (\<lambda>e. if str_contains ''active WebAuthn'' e then UNAUTHORIZED else INTERNAL_SERVER_ERROR) result)) (\<lambda>deleted.
     lift (if deleted then Inr NO_CONTENT else Inl NOT_FOUND))))"

section \<open>The routes\<close>

datatype api_call =
    GetRequest string
  | AckRequest string AliveV1
  | ApproveRequest string ApproveV1
  | DenyRequest string DenyV1
  | GetVerdict string
  | GetTool string
  | AckTool string ToolAcknowledgementV1
  | DecideTool string ToolDecisionSubmission
  | GetAuth string
  | AckAuth string AliveV1
  | AuthenticateBrowser string AuthApproveWebauthnV1
  | GetAuthVerdict string
  | SubmitEnrollment string EnrollmentSubmissionV1
  | GetEnrollment string
  | GetPushStatus
  | RegisterPush PushSubscriptionRequest
  | DeletePush string
  | GetDevice string
  | GetHealth

datatype api_reply =
    Status StatusCode
  | SealedBody "SealedDeviceBodyV1 \<times> i64"
  | SealedTool "ToolSealedBodyV1 \<times> i64"
  | Verdict bytes
  | Enrollment EnrollmentView
  | Subscribed string
  | Subscriptions nat
  | Device DevicePublicRecordV1
  | Healthy health_view

definition replying :: "('a \<Rightarrow> api_reply) \<Rightarrow> (server \<Rightarrow> (StatusCode + 'a) \<times> server) \<Rightarrow> server \<Rightarrow> (StatusCode + api_reply) \<times> server" where
  "replying f m = then_do m (\<lambda>x. lift (Inr (f x)))"

fun api :: "crates \<Rightarrow> server_crates \<Rightarrow> http_crates \<Rightarrow> AppState \<Rightarrow> (string \<Rightarrow> bytes option) \<Rightarrow> api_call \<Rightarrow> server
    \<Rightarrow> (StatusCode + api_reply) \<times> server" where
  "api X S H app headers (GetRequest i) = replying SealedBody (get_request X H i headers)"
| "api X S H app headers (AckRequest i a) = replying Status (acknowledge_request X H i headers a)"
| "api X S H app headers (ApproveRequest i a) = replying Status (approve_request X S H i headers a)"
| "api X S H app headers (DenyRequest i a) = replying Status (deny_request X S H i headers a)"
| "api X S H app headers (GetVerdict i) = replying Verdict (api_recorded_verdict i)"
| "api X S H app headers (GetTool i) = replying SealedTool (get_tool_request X S H i headers)"
| "api X S H app headers (AckTool i a) = replying Status (acknowledge_tool_request X S H i headers a)"
| "api X S H app headers (DecideTool i s) = replying Status (submit_tool_decision X S H app i headers s)"
| "api X S H app headers (GetAuth i) = replying SealedBody (get_auth_request X H i headers)"
| "api X S H app headers (AckAuth i a) = replying Status (acknowledge_auth_request X H i headers a)"
| "api X S H app headers (AuthenticateBrowser i a) = replying Status (authenticate_webauthn X S H i headers a)"
| "api X S H app headers (GetAuthVerdict i) = replying Verdict (api_recorded_auth_verdict i)"
| "api X S H app headers (SubmitEnrollment i s) = replying Status (api_submit_enrollment X S i s)"
| "api X S H app headers (GetEnrollment i) = replying Enrollment (api_enrollment_status i)"
| "api X S H app headers GetPushStatus = replying Subscriptions (api_push_status X S H headers)"
| "api X S H app headers (RegisterPush p) = replying Subscribed (register_push_subscription X S H headers p)"
| "api X S H app headers (DeletePush i) = replying Status (api_delete_push_subscription X S H i headers)"
| "api X S H app headers (GetDevice f) = replying Device (get_device S f)"
| "api X S H app headers GetHealth = replying Healthy (health app)"

section \<open>What the API keeps of the store\<close>

text \<open>Other tasks keep a property of the store between the calls of this one.\<close>

definition others_keep :: "(db \<Rightarrow> bool) \<Rightarrow> server \<Rightarrow> bool" where
  "others_keep P w \<longleftrightarrow> (\<forall>i d. P d \<longrightarrow> P (tn_others (sv_turns w i) d))"

definition keeps :: "(db \<Rightarrow> bool) \<Rightarrow> (server \<Rightarrow> ('e + 'a) \<times> server) \<Rightarrow> bool" where
  "keeps P m \<longleftrightarrow> (\<forall>w r w'. m w = (r, w') \<longrightarrow> sv_turns w' = sv_turns w \<and> (others_keep P w \<longrightarrow> P (sv_db w) \<longrightarrow> P (sv_db w')))"

named_theorems keeps_intros \<open>operations of the server that keep what every step of the store keeps\<close>

lemma keepsD:
  assumes "keeps P m" "m w = (r, w')" "others_keep P w" "P (sv_db w)"
  shows "P (sv_db w')" "others_keep P w'" "sv_turns w' = sv_turns w"
proof -
  have kept: "sv_turns w' = sv_turns w" "P (sv_db w')" using assms unfolding keeps_def by blast+
  then show "P (sv_db w')" "sv_turns w' = sv_turns w" "others_keep P w'" using assms(3) by (simp_all add: others_keep_def)
qed

lemma keeps_lift [keeps_intros]: "keeps P (lift m)"
  by (simp add: keeps_def lift_def)

lemma keeps_then_do [keeps_intros]:
  assumes "keeps P m" "\<And>x. keeps P (f x)"
  shows "keeps P (then_do m f)"
proof -
  have "sv_turns w' = sv_turns w \<and> (others_keep P w \<longrightarrow> P (sv_db w) \<longrightarrow> P (sv_db w'))" if "then_do m f w = (r, w')" for w r w'
    using that
  proof (cases rule: then_do_E)
    case (failed e)
    then show ?thesis using assms(1) unfolding keeps_def by blast
  next
    case (went_on x w1)
    then have "sv_turns w1 = sv_turns w" "sv_turns w' = sv_turns w1" using assms unfolding keeps_def by blast+
    then show ?thesis using keepsD [OF assms(1) went_on(1)] keepsD(1) [OF assms(2) went_on(2)] by auto
  qed
  then show ?thesis unfolding keeps_def by blast
qed

lemma keeps_if [keeps_intros]: "keeps P m \<Longrightarrow> keeps P n \<Longrightarrow> keeps P (if c then m else n)"
  by simp

lemma keeps_store:
  assumes "\<And>t d a d'. P d \<Longrightarrow> f t d = (a, d') \<Longrightarrow> P d'"
  shows "keeps P (store f)"
proof -
  have "P d'" if "others_keep P w" "P (sv_db w)" "f t (tn_others (sv_turns w i) (sv_db w)) = (a, d')" for w t i a d'
    using assms [OF _ that(3)] that(1,2) by (simp add: others_keep_def)
  then show ?thesis unfolding keeps_def store_def Let_def by (auto split: prod.splits)
qed

lemma keeps_query [keeps_intros]: "keeps P (query f)"
  unfolding query_def by (rule keeps_store) simp

lemma keeps_read_clock [keeps_intros]: "keeps P read_clock"
  unfolding read_clock_def by (rule keeps_query)

lemma keeps_nats_publish [keeps_intros]: "keeps P (nats_publish e subject payload)"
  by (simp add: keeps_def nats_publish_def Let_def)

lemma keeps_health [keeps_intros]: "keeps P (health app)"
proof -
  have "keeps P (\<lambda>w. (f w :: StatusCode + health_view, w))" for f by (simp add: keeps_def)
  then show ?thesis unfolding health_def Let_def by (intro keeps_then_do keeps_read_clock)
qed

text \<open>The contract between the store and the tasks that use it: a property that every operation of the store keeps.\<close>

locale store_invariant =
  fixes X :: crates and S :: server_crates and P :: "db \<Rightarrow> bool"
  assumes step: "P d \<Longrightarrow> db_step X S d d' \<Longrightarrow> P d'"
begin

lemma keeps_transact:
  assumes "\<And>t d a d'. f t d = Inr (a, d') \<Longrightarrow> db_step X S d d'"
  shows "keeps P (transact f)"
  unfolding transact_def
proof (rule keeps_store)
  show "P d'" if "P d" "(case f t d of Inl e \<Rightarrow> (Inl e, d) | Inr (a, d) \<Rightarrow> (Inr a, d)) = (a, d')" for t d a d'
    using that step [OF that(1)] assms by (auto split: sum.splits)
qed

lemma transactions:
  "keeps P (transact (\<lambda>t. queue_decision X S request_id fp decision (tn_now t) (tn_clock t)))"
  "keeps P (transact (\<lambda>t. queue_auth_decision X S request_id fp adec (tn_now t) (tn_clock t)))"
  "keeps P (transact (\<lambda>t. queue_tool_decision X S request_id fp tdec (tn_now t)))"
  "keeps P (transact (\<lambda>t. submit_enrollment X S e submission (tn_now t) (tn_clock t)))"
  "keeps P (transact (\<lambda>t. register_push_membership X S token endpoint p256dh auth expiry inst (tn_now t) (tn_fresh t) (tn_candidate t)))"
  "keeps P (transact (\<lambda>t. delete_push_subscription X S token sid (tn_now t)))"
  by (rule keeps_transact, erule db_step.decision db_step.auth_decision db_step.tool_decision db_step.submit db_step.register
      db_step.delete)+

lemma keeps_api: "keeps P (api X S H app headers call)"
  by (cases call)
    (auto simp: replying_def get_request_def get_tool_request_def get_auth_request_def acknowledge_request_def
      acknowledge_tool_request_def acknowledge_auth_request_def approve_request_def deny_request_def authenticate_webauthn_def
      submit_tool_decision_def authorize_request_def authorize_auth_request_def require_pending_def require_pending_tool_def
      require_pending_auth_def sealed_for_def sealed_auth_for_def sealed_tool_for_def api_queue_decision_def
      api_recorded_verdict_def api_recorded_auth_verdict_def api_submit_enrollment_def api_enrollment_status_def get_device_def
      api_push_status_def register_push_subscription_def api_delete_push_subscription_def Let_def
      intro!: keeps_intros transactions)

end

interpretation reach: store_invariant X S "reachable X S" for X S
  by unfold_locales (rule reachable.step)

interpretation integrity: store_invariant X S db_ok for X S
  by unfold_locales (rule db_step_ok)

section \<open>Sealed bodies name their device\<close>

text \<open>What the store keeps of a body is the JSON form of a body for the device of its row.\<close>

definition body_of :: "server_crates \<Rightarrow> lane \<Rightarrow> body_row \<Rightarrow> bool" where
  "body_of S lane b \<longleftrightarrow> (if lane = ToolRows
     then \<exists>body. sx_tool_body_to_vec S body = Inr (br_body_json b) \<and> tb_device_fingerprint body = br_fingerprint b
     else \<exists>body. sx_body_to_vec S body = Inr (br_body_json b) \<and> sb_device_fingerprint body = br_fingerprint b)"

definition bodies_named :: "server_crates \<Rightarrow> db \<Rightarrow> bool" where
  "bodies_named S d \<longleftrightarrow> (\<forall>lane. \<forall>b \<in> set (db_bodies d lane). body_of S lane b)"

lemma insert_bodies_rows:
  "insert_bodies lane request_id bs d = Inr d' \<Longrightarrow> b \<in> set (db_bodies d' l) \<Longrightarrow>
     b \<in> set (db_bodies d l) \<or> l = lane \<and> (br_fingerprint b, Inr (br_body_json b)) \<in> set bs"
proof (induction lane request_id bs d rule: insert_bodies.induct)
  case (2 lane request_id fp body bs d)
  then obtain json where "body = Inr json" by (auto simp: and_then_Inr_iff)
  with 2 show ?case by (fastforce simp: split: if_splits)
qed simp

lemma ingest_rows_named:
  assumes "bodies_named S d" "insert_bodies lane request_id (map (\<lambda>b. (f b, g b)) bs) (insert_request lane row d) = Inr d1"
    and "\<And>b r. (f b, g b) = (br_fingerprint r, Inr (br_body_json r)) \<Longrightarrow> body_of S lane r" and "db_bodies d' = db_bodies d1"
  shows "bodies_named S d'"
  unfolding bodies_named_def
proof (intro allI ballI)
  fix l b assume "b \<in> set (db_bodies d' l)"
  then have "b \<in> set (db_bodies d l) \<or> l = lane \<and> (br_fingerprint b, Inr (br_body_json b)) \<in> set (map (\<lambda>b. (f b, g b)) bs)"
    using insert_bodies_rows [OF assms(2), of b l] assms(4) by (simp add: insert_request_def)
  then show "body_of S l b" using assms(1,3) by (auto simp: bodies_named_def)
qed

lemma bodies_unchanged: "db_bodies d' = db_bodies d \<Longrightarrow> bodies_named S d \<Longrightarrow> bodies_named S d'"
  by (simp add: bodies_named_def)

lemma outbox_insert_bodies: "outbox_insert kind key subject payload created expires d = Inr d' \<Longrightarrow> db_bodies d' = db_bodies d"
  by (auto simp: outbox_insert_def outbox_append_def split: if_splits)

lemma enqueue_push_bodies [simp]: "db_bodies (enqueue_push lane request_id payload now d) = db_bodies d"
  by (simp add: enqueue_push_def)

lemma decided_bodies: "decided X S lane request_id fp raw now res d d' \<Longrightarrow> db_bodies d' = db_bodies d"
  by (auto simp: decided_def resolve_request_def dest!: outbox_insert_bodies split: if_splits)

lemma queue_receipt_bodies: "queue_receipt S lane key request_id expires clock d = Inr (res, d') \<Longrightarrow> db_bodies d' = db_bodies d"
  by (auto dest!: queue_receipt_receipt outbox_insert_bodies simp: receipt_def)

lemma ingest_named:
  assumes "bodies_named S d"
  shows "ingest_request X S raw env now clock d = Inr (res, d') \<Longrightarrow> bodies_named S d'"
    and "ingest_auth_request X S raw aenv now clock d = Inr (res, d') \<Longrightarrow> bodies_named S d'"
    and "ingest_tool_request X S raw tenv now d = Inr (res, d') \<Longrightarrow> bodies_named S d'"
proof -
  show "bodies_named S d'" if "ingest_request X S raw env now clock d = Inr (res, d')"
  proof (cases "stored_request d RequestRows (en_request_id env)")
    case None
    with that obtain row d1 payload where "insert_bodies RequestRows (en_request_id env)
        (map (\<lambda>b. (sb_device_fingerprint b, sx_body_to_vec S b)) (en_sealed env)) (insert_request RequestRows row d) = Inr d1"
      "queue_receipt S RequestRows (en_request_id env) (en_request_id env) (en_expires_at env) clock
        (enqueue_push RequestRows (en_request_id env) payload now d1) = Inr (res, d')"
      by (auto simp: ingest_request_def Let_def and_then_Inr_iff split: if_split_asm)
    then show ?thesis using queue_receipt_bodies by (intro ingest_rows_named [OF assms]) (auto simp: body_of_def)
  qed (use that assms in \<open>auto simp: ingest_request_def Let_def and_then_Inr_iff record_conflict_def bodies_named_def split: if_splits\<close>)
  show "bodies_named S d'" if "ingest_auth_request X S raw aenv now clock d = Inr (res, d')"
  proof (cases "stored_request d AuthRows (ae_request_id aenv)")
    case None
    with that obtain row d1 payload where "insert_bodies AuthRows (ae_request_id aenv)
        (map (\<lambda>b. (sb_device_fingerprint b, sx_body_to_vec S b)) (ae_sealed aenv)) (insert_request AuthRows row d) = Inr d1"
      "queue_receipt S AuthRows (''auth:'' @ ae_request_id aenv) (ae_request_id aenv) (ae_expires_at aenv) clock
        (enqueue_push AuthRows (ae_request_id aenv) payload now d1) = Inr (res, d')"
      by (auto simp: ingest_auth_request_def Let_def and_then_Inr_iff split: if_split_asm)
    then show ?thesis using queue_receipt_bodies by (intro ingest_rows_named [OF assms]) (auto simp: body_of_def)
  qed (use that assms in \<open>auto simp: ingest_auth_request_def Let_def and_then_Inr_iff record_conflict_def bodies_named_def split: if_splits\<close>)
  show "bodies_named S d'" if "ingest_tool_request X S raw tenv now d = Inr (res, d')"
  proof (cases "stored_request d ToolRows (te_request_id tenv)")
    case None
    with that obtain row d1 payload delivery where "insert_bodies ToolRows (te_request_id tenv)
        (map (\<lambda>b. (tb_device_fingerprint b, sx_tool_body_to_vec S b)) (te_sealed tenv)) (insert_request ToolRows row d) = Inr d1"
      "outbox_insert ''tool_delivery'' (te_request_id tenv) (''oshioki.tool.delivery.'' @ te_request_id tenv)
        delivery now (Some (te_expires_at tenv)) (enqueue_push ToolRows (te_request_id tenv) payload now d1) = Inr d'"
      by (auto simp: ingest_tool_request_def Let_def and_then_Inr_iff map_ok_Inr_iff split: if_split_asm)
    then show ?thesis using outbox_insert_bodies by (intro ingest_rows_named [OF assms]) (auto simp: body_of_def)
  qed (use that assms in \<open>auto simp: ingest_tool_request_def Let_def and_then_Inr_iff record_conflict_def bodies_named_def split: if_splits\<close>)
qed

lemma register_bodies:
  assumes "register_push_membership X S token endpoint p256dh auth expiry inst now fresh candidate d = Inr (sid, d')"
  shows "db_bodies d' = db_bodies d"
proof -
  from assms obtain v h e d1 d2 where v: "browser_of_token S d (sha256 X token) = Some v"
    and ok: "validate_push_endpoint S endpoint = Inr ()" and e: "store_endpoint fresh (de_fingerprint v) endpoint p256dh auth expiry h now d = Inr (e, d1)"
    and s: "store_subscription candidate e (de_fingerprint v) now d1 = Inr (sid, d2)" and d': "d' = abandon_ineligible_pushes now d2"
    by (rule register_parts)
  have "db_bodies d1 = db_bodies d"
    using e by (auto simp: store_endpoint_def check_capability_def refresh_endpoint_def and_then_Inr_iff Let_def split: option.splits if_splits)
  moreover have "db_bodies d2 = db_bodies d1" using s by (auto simp: store_subscription_def split: option.splits if_splits)
  ultimately show ?thesis by (simp add: d')
qed

lemma small_steps_bodies:
  "create_enrollment e secret_hash expires reply clock d = (ins, d') \<Longrightarrow> db_bodies d' = db_bodies d"
  "submit_enrollment X S e sub now clock d = Inr (ins, d') \<Longrightarrow> db_bodies d' = db_bodies d"
  "activate_enrollment X S e dev now clock d = Inr d' \<Longrightarrow> db_bodies d' = db_bodies d"
  "queue_notification request_id endpoint payload clock d = d' \<Longrightarrow> db_bodies d' = db_bodies d"
  "expire_stale_deliveries now d = (n, d') \<Longrightarrow> db_bodies d' = db_bodies d"
  "mark_outbox_sent i clock d = d' \<Longrightarrow> db_bodies d' = db_bodies d"
  "set_device_active fp active now clock d = (b, d') \<Longrightarrow> db_bodies d' = db_bodies d"
  "delete_push_subscription X S token sid now d = Inr (b, d') \<Longrightarrow> db_bodies d' = db_bodies d"
  "claim_push now lease tok d = (item, d') \<Longrightarrow> db_bodies d' = db_bodies d"
  "mark_push_sent i tok now d = (b, d') \<Longrightarrow> db_bodies d' = db_bodies d"
  "abandon_push i tok now err d = (b, d') \<Longrightarrow> db_bodies d' = db_bodies d"
  "retry_push i tok now err d = (b, d') \<Longrightarrow> db_bodies d' = db_bodies d"
  "disable_push_for_claim i endpoint tok now err d = (b, d') \<Longrightarrow> db_bodies d' = db_bodies d"
proof -
  show "create_enrollment e secret_hash expires reply clock d = (ins, d') \<Longrightarrow> db_bodies d' = db_bodies d"
    by (auto simp: create_enrollment_def split: option.splits if_splits)
  show "submit_enrollment X S e sub now clock d = Inr (ins, d') \<Longrightarrow> db_bodies d' = db_bodies d"
    by (auto dest!: submit_cases outbox_insert_bodies)
  show "activate_enrollment X S e dev now clock d = Inr d' \<Longrightarrow> db_bodies d' = db_bodies d"
    by (auto elim!: activate_upserts upsert_device_cases)
  show "queue_notification request_id endpoint payload clock d = d' \<Longrightarrow> db_bodies d' = db_bodies d"
    by (auto simp: queue_notification_def outbox_append_def)
  show "delete_push_subscription X S token sid now d = Inr (b, d') \<Longrightarrow> db_bodies d' = db_bodies d"
    by (auto simp: delete_push_subscription_def Let_def split: if_splits)
  show "claim_push now lease tok d = (item, d') \<Longrightarrow> db_bodies d' = db_bodies d"
    by (auto simp: claim_push_def Let_def split: list.splits if_splits)
  show "retry_push i tok now err d = (b, d') \<Longrightarrow> db_bodies d' = db_bodies d"
    by (auto simp: retry_push_def abandon_push_def split: option.splits if_splits)
qed (auto simp: expire_stale_deliveries_def mark_outbox_sent_def mark_push_sent_def abandon_push_def disable_push_for_claim_def
    set_device_active_def Let_def split: if_splits)

lemma step_named: "db_step X S d d' \<Longrightarrow> bodies_named S d \<Longrightarrow> bodies_named S d'"
proof (induction rule: db_step.induct)
  case ingest then show ?case using ingest_named(1) by blast
next
  case ingest_auth then show ?case using ingest_named(2) by blast
next
  case ingest_tool then show ?case using ingest_named(3) by blast
next
  case decision then show ?case by (metis queue_decision_decided decided_bodies bodies_unchanged)
next
  case auth_decision then show ?case by (metis queue_auth_decision_decided decided_bodies bodies_unchanged)
next
  case tool_decision then show ?case by (metis queue_tool_decision_decided decided_bodies bodies_unchanged)
next
  case clean then show ?case
    by (auto simp: bodies_named_def cleanup_def Let_def expire_stale_deliveries_def drop_requests_def)
next
  case register then show ?case using register_bodies bodies_unchanged by blast
qed (drule small_steps_bodies, erule bodies_unchanged, assumption)+

lemma reachable_named: "reachable X S d \<Longrightarrow> bodies_named S d"
  by (induction rule: reachable.induct) (auto simp: bodies_named_def empty_db_def intro: step_named [unfolded bodies_named_def, rule_format])

section \<open>Decisions over HTTP\<close>

text \<open>The JSON forms of sealed bodies read back.\<close>

definition body_json_roundtrip :: "server_crates \<Rightarrow> http_crates \<Rightarrow> bool" where
  "body_json_roundtrip S H \<longleftrightarrow>
     (\<forall>body json. sx_body_to_vec S body = Inr json \<longrightarrow> hx_body_from_slice H json = Inr body) \<and>
     (\<forall>body json. sx_tool_body_to_vec S body = Inr json \<longrightarrow> hx_tool_body_from_slice H json = Inr body)"

text \<open>The caller presented the token of an active device that is a recipient of an open request.\<close>

definition presented :: "crates \<Rightarrow> http_crates \<Rightarrow> (string \<Rightarrow> bytes option) \<Rightarrow> lane \<Rightarrow> string \<Rightarrow> string \<Rightarrow> i64 \<Rightarrow> db \<Rightarrow> bool" where
  "presented X H headers lane request_id fingerprint now d \<longleftrightarrow>
     (\<exists>token. Option.bind (headers ''authorization'') (hx_header_to_str H) = Some (''Bearer '' @ token) \<and> 32 \<le> length token \<and>
        (\<exists>v \<in> set (db_devices d). de_active v \<and> de_api_token_hash v = sha256 X (as_bytes token) \<and> de_fingerprint v = fingerprint)) \<and>
     request_open d lane request_id now \<and> has_body d lane request_id fingerprint"

text \<open>What a call decides: its lane, the request of its path, the request and the device it names, and its bytes.\<close>

fun decision_of :: "server_crates \<Rightarrow> api_call \<Rightarrow> (lane \<times> string \<times> string \<times> string \<times> (string + bytes)) option" where
  "decision_of S (ApproveRequest i a) = Some (RequestRows, i, ap_request_id a, ap_device_fingerprint a, sx_decision_to_vec S (Approve a))"
| "decision_of S (DenyRequest i a) = Some (RequestRows, i, dn_request_id a, dn_device_fingerprint a, sx_decision_to_vec S (Deny a))"
| "decision_of S (AuthenticateBrowser i a) =
     Some (AuthRows, i, aaw_request_id a, aaw_device_fingerprint a, sx_auth_decision_to_vec S (AuthenticateWebauthn a))"
| "decision_of S (DecideTool i s) = (let a = ToolApprovalDecisionV1_assertion (tds_decision s)
     in Some (ToolRows, i, tw_request_id a, tw_device_fingerprint a, sx_tool_decision_to_vec S (tds_decision s)))"
| "decision_of S _ = None"

lemma bearer_token_Inr:
  "bearer_token H headers = Inr token \<longleftrightarrow>
     Option.bind (headers ''authorization'') (hx_header_to_str H) = Some (''Bearer '' @ token) \<and> 32 \<le> length token"
proof -
  have "bearer_token H headers = Inr token \<longleftrightarrow>
      Option.bind (Option.bind (headers ''authorization'') (hx_header_to_str H)) (strip_prefix ''Bearer '') = Some token \<and> 32 \<le> length token"
    unfolding bearer_token_def by (auto split: option.splits if_splits)
  then show ?thesis by (simp only: bind_eq_Some_conv [of "Option.bind _ _"] strip_prefix_Some_iff) blast
qed

lemma query_E:
  assumes "query f w = (r, w')"
  obtains t where "r = Inr (f t (sv_db w'))" "sv_db w' = tn_others t (sv_db w)" "t = sv_turns w (sv_turn w)"
    "sv_published w' = sv_published w" "sv_turns w' = sv_turns w"
  using assms by (auto simp: query_def store_def Let_def)

lemma transact_E:
  assumes "transact f w = (r, w')"
  obtains (failed) t e where "r = Inr (Inl e)" "f t (tn_others t (sv_db w)) = Inl e" "sv_db w' = tn_others t (sv_db w)"
      "t = sv_turns w (sv_turn w)" "sv_published w' = sv_published w"
  | (ran) t a where "r = Inr (Inr a)" "f t (tn_others t (sv_db w)) = Inr (a, sv_db w')" "t = sv_turns w (sv_turn w)"
      "sv_published w' = sv_published w"
  using assms by (auto simp: transact_def store_def Let_def split: sum.splits prod.splits)

lemma decision_status_Inr: "decision_status r = Inr c \<longleftrightarrow> c = ACCEPTED \<and> (\<exists>res. r = Inr res \<and> res \<noteq> Conflict)"
  by (cases r rule: decision_status.cases) auto

lemma sealed_presented:
  assumes "sealed_row d lane ok request_id now = Some s" and "\<And>v. ok v \<Longrightarrow> de_api_token_hash v = sha256 X (as_bytes token)"
    and "bearer_token H headers = Inr token"
    and "\<And>b. b \<in> set (db_bodies d lane) \<Longrightarrow> br_body_json b = sq_body_json s \<Longrightarrow> br_fingerprint b = fp"
  shows "presented X H headers lane request_id fp now d"
proof -
  obtain r b v where x: "r \<in> set (db_requests d lane)" "b \<in> set (db_bodies d lane)" "v \<in> set (db_devices d)" "rr_id r = request_id"
    "rr_state r = ''pending''" "now < rr_expires_at r" "br_request_id b = request_id" "br_fingerprint b = de_fingerprint v"
    "de_active v" "ok v" "s = \<lparr>sq_body_json = br_body_json b, sq_expires_at = rr_expires_at r\<rparr>"
    using sealed_row_Some [OF assms(1)] by blast
  have fp: "br_fingerprint b = fp" using assms(4) [OF x(2)] x(11) by simp
  have token: "Option.bind (headers ''authorization'') (hx_header_to_str H) = Some (''Bearer '' @ token)" "32 \<le> length token"
    using assms(3) by (simp_all add: bearer_token_Inr)
  have "request_open d lane request_id now" using x(1,4,5,6) by (auto simp: request_open_def)
  moreover have "has_body d lane request_id fp" using x(2,7) fp by (auto simp: has_body_def)
  ultimately show ?thesis using token x(3,8,9) assms(2) [OF x(10)] fp unfolding presented_def by metis
qed

lemma body_names_device:
  assumes "bodies_named S d" "body_json_roundtrip S H" "b \<in> set (db_bodies d lane)"
  shows "lane \<noteq> ToolRows \<Longrightarrow> hx_body_from_slice H (br_body_json b) = Inr body \<Longrightarrow> br_fingerprint b = sb_device_fingerprint body"
    and "lane = ToolRows \<Longrightarrow> hx_tool_body_from_slice H (br_body_json b) = Inr tool_body \<Longrightarrow> br_fingerprint b = tb_device_fingerprint tool_body"
  using assms by (fastforce simp: bodies_named_def body_of_def body_json_roundtrip_def)+

text \<open>A call that has only read so far: the store it finds at its next turn is what it started from, with everything the other
  tasks did since. \<open>seen (Suc n) w\<close> is the store at turn number \<open>n\<close> of such a call, \<open>nth_turn n w\<close> that turn, with its clock.\<close>

abbreviation nth_turn :: "nat \<Rightarrow> server \<Rightarrow> turn" where
  "nth_turn n w \<equiv> sv_turns w (sv_turn w + n)"

primrec seen :: "nat \<Rightarrow> server \<Rightarrow> db" where
  "seen 0 w = sv_db w"
| "seen (Suc n) w = tn_others (nth_turn n w) (seen n w)"

definition after_reads :: "nat \<Rightarrow> server \<Rightarrow> server" where
  "after_reads n w = w\<lparr>sv_db := seen n w, sv_turn := sv_turn w + n\<rparr>"

lemma after_reads_simps [simp]:
  "sv_db (after_reads n w) = seen n w" "sv_turns (after_reads n w) = sv_turns w" "sv_turn (after_reads n w) = sv_turn w + n"
  "sv_published (after_reads n w) = sv_published w"
  by (simp_all add: after_reads_def)

lemma after_reads_0: "after_reads 0 w = w"
  by (simp add: after_reads_def)

lemma query_reads:
  "query f (after_reads n w) = (Inr (f (nth_turn n w) (seen (Suc n) w)), after_reads (Suc n) w)"
  by (simp add: query_def store_def Let_def after_reads_def)

lemma seen_keeps: "others_keep P w \<Longrightarrow> P (sv_db w) \<Longrightarrow> P (seen n w)"
  by (induction n) (simp_all add: others_keep_def)

lemma sealed_for_reads:
  "sealed_for X request_id token (after_reads n w) = (Inr s, w') \<longleftrightarrow>
     sealed_request_for_token X request_id (as_bytes token) (tn_now (nth_turn n w)) (seen (Suc n) w) = Some s \<and> w' = after_reads (Suc n) w"
  "sealed_auth_for X request_id token (after_reads n w) = (Inr s, w') \<longleftrightarrow>
     sealed_auth_request_for_token X request_id (as_bytes token) (tn_now (nth_turn n w)) (seen (Suc n) w) = Some s \<and> w' = after_reads (Suc n) w"
  "sealed_tool_for X S request_id token (after_reads n w) = (Inr s, w') \<longleftrightarrow>
     sealed_tool_request_for_token X S request_id (as_bytes token) (tn_now (nth_turn n w)) (seen (Suc n) w) = Some s \<and> w' = after_reads (Suc n) w"
  unfolding sealed_for_def sealed_auth_for_def sealed_tool_for_def
  by (auto simp: then_do_def query_reads lift_def ok_or_Inr_iff)

lemma require_pending_reads:
  "require_pending request_id (after_reads n w) = (Inr u, w') \<Longrightarrow> w' = after_reads (Suc n) w"
  "require_pending_auth request_id (after_reads n w) = (Inr u, w') \<Longrightarrow> w' = after_reads (Suc n) w"
  "require_pending_tool request_id (after_reads n w) = (Inr u, w') \<Longrightarrow> w' = after_reads (Suc n) w"
  unfolding require_pending_def require_pending_auth_def require_pending_tool_def
  by (auto simp: then_do_def query_reads lift_def split: sum.splits)

lemma authorize_request_presented:
  assumes "authorize_request X H request_id headers fp w = (Inr u, w')" "bodies_named S (seen 2 w)" "body_json_roundtrip S H"
  shows "w' = after_reads 2 w \<and> presented X H headers RequestRows request_id fp (tn_now (nth_turn 1 w)) (seen 2 w)"
proof -
  obtain token s sealed where tok: "bearer_token H headers = Inr token" and got: "sealed_for X request_id token (after_reads 1 w) = (Inr s, w')"
    and b: "hx_body_from_slice H (sq_body_json s) = Inr sealed" "sb_device_fingerprint sealed = fp"
    using assms(1) unfolding authorize_request_def internal_def
    by (auto simp: then_do_lift map_err_Inr_iff elim!: then_do_E dest!: lift_unchanged require_pending_reads [of _ 0, unfolded after_reads_0]
        split: sum.splits if_splits)
  have s: "sealed_request_for_token X request_id (as_bytes token) (tn_now (nth_turn 1 w)) (seen 2 w) = Some s" and w': "w' = after_reads 2 w"
    using got by (simp_all add: sealed_for_reads numeral_2_eq_2)
  have "presented X H headers RequestRows request_id fp (tn_now (nth_turn 1 w)) (seen 2 w)"
    by (rule sealed_presented [OF s [unfolded sealed_request_for_token_def] _ tok])
      (use body_names_device(1) [OF assms(2,3), of _ RequestRows] b in auto)
  then show ?thesis using w' by simp
qed

lemma authorize_auth_request_presented:
  assumes "authorize_auth_request X H request_id headers fp w = (Inr u, w')" "bodies_named S (seen 2 w)" "body_json_roundtrip S H"
  shows "w' = after_reads 2 w \<and> presented X H headers AuthRows request_id fp (tn_now (nth_turn 1 w)) (seen 2 w)"
proof -
  obtain token s sealed where tok: "bearer_token H headers = Inr token" and got: "sealed_auth_for X request_id token (after_reads 1 w) = (Inr s, w')"
    and b: "hx_body_from_slice H (sq_body_json s) = Inr sealed" "sb_device_fingerprint sealed = fp"
    using assms(1) unfolding authorize_auth_request_def internal_def
    by (auto simp: then_do_lift map_err_Inr_iff elim!: then_do_E dest!: lift_unchanged require_pending_reads [of _ 0, unfolded after_reads_0]
        split: sum.splits if_splits)
  have s: "sealed_auth_request_for_token X request_id (as_bytes token) (tn_now (nth_turn 1 w)) (seen 2 w) = Some s" and w': "w' = after_reads 2 w"
    using got by (simp_all add: sealed_for_reads numeral_2_eq_2)
  have "presented X H headers AuthRows request_id fp (tn_now (nth_turn 1 w)) (seen 2 w)"
    by (rule sealed_presented [OF s [unfolded sealed_auth_request_for_token_def] _ tok])
      (use body_names_device(1) [OF assms(2,3), of _ AuthRows] b in auto)
  then show ?thesis using w' by simp
qed

text \<open>The turn that records the decision looks again: the request is there and unexpired, and the device is an active recipient of a
  kind that may decide on the lane.\<close>

definition entitled :: "server_crates \<Rightarrow> lane \<Rightarrow> string \<Rightarrow> string \<Rightarrow> i64 \<Rightarrow> db \<Rightarrow> bool" where
  "entitled S lane request_id fp now d \<longleftrightarrow> (\<exists>r. stored_request d lane request_id = Some r \<and> now < rr_expires_at r) \<and>
     owns d lane (may_decide S lane) request_id fp"

lemma queued_decision:
  assumes "then_do (transact Q) (\<lambda>result. lift (decision_status result)) (after_reads n w) = (Inr c, w')"
  obtains res where "Q (nth_turn n w) (seen (Suc n) w) = Inr (res, sv_db w')" "res \<noteq> Conflict" "sv_turn w' = sv_turn w + Suc n"
  using assms
  by (auto simp: then_do_def transact_def store_def Let_def lift_def decision_status_Inr simp del: decision_status.simps split: sum.splits prod.splits)

lemma decided_slot:
  assumes "reachable X S d" "decided X S lane request_id fp raw now res d d'" "res \<noteq> Conflict"
  shows "slot_of d' lane request_id = Decided (sha256 X raw)"
  using decided_refines [OF reachable_ok [OF assms(1)] assms(2)] assms(3)
  by (cases "slot_of d lane request_id") (auto split: if_splits)

lemma others_keepD: "others_keep P w \<Longrightarrow> P d \<Longrightarrow> P (tn_others (sv_turns w i) d)"
  by (simp add: others_keep_def)

lemma decided_entitled:
  assumes "reachable X S d" "decided X S lane request_id fp raw now res d d'" "res \<noteq> Conflict"
  shows "entitled S lane request_id fp now d \<and> slot_of d' lane request_id = Decided (sha256 X raw)"
  using decided_slot [OF assms] assms(2) by (auto simp: entitled_def decided_def)

lemma command_decided:
  assumes "then_do (authorize_request X H request_id headers fp) (\<lambda>_. if named \<noteq> request_id then lift (Inl CONFLICT)
      else api_queue_decision X S request_id fp decision) w = (Inr c, w')"
    and "reachable X S (sv_db w)" "others_keep (reachable X S) w" "body_json_roundtrip S H"
  shows "named = request_id \<and> presented X H headers RequestRows request_id fp (tn_now (nth_turn 1 w)) (seen 2 w) \<and>
    sv_turn w' = sv_turn w + 3 \<and> entitled S RequestRows request_id fp (tn_now (nth_turn 2 w)) (seen 3 w) \<and>
    (\<exists>raw. sx_decision_to_vec S decision = Inr raw \<and> slot_of (sv_db w') RequestRows request_id = Decided (sha256 X raw))"
proof -
  note reach = seen_keeps [OF assms(3,2)]
  obtain u w1 where w1: "authorize_request X H request_id headers fp w = (Inr u, w1)"
    and rest: "(if named \<noteq> request_id then lift (Inl CONFLICT) else api_queue_decision X S request_id fp decision) w1 = (Inr c, w')"
    using assms(1) by (auto elim!: then_do_E)
  have p: "w1 = after_reads 2 w" "presented X H headers RequestRows request_id fp (tn_now (nth_turn 1 w)) (seen 2 w)"
    using authorize_request_presented [OF w1 reachable_named [OF reach] assms(4)] by simp_all
  have named: "named = request_id" using rest by (auto simp: lift_def split: if_splits)
  then obtain res where q: "queue_decision X S request_id fp decision (tn_now (nth_turn 2 w)) (tn_clock (nth_turn 2 w)) (seen 3 w)
      = Inr (res, sv_db w')" and ok: "res \<noteq> Conflict" "sv_turn w' = sv_turn w + 3"
    using rest unfolding api_queue_decision_def p(1) by (auto elim!: queued_decision simp: eval_nat_numeral)
  obtain raw where raw: "sx_decision_to_vec S decision = Inr raw"
    "decided X S RequestRows request_id fp raw (tn_now (nth_turn 2 w)) res (seen 3 w) (sv_db w')"
    by (rule queue_decision_decided [OF q])
  show ?thesis using named p(2) ok(2) raw(1) decided_entitled [OF reach raw(2) ok(1)] by blast
qed

lemma browser_authenticated:
  assumes "authenticate_webauthn X S H request_id headers a w = (Inr c, w')"
    and "reachable X S (sv_db w)" "others_keep (reachable X S) w" "body_json_roundtrip S H" and fp: "fp = aaw_device_fingerprint a"
  shows "aaw_request_id a = request_id \<and> presented X H headers AuthRows request_id fp (tn_now (nth_turn 1 w)) (seen 2 w) \<and>
    sv_turn w' = sv_turn w + 3 \<and> entitled S AuthRows request_id fp (tn_now (nth_turn 2 w)) (seen 3 w) \<and>
    (\<exists>raw. sx_auth_decision_to_vec S (AuthenticateWebauthn a) = Inr raw \<and> slot_of (sv_db w') AuthRows request_id = Decided (sha256 X raw))"
proof -
  note reach = seen_keeps [OF assms(3,2)]
  let ?Q = "\<lambda>t. queue_auth_decision X S request_id fp (AuthenticateWebauthn a) (tn_now t) (tn_clock t)"
  have "then_do (authorize_auth_request X H request_id headers fp) (\<lambda>_. if aaw_request_id a \<noteq> request_id then lift (Inl CONFLICT)
      else then_do (transact ?Q) (\<lambda>result. lift (decision_status result))) w = (Inr c, w')"
    using assms(1) unfolding authenticate_webauthn_def fp by (auto simp: then_do_lift split: sum.splits)
  then obtain u w1 where w1: "authorize_auth_request X H request_id headers fp w = (Inr u, w1)"
    and rest: "(if aaw_request_id a \<noteq> request_id then lift (Inl CONFLICT)
      else then_do (transact ?Q) (\<lambda>result. lift (decision_status result))) w1 = (Inr c, w')"
    by (auto elim!: then_do_E)
  have p: "w1 = after_reads 2 w" "presented X H headers AuthRows request_id fp (tn_now (nth_turn 1 w)) (seen 2 w)"
    using authorize_auth_request_presented [OF w1 reachable_named [OF reach] assms(4)] by simp_all
  have named: "aaw_request_id a = request_id" using rest by (auto simp: lift_def split: if_splits)
  then obtain res where q: "?Q (nth_turn 2 w) (seen 3 w) = Inr (res, sv_db w')" and ok: "res \<noteq> Conflict" "sv_turn w' = sv_turn w + 3"
    using rest unfolding p(1) by (auto elim!: queued_decision simp: eval_nat_numeral)
  obtain raw where raw: "sx_auth_decision_to_vec S (AuthenticateWebauthn a) = Inr raw"
    "decided X S AuthRows request_id fp raw (tn_now (nth_turn 2 w)) res (seen 3 w) (sv_db w')"
    by (rule queue_auth_decision_decided [OF q])
  show ?thesis using named p(2) ok(2) raw(1) decided_entitled [OF reach raw(2) ok(1)] by blast
qed

text \<open>The tool lane: the signature is verified here too, against the record the store holds of the device.\<close>

definition tool_verified :: "crates \<Rightarrow> AppState \<Rightarrow> ToolDecisionSubmission \<Rightarrow> DevicePublicRecordV1 \<Rightarrow> i64 \<Rightarrow> bool" where
  "tool_verified X app s device now \<longleftrightarrow> is_ok (verify_tool_decision_v1 X (tds_decision s) (as_bytes (tds_request_json s)) device
     \<lparr>cf_version = 1, cf_origin = as_origin app, cf_rp_id = as_rp_id app, cf_server_base_url = as_origin app\<rparr> now)"

definition verify_then_queue ::
  "crates \<Rightarrow> server_crates \<Rightarrow> AppState \<Rightarrow> string \<Rightarrow> ToolDecisionSubmission \<Rightarrow> string \<Rightarrow> server \<Rightarrow> (StatusCode + StatusCode) \<times> server" where
  "verify_then_queue X S app request_id s fp =
     then_do (query (\<lambda>t. active_device S fp)) (\<lambda>stored.
     then_do (lift (and_then (internal stored) (\<lambda>device. ok_or device UNAUTHORIZED))) (\<lambda>device.
     then_do read_clock (\<lambda>now.
     then_do (lift (map_err (\<lambda>_. CONFLICT) (verify_tool_decision_v1 X (tds_decision s) (as_bytes (tds_request_json s)) device
        \<lparr>cf_version = 1, cf_origin = as_origin app, cf_rp_id = as_rp_id app, cf_server_base_url = as_origin app\<rparr> now))) (\<lambda>_.
     then_do (transact (\<lambda>t. queue_tool_decision X S request_id fp (tds_decision s) (tn_now t)))
       (\<lambda>result. lift (decision_status result))))))"

lemma verify_then_queue_decided:
  assumes "verify_then_queue X S app request_id s fp (after_reads 2 w) = (Inr c, w')" "others_keep (reachable X S) w" "reachable X S (sv_db w)"
  shows "(\<exists>device. active_device S fp (seen 3 w) = Inr (Some device) \<and> tool_verified X app s device (tn_now (nth_turn 3 w))) \<and>
    sv_turn w' = sv_turn w + 5 \<and> entitled S ToolRows request_id fp (tn_now (nth_turn 4 w)) (seen 5 w) \<and>
    (\<exists>raw. sx_tool_decision_to_vec S (tds_decision s) = Inr raw \<and> slot_of (sv_db w') ToolRows request_id = Decided (sha256 X raw))"
proof -
  note reach = seen_keeps [OF assms(2,3)]
  let ?Q = "\<lambda>t. queue_tool_decision X S request_id fp (tds_decision s) (tn_now t)"
  let ?verify = "\<lambda>device now. verify_tool_decision_v1 X (tds_decision s) (as_bytes (tds_request_json s)) device
    \<lparr>cf_version = 1, cf_origin = as_origin app, cf_rp_id = as_rp_id app, cf_server_base_url = as_origin app\<rparr> now"
  have dev: "query (\<lambda>t. active_device S fp) (after_reads 2 w) = (Inr (active_device S fp (seen 3 w)) :: StatusCode + _, after_reads 3 w)"
    using query_reads [of "\<lambda>t. active_device S fp" 2 w] by (simp add: eval_nat_numeral)
  have clock: "read_clock (after_reads 3 w) = (Inr (tn_now (nth_turn 3 w)) :: StatusCode + i64, after_reads 4 w)"
    using query_reads [of "\<lambda>t _. tn_now t" 3 w] by (simp add: read_clock_def eval_nat_numeral)
  obtain device where device: "active_device S fp (seen 3 w) = Inr (Some device)"
    and rest: "then_do read_clock (\<lambda>now. then_do (lift (map_err (\<lambda>_. CONFLICT) (?verify device now))) (\<lambda>_.
     then_do (transact ?Q) (\<lambda>result. lift (decision_status result)))) (after_reads 3 w) = (Inr c, w')"
    using assms(1) unfolding verify_then_queue_def then_do_def [of "query _"] dev
    by (auto simp: then_do_lift internal_def ok_or_Inr_iff and_then_Inr_iff map_err_Inr_iff split: sum.splits)
  have verified: "tool_verified X app s device (tn_now (nth_turn 3 w))"
    and rest: "then_do (transact ?Q) (\<lambda>result. lift (decision_status result)) (after_reads 4 w) = (Inr c, w')"
    using rest unfolding then_do_def [of read_clock] clock
    by (auto simp: then_do_lift tool_verified_def is_ok_def map_err_def split: sum.splits)
  obtain res where q: "?Q (nth_turn 4 w) (seen 5 w) = Inr (res, sv_db w')" and ok: "res \<noteq> Conflict" "sv_turn w' = sv_turn w + 5"
    using rest by (auto elim!: queued_decision simp: eval_nat_numeral)
  obtain raw where raw: "sx_tool_decision_to_vec S (tds_decision s) = Inr raw"
    "decided X S ToolRows request_id fp raw (tn_now (nth_turn 4 w)) res (seen 5 w) (sv_db w')"
    by (rule queue_tool_decision_decided [OF q])
  show ?thesis using device verified ok(2) raw(1) decided_entitled [OF reach raw(2) ok(1)] by blast
qed

lemma tool_decided:
  assumes "submit_tool_decision X S H app request_id headers s w = (Inr c, w')"
    and "reachable X S (sv_db w)" "others_keep (reachable X S) w" "body_json_roundtrip S H"
    and a: "a = ToolApprovalDecisionV1_assertion (tds_decision s)" and fp: "fp = tw_device_fingerprint a"
  shows "tw_request_id a = request_id \<and> presented X H headers ToolRows request_id fp (tn_now (nth_turn 1 w)) (seen 2 w) \<and>
    (\<exists>device. active_device S fp (seen 3 w) = Inr (Some device) \<and> tool_verified X app s device (tn_now (nth_turn 3 w))) \<and>
    sv_turn w' = sv_turn w + 5 \<and> entitled S ToolRows request_id fp (tn_now (nth_turn 4 w)) (seen 5 w) \<and>
    (\<exists>raw. sx_tool_decision_to_vec S (tds_decision s) = Inr raw \<and> slot_of (sv_db w') ToolRows request_id = Decided (sha256 X raw))"
proof -
  note reach = seen_keeps [OF assms(3,2)]
  let ?after_token = "\<lambda>token. then_do (sealed_tool_for X S request_id token) (\<lambda>request.
     then_do (lift (internal (hx_tool_body_from_slice H (sq_body_json request)))) (\<lambda>sealed.
     if tb_device_fingerprint sealed \<noteq> fp then lift (Inl UNAUTHORIZED)
     else verify_then_queue X S app request_id s (tb_device_fingerprint sealed)))"
  have named: "tw_request_id a = request_id"
    using assms(1) unfolding submit_tool_decision_def Let_def a by (auto simp: then_do_lift lift_def split: sum.splits if_splits)
  have run: "then_do (require_pending_tool request_id) (\<lambda>_. then_do (lift (bearer_token H headers)) ?after_token) w = (Inr c, w')"
    using assms(1) named unfolding submit_tool_decision_def Let_def a fp verify_then_queue_def by (auto simp: then_do_lift split: sum.splits)
  obtain token where tok: "bearer_token H headers = Inr token" and rest: "?after_token token (after_reads 1 w) = (Inr c, w')"
    using run
  proof (cases rule: then_do_E)
    case (went_on u w1)
    then have "w1 = after_reads 1 w" using require_pending_reads(3) [of request_id 0 w, unfolded after_reads_0] by auto
    then show ?thesis using that went_on(2) by (auto simp: then_do_lift split: sum.splits)
  qed simp
  obtain q sealed where q: "sealed_tool_request_for_token X S request_id (as_bytes token) (tn_now (nth_turn 1 w)) (seen 2 w) = Some q"
    and b: "hx_tool_body_from_slice H (sq_body_json q) = Inr sealed" "tb_device_fingerprint sealed = fp"
    and tail: "verify_then_queue X S app request_id s fp (after_reads 2 w) = (Inr c, w')"
    using rest
    by (auto simp: then_do_lift internal_def map_err_Inr_iff lift_def sealed_for_reads numeral_2_eq_2 elim!: then_do_E split: sum.splits if_splits)
  have "presented X H headers ToolRows request_id fp (tn_now (nth_turn 1 w)) (seen 2 w)"
    by (rule sealed_presented [OF q [unfolded sealed_tool_request_for_token_def] _ tok])
      (use body_names_device(2) [OF reachable_named [OF reach] assms(4), of _ _ ToolRows] b in auto)
  then show ?thesis using named verify_then_queue_decided [OF tail assms(3,2)] by blast
qed

text \<open>C18: no decision over HTTP without a recipient's token. When any of the four decision routes answers 202, the decision names
  the request of its path. In the store and at the clock reading of the call's second turn, the caller's bearer token was that of an
  active device, the very device the decision names, with a sealed body of the request, which was open. On the tool lane the
  assertion verified, at the fourth turn's time, under the record of the active device in the store of the third turn. At the turn
  that recorded it the request was still unexpired in the store and the device still an active recipient of a kind that may decide.
  The request is now decided by exactly these bytes. The stores are those of this run, with what other tasks did between turns.\<close>

theorem decision_needs_token_of_recipient:
  assumes "reachable X S (sv_db w)" "others_keep (reachable X S) w" "body_json_roundtrip S H"
    and "api X S H app headers call w = (Inr (Status ACCEPTED), w')"
    and "decision_of S call = Some (lane, request_id, named, fp, bytes)"
  shows "named = request_id \<and> presented X H headers lane request_id fp (tn_now (nth_turn 1 w)) (seen 2 w) \<and>
    (\<forall>s. call = DecideTool request_id s \<longrightarrow> (\<exists>device. active_device S fp (seen 3 w) = Inr (Some device) \<and>
       tool_verified X app s device (tn_now (nth_turn 3 w)))) \<and>
    (\<exists>n. sv_turn w' = sv_turn w + Suc n \<and> entitled S lane request_id fp (tn_now (nth_turn n w)) (seen (Suc n) w)) \<and>
    (\<exists>raw. bytes = Inr raw \<and> slot_of (sv_db w') lane request_id = Decided (sha256 X raw))"
proof -
  have last: "\<exists>n. sv_turn w' = sv_turn w + Suc n \<and> entitled S lane request_id fp (tn_now (nth_turn n w)) (seen (Suc n) w)"
    if "sv_turn w' = sv_turn w + 3 \<and> entitled S lane request_id fp (tn_now (nth_turn 2 w)) (seen 3 w) \<or>
      sv_turn w' = sv_turn w + 5 \<and> entitled S lane request_id fp (tn_now (nth_turn 4 w)) (seen 5 w)"
  proof -
    have "(3 :: nat) = Suc 2" "(5 :: nat) = Suc 4" by simp_all
    with that show ?thesis by metis
  qed
  have run: "\<exists>c. m w = (Inr c, w')" if "replying Status m w = (Inr (Status ACCEPTED), w')" for m
    using that by (auto simp: replying_def elim!: then_do_E dest!: lift_unchanged)
  show ?thesis
  proof (cases call)
    case (ApproveRequest i a)
    then obtain c where "approve_request X S H i headers a w = (Inr c, w')" using run assms(4) by auto
    then have "then_do (authorize_request X H i headers (ap_device_fingerprint a)) (\<lambda>_. if ap_request_id a \<noteq> i then lift (Inl CONFLICT)
        else api_queue_decision X S i (ap_device_fingerprint a) (Approve a)) w = (Inr c, w')"
      unfolding approve_request_def by (auto simp: then_do_lift split: sum.splits)
    from command_decided [OF this assms(1-3)] show ?thesis using ApproveRequest assms(5) last by auto
  next
    case (DenyRequest i a)
    then obtain c where "deny_request X S H i headers a w = (Inr c, w')" using run assms(4) by auto
    then have "then_do (authorize_request X H i headers (dn_device_fingerprint a)) (\<lambda>_. if dn_request_id a \<noteq> i then lift (Inl CONFLICT)
        else api_queue_decision X S i (dn_device_fingerprint a) (Deny a)) w = (Inr c, w')"
      unfolding deny_request_def by (auto simp: then_do_lift split: sum.splits)
    from command_decided [OF this assms(1-3)] show ?thesis using DenyRequest assms(5) last by auto
  next
    case (AuthenticateBrowser i a)
    then obtain c where "authenticate_webauthn X S H i headers a w = (Inr c, w')" using run assms(4) by auto
    from browser_authenticated [OF this assms(1-3) refl] show ?thesis using AuthenticateBrowser assms(5) last by auto
  next
    case (DecideTool i s)
    then obtain c where "submit_tool_decision X S H app i headers s w = (Inr c, w')" using run assms(4) by auto
    from tool_decided [OF this assms(1-3) refl refl] show ?thesis using DecideTool assms(5) last by (auto simp: Let_def)
  qed (use assms(5) in simp_all)
qed

section \<open>Rejections\<close>

text \<open>No other task touches the store.\<close>

definition alone :: "server \<Rightarrow> bool" where
  "alone w \<longleftrightarrow> (\<forall>i. tn_others (sv_turns w i) = id)"

definition silent :: "(server \<Rightarrow> ('e + 'a) \<times> server) \<Rightarrow> bool" where
  "silent m \<longleftrightarrow> (\<forall>w r w'. m w = (r, w') \<longrightarrow> alone w \<longrightarrow>
     sv_db w' = sv_db w \<and> sv_published w' = sv_published w \<and> sv_turns w' = sv_turns w)"

definition clean_reject :: "(server \<Rightarrow> (StatusCode + 'a) \<times> server) \<Rightarrow> bool" where
  "clean_reject m \<longleftrightarrow> (\<forall>w e w'. m w = (Inl e, w') \<longrightarrow> alone w \<longrightarrow> db_ok (sv_db w) \<longrightarrow>
     sv_db w' = sv_db w \<and> (e \<noteq> SERVICE_UNAVAILABLE \<longrightarrow> sv_published w' = sv_published w))"

named_theorems reject_intros \<open>handlers that change nothing when they reject\<close>

lemma silent_lift [reject_intros]: "silent (lift m)"
  by (simp add: silent_def lift_def)

lemma silent_query [reject_intros]: "silent (query f)"
  unfolding silent_def by (auto simp: alone_def elim!: query_E)

lemma silent_read_clock [reject_intros]: "silent read_clock"
  unfolding read_clock_def by (rule silent_query)

lemma silent_then_do [reject_intros]:
  assumes "silent m" "\<And>x. silent (f x)"
  shows "silent (then_do m f)"
  using assms unfolding silent_def alone_def by (fastforce elim!: then_do_E)

lemma silent_require [reject_intros]:
  "silent (require_pending i)" "silent (require_pending_tool i)" "silent (require_pending_auth i)"
  "silent (sealed_for X i token)" "silent (sealed_auth_for X i token)" "silent (sealed_tool_for X S i token)"
  unfolding require_pending_def require_pending_tool_def require_pending_auth_def sealed_for_def sealed_auth_for_def sealed_tool_for_def
  by (intro reject_intros)+

lemma silent_authorize [reject_intros]:
  "silent (authorize_request X H i headers fp)" "silent (authorize_auth_request X H i headers fp)"
  unfolding authorize_request_def authorize_auth_request_def by (intro reject_intros)+

lemma clean_reject_silent: "silent m \<Longrightarrow> clean_reject m"
  unfolding silent_def clean_reject_def by blast

lemma clean_reject_lift [reject_intros]: "clean_reject (lift m)"
  by (simp add: clean_reject_def lift_def)

lemma clean_reject_if [reject_intros]: "clean_reject m \<Longrightarrow> clean_reject n \<Longrightarrow> clean_reject (if c then m else n)"
  by simp

lemma clean_reject_then_do [reject_intros]:
  assumes "silent m" "\<And>x. clean_reject (f x)"
  shows "clean_reject (then_do m f)"
  unfolding clean_reject_def
proof (intro allI impI)
  fix w e w' assume run: "then_do m f w = (Inl e, w')" and w: "alone w" "db_ok (sv_db w)"
  from run show "sv_db w' = sv_db w \<and> (e \<noteq> SERVICE_UNAVAILABLE \<longrightarrow> sv_published w' = sv_published w)"
  proof (cases rule: then_do_E)
    case (failed e')
    then show ?thesis using assms(1) w unfolding silent_def by blast
  next
    case (went_on x w1)
    then have same: "sv_db w1 = sv_db w" "sv_published w1 = sv_published w" "sv_turns w1 = sv_turns w"
      using assms(1) w(1) unfolding silent_def by blast+
    then have "alone w1" "db_ok (sv_db w1)" using w by (simp_all add: alone_def)
    then show ?thesis using assms(2) went_on(2) same unfolding clean_reject_def by metis
  qed
qed

lemma clean_reject_transact:
  assumes "\<And>t d a d' e. db_ok d \<Longrightarrow> Q t d = Inr (a, d') \<Longrightarrow> g (Inr a) = Inl e \<Longrightarrow> d' = d"
  shows "clean_reject (then_do (transact Q) (\<lambda>result. lift (g result)))"
  unfolding clean_reject_def
proof (intro allI impI)
  fix w e w' assume run: "then_do (transact Q) (\<lambda>result. lift (g result)) w = (Inl e, w')" and w: "alone w" "db_ok (sv_db w)"
  then obtain result where t: "transact Q w = (Inr result :: StatusCode + _, w')" and g: "g result = Inl e"
    by (elim then_do_E) (auto elim: transact_E dest: lift_unchanged)
  from t show "sv_db w' = sv_db w \<and> (e \<noteq> SERVICE_UNAVAILABLE \<longrightarrow> sv_published w' = sv_published w)"
  proof (cases rule: transact_E)
    case (failed t e')
    then show ?thesis using w by (simp add: alone_def)
  next
    case (ran t a)
    then have "Q t (sv_db w) = Inr (a, sv_db w')" "g (Inr a) = Inl e" using w g by (simp_all add: alone_def)
    then show ?thesis using assms [OF w(2)] ran(4) by blast
  qed
qed

lemma clean_reject_publish [reject_intros]:
  "clean_reject (then_do (nats_publish SERVICE_UNAVAILABLE subject payload) (\<lambda>_. lift (Inr c)))"
  by (auto simp: clean_reject_def nats_publish_def then_do_def lift_def Let_def split: if_splits)

lemma decided_Conflict: "decided X S lane request_id fp raw now Conflict d d' \<Longrightarrow> d' = d"
  by (auto simp: decided_def split: if_splits)

lemma queue_Conflict:
  "queue_decision X S i fp decision now clock d = Inr (Conflict, d') \<Longrightarrow> d' = d"
  "queue_auth_decision X S i fp adec now clock d = Inr (Conflict, d') \<Longrightarrow> d' = d"
  "queue_tool_decision X S i fp tdec now d = Inr (Conflict, d') \<Longrightarrow> d' = d"
  "submit_enrollment X S i sub now clock d = Inr (Conflict, d') \<Longrightarrow> d' = d"
proof -
  show "queue_decision X S i fp decision now clock d = Inr (Conflict, d') \<Longrightarrow> d' = d"
    by (erule queue_decision_decided) (rule decided_Conflict)
  show "queue_auth_decision X S i fp adec now clock d = Inr (Conflict, d') \<Longrightarrow> d' = d"
    by (erule queue_auth_decision_decided) (rule decided_Conflict)
  show "queue_tool_decision X S i fp tdec now d = Inr (Conflict, d') \<Longrightarrow> d' = d"
    by (erule queue_tool_decision_decided) (rule decided_Conflict)
  show "d' = d" if submitted: "submit_enrollment X S i sub now clock d = Inr (Conflict, d')"
  proof -
    obtain raw row where "sx_submission_to_vec S sub = Inr raw" "stored_enrollment d i = Some row"
      using submitted by (cases "stored_enrollment d i") (auto simp: submit_enrollment_def Let_def and_then_Inr_iff)
    with submitted show ?thesis
      by (cases "er_submission_hash row") (auto simp: submit_enrollment_def Let_def map_ok_Inr_iff split: if_splits)
  qed
qed

lemma status_Inl: "decision_status (Inr a) = Inl e \<Longrightarrow> a = Conflict" "submission_status (Inr a) = Inl e' \<Longrightarrow> a = Conflict"
  by (cases a; simp)+

lemma clean_decisions [reject_intros]:
  "clean_reject (then_do (transact (\<lambda>t. queue_decision X S i fp decision (tn_now t) (tn_clock t))) (\<lambda>result. lift (decision_status result)))"
  "clean_reject (then_do (transact (\<lambda>t. queue_auth_decision X S i fp adec (tn_now t) (tn_clock t))) (\<lambda>result. lift (decision_status result)))"
  "clean_reject (then_do (transact (\<lambda>t. queue_tool_decision X S i fp tdec (tn_now t))) (\<lambda>result. lift (decision_status result)))"
  "clean_reject (then_do (transact (\<lambda>t. submit_enrollment X S i sub (tn_now t) (tn_clock t))) (\<lambda>result. lift (submission_status result)))"
  by (rule clean_reject_transact, blast dest: status_Inl queue_Conflict)+

lemma clean_register [reject_intros]:
  "clean_reject (then_do (transact Q) (\<lambda>result. lift (map_err registration_status result)))"
  by (rule clean_reject_transact) simp

lemma update_where_none: "\<forall>r \<in> set rows. \<not> p r \<Longrightarrow> update_where p f rows = rows"
  by (simp add: update_where_def map_idI)

lemma delete_nothing:
  assumes "db_ok d" "delete_push_subscription X S token sid now d = Inr (False, d')"
  shows "d' = d"
proof -
  define mine where "mine s \<longleftrightarrow> su_id s = sid \<and> su_disabled_at s = None \<and>
    (\<exists>v \<in> set (db_devices d). de_fingerprint v = su_device_fingerprint s \<and> de_api_token_hash v = sha256 X token \<and> de_active v)" for s :: subscription_row
  have n: "length (filter mine (db_subscriptions d)) \<noteq> 1"
    and d': "d' = (if length (filter mine (db_subscriptions d)) \<noteq> 0 then abandon_ineligible_pushes now
       (d\<lparr>db_subscriptions := update_where mine (\<lambda>s. s\<lparr>su_disabled_at := Some now, su_updated_at := now\<rparr>) (db_subscriptions d)\<rparr>)
     else d\<lparr>db_subscriptions := update_where mine (\<lambda>s. s\<lparr>su_disabled_at := Some now, su_updated_at := now\<rparr>) (db_subscriptions d)\<rparr>)"
    using assms(2) by (auto simp: delete_push_subscription_def Let_def changed_def mine_def [abs_def] split: if_splits)
  have "distinct (map su_id (db_subscriptions d))" using assms(1) by (simp add: db_ok_def subscriptions_ok_def)
  then have "distinct (map su_id (filter mine (db_subscriptions d)))" by (rule distinct_map_filter)
  moreover have "\<forall>x \<in> set (map su_id (filter mine (db_subscriptions d))). x = sid" by (simp add: mine_def)
  ultimately have "length (filter mine (db_subscriptions d)) \<le> 1"
    using card_mono [of "{sid}" "set (map su_id (filter mine (db_subscriptions d)))"] distinct_card by fastforce
  with n have "filter mine (db_subscriptions d) = []" by (cases "filter mine (db_subscriptions d)") auto
  then show ?thesis unfolding d' by (simp add: update_where_none filter_empty_conv)
qed

lemma clean_delete [reject_intros]: "clean_reject (api_delete_push_subscription X S H sid headers)"
proof -
  let ?e = "\<lambda>e. if str_contains ''active WebAuthn'' e then UNAUTHORIZED else INTERNAL_SERVER_ERROR"
  have eq: "then_do (lift (map_err ?e result)) (\<lambda>deleted. lift (if deleted then Inr NO_CONTENT else Inl NOT_FOUND))
      = lift (and_then (map_err ?e result) (\<lambda>deleted. if deleted then Inr NO_CONTENT else Inl NOT_FOUND))" for result
    by (rule ext) (simp add: then_do_lift and_then_def lift_def split: sum.split)
  show ?thesis unfolding api_delete_push_subscription_def eq
    by (intro clean_reject_then_do silent_lift clean_reject_transact) (auto split: if_splits dest: delete_nothing)
qed

lemma clean_replying [reject_intros]: "clean_reject m \<Longrightarrow> clean_reject (replying f m)"
  unfolding clean_reject_def replying_def by (auto simp: lift_def elim!: then_do_E)

text \<open>C36: a rejected call changes nothing. When no other task runs, a call of the API that answers with an error leaves the store
  exactly as it was, and nothing was handed to the broker unless the broker itself failed (503).\<close>

theorem rejected_call_changes_nothing:
  assumes "reachable X S (sv_db w)" "alone w" "api X S H app headers call w = (Inl status, w')"
  shows "sv_db w' = sv_db w \<and> (status \<noteq> SERVICE_UNAVAILABLE \<longrightarrow> sv_published w' = sv_published w)"
proof -
  have health: "silent (health app)"
    unfolding health_def Let_def by (intro silent_then_do silent_read_clock) (simp add: silent_def)
  have "clean_reject (api X S H app headers call)"
    by (cases call)
      (auto simp: get_request_def get_tool_request_def get_auth_request_def acknowledge_request_def
        acknowledge_tool_request_def acknowledge_auth_request_def approve_request_def deny_request_def authenticate_webauthn_def
        submit_tool_decision_def api_queue_decision_def
        api_recorded_verdict_def api_recorded_auth_verdict_def api_submit_enrollment_def api_enrollment_status_def get_device_def
        api_push_status_def register_push_subscription_def Let_def
        intro!: reject_intros clean_reject_silent [OF health])
  then show ?thesis using assms(3,2) reachable_ok [OF assms(1)] unfolding clean_reject_def by blast
qed

section \<open>A recipient is heard\<close>

lemma alone_turn [simp]: "alone (w\<lparr>sv_turn := n\<rparr>) = alone w"
  by (simp add: alone_def)

lemma query_alone: "alone w \<Longrightarrow> query f w = (Inr (f (sv_turns w (sv_turn w)) (sv_db w)), w\<lparr>sv_turn := sv_turn w + 1\<rparr>)"
  by (cases w) (simp add: query_def store_def alone_def)

lemma open_request:
  assumes "db_ok d" "request_open d lane request_id now"
  obtains r where "stored_request d lane request_id = Some r" "rr_state r = ''pending''" "now < rr_expires_at r"
    "lifecycle_of lane request_id now d = Some LifecyclePending"
proof -
  obtain r where r: "r \<in> set (db_requests d lane)" "rr_id r = request_id" "rr_state r = ''pending''" "now < rr_expires_at r"
    using assms(2) by (auto simp: request_open_def)
  then obtain q where q: "stored_request d lane request_id = Some q"
    using stored_request_None [of d lane request_id] by (cases "stored_request d lane request_id") auto
  have "q \<in> set (db_requests d lane)" "rr_id q = request_id" using find_Some_in_set [OF q [unfolded stored_request_def]] by simp_all
  moreover have "distinct (map rr_id (db_requests d lane))" using assms(1) by (simp add: db_ok_def requests_ok_def)
  ultimately have "q = r" using r(1,2) by (auto simp: distinct_map inj_on_def)
  then show ?thesis using that q r(3,4) by (simp add: lifecycle_of_def)
qed

lemma presented_sealed:
  assumes "db_ok d" "bodies_named S d" "body_json_roundtrip S H" "presented X H headers lane request_id fp now d" "lane \<noteq> ToolRows"
  obtains token s sealed where "bearer_token H headers = Inr token"
    "sealed_row d lane (\<lambda>v. de_api_token_hash v = sha256 X (as_bytes token)) request_id now = Some s"
    "hx_body_from_slice H (sq_body_json s) = Inr sealed" "sb_device_fingerprint sealed = fp"
proof -
  obtain token v where tok: "bearer_token H headers = Inr token" and v: "v \<in> set (db_devices d)" "de_active v"
      "de_api_token_hash v = sha256 X (as_bytes token)" "de_fingerprint v = fp"
    and "request_open d lane request_id now" "has_body d lane request_id fp"
    using assms(4) unfolding presented_def bearer_token_Inr by blast
  then obtain r b where rb: "r \<in> set (db_requests d lane)" "rr_id r = request_id" "rr_state r = ''pending''" "now < rr_expires_at r"
      "b \<in> set (db_bodies d lane)" "br_request_id b = request_id" "br_fingerprint b = fp"
    by (auto simp: request_open_def has_body_def)
  let ?ok = "\<lambda>v. de_api_token_hash v = sha256 X (as_bytes token)"
  let ?rows = "filter (\<lambda>(r, b, v). rr_id r = request_id \<and> rr_state r = ''pending'' \<and> rr_expires_at r > now
          \<and> br_request_id b = rr_id r \<and> de_fingerprint v = br_fingerprint b \<and> de_active v \<and> ?ok v)
        (List.product (db_requests d lane) (List.product (db_bodies d lane) (db_devices d)))"
  have "(r, b, v) \<in> set ?rows" using rb v by auto
  then have "?rows \<noteq> []" by (metis empty_iff empty_set)
  then obtain y ys where "?rows = y # ys" unfolding neq_Nil_conv by blast
  then obtain s where s: "sealed_row d lane ?ok request_id now = Some s"
    unfolding sealed_row_def by (cases y) auto
  obtain b' v' where x: "b' \<in> set (db_bodies d lane)" "v' \<in> set (db_devices d)" "br_fingerprint b' = de_fingerprint v'" "?ok v'"
      "sq_body_json s = br_body_json b'"
    using sealed_row_Some [OF s] by auto
  have "distinct (map de_api_token_hash (db_devices d))" using assms(1) by (simp add: db_ok_def devices_ok_def)
  then have "v' = v" using v(1,3) x(2,4) by (auto simp: distinct_map inj_on_def)
  then have fp: "br_fingerprint b' = fp" using x(3) v(4) by simp
  obtain body where "hx_body_from_slice H (br_body_json b') = Inr body"
    using assms(2,3,5) x(1) by (fastforce simp: bodies_named_def body_of_def body_json_roundtrip_def)
  moreover from this have "sb_device_fingerprint body = fp" using body_names_device(1) [OF assms(2,3) x(1) assms(5)] fp by simp
  ultimately show ?thesis using that [OF tok s] x(5) by simp
qed

lemma authorize_alone:
  assumes "reachable X S (sv_db w)" "alone w" "body_json_roundtrip S H"
    and "\<And>k. presented X H headers AuthRows request_id fp (tn_now (sv_turns w k)) (sv_db w)"
  shows "authorize_auth_request X H request_id headers fp w = (Inr (), w\<lparr>sv_turn := sv_turn w + 2\<rparr>)"
proof -
  let ?now = "\<lambda>k. tn_now (sv_turns w k)"
  note ok = reachable_ok [OF assms(1)]
  have opened: "request_open (sv_db w) AuthRows request_id (?now k)" for k using assms(4) by (simp add: presented_def)
  have life: "auth_request_lifecycle request_id (?now k) (sv_db w) = Some LifecyclePending" for k
    unfolding auth_request_lifecycle_def by (rule open_request [OF ok opened [of k]])
  obtain token s sealed where x: "bearer_token H headers = Inr token"
      "sealed_row (sv_db w) AuthRows (\<lambda>v. de_api_token_hash v = sha256 X (as_bytes token)) request_id (?now (sv_turn w + 1)) = Some s"
      "hx_body_from_slice H (sq_body_json s) = Inr sealed" "sb_device_fingerprint sealed = fp"
    by (rule presented_sealed [OF ok reachable_named [OF assms(1)] assms(3,4)]) simp
  show ?thesis
    using assms(2) life x
    by (simp add: authorize_auth_request_def require_pending_auth_def sealed_auth_for_def then_do_def lift_def query_alone internal_def
        sealed_auth_request_for_token_def ok_or_def map_err_def)
qed

lemma recipient_accepted:
  assumes "reachable X S (sv_db w)" "alone w" "body_json_roundtrip S H"
    and "\<And>k. presented X H headers AuthRows request_id (aaw_device_fingerprint a) (tn_now (sv_turns w k)) (sv_db w)"
    and "\<And>v. v \<in> set (db_devices (sv_db w)) \<Longrightarrow> de_fingerprint v = aaw_device_fingerprint a \<Longrightarrow> may_decide S AuthRows v"
    and "AuthApproveWebauthnV1_validate_shape X a = Inr ()" "aaw_request_id a = request_id"
    and "sx_auth_decision_to_vec S (AuthenticateWebauthn a) = Inr raw" "recorded_auth_verdict request_id (sv_db w) = None"
  shows "\<exists>w'. api X S H app headers (AuthenticateBrowser request_id a) w = (Inr (Status ACCEPTED), w') \<and>
    recorded_auth_verdict request_id (sv_db w') = Some raw"
proof -
  let ?d = "sv_db w" and ?fp = "aaw_device_fingerprint a" and ?t = "sv_turns w (sv_turn w + 2)"
  note ok = reachable_ok [OF assms(1)]
  have p: "presented X H headers AuthRows request_id ?fp (tn_now ?t) ?d" by (rule assms(4))
  then have opened: "request_open ?d AuthRows request_id (tn_now ?t)" and body: "has_body ?d AuthRows request_id ?fp"
    by (simp_all add: presented_def)
  obtain r where r: "stored_request ?d AuthRows request_id = Some r" "rr_state r = ''pending''" "tn_now ?t < rr_expires_at r"
    by (rule open_request [OF ok opened])
  have owns: "owns ?d AuthRows (\<lambda>v. stored_kind S v \<in> {''webauthn'', ''secure-enclave''}) request_id ?fp"
  proof -
    obtain v b where v: "v \<in> set (db_devices ?d)" "de_active v" "de_fingerprint v = ?fp"
      and b: "b \<in> set (db_bodies ?d AuthRows)" "br_request_id b = request_id" "br_fingerprint b = ?fp"
      using p unfolding presented_def has_body_def by blast
    have "stored_kind S v \<in> {''webauthn'', ''secure-enclave''}" using assms(5) [OF v(1,3)] by (simp add: may_decide_def)
    then show ?thesis unfolding owns_def using v b by metis
  qed
  have free: "\<not> outbox_has ''auth_decision'' request_id (resolve_request AuthRows request_id hash at ?d)" for hash at
    using assms(9) ok retained_payload_iff [of ?d "''auth_decision''" request_id]
    by (auto simp: recorded_auth_verdict_def outbox_has_def resolve_request_def db_ok_def)
  define d' where "d' = outbox_append ''auth_decision'' request_id (''oshioki.verdict.'' @ request_id) raw (tn_clock ?t) None
      (resolve_request AuthRows request_id (sha256 X raw) (tn_clock ?t) ?d)"
  have q: "queue_auth_decision X S request_id ?fp (AuthenticateWebauthn a) (tn_now ?t) (tn_clock ?t) ?d = Inr (Inserted, d')"
    using r owns free assms(8) by (simp add: queue_auth_decision_def outbox_insert_def d'_def)
  have "authenticate_webauthn X S H request_id headers a w
      = (Inr ACCEPTED, w\<lparr>sv_turn := sv_turn w + 3, sv_db := d'\<rparr>)"
    using assms(2,6,7) q authorize_alone [OF assms(1-4)]
    by (simp add: authenticate_webauthn_def then_do_def lift_def transact_def store_def alone_def)
  then have "api X S H app headers (AuthenticateBrowser request_id a) w = (Inr (Status ACCEPTED), w\<lparr>sv_turn := sv_turn w + 3, sv_db := d'\<rparr>)"
    by (simp add: replying_def then_do_def lift_def)
  moreover have "outbox_ok d'" using db_step_ok [OF db_step.auth_decision [OF q] ok] by (simp add: db_ok_def)
  then have "recorded_auth_verdict request_id d' = Some raw"
    unfolding recorded_auth_verdict_def by (subst retained_payload_iff) (auto simp: d'_def outbox_append_def)
  ultimately show ?thesis by auto
qed


section \<open>A browser that answers\<close>

definition sample_turn :: turn where
  "sample_turn = \<lparr>tn_now = 1020, tn_clock = 1020, tn_others = id, tn_fresh = ''f'', tn_candidate = ''c'', tn_sent = True\<rparr>"

definition sample_web :: server where
  "sample_web = \<lparr>sv_db = sample_asked, sv_turns = (\<lambda>_. sample_turn), sv_turn = 0, sv_published = [],
     sv_consumer_last_ok = 1000, sv_outbox_last_ok = 1000, sv_push_worker_last_ok = 1000\<rparr>"

definition sample_http :: http_crates where
  "sample_http = \<lparr>hx_header_to_str = (\<lambda>_. Some (''Bearer '' @ replicate 32 (CHR 0x06))),
     hx_body_from_slice = (\<lambda>_. Inr (hd (ae_sealed sample_auth_envelope))), hx_tool_body_from_slice = (\<lambda>_. Inl ''no value''),
     hx_alive_to_vec = (\<lambda>_. Inr [1]), hx_tool_ack_to_vec = (\<lambda>_. Inr [1])\<rparr>"

definition sample_headers :: "string \<Rightarrow> bytes option" where
  "sample_headers = [''authorization'' \<mapsto> [1]]"

definition sample_app :: AppState where
  "sample_app = \<lparr>as_origin = ''https://o'', as_rp_id = ''o'', as_ntfy_url = Some ''n'',
     as_vapid = \<lparr>vc_private_key = [1], vc_public_key = ''k'', vc_subject = ''s''\<rparr>\<rparr>"

definition sample_assertion :: AuthApproveWebauthnV1 where
  "sample_assertion = \<lparr>aaw_version = 2, aaw_request_id = ''r1'', aaw_device_fingerprint = sample_member,
     aaw_credential_id = sample_encode [1], aaw_authenticator_data = sample_encode (replicate 37 0),
     aaw_client_data_json = sample_encode [1], aaw_signature = sample_encode (replicate 8 0)\<rparr>"

lemma sample_assertion_shape: "AuthApproveWebauthnV1_validate_shape sample_auth sample_assertion = Inr ()"
  by (simp add: AuthApproveWebauthnV1_validate_shape_def sample_assertion_def AUTH_WIRE_VERSION_def) (simp add: sample_native_def)

lemma sample_body_json: "body_json_roundtrip sample_server sample_http"
  by (auto simp: body_json_roundtrip_def sample_http_def sample_server_def split: if_splits) (metis list.sel(1))

lemma sample_token_bytes: "as_bytes (replicate 32 (CHR 0x06)) = replicate 32 6"
  by (simp add: as_bytes_def)

lemma sample_presented: "presented sample_auth sample_http sample_headers AuthRows ''r1'' sample_member 1020 sample_asked"
proof -
  have "request_open sample_asked AuthRows ''r1'' 1020"
    by (simp add: request_open_def sample_asked_def outbox_append_def sample_pending_def)
  moreover have "has_body sample_asked AuthRows ''r1'' sample_member" by (simp add: has_body_def sample_asked_def outbox_append_def)
  moreover have "sample_row \<in> set (db_devices sample_asked)"
    by (simp add: sample_asked_def outbox_append_def sample_subscribed_def sample_enrolled_def)
  moreover have "de_active sample_row" "de_api_token_hash sample_row = sha256 sample_auth (as_bytes (replicate 32 (CHR 0x06)))"
      "de_fingerprint sample_row = sample_member"
    unfolding sample_token_bytes by (simp_all add: sample_row_def)
  moreover have "Option.bind (sample_headers ''authorization'') (hx_header_to_str sample_http) = Some (''Bearer '' @ replicate 32 (CHR 0x06))"
    by (simp add: sample_headers_def sample_http_def)
  ultimately show ?thesis unfolding presented_def by (metis length_replicate order_refl)
qed

lemma sample_web_ready:
  "reachable sample_auth sample_server (sv_db sample_web)" "alone sample_web" "others_keep P sample_web"
  "presented sample_auth sample_http sample_headers AuthRows ''r1'' (aaw_device_fingerprint sample_assertion) (tn_now (sv_turns sample_web k)) (sv_db sample_web)"
  "v \<in> set (db_devices (sv_db sample_web)) \<Longrightarrow> de_fingerprint v = aaw_device_fingerprint sample_assertion \<Longrightarrow>
     may_decide sample_server AuthRows v" "aaw_request_id sample_assertion = ''r1''"
  "recorded_auth_verdict ''r1'' (sv_db sample_web) = None"
  using sample_asked_reachable sample_presented sample_unrecorded
  by (simp_all add: sample_web_def alone_def others_keep_def sample_turn_def sample_assertion_def may_decide_def stored_kind_def
      recorded_auth_verdict_def verdict_kind_def)


theorem decision_needs_token_of_recipient_witness:
  "\<exists>w' :: server. slot_of (sv_db w') AuthRows ''r1'' = Decided (sha256 sample_auth [3]) \<and>
    presented sample_auth sample_http sample_headers AuthRows ''r1'' sample_member 1020 (seen 2 sample_web)"
proof -
  obtain w' where run: "api sample_auth sample_server sample_http sample_app sample_headers (AuthenticateBrowser ''r1'' sample_assertion) sample_web
      = (Inr (Status ACCEPTED), w')"
    using recipient_accepted [OF sample_web_ready(1,2) sample_body_json sample_web_ready(4,5) sample_assertion_shape
        sample_web_ready(6) _ sample_web_ready(7), of "[3]" sample_app] by auto
  have "decision_of sample_server (AuthenticateBrowser ''r1'' sample_assertion) = Some (AuthRows, ''r1'', ''r1'', sample_member, Inr [3])"
    by (simp add: sample_assertion_def)
  moreover have "tn_now (nth_turn 1 sample_web) = 1020" by (simp add: sample_web_def sample_turn_def)
  ultimately show ?thesis using decision_needs_token_of_recipient [OF sample_web_ready(1,3) sample_body_json run] by (metis sum.inject(2))
qed

theorem rejected_call_changes_nothing_witness:
  "\<exists>w'. api sample_auth sample_server sample_http sample_app sample_headers (GetRequest ''r1'') sample_web = (Inl NOT_FOUND, w') \<and>
    sv_db w' = sample_asked \<and> sv_published w' = []"
proof -
  have "request_lifecycle ''r1'' 1020 sample_asked = None"
    by (simp add: request_lifecycle_def lifecycle_of_def stored_request_def sample_asked_def outbox_append_def)
  then have run: "api sample_auth sample_server sample_http sample_app sample_headers (GetRequest ''r1'') sample_web
      = (Inl NOT_FOUND, sample_web\<lparr>sv_turn := 1\<rparr>)"
    by (simp add: replying_def get_request_def require_pending_def then_do_def query_alone sample_web_ready(2) lift_def)
      (simp add: sample_web_def sample_turn_def)
  from rejected_call_changes_nothing [OF sample_web_ready(1,2) run] run show ?thesis by (simp add: sample_web_def)
qed

end
