(* ===== verification/Server_Workers.thy ===== *)
theory Server_Workers
  imports Server_Http Transport_Nats
begin

text \<open>
  The background tasks of the server (\<open>server/src/main.rs\<close>): the consumer of request deliveries with its
  lanes, the enrollment consumer with revocation, the workers of the verdict outbox, of notifications and
  of Web Push, and the policy on push addresses. Each turn of a worker's loop is a function on the server;
  the stream of deliveries, name resolution, the push crates and the answers of providers are arguments.
\<close>

record worker_crates =
  wx_envelope_type :: "bytes \<Rightarrow> string + string option"
  wx_auth_envelope_from_slice :: "bytes \<Rightarrow> string + AuthEnvelopeV1"
  wx_tool_envelope_from_slice :: "bytes \<Rightarrow> string + ToolApprovalEnvelopeV1"
  wx_intent_from_slice :: "bytes \<Rightarrow> string + EnrollmentIntentV1"
  wx_activation_from_slice :: "bytes \<Rightarrow> string + ActivationV1"
  wx_notification_to_vec :: "string \<Rightarrow> string \<Rightarrow> string \<Rightarrow> string + bytes"
  wx_origin :: "string \<Rightarrow> string"
  wx_signing_key :: "bytes \<Rightarrow> bytes option"
  wx_jwt :: "bytes \<Rightarrow> string \<Rightarrow> string \<Rightarrow> nat \<Rightarrow> string option"
  wx_uri_parse :: "string \<Rightarrow> string + unit"
  wx_web_push :: "string \<Rightarrow> bytes \<Rightarrow> bytes \<Rightarrow> bytes \<Rightarrow> nat \<Rightarrow> ((string \<times> bytes) list \<times> bytes) option"
  wx_default_port :: "string \<Rightarrow> nat option"
  wx_public_key :: "bytes \<Rightarrow> bool"

section \<open>Request deliveries\<close>

datatype Ack = Term | AckOk

datatype RequestDeliveryLane = Command | Authentication | Tool

definition envelope_type :: "worker_crates \<Rightarrow> bytes \<Rightarrow> string option" where
  "envelope_type W raw = (case wx_envelope_type W raw of Inl _ \<Rightarrow> None | Inr message_type \<Rightarrow> message_type)"

definition request_delivery_lane :: "worker_crates \<Rightarrow> string \<Rightarrow> bytes \<Rightarrow> RequestDeliveryLane option" where
  "request_delivery_lane W subject raw =
     (let message_type = envelope_type W raw in
      if is_some_and (\<lambda>host. host \<noteq> []) (strip_prefix ''oshioki.request.'' subject) \<and> message_type = None then Some Command
      else if is_some_and (\<lambda>host. host \<noteq> []) (strip_prefix ''oshioki.auth.'' subject) \<and> message_type = Some AUTH_ENVELOPE_TYPE
      then Some Authentication
      else if subject = TOOL_APPROVAL_SUBJECT \<and> message_type = Some TOOL_ENVELOPE_TYPE then Some Tool
      else None)"

text \<open>The acknowledgement of a delivery; when the broker does not confirm it the consumer stops.\<close>

definition acked :: "Ack \<Rightarrow> server \<Rightarrow> (string + Ack) \<times> server" where
  "acked ack w = (if tn_sent (sv_turns w (sv_turn w)) then Inr ack else Inl ''acknowledge'', w\<lparr>sv_turn := sv_turn w + 1\<rparr>)"

definition store_notification ::
  "AppState \<Rightarrow> string \<Rightarrow> string + bytes \<Rightarrow> server \<Rightarrow> (string + unit) \<times> server" where
  "store_notification app request_id payload =
     (case as_ntfy_url app of
        None \<Rightarrow> lift (Inr ())
      | Some endpoint \<Rightarrow>
          then_do (lift payload) (\<lambda>payload.
            store (\<lambda>t d. ((), queue_notification request_id endpoint payload (tn_clock t) d))))"

definition api_queue_notification :: "worker_crates \<Rightarrow> AppState \<Rightarrow> RequestEnvelopeV1 \<Rightarrow> server \<Rightarrow> (string + unit) \<times> server" where
  "api_queue_notification W app envelope =
     store_notification app (en_request_id envelope) (wx_notification_to_vec W (''sudo on '' @ en_host envelope)
       (en_user envelope @ '' requested sudo ('' @ en_request_id envelope @ '')'') (as_origin app @ ''/r/'' @ en_request_id envelope))"

definition queue_auth_notification :: "worker_crates \<Rightarrow> AppState \<Rightarrow> AuthEnvelopeV1 \<Rightarrow> server \<Rightarrow> (string + unit) \<times> server" where
  "queue_auth_notification W app envelope =
     store_notification app (ae_request_id envelope) (wx_notification_to_vec W (''sudo authentication on '' @ ae_host envelope)
       (''sudo is asking for authentication ('' @ ae_request_id envelope @ '')'') (as_origin app @ ''/a/'' @ ae_request_id envelope))"

definition queue_tool_notification :: "worker_crates \<Rightarrow> AppState \<Rightarrow> string \<Rightarrow> server \<Rightarrow> (string + unit) \<times> server" where
  "queue_tool_notification W app request_id =
     store_notification app request_id (wx_notification_to_vec W ''Tool permission request''
       (''Review tool request ('' @ request_id @ '')'') (as_origin app @ ''/t/'' @ request_id))"

text \<open>What the three lanes do with the outcome of an ingestion.\<close>

fun settle :: "(server \<Rightarrow> (string + unit) \<times> server) \<Rightarrow> string + InsertResult \<Rightarrow> server \<Rightarrow> (string + Ack) \<times> server" where
  "settle notify (Inr Inserted) = then_do notify (\<lambda>_. acked AckOk)"
| "settle notify (Inr Identical) = acked AckOk"
| "settle notify (Inr Conflict) = acked Term"
| "settle notify (Inl _) = acked Term"

definition ingest_command_envelope ::
  "crates \<Rightarrow> server_crates \<Rightarrow> worker_crates \<Rightarrow> AppState \<Rightarrow> bytes \<Rightarrow> server \<Rightarrow> (string + Ack) \<times> server" where
  "ingest_command_envelope X S W app raw =
     (case from_slice_envelope X raw of
        Inl _ \<Rightarrow> acked Term
      | Inr envelope \<Rightarrow>
          then_do (transact (\<lambda>t. ingest_request X S raw envelope (tn_now t) (tn_clock t)))
            (settle (api_queue_notification W app envelope)))"

definition ingest_auth_envelope ::
  "crates \<Rightarrow> server_crates \<Rightarrow> worker_crates \<Rightarrow> AppState \<Rightarrow> bytes \<Rightarrow> server \<Rightarrow> (string + Ack) \<times> server" where
  "ingest_auth_envelope X S W app raw =
     (case wx_auth_envelope_from_slice W raw of
        Inl _ \<Rightarrow> acked Term
      | Inr envelope \<Rightarrow>
          then_do (transact (\<lambda>t. ingest_auth_request X S raw envelope (tn_now t) (tn_clock t)))
            (settle (queue_auth_notification W app envelope)))"

definition ingest_tool_envelope ::
  "crates \<Rightarrow> server_crates \<Rightarrow> worker_crates \<Rightarrow> AppState \<Rightarrow> bytes \<Rightarrow> server \<Rightarrow> (string + Ack) \<times> server" where
  "ingest_tool_envelope X S W app raw =
     (case wx_tool_envelope_from_slice W raw of
        Inl _ \<Rightarrow> acked Term
      | Inr envelope \<Rightarrow>
          then_do (transact (\<lambda>t. ingest_tool_request X S raw envelope (tn_now t)))
            (settle (queue_tool_notification W app (te_request_id envelope))))"

definition request_message ::
  "crates \<Rightarrow> server_crates \<Rightarrow> worker_crates \<Rightarrow> AppState \<Rightarrow> string \<Rightarrow> bytes \<Rightarrow> server \<Rightarrow> (string + Ack) \<times> server" where
  "request_message X S W app subject raw =
     (if length raw > MAX_ENVELOPE_BYTES then acked Term
      else case request_delivery_lane W subject raw of
        None \<Rightarrow> acked Term
      | Some Authentication \<Rightarrow> ingest_auth_envelope X S W app raw
      | Some Tool \<Rightarrow> ingest_tool_envelope X S W app raw
      | Some Command \<Rightarrow> ingest_command_envelope X S W app raw)"

text \<open>The consumer: batches, silence, a failed batch or the end of the stream. It notes when it last went on.\<close>

datatype delivery_event = Batch "(string \<times> bytes) list" | BatchFailed string | Quiet | Closed

definition consumer_alive :: "server \<Rightarrow> (string + unit) \<times> server" where
  "consumer_alive = then_do read_clock (\<lambda>now w. (Inr (), w\<lparr>sv_consumer_last_ok := now\<rparr>))"

fun request_batch ::
  "crates \<Rightarrow> server_crates \<Rightarrow> worker_crates \<Rightarrow> AppState \<Rightarrow> (string \<times> bytes) list \<Rightarrow> server \<Rightarrow> (string + unit) \<times> server" where
  "request_batch X S W app [] = lift (Inr ())"
| "request_batch X S W app ((subject, raw) # messages) =
     then_do (request_message X S W app subject raw) (\<lambda>_.
     then_do consumer_alive (\<lambda>_. request_batch X S W app messages))"

fun request_loop ::
  "crates \<Rightarrow> server_crates \<Rightarrow> worker_crates \<Rightarrow> AppState \<Rightarrow> delivery_event list \<Rightarrow> server \<Rightarrow> (string + unit) \<times> server" where
  "request_loop X S W app [] = lift (Inr ())"
| "request_loop X S W app (Batch messages # events) =
     then_do (request_batch X S W app messages) (\<lambda>_. request_loop X S W app events)"
| "request_loop X S W app (BatchFailed e # events) = lift (Inl e)"
| "request_loop X S W app (Quiet # events) = then_do consumer_alive (\<lambda>_. request_loop X S W app events)"
| "request_loop X S W app (Closed # events) = lift (Inl ''request consumer stream closed'')"

definition request_consumer ::
  "crates \<Rightarrow> server_crates \<Rightarrow> worker_crates \<Rightarrow> AppState \<Rightarrow> delivery_event list \<Rightarrow> server \<Rightarrow> (string + unit) \<times> server" where
  "request_consumer X S W app events = then_do consumer_alive (\<lambda>_. request_loop X S W app events)"

section \<open>Enrollment and revocation\<close>

datatype enrollment_event = IntentMessage bytes | SubmissionMessage bytes | ActivationMessage bytes | RevocationMessage string | SubscriptionsClosed

definition handle_intent :: "crates \<Rightarrow> EnrollmentIntentV1 \<Rightarrow> server \<Rightarrow> (string + unit) \<times> server" where
  "handle_intent X intent =
     then_do (lift (map_err (\<lambda>_. ''invalid intent'') (EnrollmentIntentV1_validate X intent))) (\<lambda>_.
     then_do read_clock (\<lambda>now.
     if in_expires_at intent \<le> now then lift (Inl ''invalid enrollment intent expiry'') else
     then_do read_clock (\<lambda>now.
     if in_expires_at intent > now + 300 then lift (Inl ''invalid enrollment intent expiry'') else
     then_do (lift (map_err (\<lambda>_. ''decode'') (decode_base64url X (in_secret_hash intent)))) (\<lambda>hash.
     then_do (store (\<lambda>t. create_enrollment (in_enrollment_id intent) hash (in_expires_at intent) (in_reply_subject intent) (tn_clock t)))
       (\<lambda>_. lift (Inr ()))))))"

definition handle_revocation :: "string \<Rightarrow> server \<Rightarrow> (string + unit) \<times> server" where
  "handle_revocation subject =
     (case strip_prefix ''oshioki.device.revoke.'' subject of
        None \<Rightarrow> lift (Inr ())
      | Some fingerprint \<Rightarrow>
          then_do (store (\<lambda>t. set_device_active fingerprint False (tn_now t) (tn_clock t))) (\<lambda>_.
            nats_publish ''publish'' (''oshioki.device.revoked.'' @ fingerprint) []))"

text \<open>A message that is refused is only logged.\<close>

definition logged :: "(server \<Rightarrow> (string + unit) \<times> server) \<Rightarrow> server \<Rightarrow> (string + unit) \<times> server" where
  "logged m w = (Inr (), snd (m w))"

fun enrollment_message ::
  "crates \<Rightarrow> server_crates \<Rightarrow> worker_crates \<Rightarrow> enrollment_event \<Rightarrow> server \<Rightarrow> (string + unit) \<times> server" where
  "enrollment_message X S W (IntentMessage payload) =
     (case wx_intent_from_slice W payload of Inl _ \<Rightarrow> lift (Inr ()) | Inr intent \<Rightarrow> logged (handle_intent X intent))"
| "enrollment_message X S W (SubmissionMessage payload) =
     (case sx_submission_from_slice S payload of
        Inl _ \<Rightarrow> lift (Inr ())
      | Inr submission \<Rightarrow>
          then_do (transact (\<lambda>t. submit_enrollment X S (EnrollmentSubmissionV1_enrollment_id submission) submission (tn_now t) (tn_clock t)))
            (\<lambda>_. lift (Inr ())))"
| "enrollment_message X S W (ActivationMessage payload) =
     (case wx_activation_from_slice W payload of
        Inl _ \<Rightarrow> lift (Inr ())
      | Inr activation \<Rightarrow>
          if ac_version activation = 1 \<and> ac_enrollment_id activation \<noteq> []
          then then_do (transact (\<lambda>t d. map_ok (Pair ()) (activate_enrollment X S (ac_enrollment_id activation) (ac_device activation)
              (tn_now t) (tn_clock t) d))) (\<lambda>_. lift (Inr ()))
          else lift (Inr ()))"
| "enrollment_message X S W (RevocationMessage subject) = handle_revocation subject"
| "enrollment_message X S W SubscriptionsClosed = lift (Inl ''enrollment subscription closed'')"

fun enrollment_consumer ::
  "crates \<Rightarrow> server_crates \<Rightarrow> worker_crates \<Rightarrow> enrollment_event list \<Rightarrow> server \<Rightarrow> (string + unit) \<times> server" where
  "enrollment_consumer X S W [] = lift (Inr ())"
| "enrollment_consumer X S W (event # events) =
     then_do (enrollment_message X S W event) (\<lambda>_. enrollment_consumer X S W events)"

section \<open>The outbox workers\<close>

definition sent_outbox :: "OutboxItem \<Rightarrow> server \<Rightarrow> ('e + unit) \<times> server" where
  "sent_outbox item = store (\<lambda>t d. ((), mark_outbox_sent (oi_id item) (tn_clock t) d))"

fun drain_verdicts :: "OutboxItem list \<Rightarrow> server \<Rightarrow> (unit + unit) \<times> server" where
  "drain_verdicts [] = lift (Inr ())"
| "drain_verdicts (item # items) =
     then_do (nats_publish () (oi_subject item) (oi_payload item)) (\<lambda>_.
     then_do (sent_outbox item) (\<lambda>_. drain_verdicts items))"

text \<open>One tick; the clock of the worker is set only after a clean drain.\<close>

definition verdict_tick :: "server \<Rightarrow> (unit + unit) \<times> server" where
  "verdict_tick =
     then_do (store (\<lambda>t. expire_stale_deliveries (tn_now t))) (\<lambda>_.
     then_do (query (\<lambda>_. pending_verdicts 32)) (\<lambda>items.
     then_do (drain_verdicts items) (\<lambda>_.
     then_do read_clock (\<lambda>now w. (Inr (), w\<lparr>sv_outbox_last_ok := now\<rparr>)))))"

definition ntfy_post :: "OutboxItem \<Rightarrow> server \<Rightarrow> (unit + unit) \<times> server" where
  "ntfy_post item w =
     (let t = sv_turns w (sv_turn w)
      in (if tn_sent t then Inr () else Inl (),
          w\<lparr>sv_turn := sv_turn w + 1, sv_published := sv_published w @ [Ntfy (oi_subject item) (oi_payload item)]\<rparr>))"

fun drain_notifications :: "OutboxItem list \<Rightarrow> server \<Rightarrow> (unit + unit) \<times> server" where
  "drain_notifications [] = lift (Inr ())"
| "drain_notifications (item # items) =
     then_do (ntfy_post item) (\<lambda>_. then_do (sent_outbox item) (\<lambda>_. drain_notifications items))"

text \<open>A turn of the notification worker: the failures in a row, and the seconds it sleeps after an unclean batch.\<close>

definition ntfy_tick :: "nat \<Rightarrow> server \<Rightarrow> (unit + nat \<times> nat option) \<times> server" where
  "ntfy_tick failures w =
     (case then_do (query (\<lambda>_. pending_notifications 32)) drain_notifications w of
        (Inr _, w) \<Rightarrow> (Inr (0, None), w)
      | (Inl _, w) \<Rightarrow>
          let failures = min (failures + 1) (2 ^ 32 - 1)
          in (Inr (failures, Some (min (2 ^ min failures 8) 300)), w))"

section \<open>Web Push\<close>

definition PUSH_PROVIDER_TTL_CAP_SECS :: i64 where "PUSH_PROVIDER_TTL_CAP_SECS = 300"

datatype PushDeliveryResult = PushSent | PushGone | PushRetry | PushAbandon

definition push_ttl :: "i64 \<Rightarrow> i64 \<Rightarrow> nat option" where
  "push_ttl expires_at now =
     (let remaining = saturating_sub expires_at now
      in if remaining \<le> 0 then None else Some (nat (min remaining PUSH_PROVIDER_TTL_CAP_SECS)))"

definition classify_provider_response :: "StatusCode \<Rightarrow> PushDeliveryResult" where
  "classify_provider_response status =
     (if 200 \<le> status \<and> status < 300 then PushSent
      else if status = NOT_FOUND \<or> status = GONE then PushGone
      else if status = 408 \<or> status = 429 \<or> 500 \<le> status \<and> status < 600 then PushRetry
      else PushAbandon)"

definition classify_push_error :: "string \<Rightarrow> string" where
  "classify_push_error message =
     (if str_contains ''non-public'' message then ''endpoint_private_address''
      else if str_contains ''resolve'' message then ''dns_failure''
      else if str_contains ''timeout'' message \<or> str_contains ''timed out'' message then ''timeout''
      else ''transport_failure'')"

definition public_ipv4 :: "nat list \<Rightarrow> bool" where
  "public_ipv4 octets \<longleftrightarrow>
     \<not> (octets ! 0 = 0 \<or> octets ! 0 = 10 \<or> octets ! 0 = 127 \<or>
       (octets ! 0 = 100 \<and> octets ! 1 \<in> {64..127}) \<or>
       (octets ! 0 = 169 \<and> octets ! 1 = 254) \<or>
       (octets ! 0 = 172 \<and> octets ! 1 \<in> {16..31}) \<or>
       (octets ! 0 = 192 \<and> octets ! 1 = 168) \<or>
       (octets ! 0 = 192 \<and> octets ! 1 = 0 \<and> octets ! 2 = 0) \<or>
       (octets ! 0 = 192 \<and> octets ! 1 = 0 \<and> octets ! 2 = 2) \<or>
       (octets ! 0 = 192 \<and> octets ! 1 = 88 \<and> octets ! 2 = 99) \<or>
       (octets ! 0 = 198 \<and> octets ! 1 \<in> {18..19}) \<or>
       (octets ! 0 = 198 \<and> octets ! 1 = 51 \<and> octets ! 2 = 100) \<or>
       (octets ! 0 = 203 \<and> octets ! 1 = 0 \<and> octets ! 2 = 113) \<or>
       octets ! 0 \<ge> 224)"

definition to_ipv4_mapped :: "nat list \<Rightarrow> nat list option" where
  "to_ipv4_mapped segments =
     (if take 6 segments = [0, 0, 0, 0, 0, 0xffff]
      then Some [segments ! 6 div 256, segments ! 6 mod 256, segments ! 7 div 256, segments ! 7 mod 256] else None)"

fun is_public_ip :: "IpAddr \<Rightarrow> bool" where
  "is_public_ip (V4 octets) = public_ipv4 octets"
| "is_public_ip (V6 segments) =
     (case to_ipv4_mapped segments of
        Some octets \<Rightarrow> public_ipv4 octets
      | None \<Rightarrow>
          \<not> (segments = [0, 0, 0, 0, 0, 0, 0, 0] \<or> is_loopback (V6 segments) \<or> (segments ! 0 AND 0xff00) = 0xff00 \<or>
            (segments ! 0 AND 0xfe00) = 0xfc00 \<or> (segments ! 0 AND 0xffc0) = 0xfe80 \<or>
            (segments ! 0 = 0x2001 \<and> segments ! 1 = 0x0db8)))"

definition endpoint_audience :: "server_crates \<Rightarrow> worker_crates \<Rightarrow> string \<Rightarrow> string + string" where
  "endpoint_audience S W endpoint =
     and_then (ok_or (sx_url_parse S endpoint) ''parse push endpoint for VAPID audience'') (\<lambda>url.
       if ur_scheme url \<noteq> ''https'' then Inl ''push endpoint VAPID audience must use HTTPS''
       else if ur_host_str url = None then Inl ''push endpoint has no VAPID audience host''
       else Inr (wx_origin W endpoint))"

definition vapid_authorization ::
  "crates \<Rightarrow> server_crates \<Rightarrow> worker_crates \<Rightarrow> VapidConfig \<Rightarrow> string \<Rightarrow> nat \<Rightarrow> string + string" where
  "vapid_authorization X S W vapid endpoint ttl =
     and_then (ok_or (wx_signing_key W (vc_private_key vapid)) ''load VAPID signing key'') (\<lambda>public_key.
     and_then (endpoint_audience S W endpoint) (\<lambda>aud.
     and_then (ok_or (wx_jwt W (vc_private_key vapid) aud (vc_subject vapid) ttl) ''sign VAPID JWT'') (\<lambda>token.
       Inr (''vapid t='' @ token @ '', k='' @ encode_base64url X public_key))))"

definition build_push_request ::
  "crates \<Rightarrow> server_crates \<Rightarrow> worker_crates \<Rightarrow> VapidConfig \<Rightarrow> PushItem \<Rightarrow> nat \<Rightarrow> string + (string \<times> bytes) list \<times> bytes" where
  "build_push_request X S W vapid item ttl =
     (if \<not> wx_public_key W (pi_p256dh item) then Inl ''invalid stored p256dh key''
      else and_then (wx_uri_parse W (pi_endpoint item)) (\<lambda>_.
        and_then (ok_or (wx_web_push W (pi_endpoint item) (pi_p256dh item) (pi_auth item) (pi_payload item) ttl)
          ''encrypt and sign Web Push payload'') (\<lambda>(headers, body).
        and_then (vapid_authorization X S W vapid (pi_endpoint item) ttl) (\<lambda>authorization.
          Inr (headers @ [(''authorization'', as_bytes authorization)], body)))))"

text \<open>What happens around one push: the addresses of a host and port, the client, and the provider's answer. The text of an
  error is that of its outermost context.\<close>

datatype lookup_error = LookupTimedOut | LookupFailed

record push_env =
  pv_lookup :: "string \<Rightarrow> nat \<Rightarrow> lookup_error + IpAddr list"
  pv_client :: "unit option"
  pv_response :: "StatusCode option"

fun lookup_context :: "lookup_error \<Rightarrow> string" where
  "lookup_context LookupTimedOut = ''resolve push endpoint timed out''"
| "lookup_context LookupFailed = ''resolve push endpoint''"

definition push_post :: "string \<Rightarrow> IpAddr \<Rightarrow> nat \<Rightarrow> server \<Rightarrow> ('e + unit) \<times> server" where
  "push_post endpoint address ttl w = (Inr (), w\<lparr>sv_published := sv_published w @ [WebPush endpoint address ttl]\<rparr>)"

definition push_target :: "server_crates \<Rightarrow> worker_crates \<Rightarrow> string \<Rightarrow> (string \<times> nat) option" where
  "push_target S W endpoint = Option.bind (sx_url_parse S endpoint) (\<lambda>url. Option.bind (ur_host_str url) (\<lambda>host.
     map_option (Pair host) (case ur_port url of None \<Rightarrow> wx_default_port W (ur_scheme url) | Some port \<Rightarrow> Some port)))"

text \<open>A queue row names one of the three lanes by its type. The stored authentication secret has 16 bytes, by the check at registration.\<close>

definition send_push ::
  "crates \<Rightarrow> server_crates \<Rightarrow> worker_crates \<Rightarrow> AppState \<Rightarrow> push_env \<Rightarrow> PushItem \<Rightarrow> server \<Rightarrow> (string + PushDeliveryResult) \<times> server" where
  "send_push X S W app env item =
     (if pi_request_id item = [] \<or> \<not> (1 \<le> pi_attempts item \<and> pi_attempts item \<le> PUSH_MAX_ATTEMPTS)
      then lift (Inl ''invalid push outbox row'')
      else then_do read_clock (\<lambda>now.
        if push_ttl (pi_expires_at item) now = None then lift (Inr PushAbandon)
        else if is_err (validate_push_endpoint S (pi_endpoint item)) then lift (Inr PushAbandon)
        else case push_target S W (pi_endpoint item) of
          None \<Rightarrow> lift (Inr PushAbandon)
        | Some (host, port) \<Rightarrow>
            then_do (lift (map_err lookup_context (pv_lookup env host port))) (\<lambda>addresses.
            if addresses = [] \<or> list_ex (\<lambda>address. \<not> is_public_ip address) addresses then lift (Inr PushAbandon)
            else then_do (lift (ok_or (pv_client env) ''build pinned push client'')) (\<lambda>_.
              then_do read_clock (\<lambda>now.
              case push_ttl (pi_expires_at item) now of
                None \<Rightarrow> lift (Inr PushAbandon)
              | Some ttl \<Rightarrow>
                  then_do (lift (build_push_request X S W (as_vapid app) item ttl)) (\<lambda>_.
                  then_do (push_post (pi_endpoint item) (hd addresses) ttl) (\<lambda>_.
                  lift (map_ok classify_provider_response (ok_or (pv_response env) ''send Web Push request'')))))))))"

definition push_alive :: "server \<Rightarrow> (string + unit) \<times> server" where
  "push_alive = then_do read_clock (\<lambda>now w. (Inr (), w\<lparr>sv_push_worker_last_ok := now\<rparr>))"

text \<open>The result of a push is written under the claim of this worker only.\<close>

fun push_update :: "PushItem \<Rightarrow> string + PushDeliveryResult \<Rightarrow> i64 \<Rightarrow> db \<Rightarrow> bool \<times> db" where
  "push_update item (Inr PushSent) current = mark_push_sent (pi_id item) (pi_claim_token item) current"
| "push_update item (Inr PushGone) current =
     disable_push_for_claim (pi_id item) (pi_endpoint_id item) (pi_claim_token item) current ''endpoint_gone''"
| "push_update item (Inr PushRetry) current = retry_push (pi_id item) (pi_claim_token item) current ''provider_retry''"
| "push_update item (Inr PushAbandon) current = abandon_push (pi_id item) (pi_claim_token item) current ''provider_rejected''"
| "push_update item (Inl e) current = retry_push (pi_id item) (pi_claim_token item) current (classify_push_error e)"

definition attempt :: "(server \<Rightarrow> (string + 'a) \<times> server) \<Rightarrow> server \<Rightarrow> ('e + (string + 'a)) \<times> server" where
  "attempt m w = (let (r, w) = m w in (Inr r, w))"

text \<open>One turn of the push worker.\<close>

definition push_turn ::
  "crates \<Rightarrow> server_crates \<Rightarrow> worker_crates \<Rightarrow> AppState \<Rightarrow> push_env \<Rightarrow> server \<Rightarrow> (string + unit) \<times> server" where
  "push_turn X S W app env =
     then_do push_alive (\<lambda>_.
     then_do (store (\<lambda>t. claim_push (tn_now t) PUSH_LEASE_SECS (tn_fresh t))) (\<lambda>claimed.
     case claimed of
       None \<Rightarrow> lift (Inr ())
     | Some item \<Rightarrow>
         then_do (attempt (send_push X S W app env item)) (\<lambda>result.
         then_do push_alive (\<lambda>_.
         then_do read_clock (\<lambda>current.
         then_do (store (\<lambda>_. push_update item result current)) (\<lambda>_. lift (Inr ())))))))"

section \<open>All tasks\<close>

datatype server_task =
    ServeApi "string \<Rightarrow> bytes option" api_call
  | ConsumeRequests "delivery_event list"
  | ConsumeEnrollments "enrollment_event list"
  | VerdictTick
  | NtfyTick nat
  | PushTurn push_env
  | CleanupTick

fun run_task :: "crates \<Rightarrow> server_crates \<Rightarrow> http_crates \<Rightarrow> worker_crates \<Rightarrow> AppState \<Rightarrow> server_task \<Rightarrow> server \<Rightarrow> server" where
  "run_task X S H W app (ServeApi headers call) w = snd (api X S H app headers call w)"
| "run_task X S H W app (ConsumeRequests events) w = snd (request_consumer X S W app events w)"
| "run_task X S H W app (ConsumeEnrollments events) w = snd (enrollment_consumer X S W events w)"
| "run_task X S H W app VerdictTick w = snd (verdict_tick w)"
| "run_task X S H W app (NtfyTick failures) w = snd (ntfy_tick failures w)"
| "run_task X S H W app (PushTurn env) w = snd (push_turn X S W app env w)"
| "run_task X S H W app CleanupTick w = snd (store (\<lambda>t d. ((), cleanup (tn_now t) d)) w :: (unit + unit) \<times> server)"

section \<open>Every task keeps what the store keeps\<close>

lemma keeps_run:
  assumes "keeps P m" "others_keep P w" "P (sv_db w)"
  shows "P (sv_db (snd (m w))) \<and> others_keep P (snd (m w))"
  using keepsD [OF assms(1) _ assms(2,3), of "fst (m w)" "snd (m w)"] by simp

lemma keeps_clock_write [keeps_intros]:
  "keeps P consumer_alive" "keeps P push_alive" "keeps P (then_do read_clock (\<lambda>now w. (Inr (), w\<lparr>sv_outbox_last_ok := now\<rparr>)))"
  unfolding consumer_alive_def push_alive_def by (intro keeps_then_do keeps_read_clock; simp add: keeps_def)+

lemma keeps_acked [keeps_intros]: "keeps P (acked a)"
  by (simp add: keeps_def acked_def)

lemma keeps_ntfy_post [keeps_intros]: "keeps P (ntfy_post item)"
  by (simp add: keeps_def ntfy_post_def Let_def)

lemma keeps_push_post [keeps_intros]: "keeps P (push_post endpoint address ttl)"
  by (simp add: keeps_def push_post_def)

lemma keeps_attempt [keeps_intros]: "keeps P m \<Longrightarrow> keeps P (attempt m)"
  unfolding keeps_def attempt_def Let_def by (auto split: prod.splits)

lemma keeps_logged [keeps_intros]: "keeps P m \<Longrightarrow> keeps P (logged m)"
  unfolding keeps_def logged_def by (metis Pair_inject prod.collapse)

lemma keeps_option [keeps_intros]: "keeps P m \<Longrightarrow> (\<And>x. keeps P (f x)) \<Longrightarrow> keeps P (case v of None \<Rightarrow> m | Some x \<Rightarrow> f x)"
  by (cases v) simp_all

lemma keeps_sum [keeps_intros]: "(\<And>e. keeps P (m e)) \<Longrightarrow> (\<And>x. keeps P (f x)) \<Longrightarrow> keeps P (case v of Inl e \<Rightarrow> m e | Inr x \<Rightarrow> f x)"
  by (cases v) simp_all

lemma keeps_prod [keeps_intros]: "(\<And>x y. keeps P (f x y)) \<Longrightarrow> keeps P (case v of (x, y) \<Rightarrow> f x y)"
  by (cases v) simp

lemma keeps_send_push [keeps_intros]: "keeps P (send_push X S W app env item)"
  unfolding send_push_def by (intro keeps_intros)

context store_invariant
begin

lemma keeps_store_step:
  assumes "\<And>t d a d'. f t d = (a, d') \<Longrightarrow> db_step X S d d'"
  shows "keeps P (store f)"
  by (rule keeps_store) (blast intro: step assms)

lemma stored:
  "keeps P (store (\<lambda>t d. ((), queue_notification request_id endpoint payload (tn_clock t) d)))"
  "keeps P (store (\<lambda>t. create_enrollment e hash expires reply_subject (tn_clock t)))"
  "keeps P (store (\<lambda>t. set_device_active fp active (tn_now t) (tn_clock t)))"
  "keeps P (store (\<lambda>t. expire_stale_deliveries (tn_now t)))"
  "keeps P (store (\<lambda>t. claim_push (tn_now t) lease (tn_fresh t)))"
  "keeps P (sent_outbox item)"
  "keeps P (store (\<lambda>_. push_update push result current))"
  "keeps P (store (\<lambda>t d. ((), cleanup (tn_now t) d)))"
proof -
  show "keeps P (store (\<lambda>t d. ((), queue_notification request_id endpoint payload (tn_clock t) d)))"
    by (rule keeps_store_step) (auto intro: db_step.notification)
  show "keeps P (store (\<lambda>_. push_update push result current))"
    by (rule keeps_store_step, cases "(push, result, current)" rule: push_update.cases)
      (auto intro: db_step.push_sent db_step.push_disable db_step.push_retry db_step.push_abandon)
qed (auto simp: sent_outbox_def intro!: keeps_store_step
    intro: db_step.create db_step.set_active db_step.expire db_step.claim_row db_step.sent db_step.clean)

lemma ingestions:
  "keeps P (transact (\<lambda>t. ingest_request X S raw envelope (tn_now t) (tn_clock t)))"
  "keeps P (transact (\<lambda>t. ingest_auth_request X S raw auth_envelope (tn_now t) (tn_clock t)))"
  "keeps P (transact (\<lambda>t. ingest_tool_request X S raw tool_envelope (tn_now t)))"
  "keeps P (transact (\<lambda>t d. map_ok (Pair ()) (activate_enrollment X S e device (tn_now t) (tn_clock t) d)))"
  by (rule keeps_transact, auto simp: map_ok_Inr_iff intro: db_step.ingest db_step.ingest_auth db_step.ingest_tool db_step.activate)+

lemma keeps_settle: "keeps P notify \<Longrightarrow> keeps P (settle notify result)"
  by (cases "(notify, result)" rule: settle.cases) (auto intro!: keeps_intros)

lemma keeps_request_message: "keeps P (request_message X S W app subject raw)"
proof -
  have notify: "keeps P (store_notification app request_id payload)" for request_id payload
    unfolding store_notification_def by (intro keeps_intros stored)
  have "keeps P (ingest_command_envelope X S W app raw)" "keeps P (ingest_auth_envelope X S W app raw)"
      "keeps P (ingest_tool_envelope X S W app raw)"
    unfolding ingest_command_envelope_def ingest_auth_envelope_def ingest_tool_envelope_def api_queue_notification_def
      queue_auth_notification_def queue_tool_notification_def
    by (intro keeps_intros ingestions keeps_settle notify)+
  then show ?thesis unfolding request_message_def by (auto intro!: keeps_intros split: RequestDeliveryLane.split)
qed

lemma keeps_request_consumer: "keeps P (request_consumer X S W app events)"
proof -
  have batch: "keeps P (request_batch X S W app messages)" for messages
    by (induction messages) (auto intro!: keeps_intros keeps_request_message)
  have "keeps P (request_loop X S W app events)"
  proof (induction events)
    case (Cons event events)
    then show ?case by (cases event) (auto intro!: keeps_intros batch)
  qed (auto intro!: keeps_intros)
  then show ?thesis unfolding request_consumer_def by (intro keeps_intros)
qed

lemma keeps_enrollment_message: "keeps P (enrollment_message X S W event)"
  by (cases event) (auto simp: handle_intent_def handle_revocation_def intro!: keeps_intros stored ingestions transactions)

lemma keeps_enrollment_consumer: "keeps P (enrollment_consumer X S W events)"
  by (induction events) (auto intro!: keeps_intros keeps_enrollment_message)

lemma keeps_verdict_tick: "keeps P verdict_tick"
proof -
  have "keeps P (drain_verdicts items)" for items by (induction items) (auto intro!: keeps_intros stored)
  then show ?thesis unfolding verdict_tick_def by (intro keeps_intros stored)
qed

lemma keeps_ntfy_tick: "keeps P (ntfy_tick failures)"
proof -
  have "keeps P (drain_notifications items)" for items by (induction items) (auto intro!: keeps_intros stored)
  then have "keeps P (then_do (query (\<lambda>_. pending_notifications 32)) drain_notifications)" by (intro keeps_intros)
  then show ?thesis unfolding keeps_def ntfy_tick_def Let_def by (auto split: prod.splits sum.splits)
qed

lemma keeps_push_turn: "keeps P (push_turn X S W app env)"
  unfolding push_turn_def by (intro keeps_intros stored)

lemma run_task_keeps:
  assumes "others_keep P w" "P (sv_db w)"
  shows "P (sv_db (run_task X S H W app task w)) \<and> others_keep P (run_task X S H W app task w)"
  using assms
  by (cases task) (simp_all add: keeps_run keeps_api keeps_request_consumer keeps_enrollment_consumer keeps_verdict_tick
    keeps_ntfy_tick keeps_push_turn stored(8))

lemma run_tasks_keep:
  assumes "others_keep P w" "P (sv_db w)"
  shows "P (sv_db (fold (run_task X S H W app) tasks w))"
  using assms by (induction tasks arbitrary: w) (simp_all add: run_task_keeps)

end


section \<open>Acknowledged requests are stored\<close>

text \<open>The lane and the request a delivery names: subject and envelope tag agree, and the payload decodes as that lane's envelope.\<close>

definition delivers :: "crates \<Rightarrow> worker_crates \<Rightarrow> string \<Rightarrow> bytes \<Rightarrow> lane \<Rightarrow> string \<Rightarrow> bool" where
  "delivers X W subject raw lane request_id \<longleftrightarrow>
     (case request_delivery_lane W subject raw of
        None \<Rightarrow> False
      | Some Command \<Rightarrow> lane = RequestRows \<and> (\<exists>e. from_slice_envelope X raw = Inr e \<and> request_id = en_request_id e)
      | Some Authentication \<Rightarrow> lane = AuthRows \<and> (\<exists>e. wx_auth_envelope_from_slice W raw = Inr e \<and> request_id = ae_request_id e)
      | Some Tool \<Rightarrow> lane = ToolRows \<and> (\<exists>e. wx_tool_envelope_from_slice W raw = Inr e \<and> request_id = te_request_id e))"

definition stored_as :: "crates \<Rightarrow> bytes \<Rightarrow> lane \<Rightarrow> string \<Rightarrow> db \<Rightarrow> bool" where
  "stored_as X raw lane request_id d \<longleftrightarrow> (\<exists>r. stored_request d lane request_id = Some r \<and> rr_envelope_hash r = sha256 X raw)"

lemma insert_bodies_requests: "insert_bodies lane request_id bs d = Inr d' \<Longrightarrow> db_requests d' = db_requests d"
  by (induction lane request_id bs d rule: insert_bodies.induct) (auto simp: and_then_Inr_iff split: if_splits)

lemma receipt_requests: "receipt d d' \<Longrightarrow> db_requests d' = db_requests d"
  by (auto simp: receipt_def outbox_insert_def outbox_append_def split: if_splits)

lemma find_append_None: "find p xs = None \<Longrightarrow> find p (xs @ ys) = find p ys"
  by (induction xs) (auto split: if_splits)

lemma stored_after_insert:
  assumes "stored_request d lane request_id = None" "insert_bodies lane request_id bs (insert_request lane row d) = Inr d1"
    and "receipt (enqueue_push lane request_id payload now d1) d'" "rr_id row = request_id" "rr_envelope_hash row = sha256 X raw"
  shows "stored_as X raw lane request_id d' \<and> (\<forall>l. l \<noteq> lane \<longrightarrow> db_requests d' l = db_requests d l)"
proof -
  have "db_requests d' = db_requests (insert_request lane row d)"
    using receipt_requests [OF assms(3)] insert_bodies_requests [OF assms(2)] by (simp add: enqueue_push_def)
  moreover have "find (\<lambda>r. rr_id r = request_id) (db_requests d lane @ [row]) = Some row"
    using assms(1,4) by (simp add: stored_request_def find_append_None)
  ultimately show ?thesis using assms(5) by (simp add: stored_as_def stored_request_def insert_request_def)
qed

lemma ingest_stored:
  "ingest_request X S raw env now clock d = Inr (res, d') \<Longrightarrow> res \<noteq> Conflict \<Longrightarrow>
     stored_as X raw RequestRows (en_request_id env) d' \<and> (\<forall>l. l \<noteq> RequestRows \<longrightarrow> db_requests d' l = db_requests d l)"
  "ingest_auth_request X S raw aenv now clock d = Inr (res, d') \<Longrightarrow> res \<noteq> Conflict \<Longrightarrow>
     stored_as X raw AuthRows (ae_request_id aenv) d' \<and> (\<forall>l. l \<noteq> AuthRows \<longrightarrow> db_requests d' l = db_requests d l)"
  "ingest_tool_request X S raw tenv now d = Inr (res, d') \<Longrightarrow> res \<noteq> Conflict \<Longrightarrow>
     stored_as X raw ToolRows (te_request_id tenv) d' \<and> (\<forall>l. l \<noteq> ToolRows \<longrightarrow> db_requests d' l = db_requests d l)"
proof -
  assume ok: "res \<noteq> Conflict"
  show "stored_as X raw RequestRows (en_request_id env) d' \<and> (\<forall>l. l \<noteq> RequestRows \<longrightarrow> db_requests d' l = db_requests d l)"
    if "ingest_request X S raw env now clock d = Inr (res, d')"
  proof (cases "stored_request d RequestRows (en_request_id env)")
    case None
    with that show ?thesis
      by (auto simp: ingest_request_def Let_def and_then_Inr_iff split: if_split_asm
          dest!: queue_receipt_receipt elim!: stored_after_insert [THEN conjunct1] stored_after_insert [THEN conjunct2, rule_format])
  qed (use that ok in \<open>auto simp: ingest_request_def Let_def and_then_Inr_iff stored_as_def split: if_splits\<close>)
  show "stored_as X raw AuthRows (ae_request_id aenv) d' \<and> (\<forall>l. l \<noteq> AuthRows \<longrightarrow> db_requests d' l = db_requests d l)"
    if "ingest_auth_request X S raw aenv now clock d = Inr (res, d')"
  proof (cases "stored_request d AuthRows (ae_request_id aenv)")
    case None
    with that show ?thesis
      by (auto simp: ingest_auth_request_def Let_def and_then_Inr_iff split: if_split_asm
          dest!: queue_receipt_receipt elim!: stored_after_insert [THEN conjunct1] stored_after_insert [THEN conjunct2, rule_format])
  qed (use that ok in \<open>auto simp: ingest_auth_request_def Let_def and_then_Inr_iff stored_as_def split: if_splits\<close>)
  show "stored_as X raw ToolRows (te_request_id tenv) d' \<and> (\<forall>l. l \<noteq> ToolRows \<longrightarrow> db_requests d' l = db_requests d l)"
    if "ingest_tool_request X S raw tenv now d = Inr (res, d')"
  proof (cases "stored_request d ToolRows (te_request_id tenv)")
    case None
    with that show ?thesis
      by (auto simp: ingest_tool_request_def Let_def and_then_Inr_iff map_ok_Inr_iff split: if_split_asm
          dest!: receiptI elim!: stored_after_insert [THEN conjunct1] stored_after_insert [THEN conjunct2, rule_format])
  qed (use that ok in \<open>auto simp: ingest_tool_request_def Let_def and_then_Inr_iff stored_as_def split: if_splits\<close>)
qed

lemma acked_iff: "acked a w = (Inr b, w') \<Longrightarrow> b = a \<and> sv_db w' = sv_db w \<and> sv_turns w' = sv_turns w"
  by (auto simp: acked_def split: if_splits)

lemma notified_requests:
  assumes "store_notification app request_id payload w = (r, w')" "alone w"
  shows "db_requests (sv_db w') = db_requests (sv_db w)"
  using assms
  by (auto simp: store_notification_def then_do_lift lift_def store_def Let_def alone_def queue_notification_def outbox_append_def
      split: option.splits sum.splits)

lemma settled_stored:
  assumes "then_do (transact Q) (settle (store_notification app nid payload)) w = (Inr AckOk, w')" "alone w"
    and stored: "\<And>t res d. Q t (sv_db w) = Inr (res, d) \<Longrightarrow> res \<noteq> Conflict \<Longrightarrow>
      stored_as X raw lane request_id d \<and> (\<forall>l. l \<noteq> lane \<longrightarrow> db_requests d l = db_requests (sv_db w) l)"
  shows "stored_as X raw lane request_id (sv_db w') \<and> (\<forall>l. l \<noteq> lane \<longrightarrow> db_requests (sv_db w') l = db_requests (sv_db w) l)"
proof -
  from assms(1) obtain result w1 where t: "transact Q w = (Inr result :: string + _, w1)"
    and s: "settle (store_notification app nid payload) result w1 = (Inr AckOk, w')"
    by (auto elim: then_do_E)
  have turns: "sv_turns w1 = sv_turns w" using t by (auto simp: transact_def store_def Let_def split: prod.splits)
  then have alone: "alone w1" using assms(2) by (simp add: alone_def)
  obtain res where res: "result = Inr res" "res \<noteq> Conflict"
  proof (cases result)
    case (Inl e)
    then show ?thesis using s by (auto dest: acked_iff)
  next
    case (Inr res)
    then show ?thesis using s that by (cases res) (auto dest: acked_iff)
  qed
  have "db_requests (sv_db w') = db_requests (sv_db w1)"
    using s res by (cases res) (auto elim!: then_do_E dest!: acked_iff notified_requests [OF _ alone])
  moreover obtain t' where "Q t' (sv_db w) = Inr (res, sv_db w1)" using t res assms(2) by (auto elim!: transact_E simp: alone_def)
  ultimately show ?thesis using stored res(2) by (auto simp: stored_as_def stored_request_def)
qed

text \<open>C34: an acknowledged request is stored. When no other task runs and the consumer acknowledges a delivery, subject and envelope tag
  named the same lane, the payload decoded as an envelope of that lane, the store holds its request on that lane under the digest
  of exactly the delivered bytes, and the requests of the other lanes are as they were.\<close>

theorem acknowledged_request_is_stored:
  assumes "alone w" "request_message X S W app subject raw w = (Inr AckOk, w')"
  shows "\<exists>lane request_id. delivers X W subject raw lane request_id \<and> stored_as X raw lane request_id (sv_db w') \<and>
    (\<forall>l. l \<noteq> lane \<longrightarrow> db_requests (sv_db w') l = db_requests (sv_db w) l)"
proof -
  obtain lane where l: "request_delivery_lane W subject raw = Some lane"
    using assms(2) by (auto simp: request_message_def dest: acked_iff split: if_splits option.splits)
  show ?thesis
  proof (cases lane)
    case Command
    then obtain e where e: "from_slice_envelope X raw = Inr e" and run: "then_do (transact (\<lambda>t. ingest_request X S raw e (tn_now t) (tn_clock t)))
        (settle (api_queue_notification W app e)) w = (Inr AckOk, w')"
      using assms(2) l by (auto simp: request_message_def ingest_command_envelope_def dest: acked_iff split: if_splits sum.splits)
    have "delivers X W subject raw RequestRows (en_request_id e)" using l Command e by (simp add: delivers_def)
    moreover have "stored_as X raw RequestRows (en_request_id e) (sv_db w') \<and> (\<forall>l. l \<noteq> RequestRows \<longrightarrow> db_requests (sv_db w') l = db_requests (sv_db w) l)"
      by (rule settled_stored [OF run [unfolded api_queue_notification_def] assms(1)]) (erule (1) ingest_stored(1))
    ultimately show ?thesis by blast
  next
    case Authentication
    then obtain e where e: "wx_auth_envelope_from_slice W raw = Inr e" and run: "then_do (transact (\<lambda>t. ingest_auth_request X S raw e (tn_now t) (tn_clock t)))
        (settle (queue_auth_notification W app e)) w = (Inr AckOk, w')"
      using assms(2) l by (auto simp: request_message_def ingest_auth_envelope_def dest: acked_iff split: if_splits sum.splits)
    have "delivers X W subject raw AuthRows (ae_request_id e)" using l Authentication e by (simp add: delivers_def)
    moreover have "stored_as X raw AuthRows (ae_request_id e) (sv_db w') \<and> (\<forall>l. l \<noteq> AuthRows \<longrightarrow> db_requests (sv_db w') l = db_requests (sv_db w) l)"
      by (rule settled_stored [OF run [unfolded queue_auth_notification_def] assms(1)]) (erule (1) ingest_stored(2))
    ultimately show ?thesis by blast
  next
    case Tool
    then obtain e where e: "wx_tool_envelope_from_slice W raw = Inr e" and run: "then_do (transact (\<lambda>t. ingest_tool_request X S raw e (tn_now t)))
        (settle (queue_tool_notification W app (te_request_id e))) w = (Inr AckOk, w')"
      using assms(2) l by (auto simp: request_message_def ingest_tool_envelope_def dest: acked_iff split: if_splits sum.splits)
    have "delivers X W subject raw ToolRows (te_request_id e)" using l Tool e by (simp add: delivers_def)
    moreover have "stored_as X raw ToolRows (te_request_id e) (sv_db w') \<and> (\<forall>l. l \<noteq> ToolRows \<longrightarrow> db_requests (sv_db w') l = db_requests (sv_db w) l)"
      by (rule settled_stored [OF run [unfolded queue_tool_notification_def] assms(1)]) (erule (1) ingest_stored(3))
    ultimately show ?thesis by blast
  qed
qed

section \<open>Revocation\<close>

text \<open>The broker hears of a revocation only from a store in which the device is inactive.\<close>

lemma revocation_confirmed_when_stored:
  assumes "handle_revocation subject w = (r, w')" "sv_published w' \<noteq> sv_published w"
  shows "\<exists>fp. subject = ''oshioki.device.revoke.'' @ fp \<and> sv_published w' = sv_published w @ [Nats (''oshioki.device.revoked.'' @ fp) []] \<and>
    (\<forall>v \<in> set (db_devices (sv_db w')). de_fingerprint v = fp \<longrightarrow> \<not> de_active v)"
proof -
  obtain fp where fp: "strip_prefix ''oshioki.device.revoke.'' subject = Some fp"
  proof (cases "strip_prefix ''oshioki.device.revoke.'' subject")
    case None
    then show ?thesis using assms unfolding handle_revocation_def None by (simp add: lift_def)
  qed (rule that)
  have run: "then_do (store (\<lambda>t. set_device_active fp False (tn_now t) (tn_clock t)))
      (\<lambda>_. nats_publish ''publish'' (''oshioki.device.revoked.'' @ fp) []) w = (r, w')"
    using assms(1) unfolding handle_revocation_def fp option.case .
  let ?t = "sv_turns w (sv_turn w)"
  obtain b d where d: "set_device_active fp False (tn_now ?t) (tn_clock ?t) (tn_others ?t (sv_db w)) = (b, d)" by fastforce
  have "sv_db w' = d" "sv_published w' = sv_published w @ [Nats (''oshioki.device.revoked.'' @ fp) []]"
    using run by (auto simp: then_do_def store_def nats_publish_def Let_def d)
  then show ?thesis using fp revoked_rows(1) [OF d] by (auto simp: strip_prefix_Some_iff)
qed

section \<open>The outboxes\<close>

lemma published_kept: "drain_verdicts items w = (r, w') \<Longrightarrow> set (sv_published w) \<subseteq> set (sv_published w')"
proof (induction items arbitrary: w)
  case (Cons item items)
  then show ?case
    by (fastforce simp: nats_publish_def sent_outbox_def store_def Let_def elim!: then_do_E split: if_splits prod.splits)
qed (simp add: lift_def)

text \<open>A row of the outbox is marked as sent only after its message went to the broker.\<close>

lemma published_before_marked:
  assumes "drain_verdicts items w = (r, w')" "alone w" "x \<in> set (db_outbox (sv_db w'))" "ob_sent_at x \<noteq> None"
  shows "(\<exists>y \<in> set (db_outbox (sv_db w)). ob_id y = ob_id x \<and> ob_sent_at y \<noteq> None) \<or>
    (\<exists>item \<in> set items. oi_id item = ob_id x \<and> Nats (oi_subject item) (oi_payload item) \<in> set (sv_published w'))"
  using assms
proof (induction items arbitrary: w)
  case Nil
  then show ?case by (auto simp: lift_def)
next
  case (Cons item items)
  let ?m = "Nats (oi_subject item) (oi_payload item)"
  from Cons.prems(1) consider "sv_db w' = sv_db w"
    | w2 clock where "drain_verdicts items w2 = (r, w')" "sv_db w2 = mark_outbox_sent (oi_id item) clock (sv_db w)"
      "sv_published w2 = sv_published w @ [?m]" "alone w2"
    using Cons.prems(2) by (auto simp: then_do_def nats_publish_def sent_outbox_def store_def Let_def alone_def split: if_splits)
  then show ?case
  proof cases
    case 1
    then show ?thesis using Cons.prems by auto
  next
    case 2
    have "?m \<in> set (sv_published w')" using published_kept [OF 2(1)] 2(3) by auto
    moreover have "oi_id item = ob_id y \<or> (\<exists>z \<in> set (db_outbox (sv_db w)). ob_id z = ob_id y \<and> ob_sent_at z \<noteq> None)"
      if "y \<in> set (db_outbox (sv_db w2))" "ob_sent_at y \<noteq> None" for y
      using that 2(2) by (auto simp: mark_outbox_sent_def update_where_def split: if_splits)
    ultimately show ?thesis using Cons.IH [OF 2(1,4) Cons.prems(3,4)] by (metis list.set_intros)
  qed
qed

text \<open>After an unclean batch the notification worker sleeps between two seconds and 256.\<close>

lemma ntfy_backoff_bounds:
  assumes "ntfy_tick failures w = (Inr (n, Some s), w')"
  shows "2 \<le> s \<and> s \<le> 256 \<and> n \<noteq> 0"
proof -
  have n: "n = min (failures + 1) (2 ^ 32 - 1)" "s = min (2 ^ min n 8) 300"
    using assms by (auto simp: ntfy_tick_def Let_def split: prod.splits sum.splits)
  then have "1 \<le> min n 8" "min n 8 \<le> 8" by auto
  then have "(2 :: nat) ^ 1 \<le> 2 ^ min n 8" "(2 :: nat) ^ min n 8 \<le> 2 ^ 8" by (intro power_increasing; simp)+
  then show ?thesis using n by simp
qed

section \<open>Push requests\<close>

lemma push_ttl_bounds: "push_ttl expires_at now = Some ttl \<Longrightarrow> 1 \<le> ttl \<and> ttl \<le> 300"
  by (auto simp: push_ttl_def PUSH_PROVIDER_TTL_CAP_SECS_def Let_def split: if_splits)

text \<open>The endpoint is valid, and every address the resolver gave for its host and port is public.\<close>

definition posted_publicly :: "server_crates \<Rightarrow> worker_crates \<Rightarrow> push_env \<Rightarrow> string \<Rightarrow> IpAddr \<Rightarrow> nat \<Rightarrow> bool" where
  "posted_publicly S W env endpoint address ttl \<longleftrightarrow> validate_push_endpoint S endpoint = Inr () \<and>
     (\<exists>host port addresses. push_target S W endpoint = Some (host, port) \<and> pv_lookup env host port = Inr addresses \<and>
        address \<in> set addresses \<and> (\<forall>a \<in> set addresses. is_public_ip a)) \<and> 1 \<le> ttl \<and> ttl \<le> 300"

lemma send_push_E:
  assumes "send_push X S W app env item w = (r, w')"
  obtains (quiet) "sv_published w' = sv_published w"
  | (posted) host port addresses ttl where "sv_published w' = sv_published w @ [WebPush (pi_endpoint item) (hd addresses) ttl]"
      "validate_push_endpoint S (pi_endpoint item) = Inr ()" "push_target S W (pi_endpoint item) = Some (host, port)"
      "pv_lookup env host port = Inr addresses" "addresses \<noteq> []" "list_all is_public_ip addresses" "1 \<le> ttl \<and> ttl \<le> 300"
proof -
  have clock: "\<exists>now w1. read_clock w = (Inr now :: string + i64, w1) \<and> sv_published w1 = sv_published w" for w
    by (simp add: read_clock_def query_def store_def Let_def)
  show thesis
  proof (cases "sv_published w' = sv_published w")
    case False
    obtain now w1 where "read_clock w = (Inr now :: string + i64, w1)" and w1: "sv_published w1 = sv_published w" using clock by blast
    with assms False obtain host port addresses where a: "validate_push_endpoint S (pi_endpoint item) = Inr ()"
        "push_target S W (pi_endpoint item) = Some (host, port)" "pv_lookup env host port = Inr addresses" "addresses \<noteq> []"
        "list_all is_public_ip addresses"
      and run: "then_do (lift (ok_or (pv_client env) ''build pinned push client'')) (\<lambda>_.
              then_do read_clock (\<lambda>now.
              case push_ttl (pi_expires_at item) now of
                None \<Rightarrow> lift (Inr PushAbandon)
              | Some ttl \<Rightarrow>
                  then_do (lift (build_push_request X S W (as_vapid app) item ttl)) (\<lambda>_.
                  then_do (push_post (pi_endpoint item) (hd addresses) ttl) (\<lambda>_.
                  lift (map_ok classify_provider_response (ok_or (pv_response env) ''send Web Push request'')))))) w1 = (r, w')"
      by (auto simp: send_push_def then_do_def [of read_clock] then_do_lift lift_def map_err_def is_ok_def list_ex_iff list_all_iff
          split: if_splits option.splits sum.splits)
    obtain now2 w2 where "read_clock w1 = (Inr now2 :: string + i64, w2)" and w2: "sv_published w2 = sv_published w1" using clock by blast
    with run False w1 obtain ttl where "push_ttl (pi_expires_at item) now2 = Some ttl"
        "sv_published w' = sv_published w @ [WebPush (pi_endpoint item) (hd addresses) ttl]"
      by (auto simp: then_do_def [of read_clock] then_do_def [of "push_post _ _ _"] push_post_def then_do_lift lift_def
          split: option.splits sum.splits)
    then show ?thesis using posted a push_ttl_bounds by blast
  qed (rule quiet)
qed

lemma push_alive_run: "\<exists>w1. push_alive w = (Inr (), w1) \<and> sv_published w1 = sv_published w"
  by (simp add: push_alive_def then_do_def read_clock_def query_def store_def Let_def)

lemma store_run: "\<exists>a w1. store f w = (Inr a, w1) \<and> sv_published w1 = sv_published w"
  by (simp add: store_def Let_def split: prod.split)

lemma written_back:
  "then_do push_alive (\<lambda>_. then_do read_clock (\<lambda>current. then_do (store (f current)) (\<lambda>_. lift (Inr ())))) w = (r :: string + unit, w') \<Longrightarrow>
     sv_published w' = sv_published w"
  by (auto simp: push_alive_def then_do_def read_clock_def query_def store_def lift_def Let_def split: prod.splits)

text \<open>A push to this endpoint is wanted at this time in this store: a row of the queue names the endpoint; the row is neither sent nor
  abandoned, due, under no lease, and tried fewer times than the limit; its request is pending and unexpired; and some active device
  that holds a sealed body of the request is subscribed to the endpoint, which is neither disabled nor expired.\<close>

definition push_wanted :: "db \<Rightarrow> i64 \<Rightarrow> push_row \<Rightarrow> string \<Rightarrow> bool" where
  "push_wanted d now p endpoint \<longleftrightarrow> p \<in> set (db_push_outbox d) \<and>
     po_sent_at p = None \<and> po_abandoned_at p = None \<and> po_available_at p \<le> now \<and> (\<forall>t. po_claimed_until p = Some t \<longrightarrow> t \<le> now) \<and>
     po_attempts p < PUSH_MAX_ATTEMPTS \<and>
     (\<exists>r \<in> set (db_requests d (po_request_kind p)). rr_id r = po_request_id p \<and> rr_state r = ''pending'' \<and> now < rr_expires_at r) \<and>
     (\<exists>e \<in> set (db_endpoints d). \<exists>s \<in> set (db_subscriptions d). \<exists>v \<in> set (db_devices d). \<exists>b \<in> set (db_bodies d (po_request_kind p)).
        pe_id e = po_endpoint_id p \<and> pe_endpoint e = endpoint \<and> pe_disabled_at e = None \<and> (\<forall>t. pe_expiration_at e = Some t \<longrightarrow> now < t) \<and>
        su_endpoint_id s = pe_id e \<and> su_disabled_at s = None \<and> su_device_fingerprint s = de_fingerprint v \<and> de_active v \<and>
        br_request_id b = po_request_id p \<and> br_fingerprint b = de_fingerprint v)"

lemma claimed_push_wanted:
  assumes "claim_push now lease tok d = (Some item, d')" "db_ok d"
  shows "\<exists>p. push_wanted d now p (pi_endpoint item) \<and> pi_id item = po_id p"
  using assms(1)
proof (cases rule: claimed_push_rows)
  case (1 p e r)
  have one: "e' = e" if "e' \<in> set (db_endpoints d)" "pe_id e' = pe_id e" for e'
    using that 1(3) assms(2) by (auto simp: db_ok_def endpoints_ok_def distinct_map inj_on_def)
  obtain e' s v where el: "e' \<in> set (db_endpoints d)" "s \<in> set (db_subscriptions d)" "v \<in> set (db_devices d)"
    "su_endpoint_id s = pe_id e'" "de_fingerprint v = su_device_fingerprint s" "pe_id e' = po_endpoint_id p" "live_endpoint now e'"
    "su_disabled_at s = None" "de_active v" "has_body d (po_request_kind p) (po_request_id p) (de_fingerprint v)"
    using 1(2) unfolding claimable_def PUSH_ELIGIBLE_def by blast
  then obtain b where b: "b \<in> set (db_bodies d (po_request_kind p))" "br_request_id b = po_request_id p" "br_fingerprint b = de_fingerprint v"
    by (auto simp: has_body_def)
  have "e' = e" using one el(1,6) 1(4) by simp
  then have e: "pe_disabled_at e = None \<and> (\<forall>t. pe_expiration_at e = Some t \<longrightarrow> now < t)" "pe_endpoint e = pi_endpoint item"
    using el(7) 1(9) by (auto simp: live_endpoint_def)
  have "\<exists>e \<in> set (db_endpoints d). \<exists>s \<in> set (db_subscriptions d). \<exists>v \<in> set (db_devices d). \<exists>b \<in> set (db_bodies d (po_request_kind p)).
        pe_id e = po_endpoint_id p \<and> pe_endpoint e = pi_endpoint item \<and> pe_disabled_at e = None \<and> (\<forall>t. pe_expiration_at e = Some t \<longrightarrow> now < t) \<and>
        su_endpoint_id s = pe_id e \<and> su_disabled_at s = None \<and> su_device_fingerprint s = de_fingerprint v \<and> de_active v \<and>
        br_request_id b = po_request_id p \<and> br_fingerprint b = de_fingerprint v"
    by (intro bexI [OF _ 1(3)] bexI [OF _ el(2)] bexI [OF _ el(3)] bexI [OF _ b(1)]) (use el b e 1(4) in simp)
  then have "push_wanted d now p (pi_endpoint item)"
    using 1(1,2) unfolding push_wanted_def claimable_def request_open_def unclaimed_def unfinished_def by auto
  then show ?thesis using 1(7) by blast
qed

lemma push_alive_reads: "push_alive w = (Inr (), after_reads 1 w\<lparr>sv_push_worker_last_ok := tn_now (nth_turn 0 w)\<rparr>)"
  by (simp add: push_alive_def then_do_def read_clock_def query_def store_def Let_def after_reads_def)

lemma claim_turn:
  "then_do push_alive (\<lambda>_. then_do (store (\<lambda>t. claim_push (tn_now t) lease (tn_fresh t))) f) w =
     (let (claimed, d') = claim_push (tn_now (nth_turn 1 w)) lease (tn_fresh (nth_turn 1 w)) (seen 2 w)
      in f claimed (w\<lparr>sv_push_worker_last_ok := tn_now (nth_turn 0 w), sv_db := d', sv_turn := sv_turn w + 2\<rparr>))"
  by (simp add: then_do_def push_alive_reads store_def Let_def after_reads_def numeral_2_eq_2 split: prod.split)

text \<open>C35: pushes go only where they are wanted, and only to public addresses. A turn of the push worker posts at most one request. Its
  endpoint is that of a row of the queue which, in the store and at the clock reading of this turn's claim, was unsent, not abandoned,
  due, unclaimed and below the limit of attempts, for a request that was pending and unexpired, with an active subscribed device that
  holds a sealed body of it behind the endpoint. The endpoint passed the endpoint policy, every address the resolver gave for it is
  public, the request is pinned to one of them, and its lifetime is between 1 and 300 seconds. This holds whatever other tasks do to
  the store in between.\<close>

theorem pushes_wanted_and_public:
  assumes "reachable X S (sv_db w)" "others_keep (reachable X S) w" "push_turn X S W app env w = (r, w')"
  shows "sv_published w' = sv_published w \<or>
    (\<exists>endpoint address ttl p. sv_published w' = sv_published w @ [WebPush endpoint address ttl] \<and>
       posted_publicly S W env endpoint address ttl \<and> push_wanted (seen 2 w) (tn_now (nth_turn 1 w)) p endpoint)"
proof -
  obtain claimed d' where claim: "claim_push (tn_now (nth_turn 1 w)) PUSH_LEASE_SECS (tn_fresh (nth_turn 1 w)) (seen 2 w) = (claimed, d')"
    by fastforce
  define w2 where "w2 = w\<lparr>sv_push_worker_last_ok := tn_now (nth_turn 0 w), sv_db := d', sv_turn := sv_turn w + 2\<rparr>"
  then have p2: "sv_published w2 = sv_published w" by simp
  note run = assms(3) [unfolded push_turn_def claim_turn claim Let_def prod.case, folded w2_def]
  show ?thesis
  proof (cases claimed)
    case None
    then show ?thesis using run p2 by (simp add: lift_def)
  next
    case (Some item)
    obtain result w3 where sent: "send_push X S W app env item w2 = (result, w3)" by fastforce
    have "then_do push_alive (\<lambda>_. then_do read_clock (\<lambda>current.
        then_do (store (\<lambda>_. push_update item result current)) (\<lambda>_. lift (Inr ())))) w3 = (r, w')"
      using run sent Some by (simp add: then_do_def [of "attempt _"] attempt_def)
    then have p4: "sv_published w' = sv_published w3" by (rule written_back)
    obtain p where wanted: "push_wanted (seen 2 w) (tn_now (nth_turn 1 w)) p (pi_endpoint item)"
      using claimed_push_wanted [OF _ reachable_ok [OF seen_keeps [OF assms(2,1)]]] claim Some by blast
    from sent show ?thesis
    proof (cases rule: send_push_E)
      case quiet
      then show ?thesis using p2 p4 by simp
    next
      case (posted host port addresses ttl)
      then have "posted_publicly S W env (pi_endpoint item) (hd addresses) ttl"
        by (auto simp: posted_publicly_def list_all_iff)
      then show ?thesis using posted(1) p2 p4 wanted by auto
    qed
  qed
qed

section \<open>What is recorded of a failed push\<close>

definition push_contexts :: "string list" where
  "push_contexts = [''invalid push outbox row'', ''resolve push endpoint timed out'', ''resolve push endpoint'', ''build pinned push client'',
     ''send Web Push request'', ''invalid stored p256dh key'', ''encrypt and sign Web Push payload'', ''load VAPID signing key'',
     ''parse push endpoint for VAPID audience'', ''push endpoint VAPID audience must use HTTPS'',
     ''push endpoint has no VAPID audience host'', ''sign VAPID JWT'']"

lemma contexts_classified: "list_all (\<lambda>e. classify_push_error e \<in> {''dns_failure'', ''transport_failure''}) push_contexts"
  by code_simp

lemma built_contexts:
  assumes "build_push_request X S W vapid item ttl = Inl e"
  shows "e \<in> set push_contexts \<or> wx_uri_parse W (pi_endpoint item) = Inl e"
  using assms
  by (auto simp: build_push_request_def vapid_authorization_def endpoint_audience_def and_then_Inl_iff ok_or_def push_contexts_def
      split: if_splits option.splits prod.splits)

lemma send_push_contexts:
  assumes "send_push X S W app env item w = (Inl e, w')"
  shows "e \<in> set push_contexts \<or> wx_uri_parse W (pi_endpoint item) = Inl e"
proof -
  have own: "''invalid push outbox row'' \<in> set push_contexts" "''build pinned push client'' \<in> set push_contexts"
      "''send Web Push request'' \<in> set push_contexts" "lookup_context l \<in> set push_contexts" for l
    by (cases l; simp add: push_contexts_def)+
  have clock: "\<exists>now w1. read_clock w = (Inr now :: string + i64, w1)" for w
    by (simp add: read_clock_def query_def store_def Let_def)
  obtain now w1 where r1: "read_clock w = (Inr now :: string + i64, w1)" using clock by blast
  obtain now2 w2 where r2: "read_clock w1 = (Inr now2 :: string + i64, w2)" using clock by blast
  show ?thesis
    using assms own
    by (auto simp: send_push_def then_do_def [of read_clock] then_do_def [of "push_post _ _ _"] push_post_def r1 r2 then_do_lift lift_def
        map_err_def ok_or_def map_ok_def dest: built_contexts split: if_splits option.splits sum.splits)
qed

text \<open>The labels that a turn of the push worker writes into the queue.\<close>

definition recorded_labels :: "string set" where
  "recorded_labels = {''dns_failure'', ''transport_failure'', ''provider_retry'', ''provider_rejected'', ''endpoint_gone'', ''attempt_limit''}"

definition labelled :: "db \<Rightarrow> bool" where
  "labelled d \<longleftrightarrow> (\<forall>p \<in> set (db_push_outbox d). \<forall>e. po_last_error p = Some e \<longrightarrow> e \<in> recorded_labels)"

lemma send_push_label:
  assumes "\<And>endpoint e. wx_uri_parse W endpoint = Inl e \<Longrightarrow>
      \<not> str_contains ''non-public'' e \<and> \<not> str_contains ''timeout'' e \<and> \<not> str_contains ''timed out'' e"
    and "send_push X S W app env item w = (Inl e, w')"
  shows "classify_push_error e \<in> {''dns_failure'', ''transport_failure''}"
  using send_push_contexts [OF assms(2)]
proof
  assume "e \<in> set push_contexts"
  then show ?thesis using contexts_classified by (simp only: list_all_iff)
next
  assume "wx_uri_parse W (pi_endpoint item) = Inl e"
  from assms(1) [OF this] show ?thesis by (simp add: classify_push_error_def)
qed

lemma labelled_update:
  assumes "labelled d" "\<And>p e. q p \<Longrightarrow> po_last_error (f p) = Some e \<Longrightarrow> po_last_error p = Some e \<or> e \<in> recorded_labels"
    and "db_push_outbox d' = update_where q f (db_push_outbox d)"
  shows "labelled d'"
  using assms(1,2) unfolding labelled_def assms(3) by (auto simp: set_update_where split: if_splits)

lemma labelled_claim:
  assumes "labelled d" "claim_push now lease tok d = (claimed, d')"
  shows "labelled d'"
proof -
  let ?d = "d\<lparr>db_push_outbox := update_where (\<lambda>p. unfinished p \<and> po_attempts p \<ge> PUSH_MAX_ATTEMPTS \<and> unclaimed now p)
            (\<lambda>p. p\<lparr>po_abandoned_at := Some now, po_claim_token := None, po_claimed_until := None,
                    po_last_error := Some ''attempt_limit''\<rparr>) (db_push_outbox d)\<rparr>"
  have d: "labelled ?d" by (rule labelled_update [OF assms(1)]) (auto simp: recorded_labels_def)
  have "labelled (abandon_ineligible_pushes now d)"
    by (rule labelled_update [OF d, of "\<lambda>p. unfinished p \<and> (\<not> request_open d (po_request_kind p) (po_request_id p) now
             \<or> \<not> PUSH_ELIGIBLE d now (po_request_kind p) (po_request_id p) (po_endpoint_id p))"
      "\<lambda>p. p\<lparr>po_abandoned_at := Some now, po_claim_token := None, po_claimed_until := None\<rparr>"])
      (simp_all add: abandon_ineligible_pushes_def)
  moreover have "labelled d'" if "db_push_outbox d' = update_where q (\<lambda>q. q\<lparr>po_claim_token := Some tok,
      po_claimed_until := Some u, po_attempts := po_attempts q + 1\<rparr>) (db_push_outbox d)" for q u
    by (rule labelled_update [OF assms(1) _ that]) simp
  ultimately show ?thesis
    using assms(2) by (auto simp: claim_push_def Let_def split: list.splits if_splits)
qed

lemma labelled_push_update:
  assumes "labelled d" "push_update item result current d = (b, d')"
    and "\<And>e. result = Inl e \<Longrightarrow> classify_push_error e \<in> {''dns_failure'', ''transport_failure''}"
  shows "labelled d'"
proof -
  have abandon: "labelled d'" if "abandon_push i tok now err d = (b, d')" "err \<in> recorded_labels" for i tok now err b d'
    by (rule labelled_update [OF assms(1), of "held i tok" "\<lambda>p. p\<lparr>po_abandoned_at := Some now, po_claim_token := None,
          po_claimed_until := None, po_last_error := Some err\<rparr>"]) (use that in \<open>auto simp: abandon_push_def\<close>)
  have retry: "labelled d'" if "retry_push i tok now err d = (b, d')" "err \<in> recorded_labels" for i tok now err b d'
  proof -
    have "labelled d'" if "db_push_outbox d' = update_where (held i tok) (\<lambda>q. q\<lparr>po_available_at := t, po_claim_token := None,
        po_claimed_until := None, po_last_error := Some err\<rparr>) (db_push_outbox d)" "err \<in> recorded_labels" for d' t
      by (rule labelled_update [OF assms(1) _ that(1)]) (use that(2) in auto)
    then show ?thesis
      using that abandon assms(1) by (auto simp: retry_push_def split: option.splits if_splits)
  qed
  have disable: "labelled d'" if "disable_push_for_claim i ep tok now err d = (b, d')" "err \<in> recorded_labels" for i ep tok now err b d'
  proof -
    have "labelled d'" if "db_push_outbox d' = update_where q (\<lambda>p. p\<lparr>po_abandoned_at := Some now, po_claim_token := None,
        po_claimed_until := None, po_last_error := Some err\<rparr>) (db_push_outbox d)" for d' q
      by (rule labelled_update [OF assms(1) _ that]) (use \<open>err \<in> recorded_labels\<close> in auto)
    then show ?thesis using that(1) assms(1) by (auto simp: disable_push_for_claim_def split: if_splits)
  qed
  have mark: "labelled d'" if "mark_push_sent i tok now d = (b, d')" for i tok now b d'
    by (rule labelled_update [OF assms(1), of "held i tok" "\<lambda>p. p\<lparr>po_sent_at := Some now, po_claim_token := None,
          po_claimed_until := None\<rparr>"]) (use that in \<open>auto simp: mark_push_sent_def\<close>)
  show ?thesis
  proof (cases result)
    case (Inl e)
    then show ?thesis using assms(2,3) retry by (auto simp: recorded_labels_def)
  next
    case (Inr x)
    then show ?thesis
      using assms(2) retry abandon disable mark by (cases x) (auto simp: recorded_labels_def)
  qed
qed

text \<open>A failed attempt is written to the row that was claimed for it.\<close>

lemma failure_recorded:
  assumes "claim_push now lease tok d = (Some item, d1)" "push_update item (Inl e) current d1 = (b, d2)"
  shows "\<exists>p \<in> set (db_push_outbox d2). po_id p = pi_id item \<and> po_last_error p = Some (classify_push_error e)"
proof -
  let ?h = "held (pi_id item) (pi_claim_token item)" and ?label = "Some (classify_push_error e)"
  obtain p e' r where rows: "claim_rows d now = (p, e', r) # tl (claim_rows d now)"
    and i: "pi_id item = po_id p" "pi_claim_token item = tok"
    and d1: "db_push_outbox d1 = update_where (\<lambda>q. po_id q = po_id p \<and> unfinished q \<and> unclaimed now q)
      (\<lambda>q. q\<lparr>po_claim_token := Some tok, po_claimed_until := Some (saturating_add now lease), po_attempts := po_attempts q + 1\<rparr>) (db_push_outbox d)"
    using assms(1) by (auto simp: claim_push_def Let_def split: list.splits if_splits)
  have c: "p \<in> set (db_push_outbox d)" "unfinished p" "unclaimed now p"
    using claim_rows_claimable [of p e' r d now] rows by (metis list.set_intros(1) claimable_def)+
  then have "\<exists>q \<in> set (db_push_outbox d1). ?h q"
    unfolding d1 set_update_where by (intro bexI [OF _ imageI [OF c(1)]]) (simp add: held_def i unfinished_def)
  then obtain q where q: "q \<in> set (db_push_outbox d1)" "?h q" by blast
  then obtain q' where found: "find ?h (db_push_outbox d1) = Some q'" by (metis find_None_iff not_None_eq)
  have written: "\<exists>p \<in> set (update_where ?h f (db_push_outbox d1)). po_id p = pi_id item \<and> po_last_error p = ?label"
    if "\<And>p. po_id (f p) = po_id p \<and> po_last_error (f p) = ?label" for f
    unfolding set_update_where using that q by (intro bexI [OF _ imageI [OF q(1)]]) (simp add: held_def)
  show ?thesis
    using assms(2) found by (auto simp: retry_push_def abandon_push_def intro!: written split: if_splits)
qed


section \<open>The server as a whole\<close>

text \<open>Whatever calls, deliveries and turns of the workers the server runs, in any order, every store it goes through is reachable.\<close>

lemma server_keeps_store:
  assumes "reachable X S (sv_db w)" "others_keep (reachable X S) w"
  shows "reachable X S (sv_db (fold (run_task X S H W app) tasks w)) \<and> db_ok (sv_db (fold (run_task X S H W app) tasks w))"
  using reach.run_tasks_keep [OF assms(2,1)] reachable_ok by blast

section \<open>A delivery and a push\<close>

definition sample_workers :: worker_crates where
  "sample_workers = \<lparr>wx_envelope_type = (\<lambda>_. Inr (Some AUTH_ENVELOPE_TYPE)), wx_auth_envelope_from_slice = (\<lambda>_. Inr sample_auth_envelope),
     wx_tool_envelope_from_slice = (\<lambda>_. Inl ''no value''), wx_intent_from_slice = (\<lambda>_. Inl ''no value''),
     wx_activation_from_slice = (\<lambda>_. Inl ''no value''), wx_notification_to_vec = (\<lambda>_ _ _. Inr [6]), wx_origin = id,
     wx_signing_key = Some, wx_jwt = (\<lambda>_ _ _ _. Some ''j''), wx_uri_parse = (\<lambda>_. Inr ()), wx_web_push = (\<lambda>_ _ _ _ _. Some ([], [7])),
     wx_default_port = (\<lambda>_. Some 443), wx_public_key = (\<lambda>_. True)\<rparr>"

definition sample_quiet :: server where
  "sample_quiet = sample_web\<lparr>sv_db := sample_subscribed, sv_turns := (\<lambda>_. sample_turn\<lparr>tn_now := 1010, tn_clock := 1010\<rparr>)\<rparr>"

lemma sample_quiet_alone: "alone sample_quiet"
  by (simp add: alone_def sample_quiet_def sample_turn_def)

lemma sample_delivery:
  "\<exists>w'. request_message sample_auth sample_server sample_workers sample_app ''oshioki.auth.h'' [8] sample_quiet = (Inr AckOk, w')"
proof -
  have lane: "request_delivery_lane sample_workers ''oshioki.auth.h'' [8] = Some Authentication"
    by (simp add: request_delivery_lane_def envelope_type_def sample_workers_def strip_prefix_def starts_with_def AUTH_ENVELOPE_TYPE_def)
  show ?thesis
    unfolding request_message_def lane
    by (simp add: MAX_ENVELOPE_BYTES_def ingest_auth_envelope_def sample_workers_def then_do_def transact_def store_def
        sample_quiet_def sample_turn_def sample_asks queue_auth_notification_def store_notification_def sample_app_def lift_def acked_def)
qed

theorem acknowledged_request_is_stored_witness:
  "\<exists>w'. request_message sample_auth sample_server sample_workers sample_app ''oshioki.auth.h'' [8] sample_quiet = (Inr AckOk, w') \<and>
    (\<exists>lane request_id. delivers sample_auth sample_workers ''oshioki.auth.h'' [8] lane request_id \<and>
       stored_as sample_auth [8] lane request_id (sv_db w'))"
proof -
  obtain w' where run: "request_message sample_auth sample_server sample_workers sample_app ''oshioki.auth.h'' [8] sample_quiet = (Inr AckOk, w')"
    using sample_delivery by blast
  from acknowledged_request_is_stored [OF sample_quiet_alone run] run show ?thesis by blast
qed

definition sample_item :: PushItem where
  "sample_item = \<lparr>pi_id = 1, pi_endpoint_id = ''pe'', pi_endpoint = ''p'', pi_p256dh = sample_sec1, pi_auth = replicate 16 1,
     pi_payload = [5], pi_request_kind = AuthRows, pi_request_id = ''r1'', pi_expires_at = 1090, pi_claim_token = ''f'', pi_attempts = 1\<rparr>"

definition sample_push_env :: "lookup_error + IpAddr list \<Rightarrow> push_env" where
  "sample_push_env found = \<lparr>pv_lookup = (\<lambda>_ _. found), pv_client = Some (), pv_response = Some 201\<rparr>"

lemma sample_endpoint_valid: "validate_push_endpoint sample_server ''p'' = Inr ()"
  by (rule register_parts [OF sample_registers])

lemma sample_ttl: "push_ttl 1090 1020 = Some 70"
  by code_simp

lemma sample_target: "push_target sample_server sample_workers ''p'' = Some (''p'', 443)"
  by (simp add: push_target_def sample_server_def sample_workers_def)

lemma sample_claim: "\<exists>d'. claim_push 1020 lease ''f'' sample_asked = (Some sample_item, d')"
proof -
  have "claimable sample_asked 1020 sample_push"
    by (simp add: claimable_def PUSH_ELIGIBLE_def request_open_def has_body_def live_endpoint_def unfinished_def unclaimed_def sample_asked_def
        outbox_append_def sample_push_def sample_pending_def sample_subscribed_def sample_enrolled_def sample_row_def PUSH_MAX_ATTEMPTS_def)
  then show ?thesis
    by (simp add: claim_push_def claim_rows_def changed_def sample_asked_def outbox_append_def sample_subscribed_def)
      (simp add: sample_push_def sample_pending_def sample_item_def unfinished_def unclaimed_def)
qed

lemma sample_push_sent:
  assumes "sv_turns w = (\<lambda>_. sample_turn)"
  shows "send_push sample_auth sample_server sample_workers sample_app (sample_push_env (Inr [V4 [8, 8, 8, 8]])) sample_item w
      = (Inr PushSent, w\<lparr>sv_turn := sv_turn w + 2, sv_published := sv_published w @ [WebPush ''p'' (V4 [8, 8, 8, 8]) 70]\<rparr>)"
proof -
  obtain b where built: "build_push_request sample_auth sample_server sample_workers (as_vapid sample_app) sample_item 70 = Inr b"
    by (simp add: build_push_request_def vapid_authorization_def endpoint_audience_def sample_workers_def sample_server_def ok_or_def)
  show ?thesis
    using assms built [unfolded sample_item_def]
    by (simp add: send_push_def PUSH_MAX_ATTEMPTS_def sample_endpoint_valid sample_target sample_ttl is_ok_def public_ipv4_def classify_provider_response_def
        sample_item_def sample_push_env_def then_do_def lift_def read_clock_def query_def store_def sample_turn_def push_post_def)
qed

theorem pushes_wanted_and_public_witness:
  "\<exists>(w' :: server) p. sv_published w' = [WebPush ''p'' (V4 [8, 8, 8, 8]) 70] \<and>
     push_wanted (seen 2 sample_web) 1020 p ''p''"
proof -
  let ?env = "sample_push_env (Inr [V4 [8, 8, 8, 8]])"
  obtain d' where claim: "claim_push 1020 PUSH_LEASE_SECS ''f'' sample_asked = (Some sample_item, d')" using sample_claim by blast
  obtain r w' where run: "push_turn sample_auth sample_server sample_workers sample_app ?env sample_web = (r, w')" by fastforce
  have turn: "tn_now (nth_turn n sample_web) = 1020" "tn_fresh (nth_turn n sample_web) = ''f''" "seen n sample_web = sample_asked" for n
    by (induction n) (simp_all add: sample_web_def sample_turn_def)
  let ?w2 = "sample_web\<lparr>sv_push_worker_last_ok := 1020, sv_db := d', sv_turn := sv_turn sample_web + 2\<rparr>"
  have "then_do push_alive (\<lambda>_. then_do read_clock (\<lambda>current.
         then_do (store (\<lambda>_. push_update sample_item (Inr PushSent) current)) (\<lambda>_. lift (Inr ()))))
      (?w2\<lparr>sv_turn := Suc (Suc (Suc (Suc 0))), sv_published := [WebPush ''p'' (V4 [8, 8, 8, 8]) 70]\<rparr>) = (r, w')"
    using run [unfolded push_turn_def claim_turn turn claim Let_def prod.case option.case]
    by (simp add: then_do_def [of "attempt _"] attempt_def sample_push_sent sample_web_def)
  from written_back [OF this] have published: "sv_published w' = [WebPush ''p'' (V4 [8, 8, 8, 8]) 70]" by simp
  moreover have "sv_published sample_web = []" by (simp add: sample_web_def)
  ultimately show ?thesis using pushes_wanted_and_public [OF sample_web_ready(1,3) run, unfolded turn] turn(3) by auto
qed


end
