(* ===== verification/Pam_Context.thy ===== *)
theory Pam_Context
  imports Prelude
begin

text \<open>
  The PAM module's decision path (\<open>pam/src/lib.rs\<close>): what it reads of the PAM handle, the request it
  builds for the helper, the record it keeps on the handle so that a password retry never asks a device
  a second time, and the ownership rule for the helper's path. The helper itself is a function from the
  request to its outcome; \<open>Pam_Helper\<close> models how it is run. A status is its symbolic name, since
  Linux-PAM and OpenPAM number them differently; \<open>status_code\<close> gives both numberings.
\<close>

section \<open>Constants and types\<close>

datatype pam_status = PAM_SUCCESS | PAM_SERVICE_ERR | PAM_SYSTEM_ERR | PAM_AUTH_ERR | PAM_AUTHINFO_UNAVAIL

fun status_code :: "bool \<Rightarrow> pam_status \<Rightarrow> int" where
  "status_code linux PAM_SUCCESS = 0"
| "status_code linux PAM_SERVICE_ERR = 3"
| "status_code linux PAM_SYSTEM_ERR = 4"
| "status_code linux PAM_AUTH_ERR = (if linux then 7 else 9)"
| "status_code linux PAM_AUTHINFO_UNAVAIL = (if linux then 9 else 12)"

datatype pam_item_type = PAM_SERVICE | PAM_USER | PAM_TTY | PAM_RUSER

definition HELPER_PATH :: string where "HELPER_PATH = ''/usr/local/sbin/oshioki''"
definition PAM_PROTOCOL_VERSION :: u8 where "PAM_PROTOCOL_VERSION = 2"
definition MAX_TEXT_BYTES :: nat where "MAX_TEXT_BYTES = 4096"
definition PAM_MAX_USER_BYTES :: nat where "PAM_MAX_USER_BYTES = 256"
definition PAM_MAX_SERVICE_BYTES :: nat where "PAM_MAX_SERVICE_BYTES = 32"
definition MAX_ARG_COUNT :: nat where "MAX_ARG_COUNT = 64"
definition MAX_ARG_BYTES :: nat where "MAX_ARG_BYTES = 4096"
definition PAM_MAX_REQUEST_BYTES :: nat where "PAM_MAX_REQUEST_BYTES = 16 * 1024"
definition REQUEST_HEADROOM_BYTES :: nat where "REQUEST_HEADROOM_BYTES = 1024"

record AdvisoryArgv =
  aa_available :: bool
  aa_truncated :: bool
  aa_values :: "string list"

record HelperRequest =
  hq_pam_protocol_version :: u8
  hq_principal :: string
  hq_invoking :: string
  hq_service :: string
  hq_tty :: "string option"
  hq_process_pid :: nat
  hq_submitted_argv :: AdvisoryArgv

record ContextKey =
  ck_principal_name :: string
  ck_invoking_name :: string
  ck_service :: string
  ck_tty :: "string option"
  ck_process_pid :: nat

record Context =
  cx_key :: ContextKey
  cx_request :: bytes

datatype AttemptOutcome = InProgress | AttemptSuccess | AttemptUnavailable | AttemptFailure

record AttemptState =
  st_context :: "ContextKey option"
  st_outcome :: AttemptOutcome

definition AttemptState_empty :: AttemptState where
  "AttemptState_empty = \<lparr>st_context = None, st_outcome = InProgress\<rparr>"

datatype StateDecision = Reuse pam_status | Run

datatype HelperOutcome = HelperSuccess | HelperUnavailable | HelperFailure

datatype HelperPathStatus = PathValid | PathUnavailable | PathInsecure

definition hard_failure_status :: pam_status where "hard_failure_status = PAM_AUTH_ERR"

section \<open>Reading the handle\<close>

text \<open>What \<open>pam_get_item\<close> gives: an error, a null pointer, or a string, as its bytes before the NUL.\<close>

datatype pam_item = ItemError | ItemNull | ItemBytes bytes

fun scan_item :: "nat \<Rightarrow> bytes \<Rightarrow> bytes \<Rightarrow> pam_status + bytes" where
  "scan_item index acc [] = Inr acc"
| "scan_item index acc (b # memory) =
     (if index \<ge> MAX_TEXT_BYTES \<or> b = 0 then Inr acc
      else if index + 1 = MAX_TEXT_BYTES then Inl PAM_AUTH_ERR
      else scan_item (index + 1) (acc @ [b]) memory)"

fun pam_item_string :: "pam_item \<Rightarrow> pam_status + string option" where
  "pam_item_string ItemError = Inl PAM_SYSTEM_ERR"
| "pam_item_string ItemNull = Inr None"
| "pam_item_string (ItemBytes memory) =
     and_then (scan_item 0 [] memory) (\<lambda>bs. map_ok Some (ok_or (from_utf8 bs) PAM_AUTH_ERR))"

definition validate_text :: "string \<Rightarrow> nat \<Rightarrow> unit + unit" where
  "validate_text s max_bytes =
     (if s = [] \<or> length s > max_bytes \<or> CHR 0x00 \<in> set s \<or> list_ex is_control (chars_of s)
      then Inl () else Inr ())"

definition is_supported_service :: "string \<Rightarrow> bool" where
  "is_supported_service service \<longleftrightarrow> service = ''sudo'' \<or> service = ''sudo-i''"

definition bounded_identity :: "string option \<Rightarrow> pam_status + string" where
  "bounded_identity v =
     and_then (ok_or v PAM_AUTHINFO_UNAVAIL) (\<lambda>s.
     and_then (map_err (\<lambda>_. PAM_AUTH_ERR) (validate_text s PAM_MAX_USER_BYTES)) (\<lambda>_. Inr s))"

fun capture_from :: "string list \<Rightarrow> nat \<Rightarrow> bytes list \<Rightarrow> AdvisoryArgv" where
  "capture_from values used [] = \<lparr>aa_available = values \<noteq> [], aa_truncated = False, aa_values = values\<rparr>"
| "capture_from values used (arg # args) =
     (case from_utf8 arg of
        None \<Rightarrow> \<lparr>aa_available = False, aa_truncated = False, aa_values = []\<rparr>
      | Some s \<Rightarrow>
          if length values \<ge> MAX_ARG_COUNT \<or> length s > MAX_TEXT_BYTES \<or> used + length s > MAX_ARG_BYTES
          then \<lparr>aa_available = values \<noteq> [], aa_truncated = True, aa_values = values\<rparr>
          else capture_from (values @ [s]) (used + length s) args)"

definition capture_submitted_argv :: "bytes list \<Rightarrow> AdvisoryArgv" where
  "capture_submitted_argv args = capture_from [] 0 args"

text \<open>One turn of the loop of \<open>serialize_request\<close> per argument that is dropped; \<open>to_vec\<close> is
  \<open>serde_json::to_vec\<close> on the request.\<close>

function serialize_request :: "(HelperRequest \<Rightarrow> bytes option) \<Rightarrow> HelperRequest \<Rightarrow> unit + bytes" where
  "serialize_request to_vec request =
     (case to_vec request of
        None \<Rightarrow> Inl ()
      | Some bs \<Rightarrow>
          if length bs + REQUEST_HEADROOM_BYTES \<le> PAM_MAX_REQUEST_BYTES then Inr bs
          else if aa_values (hq_submitted_argv request) = [] then Inl ()
          else serialize_request to_vec (request\<lparr>hq_submitted_argv := (hq_submitted_argv request)
            \<lparr>aa_values := butlast (aa_values (hq_submitted_argv request)), aa_truncated := True\<rparr>\<rparr>))"
  by pat_completeness auto

termination
  by (relation "measure (\<lambda>(to_vec, request). length (aa_values (hq_submitted_argv request)))") auto

text \<open>What one call sees: the items of the handle, the process id and the argument vector, and the
  statuses of \<open>pam_get_data\<close> and \<open>pam_set_data\<close>.\<close>

record pam_call =
  pc_item :: "pam_item_type \<Rightarrow> pam_item"
  pc_pid :: int
  pc_args :: "bytes list"
  pc_get_fails :: bool
  pc_set_fails :: bool

definition collect_context :: "(HelperRequest \<Rightarrow> bytes option) \<Rightarrow> pam_call \<Rightarrow> pam_status + Context" where
  "collect_context to_vec c =
     and_then (pam_item_string (pc_item c PAM_SERVICE)) (\<lambda>item.
     and_then (ok_or item PAM_SERVICE_ERR) (\<lambda>service.
     if \<not> is_supported_service service then Inl PAM_SERVICE_ERR
     else and_then (map_err (\<lambda>_. PAM_AUTH_ERR) (validate_text service PAM_MAX_SERVICE_BYTES)) (\<lambda>_.
     and_then (pam_item_string (pc_item c PAM_USER)) (\<lambda>user.
     and_then (bounded_identity user) (\<lambda>principal_name.
     and_then (pam_item_string (pc_item c PAM_RUSER)) (\<lambda>ruser.
     and_then (bounded_identity ruser) (\<lambda>invoking_name.
     and_then (pam_item_string (pc_item c PAM_TTY)) (\<lambda>raw_tty.
     let tty = (if raw_tty = Some [] then None else raw_tty) in
     and_then (case tty of None \<Rightarrow> Inr ()
               | Some t \<Rightarrow> map_err (\<lambda>_. PAM_AUTH_ERR) (validate_text t MAX_TEXT_BYTES)) (\<lambda>_.
     if \<not> (0 \<le> pc_pid c \<and> pc_pid c < 2 ^ 32) then Inl PAM_AUTH_ERR
     else
     let process_pid = nat (pc_pid c);
         key = \<lparr>ck_principal_name = principal_name, ck_invoking_name = invoking_name, ck_service = service,
                ck_tty = tty, ck_process_pid = process_pid\<rparr>;
         request = \<lparr>hq_pam_protocol_version = PAM_PROTOCOL_VERSION, hq_principal = principal_name,
                hq_invoking = invoking_name, hq_service = service, hq_tty = tty, hq_process_pid = process_pid,
                hq_submitted_argv = capture_submitted_argv (pc_args c)\<rparr>
     in and_then (map_err (\<lambda>_. PAM_AUTH_ERR) (serialize_request to_vec request)) (\<lambda>bs.
          Inr \<lparr>cx_key = key, cx_request = bs\<rparr>))))))))))"

section \<open>The record on the handle\<close>

text \<open>The module data of the handle: at most one record, which PAM keeps until the handle ends.\<close>

type_synonym pam_data = "AttemptState option"

definition get_or_create_state :: "pam_call \<Rightarrow> pam_data \<Rightarrow> pam_status + AttemptState \<times> pam_data" where
  "get_or_create_state c stored =
     (case stored of
        Some st \<Rightarrow> Inr (st, stored)
      | None \<Rightarrow>
          if pc_get_fails c then Inl PAM_SYSTEM_ERR
          else if pc_set_fails c then Inl PAM_SYSTEM_ERR
          else Inr (AttemptState_empty, Some AttemptState_empty))"

fun reused_status :: "AttemptOutcome \<Rightarrow> pam_status" where
  "reused_status AttemptUnavailable = PAM_AUTHINFO_UNAVAIL"
| "reused_status AttemptSuccess = hard_failure_status"
| "reused_status AttemptFailure = hard_failure_status"
| "reused_status InProgress = hard_failure_status"

definition decide_attempt :: "AttemptState \<Rightarrow> ContextKey \<Rightarrow> StateDecision \<times> AttemptState" where
  "decide_attempt st key =
     (if st_context st = Some key then (Reuse (reused_status (st_outcome st)), st)
      else (Run, \<lparr>st_context = Some key, st_outcome = InProgress\<rparr>))"

fun recorded_outcome :: "HelperOutcome \<Rightarrow> AttemptOutcome" where
  "recorded_outcome HelperSuccess = AttemptSuccess"
| "recorded_outcome HelperUnavailable = AttemptUnavailable"
| "recorded_outcome HelperFailure = AttemptFailure"

fun outcome_status :: "HelperOutcome \<Rightarrow> pam_status" where
  "outcome_status HelperSuccess = PAM_SUCCESS"
| "outcome_status HelperUnavailable = PAM_AUTHINFO_UNAVAIL"
| "outcome_status HelperFailure = hard_failure_status"

text \<open>The whole decision: the status, the request given to a helper if one was started, and the module
  data afterwards.\<close>

definition authenticate_with ::
  "(HelperRequest \<Rightarrow> bytes option) \<Rightarrow> (bytes \<Rightarrow> HelperOutcome) \<Rightarrow> pam_call \<Rightarrow> pam_data
    \<Rightarrow> pam_status \<times> bytes option \<times> pam_data" where
  "authenticate_with to_vec run c stored =
     (case collect_context to_vec c of
        Inl status \<Rightarrow> (status, None, stored)
      | Inr context \<Rightarrow>
     case get_or_create_state c stored of
        Inl status \<Rightarrow> (status, None, stored)
      | Inr (st, stored) \<Rightarrow>
     case decide_attempt st (cx_key context) of
        (Reuse status, st) \<Rightarrow> (status, None, Some st)
      | (Run, st) \<Rightarrow>
          let outcome = run (cx_request context) in
          (case get_or_create_state c (Some st) of
             Inl status \<Rightarrow> (status, Some (cx_request context), Some st)
           | Inr (st, _) \<Rightarrow>
               (outcome_status outcome, Some (cx_request context), Some (st\<lparr>st_outcome := recorded_outcome outcome\<rparr>))))"

section \<open>The helper's path\<close>

text \<open>What \<open>symlink_metadata\<close> gives for a path.\<close>

record metadata =
  md_uid :: u32
  md_mode :: u32
  md_is_dir :: bool
  md_is_file :: bool

datatype stat_result = Stat metadata | NotFound | StatError

unbundle bit_operations_syntax

definition check_metadata :: "metadata \<Rightarrow> bool \<Rightarrow> HelperPathStatus + unit" where
  "check_metadata m directory_expected =
     (if md_uid m \<noteq> 0 \<or> md_mode m AND 0x12 \<noteq> 0 then Inl PathInsecure
      else if directory_expected then (if \<not> md_is_dir m then Inl PathInsecure else Inr ())
      else if \<not> md_is_file m \<or> md_mode m AND 0x49 = 0 \<or> md_mode m AND 0xC00 \<noteq> 0 then Inl PathInsecure
      else Inr ())"

fun secure_metadata :: "stat_result \<Rightarrow> bool \<Rightarrow> HelperPathStatus + unit" where
  "secure_metadata (Stat m) directory = check_metadata m directory"
| "secure_metadata NotFound directory = Inl PathUnavailable"
| "secure_metadata StatError directory = Inl PathInsecure"

definition validate_helper_path :: "(string \<Rightarrow> stat_result) \<Rightarrow> HelperPathStatus" where
  "validate_helper_path stat =
     (if is_err (secure_metadata (stat ''/'') True) then PathInsecure
      else case for_each_r (\<lambda>component. secure_metadata (stat component) True)
             [''/usr'', ''/usr/local'', ''/usr/local/sbin''] of
        Inl status \<Rightarrow> status
      | Inr _ \<Rightarrow> (case secure_metadata (stat HELPER_PATH) False of Inl status \<Rightarrow> status | Inr _ \<Rightarrow> PathValid))"

text \<open>\<open>authenticate\<close>: only root calls a helper, and only one at a path nobody else can change.\<close>

definition guarded_run :: "(string \<Rightarrow> stat_result) \<Rightarrow> (bytes \<Rightarrow> HelperOutcome) \<Rightarrow> bytes \<Rightarrow> HelperOutcome" where
  "guarded_run stat run_helper request = (case validate_helper_path stat of
     PathValid \<Rightarrow> run_helper request | PathUnavailable \<Rightarrow> HelperUnavailable | PathInsecure \<Rightarrow> HelperFailure)"

definition pam_authenticate ::
  "(HelperRequest \<Rightarrow> bytes option) \<Rightarrow> bool \<Rightarrow> (string \<Rightarrow> stat_result) \<Rightarrow> (bytes \<Rightarrow> HelperOutcome) \<Rightarrow> nat \<Rightarrow> pam_call
    \<Rightarrow> pam_data \<Rightarrow> pam_status \<times> bytes option \<times> pam_data" where
  "pam_authenticate to_vec null_handle stat run_helper euid c stored =
     (if null_handle then (PAM_SYSTEM_ERR, None, stored)
      else if euid \<noteq> 0 then (PAM_AUTH_ERR, None, stored)
      else authenticate_with to_vec (guarded_run stat run_helper) c stored)"

section \<open>The request fits\<close>

text \<open>The request with its first \<open>n\<close> arguments.\<close>

definition keep_args :: "nat \<Rightarrow> HelperRequest \<Rightarrow> HelperRequest" where
  "keep_args n request =
     (if n \<ge> length (aa_values (hq_submitted_argv request)) then request
      else request\<lparr>hq_submitted_argv := (hq_submitted_argv request)
        \<lparr>aa_values := take n (aa_values (hq_submitted_argv request)), aa_truncated := True\<rparr>\<rparr>)"

definition fits :: "bytes \<Rightarrow> bool" where
  "fits bs \<longleftrightarrow> length bs + REQUEST_HEADROOM_BYTES \<le> PAM_MAX_REQUEST_BYTES"

definition drop_last_arg :: "HelperRequest \<Rightarrow> HelperRequest" where
  "drop_last_arg request = request\<lparr>hq_submitted_argv := (hq_submitted_argv request)
     \<lparr>aa_values := butlast (aa_values (hq_submitted_argv request)), aa_truncated := True\<rparr>\<rparr>"

lemma keep_args_drop_last:
  assumes "n < length (aa_values (hq_submitted_argv request))"
  shows "keep_args n (drop_last_arg request) = keep_args n request"
  using assms by (cases "n = length (aa_values (hq_submitted_argv request)) - 1")
    (auto simp: keep_args_def drop_last_arg_def butlast_conv_take take_butlast)

lemma serialize_request_unfold: "serialize_request to_vec request =
   (case to_vec request of None \<Rightarrow> Inl ()
    | Some bs \<Rightarrow> if fits bs then Inr bs else if aa_values (hq_submitted_argv request) = [] then Inl ()
        else serialize_request to_vec (drop_last_arg request))"
  by (simp add: fits_def drop_last_arg_def serialize_request.simps [of to_vec request] split: option.split)

declare serialize_request.simps [simp del]

lemma keep_args_all: "length (aa_values (hq_submitted_argv request)) \<le> n \<Longrightarrow> keep_args n request = request"
  by (simp add: keep_args_def)

text \<open>the helper's request always leaves room below its cap and never loses more advisory
  arguments than it must: what is sent is the serialization with the longest prefix of the arguments
  that fits, all other fields unchanged, and a request fails only when it does not fit even without
  any argument.\<close>

theorem serialize_request_keeps_longest:
  assumes "\<And>n. to_vec (keep_args n request) \<noteq> None"
  shows "case serialize_request to_vec request of
      Inr bs \<Rightarrow> \<exists>n \<le> length (aa_values (hq_submitted_argv request)). to_vec (keep_args n request) = Some bs \<and> fits bs \<and>
        (\<forall>m b. n < m \<longrightarrow> m \<le> length (aa_values (hq_submitted_argv request)) \<longrightarrow> to_vec (keep_args m request) = Some b \<longrightarrow> \<not> fits b)
    | Inl _ \<Rightarrow> \<forall>m b. m \<le> length (aa_values (hq_submitted_argv request)) \<longrightarrow> to_vec (keep_args m request) = Some b \<longrightarrow> \<not> fits b"
  using assms
proof (induction "length (aa_values (hq_submitted_argv request))" arbitrary: request)
  case 0
  then obtain bs where "to_vec request = Some bs" by (metis keep_args_all le_refl option.exhaust)
  with 0 show ?case by (auto simp: serialize_request_unfold [of to_vec request] keep_args_def)
next
  case (Suc k)
  let ?n = "length (aa_values (hq_submitted_argv request))"
  obtain bs where bs: "to_vec request = Some bs"
    using Suc.prems [of ?n] by (auto simp: keep_args_all)
  have rest: "length (aa_values (hq_submitted_argv (drop_last_arg request))) = k"
    using Suc.hyps(2) by (simp add: drop_last_arg_def)
  have same: "keep_args m (drop_last_arg request) = keep_args m request" if "m \<le> k" for m
    using that Suc.hyps(2) by (intro keep_args_drop_last) simp
  have serial: "to_vec (keep_args m (drop_last_arg request)) \<noteq> None" for m
  proof (cases "m \<le> k")
    case True then show ?thesis using same Suc.prems by simp
  next
    case False
    then have "keep_args m (drop_last_arg request) = keep_args k (drop_last_arg request)"
      using rest by (simp add: keep_args_all)
    then show ?thesis using same [of k] Suc.prems by simp
  qed
  note IH = Suc.hyps(1) [OF rest [symmetric] serial]
  show ?case
  proof (cases "fits bs")
    case True
    then show ?thesis using bs
      by (auto simp: serialize_request_unfold [of to_vec request] keep_args_all intro!: exI [of _ ?n])
  next
    case False
    have step: "serialize_request to_vec request = serialize_request to_vec (drop_last_arg request)"
      using bs False Suc.hyps(2) by (auto simp: serialize_request_unfold [of to_vec request])
    have top: "\<not> fits b" if "to_vec (keep_args (Suc k) request) = Some b" for b
      using that bs False Suc.hyps(2) by (simp add: keep_args_all)
    show ?thesis
      using IH top unfolding step rest Suc.hyps(2) [symmetric]
      by (auto simp: same le_Suc_eq split: sum.splits)
  qed
qed

section \<open>One device request per context\<close>

lemma authenticate_with_cases:
  assumes "authenticate_with to_vec run c stored = (status, started, stored')"
  obtains (no_context) "collect_context to_vec c = Inl status" "started = None" "stored' = stored"
  | (no_record) ctxt where "collect_context to_vec c = Inr ctxt" "stored = None" "status = PAM_SYSTEM_ERR"
      "started = None" "stored' = None"
  | (again) ctxt st where "collect_context to_vec c = Inr ctxt" "stored = Some st"
      "st_context st = Some (cx_key ctxt)" "status = reused_status (st_outcome st)" "started = None" "stored' = stored"
  | (run) ctxt where "collect_context to_vec c = Inr ctxt" "\<And>st. stored = Some st \<Longrightarrow> st_context st \<noteq> Some (cx_key ctxt)"
      "status = outcome_status (run (cx_request ctxt))" "started = Some (cx_request ctxt)"
      "stored' = Some \<lparr>st_context = Some (cx_key ctxt), st_outcome = recorded_outcome (run (cx_request ctxt))\<rparr>"
proof (cases "collect_context to_vec c")
  case (Inl e)
  then show ?thesis using assms by (intro no_context) (auto simp: authenticate_with_def)
next
  case (Inr ctxt)
  show ?thesis
  proof (cases "get_or_create_state c stored")
    case (Inl e)
    then have "stored = None" "e = PAM_SYSTEM_ERR"
      by (auto simp: get_or_create_state_def split: option.splits if_splits)
    then show ?thesis using assms Inr Inl by (intro no_record [of ctxt]) (auto simp: authenticate_with_def)
  next
    case ok: (Inr r)
    then obtain st where st: "r = (st, Some st)" "stored = Some st \<or> stored = None \<and> st = AttemptState_empty"
      by (auto simp: get_or_create_state_def split: option.splits if_splits)
    show ?thesis
    proof (cases "st_context st = Some (cx_key ctxt)")
      case True
      then have "stored = Some st" using st by (auto simp: AttemptState_empty_def)
      then show ?thesis using assms Inr ok st True
        by (intro again [of ctxt st]) (auto simp: authenticate_with_def decide_attempt_def)
    next
      case False
      then show ?thesis using assms Inr ok st
        by (intro run [of ctxt])
          (auto simp: authenticate_with_def decide_attempt_def Let_def get_or_create_state_def)
    qed
  qed
qed

lemma reused_never_succeeds [simp]: "reused_status x \<noteq> PAM_SUCCESS" "PAM_SUCCESS \<noteq> reused_status x"
  by (cases x; auto simp: hard_failure_status_def)+

lemma outcome_success [simp]: "outcome_status x = PAM_SUCCESS \<longleftrightarrow> x = HelperSuccess"
  by (cases x) (auto simp: hard_failure_status_def)

lemma collect_context_no_success: "collect_context to_vec c \<noteq> Inl PAM_SUCCESS"
proof -
  have item: "pam_item_string i \<noteq> Inl PAM_SUCCESS" for i
  proof -
    have "scan_item n acc m \<noteq> Inl PAM_SUCCESS" for n acc m by (induction n acc m rule: scan_item.induct) auto
    then show ?thesis by (cases i) (auto simp: and_then_def ok_or_def map_ok_def split: sum.splits option.splits)
  qed
  have identity: "bounded_identity v \<noteq> Inl PAM_SUCCESS" for v
    by (auto simp: bounded_identity_def and_then_def ok_or_def map_err_def split: sum.splits option.splits)
  show ?thesis using item identity
    by (simp add: collect_context_def failure_simps Let_def split: option.split)
qed

lemma collect_context_parts:
  assumes "collect_context to_vec c = Inr ctxt"
  shows "is_supported_service (ck_service (cx_key ctxt))"
    and "pam_item_string (pc_item c PAM_USER) = Inr (Some (ck_principal_name (cx_key ctxt)))"
    and "pam_item_string (pc_item c PAM_RUSER) = Inr (Some (ck_invoking_name (cx_key ctxt)))"
    and "fits (cx_request ctxt)"
    and "pam_item_string (pc_item c PAM_SERVICE) = Inr (Some (ck_service (cx_key ctxt)))"
    and "\<exists>tty. pam_item_string (pc_item c PAM_TTY) = Inr tty \<and> ck_tty (cx_key ctxt) = (if tty = Some [] then None else tty)"
proof -
  have fits: "serialize_request to_vec r = Inr bs \<Longrightarrow> fits bs" for r bs
  proof (induction to_vec r rule: serialize_request.induct)
    case (1 to_vec request)
    then show ?case
      by (auto simp: serialize_request_unfold [of to_vec request] fits_def drop_last_arg_def split: option.splits if_splits)
  qed
  show "is_supported_service (ck_service (cx_key ctxt))"
    and "pam_item_string (pc_item c PAM_USER) = Inr (Some (ck_principal_name (cx_key ctxt)))"
    and "pam_item_string (pc_item c PAM_RUSER) = Inr (Some (ck_invoking_name (cx_key ctxt)))"
    and "fits (cx_request ctxt)"
    and "pam_item_string (pc_item c PAM_SERVICE) = Inr (Some (ck_service (cx_key ctxt)))"
    and "\<exists>tty. pam_item_string (pc_item c PAM_TTY) = Inr tty \<and> ck_tty (cx_key ctxt) = (if tty = Some [] then None else tty)"
    using assms fits
    by (auto simp: collect_context_def bounded_identity_def result_simps Let_def split: if_splits option.splits)
qed

text \<open>C15: the module says yes only after asking a device in this very call. A success needs root, a
  helper no other user can replace, the items for service, user and remote user readable and present, the
  service supported, the terminal item readable (it may be absent or empty), a record on the handle that is
  not of the same context, and the success of the helper on exactly the request built from these items in
  this call; that context is then on record.\<close>

theorem pam_success_is_fresh:
  assumes "pam_authenticate to_vec null_handle stat run_helper euid c stored = (PAM_SUCCESS, started, stored')"
  shows "\<exists>context. collect_context to_vec c = Inr context \<and> euid = 0 \<and> validate_helper_path stat = PathValid \<and>
    is_supported_service (ck_service (cx_key context)) \<and>
    pam_item_string (pc_item c PAM_USER) = Inr (Some (ck_principal_name (cx_key context))) \<and>
    pam_item_string (pc_item c PAM_RUSER) = Inr (Some (ck_invoking_name (cx_key context))) \<and>
    pam_item_string (pc_item c PAM_SERVICE) = Inr (Some (ck_service (cx_key context))) \<and>
    (\<exists>tty. pam_item_string (pc_item c PAM_TTY) = Inr tty \<and> ck_tty (cx_key context) = (if tty = Some [] then None else tty)) \<and>
    started = Some (cx_request context) \<and> fits (cx_request context) \<and> run_helper (cx_request context) = HelperSuccess \<and>
    (\<forall>st. stored = Some st \<longrightarrow> st_context st \<noteq> Some (cx_key context)) \<and>
    map_option st_context stored' = Some (Some (cx_key context))"
proof -
  have run: "authenticate_with to_vec (guarded_run stat run_helper) c stored = (PAM_SUCCESS, started, stored')" and "euid = 0"
    using assms by (auto simp: pam_authenticate_def split: if_splits)
  from run show ?thesis
  proof (cases rule: authenticate_with_cases)
    case (run ctxt)
    have "guarded_run stat run_helper (cx_request ctxt) = HelperSuccess" using run(3) by (metis outcome_success)
    then have "validate_helper_path stat = PathValid" "run_helper (cx_request ctxt) = HelperSuccess"
      by (auto simp: guarded_run_def split: HelperPathStatus.splits)
    then show ?thesis using run \<open>euid = 0\<close> collect_context_parts [OF run(1)] by (intro exI [of _ ctxt]) auto
  qed (use collect_context_no_success [of to_vec c] in auto)
qed

text \<open>A sequence of calls on one handle, each with the helper it would run: the status of each and the
  request each gave to a helper.\<close>

fun pam_calls ::
  "(HelperRequest \<Rightarrow> bytes option) \<Rightarrow> (pam_call \<times> (bytes \<Rightarrow> HelperOutcome)) list \<Rightarrow> pam_data
    \<Rightarrow> (pam_status \<times> bytes option) list" where
  "pam_calls to_vec [] stored = []"
| "pam_calls to_vec ((c, run) # calls) stored =
     (let (status, started, stored') = authenticate_with to_vec run c stored
      in (status, started) # pam_calls to_vec calls stored')"

lemma pam_calls_recorded:
  assumes "st_context st = Some key" "\<forall>call \<in> set calls. \<exists>r. collect_context to_vec (fst call) = Inr \<lparr>cx_key = key, cx_request = r\<rparr>"
  shows "\<forall>answer \<in> set (pam_calls to_vec calls (Some st)). answer = (reused_status (st_outcome st), None)"
  using assms(2)
proof (induction calls)
  case (Cons call calls)
  then obtain r where "collect_context to_vec (fst call) = Inr \<lparr>cx_key = key, cx_request = r\<rparr>" by auto
  then have "authenticate_with to_vec (snd call) (fst call) (Some st) = (reused_status (st_outcome st), None, Some st)"
    using assms(1) by (simp add: authenticate_with_def get_or_create_state_def decide_attempt_def)
  then show ?case using Cons by (cases call) auto
qed simp

text \<open>a password retry never asks a device again. However often PAM calls the module on one handle
  in one context, at most one call starts a helper, a call that does not start one never succeeds, and
  after the one that did every call gives the same failure.\<close>

theorem retries_ask_once:
  assumes "\<forall>call \<in> set calls. \<exists>r. collect_context to_vec (fst call) = Inr \<lparr>cx_key = key, cx_request = r\<rparr>"
    and "pam_calls to_vec calls stored = answers"
  shows "length (filter (\<lambda>(status, started). started \<noteq> None) answers) \<le> 1 \<and>
    (\<forall>(status, started) \<in> set answers. started = None \<longrightarrow> status \<noteq> PAM_SUCCESS) \<and>
    (\<forall>before status request after. answers = before @ (status, Some request) # after \<longrightarrow>
       (\<exists>refused. refused \<noteq> PAM_SUCCESS \<and> set after \<subseteq> {(refused, None)}))"
  using assms
proof (induction calls arbitrary: stored answers)
  case Nil
  then show ?case by auto
next
  case (Cons call calls)
  obtain c run where call: "call = (c, run)" by (cases call)
  obtain status started stored' where step: "authenticate_with to_vec run c stored = (status, started, stored')"
    by (cases "authenticate_with to_vec run c stored") auto
  let ?rest = "pam_calls to_vec calls stored'"
  have answers: "answers = (status, started) # ?rest" using Cons.prems(2) call step by auto
  have later: "\<forall>call \<in> set calls. \<exists>r. collect_context to_vec (fst call) = Inr \<lparr>cx_key = key, cx_request = r\<rparr>"
    using Cons.prems(1) by simp
  note IH = Cons.IH [OF later refl, of stored']
  from step show ?case
  proof (cases rule: authenticate_with_cases)
    case (run ctxt)
    then have "cx_key ctxt = key" using Cons.prems(1) call by auto
    then obtain st where st: "stored' = Some st" "st_context st = Some key" using run(5) by auto
    note quiet = pam_calls_recorded [OF st(2) later]
    then have none: "filter (\<lambda>(status, started). started \<noteq> None) ?rest = []"
      using st(1) by (auto simp: filter_empty_conv)
    have "set ?rest \<subseteq> {(reused_status (st_outcome st), None)}" using quiet st(1) by auto
    moreover have "answers = before @ (s, Some r) # after \<Longrightarrow> before = [] \<and> after = ?rest" for before s r after
    proof -
      assume split: "answers = before @ (s, Some r) # after"
      have "(s, Some r) \<notin> set ?rest" using quiet st(1) by auto
      with split answers show ?thesis by (cases before) auto
    qed
    ultimately show ?thesis
      using none run(4) answers quiet st(1)
      by (auto intro!: exI [of _ "reused_status (st_outcome st)"])
  next
    case no_context
    then show ?thesis using Cons.prems(1) call by auto
  next
    case (no_record ctxt)
    then show ?thesis using IH answers by (auto simp: split_beta Cons_eq_append_conv)
  next
    case (again ctxt st)
    then show ?thesis using IH answers by (auto simp: split_beta Cons_eq_append_conv)
  qed
qed

section \<open>The helper nobody else can replace\<close>

definition root_only :: "metadata \<Rightarrow> bool" where
  "root_only m \<longleftrightarrow> md_uid m = 0 \<and> md_mode m AND 0x12 = 0"

text \<open>the helper path is accepted exactly when every directory on it is a directory that only root
  can write to, and the helper is a regular executable file that only root can write to and that is neither
  setuid nor setgid. A missing component is unavailability only when everything above it is sound.\<close>

theorem validate_helper_path_iff:
  "(validate_helper_path stat = PathValid \<longleftrightarrow>
     (\<forall>component \<in> {''/'', ''/usr'', ''/usr/local'', ''/usr/local/sbin''}.
        \<exists>m. stat component = Stat m \<and> root_only m \<and> md_is_dir m) \<and>
     (\<exists>m. stat HELPER_PATH = Stat m \<and> root_only m \<and> md_is_file m \<and> md_mode m AND 0x49 \<noteq> 0 \<and> md_mode m AND 0xC00 = 0)) \<and>
   (validate_helper_path stat = PathUnavailable \<longrightarrow>
     (\<exists>m. stat ''/'' = Stat m \<and> root_only m \<and> md_is_dir m) \<and>
     (\<exists>component \<in> {''/usr'', ''/usr/local'', ''/usr/local/sbin'', HELPER_PATH}. stat component = NotFound))"
proof -
  have dir: "secure_metadata s True = Inr () \<longleftrightarrow> (\<exists>m. s = Stat m \<and> root_only m \<and> md_is_dir m)" for s
    by (cases s) (auto simp: check_metadata_def root_only_def)
  have helper: "secure_metadata s False = Inr () \<longleftrightarrow>
      (\<exists>m. s = Stat m \<and> root_only m \<and> md_is_file m \<and> md_mode m AND 0x49 \<noteq> 0 \<and> md_mode m AND 0xC00 = 0)" for s
    by (cases s) (auto simp: check_metadata_def root_only_def)
  have fault: "secure_metadata s d = Inl e \<Longrightarrow> e = PathInsecure \<or> e = PathUnavailable \<and> s = NotFound" for s d e
    by (cases s) (auto simp: check_metadata_def split: if_splits)
  show ?thesis
    unfolding validate_helper_path_def
    by (cases "secure_metadata (stat ''/'') True"; cases "secure_metadata (stat ''/usr'') True";
        cases "secure_metadata (stat ''/usr/local'') True"; cases "secure_metadata (stat ''/usr/local/sbin'') True";
        cases "secure_metadata (stat HELPER_PATH) False")
      (auto simp: dir [symmetric] helper [symmetric] dest: fault)
qed

section \<open>Concrete calls\<close>

lemma scan_item_small: "index + length memory < MAX_TEXT_BYTES \<Longrightarrow> 0 \<notin> set memory \<Longrightarrow> scan_item index acc memory = Inr (acc @ memory)"
  by (induction index acc memory rule: scan_item.induct) auto

lemma pam_item_ascii:
  assumes "list_all (\<lambda>c. 0 < (of_char c :: nat) \<and> of_char c < (128 :: nat)) s" "length s < MAX_TEXT_BYTES"
  shows "pam_item_string (ItemBytes (as_bytes s)) = Inr (Some s)"
proof -
  have "unat (b :: u8) \<noteq> 0" if "b \<in> set (as_bytes s)" for b
    using that assms(1) by (auto simp: as_bytes_def list_all_iff)
  then have "0 \<notin> set (as_bytes s)" by force
  moreover have "from_utf8 (as_bytes s) = Some s" using assms(1) by (intro from_utf8_ascii) (simp add: list_all_iff)
  ultimately show ?thesis using assms(2) by (simp add: scan_item_small as_bytes_def)
qed

definition sample_pam_call :: pam_call where
  "sample_pam_call = \<lparr>pc_item = (\<lambda>t. case t of PAM_SERVICE \<Rightarrow> ItemBytes (as_bytes ''sudo'')
     | PAM_USER \<Rightarrow> ItemBytes (as_bytes ''root'') | PAM_RUSER \<Rightarrow> ItemBytes (as_bytes ''ann'') | PAM_TTY \<Rightarrow> ItemNull),
     pc_pid = 7, pc_args = [as_bytes ''sudo'', as_bytes ''ls''], pc_get_fails = False, pc_set_fails = False\<rparr>"

definition sample_to_vec :: "HelperRequest \<Rightarrow> bytes option" where
  "sample_to_vec r = Some (as_bytes (hq_principal r @ hq_invoking r))"

definition sample_large_to_vec :: "HelperRequest \<Rightarrow> bytes option" where
  "sample_large_to_vec r = Some (replicate (10000 * length (aa_values (hq_submitted_argv r))) 0)"

definition sample_stat :: "string \<Rightarrow> stat_result" where
  "sample_stat component = Stat (if component = HELPER_PATH
     then \<lparr>md_uid = 0, md_mode = 0x1ED, md_is_dir = False, md_is_file = True\<rparr>
     else \<lparr>md_uid = 0, md_mode = 0x1ED, md_is_dir = True, md_is_file = False\<rparr>)"

definition sample_context :: Context where
  "sample_context = \<lparr>cx_key = \<lparr>ck_principal_name = ''root'', ck_invoking_name = ''ann'', ck_service = ''sudo'',
     ck_tty = None, ck_process_pid = 7\<rparr>, cx_request = as_bytes ''rootann''\<rparr>"

lemma sample_collects: "collect_context sample_to_vec sample_pam_call = Inr sample_context"
proof -
  have item: "pam_item_string (ItemBytes (as_bytes s)) = Inr (Some s)" if "s \<in> {''sudo'', ''root'', ''ann''}" for s
    using that by (intro pam_item_ascii) (auto simp: MAX_TEXT_BYTES_def)
  have valid: "validate_text s n = Inr ()" if "s \<in> {''sudo'', ''root'', ''ann''}" "n \<ge> 4" for s n
    using that by (elim insertE emptyE) (simp_all add: validate_text_def chars_of_ascii is_control_def)
  have "serialize_request sample_to_vec r = Inr (as_bytes (hq_principal r @ hq_invoking r))"
    if "hq_principal r = ''root''" "hq_invoking r = ''ann''" for r
    using that by (simp add: serialize_request_unfold [of sample_to_vec r] sample_to_vec_def fits_def as_bytes_def
      REQUEST_HEADROOM_BYTES_def PAM_MAX_REQUEST_BYTES_def)
  note serial = this
  have items: "pam_item_string (pc_item sample_pam_call PAM_SERVICE) = Inr (Some ''sudo'')"
    "pam_item_string (pc_item sample_pam_call PAM_USER) = Inr (Some ''root'')"
    "pam_item_string (pc_item sample_pam_call PAM_RUSER) = Inr (Some ''ann'')"
    "pam_item_string (pc_item sample_pam_call PAM_TTY) = Inr None" "pc_pid sample_pam_call = 7"
    using item [of "''sudo''"] item [of "''root''"] item [of "''ann''"] by (simp_all add: sample_pam_call_def)
  show ?thesis
    by (simp add: collect_context_def items valid bounded_identity_def is_supported_service_def
      PAM_MAX_SERVICE_BYTES_def PAM_MAX_USER_BYTES_def sample_context_def serial)
qed

lemma sample_path_valid: "validate_helper_path sample_stat = PathValid"
  by (simp add: validate_helper_path_def sample_stat_def HELPER_PATH_def check_metadata_def)

definition sample_helper_request :: HelperRequest where
  "sample_helper_request = \<lparr>hq_pam_protocol_version = 2, hq_principal = ''root'', hq_invoking = ''ann'', hq_service = ''sudo'',
    hq_tty = None, hq_process_pid = 7,
    hq_submitted_argv = \<lparr>aa_available = True, aa_truncated = False, aa_values = [''a'', ''b'']\<rparr>\<rparr>"

lemma sample_large: "sample_large_to_vec (keep_args n sample_helper_request) = Some (replicate (10000 * min n 2) 0)"
  by (auto simp: sample_large_to_vec_def keep_args_def sample_helper_request_def min_def)

theorem serialize_request_keeps_longest_witness:
  "serialize_request sample_large_to_vec sample_helper_request = Inr (replicate 10000 0)"
proof -
  have fit: "fits (replicate (10000 * min n 2) 0) \<longleftrightarrow> n < 2" for n
    by (cases "n < 2") (auto simp: fits_def REQUEST_HEADROOM_BYTES_def PAM_MAX_REQUEST_BYTES_def min_def)
  have two: "length (aa_values (hq_submitted_argv sample_helper_request)) = 2" by (simp add: sample_helper_request_def)
  have "\<And>n. sample_large_to_vec (keep_args n sample_helper_request) \<noteq> None" by (simp add: sample_large)
  note longest = serialize_request_keeps_longest [of sample_large_to_vec sample_helper_request, OF this, unfolded two]
  show ?thesis
  proof (cases "serialize_request sample_large_to_vec sample_helper_request")
    case (Inl u)
    with longest have "\<not> fits (replicate (10000 * min 0 2) 0)" using sample_large [of 0] by (auto simp del: min_0L)
    then show ?thesis using fit [of 0] by simp
  next
    case (Inr bs)
    with longest obtain n where n: "sample_large_to_vec (keep_args n sample_helper_request) = Some bs" "fits bs"
      "\<And>m b. n < m \<Longrightarrow> m \<le> 2 \<Longrightarrow> sample_large_to_vec (keep_args m sample_helper_request) = Some b \<Longrightarrow> \<not> fits b"
      by auto
    from n(1,2) have bs: "bs = replicate (10000 * min n 2) 0" "n < 2" using fit by (auto simp: sample_large)
    have "\<not> n < 1" using n(3) [of 1, OF _ _ sample_large [of 1]] fit [of 1] by linarith
    then have "n = 1" using bs(2) by simp
    then show ?thesis using bs(1) Inr by simp
  qed
qed

lemma sample_pam_succeeds:
  "pam_authenticate sample_to_vec False sample_stat (\<lambda>_. HelperSuccess) 0 sample_pam_call None =
     (PAM_SUCCESS, Some (cx_request sample_context), Some \<lparr>st_context = Some (cx_key sample_context), st_outcome = AttemptSuccess\<rparr>)"
proof -
  have "\<not> pc_get_fails sample_pam_call" "\<not> pc_set_fails sample_pam_call" by (simp_all add: sample_pam_call_def)
  then show ?thesis
    by (simp add: pam_authenticate_def authenticate_with_def sample_collects get_or_create_state_def decide_attempt_def
      AttemptState_empty_def guarded_run_def sample_path_valid Let_def)
qed

theorem pam_success_is_fresh_witness:
  "validate_helper_path sample_stat = PathValid \<and> collect_context sample_to_vec sample_pam_call = Inr sample_context \<and>
   is_supported_service (ck_service (cx_key sample_context))"
  using pam_success_is_fresh [OF sample_pam_succeeds] sample_collects by auto

theorem retries_ask_once_witness:
  "let answers = pam_calls sample_to_vec [(sample_pam_call, \<lambda>_. HelperFailure), (sample_pam_call, \<lambda>_. HelperSuccess)] None
   in length (filter (\<lambda>(status, started). started \<noteq> None) answers) \<le> 1 \<and>
     (\<forall>(status, started) \<in> set answers. started = None \<longrightarrow> status \<noteq> PAM_SUCCESS)"
proof -
  have "\<forall>call \<in> set [(sample_pam_call, \<lambda>_. HelperFailure), (sample_pam_call, \<lambda>_. HelperSuccess)].
      \<exists>r. collect_context sample_to_vec (fst call) = Inr \<lparr>cx_key = cx_key sample_context, cx_request = r\<rparr>"
    using sample_collects by (auto simp: sample_context_def)
  from retries_ask_once [OF this refl, of None] show ?thesis by (auto simp: Let_def)
qed

theorem validate_helper_path_iff_witness:
  "validate_helper_path sample_stat = PathValid"
  unfolding validate_helper_path_iff [THEN conjunct1]
  by (auto simp: sample_stat_def HELPER_PATH_def root_only_def)

end
