(* ===== verification/Pam_Helper.thy ===== *)
theory Pam_Helper
  imports Pam_Context
begin

text \<open>
  How the PAM module runs its helper (\<open>pam/src/lib.rs\<close>): the pump loop between the helper's three
  pipes, its exit and the deadline, the guard that kills and reaps the helper's process group, the mask
  that keeps a broken pipe from killing sudo, and the sweep over inherited descriptors. What the kernel
  answers in one turn of the loop is a record \<open>turn\<close>; a list of turns is one behaviour of the outside,
  and a run that needs more turns than the list has gives \<open>None\<close>. Times are milliseconds.
\<close>

definition HELPER_TIMEOUT :: nat where "HELPER_TIMEOUT = 90000"
definition HELPER_DRAIN_GRACE :: nat where "HELPER_DRAIN_GRACE = 100"
definition MAX_HELPER_STDOUT_BYTES :: nat where "MAX_HELPER_STDOUT_BYTES = 16 * 1024"
definition MAX_HELPER_STDERR_BYTES :: nat where "MAX_HELPER_STDERR_BYTES = 8 * 1024"

section \<open>Pipes\<close>

datatype io_error = Interrupted | BrokenPipe | OtherError

text \<open>The outcome of one \<open>write\<close> or \<open>read\<close> on a non-blocking pipe. A write takes at most what it is
  given; when a list of outcomes ends, the next call would block.\<close>

datatype write_event = Wrote nat | WriteWouldBlock | WriteFailed io_error

datatype read_event = GotBytes bytes | GotEof | ReadWouldBlock | ReadFailed io_error

fun write_available :: "write_event list \<Rightarrow> nat \<Rightarrow> nat \<Rightarrow> (io_error + unit) \<times> nat" where
  "write_available [] len offset = (Inr (), offset)"
| "write_available (e # events) len offset =
     (if offset \<ge> len then (Inr (), offset)
      else case e of
        Wrote n \<Rightarrow> if n = 0 then (Inl OtherError, offset) else write_available events len (offset + min n (len - offset))
      | WriteWouldBlock \<Rightarrow> (Inr (), offset)
      | WriteFailed err \<Rightarrow> (Inl err, offset))"

fun read_available :: "read_event list \<Rightarrow> nat \<Rightarrow> bytes \<Rightarrow> bool \<Rightarrow> (io_error + unit) \<times> bytes \<times> bool" where
  "read_available events limit out False = (Inr (), out, False)"
| "read_available [] limit out True = (Inr (), out, True)"
| "read_available (e # events) limit out True =
     (case e of
        GotEof \<Rightarrow> (Inr (), out, False)
      | GotBytes bs \<Rightarrow>
          if bs = [] then (Inr (), out, False)
          else if length out + length bs > limit then (Inl OtherError, out, True)
          else read_available events limit (out @ bs) True
      | ReadWouldBlock \<Rightarrow> (Inr (), out, True)
      | ReadFailed err \<Rightarrow> (Inl err, out, True))"

section \<open>The guard of the helper's processes\<close>

text \<open>What the module does to the helper's processes, newest first. \<open>ReapLeader\<close> is a \<open>wait\<close> that returned the status of the leader,
  \<open>WaitLost\<close> one that failed: the leader is then not known to be reaped, and the module does not try again.\<close>

datatype guard_action = CloseLiveness | KillGroup | KillLeader | ReapLeader | WaitLost

record ChildGuard =
  cg_liveness_write :: bool
  cg_leader_reaped :: bool
  cg_finished :: bool
  cg_abort_wait :: bool
  cg_log :: "guard_action list"

text \<open>\<open>cg_abort_wait\<close> is the kernel's answer to the \<open>wait\<close> in \<open>abort\<close>, whether it returns a status; there is at most one.\<close>

definition ChildGuard_new :: "bool \<Rightarrow> ChildGuard" where
  "ChildGuard_new abort_wait = \<lparr>cg_liveness_write = True, cg_leader_reaped = False, cg_finished = False, cg_abort_wait = abort_wait,
     cg_log = []\<rparr>"

definition kill_group :: "ChildGuard \<Rightarrow> ChildGuard" where
  "kill_group g = (if cg_leader_reaped g then g else g\<lparr>cg_log := KillGroup # cg_log g\<rparr>)"

text \<open>The flag is set even when \<open>wait\<close> fails.\<close>

definition reap :: "bool \<Rightarrow> ChildGuard \<Rightarrow> ChildGuard" where
  "reap waited g = g\<lparr>cg_leader_reaped := True, cg_log := (if waited then ReapLeader else WaitLost) # cg_log g\<rparr>"

definition close_liveness :: "ChildGuard \<Rightarrow> ChildGuard" where
  "close_liveness g = (if cg_liveness_write g then g\<lparr>cg_liveness_write := False, cg_log := CloseLiveness # cg_log g\<rparr> else g)"

definition abort :: "ChildGuard \<Rightarrow> ChildGuard" where
  "abort g =
     (if cg_finished g then g
      else let g = close_liveness g;
               g = (if cg_leader_reaped g then g
                    else let g = kill_group g in reap (cg_abort_wait g) (g\<lparr>cg_log := KillLeader # cg_log g\<rparr>))
           in g\<lparr>cg_finished := True\<rparr>)"

text \<open>The guard goes out of scope: \<open>abort\<close> runs, and the liveness pipe is closed with it.\<close>

definition drop_guard :: "ChildGuard \<Rightarrow> ChildGuard" where
  "drop_guard g = close_liveness (abort g)"

section \<open>One turn of the loop\<close>

datatype wait_result = Waited bool | WaitFailed io_error

datatype PollWake = PollReady | PollInterrupted | PollError

record turn =
  tn_cancel :: bool
  tn_now :: nat
  tn_writes :: "write_event list"
  tn_wait_write :: wait_result
  tn_wait :: wait_result
  tn_wait_again :: wait_result
  tn_reaped :: "int option option"
  tn_finish_now :: nat
  tn_stdout :: "read_event list"
  tn_stderr :: "read_event list"
  tn_wait_read :: wait_result
  tn_poll :: PollWake
  tn_wait_poll :: wait_result

text \<open>\<open>tn_reaped\<close> is what \<open>wait\<close> gives: \<open>None\<close> when it fails, else the exit code, or \<open>Some None\<close> for
  a helper that died of a signal. \<open>drain_turn\<close> is a turn of the loop that reads the rest after the
  exit.\<close>

record drain_turn =
  dt_now :: nat
  dt_stdout :: "read_event list"
  dt_stderr :: "read_event list"
  dt_poll_fails :: bool

definition interrupt_is_cancellation :: "wait_result \<Rightarrow> bool" where
  "interrupt_is_cancellation w \<longleftrightarrow> w \<noteq> Waited True"

record pump =
  pm_stdout :: bytes
  pm_stderr :: bytes
  pm_stdout_open :: bool
  pm_stderr_open :: bool
  pm_offset :: nat
  pm_guard :: ChildGuard

definition pump_new :: "bool \<Rightarrow> pump" where
  "pump_new abort_wait = \<lparr>pm_stdout = [], pm_stderr = [], pm_stdout_open = True, pm_stderr_open = True, pm_offset = 0,
     pm_guard = ChildGuard_new abort_wait\<rparr>"

definition is_ascii_whitespace :: "u8 \<Rightarrow> bool" where
  "is_ascii_whitespace b \<longleftrightarrow> b \<in> {0x20, 0x09, 0x0A, 0x0C, 0x0D}"

definition classify_helper_result :: "int option \<Rightarrow> bytes \<Rightarrow> HelperOutcome" where
  "classify_helper_result code stdout =
     (if list_ex (\<lambda>b. \<not> is_ascii_whitespace b) stdout then HelperFailure
      else if code = Some 0 then HelperSuccess
      else if code = Some 2 then HelperUnavailable
      else HelperFailure)"

definition read_fails :: "io_error + unit \<Rightarrow> bool" where
  "read_fails r \<longleftrightarrow> r \<noteq> Inr () \<and> r \<noteq> Inl Interrupted"

text \<open>Both pipes are read before either result is looked at.\<close>

definition read_both :: "read_event list \<Rightarrow> read_event list \<Rightarrow> pump \<Rightarrow> (io_error + unit) \<times> (io_error + unit) \<times> pump" where
  "read_both stdout stderr p =
     (let (r1, out, out_open) = read_available stdout MAX_HELPER_STDOUT_BYTES (pm_stdout p) (pm_stdout_open p);
          (r2, err, err_open) = read_available stderr MAX_HELPER_STDERR_BYTES (pm_stderr p) (pm_stderr_open p)
      in (r1, r2, p\<lparr>pm_stdout := out, pm_stdout_open := out_open, pm_stderr := err, pm_stderr_open := err_open\<rparr>))"

fun finish_helper :: "drain_turn list \<Rightarrow> nat \<Rightarrow> int option \<Rightarrow> bool \<Rightarrow> pump \<Rightarrow> (HelperOutcome \<times> pump) option" where
  "finish_helper [] drain_deadline code input_complete p =
     (if pm_stdout_open p \<or> pm_stderr_open p then None
      else if \<not> input_complete then Some (HelperFailure, p)
      else Some (classify_helper_result code (pm_stdout p), p\<lparr>pm_guard := (pm_guard p)\<lparr>cg_finished := True\<rparr>\<rparr>))"
| "finish_helper (d # ds) drain_deadline code input_complete p =
     (if (pm_stdout_open p \<or> pm_stderr_open p) \<and> dt_now d < drain_deadline
      then let (r1, r2, p) = read_both (dt_stdout d) (dt_stderr d) p
           in if read_fails r1 \<or> read_fails r2 then Some (HelperFailure, p)
              else if (pm_stdout_open p \<or> pm_stderr_open p) \<and> dt_poll_fails d then Some (HelperFailure, p)
              else finish_helper ds drain_deadline code input_complete p
      else if \<not> input_complete \<or> pm_stdout_open p \<or> pm_stderr_open p then Some (HelperFailure, p)
      else Some (classify_helper_result code (pm_stdout p), p\<lparr>pm_guard := (pm_guard p)\<lparr>cg_finished := True\<rparr>\<rparr>))"

definition aborted :: "HelperOutcome \<Rightarrow> pump \<Rightarrow> (HelperOutcome \<times> pump) option" where
  "aborted outcome p = Some (outcome, p\<lparr>pm_guard := abort (pm_guard p)\<rparr>)"

fun write_request :: "turn \<Rightarrow> nat \<Rightarrow> pump \<Rightarrow> (io_error + unit) \<times> pump" where
  "write_request t len p =
     (if pm_offset p < len
      then let (r, offset) = write_available (tn_writes t) len (pm_offset p) in (r, p\<lparr>pm_offset := offset\<rparr>)
      else (Inr (), p))"

text \<open>The leader has exited: its group is killed while the zombie still holds the group's id, then it is
  reaped and its output read.\<close>

definition leader_done :: "turn \<Rightarrow> drain_turn list \<Rightarrow> nat \<Rightarrow> pump \<Rightarrow> (HelperOutcome \<times> pump) option" where
  "leader_done t ds len p =
     (let p = p\<lparr>pm_guard := reap (tn_reaped t \<noteq> None) (kill_group (pm_guard p))\<rparr>
      in case tn_reaped t of
        None \<Rightarrow> aborted HelperFailure p
      | Some code \<Rightarrow> finish_helper ds (tn_finish_now t + HELPER_DRAIN_GRACE) code (pm_offset p = len) p)"

text \<open>The second half of a turn, when the leader still runs; \<open>next\<close> is the next turn.\<close>

definition read_and_poll :: "turn \<Rightarrow> (pump \<Rightarrow> (HelperOutcome \<times> pump) option) \<Rightarrow> pump \<Rightarrow> (HelperOutcome \<times> pump) option" where
  "read_and_poll t again p =
     (let (r1, r2, p) = read_both (tn_stdout t) (tn_stderr t) p
      in if read_fails r1 \<or> read_fails r2 then aborted HelperFailure p
         else if (r1 = Inl Interrupted \<or> r2 = Inl Interrupted) \<and> interrupt_is_cancellation (tn_wait_read t)
         then aborted HelperUnavailable p
         else case tn_poll t of
           PollReady \<Rightarrow> again p
         | PollInterrupted \<Rightarrow>
             if interrupt_is_cancellation (tn_wait_poll t) then aborted HelperUnavailable p else again p
         | PollError \<Rightarrow> aborted HelperUnavailable p)"

fun pump_loop :: "turn list \<Rightarrow> drain_turn list \<Rightarrow> nat \<Rightarrow> nat \<Rightarrow> pump \<Rightarrow> (HelperOutcome \<times> pump) option" where
  "pump_loop [] ds len deadline p = None"
| "pump_loop (t # ts) ds len deadline p =
     (if tn_cancel t then aborted HelperUnavailable p
      else if tn_now t \<ge> deadline then aborted HelperUnavailable p
      else
      let (written, p) = write_request t len p in
      if written = Inl Interrupted \<and> interrupt_is_cancellation (tn_wait_write t) then aborted HelperUnavailable p
      else if read_fails written then aborted HelperFailure p
      else case tn_wait t of
        WaitFailed e \<Rightarrow>
          if e = Interrupted
          then if interrupt_is_cancellation (tn_wait_again t) then aborted HelperUnavailable p
               else leader_done t ds len p
          else aborted HelperFailure p
      | Waited True \<Rightarrow> leader_done t ds len p
      | Waited False \<Rightarrow> read_and_poll t (pump_loop ts ds len deadline) p)"

text \<open>What starting the helper comes to: the liveness pipe, the spawn, its three pipes, the
  non-blocking flags and the signal mask.\<close>

record spawn_env =
  se_pipe :: bool
  se_spawn :: bool
  se_pipes_taken :: bool
  se_nonblocking :: bool
  se_mask :: bool
  se_abort_wait :: bool
  se_now :: nat
  se_turns :: "turn list"
  se_drain :: "drain_turn list"

definition spawn_and_pump_helper :: "spawn_env \<Rightarrow> bytes \<Rightarrow> nat \<Rightarrow> (HelperOutcome \<times> ChildGuard option) option" where
  "spawn_and_pump_helper env request timeout =
     (let deadline = se_now env + timeout in
      if \<not> se_pipe env then Some (HelperFailure, None)
      else if \<not> se_spawn env then Some (HelperUnavailable, None)
      else if \<not> se_pipes_taken env \<or> \<not> se_nonblocking env \<or> \<not> se_mask env
      then Some (HelperFailure, Some (drop_guard (abort (ChildGuard_new (se_abort_wait env)))))
      else map_option (\<lambda>(outcome, p). (outcome, Some (drop_guard (pm_guard p))))
        (pump_loop (se_turns env) (se_drain env) (length request) deadline (pump_new (se_abort_wait env))))"

definition run_helper :: "spawn_env \<Rightarrow> bytes \<Rightarrow> (HelperOutcome \<times> ChildGuard option) option" where
  "run_helper env request =
     (if length request > PAM_MAX_REQUEST_BYTES then Some (HelperFailure, None)
      else spawn_and_pump_helper env request HELPER_TIMEOUT)"

section \<open>The signal mask\<close>

text \<open>Whether \<open>SIGPIPE\<close> is blocked in the calling thread and whether one is pending.\<close>

record sigpipe_state =
  sp_blocked :: bool
  sp_pending :: bool

record SigpipeGuard =
  gp_previous :: bool
  gp_had_pending :: bool
  gp_generated :: bool

definition SigpipeGuard_block :: "sigpipe_state \<Rightarrow> SigpipeGuard \<times> sigpipe_state" where
  "SigpipeGuard_block s = (\<lparr>gp_previous = sp_blocked s, gp_had_pending = sp_pending s, gp_generated = False\<rparr>,
     s\<lparr>sp_blocked := True\<rparr>)"

text \<open>A write on a pipe whose reader is gone: the blocked signal becomes pending, and the module marks it.\<close>

definition broken_pipe :: "SigpipeGuard \<times> sigpipe_state \<Rightarrow> SigpipeGuard \<times> sigpipe_state" where
  "broken_pipe gs = ((fst gs)\<lparr>gp_generated := True\<rparr>, (snd gs)\<lparr>sp_pending := True\<rparr>)"

definition consume_generated :: "SigpipeGuard \<Rightarrow> sigpipe_state \<Rightarrow> sigpipe_state" where
  "consume_generated g s =
     (if gp_had_pending g \<or> \<not> gp_generated g then s
      else if sp_pending s then s\<lparr>sp_pending := False\<rparr> else s)"

definition drop_sigpipe :: "SigpipeGuard \<Rightarrow> sigpipe_state \<Rightarrow> sigpipe_state" where
  "drop_sigpipe g s = (consume_generated g s)\<lparr>sp_blocked := gp_previous g\<rparr>"

section \<open>Inherited descriptors\<close>

text \<open>The descriptors of the forked child: closed, or open with the close-on-exec flag.\<close>

type_synonym fd_table = "nat \<Rightarrow> bool option"

definition MAX_FD_SCAN :: nat where "MAX_FD_SCAN = 2 ^ 20"

definition cloexec_raw :: "nat \<Rightarrow> fd_table \<Rightarrow> fd_table" where
  "cloexec_raw fd t = (if t fd = None then t else t(fd \<mapsto> True))"

definition restore_inherited_fd :: "nat \<Rightarrow> fd_table \<Rightarrow> fd_table option" where
  "restore_inherited_fd fd t = (if t fd = None then None else Some (t(fd \<mapsto> False)))"

text \<open>\<open>max_fd_scan\<close> on the two limits, or on a failed \<open>getrlimit\<close>.\<close>

definition max_fd_scan :: "(nat \<times> nat) option \<Rightarrow> nat" where
  "max_fd_scan limit = (case limit of
     None \<Rightarrow> MAX_FD_SCAN
   | Some (cur, hard) \<Rightarrow>
       let bound = (if hard > cur then hard else cur)
       in max 3 (min MAX_FD_SCAN (if bound < 2 ^ 31 then bound else MAX_FD_SCAN)))"

text \<open>The kernel's own sweep over everything above stdio, the exact list of open descriptors where the
  kernel gives one, or the bounded scan.\<close>

datatype sweep = CloseRange | ListedFds "nat list" | ScanFds "(nat \<times> nat) option"

fun cloexec_unrelated_fds :: "sweep \<Rightarrow> nat \<Rightarrow> fd_table \<Rightarrow> fd_table option" where
  "cloexec_unrelated_fds CloseRange keep t =
     restore_inherited_fd keep (\<lambda>fd. if fd \<ge> 3 \<and> t fd \<noteq> None then Some True else t fd)"
| "cloexec_unrelated_fds (ListedFds fds) keep t =
     restore_inherited_fd keep (fold (\<lambda>fd t. if fd \<ge> 3 then cloexec_raw fd t else t) fds t)"
| "cloexec_unrelated_fds (ScanFds limit) keep t =
     restore_inherited_fd keep (fold cloexec_raw [3..<max_fd_scan limit] t)"

section \<open>What an outcome means\<close>

lemma write_available_bound:
  "offset \<le> len \<Longrightarrow> snd (write_available events len offset) \<le> len"
  by (induction events len offset rule: write_available.induct) (auto split: write_event.splits)

lemma write_request_frame:
  assumes "write_request t len p = (r, p')"
  shows "pm_guard p' = pm_guard p" "pm_stdout p' = pm_stdout p"
    "pm_offset p \<le> len \<Longrightarrow> pm_offset p' \<le> len"
  using assms write_available_bound [of "pm_offset p" len "tn_writes t"]
  by (auto split: if_splits prod.splits)

lemma read_available_limit:
  assumes "length out \<le> limit" "read_available events limit out open = (r, out', open')"
  shows "length out' \<le> limit"
  using assms by (induction events limit out "open" rule: read_available.induct)
    (auto split: read_event.splits if_splits)

lemma read_both_frame:
  assumes "read_both stdout stderr p = (r1, r2, p')"
  shows "pm_guard p' = pm_guard p" "pm_offset p' = pm_offset p"
    "length (pm_stdout p) \<le> MAX_HELPER_STDOUT_BYTES \<Longrightarrow> length (pm_stdout p') \<le> MAX_HELPER_STDOUT_BYTES"
  using assms by (auto simp: read_both_def split: prod.splits dest: read_available_limit)

lemma classify_success:
  "classify_helper_result code stdout = HelperSuccess \<longleftrightarrow> code = Some 0 \<and> list_all is_ascii_whitespace stdout"
  by (auto simp: classify_helper_result_def list_ex_iff list_all_iff)

text \<open>What a success of the helper rests on.\<close>

definition helper_approved :: "int option \<Rightarrow> nat \<Rightarrow> pump \<Rightarrow> bool" where
  "helper_approved code len p \<longleftrightarrow> code = Some 0 \<and> pm_offset p = len \<and> \<not> pm_stdout_open p \<and> \<not> pm_stderr_open p \<and>
     list_all is_ascii_whitespace (pm_stdout p) \<and> length (pm_stdout p) \<le> MAX_HELPER_STDOUT_BYTES"

lemma finish_helper_sound:
  assumes "finish_helper ds drain_deadline code complete p = Some (outcome, p')"
    and "length (pm_stdout p) \<le> MAX_HELPER_STDOUT_BYTES" and "complete = (pm_offset p = len)"
  shows "pm_offset p' = pm_offset p \<and> (outcome = HelperSuccess \<longrightarrow> helper_approved code len p') \<and>
    pm_guard p' \<in> {pm_guard p, (pm_guard p)\<lparr>cg_finished := True\<rparr>}"
  using assms
proof (induction ds arbitrary: p)
  case Nil
  then show ?case by (auto simp: helper_approved_def classify_success split: if_splits)
next
  case (Cons d ds)
  show ?case
  proof (cases "(pm_stdout_open p \<or> pm_stderr_open p) \<and> dt_now d < drain_deadline")
    case True
    obtain r1 r2 q where q: "read_both (dt_stdout d) (dt_stderr d) p = (r1, r2, q)" by (metis prod_cases3)
    note frame = read_both_frame [OF q]
    have run: "finish_helper (d # ds) drain_deadline code complete p =
      (if read_fails r1 \<or> read_fails r2 then Some (HelperFailure, q)
       else if (pm_stdout_open q \<or> pm_stderr_open q) \<and> dt_poll_fails d then Some (HelperFailure, q)
       else finish_helper ds drain_deadline code complete q)"
      using True q by simp
    show ?thesis
    proof (cases "finish_helper ds drain_deadline code complete q = Some (outcome, p')")
      case True
      show ?thesis using Cons.IH [OF True] Cons.prems(2,3) frame by simp
    next
      case False
      then have "outcome = HelperFailure" "p' = q" using Cons.prems(1) unfolding run by (auto split: if_splits)
      then show ?thesis using frame by simp
    qed
  next
    case False
    then have "finish_helper (d # ds) drain_deadline code complete p =
      (if \<not> complete \<or> pm_stdout_open p \<or> pm_stderr_open p then Some (HelperFailure, p)
       else Some (classify_helper_result code (pm_stdout p), p\<lparr>pm_guard := (pm_guard p)\<lparr>cg_finished := True\<rparr>\<rparr>))"
      by (simp only: finish_helper.simps if_False)
    with Cons.prems show ?thesis
      by (auto simp: helper_approved_def classify_success simp del: finish_helper.simps split: if_splits)
  qed
qed

text \<open>The guard a run ends with, from the one it starts with and the outcomes of the \<open>wait\<close> in its turns.\<close>

definition ended_guards :: "turn set \<Rightarrow> ChildGuard \<Rightarrow> ChildGuard set" where
  "ended_guards ts g = insert (abort g) (\<Union>t \<in> ts. let h = reap (tn_reaped t \<noteq> None) (kill_group g)
     in {h, h\<lparr>cg_finished := True\<rparr>, abort h})"

text \<open>The state of the pump after turns in which the leader still ran: each writes what the pipe takes and reads what is there.\<close>

fun pump_after :: "turn list \<Rightarrow> nat \<Rightarrow> pump \<Rightarrow> pump" where
  "pump_after [] len p = p"
| "pump_after (t # ts) len p =
     pump_after ts len (snd (snd (read_both (tn_stdout t) (tn_stderr t) (snd (write_request t len p)))))"

lemma leader_done_sound:
  assumes "leader_done t ds len p = Some (outcome, p')" and "length (pm_stdout p) \<le> MAX_HELPER_STDOUT_BYTES"
  shows "(outcome = HelperSuccess \<longrightarrow> (\<exists>code. tn_reaped t = Some code \<and> pm_offset p = len \<and> helper_approved code len p')) \<and>
    pm_guard p' \<in> ended_guards {t} (pm_guard p)"
proof (cases "tn_reaped t")
  case None
  then show ?thesis using assms(1) by (auto simp: leader_done_def ended_guards_def aborted_def Let_def)
next
  case (Some code)
  have "finish_helper ds (tn_finish_now t + HELPER_DRAIN_GRACE) code (pm_offset p = len)
      (p\<lparr>pm_guard := reap True (kill_group (pm_guard p))\<rparr>) = Some (outcome, p')"
    using assms(1) Some by (simp add: leader_done_def)
  from finish_helper_sound [OF this, of len] show ?thesis
    using assms(2) Some by (auto simp: ended_guards_def Let_def helper_approved_def)
qed

text \<open>The turn in which the leader was found to have exited, in the state \<open>q\<close> of the pump, ended the run with success.\<close>

definition exit_approved :: "turn \<Rightarrow> drain_turn list \<Rightarrow> nat \<Rightarrow> pump \<Rightarrow> pump \<Rightarrow> bool" where
  "exit_approved t ds len q p \<longleftrightarrow> tn_reaped t = Some (Some 0) \<and> pm_offset q = len \<and> helper_approved (Some 0) len p \<and>
     leader_done t ds len q = Some (HelperSuccess, p)"

lemma pump_loop_step:
  assumes "pump_loop (t # ts) ds len deadline p = Some (outcome, p')" and "pm_offset p \<le> len"
    and "length (pm_stdout p) \<le> MAX_HELPER_STDOUT_BYTES"
  obtains (cancelled) "tn_cancel t \<or> tn_now t \<ge> deadline" "outcome = HelperUnavailable" "pm_guard p' = abort (pm_guard p)"
  | (lost) "\<not> tn_cancel t" "tn_now t < deadline" "outcome \<noteq> HelperSuccess" "pm_guard p' = abort (pm_guard p)"
  | (exited) "\<not> tn_cancel t" "tn_now t < deadline"
      "outcome = HelperSuccess \<longrightarrow> exit_approved t ds len (snd (write_request t len p)) p'"
      "pm_guard p' \<in> ended_guards {t} (pm_guard p)"
  | (again) q where "\<not> tn_cancel t" "tn_now t < deadline" "pump_loop ts ds len deadline q = Some (outcome, p')"
      "q = snd (snd (read_both (tn_stdout t) (tn_stderr t) (snd (write_request t len p))))"
      "pm_guard q = pm_guard p" "pm_offset q \<le> len" "length (pm_stdout q) \<le> MAX_HELPER_STDOUT_BYTES"
proof -
  show thesis
  proof (cases "tn_cancel t \<or> tn_now t \<ge> deadline")
    case True
    then show thesis using assms(1) by (intro cancelled) (auto simp: aborted_def split: if_splits)
  next
    case False
    obtain written w where w: "write_request t len p = (written, w)" by (metis surj_pair)
    note frame = write_request_frame [OF w]
    have run: "pump_loop (t # ts) ds len deadline p =
      (if written = Inl Interrupted \<and> interrupt_is_cancellation (tn_wait_write t) then aborted HelperUnavailable w
       else if read_fails written then aborted HelperFailure w
       else case tn_wait t of
         WaitFailed e \<Rightarrow> if e = Interrupted
           then if interrupt_is_cancellation (tn_wait_again t) then aborted HelperUnavailable w else leader_done t ds len w
           else aborted HelperFailure w
       | Waited True \<Rightarrow> leader_done t ds len w
       | Waited False \<Rightarrow> read_and_poll t (pump_loop ts ds len deadline) w)"
      using False w by (simp del: write_request.simps)
    have lostI: thesis if "aborted o' w = Some (outcome, p')" "o' \<noteq> HelperSuccess" for o'
      using that False frame(1) by (intro lost) (auto simp: aborted_def)
    have exitedI: thesis if "leader_done t ds len w = Some (outcome, p')"
      using that False leader_done_sound [OF that] frame assms(3) w
      by (intro exited) (auto simp: exit_approved_def helper_approved_def simp del: write_request.simps)
    have readI: thesis if "read_and_poll t (pump_loop ts ds len deadline) w = Some (outcome, p')"
    proof -
      obtain r1 r2 q where q: "read_both (tn_stdout t) (tn_stderr t) w = (r1, r2, q)" by (metis prod_cases3)
      note qframe = read_both_frame [OF q]
      show thesis
      proof (cases "pump_loop ts ds len deadline q = Some (outcome, p')")
        case True
        then show thesis using False frame qframe assms(2,3) w q by (intro again [of q]) (auto simp del: write_request.simps)
      next
        case other: False
        then have "pm_guard p' = abort (pm_guard q)" "outcome \<noteq> HelperSuccess"
          using that q by (auto simp: read_and_poll_def aborted_def split: if_splits PollWake.splits)
        then show thesis using False frame(1) qframe(1) by (intro lost) auto
      qed
    qed
    show thesis
      using assms(1) unfolding run
      by (auto split: if_splits wait_result.splits bool.splits intro: lostI exitedI readI)
  qed
qed

lemma pump_loop_sound:
  assumes "pump_loop ts ds len deadline p = Some (outcome, p')" and "pm_offset p \<le> len"
    and "length (pm_stdout p) \<le> MAX_HELPER_STDOUT_BYTES"
  shows "(\<exists>before t after. ts = before @ t # after \<and> (\<forall>u \<in> set before. \<not> tn_cancel u \<and> tn_now u < deadline) \<and>
      (tn_cancel t \<or> tn_now t \<ge> deadline \<longrightarrow> outcome = HelperUnavailable) \<and>
      (outcome = HelperSuccess \<longrightarrow> exit_approved t ds len (snd (write_request t len (pump_after before len p))) p')) \<and>
    pm_guard p' \<in> ended_guards (set ts) (pm_guard p)"
  using assms
proof (induction ts arbitrary: p)
  case (Cons t ts)
  have here: "\<exists>before u after. t # ts = before @ u # after \<and> (\<forall>u \<in> set before. \<not> tn_cancel u \<and> tn_now u < deadline) \<and>
      (tn_cancel u \<or> tn_now u \<ge> deadline \<longrightarrow> outcome = HelperUnavailable) \<and>
      (outcome = HelperSuccess \<longrightarrow> exit_approved u ds len (snd (write_request u len (pump_after before len p))) p')"
    if "tn_cancel t \<or> tn_now t \<ge> deadline \<longrightarrow> outcome = HelperUnavailable"
      "outcome = HelperSuccess \<longrightarrow> exit_approved t ds len (snd (write_request t len p)) p'"
    using that by (intro exI [of _ "[]"] exI [of _ t] exI [of _ ts]) auto
  from Cons.prems show ?case
  proof (cases rule: pump_loop_step)
    case (again q)
    from Cons.IH [OF again(3,6,7)] obtain before u after where u: "ts = before @ u # after"
      "\<forall>u \<in> set before. \<not> tn_cancel u \<and> tn_now u < deadline"
      "tn_cancel u \<or> tn_now u \<ge> deadline \<longrightarrow> outcome = HelperUnavailable"
      "outcome = HelperSuccess \<longrightarrow> exit_approved u ds len (snd (write_request u len (pump_after before len q))) p'"
      and guard: "pm_guard p' \<in> ended_guards (set ts) (pm_guard q)" by blast
    have "\<exists>before u after. t # ts = before @ u # after \<and> (\<forall>u \<in> set before. \<not> tn_cancel u \<and> tn_now u < deadline) \<and>
      (tn_cancel u \<or> tn_now u \<ge> deadline \<longrightarrow> outcome = HelperUnavailable) \<and>
      (outcome = HelperSuccess \<longrightarrow> exit_approved u ds len (snd (write_request u len (pump_after before len p))) p')"
      using u again(1,2,4) by (intro exI [of _ "t # before"] exI [of _ u] exI [of _ after]) (auto simp del: write_request.simps)
    then show ?thesis using guard again(5) by (auto simp: ended_guards_def simp del: write_request.simps)
  next
    case exited
    then show ?thesis using here by (auto simp: ended_guards_def simp del: write_request.simps)
  qed (use here in \<open>auto simp: ended_guards_def\<close>)
qed simp

definition helper_started :: "spawn_env \<Rightarrow> bytes \<Rightarrow> bool" where
  "helper_started env request \<longleftrightarrow> length request \<le> PAM_MAX_REQUEST_BYTES \<and> se_pipe env \<and> se_spawn env \<and> se_pipes_taken env \<and>
     se_nonblocking env \<and> se_mask env"

lemma run_helper_started:
  assumes "run_helper env request = Some (outcome, g)" "helper_started env request"
  shows "\<exists>p. pump_loop (se_turns env) (se_drain env) (length request) (se_now env + HELPER_TIMEOUT) (pump_new (se_abort_wait env))
      = Some (outcome, p) \<and> g = Some (drop_guard (pm_guard p))"
  using assms by (auto simp: helper_started_def run_helper_def spawn_and_pump_helper_def split: if_splits)


section \<open>No process left, no stranger killed\<close>

lemma dropped_guards:
  assumes "h \<in> ended_guards ts (ChildGuard_new b)"
  shows "\<exists>w. cg_log (drop_guard h) \<in> {[w, KillLeader, KillGroup, CloseLiveness], [CloseLiveness, w, KillGroup]} \<and>
    (w = ReapLeader \<or> w = WaitLost \<and> (\<not> b \<or> (\<exists>t \<in> ts. tn_reaped t = None))) \<and>
    \<not> cg_liveness_write (drop_guard h) \<and> cg_finished (drop_guard h)"
  using assms by (auto simp: ended_guards_def drop_guard_def abort_def close_liveness_def kill_group_def reap_def
      ChildGuard_new_def Let_def)

text \<open>C17: whatever happens, a started helper is cleaned up and no other process is hit. When the call returns, the group of the helper has
  been killed exactly once; then the module waited for the leader, exactly once, and that wait gave its status unless the kernel failed
  it; nothing was signalled after that wait (the group id may by then belong to others); and the liveness pipe was closed, once.\<close>

theorem helper_processes_cleaned_up:
  assumes "run_helper env request = Some (outcome, Some g)"
  shows "\<exists>after w before. cg_log g = after @ w # before \<and> w \<in> {ReapLeader, WaitLost} \<and>
    (w = WaitLost \<longrightarrow> \<not> se_abort_wait env \<or> (\<exists>t \<in> set (se_turns env). tn_reaped t = None)) \<and>
    count_list before KillGroup = 1 \<and> set (before @ after) \<inter> {ReapLeader, WaitLost} = {} \<and>
    set after \<inter> {KillGroup, KillLeader} = {} \<and>
    count_list (cg_log g) CloseLiveness = 1 \<and> \<not> cg_liveness_write g \<and> cg_finished g"
proof -
  let ?new = "ChildGuard_new (se_abort_wait env)"
  have "\<exists>h \<in> ended_guards (set (se_turns env)) ?new. g = drop_guard h"
  proof (cases "se_pipes_taken env \<and> se_nonblocking env \<and> se_mask env")
    case False
    then have "g = drop_guard (abort ?new)"
      using assms by (auto simp: run_helper_def spawn_and_pump_helper_def Let_def split: if_splits)
    then show ?thesis by (auto simp: ended_guards_def)
  next
    case True
    then obtain p where p: "pump_loop (se_turns env) (se_drain env) (length request) (se_now env + HELPER_TIMEOUT)
        (pump_new (se_abort_wait env)) = Some (outcome, p)"
      and g: "g = drop_guard (pm_guard p)"
      using assms by (auto simp: run_helper_def spawn_and_pump_helper_def Let_def split: if_splits)
    then show ?thesis using pump_loop_sound [OF p] by (auto simp: pump_new_def)
  qed
  then obtain h where "h \<in> ended_guards (set (se_turns env)) ?new" "g = drop_guard h" by blast
  with dropped_guards [of h] obtain w where
    log: "cg_log g = [w, KillLeader, KillGroup, CloseLiveness] \<or> cg_log g = [CloseLiveness, w, KillGroup]"
    and w: "w = ReapLeader \<or> w = WaitLost \<and> (\<not> se_abort_wait env \<or> (\<exists>t \<in> set (se_turns env). tn_reaped t = None))"
    and rest: "\<not> cg_liveness_write g" "cg_finished g" by fastforce
  from log show ?thesis
  proof
    assume "cg_log g = [w, KillLeader, KillGroup, CloseLiveness]"
    then show ?thesis using rest w
      by (intro exI [of _ "[]"] exI [of _ w] exI [of _ "[KillLeader, KillGroup, CloseLiveness]"]) auto
  next
    assume "cg_log g = [CloseLiveness, w, KillGroup]"
    then show ?thesis using rest w by (intro exI [of _ "[CloseLiveness]"] exI [of _ w] exI [of _ "[KillGroup]"]) auto
  qed
qed

section \<open>The call returns\<close>

lemma finish_helper_returns:
  assumes "\<exists>d \<in> set ds. dt_now d \<ge> drain_deadline"
  shows "finish_helper ds drain_deadline code complete p \<noteq> None"
  using assms
proof (induction ds arbitrary: p)
  case (Cons d ds)
  show ?case
  proof (cases "(pm_stdout_open p \<or> pm_stderr_open p) \<and> dt_now d < drain_deadline")
    case True
    obtain r1 r2 q where q: "read_both (dt_stdout d) (dt_stderr d) p = (r1, r2, q)" by (metis prod_cases3)
    have "finish_helper ds drain_deadline code complete q \<noteq> None" using Cons True by auto
    then show ?thesis using True q by (simp del: not_None_eq)
  qed (simp only: finish_helper.simps if_False, simp)
qed simp

lemma leader_done_returns:
  "\<exists>d \<in> set ds. dt_now d \<ge> tn_finish_now t + HELPER_DRAIN_GRACE \<Longrightarrow> leader_done t ds len p \<noteq> None"
  using finish_helper_returns [of ds "tn_finish_now t + HELPER_DRAIN_GRACE"]
  by (cases "tn_reaped t") (simp_all add: leader_done_def aborted_def)

text \<open>the module never holds the terminal. Once some turn of the loop sees the deadline passed or a terminal
  interrupt, and the reading after an exit sees its grace period over, the call has an outcome.\<close>

theorem helper_call_returns:
  assumes "\<exists>t \<in> set (se_turns env). tn_cancel t \<or> tn_now t \<ge> se_now env + HELPER_TIMEOUT"
    and "\<forall>t \<in> set (se_turns env). \<exists>d \<in> set (se_drain env). dt_now d \<ge> tn_finish_now t + HELPER_DRAIN_GRACE"
  shows "\<exists>outcome g. run_helper env request = Some (outcome, g)"
proof -
  have "pump_loop ts ds len deadline p \<noteq> None"
    if "\<exists>t \<in> set ts. tn_cancel t \<or> tn_now t \<ge> deadline"
      "\<forall>t \<in> set ts. \<exists>d \<in> set ds. dt_now d \<ge> tn_finish_now t + HELPER_DRAIN_GRACE" for ts ds len deadline p
    using that
  proof (induction ts arbitrary: p)
    case (Cons t ts)
    have exit: "leader_done t ds len q \<noteq> None" for q using Cons.prems(2) by (intro leader_done_returns) simp
    show ?case
    proof (cases "tn_cancel t \<or> tn_now t \<ge> deadline")
      case False
      then have "pump_loop ts ds len deadline q \<noteq> None" for q using Cons by auto
      then have "read_and_poll t (pump_loop ts ds len deadline) q \<noteq> None" for q
        by (auto simp: read_and_poll_def aborted_def Let_def split: prod.split PollWake.split)
      then show ?thesis using False exit
        by (auto simp: aborted_def simp del: write_request.simps split: prod.split wait_result.split bool.split)
    qed (auto simp: aborted_def)
  qed simp
  from this [OF assms] show ?thesis
    by (auto simp: run_helper_def spawn_and_pump_helper_def Let_def)
qed

section \<open>What sudo and the helper inherit\<close>

text \<open>A broken pipe while writing leaves no trace in sudo: mask and pending signal are as before.\<close>

lemma sigpipe_guard_restores:
  assumes "SigpipeGuard_block s = gs" "gs' = (if broken then broken_pipe gs else gs)"
  shows "drop_sigpipe (fst gs') (snd gs') = s"
  using assms by (cases s) (auto simp: SigpipeGuard_block_def broken_pipe_def drop_sigpipe_def consume_generated_def)

lemma cloexec_fold:
  "fold cloexec_raw fds t fd = (if fd \<in> set fds \<and> t fd \<noteq> None then Some True else t fd)"
  by (induction fds arbitrary: t) (auto simp: cloexec_raw_def)

lemma cloexec_listed:
  "fold (\<lambda>fd t. if fd \<ge> 3 then cloexec_raw fd t else t) fds t fd = (if fd \<in> set fds \<and> fd \<ge> 3 \<and> t fd \<noteq> None then Some True else t fd)"
  by (induction fds arbitrary: t) (auto simp: cloexec_raw_def)

text \<open>the helper inherits its three pipes and the liveness pipe, and nothing else of sudo: every other open
  descriptor closes at exec, whichever way the sweep is done, up to the bound of the scan where the kernel
  offers neither a range nor a complete list.\<close>

theorem helper_inherits_only_liveness:
  assumes "cloexec_unrelated_fds sweep keep t = Some t'" and "3 \<le> keep"
    and "\<And>fds. sweep = ListedFds fds \<Longrightarrow> \<forall>fd. t fd \<noteq> None \<longrightarrow> fd \<in> set fds"
  shows "t' keep = Some False \<and> (\<forall>fd < 3. t' fd = t fd) \<and> dom t' = dom t \<and>
    (\<forall>fd. 3 \<le> fd \<and> fd \<noteq> keep \<and> t' fd = Some False \<longrightarrow> (\<exists>limit. sweep = ScanFds limit \<and> max_fd_scan limit \<le> fd))"
proof (cases sweep)
  case CloseRange
  then show ?thesis using assms(1,2) by (auto simp: restore_inherited_fd_def dom_def split: if_splits)
next
  case (ListedFds fds)
  then have "\<forall>fd. t fd \<noteq> None \<longrightarrow> fd \<in> set fds" using assms(3) by simp
  then have listed: "fold (\<lambda>fd t. if fd \<ge> 3 then cloexec_raw fd t else t) fds t =
    (\<lambda>fd. if fd \<ge> 3 \<and> t fd \<noteq> None then Some True else t fd)"
    by (intro ext) (auto simp: cloexec_listed)
  have "t' = (\<lambda>fd. if fd \<ge> 3 \<and> t fd \<noteq> None then Some True else t fd)(keep \<mapsto> False)" "t keep \<noteq> None"
    using assms(1,2) unfolding ListedFds cloexec_unrelated_fds.simps listed
    by (auto simp: restore_inherited_fd_def split: if_splits)
  then show ?thesis using assms(2) by (auto simp: dom_def)
next
  case (ScanFds limit)
  have scanned: "fold cloexec_raw [3..<max_fd_scan limit] t =
    (\<lambda>fd. if 3 \<le> fd \<and> fd < max_fd_scan limit \<and> t fd \<noteq> None then Some True else t fd)"
    by (intro ext) (auto simp: cloexec_fold)
  have "t' = (\<lambda>fd. if 3 \<le> fd \<and> fd < max_fd_scan limit \<and> t fd \<noteq> None then Some True else t fd)(keep \<mapsto> False)"
    "t keep \<noteq> None"
    using assms(1,2) unfolding ScanFds cloexec_unrelated_fds.simps scanned
    by (auto simp: restore_inherited_fd_def split: if_splits)
  then show ?thesis using assms(2) by (auto simp: dom_def ScanFds not_less split: if_splits)
qed

section \<open>Concrete runs\<close>

definition sample_turn :: turn where
  "sample_turn = \<lparr>tn_cancel = False, tn_now = 5, tn_writes = [Wrote 9], tn_wait_write = Waited False, tn_wait = Waited True,
     tn_wait_again = Waited True, tn_reaped = Some (Some 0), tn_finish_now = 6, tn_stdout = [], tn_stderr = [],
     tn_wait_read = Waited False, tn_poll = PollReady, tn_wait_poll = Waited False\<rparr>"

definition sample_drain :: "drain_turn list" where
  "sample_drain = [\<lparr>dt_now = 7, dt_stdout = [GotBytes [10], GotEof], dt_stderr = [GotEof], dt_poll_fails = False\<rparr>,
     \<lparr>dt_now = 200, dt_stdout = [], dt_stderr = [], dt_poll_fails = False\<rparr>]"

definition sample_spawn :: spawn_env where
  "sample_spawn = \<lparr>se_pipe = True, se_spawn = True, se_pipes_taken = True, se_nonblocking = True, se_mask = True, se_abort_wait = True, se_now = 0,
     se_turns = [sample_turn, sample_turn\<lparr>tn_cancel := True\<rparr>], se_drain = sample_drain\<rparr>"

lemma sample_run_succeeds: "run_helper sample_spawn [1, 2] =
   Some (HelperSuccess, Some \<lparr>cg_liveness_write = False, cg_leader_reaped = True, cg_finished = True, cg_abort_wait = True,
     cg_log = [CloseLiveness, ReapLeader, KillGroup]\<rparr>)"
  by (simp add: run_helper_def spawn_and_pump_helper_def sample_spawn_def sample_turn_def sample_drain_def pump_new_def
    ChildGuard_new_def leader_done_def kill_group_def reap_def read_both_def read_fails_def drop_guard_def abort_def
    close_liveness_def classify_helper_result_def is_ascii_whitespace_def PAM_MAX_REQUEST_BYTES_def HELPER_TIMEOUT_def
    HELPER_DRAIN_GRACE_def MAX_HELPER_STDOUT_BYTES_def)


theorem helper_processes_cleaned_up_witness:
  "\<exists>after w before. [CloseLiveness, ReapLeader, KillGroup] = after @ w # before \<and> count_list before KillGroup = 1"
  using helper_processes_cleaned_up [OF sample_run_succeeds] by auto

theorem helper_call_returns_witness: "\<exists>outcome g. run_helper sample_spawn [1, 2] = Some (outcome, g)"
  by (rule helper_call_returns)
    (simp_all add: sample_spawn_def sample_turn_def sample_drain_def HELPER_DRAIN_GRACE_def HELPER_TIMEOUT_def)

definition sample_fds :: fd_table where
  "sample_fds fd = (if fd < 9 then Some False else None)"

theorem helper_inherits_only_liveness_witness:
  "\<exists>t'. cloexec_unrelated_fds CloseRange 5 sample_fds = Some t' \<and> t' 5 = Some False \<and> t' 7 \<noteq> Some False"
proof -
  have "sample_fds 5 = Some False" by (simp add: sample_fds_def)
  then obtain t' where t': "cloexec_unrelated_fds CloseRange 5 sample_fds = Some t'"
    by (simp add: restore_inherited_fd_def ex_bool_eq)
  from helper_inherits_only_liveness [OF t'] have kept: "t' 5 = Some False" and rest: "\<forall>fd\<ge>3. fd = 5 \<or> t' fd \<noteq> Some False"
    by simp_all
  from rest have "t' 7 \<noteq> Some False" by (auto dest: spec [of _ 7])
  then show ?thesis using t' kept by blast
qed

end
