(* ===== verification/Hook_Input.thy ===== *)
theory Hook_Input
  imports Hook_Request
begin

text \<open>
  How the hook builds a request from what the sudo plugin pipes to it (\<open>hook/src/main.rs\<close>): the
  line-framed payload, the private handshake, the request with its session label and process chain,
  and the two verbs \<open>check\<close> and \<open>test\<close>. What the hook asks of the host (time, randomness, host name,
  the files below \<open>/proc\<close>) is an argument.
\<close>

definition APPROVAL_TIMEOUT :: nat where "APPROVAL_TIMEOUT = 90000"

definition PRIVATE_PLUGIN_HOOK_PROTOCOL_VERSION :: nat where "PRIVATE_PLUGIN_HOOK_PROTOCOL_VERSION = 2"

section \<open>The payload\<close>

definition parse_payload_line :: "bytes \<Rightarrow> string + string \<times> string" where
  "parse_payload_line line =
     and_then (ok_or (from_utf8 line) ''stream did not contain valid UTF-8'') (\<lambda>s.
       ok_or (split_once ''='' s) ''malformed plugin payload line'')"

definition parse_sudo_stdin :: "bytes \<Rightarrow> string + (string \<times> string) list" where
  "parse_sudo_stdin stdin =
     and_then (collect_r parse_payload_line (split_lines 0x0A 0x0D stdin)) (\<lambda>values.
       if values = [] then Inl ''stdin empty; expected sudo plugin payload'' else Inr values)"

definition last_value :: "(string \<times> string) list \<Rightarrow> string \<Rightarrow> string option" where
  "last_value values key = find_map (\<lambda>(candidate, value). if candidate = key then Some value else None) (rev values)"

section \<open>The process chain\<close>

definition position :: "char \<Rightarrow> string \<Rightarrow> nat option" where
  "position c s = (if c \<in> set s then Some (length (takeWhile (\<lambda>d. d \<noteq> c) s)) else None)"

definition rposition :: "char \<Rightarrow> string \<Rightarrow> nat option" where
  "rposition c s = map_option (\<lambda>i. length s - Suc i) (position c (rev s))"

text \<open>The text between the first opening and the last closing parenthesis, and the fields after it. A
  slice that ends before it starts would panic in the source: the kernel writes the closing parenthesis
  last, and the model gives the empty string there.\<close>

definition parse_stat :: "string \<Rightarrow> (string \<times> nat option) option" where
  "parse_stat stat =
     (case (position (CHR ''('') stat, rposition (CHR '')'') stat) of
        (Some opening, Some closing) \<Rightarrow>
          (let fields = split_whitespace (chars_of (drop (closing + 1) stat))
           in Some (drop (opening + 1) (take closing stat),
                if length fields > 1 then parse_unsigned (2 ^ 32 - 1) (utf8 (fields ! 1)) else None))
      | _ \<Rightarrow> None)"

fun pid_chain_linux :: "(nat \<Rightarrow> string option) \<Rightarrow> nat \<Rightarrow> nat \<Rightarrow> string list" where
  "pid_chain_linux proc 0 pid = []"
| "pid_chain_linux proc (Suc rounds) pid =
     (case Option.bind (proc pid) parse_stat of
        None \<Rightarrow> []
      | Some (comm, parent) \<Rightarrow> (decimal pid @ '':'' @ comm) #
          (case parent of
             None \<Rightarrow> []
           | Some p \<Rightarrow> if p \<le> 1 then [] else pid_chain_linux proc rounds p))"

section \<open>The request\<close>

record host_facts =
  hf_now :: i64
  hf_nonce :: bytes
  hf_request_id :: string
  hf_hostname :: string
  hf_pid :: nat
  hf_proc :: "nat \<Rightarrow> string option"

definition normalize_session_label :: "string \<Rightarrow> string option" where
  "normalize_session_label value =
     (let trimmed = trim (chars_of value)
      in if trimmed = [] \<or> length trimmed > 64 \<or> list_ex is_control trimmed then None else Some (utf8 trimmed))"

definition session_label :: "(string \<times> string) list \<Rightarrow> string option" where
  "session_label values = Option.bind (last_value values ''session.OSHIOKI_SESSION'') normalize_session_label"

definition parse_uid :: "string option \<Rightarrow> nat \<Rightarrow> u32" where
  "parse_uid value otherwise = of_nat (case Option.bind value (parse_unsigned (2 ^ 32 - 1)) of Some n \<Rightarrow> n | None \<Rightarrow> otherwise)"

definition argv_indexes :: "(string \<times> string) list \<Rightarrow> nat list" where
  "argv_indexes values = sorted_list_of_set (set (List.map_filter
     (\<lambda>(key, _). Option.bind (strip_prefix ''argv.'' key) (parse_unsigned (2 ^ 32 - 1))) values))"

definition request_argv :: "(string \<times> string) list \<Rightarrow> string list" where
  "request_argv values = List.map_filter (\<lambda>index. last_value values (''argv.'' @ decimal index)) (argv_indexes values)"

definition request_env :: "(string \<times> string) list \<Rightarrow> EnvEntryV1 list" where
  "request_env values = List.map_filter (\<lambda>(key, value).
     map_option (\<lambda>name. \<lparr>ev_name = name, ev_value = value\<rparr>) (strip_prefix ''env.'' key)) values"

definition build_request :: "crates \<Rightarrow> host_facts \<Rightarrow> (string \<times> string) list \<Rightarrow> string + RequestV1" where
  "build_request X hf values =
     (if last_value values ''meta.env_complete'' \<noteq> Some ''1''
      then Inl ''plugin payload does not attest to a complete environment''
      else
      and_then (ok_or (Option.bind (last_value values ''meta.protocol_version'') (parse_unsigned 255))
        ''missing or invalid plugin/hook protocol version'') (\<lambda>protocol_version.
      if protocol_version \<noteq> PRIVATE_PLUGIN_HOOK_PROTOCOL_VERSION then Inl ''unsupported plugin/hook protocol version''
      else
      and_then (ok_or (Option.bind (last_value values ''meta.env_count'') (parse_unsigned (2 ^ 64 - 1)))
        ''missing or invalid environment count'') (\<lambda>expected_env_count.
      and_then (ok_or (last_value values ''info.command'') ''missing info.command'') (\<lambda>command.
      if length (request_env values) \<noteq> expected_env_count then Inl ''environment count mismatch''
      else
      let request = \<lparr>rq_version = VERSION_V1, rq_request_id = hf_request_id hf,
            rq_nonce = encode_base64url X (hf_nonce hf), rq_host = hf_hostname hf,
            rq_user = (case last_value values ''info.user'' of Some user \<Rightarrow> user | None \<Rightarrow> ''unknown''),
            rq_uid = parse_uid (last_value values ''info.uid'') (2 ^ 32 - 1),
            rq_runas_uid = parse_uid (last_value values ''info.runas_uid'') 0,
            rq_cwd = (case last_value values ''info.cwd'' of Some cwd \<Rightarrow> cwd | None \<Rightarrow> ''/''),
            rq_tty = (case last_value values ''info.tty'' of Some tty \<Rightarrow> if tty = [] then None else Some tty | None \<Rightarrow> None),
            rq_command = command, rq_argv = request_argv values,
            rq_pid_chain = pid_chain_linux (hf_proc hf) 5 (hf_pid hf),
            rq_env = request_env values, rq_session = session_label values,
            rq_issued_at = hf_now hf, rq_expires_at = hf_now hf + 90\<rparr>
      in and_then (map_err (\<lambda>_. ''invalid request'') (RequestV1_validate X request)) (\<lambda>_. Inr request)))))"

text \<open>The request of \<open>oshioki test\<close>, from the caller's own environment.\<close>

definition build_synthetic_request :: "crates \<Rightarrow> host_facts \<Rightarrow> string option \<Rightarrow> u32 \<Rightarrow> string option \<Rightarrow> string option \<Rightarrow> RequestV1" where
  "build_synthetic_request X hf user uid cwd ssh_tty =
     \<lparr>rq_version = VERSION_V1, rq_request_id = hf_request_id hf, rq_nonce = encode_base64url X (hf_nonce hf),
      rq_host = hf_hostname hf, rq_user = (case user of Some u \<Rightarrow> u | None \<Rightarrow> ''unknown''), rq_uid = uid, rq_runas_uid = 0,
      rq_cwd = (case cwd of Some d \<Rightarrow> d | None \<Rightarrow> ''/''), rq_tty = ssh_tty, rq_command = ''/usr/bin/true'',
      rq_argv = [''/usr/bin/true''], rq_pid_chain = pid_chain_linux (hf_proc hf) 5 (hf_pid hf), rq_env = [],
      rq_session = None, rq_issued_at = hf_now hf, rq_expires_at = hf_now hf + 90\<rparr>"

definition cmd_check ::
  "crates \<Rightarrow> host_facts \<Rightarrow> host_run \<Rightarrow> (nat \<Rightarrow> bool) \<Rightarrow> nat option \<Rightarrow> bytes \<Rightarrow> registry_file
    \<Rightarrow> (hook_error + unit) \<times> registry_file" where
  "cmd_check X hf run late plugin_protocol_version stdin file =
     (if plugin_protocol_version \<noteq> Some PRIVATE_PLUGIN_HOOK_PROTOCOL_VERSION
      then (Inl (Refusal ''plugin/hook protocol handshake failed''), file)
      else guarded file (map_err Refusal (and_then (parse_sudo_stdin stdin) (build_request X hf))) (\<lambda>request.
        execute_request_at X run late request APPROVAL_TIMEOUT file))"

section \<open>Facts about the input\<close>

lemma last_value_append: "last_value (xs @ ys) key = (case last_value ys key of Some v \<Rightarrow> Some v | None \<Rightarrow> last_value xs key)"
  by (simp add: last_value_def option.case_distrib split: option.split)

lemma last_value_None_iff: "last_value xs key = None \<longleftrightarrow> key \<notin> fst ` set xs"
  by (force simp: last_value_def find_map_None_iff)

lemma last_value_single: "last_value [(k, v)] key = (if k = key then Some v else None)"
  by (simp add: last_value_def)

lemma last_value_Nil [simp]: "last_value [] key = None"
  by (simp add: last_value_def)

lemma pid_chain_bounded: "length (pid_chain_linux proc rounds pid) \<le> rounds"
  by (induction proc rounds pid rule: pid_chain_linux.induct) (auto split: option.split prod.split)

text \<open>The label the hook puts into a request satisfies the validator of requests.\<close>

lemma trim_subset: "set (trim cs) \<subseteq> set cs"
  by (auto simp: trim_def dest!: set_dropWhileD)

lemma normalize_session_label_valid:
  assumes "normalize_session_label value = Some label" and "wf_str value"
  shows "label \<noteq> [] \<and> length (chars_of label) \<le> 64 \<and> \<not> list_ex is_control (chars_of label)"
proof -
  let ?t = "trim (chars_of value)"
  have t: "?t \<noteq> []" "length ?t \<le> 64" "\<not> list_ex is_control ?t" "label = utf8 ?t"
    using assms(1) by (auto simp: normalize_session_label_def Let_def split: if_splits)
  have "chars_of label = ?t"
    using assms(2) trim_subset [of "chars_of value"] t(4) by (auto simp: wf_str_def intro!: chars_of_utf8)
  moreover have "chars_of [] = []" by (simp add: chars_of_def)
  ultimately show ?thesis using t by auto
qed

end
