(* ===== verification/Sudo_Plugin.thy ===== *)
theory Sudo_Plugin
  imports Hook_Input
begin

text \<open>
  The sudo approval plugin up to the point where it starts the hook (\<open>plugin/src/lib.rs\<close>): the
  arrays sudo hands to \<open>open\<close> and \<open>check\<close>, the identity carried from one to the other, and the payload
  for the hook. A C array of strings is \<open>None\<close> for a null pointer, else its entries without their
  terminating zero byte.
\<close>

type_synonym sudo_array = "bytes list option"

definition SUDO_RC_OK :: int where "SUDO_RC_OK = 1"
definition SUDO_RC_ERROR :: int where "SUDO_RC_ERROR = -1"

definition SESSION_ENV_VARS :: "string list" where "SESSION_ENV_VARS = [''OSHIOKI_SESSION'']"

section \<open>Arrays\<close>

definition single_line :: "bytes \<Rightarrow> bool" where
  "single_line bs \<longleftrightarrow> 0x0A \<notin> set bs \<and> 0x0D \<notin> set bs"

fun parse_entries :: "bytes list \<Rightarrow> string list option" where
  "parse_entries [] = Some []"
| "parse_entries (bs # rest) =
     (if \<not> single_line bs then None
      else Option.bind (from_utf8 bs) (\<lambda>value. map_option ((#) value) (parse_entries rest)))"

definition parse_sudo_argv :: "sudo_array \<Rightarrow> string list option" where
  "parse_sudo_argv arr = (case arr of None \<Rightarrow> Some [] | Some entries \<Rightarrow> parse_entries entries)"

definition parse_sudo_array :: "sudo_array \<Rightarrow> (string \<times> string) list option" where
  "parse_sudo_array arr = map_option (map (\<lambda>item. case split_once ''='' item of Some pair \<Rightarrow> pair | None \<Rightarrow> (item, [])))
     (parse_sudo_argv arr)"

definition parse_sudo_environment :: "sudo_array \<Rightarrow> (string \<times> string) list option" where
  "parse_sudo_environment arr = Option.bind (parse_sudo_argv arr) (\<lambda>items. those (map (split_once ''='') items))"

definition parse_sudo_env_lenient :: "sudo_array \<Rightarrow> (string \<times> string) list" where
  "parse_sudo_env_lenient arr = (case arr of None \<Rightarrow> [] | Some entries \<Rightarrow>
     List.map_filter (\<lambda>bs. if \<not> single_line bs then None else Option.bind (from_utf8 bs) (split_once ''='')) entries)"

section \<open>Identity and session label\<close>

definition has_required_identity :: "(string \<times> string) list \<Rightarrow> bool" where
  "has_required_identity info \<longleftrightarrow>
     is_some_and (\<lambda>user. user \<noteq> []) (last_value info ''user'') \<and>
     is_some_and (\<lambda>uid. parse_unsigned (2 ^ 32 - 1) uid \<noteq> None) (last_value info ''uid'')"

definition extract_session_env :: "(string \<times> string) list \<Rightarrow> string option" where
  "extract_session_env envp = find_map (\<lambda>name. Option.bind (last_value envp name) (\<lambda>value.
     let trimmed = trim (chars_of value)
     in if trimmed = [] \<or> length trimmed > 64 \<or> list_ex is_control trimmed then None else Some (utf8 trimmed)))
     SESSION_ENV_VARS"

record OpenState =
  os_user_info :: "(string \<times> string) list"
  os_noninteractive :: bool
  os_session_env :: "string option"

definition approval_open_result :: "bool option \<Rightarrow> int" where
  "approval_open_result captured = (if captured = Some True then SUDO_RC_OK else SUDO_RC_ERROR)"

text \<open>The result for sudo and the state kept for \<open>check\<close>; what an earlier \<open>open\<close> kept is dropped first.\<close>

definition capture_open_state :: "sudo_array \<Rightarrow> sudo_array \<Rightarrow> sudo_array \<Rightarrow> int \<times> OpenState option" where
  "capture_open_state settings user_info submit_envp =
     (let captured =
        Option.bind (parse_sudo_array settings) (\<lambda>settings.
        Option.bind (parse_sudo_array user_info) (\<lambda>user_info.
        let session_env = extract_session_env (parse_sudo_env_lenient submit_envp) in
        if \<not> has_required_identity user_info then None
        else Some \<lparr>os_user_info = user_info,
               os_noninteractive = list_ex (\<lambda>(key, value). key = ''noninteractive'' \<and> value \<in> {[], ''true'', ''1''}) settings,
               os_session_env = session_env\<rparr>))
      in (approval_open_result (map_option (\<lambda>_. True) captured), captured))"

section \<open>The payload\<close>

record SudoContext =
  sc_payload :: bytes
  sc_username :: string
  sc_noninteractive :: bool

definition push_kv :: "string \<Rightarrow> string \<Rightarrow> string \<Rightarrow> bytes" where
  "push_kv prefix key value = as_bytes prefix @ as_bytes key @ [0x3D] @ as_bytes value @ [0x0A]"

definition push_all :: "string \<Rightarrow> (string \<times> string) list \<Rightarrow> bytes" where
  "push_all prefix pairs = concat (map (\<lambda>(key, value). push_kv prefix key value) pairs)"

definition argv_pairs :: "string list \<Rightarrow> (string \<times> string) list" where
  "argv_pairs argv = map (\<lambda>(i, value). (''argv.'' @ decimal (i + 1), value)) (enumerate 0 argv)"

definition gather_context ::
  "sudo_array \<Rightarrow> sudo_array \<Rightarrow> sudo_array \<Rightarrow> (string \<times> string) list \<Rightarrow> string option \<Rightarrow> bool \<Rightarrow> SudoContext option" where
  "gather_context command_info run_argv run_envp user_info session_env noninteractive =
     Option.bind (parse_sudo_array command_info) (\<lambda>info.
     Option.bind (parse_sudo_argv run_argv) (\<lambda>argv.
     Option.bind (parse_sudo_environment run_envp) (\<lambda>envp.
     let payload = push_all ''info.'' info @ push_all ''info.'' user_info @ push_all [] (argv_pairs argv) @ push_all ''env.'' envp @
           (case session_env of Some value \<Rightarrow> push_kv ''session.'' ''OSHIOKI_SESSION'' value | None \<Rightarrow> []) @
           push_kv ''meta.'' ''protocol_version'' (decimal PRIVATE_PLUGIN_HOOK_PROTOCOL_VERSION) @
           push_kv ''meta.'' ''env_complete'' ''1'' @ push_kv ''meta.'' ''env_count'' (decimal (length envp))
     in Option.bind (last_value user_info ''user'') (\<lambda>username.
        Some \<lparr>sc_payload = payload, sc_username = username, sc_noninteractive = noninteractive\<rparr>))))"

definition gather_context_after_open ::
  "sudo_array \<Rightarrow> sudo_array \<Rightarrow> sudo_array \<Rightarrow> OpenState option \<Rightarrow> SudoContext option \<times> OpenState option" where
  "gather_context_after_open command_info run_argv run_envp state =
     (Option.bind state (\<lambda>st. gather_context command_info run_argv run_envp
        (os_user_info st) (os_session_env st) (os_noninteractive st)), None)"

text \<open>The answer of \<open>check\<close>: \<open>run_hook\<close> decides for a complete context.\<close>

definition check ::
  "(SudoContext \<Rightarrow> int) \<Rightarrow> sudo_array \<Rightarrow> sudo_array \<Rightarrow> sudo_array \<Rightarrow> OpenState option \<Rightarrow> int \<times> OpenState option" where
  "check run_hook command_info run_argv run_envp state =
     (case gather_context_after_open command_info run_argv run_envp state of
        (Some ctx, state') \<Rightarrow> (run_hook ctx, state')
      | (None, state') \<Rightarrow> (0, state'))"

definition show_version :: "OpenState option \<Rightarrow> int \<times> OpenState option" where
  "show_version state = (SUDO_RC_OK, None)"

section \<open>What the hook reads\<close>

definition line_ok :: "string \<Rightarrow> bool" where
  "line_ok s \<longleftrightarrow> str_ok s \<and> CHR 0x0A \<notin> set s \<and> CHR 0x0D \<notin> set s"

definition pair_ok :: "string \<times> string \<Rightarrow> bool" where
  "pair_ok p \<longleftrightarrow> line_ok (fst p) \<and> line_ok (snd p) \<and> CHR ''='' \<notin> set (fst p)"

lemma as_bytes_mem [simp]: "(of_char c :: u8) \<in> set (as_bytes s) \<longleftrightarrow> c \<in> set s"
  by (auto simp: as_bytes_def)

lemma control_bytes: "(0x0A :: u8) = of_char (CHR 0x0A)" "(0x0D :: u8) = of_char (CHR 0x0D)" "(0x3D :: u8) = of_char (CHR ''='')"
  by (simp_all add: of_char_def)

lemma control_mem [simp]:
  "(0x0A :: u8) \<in> set (as_bytes s) \<longleftrightarrow> CHR 0x0A \<in> set s" "(0x0D :: u8) \<in> set (as_bytes s) \<longleftrightarrow> CHR 0x0D \<in> set s"
  by (simp_all only: control_bytes as_bytes_mem)

lemma single_line_as_bytes: "single_line (as_bytes s) \<longleftrightarrow> CHR 0x0A \<notin> set s \<and> CHR 0x0D \<notin> set s"
  by (simp add: single_line_def)

lemma line_ok_append [intro]: "line_ok a \<Longrightarrow> line_ok b \<Longrightarrow> line_ok (a @ b)"
  by (auto simp: line_ok_def)

lemma line_ok_ascii: "list_all (\<lambda>c. 31 < (of_char c :: nat) \<and> of_char c < (128 :: nat)) s \<Longrightarrow> line_ok s"
  using str_ok_ascii [of s] by (auto simp: line_ok_def list_all_iff)

lemma line_ok_decimal [simp]: "line_ok (decimal n)"
  using decimal_is_digit [of n] by (intro line_ok_ascii) (auto simp: list_all_iff is_digit_def)

lemma parse_entries_iff: "parse_entries es = Some vs \<longleftrightarrow> es = map as_bytes vs \<and> (\<forall>v \<in> set vs. line_ok v)"
proof (induction es arbitrary: vs)
  case (Cons e es)
  show ?case
    by (cases vs) (auto simp: bind_eq_Some_conv Cons from_utf8_Some_iff single_line_as_bytes line_ok_def split: if_splits)
qed auto

lemma parse_sudo_argv_iff:
  "parse_sudo_argv arr = Some vs \<longleftrightarrow> (case arr of None \<Rightarrow> [] | Some es \<Rightarrow> es) = map as_bytes vs \<and> (\<forall>v \<in> set vs. line_ok v)"
  by (cases arr) (auto simp: parse_sudo_argv_def parse_entries_iff)

lemma split_pair_ok:
  assumes "line_ok item" and "split_once ''='' item = Some (k, v)"
  shows "pair_ok (k, v)" and "as_bytes item = as_bytes k @ 0x3D # as_bytes v"
proof -
  have item: "item = k @ CHR ''='' # v" using assms(2) by (rule split_once_char)
  then show "as_bytes item = as_bytes k @ 0x3D # as_bytes v" by simp
  have "str_ok k \<and> str_ok v" using assms(1) unfolding item line_ok_def by (intro str_ok_cut [of k "CHR ''=''" v]) simp_all
  then show "pair_ok (k, v)"
    using assms(1) split_once_key [OF assms(2)] by (simp add: pair_ok_def line_ok_def item)
qed

lemma parse_sudo_array_ok: "parse_sudo_array arr = Some ps \<Longrightarrow> \<forall>p \<in> set ps. pair_ok p"
proof -
  assume "parse_sudo_array arr = Some ps"
  then obtain items where items: "\<forall>item \<in> set items. line_ok item"
    "ps = map (\<lambda>item. case split_once ''='' item of Some pair \<Rightarrow> pair | None \<Rightarrow> (item, [])) items"
    by (auto simp only: parse_sudo_array_def map_option_eq_Some parse_sudo_argv_iff)
  have "pair_ok (case split_once ''='' item of Some pair \<Rightarrow> pair | None \<Rightarrow> (item, []))" if "line_ok item" for item
  proof (cases "split_once ''='' item")
    case None
    then have "CHR ''='' \<notin> set item" by (simp add: split_once_None_iff)
    then show ?thesis using that None str_ok_ascii [of "[]"] by (simp add: pair_ok_def line_ok_def)
  next
    case (Some p)
    then show ?thesis using split_pair_ok(1) [OF that, of "fst p" "snd p"] by simp
  qed
  with items show ?thesis by simp
qed

lemma those_Some_iff: "those xs = Some ys \<longleftrightarrow> xs = map Some ys"
  by (induction xs arbitrary: ys) (auto split: option.split)

lemma parse_sudo_environment_ok:
  assumes "parse_sudo_environment arr = Some ps"
  shows "\<forall>p \<in> set ps. pair_ok p"
    and "(case arr of None \<Rightarrow> [] | Some es \<Rightarrow> es) = map (\<lambda>(k, v). as_bytes k @ 0x3D # as_bytes v) ps"
proof -
  from assms obtain items where items: "parse_sudo_argv arr = Some items" "map (split_once ''='') items = map Some ps"
    by (auto simp: parse_sudo_environment_def bind_eq_Some_conv those_Some_iff)
  have len: "length items = length ps" using items(2) by (rule map_eq_imp_length_eq)
  have each: "pair_ok (ps ! i) \<and> as_bytes (items ! i) = (\<lambda>(k, v). as_bytes k @ 0x3D # as_bytes v) (ps ! i)" if "i < length ps" for i
  proof -
    obtain k v where kv: "ps ! i = (k, v)" by (cases "ps ! i")
    have "split_once ''='' (items ! i) = Some (k, v)" using items(2) that len kv by (metis nth_map)
    moreover have "line_ok (items ! i)" using items(1) that len by (simp add: parse_sudo_argv_iff)
    ultimately show ?thesis using split_pair_ok kv by simp
  qed
  show "\<forall>p \<in> set ps. pair_ok p" using each by (metis in_set_conv_nth)
  have "map as_bytes items = map (\<lambda>(k, v). as_bytes k @ 0x3D # as_bytes v) ps"
    using each len by (intro nth_equalityI) simp_all
  then show "(case arr of None \<Rightarrow> [] | Some es \<Rightarrow> es) = map (\<lambda>(k, v). as_bytes k @ 0x3D # as_bytes v) ps"
    using items(1) by (simp add: parse_sudo_argv_iff)
qed

definition kv_line :: "string \<times> string \<Rightarrow> bytes" where
  "kv_line p = as_bytes (fst p @ CHR ''='' # snd p)"

definition prefixed :: "string \<Rightarrow> (string \<times> string) list \<Rightarrow> (string \<times> string) list" where
  "prefixed prefix pairs = map (\<lambda>(k, v). (prefix @ k, v)) pairs"

lemma push_kv_line: "push_kv prefix key value = kv_line (prefix @ key, value) @ [0x0A]"
  by (simp add: push_kv_def kv_line_def)

lemma push_all_lines: "push_all prefix pairs = concat (map (\<lambda>line. line @ [0x0A]) (map kv_line (prefixed prefix pairs)))"
  by (induction pairs) (auto simp: push_all_def prefixed_def push_kv_line)

lemma prefixed_ok: "\<forall>p \<in> set ps. pair_ok p \<Longrightarrow> line_ok prefix \<Longrightarrow> CHR ''='' \<notin> set prefix \<Longrightarrow> \<forall>p \<in> set (prefixed prefix ps). pair_ok p"
  by (auto simp: prefixed_def pair_ok_def line_ok_append)

lemma kv_line_single: "pair_ok p \<Longrightarrow> 0x0A \<notin> set (kv_line p) \<and> 0x0D \<notin> set (kv_line p)"
  unfolding kv_line_def control_mem by (simp add: pair_ok_def line_ok_def)

lemma parse_kv_line: "pair_ok p \<Longrightarrow> parse_payload_line (kv_line p) = Inr p"
proof -
  assume p: "pair_ok p"
  have "str_ok (fst p @ ''='' @ snd p)"
    using p str_ok_ascii [of "''=''"] by (intro str_ok_append) (simp_all add: pair_ok_def line_ok_def)
  then have "from_utf8 (kv_line p) = Some (fst p @ CHR ''='' # snd p)"
    by (simp add: from_utf8_Some_iff kv_line_def)
  then show ?thesis using p by (simp add: parse_payload_line_def pair_ok_def)
qed

lemma parse_sudo_stdin_lines:
  assumes "\<forall>p \<in> set ps. pair_ok p" and "ps \<noteq> []"
  shows "parse_sudo_stdin (concat (map (\<lambda>line. line @ [0x0A]) (map kv_line ps))) = Inr ps"
proof -
  have "split_lines 0x0A 0x0D (concat (map (\<lambda>line. line @ [0x0A]) (map kv_line ps))) = map kv_line ps"
    using assms(1) kv_line_single by (intro split_lines_concat) auto
  moreover have "collect_r parse_payload_line (map kv_line ps) = Inr ps"
    using assms(1) by (induction ps) (simp_all add: parse_kv_line)
  ultimately show ?thesis using assms(2) by (simp add: parse_sudo_stdin_def)
qed

section \<open>The request is the one sudo runs\<close>

definition payload_pairs ::
  "(string \<times> string) list \<Rightarrow> string list \<Rightarrow> (string \<times> string) list \<Rightarrow> string option \<Rightarrow> (string \<times> string) list" where
  "payload_pairs info argv envp session_env =
     prefixed ''info.'' info @ argv_pairs argv @ prefixed ''env.'' envp @
     (case session_env of Some value \<Rightarrow> [(''session.OSHIOKI_SESSION'', value)] | None \<Rightarrow> []) @
     [(''meta.protocol_version'', decimal PRIVATE_PLUGIN_HOOK_PROTOCOL_VERSION), (''meta.env_complete'', ''1''),
      (''meta.env_count'', decimal (length envp))]"

lemma prefixed_append: "prefixed p (xs @ ys) = prefixed p xs @ prefixed p ys"
  by (simp add: prefixed_def)

lemma prefixed_empty: "prefixed [] xs = xs"
  by (simp add: prefixed_def case_prod_beta)

lemma gather_context_payload:
  assumes "gather_context command_info run_argv run_envp user_info session_env noninteractive = Some ctx"
  obtains info argv envp where "parse_sudo_array command_info = Some info" "parse_sudo_argv run_argv = Some argv"
    "parse_sudo_environment run_envp = Some envp"
    "sc_payload ctx = concat (map (\<lambda>line. line @ [0x0A]) (map kv_line (payload_pairs (info @ user_info) argv envp session_env)))"
    "last_value user_info ''user'' = Some (sc_username ctx)" "sc_noninteractive ctx = noninteractive"
proof -
  from assms obtain info argv envp where parsed: "parse_sudo_array command_info = Some info" "parse_sudo_argv run_argv = Some argv"
    "parse_sudo_environment run_envp = Some envp"
    and ctx: "sc_payload ctx = push_all ''info.'' info @ push_all ''info.'' user_info @ push_all [] (argv_pairs argv) @ push_all ''env.'' envp @
           (case session_env of Some value \<Rightarrow> push_kv ''session.'' ''OSHIOKI_SESSION'' value | None \<Rightarrow> []) @
           push_kv ''meta.'' ''protocol_version'' (decimal PRIVATE_PLUGIN_HOOK_PROTOCOL_VERSION) @
           push_kv ''meta.'' ''env_complete'' ''1'' @ push_kv ''meta.'' ''env_count'' (decimal (length envp))"
      "last_value user_info ''user'' = Some (sc_username ctx)" "sc_noninteractive ctx = noninteractive"
    by (auto simp only: gather_context_def bind_eq_Some_conv Let_def option.inject SudoContext.simps)
  have "sc_payload ctx = concat (map (\<lambda>line. line @ [0x0A]) (map kv_line (payload_pairs (info @ user_info) argv envp session_env)))"
    unfolding ctx(1) payload_pairs_def push_all_lines push_kv_line prefixed_append prefixed_empty
    by (cases session_env) simp_all
  with parsed ctx(2,3) show thesis using that by blast
qed

lemma argv_pairs_snoc: "argv_pairs (argv @ [a]) = argv_pairs argv @ [(''argv.'' @ decimal (length argv + 1), a)]"
  by (simp add: argv_pairs_def enumerate_append_eq)

lemma argv_pairs_ok: "\<forall>v \<in> set argv. line_ok v \<Longrightarrow> \<forall>p \<in> set (argv_pairs argv). pair_ok p"
proof (induction argv rule: rev_induct)
  case (snoc a argv)
  have "line_ok (''argv.'' @ decimal n)" for n by (intro line_ok_append line_ok_decimal line_ok_ascii) simp
  moreover have "CHR ''='' \<notin> set (decimal n)" for n
    using decimal_is_digit [of n] by (auto simp: list_all_iff is_digit_def)
  ultimately show ?case using snoc by (auto simp: argv_pairs_snoc pair_ok_def)
qed (simp add: argv_pairs_def)

lemma payload_pairs_ok:
  assumes "\<forall>p \<in> set info. pair_ok p" "\<forall>v \<in> set argv. line_ok v" "\<forall>p \<in> set envp. pair_ok p"
    "\<And>s. session_env = Some s \<Longrightarrow> line_ok s"
  shows "\<forall>p \<in> set (payload_pairs info argv envp session_env). pair_ok p"
proof -
  have "line_ok ''info.''" "line_ok ''env.''" "line_ok ''session.OSHIOKI_SESSION''" "line_ok ''meta.protocol_version''" "line_ok ''meta.env_complete''"
    "line_ok ''meta.env_count''" "line_ok ''1''"
    by (rule line_ok_ascii; simp)+
  moreover from this have "\<forall>p \<in> set (prefixed ''info.'' info). pair_ok p" "\<forall>p \<in> set (prefixed ''env.'' envp). pair_ok p"
    using prefixed_ok [OF assms(1), of "''info.''"] prefixed_ok [OF assms(3), of "''env.''"] by simp_all
  ultimately show ?thesis
    using argv_pairs_ok [OF assms(2)] assms(4) by (cases session_env) (simp_all add: payload_pairs_def pair_ok_def ball_Un)
qed

lemma last_value_prefixed: "last_value (prefixed p xs) (p @ key) = last_value xs key"
  by (induction xs rule: rev_induct) (auto simp: prefixed_def last_value_append last_value_single)

lemma last_value_foreign: "fst ` set xs \<subseteq> range ((@) p) \<Longrightarrow> key \<notin> range ((@) p) \<Longrightarrow> last_value xs key = None"
  by (auto simp only: last_value_None_iff)

lemma keys_prefixed: "fst ` set (prefixed p xs) \<subseteq> range ((@) p)"
  by (auto simp: prefixed_def)

lemma keys_argv: "fst ` set (argv_pairs argv) \<subseteq> range ((@) ''argv.'')"
  unfolding argv_pairs_def by (auto simp del: append.simps)

lemma last_value_argv: "i < length argv \<Longrightarrow> last_value (argv_pairs argv) (''argv.'' @ decimal (i + 1)) = Some (argv ! i)"
proof (induction argv rule: rev_induct)
  case (snoc a argv)
  then show ?case
    by (cases "i = length argv") (simp_all add: argv_pairs_snoc last_value_append last_value_single nth_append)
qed simp

lemma meta_values:
  "last_value (payload_pairs info argv envp session_env) ''meta.env_complete'' = Some ''1''"
  "last_value (payload_pairs info argv envp session_env) ''meta.protocol_version'' = Some (decimal PRIVATE_PLUGIN_HOOK_PROTOCOL_VERSION)"
  "last_value (payload_pairs info argv envp session_env) ''meta.env_count'' = Some (decimal (length envp))"
  unfolding payload_pairs_def last_value_append by (simp_all add: last_value_def)

definition meta_pairs :: "nat \<Rightarrow> (string \<times> string) list" where
  "meta_pairs n = [(''meta.protocol_version'', decimal PRIVATE_PLUGIN_HOOK_PROTOCOL_VERSION), (''meta.env_complete'', ''1''),
      (''meta.env_count'', decimal n)]"

lemma keys_meta: "fst ` set (meta_pairs n) \<subseteq> range ((@) ''meta.'')"
  using rangeI [of "(@) ''meta.''" "''protocol_version''"] rangeI [of "(@) ''meta.''" "''env_complete''"] rangeI [of "(@) ''meta.''" "''env_count''"]
  by (simp add: meta_pairs_def)

lemmas foreign_keys = last_value_foreign [OF keys_prefixed] last_value_foreign [OF keys_argv] last_value_foreign [OF keys_meta]

lemma info_value:
  "last_value (payload_pairs info argv envp session_env) (''info.'' @ key) = last_value info key"
proof -
  have "last_value (prefixed ''env.'' envp) (''info.'' @ key) = None" "last_value (argv_pairs argv) (''info.'' @ key) = None"
    "last_value (meta_pairs (length envp)) (''info.'' @ key) = None"
    by (rule foreign_keys; auto)+
  moreover have "last_value (case session_env of Some value \<Rightarrow> [(''session.OSHIOKI_SESSION'', value)] | None \<Rightarrow> []) (''info.'' @ key) = None"
    by (cases session_env) (simp_all add: last_value_single)
  ultimately show ?thesis
    unfolding payload_pairs_def last_value_append last_value_prefixed meta_pairs_def by simp
qed

lemma session_value:
  "last_value (payload_pairs info argv envp session_env) ''session.OSHIOKI_SESSION'' = session_env"
proof -
  have "last_value (meta_pairs (length envp)) ''session.OSHIOKI_SESSION'' = None"
    "last_value (prefixed ''info.'' info) ''session.OSHIOKI_SESSION'' = None"
    "last_value (prefixed ''env.'' envp) ''session.OSHIOKI_SESSION'' = None"
    "last_value (argv_pairs argv) ''session.OSHIOKI_SESSION'' = None"
    by (rule foreign_keys; auto)+
  then show ?thesis
    unfolding payload_pairs_def last_value_append meta_pairs_def by (cases session_env) (simp_all add: last_value_single)
qed

lemma map_filter_append [simp]: "List.map_filter f (xs @ ys) = List.map_filter f xs @ List.map_filter f ys"
  by (simp add: List.map_filter_def)

lemma map_filter_none: "(\<And>x. x \<in> set xs \<Longrightarrow> f x = None) \<Longrightarrow> List.map_filter f xs = []"
  by (simp add: List.map_filter_def)

lemma map_filter_some: "(\<And>x. x \<in> set xs \<Longrightarrow> f x = Some (g x)) \<Longrightarrow> List.map_filter f xs = map g xs"
  by (induction xs) (simp_all add: List.map_filter_simps)

lemma strip_prefix_foreign: "key \<notin> range ((@) p) \<Longrightarrow> strip_prefix p key = None"
  by (cases "strip_prefix p key") auto

lemma map_filter_foreign:
  assumes "fst ` set xs \<subseteq> range ((@) q)" and "\<And>k. q @ k \<notin> range ((@) p)"
  shows "List.map_filter (\<lambda>(key, value). Option.bind (strip_prefix p key) (f value)) xs = []"
  using assms by (intro map_filter_none) (force simp: strip_prefix_foreign)

lemma request_env_payload:
  "request_env (payload_pairs info argv envp session_env) = map (\<lambda>(k, v). \<lparr>ev_name = k, ev_value = v\<rparr>) envp"
proof -
  let ?f = "\<lambda>(key, value). Option.bind (strip_prefix ''env.'' key) (\<lambda>name. Some \<lparr>ev_name = name, ev_value = value\<rparr>)"
  have f: "(\<lambda>(key, value). map_option (\<lambda>name. \<lparr>ev_name = name, ev_value = value\<rparr>) (strip_prefix ''env.'' key)) = ?f"
    by (auto simp: map_conv_bind_option comp_def)
  have "List.map_filter ?f (prefixed ''info.'' info) = []" "List.map_filter ?f (argv_pairs argv) = []"
    "List.map_filter ?f (meta_pairs (length envp)) = []"
    by (rule map_filter_foreign [OF keys_prefixed] map_filter_foreign [OF keys_argv] map_filter_foreign [OF keys_meta]; auto)+
  moreover have "List.map_filter ?f (case session_env of Some value \<Rightarrow> [(''session.OSHIOKI_SESSION'', value)] | None \<Rightarrow> []) = []"
    by (cases session_env) (auto simp: List.map_filter_simps strip_prefix_def starts_with_def)
  moreover have "List.map_filter ?f (prefixed ''env.'' envp) = map (\<lambda>(k, v). \<lparr>ev_name = k, ev_value = v\<rparr>) envp"
    unfolding prefixed_def by (induction envp) (auto simp: List.map_filter_simps simp del: append.simps)
  ultimately show ?thesis
    unfolding request_env_def f payload_pairs_def map_filter_append meta_pairs_def by simp
qed

lemma argv_indexes_payload:
  assumes "length argv < 2 ^ 32"
  shows "argv_indexes (payload_pairs info argv envp session_env) = [1..<length argv + 1]"
proof -
  let ?f = "\<lambda>(key, value). Option.bind (strip_prefix ''argv.'' key) (\<lambda>k. parse_unsigned (2 ^ 32 - 1) k)"
  have "List.map_filter ?f (prefixed ''info.'' info) = []" "List.map_filter ?f (prefixed ''env.'' envp) = []"
    "List.map_filter ?f (meta_pairs (length envp)) = []"
    by (rule map_filter_foreign [OF keys_prefixed, where f = "\<lambda>_ k. parse_unsigned (2 ^ 32 - 1) k"]
      map_filter_foreign [OF keys_meta, where f = "\<lambda>_ k. parse_unsigned (2 ^ 32 - 1) k"]; auto)+
  moreover have "List.map_filter ?f (case session_env of Some value \<Rightarrow> [(''session.OSHIOKI_SESSION'', value)] | None \<Rightarrow> []) = []"
    by (cases session_env) (auto simp: List.map_filter_simps strip_prefix_def starts_with_def)
  moreover have "List.map_filter ?f (argv_pairs argv) = [1..<length argv + 1]"
    using assms
  proof (induction argv rule: rev_induct)
    case (snoc a argv)
    then show ?case by (simp add: argv_pairs_snoc List.map_filter_simps del: append.simps)
  qed (simp add: argv_pairs_def List.map_filter_simps)
  ultimately have "List.map_filter ?f (payload_pairs info argv envp session_env) = [1..<length argv + 1]"
    unfolding payload_pairs_def map_filter_append meta_pairs_def by simp
  then show ?thesis
    unfolding argv_indexes_def by (simp only: sorted_list_of_set.idem_if_sorted_distinct sorted_upt distinct_upt)
qed

lemma argv_value:
  assumes "i < length argv"
  shows "last_value (payload_pairs info argv envp session_env) (''argv.'' @ decimal (i + 1)) = Some (argv ! i)"
proof -
  have "last_value (meta_pairs (length envp)) (''argv.'' @ decimal (i + 1)) = None"
    "last_value (prefixed ''env.'' envp) (''argv.'' @ decimal (i + 1)) = None"
    by (rule foreign_keys; auto)+
  moreover have "last_value (case session_env of Some value \<Rightarrow> [(''session.OSHIOKI_SESSION'', value)] | None \<Rightarrow> []) (''argv.'' @ decimal (i + 1)) = None"
    by (cases session_env) (simp_all add: last_value_single)
  ultimately show ?thesis
    unfolding payload_pairs_def last_value_append meta_pairs_def last_value_argv [OF assms] by simp
qed

lemma request_argv_payload:
  assumes "length argv < 2 ^ 32"
  shows "request_argv (payload_pairs info argv envp session_env) = argv"
proof -
  let ?ps = "payload_pairs info argv envp session_env"
  have "request_argv ?ps = List.map_filter (\<lambda>index. last_value ?ps (''argv.'' @ decimal index)) [1..<length argv + 1]"
    unfolding request_argv_def argv_indexes_payload [OF assms] ..
  also have "\<dots> = map (\<lambda>index. argv ! (index - 1)) [1..<length argv + 1]"
  proof (rule map_filter_some)
    fix index assume "index \<in> set [1..<length argv + 1]"
    then have "1 \<le> index" "index < length argv + 1" by auto
    then obtain i where i: "index = i + 1" "i < length argv" by (cases index) simp_all
    show "last_value ?ps (''argv.'' @ decimal index) = Some (argv ! (index - 1))"
      using argv_value [OF i(2)] unfolding i(1) by simp
  qed
  also have "\<dots> = argv" by (rule nth_equalityI) (simp_all del: upt_Suc)
  finally show ?thesis .
qed

text \<open>The session label arrives as the plugin read it.\<close>

lemma trim_ends: "trim cs \<noteq> [] \<Longrightarrow> \<not> is_whitespace (hd (trim cs)) \<and> \<not> is_whitespace (last (trim cs))"
proof -
  let ?d = "dropWhile is_whitespace cs"
  let ?r = "dropWhile is_whitespace (rev ?d)"
  assume "trim cs \<noteq> []"
  then have r: "?r \<noteq> []" by (simp add: trim_def)
  then have "\<not> is_whitespace (hd ?r)" using hd_dropWhile by blast
  then have end_ok: "\<not> is_whitespace (last (trim cs))" using r by (simp add: trim_def last_rev)
  obtain ws where ws: "rev ?d = ws @ ?r" by (metis takeWhile_dropWhile_id)
  then have "?d = rev ?r @ rev ws" by (metis rev_append rev_rev_ident)
  moreover have "hd (rev ?r @ rev ws) = hd (trim cs)" using r unfolding trim_def by (subst hd_append2) simp_all
  ultimately have "hd ?d = hd (trim cs)" by metis
  moreover have "?d \<noteq> []" using r by (metis dropWhile.simps(1) rev.simps(1))
  ultimately show ?thesis using end_ok hd_dropWhile [of is_whitespace cs] by simp
qed

lemma dropWhile_hd: "xs = [] \<or> \<not> P (hd xs) \<Longrightarrow> dropWhile P xs = xs"
  by (cases xs) auto

lemma trim_trim: "trim (trim cs) = trim cs"
proof -
  let ?t = "trim cs"
  have "dropWhile is_whitespace ?t = ?t" "dropWhile is_whitespace (rev ?t) = rev ?t"
    using trim_ends [of cs] by (auto intro!: dropWhile_hd simp: hd_rev)
  then show ?thesis by (simp add: trim_def [of "trim cs"])
qed

lemma chars_of_trimmed: "wf_str v \<Longrightarrow> chars_of (utf8 (trim (chars_of v))) = trim (chars_of v)"
  using trim_subset [of "chars_of v"] by (auto simp: wf_str_def intro!: chars_of_utf8)

lemma lenient_values_ok: "(k, v) \<in> set (parse_sudo_env_lenient arr) \<Longrightarrow> line_ok v"
proof -
  assume "(k, v) \<in> set (parse_sudo_env_lenient arr)"
  then obtain bs s where "single_line bs" "from_utf8 bs = Some s" "split_once ''='' s = Some (k, v)"
    by (auto simp: parse_sudo_env_lenient_def List.map_filter_def split: option.splits if_splits Option.bind_splits)
  then have "line_ok s" by (auto simp: from_utf8_Some_iff single_line_as_bytes line_ok_def)
  then show ?thesis using split_pair_ok(1) [of s k v] \<open>split_once _ _ = _\<close> by (simp add: pair_ok_def)
qed

lemma last_value_mem: "last_value xs key = Some v \<Longrightarrow> (key, v) \<in> set xs"
  by (auto simp: last_value_def dest!: find_map_Some split: if_splits)

lemma session_env_kept:
  assumes "extract_session_env (parse_sudo_env_lenient arr) = Some label"
  shows "normalize_session_label label = Some label" and "line_ok label"
proof -
  obtain v where v: "last_value (parse_sudo_env_lenient arr) ''OSHIOKI_SESSION'' = Some v" and
    t: "trim (chars_of v) \<noteq> []" "\<not> length (trim (chars_of v)) > 64" "\<not> list_ex is_control (trim (chars_of v))"
    and label: "label = utf8 (trim (chars_of v))"
    using assms by (auto simp: extract_session_env_def SESSION_ENV_VARS_def Let_def bind_eq_Some_conv
      split: option.splits if_splits)
  have ok: "line_ok v" using v by (auto dest!: last_value_mem lenient_values_ok)
  then have chars: "chars_of label = trim (chars_of v)" using chars_of_trimmed by (simp add: label line_ok_def str_ok_def)
  then show "normalize_session_label label = Some label"
    using t by (simp add: normalize_session_label_def trim_trim label)
  have "wf_str label" unfolding label
    using ok trim_subset [of "chars_of v"] by (intro wf_utf8) (auto simp: line_ok_def str_ok_def wf_str_def)
  moreover have "\<forall>c \<in> set (chars_of label). \<not> (0xD800 \<le> c \<and> c < 0xE000)"
    using ok trim_subset [of "chars_of v"] unfolding chars by (auto simp: line_ok_def str_ok_def)
  moreover have "CHR 0x0A \<notin> set label" "CHR 0x0D \<notin> set label"
  proof -
    have ctl: "c \<notin> set (utf8 cs)" if "\<not> list_ex is_control cs" "\<forall>c \<in> set cs. scalar c" "(of_char c :: nat) \<in> {10, 13}" for c cs
    proof
      assume "c \<in> set (utf8 cs)"
      then obtain d b where d: "d \<in> set cs" "b \<in> set (utf8_bytes d)" "c = char_of b" by (auto simp: utf8_def)
      have "b < 256" using d utf8_bytes_small that(2) by blast
      then have "b \<in> {10, 13}" using that(3) d(3) by (simp add: take_bit_eq_mod)
      then have "d = b" using utf8_bytes_split [of d] d that(2) by (auto; force)
      then show False using that(1) d(1) \<open>b \<in> {10, 13}\<close> by (auto simp: list_ex_iff is_control_def)
    qed
    have "\<forall>c \<in> set (trim (chars_of v)). scalar c"
      using ok trim_subset [of "chars_of v"] by (auto simp: line_ok_def str_ok_def wf_str_def)
    then show "CHR 0x0A \<notin> set label" "CHR 0x0D \<notin> set label" using ctl t(3) unfolding label by auto
  qed
  ultimately show "line_ok label" by (simp add: line_ok_def str_ok_def)
qed

lemma capture_open_state_iff:
  "capture_open_state settings user_info submit_envp = (SUDO_RC_OK, Some st) \<longleftrightarrow>
   (\<exists>s. parse_sudo_array settings = Some s \<and> parse_sudo_array user_info = Some (os_user_info st) \<and>
      has_required_identity (os_user_info st) \<and> os_session_env st = extract_session_env (parse_sudo_env_lenient submit_envp) \<and>
      os_noninteractive st = list_ex (\<lambda>(key, value). key = ''noninteractive'' \<and> value \<in> {[], ''true'', ''1''}) s)"
  by (cases st) (auto simp: capture_open_state_def Let_def bind_eq_Some_conv approval_open_result_def split: if_splits)

section \<open>From sudo to the request\<close>

text \<open>The request that stands for a sudo invocation, with the last value of each identity key.\<close>

definition sudo_request ::
  "crates \<Rightarrow> host_facts \<Rightarrow> (string \<times> string) list \<Rightarrow> string list \<Rightarrow> (string \<times> string) list \<Rightarrow> string option \<Rightarrow> string \<Rightarrow> RequestV1" where
  "sudo_request X hf info argv envp session_env command =
     \<lparr>rq_version = VERSION_V1, rq_request_id = hf_request_id hf, rq_nonce = encode_base64url X (hf_nonce hf),
      rq_host = hf_hostname hf,
      rq_user = (case last_value info ''user'' of Some user \<Rightarrow> user | None \<Rightarrow> ''unknown''),
      rq_uid = parse_uid (last_value info ''uid'') (2 ^ 32 - 1),
      rq_runas_uid = parse_uid (last_value info ''runas_uid'') 0,
      rq_cwd = (case last_value info ''cwd'' of Some cwd \<Rightarrow> cwd | None \<Rightarrow> ''/''),
      rq_tty = (case last_value info ''tty'' of Some tty \<Rightarrow> if tty = [] then None else Some tty | None \<Rightarrow> None),
      rq_command = command, rq_argv = argv, rq_pid_chain = pid_chain_linux (hf_proc hf) 5 (hf_pid hf),
      rq_env = map (\<lambda>(k, v). \<lparr>ev_name = k, ev_value = v\<rparr>) envp, rq_session = session_env,
      rq_issued_at = hf_now hf, rq_expires_at = hf_now hf + 90\<rparr>"

lemma build_request_payload:
  assumes "length argv < 2 ^ 32" "length envp < 2 ^ 64" "\<And>s. session_env = Some s \<Longrightarrow> normalize_session_label s = Some s"
  shows "build_request X hf (payload_pairs info argv envp session_env) =
    and_then (ok_or (last_value info ''command'') ''missing info.command'') (\<lambda>command.
      let request = sudo_request X hf info argv envp session_env command
      in and_then (map_err (\<lambda>_. ''invalid request'') (RequestV1_validate X request)) (\<lambda>_. Inr request))"
proof -
  have info: "last_value (payload_pairs info argv envp session_env) ''info.command'' = last_value info ''command''"
    "last_value (payload_pairs info argv envp session_env) ''info.user'' = last_value info ''user''"
    "last_value (payload_pairs info argv envp session_env) ''info.uid'' = last_value info ''uid''"
    "last_value (payload_pairs info argv envp session_env) ''info.runas_uid'' = last_value info ''runas_uid''"
    "last_value (payload_pairs info argv envp session_env) ''info.cwd'' = last_value info ''cwd''"
    "last_value (payload_pairs info argv envp session_env) ''info.tty'' = last_value info ''tty''"
    using info_value [of info argv envp session_env] by (metis append.simps)+
  have label: "session_label (payload_pairs info argv envp session_env) = session_env"
    unfolding session_label_def session_value using assms(3) by (cases session_env) simp_all
  have version: "parse_unsigned 255 (decimal PRIVATE_PLUGIN_HOOK_PROTOCOL_VERSION) = Some PRIVATE_PLUGIN_HOOK_PROTOCOL_VERSION"
    by (rule parse_decimal) (simp add: PRIVATE_PLUGIN_HOOK_PROTOCOL_VERSION_def)
  have count: "parse_unsigned (2 ^ 64 - 1) (decimal (length envp)) = Some (length envp)"
    using assms(2) by (intro parse_decimal) simp
  show ?thesis
    unfolding build_request_def meta_values Option.bind.bind_lunit version count ok_or_simps and_then_simps info label
      request_env_payload request_argv_payload [OF assms(1)] sudo_request_def
    by (simp only: if_False if_True refl not_True_eq_False length_map simp_thms)
qed

lemma check_payload:
  assumes "capture_open_state settings user_info submit_envp = (SUDO_RC_OK, Some st)"
    and "gather_context_after_open command_info run_argv run_envp (Some st) = (Some ctx, state')"
  obtains info argv envp where "parse_sudo_array command_info = Some info" "parse_sudo_argv run_argv = Some argv"
    "parse_sudo_environment run_envp = Some envp"
    "parse_sudo_stdin (sc_payload ctx) = Inr (payload_pairs (info @ os_user_info st) argv envp (os_session_env st))"
    "\<And>s. os_session_env st = Some s \<Longrightarrow> normalize_session_label s = Some s"
proof -
  note opened = assms(1) [unfolded capture_open_state_iff]
  have "gather_context command_info run_argv run_envp (os_user_info st) (os_session_env st) (os_noninteractive st) = Some ctx"
    using assms(2) by (simp add: gather_context_after_open_def)
  then obtain info argv envp where g: "parse_sudo_array command_info = Some info" "parse_sudo_argv run_argv = Some argv"
    "parse_sudo_environment run_envp = Some envp"
    "sc_payload ctx = concat (map (\<lambda>line. line @ [0x0A]) (map kv_line (payload_pairs (info @ os_user_info st) argv envp (os_session_env st))))"
    by (rule gather_context_payload)
  have kept: "normalize_session_label s = Some s \<and> line_ok s" if "os_session_env st = Some s" for s
    using session_env_kept [of submit_envp s] that opened by auto
  have "\<forall>p \<in> set (info @ os_user_info st). pair_ok p"
    using opened parse_sudo_array_ok g(1) by (metis Un_iff set_append)
  moreover have "\<forall>v \<in> set argv. line_ok v" using g(2) by (simp add: parse_sudo_argv_iff)
  ultimately have "\<forall>p \<in> set (payload_pairs (info @ os_user_info st) argv envp (os_session_env st)). pair_ok p"
    using parse_sudo_environment_ok(1) [OF g(3)] kept by (intro payload_pairs_ok) blast+
  moreover have "payload_pairs (info @ os_user_info st) argv envp (os_session_env st) \<noteq> []"
    by (simp add: payload_pairs_def)
  ultimately have "parse_sudo_stdin (sc_payload ctx) = Inr (payload_pairs (info @ os_user_info st) argv envp (os_session_env st))"
    unfolding g(4) by (rule parse_sudo_stdin_lines)
  with g kept show thesis using that by blast
qed

text \<open>nothing is lost or confused between sudo and the hook. What the hook builds from the payload is the
  request of the invocation itself: the arguments and the environment in their order, duplicates included,
  the trusted identity over any value of the policy plugin, the session label unchanged; the only
  reasons to refuse are a missing command and the request validator.\<close>

theorem hook_receives_sudo_context:
  assumes "capture_open_state settings user_info submit_envp = (SUDO_RC_OK, Some st)"
    and "gather_context_after_open command_info run_argv run_envp (Some st) = (Some ctx, state')"
    and "\<And>argv. run_argv = Some argv \<Longrightarrow> length argv < 2 ^ 32" and "\<And>envp. run_envp = Some envp \<Longrightarrow> length envp < 2 ^ 64"
  shows "\<exists>info argv envp. parse_sudo_array command_info = Some info \<and> parse_sudo_argv run_argv = Some argv \<and>
    parse_sudo_environment run_envp = Some envp \<and>
    and_then (parse_sudo_stdin (sc_payload ctx)) (build_request X hf) =
      and_then (ok_or (last_value (info @ os_user_info st) ''command'') ''missing info.command'') (\<lambda>command.
        let request = sudo_request X hf (info @ os_user_info st) argv envp (os_session_env st) command
        in and_then (map_err (\<lambda>_. ''invalid request'') (RequestV1_validate X request)) (\<lambda>_. Inr request))"
proof -
  from check_payload [OF assms(1,2)] obtain info argv envp where p: "parse_sudo_array command_info = Some info"
    "parse_sudo_argv run_argv = Some argv" "parse_sudo_environment run_envp = Some envp"
    "parse_sudo_stdin (sc_payload ctx) = Inr (payload_pairs (info @ os_user_info st) argv envp (os_session_env st))"
    "\<And>s. os_session_env st = Some s \<Longrightarrow> normalize_session_label s = Some s" by blast
  have "length argv < 2 ^ 32"
    using p(2) assms(3) by (cases run_argv) (auto simp: parse_sudo_argv_iff)
  moreover have "length envp < 2 ^ 64"
    using arg_cong [OF parse_sudo_environment_ok(2) [OF p(3)], of length] assms(4) by (cases run_envp) auto
  ultimately show ?thesis using p(1-3) build_request_payload [OF _ _ p(5)] unfolding p(4) and_then_simps by blast
qed

definition entries :: "sudo_array \<Rightarrow> bytes list" where
  "entries arr = (case arr of None \<Rightarrow> [] | Some es \<Rightarrow> es)"

lemma sudo_request_bytes:
  assumes "capture_open_state settings user_info submit_envp = (SUDO_RC_OK, Some st)"
    and "gather_context_after_open command_info run_argv run_envp (Some st) = (Some ctx, state')"
    and "length (entries run_argv) < 2 ^ 32" and "length (entries run_envp) < 2 ^ 64"
    and "and_then (parse_sudo_stdin (sc_payload ctx)) (build_request X hf) = Inr request"
  shows "map as_bytes (rq_argv request) = entries run_argv"
    and "map (\<lambda>e. as_bytes (ev_name e) @ 0x3D # as_bytes (ev_value e)) (rq_env request) = entries run_envp"
    and "last_value (os_user_info st) ''user'' = Some (rq_user request)"
    and "\<exists>info. parse_sudo_array command_info = Some info \<and> last_value (info @ os_user_info st) ''command'' = Some (rq_command request)"
proof -
  from check_payload [OF assms(1,2)] obtain info argv envp where p: "parse_sudo_array command_info = Some info"
    "parse_sudo_argv run_argv = Some argv" "parse_sudo_environment run_envp = Some envp"
    "parse_sudo_stdin (sc_payload ctx) = Inr (payload_pairs (info @ os_user_info st) argv envp (os_session_env st))"
    "\<And>s. os_session_env st = Some s \<Longrightarrow> normalize_session_label s = Some s" by blast
  have argv: "map as_bytes argv = entries run_argv" using p(2) by (simp add: parse_sudo_argv_iff entries_def)
  have envp: "map (\<lambda>(k, v). as_bytes k @ 0x3D # as_bytes v) envp = entries run_envp"
    using parse_sudo_environment_ok(2) [OF p(3)] by (simp add: entries_def)
  have len: "length argv < 2 ^ 32" "length envp < 2 ^ 64"
    using assms(3,4) arg_cong [OF argv, of length] arg_cong [OF envp, of length] by simp_all
  obtain command where command: "last_value (info @ os_user_info st) ''command'' = Some command"
    and request: "request = sudo_request X hf (info @ os_user_info st) argv envp (os_session_env st) command"
  proof -
    have "and_then (parse_sudo_stdin (sc_payload ctx)) (build_request X hf) =
      build_request X hf (payload_pairs (info @ os_user_info st) argv envp (os_session_env st))"
      unfolding p(4) by simp
    moreover from build_request_payload [OF len, of "os_session_env st" X hf "info @ os_user_info st"] p(5)
    have "build_request X hf (payload_pairs (info @ os_user_info st) argv envp (os_session_env st)) =
      and_then (ok_or (last_value (info @ os_user_info st) ''command'') ''missing info.command'') (\<lambda>command.
        let request = sudo_request X hf (info @ os_user_info st) argv envp (os_session_env st) command
        in and_then (map_err (\<lambda>_. ''invalid request'') (RequestV1_validate X request)) (\<lambda>_. Inr request))" by blast
    ultimately have "and_then (ok_or (last_value (info @ os_user_info st) ''command'') ''missing info.command'') (\<lambda>command.
        let request = sudo_request X hf (info @ os_user_info st) argv envp (os_session_env st) command
        in and_then (map_err (\<lambda>_. ''invalid request'') (RequestV1_validate X request)) (\<lambda>_. Inr request)) = Inr request"
      using assms(5) by metis
    then show thesis using that unfolding and_then_Inr_iff ok_or_Inr_iff Let_def by blast
  qed
  show "map as_bytes (rq_argv request) = entries run_argv"
    "map (\<lambda>e. as_bytes (ev_name e) @ 0x3D # as_bytes (ev_value e)) (rq_env request) = entries run_envp"
    using argv envp [unfolded case_prod_beta] by (simp_all add: request sudo_request_def comp_def case_prod_beta)
  show "\<exists>info. parse_sudo_array command_info = Some info \<and> last_value (info @ os_user_info st) ''command'' = Some (rq_command request)"
    using p(1) command by (simp add: request sudo_request_def)
  have "has_required_identity (os_user_info st)" using assms(1) unfolding capture_open_state_iff by blast
  then obtain user where "last_value (os_user_info st) ''user'' = Some user"
    by (auto simp: has_required_identity_def is_some_and_def split: option.splits)
  then show "last_value (os_user_info st) ''user'' = Some (rq_user request)"
    by (simp add: request sudo_request_def last_value_append)
qed

text \<open>C2: what the device approved is what sudo runs. When the hook accepts the payload of a check, an active
  pinned device proved its approval of a request whose arguments and environment are, byte for byte and in
  order, the arrays sudo is about to execute with, for the command sudo named and the user who invoked it.\<close>

theorem approved_command_is_what_runs:
  assumes "capture_open_state settings user_info submit_envp = (SUDO_RC_OK, Some st)"
    and "gather_context_after_open command_info run_argv run_envp (Some st) = (Some ctx, state')"
    and "length (entries run_argv) < 2 ^ 32" and "length (entries run_envp) < 2 ^ 64"
    and "cmd_check X hf run late version (sc_payload ctx) file = (Inr (), file')"
  shows "\<exists>request raw snapshot device decision n info.
    map as_bytes (rq_argv request) = entries run_argv \<and>
    map (\<lambda>e. as_bytes (ev_name e) @ 0x3D # as_bytes (ev_value e)) (rq_env request) = entries run_envp \<and>
    last_value (os_user_info st) ''user'' = Some (rq_user request) \<and>
    parse_sudo_array command_info = Some info \<and> last_value (info @ os_user_info st) ''command'' = Some (rq_command request) \<and>
    RequestV1_raw_json X request = Inr raw \<and> Transaction_load X file = Inr snapshot \<and>
    device \<in> set (devices_of snapshot) \<and> dv_active device \<and> approval_proved X (hr_env run n) decision request raw device"
proof -
  from assms(5) obtain request where built: "and_then (parse_sudo_stdin (sc_payload ctx)) (build_request X hf) = Inr request"
    and accepted: "execute_request_at X run late request APPROVAL_TIMEOUT file = (Inr (), file')"
    by (auto simp: cmd_check_def guarded_def map_err_def split: if_splits sum.splits)
  note bytes = sudo_request_bytes [OF assms(1-4) built]
  show ?thesis using execute_request_needs_proof [OF accepted] bytes by blast
qed

section \<open>Sequences of callbacks\<close>

datatype callback =
    OpenCall sudo_array sudo_array sudo_array
  | CheckCall sudo_array sudo_array sudo_array
  | VersionCall

fun plugin_call :: "(SudoContext \<Rightarrow> int) \<Rightarrow> callback \<Rightarrow> OpenState option \<Rightarrow> int \<times> OpenState option" where
  "plugin_call run_hook (OpenCall settings user_info submit_envp) state = capture_open_state settings user_info submit_envp"
| "plugin_call run_hook (CheckCall command_info run_argv run_envp) state = check run_hook command_info run_argv run_envp state"
| "plugin_call run_hook VersionCall state = show_version state"

fun plugin_calls :: "(SudoContext \<Rightarrow> int) \<Rightarrow> callback list \<Rightarrow> OpenState option \<Rightarrow> int list \<times> OpenState option" where
  "plugin_calls run_hook [] state = ([], state)"
| "plugin_calls run_hook (c # cs) state =
     (let (rc, state') = plugin_call run_hook c state; (rcs, state'') = plugin_calls run_hook cs state' in (rc # rcs, state''))"

lemma plugin_calls_snoc:
  "plugin_calls run_hook (cs @ [c]) state =
   (let (rcs, state') = plugin_calls run_hook cs state; (rc, state'') = plugin_call run_hook c state' in (rcs @ [rc], state''))"
  by (induction cs arbitrary: state) (auto simp: Let_def split: prod.split)

lemma state_after:
  assumes "snd (plugin_calls run_hook cs None) = Some st"
  obtains before settings user_info submit_envp where "cs = before @ [OpenCall settings user_info submit_envp]"
    "capture_open_state settings user_info submit_envp = (SUDO_RC_OK, Some st)"
proof (cases cs rule: rev_cases)
  case Nil
  then show ?thesis using assms by simp
next
  case (snoc before c)
  have last: "snd (plugin_call run_hook c (snd (plugin_calls run_hook before None))) = Some st"
    using assms unfolding snoc plugin_calls_snoc by (auto simp: Let_def split: prod.splits)
  show ?thesis
  proof (cases c)
    case (OpenCall settings user_info submit_envp)
    then have "capture_open_state settings user_info submit_envp = (SUDO_RC_OK, Some st)"
      using last by (auto simp: capture_open_state_def Let_def approval_open_result_def)
    then show ?thesis using that snoc OpenCall by blast
  next
    case (CheckCall command_info run_argv run_envp)
    then show ?thesis using last
      by (auto simp: check_def gather_context_after_open_def split: option.splits)
  qed (use last in \<open>simp add: show_version_def\<close>)
qed

text \<open>C28: an identity is used once and never by a later request. In every sequence of callbacks, \<open>open\<close>
  answers 1 or -1 and never the 0 that would make sudo go on without the plugin; and a check consults the
  hook only when the callback before it was a successful \<open>open\<close>, with the identity that one captured, and
  denies otherwise.\<close>

theorem check_uses_its_own_identity:
  "(\<forall>settings user_info submit_envp state. fst (plugin_call run_hook (OpenCall settings user_info submit_envp) state) \<in> {1, -1}) \<and>
   (\<forall>cs command_info run_argv run_envp.
     let rc = last (fst (plugin_calls run_hook (cs @ [CheckCall command_info run_argv run_envp]) None))
     in rc = 0 \<or> (\<exists>before settings user_info submit_envp st ctx. cs = before @ [OpenCall settings user_info submit_envp] \<and>
          capture_open_state settings user_info submit_envp = (SUDO_RC_OK, Some st) \<and>
          gather_context_after_open command_info run_argv run_envp (Some st) = (Some ctx, None) \<and> rc = run_hook ctx))"
proof (intro conjI allI)
  fix settings user_info submit_envp state
  show "fst (plugin_call run_hook (OpenCall settings user_info submit_envp) state) \<in> {1, -1}"
    by (simp add: capture_open_state_def Let_def approval_open_result_def SUDO_RC_OK_def SUDO_RC_ERROR_def)
next
  fix cs command_info run_argv run_envp
  let ?state = "snd (plugin_calls run_hook cs None)"
  have rc: "last (fst (plugin_calls run_hook (cs @ [CheckCall command_info run_argv run_envp]) None)) =
    fst (check run_hook command_info run_argv run_envp ?state)"
    unfolding plugin_calls_snoc by (simp add: Let_def split: prod.split)
  show "let rc = last (fst (plugin_calls run_hook (cs @ [CheckCall command_info run_argv run_envp]) None))
     in rc = 0 \<or> (\<exists>before settings user_info submit_envp st ctx. cs = before @ [OpenCall settings user_info submit_envp] \<and>
          capture_open_state settings user_info submit_envp = (SUDO_RC_OK, Some st) \<and>
          gather_context_after_open command_info run_argv run_envp (Some st) = (Some ctx, None) \<and> rc = run_hook ctx)"
  proof (cases "fst (gather_context_after_open command_info run_argv run_envp ?state)")
    case None
    then show ?thesis unfolding rc by (auto simp: Let_def check_def split: prod.split option.split)
  next
    case (Some ctx)
    then obtain st where st: "?state = Some st" by (cases ?state) (auto simp: gather_context_after_open_def)
    then have g: "gather_context_after_open command_info run_argv run_envp (Some st) = (Some ctx, None)"
      using Some by (simp add: gather_context_after_open_def)
    from state_after [OF st] obtain before settings user_info submit_envp where
      "cs = before @ [OpenCall settings user_info submit_envp]"
      "capture_open_state settings user_info submit_envp = (SUDO_RC_OK, Some st)" by blast
    then show ?thesis using g st unfolding rc by (auto simp: Let_def check_def)
  qed
qed

section \<open>A sample invocation of sudo\<close>

definition sample_facts :: host_facts where
  "sample_facts = \<lparr>hf_now = 1000, hf_nonce = replicate 16 0, hf_request_id = ''r1'', hf_hostname = ''h'', hf_pid = 7, hf_proc = \<lambda>_. None\<rparr>"

definition sample_user_info :: sudo_array where
  "sample_user_info = Some [as_bytes ''user=u'', as_bytes ''uid=1'']"

definition sample_command_info :: sudo_array where
  "sample_command_info = Some [as_bytes ''command=c'']"

definition sample_run_argv :: sudo_array where
  "sample_run_argv = Some [as_bytes ''c'']"

definition sample_open_state :: OpenState where
  "sample_open_state = \<lparr>os_user_info = [(''user'', ''u''), (''uid'', ''1'')], os_noninteractive = False, os_session_env = None\<rparr>"

lemma sample_text: "line_ok ''user=u''" "line_ok ''uid=1''" "line_ok ''command=c''" "line_ok ''c''"
  by (rule line_ok_ascii; simp)+

lemma sample_splits: "split_once ''='' ''user=u'' = Some (''user'', ''u'')" "split_once ''='' ''uid=1'' = Some (''uid'', ''1'')"
  "split_once ''='' ''command=c'' = Some (''command'', ''c'')"
  using split_once_first [of "CHR ''=''" "''user''" "''u''"] split_once_first [of "CHR ''=''" "''uid''" "''1''"]
    split_once_first [of "CHR ''=''" "''command''" "''c''"] by simp_all

lemma sample_argvs:
  "parse_sudo_argv sample_user_info = Some [''user=u'', ''uid=1'']" "parse_sudo_argv sample_command_info = Some [''command=c'']"
  "parse_sudo_argv sample_run_argv = Some [''c'']" "parse_sudo_argv None = Some []"
  using sample_text unfolding parse_sudo_argv_iff sample_user_info_def sample_command_info_def sample_run_argv_def by simp_all

lemma sample_parses:
  "parse_sudo_array sample_user_info = Some [(''user'', ''u''), (''uid'', ''1'')]"
  "parse_sudo_array sample_command_info = Some [(''command'', ''c'')]"
  "parse_sudo_array None = Some []" "parse_sudo_environment None = Some []"
  by (simp_all add: parse_sudo_array_def parse_sudo_environment_def sample_argvs sample_splits)

lemma sample_uid: "parse_unsigned (2 ^ 32 - 1) ''1'' = Some 1"
  by (simp add: parse_unsigned_def is_digit_def digits_value_def)

lemma sample_opens: "capture_open_state None sample_user_info None = (SUDO_RC_OK, Some sample_open_state)"
proof -
  have "has_required_identity [(''user'', ''u''), (''uid'', ''1'')]"
    unfolding has_required_identity_def by (simp add: last_value_def) (simp add: sample_uid [simplified])
  moreover have "extract_session_env [] = None" by (simp add: extract_session_env_def SESSION_ENV_VARS_def)
  ultimately show ?thesis
    unfolding capture_open_state_iff
    by (intro exI [of _ "[]"]) (simp add: sample_open_state_def sample_parses parse_sudo_env_lenient_def)
qed

lemma sample_gathers:
  obtains ctx where "gather_context_after_open sample_command_info sample_run_argv None (Some sample_open_state) = (Some ctx, None)"
proof -
  have "last_value (os_user_info sample_open_state) ''user'' = Some ''u''"
    by (simp add: sample_open_state_def last_value_def)
  then have "\<exists>ctx. gather_context_after_open sample_command_info sample_run_argv None (Some sample_open_state) = (Some ctx, None)"
    unfolding gather_context_after_open_def gather_context_def sample_parses sample_argvs Option.bind.bind_lunit Let_def by simp
  then show thesis using that by blast
qed

lemma sample_sudo_request:
  "sudo_request (sample_host d) sample_facts ([(''command'', ''c'')] @ os_user_info sample_open_state) [''c''] [] None ''c'' = sample_request"
proof -
  have uid: "parse_uid (Some ''1'') (2 ^ 32 - 1) = 1" unfolding parse_uid_def Option.bind.bind_lunit sample_uid by simp
  have last: "last_value ([(''command'', ''c'')] @ os_user_info sample_open_state) ''user'' = Some ''u''"
    "last_value ([(''command'', ''c'')] @ os_user_info sample_open_state) ''uid'' = Some ''1''"
    "last_value ([(''command'', ''c'')] @ os_user_info sample_open_state) ''runas_uid'' = None"
    "last_value ([(''command'', ''c'')] @ os_user_info sample_open_state) ''cwd'' = None"
    "last_value ([(''command'', ''c'')] @ os_user_info sample_open_state) ''tty'' = None"
    by (simp_all add: sample_open_state_def last_value_def)
  have chain: "pid_chain_linux (\<lambda>_. None) n p = []" for n p by (cases n) simp_all
  show ?thesis
    unfolding sudo_request_def last uid by (simp add: sample_request_def sample_facts_def VERSION_V1_def encode_base64url_def
        chain parse_uid_def)
qed

lemma sample_built:
  assumes "gather_context_after_open sample_command_info sample_run_argv None (Some sample_open_state) = (Some ctx, None)"
  shows "and_then (parse_sudo_stdin (sc_payload ctx)) (build_request (sample_host d) sample_facts) = Inr sample_request"
proof -
  obtain info argv envp where p: "parse_sudo_array sample_command_info = Some info"
    "parse_sudo_argv sample_run_argv = Some argv" "parse_sudo_environment None = Some envp"
    "parse_sudo_stdin (sc_payload ctx) = Inr (payload_pairs (info @ os_user_info sample_open_state) argv envp (os_session_env sample_open_state))"
    using check_payload [OF sample_opens assms] by metis
  have none: "os_session_env sample_open_state = None" by (simp add: sample_open_state_def)
  have "RequestV1_validate (sample_host d) sample_request = Inr ()"
    by (simp add: RequestV1_validate_def sample_request_def VERSION_V1_def MAX_ENV_ENTRIES_def)
  moreover have "last_value ([(''command'', ''c'')] @ os_user_info sample_open_state) ''command'' = Some ''c''"
    by (simp add: last_value_def sample_open_state_def)
  moreover have "build_request (sample_host d) sample_facts (payload_pairs ([(''command'', ''c'')] @ os_user_info sample_open_state) [''c''] [] None) =
    and_then (ok_or (last_value ([(''command'', ''c'')] @ os_user_info sample_open_state) ''command'') ''missing info.command'') (\<lambda>command.
      let request = sudo_request (sample_host d) sample_facts ([(''command'', ''c'')] @ os_user_info sample_open_state) [''c''] [] None command
      in and_then (map_err (\<lambda>_. ''invalid request'') (RequestV1_validate (sample_host d) request)) (\<lambda>_. Inr request))"
    by (rule build_request_payload) simp_all
  ultimately have "build_request (sample_host d) sample_facts (payload_pairs ([(''command'', ''c'')] @ os_user_info sample_open_state) [''c''] [] None) =
    Inr sample_request"
    by (simp only: sample_sudo_request Let_def ok_or_simps and_then_simps map_err_simps)
  with p show ?thesis by (simp only: sample_parses sample_argvs option.inject and_then_simps none)
qed

theorem hook_receives_sudo_context_witness:
  "\<exists>ctx argv. gather_context_after_open sample_command_info sample_run_argv None (Some sample_open_state) = (Some ctx, None) \<and>
     parse_sudo_argv sample_run_argv = Some argv \<and>
     and_then (parse_sudo_stdin (sc_payload ctx)) (build_request sample sample_facts) =
      and_then (ok_or (last_value ([(''command'', ''c'')] @ os_user_info sample_open_state) ''command'') ''missing info.command'') (\<lambda>command.
        let request = sudo_request sample sample_facts ([(''command'', ''c'')] @ os_user_info sample_open_state) argv [] None command
        in and_then (map_err (\<lambda>_. ''invalid request'') (RequestV1_validate sample request)) (\<lambda>_. Inr request))"
proof -
  obtain ctx where g: "gather_context_after_open sample_command_info sample_run_argv None (Some sample_open_state) = (Some ctx, None)"
    by (rule sample_gathers)
  have "length argv < 2 ^ 32" if "sample_run_argv = Some argv" for argv using that by (auto simp: sample_run_argv_def)
  from hook_receives_sudo_context [OF sample_opens g this, of sample sample_facts]
  obtain info argv envp where h: "parse_sudo_array sample_command_info = Some info" "parse_sudo_argv sample_run_argv = Some argv"
    "parse_sudo_environment None = Some envp"
    "and_then (parse_sudo_stdin (sc_payload ctx)) (build_request sample sample_facts) =
      and_then (ok_or (last_value (info @ os_user_info sample_open_state) ''command'') ''missing info.command'') (\<lambda>command.
        let request = sudo_request sample sample_facts (info @ os_user_info sample_open_state) argv envp (os_session_env sample_open_state) command
        in and_then (map_err (\<lambda>_. ''invalid request'') (RequestV1_validate sample request)) (\<lambda>_. Inr request))" by blast
  have eq: "info = [(''command'', ''c'')]" "envp = []" "os_session_env sample_open_state = None"
    using h(1,3) by (simp_all add: sample_parses sample_open_state_def)
  show ?thesis using g h(2) h(4) [unfolded eq] by (intro exI [of _ ctx] exI [of _ argv] conjI)
qed

theorem approved_command_is_what_runs_witness:
  "\<exists>request device decision. map as_bytes (rq_argv request) = [as_bytes ''c''] \<and> dv_active device \<and>
     approval_proved (sample_host (ApproveNative sample_native_approval)) sample_hook decision request [1, 2] device"
proof -
  obtain ctx where g: "gather_context_after_open sample_command_info sample_run_argv None (Some sample_open_state) = (Some ctx, None)"
    by (rule sample_gathers)
  have "cmd_check (sample_host (ApproveNative sample_native_approval)) sample_facts (sample_run sample_hook) (\<lambda>_. False) (Some 2)
      (sc_payload ctx) (Stored (sample_state True 0)) = (Inr (), Stored (sample_state True 0))"
    unfolding cmd_check_def sample_built [OF g]
    by (simp add: PRIVATE_PLUGIN_HOOK_PROTOCOL_VERSION_def guarded_def APPROVAL_TIMEOUT_def sample_execution [OF sample_host_approves])
  moreover have "length (entries sample_run_argv) < 2 ^ 32" "length (entries None) < 2 ^ 64"
    by (simp_all add: entries_def sample_run_argv_def)
  ultimately have "\<exists>request raw device decision n. map as_bytes (rq_argv request) = entries sample_run_argv \<and>
    RequestV1_raw_json (sample_host (ApproveNative sample_native_approval)) request = Inr raw \<and> dv_active device \<and>
    approval_proved (sample_host (ApproveNative sample_native_approval)) (hr_env (sample_run sample_hook) n) decision request raw device"
    using approved_command_is_what_runs [OF sample_opens g] by blast
  then obtain request raw device decision n where r: "map as_bytes (rq_argv request) = entries sample_run_argv"
    "RequestV1_raw_json (sample_host (ApproveNative sample_native_approval)) request = Inr raw" "dv_active device"
    "approval_proved (sample_host (ApproveNative sample_native_approval)) (hr_env (sample_run sample_hook) n) decision request raw device"
    by blast
  have "raw = [1, 2]" using r(2) by (auto simp: RequestV1_raw_json_def result_simps split: if_splits)
  moreover have "entries sample_run_argv = [as_bytes ''c'']" by (simp add: entries_def sample_run_argv_def)
  ultimately show ?thesis using r unfolding sample_run_env by metis
qed

end
