(* ===== verification/Plugin_Race.thy ===== *)
theory Plugin_Race
  imports Sudo_Plugin
begin

text \<open>
  How the sudo plugin waits for a verdict (\<open>plugin/src/lib.rs\<close>): the hook process and, on Linux, a
  password process race; the loop between them with its deadline and interrupts, the prompt that is
  redrawn over the hook's messages, and the way both processes and the terminal are cleaned up. What
  the kernel answers is an argument, one record per turn of a loop; a run that needs more turns than it
  is given is \<open>None\<close>. Times are milliseconds.
\<close>

definition PASSWORD_RACE_TIMEOUT :: nat where "PASSWORD_RACE_TIMEOUT = 95000"
definition CHILD_TERM_GRACE :: nat where "CHILD_TERM_GRACE = 250"
definition HOOK_EXEC_FAILED :: int where "HOOK_EXEC_FAILED = 127"

section \<open>Two lanes on one host\<close>

definition auth_line :: "string \<Rightarrow> bool" where
  "auth_line line =
     (let rest = dropWhile is_whitespace (chars_of line)
      in if starts_with ''#'' (utf8 rest) then False
         else case map utf8 (split_whitespace rest) of
           [] \<Rightarrow> False
         | kind # others \<Rightarrow> eq_ignore_ascii_case kind ''auth'' \<and> list_ex (str_contains ''liboshioki_pam'') others)"

text \<open>The contents of the service files, \<open>None\<close> for one that cannot be read.\<close>

definition contextual_pam_lane_live :: "string option list \<Rightarrow> bool" where
  "contextual_pam_lane_live files =
     list_ex (\<lambda>file. case file of None \<Rightarrow> False
       | Some contents \<Rightarrow> list_ex auth_line (split_lines (CHR 0x0A) (CHR 0x0D) contents)) files"

section \<open>Processes\<close>

datatype wait_answer = StillAlive | WaitInterrupted | ExitedWith int | OtherStatus | WaitError

datatype HookResult = HookApproved | HookDenied | HookUnavailable | HookFailed

datatype PasswordResult = PasswordApproved | PasswordRejected | PasswordUnavailable | PasswordFailed

text \<open>What the plugin does to its children, the terminal and the log, newest first. The wait that ends a child's life
  for the plugin is recorded with the kernel's answer: a status, by which the child is reaped, or the error after
  which it cannot be accounted for.\<close>

datatype race_action =
    TermHook | KillHook | WaitedHook wait_answer
  | TermPassword | KillPassword | WaitedPassword wait_answer
  | RestoreTerminal bool
  | ForwardStderr bytes
  | WritePrompt bytes
  | AuditPasswordFallback

record HookChild =
  hc_pid :: bool
  hc_stderr :: bool

record PasswordWorker =
  pw_pid :: bool
  pw_needs_flush :: bool
  pw_ready :: bool
  pw_prompt :: bytes
  pw_prompt_ready :: bool

record race =
  rc_hook :: HookChild
  rc_password :: "PasswordWorker option"
  rc_log :: "race_action list"

definition act :: "race_action \<Rightarrow> race \<Rightarrow> race" where
  "act a r = r\<lparr>rc_log := a # rc_log r\<rparr>"

fun hook_result :: "wait_answer \<Rightarrow> HookResult" where
  "hook_result (ExitedWith code) =
     (if code = 0 then HookApproved else if code = 1 then HookDenied
      else if code = 2 \<or> code = HOOK_EXEC_FAILED then HookUnavailable else HookFailed)"
| "hook_result _ = HookFailed"

definition reap_hook :: "wait_answer \<Rightarrow> race \<Rightarrow> HookResult option \<times> race" where
  "reap_hook w r =
     (if \<not> hc_pid (rc_hook r) then (Some HookUnavailable, r)
      else case w of
        StillAlive \<Rightarrow> (None, r)
      | WaitInterrupted \<Rightarrow> (None, r)
      | WaitError \<Rightarrow> (Some HookFailed, act (WaitedHook w) (r\<lparr>rc_hook := (rc_hook r)\<lparr>hc_pid := False\<rparr>\<rparr>))
      | status \<Rightarrow> (Some (hook_result status), act (WaitedHook w) (r\<lparr>rc_hook := (rc_hook r)\<lparr>hc_pid := False\<rparr>\<rparr>)))"

fun password_code :: "int \<Rightarrow> PasswordResult" where
  "password_code code = (if code = 0 then PasswordApproved else if code = 1 then PasswordRejected
     else if code = 2 then PasswordUnavailable else PasswordFailed)"

definition worker_gone :: "PasswordWorker \<Rightarrow> PasswordWorker" where
  "worker_gone w = w\<lparr>pw_pid := False, pw_prompt_ready := False, pw_needs_flush := True\<rparr>"

definition reap_password :: "wait_answer \<Rightarrow> race \<Rightarrow> PasswordResult option \<times> race" where
  "reap_password a r =
     (case rc_password r of
        None \<Rightarrow> (None, r)
      | Some w \<Rightarrow>
          if \<not> pw_pid w then (None, r)
          else
          let gone = act (RestoreTerminal True) (act (WaitedPassword a) (r\<lparr>rc_password := Some (worker_gone w)\<rparr>))
          in case a of
            StillAlive \<Rightarrow> (None, r)
          | WaitInterrupted \<Rightarrow> (None, r)
          | ExitedWith code \<Rightarrow> (Some (password_code code), gone)
          | OtherStatus \<Rightarrow> (Some PasswordFailed, gone)
          | WaitError \<Rightarrow> (Some PasswordFailed, gone))"

section \<open>Output and prompt\<close>

datatype pipe_event = PipeBytes bytes | PipeEof | PipeInterrupted | PipeBlocks | PipeFailed

fun drain_ready :: "pipe_event list \<Rightarrow> PasswordWorker \<Rightarrow> PasswordWorker" where
  "drain_ready [] w = w"
| "drain_ready (e # es) w = (case e of
     PipeBytes bs \<Rightarrow> drain_ready es (fold (\<lambda>state w. w\<lparr>pw_prompt_ready := (state = 1 \<and> pw_pid w)\<rparr>) bs w)
   | PipeEof \<Rightarrow> w\<lparr>pw_ready := False, pw_prompt_ready := False\<rparr>
   | PipeInterrupted \<Rightarrow> drain_ready es w
   | PipeBlocks \<Rightarrow> w
   | PipeFailed \<Rightarrow> w\<lparr>pw_ready := False, pw_prompt_ready := False\<rparr>)"

definition drain_password_ready :: "pipe_event list \<Rightarrow> race \<Rightarrow> race" where
  "drain_password_ready es r = (case rc_password r of None \<Rightarrow> r
     | Some w \<Rightarrow> if pw_ready w then r\<lparr>rc_password := Some (drain_ready es w)\<rparr> else r)"

definition redraw_password_prompt :: "race \<Rightarrow> race" where
  "redraw_password_prompt r = (case rc_password r of None \<Rightarrow> r
     | Some w \<Rightarrow> if pw_prompt_ready w \<and> pw_pid w \<and> pw_ready w then act (WritePrompt (pw_prompt w)) r else r)"

text \<open>The events are what the reads of one call return, in order. The pipe does not block, so the read after the last
  bytes finds the pipe empty: the end of the list stands for that read as \<open>PipeBlocks\<close> does.\<close>

fun forward_stderr :: "pipe_event list \<Rightarrow> bool \<Rightarrow> race \<Rightarrow> bool \<times> race" where
  "forward_stderr [] seen r = (seen, r)"
| "forward_stderr (e # es) seen r = (case e of
     PipeBytes bs \<Rightarrow> forward_stderr es True (act (ForwardStderr bs) r)
   | PipeEof \<Rightarrow> (seen, r\<lparr>rc_hook := (rc_hook r)\<lparr>hc_stderr := False\<rparr>\<rparr>)
   | PipeInterrupted \<Rightarrow> forward_stderr es seen r
   | PipeBlocks \<Rightarrow> (seen, r)
   | PipeFailed \<Rightarrow> (seen, r\<lparr>rc_hook := (rc_hook r)\<lparr>hc_stderr := False\<rparr>\<rparr>))"

text \<open>The second list is what the ready pipe holds when the prompt is about to be redrawn.\<close>

definition drain_hook_stderr :: "pipe_event list \<times> pipe_event list \<Rightarrow> race \<Rightarrow> race" where
  "drain_hook_stderr es r =
     (if \<not> hc_stderr (rc_hook r) then r
      else let (seen, r) = forward_stderr (fst es) False r
           in if seen then redraw_password_prompt (drain_password_ready (snd es) r) else r)"

section \<open>Cancelling\<close>

text \<open>Polls of a terminated child with their times, and the answers of the blocking waits after \<open>SIGKILL\<close>.\<close>

record term_env =
  te_polls :: "(nat \<times> wait_answer) list"
  te_blocking :: "wait_answer list"

fun reap_hook_blocking :: "wait_answer list \<Rightarrow> race \<Rightarrow> race option" where
  "reap_hook_blocking [] r = (if hc_pid (rc_hook r) then None else Some r)"
| "reap_hook_blocking (w # ws) r =
     (if hc_pid (rc_hook r) then reap_hook_blocking ws (snd (reap_hook w r)) else Some r)"

fun reap_after_signal_hook :: "(nat \<times> wait_answer) list \<Rightarrow> wait_answer list \<Rightarrow> nat \<Rightarrow> race \<Rightarrow> race option" where
  "reap_after_signal_hook [] blocking deadline r = (if hc_pid (rc_hook r) then None else Some r)"
| "reap_after_signal_hook ((now, w) # polls) blocking deadline r =
     (if hc_pid (rc_hook r) \<and> now < deadline
      then (case reap_hook w r of (Some _, r') \<Rightarrow> Some r' | (None, r') \<Rightarrow> reap_after_signal_hook polls blocking deadline r')
      else if \<not> hc_pid (rc_hook r) then Some r
      else reap_hook_blocking blocking (act KillHook r))"

definition cancel_hook :: "term_env \<Rightarrow> nat \<Rightarrow> race \<Rightarrow> race option" where
  "cancel_hook e now r =
     (if hc_pid (rc_hook r) then reap_after_signal_hook (te_polls e) (te_blocking e) (now + CHILD_TERM_GRACE) (act TermHook r)
      else Some r)"

fun wait_password_blocking :: "wait_answer list \<Rightarrow> race \<Rightarrow> race option" where
  "wait_password_blocking [] r = None"
| "wait_password_blocking (w # ws) r = (if w = WaitInterrupted then wait_password_blocking ws r else Some (act (WaitedPassword w) r))"

fun reap_after_signal_password :: "(nat \<times> wait_answer) list \<Rightarrow> wait_answer list \<Rightarrow> nat \<Rightarrow> race \<Rightarrow> race option" where
  "reap_after_signal_password [] blocking deadline r = None"
| "reap_after_signal_password ((now, w) # polls) blocking deadline r =
     (if now < deadline
      then if w \<in> {StillAlive, WaitInterrupted} then reap_after_signal_password polls blocking deadline r
           else Some (act (WaitedPassword w) r)
      else wait_password_blocking blocking (act KillPassword r))"

text \<open>The worker is consumed: its process is gone and the terminal is as it was.\<close>

definition cancel_password :: "term_env \<Rightarrow> nat \<Rightarrow> bool \<Rightarrow> race \<Rightarrow> race option" where
  "cancel_password e now flush_input r =
     (case rc_password r of
        None \<Rightarrow> Some r
      | Some w \<Rightarrow>
          map_option (\<lambda>r. act (RestoreTerminal (pw_needs_flush w \<or> flush_input)) (r\<lparr>rc_password := None\<rparr>))
            (if pw_pid w then reap_after_signal_password (te_polls e) (te_blocking e) (now + CHILD_TERM_GRACE) (act TermPassword r)
             else Some r))"

section \<open>The race\<close>

record race_turn =
  rt_interrupted :: bool
  rt_now :: nat
  rt_ready :: "pipe_event list"
  rt_stderr :: "pipe_event list \<times> pipe_event list"
  rt_hook :: wait_answer
  rt_stderr_after :: "pipe_event list \<times> pipe_event list"
  rt_password :: wait_answer
  rt_cancel_hook :: term_env
  rt_cancel_password :: term_env
  rt_stderr_last :: "pipe_event list \<times> pipe_event list"

definition verdict_after :: "race_turn \<Rightarrow> int \<Rightarrow> bool \<Rightarrow> race \<Rightarrow> (int \<times> race) option" where
  "verdict_after t verdict flush r = map_option (\<lambda>r. (verdict, r)) (cancel_password (rt_cancel_password t) (rt_now t) flush r)"

definition stopped :: "race_turn \<Rightarrow> race \<Rightarrow> (int \<times> race) option" where
  "stopped t r = Option.bind (cancel_hook (rt_cancel_hook t) (rt_now t) r) (\<lambda>r.
     verdict_after t 0 True (drain_hook_stderr (rt_stderr_last t) r))"

record race_state =
  rs_race :: race
  rs_hook :: "HookResult option"
  rs_password_done :: bool
  rs_password :: "PasswordResult option"

text \<open>The end of a turn, once neither the hook nor an interrupt decided: the password, then the next turn.\<close>

definition password_turn :: "race_turn \<Rightarrow> (race_state \<Rightarrow> (int \<times> race) option) \<Rightarrow> race_state \<Rightarrow> (int \<times> race) option" where
  "password_turn t again s =
     (let (result, r) = (if rs_password_done s then (None, rs_race s) else reap_password (rt_password t) (rs_race s));
          s = (case result of None \<Rightarrow> s\<lparr>rs_race := r\<rparr>
               | Some p \<Rightarrow> s\<lparr>rs_race := r, rs_password_done := True, rs_password := Some p\<rparr>)
      in if rs_password s = Some PasswordApproved
         then if rs_hook s \<in> {Some HookDenied, Some HookFailed} then verdict_after t 0 False (rs_race s)
              else Option.bind (cancel_hook (rt_cancel_hook t) (rt_now t) (rs_race s)) (\<lambda>r.
                map_option (\<lambda>(v, r). (v, act AuditPasswordFallback r)) (verdict_after t 1 False r))
         else if rs_hook s \<noteq> None \<and> rs_password_done s then verdict_after t 0 True (rs_race s)
         else again s)"

fun race_loop :: "race_turn list \<Rightarrow> nat \<Rightarrow> race_state \<Rightarrow> (int \<times> race) option" where
  "race_loop [] deadline s = None"
| "race_loop (t # ts) deadline s =
     (if rt_interrupted t \<or> rt_now t \<ge> deadline then stopped t (rs_race s)
      else
      let r = drain_hook_stderr (rt_stderr t) (drain_password_ready (rt_ready t) (rs_race s)) in
      if rs_hook s \<noteq> None then password_turn t (race_loop ts deadline) (s\<lparr>rs_race := r\<rparr>)
      else case reap_hook (rt_hook t) r of
        (None, r) \<Rightarrow> password_turn t (race_loop ts deadline) (s\<lparr>rs_race := r\<rparr>)
      | (Some result, r) \<Rightarrow>
          let r = drain_hook_stderr (rt_stderr_after t) r in
          (case result of
             HookApproved \<Rightarrow> verdict_after t 1 True r
           | HookDenied \<Rightarrow> verdict_after t 0 True r
           | HookFailed \<Rightarrow> verdict_after t 0 True r
           | HookUnavailable \<Rightarrow> password_turn t (race_loop ts deadline) (s\<lparr>rs_race := r, rs_hook := Some HookUnavailable\<rparr>)))"

text \<open>What starting the two processes comes to: whether the hook could be forked, the service files, and
  whether the terminal could be opened, duplicated and silenced, and the worker forked.\<close>

record race_env =
  re_handler :: bool
  re_hook_forked :: bool
  re_pam_files :: "string option list"
  re_tty :: bool
  re_tty_copy :: bool
  re_pipe :: bool
  re_quiet :: bool
  re_password_forked :: bool
  re_now :: nat
  re_turns :: "race_turn list"

definition password_prompt :: "string \<Rightarrow> bytes" where
  "password_prompt username = as_bytes (''[sudo/oshioki] password for '' @ username @ '': '')"

definition spawn_password_process :: "race_env \<Rightarrow> string \<Rightarrow> race \<Rightarrow> race" where
  "spawn_password_process env username r =
     (if \<not> re_tty env \<or> \<not> re_tty_copy env \<or> \<not> re_pipe env \<or> \<not> re_quiet env then r
      else if re_password_forked env
      then r\<lparr>rc_password := Some \<lparr>pw_pid = True, pw_needs_flush = False, pw_ready = True,
             pw_prompt = password_prompt username, pw_prompt_ready = False\<rparr>\<rparr>
      else act (RestoreTerminal True) r)"

definition run_hook_with_password :: "race_env \<Rightarrow> SudoContext \<Rightarrow> race \<Rightarrow> (int \<times> race) option" where
  "run_hook_with_password env ctx r =
     (let live = contextual_pam_lane_live (re_pam_files env);
          r = (if sc_noninteractive ctx \<or> live then r else spawn_password_process env (sc_username ctx) r)
      in race_loop (re_turns env) (re_now env + PASSWORD_RACE_TIMEOUT)
           \<lparr>rs_race = r, rs_hook = None, rs_password_done = (rc_password r = None), rs_password = None\<rparr>)"

definition start_race :: "bool \<Rightarrow> race" where
  "start_race forked = \<lparr>rc_hook = \<lparr>hc_pid = forked, hc_stderr = forked\<rparr>, rc_password = None, rc_log = []\<rparr>"

definition run_hook :: "race_env \<Rightarrow> SudoContext \<Rightarrow> (int \<times> race) option" where
  "run_hook env ctx =
     (if \<not> re_handler env then Some (0, start_race False)
      else run_hook_with_password env ctx (start_race (re_hook_forked env)))"

text \<open>Elsewhere than on Linux there is no password process.\<close>

fun run_hook_without_password :: "race_turn list \<Rightarrow> nat \<Rightarrow> race \<Rightarrow> (int \<times> race) option" where
  "run_hook_without_password [] deadline r = None"
| "run_hook_without_password (t # ts) deadline r =
     (if rt_interrupted t \<or> rt_now t \<ge> deadline
      then map_option (\<lambda>r. (0, drain_hook_stderr (rt_stderr_last t) r)) (cancel_hook (rt_cancel_hook t) (rt_now t) r)
      else case reap_hook (rt_hook t) (drain_hook_stderr (rt_stderr t) r) of
        (None, r) \<Rightarrow> run_hook_without_password ts deadline r
      | (Some result, r) \<Rightarrow> Some (if result = HookApproved then 1 else 0, drain_hook_stderr (rt_stderr_after t) r))"

section \<open>Input and output leave the processes alone\<close>

definition alive :: "wait_answer \<Rightarrow> bool" where
  "alive w \<longleftrightarrow> w \<in> {StillAlive, WaitInterrupted}"

definition hook_pid :: "race \<Rightarrow> bool" where "hook_pid r = hc_pid (rc_hook r)"

definition password_pid :: "race \<Rightarrow> bool option" where "password_pid r = map_option pw_pid (rc_password r)"

lemma act_frame [simp]: "hook_pid (act a r) = hook_pid r" "password_pid (act a r) = password_pid r"
  "rc_password (act a r) = rc_password r" "rc_hook (act a r) = rc_hook r" "rc_log (act a r) = a # rc_log r"
  by (simp_all add: act_def hook_pid_def password_pid_def)

lemma drain_ready_pid: "pw_pid (drain_ready es w) = pw_pid w"
proof (induction es w rule: drain_ready.induct)
  case (2 e es w)
  have "pw_pid (fold (\<lambda>state w. w\<lparr>pw_prompt_ready := (state = (1 :: u8) \<and> pw_pid w)\<rparr>) bs v) = pw_pid v" for bs and v :: PasswordWorker
    by (induction bs arbitrary: v) simp_all
  with 2 show ?case by (simp split: pipe_event.split)
qed simp

lemma drain_password_ready_frame [simp]:
  "hook_pid (drain_password_ready es r) = hook_pid r" "password_pid (drain_password_ready es r) = password_pid r"
  "rc_log (drain_password_ready es r) = rc_log r" "rc_hook (drain_password_ready es r) = rc_hook r"
  by (auto simp: drain_password_ready_def hook_pid_def password_pid_def drain_ready_pid split: option.split)

lemma redraw_frame [simp]:
  "hook_pid (redraw_password_prompt r) = hook_pid r" "password_pid (redraw_password_prompt r) = password_pid r"
  by (auto simp: redraw_password_prompt_def split: option.split)

lemma forward_stderr_frame:
  assumes "forward_stderr es seen r = (seen', r')"
  shows "hook_pid r' = hook_pid r" "rc_password r' = rc_password r"
    "\<exists>out. rc_log r' = out @ rc_log r \<and> set out \<subseteq> range ForwardStderr"
proof -
  have "hook_pid r' = hook_pid r \<and> rc_password r' = rc_password r \<and> (\<exists>out. rc_log r' = out @ rc_log r \<and> set out \<subseteq> range ForwardStderr)"
    using assms
  proof (induction es seen r rule: forward_stderr.induct)
    case (2 e es seen r)
    show ?case
    proof (cases e)
      case (PipeBytes bs)
      with 2 obtain out where "hook_pid r' = hook_pid r" "rc_password r' = rc_password r"
        "rc_log r' = out @ ForwardStderr bs # rc_log r" "set out \<subseteq> range ForwardStderr" by auto
      then show ?thesis by (intro conjI exI [of _ "out @ [ForwardStderr bs]"]) auto
    qed (use 2 in \<open>auto simp: hook_pid_def\<close>)
  qed simp
  then show "hook_pid r' = hook_pid r" "rc_password r' = rc_password r"
    "\<exists>out. rc_log r' = out @ rc_log r \<and> set out \<subseteq> range ForwardStderr" by blast+
qed

definition output_only :: "race_action list \<Rightarrow> bool" where
  "output_only as \<longleftrightarrow> set as \<subseteq> range ForwardStderr \<union> range WritePrompt"

lemma drain_hook_stderr_frame:
  "hook_pid (drain_hook_stderr es r) = hook_pid r" "password_pid (drain_hook_stderr es r) = password_pid r"
  "\<exists>out. rc_log (drain_hook_stderr es r) = out @ rc_log r \<and> output_only out \<and> (rc_password r = None \<longrightarrow> set out \<subseteq> range ForwardStderr)"
proof -
  obtain seen r1 where f: "forward_stderr (fst es) False r = (seen, r1)" by fastforce
  note frame = forward_stderr_frame [OF f]
  obtain out where out: "rc_log r1 = out @ rc_log r" "set out \<subseteq> range ForwardStderr" using frame(3) by blast
  have run: "drain_hook_stderr es r = (if \<not> hc_stderr (rc_hook r) then r
      else if seen then redraw_password_prompt (drain_password_ready (snd es) r1) else r1)"
    using f by (simp add: drain_hook_stderr_def)
  have pid: "password_pid r1 = password_pid r" using frame(2) by (simp add: password_pid_def)
  show "hook_pid (drain_hook_stderr es r) = hook_pid r" "password_pid (drain_hook_stderr es r) = password_pid r"
    using frame(1) pid unfolding run by simp_all
  have none: "rc_password (drain_password_ready (snd es) r1) = None \<longleftrightarrow> rc_password r = None"
    using frame(2) by (auto simp: drain_password_ready_def split: option.split)
  have "\<exists>w. rc_log (redraw_password_prompt (drain_password_ready (snd es) r1)) = w @ rc_log r1 \<and> set w \<subseteq> range WritePrompt \<and>
      (rc_password r = None \<longrightarrow> w = [])"
    using none by (auto simp: redraw_password_prompt_def split: option.split intro!: exI [of _ "[]"] exI [of _ "[WritePrompt _]"])
  then obtain w where "rc_log (redraw_password_prompt (drain_password_ready (snd es) r1)) = w @ out @ rc_log r"
    "set w \<subseteq> range WritePrompt" "rc_password r = None \<longrightarrow> w = []" using out by auto
  with out show "\<exists>out. rc_log (drain_hook_stderr es r) = out @ rc_log r \<and> output_only out \<and> (rc_password r = None \<longrightarrow> set out \<subseteq> range ForwardStderr)"
    unfolding run by (auto simp: output_only_def intro!: exI [of _ "w @ out"])
qed

lemmas drains [simp] = drain_hook_stderr_frame(1,2)

section \<open>Reaping\<close>

lemma reap_hook_cases:
  assumes "reap_hook w r = (result, r')"
  obtains (never) "\<not> hook_pid r" "result = Some HookUnavailable" "r' = r"
  | (running) "hook_pid r" "alive w" "result = None" "r' = r"
  | (gone) "hook_pid r" "\<not> alive w" "result = Some (hook_result w)" "\<not> hook_pid r'" "rc_password r' = rc_password r"
      "rc_log r' = WaitedHook w # rc_log r"
  using assms by (cases w) (auto simp: reap_hook_def hook_pid_def alive_def split: if_splits)

lemma reap_password_cases:
  assumes "reap_password w r = (result, r')"
  obtains (none) "password_pid r \<noteq> Some True" "result = None" "r' = r"
  | (running) "password_pid r = Some True" "alive w" "result = None" "r' = r"
  | (gone) "password_pid r = Some True" "\<not> alive w" "password_pid r' = Some False" "rc_hook r' = rc_hook r"
      "result = Some (case w of ExitedWith code \<Rightarrow> password_code code | _ \<Rightarrow> PasswordFailed)"
      "rc_log r' = RestoreTerminal True # WaitedPassword w # rc_log r"
  using assms by (cases w; cases "rc_password r")
    (auto simp: reap_password_def password_pid_def alive_def worker_gone_def Let_def split: if_splits)

lemma password_code_approved: "password_code code = PasswordApproved \<longleftrightarrow> code = 0"
  by simp

section \<open>The verdict of a race\<close>

text \<open>The race without its input and output: who answers first. The flags say whether the hook and the
  password process are still awaited.\<close>

fun race_spec :: "race_turn list \<Rightarrow> nat \<Rightarrow> bool \<Rightarrow> bool \<Rightarrow> int option" where
  "race_spec [] deadline hook password = None"
| "race_spec (t # ts) deadline hook password =
     (if rt_interrupted t \<or> rt_now t \<ge> deadline then Some 0
      else if hook \<and> \<not> alive (rt_hook t) \<and> hook_result (rt_hook t) \<noteq> HookUnavailable
      then Some (if rt_hook t = ExitedWith 0 then 1 else 0)
      else if password \<and> rt_password t = ExitedWith 0 then Some 1
      else let hook' = (hook \<and> alive (rt_hook t)); password' = (password \<and> alive (rt_password t))
           in if \<not> hook' \<and> \<not> password' then Some 0 else race_spec ts deadline hook' password')"

definition race_rel :: "race_state \<Rightarrow> bool \<Rightarrow> bool \<Rightarrow> bool" where
  "race_rel s hook password \<longleftrightarrow>
     hook = (rs_hook s = None \<and> hook_pid (rs_race s)) \<and> password = (\<not> rs_password_done s) \<and>
     rs_hook s \<in> {None, Some HookUnavailable} \<and> rs_password s \<noteq> Some PasswordApproved \<and>
     (\<not> rs_password_done s \<longrightarrow> password_pid (rs_race s) = Some True)"

lemma hook_result_approved: "hook_result w = HookApproved \<longleftrightarrow> w = ExitedWith 0"
  by (cases w) auto

lemma verdict_after_value: "verdict_after t v flush r = Some (v', r') \<Longrightarrow> v' = v"
  by (auto simp: verdict_after_def)

lemma password_turn_refines:
  assumes "password_turn t again s = Some (v, r)"
    and "race_rel s hook password" and "rs_hook s = None \<longrightarrow> hook"
    and "\<And>s hook' password'. again s = Some (v, r) \<Longrightarrow> race_rel s hook' password' \<Longrightarrow> again_spec hook' password' = Some v"
  shows "(if password \<and> rt_password t = ExitedWith 0 then Some 1
    else if \<not> hook \<and> \<not> (password \<and> alive (rt_password t)) then Some 0
    else again_spec hook (password \<and> alive (rt_password t))) = Some v"
proof (cases "rs_password_done s")
  case True
  have "password_turn t again s = (if rs_hook s \<noteq> None then verdict_after t 0 True (rs_race s) else again s)"
    using True assms(2) by (simp add: password_turn_def race_rel_def)
  moreover have "\<not> password" "hook \<longleftrightarrow> rs_hook s = None" using assms(2,3) True by (auto simp: race_rel_def)
  ultimately show ?thesis
    using assms(1) assms(4) [OF _ assms(2)] by (cases "rs_hook s") (auto dest: verdict_after_value verdict_after_value [OF sym])
next
  case False
  obtain result q where q: "reap_password (rt_password t) (rs_race s) = (result, q)" by fastforce
  have live: "password" "password_pid (rs_race s) = Some True" using assms(2) False by (auto simp: race_rel_def)
  from q show ?thesis
  proof (cases rule: reap_password_cases)
    case running
    have "password_turn t again s = again s"
      using q running False assms(2) by (simp add: password_turn_def race_rel_def)
    then have "again_spec hook password = Some v" using assms(1) assms(4) [OF _ assms(2)] by simp
    then show ?thesis using running(2) live by (auto simp: alive_def)
  next
    case gone
    let ?s = "s\<lparr>rs_race := q, rs_password_done := True, rs_password := result\<rparr>"
    have run: "password_turn t again s =
      (if result = Some PasswordApproved
       then if rs_hook s \<in> {Some HookDenied, Some HookFailed} then verdict_after t 0 False q
            else Option.bind (cancel_hook (rt_cancel_hook t) (rt_now t) q) (\<lambda>r.
                map_option (\<lambda>(v, r). (v, act AuditPasswordFallback r)) (verdict_after t 1 False r))
       else if rs_hook s \<noteq> None then verdict_after t 0 True q else again ?s)"
      using q gone(5) False by (simp add: password_turn_def)
    have approved: "result = Some PasswordApproved \<longleftrightarrow> rt_password t = ExitedWith 0"
      using gone(5) by (cases "rt_password t") auto
    have "hook_pid q = hook_pid (rs_race s)" using gone(4) by (simp add: hook_pid_def)
    then have rel: "race_rel ?s hook False" if "result \<noteq> Some PasswordApproved"
      using assms(2) that by (auto simp: race_rel_def)
    show ?thesis
    proof (cases "result = Some PasswordApproved")
      case True
      then have "v = 1" using assms(1,2) unfolding run
        by (auto simp: race_rel_def bind_eq_Some_conv dest: verdict_after_value split: if_splits)
      then show ?thesis using True approved live by simp
    next
      case no: False
      show ?thesis
      proof (cases "rs_hook s")
        case None
        then have "again ?s = Some (v, r)" using assms(1) no unfolding run by simp
        then show ?thesis using assms(3) assms(4) [OF _ rel [OF no]] None no approved gone(2) by simp
      next
        case (Some h)
        then have "v = 0" using assms(1) no unfolding run by (auto dest: verdict_after_value)
        then show ?thesis using Some no approved gone(2) assms(2) by (simp add: race_rel_def)
      qed
    qed
  qed (use live in simp)
qed

text \<open>The I/O of the plugin never changes who wins.\<close>

lemma race_loop_refines:
  assumes "race_loop ts deadline s = Some (v, r)" and "race_rel s hook password"
  shows "race_spec ts deadline hook password = Some v"
  using assms
proof (induction ts arbitrary: s hook password)
  case (Cons t ts)
  show ?case
  proof (cases "rt_interrupted t \<or> rt_now t \<ge> deadline")
    case True
    then have "v = 0" using Cons.prems(1) by (auto simp: stopped_def bind_eq_Some_conv dest: verdict_after_value)
    with True show ?thesis by simp
  next
    case False
    let ?r = "drain_hook_stderr (rt_stderr t) (drain_password_ready (rt_ready t) (rs_race s))"
    have pid: "hook_pid ?r = hook_pid (rs_race s)" "password_pid ?r = password_pid (rs_race s)" by simp_all
    note turn = password_turn_refines [OF _ _ _ Cons.IH]
    show ?thesis
    proof (cases "rs_hook s = None")
      case None: True
      obtain result q where q: "reap_hook (rt_hook t) ?r = (result, q)" by fastforce
      from q show ?thesis
      proof (cases rule: reap_hook_cases)
        case never
        let ?s = "s\<lparr>rs_race := drain_hook_stderr (rt_stderr_after t) q, rs_hook := Some HookUnavailable\<rparr>"
        have run: "password_turn t (race_loop ts deadline) ?s = Some (v, r)"
          using Cons.prems(1) False None q never by simp
        have rel: "race_rel ?s hook password" "\<not> hook"
          using Cons.prems(2) None never pid by (auto simp: race_rel_def)
        show ?thesis using turn [OF run rel(1)] rel False by (auto simp: Let_def)
      next
        case running
        let ?s = "s\<lparr>rs_race := q\<rparr>"
        have run: "password_turn t (race_loop ts deadline) ?s = Some (v, r)"
          using Cons.prems(1) False None q running by simp
        have rel: "race_rel ?s hook password" "hook"
          using Cons.prems(2) None running pid by (auto simp: race_rel_def)
        show ?thesis using turn [OF run rel(1)] rel False running by (auto simp: Let_def)
      next
        case gone
        have password_same: "password_pid q = password_pid (rs_race s)" using gone(5) pid by (simp add: password_pid_def)
        have hook: "hook" using Cons.prems(2) None gone(1) pid by (simp add: race_rel_def)
        show ?thesis
        proof (cases "hook_result (rt_hook t) = HookUnavailable")
          case True
          let ?s = "s\<lparr>rs_race := drain_hook_stderr (rt_stderr_after t) q, rs_hook := Some HookUnavailable\<rparr>"
          have run: "password_turn t (race_loop ts deadline) ?s = Some (v, r)"
            using Cons.prems(1) False None q gone True by simp
          have rel: "race_rel ?s False password"
            using Cons.prems(2) None gone(4) pid password_same by (simp add: race_rel_def)
          show ?thesis using turn [OF run rel(1)] rel False gone(2) hook True by (auto simp: Let_def)
        next
          case decided: False
          then have "v = (if rt_hook t = ExitedWith 0 then 1 else 0)"
            using Cons.prems(1) False None q gone hook_result_approved [of "rt_hook t"]
            by (cases "hook_result (rt_hook t)") (auto dest: verdict_after_value split: if_splits)
          then show ?thesis using False hook gone(2) decided by simp
        qed
      qed
    next
      case Some: False
      let ?s = "s\<lparr>rs_race := ?r\<rparr>"
      have run: "password_turn t (race_loop ts deadline) ?s = Some (v, r)" using Cons.prems(1) False Some by simp
      have rel: "race_rel ?s hook password" "\<not> hook"
        using Cons.prems(2) Some pid by (auto simp: race_rel_def)
      show ?thesis using turn [OF run rel(1)] rel False Some by (auto simp: Let_def)
    qed
  qed
qed simp

definition race_deadline :: "race_env \<Rightarrow> nat" where
  "race_deadline env = re_now env + PASSWORD_RACE_TIMEOUT"

definition password_started :: "race_env \<Rightarrow> SudoContext \<Rightarrow> bool" where
  "password_started env ctx \<longleftrightarrow> \<not> sc_noninteractive ctx \<and> \<not> contextual_pam_lane_live (re_pam_files env) \<and>
     re_tty env \<and> re_tty_copy env \<and> re_pipe env \<and> re_quiet env \<and> re_password_forked env"

definition race_start :: "race_env \<Rightarrow> SudoContext \<Rightarrow> race_state" where
  "race_start env ctx =
     (let r = start_race (re_hook_forked env);
          r = (if sc_noninteractive ctx \<or> contextual_pam_lane_live (re_pam_files env) then r
               else spawn_password_process env (sc_username ctx) r)
      in \<lparr>rs_race = r, rs_hook = None, rs_password_done = (rc_password r = None), rs_password = None\<rparr>)"

lemma run_hook_start: "run_hook env ctx =
   (if re_handler env then race_loop (re_turns env) (race_deadline env) (race_start env ctx) else Some (0, start_race False))"
  by (simp add: run_hook_def run_hook_with_password_def race_start_def race_deadline_def Let_def)

lemma race_start_rel: "race_rel (race_start env ctx) (re_hook_forked env) (password_started env ctx)"
  by (auto simp: race_rel_def race_start_def start_race_def spawn_password_process_def password_started_def hook_pid_def
      password_pid_def act_def Let_def)

text \<open>C19: the race is decided by the processes alone. Whatever the hook prints, whatever is redrawn, and
  however long the clean-up takes, a race that returns gives the verdict of its abstract specification, in
  which the first decisive answer wins and the hook is asked first in every turn.\<close>

theorem race_refines_spec:
  assumes "re_handler env" and "run_hook env ctx = Some (v, r)"
  shows "race_spec (re_turns env) (race_deadline env) (re_hook_forked env) (password_started env ctx) = Some v"
  using assms race_loop_refines [OF _ race_start_rel] by (simp add: run_hook_start)

text \<open>The hook's answer within some turns: that of the first turn in which it was no longer running.\<close>

definition hook_answer :: "race_turn list \<Rightarrow> HookResult option" where
  "hook_answer ts = map_option (\<lambda>t. hook_result (rt_hook t)) (find (\<lambda>t. \<not> alive (rt_hook t)) ts)"

lemma hook_answer_Cons: "hook_answer (t # ts) = (if alive (rt_hook t) then hook_answer ts else Some (hook_result (rt_hook t)))"
  by (simp add: hook_answer_def)

lemma race_spec_approves:
  assumes "race_spec ts deadline hook password = Some 1"
  obtains before t after where "ts = before @ t # after"
    "\<forall>u \<in> set (before @ [t]). \<not> rt_interrupted u \<and> rt_now u < deadline"
    "hook \<and> rt_hook t = ExitedWith 0 \<and> hook_answer before = None \<or>
     password \<and> rt_password t = ExitedWith 0 \<and> (hook \<longrightarrow> hook_answer (before @ [t]) \<in> {None, Some HookUnavailable})"
  using assms
proof (induction ts arbitrary: hook password thesis)
  case (Cons t ts)
  have turn: "\<not> rt_interrupted t" "rt_now t < deadline" using Cons.prems(2) by (auto split: if_splits)
  show ?case
  proof (cases "hook \<and> \<not> alive (rt_hook t) \<and> hook_result (rt_hook t) \<noteq> HookUnavailable")
    case True
    then have "rt_hook t = ExitedWith 0" using Cons.prems(2) turn by (simp split: if_splits)
    then show ?thesis using Cons.prems(1) [of "[]" t ts] True turn by (simp add: hook_answer_def)
  next
    case open_hook: False
    show ?thesis
    proof (cases "password \<and> rt_password t = ExitedWith 0")
      case True
      then show ?thesis using Cons.prems(1) [of "[]" t ts] open_hook turn by (auto simp: hook_answer_def)
    next
      case False
      then have "race_spec ts deadline (hook \<and> alive (rt_hook t)) (password \<and> alive (rt_password t)) = Some 1"
        using Cons.prems(2) turn open_hook by (auto simp: Let_def split: if_splits)
      from Cons.IH [OF _ this] obtain before u after where ih: "ts = before @ u # after"
        "\<forall>x \<in> set (before @ [u]). \<not> rt_interrupted x \<and> rt_now x < deadline"
        "(hook \<and> alive (rt_hook t)) \<and> rt_hook u = ExitedWith 0 \<and> hook_answer before = None \<or>
         (password \<and> alive (rt_password t)) \<and> rt_password u = ExitedWith 0 \<and>
         (hook \<and> alive (rt_hook t) \<longrightarrow> hook_answer (before @ [u]) \<in> {None, Some HookUnavailable})" by blast
      show ?thesis
      proof (rule Cons.prems(1) [of "t # before" u after])
        show "t # ts = (t # before) @ u # after" using ih(1) by simp
        show "\<forall>x \<in> set ((t # before) @ [u]). \<not> rt_interrupted x \<and> rt_now x < deadline" using ih(2) turn by simp
        show "hook \<and> rt_hook u = ExitedWith 0 \<and> hook_answer (t # before) = None \<or>
          password \<and> rt_password u = ExitedWith 0 \<and> (hook \<longrightarrow> hook_answer ((t # before) @ [u]) \<in> {None, Some HookUnavailable})"
          using ih(3) open_hook by (cases "alive (rt_hook t)") (auto simp: hook_answer_Cons)
      qed
    qed
  qed
qed simp

text \<open>sudo proceeds only on an approval. The plugin answers 1 only before its deadline and without an
  interrupt, in a turn in which either the hook it forked exited with status 0, or a password process it was
  allowed to start (interactive, no contextual PAM module) exited with status 0 while the hook had not denied
  or failed.\<close>

theorem race_needs_approval:
  assumes "run_hook env ctx = Some (1, r)"
  shows "\<exists>before t after. re_turns env = before @ t # after \<and>
    (\<forall>u \<in> set (before @ [t]). \<not> rt_interrupted u \<and> rt_now u < race_deadline env) \<and>
    (re_hook_forked env \<and> rt_hook t = ExitedWith 0 \<and> hook_answer before = None \<or>
     password_started env ctx \<and> rt_password t = ExitedWith 0 \<and>
       (re_hook_forked env \<longrightarrow> hook_answer (before @ [t]) \<in> {None, Some HookUnavailable}))"
proof -
  have "re_handler env" using assms by (auto simp: run_hook_start split: if_splits)
  then have "race_loop (re_turns env) (race_deadline env) (race_start env ctx) = Some (1, r)" using assms by (simp add: run_hook_start)
  from race_loop_refines [OF this race_start_rel] show ?thesis
    by (rule race_spec_approves) (intro exI conjI)
qed

section \<open>Children and terminal at the end\<close>

definition hook_log :: "race_action list \<Rightarrow> race_action list" where
  "hook_log = filter (\<lambda>a. a \<in> {TermHook, KillHook} \<union> range WaitedHook)"

definition password_log :: "race_action list \<Rightarrow> race_action list" where
  "password_log = filter (\<lambda>a. a \<in> {TermPassword, KillPassword} \<union> range WaitedPassword)"

text \<open>How the life of a child ends for the plugin, where \<open>W\<close> are the answers the kernel gave to its waits: one wait that
  does not find it running, after no signal, after \<open>SIGTERM\<close>, or after \<open>SIGTERM\<close> and \<open>SIGKILL\<close>, and no signal after it.
  The blocking wait for a killed password process is over with any answer but an interruption.\<close>

definition hook_over :: "wait_answer set \<Rightarrow> bool \<Rightarrow> race \<Rightarrow> bool" where
  "hook_over W forked r \<longleftrightarrow> \<not> hook_pid r \<and>
     (if forked then \<exists>w \<in> W. \<not> alive w \<and>
        hook_log (rc_log r) \<in> {[WaitedHook w], [WaitedHook w, TermHook], [WaitedHook w, KillHook, TermHook]}
      else hook_log (rc_log r) = [])"

definition hook_inv :: "wait_answer set \<Rightarrow> bool \<Rightarrow> race \<Rightarrow> bool" where
  "hook_inv W forked r \<longleftrightarrow> (if hook_pid r then forked \<and> hook_log (rc_log r) = []
     else if forked then \<exists>w \<in> W. \<not> alive w \<and> hook_log (rc_log r) = [WaitedHook w] else hook_log (rc_log r) = [])"

definition password_over :: "wait_answer set \<Rightarrow> bool \<Rightarrow> race \<Rightarrow> bool" where
  "password_over W started r \<longleftrightarrow> rc_password r = None \<and>
     (if started then \<exists>w \<in> W. w \<noteq> WaitInterrupted \<and>
        (\<not> alive w \<and> password_log (rc_log r) \<in> {[WaitedPassword w], [WaitedPassword w, TermPassword]} \<or>
         password_log (rc_log r) = [WaitedPassword w, KillPassword, TermPassword])
      else password_log (rc_log r) = [])"

definition password_inv :: "wait_answer set \<Rightarrow> bool \<Rightarrow> race \<Rightarrow> bool" where
  "password_inv W started r \<longleftrightarrow> started = (password_pid r \<noteq> None) \<and>
     (if password_pid r = Some False then \<exists>w \<in> W. \<not> alive w \<and> password_log (rc_log r) = [WaitedPassword w] else password_log (rc_log r) = [])"

lemma logs_simps [simp]:
  "hook_log [] = []" "password_log [] = []" "hook_log (as @ bs) = hook_log as @ hook_log bs" "password_log (as @ bs) = password_log as @ password_log bs"
  "hook_log (TermHook # as) = TermHook # hook_log as" "hook_log (KillHook # as) = KillHook # hook_log as"
  "hook_log (WaitedHook w # as) = WaitedHook w # hook_log as" "hook_log (TermPassword # as) = hook_log as"
  "hook_log (KillPassword # as) = hook_log as" "hook_log (WaitedPassword w # as) = hook_log as"
  "hook_log (RestoreTerminal b # as) = hook_log as" "hook_log (AuditPasswordFallback # as) = hook_log as"
  "password_log (TermHook # as) = password_log as" "password_log (KillHook # as) = password_log as"
  "password_log (WaitedHook v # as) = password_log as" "password_log (TermPassword # as) = TermPassword # password_log as"
  "password_log (KillPassword # as) = KillPassword # password_log as" "password_log (WaitedPassword w # as) = WaitedPassword w # password_log as"
  "password_log (RestoreTerminal b # as) = password_log as" "password_log (AuditPasswordFallback # as) = password_log as"
  by (auto simp: hook_log_def password_log_def)

lemma output_logs: "output_only out \<Longrightarrow> hook_log out = [] \<and> password_log out = []"
  by (auto simp: output_only_def hook_log_def password_log_def filter_empty_conv)

lemma drain_logs [simp]:
  "hook_log (rc_log (drain_hook_stderr es r)) = hook_log (rc_log r)" "password_log (rc_log (drain_hook_stderr es r)) = password_log (rc_log r)"
  using drain_hook_stderr_frame(3) [of es r] output_logs by auto

lemma drain_invs [simp]:
  "hook_inv W forked (drain_hook_stderr es r) = hook_inv W forked r" "password_inv W started (drain_hook_stderr es r) = password_inv W started r"
  "hook_inv W forked (drain_password_ready es' r) = hook_inv W forked r" "password_inv W started (drain_password_ready es' r) = password_inv W started r"
  "hook_over W forked (drain_hook_stderr es r) = hook_over W forked r"
  by (simp_all add: hook_inv_def password_inv_def hook_over_def)

lemma password_inv_cong: "rc_password r = rc_password q \<Longrightarrow> password_log (rc_log r) = password_log (rc_log q) \<Longrightarrow>
   password_inv W started r = password_inv W started q"
  unfolding password_inv_def password_pid_def by (simp only:)

lemma reap_hook_invs:
  assumes "reap_hook w r = (result, r')" "hook_inv W forked r" "password_inv W started r" "w \<in> W"
  shows "hook_inv W forked r'" "password_inv W started r'" "result \<noteq> None \<Longrightarrow> \<not> hook_pid r'"
  using assms(1) assms by (cases rule: reap_hook_cases; auto simp: hook_inv_def password_inv_def password_pid_def)+

lemma reap_password_invs:
  assumes "reap_password w r = (result, r')" "hook_inv W forked r" "password_inv W started r" "w \<in> W"
  shows "hook_inv W forked r'" "password_inv W started r'"
  using assms(1) assms by (cases rule: reap_password_cases; auto simp: hook_inv_def password_inv_def hook_pid_def)+

lemma reap_hook_blocking_over:
  assumes "reap_hook_blocking ws r = Some r'" "hook_pid r"
  shows "\<not> hook_pid r' \<and> (\<exists>w \<in> set ws. \<not> alive w \<and> rc_log r' = WaitedHook w # rc_log r) \<and> rc_password r' = rc_password r"
  using assms
proof (induction ws r rule: reap_hook_blocking.induct)
  case (2 w ws r)
  obtain result q where q: "reap_hook w r = (result, q)" by fastforce
  then show ?case
  proof (cases rule: reap_hook_cases)
    case gone
    then have "reap_hook_blocking ws q = Some q" by (cases ws) (auto simp: hook_pid_def)
    then show ?thesis using 2 q gone by (simp add: hook_pid_def)
  qed (use 2 q in \<open>auto simp: hook_pid_def\<close>)
qed (auto simp: hook_pid_def)

lemma reap_after_signal_hook_over:
  assumes "reap_after_signal_hook polls ws deadline r = Some r'" "hook_pid r"
  shows "\<not> hook_pid r' \<and> (\<exists>w \<in> snd ` set polls \<union> set ws. \<not> alive w \<and>
      rc_log r' \<in> {WaitedHook w # rc_log r, WaitedHook w # KillHook # rc_log r}) \<and> rc_password r' = rc_password r"
  using assms
proof (induction polls ws deadline r rule: reap_after_signal_hook.induct)
  case (2 now w polls ws deadline r)
  obtain result q where q: "reap_hook w r = (result, q)" by fastforce
  show ?case
  proof (cases "now < deadline")
    case True
    from q show ?thesis
    proof (cases rule: reap_hook_cases)
      case running
      then show ?thesis using 2 q True by (simp add: hook_pid_def)
    next
      case gone
      then show ?thesis using 2 q True by (auto simp: hook_pid_def)
    qed (use 2 q in \<open>simp add: hook_pid_def\<close>)
  next
    case False
    then have "reap_hook_blocking ws (act KillHook r) = Some r'" using 2 by (simp add: hook_pid_def)
    from reap_hook_blocking_over [OF this] show ?thesis using 2 by auto
  qed
qed (auto simp: hook_pid_def)

definition term_answers :: "term_env \<Rightarrow> wait_answer set" where
  "term_answers e = snd ` set (te_polls e) \<union> set (te_blocking e)"

definition turn_answers :: "race_turn \<Rightarrow> wait_answer set" where
  "turn_answers t = {rt_hook t, rt_password t} \<union> term_answers (rt_cancel_hook t) \<union> term_answers (rt_cancel_password t)"

lemma cancel_hook_over:
  assumes "cancel_hook e now r = Some r'" "hook_inv W forked r" "password_inv W started r" "term_answers e \<subseteq> W"
  shows "hook_over W forked r'" "password_inv W started r'" "rc_password r' = rc_password r"
proof -
  have "hook_over W forked r' \<and> rc_password r' = rc_password r \<and> password_log (rc_log r') = password_log (rc_log r)"
  proof (cases "hook_pid r")
    case True
    then have "reap_after_signal_hook (te_polls e) (te_blocking e) (now + CHILD_TERM_GRACE) (act TermHook r) = Some r'"
      using assms(1) by (simp add: cancel_hook_def hook_pid_def)
    from reap_after_signal_hook_over [OF this] obtain w where "w \<in> W" "\<not> alive w" "\<not> hook_pid r'" "rc_password r' = rc_password r"
      "rc_log r' \<in> {WaitedHook w # TermHook # rc_log r, WaitedHook w # KillHook # TermHook # rc_log r}"
      using True assms(4) by (auto simp: term_answers_def)
    then show ?thesis using True assms(2) by (auto simp: hook_over_def hook_inv_def)
  next
    case False
    then show ?thesis using assms(1,2) by (auto simp: cancel_hook_def hook_pid_def hook_over_def hook_inv_def)
  qed
  then show "hook_over W forked r'" "password_inv W started r'" "rc_password r' = rc_password r"
    using assms(3) password_inv_cong [of r' r W started] by simp_all
qed

lemma wait_password_blocking_over:
  "wait_password_blocking ws r = Some r' \<Longrightarrow> \<exists>w \<in> set ws. w \<noteq> WaitInterrupted \<and> r' = act (WaitedPassword w) r"
  by (induction ws r rule: wait_password_blocking.induct) (auto split: if_splits)

lemma reap_after_signal_password_over:
  "reap_after_signal_password polls ws deadline r = Some r' \<Longrightarrow> \<exists>w \<in> snd ` set polls \<union> set ws. w \<noteq> WaitInterrupted \<and>
     (\<not> alive w \<and> r' = act (WaitedPassword w) r \<or> r' = act (WaitedPassword w) (act KillPassword r))"
proof (induction polls ws deadline r rule: reap_after_signal_password.induct)
  case (2 now w polls ws deadline r)
  show ?case
  proof (cases "now < deadline")
    case True
    then show ?thesis using 2 by (cases "w \<in> {StillAlive, WaitInterrupted}") (auto simp: alive_def)
  next
    case False
    then show ?thesis using 2(2) wait_password_blocking_over [of ws "act KillPassword r" r'] by auto
  qed
qed simp

lemma cancel_password_over:
  assumes "cancel_password e now flush r = Some r'" "password_inv W started r" "hook_over W forked r" "term_answers e \<subseteq> W"
  shows "password_over W started r'" "hook_over W forked r'" "started \<Longrightarrow> \<exists>flush' earlier. rc_log r' = RestoreTerminal flush' # earlier"
proof -
  have "password_over W started r' \<and> hook_over W forked r' \<and> (started \<longrightarrow> (\<exists>flush' earlier. rc_log r' = RestoreTerminal flush' # earlier))"
  proof (cases "rc_password r")
    case None
    then show ?thesis using assms
      by (auto simp: cancel_password_def password_inv_def password_over_def password_pid_def)
  next
    case (Some w)
    then obtain q where q: "r' = act (RestoreTerminal (pw_needs_flush w \<or> flush)) (q\<lparr>rc_password := None\<rparr>)"
      "(if pw_pid w then reap_after_signal_password (te_polls e) (te_blocking e) (now + CHILD_TERM_GRACE) (act TermPassword r) else Some r) = Some q"
      using assms(1) by (auto simp: cancel_password_def)
    show ?thesis
    proof (cases "pw_pid w")
      case True
      then have "reap_after_signal_password (te_polls e) (te_blocking e) (now + CHILD_TERM_GRACE) (act TermPassword r) = Some q" using q(2) by simp
      from reap_after_signal_password_over [OF this] obtain a where a: "a \<in> W" "a \<noteq> WaitInterrupted"
        "\<not> alive a \<and> q = act (WaitedPassword a) (act TermPassword r) \<or> q = act (WaitedPassword a) (act KillPassword (act TermPassword r))"
        using assms(4) by (auto simp: term_answers_def)
      have fresh: "started" "password_log (rc_log r) = []" using assms(2) Some True by (simp_all add: password_inv_def password_pid_def)
      have "hook_over W forked r'" using a(3) assms(3) q(1) by (auto simp: hook_over_def hook_pid_def)
      moreover have "password_over W started r'" using a fresh q(1) by (auto simp: password_over_def)
      ultimately show ?thesis using q(1) by simp
    next
      case False
      then show ?thesis using assms(2,3) Some q
        by (auto simp: password_inv_def password_over_def password_pid_def hook_over_def hook_pid_def alive_def)
    qed
  qed
  then show "password_over W started r'" "hook_over W forked r'" "started \<Longrightarrow> \<exists>flush' earlier. rc_log r' = RestoreTerminal flush' # earlier"
    by blast+
qed

definition race_clean :: "wait_answer set \<Rightarrow> bool \<Rightarrow> bool \<Rightarrow> race \<Rightarrow> bool" where
  "race_clean W forked started r \<longleftrightarrow> hook_over W forked r \<and> password_over W started r \<and>
     (started \<longrightarrow> (\<exists>later flush earlier. rc_log r = later @ RestoreTerminal flush # earlier \<and> set later \<subseteq> {AuditPasswordFallback}))"

lemma verdict_after_clean:
  assumes "verdict_after t v flush r = Some (v', r')" "password_inv W started r" "hook_over W forked r" "turn_answers t \<subseteq> W"
  shows "race_clean W forked started r'"
proof -
  have "cancel_password (rt_cancel_password t) (rt_now t) flush r = Some r'" using assms(1) by (auto simp: verdict_after_def)
  from cancel_password_over [OF this assms(2,3)] assms(4) show ?thesis
    unfolding race_clean_def turn_answers_def by (metis append_Nil empty_set empty_subsetI le_sup_iff)
qed

lemma hook_over_reaped: "hook_inv W forked r \<Longrightarrow> \<not> hook_pid r \<Longrightarrow> hook_over W forked r"
  by (auto simp: hook_inv_def hook_over_def)

lemma stopped_clean:
  assumes "stopped t r = Some (v, r')" "hook_inv W forked r" "password_inv W started r" "turn_answers t \<subseteq> W"
  shows "race_clean W forked started r'"
proof -
  from assms(1) obtain q where q: "cancel_hook (rt_cancel_hook t) (rt_now t) r = Some q"
    "verdict_after t 0 True (drain_hook_stderr (rt_stderr_last t) q) = Some (v, r')"
    by (auto simp: stopped_def bind_eq_Some_conv)
  show ?thesis using verdict_after_clean [OF q(2)] cancel_hook_over [OF q(1) assms(2,3)] assms(4) by (simp add: turn_answers_def)
qed

lemma audit_clean: "race_clean W forked started r \<Longrightarrow> race_clean W forked started (act AuditPasswordFallback r)"
proof -
  assume clean: "race_clean W forked started r"
  have "\<exists>later flush earlier. AuditPasswordFallback # rc_log r = later @ RestoreTerminal flush # earlier \<and> set later \<subseteq> {AuditPasswordFallback}"
    if started
  proof -
    from clean that obtain later flush earlier where "rc_log r = later @ RestoreTerminal flush # earlier" "set later \<subseteq> {AuditPasswordFallback}"
      unfolding race_clean_def by blast
    then show ?thesis by (intro exI [of _ "AuditPasswordFallback # later"]) simp
  qed
  moreover have "hook_over W forked (act AuditPasswordFallback r)" "password_over W started (act AuditPasswordFallback r)"
    using clean by (auto simp: race_clean_def hook_over_def password_over_def)
  ultimately show ?thesis by (simp add: race_clean_def)
qed

lemma password_turn_clean:
  assumes "password_turn t again s = Some (v, r)"
    and "hook_inv W forked (rs_race s)" "password_inv W started (rs_race s)" "rs_hook s \<noteq> None \<longrightarrow> \<not> hook_pid (rs_race s)"
    and "\<And>s. again s = Some (v, r) \<Longrightarrow> hook_inv W forked (rs_race s) \<Longrightarrow> password_inv W started (rs_race s) \<Longrightarrow>
      rs_hook s \<noteq> None \<longrightarrow> \<not> hook_pid (rs_race s) \<Longrightarrow> race_clean W forked started r"
    and "turn_answers t \<subseteq> W"
  shows "race_clean W forked started r"
proof -
  have answers: "rt_password t \<in> W" "term_answers (rt_cancel_hook t) \<subseteq> W" using assms(6) by (auto simp: turn_answers_def)
  obtain result q where q: "(if rs_password_done s then (None, rs_race s) else reap_password (rt_password t) (rs_race s)) = (result, q)"
    by fastforce
  let ?s = "case result of None \<Rightarrow> s\<lparr>rs_race := q\<rparr> | Some p \<Rightarrow> s\<lparr>rs_race := q, rs_password_done := True, rs_password := Some p\<rparr>"
  have race: "rs_race ?s = q" "rs_hook ?s = rs_hook s" by (simp_all split: option.split)
  have "hook_inv W forked q \<and> password_inv W started q \<and> hook_pid q = hook_pid (rs_race s)"
  proof (cases "rs_password_done s")
    case False
    then have reap: "reap_password (rt_password t) (rs_race s) = (result, q)" using q by simp
    from reap have "hook_pid q = hook_pid (rs_race s)" by (cases rule: reap_password_cases) (simp_all add: hook_pid_def)
    then show ?thesis using reap_password_invs [OF reap assms(2,3)] answers by simp
  next
    case True
    then have "q = rs_race s" using q by simp
    then show ?thesis using assms(2,3) by simp
  qed
  then have inv: "hook_inv W forked q" "password_inv W started q" and same: "hook_pid q = hook_pid (rs_race s)" by simp_all
  have over: "hook_over W forked q" if "rs_hook s \<noteq> None"
    using that assms(4) inv(1) same by (auto intro: hook_over_reaped)
  note run = assms(1) [unfolded password_turn_def q Let_def prod.case]
  consider (denied) "rs_hook s \<in> {Some HookDenied, Some HookFailed}" "verdict_after t 0 False q = Some (v, r)"
    | (approved) q1 r1 where "cancel_hook (rt_cancel_hook t) (rt_now t) q = Some q1" "verdict_after t 1 False q1 = Some (v, r1)"
        "r = act AuditPasswordFallback r1"
    | (over) "rs_hook s \<noteq> None" "verdict_after t 0 True q = Some (v, r)"
    | (again) "again ?s = Some (v, r)"
    using run unfolding race by (auto simp: bind_eq_Some_conv split: if_splits)
  then show ?thesis
  proof cases
    case denied
    then show ?thesis using verdict_after_clean [OF denied(2) inv(2)] over assms(6) by auto
  next
    case approved
    from cancel_hook_over [OF approved(1) inv answers(2)] verdict_after_clean [OF approved(2)] approved(3) assms(6)
    show ?thesis by (simp add: audit_clean)
  next
    case over
    then show ?thesis using verdict_after_clean [OF over(2) inv(2)] assms(6) \<open>rs_hook s \<noteq> None \<Longrightarrow> hook_over W forked q\<close> by blast
  next
    case again
    then show ?thesis using assms(5) [of ?s] inv same assms(4) unfolding race by blast
  qed
qed

lemma race_loop_clean:
  assumes "race_loop ts deadline s = Some (v, r)"
    and "hook_inv W forked (rs_race s)" "password_inv W started (rs_race s)" "rs_hook s \<noteq> None \<longrightarrow> \<not> hook_pid (rs_race s)"
    and "\<forall>t \<in> set ts. turn_answers t \<subseteq> W"
  shows "race_clean W forked started r"
  using assms
proof (induction ts arbitrary: s)
  case (Cons t ts)
  have answers: "turn_answers t \<subseteq> W" "rt_hook t \<in> W" and rest: "\<forall>t \<in> set ts. turn_answers t \<subseteq> W"
    using Cons.prems(5) by (auto simp: turn_answers_def)
  note turn = password_turn_clean [OF _ _ _ _ Cons.IH [OF _ _ _ _ rest] answers(1)]
  let ?r = "drain_hook_stderr (rt_stderr t) (drain_password_ready (rt_ready t) (rs_race s))"
  show ?case
  proof (cases "rt_interrupted t \<or> rt_now t \<ge> deadline")
    case True
    then show ?thesis using Cons.prems answers by (auto intro: stopped_clean)
  next
    case False
    have inv: "hook_inv W forked ?r" "password_inv W started ?r" using Cons.prems(2,3) by simp_all
    obtain result q where q: "reap_hook (rt_hook t) ?r = (result, q)" by fastforce
    note reaped = reap_hook_invs [OF q inv answers(2)]
    consider (known) "rs_hook s \<noteq> None" "password_turn t (race_loop ts deadline) (s\<lparr>rs_race := ?r\<rparr>) = Some (v, r)"
      | (running) "rs_hook s = None" "password_turn t (race_loop ts deadline) (s\<lparr>rs_race := q\<rparr>) = Some (v, r)"
      | (gone) "\<not> hook_pid q" "password_turn t (race_loop ts deadline)
            (s\<lparr>rs_race := drain_hook_stderr (rt_stderr_after t) q, rs_hook := Some HookUnavailable\<rparr>) = Some (v, r)"
      | (decided) verdict where "\<not> hook_pid q" "verdict_after t verdict True (drain_hook_stderr (rt_stderr_after t) q) = Some (v, r)"
      using Cons.prems(1) False q reaped(3) by (auto simp: Let_def split: if_splits option.splits HookResult.splits)
    then show ?thesis
    proof cases
      case known
      then show ?thesis using turn [OF known(2)] inv Cons.prems(4) by simp
    next
      case running
      then show ?thesis using turn [OF running(2)] reaped by simp
    next
      case gone
      then show ?thesis using turn [OF gone(2)] reaped by simp
    next
      case decided
      then show ?thesis using verdict_after_clean [OF decided(2)] reaped hook_over_reaped [OF reaped(1)] answers(1) by simp
    qed
  qed
qed simp


section \<open>The plugin returns\<close>

text \<open>A child that was signalled goes away: the polls reach the end of the grace period and, after \<open>SIGKILL\<close>, a
  blocking wait reports it.\<close>

definition term_ends :: "term_env \<Rightarrow> nat \<Rightarrow> bool" where
  "term_ends e now \<longleftrightarrow> (\<exists>p \<in> set (te_polls e). now + CHILD_TERM_GRACE \<le> fst p) \<and> (\<exists>w \<in> set (te_blocking e). \<not> alive w)"

lemma reap_hook_blocking_returns: "\<exists>w \<in> set ws. \<not> alive w \<Longrightarrow> reap_hook_blocking ws r \<noteq> None"
proof (induction ws r rule: reap_hook_blocking.induct)
  case (2 w ws r)
  show ?case
  proof (cases "hc_pid (rc_hook r) \<and> alive w")
    case True
    then have "reap_hook w r = (None, r)" by (auto simp: reap_hook_def alive_def)
    then show ?thesis using 2 True by auto
  next
    case False
    have "reap_hook_blocking ws q \<noteq> None" if "\<not> hc_pid (rc_hook q)" for q using that by (cases ws) simp_all
    moreover have "\<not> hc_pid (rc_hook (snd (reap_hook w r)))" if "hc_pid (rc_hook r)" "\<not> alive w"
      using that by (cases w) (auto simp: reap_hook_def alive_def)
    ultimately show ?thesis using False by auto
  qed
qed simp

lemma cancel_hook_returns: "term_ends e now \<Longrightarrow> cancel_hook e now r \<noteq> None"
proof -
  have "reap_after_signal_hook polls ws deadline r \<noteq> None"
    if "\<exists>p \<in> set polls. deadline \<le> fst p" "\<exists>w \<in> set ws. \<not> alive w" for polls ws deadline r
    using that
  proof (induction polls ws deadline r rule: reap_after_signal_hook.induct)
    case (2 now w polls ws deadline r)
    have polls: "\<exists>p \<in> set polls. deadline \<le> fst p" if "now < deadline" using that 2(2) by auto
    obtain result q where q: "reap_hook w r = (result, q)" by fastforce
    show ?case
    proof (cases "hc_pid (rc_hook r) \<and> now < deadline")
      case True
      then show ?thesis using 2(1) [OF True q [symmetric]] polls q 2(3) by (cases result) auto
    next
      case False
      then show ?thesis using reap_hook_blocking_returns [OF 2(3), of "act KillHook r"] by auto
    qed
  qed simp
  then show "term_ends e now \<Longrightarrow> cancel_hook e now r \<noteq> None" by (auto simp: cancel_hook_def term_ends_def)
qed

lemma cancel_password_returns: "term_ends e now \<Longrightarrow> cancel_password e now flush r \<noteq> None"
proof -
  have blocking: "wait_password_blocking ws r \<noteq> None" if "\<exists>w \<in> set ws. \<not> alive w" for ws r
    using that by (induction ws r rule: wait_password_blocking.induct) (auto simp: alive_def)
  have "reap_after_signal_password polls ws deadline r \<noteq> None"
    if "\<exists>p \<in> set polls. deadline \<le> fst p" "\<exists>w \<in> set ws. \<not> alive w" for polls ws deadline r
    using that
  proof (induction polls ws deadline r rule: reap_after_signal_password.induct)
    case (2 now w polls ws deadline r)
    then show ?case using blocking [of ws "act KillPassword r"] by auto
  qed simp
  then show "term_ends e now \<Longrightarrow> cancel_password e now flush r \<noteq> None"
    by (auto simp: cancel_password_def term_ends_def split: option.split)
qed

lemma verdict_after_returns: "term_ends (rt_cancel_password t) (rt_now t) \<Longrightarrow> verdict_after t v flush r \<noteq> None"
  using cancel_password_returns by (simp add: verdict_after_def)

text \<open>C27: sudo is never held for longer than the timeout and the grace periods. Once a turn sees the deadline
  passed or an interrupt, and signalled children go away, the plugin has an answer, 0 or 1.\<close>

theorem race_returns:
  assumes "\<exists>t \<in> set (re_turns env). rt_interrupted t \<or> race_deadline env \<le> rt_now t"
    and "\<forall>t \<in> set (re_turns env). term_ends (rt_cancel_hook t) (rt_now t) \<and> term_ends (rt_cancel_password t) (rt_now t)"
  shows "\<exists>v r. run_hook env ctx = Some (v, r) \<and> v \<in> {0, 1}"
proof -
  have loop: "race_loop ts deadline s \<noteq> None"
    if "\<exists>t \<in> set ts. rt_interrupted t \<or> deadline \<le> rt_now t"
      "\<forall>t \<in> set ts. term_ends (rt_cancel_hook t) (rt_now t) \<and> term_ends (rt_cancel_password t) (rt_now t)" for ts deadline s
    using that
  proof (induction ts arbitrary: s)
    case (Cons t ts)
    have ends: "cancel_hook (rt_cancel_hook t) (rt_now t) r \<noteq> None" "verdict_after t v flush r \<noteq> None" for v flush r
      using Cons.prems(2) cancel_hook_returns verdict_after_returns by simp_all
    show ?case
    proof (cases "rt_interrupted t \<or> deadline \<le> rt_now t")
      case True
      then show ?thesis using ends by (auto simp: stopped_def bind_eq_None_conv)
    next
      case False
      then have "race_loop ts deadline q \<noteq> None" for q using Cons by auto
      then have turn: "password_turn t (race_loop ts deadline) q \<noteq> None" for q
      proof -
        obtain result r where q: "(if rs_password_done q then (None, rs_race q) else reap_password (rt_password t) (rs_race q)) = (result, r)"
          by fastforce
        have "Option.bind (cancel_hook (rt_cancel_hook t) (rt_now t) p) (\<lambda>r.
            map_option (\<lambda>(v, r). (v, act AuditPasswordFallback r)) (verdict_after t 1 False r)) \<noteq> None" for p
          using ends(1) [of p] ends(2) by (auto simp: bind_eq_None_conv)
        then show ?thesis
          using ends \<open>\<And>q. race_loop ts deadline q \<noteq> None\<close> unfolding password_turn_def q Let_def prod.case by simp
      qed
      show ?thesis using False turn ends
        by (auto simp: Let_def split: prod.split option.split HookResult.split)
    qed
  qed simp
  have "v \<in> {0, 1}" if "race_spec ts deadline h p = Some v" for ts deadline h p v
    using that by (induction ts deadline h p rule: race_spec.induct) (auto simp: Let_def split: if_splits)
  then show ?thesis using loop [OF assms] race_loop_refines [OF _ race_start_rel] by (fastforce simp: run_hook_start)
qed

section \<open>From sudo to the verdict\<close>

definition hook_exit_code :: "hook_error + unit \<Rightarrow> int" where
  "hook_exit_code r = (case r of Inr _ \<Rightarrow> 0 | Inl e \<Rightarrow> check_error_exit_code e)"

lemma hook_exit_zero: "hook_exit_code r = 0 \<longleftrightarrow> r = Inr ()"
  by (cases r) (auto simp: hook_exit_code_def check_error_exit_code_def CHECK_RC_DENIED_def CHECK_RC_UNAVAILABLE_def
      split: hook_error.splits)

text \<open>C1: end to end, sudo runs a command only with an approval of that command or with the password. If the
  plugin answers 1 to a check and the hook process it forked is the hook of this development run on the payload
  (or could not be executed), then either an active pinned device approved a request that carries exactly the
  arguments and the environment of this sudo, for the user who invoked it, or the password process approved,
  which is possible only in an interactive sudo without the contextual PAM module.\<close>

theorem sudo_runs_only_with_approval:
  assumes "capture_open_state settings user_info submit_envp = (SUDO_RC_OK, Some st)"
    and "gather_context_after_open command_info run_argv run_envp (Some st) = (Some ctx, state')"
    and "length (entries run_argv) < 2 ^ 32" and "length (entries run_envp) < 2 ^ 64"
    and "\<forall>t \<in> set (re_turns env). \<forall>code. rt_hook t = ExitedWith code \<longrightarrow>
      code \<in> {hook_exit_code (fst (cmd_check X hf run late version (sc_payload ctx) file)), HOOK_EXEC_FAILED}"
    and "run_hook env ctx = Some (1, r)"
  shows "(\<exists>t \<in> set (re_turns env). rt_password t = ExitedWith 0 \<and> \<not> sc_noninteractive ctx \<and>
      \<not> contextual_pam_lane_live (re_pam_files env)) \<or>
    (\<exists>request raw snapshot device decision n.
      map as_bytes (rq_argv request) = entries run_argv \<and>
      map (\<lambda>e. as_bytes (ev_name e) @ 0x3D # as_bytes (ev_value e)) (rq_env request) = entries run_envp \<and>
      last_value (os_user_info st) ''user'' = Some (rq_user request) \<and>
      RequestV1_raw_json X request = Inr raw \<and> Transaction_load X file = Inr snapshot \<and>
      device \<in> set (devices_of snapshot) \<and> dv_active device \<and> approval_proved X (hr_env run n) decision request raw device)"
proof -
  have handler: "re_handler env" using assms(6) by (auto simp: run_hook_start split: if_splits)
  then have "race_loop (re_turns env) (race_deadline env) (race_start env ctx) = Some (1, r)" using assms(6) by (simp add: run_hook_start)
  from race_loop_refines [OF this race_start_rel] obtain before t after where t: "re_turns env = before @ t # after"
    "re_hook_forked env \<and> rt_hook t = ExitedWith 0 \<and> hook_answer before = None \<or>
     password_started env ctx \<and> rt_password t = ExitedWith 0 \<and>
       (re_hook_forked env \<longrightarrow> hook_answer (before @ [t]) \<in> {None, Some HookUnavailable})"
    by (rule race_spec_approves)
  have mem: "t \<in> set (re_turns env)" using t(1) by simp
  show ?thesis
  proof (cases "rt_hook t = ExitedWith 0")
    case True
    have "hook_exit_code (fst (cmd_check X hf run late version (sc_payload ctx) file)) = 0"
      using assms(5) [THEN bspec, OF mem] True by (auto simp: HOOK_EXEC_FAILED_def)
    then obtain file' where "cmd_check X hf run late version (sc_payload ctx) file = (Inr (), file')"
      unfolding hook_exit_zero by (metis prod.collapse)
    then obtain request where built: "and_then (parse_sudo_stdin (sc_payload ctx)) (build_request X hf) = Inr request"
      and accepted: "execute_request_at X run late request APPROVAL_TIMEOUT file = (Inr (), file')"
      by (auto simp: cmd_check_def guarded_def map_err_def split: if_splits sum.splits)
    show ?thesis
      using execute_request_needs_proof [OF accepted] sudo_request_bytes(1-3) [OF assms(1-4) built] by blast
  next
    case False
    then show ?thesis using t(2) mem by (auto simp: password_started_def)
  qed
qed

section \<open>Sample races\<close>

definition sample_term :: term_env where
  "sample_term = \<lparr>te_polls = [(0, StillAlive), (100000, StillAlive)], te_blocking = [ExitedWith 0]\<rparr>"

definition sample_race_turn :: race_turn where
  "sample_race_turn = \<lparr>rt_interrupted = False, rt_now = 10, rt_ready = [PipeBytes [1]], rt_stderr = ([PipeBytes [65]], []),
     rt_hook = ExitedWith 0, rt_stderr_after = ([PipeEof], []), rt_password = StillAlive,
     rt_cancel_hook = sample_term, rt_cancel_password = sample_term, rt_stderr_last = ([], [])\<rparr>"

definition sample_race_env :: race_env where
  "sample_race_env = \<lparr>re_handler = True, re_hook_forked = True, re_pam_files = [None], re_tty = True, re_tty_copy = True, re_pipe = True,
     re_quiet = True, re_password_forked = True, re_now = 0, re_turns = [sample_race_turn, sample_race_turn\<lparr>rt_interrupted := True\<rparr>]\<rparr>"

definition sample_sudo_context :: SudoContext where
  "sample_sudo_context = \<lparr>sc_payload = [], sc_username = ''u'', sc_noninteractive = False\<rparr>"

lemma sample_race_ends: "term_ends sample_term 10"
  by (auto simp: term_ends_def sample_term_def alive_def CHILD_TERM_GRACE_def)

lemma sample_turn_ends: "t \<in> set (re_turns sample_race_env) \<Longrightarrow>
    term_ends (rt_cancel_hook t) (rt_now t) \<and> term_ends (rt_cancel_password t) (rt_now t)"
  using sample_race_ends by (auto simp: sample_race_env_def sample_race_turn_def)

lemma sample_race_approves:
  assumes "sc_noninteractive ctx = False"
  shows "\<exists>r. run_hook sample_race_env ctx = Some (1, r)"
proof -
  have "\<exists>v r. race_loop (re_turns sample_race_env) (race_deadline sample_race_env) (race_start sample_race_env ctx) = Some (v, r)"
  proof -
    let ?r = "drain_hook_stderr (rt_stderr sample_race_turn) (drain_password_ready (rt_ready sample_race_turn) (rs_race (race_start sample_race_env ctx)))"
    have "hook_pid (rs_race (race_start sample_race_env ctx))"
      by (simp add: race_start_def start_race_def sample_race_env_def spawn_password_process_def hook_pid_def Let_def)
    then have pid: "hook_pid ?r" by simp
    have turn: "rt_hook sample_race_turn = ExitedWith 0" "\<not> rt_interrupted sample_race_turn" "rt_now sample_race_turn = 10"
      "re_turns sample_race_env = [sample_race_turn, sample_race_turn\<lparr>rt_interrupted := True\<rparr>]" "race_deadline sample_race_env = 95000"
      "rs_hook (race_start sample_race_env ctx) = None"
      by (simp_all add: sample_race_turn_def sample_race_env_def race_deadline_def PASSWORD_RACE_TIMEOUT_def race_start_def Let_def)
    obtain q where q: "reap_hook (ExitedWith 0) ?r = (Some HookApproved, q)" using pid by (simp add: reap_hook_def hook_pid_def)
    have "verdict_after sample_race_turn 1 True (drain_hook_stderr (rt_stderr_after sample_race_turn) q) \<noteq> None"
      using sample_turn_ends [of sample_race_turn] by (intro verdict_after_returns) (simp add: turn)
    then show ?thesis using turn q by (auto simp: Let_def)
  qed
  then obtain v r where run: "run_hook sample_race_env ctx = Some (v, r)" by (auto simp: run_hook_start sample_race_env_def)
  have "re_handler sample_race_env" by (simp add: sample_race_env_def)
  then have "race_spec (re_turns sample_race_env) (race_deadline sample_race_env) (re_hook_forked sample_race_env) (password_started sample_race_env ctx) = Some v"
    using run race_loop_refines [OF _ race_start_rel] by (simp add: run_hook_start)
  then have "v = 1"
    by (simp add: sample_race_env_def sample_race_turn_def race_deadline_def PASSWORD_RACE_TIMEOUT_def alive_def)
  then show ?thesis using run by blast
qed

theorem race_refines_spec_witness:
  "race_spec (re_turns sample_race_env) (race_deadline sample_race_env) True (password_started sample_race_env sample_sudo_context) = Some 1"
proof -
  have env: "re_handler sample_race_env" "re_hook_forked sample_race_env" by (simp_all add: sample_race_env_def)
  obtain r where "run_hook sample_race_env sample_sudo_context = Some (1, r)"
    using sample_race_approves [of sample_sudo_context] by (auto simp: sample_sudo_context_def)
  from race_refines_spec [OF env(1) this] show ?thesis using env(2) by simp
qed

theorem race_needs_approval_witness:
  "\<exists>t \<in> set (re_turns sample_race_env). rt_hook t = ExitedWith 0 \<or> rt_password t = ExitedWith 0"
proof -
  obtain r where "run_hook sample_race_env sample_sudo_context = Some (1, r)"
    using sample_race_approves [of sample_sudo_context] by (auto simp: sample_sudo_context_def)
  from race_needs_approval [OF this] obtain before t after where "re_turns sample_race_env = before @ t # after"
    "rt_hook t = ExitedWith 0 \<or> rt_password t = ExitedWith 0" by blast
  then show ?thesis by auto
qed


theorem race_returns_witness: "\<exists>v r. run_hook sample_race_env sample_sudo_context = Some (v, r) \<and> v \<in> {0, 1}"
proof (rule race_returns)
  show "\<exists>t \<in> set (re_turns sample_race_env). rt_interrupted t \<or> race_deadline sample_race_env \<le> rt_now t"
    by (simp add: sample_race_env_def)
qed (use sample_turn_ends in blast)

theorem sudo_runs_only_with_approval_witness:
  "\<exists>request device decision. map as_bytes (rq_argv request) = [as_bytes ''c''] \<and> dv_active device \<and>
     approval_proved (sample_host (ApproveNative sample_native_approval)) sample_hook decision request [1, 2] device"
proof -
  let ?X = "sample_host (ApproveNative sample_native_approval)"
  obtain ctx where g: "gather_context_after_open sample_command_info sample_run_argv None (Some sample_open_state) = (Some ctx, None)"
    by (rule sample_gathers)
  have check: "cmd_check ?X sample_facts (sample_run sample_hook) (\<lambda>_. False) (Some 2) (sc_payload ctx) (Stored (sample_state True 0)) =
      (Inr (), Stored (sample_state True 0))"
    unfolding cmd_check_def sample_built [OF g]
    by (simp add: PRIVATE_PLUGIN_HOOK_PROTOCOL_VERSION_def guarded_def APPROVAL_TIMEOUT_def sample_execution [OF sample_host_approves])
  have small: "length (entries sample_run_argv) < 2 ^ 32" "length (entries None) < 2 ^ 64"
    by (simp_all add: entries_def sample_run_argv_def)
  have code: "\<forall>t \<in> set (re_turns sample_race_env). \<forall>code. rt_hook t = ExitedWith code \<longrightarrow>
      code \<in> {hook_exit_code (fst (cmd_check ?X sample_facts (sample_run sample_hook) (\<lambda>_. False) (Some 2) (sc_payload ctx)
      (Stored (sample_state True 0)))), HOOK_EXEC_FAILED}"
    unfolding check by (auto simp: sample_race_env_def sample_race_turn_def hook_exit_code_def)
  have "sc_noninteractive ctx = False"
    using g by (auto simp: gather_context_after_open_def gather_context_def bind_eq_Some_conv Let_def sample_open_state_def)
  then obtain r where r: "run_hook sample_race_env ctx = Some (1, r)" using sample_race_approves by blast
  have no_password: "rt_password t \<noteq> ExitedWith 0" if "t \<in> set (re_turns sample_race_env)" for t
    using that by (auto simp: sample_race_env_def sample_race_turn_def)
  note proved = sudo_runs_only_with_approval [OF sample_opens g small code r]
  obtain request raw device decision n where q: "map as_bytes (rq_argv request) = entries sample_run_argv"
    "RequestV1_raw_json ?X request = Inr raw" "dv_active device"
    "approval_proved ?X (hr_env (sample_run sample_hook) n) decision request raw device"
    using proved no_password by blast
  have "raw = [1, 2]" using q(2) by (auto simp: RequestV1_raw_json_def result_simps split: if_splits)
  moreover have "entries sample_run_argv = [as_bytes ''c'']" by (simp add: entries_def sample_run_argv_def)
  ultimately show ?thesis using q unfolding sample_run_env by metis
qed

end
