(* ===== verification/Plugin_Password.thy ===== *)
theory Plugin_Password
  imports Plugin_Race
begin

text \<open>
  The password process of the sudo plugin (\<open>plugin/src/lib.rs\<close>): the reader of one line from the
  terminal with its buffer, deadline and erasing, and the \<open>pam\<close> module with the conversation PAM calls
  back, the sequence of PAM calls and the release of the library. The terminal answers one record per
  turn of the reading loop; the PAM library is an argument that sees every call made so far.
\<close>

definition PAM_SUCCESS :: int where "PAM_SUCCESS = 0"
definition PAM_CONV_ERR :: int where "PAM_CONV_ERR = 19"
definition PAM_PROMPT_ECHO_OFF :: int where "PAM_PROMPT_ECHO_OFF = 1"
definition PAM_PROMPT_ECHO_ON :: int where "PAM_PROMPT_ECHO_ON = 2"
definition PAM_ERROR_MSG :: int where "PAM_ERROR_MSG = 3"
definition PAM_TEXT_INFO :: int where "PAM_TEXT_INFO = 4"
definition PAM_TTY :: int where "PAM_TTY = 3"
definition PAM_RUSER :: int where "PAM_RUSER = 8"
definition PAM_SILENT :: int where "PAM_SILENT = 0x8000"

lemmas pam_constants = PAM_SUCCESS_def PAM_CONV_ERR_def PAM_PROMPT_ECHO_OFF_def PAM_PROMPT_ECHO_ON_def
  PAM_ERROR_MSG_def PAM_TEXT_INFO_def PAM_TTY_def PAM_RUSER_def PAM_SILENT_def

section \<open>Bytes\<close>

definition zeroize_bytes :: "bytes \<Rightarrow> bytes" where
  "zeroize_bytes bs = map (\<lambda>_. 0) bs"

text \<open>\<open>CString::new\<close> refuses an interior NUL; the result is kept without its terminator.\<close>

definition cstring_new :: "bytes \<Rightarrow> bytes option" where
  "cstring_new bs = (if 0 \<in> set bs then None else Some bs)"

definition byte_position :: "u8 \<Rightarrow> bytes \<Rightarrow> nat option" where
  "byte_position b bs = (if b \<in> set bs then Some (length (takeWhile (\<lambda>x. x \<noteq> b) bs)) else None)"

definition fallback_tty_name :: bytes where
  "fallback_tty_name = as_bytes ''/dev/tty''"

text \<open>The answer of \<open>ttyname_r\<close> and the buffer it filled.\<close>

definition resolve_tty_name :: "int \<times> bytes \<Rightarrow> bytes option" where
  "resolve_tty_name answer =
     (if fst answer \<noteq> 0 then None
      else Option.bind (byte_position 0 (snd answer)) (\<lambda>n. cstring_new (take n (snd answer))))"

section \<open>The PAM conversation\<close>

record ConversationData =
  cd_username :: bytes
  cd_password :: bytes

text \<open>One call of the callback: the count, the message styles (\<open>None\<close> for a null pointer), which pointers
  are there, and how the allocations end. On return: the status, the published array and what was freed.\<close>

record conv_call =
  cv_count :: int
  cv_messages :: "int option list option"
  cv_responses :: bool
  cv_data :: bool
  cv_calloc :: bool
  cv_malloc :: "nat \<Rightarrow> bool"

record conv_return =
  cr_code :: int
  cr_published :: "bytes option list option"
  cr_freed :: "bytes option list"

text \<open>Freeing overwrites a response up to its terminator.\<close>

definition erase_cstring :: "bytes \<Rightarrow> bytes" where
  "erase_cstring bs = zeroize_bytes (takeWhile (\<lambda>b. b \<noteq> 0) bs) @ dropWhile (\<lambda>b. b \<noteq> 0) bs"

definition free_responses :: "bytes option list \<Rightarrow> bytes option list" where
  "free_responses rs = map (map_option erase_cstring) rs"

text \<open>The loop over the messages: the responses so far on the left when it fails.\<close>

fun respond :: "ConversationData \<Rightarrow> (nat \<Rightarrow> bool) \<Rightarrow> nat \<Rightarrow> int option list \<Rightarrow> bytes option list
    \<Rightarrow> bytes option list + bytes option list" where
  "respond d malloc i [] done = Inr done"
| "respond d malloc i (m # ms) done =
     (case m of
        None \<Rightarrow> Inl done
      | Some style \<Rightarrow>
          if style \<in> {PAM_ERROR_MSG, PAM_TEXT_INFO} then respond d malloc (Suc i) ms (done @ [None])
          else if style \<notin> {PAM_PROMPT_ECHO_OFF, PAM_PROMPT_ECHO_ON} then Inl done
          else if \<not> malloc i then Inl done
          else respond d malloc (Suc i) ms
                 (done @ [Some (if style = PAM_PROMPT_ECHO_OFF then cd_password d else cd_username d @ [0])]))"

definition conversation :: "ConversationData \<Rightarrow> conv_call \<Rightarrow> conv_return" where
  "conversation d c =
     (let failed = (\<lambda>freed. \<lparr>cr_code = PAM_CONV_ERR, cr_published = None, cr_freed = freed\<rparr>) in
      if \<not> cv_responses c then failed []
      else if cv_count c \<le> 0 \<or> \<not> cv_data c then failed []
      else case cv_messages c of
        None \<Rightarrow> failed []
      | Some messages \<Rightarrow>
          if \<not> cv_count c \<le> 32 then failed []
          else if \<not> cv_calloc c then failed []
          else case respond d (cv_malloc c) 0 (take (nat (cv_count c)) messages) [] of
            Inl done \<Rightarrow> failed (free_responses done)
          | Inr rs \<Rightarrow> \<lparr>cr_code = PAM_SUCCESS, cr_published = Some rs, cr_freed = []\<rparr>)"

section \<open>The PAM calls\<close>

datatype libpam_call =
    PamStart bytes bytes
  | PamSetItem int bytes
  | PamAuthenticate int
  | PamAcctMgmt int
  | PamEnd int

datatype pam_event = LibraryOpened | PamCalled libpam_call | PasswordErased bytes | LibraryClosed

text \<open>Whether the library and its symbols are found, the answer to the last of the calls so far (it may
  use the conversation), and whether \<open>pam_start\<close> left a handle.\<close>

record pam_library =
  pl_open :: bool
  pl_symbol :: "string \<Rightarrow> bool"
  pl_answer :: "libpam_call list \<Rightarrow> (conv_call \<Rightarrow> conv_return) \<Rightarrow> int"
  pl_handle :: "libpam_call \<Rightarrow> bool"

definition pam_load :: "pam_library \<Rightarrow> bool \<times> pam_event list" where
  "pam_load lib =
     (if \<not> pl_open lib then (False, [])
      else if list_ex (\<lambda>name. \<not> pl_symbol lib name)
                [''pam_start'', ''pam_authenticate'', ''pam_acct_mgmt'', ''pam_set_item'', ''pam_end'']
      then (False, [LibraryOpened, LibraryClosed])
      else (True, [LibraryOpened]))"

text \<open>The calls made with a conversation, oldest first, and the verdict.\<close>

definition libpam_calls :: "pam_library \<Rightarrow> ConversationData \<Rightarrow> bytes \<Rightarrow> PasswordResult \<times> libpam_call list" where
  "libpam_calls lib data tty =
     (let call = (\<lambda>calls. pl_answer lib calls (conversation data));
          started = [PamStart (as_bytes ''sudo'') (cd_username data)];
          start = call started
      in if start \<noteq> PAM_SUCCESS
         then (PasswordRejected, if pl_handle lib (hd started) then started @ [PamEnd start] else started)
         else if \<not> pl_handle lib (hd started) then (PasswordRejected, started)
         else
         let tty_set = started @ [PamSetItem PAM_TTY tty];
             ruser_set = tty_set @ [PamSetItem PAM_RUSER (cd_username data)]
         in if call tty_set \<noteq> PAM_SUCCESS \<or> call ruser_set \<noteq> PAM_SUCCESS
            then (PasswordRejected, ruser_set @ [PamEnd PAM_CONV_ERR])
            else
            let asked = ruser_set @ [PamAuthenticate 0];
                auth = call asked;
                (account, calls) = (if auth = PAM_SUCCESS
                                    then (call (asked @ [PamAcctMgmt PAM_SILENT]), asked @ [PamAcctMgmt PAM_SILENT])
                                    else (auth, asked))
            in (if auth = PAM_SUCCESS \<and> account = PAM_SUCCESS then PasswordApproved else PasswordRejected,
                calls @ [PamEnd account]))"

definition plugin_authenticate :: "pam_library \<Rightarrow> string \<Rightarrow> bytes \<Rightarrow> bytes \<Rightarrow> PasswordResult \<times> pam_event list" where
  "plugin_authenticate lib username password tty =
     (let (loaded, events) = pam_load lib in
      if \<not> loaded then (PasswordUnavailable, events)
      else case cstring_new (as_bytes username) of
        None \<Rightarrow> (PasswordRejected, events @ [LibraryClosed])
      | Some user \<Rightarrow> (case cstring_new password of
          None \<Rightarrow> (PasswordRejected, events @ [LibraryClosed])
        | Some pass \<Rightarrow>
            let data = \<lparr>cd_username = user, cd_password = pass @ [0]\<rparr>;
                (result, calls) = libpam_calls lib data tty
            in (result, events @ map PamCalled calls
                  @ [PasswordErased (zeroize_bytes (cd_password data)), LibraryClosed])))"

text \<open>Enter alone skips the password.\<close>

definition authenticate_password_line ::
    "string \<Rightarrow> bytes \<Rightarrow> (string \<Rightarrow> bytes \<Rightarrow> PasswordResult option \<times> pam_event list) \<Rightarrow> PasswordResult option \<times> pam_event list" where
  "authenticate_password_line username password auth =
     (if password = [] then (Some PasswordUnavailable, []) else auth username password)"

section \<open>Reading the line\<close>

text \<open>The parent cancels the process with \<open>SIGTERM\<close>, which has its default action here: the process is gone at once and
  none of its code runs any more. A run that ends that way, or for which no further turn is given, is on the left,
  with the state of its memory at that moment; a run that returns is on the right.\<close>

datatype poll_answer = PollInterrupted | PollFailed | Polled bool

text \<open>One turn: the time, the answer of \<open>poll\<close> (whether the terminal is readable or hung up), and what the
  terminal then holds, \<open>None\<close> for a failing \<open>read\<close>.\<close>

record tty_turn =
  tt_now :: nat
  tt_poll :: poll_answer
  tt_read :: "bytes option"

datatype tty_action =
    WriteTty bytes
  | WriteReady u8
  | PollFor nat
  | PamDid pam_event
  | CloseTty
  | RestoreTty bool

record password_reader =
  pr_input :: bytes
  pr_chunk :: bytes
  pr_open :: bool
  pr_flush :: bool
  pr_log :: "tty_action list"

definition did :: "tty_action list \<Rightarrow> password_reader \<Rightarrow> password_reader" where
  "did acts r = r\<lparr>pr_log := pr_log r @ acts\<rparr>"

definition give_up :: "password_reader \<Rightarrow> password_reader" where
  "give_up r = r\<lparr>pr_input := zeroize_bytes (pr_input r), pr_flush := True\<rparr>"

text \<open>The terminal file is closed here, before the guard runs. No result is the end of the process while PAM had the line.\<close>

definition finish_line ::
    "(bytes \<Rightarrow> PasswordResult option \<times> pam_event list) \<Rightarrow> nat \<Rightarrow> password_reader \<Rightarrow> password_reader + (PasswordResult \<times> password_reader)" where
  "finish_line auth end_at r =
     (let r = did [WriteReady 0] r;
          password_end = (if 0 < end_at \<and> pr_input r ! (end_at - 1) = 0x0D then end_at - 1 else end_at);
          password = take password_end (pr_input r);
          (judged, events, flush) = (if 0 \<in> set password then (Some PasswordRejected, [], True)
                                     else case auth password of (judged, events) \<Rightarrow> (judged, events, pr_flush r));
          r = did (map PamDid events) (r\<lparr>pr_flush := flush\<rparr>)
      in case judged of
           None \<Rightarrow> Inl r
         | Some result \<Rightarrow>
             let r = r\<lparr>pr_input := zeroize_bytes (pr_input r)\<rparr>
             in Inr (result, (did [WriteTty [0x0A], CloseTty] r)\<lparr>pr_open := False\<rparr>))"

fun read_password_loop ::
    "tty_turn list \<Rightarrow> nat \<Rightarrow> (bytes \<Rightarrow> PasswordResult option \<times> pam_event list) \<Rightarrow> password_reader
     \<Rightarrow> password_reader + (PasswordResult \<times> password_reader)" where
  "read_password_loop [] deadline auth r = Inl r"
| "read_password_loop (t # ts) deadline auth r =
     (let remaining = deadline - tt_now t in
      if remaining = 0 then Inr (PasswordUnavailable, give_up r)
      else
      let r = did [PollFor (min remaining 100)] r in
      case tt_poll t of
        PollInterrupted \<Rightarrow> read_password_loop ts deadline auth r
      | PollFailed \<Rightarrow> Inr (PasswordUnavailable, give_up r)
      | Polled readable \<Rightarrow>
          if \<not> readable then read_password_loop ts deadline auth r
          else (case map_option (take 256) (tt_read t) of
            None \<Rightarrow> Inr (PasswordUnavailable, give_up r)
          | Some [] \<Rightarrow> Inr (PasswordUnavailable, give_up r)
          | Some chunk \<Rightarrow>
              if length chunk > 4096 - length (pr_input r)
              then Inr (PasswordRejected, give_up (r\<lparr>pr_chunk := zeroize_bytes chunk\<rparr>))
              else
              let r = r\<lparr>pr_input := pr_input r @ chunk, pr_chunk := zeroize_bytes chunk\<rparr> in
              case byte_position 0x0A (pr_input r) of
                None \<Rightarrow> read_password_loop ts deadline auth r
              | Some end_at \<Rightarrow> finish_line auth end_at r))"

text \<open>The guard restores the terminal through its descriptor; on a closed one the calls fail unnoticed.\<close>

definition drop_tty_guard :: "password_reader \<Rightarrow> password_reader" where
  "drop_tty_guard r = (if pr_open r then did [RestoreTty (pr_flush r)] r else r)"

record password_env =
  pe_ttyname :: "int \<times> bytes"
  pe_prompt_written :: bool
  pe_now :: nat
  pe_turns :: "tty_turn list"
  pe_pam :: pam_library
  pe_killed :: "nat option"

text \<open>\<open>pe_killed\<close>: after how many of the steps of the PAM module the signal arrives, if it arrives while PAM has the line.\<close>

definition authenticate_with_pam :: "password_env \<Rightarrow> bytes \<Rightarrow> string \<Rightarrow> bytes \<Rightarrow> PasswordResult option \<times> pam_event list" where
  "authenticate_with_pam env tty username password =
     (let (result, events) = plugin_authenticate (pe_pam env) username password tty
      in case pe_killed env of
           None \<Rightarrow> (Some result, events)
         | Some n \<Rightarrow> if n \<le> length events then (None, take n events) else (Some result, events))"

definition read_and_authenticate_password :: "password_env \<Rightarrow> string \<Rightarrow> password_reader + (PasswordResult \<times> password_reader)" where
  "read_and_authenticate_password env username =
     (let tty_name = (case resolve_tty_name (pe_ttyname env) of None \<Rightarrow> fallback_tty_name | Some name \<Rightarrow> name);
          r = \<lparr>pr_input = [], pr_chunk = [], pr_open = True, pr_flush = False,
               pr_log = [WriteTty (password_prompt username)]\<rparr>
      in map_sum id (\<lambda>(result, r). (result, drop_tty_guard r))
           (if \<not> pe_prompt_written env then Inr (PasswordUnavailable, r\<lparr>pr_flush := True\<rparr>)
            else read_password_loop (pe_turns env) (pe_now env + PASSWORD_RACE_TIMEOUT)
                   (\<lambda>password. authenticate_password_line username password (authenticate_with_pam env tty_name))
                   (did [WriteReady 1] r)))"

fun password_exit_code :: "PasswordResult \<Rightarrow> int" where
  "password_exit_code PasswordApproved = 0"
| "password_exit_code PasswordRejected = 1"
| "password_exit_code PasswordUnavailable = 2"
| "password_exit_code PasswordFailed = 3"

section \<open>Erasing\<close>

definition blank :: "bytes \<Rightarrow> bool" where
  "blank bs \<longleftrightarrow> list_all (\<lambda>b. b = 0) bs"

lemma blank_simps [simp]:
  "blank []" "blank (zeroize_bytes bs)" "blank (as @ bs) \<longleftrightarrow> blank as \<and> blank bs" "blank (b # bs) \<longleftrightarrow> b = 0 \<and> blank bs"
  "length (zeroize_bytes bs) = length bs"
  by (auto simp: blank_def zeroize_bytes_def list_all_iff)

lemma erase_cstring_blank:
  assumes "0 \<notin> set bs"
  shows "blank (erase_cstring (bs @ [0]))"
proof -
  have "takeWhile (\<lambda>b. b \<noteq> 0) (bs @ [0]) = bs" "dropWhile (\<lambda>b. b \<noteq> 0) (bs @ [0]) = [0]"
    using assms by (induction bs) auto
  then show ?thesis by (simp add: erase_cstring_def)
qed

lemma byte_position_Some: "byte_position b bs = Some n \<longleftrightarrow> b \<in> set bs \<and> n = length (takeWhile (\<lambda>x. x \<noteq> b) bs)"
  by (auto simp: byte_position_def)

lemma resolve_tty_name_clean: "resolve_tty_name answer = Some name \<Longrightarrow> 0 \<notin> set name"
  by (auto simp: resolve_tty_name_def cstring_new_def bind_eq_Some_conv split: if_splits)

section \<open>What the conversation hands out\<close>

definition reply :: "ConversationData \<Rightarrow> int option \<Rightarrow> bytes option" where
  "reply d m = (if m = Some PAM_PROMPT_ECHO_OFF then Some (cd_password d)
     else if m = Some PAM_PROMPT_ECHO_ON then Some (cd_username d @ [0]) else None)"

text \<open>A message the callback can serve: a known style, with memory for the answer of a prompt.\<close>

definition servable :: "(nat \<Rightarrow> bool) \<Rightarrow> nat \<Rightarrow> int option \<Rightarrow> bool" where
  "servable malloc i m \<longleftrightarrow> m \<in> {Some PAM_ERROR_MSG, Some PAM_TEXT_INFO} \<or>
     m \<in> {Some PAM_PROMPT_ECHO_OFF, Some PAM_PROMPT_ECHO_ON} \<and> malloc i"

lemma respond_step:
  "respond d malloc i (m # ms) done =
     (if servable malloc i m then respond d malloc (Suc i) ms (done @ [reply d m]) else Inl done)"
  by (cases m) (auto simp: servable_def reply_def pam_constants)

declare respond.simps(2) [simp del]

lemma all_less_Suc: "(\<forall>k < Suc n. P k) \<longleftrightarrow> P 0 \<and> (\<forall>k < n. P (Suc k))"
  by (auto simp: less_Suc_eq_0_disj)

lemma respond_Inr:
  "respond d malloc i ms done = Inr rs \<longleftrightarrow>
     (\<forall>k < length ms. servable malloc (i + k) (ms ! k)) \<and> rs = done @ map (reply d) ms"
  by (induction ms arbitrary: i "done") (auto simp: respond_step all_less_Suc)

lemma respond_Inl:
  "respond d malloc i ms done = Inl out \<Longrightarrow> \<exists>k. out = done @ map (reply d) (take k ms)"
proof (induction ms arbitrary: i "done")
  case (Cons m ms)
  show ?case
  proof (cases "servable malloc i m")
    case True
    with Cons(2) have "respond d malloc (Suc i) ms (done @ [reply d m]) = Inl out" by (simp add: respond_step)
    from Cons.IH [OF this] obtain k where "out = (done @ [reply d m]) @ map (reply d) (take k ms)" by blast
    then show ?thesis by (intro exI [of _ "Suc k"]) simp
  next
    case False
    with Cons(2) show ?thesis by (intro exI [of _ 0]) (simp add: respond_step)
  qed
qed simp

definition conversation_ok :: "conv_call \<Rightarrow> bool" where
  "conversation_ok c \<longleftrightarrow> cv_responses c \<and> cv_data c \<and> 0 < cv_count c \<and> cv_count c \<le> 32 \<and> cv_calloc c \<and>
     (\<exists>ms. cv_messages c = Some ms \<and>
        (\<forall>k < length (take (nat (cv_count c)) ms). servable (cv_malloc c) k (ms ! k)))"

lemma conversation_cases:
  "conversation_ok c \<and> conversation d c = \<lparr>cr_code = PAM_SUCCESS,
      cr_published = Some (map (reply d) (take (nat (cv_count c)) (the (cv_messages c)))), cr_freed = []\<rparr> \<or>
   \<not> conversation_ok c \<and> (\<exists>ms. conversation d c = \<lparr>cr_code = PAM_CONV_ERR, cr_published = None,
      cr_freed = free_responses (map (reply d) ms)\<rparr>)"
proof (cases "cv_responses c \<and> cv_data c \<and> 0 < cv_count c \<and> cv_count c \<le> 32 \<and> cv_calloc c \<and> cv_messages c \<noteq> None")
  case False
  then have "conversation d c = \<lparr>cr_code = PAM_CONV_ERR, cr_published = None, cr_freed = free_responses (map (reply d) [])\<rparr>"
    by (auto simp: conversation_def free_responses_def split: option.split)
  moreover have "\<not> conversation_ok c" using False by (auto simp: conversation_ok_def)
  ultimately show ?thesis by blast
next
  case True
  then obtain ms where ms: "cv_messages c = Some ms" by blast
  let ?ms = "take (nat (cv_count c)) ms"
  have ok: "conversation_ok c \<longleftrightarrow> (\<forall>k < length ?ms. servable (cv_malloc c) (0 + k) (?ms ! k))"
    using True ms by (simp add: conversation_ok_def)
  have body: "conversation d c = (case respond d (cv_malloc c) 0 ?ms [] of
      Inl done \<Rightarrow> \<lparr>cr_code = PAM_CONV_ERR, cr_published = None, cr_freed = free_responses done\<rparr>
    | Inr rs \<Rightarrow> \<lparr>cr_code = PAM_SUCCESS, cr_published = Some rs, cr_freed = []\<rparr>)"
    using True ms by (simp add: conversation_def)
  show ?thesis
  proof (cases "respond d (cv_malloc c) 0 ?ms []")
    case (Inl out)
    then have "\<not> conversation_ok c" unfolding ok using respond_Inr [of d "cv_malloc c" 0 ?ms "[]" "map (reply d) ?ms"] by auto
    moreover obtain k where "out = map (reply d) (take k ?ms)" using respond_Inl [OF Inl] by auto
    ultimately show ?thesis unfolding body using Inl by auto
  next
    case (Inr rs)
    then have "conversation_ok c" "rs = map (reply d) ?ms" unfolding ok respond_Inr by auto
    then show ?thesis unfolding body using Inr ms by simp
  qed
qed

text \<open>the PAM callback. With the data the plugin builds, it succeeds exactly for one to 32 messages of known
  styles for which memory was found; then it publishes one response per message, the password for hidden
  prompts, the user name for visible ones and nothing for texts. Whenever it fails it publishes nothing and
  every response it had already copied was overwritten before it was freed.\<close>

theorem conversation_answers_or_erases:
  assumes "0 \<notin> set user" "0 \<notin> set password"
    and "d = \<lparr>cd_username = user, cd_password = password @ [0]\<rparr>"
  shows "if conversation_ok c
    then cr_code (conversation d c) = PAM_SUCCESS \<and> cr_freed (conversation d c) = [] \<and>
         cr_published (conversation d c) = Some (map (reply d) (take (nat (cv_count c)) (the (cv_messages c))))
    else cr_code (conversation d c) = PAM_CONV_ERR \<and> cr_published (conversation d c) = None \<and>
         list_all (pred_option blank) (cr_freed (conversation d c))"
proof -
  have "pred_option blank (map_option erase_cstring (reply d m))" for m
    using assms by (auto simp: reply_def erase_cstring_blank)
  then have "list_all (pred_option blank) (free_responses (map (reply d) ms))" for ms
    by (simp add: free_responses_def list_all_iff)
  with conversation_cases [of c d] show ?thesis by auto
qed

section \<open>What PAM is asked\<close>

text \<open>The calls of a successful authentication, in order.\<close>

definition full_calls :: "bytes \<Rightarrow> bytes \<Rightarrow> libpam_call list" where
  "full_calls user tty = [PamStart (as_bytes ''sudo'') user, PamSetItem PAM_TTY tty, PamSetItem PAM_RUSER user,
     PamAuthenticate 0, PamAcctMgmt PAM_SILENT]"

text \<open>PAM accepted: a handle, and success after each prefix of these calls.\<close>

definition pam_accepts :: "pam_library \<Rightarrow> ConversationData \<Rightarrow> bytes \<Rightarrow> bool" where
  "pam_accepts lib data tty \<longleftrightarrow>
     pl_handle lib (PamStart (as_bytes ''sudo'') (cd_username data)) \<and>
     (\<forall>n \<in> {1..5}. pl_answer lib (take n (full_calls (cd_username data) tty)) (conversation data) = PAM_SUCCESS)"

lemma one_to_five: "(\<forall>n \<in> {1..5 :: nat}. P n) \<longleftrightarrow> P 1 \<and> P 2 \<and> P 3 \<and> P 4 \<and> P 5"
proof -
  have "{1..5 :: nat} = {1, 2, 3, 4, 5}" by auto
  then show ?thesis by simp
qed

lemma pam_accepts_steps:
  fixes data :: ConversationData and lib :: pam_library
  defines "u \<equiv> cd_username data" and "ask \<equiv> \<lambda>calls. pl_answer lib calls (conversation data)"
  shows "pam_accepts lib data tty \<longleftrightarrow>
    pl_handle lib (PamStart (as_bytes ''sudo'') u) \<and>
    ask [PamStart (as_bytes ''sudo'') u] = PAM_SUCCESS \<and>
    ask [PamStart (as_bytes ''sudo'') u, PamSetItem PAM_TTY tty] = PAM_SUCCESS \<and>
    ask [PamStart (as_bytes ''sudo'') u, PamSetItem PAM_TTY tty, PamSetItem PAM_RUSER u] = PAM_SUCCESS \<and>
    ask [PamStart (as_bytes ''sudo'') u, PamSetItem PAM_TTY tty, PamSetItem PAM_RUSER u, PamAuthenticate 0] = PAM_SUCCESS \<and>
    ask (full_calls u tty) = PAM_SUCCESS"
  unfolding pam_accepts_def one_to_five u_def ask_def full_calls_def by (simp add: numeral_eq_Suc)

lemma libpam_calls_verdict:
  "fst (libpam_calls lib data tty) = (if pam_accepts lib data tty then PasswordApproved else PasswordRejected)"
  unfolding pam_accepts_steps by (simp add: libpam_calls_def Let_def full_calls_def)

lemma libpam_calls_shape:
  "\<exists>n st. 0 < n \<and> n \<le> 5 \<and> (pam_accepts lib data tty \<longrightarrow> n = 5 \<and> st = PAM_SUCCESS) \<and>
     snd (libpam_calls lib data tty) = take n (full_calls (cd_username data) tty) @
       (if pl_handle lib (PamStart (as_bytes ''sudo'') (cd_username data)) then [PamEnd st] else [])"
proof -
  let ?u = "cd_username data"
  let ?ask = "\<lambda>n. pl_answer lib (take n (full_calls ?u tty)) (conversation data)"
  let ?handle = "pl_handle lib (PamStart (as_bytes ''sudo'') ?u)"
  have unfolded: "snd (libpam_calls lib data tty) =
      (if ?ask 1 \<noteq> PAM_SUCCESS \<or> \<not> ?handle then take 1 (full_calls ?u tty) @ (if ?handle then [PamEnd (?ask 1)] else [])
       else if ?ask 2 \<noteq> PAM_SUCCESS \<or> ?ask 3 \<noteq> PAM_SUCCESS then take 3 (full_calls ?u tty) @ [PamEnd PAM_CONV_ERR]
       else if ?ask 4 \<noteq> PAM_SUCCESS then take 4 (full_calls ?u tty) @ [PamEnd (?ask 4)]
       else take 5 (full_calls ?u tty) @ [PamEnd (?ask 5)])"
    by (simp add: libpam_calls_def Let_def full_calls_def numeral_eq_Suc)
  have "pam_accepts lib data tty \<longleftrightarrow> ?handle \<and> ?ask 1 = PAM_SUCCESS \<and> ?ask 2 = PAM_SUCCESS \<and> ?ask 3 = PAM_SUCCESS \<and>
      ?ask 4 = PAM_SUCCESS \<and> ?ask 5 = PAM_SUCCESS"
    unfolding pam_accepts_def one_to_five by blast
  then consider "?ask 1 \<noteq> PAM_SUCCESS \<or> \<not> ?handle" "\<not> pam_accepts lib data tty"
    | "?ask 1 = PAM_SUCCESS" "?handle" "?ask 2 \<noteq> PAM_SUCCESS \<or> ?ask 3 \<noteq> PAM_SUCCESS" "\<not> pam_accepts lib data tty"
    | "?ask 1 = PAM_SUCCESS" "?handle" "?ask 2 = PAM_SUCCESS" "?ask 3 = PAM_SUCCESS" "?ask 4 \<noteq> PAM_SUCCESS" "\<not> pam_accepts lib data tty"
    | "?ask 1 = PAM_SUCCESS" "?handle" "?ask 2 = PAM_SUCCESS" "?ask 3 = PAM_SUCCESS" "?ask 4 = PAM_SUCCESS"
        "pam_accepts lib data tty \<longrightarrow> ?ask 5 = PAM_SUCCESS" by blast
  then show ?thesis
  proof cases
    case 1
    then show ?thesis unfolding unfolded by (intro exI [of _ 1] exI [of _ "?ask 1"]) simp
  next
    case 2
    then show ?thesis unfolding unfolded by (intro exI [of _ 3] exI [of _ PAM_CONV_ERR]) simp
  next
    case 3
    then show ?thesis unfolding unfolded by (intro exI [of _ 4] exI [of _ "?ask 4"]) simp
  next
    case 4
    then show ?thesis unfolding unfolded by (intro exI [of _ 5] exI [of _ "?ask 5"]) simp
  qed
qed

definition password_data :: "string \<Rightarrow> bytes \<Rightarrow> ConversationData" where
  "password_data username password = \<lparr>cd_username = as_bytes username, cd_password = password @ [0]\<rparr>"

lemma plugin_authenticate_cases:
  obtains (unloaded) "\<not> fst (pam_load lib)" "plugin_authenticate lib username password tty = (PasswordUnavailable, snd (pam_load lib))"
  | (nul) "fst (pam_load lib)" "0 \<in> set (as_bytes username) \<union> set password"
      "plugin_authenticate lib username password tty = (PasswordRejected, [LibraryOpened, LibraryClosed])"
  | (called) "fst (pam_load lib)" "0 \<notin> set (as_bytes username) \<union> set password"
      "plugin_authenticate lib username password tty = (fst (libpam_calls lib (password_data username password) tty),
         LibraryOpened # map PamCalled (snd (libpam_calls lib (password_data username password) tty))
         @ [PasswordErased (zeroize_bytes (password @ [0])), LibraryClosed])"
proof (cases "fst (pam_load lib)")
  case False
  then show ?thesis by (intro unloaded) (auto simp: plugin_authenticate_def split: prod.split)
next
  case loaded: True
  then have load: "pam_load lib = (True, [LibraryOpened])" by (auto simp: pam_load_def split: if_splits)
  show ?thesis
  proof (cases "0 \<in> set (as_bytes username) \<union> set password")
    case True
    then show ?thesis using loaded load by (intro nul) (auto simp: plugin_authenticate_def cstring_new_def)
  next
    case False
    then show ?thesis using loaded load
      by (intro called) (auto simp: plugin_authenticate_def cstring_new_def password_data_def split: prod.split)
  qed
qed

text \<open>C21: a password is accepted exactly when PAM accepts it, and PAM is always released. The verdict is an
  approval if and only if the library loaded, neither text holds a NUL, and start, both items, authentication
  and account management for service \<open>sudo\<close> all succeeded; every other run is a rejection, or no answer when
  there is no library. In every run the calls are a prefix of that sequence, ended exactly once and last when
  there is a handle; an opened library is closed last, after the copy of the password was overwritten.\<close>

theorem password_needs_every_pam_step:
  "\<exists>n st. let (result, events) = plugin_authenticate lib username password tty;
      accepted = (fst (pam_load lib) \<and> 0 \<notin> set (as_bytes username) \<union> set password \<and> pam_accepts lib (password_data username password) tty)
    in (result = PasswordApproved \<longleftrightarrow> accepted) \<and>
       (result = PasswordUnavailable \<longleftrightarrow> \<not> fst (pam_load lib)) \<and> result \<noteq> PasswordFailed \<and>
       (accepted \<longrightarrow> n = 5 \<and> st = PAM_SUCCESS) \<and>
       events \<in> {[], [LibraryOpened, LibraryClosed],
         LibraryOpened # map PamCalled (take n (full_calls (as_bytes username) tty) @
           (if pl_handle lib (PamStart (as_bytes ''sudo'') (as_bytes username)) then [PamEnd st] else []))
         @ [PasswordErased (zeroize_bytes (password @ [0])), LibraryClosed]}"
proof (cases rule: plugin_authenticate_cases [of lib username password tty])
  case unloaded
  moreover have "snd (pam_load lib) \<in> {[], [LibraryOpened, LibraryClosed]}" if "\<not> fst (pam_load lib)"
    using that by (auto simp: pam_load_def split: if_splits)
  ultimately show ?thesis by auto
next
  case nul
  then show ?thesis by simp
next
  case called
  let ?data = "password_data username password"
  obtain n st where n: "pam_accepts lib ?data tty \<longrightarrow> n = 5 \<and> st = PAM_SUCCESS"
      "snd (libpam_calls lib ?data tty) = take n (full_calls (cd_username ?data) tty) @
       (if pl_handle lib (PamStart (as_bytes ''sudo'') (cd_username ?data)) then [PamEnd st] else [])"
    using libpam_calls_shape by blast
  show ?thesis
    by (intro exI [of _ n] exI [of _ st])
       (use called(1,2) n in \<open>simp add: called(3) libpam_calls_verdict password_data_def\<close>)
qed

section \<open>One line from the terminal\<close>

text \<open>The bytes a turn hands over, and the line a stream of bytes starts with.\<close>

definition delivered :: "tty_turn \<Rightarrow> bytes" where
  "delivered t = (if tt_poll t = Polled True then take 256 (case tt_read t of None \<Rightarrow> [] | Some bs \<Rightarrow> bs) else [])"

definition typed_line :: "bytes \<Rightarrow> bytes" where
  "typed_line bs = (let line = takeWhile (\<lambda>b. b \<noteq> 0x0A) bs in if line \<noteq> [] \<and> last line = 0x0D then butlast line else line)"

definition received :: "tty_turn list \<Rightarrow> bytes" where
  "received ts = concat (map delivered ts)"

lemma password_is_typed_line:
  assumes "byte_position 0x0A bs = Some n"
  shows "take (if 0 < n \<and> bs ! (n - 1) = 0x0D then n - 1 else n) bs = typed_line bs"
proof -
  define line where "line = takeWhile (\<lambda>b. b \<noteq> 0x0A) bs"
  have n: "n = length line" using assms by (simp add: byte_position_Some line_def)
  have line: "take n bs = line" unfolding n line_def by (metis takeWhile_eq_take)
  show ?thesis
  proof (cases "line = []")
    case True
    then show ?thesis using n by (simp add: typed_line_def flip: line_def)
  next
    case False
    then have pos: "0 < n" using n by simp
    have "bs ! (n - 1) = last line"
      using pos n line False by (metis diff_less last_conv_nth nth_take zero_less_one)
    moreover have "take (n - 1) bs = butlast line" using pos line by (metis butlast_take diff_le_self n length_takeWhile_le line_def)
    ultimately show ?thesis using pos line False by (simp add: typed_line_def flip: line_def)
  qed
qed

definition reading :: "password_reader \<Rightarrow> bool" where
  "reading r \<longleftrightarrow> length (pr_input r) \<le> 4096 \<and> blank (pr_chunk r) \<and> pr_open r \<and> \<not> pr_flush r \<and> 0x0A \<notin> set (pr_input r)"

lemma did_simps [simp]:
  "pr_input (did as r) = pr_input r" "pr_chunk (did as r) = pr_chunk r" "pr_open (did as r) = pr_open r"
  "pr_flush (did as r) = pr_flush r" "pr_log (did as r) = pr_log r @ as" "reading (did as r) = reading r"
  by (simp_all add: did_def reading_def)

text \<open>How the loop ends: it gives up, or a line is complete after the turns \<open>seen\<close>, all in time.\<close>

definition gave_up :: "PasswordResult \<Rightarrow> password_reader \<Rightarrow> bool" where
  "gave_up result r \<longleftrightarrow> result \<in> {PasswordUnavailable, PasswordRejected} \<and> blank (pr_input r) \<and> blank (pr_chunk r) \<and>
     length (pr_input r) \<le> 4096 \<and> pr_open r \<and> pr_flush r"

definition polls :: "nat \<Rightarrow> tty_turn list \<Rightarrow> tty_action list" where
  "polls deadline ts = map (\<lambda>t. PollFor (min (deadline - tt_now t) 100)) ts"

text \<open>A turn in time in which neither \<open>poll\<close> nor \<open>read\<close> failed.\<close>

definition usable :: "nat \<Rightarrow> tty_turn \<Rightarrow> bool" where
  "usable deadline t \<longleftrightarrow> tt_now t < deadline \<and> tt_poll t \<noteq> PollFailed \<and> (tt_poll t = Polled True \<longrightarrow> delivered t \<noteq> [])"

definition got_line :: "nat \<Rightarrow> (bytes \<Rightarrow> PasswordResult option \<times> pam_event list) \<Rightarrow> password_reader \<Rightarrow> tty_turn list
    \<Rightarrow> PasswordResult \<Rightarrow> password_reader \<Rightarrow> bool" where
  "got_line deadline auth r seen result r' \<longleftrightarrow>
     (\<forall>t \<in> set seen. usable deadline t) \<and>
     (let input = pr_input r @ received seen; password = typed_line input; nul = (0 \<in> set password) in
      0x0A \<in> set input \<and> length input \<le> 4096 \<and>
      Some result = (if nul then Some PasswordRejected else fst (auth password)) \<and>
      pr_input r' = zeroize_bytes input \<and> blank (pr_chunk r') \<and> \<not> pr_open r' \<and> pr_flush r' = nul \<and>
      pr_log r' = pr_log r @ polls deadline seen @ [WriteReady 0]
        @ map PamDid (if nul then [] else snd (auth password)) @ [WriteTty [0x0A], CloseTty])"

text \<open>How it ends without returning: the turns are over, or PAM had the line when the signal arrived.\<close>

definition cut_off :: "nat \<Rightarrow> (bytes \<Rightarrow> PasswordResult option \<times> pam_event list) \<Rightarrow> password_reader \<Rightarrow> tty_turn list \<Rightarrow> tty_turn list
    \<Rightarrow> password_reader \<Rightarrow> bool" where
  "cut_off deadline auth r seen rest r' \<longleftrightarrow>
     (\<forall>t \<in> set seen. usable deadline t) \<and> pr_input r' = pr_input r @ received seen \<and> length (pr_input r') \<le> 4096 \<and>
     (if 0x0A \<in> set (pr_input r') then fst (auth (typed_line (pr_input r'))) = None else rest = [])"

lemma finish_line_got:
  assumes "byte_position 0x0A (pr_input r) = Some n" "pr_open r" "\<not> pr_flush r"
  shows "finish_line auth n r =
    (let input = pr_input r; password = typed_line input; nul = (0 \<in> set password) in
     case (if nul then Some PasswordRejected else fst (auth password)) of
       None \<Rightarrow> Inl (did (WriteReady 0 # map PamDid (snd (auth password))) r)
     | Some result \<Rightarrow> Inr (result,
      \<lparr>pr_input = zeroize_bytes input, pr_chunk = pr_chunk r, pr_open = False, pr_flush = nul,
       pr_log = pr_log r @ [WriteReady 0] @ map PamDid (if nul then [] else snd (auth password)) @ [WriteTty [0x0A], CloseTty]\<rparr>))"
proof -
  have "take (if 0 < n \<and> pr_input r ! (n - 1) = 0x0D then n - 1 else n) (pr_input r) = typed_line (pr_input r)"
    by (rule password_is_typed_line) (rule assms)
  then show ?thesis using assms(2,3)
    by (cases r, cases "auth (typed_line (pr_input r))") (simp add: finish_line_def Let_def did_def split: option.split)
qed
lemma give_up_gave_up:
  assumes "reading r"
  shows "gave_up PasswordUnavailable (give_up r)" "gave_up PasswordRejected (give_up r)"
  using assms by (simp_all add: reading_def gave_up_def give_up_def)

text \<open>A turn ends the loop by giving up, or adds what it delivers to the input.\<close>

lemma read_password_step:
  assumes "reading r"
  obtains (stop) result r' where "read_password_loop (t # ts) deadline auth r = Inr (result, r')" "gave_up result r'"
      "usable deadline t \<longrightarrow> 4096 < length (pr_input r @ delivered t)"
  | (more) r1 where "usable deadline t" "pr_input r1 = pr_input r @ delivered t" "pr_log r1 = pr_log r @ polls deadline [t]"
      "pr_open r1" "\<not> pr_flush r1" "blank (pr_chunk r1)" "length (pr_input r1) \<le> 4096"
      "read_password_loop (t # ts) deadline auth r =
         (case byte_position 0x0A (pr_input r1) of None \<Rightarrow> read_password_loop ts deadline auth r1
          | Some n \<Rightarrow> finish_line auth n r1)"
proof -
  let ?r = "did [PollFor (min (deadline - tt_now t) 100)] r"
  have r: "reading ?r" using assms by simp
  have facts: "blank (pr_chunk r)" "length (pr_input r) \<le> 4096" "byte_position 0x0A (pr_input r) = None" "pr_open r" "\<not> pr_flush r"
    using assms by (auto simp: reading_def byte_position_def)
  consider (late) "deadline \<le> tt_now t" | (failed) "tt_now t < deadline" "tt_poll t = PollFailed"
    | (idle) "tt_now t < deadline" "tt_poll t \<in> {PollInterrupted, Polled False}"
    | (data) "tt_now t < deadline" "tt_poll t = Polled True"
    by (cases "tt_poll t") (auto simp: not_le [symmetric])
  then show ?thesis
  proof cases
    case late
    then show ?thesis using give_up_gave_up [OF assms] by (intro stop) (simp_all add: usable_def)
  next
    case failed
    then show ?thesis using give_up_gave_up [OF r] by (intro stop) (simp_all add: usable_def)
  next
    case idle
    then have "delivered t = []" "read_password_loop (t # ts) deadline auth r = read_password_loop ts deadline auth ?r"
      by (auto simp: delivered_def)
    moreover have "usable deadline t" using idle by (auto simp: usable_def)
    ultimately show ?thesis using facts by (intro more [of ?r]) (simp_all add: polls_def)
  next
    case data
    show ?thesis
    proof (cases "delivered t = []")
      case True
      with data have "tt_read t \<in> {None, Some []}" by (auto simp: delivered_def split: option.splits)
      then show ?thesis using data True give_up_gave_up [OF r] by (intro stop) (auto simp: usable_def)
    next
      case False
      obtain z y ys where some: "tt_read t = Some z" "take 256 z = y # ys" and bs: "delivered t = y # ys"
        using False data by (auto simp: delivered_def neq_Nil_conv split: option.splits)
      let ?r1 = "?r\<lparr>pr_input := pr_input r @ delivered t, pr_chunk := zeroize_bytes (delivered t)\<rparr>"
      have body: "read_password_loop (t # ts) deadline auth r =
          (if length (delivered t) > 4096 - length (pr_input ?r)
           then Inr (PasswordRejected, give_up (?r\<lparr>pr_chunk := zeroize_bytes (delivered t)\<rparr>))
           else case byte_position 0x0A (pr_input ?r1) of
               None \<Rightarrow> read_password_loop ts deadline auth ?r1
             | Some end_at \<Rightarrow> finish_line auth end_at ?r1)"
        unfolding bs using data some by (simp add: Let_def)
      show ?thesis
      proof (cases "length (delivered t) > 4096 - length (pr_input ?r)")
        case True
        have "reading (?r\<lparr>pr_chunk := zeroize_bytes (delivered t)\<rparr>)" using r by (simp add: reading_def)
        then show ?thesis using True body give_up_gave_up
          by (intro stop) (auto simp del: read_password_loop.simps)
      next
        case fits: False
        moreover have "usable deadline t" using data False by (simp add: usable_def)
        ultimately show ?thesis using body facts
          by (intro more [of ?r1]) (simp_all add: polls_def del: read_password_loop.simps)
      qed
    qed
  qed
qed

declare read_password_loop.simps(2) [simp del]

lemma read_password_result:
  assumes "reading r" "read_password_loop ts deadline auth r = Inr (result, r')"
  shows "gave_up result r' \<or> (\<exists>seen rest. ts = seen @ rest \<and> got_line deadline auth r seen result r')"
  using assms
proof (induction ts arbitrary: r)
  case (Cons t ts)
  from Cons.prems(1) show ?case
  proof (cases rule: read_password_step [of r t ts deadline auth])
    case stop
    then show ?thesis using Cons.prems(2) by auto
  next
    case (more r1)
    show ?thesis
    proof (cases "byte_position 0x0A (pr_input r1)")
      case None
      then have r1: "reading r1" using more by (simp add: reading_def byte_position_def split: if_splits)
      have "read_password_loop ts deadline auth r1 = Inr (result, r')" using Cons.prems(2) more(8) None by simp
      from Cons.IH [OF r1 this] show ?thesis
      proof (elim disjE exE conjE)
        fix seen rest assume "ts = seen @ rest" "got_line deadline auth r1 seen result r'"
        then have "t # ts = (t # seen) @ rest" "got_line deadline auth r (t # seen) result r'"
          using more(1-3) by (simp_all add: got_line_def received_def polls_def)
        then show ?thesis by blast
      qed blast
    next
      case (Some n)
      have nl: "0x0A \<in> set (pr_input r1)" using Some by (simp add: byte_position_Some)
      have "finish_line auth n r1 = Inr (result, r')" using Cons.prems(2) more(8) Some by simp
      then have "got_line deadline auth r [t] result r'"
        unfolding finish_line_got [OF Some more(4,5)] got_line_def
        using more nl by (auto simp: Let_def received_def split: option.splits if_splits)
      then show ?thesis by (intro disjI2 exI [of _ "[t]"] exI [of _ ts]) simp
    qed
  qed
qed simp

lemma cut_off_step:
  assumes "usable deadline t" "pr_input r1 = pr_input r @ delivered t"
  shows "cut_off deadline auth r (t # seen) rest r' = cut_off deadline auth r1 seen rest r'"
proof -
  have "pr_input r @ received (t # seen) = pr_input r1 @ received seen" using assms(2) by (simp add: received_def)
  then show ?thesis using assms(1) unfolding cut_off_def by (simp only: list.set ball_simps simp_thms)
qed

lemma read_password_cut:
  assumes "reading r" "read_password_loop ts deadline auth r = Inl r'"
  shows "\<exists>seen rest. ts = seen @ rest \<and> cut_off deadline auth r seen rest r'"
  using assms
proof (induction ts arbitrary: r)
  case Nil
  then show ?case by (simp add: cut_off_def reading_def received_def)
next
  case (Cons t ts)
  from Cons.prems(1) show ?case
  proof (cases rule: read_password_step [of r t ts deadline auth])
    case stop
    then show ?thesis using Cons.prems(2) by simp
  next
    case (more r1)
    show ?thesis
    proof (cases "byte_position 0x0A (pr_input r1)")
      case None
      then have r1: "reading r1" using more by (simp add: reading_def byte_position_def split: if_splits)
      have "read_password_loop ts deadline auth r1 = Inl r'" using Cons.prems(2) more(8) None by simp
      from Cons.IH [OF r1 this] obtain seen rest where "ts = seen @ rest" "cut_off deadline auth r1 seen rest r'" by blast
      then have "t # ts = (t # seen) @ rest" "cut_off deadline auth r (t # seen) rest r'"
        using cut_off_step [OF more(1,2)] by simp_all
      then show ?thesis by blast
    next
      case (Some n)
      have nl: "0x0A \<in> set (pr_input r1)" using Some by (simp add: byte_position_Some)
      have "finish_line auth n r1 = Inl r'" using Cons.prems(2) more(8) Some by simp
      then have "cut_off deadline auth r [t] ts r'"
        unfolding finish_line_got [OF Some more(4,5)] cut_off_def
        using more nl by (auto simp: Let_def received_def split: option.splits if_splits)
      then show ?thesis by (intro exI [of _ "[t]"] exI [of _ ts]) simp
    qed
  qed
qed

text \<open>Once a complete line can be read in time, the loop does not give up.\<close>

lemma read_password_keeps_on:
  assumes "reading r" "read_password_loop (seen @ rest) deadline auth r = Inr (result, r')"
    and "\<forall>t \<in> set seen. usable deadline t" "0x0A \<in> set (received seen)" "length (pr_input r @ received seen) \<le> 4096"
  shows "\<not> pr_open r'"
  using assms
proof (induction seen arbitrary: r)
  case (Cons t seen)
  from Cons.prems(1) show ?case
  proof (cases rule: read_password_step [of r t "seen @ rest" deadline auth])
    case stop
    then show ?thesis using Cons.prems by (simp add: received_def)
  next
    case (more r1)
    show ?thesis
    proof (cases "byte_position 0x0A (pr_input r1)")
      case None
      then have r1: "reading r1" and fresh: "0x0A \<notin> set (pr_input r1)" using more by (simp_all add: reading_def byte_position_def split: if_splits)
      have "read_password_loop (seen @ rest) deadline auth r1 = Inr (result, r')" using Cons.prems(2) more(8) None by simp
      then show ?thesis using Cons.IH [OF r1] Cons.prems(3-5) fresh more(2) by (auto simp: received_def)
    next
      case (Some n)
      then have "finish_line auth n r1 = Inr (result, r')" using Cons.prems(2) more(8) by simp
      then show ?thesis unfolding finish_line_got [OF Some more(4,5)] by (auto simp: Let_def split: option.splits)
    qed
  qed
qed (simp add: received_def)

lemma read_password_returns:
  assumes "\<exists>t \<in> set ts. deadline \<le> tt_now t" "reading r" "\<And>password. fst (auth password) \<noteq> None"
  shows "\<exists>result r'. read_password_loop ts deadline auth r = Inr (result, r')"
  using assms
proof (induction ts arbitrary: r)
  case (Cons t ts)
  from Cons.prems(2) show ?case
  proof (cases rule: read_password_step [of r t ts deadline auth])
    case (more r1)
    have late: "\<exists>t \<in> set ts. deadline \<le> tt_now t" using Cons.prems(1) more(1) by (auto simp: usable_def)
    show ?thesis
    proof (cases "byte_position 0x0A (pr_input r1)")
      case None
      then have "reading r1" using more by (simp add: reading_def byte_position_def split: if_splits)
      from Cons.IH [OF late this Cons.prems(3)] show ?thesis using more(8) None by simp
    next
      case (Some n)
      then show ?thesis unfolding more(8) Some option.case finish_line_got [OF Some more(4,5)]
        using Cons.prems(3) [of "typed_line (pr_input r1)"] by (auto simp: Let_def)
    qed
  qed simp
qed simp

section \<open>The password process\<close>

definition password_deadline :: "password_env \<Rightarrow> nat" where
  "password_deadline env = pe_now env + PASSWORD_RACE_TIMEOUT"

definition pam_tty :: "password_env \<Rightarrow> bytes" where
  "pam_tty env = (case resolve_tty_name (pe_ttyname env) of None \<Rightarrow> fallback_tty_name | Some name \<Rightarrow> name)"

definition line_auth :: "password_env \<Rightarrow> string \<Rightarrow> bytes \<Rightarrow> PasswordResult option \<times> pam_event list" where
  "line_auth env username password = (if password = [] then (Some PasswordUnavailable, [])
     else authenticate_with_pam env (pam_tty env) username password)"

lemma authenticate_with_pam_done:
  "authenticate_with_pam env tty username password = (Some result, events) \<Longrightarrow>
     plugin_authenticate (pe_pam env) username password tty = (result, events)"
  by (auto simp: authenticate_with_pam_def split: prod.splits option.splits if_splits)

definition reader_start :: "string \<Rightarrow> password_reader" where
  "reader_start username = \<lparr>pr_input = [], pr_chunk = [], pr_open = True, pr_flush = False,
     pr_log = [WriteTty (password_prompt username), WriteReady 1]\<rparr>"

lemma reader_start_reading: "reading (reader_start username)"
  by (simp add: reading_def reader_start_def)

lemma got_line_start:
  assumes "got_line deadline auth (reader_start username) seen result r"
  shows "\<forall>t \<in> set seen. usable deadline t" "0x0A \<in> set (received seen)" "length (received seen) \<le> 4096"
    "Some result = (if 0 \<in> set (typed_line (received seen)) then Some PasswordRejected else fst (auth (typed_line (received seen))))"
    "pr_input r = zeroize_bytes (received seen)" "blank (pr_chunk r)"
    "pr_log r = [WriteTty (password_prompt username), WriteReady 1] @ polls deadline seen @ [WriteReady 0]
       @ map PamDid (if 0 \<in> set (typed_line (received seen)) then [] else snd (auth (typed_line (received seen)))) @ [WriteTty [0x0A], CloseTty]"
  using assms by (simp_all add: got_line_def Let_def reader_start_def)

lemma read_and_authenticate_password_alt:
  "read_and_authenticate_password env username =
     (if pe_prompt_written env
      then map_sum id (\<lambda>(result, r). (result, drop_tty_guard r))
             (read_password_loop (pe_turns env) (password_deadline env) (line_auth env username) (reader_start username))
      else Inr (PasswordUnavailable, \<lparr>pr_input = [], pr_chunk = [], pr_open = True, pr_flush = True,
             pr_log = [WriteTty (password_prompt username), RestoreTty True]\<rparr>))"
  unfolding pam_tty_def line_auth_def [abs_def]
  by (simp add: read_and_authenticate_password_def drop_tty_guard_def did_def password_deadline_def
      reader_start_def authenticate_password_line_def [abs_def])

text \<open>A complete line can be read: turns in time, without an error, that hand over a newline within 4096 bytes.\<close>

definition line_typed :: "password_env \<Rightarrow> tty_turn list \<Rightarrow> bool" where
  "line_typed env seen \<longleftrightarrow> pe_prompt_written env \<and> (\<exists>rest. pe_turns env = seen @ rest) \<and> (\<forall>t \<in> set seen. usable (password_deadline env) t) \<and>
     0x0A \<in> set (received seen) \<and> length (received seen) \<le> 4096"

text \<open>What the process can come to: it gave up and restored the terminal, or a complete line was judged.\<close>

lemma password_process_cases:
  assumes "read_and_authenticate_password env username = Inr (result, r)"
  obtains (gave_up) front where "\<nexists>seen. line_typed env seen" "result \<in> {PasswordUnavailable, PasswordRejected}" "blank (pr_input r)" "blank (pr_chunk r)"
      "length (pr_input r) \<le> 4096" "pr_open r" "pr_log r = front @ [RestoreTty True]"
  | (line) seen where "line_typed env seen"
      "got_line (password_deadline env) (line_auth env username) (reader_start username) seen result r"
proof (cases "pe_prompt_written env")
  case False
  then show ?thesis using assms
    by (intro gave_up [of "[WriteTty (password_prompt username)]"]) (auto simp: read_and_authenticate_password_alt line_typed_def)
next
  case True
  then obtain r1 where loop: "read_password_loop (pe_turns env) (password_deadline env) (line_auth env username) (reader_start username)
      = Inr (result, r1)" and r: "r = drop_tty_guard r1"
    using assms by (cases "read_password_loop (pe_turns env) (password_deadline env) (line_auth env username) (reader_start username)")
      (auto simp: read_and_authenticate_password_alt)
  from read_password_result [OF reader_start_reading loop] show ?thesis
  proof (elim disjE exE conjE)
    assume up: "Plugin_Password.gave_up result r1"
    have "\<not> line_typed env seen" for seen
    proof
      assume typed: "line_typed env seen"
      then obtain rest where "read_password_loop (seen @ rest) (password_deadline env) (line_auth env username) (reader_start username) = Inr (result, r1)"
        using loop unfolding line_typed_def by auto
      from read_password_keeps_on [OF reader_start_reading this] typed have "\<not> pr_open r1"
        by (simp add: line_typed_def reader_start_def)
      with up show False by (simp add: gave_up_def)
    qed
    with up show ?thesis by (intro gave_up [of "pr_log r1"]) (auto simp: r gave_up_def drop_tty_guard_def)
  next
    fix seen rest assume seen: "pe_turns env = seen @ rest"
      and got: "got_line (password_deadline env) (line_auth env username) (reader_start username) seen result r1"
    then have "drop_tty_guard r1 = r1" by (simp add: got_line_def Let_def drop_tty_guard_def)
    moreover have "line_typed env seen" using True seen got_line_start(1-3) [OF got] by (simp add: line_typed_def)
    ultimately show ?thesis using got by (intro line) (simp_all add: r)
  qed
qed

definition pam_session :: "password_env \<Rightarrow> string \<Rightarrow> bytes \<Rightarrow> tty_action list" where
  "pam_session env username password = map PamDid (LibraryOpened #
     map PamCalled (full_calls (as_bytes username) (pam_tty env) @ [PamEnd PAM_SUCCESS])
     @ [PasswordErased (zeroize_bytes (password @ [0])), LibraryClosed])"

lemma line_auth_approved:
  assumes "line_auth env username password = (Some PasswordApproved, events)"
  shows "password \<noteq> [] \<and> pam_accepts (pe_pam env) (password_data username password) (pam_tty env) \<and>
    map PamDid events = pam_session env username password"
proof -
  have nonempty: "password \<noteq> []" and auth: "plugin_authenticate (pe_pam env) username password (pam_tty env) = (PasswordApproved, events)"
    using assms by (auto simp: line_auth_def dest: authenticate_with_pam_done split: if_splits)
  show ?thesis
  proof (cases rule: plugin_authenticate_cases [of "pe_pam env" username password "pam_tty env"])
    case called
    let ?data = "password_data username password"
    have accepts: "pam_accepts (pe_pam env) ?data (pam_tty env)"
      using called(3) auth libpam_calls_verdict [of "pe_pam env" ?data "pam_tty env"] by (simp split: if_splits)
    obtain n st where shape: "snd (libpam_calls (pe_pam env) ?data (pam_tty env)) = take n (full_calls (cd_username ?data) (pam_tty env)) @
       (if pl_handle (pe_pam env) (PamStart (as_bytes ''sudo'') (cd_username ?data)) then [PamEnd st] else [])"
      and n: "n = 5" "st = PAM_SUCCESS"
      using libpam_calls_shape [of "pe_pam env" ?data "pam_tty env"] accepts by blast
    have "snd (libpam_calls (pe_pam env) ?data (pam_tty env)) = full_calls (as_bytes username) (pam_tty env) @ [PamEnd PAM_SUCCESS]"
      using shape n accepts by (simp add: pam_accepts_def password_data_def full_calls_def)
    moreover have "events = LibraryOpened # map PamCalled (snd (libpam_calls (pe_pam env) ?data (pam_tty env)))
         @ [PasswordErased (zeroize_bytes (password @ [0])), LibraryClosed]" using called(3) auth by simp
    ultimately show ?thesis using nonempty accepts by (simp add: pam_session_def)
  qed (use auth in simp_all)
qed

text \<open>the password process approves only what PAM accepted. If it approves then, before its deadline, the
  terminal delivered at most 4096 bytes holding a newline; the line before it, less one carriage return, is
  neither empty nor holds a NUL; and PAM was given exactly that line for the invoking user on service \<open>sudo\<close>
  and accepted it at every step, in one session that was ended and closed.\<close>

theorem password_approval_needs_pam:
  assumes "read_and_authenticate_password env username = Inr (PasswordApproved, r)"
  shows "\<exists>seen. line_typed env seen \<and>
    typed_line (received seen) \<noteq> [] \<and> 0 \<notin> set (typed_line (received seen)) \<and>
    pam_accepts (pe_pam env) (password_data username (typed_line (received seen))) (pam_tty env) \<and>
    pr_log r = [WriteTty (password_prompt username), WriteReady 1] @ polls (password_deadline env) seen @ [WriteReady 0]
      @ pam_session env username (typed_line (received seen)) @ [WriteTty [0x0A], CloseTty]"
  using assms
proof (cases rule: password_process_cases)
  case (line seen)
  define password where "password = typed_line (received seen)"
  note got = got_line_start [OF line(2), folded password_def]
  have clean: "0 \<notin> set password" using got(4) by (auto split: if_splits)
  then have auth: "line_auth env username password = (Some PasswordApproved, snd (line_auth env username password))"
    using got(4) by (simp add: prod_eq_iff)
  have log: "pr_log r = [WriteTty (password_prompt username), WriteReady 1] @ polls (password_deadline env) seen @ [WriteReady 0]
      @ pam_session env username password @ [WriteTty [0x0A], CloseTty]"
    using line_auth_approved [OF auth] clean got(7) by simp
  show ?thesis using line(1) clean line_auth_approved [OF auth] log unfolding password_def by blast
qed simp


text \<open>C38: who restores the terminal. When the process returns, it restored and flushed the terminal itself exactly if
  no complete line could be read: the prompt was not written, or no run of turns in time and without an error handed
  over a newline within 4096 bytes. After a complete line it closed the terminal and never restored it, as its guard
  runs on a closed descriptor, so the restore is left to the parent.\<close>

theorem terminal_restored_by_reader:
  assumes "read_and_authenticate_password env username = Inr (result, r)"
  shows "if \<exists>seen. line_typed env seen
    then (\<exists>front. pr_log r = front @ [CloseTty]) \<and> (\<forall>flush. RestoreTty flush \<notin> set (pr_log r))
    else (\<exists>front. pr_log r = front @ [RestoreTty True]) \<and> pr_open r \<and> result \<in> {PasswordUnavailable, PasswordRejected}"
  using assms
proof (cases rule: password_process_cases)
  case (line seen)
  obtain events where "pr_log r = [WriteTty (password_prompt username), WriteReady 1] @ polls (password_deadline env) seen
      @ [WriteReady 0] @ map PamDid events @ [WriteTty [0x0A], CloseTty]"
    using got_line_start(7) [OF line(2)] by blast
  then have "pr_log r = ([WriteTty (password_prompt username), WriteReady 1] @ polls (password_deadline env) seen
      @ [WriteReady 0] @ map PamDid events @ [WriteTty [0x0A]]) @ [CloseTty]" "\<forall>flush. RestoreTty flush \<notin> set (pr_log r)"
    by (auto simp: polls_def)
  then show ?thesis using line(1) by auto
next
  case (gave_up front)
  then show ?thesis by auto
qed

text \<open>the password process ends: unless it is terminated first, it has a result once the terminal's clock reaches the
  deadline, and its exit status is read back by the parent as that result.\<close>

theorem password_process_returns:
  assumes "\<exists>t \<in> set (pe_turns env). password_deadline env \<le> tt_now t" "pe_killed env = None"
  shows "\<exists>result r. read_and_authenticate_password env username = Inr (result, r) \<and>
    password_code (password_exit_code result) = result"
proof -
  have "fst (line_auth env username password) \<noteq> None" for password
    using assms(2) by (auto simp: line_auth_def authenticate_with_pam_def split: prod.split)
  from read_password_returns [OF assms(1) reader_start_reading this, of "\<lambda>password. password" username]
  obtain result r where "read_password_loop (pe_turns env) (password_deadline env) (line_auth env username) (reader_start username) = Inr (result, r)"
    by blast
  then have "\<exists>result r. read_and_authenticate_password env username = Inr (result, r)"
    by (auto simp: read_and_authenticate_password_alt)
  moreover have "password_code (password_exit_code result) = result" for result by (cases result) simp_all
  ultimately show ?thesis by blast
qed

text \<open>C20: the whole password lane. When the password process is this one and the hook never exits with status
  0, an answer of 1 means that in time, within 4096 bytes, the terminal handed over a line, and that PAM accepted
  exactly that line (what was typed before the first newline, less one carriage return), which is not empty and
  holds no NUL, at every step for the user sudo was invoked by.\<close>

theorem password_lane_needs_pam:
  assumes "run_hook env ctx = Some (1, r)"
    and "\<forall>t \<in> set (re_turns env). rt_hook t \<noteq> ExitedWith 0"
    and "\<forall>t \<in> set (re_turns env). \<forall>code. rt_password t = ExitedWith code \<longrightarrow>
      (\<exists>result rd. read_and_authenticate_password penv (sc_username ctx) = Inr (result, rd) \<and> code = password_exit_code result)"
  shows "password_started env ctx \<and> (\<exists>seen. line_typed penv seen \<and>
    typed_line (received seen) \<noteq> [] \<and> 0 \<notin> set (typed_line (received seen)) \<and>
    pam_accepts (pe_pam penv) (password_data (sc_username ctx) (typed_line (received seen))) (pam_tty penv))"
proof -
  obtain before t after where t: "re_turns env = before @ t # after"
    and verdict: "rt_hook t = ExitedWith 0 \<or> password_started env ctx \<and> rt_password t = ExitedWith 0"
    using race_needs_approval [OF assms(1)] by blast
  have started: "password_started env ctx" and zero: "rt_password t = ExitedWith 0" using verdict assms(2) t by auto
  then obtain result rd where rd: "read_and_authenticate_password penv (sc_username ctx) = Inr (result, rd)" and "0 = password_exit_code result"
    using assms(3) t by (metis in_set_conv_decomp)
  then have result: "result = PasswordApproved" by (cases result) simp_all
  show ?thesis using rd [unfolded result]
  proof (cases rule: password_process_cases)
    case (line seen)
    let ?p = "typed_line (received seen)"
    have "Some PasswordApproved = (if 0 \<in> set ?p then Some PasswordRejected else fst (line_auth penv (sc_username ctx) ?p))"
      by (rule got_line_start(4) [OF line(2)])
    then have "0 \<notin> set ?p" "line_auth penv (sc_username ctx) ?p = (Some PasswordApproved, snd (line_auth penv (sc_username ctx) ?p))"
      by (auto simp: prod_eq_iff split: if_splits)
    then show ?thesis using started line_auth_approved line(1) by blast
  qed simp
qed

section \<open>A sample terminal and library\<close>

text \<open>The library asks for the password on \<open>pam_authenticate\<close> and accepts one.\<close>

definition sample_question :: conv_call where
  "sample_question = \<lparr>cv_count = 1, cv_messages = Some [Some PAM_PROMPT_ECHO_OFF], cv_responses = True, cv_data = True,
     cv_calloc = True, cv_malloc = (\<lambda>_. True)\<rparr>"

definition sample_pam :: pam_library where
  "sample_pam = \<lparr>pl_open = True, pl_symbol = (\<lambda>_. True),
     pl_answer = (\<lambda>calls conv. if last calls = PamAuthenticate 0
       then if cr_published (conv sample_question) = Some [Some [0x70, 0x77, 0]] then 0 else 7 else 0),
     pl_handle = (\<lambda>_. True)\<rparr>"

definition sample_password_env :: password_env where
  "sample_password_env = \<lparr>pe_ttyname = (0, [0x74, 0, 0]), pe_prompt_written = True, pe_now = 0,
     pe_turns = [\<lparr>tt_now = 5, tt_poll = PollInterrupted, tt_read = None\<rparr>,
       \<lparr>tt_now = 6, tt_poll = Polled True, tt_read = Some [0x70]\<rparr>,
       \<lparr>tt_now = 7, tt_poll = Polled True, tt_read = Some [0x77, 0x0D, 0x0A]\<rparr>,
       \<lparr>tt_now = 95000, tt_poll = PollFailed, tt_read = None\<rparr>],
     pe_pam = sample_pam, pe_killed = None\<rparr>"

lemma sample_authenticates: "fst (plugin_authenticate sample_pam ''u'' [0x70, 0x77] tty) = PasswordApproved"
  by (simp add: plugin_authenticate_def pam_load_def sample_pam_def cstring_new_def libpam_calls_def Let_def conversation_def sample_question_def
      respond_step servable_def reply_def pam_constants)

lemma sample_password_approved: "\<exists>r. read_and_authenticate_password sample_password_env ''u'' = Inr (PasswordApproved, r)"
proof -
  let ?r = "(reader_start ''u'')\<lparr>pr_input := [0x70, 0x77, 0x0D, 0x0A], pr_chunk := [0, 0, 0],
     pr_log := pr_log (reader_start ''u'') @ [PollFor 100, PollFor 100, PollFor 100]\<rparr>"
  have nl: "byte_position 0x0A (pr_input ?r) = Some 3" by (simp add: byte_position_def)
  have "typed_line [0x70, 0x77, 0x0D, 0x0A] = [0x70, 0x77]" by (simp add: typed_line_def)
  then have "\<exists>r. finish_line (line_auth sample_password_env ''u'') 3 ?r = Inr (PasswordApproved, r)"
    using sample_authenticates
    by (subst finish_line_got [OF nl]) (auto simp: reader_start_def line_auth_def authenticate_with_pam_def sample_password_env_def Let_def case_prod_beta)
  moreover have "read_password_loop (pe_turns sample_password_env) (password_deadline sample_password_env)
      (line_auth sample_password_env ''u'') (reader_start ''u'') = finish_line (line_auth sample_password_env ''u'') 3 ?r"
    by (simp add: sample_password_env_def password_deadline_def PASSWORD_RACE_TIMEOUT_def read_password_loop.simps(2)
        reader_start_def did_def byte_position_def zeroize_bytes_def numeral_3_eq_3)
  moreover have "pe_prompt_written sample_password_env" by (simp add: sample_password_env_def)
  ultimately show ?thesis by (auto simp: read_and_authenticate_password_alt)
qed

theorem conversation_answers_or_erases_witness:
  "cr_published (conversation (password_data ''u'' [0x70, 0x77]) sample_question) = Some [Some [0x70, 0x77, 0]] \<and>
   blank (erase_cstring [0x70, 0x77, 0]) \<and>
   list_all (pred_option blank) (cr_freed (conversation (password_data ''u'' [0x70, 0x77])
     (sample_question\<lparr>cv_count := 2, cv_messages := Some [Some PAM_PROMPT_ECHO_OFF, Some 99]\<rparr>)))"
proof -
  have clean: "0 \<notin> set (as_bytes ''u'')" "0 \<notin> set [0x70, 0x77 :: u8]" by simp_all
  note use = conversation_answers_or_erases [OF clean password_data_def]
  have ok: "conversation_ok sample_question" by (simp add: conversation_ok_def sample_question_def servable_def pam_constants)
  have bad: "\<not> conversation_ok (sample_question\<lparr>cv_count := 2, cv_messages := Some [Some PAM_PROMPT_ECHO_OFF, Some 99]\<rparr>)"
    by (auto simp: conversation_ok_def sample_question_def servable_def pam_constants)
  show ?thesis using use [of sample_question] use [of "sample_question\<lparr>cv_count := 2, cv_messages := Some [Some PAM_PROMPT_ECHO_OFF, Some 99]\<rparr>"] ok bad
    by (simp add: sample_question_def reply_def password_data_def erase_cstring_def zeroize_bytes_def)
qed

theorem password_needs_every_pam_step_witness:
  "\<exists>st. snd (plugin_authenticate sample_pam ''u'' [0x70, 0x77] [0x74]) =
     LibraryOpened # map PamCalled (full_calls [0x75] [0x74] @ [PamEnd st]) @ [PasswordErased [0, 0, 0], LibraryClosed]"
proof -
  have "pam_accepts sample_pam (password_data ''u'' [0x70, 0x77]) [0x74]" "fst (pam_load sample_pam)"
    by (simp_all add: pam_accepts_steps full_calls_def sample_pam_def conversation_def sample_question_def respond_step servable_def
        reply_def pam_constants password_data_def pam_load_def)
  moreover have "snd (plugin_authenticate sample_pam ''u'' [0x70, 0x77] [0x74]) \<notin> {[], [LibraryOpened, LibraryClosed]}"
    by (simp add: plugin_authenticate_def pam_load_def sample_pam_def cstring_new_def libpam_calls_def Let_def)
  moreover have "pl_handle sample_pam c" for c by (simp add: sample_pam_def)
  moreover obtain n st where "let (result, events) = plugin_authenticate sample_pam ''u'' [0x70, 0x77] [0x74];
      accepted = (fst (pam_load sample_pam) \<and> 0 \<notin> set (as_bytes ''u'') \<union> set [0x70, 0x77 :: u8] \<and>
        pam_accepts sample_pam (password_data ''u'' [0x70, 0x77]) [0x74])
    in (accepted \<longrightarrow> n = 5) \<and> events \<in> {[], [LibraryOpened, LibraryClosed],
         LibraryOpened # map PamCalled (take n (full_calls (as_bytes ''u'') [0x74]) @
           (if pl_handle sample_pam (PamStart (as_bytes ''sudo'') (as_bytes ''u'')) then [PamEnd st] else []))
         @ [PasswordErased (zeroize_bytes ([0x70, 0x77] @ [0])), LibraryClosed]}"
    using password_needs_every_pam_step [of sample_pam "''u''" "[0x70, 0x77]" "[0x74]"] unfolding Let_def case_prod_beta by blast
  ultimately show ?thesis
    unfolding Let_def case_prod_beta by (intro exI [of _ st]) (simp add: zeroize_bytes_def full_calls_def)
qed

theorem password_approval_needs_pam_witness:
  "\<exists>seen. line_typed sample_password_env seen \<and>
     pam_accepts sample_pam (password_data ''u'' (typed_line (received seen))) (pam_tty sample_password_env)"
proof -
  have "pe_pam sample_password_env = sample_pam" by (simp add: sample_password_env_def)
  with sample_password_approved password_approval_needs_pam show ?thesis by metis
qed


theorem terminal_restored_by_reader_witness:
  "\<exists>r front. read_and_authenticate_password sample_password_env ''u'' = Inr (PasswordApproved, r) \<and> pr_log r = front @ [CloseTty]"
proof -
  obtain r where r: "read_and_authenticate_password sample_password_env ''u'' = Inr (PasswordApproved, r)" using sample_password_approved by blast
  from terminal_restored_by_reader [OF r] r show ?thesis by (auto split: if_splits)
qed

theorem password_process_returns_witness:
  "\<exists>result r. read_and_authenticate_password sample_password_env ''u'' = Inr (result, r) \<and>
     password_code (password_exit_code result) = result"
  by (rule password_process_returns) (simp_all add: sample_password_env_def password_deadline_def PASSWORD_RACE_TIMEOUT_def)

text \<open>No hook could be started, and the password process approves.\<close>

definition sample_password_race :: race_env where
  "sample_password_race = sample_race_env\<lparr>re_hook_forked := False,
     re_turns := [sample_race_turn\<lparr>rt_ready := [], rt_hook := StillAlive, rt_password := ExitedWith 0\<rparr>]\<rparr>"

lemma sample_password_race_approves: "\<exists>r. run_hook sample_password_race sample_sudo_context = Some (1, r)"
  by (simp add: sample_password_race_def sample_race_env_def sample_race_turn_def run_hook_def run_hook_with_password_def
      start_race_def spawn_password_process_def sample_sudo_context_def PASSWORD_RACE_TIMEOUT_def drain_hook_stderr_def
      drain_password_ready_def reap_hook_def password_turn_def reap_password_def Let_def cancel_hook_def verdict_after_def
      cancel_password_def worker_gone_def contextual_pam_lane_live_def act_def)

theorem password_lane_needs_pam_witness:
  "password_started sample_password_race sample_sudo_context \<and>
   (\<exists>seen. line_typed sample_password_env seen \<and>
     pam_accepts sample_pam (password_data ''u'' (typed_line (received seen))) (pam_tty sample_password_env))"
proof -
  obtain r where run: "run_hook sample_password_race sample_sudo_context = Some (1, r)" using sample_password_race_approves by blast
  obtain rd where rd: "read_and_authenticate_password sample_password_env ''u'' = Inr (PasswordApproved, rd)"
    using sample_password_approved by blast
  have user: "sc_username sample_sudo_context = ''u''" by (simp add: sample_sudo_context_def)
  have hook: "\<forall>t \<in> set (re_turns sample_password_race). rt_hook t \<noteq> ExitedWith 0"
    and password: "\<forall>t \<in> set (re_turns sample_password_race). \<forall>code. rt_password t = ExitedWith code \<longrightarrow>
      (\<exists>result rd. read_and_authenticate_password sample_password_env (sc_username sample_sudo_context) = Inr (result, rd) \<and>
         code = password_exit_code result)"
    using rd by (auto simp: sample_password_race_def sample_race_turn_def user)
  have "pe_pam sample_password_env = sample_pam" by (simp add: sample_password_env_def)
  with password_lane_needs_pam [OF run hook password] show ?thesis unfolding user by metis
qed

end
