(* ===== verification/Relay.thy ===== *)
theory Relay
  imports Agent_Prompt Nats_Policy
begin

text \<open>
  The browser-ceremony protocol of the relay (\<open>relay/src/lib.rs\<close>): signed frames, the check of the
  authorization URL of Google's command line client, and the approval challenge. The JSON codecs of
  the two structs, the URL parser and the UUID parser are fields of \<open>relay_crates\<close>; base64 and
  ECDSA are those of \<open>crates\<close>. A signing key is the function from a message to its DER signature.
\<close>

definition MAX_FRAME :: nat where "MAX_FRAME = 16384"
definition MAX_LIFETIME :: nat where "MAX_LIFETIME = 300"
definition RELAY_DOMAIN :: bytes where "RELAY_DOMAIN = as_bytes ''oshioki/browser-ceremony/v1'' @ [0]"

section \<open>Frames\<close>

datatype Action =
    Probe
  | Offer (offer_nonce: string)
  | Authorize string string
  | Authorized string string
  | Start string string
  | Ready
  | Stop
  | CeremonyFailed
  | CeremonyClosed

record Message =
  m_version :: nat
  m_attempt :: string
  m_expires :: nat
  m_action :: Action

record Envelope =
  e_body :: string
  e_signature :: string

text \<open>What \<open>Url\<close> reports of a parsed URL, and \<open>Uuid::parse_str\<close> followed by \<open>to_string\<close>.\<close>

record Url =
  u_scheme :: string
  u_host :: "string option"
  u_port :: "nat option"
  u_username :: string
  u_password :: "string option"
  u_fragment :: "string option"
  u_path :: string
  u_query_pairs :: "(string \<times> string) list"

record relay_crates =
  rl_message_to_vec :: "Message \<Rightarrow> string + bytes"
  rl_message_from_slice :: "bytes \<Rightarrow> string + Message"
  rl_envelope_to_vec :: "Envelope \<Rightarrow> string + bytes"
  rl_envelope_from_slice :: "bytes \<Rightarrow> string + Envelope"
  rl_url_parse :: "string \<Rightarrow> string + Url"
  rl_uuid_canonical :: "string \<Rightarrow> string option"

text \<open>Errors are \<open>anyhow\<close> texts; one from the protocol crate is reported under its own text.\<close>

definition anyhow :: "error + 'a \<Rightarrow> string + 'a" where
  "anyhow m = map_err (\<lambda>e. case e of Decode s \<Rightarrow> s | InvalidConfig s \<Rightarrow> s | _ \<Rightarrow> ''protocol error'') m"

definition require :: "bool \<Rightarrow> string \<Rightarrow> string + unit" where
  "require b s = (if b then Inr () else Inl s)"

definition sign :: "crates \<Rightarrow> relay_crates \<Rightarrow> Message \<Rightarrow> (bytes \<Rightarrow> bytes) \<Rightarrow> string + bytes" where
  "sign X R message key =
     and_then (rl_message_to_vec R message) (\<lambda>body.
     let signature = key (RELAY_DOMAIN @ body) in
     and_then (rl_envelope_to_vec R \<lparr>e_body = encode_base64url X body, e_signature = encode_base64url X signature\<rparr>) (\<lambda>bs.
     and_then (require (length bs \<le> MAX_FRAME) ''ceremony frame too large'') (\<lambda>_. Inr bs)))"

definition verify :: "crates \<Rightarrow> relay_crates \<Rightarrow> bytes \<Rightarrow> verifying_key \<Rightarrow> nat \<Rightarrow> string + Message" where
  "verify X R bs key now =
     and_then (require (length bs \<le> MAX_FRAME) ''ceremony frame too large'') (\<lambda>_.
     and_then (rl_envelope_from_slice R bs) (\<lambda>envelope.
     and_then (anyhow (decode_base64url X (e_body envelope))) (\<lambda>body.
     and_then (anyhow (decode_base64url X (e_signature envelope))) (\<lambda>der.
     and_then (ok_or (sig_from_der X der) ''signature error'') (\<lambda>signature.
     and_then (require (ecdsa_verify X key (RELAY_DOMAIN @ body) signature) ''signature error'') (\<lambda>_.
     and_then (rl_message_from_slice R body) (\<lambda>message.
     and_then (require (m_version message = 1) ''unsupported ceremony version'') (\<lambda>_.
     and_then (require (rl_uuid_canonical R (m_attempt message) = Some (m_attempt message)) ''invalid attempt id'') (\<lambda>_.
     and_then (require (m_expires message > now \<and> m_expires message - now \<le> MAX_LIFETIME) ''invalid ceremony expiry'') (\<lambda>_.
     Inr message))))))))))"

definition approval_challenge :: "crates \<Rightarrow> string \<Rightarrow> string \<Rightarrow> nat \<Rightarrow> string \<Rightarrow> string \<Rightarrow> bytes" where
  "approval_challenge X lane attempt expires nonce account = browser_relay_challenge X lane attempt expires nonce account"

section \<open>The authorization URL\<close>

definition ascii_control :: "char \<Rightarrow> bool" where
  "ascii_control c \<longleftrightarrow> of_char c < (32 :: nat) \<or> of_char c = (127 :: nat)"

definition is_ascii :: "string \<Rightarrow> bool" where
  "is_ascii s \<longleftrightarrow> list_all (\<lambda>c. of_char c < (128 :: nat)) s"

definition oauth_parameters :: "string list" where
  "oauth_parameters = [''client_id'', ''redirect_uri'', ''response_type'', ''scope'', ''state'', ''code_challenge'',
     ''code_challenge_method'', ''access_type'', ''prompt'', ''login_hint'', ''include_granted_scopes'', ''rapt'']"

fun collect_params :: "(string \<times> string) list \<Rightarrow> (string \<rightharpoonup> string) \<Rightarrow> string + (string \<rightharpoonup> string)" where
  "collect_params [] params = Inr params"
| "collect_params ((name, value) # pairs) params =
     and_then (require (name \<in> set oauth_parameters) ''OAuth parameter outside allowlist'') (\<lambda>_.
     and_then (require (name \<noteq> ''rapt'') ''reauthentication proof tokens cannot be relayed'') (\<lambda>_.
     and_then (require (params name = None) ''duplicate OAuth parameter'') (\<lambda>_.
     collect_params pairs (params(name \<mapsto> value)))))"

definition google_callback_port :: "crates \<Rightarrow> relay_crates \<Rightarrow> string \<Rightarrow> string + nat" where
  "google_callback_port X R raw =
     and_then (require (length raw \<le> 8192 \<and> is_ascii raw \<and> \<not> list_ex (\<lambda>b. ascii_control b \<or> b = CHR 0x5C) raw)
       ''invalid OAuth URL encoding'') (\<lambda>_.
     and_then (rl_url_parse R raw) (\<lambda>url.
     and_then (require (u_scheme url = ''https'' \<and> u_host url = Some ''accounts.google.com'' \<and> u_port url = None \<and>
         u_username url = [] \<and> u_password url = None \<and> u_fragment url = None \<and>
         u_path url \<in> {''/o/oauth2/auth'', ''/o/oauth2/v2/auth''}) ''OAuth endpoint outside allowlist'') (\<lambda>_.
     and_then (collect_params (u_query_pairs url) (\<lambda>_. None)) (\<lambda>params.
     let get = (\<lambda>name. case params name of None \<Rightarrow> [] | Some value \<Rightarrow> value) in
     and_then (require (get ''client_id'' = ''32555940559.apps.googleusercontent.com'' \<and> get ''response_type'' = ''code'')
       ''unsupported OAuth client or response type'') (\<lambda>_.
     and_then (require (get ''state'' \<noteq> [] \<and> get ''scope'' \<noteq> []) ''missing OAuth state or scope'') (\<lambda>_.
     and_then (require (get ''code_challenge_method'' = ''S256'') ''PKCE S256 is required'') (\<lambda>_.
     and_then (anyhow (decode_base64url X (get ''code_challenge''))) (\<lambda>challenge.
     and_then (require (length challenge = 32) ''PKCE S256 is required'') (\<lambda>_.
     let redirect = get ''redirect_uri'' in
     and_then (rl_url_parse R redirect) (\<lambda>callback.
     and_then (ok_or (u_port callback) ''explicit callback port required'') (\<lambda>port.
     and_then (require (port \<ge> 1024 \<and> redirect = ''http://localhost:'' @ decimal port @ ''/'')
       ''callback must be canonical localhost on an unprivileged port'') (\<lambda>_.
     Inr port))))))))))))"

section \<open>Parts of the command line program\<close>

definition validate_account :: "string \<Rightarrow> string + unit" where
  "validate_account account = require (account \<noteq> [] \<and> length account \<le> 320 \<and> is_ascii account \<and> \<not> list_ex ascii_control account)
     ''invalid configured Google account''"

definition verify_browser_approval ::
    "crates \<Rightarrow> Message \<Rightarrow> string \<Rightarrow> string \<Rightarrow> string \<Rightarrow> verifying_key \<Rightarrow> string \<Rightarrow> string + unit" where
  "verify_browser_approval X message lane nonce account public_key signature =
     and_then (anyhow (decode_base64url X signature)) (\<lambda>der.
     and_then (ok_or (sig_from_der X der) ''signature error'') (\<lambda>signature.
     require (ecdsa_verify X public_key
       (browser_relay_signature_payload (approval_challenge X lane (m_attempt message) (m_expires message) nonce account)) signature)
       ''signature error''))"

text \<open>A file as \<open>symlink_metadata\<close> and \<open>read\<close> report it: whether it is a regular file, its mode bits, its contents.\<close>

record private_file =
  pf_is_file :: bool
  pf_mode :: u32
  pf_contents :: "string + bytes"

definition private_read :: "private_file option \<Rightarrow> string + bytes" where
  "private_read f = and_then (ok_or f ''no such file'') (\<lambda>f.
     and_then (require (pf_is_file f \<and> take_bit 6 (pf_mode f) = 0)
       ''configuration and keys must be regular private files (chmod 600)'') (\<lambda>_. pf_contents f))"

definition destination_ok :: "string \<Rightarrow> bool" where
  "destination_ok destination \<longleftrightarrow> \<not> starts_with ''-'' destination \<and> destination \<noteq> [] \<and>
     list_all (\<lambda>b. is_ascii_alphanumeric b \<or> b \<in> set ''@._-'') destination"

section \<open>What the checks accept\<close>

lemma require_Inr [simp]: "require b s = Inr u \<longleftrightarrow> b" "require True s = Inr ()"
  by (simp_all add: require_def)

lemma anyhow_Inr [simp]: "anyhow m = Inr x \<longleftrightarrow> m = Inr x" "anyhow (Inr x) = Inr x"
  by (cases m) (simp_all add: anyhow_def map_err_def)

text \<open>The documented laws of the codecs: a struct serialized to JSON reads back as itself.\<close>

definition relay_json_roundtrip :: "relay_crates \<Rightarrow> bool" where
  "relay_json_roundtrip R \<longleftrightarrow>
     (\<forall>m bs. rl_message_to_vec R m = Inr bs \<longrightarrow> rl_message_from_slice R bs = Inr m) \<and>
     (\<forall>e bs. rl_envelope_to_vec R e = Inr bs \<longrightarrow> rl_envelope_from_slice R bs = Inr e)"

text \<open>The key pair of a peer: what one signs the other verifies.\<close>

definition key_pair :: "crates \<Rightarrow> (bytes \<Rightarrow> bytes) \<Rightarrow> verifying_key \<Rightarrow> bool" where
  "key_pair X key public \<longleftrightarrow> (\<forall>m. \<exists>s. sig_from_der X (key m) = Some s \<and> ecdsa_verify X public m s)"

lemma verify_iff:
  "verify X R bs key now = Inr m \<longleftrightarrow>
     length bs \<le> MAX_FRAME \<and> (\<exists>envelope body der signature.
       rl_envelope_from_slice R bs = Inr envelope \<and>
       decode_base64url X (e_body envelope) = Inr body \<and>
       decode_base64url X (e_signature envelope) = Inr der \<and> sig_from_der X der = Some signature \<and>
       ecdsa_verify X key (RELAY_DOMAIN @ body) signature \<and> rl_message_from_slice R body = Inr m) \<and>
     m_version m = 1 \<and> rl_uuid_canonical R (m_attempt m) = Some (m_attempt m) \<and>
     now < m_expires m \<and> m_expires m \<le> now + MAX_LIFETIME"
  unfolding verify_def by (auto simp: and_then_Inr_iff ok_or_Inr_iff le_diff_conv)

lemma signed_frame_verifies:
  assumes "relay_json_roundtrip R" "b64_roundtrip X" "key_pair X key public"
    and "sign X R m key = Inr frame"
    and "m_version m = 1" "rl_uuid_canonical R (m_attempt m) = Some (m_attempt m)"
  shows "verify X R frame public now = Inr m \<longleftrightarrow> now < m_expires m \<and> m_expires m \<le> now + MAX_LIFETIME"
proof -
  obtain body where body: "rl_message_to_vec R m = Inr body"
    and frame: "rl_envelope_to_vec R \<lparr>e_body = encode_base64url X body, e_signature = encode_base64url X (key (RELAY_DOMAIN @ body))\<rparr> = Inr frame"
    and small: "length frame \<le> MAX_FRAME"
    using assms(4) by (auto simp: sign_def and_then_Inr_iff Let_def)
  obtain s where s: "sig_from_der X (key (RELAY_DOMAIN @ body)) = Some s" "ecdsa_verify X public (RELAY_DOMAIN @ body) s"
    using assms(3) unfolding key_pair_def by blast
  have "rl_message_from_slice R body = Inr m"
    "rl_envelope_from_slice R frame = Inr \<lparr>e_body = encode_base64url X body, e_signature = encode_base64url X (key (RELAY_DOMAIN @ body))\<rparr>"
    using assms(1) body frame by (auto simp: relay_json_roundtrip_def)
  then show ?thesis unfolding verify_iff
    using small s assms(5,6) decode_base64url_encode [OF assms(2)] by simp
qed

text \<open>ceremony frames round-trip. What one peer signs the other verifies as the same message at any
  moment of its life, given matching keys, codecs that read back what they wrote, a canonical attempt id and
  an expiry at most five minutes ahead; before that window and from the expiry on the same frame is refused.\<close>

theorem relay_frame_roundtrip:
  assumes "relay_json_roundtrip R" "b64_roundtrip X" "key_pair X key public"
    and "sign X R m key = Inr frame"
    and "m_version m = 1" "rl_uuid_canonical R (m_attempt m) = Some (m_attempt m)"
  shows "verify X R frame public now = Inr m \<longleftrightarrow> now < m_expires m \<and> m_expires m \<le> now + MAX_LIFETIME"
  by (rule signed_frame_verifies) (rule assms)+

lemma collect_params_Inr:
  "collect_params pairs params = Inr result \<longleftrightarrow>
     list_all (\<lambda>(n, v). n \<in> set oauth_parameters \<and> n \<noteq> ''rapt'' \<and> params n = None) pairs \<and> distinct (map fst pairs) \<and>
     result = params ++ map_of pairs"
proof (induction pairs arbitrary: params)
  case (Cons p pairs)
  obtain name v where p: "p = (name, v)" by (cases p)
  let ?ok = "name \<in> set oauth_parameters \<and> name \<noteq> ''rapt'' \<and> params name = None"
  let ?good = "\<lambda>params. list_all (\<lambda>(n, w). n \<in> set oauth_parameters \<and> n \<noteq> ''rapt'' \<and> params n = None) pairs"
  show ?case
  proof (cases ?ok)
    case True
    have upd: "(params(name \<mapsto> v)) n = None \<longleftrightarrow> n \<noteq> name \<and> params n = None" for n by simp
    have good: "?good (params(name \<mapsto> v)) \<longleftrightarrow> ?good params \<and> name \<notin> set (map fst pairs)"
      unfolding upd list_all_iff by (auto simp: image_iff)
    have sum: "params(name \<mapsto> v) ++ map_of pairs = params ++ map_of (p # pairs)" if "name \<notin> set (map fst pairs)"
    proof -
      have "map_of pairs name = None" using that by (simp add: map_of_eq_None_iff)
      then show ?thesis by (auto simp: p map_add_def fun_eq_iff split: option.split)
    qed
    have "collect_params (p # pairs) params = collect_params pairs (params(name \<mapsto> v))"
      using True by (simp add: p require_def)
    then have eq: "collect_params (p # pairs) params = Inr result \<longleftrightarrow> (?good params \<and> name \<notin> set (map fst pairs)) \<and>
        distinct (map fst pairs) \<and> result = params(name \<mapsto> v) ++ map_of pairs"
      by (simp only: Cons.IH good)
    have head: "list_all (\<lambda>(n, w). n \<in> set oauth_parameters \<and> n \<noteq> ''rapt'' \<and> params n = None) (p # pairs) = ?good params"
      "distinct (map fst (p # pairs)) \<longleftrightarrow> name \<notin> set (map fst pairs) \<and> distinct (map fst pairs)"
      using True by (simp_all add: p)
    show ?thesis unfolding eq head using sum by metis
  next
    case False
    then have "collect_params (p # pairs) params \<noteq> Inr result" by (auto simp: p and_then_Inr_iff)
    then show ?thesis using False by (auto simp: p)
  qed
qed auto

text \<open>C37: the only authorization URLs relayed. A URL is accepted exactly when it is printable ASCII of at most
  8192 bytes, names one of the two Google endpoints over https with no port, credentials or fragment, carries
  distinct parameters of the allowlist and no proof token, asks for a code for the gcloud client with state,
  scope and a 32-byte S256 challenge, and its callback is literally localhost on the unprivileged port returned.\<close>

theorem google_callback_port_iff:
  "google_callback_port X R raw = Inr port \<longleftrightarrow>
     length raw \<le> 8192 \<and> list_all (\<lambda>c. of_char c \<in> {32..<127 :: nat} - {0x5C}) raw \<and>
     (\<exists>url callback challenge param. rl_url_parse R raw = Inr url \<and>
        u_scheme url = ''https'' \<and> u_host url = Some ''accounts.google.com'' \<and> u_port url = None \<and> u_username url = [] \<and>
        u_password url = None \<and> u_fragment url = None \<and> u_path url \<in> {''/o/oauth2/auth'', ''/o/oauth2/v2/auth''} \<and>
        set (map fst (u_query_pairs url)) \<subseteq> set oauth_parameters - {''rapt''} \<and> distinct (map fst (u_query_pairs url)) \<and>
        param = (\<lambda>name. case map_of (u_query_pairs url) name of None \<Rightarrow> [] | Some v \<Rightarrow> v) \<and>
        param ''client_id'' = ''32555940559.apps.googleusercontent.com'' \<and> param ''response_type'' = ''code'' \<and>
        param ''state'' \<noteq> [] \<and> param ''scope'' \<noteq> [] \<and> param ''code_challenge_method'' = ''S256'' \<and>
        decode_base64url X (param ''code_challenge'') = Inr challenge \<and> length challenge = 32 \<and>
        rl_url_parse R (param ''redirect_uri'') = Inr callback \<and> u_port callback = Some port \<and>
        param ''redirect_uri'' = ''http://localhost:'' @ decimal port @ ''/'') \<and> 1024 \<le> port"
proof -
  have printable: "is_ascii raw \<and> \<not> list_ex (\<lambda>b. ascii_control b \<or> b = CHR 0x5C) raw \<longleftrightarrow>
      list_all (\<lambda>c. of_char c \<in> {32..<127 :: nat} - {0x5C}) raw"
  proof -
    have "c = CHR 0x5C \<longleftrightarrow> of_char c = (of_char (CHR 0x5C) :: nat)" for c :: char by (simp only: of_char_eq_iff)
    then have slash: "c = CHR 0x5C \<longleftrightarrow> of_char c = (0x5C :: nat)" for c :: char by simp
    have "(of_char c :: nat) \<in> {32..<127} - {0x5C} \<longleftrightarrow> of_char c < (128 :: nat) \<and> \<not> (ascii_control c \<or> c = CHR 0x5C)" for c
      unfolding ascii_control_def slash by (cases "(of_char c :: nat) = 127") auto
    then show ?thesis unfolding is_ascii_def list_all_iff list_ex_iff by blast
  qed
  have pairs: "list_all (\<lambda>(n, v). n \<in> set oauth_parameters \<and> n \<noteq> ''rapt'' \<and> (\<lambda>_. None) n = None) ps \<longleftrightarrow>
      set (map fst ps) \<subseteq> set oauth_parameters - {''rapt''}" for ps :: "(string \<times> string) list"
    by (auto simp: list_all_iff)
  show ?thesis
    unfolding google_callback_port_def Let_def and_then_Inr_iff require_Inr collect_params_Inr pairs anyhow_Inr ok_or_Inr_iff printable [symmetric]
    by auto
qed

end
