(* ===== verification/Relay_Ceremony.thy ===== *)
theory Relay_Ceremony
  imports Relay "HOL-Library.Sublist"
begin

text \<open>
  The two sides of a browser ceremony (\<open>relay/src/main.rs\<close>): the login on the headless host and the
  receiver on the Mac. Frames arriving on a subscription, the answers of the broker and the events of
  the processes are arguments; what a side publishes, starts and shows is its log. Every operation of
  the source that may fail and touches the subscription is a function on a \<open>world\<close>.
\<close>

section \<open>Peers\<close>

record Peer =
  p_signing :: "bytes \<Rightarrow> bytes"
  p_verifying :: verifying_key
  p_subject :: string

record Config =
  c_nats_url :: string
  c_lane :: string
  c_private_key :: "private_file option"
  c_peer_public_key :: string
  c_google_account :: "string option"
  c_approval_public_key :: "string option"
  c_approval_identity :: "string option"
  c_ssh_destination :: "string option"

text \<open>Options of the connection: whether TLS is required, and the credentials of the URL.\<close>

definition nats_options :: "relay_crates \<Rightarrow> (string \<Rightarrow> string option) \<Rightarrow> string \<Rightarrow> string + (bool \<times> (string \<times> string) option)" where
  "nats_options R percent_decode url =
     and_then (rl_url_parse R url) (\<lambda>parsed.
     if u_username parsed = []
     then and_then (require (u_password parsed = None) ''NATS URL password requires a username'') (\<lambda>_. Inr (nats_url_is_tls url, None))
     else and_then (ok_or (percent_decode (u_username parsed)) ''decode NATS username'') (\<lambda>username.
          and_then (case u_password parsed of None \<Rightarrow> Inr []
                    | Some password \<Rightarrow> ok_or (percent_decode password) ''decode NATS password'') (\<lambda>password.
          Inr (nats_url_is_tls url, Some (username, password)))))"

text \<open>\<open>signing_key\<close> is \<open>SigningKey::from_slice\<close>, \<open>reach\<close> whether the broker accepts the options.\<close>

definition connect :: "crates \<Rightarrow> relay_crates \<Rightarrow> (string \<Rightarrow> string option) \<Rightarrow> (bytes \<Rightarrow> (bytes \<Rightarrow> bytes) option) \<Rightarrow>
    (bool \<times> (string \<times> string) option \<Rightarrow> bool) \<Rightarrow> Config \<Rightarrow> string + Peer" where
  "connect X R percent_decode signing_key reach config =
     and_then (require (rl_uuid_canonical R (c_lane config) = Some (c_lane config)) ''lane must be a canonical UUID'') (\<lambda>_.
     and_then (anyhow (check_nats_url (c_nats_url config) False)) (\<lambda>_.
     and_then (private_read (c_private_key config)) (\<lambda>secret.
     and_then (ok_or (from_utf8 secret) ''utf-8'') (\<lambda>secret.
     and_then (anyhow (decode_base64url X (trim_str secret))) (\<lambda>secret.
     and_then (ok_or (signing_key secret) ''signing key'') (\<lambda>signing.
     and_then (anyhow (decode_base64url X (c_peer_public_key config))) (\<lambda>peer_key.
     and_then (ok_or (vk_from_sec1_bytes X peer_key) ''verifying key'') (\<lambda>verifying.
     and_then (nats_options R percent_decode (c_nats_url config)) (\<lambda>options.
     and_then (require (reach options) ''connect to relay NATS'') (\<lambda>_.
     Inr \<lparr>p_signing = signing, p_verifying = verifying, p_subject = ''oshioki.browser.v1.'' @ c_lane config\<rparr>))))))))))"

section \<open>The world of a ceremony\<close>

text \<open>A frame with the clock when it is looked at, or the end of the wait of a receive: its timer ran out, or the
  select or timeout around it dropped it.\<close>

datatype inbound = Frame nat bytes | Lapsed

datatype ceremony_act =
    Published string Action
  | PromptRaised string string
  | GcloudStarted "string option"
  | GcloudTerminated
  | LauncherReleased
  | BrowserOpened string
  | Forwarding nat string

text \<open>The broker and the operating system answer their calls in order; no further answer is a failure. Operations
  that wait can be dropped at any await by the timeout or the select they run under: \<open>w_cut\<close> counts the awaits
  they still pass and holds the error the drop has as its outcome.\<close>

type_synonym cut = "(nat \<times> string) option"

record world =
  w_inbox :: "inbound list"
  w_answers :: "bool list"
  w_cut :: cut
  w_log :: "ceremony_act list"

definition await :: "world \<Rightarrow> (string + unit) \<times> world" where
  "await w = (case w_cut w of
       None \<Rightarrow> (Inr (), w)
     | Some (0, e) \<Rightarrow> (Inl e, w)
     | Some (Suc n, e) \<Rightarrow> (Inr (), w\<lparr>w_cut := Some (n, e)\<rparr>))"

definition until :: "cut \<Rightarrow> (world \<Rightarrow> (string + 'a) \<times> world) \<Rightarrow> world \<Rightarrow> (string + 'a) \<times> world" where
  "until c m w = (case m (w\<lparr>w_cut := c\<rparr>) of (r, w') \<Rightarrow> (r, w'\<lparr>w_cut := None\<rparr>))"

definition note_act :: "ceremony_act \<Rightarrow> world \<Rightarrow> (string + unit) \<times> world" where
  "note_act a w = (Inr (), w\<lparr>w_log := w_log w @ [a]\<rparr>)"

definition io :: "string \<Rightarrow> world \<Rightarrow> (string + unit) \<times> world" where
  "io e = then_do await (\<lambda>_ w. case w_answers w of [] \<Rightarrow> (Inl e, w)
     | answer # answers \<Rightarrow> (require answer e, w\<lparr>w_answers := answers\<rparr>))"

definition publish :: "crates \<Rightarrow> relay_crates \<Rightarrow> Peer \<Rightarrow> string \<Rightarrow> Message \<Rightarrow> Action \<Rightarrow> world \<Rightarrow> (string + unit) \<times> world" where
  "publish X R peer subject template action =
     then_do (lift (sign X R (template\<lparr>m_action := action\<rparr>) (p_signing peer))) (\<lambda>_.
     then_do (io ''publish'') (\<lambda>_. note_act (Published subject action)))"

definition send :: "crates \<Rightarrow> relay_crates \<Rightarrow> Peer \<Rightarrow> string \<Rightarrow> Message \<Rightarrow> Action \<Rightarrow> world \<Rightarrow> (string + unit) \<times> world" where
  "send X R peer subject template action = then_do (publish X R peer subject template action) (\<lambda>_. io ''flush'')"

fun receive_from :: "crates \<Rightarrow> relay_crates \<Rightarrow> Peer \<Rightarrow> Message \<Rightarrow> inbound list \<Rightarrow> (string + Message) \<times> inbound list" where
  "receive_from X R peer attempt [] = (Inl ''relay subscription ended'', [])"
| "receive_from X R peer attempt (Lapsed # inbox) = (Inl ''deadline has elapsed'', inbox)"
| "receive_from X R peer attempt (Frame now frame # inbox) =
     (case verify X R frame (p_verifying peer) now of
        Inl _ \<Rightarrow> receive_from X R peer attempt inbox
      | Inr message \<Rightarrow>
          if m_attempt message = m_attempt attempt \<and> m_expires message = m_expires attempt then (Inr message, inbox)
          else receive_from X R peer attempt inbox)"

definition receive :: "crates \<Rightarrow> relay_crates \<Rightarrow> Peer \<Rightarrow> Message \<Rightarrow> world \<Rightarrow> (string + Message) \<times> world" where
  "receive X R peer attempt = then_do await (\<lambda>_ w.
     case receive_from X R peer attempt (w_inbox w) of (m, inbox) \<Rightarrow> (m, w\<lparr>w_inbox := inbox\<rparr>))"

section \<open>The headless host\<close>

definition authorize_account ::
    "crates \<Rightarrow> relay_crates \<Rightarrow> Peer \<Rightarrow> Message \<Rightarrow> string \<Rightarrow> string \<Rightarrow> Config \<Rightarrow> world \<Rightarrow> (string + unit) \<times> world" where
  "authorize_account X R peer attempt nonce account config =
     then_do (lift (validate_account account)) (\<lambda>_.
     then_do (lift (ok_or (c_approval_public_key config) ''approval_public_key is required with google_account'')) (\<lambda>key.
     then_do (lift (and_then (anyhow (decode_base64url X key)) (\<lambda>bs. ok_or (vk_from_sec1_bytes X bs) ''verifying key''))) (\<lambda>key.
     then_do (send X R peer (p_subject peer) attempt (Authorize nonce account)) (\<lambda>_.
     then_do (receive X R peer attempt) (\<lambda>authorized.
     lift (case m_action authorized of
         Authorized authorized_nonce signature \<Rightarrow>
           and_then (require (nonce = authorized_nonce) ''stale Mac authorization'') (\<lambda>_.
           map_err (\<lambda>_. ''verify Mac Oshioki approval'') (verify_browser_approval X attempt (c_lane config) nonce account key signature))
       | _ \<Rightarrow> Inl ''Mac relay did not authorize the configured Google account''))))))"

definition startup :: "crates \<Rightarrow> relay_crates \<Rightarrow> Peer \<Rightarrow> Message \<Rightarrow> world \<Rightarrow> (string + Message) \<times> world" where
  "startup X R peer attempt =
     then_do (io ''subscribe'') (\<lambda>_.
     then_do (io ''flush'') (\<lambda>_.
     then_do (publish X R peer (p_subject peer) attempt Probe) (\<lambda>_.
     then_do (io ''flush'') (\<lambda>_. receive X R peer attempt))))"

datatype LoginAttempt = Headless | Browser

text \<open>Whether the launcher connects with a URL or gcloud exits first, and whether gcloud ends or the Mac speaks.\<close>

datatype capture_event = Captured bytes | CaptureFailed string | ExitedFirst "string + bool"
datatype finish_event = GcloudEnded "string + bool" | MacSpoke

definition login_attempt :: "crates \<Rightarrow> relay_crates \<Rightarrow> Peer \<Rightarrow> Message \<Rightarrow> string \<Rightarrow> capture_event \<Rightarrow> finish_event \<Rightarrow> bool
    \<Rightarrow> world \<Rightarrow> (string + LoginAttempt) \<times> world" where
  "login_attempt X R peer attempt nonce capture finish allow_headless =
     then_do await (\<lambda>_. case capture of
        CaptureFailed e \<Rightarrow> lift (Inl e)
      | ExitedFirst status \<Rightarrow>
          lift (and_then status (\<lambda>success.
            and_then (require success ''Google sign-in failed or was denied'') (\<lambda>_.
            and_then (require allow_headless ''gcloud exited without a browser ceremony'') (\<lambda>_. Inr Headless))))
      | Captured bs \<Rightarrow>
          then_do await (\<lambda>_.
          then_do (lift (ok_or (from_utf8 (take 8193 bs)) ''utf-8'')) (\<lambda>url.
          then_do (lift (google_callback_port X R url)) (\<lambda>_.
          then_do (send X R peer (p_subject peer) attempt (Start nonce url)) (\<lambda>_.
          then_do (receive X R peer attempt) (\<lambda>ready.
          then_do (lift (require (m_action ready = Ready) ''Mac failed to start the browser ceremony'')) (\<lambda>_.
          then_do (io ''write launcher'') (\<lambda>_.
          then_do (note_act LauncherReleased) (\<lambda>_.
          then_do (io ''shut launcher down'') (\<lambda>_.
          then_do await (\<lambda>_. case finish of
             GcloudEnded status \<Rightarrow> lift (and_then status (\<lambda>success.
               and_then (require success ''Google sign-in failed or was denied'') (\<lambda>_. Inr Browser)))
           | MacSpoke \<Rightarrow> then_do (\<lambda>w. (Inr (), snd (receive X R peer attempt w))) (\<lambda>_.
               lift (Inl ''Mac browser relay ended before gcloud completed'')))))))))))))"

definition validate_headless_account :: "string + bool \<times> bytes \<Rightarrow> string + unit" where
  "validate_headless_account output = and_then output (\<lambda>(success, stdout).
     require (success \<and> stdout \<noteq> []) ''configured Google credentials could not produce an access token'')"

text \<open>The deadline and the expiry written into the attempt: whole seconds, at least one, saturating.\<close>

definition ceremony_deadline :: "nat \<Rightarrow> nat \<Rightarrow> string + nat" where
  "ceremony_deadline lifetime_ms now =
     and_then (require (lifetime_ms \<noteq> 0) ''ceremony lifetime must be nonzero'') (\<lambda>_.
     Inr (min (now + max (lifetime_ms div 1000) 1) (2 ^ 64 - 1)))"

text \<open>What a login meets, with where the deadline, an interrupt or the two seconds of the cleanup cut each of its
  bounded parts short. \<open>le_peer\<close> is the connection within its own deadline.\<close>

record login_env =
  le_now :: nat
  le_uuid :: string
  le_peer :: "string + Peer"
  le_startup_cut :: cut
  le_authorize_cut :: cut
  le_in_time :: bool
  le_executable :: "string option"
  le_attempt_cut :: cut
  le_capture :: capture_event
  le_finish :: finish_event
  le_token :: "string + bool \<times> bytes"
  le_stop_cut :: cut

definition stop_ceremony :: "crates \<Rightarrow> relay_crates \<Rightarrow> Peer \<Rightarrow> Message \<Rightarrow> world \<Rightarrow> (string + unit) \<times> world" where
  "stop_ceremony X R peer attempt =
     then_do (send X R peer (p_subject peer) attempt Stop) (\<lambda>_.
     then_do (receive X R peer attempt) (\<lambda>closed.
     lift (require (m_action closed = CeremonyClosed) ''Mac relay did not confirm cleanup'')))"

text \<open>The part after the authorization: the launcher socket, gcloud and the end of the ceremony.\<close>

definition run_gcloud :: "crates \<Rightarrow> relay_crates \<Rightarrow> login_env \<Rightarrow> Peer \<Rightarrow> Message \<Rightarrow> string \<Rightarrow> string option \<Rightarrow> world \<Rightarrow> (string + unit) \<times> world" where
  "run_gcloud X R env peer attempt nonce account =
     then_do (lift (require (le_in_time env) ''browser ceremony expired before launcher setup'')) (\<lambda>_.
     then_do (io ''create directory'') (\<lambda>_.
     then_do (io ''bind'') (\<lambda>_.
     then_do (lift (ok_or (le_executable env) ''executable path is not UTF-8'')) (\<lambda>executable.
     then_do (lift (require (\<not> list_ex (\<lambda>c. c \<in> {CHR '':'', CHR 0x27, CHR 0x0A}) executable)
       ''unsupported executable path for Python BROWSER'')) (\<lambda>_.
     then_do (io ''start gcloud'') (\<lambda>_.
     then_do (note_act (GcloudStarted account)) (\<lambda>_ w.
       let (outcome, w) = until (le_attempt_cut env)
             (login_attempt X R peer attempt nonce (le_capture env) (le_finish env) (account \<noteq> None)) w;
           w = snd (note_act GcloudTerminated w);
           outcome = (if outcome = Inr Headless \<and> account \<noteq> None
                      then and_then (validate_headless_account (le_token env)) (\<lambda>_. outcome) else outcome);
           (stopped, w) = until (le_stop_cut env) (stop_ceremony X R peer attempt) w
       in (and_then outcome (\<lambda>_. stopped), w))))))))"

definition login_with_lifetime :: "crates \<Rightarrow> relay_crates \<Rightarrow> login_env \<Rightarrow> Config \<Rightarrow> nat \<Rightarrow> world \<Rightarrow> (string + unit) \<times> world" where
  "login_with_lifetime X R env config lifetime_ms =
     then_do (lift (ceremony_deadline lifetime_ms (le_now env))) (\<lambda>expires.
     let attempt = \<lparr>m_version = 1, m_attempt = le_uuid env, m_expires = expires, m_action = Probe\<rparr> in
     then_do (lift (le_peer env)) (\<lambda>peer.
     then_do (until (le_startup_cut env) (startup X R peer attempt)) (\<lambda>offer.
     case m_action offer of
       Offer nonce \<Rightarrow>
         let account = c_google_account config in
         then_do (lift (require ((account \<noteq> None) = (c_approval_public_key config \<noteq> None))
           ''google_account and approval_public_key must be configured together'')) (\<lambda>_.
         case account of
           None \<Rightarrow> run_gcloud X R env peer attempt nonce None
         | Some name \<Rightarrow> (\<lambda>w. case until (le_authorize_cut env) (authorize_account X R peer attempt nonce name config) w of
             (Inl e, w) \<Rightarrow> (Inl e, snd (until (le_stop_cut env) (stop_ceremony X R peer attempt) w))
           | (Inr _, w) \<Rightarrow> run_gcloud X R env peer attempt nonce account w))
     | _ \<Rightarrow> lift (Inl ''Mac relay unavailable''))))"

definition login :: "crates \<Rightarrow> relay_crates \<Rightarrow> login_env \<Rightarrow> Config \<Rightarrow> world \<Rightarrow> (string + unit) \<times> world" where
  "login X R env config = login_with_lifetime X R env config (MAX_LIFETIME * 1000)"

section \<open>The Mac\<close>

text \<open>\<open>native_approval::authorize\<close>: the Touch ID sheet of the agent around the signature of the ceremony.\<close>

definition native_authorize :: "crates \<Rightarrow> TouchIdPrompt \<Rightarrow> Identity \<Rightarrow> Message \<Rightarrow> string \<Rightarrow> string \<Rightarrow> string \<Rightarrow> string
    \<Rightarrow> string + bytes option" where
  "native_authorize X prompt signer attempt lane nonce account destination =
     (let challenge = approval_challenge X lane (m_attempt attempt) (m_expires attempt) nonce account;
          reason = ''authorize gcloud for '' @ account @ '' via '' @ destination
      in and_then (require (m_expires attempt < 2 ^ 63) ''ceremony expiry is too large'') (\<lambda>_.
         and_then (touch_id_ask prompt (int (m_expires attempt)) (map_err classify (sign_browser_relay signer challenge reason))) (\<lambda>outcome.
         case outcome of
           Outcome.Approved signature \<Rightarrow> Inr (Some signature)
         | _ \<Rightarrow> Inr None)))"

text \<open>While the sheet is up it can be answered, time out, or a message can arrive first.\<close>

datatype authorization_event = SheetAnswered TouchIdPrompt | SheetTimedOut | MessageFirst

datatype loop_event = ControlMessage | Accepted | AcceptFailed string | ForwardEnded "string + unit"

record serve_env =
  se_nonce :: string
  se_authorization :: authorization_event
  se_opened :: "string + bool"
  se_loop :: "loop_event list"
  se_cut :: cut
  se_close_cut :: cut

text \<open>The loop of the running ceremony; at most eight connections, each handed to one \<open>ssh\<close>. A disabled branch
  of the select is not polled. No further event is the ceremony's deadline.\<close>

fun serve_connections :: "crates \<Rightarrow> relay_crates \<Rightarrow> Peer \<Rightarrow> Message \<Rightarrow> string \<Rightarrow> nat \<Rightarrow> loop_event list \<Rightarrow> nat \<Rightarrow> world \<Rightarrow> (string + unit) \<times> world" where
  "serve_connections X R peer attempt destination port [] connections w = (Inl ''ceremony expired'', w)"
| "serve_connections X R peer attempt destination port (e # es) connections w =
     (case e of
        ControlMessage \<Rightarrow> then_do (receive X R peer attempt) (\<lambda>message.
          lift (require (m_action message = Stop) ''unexpected ceremony control message'')) w
      | Accepted \<Rightarrow>
          if connections < 8
          then serve_connections X R peer attempt destination port es (Suc connections) (snd (note_act (Forwarding port destination) w))
          else serve_connections X R peer attempt destination port es connections w
      | AcceptFailed err \<Rightarrow> if connections < 8 then (Inl err, w) else serve_connections X R peer attempt destination port es connections w
      | ForwardEnded _ \<Rightarrow> serve_connections X R peer attempt destination port es (connections - 1) w)"

text \<open>The messages before the browser: \<open>None\<close> when the ceremony was stopped in good order.\<close>

definition authorized_start ::
    "crates \<Rightarrow> relay_crates \<Rightarrow> serve_env \<Rightarrow> Peer \<Rightarrow> Message \<Rightarrow> string \<Rightarrow> string \<Rightarrow> string option \<Rightarrow> string \<Rightarrow> Identity option
     \<Rightarrow> string \<Rightarrow> string \<Rightarrow> world \<Rightarrow> (string + string option) \<times> world" where
  "authorized_start X R env peer attempt reply_to lane expected_account destination signer offered account =
     then_do (lift (require (se_nonce env = offered) ''stale receiver nonce'')) (\<lambda>_.
     then_do (lift (validate_account account)) (\<lambda>_.
     then_do (lift (require (expected_account = Some account) ''Google account does not match Mac configuration'')) (\<lambda>_.
     then_do (lift (ok_or signer ''Mac Oshioki approval identity is not configured'')) (\<lambda>signer.
     then_do (note_act (PromptRaised account destination)) (\<lambda>_.
     case se_authorization env of
       SheetTimedOut \<Rightarrow> lift (Inl ''Oshioki authorization timed out'')
     | MessageFirst \<Rightarrow> then_do (receive X R peer attempt) (\<lambda>message.
         lift (and_then (require (m_action message = Stop) ''unexpected ceremony control message'') (\<lambda>_. Inr None)))
     | SheetAnswered prompt \<Rightarrow>
         then_do (lift (native_authorize X prompt signer attempt lane offered account destination)) (\<lambda>authorization.
         then_do (lift (ok_or authorization ''Oshioki approval was denied or expired'')) (\<lambda>signature.
         then_do (send X R peer reply_to attempt (Authorized offered (encode_base64url X signature))) (\<lambda>_.
         then_do (receive X R peer attempt) (\<lambda>message.
         lift (case m_action message of
             Start offered url \<Rightarrow> and_then (require (se_nonce env = offered) ''stale receiver nonce'') (\<lambda>_. Inr (Some url))
           | Stop \<Rightarrow> Inr None
           | _ \<Rightarrow> Inl ''ceremony cancelled before browser start''))))))))))"

definition serve_attempt ::
    "crates \<Rightarrow> relay_crates \<Rightarrow> serve_env \<Rightarrow> Peer \<Rightarrow> Message \<Rightarrow> string \<Rightarrow> string \<Rightarrow> string option \<Rightarrow> string \<Rightarrow> Identity option
     \<Rightarrow> world \<Rightarrow> (string + unit) \<times> world" where
  "serve_attempt X R env peer attempt reply_to lane expected_account destination signer =
     then_do (send X R peer reply_to attempt (Offer (se_nonce env))) (\<lambda>_.
     then_do (receive X R peer attempt) (\<lambda>message.
     then_do (case m_action message of
         Authorize offered account \<Rightarrow> authorized_start X R env peer attempt reply_to lane expected_account destination signer offered account
       | Start offered url \<Rightarrow> lift (
           and_then (require (signer = None) ''configured Mac approval requires an Authorize action'') (\<lambda>_.
           and_then (require (se_nonce env = offered) ''stale receiver nonce'') (\<lambda>_. Inr (Some url))))
       | _ \<Rightarrow> lift (Inl ''ceremony cancelled before start'')) (\<lambda>started.
     case started of
       None \<Rightarrow> lift (Inr ())
     | Some url \<Rightarrow>
         then_do (lift (google_callback_port X R url)) (\<lambda>port.
         then_do (io ''bind 127.0.0.1'') (\<lambda>_.
         then_do (io ''bind ::1'') (\<lambda>_.
         then_do (io ''open'') (\<lambda>_.
         then_do (note_act (BrowserOpened url)) (\<lambda>_.
         then_do (lift (and_then (se_opened env) (\<lambda>success. require success ''default browser could not be opened''))) (\<lambda>_.
         then_do (send X R peer reply_to attempt Ready) (\<lambda>_.
         serve_connections X R peer attempt destination port (se_loop env) 0))))))))))"

text \<open>The reply that ends an attempt, all of it best effort.\<close>

definition close_attempt :: "crates \<Rightarrow> relay_crates \<Rightarrow> serve_env \<Rightarrow> Peer \<Rightarrow> Message \<Rightarrow> string \<Rightarrow> string + unit \<Rightarrow> world \<Rightarrow> world" where
  "close_attempt X R env peer attempt reply_to result w =
     snd (until (se_close_cut env) (case result of
         Inr _ \<Rightarrow> send X R peer reply_to attempt CeremonyClosed
       | Inl _ \<Rightarrow> then_do (send X R peer reply_to attempt CeremonyFailed) (\<lambda>_.
           then_do (receive X R peer attempt) (\<lambda>message.
           then_do (lift (require (m_action message = Stop) ''expected Stop after failed ceremony'')) (\<lambda>_.
           send X R peer reply_to attempt CeremonyClosed)))) w)"

text \<open>The receiver: the table of attempts seen, and the attempts it served, newest first, with the clock when the
  frame was verified and when the deadline of the attempt was set. It runs while frames arrive and there are
  environments for the attempts it starts. The clock is read once to verify a frame, again for each entry of
  the table, and once more for the deadline.\<close>

record receiver =
  rx_seen :: "(string \<times> nat) list"
  rx_served :: "(nat \<times> nat \<times> Message) list"

record readings =
  rd_retain :: "string \<Rightarrow> nat"
  rd_deadline :: nat

definition prune_seen :: "(string \<Rightarrow> nat) \<Rightarrow> (string \<times> nat) list \<Rightarrow> (string \<times> nat) list" where
  "prune_seen now seen = filter (\<lambda>(attempt, expires). expires > now attempt) seen"

definition admit_probe :: "crates \<Rightarrow> relay_crates \<Rightarrow> Peer \<Rightarrow> nat \<Rightarrow> readings \<Rightarrow> bytes \<Rightarrow> receiver \<Rightarrow> Message option \<times> receiver" where
  "admit_probe X R peer now rd frame rx =
     (case verify X R frame (p_verifying peer) now of
        Inl _ \<Rightarrow> (None, rx)
      | Inr attempt \<Rightarrow>
          if m_action attempt \<noteq> Probe then (None, rx)
          else let seen = prune_seen (rd_retain rd) (rx_seen rx) in
            if m_attempt attempt \<in> fst ` set seen \<or> length seen \<ge> 128 then (None, rx\<lparr>rx_seen := seen\<rparr>)
            else (Some attempt, \<lparr>rx_seen = (m_attempt attempt, m_expires attempt) # seen,
                rx_served = (now, rd_deadline rd, attempt) # rx_served rx\<rparr>))"

text \<open>The receiving loop, with one environment per attempt it starts; \<open>rd n\<close> are the further readings of the clock
  for the frame behind which \<open>n\<close> others wait.\<close>

function serve_loop ::
    "crates \<Rightarrow> relay_crates \<Rightarrow> Peer \<Rightarrow> string \<Rightarrow> string option \<Rightarrow> string \<Rightarrow> Identity option \<Rightarrow> (nat \<Rightarrow> readings)
     \<Rightarrow> serve_env list \<Rightarrow> world \<Rightarrow> receiver
     \<Rightarrow> receiver \<times> world" where
  "serve_loop X R peer lane account destination signer rd envs w rx =
     (case w_inbox w of
        [] \<Rightarrow> (rx, w)
      | Lapsed # inbox \<Rightarrow> serve_loop X R peer lane account destination signer rd envs (w\<lparr>w_inbox := inbox\<rparr>) rx
      | Frame now frame # inbox \<Rightarrow>
          (case admit_probe X R peer now (rd (length inbox)) frame rx of
             (None, rx') \<Rightarrow> serve_loop X R peer lane account destination signer rd envs (w\<lparr>w_inbox := inbox\<rparr>) rx'
           | (Some attempt, rx') \<Rightarrow>
               (case envs of
                  [] \<Rightarrow> (rx', w\<lparr>w_inbox := inbox\<rparr>)
                | env # envs' \<Rightarrow>
                    let reply_to = p_subject peer @ ''.reply.'' @ m_attempt attempt;
                        (result, w') = until (se_cut env) (serve_attempt X R env peer attempt reply_to lane account destination signer) (w\<lparr>w_inbox := inbox\<rparr>)
                    in serve_loop X R peer lane account destination signer rd envs' (close_attempt X R env peer attempt reply_to result w') rx')))"
  by pat_completeness auto
termination
  by (relation "measures [\<lambda>(_, _, _, _, _, _, _, _, envs, _, _). length envs, \<lambda>(_, _, _, _, _, _, _, _, _, w, _). length (w_inbox w)]") auto

declare serve_loop.simps [simp del]

definition serve :: "crates \<Rightarrow> relay_crates \<Rightarrow> bool \<Rightarrow> string + Peer \<Rightarrow> string + Identity option \<Rightarrow> Config \<Rightarrow> (nat \<Rightarrow> readings) \<Rightarrow> serve_env list \<Rightarrow> world
    \<Rightarrow> (string + receiver) \<times> world" where
  "serve X R macos peer identity config rd envs =
     then_do (lift (require macos ''browser ceremony receiver requires macOS'')) (\<lambda>_.
     then_do (lift (ok_or (c_ssh_destination config) ''ssh_destination is required on Mac'')) (\<lambda>destination.
     then_do (lift (require (destination_ok destination) ''invalid configured SSH destination'')) (\<lambda>_.
     then_do (lift (require ((c_google_account config \<noteq> None) = (c_approval_identity config \<noteq> None))
       ''google_account and approval_identity must be configured together on Mac'')) (\<lambda>_.
     then_do (lift (if c_approval_identity config = None then Inr None else identity)) (\<lambda>signer.
     then_do (lift peer) (\<lambda>peer.
     then_do (io ''subscribe'') (\<lambda>_.
     then_do (io ''flush'') (\<lambda>_ w.
       case serve_loop X R peer (c_lane config) (c_google_account config) destination signer rd envs w \<lparr>rx_seen = [], rx_served = []\<rparr> of
         (rx, w) \<Rightarrow> (Inr rx, w)))))))))"

section \<open>How a world evolves\<close>

text \<open>The inbox is consumed from the front and the log only grows.\<close>

definition evolves :: "world \<Rightarrow> world \<Rightarrow> bool" where
  "evolves w w' \<longleftrightarrow> suffix (w_inbox w') (w_inbox w) \<and> prefix (w_log w) (w_log w')"

lemma evolves_refl [simp]: "evolves w w"
  by (simp add: evolves_def)

lemma evolves_trans: "evolves u v \<Longrightarrow> evolves v w \<Longrightarrow> evolves u w"
  unfolding evolves_def by (meson prefix_order.trans suffix_order.trans)

definition evolving :: "(world \<Rightarrow> (string + 'a) \<times> world) \<Rightarrow> bool" where
  "evolving m \<longleftrightarrow> (\<forall>w. evolves w (snd (m w)))"

named_theorems evolving_intros

lemma evolvingD: "evolving m \<Longrightarrow> m w = (r, w') \<Longrightarrow> evolves w w'"
  unfolding evolving_def by (metis snd_conv)

lemma evolving_then_do [evolving_intros]:
  assumes "evolving m" "\<And>x. evolving (f x)"
  shows "evolving (then_do m f)"
proof -
  have "evolves w w'" if "then_do m f w = (r, w')" for w r w'
    using that assms by (cases rule: then_do_E) (blast dest: evolvingD intro: evolves_trans)+
  then show ?thesis unfolding evolving_def by (metis prod.collapse)
qed

lemma await_log: "await w = (r, w') \<Longrightarrow> w_log w' = w_log w \<and> w_inbox w' = w_inbox w"
  by (auto simp: await_def split: option.splits prod.splits nat.splits)

lemma evolving_await [evolving_intros]: "evolving await"
proof -
  have "evolves w w'" if "await w = (r, w')" for w r w' using await_log [OF that] by (simp add: evolves_def)
  then show ?thesis unfolding evolving_def by (metis prod.collapse)
qed

lemma until_snd: "snd (until c m w) = (snd (m (w\<lparr>w_cut := c\<rparr>)))\<lparr>w_cut := None\<rparr>"
  by (simp add: until_def split: prod.split)

lemma until_E:
  assumes "until c m w = (r, w')"
  obtains w1 where "m (w\<lparr>w_cut := c\<rparr>) = (r, w1)" "w' = w1\<lparr>w_cut := None\<rparr>"
  using assms by (auto simp: until_def split: prod.splits)

lemma evolving_until [evolving_intros]:
  assumes "evolving m"
  shows "evolving (until c m)"
proof -
  have "evolves (w\<lparr>w_cut := c\<rparr>) (snd (m (w\<lparr>w_cut := c\<rparr>)))" for w using assms by (simp add: evolving_def)
  then show ?thesis by (simp add: evolving_def evolves_def until_snd)
qed

lemma evolving_basic [evolving_intros]: "evolving (lift m)" "evolving (note_act a)" "evolving (io e)"
  unfolding io_def by (auto intro!: evolving_intros) (auto simp: evolving_def lift_def note_act_def evolves_def split: list.split)

lemma receive_from_suffix: "suffix (snd (receive_from X R peer attempt inbox)) inbox"
proof (induction X R peer attempt inbox rule: receive_from.induct)
  case (3 X R peer attempt now frame inbox)
  then show ?case by (auto split: sum.split intro: suffix_ConsI)
qed (auto intro: suffix_ConsI)

lemma evolving_receive [evolving_intros]: "evolving (receive X R peer attempt)"
  unfolding receive_def
proof (intro evolving_intros)
  show "evolving (\<lambda>w. case receive_from X R peer attempt (w_inbox w) of (m, inbox) \<Rightarrow> (m, w\<lparr>w_inbox := inbox\<rparr>))"
    unfolding evolving_def
  proof
    fix w
    show "evolves w (snd (case receive_from X R peer attempt (w_inbox w) of (m, inbox) \<Rightarrow> (m, w\<lparr>w_inbox := inbox\<rparr>)))"
      using receive_from_suffix [of X R peer attempt "w_inbox w"] by (cases "receive_from X R peer attempt (w_inbox w)") (simp add: evolves_def)
  qed
qed

lemma evolving_publish [evolving_intros]: "evolving (publish X R peer subject template action)"
  unfolding publish_def by (intro evolving_intros)

lemma evolving_send [evolving_intros]: "evolving (send X R peer subject template action)"
  unfolding send_def by (intro evolving_intros)

lemma evolving_serve_connections: "evolving (serve_connections X R peer attempt destination port es connections)"
proof -
  have "evolves w (snd (serve_connections X R peer attempt destination port es connections w))" for w
  proof (induction es arbitrary: connections w)
    case (Cons e es)
    have noted: "evolves w (snd (note_act a w))" for a using evolving_basic(2) unfolding evolving_def by blast
    have "evolving (then_do (receive X R peer attempt) (\<lambda>message.
        lift (require (m_action message = Stop) ''unexpected ceremony control message'')))" by (intro evolving_intros)
    then have message: "evolves w (snd (then_do (receive X R peer attempt) (\<lambda>message.
        lift (require (m_action message = Stop) ''unexpected ceremony control message'')) w))" unfolding evolving_def by (rule spec)
    show ?case
    proof (cases e)
      case Accepted
      then show ?thesis using Cons.IH evolves_trans [OF noted Cons.IH] by simp
    qed (use Cons.IH message in simp_all)
  qed simp
  then show ?thesis by (simp add: evolving_def)
qed

lemma evolving_authorized_start [evolving_intros]:
  "evolving (authorized_start X R env peer attempt reply_to lane account destination signer offered name)"
  unfolding authorized_start_def
  by (cases "se_authorization env") (auto intro!: evolving_intros)

lemma evolving_serve_attempt [evolving_intros]:
  "evolving (serve_attempt X R env peer attempt reply_to lane account destination signer)"
  unfolding serve_attempt_def
  by (intro evolving_intros evolving_serve_connections) (auto split: Action.split option.split intro!: evolving_intros evolving_serve_connections)

lemma evolves_close_attempt: "evolves w (close_attempt X R env peer attempt reply_to result w)"
proof -
  have "evolving (until (se_close_cut env) (case result of
         Inr _ \<Rightarrow> send X R peer reply_to attempt CeremonyClosed
       | Inl _ \<Rightarrow> then_do (send X R peer reply_to attempt CeremonyFailed) (\<lambda>_.
           then_do (receive X R peer attempt) (\<lambda>message.
           then_do (lift (require (m_action message = Stop) ''expected Stop after failed ceremony'')) (\<lambda>_.
           send X R peer reply_to attempt CeremonyClosed)))))"
    by (cases result) (auto intro!: evolving_intros)
  then show ?thesis unfolding close_attempt_def evolving_def by blast
qed

section \<open>No attempt is served twice\<close>

text \<open>The clock readings of the frames still to come, and a clock that does not run backwards: the readings for a
  frame follow each other and come before those of the next frame.\<close>

definition clock :: "inbound list \<Rightarrow> nat list" where
  "clock inbox = map (\<lambda>e. case e of Frame now _ \<Rightarrow> now | Lapsed \<Rightarrow> 0) (filter (\<lambda>e. e \<noteq> Lapsed) inbox)"

fun clock_steady :: "(nat \<Rightarrow> readings) \<Rightarrow> inbound list \<Rightarrow> bool" where
  "clock_steady rd [] \<longleftrightarrow> True"
| "clock_steady rd (Lapsed # inbox) \<longleftrightarrow> clock_steady rd inbox"
| "clock_steady rd (Frame now frame # inbox) \<longleftrightarrow> clock_steady rd inbox \<and>
     (\<forall>attempt. now \<le> rd_retain (rd (length inbox)) attempt \<and> rd_retain (rd (length inbox)) attempt \<le> rd_deadline (rd (length inbox))) \<and>
     (\<forall>later \<in> set (clock inbox). rd_deadline (rd (length inbox)) \<le> later)"

text \<open>A service of an attempt under an id served before comes when the earlier attempt had expired.\<close>

definition served_once :: "(nat \<times> nat \<times> Message) list \<Rightarrow> bool" where
  "served_once served \<longleftrightarrow> sorted_wrt (\<lambda>(_, deadline, m) (_, _, m'). m_attempt m = m_attempt m' \<longrightarrow> m_expires m' \<le> deadline) served"

definition receiver_ok :: "nat \<Rightarrow> receiver \<Rightarrow> bool" where
  "receiver_ok now rx \<longleftrightarrow> distinct (map fst (rx_seen rx)) \<and> length (rx_seen rx) \<le> 128 \<and> served_once (rx_served rx) \<and>
     (\<forall>(t, d, m) \<in> set (rx_served rx). t < m_expires m \<and> m_expires m \<le> t + MAX_LIFETIME \<and> t \<le> d \<and> m_action m = Probe \<and>
        (now < m_expires m \<longrightarrow> (m_attempt m, m_expires m) \<in> set (rx_seen rx)))"

lemma receiver_ok_mono: "receiver_ok now rx \<Longrightarrow> now \<le> later \<Longrightarrow> receiver_ok later rx"
  by (fastforce simp: receiver_ok_def)

lemma admit_probe_ok:
  assumes "receiver_ok now rx" "admit_probe X R peer now rd frame rx = (admitted, rx')"
    and "\<forall>attempt. now \<le> rd_retain rd attempt \<and> rd_retain rd attempt \<le> rd_deadline rd"
  shows "receiver_ok (rd_deadline rd) rx'"
proof -
  let ?seen = "prune_seen (rd_retain rd) (rx_seen rx)"
  have order: "now \<le> rd_deadline rd" using assms(3) by (meson le_trans)
  have seen: "distinct (map fst ?seen)" "length ?seen \<le> 128"
    using assms(1) le_trans [OF length_filter_le]
    by (auto simp: receiver_ok_def prune_seen_def distinct_map_filter)
  have kept: "(m_attempt m, m_expires m) \<in> set ?seen"
    if "(t, d, m) \<in> set (rx_served rx)" "rd_retain rd (m_attempt m) < m_expires m" for t d m
  proof -
    have "now < m_expires m" using that(2) assms(3) by (meson le_less_trans)
    then have "(m_attempt m, m_expires m) \<in> set (rx_seen rx)" using assms(1) that(1) by (fastforce simp: receiver_ok_def)
    then show ?thesis using that(2) by (simp add: prune_seen_def)
  qed
  have still: "(m_attempt m, m_expires m) \<in> set ?seen" if "(t, d, m) \<in> set (rx_served rx)" "rd_deadline rd < m_expires m" for t d m
    using kept [OF that(1)] that(2) assms(3) by (meson le_less_trans)
  have later: "receiver_ok (rd_deadline rd) rx" by (rule receiver_ok_mono [OF assms(1) order])
  have pruned: "receiver_ok (rd_deadline rd) (rx\<lparr>rx_seen := ?seen\<rparr>)"
    using later seen still by (fastforce simp: receiver_ok_def)
  show ?thesis
  proof (cases "verify X R frame (p_verifying peer) now")
    case (Inl e)
    then show ?thesis using assms(2) later by (auto simp: admit_probe_def)
  next
    case (Inr m)
    have m: "now < m_expires m" "m_expires m \<le> now + MAX_LIFETIME" using Inr by (auto simp: verify_iff)
    show ?thesis
    proof (cases "m_action m \<noteq> Probe \<or> m_attempt m \<in> fst ` set ?seen \<or> length ?seen \<ge> 128")
      case True
      then have "rx' \<in> {rx, rx\<lparr>rx_seen := ?seen\<rparr>}" using assms(2) Inr by (auto simp: admit_probe_def Let_def split: if_splits)
      then show ?thesis using pruned later by auto
    next
      case False
      then have rx': "rx' = \<lparr>rx_seen = (m_attempt m, m_expires m) # ?seen, rx_served = (now, rd_deadline rd, m) # rx_served rx\<rparr>"
        using assms(2) Inr by (auto simp: admit_probe_def Let_def split: if_splits)
      have "m_expires m' \<le> rd_deadline rd" if "(t, d, m') \<in> set (rx_served rx)" "m_attempt m = m_attempt m'" for t d m'
      proof -
        have "\<not> rd_retain rd (m_attempt m') < m_expires m'" using kept [OF that(1)] that(2) False by force
        then show ?thesis using assms(3) by (meson le_trans not_le)
      qed
      then have "served_once ((now, rd_deadline rd, m) # rx_served rx)" using assms(1) by (auto simp: served_once_def receiver_ok_def)
      then show ?thesis unfolding rx' using False seen m still order assms(1)
        by (fastforce simp: receiver_ok_def)
    qed
  qed
qed

lemma clock_steady_append: "clock_steady rd (xs @ ys) \<Longrightarrow> clock_steady rd ys"
  by (induction rd xs rule: clock_steady.induct) auto

lemma clock_evolves:
  "evolves w w' \<Longrightarrow> clock_steady rd (w_inbox w) \<Longrightarrow> clock_steady rd (w_inbox w') \<and> set (clock (w_inbox w')) \<subseteq> set (clock (w_inbox w))"
  by (auto simp: evolves_def clock_def suffix_def dest: clock_steady_append)

lemma serve_loop_ok:
  assumes "receiver_ok now rx" "clock_steady rd (w_inbox w)" "\<forall>t \<in> set (clock (w_inbox w)). now \<le> t"
    and "serve_loop X R peer lane account destination signer rd envs w rx = (rx', w')"
  shows "\<exists>later. receiver_ok later rx'"
  using assms
proof (induction X R peer lane account destination signer rd envs w rx arbitrary: now rule: serve_loop.induct)
  case (1 X R peer lane account destination signer rd envs w rx)
  note run = 1(7) [unfolded serve_loop.simps [of X R peer lane account destination signer rd envs w rx]]
  show ?case
  proof (cases "w_inbox w")
    case Nil
    then show ?thesis using run 1(4) by auto
  next
    case (Cons e inbox)
    let ?w = "w\<lparr>w_inbox := inbox\<rparr>"
    show ?thesis
    proof (cases e)
      case Lapsed
      have "clock_steady rd (w_inbox ?w)" "\<forall>t \<in> set (clock (w_inbox ?w)). now \<le> t" using 1(5,6) Cons Lapsed by (auto simp: clock_def)
      then show ?thesis using 1(3) [OF Cons Lapsed 1(4)] run Cons Lapsed by simp
    next
      case (Frame time frame)
      let ?rd = "rd (length inbox)"
      have steady: "clock_steady rd (w_inbox ?w)" and order: "\<forall>attempt. time \<le> rd_retain ?rd attempt \<and> rd_retain ?rd attempt \<le> rd_deadline ?rd"
        and later: "\<forall>t \<in> set (clock (w_inbox ?w)). rd_deadline ?rd \<le> t" and "now \<le> time"
        using 1(5,6) Cons Frame by (auto simp: clock_def)
      obtain admitted rx1 where admit: "admit_probe X R peer time ?rd frame rx = (admitted, rx1)" by (cases "admit_probe X R peer time ?rd frame rx")
      have ok: "receiver_ok (rd_deadline ?rd) rx1" using admit_probe_ok [OF receiver_ok_mono [OF 1(4) \<open>now \<le> time\<close>] admit order] .
      show ?thesis
      proof (cases admitted)
        case None
        then show ?thesis using 1(1) [OF Cons Frame admit [symmetric, unfolded None] refl ok steady later] run Cons Frame admit by simp
      next
        case (Some attempt)
        show ?thesis
        proof (cases envs)
          case Nil
          then show ?thesis using run Cons Frame admit Some ok by auto
        next
          case envs: (Cons env envs')
          define reply_to where "reply_to = p_subject peer @ ''.reply.'' @ m_attempt attempt"
          let ?serve = "until (se_cut env) (serve_attempt X R env peer attempt reply_to lane account destination signer)"
          obtain result w1 where served: "?serve ?w = (result, w1)" by (cases "?serve ?w")
          let ?w1 = "close_attempt X R env peer attempt reply_to result w1"
          have "evolves ?w w1" by (rule evolvingD [OF evolving_until [OF evolving_serve_attempt] served])
          then have ev: "evolves ?w ?w1" using evolves_close_attempt evolves_trans by blast
          have "clock_steady rd (w_inbox ?w1)" "\<forall>t \<in> set (clock (w_inbox ?w1)). rd_deadline ?rd \<le> t"
            using clock_evolves [OF ev steady] later by blast+
          then show ?thesis
            using 1(2) [OF Cons Frame admit [symmetric, unfolded Some] refl envs reply_to_def served [symmetric] refl ok]
              run Cons Frame admit Some envs served by (simp add: reply_to_def)
        qed
      qed
    qed
  qed
qed

lemma serve_ok:
  assumes "clock_steady rd (w_inbox w)" "serve X R macos peer identity config rd envs w = (Inr rx, w')"
  shows "\<exists>later. receiver_ok later rx"
proof -
  have "\<exists>p signer destination w1 w2. evolves w w1 \<and>
      serve_loop X R p (c_lane config) (c_google_account config) destination signer rd envs w1 \<lparr>rx_seen = [], rx_served = []\<rparr> = (rx, w2)"
    using assms(2) unfolding serve_def
    by (auto simp: then_do_lift elim!: then_do_E dest!: evolvingD [OF evolving_basic(3)] split: sum.splits prod.splits)
       (blast intro: evolves_trans)+
  then obtain p signer destination w1 w2 where ev: "evolves w w1"
    and loop: "serve_loop X R p (c_lane config) (c_google_account config) destination signer rd envs w1 \<lparr>rx_seen = [], rx_served = []\<rparr> = (rx, w2)" by blast
  have "receiver_ok 0 \<lparr>rx_seen = [], rx_served = []\<rparr>" by (simp add: receiver_ok_def served_once_def)
  with serve_loop_ok [OF this _ _ loop] clock_evolves [OF ev assms(1)] show ?thesis by auto
qed


section \<open>What an operation can add to the log\<close>

definition adds :: "ceremony_act set \<Rightarrow> (world \<Rightarrow> (string + 'a) \<times> world) \<Rightarrow> bool" where
  "adds A m \<longleftrightarrow> (\<forall>w. \<exists>acts. w_log (snd (m w)) = w_log w @ acts \<and> set acts \<subseteq> A)"

named_theorems adds_intros

lemma addsE:
  assumes "adds A m" "m w = (r, w')"
  obtains acts where "w_log w' = w_log w @ acts" "set acts \<subseteq> A"
  using assms unfolding adds_def by (metis snd_conv)

lemma addsD: "adds A m \<Longrightarrow> m w = (r, w') \<Longrightarrow> set (w_log w') \<subseteq> set (w_log w) \<union> A"
  by (auto elim!: addsE)

lemma adds_then_do [adds_intros]:
  assumes "adds A m" "\<And>x. adds A (f x)"
  shows "adds A (then_do m f)"
proof -
  have "\<exists>acts. w_log w' = w_log w @ acts \<and> set acts \<subseteq> A" if "then_do m f w = (r, w')" for w r w'
    using that
  proof (cases rule: then_do_E)
    case failed
    then show ?thesis using addsE [OF assms(1)] by metis
  next
    case (went_on x w1)
    obtain xs ys where "w_log w1 = w_log w @ xs" "set xs \<subseteq> A" "w_log w' = w_log w1 @ ys" "set ys \<subseteq> A"
      using addsE [OF assms(1) went_on(1)] addsE [OF assms(2) went_on(2)] by metis
    then show ?thesis by (intro exI [of _ "xs @ ys"]) simp
  qed
  then show ?thesis unfolding adds_def by (metis prod.collapse)
qed

lemma adds_await [adds_intros]: "adds A await"
  unfolding adds_def by (metis append_Nil2 await_log empty_subsetI list.set(1) prod.collapse)

lemma adds_until [adds_intros]:
  assumes "adds A m"
  shows "adds A (until c m)"
  unfolding adds_def
proof
  fix w
  obtain acts where "w_log (snd (m (w\<lparr>w_cut := c\<rparr>))) = w_log (w\<lparr>w_cut := c\<rparr>) @ acts" "set acts \<subseteq> A"
    using assms unfolding adds_def by blast
  then show "\<exists>acts. w_log (snd (until c m w)) = w_log w @ acts \<and> set acts \<subseteq> A" by (simp add: until_snd)
qed

lemma adds_basic [adds_intros]: "adds A (lift m)" "a \<in> A \<Longrightarrow> adds A (note_act a)" "adds A (io e)" "adds A (receive X R peer attempt)"
  unfolding io_def receive_def
  by (auto intro!: adds_intros) (auto simp: adds_def lift_def note_act_def split: list.split prod.split)

definition talk :: "ceremony_act set" where
  "talk = {a. (\<exists>subject action. a = Published subject action) \<or> (\<exists>account destination. a = PromptRaised account destination)}"

lemma adds_send [adds_intros]: "Published subject action \<in> A \<Longrightarrow> adds A (publish X R peer subject template action)"
    "Published subject action \<in> A \<Longrightarrow> adds A (send X R peer subject template action)"
  unfolding send_def publish_def by (auto intro!: adds_intros)

lemma Published_talk [simp, intro!]: "Published subject action \<in> talk"
  by (simp add: talk_def)

lemma adds_authorized_start:
  "adds talk (authorized_start X R env peer attempt reply_to lane account destination signer offered name)"
  unfolding authorized_start_def
  by (cases "se_authorization env") (auto intro!: adds_intros simp: talk_def)

lemma adds_serve_connections:
  "adds {Forwarding port destination} (serve_connections X R peer attempt destination port es connections)"
proof -
  have "\<exists>acts. w_log (snd (serve_connections X R peer attempt destination port es connections w)) = w_log w @ acts \<and>
      set acts \<subseteq> {Forwarding port destination}" for w
  proof (induction es arbitrary: connections w)
    case (Cons e es)
    have "adds {} (then_do (receive X R peer attempt) (\<lambda>message.
        lift (require (m_action message = Stop) ''unexpected ceremony control message'')))" by (intro adds_intros)
    then have message: "w_log (snd (then_do (receive X R peer attempt) (\<lambda>message.
        lift (require (m_action message = Stop) ''unexpected ceremony control message'')) w)) = w_log w" by (simp add: adds_def)
    show ?case
    proof (cases e)
      case Accepted
      obtain acts where "w_log (snd (serve_connections X R peer attempt destination port es (Suc connections) (snd (note_act (Forwarding port destination) w))))
          = w_log (snd (note_act (Forwarding port destination) w)) @ acts" "set acts \<subseteq> {Forwarding port destination}"
        using Cons.IH by blast
      then have "w_log (snd (serve_connections X R peer attempt destination port es (Suc connections) (snd (note_act (Forwarding port destination) w))))
          = w_log w @ Forwarding port destination # acts" "set (Forwarding port destination # acts) \<subseteq> {Forwarding port destination}"
        by (simp_all add: note_act_def)
      then show ?thesis using Accepted Cons.IH [of connections w] by (simp split: if_splits)
    qed (use Cons.IH message in auto)
  qed simp
  then show ?thesis by (simp add: adds_def)
qed

text \<open>A message that was received is a frame of the inbox, verified with the peer's key, of this attempt.\<close>

definition heard :: "crates \<Rightarrow> relay_crates \<Rightarrow> Peer \<Rightarrow> Message \<Rightarrow> world \<Rightarrow> Action \<Rightarrow> bool" where
  "heard X R peer attempt w action \<longleftrightarrow> (\<exists>now frame m. Frame now frame \<in> set (w_inbox w) \<and>
     verify X R frame (p_verifying peer) now = Inr m \<and>
     m_attempt m = m_attempt attempt \<and> m_expires m = m_expires attempt \<and> m_action m = action)"

lemma receive_heard: "receive X R peer attempt w = (Inr m, w') \<Longrightarrow> heard X R peer attempt w (m_action m)"
proof -
  have "receive_from X R peer attempt inbox = (Inr m, rest) \<Longrightarrow> \<exists>now frame. Frame now frame \<in> set inbox \<and>
      verify X R frame (p_verifying peer) now = Inr m \<and> m_attempt m = m_attempt attempt \<and> m_expires m = m_expires attempt" for inbox rest
  proof (induction X R peer attempt inbox rule: receive_from.induct)
    case (3 X R peer attempt now frame inbox)
    then show ?case by (auto split: sum.splits if_splits)
  qed simp_all
  moreover assume "receive X R peer attempt w = (Inr m, w')"
  then obtain w1 rest where "await w = (Inr (), w1)" "receive_from X R peer attempt (w_inbox w1) = (Inr m, rest)"
    unfolding receive_def by (auto elim!: then_do_E split: prod.splits)
  ultimately show "heard X R peer attempt w (m_action m)"
    unfolding heard_def using await_log by metis
qed

lemma heard_earlier: "evolves w w' \<Longrightarrow> heard X R peer attempt w' action \<Longrightarrow> heard X R peer attempt w action"
  unfolding heard_def evolves_def using set_mono_suffix by blast
section \<open>The browser opens only with consent\<close>

text \<open>The messages before the browser, split by how a URL can come out of them.\<close>

definition start_stage ::
    "crates \<Rightarrow> relay_crates \<Rightarrow> serve_env \<Rightarrow> Peer \<Rightarrow> Message \<Rightarrow> string \<Rightarrow> string \<Rightarrow> string option \<Rightarrow> string \<Rightarrow> Identity option
     \<Rightarrow> Message \<Rightarrow> world \<Rightarrow> (string + string option) \<times> world" where
  "start_stage X R env peer attempt reply_to lane account destination signer message =
     (case m_action message of
         Authorize offered name \<Rightarrow> authorized_start X R env peer attempt reply_to lane account destination signer offered name
       | Start offered url \<Rightarrow> lift (
           and_then (require (signer = None) ''configured Mac approval requires an Authorize action'') (\<lambda>_.
           and_then (require (se_nonce env = offered) ''stale receiver nonce'') (\<lambda>_. Inr (Some url))))
       | _ \<Rightarrow> lift (Inl ''ceremony cancelled before start''))"

text \<open>The Touch ID consent of the Mac's owner to this ceremony for this account.\<close>

definition consented :: "crates \<Rightarrow> serve_env \<Rightarrow> Message \<Rightarrow> string \<Rightarrow> string option \<Rightarrow> string \<Rightarrow> Identity \<Rightarrow> bool" where
  "consented X env attempt lane account destination i \<longleftrightarrow> (\<exists>name prompt signature. account = Some name \<and>
     validate_account name = Inr () \<and> se_authorization env = SheetAnswered prompt \<and>
     native_authorize X prompt i attempt lane (se_nonce env) name destination = Inr (Some signature))"

lemma start_stage_url:
  assumes "start_stage X R env peer attempt reply_to lane account destination signer message w = (Inr (Some url), w')"
    and "heard X R peer attempt w0 (m_action message)" "evolves w0 w"
  shows "heard X R peer attempt w0 (Start (se_nonce env) url) \<and>
    (case signer of None \<Rightarrow> True | Some i \<Rightarrow> consented X env attempt lane account destination i)"
proof (cases "m_action message")
  case (Start offered u)
  then show ?thesis using assms by (auto simp: start_stage_def lift_def and_then_Inr_iff)
next
  case (Authorize offered name)
  then have run: "authorized_start X R env peer attempt reply_to lane account destination signer offered name w = (Inr (Some url), w')"
    using assms(1) by (simp add: start_stage_def)
  obtain i w1 where pre: "se_nonce env = offered" "validate_account name = Inr ()" "account = Some name" "signer = Some i"
    and w1: "note_act (PromptRaised name destination) w = (Inr (), w1)"
    and rest: "(case se_authorization env of
       SheetTimedOut \<Rightarrow> lift (Inl ''Oshioki authorization timed out'')
     | MessageFirst \<Rightarrow> then_do (receive X R peer attempt) (\<lambda>message.
         lift (and_then (require (m_action message = Stop) ''unexpected ceremony control message'') (\<lambda>_. Inr None)))
     | SheetAnswered prompt \<Rightarrow>
         then_do (lift (native_authorize X prompt i attempt lane offered name destination)) (\<lambda>authorization.
         then_do (lift (ok_or authorization ''Oshioki approval was denied or expired'')) (\<lambda>signature.
         then_do (send X R peer reply_to attempt (Authorized offered (encode_base64url X signature))) (\<lambda>_.
         then_do (receive X R peer attempt) (\<lambda>message.
         lift (case m_action message of
             Start offered url \<Rightarrow> and_then (require (se_nonce env = offered) ''stale receiver nonce'') (\<lambda>_. Inr (Some url))
           | Stop \<Rightarrow> Inr None
           | _ \<Rightarrow> Inl ''ceremony cancelled before browser start'')))))) w1 = (Inr (Some url), w')"
    using run unfolding authorized_start_def
    by (auto simp: then_do_lift ok_or_Inr_iff elim!: then_do_E split: sum.splits)
  show ?thesis
  proof (cases "se_authorization env")
    case (SheetAnswered prompt)
    obtain signature w2 w3 m where sig: "native_authorize X prompt i attempt lane offered name destination = Inr (Some signature)"
      and sent: "send X R peer reply_to attempt (Authorized offered (encode_base64url X signature)) w1 = (Inr (), w2)"
      and got: "receive X R peer attempt w2 = (Inr m, w3)"
      and start: "(case m_action m of
             Start offered url \<Rightarrow> and_then (require (se_nonce env = offered) ''stale receiver nonce'') (\<lambda>_. Inr (Some url))
           | Stop \<Rightarrow> Inr None
           | _ \<Rightarrow> Inl ''ceremony cancelled before browser start'') = Inr (Some url)"
      using rest SheetAnswered
      by (auto simp: then_do_lift ok_or_Inr_iff lift_def elim!: then_do_E split: sum.splits)
    have "m_action m = Start (se_nonce env) url" using start by (auto simp: and_then_Inr_iff split: Action.splits)
    moreover have "evolves w w2"
      using evolvingD [OF evolving_basic(2) w1] evolvingD [OF evolving_send sent] evolves_trans by blast
    ultimately have "heard X R peer attempt w0 (Start (se_nonce env) url)"
      using receive_heard [OF got] heard_earlier assms(3) evolves_trans by metis
    then show ?thesis using pre sig SheetAnswered by (auto simp: consented_def)
  next
    case SheetTimedOut
    then show ?thesis using rest by (simp add: lift_def)
  next
    case MessageFirst
    then show ?thesis using rest by (auto simp: lift_def and_then_Inr_iff elim!: then_do_E)
  qed
qed (use assms(1) in \<open>auto simp: start_stage_def lift_def\<close>)

lemma adds_start_stage: "adds talk (start_stage X R env peer attempt reply_to lane account destination signer message)"
  unfolding start_stage_def by (cases "m_action message") (auto intro!: adds_intros adds_authorized_start)

text \<open>Everything from the check of the URL on.\<close>

definition browse_stage :: "crates \<Rightarrow> relay_crates \<Rightarrow> serve_env \<Rightarrow> Peer \<Rightarrow> Message \<Rightarrow> string \<Rightarrow> string \<Rightarrow> string \<Rightarrow> world \<Rightarrow> (string + unit) \<times> world" where
  "browse_stage X R env peer attempt reply_to destination url =
     then_do (lift (google_callback_port X R url)) (\<lambda>port.
     then_do (io ''bind 127.0.0.1'') (\<lambda>_.
     then_do (io ''bind ::1'') (\<lambda>_.
     then_do (io ''open'') (\<lambda>_.
     then_do (note_act (BrowserOpened url)) (\<lambda>_.
     then_do (lift (and_then (se_opened env) (\<lambda>success. require success ''default browser could not be opened''))) (\<lambda>_.
     then_do (send X R peer reply_to attempt Ready) (\<lambda>_.
     serve_connections X R peer attempt destination port (se_loop env) 0)))))))"

lemma serve_attempt_stages:
  "serve_attempt X R env peer attempt reply_to lane account destination signer =
     then_do (send X R peer reply_to attempt (Offer (se_nonce env))) (\<lambda>_.
     then_do (receive X R peer attempt) (\<lambda>message.
     then_do (start_stage X R env peer attempt reply_to lane account destination signer message) (\<lambda>started.
     case started of None \<Rightarrow> lift (Inr ()) | Some url \<Rightarrow> browse_stage X R env peer attempt reply_to destination url)))"
  by (simp add: serve_attempt_def start_stage_def browse_stage_def cong: option.case_cong)

lemma io_log: "io e w = (r, w') \<Longrightarrow> w_log w' = w_log w"
  unfolding io_def by (auto elim!: then_do_E dest!: await_log split: list.splits)

lemma note_act_log: "note_act a w = (r, w') \<Longrightarrow> r = Inr () \<and> w_log w' = w_log w @ [a]"
  by (auto simp: note_act_def)

lemma adds_mono: "adds A m \<Longrightarrow> A \<subseteq> B \<Longrightarrow> adds B m"
  unfolding adds_def by (meson subset_trans)

lemma browse_stage_log:
  assumes "browse_stage X R env peer attempt reply_to destination url w = (result, w')"
  shows "w_log w' = w_log w \<or> (\<exists>port. google_callback_port X R url = Inr port \<and> BrowserOpened url \<in> set (w_log w') \<and>
    set (w_log w') \<subseteq> set (w_log w) \<union> insert (BrowserOpened url) (insert (Forwarding port destination) talk))"
proof (cases "google_callback_port X R url")
  case (Inl e)
  then show ?thesis using assms by (simp add: browse_stage_def then_do_lift)
next
  case (Inr port)
  define tail where "tail = then_do (lift (and_then (se_opened env) (\<lambda>success. require success ''default browser could not be opened''))) (\<lambda>_.
     then_do (send X R peer reply_to attempt Ready) (\<lambda>_.
     serve_connections X R peer attempt destination port (se_loop env) 0))"
  let ?A = "insert (Forwarding port destination) talk"
  have tail: "adds ?A tail" unfolding tail_def
    by (intro adds_intros adds_mono [OF adds_serve_connections]) auto
  have mono: "evolving tail" unfolding tail_def by (intro evolving_intros evolving_serve_connections)
  have "then_do (io ''bind 127.0.0.1'') (\<lambda>_. then_do (io ''bind ::1'') (\<lambda>_. then_do (io ''open'') (\<lambda>_.
     then_do (note_act (BrowserOpened url)) (\<lambda>_. tail)))) w = (result, w')"
    using assms Inr by (simp add: browse_stage_def then_do_lift tail_def)
  then consider "w_log w' = w_log w"
    | w1 where "w_log w1 = w_log w @ [BrowserOpened url]" "tail w1 = (result, w')"
    by (auto elim!: then_do_E dest!: io_log note_act_log)
  then show ?thesis
  proof cases
    case 2
    have "set (w_log w') \<subseteq> set (w_log w) \<union> insert (BrowserOpened url) ?A" using addsD [OF tail 2(2)] 2(1) by auto
    moreover have "BrowserOpened url \<in> set (w_log w')"
      using evolvingD [OF mono 2(2)] 2(1) by (auto simp: evolves_def prefix_def)
    ultimately show ?thesis using Inr by blast
  qed blast
qed

text \<open>An attempt that reaches the browser stage heard the URL and has consent; any other only talked.\<close>

lemma serve_attempt_cases:
  assumes "serve_attempt X R env peer attempt reply_to lane account destination signer w = (result, w')" "w_log w = []"
  obtains (talked) "set (w_log w') \<subseteq> talk"
  | (browsed) url w1 where "set (w_log w1) \<subseteq> talk" "browse_stage X R env peer attempt reply_to destination url w1 = (result, w')"
      "heard X R peer attempt w (Start (se_nonce env) url)"
      "case signer of None \<Rightarrow> True | Some i \<Rightarrow> consented X env attempt lane account destination i"
  using assms(1) unfolding serve_attempt_stages
proof (cases rule: then_do_E)
  case (failed e)
  then show ?thesis using talked addsD [OF adds_send(2) [OF Published_talk] failed(1)] assms(2) by simp
next
  case (went_on u w1)
  have log1: "set (w_log w1) \<subseteq> talk" using addsD [OF adds_send(2) [OF Published_talk] went_on(1)] assms(2) by simp
  have ev1: "evolves w w1" by (rule evolvingD [OF evolving_send went_on(1)])
  from went_on(2) show ?thesis
  proof (cases rule: then_do_E)
    case (failed e)
    then show ?thesis using talked log1 addsD [OF adds_basic(4) [of talk] failed(1)] by blast
  next
    case (went_on message w2)
    have log2: "set (w_log w2) \<subseteq> talk" using log1 addsD [OF adds_basic(4) [of talk] went_on(1)] by blast
    have ev2: "evolves w w2" using ev1 evolvingD [OF evolving_receive went_on(1)] evolves_trans by blast
    have hear: "heard X R peer attempt w (m_action message)" using heard_earlier [OF ev1 receive_heard [OF went_on(1)]] .
    from went_on(2) show ?thesis
    proof (cases rule: then_do_E)
      case (failed e)
      then show ?thesis using talked log2 addsD [OF adds_start_stage failed(1)] by blast
    next
      case (went_on started w3)
      have log3: "set (w_log w3) \<subseteq> talk" using log2 addsD [OF adds_start_stage went_on(1)] by blast
      show ?thesis
      proof (cases started)
        case None
        then show ?thesis using went_on(2) talked log3 by (simp add: lift_def)
      next
        case (Some url)
        then show ?thesis using start_stage_url [OF went_on(1) [unfolded Some] hear ev2] browsed log3 went_on(2) by simp
      qed
    qed
  qed
qed

text \<open>C23: the Mac opens a browser only with its owner's consent. If an attempt opens the browser on a URL, that
  URL passed the check, it came in a frame signed by the pinned peer for this attempt under the nonce of this very
  run, and where an approval identity is configured its owner approved this account for this ceremony on the
  Touch ID sheet. Connections are forwarded only to the configured destination, on the port of that URL.\<close>

theorem browser_opens_only_with_consent:
  assumes "serve_attempt X R env peer attempt reply_to lane account destination signer w = (result, w')" "w_log w = []"
  shows "(\<forall>url. BrowserOpened url \<in> set (w_log w') \<longrightarrow>
      (\<exists>port. google_callback_port X R url = Inr port) \<and> heard X R peer attempt w (Start (se_nonce env) url) \<and>
      (case signer of None \<Rightarrow> True | Some i \<Rightarrow> consented X env attempt lane account destination i)) \<and>
    (\<forall>port host. Forwarding port host \<in> set (w_log w') \<longrightarrow> host = destination \<and>
      (\<exists>url. BrowserOpened url \<in> set (w_log w') \<and> google_callback_port X R url = Inr port))"
  using assms
proof (cases rule: serve_attempt_cases)
  case talked
  then show ?thesis by (auto simp: talk_def)
next
  case (browsed url w1)
  from browse_stage_log [OF browsed(2)] show ?thesis
  proof
    assume "w_log w' = w_log w1"
    then show ?thesis using browsed(1) by (auto simp: talk_def)
  next
    assume "\<exists>port. google_callback_port X R url = Inr port \<and> BrowserOpened url \<in> set (w_log w') \<and>
      set (w_log w') \<subseteq> set (w_log w1) \<union> insert (BrowserOpened url) (insert (Forwarding port destination) talk)"
    then obtain port where port: "google_callback_port X R url = Inr port" "BrowserOpened url \<in> set (w_log w')"
      and log: "set (w_log w') \<subseteq> insert (BrowserOpened url) (insert (Forwarding port destination) talk)" using browsed(1) by blast
    have only: "u = url" if "BrowserOpened u \<in> set (w_log w')" for u using that log by (auto simp: talk_def)
    have "p = port \<and> host = destination" if "Forwarding p host \<in> set (w_log w')" for p host using that log by (auto simp: talk_def)
    then show ?thesis using only port browsed(3,4) by blast
  qed
qed

section \<open>What the headless host requires\<close>

text \<open>The approval a login accepts: under the pinned key, for this attempt, account, lane and nonce.\<close>

definition mac_approved :: "crates \<Rightarrow> Config \<Rightarrow> Message \<Rightarrow> string \<Rightarrow> string \<Rightarrow> string \<Rightarrow> bool" where
  "mac_approved X config attempt nonce account signature \<longleftrightarrow> (\<exists>encoded bs key.
     c_approval_public_key config = Some encoded \<and> decode_base64url X encoded = Inr bs \<and> vk_from_sec1_bytes X bs = Some key \<and>
     validate_account account = Inr () \<and>
     verify_browser_approval X attempt (c_lane config) nonce account key signature = Inr ())"

lemma authorize_account_approved:
  assumes "authorize_account X R peer attempt nonce account config w = (Inr u, w')"
  shows "evolves w w' \<and>
    (\<exists>signature. heard X R peer attempt w (Authorized nonce signature) \<and> mac_approved X config attempt nonce account signature)"
proof -
  obtain encoded bs key w1 w2 m where key: "c_approval_public_key config = Some encoded" "decode_base64url X encoded = Inr bs"
      "vk_from_sec1_bytes X bs = Some key" "validate_account account = Inr ()"
    and sent: "send X R peer (p_subject peer) attempt (Authorize nonce account) w = (Inr (), w1)"
    and got: "receive X R peer attempt w1 = (Inr m, w2)"
    and last: "lift (case m_action m of
         Authorized authorized_nonce signature \<Rightarrow>
           and_then (require (nonce = authorized_nonce) ''stale Mac authorization'') (\<lambda>_.
           map_err (\<lambda>_. ''verify Mac Oshioki approval'') (verify_browser_approval X attempt (c_lane config) nonce account key signature))
       | _ \<Rightarrow> Inl ''Mac relay did not authorize the configured Google account'') w2 = (Inr (), w')"
    using assms unfolding authorize_account_def
    by (auto simp: then_do_lift ok_or_Inr_iff and_then_Inr_iff elim!: then_do_E split: sum.splits)
  obtain signature where "m_action m = Authorized nonce signature"
    "verify_browser_approval X attempt (c_lane config) nonce account key signature = Inr ()"
    using last by (auto simp: lift_def and_then_Inr_iff map_err_Inr_iff split: Action.splits)
  moreover have "w' = w2" using last by (simp add: lift_def)
  moreover have ev1: "evolves w w1" by (rule evolvingD [OF evolving_send sent])
  moreover have "evolves w w2" using ev1 evolvingD [OF evolving_receive got] evolves_trans by blast
  ultimately show ?thesis using key heard_earlier [OF ev1 receive_heard [OF got]] unfolding mac_approved_def by auto
qed

text \<open>What is published before the ceremony is closed, and what closes it.\<close>

definition opening_talk :: "ceremony_act set" where
  "opening_talk = {a. \<exists>subject action. a = Published subject action \<and> action \<noteq> Stop}"

definition closing_talk :: "ceremony_act set" where
  "closing_talk = {a. \<exists>subject. a = Published subject Stop}"

lemma opening_closing_talk: "opening_talk \<subseteq> talk" "closing_talk \<subseteq> talk"
  by (auto simp: opening_talk_def closing_talk_def talk_def)

lemma adds_talkers:
  "adds opening_talk (until c (authorize_account X R peer attempt nonce account config))"
  "adds opening_talk (until c (startup X R peer attempt))"
  "adds closing_talk (until c (stop_ceremony X R peer attempt))"
  unfolding authorize_account_def startup_def stop_ceremony_def
  by (auto intro!: adds_intros simp: opening_talk_def closing_talk_def)

lemma evolving_host [evolving_intros]:
  "evolving (authorize_account X R peer attempt nonce account config)"
  "evolving (startup X R peer attempt)"
  "evolving (stop_ceremony X R peer attempt)"
  unfolding authorize_account_def startup_def stop_ceremony_def by (auto intro!: evolving_intros)

lemma adds_login_attempt: "adds (insert LauncherReleased opening_talk) (login_attempt X R peer attempt nonce capture finish allow)"
proof -
  have forget: "adds A (\<lambda>w. (Inr (), snd (receive X R peer attempt w)))" for A
    using adds_basic(4) [of A X R peer attempt] by (simp add: adds_def)
  show ?thesis unfolding login_attempt_def
    by (cases capture; cases finish) (auto intro!: adds_intros forget simp: opening_talk_def)
qed

lemma evolving_login_attempt: "evolving (login_attempt X R peer attempt nonce capture finish allow)"
proof -
  have forget: "evolving (\<lambda>w. (Inr (), snd (receive X R peer attempt w)))"
    using evolving_receive [of X R peer attempt] by (simp add: evolving_def)
  show ?thesis unfolding login_attempt_def
    by (cases capture; cases finish) (auto intro!: evolving_intros forget)
qed

lemma stop_ceremony_ok:
  assumes "stop_ceremony X R peer attempt w = (Inr (), w')"
  shows "Published (p_subject peer) Stop \<in> set (w_log w') \<and> heard X R peer attempt w CeremonyClosed"
proof -
  obtain w1 m w2 where sent: "send X R peer (p_subject peer) attempt Stop w = (Inr (), w1)"
    and got: "receive X R peer attempt w1 = (Inr m, w2)" and "m_action m = CeremonyClosed" "w' = w2"
    using assms unfolding stop_ceremony_def by (auto simp: lift_def elim!: then_do_E)
  moreover have "Published (p_subject peer) Stop \<in> set (w_log w1)"
    using sent unfolding send_def publish_def by (auto simp: then_do_lift elim!: then_do_E dest!: io_log note_act_log split: sum.splits)
  moreover have "prefix (w_log w1) (w_log w2)" using evolvingD [OF evolving_receive got] by (simp add: evolves_def)
  ultimately show ?thesis using heard_earlier [OF evolvingD [OF evolving_send sent] receive_heard [OF got]]
    by (auto simp: prefix_def)
qed

text \<open>How a run of gcloud appears in the log: started once and terminated once, and the message that closes the
  ceremony goes out after gcloud was terminated, never before.\<close>

definition gcloud_log :: "string option \<Rightarrow> ceremony_act list \<Rightarrow> bool" where
  "gcloud_log account acts \<longleftrightarrow> (\<exists>before during after. acts = before @ GcloudStarted account # during @ GcloudTerminated # after \<and>
     set before \<subseteq> opening_talk \<and> set during \<subseteq> insert LauncherReleased opening_talk \<and> set after \<subseteq> closing_talk)"

text \<open>How a login can succeed: gcloud ended well after the Mac said it was ready, or, for a configured account,
  without a browser and with a token to show for it.\<close>

definition signed_in :: "crates \<Rightarrow> relay_crates \<Rightarrow> login_env \<Rightarrow> Peer \<Rightarrow> Message \<Rightarrow> string option \<Rightarrow> world \<Rightarrow> bool" where
  "signed_in X R env peer attempt account w \<longleftrightarrow>
     ((\<exists>bs url port. le_capture env = Captured bs \<and> from_utf8 (take 8193 bs) = Some url \<and>
         google_callback_port X R url = Inr port \<and> heard X R peer attempt w Ready \<and> le_finish env = GcloudEnded (Inr True)) \<or>
      account \<noteq> None \<and> le_capture env = ExitedFirst (Inr True) \<and> (\<exists>out. le_token env = Inr (True, out) \<and> out \<noteq> []))"

lemma login_attempt_ok:
  assumes "login_attempt X R peer attempt nonce capture finish allow w = (Inr how, w')"
  shows "(case how of
      Headless \<Rightarrow> allow \<and> capture = ExitedFirst (Inr True)
    | Browser \<Rightarrow> finish = GcloudEnded (Inr True) \<and> heard X R peer attempt w Ready \<and>
        (\<exists>bs url port. capture = Captured bs \<and> from_utf8 (take 8193 bs) = Some url \<and> google_callback_port X R url = Inr port))"
proof (cases capture)
  case (Captured bs)
  obtain url port w0 w0' w1 w2 m where waits: "await w = (Inr (), w0)" "await w0 = (Inr (), w0')"
    and url: "from_utf8 (take 8193 bs) = Some url" "google_callback_port X R url = Inr port"
    and sent: "send X R peer (p_subject peer) attempt (Start nonce url) w0' = (Inr (), w1)"
    and got: "receive X R peer attempt w1 = (Inr m, w2)" and ready: "m_action m = Ready"
    and last: "finish = GcloudEnded (Inr True)" "how = Browser"
    using assms Captured unfolding login_attempt_def
    by (auto simp: then_do_lift ok_or_Inr_iff and_then_Inr_iff lift_def require_def elim!: then_do_E
        split: sum.splits finish_event.splits if_splits)
  have "evolves w w1" using waits sent evolvingD [OF evolving_await] evolvingD [OF evolving_send] evolves_trans by metis
  then show ?thesis using Captured url ready last heard_earlier receive_heard [OF got] by fastforce
next
  case (ExitedFirst status)
  then show ?thesis using assms
    by (auto simp: login_attempt_def lift_def and_then_Inr_iff elim!: then_do_E)
qed (use assms in \<open>auto simp: login_attempt_def lift_def elim!: then_do_E\<close>)

lemma heard_cut [simp]: "heard X R peer attempt (w\<lparr>w_cut := c\<rparr>) action = heard X R peer attempt w action"
  by (simp add: heard_def)

lemma run_gcloud_result:
  assumes "run_gcloud X R env peer attempt nonce account w = (result, w')" "set (w_log w) \<subseteq> opening_talk"
  shows "set (w_log w') \<subseteq> talk \<and> result \<noteq> Inr () \<or>
    gcloud_log account (w_log w') \<and> le_in_time env \<and> (result = Inr () \<longrightarrow>
      signed_in X R env peer attempt account w \<and> Published (p_subject peer) Stop \<in> set (w_log w') \<and> heard X R peer attempt w CeremonyClosed)"
proof -
  define attempted where "attempted = until (le_attempt_cut env)
     (login_attempt X R peer attempt nonce (le_capture env) (le_finish env) (account \<noteq> None))"
  define stopping where "stopping = until (le_stop_cut env) (stop_ceremony X R peer attempt)"
  define body where "body = (\<lambda>w.
       let (outcome, w) = attempted w;
           w = snd (note_act GcloudTerminated w);
           outcome = (if outcome = Inr Headless \<and> account \<noteq> None
                      then and_then (validate_headless_account (le_token env)) (\<lambda>_. outcome) else outcome);
           (stopped, w) = stopping w
       in (and_then outcome (\<lambda>_. stopped), w))"
  define ahead where "ahead =
     then_do (lift (require (le_in_time env) ''browser ceremony expired before launcher setup'')) (\<lambda>_.
     then_do (io ''create directory'') (\<lambda>_.
     then_do (io ''bind'') (\<lambda>_.
     then_do (lift (ok_or (le_executable env) ''executable path is not UTF-8'')) (\<lambda>executable.
     then_do (lift (require (\<not> list_ex (\<lambda>c. c \<in> {CHR '':'', CHR 0x27, CHR 0x0A}) executable)
       ''unsupported executable path for Python BROWSER'')) (\<lambda>_.
     then_do (io ''start gcloud'') (\<lambda>_. note_act (GcloudStarted account)))))))"
  have run: "then_do ahead (\<lambda>_. body) w = (result, w')"
    using assms(1) by (simp add: run_gcloud_def ahead_def body_def attempted_def stopping_def then_do_assoc)
  have ahead_log: "w_log b = w_log a" if "ahead a = (Inl e, b)" for a b e
    using that unfolding ahead_def by (auto elim!: then_do_E dest!: io_log note_act_log lift_unchanged)
  have ahead_ok: "le_in_time env \<and> w_log b = w_log a @ [GcloudStarted account]" if "ahead a = (Inr u, b)" for a b u
    using that unfolding ahead_def by (auto elim!: then_do_E dest!: io_log note_act_log lift_unchanged)
  have "evolving ahead" unfolding ahead_def by (intro evolving_intros)
  with run consider (early) e where "w_log w' = w_log w" "result = Inl e"
    | (ran) w1 where "le_in_time env" "w_log w1 = w_log w @ [GcloudStarted account]" "evolves w w1" "body w1 = (result, w')"
    by (cases rule: then_do_E) (blast dest: ahead_log ahead_ok evolvingD)+
  then show ?thesis
  proof cases
    case early
    then show ?thesis using assms(2) opening_closing_talk(1) by auto
  next
    case ran
    obtain outcome w2 where run: "attempted w1 = (outcome, w2)" by (cases "attempted w1")
    obtain u w3 where terminated: "note_act GcloudTerminated w2 = (u, w3)" by (cases "note_act GcloudTerminated w2")
    obtain stopped w4 where stop: "stopping w3 = (stopped, w4)" by (cases "stopping w3")
    define final where "final = (if outcome = Inr Headless \<and> account \<noteq> None
                      then and_then (validate_headless_account (le_token env)) (\<lambda>_. outcome) else outcome)"
    have result: "result = and_then final (\<lambda>_. stopped)" and w4: "w' = w4"
      using ran(4) run terminated stop unfolding body_def final_def by (auto simp: Let_def)
    obtain during where during: "w_log w2 = w_log w1 @ during" "set during \<subseteq> insert LauncherReleased opening_talk"
      using addsE [OF adds_until [OF adds_login_attempt] run [unfolded attempted_def]] .
    obtain after where after: "w_log w4 = w_log w3 @ after" "set after \<subseteq> closing_talk" using addsE [OF adds_talkers(3) stop [unfolded stopping_def]] .
    have "w_log w' = w_log w @ GcloudStarted account # during @ GcloudTerminated # after"
      using w4 after(1) note_act_log [OF terminated] during(1) ran(2) by simp
    then have log: "gcloud_log account (w_log w')" unfolding gcloud_log_def using assms(2) during(2) after(2) by blast
    have ev: "evolves w w3"
    proof -
      have "evolves w1 w2" by (rule evolvingD [OF evolving_until [OF evolving_login_attempt] run [unfolded attempted_def]])
      then show ?thesis using ran(3) evolvingD [OF evolving_basic(2) terminated] evolves_trans by blast
    qed
    have success: "signed_in X R env peer attempt account w \<and> Published (p_subject peer) Stop \<in> set (w_log w') \<and> heard X R peer attempt w CeremonyClosed"
      if ok: "result = Inr ()"
    proof -
      obtain how where how: "final = Inr how" and st: "stopped = Inr ()" using ok result by (auto simp: and_then_Inr_iff)
      have out: "outcome = Inr how" using how unfolding final_def by (auto simp: and_then_Inr_iff split: if_splits)
      obtain w2' where "login_attempt X R peer attempt nonce (le_capture env) (le_finish env) (account \<noteq> None)
          (w1\<lparr>w_cut := le_attempt_cut env\<rparr>) = (Inr how, w2')"
        using run out unfolding attempted_def by (auto elim: until_E)
      note how_ok = login_attempt_ok [OF this]
      have "signed_in X R env peer attempt account w"
      proof (cases how)
        case Headless
        then have "validate_headless_account (le_token env) = Inr ()" using how out how_ok unfolding final_def by (auto simp: and_then_Inr_iff)
        then show ?thesis using how_ok Headless by (auto simp: signed_in_def validate_headless_account_def and_then_Inr_iff)
      next
        case Browser
        then show ?thesis using how_ok heard_earlier [OF ran(3)] by (auto simp: signed_in_def)
      qed
      moreover obtain w4' where "stop_ceremony X R peer attempt (w3\<lparr>w_cut := le_stop_cut env\<rparr>) = (Inr (), w4')" "w4 = w4'\<lparr>w_cut := None\<rparr>"
        using stop st unfolding stopping_def by (auto elim: until_E)
      ultimately show ?thesis using stop_ceremony_ok heard_earlier [OF ev] w4 by fastforce
    qed
    then show ?thesis using log ran(1) by blast
  qed
qed

text \<open>The attempt a login publishes.\<close>

definition login_message :: "login_env \<Rightarrow> nat \<Rightarrow> Message" where
  "login_message env lifetime_ms = \<lparr>m_version = 1, m_attempt = le_uuid env,
     m_expires = min (le_now env + max (lifetime_ms div 1000) 1) (2 ^ 64 - 1), m_action = Probe\<rparr>"

definition after_offer :: "crates \<Rightarrow> relay_crates \<Rightarrow> login_env \<Rightarrow> Config \<Rightarrow> Peer \<Rightarrow> Message \<Rightarrow> Message \<Rightarrow> world \<Rightarrow> (string + unit) \<times> world" where
  "after_offer X R env config peer attempt offer =
     (case m_action offer of
       Offer nonce \<Rightarrow>
         then_do (lift (require ((c_google_account config \<noteq> None) = (c_approval_public_key config \<noteq> None))
           ''google_account and approval_public_key must be configured together'')) (\<lambda>_.
         case c_google_account config of
           None \<Rightarrow> run_gcloud X R env peer attempt nonce None
         | Some name \<Rightarrow> (\<lambda>w. case until (le_authorize_cut env) (authorize_account X R peer attempt nonce name config) w of
             (Inl e, w) \<Rightarrow> (Inl e, snd (until (le_stop_cut env) (stop_ceremony X R peer attempt) w))
           | (Inr _, w) \<Rightarrow> run_gcloud X R env peer attempt nonce (c_google_account config) w))
     | _ \<Rightarrow> lift (Inl ''Mac relay unavailable''))"

lemma login_cases:
  assumes "login_with_lifetime X R env config lifetime_ms w = (result, w')" "w_log w = []"
  obtains (talked) e where "result = Inl e" "set (w_log w') \<subseteq> talk"
  | (ran) peer nonce w1 where "le_peer env = Inr peer" "evolves w w1" "set (w_log w1) \<subseteq> opening_talk"
      "heard X R peer (login_message env lifetime_ms) w (Offer nonce)"
      "case c_google_account config of None \<Rightarrow> True
         | Some name \<Rightarrow> \<exists>signature. heard X R peer (login_message env lifetime_ms) w (Authorized nonce signature) \<and>
             mac_approved X config (login_message env lifetime_ms) nonce name signature"
      "run_gcloud X R env peer (login_message env lifetime_ms) nonce (c_google_account config) w1 = (result, w')"
proof (cases "lifetime_ms = 0")
  case True
  then show ?thesis using assms talked by (auto simp: login_with_lifetime_def ceremony_deadline_def require_def then_do_lift)
next
  case False
  let ?attempt = "login_message env lifetime_ms"
  have unfolded: "login_with_lifetime X R env config lifetime_ms w =
      then_do (lift (le_peer env)) (\<lambda>peer. then_do (until (le_startup_cut env) (startup X R peer ?attempt)) (after_offer X R env config peer ?attempt)) w"
  proof -
    have deadline: "ceremony_deadline lifetime_ms (le_now env) = Inr (min (le_now env + max (lifetime_ms div 1000) 1) (2 ^ 64 - 1))"
      using False by (simp add: ceremony_deadline_def require_def)
    show ?thesis unfolding login_with_lifetime_def deadline then_do_lift sum.case Let_def login_message_def [symmetric] after_offer_def [abs_def] ..
  qed
  show ?thesis
  proof (cases "le_peer env")
    case (Inl e)
    then show ?thesis using assms talked unfolded by (auto simp: then_do_lift)
  next
    case (Inr peer)
    define starting where "starting = until (le_startup_cut env) (startup X R peer ?attempt)"
    obtain offer w1 where start: "starting w = (offer, w1)" by (cases "starting w")
    have log1: "set (w_log w1) \<subseteq> opening_talk" using addsD [OF adds_talkers(2) start [unfolded starting_def]] assms(2) by simp
    have ev1: "evolves w w1" by (rule evolvingD [OF evolving_until [OF evolving_host(2)] start [unfolded starting_def]])
    show ?thesis
    proof (cases "\<exists>message nonce. offer = Inr message \<and> m_action message = Offer nonce \<and>
        (c_google_account config \<noteq> None) = (c_approval_public_key config \<noteq> None)")
      case False
      then have "w' = w1 \<and> (\<exists>e. result = Inl e)"
        using assms(1) Inr start unfolding unfolded
        by (auto simp: then_do_lift starting_def [symmetric] then_do_def [of starting] after_offer_def require_def lift_def
            split: sum.splits Action.splits if_splits)
      then show ?thesis using talked log1 opening_closing_talk(1) by blast
    next
      case True
      then obtain message nonce where message: "offer = Inr message" "m_action message = Offer nonce"
        "(c_google_account config \<noteq> None) = (c_approval_public_key config \<noteq> None)" by blast
      have hear: "heard X R peer ?attempt w (Offer nonce)"
      proof -
        obtain w1' where "startup X R peer ?attempt (w\<lparr>w_cut := le_startup_cut env\<rparr>) = (Inr message, w1')"
          using start message unfolding starting_def by (auto elim: until_E)
        then obtain w0 where "receive X R peer ?attempt w0 = (Inr message, w1')" "evolves (w\<lparr>w_cut := le_startup_cut env\<rparr>) w0"
          unfolding startup_def
          by (auto elim!: then_do_E dest!: evolvingD [OF evolving_basic(3)] evolvingD [OF evolving_publish]) (metis evolves_trans)+
        then show ?thesis using heard_earlier receive_heard message(2) heard_cut by metis
      qed
      have run: "(case c_google_account config of
           None \<Rightarrow> run_gcloud X R env peer ?attempt nonce None
         | Some name \<Rightarrow> (\<lambda>w. case until (le_authorize_cut env) (authorize_account X R peer ?attempt nonce name config) w of
             (Inl e, w) \<Rightarrow> (Inl e, snd (until (le_stop_cut env) (stop_ceremony X R peer ?attempt) w))
           | (Inr _, w) \<Rightarrow> run_gcloud X R env peer ?attempt nonce (c_google_account config) w)) w1 = (result, w')"
        using assms(1) Inr start message unfolding unfolded
        by (simp add: then_do_lift starting_def [symmetric] then_do_def [of starting] after_offer_def require_def)
      show ?thesis
      proof (cases "c_google_account config")
        case None
        then show ?thesis using ran [OF Inr ev1 log1 hear] run by simp
      next
        case (Some name)
        let ?authorize = "until (le_authorize_cut env) (authorize_account X R peer ?attempt nonce name config)"
        obtain r w2 where auth: "?authorize w1 = (r, w2)" by (cases "?authorize w1")
        have log2: "set (w_log w2) \<subseteq> opening_talk" using addsD [OF adds_talkers(1) auth] log1 by blast
        show ?thesis
        proof (cases r)
          case (Inl e)
          then have fail: "result = Inl e" and w': "until (le_stop_cut env) (stop_ceremony X R peer ?attempt) w2 =
              (fst (until (le_stop_cut env) (stop_ceremony X R peer ?attempt) w2), w')" using run Some auth by auto
          have "set (w_log w') \<subseteq> talk" using addsD [OF adds_talkers(3) w'] log2 opening_closing_talk by blast
          with fail show ?thesis by (rule talked)
        next
          case (Inr u)
          obtain w2' where "authorize_account X R peer ?attempt nonce name config (w1\<lparr>w_cut := le_authorize_cut env\<rparr>) = (Inr u, w2')"
            using auth Inr by (auto elim: until_E)
          note approved = authorize_account_approved [OF this]
          have ev2: "evolves w w2" using ev1 evolvingD [OF evolving_until [OF evolving_host(1)] auth] evolves_trans by blast
          have answered: "\<exists>signature. heard X R peer ?attempt w (Authorized nonce signature) \<and> mac_approved X config ?attempt nonce name signature"
            using approved unfolding heard_cut using heard_earlier [OF ev1] by blast
          show ?thesis
            using run Some auth Inr answered by (intro ran [OF \<open>le_peer env = Inr peer\<close> ev2 log2 hear]) auto
        qed
      qed
    qed
  qed
qed

text \<open>C24: no sign-in without the Mac. A login starts gcloud only for the configured account, after an offer from the
  pinned peer for this attempt and, where an account is configured, after an answer to that offer whose signature
  verifies under the pinned approval key for exactly this lane, attempt, expiry, nonce and account. Once started,
  gcloud is terminated exactly once, and the message that closes the ceremony is published only after that, wherever the
  deadline, an interrupt or an error cut the attempt short.\<close>

theorem gcloud_needs_mac_approval:
  assumes "login_with_lifetime X R env config lifetime_ms w = (result, w')" "w_log w = []"
    and "GcloudStarted account \<in> set (w_log w')"
  shows "account = c_google_account config \<and> gcloud_log account (w_log w') \<and>
    (\<exists>peer nonce. le_peer env = Inr peer \<and> heard X R peer (login_message env lifetime_ms) w (Offer nonce) \<and>
       (case account of None \<Rightarrow> True
        | Some name \<Rightarrow> \<exists>signature. heard X R peer (login_message env lifetime_ms) w (Authorized nonce signature) \<and>
            mac_approved X config (login_message env lifetime_ms) nonce name signature))"
  using assms(1,2)
proof (cases rule: login_cases)
  case talked
  then show ?thesis using assms(3) by (auto simp: talk_def)
next
  case (ran peer nonce w1)
  from run_gcloud_result [OF ran(6,3)] show ?thesis
  proof (elim disjE conjE)
    assume "set (w_log w') \<subseteq> talk"
    then show ?thesis using assms(3) by (auto simp: talk_def)
  next
    assume log: "gcloud_log (c_google_account config) (w_log w')"
    then have "account = c_google_account config" using assms(3) by (auto simp: gcloud_log_def opening_talk_def closing_talk_def)
    then show ?thesis using log ran(1,4,5) by auto
  qed
qed

text \<open>what a successful login means. The pinned peer confirmed the end of this very attempt after it was stopped,
  and gcloud either ended with success after the Mac reported its browser open on an accepted URL, or, for a
  configured account, ended with success without a browser and then produced an access token.\<close>

theorem login_success_means_signed_in:
  assumes "login_with_lifetime X R env config lifetime_ms w = (Inr (), w')" "w_log w = []"
  shows "\<exists>peer. le_peer env = Inr peer \<and> gcloud_log (c_google_account config) (w_log w') \<and>
    Published (p_subject peer) Stop \<in> set (w_log w') \<and> heard X R peer (login_message env lifetime_ms) w CeremonyClosed \<and>
    signed_in X R env peer (login_message env lifetime_ms) (c_google_account config) w"
  using assms
proof (cases rule: login_cases)
  case (ran peer nonce w1)
  have "heard X R peer (login_message env lifetime_ms) w a" if "heard X R peer (login_message env lifetime_ms) w1 a" for a
    using heard_earlier [OF ran(2) that] .
  then show ?thesis using run_gcloud_result [OF ran(6,3)] ran(1) by (auto simp: signed_in_def)
qed simp

text \<open>the Mac's approval is accepted by the host. A signature given on the Touch ID sheet for a ceremony and an
  account is the approval that a host requires of that ceremony, attempt, expiry, nonce and account, when it
  pinned the public key of that identity.\<close>

theorem mac_approval_accepted:
  assumes "native_authorize X prompt i attempt (c_lane config) nonce account destination = Inr (Some signature)"
    and "signer_correct X (id_signer i)" "b64_roundtrip X" "validate_account account = Inr ()"
    and "c_approval_public_key config = Some (encode_base64url X (sg_public_key_sec1 (id_signer i)))"
  shows "mac_approved X config attempt nonce account (encode_base64url X signature)"
proof -
  let ?challenge = "approval_challenge X (c_lane config) (m_attempt attempt) (m_expires attempt) nonce account"
  have "\<exists>reason. sign_browser_relay i ?challenge reason = Inr signature"
    using assms(1) unfolding native_authorize_def touch_id_ask_def Let_def
    by (auto simp: and_then_Inr_iff map_err_def split: option.splits if_splits sum.splits Outcome.splits AttemptError.splits)
  then obtain reason where "sg_sign_der (id_signer i) (browser_relay_signature_payload ?challenge) reason = Inr signature"
    by (auto simp: sign_browser_relay_def split: if_splits)
  from signerE [OF assms(2) this] obtain key sig where
    key: "sec1_p256_verifying_key X (sg_public_key_sec1 (id_signer i)) = Inr key" and
    sig: "sig_from_der X signature = Some sig" "ecdsa_verify X key (browser_relay_signature_payload ?challenge) sig" by blast
  have "vk_from_sec1_bytes X (sg_public_key_sec1 (id_signer i)) = Some key"
    using key by (auto simp: sec1_p256_verifying_key_def and_then_Inr_iff ok_or_Inr_iff split: if_splits)
  moreover have "verify_browser_approval X attempt (c_lane config) nonce account key (encode_base64url X signature) = Inr ()"
    using sig by (simp add: verify_browser_approval_def and_then_Inr_iff ok_or_Inr_iff decode_base64url_encode [OF assms(3)])
  ultimately show ?thesis unfolding mac_approved_def using assms(4,5) decode_base64url_encode [OF assms(3)] by blast
qed

section \<open>A sample ceremony\<close>

text \<open>Frames are one byte, the code of the action; all belong to attempt \<open>a\<close> with expiry 1090.\<close>

definition sample_payload :: bytes where
  "sample_payload = browser_relay_signature_payload (approval_challenge sample_agent ''l'' ''a'' 1090 ''n'' ''me'')"

definition sample_actions :: "(u8 \<times> Action) list" where
  "sample_actions = [(1, Probe), (2, Offer ''n''), (3, Authorize ''n'' ''me''), (4, Authorized ''n'' (encode_base64url sample_agent sample_payload)),
     (5, Start ''n'' ''u''), (6, Ready), (7, Stop), (8, CeremonyClosed), (9, CeremonyFailed)]"

definition sample_attempt :: Message where
  "sample_attempt = \<lparr>m_version = 1, m_attempt = ''a'', m_expires = 1090, m_action = Probe\<rparr>"

definition sample_envelope_of :: "bytes \<Rightarrow> Envelope" where
  "sample_envelope_of bs = \<lparr>e_body = encode_base64url sample_agent bs, e_signature = encode_base64url sample_agent (RELAY_DOMAIN @ bs)\<rparr>"

definition sample_google_url :: Url where
  "sample_google_url = \<lparr>u_scheme = ''https'', u_host = Some ''accounts.google.com'', u_port = None, u_username = [], u_password = None,
     u_fragment = None, u_path = ''/o/oauth2/auth'', u_query_pairs = [(''client_id'', ''32555940559.apps.googleusercontent.com''),
       (''response_type'', ''code''), (''redirect_uri'', ''http://localhost:8085/''), (''scope'', ''openid''), (''state'', ''s''),
       (''code_challenge_method'', ''S256''), (''code_challenge'', encode_base64url sample_agent (replicate 32 7))]\<rparr>"

definition sample_relay :: relay_crates where
  "sample_relay = \<lparr>
     rl_message_to_vec = (\<lambda>m. case find (\<lambda>(c, a). m = sample_attempt\<lparr>m_action := a\<rparr>) sample_actions of
        None \<Rightarrow> Inl ''no value'' | Some (c, _) \<Rightarrow> Inr [c]),
     rl_message_from_slice = (\<lambda>bs. case find (\<lambda>(c, a). bs = [c]) sample_actions of
        None \<Rightarrow> Inl ''no value'' | Some (_, a) \<Rightarrow> Inr (sample_attempt\<lparr>m_action := a\<rparr>)),
     rl_envelope_to_vec = (\<lambda>e. case find (\<lambda>(c, _). e = sample_envelope_of [c]) sample_actions of
        None \<Rightarrow> Inl ''no value'' | Some (c, _) \<Rightarrow> Inr [c]),
     rl_envelope_from_slice = (\<lambda>bs. Inr (sample_envelope_of bs)),
     rl_url_parse = (\<lambda>s. Inr (if s = ''u'' then sample_google_url else sample_google_url\<lparr>u_port := Some 8085\<rparr>)),
     rl_uuid_canonical = Some\<rparr>"

definition sample_peer :: Peer where
  "sample_peer = \<lparr>p_signing = (\<lambda>m. m), p_verifying = VerifyingKey [], p_subject = ''s''\<rparr>"

lemma sample_action_of:
  "(c, a) \<in> set sample_actions \<Longrightarrow> rl_message_from_slice sample_relay [c] = Inr (sample_attempt\<lparr>m_action := a\<rparr>)"
  by (auto simp: sample_relay_def sample_actions_def)

lemma sample_code_of:
  assumes "(c, a) \<in> set sample_actions"
  shows "rl_message_to_vec sample_relay (sample_attempt\<lparr>m_action := a\<rparr>) = Inr [c]"
    "rl_envelope_to_vec sample_relay (sample_envelope_of [c]) = Inr [c]"
proof -
  have inj: "sample_envelope_of [c] = sample_envelope_of [d] \<longleftrightarrow> c = d" for c d
    using decode_base64url_encode [OF sample_agent_laws(1)] by (metis Envelope.select_convs(1) list.inject sample_envelope_of_def sum.inject(2))
  show "rl_message_to_vec sample_relay (sample_attempt\<lparr>m_action := a\<rparr>) = Inr [c]"
    using assms by (auto simp: sample_relay_def sample_actions_def sample_attempt_def)
  show "rl_envelope_to_vec sample_relay (sample_envelope_of [c]) = Inr [c]"
    using assms unfolding sample_relay_def by (auto simp: inj sample_actions_def)
qed

lemma sample_codecs: "relay_json_roundtrip sample_relay"
  unfolding relay_json_roundtrip_def
proof (intro conjI allI impI)
  fix m bs assume "rl_message_to_vec sample_relay m = Inr bs"
  then obtain c a where "find (\<lambda>(c, a). m = sample_attempt\<lparr>m_action := a\<rparr>) sample_actions = Some (c, a)" "bs = [c]"
    by (auto simp: sample_relay_def split: option.splits)
  then have "(c, a) \<in> set sample_actions" "m = sample_attempt\<lparr>m_action := a\<rparr>" "bs = [c]" by (auto simp: find_Some_iff in_set_conv_nth)
  then show "rl_message_from_slice sample_relay bs = Inr m" using sample_action_of by simp
next
  fix e bs assume "rl_envelope_to_vec sample_relay e = Inr bs"
  then show "rl_envelope_from_slice sample_relay bs = Inr e"
    by (auto simp: sample_relay_def find_Some_iff split: option.splits)
qed

lemma sample_keys: "key_pair sample_agent (p_signing sample_peer) (p_verifying sample_peer)"
  by (simp add: key_pair_def sample_peer_def sample_agent_def sample_def)

lemma sample_signed:
  assumes "(c, a) \<in> set sample_actions"
  shows "sign sample_agent sample_relay (sample_attempt\<lparr>m_action := a\<rparr>) (p_signing sample_peer) = Inr [c]"
  using sample_code_of [OF assms]
  by (simp add: sign_def sample_peer_def Let_def sample_envelope_of_def require_def MAX_FRAME_def)

lemma sample_verified:
  assumes "(c, a) \<in> set sample_actions" "790 \<le> now" "now < 1090"
  shows "verify sample_agent sample_relay [c] (p_verifying sample_peer) now = Inr (sample_attempt\<lparr>m_action := a\<rparr>)"
proof -
  have "rl_uuid_canonical sample_relay s = Some s" for s by (simp add: sample_relay_def)
  then show ?thesis
    using signed_frame_verifies [OF sample_codecs sample_agent_laws(1) sample_keys sample_signed [OF assms(1)], of now] assms(2,3)
    by (simp add: sample_attempt_def MAX_LIFETIME_def)
qed
lemma sample_port: "google_callback_port sample_agent sample_relay ''u'' = Inr 8085"
proof -
  have challenge: "decode_base64url sample_agent (encode_base64url sample_agent (replicate 32 7)) = Inr (replicate 32 7)"
    by (rule decode_base64url_encode [OF sample_agent_laws(1)])
  have params: "collect_params (u_query_pairs sample_google_url) (\<lambda>_. None) = Inr (map_of (u_query_pairs sample_google_url))"
    unfolding collect_params_Inr empty_map_add by (simp add: sample_google_url_def oauth_parameters_def)
  have "decimal 8085 = ''8085''" by (simp add: decimal_def dec_digits.simps [of 8085] dec_digits.simps [of 808] dec_digits.simps [of 80] dec_digits.simps [of 8] char_of_def bit_0 bit_iff_odd)
  then show ?thesis
    unfolding google_callback_port_def Let_def
    by (simp add: require_def is_ascii_def ascii_control_def sample_relay_def params challenge del: sample_agent_lift)
       (simp add: sample_google_url_def challenge del: sample_agent_lift)
qed

lemma sample_touch:
  assumes "m_expires attempt = 1090"
  shows "native_authorize sample_agent sample_sheet sample_enclave attempt lane nonce account d =
    Inr (Some (browser_relay_signature_payload (approval_challenge sample_agent lane (m_attempt attempt) 1090 nonce account)))"
proof -
  let ?challenge = "approval_challenge sample_agent lane (m_attempt attempt) 1090 nonce account"
  have "length ?challenge = 32"
    using sample_agent_laws(3) by (simp add: digest_sizes_def approval_challenge_def browser_relay_challenge_def del: sample_agent_lift)
  then have "sg_sign_der (id_signer sample_enclave) (browser_relay_signature_payload ?challenge) reason = Inr (browser_relay_signature_payload ?challenge)" for reason
    by (simp add: sample_identity_def sample_signer_def browser_relay_signature_payload_def BROWSER_RELAY_SIGNATURE_DOMAIN_def)
  moreover have "device_kind sample_enclave = SecureEnclave" by (simp add: device_kind_def signer_kind_def sample_identity_def)
  ultimately have "sign_browser_relay sample_enclave ?challenge reason = Inr (browser_relay_signature_payload ?challenge)" for reason
    by (simp add: sign_browser_relay_def)
  moreover have "touch_id_ask sample_sheet 1090 (Inr v) = Inr (Outcome.Approved v)" for v :: bytes
    by (simp add: touch_id_ask_def sample_sheet_raised) (simp add: sample_sheet_def)
  ultimately show ?thesis
    by (simp add: native_authorize_def assms require_def map_err_def)
qed

lemma sample_verifies:
  "verify_browser_approval sample_agent attempt lane nonce account key (encode_base64url sample_agent
     (browser_relay_signature_payload (approval_challenge sample_agent lane (m_attempt attempt) (m_expires attempt) nonce account))) = Inr ()"
  unfolding verify_browser_approval_def decode_base64url_encode [OF sample_agent_laws(1)]
  by (simp add: and_then_Inr_iff) (simp add: sample_agent_def sample_def)

lemma sample_consent:
  "native_authorize sample_agent sample_sheet sample_enclave sample_attempt ''l'' ''n'' ''me'' d = Inr (Some sample_payload)"
  by (simp add: sample_touch sample_attempt_def sample_payload_def)

definition sample_world :: "u8 list \<Rightarrow> world" where
  "sample_world codes = \<lparr>w_inbox = map (\<lambda>c. Frame 1000 [c]) codes, w_answers = replicate 40 True, w_cut = None, w_log = []\<rparr>"

lemma await_free [simp]: "w_cut w = None \<Longrightarrow> await w = (Inr (), w)"
  by (simp add: await_def)

lemma io_free:
  "w_cut w = None \<Longrightarrow> io e w = (case w_answers w of [] \<Rightarrow> (Inl e, w) | answer # answers \<Rightarrow> (require answer e, w\<lparr>w_answers := answers\<rparr>))"
  by (simp add: io_def then_do_def)

lemma sample_send:
  assumes "(c, a) \<in> set sample_actions" "w_answers w = True # True # left" "w_cut w = None"
  shows "send sample_agent sample_relay sample_peer subject sample_attempt a w = (Inr (), w\<lparr>w_answers := left, w_log := w_log w @ [Published subject a]\<rparr>)"
  using assms(2,3) sample_signed [OF assms(1)]
  by (simp add: send_def publish_def then_do_def lift_def io_free note_act_def require_def)

lemma sample_receive:
  assumes "(c, a) \<in> set sample_actions" "w_inbox w = Frame 1000 [c] # left" "w_cut w = None"
  shows "receive sample_agent sample_relay sample_peer sample_attempt w = (Inr (sample_attempt\<lparr>m_action := a\<rparr>), w\<lparr>w_inbox := left\<rparr>)"
  using assms(2,3) sample_verified [OF assms(1), of 1000]
  by (simp add: receive_def then_do_def)

definition sample_serve_env :: serve_env where
  "sample_serve_env = \<lparr>se_nonce = ''n'', se_authorization = SheetAnswered sample_sheet, se_opened = Inr True,
     se_loop = [Accepted, ForwardEnded (Inr ()), ControlMessage], se_cut = None, se_close_cut = None\<rparr>"

lemma sample_steps:
  assumes "(c, a) \<in> set sample_actions"
  shows "w_answers w = True # True # left \<Longrightarrow> w_cut w = None \<Longrightarrow> then_do (send sample_agent sample_relay sample_peer subject sample_attempt a) f w =
      f () (w\<lparr>w_answers := left, w_log := w_log w @ [Published subject a]\<rparr>)"
    "w_inbox w = Frame 1000 [c] # rest \<Longrightarrow> w_cut w = None \<Longrightarrow> then_do (receive sample_agent sample_relay sample_peer sample_attempt) g w =
      g (sample_attempt\<lparr>m_action := a\<rparr>) (w\<lparr>w_inbox := rest\<rparr>)"
  by (simp_all add: then_do_def sample_send [OF assms] sample_receive [OF assms])

lemma sample_serves:
  "serve_attempt sample_agent sample_relay sample_serve_env sample_peer sample_attempt ''r'' ''l'' (Some ''me'') ''host'' (Some sample_enclave)
     (sample_world [3, 5, 7]) = (Inr (), \<lparr>w_inbox = [], w_answers = replicate 31 True, w_cut = None, w_log = [Published ''r'' (Offer ''n''), PromptRaised ''me'' ''host'',
       Published ''r'' (Authorized ''n'' (encode_base64url sample_agent sample_payload)), BrowserOpened ''u'', Published ''r'' Ready, Forwarding 8085 ''host'']\<rparr>)"
proof -
  have codes: "(2, Offer ''n'') \<in> set sample_actions" "(3, Authorize ''n'' ''me'') \<in> set sample_actions"
    "(4, Authorized ''n'' (encode_base64url sample_agent sample_payload)) \<in> set sample_actions"
    "(5, Start ''n'' ''u'') \<in> set sample_actions" "(6, Ready) \<in> set sample_actions" "(7, Stop) \<in> set sample_actions"
    by (simp_all add: sample_actions_def)
  note steps = sample_steps(1) [OF codes(1)] sample_steps(1) [OF codes(3)] sample_steps(1) [OF codes(5)]
    sample_steps(2) [OF codes(2)] sample_steps(2) [OF codes(4)] sample_steps(2) [OF codes(6)]
  have forty: "replicate 40 True = True # True # True # True # True # True # True # True # True # replicate 31 True" by (simp add: numeral_eq_Suc)
  show ?thesis unfolding serve_attempt_def sample_world_def forty
    by (simp add: steps then_do_assoc sample_serve_env_def authorized_start_def then_do_lift require_def validate_account_def is_ascii_def ascii_control_def
        sample_consent sample_port note_act_def io_free then_do_def [of "note_act a" for a] then_do_def [of "io e" for e] lift_def)
qed
theorem browser_opens_only_with_consent_witness:
  "\<exists>w'. serve_attempt sample_agent sample_relay sample_serve_env sample_peer sample_attempt ''r'' ''l'' (Some ''me'') ''host'' (Some sample_enclave)
       (sample_world [3, 5, 7]) = (Inr (), w') \<and> BrowserOpened ''u'' \<in> set (w_log w') \<and>
     consented sample_agent sample_serve_env sample_attempt ''l'' (Some ''me'') ''host'' sample_enclave"
proof -
  have "w_log (sample_world [3, 5, 7]) = []" by (simp add: sample_world_def)
  from browser_opens_only_with_consent [OF sample_serves this]
  have "consented sample_agent sample_serve_env sample_attempt ''l'' (Some ''me'') ''host'' sample_enclave" by auto
  then show ?thesis using sample_serves by (intro exI conjI) (assumption | simp)+
qed

definition sample_ceremony_config :: Config where
  "sample_ceremony_config = \<lparr>c_nats_url = [], c_lane = ''l'', c_private_key = None, c_peer_public_key = [], c_google_account = Some ''me'',
     c_approval_public_key = Some (encode_base64url sample_agent (sg_public_key_sec1 (id_signer sample_enclave))),
     c_approval_identity = Some ''id'', c_ssh_destination = Some ''host''\<rparr>"

definition sample_login_env :: login_env where
  "sample_login_env = \<lparr>le_now = 790, le_uuid = ''a'', le_peer = Inr sample_peer, le_startup_cut = None, le_authorize_cut = None,
     le_in_time = True, le_executable = Some ''x'', le_attempt_cut = None, le_capture = Captured (as_bytes ''u''),
     le_finish = GcloudEnded (Inr True), le_token = Inl [], le_stop_cut = None\<rparr>"

lemma sample_login_message: "login_message sample_login_env 300000 = sample_attempt"
  by (simp add: login_message_def sample_login_env_def sample_attempt_def)

lemma sample_approved: "mac_approved sample_agent sample_ceremony_config sample_attempt ''n'' ''me'' (encode_base64url sample_agent sample_payload)"
    and sample_signature_ok: "decode_base64url sample_agent (encode_base64url sample_agent (sg_public_key_sec1 (id_signer sample_enclave)))
      = Inr (sg_public_key_sec1 (id_signer sample_enclave))"
    "verify_browser_approval sample_agent sample_attempt ''l'' ''n'' ''me'' key (encode_base64url sample_agent sample_payload) = Inr ()"
proof -
  show key: "decode_base64url sample_agent (encode_base64url sample_agent (sg_public_key_sec1 (id_signer sample_enclave)))
      = Inr (sg_public_key_sec1 (id_signer sample_enclave))" by (rule decode_base64url_encode [OF sample_agent_laws(1)])
  show sig: "verify_browser_approval sample_agent sample_attempt ''l'' ''n'' ''me'' key (encode_base64url sample_agent sample_payload) = Inr ()" for key
    using sample_verifies [of sample_attempt "''l''" "''n''" "''me''" key] by (simp add: sample_payload_def sample_attempt_def)
  have vk: "vk_from_sec1_bytes sample_agent bs = Some (VerifyingKey bs)" for bs by (simp add: sample_agent_def sample_def)
  have "validate_account ''me'' = Inr ()" by (simp add: validate_account_def is_ascii_def ascii_control_def)
  moreover have "c_approval_public_key sample_ceremony_config = Some (encode_base64url sample_agent (sg_public_key_sec1 (id_signer sample_enclave)))"
    "c_lane sample_ceremony_config = ''l''" by (simp_all add: sample_ceremony_config_def)
  ultimately show "mac_approved sample_agent sample_ceremony_config sample_attempt ''n'' ''me'' (encode_base64url sample_agent sample_payload)"
    by (simp add: mac_approved_def key vk sig del: sample_agent_lift)
qed

theorem mac_approval_accepted_witness:
  "mac_approved sample_agent sample_ceremony_config sample_attempt ''n'' ''me'' (encode_base64url sample_agent sample_payload)"
proof (rule mac_approval_accepted)
  show "native_authorize sample_agent sample_sheet sample_enclave sample_attempt (c_lane sample_ceremony_config) ''n'' ''me'' ''host''
      = Inr (Some sample_payload)" using sample_consent by (simp add: sample_ceremony_config_def)
  show "signer_correct sample_agent (id_signer sample_enclave)" using sample_identity_ok unfolding identity_ok_def by blast
  show "validate_account ''me'' = Inr ()" by (simp add: validate_account_def is_ascii_def ascii_control_def)
qed (simp_all add: sample_agent_laws sample_ceremony_config_def)

theorem relay_frame_roundtrip_witness:
  "verify sample_agent sample_relay [7] (p_verifying sample_peer) 1000 = Inr (sample_attempt\<lparr>m_action := Stop\<rparr>) \<and>
   verify sample_agent sample_relay [7] (p_verifying sample_peer) 1090 \<noteq> Inr (sample_attempt\<lparr>m_action := Stop\<rparr>)"
proof -
  have signed: "sign sample_agent sample_relay (sample_attempt\<lparr>m_action := Stop\<rparr>) (p_signing sample_peer) = Inr [7]"
    by (rule sample_signed) (simp add: sample_actions_def)
  have "m_version (sample_attempt\<lparr>m_action := Stop\<rparr>) = 1"
    "rl_uuid_canonical sample_relay (m_attempt (sample_attempt\<lparr>m_action := Stop\<rparr>)) = Some (m_attempt (sample_attempt\<lparr>m_action := Stop\<rparr>))"
    by (simp_all add: sample_attempt_def sample_relay_def)
  note trip = relay_frame_roundtrip [OF sample_codecs sample_agent_laws(1) sample_keys signed this]
  show ?thesis unfolding trip by (simp add: sample_attempt_def MAX_LIFETIME_def)
qed

lemma sample_publish:
  assumes "(c, a) \<in> set sample_actions" "w_answers w = True # left" "w_cut w = None"
  shows "then_do (publish sample_agent sample_relay sample_peer subject sample_attempt a) f w =
     f () (w\<lparr>w_answers := left, w_log := w_log w @ [Published subject a]\<rparr>)"
  using assms(2,3) sample_signed [OF assms(1)]
  by (simp add: publish_def then_do_def lift_def io_free note_act_def require_def)

lemma sample_logs_in:
  "\<exists>w'. login_with_lifetime sample_agent sample_relay sample_login_env sample_ceremony_config 300000 (sample_world [2, 4, 6, 8]) = (Inr (), w') \<and>
     GcloudStarted (Some ''me'') \<in> set (w_log w')"
proof -
  have codes: "(1, Probe) \<in> set sample_actions" "(2, Offer ''n'') \<in> set sample_actions" "(3, Authorize ''n'' ''me'') \<in> set sample_actions"
    "(4, Authorized ''n'' (encode_base64url sample_agent sample_payload)) \<in> set sample_actions" "(5, Start ''n'' ''u'') \<in> set sample_actions"
    "(6, Ready) \<in> set sample_actions" "(7, Stop) \<in> set sample_actions" "(8, CeremonyClosed) \<in> set sample_actions"
    by (simp_all add: sample_actions_def)
  note steps = sample_publish [OF codes(1)] sample_steps(1) [OF codes(3)] sample_steps(1) [OF codes(5)] sample_steps(1) [OF codes(7)]
    sample_steps(2) [OF codes(2)] sample_steps(2) [OF codes(4)] sample_steps(2) [OF codes(6)] sample_steps(2) [OF codes(8)]
    sample_receive [OF codes(2)]
  have forty: "replicate 40 True = True # True # True # True # True # True # True # True # True # True # True # True # True # True # True # replicate 25 True"
    by (simp add: numeral_eq_Suc)
  have vk: "vk_from_sec1_bytes sample_agent bs = Some (VerifyingKey bs)" for bs by (simp add: sample_agent_def sample_def)
  have deadline: "ceremony_deadline 300000 790 = Inr 1090" by (simp add: ceremony_deadline_def)
  have account: "validate_account ''me'' = Inr ()" by (simp add: validate_account_def is_ascii_def ascii_control_def)
  have url: "from_utf8 (take 8193 (as_bytes ''u'')) = Some ''u''" by (simp add: from_utf8_Some_iff str_ok_ascii)
  have attempt: "\<lparr>m_version = 1, m_attempt = ''a'', m_expires = 1090, m_action = Probe\<rparr> = sample_attempt" by (simp add: sample_attempt_def)
  show ?thesis unfolding login_with_lifetime_def sample_world_def forty sample_login_env_def login_env.simps deadline then_do_lift sum.case Let_def attempt
    by (simp add: startup_def authorize_account_def run_gcloud_def login_attempt_def stop_ceremony_def steps then_do_assoc then_do_lift require_def
        sample_ceremony_config_def sample_signature_ok vk account url sample_port note_act_def io_free until_def then_do_def [of "note_act a" for a]
        then_do_def [of "io e" for e] then_do_def [of await] then_do_def [of "until c m" for c m] lift_def map_err_def del: as_bytes_simps sample_agent_lift)
qed
lemma sample_world_log [simp]: "w_log (sample_world codes) = []"
  by (simp add: sample_world_def)

theorem gcloud_needs_mac_approval_witness:
  "\<exists>nonce signature. heard sample_agent sample_relay sample_peer sample_attempt (sample_world [2, 4, 6, 8]) (Authorized nonce signature) \<and>
     mac_approved sample_agent sample_ceremony_config sample_attempt nonce ''me'' signature"
proof -
  obtain w' where run: "login_with_lifetime sample_agent sample_relay sample_login_env sample_ceremony_config 300000 (sample_world [2, 4, 6, 8]) = (Inr (), w')"
    and started: "GcloudStarted (Some ''me'') \<in> set (w_log w')" using sample_logs_in by blast
  have "le_peer sample_login_env = Inr sample_peer" by (simp add: sample_login_env_def)
  with gcloud_needs_mac_approval [OF run sample_world_log started] show ?thesis unfolding sample_login_message by auto
qed

theorem login_success_means_signed_in_witness:
  "heard sample_agent sample_relay sample_peer sample_attempt (sample_world [2, 4, 6, 8]) CeremonyClosed \<and>
   signed_in sample_agent sample_relay sample_login_env sample_peer sample_attempt (Some ''me'') (sample_world [2, 4, 6, 8])"
proof -
  obtain w' where run: "login_with_lifetime sample_agent sample_relay sample_login_env sample_ceremony_config 300000 (sample_world [2, 4, 6, 8]) = (Inr (), w')"
    using sample_logs_in by blast
  have "le_peer sample_login_env = Inr sample_peer" "c_google_account sample_ceremony_config = Some ''me''"
    by (simp_all add: sample_login_env_def sample_ceremony_config_def)
  with login_success_means_signed_in [OF run sample_world_log] show ?thesis unfolding sample_login_message by auto
qed

text \<open>The same probe arrives three times: while the first is in the table it is skipped; verified in the last second
  of its life and looked up in the next, it is served again, with no time left.\<close>

definition sample_readings :: "nat \<Rightarrow> readings" where
  "sample_readings n = (if n = 0 then \<lparr>rd_retain = \<lambda>_. 1090, rd_deadline = 1090\<rparr> else \<lparr>rd_retain = \<lambda>_. 1000, rd_deadline = 1000\<rparr>)"

definition sample_replays :: world where
  "sample_replays = \<lparr>w_inbox = [Frame 1000 [1], Frame 1000 [1], Frame 1089 [1]], w_answers = [True, True], w_cut = None, w_log = []\<rparr>"

lemma sample_admits:
  assumes "790 \<le> now" "now < 1090" "rd_retain rd ''a'' < 1090 \<longrightarrow> rx_seen rx = []" "rx_seen rx \<in> {[], [(''a'', 1090)]}"
  shows "admit_probe sample_agent sample_relay sample_peer now rd [1] rx =
     (Some sample_attempt, \<lparr>rx_seen = [(''a'', 1090)], rx_served = (now, rd_deadline rd, sample_attempt) # rx_served rx\<rparr>)"
proof -
  have "(1, Probe) \<in> set sample_actions" by (simp add: sample_actions_def)
  from sample_verified [OF this assms(1,2)] assms(3,4) show ?thesis
    by (auto simp: admit_probe_def prune_seen_def Let_def) (simp_all add: sample_attempt_def)
qed

lemma sample_skips:
  assumes "rx_seen rx = [(''a'', 1090)]" "rd_retain rd ''a'' = 1000"
  shows "admit_probe sample_agent sample_relay sample_peer 1000 rd [1] rx = (None, rx)"
proof -
  have "(1, Probe) \<in> set sample_actions" by (simp add: sample_actions_def)
  from sample_verified [OF this, of 1000] assms show ?thesis
    by (simp add: admit_probe_def prune_seen_def Let_def) (simp add: sample_attempt_def)
qed

lemma silent_broker:
  assumes "w_answers w = []" "w_cut w = None"
  shows "\<exists>e. send X R peer subject template action w = (Inl e, w)"
  using assms by (auto simp: send_def publish_def then_do_def lift_def io_free split: sum.split)

lemma silent_attempt:
  assumes "w_answers w = []" "w_cut w = None" "se_cut env = None" "se_close_cut env = None"
  shows "\<exists>e. until (se_cut env) (serve_attempt X R env peer attempt reply_to lane account destination signer) w = (Inl e, w)"
    and "close_attempt X R env peer attempt reply_to (Inl e) w = w"
proof -
  have same: "w\<lparr>w_cut := None\<rparr> = w" using assms(2) by simp
  obtain e1 where "send X R peer reply_to attempt (Offer (se_nonce env)) w = (Inl e1, w)" using silent_broker [OF assms(1,2)] by blast
  then show "\<exists>e. until (se_cut env) (serve_attempt X R env peer attempt reply_to lane account destination signer) w = (Inl e, w)"
    using assms(3) by (simp add: until_def same serve_attempt_def then_do_def)
  obtain e2 where "send X R peer reply_to attempt CeremonyFailed w = (Inl e2, w)" using silent_broker [OF assms(1,2)] by blast
  then show "close_attempt X R env peer attempt reply_to (Inl e) w = w"
    using assms(4) by (simp add: close_attempt_def until_def same then_do_def)
qed

lemma sample_serve_loop:
  "serve_loop sample_agent sample_relay sample_peer lane account destination signer sample_readings [sample_serve_env]
     (sample_replays\<lparr>w_answers := []\<rparr>) \<lparr>rx_seen = [], rx_served = []\<rparr> =
   (\<lparr>rx_seen = [(''a'', 1090)], rx_served = [(1089, 1090, sample_attempt), (1000, 1000, sample_attempt)]\<rparr>,
    sample_replays\<lparr>w_answers := [], w_inbox := []\<rparr>)"
proof -
  let ?w = "\<lambda>inbox. \<lparr>w_inbox = inbox, w_answers = [], w_cut = None, w_log = []\<rparr>"
  have cuts: "se_cut sample_serve_env = None" "se_close_cut sample_serve_env = None" by (simp_all add: sample_serve_env_def)
  obtain e where served: "until (se_cut sample_serve_env) (serve_attempt sample_agent sample_relay sample_serve_env sample_peer sample_attempt
      (p_subject sample_peer @ ''.reply.'' @ m_attempt sample_attempt) lane account destination signer)
      (?w [Frame 1000 [1], Frame 1089 [1]]) = (Inl e, ?w [Frame 1000 [1], Frame 1089 [1]])"
    using silent_attempt(1) [OF _ _ cuts, of "?w [Frame 1000 [1], Frame 1089 [1]]"] by fastforce
  have closed: "close_attempt sample_agent sample_relay sample_serve_env sample_peer sample_attempt
      (p_subject sample_peer @ ''.reply.'' @ m_attempt sample_attempt) (Inl e) (?w [Frame 1000 [1], Frame 1089 [1]]) = ?w [Frame 1000 [1], Frame 1089 [1]]"
    by (rule silent_attempt(2)) (simp_all add: cuts)
  show ?thesis
    by (simp add: serve_loop.simps sample_replays_def sample_readings_def sample_admits sample_skips served [simplified] closed [simplified])
qed

lemma sample_receives:
  "serve sample_agent sample_relay True (Inr sample_peer) (Inr (Some sample_enclave)) sample_ceremony_config sample_readings [sample_serve_env] sample_replays =
     (Inr \<lparr>rx_seen = [(''a'', 1090)], rx_served = [(1089, 1090, sample_attempt), (1000, 1000, sample_attempt)]\<rparr>,
      sample_replays\<lparr>w_answers := [], w_inbox := []\<rparr>)"
proof -
  have host: "destination_ok ''host''" by (simp add: destination_ok_def starts_with_def is_ascii_alphanumeric_def Let_def)
  have "w_answers sample_replays = [True, True]" "w_cut sample_replays = None" by (simp_all add: sample_replays_def)
  then show ?thesis unfolding serve_def
    by (simp add: then_do_lift sample_ceremony_config_def host require_def io_free then_do_def [of "io e" for e] sample_serve_loop)
qed


text \<open>The receiver can serve one probe twice: verified at the last second of its life and looked up when that second
  is over, a probe that is in the table of attempts seen is served again.\<close>

theorem replay_at_expiry_is_served:
  "\<exists>rx w'. clock_steady sample_readings (w_inbox sample_replays) \<and>
     serve sample_agent sample_relay True (Inr sample_peer) (Inr (Some sample_enclave)) sample_ceremony_config
       sample_readings [sample_serve_env] sample_replays = (Inr rx, w') \<and>
     \<not> distinct (map (\<lambda>(t, deadline, m). m) (rx_served rx))"
  using sample_receives by (intro exI conjI) (simp add: sample_replays_def sample_readings_def clock_def, assumption, simp)

end
