(* ===== verification/Relay_Local.thy ===== *)
theory Relay_Local
  imports Relay_Ceremony
begin

text \<open>
  The parts of \<open>relay/src/main.rs\<close> around the ceremony: the ceremony on one Mac without a broker, the
  launcher that gcloud calls as its browser, the life of gcloud's process group, and the forwarding of
  one callback connection through \<open>ssh\<close>.
\<close>

section \<open>The process group\<close>

text \<open>Which of the two processes still has an id: gcloud and the anchor that keeps the group's id taken.\<close>

record ProcessGroup =
  pg_child :: bool
  pg_anchor :: bool

datatype group_act = SpawnAnchor | SpawnChild | KillGroup | ReapChild | ReapAnchor

definition group_spawn :: "bool \<Rightarrow> bool \<Rightarrow> bool \<Rightarrow> (string + ProcessGroup) \<times> group_act list" where
  "group_spawn anchor_ok id_ok child_ok =
     (if \<not> anchor_ok then (Inl ''start gcloud process-group anchor'', [])
      else if \<not> id_ok then (Inl ''process-group anchor exited before setup'', [SpawnAnchor])
      else if \<not> child_ok then (Inl ''start gcloud'', [SpawnAnchor, KillGroup])
      else (Inr \<lparr>pg_child = True, pg_anchor = True\<rparr>, [SpawnAnchor, SpawnChild]))"

definition group_terminate :: "ProcessGroup \<Rightarrow> ProcessGroup \<times> group_act list" where
  "group_terminate g =
     (\<lparr>pg_child = False, pg_anchor = False\<rparr>,
      (if pg_child g \<or> pg_anchor g then [KillGroup] else []) @ (if pg_child g then [ReapChild] else []) @ (if pg_anchor g then [ReapAnchor] else []))"

text \<open>\<open>Child::wait\<close> of gcloud during the ceremony clears its id.\<close>

definition group_wait :: "ProcessGroup \<Rightarrow> ProcessGroup \<times> group_act list" where
  "group_wait g = (g\<lparr>pg_child := False\<rparr>, if pg_child g then [ReapChild] else [])"

section \<open>The launcher\<close>

definition capture :: "crates \<Rightarrow> relay_crates \<Rightarrow> bool \<Rightarrow> string + u8 \<Rightarrow> string \<Rightarrow> (string + unit) \<times> bytes list" where
  "capture X R connected answer url =
     (case google_callback_port X R url of
        Inl e \<Rightarrow> (Inl e, [])
      | Inr _ \<Rightarrow>
          if \<not> connected then (Inl ''connect'', [])
          else (and_then answer (\<lambda>ready. require (ready = 1) ''Mac browser relay refused request''), [as_bytes url]))"

section \<open>One Mac\<close>

record LocalConfig =
  lc_google_account :: string
  lc_approval_identity :: string
  lc_approval_public_key :: string
  lc_local_label :: string

definition default_local_label :: string where "default_local_label = ''this Mac''"

text \<open>What gcloud and the check of its credentials come to; \<open>None\<close> is an interrupt.\<close>

record local_env =
  lo_macos :: bool
  lo_now :: nat
  lo_uuid :: string
  lo_nonce :: string
  lo_identity :: "string + Identity"
  lo_sheet :: "TouchIdPrompt option option"
  lo_in_time :: bool
  lo_spawned :: bool
  lo_status :: "(string + bool) option"
  lo_token :: "(string + bool \<times> bytes) option"

definition run_local_gcloud_until :: "local_env \<Rightarrow> string \<Rightarrow> (string + unit) \<times> ceremony_act list" where
  "run_local_gcloud_until env account =
     (if \<not> lo_in_time env then (Inl ''local ceremony expired before gcloud start'', [])
      else if \<not> lo_spawned env then (Inl ''start gcloud'', [])
      else
      let outcome = (case lo_status env of
              None \<Rightarrow> Inl ''ceremony interrupted''
            | Some status \<Rightarrow> and_then status (\<lambda>success. require success ''Google sign-in failed or was denied''));
          acts = [GcloudStarted (Some account), GcloudTerminated]
      in (and_then outcome (\<lambda>_. case lo_token env of
              None \<Rightarrow> Inl ''ceremony interrupted''
            | Some output \<Rightarrow> validate_headless_account output), acts))"

definition run_local_after_approval :: "local_env \<Rightarrow> string \<Rightarrow> string + unit \<Rightarrow> (string + unit) \<times> ceremony_act list" where
  "run_local_after_approval env account approval =
     (case approval of Inl e \<Rightarrow> (Inl e, []) | Inr _ \<Rightarrow> run_local_gcloud_until env account)"

definition local_attempt :: "local_env \<Rightarrow> Message" where
  "local_attempt env = \<lparr>m_version = 1, m_attempt = lo_uuid env, m_expires = lo_now env + MAX_LIFETIME, m_action = Probe\<rparr>"

definition local_login :: "crates \<Rightarrow> local_env \<Rightarrow> LocalConfig \<Rightarrow> (string + unit) \<times> ceremony_act list" where
  "local_login X env config =
     (if \<not> lo_macos env then (Inl ''local browser ceremony requires macOS'', [])
      else
      let account = lc_google_account config;
          prepared = and_then (validate_account account) (\<lambda>_.
            and_then (require (lc_local_label config \<noteq> []) ''local_label cannot be empty'') (\<lambda>_.
            and_then (anyhow (decode_base64url X (lc_approval_public_key config))) (\<lambda>bs.
            and_then (ok_or (vk_from_sec1_bytes X bs) ''verifying key'') (\<lambda>key.
            and_then (lo_identity env) (\<lambda>signer. Inr (key, signer))))))
      in case prepared of
           Inl e \<Rightarrow> (Inl e, [])
         | Inr (key, signer) \<Rightarrow>
             (case lo_sheet env of
                None \<Rightarrow> (Inl ''ceremony interrupted'', [])
              | Some None \<Rightarrow> (Inl ''local Oshioki approval timed out'', [])
              | Some (Some prompt) \<Rightarrow>
                  (case native_authorize X prompt signer (local_attempt env) ''local'' (lo_nonce env) account (lc_local_label config) of
                     Inl e \<Rightarrow> (Inl e, [])
                   | Inr None \<Rightarrow> (Inl ''local Oshioki approval was denied or expired'', [])
                   | Inr (Some signature) \<Rightarrow>
                       run_local_after_approval env account
                         (verify_browser_approval X (local_attempt env) ''local'' (lo_nonce env) account key (encode_base64url X signature)))))"

section \<open>One callback connection\<close>

text \<open>Which of the two copies and the child ends first, and what the others then come to.\<close>

datatype forward_first = UploadEnded "string + unit" | DownloadEnded "string + unit" | SshEnded "string + bool"

record forward_env =
  fw_spawned :: bool
  fw_first :: forward_first
  fw_wait :: "string + bool"
  fw_download :: "string + unit"

text \<open>The flag says that \<open>ssh\<close> was killed.\<close>

definition forward :: "forward_env \<Rightarrow> (string + unit) \<times> bool" where
  "forward env =
     (if \<not> fw_spawned env then (Inl ''spawn'', False)
      else
      let result = (case fw_first env of
            UploadEnded r \<Rightarrow> and_then r (\<lambda>_. and_then (fw_wait env) (\<lambda>status. and_then (fw_download env) (\<lambda>_. Inr status)))
          | DownloadEnded r \<Rightarrow> and_then r (\<lambda>_. fw_wait env)
          | SshEnded r \<Rightarrow> and_then r (\<lambda>status. and_then (fw_download env) (\<lambda>_. Inr status)))
      in case result of
           Inr success \<Rightarrow> (require success ''SSH callback forward failed'', False)
         | Inl e \<Rightarrow> (Inl e, True))"

section \<open>What they guarantee\<close>

lemma group_terminate_clean:
  "\<not> pg_child (fst (group_terminate g)) \<and> \<not> pg_anchor (fst (group_terminate g)) \<and>
   (KillGroup \<in> set (snd (group_terminate g)) \<longleftrightarrow> pg_child g \<or> pg_anchor g)"
  by (simp add: group_terminate_def)

text \<open>Whatever gcloud does in between, the group is killed exactly once while the anchor still holds its id, and
  each process is reaped exactly once.\<close>

lemma group_life:
  assumes "group_spawn anchor_ok id_ok child_ok = (Inr g, spawned)"
  shows "snd (group_terminate g) = [KillGroup, ReapChild, ReapAnchor]"
    "snd (group_wait g) @ snd (group_terminate (fst (group_wait g))) = [ReapChild, KillGroup, ReapAnchor]"
  using assms by (auto simp: group_spawn_def group_terminate_def group_wait_def split: if_splits)

lemma forward_ok_iff:
  "fst (forward env) = Inr () \<longleftrightarrow> fw_spawned env \<and>
     (case fw_first env of
        UploadEnded r \<Rightarrow> r = Inr () \<and> fw_wait env = Inr True \<and> fw_download env = Inr ()
      | DownloadEnded r \<Rightarrow> r = Inr () \<and> fw_wait env = Inr True
      | SshEnded r \<Rightarrow> r = Inr True \<and> fw_download env = Inr ())"
  by (cases "fw_first env")
     (auto simp: forward_def Let_def and_then_def require_def split: sum.splits if_splits)

text \<open>on one Mac gcloud runs only after a touch. A local login starts gcloud only for the configured account and
  only when the owner approved it on the Touch ID sheet with a signature that verifies under the configured key for
  this attempt; every started gcloud is terminated, and success means that its credentials produced a token.\<close>

theorem local_gcloud_needs_touch:
  assumes "local_login X env config = (result, acts)" "acts \<noteq> []"
  shows "acts = [GcloudStarted (Some (lc_google_account config)), GcloudTerminated] \<and>
    (\<exists>bs key signer prompt signature.
      decode_base64url X (lc_approval_public_key config) = Inr bs \<and> vk_from_sec1_bytes X bs = Some key \<and> lo_identity env = Inr signer \<and>
      native_authorize X prompt signer (local_attempt env) ''local'' (lo_nonce env) (lc_google_account config) (lc_local_label config)
        = Inr (Some signature) \<and>
      verify_browser_approval X (local_attempt env) ''local'' (lo_nonce env) (lc_google_account config) key
        (encode_base64url X signature) = Inr ()) \<and>
    (result = Inr () \<longrightarrow> lo_status env = Some (Inr True) \<and> (\<exists>out. lo_token env = Some (Inr (True, out)) \<and> out \<noteq> []))"
proof -
  let ?account = "lc_google_account config"
  obtain bs key signer where pre: "decode_base64url X (lc_approval_public_key config) = Inr bs" "vk_from_sec1_bytes X bs = Some key"
      "lo_identity env = Inr signer" "validate_account ?account = Inr ()" "lc_local_label config \<noteq> []" "lo_macos env"
    using assms unfolding local_login_def Let_def
    by (auto simp: and_then_Inr_iff ok_or_Inr_iff split: sum.splits if_splits)
  obtain prompt signature where sig:
      "native_authorize X prompt signer (local_attempt env) ''local'' (lo_nonce env) ?account (lc_local_label config) = Inr (Some signature)"
    and run: "run_local_after_approval env ?account
       (verify_browser_approval X (local_attempt env) ''local'' (lo_nonce env) ?account key (encode_base64url X signature)) = (result, acts)"
    using assms pre unfolding local_login_def Let_def
    by (auto simp: require_def split: option.splits sum.splits)
  have ok: "verify_browser_approval X (local_attempt env) ''local'' (lo_nonce env) ?account key (encode_base64url X signature) = Inr ()"
    and gcloud: "run_local_gcloud_until env ?account = (result, acts)"
    using run assms(2) by (auto simp: run_local_after_approval_def split: sum.splits)
  have "acts = [GcloudStarted (Some ?account), GcloudTerminated]"
    "result = Inr () \<longrightarrow> lo_status env = Some (Inr True) \<and> (\<exists>out. lo_token env = Some (Inr (True, out)) \<and> out \<noteq> [])"
    using gcloud assms(2) unfolding run_local_gcloud_until_def Let_def
    by (auto simp: and_then_Inr_iff validate_headless_account_def split: if_splits option.splits)
  then show ?thesis using pre sig ok by blast
qed

definition sample_local_env :: local_env where
  "sample_local_env = \<lparr>lo_macos = True, lo_now = 790, lo_uuid = ''a'', lo_nonce = ''n'', lo_identity = Inr sample_enclave,
     lo_sheet = Some (Some sample_sheet), lo_in_time = True, lo_spawned = True, lo_status = Some (Inr True), lo_token = Some (Inr (True, [1]))\<rparr>"

definition sample_local_config :: LocalConfig where
  "sample_local_config = \<lparr>lc_google_account = ''me'', lc_approval_identity = ''id'',
     lc_approval_public_key = encode_base64url sample_agent (sg_public_key_sec1 (id_signer sample_enclave)), lc_local_label = default_local_label\<rparr>"

theorem local_gcloud_needs_touch_witness:
  "\<exists>prompt signature. local_login sample_agent sample_local_env sample_local_config =
      (Inr (), [GcloudStarted (Some ''me''), GcloudTerminated]) \<and>
    native_authorize sample_agent prompt sample_enclave (local_attempt sample_local_env) ''local'' ''n'' ''me'' default_local_label = Inr (Some signature)"
proof -
  have expires: "m_expires (local_attempt sample_local_env) = 1090"
    by (simp add: local_attempt_def sample_local_env_def MAX_LIFETIME_def)
  have account: "validate_account ''me'' = Inr ()" by (simp add: validate_account_def is_ascii_def ascii_control_def)
  have vk: "vk_from_sec1_bytes sample_agent bs = Some (VerifyingKey bs)" for bs by (simp add: sample_agent_def sample_def)
  have fields: "lc_google_account sample_local_config = ''me''" "lc_local_label sample_local_config = default_local_label"
    "lc_approval_public_key sample_local_config = encode_base64url sample_agent (sg_public_key_sec1 (id_signer sample_enclave))"
    "lo_identity sample_local_env = Inr sample_enclave" "lo_sheet sample_local_env = Some (Some sample_sheet)" "lo_macos sample_local_env"
    "lo_nonce sample_local_env = ''n''" "default_local_label \<noteq> []"
    by (simp_all add: sample_local_config_def sample_local_env_def default_local_label_def)
  have run: "local_login sample_agent sample_local_env sample_local_config = (Inr (), [GcloudStarted (Some ''me''), GcloudTerminated])"
    unfolding local_login_def Let_def fields decode_base64url_encode [OF sample_agent_laws(1)]
    by (simp add: account vk sample_touch [OF expires] fields require_def
        sample_verifies [where attempt = "local_attempt sample_local_env", unfolded expires] run_local_after_approval_def)
       (simp add: run_local_gcloud_until_def sample_local_env_def validate_headless_account_def)
  from local_gcloud_needs_touch [OF run] fields show ?thesis using run by auto
qed

end
