(* ===== verification/Spec2Isabelle.thy ===== *)
theory Spec2Isabelle
  imports Hook_Request Tool_V1 Terminal Agent_Store Agent_Admission Agent_Prompt Server_Workers Pam_Helper Plugin_Password Relay_Local
begin

text \<open>
  Verification of oshioki, a sudo approval system: a command or a sudo authentication on a host
  proceeds only after a device that root pinned on that host has approved it.

  The parts of the program. A sudo plugin and a PAM module run the hook (\<open>hook/\<close>) for every
  sudo invocation. The hook seals the request for the devices in its local registry, sends it to
  the agent on the same machine over a Unix socket or, failing that, over NATS
  (\<open>transport/\<close>), and waits for a decision; a server (\<open>server/\<close>) relays requests to browsers
  and phones. Agents, browsers and a Secure Enclave helper answer with signed decisions. The
  formats and every check of a signature, an envelope or an enrollment are in \<open>protocol/\<close>. The
  hook trusts none of its transports: a decision counts only if a pinned device signed it for the
  exact bytes of this request, and then only if the registry still allows it.

  The theories and the code they model.

  \<^item> \<open>Prelude\<close>: results (\<open>error + 'a\<close>), their rules in the collection \<open>result_simps\<close>, UTF-8 text,
    64-bit arithmetic. \<open>Std_Text\<close>: the text operations of the standard library. \<open>Wire_Types\<close>: the records and enumerations of \<open>protocol/src\<close>. \<open>Crates\<close>: the
    functions the code calls in third-party crates, as fields of one record \<open>X\<close> that every
    definition using them takes as an argument; what a theorem relies on (base64 round trip,
    digest lengths, correctness of the sealing box, absence of a collision on two given messages)
    is a named hypothesis of that theorem. \<open>Sample_Crates\<close>: a concrete instance for the witnesses.
  \<^item> \<open>Cose_Key\<close> (\<open>protocol/src/webauthn_v1.rs\<close>, \<open>native_v1.rs\<close>): bounded CBOR, with the equality of
    map keys as the code computes it, and keys. The acceptance condition of the decoder is exact.
  \<^item> \<open>Terminal\<close> (\<open>protocol/src/terminal.rs\<close>): escaping is safe and unambiguous.
  \<^item> \<open>Wire_V1\<close> (\<open>protocol/src/v1.rs\<close>): validation of requests, envelopes, devices, registries,
    enrollment shapes and denials; sealing; the timing policy over 64-bit saturating arithmetic.
  \<^item> \<open>Webauthn_V1\<close> (\<open>webauthn_v1.rs\<close>), \<open>Enrollment_V1\<close> (\<open>enrollment_v1.rs\<close>, \<open>native_v1.rs\<close>),
    \<open>Auth_V1\<close> (\<open>auth_v1.rs\<close>), \<open>Tool_V1\<close> (\<open>tool_v1.rs\<close>): the verifiers of the four lanes. The locale
    \<open>webauthn_lane\<close> has the guards of a lane as its laws; from what an authenticator signs it derives
    that the user answered exactly the message of that lane. It is interpreted on the command,
    authentication and tool lane.
  \<^item> \<open>Socket_V1\<close> (\<open>socket_v1.rs\<close>, and both \<open>read_frame\<close> functions of hook and agent): control
    messages and frames. The locale \<open>frame_reader\<close> gives the round trip of a sequence of frames
    cut into arbitrary reads; both readers interpret it.
  \<^item> \<open>Nats_Policy\<close> (\<open>nats_policy.rs\<close>): which broker addresses may be used without TLS.
  \<^item> \<open>Hook_Registry\<close> (\<open>hook/src/registry.rs\<close>, \<open>revoke_with\<close> and \<open>atomic_write_json\<close> of
    \<open>hook/src/main.rs\<close>): the registry file with its locks and a disk that may fail before or after
    the rename; pinning, the authorization gate, revocation. \<open>registry_step\<close> is the step relation
    of all transactions; the theorems on revocation hold for every interleaving of them.
  \<^item> \<open>Transport_Nats\<close> (\<open>transport/src/nats.rs\<close>, \<open>lib.rs\<close>): subjects and their coverage, repair of
    stream and consumer, connection options, and the request round trips as functions of the
    messages with their arrival times.
  \<^item> \<open>Hook_Decision\<close> (\<open>hook/src/main.rs\<close>): the classes of errors, \<open>apply_decision\<close>,
    \<open>apply_auth_decision\<close>, \<open>first_valid_decision\<close>. Each candidate is checked at its own time, in its own
    environment, and may be cut off by the deadline. The locale \<open>decision_lane\<close> is the contract of one
    check, interpreted on both lanes.
  \<^item> \<open>Hook_Request\<close> (\<open>hook/src/main.rs\<close>): \<open>try_agent_socket\<close>, \<open>nats_fallback\<close>,
    \<open>execute_request_at\<close>, \<open>execute_auth_request_at\<close>: one whole invocation. \<open>with_liveness\<close> is the select
    between the wait and the watch on the PAM caller, whose choice is an argument.
  \<^item> \<open>Challenges\<close> (\<open>protocol/src/lib.rs\<close>): the challenge of a browser ceremony, and what a signature of
    either kind of device stands for: two equal messages of a native key are one request, and a
    WebAuthn decision verifies only if the authenticator answered that lane's message for it.
  \<^item> \<open>Agent_Identity\<close> (\<open>agent/src/lib.rs\<close>): an agent's identity, its enrollment, opening a request
    and answering it. Composed with the hook: what the agent answers, the hook accepts.
  \<^item> \<open>Agent_Store\<close> (\<open>agent/src/lib.rs\<close>, \<open>secret_store.rs\<close>): the identity file on a file system in
    which every step may fail, and the migration of its secret to the keychain. The locale
    \<open>secret_store\<close> is the contract of a store, interpreted on the memory store.
  \<^item> \<open>Agent_Admission\<close> (\<open>agent/src/main.rs\<close>): permits, the claim table and the two claim
    resolutions; \<open>agent_step\<close> is the step relation of all deliveries, and \<open>spec_claim\<close> the abstract
    machine of one request id that a claim refines.
  \<^item> \<open>Agent_Prompt\<close> (\<open>agent/src/main.rs\<close>, \<open>touchid.rs\<close>, the canceller of \<open>enclave/src/mac.rs\<close>): the
    texts shown to the user, the prompts with their deadlines, and the decisions made of them. The
    reader thread, the channel of eight lines and its draining before a prompt are part of the
    prompt, and the deadline task of a sheet may set its flag late.
  \<^item> \<open>Server_Tables\<close>, \<open>Server_Requests\<close>, \<open>Server_Push\<close>, \<open>Server_Enrollment\<close> (\<open>server/src/db.rs\<close>):
    the tables of the server's store as lists of rows with the columns of the schema, and each
    query and update as a function on them. A transaction that fails returns no new store.
    \<open>Server_Db\<close>: the step relation \<open>db_step\<close> of all operations and the invariant \<open>db_ok\<close>.
    \<open>Server_Guarantees\<close>: what holds in every reachable store; \<open>spec_queue\<close> is the write-once
    register that the decisions of a request refine.
    \<open>Server_Http\<close> (\<open>server/src/main.rs\<close>): the handlers of the HTTP API. A handler calls the store
    several times and other tasks run in between, so a theorem about it names what they keep; \<open>seen n\<close>
    is the store the n-th turn of a run works on. The
    locale \<open>store_invariant\<close> is the contract of the store with its users, interpreted on reachability
    and on the integrity of the tables. \<open>Server_Workers\<close> (same file): the consumers of requests and
    enrollments and the workers of the outboxes and of Web Push, one function per turn; with the API
    they are the tasks of the server, and every list of tasks keeps the store reachable.

  \<^item> \<open>Pam_Context\<close> (\<open>pam/src/lib.rs\<close>): the PAM items, the request to the helper, the record of one PAM
    handle, the checks of the helper's path. \<open>Pam_Helper\<close> (same file): the run of the helper as a
    loop over turns, each with what the kernel answers in it; the guard of its process group, the
    signal mask and the descriptors it inherits. A wait the kernel fails is recorded as such.

  \<^item> \<open>Hook_Input\<close> (\<open>hook/src/main.rs\<close>): the payload the plugin pipes to the hook, \<open>build_request\<close>
    and \<open>cmd_check\<close>. \<open>Sudo_Plugin\<close> (\<open>plugin/src/lib.rs\<close>): the arrays sudo hands over, the identity kept
    from \<open>open\<close> to \<open>check\<close>, the payload; composed with the hook, the request is the invocation byte for
    byte. \<open>Plugin_Race\<close> (same file): the race of the hook and the password process as a loop over
    turns, refined by \<open>race_spec\<close>, with the clean-up of children and terminal; the wait that ends a
    child is recorded with the kernel's answer, an error included.
    \<open>Plugin_Password\<close> (same file): the password process, that is the reader of one line with its
    erasing, the conversation PAM calls back and the sequence of PAM calls; composed with the race.
    A reader that returns is told from one that its parent terminates with \<open>SIGTERM\<close>.

  \<^item> \<open>Relay\<close> (\<open>relay/src/lib.rs\<close>): the signed frames of a browser ceremony and the check of the
    authorization URL, whose acceptance condition is exact. \<open>Relay_Ceremony\<close> (\<open>relay/src/main.rs\<close>):
    both sides of a ceremony over one subscription, with the log of what each publishes, starts and
    shows. \<open>await\<close> and \<open>until\<close> model the timeouts and selects: the work under them can be dropped at
    any await. The receiver reads the clock several times per frame. \<open>Relay_Local\<close> (same file): the ceremony on one Mac, the process group of gcloud and the
    forwarding of a callback connection.

  What is shown. End to end: an invocation succeeds only with a proof by a device of the snapshot
  that the gate then confirmed, and it is denied only on the evidence of such a device; nothing a
  stranger sends changes the outcome. Below that: soundness of every verifier, exact
  characterizations of the validators, round trips of sealing and framing, the invariants of the
  registry, and termination of every loop. For the agent: a verdict is signed only for an answer
  given in time, one prompt and one answer per request in every interleaving, bounded work, and a
  closed loop from sealing to acceptance. For the server: the invariant of the store, finality and
  ownership of recorded verdicts, the effect of revocation on every path, and over HTTP no decision
  without the token of the recipient it names; a delivery is acknowledged only when stored, a
  revocation confirmed only when stored, and a push goes only to public addresses of a device that
  wants it. For the plugin: what is
  approved is what runs, the password lane needs PAM, every child is waited for, a password reader that
  returns has erased its buffers, and the terminal is restored. For the relay: a browser opens and
  gcloud runs only with the consent of the Mac's owner, and a ceremony has time to run only once.

  Some theorems show where the code falls short of its comments or its purpose: the tool lane does
  not see the browsers' cross-origin flag, two labels of failed pushes are never recorded, an approval
  that cannot be judged ends the hook's wait, the ninth line typed ahead answers an agent's prompt, a
  probe replayed in its last second is served again without time left, and after a complete line the
  parent and not the password reader restores the terminal.

  Conventions. Times of waits are natural numbers in milliseconds (nanoseconds in \<open>Agent_Prompt\<close>,
  as in \<open>remaining_until\<close>) and a clock only moves forward;
  timestamps on the wire are integers with the 64-bit operations written out. A read, a lock
  attempt or a broker answer is an argument, so a theorem holds for every behaviour of the
  outside. Loops are structural recursion over the events, or recursive functions with a measure
  (the distance to a deadline for \<open>acquire_until\<close> and \<open>drain_consumer\<close>, the remaining messages for
  \<open>decision_items\<close>); there is no fuel except the number of frames to read in \<open>read_frames\<close>. Messages
  of errors keep their fixed text. A \<open>String\<close> is its list of bytes.

  Not modelled: logging and terminal output of the hook (only the progress events are), the C entry
  points of plugin and PAM module, the command lines, the agent's connection handling, the
  enrollment verbs and sudo-lane classification of the hook, configuration and start-up of
  the server, web pages, schema upgrades and restore snapshots, the calls into the Secure Enclave frameworks and the
  vendored Web Push client.
\<close>

end
